(* ===== verification/Prelude.thy ===== *)
theory Prelude
  imports Main "HOL-Library.Word" "HOL-Library.Multiset"
begin

text \<open>
  Shared vocabulary of the development: fixed-width integer types, the error category and the
  result type of \<^verbatim>\<open>include/media_transcode/Result.h\<close>, the bounds of the signed 64-bit type, and
  the generic lemmas on lists, options and words that the component theories use.
  Diagnostic message texts and native codes of an \<^verbatim>\<open>ErrorInfo\<close> are not modelled: no control flow
  of the modelled code depends on them.
\<close>

section \<open>Types shared by the components\<close>

type_synonym u8 = "8 word"
type_synonym u16 = "16 word"
type_synonym u32 = "32 word"
type_synonym u64 = "64 word"

datatype ErrorCode =
    ErrNone | InvalidArgument | NotInitialized | AllocationFailed | Unsupported | FFmpegFailure
  | IoFailure | HardwareUnavailable | InternalError | Cancelled | WouldBlock

text \<open>\<^verbatim>\<open>Result<T>\<close>: \<open>Inl\<close> carries the error category, \<open>Inr\<close> the value. \<^verbatim>\<open>Status\<close> is \<^verbatim>\<open>Result<void>\<close>.\<close>

type_synonym 'a Result = "ErrorCode + 'a"
type_synonym Status = "unit Result"

abbreviation success :: "'a \<Rightarrow> 'a Result" where
  "success v \<equiv> Inr v"

abbreviation failure :: "ErrorCode \<Rightarrow> 'a Result" where
  "failure e \<equiv> Inl e"

text \<open>Signed 64-bit values are integers kept inside these bounds by the checks the code makes.\<close>

definition INT64_MIN :: int where
  "INT64_MIN = - 9223372036854775808"

definition INT64_MAX :: int where
  "INT64_MAX = 9223372036854775807"

definition UINT64_MAX :: int where
  "UINT64_MAX = 18446744073709551615"

definition in_int64 :: "int \<Rightarrow> bool" where
  "in_int64 x \<longleftrightarrow> INT64_MIN \<le> x \<and> x \<le> INT64_MAX"

named_theorems int64_bounds "the numeric bounds of the signed and unsigned 64-bit types"

lemmas int64_bound_defs [int64_bounds] =
  INT64_MIN_def INT64_MAX_def UINT64_MAX_def in_int64_def

section \<open>Lists\<close>

text \<open>
  Updating through a pointer into a vector that a search loop returned: the first element that
  satisfies the predicate is replaced.
\<close>

fun map_first :: "('a \<Rightarrow> bool) \<Rightarrow> ('a \<Rightarrow> 'a) \<Rightarrow> 'a list \<Rightarrow> 'a list" where
  "map_first P f [] = []"
| "map_first P f (x # xs) = (if P x then f x # xs else x # map_first P f xs)"

lemma length_map_first [simp]: "length (map_first P f xs) = length xs"
  by (induction xs) auto

lemma map_map_first_same:
  "(\<And>x. P x \<Longrightarrow> h (f x) = h x) \<Longrightarrow> map h (map_first P f xs) = map h xs"
  by (induction xs) auto

lemma set_map_firstD: "y \<in> set (map_first P f xs) \<Longrightarrow> y \<in> set xs \<or> (\<exists>x\<in>set xs. P x \<and> y = f x)"
  by (induction xs) (auto split: if_splits)

lemma set_map_first_distinct:
  assumes "distinct (map h xs)" and "x \<in> set xs" and "\<And>y. P y \<longleftrightarrow> h y = h x"
  shows "set (map_first P f xs) = insert (f x) (set xs - {x})"
  using assms(1,2)
proof (induction xs)
  case Nil
  then show ?case by simp
next
  case (Cons a xs)
  show ?case
  proof (cases "P a")
    case True
    then have "h a = h x" using assms(3) by simp
    then have "a = x" using Cons.prems by (auto simp: image_iff)
    moreover have "x \<notin> set xs" using Cons.prems \<open>a = x\<close> by auto
    ultimately show ?thesis using True by auto
  next
    case False
    then have "a \<noteq> x" using assms(3) by auto
    then show ?thesis using Cons False by auto
  qed
qed

lemma set_map_first_ex:
  "x \<in> set xs \<Longrightarrow> \<exists>y\<in>set (map_first P f xs). y = x \<or> (P x \<and> y = f x)"
  by (induction xs) auto

lemma mset_concat_map_first:
  assumes "\<exists>x\<in>set xs. P x" and "\<And>x. mset (h (f x)) = mset extra + mset (h x)"
  shows "mset (concat (map h (map_first P f xs))) = mset extra + mset (concat (map h xs))"
  using assms(1) by (induction xs) (auto simp: assms(2))

lemma distinct_concat_filter:
  "distinct (map h (concat (map k xs))) \<Longrightarrow> distinct (map h (concat (map k (filter Q xs))))"
  by (induction xs) auto

lemma map_first_none: "\<forall>x\<in>set xs. \<not> P x \<Longrightarrow> map_first P f xs = xs"
  by (induction xs) auto

lemma find_distinct:
  assumes "distinct (map h xs)" and "x \<in> set xs"
  shows "List.find (\<lambda>y. h y = h x) xs = Some x"
  using assms by (induction xs) (auto simp: image_iff)

lemma find_SomeD: "List.find P xs = Some x \<Longrightarrow> x \<in> set xs \<and> P x"
  by (induction xs) (auto split: if_splits)

lemma find_append:
  "List.find P (xs @ ys) = (case List.find P xs of Some x \<Rightarrow> Some x | None \<Rightarrow> List.find P ys)"
  by (induction xs) auto

section \<open>Words\<close>

lemma word_less_max_iff: "(x :: 'a::len word) < - 1 \<longleftrightarrow> x \<noteq> - 1"
  by (metis word_not_simps(3) word_order.not_eq_extremum)

lemma unat_succ:
  fixes x :: "'a::len word"
  assumes "x \<noteq> - 1"
  shows "unat (x + 1) = Suc (unat x)"
proof -
  have "x + 1 \<noteq> 0"
    using assms by (metis add_eq_0_iff2)
  then show ?thesis
    by (metis Suc_eq_plus1 add.commute unatSuc)
qed

lemma word_less_succ_iff:
  fixes x y :: "'a::len word"
  assumes "x \<noteq> - 1"
  shows "y < x + 1 \<longleftrightarrow> y \<le> x"
  using unat_succ [OF assms] by (simp add: word_less_nat_alt word_le_nat_alt less_Suc_eq_le)

lemma unat_of_int64:
  "0 \<le> k \<Longrightarrow> k < 18446744073709551616 \<Longrightarrow> unat (word_of_int k :: u64) = nat k"
  by (simp add: unat_eq_nat_uint uint_word_of_int)

end
