(* ===== verification/Graph_Types.thy ===== *)
theory Graph_Types
  imports Prelude
begin

text \<open>
  The data model shared by the graph core (\<^verbatim>\<open>src/internal/graph/model\<close> and the structs of
  \<^verbatim>\<open>src/internal/graph/core\<close>): identifiers, descriptors, queue and edge policies, the payload
  credit plan, ports, nodes and edges. Struct fields keep the source's names after a prefix that
  names the struct. Identifiers and byte counters keep their width; a C++ \<^verbatim>\<open>int\<close> field that is only
  stored and compared is an \<open>int\<close>. \<^verbatim>\<open>MediaNodeKind\<close> is its numeric enumerator value.
\<close>

section \<open>Identifiers\<close>

datatype MediaNodeId = MediaNodeId (node_value: u32)
datatype MediaPortId = MediaPortId (port_value: u32)
datatype MediaEdgeId = MediaEdgeId (edge_value: u32)

definition invalidValue :: u32 where
  "invalidValue = - 1"

definition invalidNodeId :: MediaNodeId where
  "invalidNodeId = MediaNodeId invalidValue"

definition invalidPortId :: MediaPortId where
  "invalidPortId = MediaPortId invalidValue"

definition invalidEdgeId :: MediaEdgeId where
  "invalidEdgeId = MediaEdgeId invalidValue"

definition nodeId_isValid :: "MediaNodeId \<Rightarrow> bool" where
  "nodeId_isValid i \<longleftrightarrow> node_value i \<noteq> invalidValue"

definition portId_isValid :: "MediaPortId \<Rightarrow> bool" where
  "portId_isValid i \<longleftrightarrow> port_value i \<noteq> invalidValue"

definition edgeId_isValid :: "MediaEdgeId \<Rightarrow> bool" where
  "edgeId_isValid i \<longleftrightarrow> edge_value i \<noteq> invalidValue"

lemmas id_valid_defs =
  nodeId_isValid_def portId_isValid_def edgeId_isValid_def
  invalidNodeId_def invalidPortId_def invalidEdgeId_def

text \<open>The ordering operators the header declares on the three identifier types, and the orders they give.\<close>

definition node_less :: "MediaNodeId \<Rightarrow> MediaNodeId \<Rightarrow> bool" where
  "node_less a b \<longleftrightarrow> node_value a < node_value b"

definition port_less :: "MediaPortId \<Rightarrow> MediaPortId \<Rightarrow> bool" where
  "port_less a b \<longleftrightarrow> port_value a < port_value b"

definition edge_less :: "MediaEdgeId \<Rightarrow> MediaEdgeId \<Rightarrow> bool" where
  "edge_less a b \<longleftrightarrow> edge_value a < edge_value b"

instantiation MediaNodeId :: linorder
begin
definition less_MediaNodeId :: "MediaNodeId \<Rightarrow> MediaNodeId \<Rightarrow> bool" where
  "less_MediaNodeId = node_less"
definition less_eq_MediaNodeId :: "MediaNodeId \<Rightarrow> MediaNodeId \<Rightarrow> bool" where
  "less_eq_MediaNodeId a b \<longleftrightarrow> a = b \<or> node_less a b"
instance
  by standard (auto simp: less_eq_MediaNodeId_def less_MediaNodeId_def node_less_def intro: MediaNodeId.expand)
end

instantiation MediaPortId :: linorder
begin
definition less_MediaPortId :: "MediaPortId \<Rightarrow> MediaPortId \<Rightarrow> bool" where
  "less_MediaPortId = port_less"
definition less_eq_MediaPortId :: "MediaPortId \<Rightarrow> MediaPortId \<Rightarrow> bool" where
  "less_eq_MediaPortId a b \<longleftrightarrow> a = b \<or> port_less a b"
instance
  by standard (auto simp: less_eq_MediaPortId_def less_MediaPortId_def port_less_def intro: MediaPortId.expand)
end

instantiation MediaEdgeId :: linorder
begin
definition less_MediaEdgeId :: "MediaEdgeId \<Rightarrow> MediaEdgeId \<Rightarrow> bool" where
  "less_MediaEdgeId = edge_less"
definition less_eq_MediaEdgeId :: "MediaEdgeId \<Rightarrow> MediaEdgeId \<Rightarrow> bool" where
  "less_eq_MediaEdgeId a b \<longleftrightarrow> a = b \<or> edge_less a b"
instance
  by standard (auto simp: less_eq_MediaEdgeId_def less_MediaEdgeId_def edge_less_def intro: MediaEdgeId.expand)
end

section \<open>Enumerations\<close>

datatype MediaStreamKind =
    StreamKind_Unknown | StreamKind_Video | StreamKind_Audio | StreamKind_Subtitle
  | StreamKind_Data | StreamKind_Attachment | StreamKind_Control | StreamKind_Metadata
  | StreamKind_Any

datatype MediaPayloadKind =
    PayloadKind_Unknown | PayloadKind_FormatContext | PayloadKind_StreamDescriptor
  | PayloadKind_CodecContext | PayloadKind_CodecParameters | PayloadKind_Packet
  | PayloadKind_Frame | PayloadKind_TimeDescriptor | PayloadKind_HardwareDescriptor
  | PayloadKind_AudioLayoutDescriptor | PayloadKind_VideoFormatDescriptor
  | PayloadKind_ControlSignal | PayloadKind_GraphEvent | PayloadKind_DiagnosticRecord
  | PayloadKind_OutputByteSink | PayloadKind_ProjectMpegTsRuntimePlan
  | PayloadKind_TsAccessUnit | PayloadKind_ScheduledDatagramBatch
  | PayloadKind_WireDatagramBatch | PayloadKind_ScheduledWireDatagramBatch
  | PayloadKind_DatagramShapingPlan | PayloadKind_DatagramTransportPlan
  | PayloadKind_MpegTsProtocolDatagramBatch

datatype MediaEdgeKind =
    EdgeKind_Unknown | EdgeKind_InputPacket | EdgeKind_RawFrame | EdgeKind_HardwareFrame
  | EdgeKind_SoftwareFrame | EdgeKind_DecoderConfig | EdgeKind_EncoderConfig
  | EdgeKind_StreamConfig | EdgeKind_EncodedPacket | EdgeKind_CopiedPacket
  | EdgeKind_MuxedPacket | EdgeKind_Metadata | EdgeKind_Control | EdgeKind_Event
  | EdgeKind_ScheduledDatagramBatch

datatype MediaPortDirection = Direction_Unknown | Direction_Input | Direction_Output

datatype MediaQueueMode =
    QueueMode_Unknown | QueueMode_Direct | QueueMode_Blocking | QueueMode_SpscRing
  | QueueMode_MpscRing

datatype MediaQueueOverflowPolicy =
    BlockProducer | DropNewest | DropOldest | DropNonKeyFrame | AbortQueue

datatype MediaQueueOrderingPolicy = Ordering_Fifo | Ordering_Timestamp | Ordering_Priority

datatype MediaQueueStorageMode = Storage_Unknown | Storage_Deque | Storage_AtomicPrepared

datatype MediaBackpressureMode =
    Backpressure_None | Backpressure_Block | Backpressure_Drop | Backpressure_Adaptive
  | Backpressure_Abort

datatype MediaDropMode =
    DropMode_None | DropMode_DropNewest | DropMode_DropOldest | DropMode_DropNonKeyFrame
  | DropMode_DropUntilKeyFrame | DropMode_DropLateFrame | DropMode_Custom

datatype MediaDropTarget =
    DropTarget_Any | DropTarget_Packet | DropTarget_Frame | DropTarget_VideoOnly
  | DropTarget_AudioOnly | DropTarget_NonKeyVideoOnly

datatype MediaBufferOwnership =
    Ownership_Unknown | Ownership_MoveOnly | Ownership_SharedRef | Ownership_Borrowed

datatype MediaBufferPoolMode =
    PoolMode_None | PoolMode_PerChannel | PoolMode_PerNode | PoolMode_SharedGraphPool

datatype MediaBufferLifetime =
    Lifetime_Unknown | Lifetime_SingleConsumer | Lifetime_MultiConsumer | Lifetime_UntilFlush
  | Lifetime_UntilGraphStop

datatype MediaHardwareDeviceKind =
    Device_Unknown | Device_None | Device_D3D11VA | Device_QSV | Device_CUDA | Device_VAAPI
  | Device_DRMPrime | Device_RKMPP | Device_VideoToolbox | Device_MediaCodec

datatype MediaHardwareFrameKind =
    FrameKind_Unknown | FrameKind_Software | FrameKind_Hardware | FrameKind_HardwareMapped

datatype MediaHardwareTransferDirection =
    Transfer_Unknown | Transfer_None | Transfer_Upload | Transfer_Download | Transfer_Map
  | Transfer_Unmap

datatype MediaCodecDomain =
    CodecDomain_Unknown | CodecDomain_Video | CodecDomain_Audio | CodecDomain_Subtitle
  | CodecDomain_Data

datatype MediaCodecOperation =
    CodecOp_Unknown | CodecOp_Decode | CodecOp_Encode | CodecOp_Copy | CodecOp_Mux | CodecOp_Demux

datatype MediaSampleFormatKind =
    SampleFormat_Unknown | SampleFormat_Packed | SampleFormat_Planar

type_synonym MediaNodeKind = nat

definition NodeKind_Unknown :: MediaNodeKind where
  "NodeKind_Unknown = 0"

section \<open>Descriptors\<close>

definition invalidMediaTimeValue :: int where
  "invalidMediaTimeValue = INT64_MIN"

definition invalidMediaStreamIndex :: int where
  "invalidMediaStreamIndex = - 1"

record MediaRational =
  rational_num :: int
  rational_den :: int

definition rational_isValid :: "MediaRational \<Rightarrow> bool" where
  "rational_isValid r \<longleftrightarrow> rational_den r \<noteq> 0"

definition rational_isKnown :: "MediaRational \<Rightarrow> bool" where
  "rational_isKnown r \<longleftrightarrow> rational_num r \<noteq> 0 \<and> rational_den r \<noteq> 0"

definition default_MediaRational :: MediaRational where
  "default_MediaRational = \<lparr>rational_num = 0, rational_den = 1\<rparr>"

record MediaSize =
  size_width :: int
  size_height :: int

definition size_isValid :: "MediaSize \<Rightarrow> bool" where
  "size_isValid s \<longleftrightarrow> size_width s > 0 \<and> size_height s > 0"

record MediaTimestampRange =
  range_start :: int
  range_end :: int

record MediaTimeDescriptor =
  time_timeBase :: MediaRational
  time_frameRate :: MediaRational
  time_range :: MediaTimestampRange
  time_startTime :: int
  time_duration :: int
  time_ptsOffset :: int
  time_monotonicPtsRequired :: bool
  time_allowNegativeStartTime :: bool
  time_realtimeClockDriven :: bool

definition default_MediaTimeDescriptor :: MediaTimeDescriptor where
  "default_MediaTimeDescriptor =
     \<lparr>time_timeBase = default_MediaRational, time_frameRate = default_MediaRational,
      time_range = \<lparr>range_start = invalidMediaTimeValue, range_end = invalidMediaTimeValue\<rparr>,
      time_startTime = invalidMediaTimeValue, time_duration = 0, time_ptsOffset = 0,
      time_monotonicPtsRequired = True, time_allowNegativeStartTime = False,
      time_realtimeClockDriven = False\<rparr>"

record MediaHardwareDescriptor =
  hw_deviceKind :: MediaHardwareDeviceKind
  hw_frameKind :: MediaHardwareFrameKind
  hw_transferDirection :: MediaHardwareTransferDirection
  hw_deviceName :: string
  hw_pixelFormat :: string
  hw_surfacePixelFormat :: string
  hw_framesContextName :: string
  hw_size :: MediaSize
  hw_zeroCopyPreferred :: bool
  hw_requiresHardwareDeviceContext :: bool
  hw_requiresHardwareFramesContext :: bool

definition default_MediaHardwareDescriptor :: MediaHardwareDescriptor where
  "default_MediaHardwareDescriptor =
     \<lparr>hw_deviceKind = Device_Unknown, hw_frameKind = FrameKind_Unknown,
      hw_transferDirection = Transfer_Unknown, hw_deviceName = [], hw_pixelFormat = [],
      hw_surfacePixelFormat = [], hw_framesContextName = [],
      hw_size = \<lparr>size_width = 0, size_height = 0\<rparr>, hw_zeroCopyPreferred = True,
      hw_requiresHardwareDeviceContext = False, hw_requiresHardwareFramesContext = False\<rparr>"

record MediaCodecDescriptor =
  codec_domain :: MediaCodecDomain
  codec_operation :: MediaCodecOperation
  codec_codecName :: string
  codec_codecLongName :: string
  codec_profile :: string
  codec_bitrate :: int
  codec_level :: int
  codec_lossless :: bool
  codec_passthrough :: bool

record MediaVideoFormatDescriptor =
  video_size :: MediaSize
  video_pixelFormat :: string
  video_colorSpace :: string
  video_colorRange :: string
  video_colorPrimaries :: string
  video_colorTransfer :: string
  video_sampleAspectRatio :: MediaRational
  video_frameRate :: MediaRational

record MediaAudioFormatDescriptor =
  audio_sampleRate :: int
  audio_channels :: int
  audio_channelLayout :: string
  audio_sampleFormat :: string
  audio_sampleFormatKind :: MediaSampleFormatKind

definition audio_hasKnownLayout :: "MediaAudioFormatDescriptor \<Rightarrow> bool" where
  "audio_hasKnownLayout a \<longleftrightarrow> audio_sampleRate a > 0 \<and> audio_channels a > 0"

record MediaFormatDescriptor =
  fmt_streamKind :: MediaStreamKind
  fmt_streamIndex :: int
  fmt_codec :: MediaCodecDescriptor
  fmt_video :: MediaVideoFormatDescriptor
  fmt_audio :: MediaAudioFormatDescriptor
  fmt_time :: MediaTimeDescriptor
  fmt_hardware :: MediaHardwareDescriptor
  fmt_isInput :: bool
  fmt_isOutput :: bool
  fmt_isRealtime :: bool

definition default_MediaFormatDescriptor :: MediaFormatDescriptor where
  "default_MediaFormatDescriptor =
     \<lparr>fmt_streamKind = StreamKind_Unknown, fmt_streamIndex = invalidMediaStreamIndex,
      fmt_codec =
        \<lparr>codec_domain = CodecDomain_Unknown, codec_operation = CodecOp_Unknown,
         codec_codecName = [], codec_codecLongName = [], codec_profile = [],
         codec_bitrate = 0, codec_level = 0, codec_lossless = False,
         codec_passthrough = False\<rparr>,
      fmt_video =
        \<lparr>video_size = \<lparr>size_width = 0, size_height = 0\<rparr>, video_pixelFormat = [],
         video_colorSpace = [], video_colorRange = [], video_colorPrimaries = [],
         video_colorTransfer = [], video_sampleAspectRatio = default_MediaRational,
         video_frameRate = default_MediaRational\<rparr>,
      fmt_audio =
        \<lparr>audio_sampleRate = 0, audio_channels = 0, audio_channelLayout = [],
         audio_sampleFormat = [], audio_sampleFormatKind = SampleFormat_Unknown\<rparr>,
      fmt_time = default_MediaTimeDescriptor, fmt_hardware = default_MediaHardwareDescriptor,
      fmt_isInput = False, fmt_isOutput = False, fmt_isRealtime = False\<rparr>"

section \<open>Policies\<close>

record MediaBackpressurePolicy =
  bp_mode :: MediaBackpressureMode
  bp_lowWatermark :: nat
  bp_highWatermark :: nat
  bp_criticalWatermark :: nat
  bp_propagateUpstream :: bool
  bp_reportMetrics :: bool
  bp_realtimePriority :: bool

definition default_MediaBackpressurePolicy :: MediaBackpressurePolicy where
  "default_MediaBackpressurePolicy =
     \<lparr>bp_mode = Backpressure_Block, bp_lowWatermark = 0, bp_highWatermark = 0,
      bp_criticalWatermark = 0, bp_propagateUpstream = True, bp_reportMetrics = True,
      bp_realtimePriority = False\<rparr>"

record MediaDropPolicy =
  drop_mode :: MediaDropMode
  drop_target :: MediaDropTarget
  drop_maxDropCountPerBurst :: nat
  drop_preserveKeyFrames :: bool
  drop_preserveAudioContinuity :: bool
  drop_emitDropDiagnostics :: bool

record MediaQueuePolicy =
  qp_mode :: MediaQueueMode
  qp_overflowPolicy :: MediaQueueOverflowPolicy
  qp_orderingPolicy :: MediaQueueOrderingPolicy
  qp_storageMode :: MediaQueueStorageMode
  qp_capacity :: nat
  qp_reserveCapacity :: nat
  qp_dropPolicy :: MediaDropPolicy
  qp_backpressurePolicy :: MediaBackpressurePolicy
  qp_bounded :: bool
  qp_preserveOrdering :: bool
  qp_allowFlushControlBypass :: bool
  qp_collectMetrics :: bool

definition default_MediaQueuePolicy :: MediaQueuePolicy where
  "default_MediaQueuePolicy =
     \<lparr>qp_mode = QueueMode_Blocking, qp_overflowPolicy = BlockProducer,
      qp_orderingPolicy = Ordering_Fifo, qp_storageMode = Storage_Unknown, qp_capacity = 16,
      qp_reserveCapacity = 0,
      qp_dropPolicy =
        \<lparr>drop_mode = DropMode_None, drop_target = DropTarget_Any,
         drop_maxDropCountPerBurst = 0, drop_preserveKeyFrames = True,
         drop_preserveAudioContinuity = True, drop_emitDropDiagnostics = True\<rparr>,
      qp_backpressurePolicy = default_MediaBackpressurePolicy, qp_bounded = True,
      qp_preserveOrdering = True, qp_allowFlushControlBypass = True,
      qp_collectMetrics = True\<rparr>"

definition isBoundedQueue :: "MediaQueuePolicy \<Rightarrow> bool" where
  "isBoundedQueue p \<longleftrightarrow> qp_bounded p \<and> qp_capacity p > 0"

record MediaMemoryBudget =
  budget_maxBytes :: u64
  budget_softLimitBytes :: u64
  budget_reservedBytes :: u64
  budget_maxBuffers :: nat
  budget_preallocatedBuffers :: nat
  budget_enforceHardLimit :: bool
  budget_allowDynamicGrowth :: bool

record MediaBufferPolicy =
  buf_ownership :: MediaBufferOwnership
  buf_poolMode :: MediaBufferPoolMode
  buf_lifetime :: MediaBufferLifetime
  buf_memoryKind :: MediaHardwareFrameKind
  buf_memoryBudget :: MediaMemoryBudget
  buf_sharedAllocationGroup :: string
  buf_allowPoolReuse :: bool
  buf_requireWritable :: bool
  buf_zeroCopyPreferred :: bool
  buf_allowHardwareFrames :: bool
  buf_allowSoftwareTransfer :: bool

record MediaEdgePolicy =
  ep_queuePolicy :: MediaQueuePolicy
  ep_bufferPolicy :: MediaBufferPolicy
  ep_backpressurePolicy :: MediaBackpressurePolicy

definition default_MediaEdgePolicy :: MediaEdgePolicy where
  "default_MediaEdgePolicy =
     \<lparr>ep_queuePolicy = default_MediaQueuePolicy,
      ep_bufferPolicy =
        \<lparr>buf_ownership = Ownership_SharedRef, buf_poolMode = PoolMode_PerChannel,
         buf_lifetime = Lifetime_SingleConsumer, buf_memoryKind = FrameKind_Unknown,
         buf_memoryBudget =
           \<lparr>budget_maxBytes = 0, budget_softLimitBytes = 0, budget_reservedBytes = 0,
            budget_maxBuffers = 0, budget_preallocatedBuffers = 0,
            budget_enforceHardLimit = False, budget_allowDynamicGrowth = True\<rparr>,
         buf_sharedAllocationGroup = [], buf_allowPoolReuse = True,
         buf_requireWritable = False, buf_zeroCopyPreferred = True,
         buf_allowHardwareFrames = True, buf_allowSoftwareTransfer = True\<rparr>,
      ep_backpressurePolicy = default_MediaBackpressurePolicy\<rparr>"

text \<open>\<^verbatim>\<open>MediaAtomicOutputPolicyContract::accepts\<close>.\<close>

definition atomicOutputPolicy_accepts :: "MediaEdgePolicy \<Rightarrow> bool" where
  "atomicOutputPolicy_accepts policy \<longleftrightarrow>
     (let queue = ep_queuePolicy policy in
      qp_bounded queue \<and> qp_capacity queue > 0 \<and>
      qp_storageMode queue = Storage_AtomicPrepared \<and>
      qp_overflowPolicy queue = BlockProducer \<and>
      qp_orderingPolicy queue = Ordering_Fifo \<and>
      qp_preserveOrdering queue)"

end
