(* ===== verification/Graph_Model.thy ===== *)
theory Graph_Model
  imports Graph_Types
begin

text \<open>
  The media graph itself: \<^verbatim>\<open>core/MediaPort.h\<close>, \<^verbatim>\<open>core/MediaNode.h\<close>, \<^verbatim>\<open>core/MediaEdge.h\<close>,
  \<^verbatim>\<open>core/MediaNodeOptions.cpp\<close>, \<^verbatim>\<open>model/MediaGraphPayloadCreditPlan.h\<close> and every operation of
  \<^verbatim>\<open>core/MediaGraph.cpp\<close>. A mutating method takes the graph and returns the new graph with the
  method's result; a pointer returned by a search is an \<open>option\<close>, and an update through such a
  pointer replaces the element the search returns. The well-formedness invariant \<open>graph_wf\<close> says
  that identifiers are valid, unique and below the next counter, that ports belong to their node,
  and that every edge joins an existing output port to an existing input port that accepts it.
\<close>

section \<open>Node options\<close>

type_synonym MediaNodeOptions = "string \<rightharpoonup> string"

definition options_set :: "MediaNodeOptions \<Rightarrow> string \<Rightarrow> string \<Rightarrow> MediaNodeOptions" where
  "options_set m key value = (if key = [] then m else m(key \<mapsto> value))"

definition options_has :: "MediaNodeOptions \<Rightarrow> string \<Rightarrow> bool" where
  "options_has m key \<longleftrightarrow> m key \<noteq> None"

definition options_value :: "MediaNodeOptions \<Rightarrow> string \<Rightarrow> string \<Rightarrow> string" where
  "options_value m key missingValue = (case m key of None \<Rightarrow> missingValue | Some v \<Rightarrow> v)"

lemma options_value_set:
  "key \<noteq> [] \<Longrightarrow>
   options_value (options_set m key v) k d = (if k = key then v else options_value m k d)"
  by (simp add: options_value_def options_set_def)

section \<open>Payload credit plan\<close>

datatype MediaGraphPayloadCreditMode = NonRealtimeNotApplicable | RealtimeRequired

datatype MediaGraphPayloadCreditIntegration = Integration_Incomplete | Integration_Complete

datatype MediaGraphPayloadAllocationAccounting =
    EngineManagedBytesAndObject | ObservedOnlyExternalBytesAndEngineManagedObject

datatype MediaFrameCreditAllocationScope = EngineLogicalBytes | ExternalDeviceObservedOnly

record MediaFrameCreditContract =
  fc_allocationScope :: MediaFrameCreditAllocationScope
  fc_maximumLogicalBytes :: u64
  fc_maximumObjectsPerAllocation :: u64
  fc_authority :: string

definition frameCredit_valid :: "MediaFrameCreditContract \<Rightarrow> bool" where
  "frameCredit_valid c \<longleftrightarrow>
     fc_maximumLogicalBytes c > 0 \<and> fc_maximumObjectsPerAllocation c = 1 \<and> fc_authority c \<noteq> []"

record MediaGraphPayloadProducerStrategy =
  ps_nodeId :: MediaNodeId
  ps_streamKind :: MediaStreamKind
  ps_payloadKind :: MediaPayloadKind
  ps_accounting :: MediaGraphPayloadAllocationAccounting
  ps_frameCredit :: "MediaFrameCreditContract option"
  ps_maximumReservationBytes :: u64
  ps_runtimeIntegrated :: bool
  ps_authority :: string

definition producerStrategy_valid :: "MediaGraphPayloadProducerStrategy \<Rightarrow> bool" where
  "producerStrategy_valid s \<longleftrightarrow>
     (let frameContractValid =
        (if ps_payloadKind s = PayloadKind_Frame
         then (case ps_frameCredit s of
                 None \<Rightarrow> False
               | Some c \<Rightarrow>
                   frameCredit_valid c \<and>
                   fc_maximumLogicalBytes c = ps_maximumReservationBytes s \<and>
                   ps_accounting s =
                     (if fc_allocationScope c = EngineLogicalBytes
                      then EngineManagedBytesAndObject
                      else ObservedOnlyExternalBytesAndEngineManagedObject))
         else ps_frameCredit s = None)
      in nodeId_isValid (ps_nodeId s) \<and> ps_streamKind s \<noteq> StreamKind_Unknown \<and>
         ps_payloadKind s \<noteq> PayloadKind_Unknown \<and> frameContractValid \<and>
         ps_maximumReservationBytes s > 0 \<and> ps_authority s \<noteq> [])"

definition maximumReservedBytes :: "MediaGraphPayloadProducerStrategy \<Rightarrow> u64" where
  "maximumReservedBytes s =
     (if ps_accounting s = EngineManagedBytesAndObject then ps_maximumReservationBytes s else 0)"

record MediaGraphPayloadProducerRequirement =
  pr_nodeId :: MediaNodeId
  pr_streamKind :: MediaStreamKind
  pr_payloadKind :: MediaPayloadKind
  pr_missingAuthority :: string

definition producerRequirement_valid :: "MediaGraphPayloadProducerRequirement \<Rightarrow> bool" where
  "producerRequirement_valid r \<longleftrightarrow>
     nodeId_isValid (pr_nodeId r) \<and> pr_streamKind r \<noteq> StreamKind_Unknown \<and>
     pr_payloadKind r \<noteq> PayloadKind_Unknown \<and> pr_missingAuthority r \<noteq> []"

record MediaGraphPayloadCreditPlan =
  plan_maximumBytes :: u64
  plan_maximumObjects :: u64
  plan_maximumUnitBytes :: u64
  plan_producerStrategyVersion :: u32
  plan_integration :: MediaGraphPayloadCreditIntegration
  plan_authority :: string
  plan_producers :: "MediaGraphPayloadProducerStrategy list"
  plan_missingProducers :: "MediaGraphPayloadProducerRequirement list"

definition isStructurallyValid :: "MediaGraphPayloadCreditPlan \<Rightarrow> bool" where
  "isStructurallyValid p \<longleftrightarrow>
     (if plan_maximumBytes p = 0 \<or> plan_maximumObjects p = 0 \<or> plan_maximumUnitBytes p = 0 \<or>
         plan_producerStrategyVersion p = 0 \<or> plan_authority p = [] \<or>
         (plan_producers p = [] \<and> plan_missingProducers p = [])
      then False
      else list_all producerStrategy_valid (plan_producers p) \<and>
           list_all producerRequirement_valid (plan_missingProducers p))"

text \<open>The inner loop of \<^verbatim>\<open>isCompleteAndValid\<close>: a producer repeats the identity of an earlier one.\<close>

definition same_producer ::
  "MediaGraphPayloadProducerStrategy \<Rightarrow> MediaGraphPayloadProducerStrategy \<Rightarrow> bool" where
  "same_producer a b \<longleftrightarrow>
     ps_nodeId a = ps_nodeId b \<and> ps_streamKind a = ps_streamKind b \<and>
     ps_payloadKind a = ps_payloadKind b"

fun producers_complete ::
  "u64 \<Rightarrow> MediaGraphPayloadProducerStrategy list \<Rightarrow> MediaGraphPayloadProducerStrategy list \<Rightarrow> bool"
where
  "producers_complete unit previous [] = True"
| "producers_complete unit previous (p # ps) =
     (if \<not> producerStrategy_valid p \<or> maximumReservedBytes p > unit \<or> \<not> ps_runtimeIntegrated p
      then False
      else if list_ex (\<lambda>q. same_producer q p) previous then False
      else producers_complete unit (previous @ [p]) ps)"

definition isCompleteAndValid :: "MediaGraphPayloadCreditPlan \<Rightarrow> bool" where
  "isCompleteAndValid p \<longleftrightarrow>
     (if \<not> isStructurallyValid p \<or> plan_integration p \<noteq> Integration_Complete \<or>
         plan_missingProducers p \<noteq> []
      then False
      else producers_complete (plan_maximumUnitBytes p) [] (plan_producers p))"

section \<open>Ports, nodes and edges\<close>

record MediaPort =
  port_id :: MediaPortId
  port_nodeId :: MediaNodeId
  port_name :: string
  port_direction :: MediaPortDirection
  port_streamKind :: MediaStreamKind
  port_edgeKind :: MediaEdgeKind
  port_payloadKind :: MediaPayloadKind
  port_format :: MediaFormatDescriptor
  port_time :: MediaTimeDescriptor
  port_hardware :: MediaHardwareDescriptor
  port_required :: bool
  port_multiple :: bool

definition isInput :: "MediaPort \<Rightarrow> bool" where
  "isInput p \<longleftrightarrow> port_direction p = Direction_Input"

definition isOutput :: "MediaPort \<Rightarrow> bool" where
  "isOutput p \<longleftrightarrow> port_direction p = Direction_Output"

definition hasFormatDescriptor :: "MediaPort \<Rightarrow> bool" where
  "hasFormatDescriptor p \<longleftrightarrow>
     fmt_streamKind (port_format p) \<noteq> StreamKind_Unknown \<or>
     fmt_streamIndex (port_format p) \<noteq> invalidMediaStreamIndex \<or>
     size_isValid (video_size (fmt_video (port_format p))) \<or>
     audio_hasKnownLayout (fmt_audio (port_format p)) \<or>
     codec_codecName (fmt_codec (port_format p)) \<noteq> []"

definition hasTimeDescriptor :: "MediaPort \<Rightarrow> bool" where
  "hasTimeDescriptor p \<longleftrightarrow>
     rational_isKnown (time_timeBase (port_time p)) \<or>
     rational_isKnown (time_frameRate (port_time p)) \<or>
     time_startTime (port_time p) \<noteq> invalidMediaTimeValue \<or>
     time_duration (port_time p) > 0"

definition hasHardwareDescriptor :: "MediaPort \<Rightarrow> bool" where
  "hasHardwareDescriptor p \<longleftrightarrow>
     hw_deviceKind (port_hardware p) \<noteq> Device_Unknown \<or>
     hw_frameKind (port_hardware p) \<noteq> FrameKind_Unknown \<or>
     hw_deviceName (port_hardware p) \<noteq> [] \<or>
     hw_pixelFormat (port_hardware p) \<noteq> []"

definition port_accepts :: "MediaPort \<Rightarrow> MediaPort \<Rightarrow> bool" where
  "port_accepts p upstream \<longleftrightarrow>
     (if \<not> isInput p \<or> \<not> isOutput upstream then False
      else
        (let streamMatches =
               port_streamKind p = StreamKind_Any \<or> port_streamKind upstream = StreamKind_Any \<or>
               port_streamKind p = port_streamKind upstream;
             edgeMatches =
               port_edgeKind p = EdgeKind_Unknown \<or> port_edgeKind upstream = EdgeKind_Unknown \<or>
               port_edgeKind p = port_edgeKind upstream;
             payloadMatches =
               port_payloadKind p = PayloadKind_Unknown \<or>
               port_payloadKind upstream = PayloadKind_Unknown \<or>
               port_payloadKind p = port_payloadKind upstream
         in streamMatches \<and> edgeMatches \<and> payloadMatches))"

record MediaNode =
  node_id :: MediaNodeId
  node_kind :: MediaNodeKind
  node_name :: string
  node_diagnosticName :: string
  node_options :: MediaNodeOptions
  node_inputPorts :: "MediaPort list"
  node_outputPorts :: "MediaPort list"
  node_required :: bool

definition node_isValid :: "MediaNode \<Rightarrow> bool" where
  "node_isValid n \<longleftrightarrow>
     nodeId_isValid (node_id n) \<and> node_kind n \<noteq> NodeKind_Unknown \<and> node_name n \<noteq> []"

record MediaEdgeEndpoint =
  ep_nodeId :: MediaNodeId
  ep_portId :: MediaPortId

definition endpoint_isValid :: "MediaEdgeEndpoint \<Rightarrow> bool" where
  "endpoint_isValid e \<longleftrightarrow> nodeId_isValid (ep_nodeId e) \<and> portId_isValid (ep_portId e)"

record MediaEdge =
  edge_id :: MediaEdgeId
  edge_name :: string
  edge_from :: MediaEdgeEndpoint
  edge_to :: MediaEdgeEndpoint
  edge_streamKind :: MediaStreamKind
  edge_edgeKind :: MediaEdgeKind
  edge_payloadKind :: MediaPayloadKind
  edge_format :: MediaFormatDescriptor
  edge_time :: MediaTimeDescriptor
  edge_hardware :: MediaHardwareDescriptor
  edge_policy :: MediaEdgePolicy
  edge_required :: bool

definition edge_isValid :: "MediaEdge \<Rightarrow> bool" where
  "edge_isValid e \<longleftrightarrow>
     edgeId_isValid (edge_id e) \<and> endpoint_isValid (edge_from e) \<and> endpoint_isValid (edge_to e)"

section \<open>The graph\<close>

record MediaGraph =
  m_nodes :: "MediaNode list"
  m_edges :: "MediaEdge list"
  m_payloadCreditPlan :: "MediaGraphPayloadCreditPlan option"
  m_payloadCreditMode :: "MediaGraphPayloadCreditMode option"
  m_nextNodeId :: u32
  m_nextPortId :: u32
  m_nextEdgeId :: u32

definition empty_graph :: MediaGraph where
  "empty_graph =
     \<lparr>m_nodes = [], m_edges = [], m_payloadCreditPlan = None, m_payloadCreditMode = None,
      m_nextNodeId = 1, m_nextPortId = 1, m_nextEdgeId = 1\<rparr>"

definition graph_clear :: "MediaGraph \<Rightarrow> MediaGraph" where
  "graph_clear g =
     g\<lparr>m_nodes := [], m_edges := [], m_payloadCreditPlan := None, m_payloadCreditMode := None,
       m_nextNodeId := 1, m_nextPortId := 1, m_nextEdgeId := 1\<rparr>"

definition removeNodes :: "MediaGraph \<Rightarrow> MediaNodeId list \<Rightarrow> MediaGraph" where
  "removeNodes g nodes =
     (let selected = (\<lambda>i. i \<in> set nodes);
          g1 = g\<lparr>m_edges := filter (\<lambda>e. \<not> (selected (ep_nodeId (edge_from e)) \<or>
                                           selected (ep_nodeId (edge_to e)))) (m_edges g)\<rparr>;
          g2 = g1\<lparr>m_nodes := filter (\<lambda>n. \<not> selected (node_id n)) (m_nodes g1)\<rparr>
      in case m_payloadCreditPlan g2 of
           None \<Rightarrow> g2
         | Some plan \<Rightarrow>
             g2\<lparr>m_payloadCreditPlan :=
                  Some (plan\<lparr>plan_producers :=
                          filter (\<lambda>p. \<not> selected (ps_nodeId p)) (plan_producers plan)\<rparr>)\<rparr>)"

definition setPayloadCreditPlan ::
  "MediaGraph \<Rightarrow> MediaGraphPayloadCreditPlan \<Rightarrow> MediaGraph \<times> bool" where
  "setPayloadCreditPlan g plan =
     (if m_payloadCreditPlan g \<noteq> None \<or>
         (m_payloadCreditMode g \<noteq> None \<and> m_payloadCreditMode g \<noteq> Some RealtimeRequired) \<or>
         \<not> isStructurallyValid plan
      then (g, False)
      else (g\<lparr>m_payloadCreditMode := Some RealtimeRequired, m_payloadCreditPlan := Some plan\<rparr>,
            True))"

definition replacePayloadCreditPlan ::
  "MediaGraph \<Rightarrow> MediaGraphPayloadCreditPlan \<Rightarrow> MediaGraph \<times> bool" where
  "replacePayloadCreditPlan g plan =
     (if m_payloadCreditMode g \<noteq> Some RealtimeRequired \<or> m_payloadCreditPlan g = None \<or>
         \<not> isCompleteAndValid plan
      then (g, False)
      else (g\<lparr>m_payloadCreditPlan := Some plan\<rparr>, True))"

definition setPayloadCreditMode ::
  "MediaGraph \<Rightarrow> MediaGraphPayloadCreditMode \<Rightarrow> MediaGraph \<times> bool" where
  "setPayloadCreditMode g mode =
     (if m_payloadCreditMode g \<noteq> None \<or>
         (mode = NonRealtimeNotApplicable \<and> m_payloadCreditPlan g \<noteq> None)
      then (g, False)
      else (g\<lparr>m_payloadCreditMode := Some mode\<rparr>, True))"

definition addNode :: "MediaGraph \<Rightarrow> MediaNodeKind \<Rightarrow> string \<Rightarrow> string \<Rightarrow> MediaGraph \<times> MediaNodeId"
where
  "addNode g kind name diagnosticName =
     (if kind = NodeKind_Unknown \<or> name = [] then (g, invalidNodeId)
      else
        (let node =
               \<lparr>node_id = MediaNodeId (m_nextNodeId g), node_kind = kind, node_name = name,
                node_diagnosticName = diagnosticName, node_options = Map.empty,
                node_inputPorts = [], node_outputPorts = [], node_required = True\<rparr>
         in (g\<lparr>m_nextNodeId := m_nextNodeId g + 1, m_nodes := m_nodes g @ [node]\<rparr>,
             node_id node)))"

subsection \<open>Searches\<close>

definition findNode :: "MediaGraph \<Rightarrow> MediaNodeId \<Rightarrow> MediaNode option" where
  "findNode g i =
     (if \<not> nodeId_isValid i then None else List.find (\<lambda>n. node_id n = i) (m_nodes g))"

definition findEdge :: "MediaGraph \<Rightarrow> MediaEdgeId \<Rightarrow> MediaEdge option" where
  "findEdge g i =
     (if \<not> edgeId_isValid i then None else List.find (\<lambda>e. edge_id e = i) (m_edges g))"

fun findPort_nodes :: "MediaNode list \<Rightarrow> MediaPortId \<Rightarrow> MediaPort option" where
  "findPort_nodes [] i = None"
| "findPort_nodes (n # ns) i =
     (case List.find (\<lambda>p. port_id p = i) (node_inputPorts n) of
        Some p \<Rightarrow> Some p
      | None \<Rightarrow>
          (case List.find (\<lambda>p. port_id p = i) (node_outputPorts n) of
             Some p \<Rightarrow> Some p
           | None \<Rightarrow> findPort_nodes ns i))"

definition findPort :: "MediaGraph \<Rightarrow> MediaPortId \<Rightarrow> MediaPort option" where
  "findPort g i = (if \<not> portId_isValid i then None else findPort_nodes (m_nodes g) i)"

definition findInputPort :: "MediaGraph \<Rightarrow> MediaNodeId \<Rightarrow> string \<Rightarrow> MediaPort option" where
  "findInputPort g nodeId name =
     (case findNode g nodeId of
        None \<Rightarrow> None
      | Some node \<Rightarrow> List.find (\<lambda>p. port_name p = name) (node_inputPorts node))"

definition findOutputPort :: "MediaGraph \<Rightarrow> MediaNodeId \<Rightarrow> string \<Rightarrow> MediaPort option" where
  "findOutputPort g nodeId name =
     (case findNode g nodeId of
        None \<Rightarrow> None
      | Some node \<Rightarrow> List.find (\<lambda>p. port_name p = name) (node_outputPorts node))"

subsection \<open>Updates\<close>

text \<open>Writing through the pointers \<open>findNode\<close>, \<open>findEdge\<close> and \<open>findPort\<close> return.\<close>

definition updateNode :: "MediaGraph \<Rightarrow> MediaNodeId \<Rightarrow> (MediaNode \<Rightarrow> MediaNode) \<Rightarrow> MediaGraph" where
  "updateNode g i f = g\<lparr>m_nodes := map_first (\<lambda>n. node_id n = i) f (m_nodes g)\<rparr>"

fun updatePort_nodes ::
  "MediaPortId \<Rightarrow> (MediaPort \<Rightarrow> MediaPort) \<Rightarrow> MediaNode list \<Rightarrow> MediaNode list" where
  "updatePort_nodes i f [] = []"
| "updatePort_nodes i f (n # ns) =
     (if list_ex (\<lambda>p. port_id p = i) (node_inputPorts n)
      then n\<lparr>node_inputPorts := map_first (\<lambda>p. port_id p = i) f (node_inputPorts n)\<rparr> # ns
      else if list_ex (\<lambda>p. port_id p = i) (node_outputPorts n)
      then n\<lparr>node_outputPorts := map_first (\<lambda>p. port_id p = i) f (node_outputPorts n)\<rparr> # ns
      else n # updatePort_nodes i f ns)"

definition updatePort :: "MediaGraph \<Rightarrow> MediaPortId \<Rightarrow> (MediaPort \<Rightarrow> MediaPort) \<Rightarrow> MediaGraph" where
  "updatePort g i f = g\<lparr>m_nodes := updatePort_nodes i f (m_nodes g)\<rparr>"

definition setNodeOption :: "MediaGraph \<Rightarrow> MediaNodeId \<Rightarrow> string \<Rightarrow> string \<Rightarrow> MediaGraph \<times> bool" where
  "setNodeOption g nodeId key value =
     (case findNode g nodeId of
        None \<Rightarrow> (g, False)
      | Some node \<Rightarrow>
          if key = [] then (g, False)
          else (updateNode g nodeId
                  (\<lambda>n. n\<lparr>node_options := options_set (node_options n) key value\<rparr>), True))"

definition setNodeOptions :: "MediaGraph \<Rightarrow> MediaNodeId \<Rightarrow> MediaNodeOptions \<Rightarrow> MediaGraph \<times> bool" where
  "setNodeOptions g nodeId options =
     (case findNode g nodeId of
        None \<Rightarrow> (g, False)
      | Some node \<Rightarrow> (updateNode g nodeId (\<lambda>n. n\<lparr>node_options := options\<rparr>), True))"

definition setPortFormatDescriptor ::
  "MediaGraph \<Rightarrow> MediaPortId \<Rightarrow> MediaFormatDescriptor \<Rightarrow> MediaGraph \<times> bool" where
  "setPortFormatDescriptor g portId descriptor =
     (case findPort g portId of
        None \<Rightarrow> (g, False)
      | Some port \<Rightarrow> (updatePort g portId (\<lambda>p. p\<lparr>port_format := descriptor\<rparr>), True))"

definition setPortTimeDescriptor ::
  "MediaGraph \<Rightarrow> MediaPortId \<Rightarrow> MediaTimeDescriptor \<Rightarrow> MediaGraph \<times> bool" where
  "setPortTimeDescriptor g portId descriptor =
     (case findPort g portId of
        None \<Rightarrow> (g, False)
      | Some port \<Rightarrow> (updatePort g portId (\<lambda>p. p\<lparr>port_time := descriptor\<rparr>), True))"

definition setPortHardwareDescriptor ::
  "MediaGraph \<Rightarrow> MediaPortId \<Rightarrow> MediaHardwareDescriptor \<Rightarrow> MediaGraph \<times> bool" where
  "setPortHardwareDescriptor g portId descriptor =
     (case findPort g portId of
        None \<Rightarrow> (g, False)
      | Some port \<Rightarrow> (updatePort g portId (\<lambda>p. p\<lparr>port_hardware := descriptor\<rparr>), True))"

definition addPort ::
  "MediaGraph \<Rightarrow> MediaNodeId \<Rightarrow> string \<Rightarrow> MediaPortDirection \<Rightarrow> MediaStreamKind \<Rightarrow> MediaEdgeKind \<Rightarrow>
   MediaPayloadKind \<Rightarrow> bool \<Rightarrow> bool \<Rightarrow> MediaGraph \<times> MediaPortId" where
  "addPort g nodeId name direction streamKind edgeKind payloadKind required multiple =
     (if \<not> nodeId_isValid nodeId \<or> name = [] \<or> direction = Direction_Unknown
      then (g, invalidPortId)
      else
        (case findNode g nodeId of
           None \<Rightarrow> (g, invalidPortId)
         | Some node \<Rightarrow>
             (let port =
                    \<lparr>port_id = MediaPortId (m_nextPortId g), port_nodeId = nodeId,
                     port_name = name, port_direction = direction,
                     port_streamKind = streamKind, port_edgeKind = edgeKind,
                     port_payloadKind = payloadKind,
                     port_format = default_MediaFormatDescriptor\<lparr>fmt_streamKind := streamKind\<rparr>,
                     port_time = default_MediaTimeDescriptor,
                     port_hardware = default_MediaHardwareDescriptor,
                     port_required = required, port_multiple = multiple\<rparr>;
                  g1 = g\<lparr>m_nextPortId := m_nextPortId g + 1\<rparr>
              in if direction = Direction_Input
                 then (updateNode g1 nodeId
                         (\<lambda>n. n\<lparr>node_inputPorts := node_inputPorts n @ [port]\<rparr>), port_id port)
                 else (updateNode g1 nodeId
                         (\<lambda>n. n\<lparr>node_outputPorts := node_outputPorts n @ [port]\<rparr>),
                       port_id port))))"

definition addInputPort ::
  "MediaGraph \<Rightarrow> MediaNodeId \<Rightarrow> string \<Rightarrow> MediaStreamKind \<Rightarrow> MediaEdgeKind \<Rightarrow> MediaPayloadKind \<Rightarrow>
   bool \<Rightarrow> bool \<Rightarrow> MediaGraph \<times> MediaPortId" where
  "addInputPort g nodeId name streamKind edgeKind payloadKind required multiple =
     addPort g nodeId name Direction_Input streamKind edgeKind payloadKind required multiple"

definition addOutputPort ::
  "MediaGraph \<Rightarrow> MediaNodeId \<Rightarrow> string \<Rightarrow> MediaStreamKind \<Rightarrow> MediaEdgeKind \<Rightarrow> MediaPayloadKind \<Rightarrow>
   bool \<Rightarrow> bool \<Rightarrow> MediaGraph \<times> MediaPortId" where
  "addOutputPort g nodeId name streamKind edgeKind payloadKind required multiple =
     addPort g nodeId name Direction_Output streamKind edgeKind payloadKind required multiple"

subsection \<open>Connecting ports\<close>

definition chooseEdgeKind :: "MediaPort \<Rightarrow> MediaPort \<Rightarrow> MediaEdgeKind" where
  "chooseEdgeKind from to =
     (if port_edgeKind from \<noteq> EdgeKind_Unknown then port_edgeKind from else port_edgeKind to)"

definition chooseStreamKind :: "MediaPort \<Rightarrow> MediaPort \<Rightarrow> MediaStreamKind" where
  "chooseStreamKind from to =
     (if port_streamKind from \<noteq> StreamKind_Any \<and> port_streamKind from \<noteq> StreamKind_Unknown
      then port_streamKind from else port_streamKind to)"

definition choosePayloadKind :: "MediaPort \<Rightarrow> MediaPort \<Rightarrow> MediaPayloadKind" where
  "choosePayloadKind from to =
     (if port_payloadKind from \<noteq> PayloadKind_Unknown
      then port_payloadKind from else port_payloadKind to)"

definition chooseFormatDescriptor :: "MediaPort \<Rightarrow> MediaPort \<Rightarrow> MediaFormatDescriptor" where
  "chooseFormatDescriptor from to =
     (if hasFormatDescriptor from then port_format from else port_format to)"

definition chooseTimeDescriptor :: "MediaPort \<Rightarrow> MediaPort \<Rightarrow> MediaTimeDescriptor" where
  "chooseTimeDescriptor from to =
     (if hasTimeDescriptor from then port_time from else port_time to)"

definition chooseHardwareDescriptor :: "MediaPort \<Rightarrow> MediaPort \<Rightarrow> MediaHardwareDescriptor" where
  "chooseHardwareDescriptor from to =
     (if hasHardwareDescriptor from then port_hardware from else port_hardware to)"

definition connect ::
  "MediaGraph \<Rightarrow> MediaNodeId \<Rightarrow> string \<Rightarrow> MediaNodeId \<Rightarrow> string \<Rightarrow> string \<Rightarrow> MediaEdgePolicy \<Rightarrow> bool \<Rightarrow>
   MediaGraph \<times> MediaEdgeId" where
  "connect g fromNodeId fromPortName toNodeId toPortName edgeName edgePolicy required =
     (case (findOutputPort g fromNodeId fromPortName, findInputPort g toNodeId toPortName) of
        (Some from, Some to) \<Rightarrow>
          if \<not> port_accepts to from then (g, invalidEdgeId)
          else
            (let edge =
                   \<lparr>edge_id = MediaEdgeId (m_nextEdgeId g), edge_name = edgeName,
                    edge_from = \<lparr>ep_nodeId = fromNodeId, ep_portId = port_id from\<rparr>,
                    edge_to = \<lparr>ep_nodeId = toNodeId, ep_portId = port_id to\<rparr>,
                    edge_streamKind = chooseStreamKind from to,
                    edge_edgeKind = chooseEdgeKind from to,
                    edge_payloadKind = choosePayloadKind from to,
                    edge_format = chooseFormatDescriptor from to,
                    edge_time = chooseTimeDescriptor from to,
                    edge_hardware = chooseHardwareDescriptor from to,
                    edge_policy = edgePolicy, edge_required = required\<rparr>
             in (g\<lparr>m_nextEdgeId := m_nextEdgeId g + 1, m_edges := m_edges g @ [edge]\<rparr>,
                 edge_id edge))
      | _ \<Rightarrow> (g, invalidEdgeId))"

definition connect_default ::
  "MediaGraph \<Rightarrow> MediaNodeId \<Rightarrow> string \<Rightarrow> MediaNodeId \<Rightarrow> string \<Rightarrow> string \<Rightarrow> bool \<Rightarrow>
   MediaGraph \<times> MediaEdgeId" where
  "connect_default g fromNodeId fromPortName toNodeId toPortName edgeName required =
     connect g fromNodeId fromPortName toNodeId toPortName edgeName default_MediaEdgePolicy required"

definition setEdgePolicy :: "MediaGraph \<Rightarrow> MediaEdgeId \<Rightarrow> MediaEdgePolicy \<Rightarrow> MediaGraph \<times> bool" where
  "setEdgePolicy g edgeId policy =
     (case findEdge g edgeId of
        None \<Rightarrow> (g, False)
      | Some edge \<Rightarrow>
          (g\<lparr>m_edges := map_first (\<lambda>e. edge_id e = edgeId) (\<lambda>e. e\<lparr>edge_policy := policy\<rparr>)
                          (m_edges g)\<rparr>, True))"

end
