(* ===== verification/Graph_Invariant.thy ===== *)
theory Graph_Invariant
  imports Graph_Model
begin

text \<open>
  The well-formedness invariant of a media graph and its preservation by every operation of
  \<^verbatim>\<open>core/MediaGraph.cpp\<close>. The counters that issue identifiers are 32-bit and wrap; the
  preservation lemmas therefore carry the hypothesis that a counter has not reached the reserved
  invalid value, and the run theorem bounds the number of operations instead.
\<close>

section \<open>The invariant\<close>

definition node_ports :: "MediaNode \<Rightarrow> MediaPort list" where
  "node_ports n = node_inputPorts n @ node_outputPorts n"

definition all_ports :: "MediaGraph \<Rightarrow> MediaPort list" where
  "all_ports g = concat (map node_ports (m_nodes g))"

definition node_wf :: "MediaNode \<Rightarrow> bool" where
  "node_wf n \<longleftrightarrow>
     node_kind n \<noteq> NodeKind_Unknown \<and> node_name n \<noteq> [] \<and>
     (\<forall>p\<in>set (node_inputPorts n). port_nodeId p = node_id n \<and> isInput p \<and> port_name p \<noteq> []) \<and>
     (\<forall>p\<in>set (node_outputPorts n). port_nodeId p = node_id n \<and> isOutput p \<and> port_name p \<noteq> [])"

definition edge_wf :: "MediaNode list \<Rightarrow> MediaEdge \<Rightarrow> bool" where
  "edge_wf nodes e \<longleftrightarrow>
     (\<exists>fn\<in>set nodes. \<exists>fp\<in>set (node_outputPorts fn). \<exists>tn\<in>set nodes. \<exists>tp\<in>set (node_inputPorts tn).
        ep_nodeId (edge_from e) = node_id fn \<and> ep_portId (edge_from e) = port_id fp \<and>
        ep_nodeId (edge_to e) = node_id tn \<and> ep_portId (edge_to e) = port_id tp \<and>
        port_accepts tp fp)"

definition nodes_ok :: "MediaGraph \<Rightarrow> bool" where
  "nodes_ok g \<longleftrightarrow>
     distinct (map node_id (m_nodes g)) \<and>
     (\<forall>n\<in>set (m_nodes g). node_wf n \<and> node_value (node_id n) < m_nextNodeId g)"

definition ports_ok :: "MediaGraph \<Rightarrow> bool" where
  "ports_ok g \<longleftrightarrow>
     distinct (map port_id (all_ports g)) \<and>
     (\<forall>p\<in>set (all_ports g). port_value (port_id p) < m_nextPortId g)"

definition edges_ok :: "MediaGraph \<Rightarrow> bool" where
  "edges_ok g \<longleftrightarrow>
     distinct (map edge_id (m_edges g)) \<and>
     (\<forall>e\<in>set (m_edges g). edge_wf (m_nodes g) e \<and> edge_value (edge_id e) < m_nextEdgeId g)"

definition graph_wf :: "MediaGraph \<Rightarrow> bool" where
  "graph_wf g \<longleftrightarrow> nodes_ok g \<and> ports_ok g \<and> edges_ok g"

lemma less_next_valid:
  "x < (n :: u32) \<Longrightarrow> x \<noteq> invalidValue"
  by (auto simp: invalidValue_def)

lemma graph_wf_node_valid:
  "graph_wf g \<Longrightarrow> n \<in> set (m_nodes g) \<Longrightarrow> nodeId_isValid (node_id n)"
  unfolding graph_wf_def nodes_ok_def nodeId_isValid_def using less_next_valid by blast

lemma graph_wf_port_valid:
  "graph_wf g \<Longrightarrow> p \<in> set (all_ports g) \<Longrightarrow> portId_isValid (port_id p)"
  unfolding graph_wf_def ports_ok_def portId_isValid_def using less_next_valid by blast

lemma graph_wf_edge_valid:
  "graph_wf g \<Longrightarrow> e \<in> set (m_edges g) \<Longrightarrow> edgeId_isValid (edge_id e)"
  unfolding graph_wf_def edges_ok_def edgeId_isValid_def using less_next_valid by blast

section \<open>Searches under the invariant\<close>

lemma findNode_wf:
  assumes "graph_wf g" and "n \<in> set (m_nodes g)"
  shows "findNode g (node_id n) = Some n"
  using assms graph_wf_node_valid [OF assms]
  by (auto simp: findNode_def graph_wf_def nodes_ok_def intro: find_distinct)

lemma findEdge_wf:
  assumes "graph_wf g" and "e \<in> set (m_edges g)"
  shows "findEdge g (edge_id e) = Some e"
  using assms graph_wf_edge_valid [OF assms]
  by (auto simp: findEdge_def graph_wf_def edges_ok_def intro: find_distinct)

lemma findNode_SomeD:
  "findNode g i = Some n \<Longrightarrow> n \<in> set (m_nodes g) \<and> node_id n = i \<and> nodeId_isValid i"
  by (auto simp: findNode_def dest: find_SomeD split: if_splits)

lemma findInputPort_SomeD:
  assumes "findInputPort g i name = Some p"
  shows "\<exists>n\<in>set (m_nodes g). node_id n = i \<and> p \<in> set (node_inputPorts n) \<and> port_name p = name"
  using assms by (auto simp: findInputPort_def split: option.splits dest!: findNode_SomeD find_SomeD)

lemma findOutputPort_SomeD:
  assumes "findOutputPort g i name = Some p"
  shows "\<exists>n\<in>set (m_nodes g). node_id n = i \<and> p \<in> set (node_outputPorts n) \<and> port_name p = name"
  using assms by (auto simp: findOutputPort_def split: option.splits dest!: findNode_SomeD find_SomeD)

lemma findPort_nodes_find:
  "findPort_nodes ns i = List.find (\<lambda>p. port_id p = i) (concat (map node_ports ns))"
  by (induction ns) (auto simp: node_ports_def find_append split: option.splits)

lemma findPort_wf:
  assumes "graph_wf g" and "p \<in> set (all_ports g)"
  shows "findPort g (port_id p) = Some p"
  using assms(1) graph_wf_port_valid [OF assms] find_distinct [OF _ assms(2), of port_id]
  by (simp add: findPort_def findPort_nodes_find graph_wf_def ports_ok_def flip: all_ports_def)

section \<open>Extension of the node list\<close>

text \<open>
  Two ports agree for \<open>port_accepts\<close> when they have the same identifier, direction and kinds. An
  update that keeps these for every port keeps every edge well-formed.
\<close>

definition port_sig :: "MediaPort \<Rightarrow> _" where
  "port_sig p = (port_id p, port_direction p, port_streamKind p, port_edgeKind p, port_payloadKind p)"

definition nodes_extend :: "MediaNode list \<Rightarrow> MediaNode list \<Rightarrow> bool" where
  "nodes_extend ns ns' \<longleftrightarrow>
     (\<forall>n\<in>set ns. \<exists>n'\<in>set ns'. node_id n' = node_id n \<and>
        port_sig ` set (node_inputPorts n) \<subseteq> port_sig ` set (node_inputPorts n') \<and>
        port_sig ` set (node_outputPorts n) \<subseteq> port_sig ` set (node_outputPorts n'))"

lemma port_accepts_sig:
  "port_sig a = port_sig a' \<Longrightarrow> port_sig b = port_sig b' \<Longrightarrow> port_accepts a b = port_accepts a' b'"
  by (auto simp: port_sig_def port_accepts_def isInput_def isOutput_def)

lemma port_sig_id: "port_sig a = port_sig b \<Longrightarrow> port_id a = port_id b"
  by (simp add: port_sig_def)

lemma nodes_extend_output:
  assumes "nodes_extend ns ns'" "n \<in> set ns" "p \<in> set (node_outputPorts n)"
  obtains n' p' where "n' \<in> set ns'" "node_id n' = node_id n" "p' \<in> set (node_outputPorts n')"
    "port_sig p = port_sig p'"
proof -
  obtain n' where "n' \<in> set ns'" "node_id n' = node_id n"
      "port_sig ` set (node_outputPorts n) \<subseteq> port_sig ` set (node_outputPorts n')"
    using assms(1,2) unfolding nodes_extend_def by blast
  moreover from this(3) assms(3) have "port_sig p \<in> port_sig ` set (node_outputPorts n')"
    by (metis imageI subsetD)
  ultimately show thesis using that by (elim imageE) blast
qed

lemma nodes_extend_input:
  assumes "nodes_extend ns ns'" "n \<in> set ns" "p \<in> set (node_inputPorts n)"
  obtains n' p' where "n' \<in> set ns'" "node_id n' = node_id n" "p' \<in> set (node_inputPorts n')"
    "port_sig p = port_sig p'"
proof -
  obtain n' where "n' \<in> set ns'" "node_id n' = node_id n"
      "port_sig ` set (node_inputPorts n) \<subseteq> port_sig ` set (node_inputPorts n')"
    using assms(1,2) unfolding nodes_extend_def by blast
  moreover from this(3) assms(3) have "port_sig p \<in> port_sig ` set (node_inputPorts n')"
    by (metis imageI subsetD)
  ultimately show thesis using that by (elim imageE) blast
qed

lemma edge_wf_extend:
  assumes "edge_wf ns e" and ext: "nodes_extend ns ns'"
  shows "edge_wf ns' e"
proof -
  obtain fn fp tn tp where
    fn: "fn \<in> set ns" "fp \<in> set (node_outputPorts fn)" and
    tn: "tn \<in> set ns" "tp \<in> set (node_inputPorts tn)" and
    eq: "ep_nodeId (edge_from e) = node_id fn" "ep_portId (edge_from e) = port_id fp"
        "ep_nodeId (edge_to e) = node_id tn" "ep_portId (edge_to e) = port_id tp"
        "port_accepts tp fp"
    using assms(1) unfolding edge_wf_def by blast
  from nodes_extend_output [OF ext fn] obtain fn' fp' where
    f': "fn' \<in> set ns'" "node_id fn' = node_id fn" "fp' \<in> set (node_outputPorts fn')"
        "port_sig fp = port_sig fp'" .
  from nodes_extend_input [OF ext tn] obtain tn' tp' where
    t': "tn' \<in> set ns'" "node_id tn' = node_id tn" "tp' \<in> set (node_inputPorts tn')"
        "port_sig tp = port_sig tp'" .
  have "port_accepts tp' fp'" "port_id fp' = port_id fp" "port_id tp' = port_id tp"
    using eq(5) port_accepts_sig [OF t'(4) f'(4)] port_sig_id [OF f'(4)] port_sig_id [OF t'(4)]
    by simp_all
  then show ?thesis
    unfolding edge_wf_def using f'(1-3) t'(1-3) eq
    by (intro bexI [of _ fn'] bexI [of _ fp'] bexI [of _ tn'] bexI [of _ tp'] conjI) simp_all
qed

lemma edges_ok_extend:
  assumes "edges_ok g" and "nodes_extend (m_nodes g) (m_nodes g')"
    and "m_edges g' = m_edges g" and "m_nextEdgeId g' = m_nextEdgeId g"
  shows "edges_ok g'"
  using assms edge_wf_extend by (auto simp: edges_ok_def)

lemma nodes_ok_same_ids:
  assumes "nodes_ok g" and "map node_id (m_nodes g') = map node_id (m_nodes g)"
    and "\<forall>n\<in>set (m_nodes g'). node_wf n" and "m_nextNodeId g' = m_nextNodeId g"
  shows "nodes_ok g'"
proof -
  have "\<forall>n\<in>set (m_nodes g'). node_id n \<in> set (map node_id (m_nodes g))"
    using assms(2) by (metis image_eqI list.set_map)
  then show ?thesis using assms by (auto simp: nodes_ok_def)
qed

lemma ports_ok_same_ids:
  assumes "ports_ok g" and "map port_id (all_ports g') = map port_id (all_ports g)"
    and "m_nextPortId g' = m_nextPortId g"
  shows "ports_ok g'"
proof -
  have "\<forall>p\<in>set (all_ports g'). port_id p \<in> set (map port_id (all_ports g))"
    using assms(2) by (metis image_eqI list.set_map)
  then show ?thesis using assms by (auto simp: ports_ok_def)
qed

lemma nodes_extend_map_first:
  assumes "\<And>n. node_id (f n) = node_id n"
    and "\<And>n. port_sig ` set (node_inputPorts n) \<subseteq> port_sig ` set (node_inputPorts (f n))"
    and "\<And>n. port_sig ` set (node_outputPorts n) \<subseteq> port_sig ` set (node_outputPorts (f n))"
  shows "nodes_extend ns (map_first P f ns)"
  unfolding nodes_extend_def
proof
  fix n assume "n \<in> set ns"
  from set_map_first_ex [OF this] obtain y where "y \<in> set (map_first P f ns)" "y = n \<or> y = f n"
    by blast
  then show "\<exists>n'\<in>set (map_first P f ns). node_id n' = node_id n \<and>
        port_sig ` set (node_inputPorts n) \<subseteq> port_sig ` set (node_inputPorts n') \<and>
        port_sig ` set (node_outputPorts n) \<subseteq> port_sig ` set (node_outputPorts n')"
    using assms(1) [of n] assms(2) [of n] assms(3) [of n] by (elim disjE; intro bexI [of _ y]; simp)
qed

section \<open>Each operation keeps the invariant\<close>

named_theorems graph_inv "preservation of the graph invariant"

lemma graph_wf_empty [graph_inv]: "graph_wf empty_graph"
  by (simp add: graph_wf_def nodes_ok_def ports_ok_def edges_ok_def empty_graph_def all_ports_def)

lemma graph_wf_clear [graph_inv]: "graph_wf (graph_clear g)"
  by (simp add: graph_wf_def nodes_ok_def ports_ok_def edges_ok_def graph_clear_def all_ports_def)

lemma addNode_wf [graph_inv]:
  assumes wf: "graph_wf g" and room: "m_nextNodeId g \<noteq> invalidValue"
  shows "graph_wf (fst (addNode g kind name diag))"
proof (cases "kind = NodeKind_Unknown \<or> name = []")
  case True
  then show ?thesis using wf by (auto simp: addNode_def)
next
  case False
  define g' where "g' = fst (addNode g kind name diag)"
  obtain node where g': "m_nodes g' = m_nodes g @ [node]" "m_nextNodeId g' = m_nextNodeId g + 1"
      "m_edges g' = m_edges g" "m_nextPortId g' = m_nextPortId g" "m_nextEdgeId g' = m_nextEdgeId g"
    and node: "node_id node = MediaNodeId (m_nextNodeId g)" "node_wf node" "node_ports node = []"
    using False by (auto simp: g'_def addNode_def Let_def node_wf_def node_ports_def)
  have less: "\<And>y. y < m_nextNodeId g + 1 \<longleftrightarrow> y \<le> m_nextNodeId g"
    using room by (simp add: word_less_succ_iff invalidValue_def)
  have old: "\<forall>n\<in>set (m_nodes g). node_wf n \<and> node_value (node_id n) < m_nextNodeId g"
      "distinct (map node_id (m_nodes g))"
    using wf by (auto simp: graph_wf_def nodes_ok_def)
  have "node_id node \<notin> node_id ` set (m_nodes g)"
    using old(1) node(1) by force
  then have "nodes_ok g'"
    using old node(1,2) by (auto simp: nodes_ok_def g' less)
  moreover have "ports_ok g'"
    using wf node by (simp add: graph_wf_def ports_ok_def all_ports_def g')
  moreover have "edges_ok g'"
    by (rule edges_ok_extend [of g]) (use wf in \<open>auto simp: graph_wf_def g' nodes_extend_def\<close>)
  ultimately show ?thesis by (simp add: graph_wf_def g'_def)
qed

lemma updateNode_wf:
  assumes wf: "graph_wf g"
    and f: "\<And>n. node_id (f n) = node_id n" "\<And>n. node_kind (f n) = node_kind n"
           "\<And>n. node_name (f n) = node_name n"
           "\<And>n. node_inputPorts (f n) = node_inputPorts n"
           "\<And>n. node_outputPorts (f n) = node_outputPorts n"
  shows "graph_wf (updateNode g i f)"
proof -
  have ids: "map node_id (map_first (\<lambda>n. node_id n = i) f (m_nodes g)) = map node_id (m_nodes g)"
    by (rule map_map_first_same) (simp add: f)
  have ports: "map node_ports (map_first (\<lambda>n. node_id n = i) f (m_nodes g)) = map node_ports (m_nodes g)"
    by (rule map_map_first_same) (simp add: f node_ports_def)
  have "nodes_ok (updateNode g i f)"
    using wf ids by (auto simp: updateNode_def graph_wf_def nodes_ok_def node_wf_def f dest!: set_map_firstD)
  moreover have "ports_ok (updateNode g i f)"
    using wf by (simp add: graph_wf_def ports_ok_def all_ports_def updateNode_def ports)
  moreover have "edges_ok (updateNode g i f)"
    by (rule edges_ok_extend [of g])
      (use wf in \<open>simp_all add: updateNode_def graph_wf_def nodes_extend_map_first f\<close>)
  ultimately show ?thesis by (simp add: graph_wf_def)
qed

lemma setNodeOption_wf [graph_inv]: "graph_wf g \<Longrightarrow> graph_wf (fst (setNodeOption g i k v))"
  by (simp add: setNodeOption_def updateNode_wf split: option.splits)

lemma setNodeOptions_wf [graph_inv]: "graph_wf g \<Longrightarrow> graph_wf (fst (setNodeOptions g i opts))"
  by (simp add: setNodeOptions_def updateNode_wf split: option.splits)

subsection \<open>Descriptor updates\<close>

lemma updatePort_nodes_ids [simp]: "map node_id (updatePort_nodes i f ns) = map node_id ns"
  by (induction ns) auto

lemma updatePort_nodes_ports:
  assumes "\<And>p. port_id (f p) = port_id p"
  shows "map port_id (concat (map node_ports (updatePort_nodes i f ns))) =
         map port_id (concat (map node_ports ns))"
  by (induction ns) (simp_all add: node_ports_def map_map_first_same assms)

lemma updatePort_nodes_node_wf:
  assumes f: "\<And>p. port_nodeId (f p) = port_nodeId p" "\<And>p. port_name (f p) = port_name p"
             "\<And>p. port_direction (f p) = port_direction p"
    and "\<forall>n\<in>set ns. node_wf n"
  shows "\<forall>n\<in>set (updatePort_nodes i f ns). node_wf n"
  using assms(4)
proof (induction ns)
  case Nil
  then show ?case by simp
next
  case (Cons n ns)
  have wf: "node_wf n" using Cons.prems by simp
  have "node_wf (n\<lparr>node_inputPorts := map_first P f (node_inputPorts n)\<rparr>)"
    and "node_wf (n\<lparr>node_outputPorts := map_first P f (node_outputPorts n)\<rparr>)" for P
    using wf by (auto simp: node_wf_def f isInput_def isOutput_def dest!: set_map_firstD)
  then show ?case using Cons by simp
qed

lemma port_sig_map_first:
  assumes "\<And>p. port_sig (f p) = port_sig p"
  shows "port_sig ` set (map_first P f ps) = port_sig ` set ps"
  using assms by (metis map_map_first_same set_map)

lemma nodes_extend_Cons:
  assumes "node_id n' = node_id n"
    "port_sig ` set (node_inputPorts n) \<subseteq> port_sig ` set (node_inputPorts n')"
    "port_sig ` set (node_outputPorts n) \<subseteq> port_sig ` set (node_outputPorts n')"
    "nodes_extend ns ns'"
  shows "nodes_extend (n # ns) (n' # ns')"
  using assms unfolding nodes_extend_def by fastforce

lemma nodes_extend_refl [simp]: "nodes_extend ns ns"
  by (auto simp: nodes_extend_def)

lemma nodes_extend_updatePort:
  assumes "\<And>p. port_sig (f p) = port_sig p"
  shows "nodes_extend ns (updatePort_nodes i f ns)"
  by (induction ns) (auto intro!: nodes_extend_Cons simp: port_sig_map_first assms)

lemma updatePort_wf:
  assumes wf: "graph_wf g"
    and f: "\<And>p. port_id (f p) = port_id p" "\<And>p. port_nodeId (f p) = port_nodeId p"
           "\<And>p. port_name (f p) = port_name p" "\<And>p. port_sig (f p) = port_sig p"
  shows "graph_wf (updatePort g i f)"
proof -
  have dir: "port_direction (f p) = port_direction p" for p
    using f(4) by (simp add: port_sig_def)
  have nwf: "\<forall>n\<in>set (m_nodes g). node_wf n"
    using wf by (simp add: graph_wf_def nodes_ok_def)
  have "nodes_ok (updatePort g i f)"
    by (rule nodes_ok_same_ids [of g])
      (use wf updatePort_nodes_node_wf [OF f(2,3) dir nwf] in
        \<open>simp_all add: updatePort_def graph_wf_def\<close>)
  moreover have "ports_ok (updatePort g i f)"
    by (rule ports_ok_same_ids [of g])
      (use wf in \<open>simp_all add: updatePort_def graph_wf_def all_ports_def updatePort_nodes_ports f\<close>)
  moreover have "edges_ok (updatePort g i f)"
    by (rule edges_ok_extend [of g])
      (use wf in \<open>simp_all add: updatePort_def graph_wf_def nodes_extend_updatePort f\<close>)
  ultimately show ?thesis by (simp add: graph_wf_def)
qed

lemma setPortFormatDescriptor_wf [graph_inv]:
  "graph_wf g \<Longrightarrow> graph_wf (fst (setPortFormatDescriptor g i d))"
  by (simp add: setPortFormatDescriptor_def updatePort_wf port_sig_def split: option.splits)

lemma setPortTimeDescriptor_wf [graph_inv]:
  "graph_wf g \<Longrightarrow> graph_wf (fst (setPortTimeDescriptor g i d))"
  by (simp add: setPortTimeDescriptor_def updatePort_wf port_sig_def split: option.splits)

lemma setPortHardwareDescriptor_wf [graph_inv]:
  "graph_wf g \<Longrightarrow> graph_wf (fst (setPortHardwareDescriptor g i d))"
  by (simp add: setPortHardwareDescriptor_def updatePort_wf port_sig_def split: option.splits)

subsection \<open>Adding ports and edges\<close>

text \<open>Both directions of \<open>addPort\<close> append one new port, with the next identifier, to one node.\<close>

lemma add_port_wf:
  assumes wf: "graph_wf g" and room: "m_nextPortId g \<noteq> invalidValue"
    and node: "\<exists>n\<in>set (m_nodes g). node_id n = i"
    and p: "port_id p = MediaPortId (m_nextPortId g)" "port_nodeId p = i" "port_name p \<noteq> []"
    and f: "f = (\<lambda>n. n\<lparr>node_inputPorts := node_inputPorts n @ [p]\<rparr>) \<and> isInput p \<or>
            f = (\<lambda>n. n\<lparr>node_outputPorts := node_outputPorts n @ [p]\<rparr>) \<and> isOutput p"
  shows "graph_wf (updateNode (g\<lparr>m_nextPortId := m_nextPortId g + 1\<rparr>) i f)"
    (is "graph_wf ?g")
proof -
  define ns where "ns = map_first (\<lambda>n. node_id n = i) f (m_nodes g)"
  have ids: "map node_id ns = map node_id (m_nodes g)"
    unfolding ns_def by (rule map_map_first_same) (use f in auto)
  have ms: "mset (concat (map node_ports ns)) = mset [p] + mset (all_ports g)"
    unfolding ns_def all_ports_def
    by (rule mset_concat_map_first) (use node f in \<open>auto simp: node_ports_def\<close>)
  have nwf: "\<forall>n\<in>set ns. node_wf n"
    using wf f p unfolding ns_def graph_wf_def nodes_ok_def
    by (auto simp: node_wf_def dest!: set_map_firstD)
  have less: "\<And>y. y < m_nextPortId g + 1 \<longleftrightarrow> y \<le> m_nextPortId g"
    using room by (simp add: word_less_succ_iff invalidValue_def)
  have n: "nodes_ok ?g"
    by (rule nodes_ok_same_ids [of g])
      (use wf ids nwf in \<open>simp_all add: updateNode_def graph_wf_def flip: ns_def\<close>)
  have "mset (map port_id (concat (map node_ports ns))) = mset (map port_id (p # all_ports g))"
    using ms by simp
  then have d: "distinct (map port_id (concat (map node_ports ns))) =
      distinct (map port_id (p # all_ports g))"
    by (rule mset_eq_imp_distinct_iff)
  have s: "set (concat (map node_ports ns)) = insert p (set (all_ports g))"
    using arg_cong [OF ms, of set_mset] by simp
  have "port_id p \<notin> port_id ` set (all_ports g)"
    using wf p(1) by (force simp: graph_wf_def ports_ok_def)
  moreover have "all_ports ?g = concat (map node_ports ns)"
    by (simp add: updateNode_def all_ports_def ns_def)
  ultimately have "ports_ok ?g"
    using wf d s p(1)
    by (auto simp: updateNode_def graph_wf_def ports_ok_def less intro: less_imp_le)
  moreover have "nodes_extend (m_nodes g) ns"
    unfolding ns_def by (rule nodes_extend_map_first) (use f in auto)
  then have "edges_ok ?g"
    by (rule_tac edges_ok_extend [of g])
      (use wf in \<open>simp_all add: updateNode_def graph_wf_def flip: ns_def\<close>)
  ultimately show ?thesis using n by (simp add: graph_wf_def)
qed

lemma addPort_wf [graph_inv]:
  assumes "graph_wf g" and "m_nextPortId g \<noteq> invalidValue"
  shows "graph_wf (fst (addPort g i name dir sk ek pk req multi))"
proof (cases "\<not> nodeId_isValid i \<or> name = [] \<or> dir = Direction_Unknown \<or> findNode g i = None")
  case True
  then show ?thesis using assms by (auto simp: addPort_def)
next
  case False
  then obtain node where node: "findNode g i = Some node" by auto
  then have ex: "\<exists>n\<in>set (m_nodes g). node_id n = i" by (auto dest: findNode_SomeD)
  show ?thesis
    using False node assms ex
    by (cases dir) (auto simp: addPort_def Let_def isInput_def isOutput_def intro!: add_port_wf)
qed

lemma connect_accepted:
  assumes "findOutputPort g fi fp = Some p" "findInputPort g ti tp = Some q" "port_accepts q p"
  obtains e where
    "m_edges (fst (connect g fi fp ti tp name pol req)) = m_edges g @ [e]"
    "m_nextEdgeId (fst (connect g fi fp ti tp name pol req)) = m_nextEdgeId g + 1"
    "m_nodes (fst (connect g fi fp ti tp name pol req)) = m_nodes g"
    "m_nextPortId (fst (connect g fi fp ti tp name pol req)) = m_nextPortId g"
    "m_nextNodeId (fst (connect g fi fp ti tp name pol req)) = m_nextNodeId g"
    "snd (connect g fi fp ti tp name pol req) = edge_id e"
    "edge_id e = MediaEdgeId (m_nextEdgeId g)"
    "edge_from e = \<lparr>ep_nodeId = fi, ep_portId = port_id p\<rparr>"
    "edge_to e = \<lparr>ep_nodeId = ti, ep_portId = port_id q\<rparr>" "edge_policy e = pol"
  using assms by (simp add: connect_def Let_def)

lemma connect_wf [graph_inv]:
  assumes wf: "graph_wf g" and room: "m_nextEdgeId g \<noteq> invalidValue"
  shows "graph_wf (fst (connect g fi fp ti tp name pol req))"
proof (cases "\<exists>from to. findOutputPort g fi fp = Some from \<and> findInputPort g ti tp = Some to \<and>
                        port_accepts to from")
  case False
  then show ?thesis using wf by (auto simp: connect_def split: option.splits)
next
  case True
  then obtain p q where pq: "findOutputPort g fi fp = Some p" "findInputPort g ti tp = Some q"
      "port_accepts q p" by blast
  define g' where "g' = fst (connect g fi fp ti tp name pol req)"
  from connect_accepted [OF pq, where name = name and pol = pol and req = req] obtain e where
    g': "m_edges g' = m_edges g @ [e]" "m_nextEdgeId g' = m_nextEdgeId g + 1"
      "m_nodes g' = m_nodes g" "m_nextPortId g' = m_nextPortId g" "m_nextNodeId g' = m_nextNodeId g"
    and e: "edge_id e = MediaEdgeId (m_nextEdgeId g)"
      "edge_from e = \<lparr>ep_nodeId = fi, ep_portId = port_id p\<rparr>"
      "edge_to e = \<lparr>ep_nodeId = ti, ep_portId = port_id q\<rparr>"
    unfolding g'_def by blast
  have "edge_wf (m_nodes g) e"
    using findOutputPort_SomeD [OF pq(1)] findInputPort_SomeD [OF pq(2)] pq(3) e
    unfolding edge_wf_def by fastforce
  moreover have "\<And>y. y < m_nextEdgeId g + 1 \<longleftrightarrow> y \<le> m_nextEdgeId g"
    using room by (simp add: word_less_succ_iff invalidValue_def)
  moreover have "edge_id e \<notin> edge_id ` set (m_edges g)"
    using wf e(1) by (force simp: graph_wf_def edges_ok_def)
  ultimately have "edges_ok g'"
    using wf e(1) by (auto simp: graph_wf_def edges_ok_def g')
  moreover have "nodes_ok g'" "ports_ok g'"
    using wf by (simp_all add: graph_wf_def nodes_ok_def ports_ok_def all_ports_def g')
  ultimately show ?thesis by (simp add: graph_wf_def g'_def)
qed

lemma setEdgePolicy_wf [graph_inv]:
  assumes wf: "graph_wf g"
  shows "graph_wf (fst (setEdgePolicy g i pol))"
proof -
  let ?es = "map_first (\<lambda>e. edge_id e = i) (\<lambda>e. e\<lparr>edge_policy := pol\<rparr>) (m_edges g)"
  have "map edge_id ?es = map edge_id (m_edges g)"
    by (rule map_map_first_same) simp
  moreover have "edge_wf (m_nodes g) (e\<lparr>edge_policy := pol\<rparr>) = edge_wf (m_nodes g) e" for e
    by (simp add: edge_wf_def)
  ultimately have "graph_wf (g\<lparr>m_edges := ?es\<rparr>)"
    using wf by (auto simp: graph_wf_def nodes_ok_def ports_ok_def edges_ok_def all_ports_def
        dest!: set_map_firstD)
  then show ?thesis using wf by (simp add: setEdgePolicy_def split: option.split)
qed

subsection \<open>Removing nodes, payload credit state\<close>

lemma removeNodes_fields:
  "m_nodes (removeNodes g is) = filter (\<lambda>n. node_id n \<notin> set is) (m_nodes g)"
  "m_edges (removeNodes g is) =
     filter (\<lambda>e. ep_nodeId (edge_from e) \<notin> set is \<and> ep_nodeId (edge_to e) \<notin> set is) (m_edges g)"
  "m_nextNodeId (removeNodes g is) = m_nextNodeId g"
  "m_nextPortId (removeNodes g is) = m_nextPortId g"
  "m_nextEdgeId (removeNodes g is) = m_nextEdgeId g"
  by (auto simp: removeNodes_def Let_def split: option.splits)

lemma edge_wf_filter:
  assumes "edge_wf ns e" "ep_nodeId (edge_from e) \<notin> A" "ep_nodeId (edge_to e) \<notin> A"
  shows "edge_wf (filter (\<lambda>n. node_id n \<notin> A) ns) e"
  using assms unfolding edge_wf_def by fastforce

lemma removeNodes_wf [graph_inv]:
  assumes "graph_wf g"
  shows "graph_wf (removeNodes g is)"
proof -
  have "nodes_ok (removeNodes g is)"
    using assms by (auto simp: graph_wf_def nodes_ok_def removeNodes_fields distinct_map_filter)
  moreover have "ports_ok (removeNodes g is)"
    using assms
    by (auto simp: graph_wf_def ports_ok_def removeNodes_fields all_ports_def
        intro: distinct_concat_filter)
  moreover have "edges_ok (removeNodes g is)"
    using assms
    by (auto simp: graph_wf_def edges_ok_def removeNodes_fields distinct_map_filter
        intro!: edge_wf_filter)
  ultimately show ?thesis by (simp add: graph_wf_def)
qed

lemma graph_wf_credit [simp]:
  "graph_wf (g\<lparr>m_payloadCreditPlan := p\<rparr>) = graph_wf g"
  "graph_wf (g\<lparr>m_payloadCreditMode := m\<rparr>) = graph_wf g"
  by (simp_all add: graph_wf_def nodes_ok_def ports_ok_def edges_ok_def all_ports_def)

lemma setPayloadCreditPlan_wf [graph_inv]:
  "graph_wf g \<Longrightarrow> graph_wf (fst (setPayloadCreditPlan g plan))"
  by (simp add: setPayloadCreditPlan_def)

lemma replacePayloadCreditPlan_wf [graph_inv]:
  "graph_wf g \<Longrightarrow> graph_wf (fst (replacePayloadCreditPlan g plan))"
  by (simp add: replacePayloadCreditPlan_def)

lemma setPayloadCreditMode_wf [graph_inv]:
  "graph_wf g \<Longrightarrow> graph_wf (fst (setPayloadCreditMode g mode))"
  by (simp add: setPayloadCreditMode_def)

section \<open>Operation sequences\<close>

text \<open>Every mutating method of \<^verbatim>\<open>MediaGraph\<close>, as a value, and a run of them.\<close>

datatype GraphOp =
    Op_clear
  | Op_removeNodes "MediaNodeId list"
  | Op_addNode MediaNodeKind string string
  | Op_setNodeOption MediaNodeId string string
  | Op_setNodeOptions MediaNodeId MediaNodeOptions
  | Op_addInputPort MediaNodeId string MediaStreamKind MediaEdgeKind MediaPayloadKind bool bool
  | Op_addOutputPort MediaNodeId string MediaStreamKind MediaEdgeKind MediaPayloadKind bool bool
  | Op_setPortFormatDescriptor MediaPortId MediaFormatDescriptor
  | Op_setPortTimeDescriptor MediaPortId MediaTimeDescriptor
  | Op_setPortHardwareDescriptor MediaPortId MediaHardwareDescriptor
  | Op_connect MediaNodeId string MediaNodeId string string MediaEdgePolicy bool
  | Op_setEdgePolicy MediaEdgeId MediaEdgePolicy
  | Op_setPayloadCreditPlan MediaGraphPayloadCreditPlan
  | Op_replacePayloadCreditPlan MediaGraphPayloadCreditPlan
  | Op_setPayloadCreditMode MediaGraphPayloadCreditMode

primrec graph_step :: "MediaGraph \<Rightarrow> GraphOp \<Rightarrow> MediaGraph" where
  "graph_step g Op_clear = graph_clear g"
| "graph_step g (Op_removeNodes is) = removeNodes g is"
| "graph_step g (Op_addNode k n d) = fst (addNode g k n d)"
| "graph_step g (Op_setNodeOption i k v) = fst (setNodeOption g i k v)"
| "graph_step g (Op_setNodeOptions i m) = fst (setNodeOptions g i m)"
| "graph_step g (Op_addInputPort i n sk ek pk r m) = fst (addInputPort g i n sk ek pk r m)"
| "graph_step g (Op_addOutputPort i n sk ek pk r m) = fst (addOutputPort g i n sk ek pk r m)"
| "graph_step g (Op_setPortFormatDescriptor i d) = fst (setPortFormatDescriptor g i d)"
| "graph_step g (Op_setPortTimeDescriptor i d) = fst (setPortTimeDescriptor g i d)"
| "graph_step g (Op_setPortHardwareDescriptor i d) = fst (setPortHardwareDescriptor g i d)"
| "graph_step g (Op_connect fi fp ti tp n pol r) = fst (connect g fi fp ti tp n pol r)"
| "graph_step g (Op_setEdgePolicy i pol) = fst (setEdgePolicy g i pol)"
| "graph_step g (Op_setPayloadCreditPlan p) = fst (setPayloadCreditPlan g p)"
| "graph_step g (Op_replacePayloadCreditPlan p) = fst (replacePayloadCreditPlan g p)"
| "graph_step g (Op_setPayloadCreditMode m) = fst (setPayloadCreditMode g m)"

definition graph_run :: "MediaGraph \<Rightarrow> GraphOp list \<Rightarrow> MediaGraph" where
  "graph_run g ops = foldl graph_step g ops"

text \<open>A step moves each counter by at most one.\<close>

definition counters_below :: "nat \<Rightarrow> MediaGraph \<Rightarrow> bool" where
  "counters_below k g \<longleftrightarrow>
     unat (m_nextNodeId g) \<le> k \<and> unat (m_nextPortId g) \<le> k \<and> unat (m_nextEdgeId g) \<le> k"

lemma unat_succ_le: "unat (x :: u32) \<le> k \<Longrightarrow> unat (x + 1) \<le> Suc k"
  by (metis le_SucI Suc_le_mono le0 unat_0 unat_succ add.left_inverse)

lemma counters_below_step:
  assumes "counters_below k g" and "0 < k"
  shows "counters_below (Suc k) (graph_step g op)"
  using assms
  by (cases op)
    (auto simp: counters_below_def graph_clear_def removeNodes_fields addNode_def
      setNodeOption_def setNodeOptions_def updateNode_def addInputPort_def addOutputPort_def
      addPort_def setPortFormatDescriptor_def setPortTimeDescriptor_def
      setPortHardwareDescriptor_def updatePort_def connect_def setEdgePolicy_def
      setPayloadCreditPlan_def replacePayloadCreditPlan_def setPayloadCreditMode_def Let_def
      unat_succ_le split: option.splits)

lemma counters_below_room:
  assumes "counters_below k g" and "k < 2 ^ 32 - 1"
  shows "m_nextNodeId g \<noteq> invalidValue" "m_nextPortId g \<noteq> invalidValue"
    "m_nextEdgeId g \<noteq> invalidValue"
proof -
  have "unat invalidValue = 2 ^ 32 - 1"
    by (simp add: invalidValue_def unat_word_ariths unsigned_minus_1_eq_mask mask_eq_exp_minus_1)
  then show "m_nextNodeId g \<noteq> invalidValue" "m_nextPortId g \<noteq> invalidValue"
    "m_nextEdgeId g \<noteq> invalidValue"
    using assms by (auto simp: counters_below_def)
qed

lemma graph_step_wf:
  assumes "graph_wf g" and "counters_below k g" and "k < 2 ^ 32 - 1"
  shows "graph_wf (graph_step g op)"
  using assms(1) counters_below_room [OF assms(2,3)]
  by (cases op) (simp_all add: graph_inv addInputPort_def addOutputPort_def)

lemma graph_run_wf_from:
  assumes "graph_wf g" and "counters_below k g" and "0 < k" and "k + length ops \<le> 2 ^ 32 - 1"
  shows "graph_wf (graph_run g ops)"
  using assms
proof (induction ops arbitrary: g k)
  case Nil
  then show ?case by (simp add: graph_run_def)
next
  case (Cons op ops)
  then have "graph_wf (graph_step g op)" "counters_below (Suc k) (graph_step g op)"
    using graph_step_wf [of g k op] counters_below_step [of k g op] by auto
  then have "graph_wf (graph_run (graph_step g op) ops)"
    using Cons.IH [of "graph_step g op" "Suc k"] Cons.prems by simp
  then show ?case by (simp add: graph_run_def)
qed

text \<open>
  C1. Starting from an empty graph, any sequence of fewer than \<open>2 ^ 32 - 1\<close> operations leaves the
  graph well-formed: node, port and edge identifiers are valid and unique, every port belongs to
  its node with the right direction, and every edge joins an existing output port to an existing
  input port that accepts it. The bound is the one at which a 32-bit identifier counter could
  reach the reserved invalid value.
\<close>

theorem graph_run_wf:
  assumes "length ops < 2 ^ 32 - 1"
  shows "graph_wf (graph_run empty_graph ops)"
proof -
  have "counters_below 1 empty_graph"
    by (simp add: counters_below_def empty_graph_def)
  then show ?thesis
    using graph_run_wf_from [OF graph_wf_empty, of 1 ops] assms by simp
qed

definition demo_ops :: "GraphOp list" where
  "demo_ops =
     [Op_addNode 1 ''in'' [], Op_addNode 13 ''enc'' [],
      Op_addOutputPort (MediaNodeId 1) ''o'' StreamKind_Video EdgeKind_Unknown PayloadKind_Packet
        True False,
      Op_addInputPort (MediaNodeId 2) ''i'' StreamKind_Any EdgeKind_Unknown PayloadKind_Packet
        True False,
      Op_connect (MediaNodeId 1) ''o'' (MediaNodeId 2) ''i'' ''e'' default_MediaEdgePolicy True]"

theorem graph_run_wf_witness:
  "length demo_ops < 2 ^ 32 - 1 \<and> graph_wf (graph_run empty_graph demo_ops) \<and>
   length (m_edges (graph_run empty_graph demo_ops)) = 1"
proof -
  have l: "length demo_ops < 2 ^ 32 - 1" by (simp add: demo_ops_def)
  have "length (m_edges (graph_run empty_graph demo_ops)) = 1"
    by code_simp
  then show ?thesis using l graph_run_wf [OF l] by blast
qed

section \<open>Behaviour of the operations\<close>

text \<open>
  On a well-formed graph \<open>connect\<close> returns a valid identifier exactly when the output and the
  input port exist and the input port accepts the output port. Then looking the identifier up
  yields an edge with those endpoints and the given policy; otherwise the graph is unchanged.
\<close>

theorem connect_spec:
  assumes "graph_wf g" and "m_nextEdgeId g \<noteq> invalidValue"
    and "connect g fi fname ti tname name pol req = (g', i)"
  shows "if \<exists>p q. findOutputPort g fi fname = Some p \<and> findInputPort g ti tname = Some q \<and>
                  port_accepts q p
         then edgeId_isValid i \<and> findEdge g i = None \<and>
              (\<exists>e p q. findEdge g' i = Some e \<and>
                 findOutputPort g fi fname = Some p \<and> findInputPort g ti tname = Some q \<and>
                 edge_from e = \<lparr>ep_nodeId = fi, ep_portId = port_id p\<rparr> \<and>
                 edge_to e = \<lparr>ep_nodeId = ti, ep_portId = port_id q\<rparr> \<and>
                 edge_policy e = pol \<and> m_edges g' = m_edges g @ [e])
         else \<not> edgeId_isValid i \<and> g' = g"
proof (cases "\<exists>p q. findOutputPort g fi fname = Some p \<and> findInputPort g ti tname = Some q \<and>
                    port_accepts q p")
  case False
  then have "connect g fi fname ti tname name pol req = (g, invalidEdgeId)"
    by (auto simp: connect_def split: option.splits)
  then show ?thesis using False assms(3) by (simp add: id_valid_defs)
next
  case True
  then obtain p q where pq: "findOutputPort g fi fname = Some p" "findInputPort g ti tname = Some q"
      "port_accepts q p" by blast
  have g': "fst (connect g fi fname ti tname name pol req) = g'"
      "snd (connect g fi fname ti tname name pol req) = i"
    using assms(3) by simp_all
  from connect_accepted [OF pq, where name = name and pol = pol and req = req, unfolded g']
  obtain e where e: "m_edges g' = m_edges g @ [e]" "edge_id e = i"
      "i = MediaEdgeId (m_nextEdgeId g)"
      "edge_from e = \<lparr>ep_nodeId = fi, ep_portId = port_id p\<rparr>"
      "edge_to e = \<lparr>ep_nodeId = ti, ep_portId = port_id q\<rparr>" "edge_policy e = pol"
    by metis
  have "graph_wf g'"
    using connect_wf [OF assms(1,2), of fi fname ti tname name pol req] assms(3) by simp
  then have "findEdge g' i = Some e"
    using findEdge_wf [of g' e] e by simp
  moreover have "findEdge g i = None"
    using assms(1) e(3)
    by (force simp: findEdge_def find_None_iff graph_wf_def edges_ok_def)
  moreover have "edgeId_isValid i"
    using assms(2) e(3) by (simp add: edgeId_isValid_def)
  ultimately show ?thesis
    unfolding if_P [OF True] using pq e by (intro conjI exI [of _ e] exI [of _ p] exI [of _ q])
qed

theorem connect_spec_witness:
  "\<exists>g' i. connect (graph_run empty_graph (butlast demo_ops)) (MediaNodeId 1) ''o'' (MediaNodeId 2)
            ''i'' ''e'' default_MediaEdgePolicy True = (g', i) \<and>
          edgeId_isValid i \<and> findEdge g' i \<noteq> None"
proof -
  let ?g = "graph_run empty_graph (butlast demo_ops)"
  obtain g' i where c: "connect ?g (MediaNodeId 1) ''o'' (MediaNodeId 2) ''i'' ''e''
      default_MediaEdgePolicy True = (g', i)" by fastforce
  have wf: "graph_wf ?g"
    by (rule graph_run_wf_from [OF graph_wf_empty, of 1])
      (simp_all add: counters_below_def empty_graph_def demo_ops_def)
  have n: "m_nextEdgeId ?g \<noteq> invalidValue" by code_simp
  have p: "(case (findOutputPort ?g (MediaNodeId 1) ''o'', findInputPort ?g (MediaNodeId 2) ''i'') of
        (Some p, Some q) \<Rightarrow> port_accepts q p | _ \<Rightarrow> False) = True"
    by code_simp
  then have "\<exists>p q. findOutputPort ?g (MediaNodeId 1) ''o'' = Some p \<and>
      findInputPort ?g (MediaNodeId 2) ''i'' = Some q \<and> port_accepts q p"
    by (auto split: option.splits)
  then show ?thesis using connect_spec [OF wf n c] c by auto
qed

text \<open>
  After \<open>removeNodes\<close> on a well-formed graph the listed nodes are gone and every other node is
  still found unchanged, no remaining edge touches a removed node, every edge between kept nodes
  is still found, and the graph is well-formed.
\<close>

theorem removeNodes_spec:
  assumes "graph_wf g"
  shows "graph_wf (removeNodes g is) \<and>
         (\<forall>i. findNode (removeNodes g is) i = (if i \<in> set is then None else findNode g i)) \<and>
         (\<forall>e. e \<in> set (m_edges (removeNodes g is)) \<longleftrightarrow>
              e \<in> set (m_edges g) \<and> ep_nodeId (edge_from e) \<notin> set is \<and>
              ep_nodeId (edge_to e) \<notin> set is)"
proof -
  have "List.find (\<lambda>n. node_id n = i) (filter (\<lambda>n. node_id n \<notin> set is) ns) =
        (if i \<in> set is then None else List.find (\<lambda>n. node_id n = i) ns)"
    for i and ns :: "MediaNode list"
    by (induction ns) (auto simp: find_None_iff)
  then show ?thesis
    using removeNodes_wf [OF assms] by (auto simp: findNode_def removeNodes_fields)
qed

theorem removeNodes_spec_witness:
  "let g = graph_run empty_graph demo_ops in
   graph_wf g \<and> graph_wf (removeNodes g [MediaNodeId 1]) \<and>
   findNode (removeNodes g [MediaNodeId 1]) (MediaNodeId 1) = None \<and>
   m_edges (removeNodes g [MediaNodeId 1]) = []"
proof -
  let ?g = "graph_run empty_graph demo_ops"
  have wf: "graph_wf ?g"
    by (rule graph_run_wf_from [OF graph_wf_empty, of 1])
      (simp_all add: counters_below_def empty_graph_def demo_ops_def)
  have "List.null (m_edges (removeNodes ?g [MediaNodeId 1])) = True" by code_simp
  then show ?thesis using wf removeNodes_spec [OF wf, of "[MediaNodeId 1]"] by simp
qed

end
