(* ===== verification/Graph_Topology.thy ===== *)
theory Graph_Topology
  imports Graph_Invariant "HOL-Library.AList"
begin

text \<open>
  \<^verbatim>\<open>core/MediaGraphTopology.cpp\<close>: the topological order, the sources, sinks and levels of a media
  graph, computed by a work-list over in-degrees. An unordered map is an association list updated
  with \<open>AList.update\<close>, so every definition computes; no result depends on its order. The work-list
  loop terminates because each pop either shortens the list or is paid for by a node whose
  in-degree leaves the positive range. In-degrees are unbounded integers: a graph would need
  \<open>2 ^ 31\<close> edges into one node before the \<^verbatim>\<open>int\<close> of the code could overflow.
\<close>

section \<open>Definitions\<close>

type_synonym NodeKey = u32

record TopologyState =
  indegree :: "(NodeKey \<times> int) list"
  outdegree :: "(NodeKey \<times> int) list"
  adjacency :: "(NodeKey \<times> NodeKey list) list"
  ids :: "(NodeKey \<times> MediaNodeId) list"

record MediaGraphTopologyResult =
  topo_order :: "MediaNodeId list"
  topo_sources :: "MediaNodeId list"
  topo_sinks :: "MediaNodeId list"
  topo_levels :: "MediaNodeId list list"

text \<open>\<^verbatim>\<open>m[k]\<close> of an unordered map: a missing key reads as the default value.\<close>

definition get_or :: "'v \<Rightarrow> ('k \<times> 'v) list \<Rightarrow> 'k \<Rightarrow> 'v" where
  "get_or d m k = (case map_of m k of None \<Rightarrow> d | Some v \<Rightarrow> v)"

definition buildState_node :: "MediaNode \<Rightarrow> TopologyState \<Rightarrow> TopologyState" where
  "buildState_node node state =
     (if \<not> nodeId_isValid (node_id node) then state
      else
        (let key = node_value (node_id node)
         in state\<lparr>indegree := AList.update key 0 (indegree state),
                  outdegree := AList.update key 0 (outdegree state),
                  ids := AList.update key (node_id node) (ids state)\<rparr>))"

definition buildState_edge :: "MediaEdge \<Rightarrow> TopologyState \<Rightarrow> TopologyState" where
  "buildState_edge edge state =
     (if \<not> edge_isValid edge then state
      else
        (let from = node_value (ep_nodeId (edge_from edge));
             to = node_value (ep_nodeId (edge_to edge))
         in if map_of (ids state) from = None \<or> map_of (ids state) to = None then state
            else state\<lparr>adjacency := AList.update from (get_or [] (adjacency state) from @ [to])
                                      (adjacency state),
                       indegree := AList.update to (get_or 0 (indegree state) to + 1)
                                     (indegree state),
                       outdegree := AList.update from (get_or 0 (outdegree state) from + 1)
                                      (outdegree state)\<rparr>))"

definition buildState :: "MediaGraph \<Rightarrow> TopologyState" where
  "buildState graph =
     fold buildState_edge (m_edges graph)
       (fold buildState_node (m_nodes graph)
          \<lparr>indegree = [], outdegree = [], adjacency = [], ids = []\<rparr>)"

definition initialSources :: "MediaGraph \<Rightarrow> TopologyState \<Rightarrow> MediaNode list" where
  "initialSources graph state =
     filter (\<lambda>n. nodeId_isValid (node_id n) \<and>
                 map_of (indegree state) (node_value (node_id n)) = Some 0) (m_nodes graph)"

text \<open>\<^verbatim>\<open>pushInitialSources\<close> fills the ready queue and the sources of the result.\<close>

definition pushInitialSources :: "MediaGraph \<Rightarrow> TopologyState \<Rightarrow> NodeKey list \<times> MediaNodeId list" where
  "pushInitialSources graph state =
     (map (\<lambda>n. node_value (node_id n)) (initialSources graph state),
      map node_id (initialSources graph state))"

definition appendSinks :: "MediaGraph \<Rightarrow> TopologyState \<Rightarrow> MediaNodeId list" where
  "appendSinks graph state =
     map node_id
       (filter (\<lambda>n. nodeId_isValid (node_id n) \<and>
                    map_of (outdegree state) (node_value (node_id n)) = Some 0) (m_nodes graph))"

text \<open>The inner loop of \<^verbatim>\<open>build\<close> over the successors of the node taken from the ready queue.\<close>

fun relax ::
  "NodeKey \<Rightarrow> NodeKey list \<Rightarrow> (NodeKey \<times> int) list \<times> (NodeKey \<times> nat) list \<times> NodeKey list \<Rightarrow>
   (NodeKey \<times> int) list \<times> (NodeKey \<times> nat) list \<times> NodeKey list" where
  "relax current [] (indeg, nodeLevels, ready) = (indeg, nodeLevels, ready)"
| "relax current (next # rest) (indeg, nodeLevels, ready) =
     (case map_of indeg next of
        None \<Rightarrow> relax current rest (indeg, nodeLevels, ready)
      | Some d \<Rightarrow>
          (let nodeLevels' =
                 AList.update next (max (get_or 0 nodeLevels next) (get_or 0 nodeLevels current + 1))
                   nodeLevels;
               indeg' = AList.update next (d - 1) indeg;
               ready' = (if d - 1 = 0 then ready @ [next] else ready)
           in relax current rest (indeg', nodeLevels', ready')))"

text \<open>Termination: the number of keys with a positive in-degree plus the ready queue.\<close>

definition positive_count :: "(NodeKey \<times> int) list \<Rightarrow> nat" where
  "positive_count m = length (filter (\<lambda>(k, v). v > 0) m)"

lemma positive_count_update_le:
  "map_of m k = Some d \<Longrightarrow> positive_count (AList.update k (d - 1) m) \<le> positive_count m"
  by (induction m) (auto simp: positive_count_def split: if_splits)

lemma positive_count_update_zero:
  "map_of m k = Some 1 \<Longrightarrow> Suc (positive_count (AList.update k 0 m)) = positive_count m"
  by (induction m) (auto simp: positive_count_def split: if_splits)

lemma relax_measure:
  "relax current nexts (indeg, lev, ready) = (indeg', lev', ready') \<Longrightarrow>
   length ready' + positive_count indeg' \<le> length ready + positive_count indeg"
proof (induction current nexts "(indeg, lev, ready)" arbitrary: indeg lev ready
    rule: relax.induct)
  case (1 current indeg lev ready)
  then show ?case by simp
next
  case (2 current nxt rest indeg lev ready)
  show ?case
  proof (cases "map_of indeg nxt")
    case None
    then show ?thesis using 2 by simp
  next
    case (Some d)
    show ?thesis
      using 2(2) [OF Some refl refl refl] 2(3) Some
        positive_count_update_le [of indeg nxt d] positive_count_update_zero [of indeg nxt]
      by (cases "d = 1") (auto simp: Let_def)
  qed
qed

function kahn_loop ::
  "(NodeKey \<times> MediaNodeId) list \<Rightarrow> (NodeKey \<times> NodeKey list) list \<Rightarrow>
   NodeKey list \<Rightarrow> (NodeKey \<times> int) list \<Rightarrow> (NodeKey \<times> nat) list \<Rightarrow> MediaNodeId list \<Rightarrow>
   (NodeKey \<times> nat) list \<times> MediaNodeId list" where
  "kahn_loop idmap adj [] indeg nodeLevels order = (nodeLevels, order)"
| "kahn_loop idmap adj (current # ready) indeg nodeLevels order =
     (case map_of idmap current of
        None \<Rightarrow> kahn_loop idmap adj ready indeg nodeLevels order
      | Some i \<Rightarrow>
          (case map_of adj current of
             None \<Rightarrow> kahn_loop idmap adj ready indeg nodeLevels (order @ [i])
           | Some nexts \<Rightarrow>
               (case relax current nexts (indeg, nodeLevels, ready) of
                  (indeg', nodeLevels', ready') \<Rightarrow>
                    kahn_loop idmap adj ready' indeg' nodeLevels' (order @ [i]))))"
  by pat_completeness auto
termination
  by (relation "measure (\<lambda>(idmap, adj, ready, indeg, lev, order). length ready + positive_count indeg)")
    (auto dest!: relax_measure [OF sym])

text \<open>\<^verbatim>\<open>appendLevels\<close>.\<close>

definition maxLevel :: "(NodeKey \<times> nat) list \<Rightarrow> nat" where
  "maxLevel nodeLevels = fold (\<lambda>item acc. max acc (snd item)) nodeLevels 0"

definition appendLevel ::
  "(NodeKey \<times> nat) list \<Rightarrow> MediaNodeId \<Rightarrow> MediaNodeId list list \<Rightarrow> MediaNodeId list list" where
  "appendLevel nodeLevels i levels =
     (case map_of nodeLevels (node_value i) of
        None \<Rightarrow> levels
      | Some l \<Rightarrow> levels[l := (levels ! l) @ [i]])"

definition appendLevels :: "(NodeKey \<times> nat) list \<Rightarrow> MediaNodeId list \<Rightarrow> MediaNodeId list list" where
  "appendLevels nodeLevels order =
     fold (appendLevel nodeLevels) order (replicate (maxLevel nodeLevels + 1) [])"

definition topology_build :: "MediaGraph \<Rightarrow> MediaGraphTopologyResult Result" where
  "topology_build graph =
     (let state = buildState graph;
          nodeLevels0 = map (\<lambda>(k, i). (k, 0)) (ids state);
          (ready, sources) = pushInitialSources graph state;
          sinks = appendSinks graph state;
          (nodeLevels, order) =
            kahn_loop (ids state) (adjacency state) ready (indegree state) nodeLevels0 []
      in if length order \<noteq> length (ids state) then failure InvalidArgument
         else success \<lparr>topo_order = order, topo_sources = sources, topo_sinks = sinks,
                       topo_levels = appendLevels nodeLevels order\<rparr>)"

end
