(* ===== verification/Topology_Correct.thy ===== *)
theory Topology_Correct
  imports Graph_Topology
begin

text \<open>
  Correctness of the topology builder: on a well-formed graph it succeeds exactly when the edge
  relation is acyclic, the order it returns is a topological order of all nodes, and the levels
  are the longest-path levels. The work-list loop is first analysed over a list of keys and a list
  of key pairs; the state the code builds from a graph is then shown to be such an instance.
\<close>

section \<open>The work-list loop over keys and pairs\<close>

type_synonym pairs = "(NodeKey \<times> NodeKey) list"

definition succs :: "pairs \<Rightarrow> NodeKey \<Rightarrow> NodeKey list" where
  "succs E k = map snd (filter (\<lambda>p. fst p = k) E)"

text \<open>The number of edges into a key from keys outside a set: the in-degree still to be consumed.\<close>

definition remaining :: "pairs \<Rightarrow> NodeKey set \<Rightarrow> NodeKey \<Rightarrow> nat" where
  "remaining E D k = length (filter (\<lambda>p. snd p = k \<and> fst p \<notin> D) E)"

lemma set_succs: "b \<in> set (succs E a) \<longleftrightarrow> (a, b) \<in> set E"
  by (force simp: succs_def)

lemma remaining_zero: "remaining E D k = 0 \<longleftrightarrow> (\<forall>a. (a, k) \<in> set E \<longrightarrow> a \<in> D)"
  by (auto simp: remaining_def filter_empty_conv)

lemma remaining_insert:
  "c \<notin> D \<Longrightarrow> remaining E D k = remaining E (insert c D) k + count_list (succs E c) k"
  by (induction E) (auto simp: remaining_def succs_def)

lemma count_succs_pos: "k \<in> set (succs E c) \<longleftrightarrow> 0 < count_list (succs E c) k"
  by (simp add: count_list_0_iff zero_less_iff_neq_zero)

definition level :: "(NodeKey \<times> nat) list \<Rightarrow> NodeKey \<Rightarrow> nat" where
  "level lev k = get_or 0 lev k"

lemma get_or_update: "get_or d (AList.update k v m) k' = (if k' = k then v else get_or d m k')"
  by (simp add: get_or_def AList.update_conv)

lemma relax_spec:
  assumes "\<forall>k\<in>set nexts. \<exists>d. map_of indeg k = Some d \<and> int (count_list nexts k) \<le> d"
    and "c \<notin> set nexts" and "relax c nexts (indeg, lev, ready) = (indeg', lev', ready')"
  shows "(\<forall>k. map_of indeg' k = map_option (\<lambda>d. d - int (count_list nexts k)) (map_of indeg k)) \<and>
         (\<exists>zs. ready' = ready @ zs \<and> distinct zs \<and>
               set zs = {k\<in>set nexts. map_of indeg k = Some (int (count_list nexts k))}) \<and>
         (\<forall>k. level lev' k = (if k \<in> set nexts then max (level lev k) (level lev c + 1)
                              else level lev k)) \<and>
         dom (map_of lev') = dom (map_of lev) \<union> set nexts"
  using assms
proof (induction nexts arbitrary: indeg lev ready)
  case Nil
  then show ?case by (simp add: option.map_ident)
next
  case (Cons x xs)
  obtain d where d: "map_of indeg x = Some d" and d_ge: "1 + int (count_list xs x) \<le> d"
    using Cons.prems(1) by fastforce
  define indeg1 where "indeg1 = AList.update x (d - 1) indeg"
  define lev1 where "lev1 = AList.update x (max (level lev x) (level lev c + 1)) lev"
  define ready1 where "ready1 = (if d - 1 = 0 then ready @ [x] else ready)"
  have step: "relax c xs (indeg1, lev1, ready1) = (indeg', lev', ready')"
    using Cons.prems(3) d by (simp add: Let_def indeg1_def lev1_def ready1_def level_def)
  have m1: "map_of indeg1 = (map_of indeg)(x \<mapsto> d - 1)"
    by (rule ext) (simp add: indeg1_def AList.update_conv)
  have pre: "\<forall>k\<in>set xs. \<exists>d. map_of indeg1 k = Some d \<and> int (count_list xs k) \<le> d"
    using Cons.prems(1) d_ge by (force simp: m1)
  have c: "c \<notin> set xs" "c \<noteq> x" using Cons.prems(2) by auto
  obtain zs where
    ind: "\<forall>k. map_of indeg' k = map_option (\<lambda>d. d - int (count_list xs k)) (map_of indeg1 k)" and
    zs: "ready' = ready1 @ zs" "distinct zs"
        "set zs = {k\<in>set xs. map_of indeg1 k = Some (int (count_list xs k))}" and
    lv: "\<forall>k. level lev' k = (if k \<in> set xs then max (level lev1 k) (level lev1 c + 1)
                             else level lev1 k)" and
    dm: "dom (map_of lev') = dom (map_of lev1) \<union> set xs"
    using Cons.IH [OF pre c(1) step] by blast
  have zk: "k \<in> set zs \<longleftrightarrow> k \<in> set xs \<and> map_of indeg1 k = Some (int (count_list xs k))" for k
    by (simp add: zs(3))
  have "map_of indeg' k = map_option (\<lambda>d. d - int (count_list (x # xs) k)) (map_of indeg k)" for k
    using ind d by (simp add: m1 option.map_comp)
  moreover have "\<exists>zs. ready' = ready @ zs \<and> distinct zs \<and>
      set zs = {k\<in>set (x # xs). map_of indeg k = Some (int (count_list (x # xs) k))}"
  proof (cases "d = 1")
    case True
    then have x: "x \<notin> set xs" "count_list xs x = 0"
      using d_ge count_list_0_iff [of xs x] by auto
    have "k \<in> set (x # zs) \<longleftrightarrow>
        k \<in> set (x # xs) \<and> map_of indeg k = Some (int (count_list (x # xs) k))" for k
      using x True d zs(3) by (cases "k = x") (simp_all add: m1)
    then have "set (x # zs) =
        {k\<in>set (x # xs). map_of indeg k = Some (int (count_list (x # xs) k))}" by blast
    moreover have "distinct (x # zs)" "ready' = ready @ x # zs"
      using zs x True by (simp_all add: ready1_def)
    ultimately show ?thesis by blast
  next
    case False
    have "k \<in> set zs \<longleftrightarrow>
        k \<in> set (x # xs) \<and> map_of indeg k = Some (int (count_list (x # xs) k))" for k
    proof (cases "k = x")
      case True
      have "x \<in> set xs \<or> count_list xs x = 0" by (cases "x \<in> set xs") auto
      then show ?thesis using True False d d_ge zk [of x] by (auto simp: m1)
    next
      case k: False
      then show ?thesis using zk [of k] by (simp add: m1)
    qed
    then have "set zs = {k\<in>set (x # xs). map_of indeg k = Some (int (count_list (x # xs) k))}"
      by blast
    moreover have "ready' = ready @ zs" using zs(1) False by (simp add: ready1_def)
    ultimately show ?thesis using zs(2) by blast
  qed
  moreover have l1: "level lev1 k = (if k = x then max (level lev x) (level lev c + 1) else level lev k)" for k
    by (simp add: lev1_def level_def get_or_update)
  then have "level lev' k = (if k \<in> set (x # xs) then max (level lev k) (level lev c + 1)
                             else level lev k)" for k
    using lv c(2) by auto
  moreover have "dom (map_of lev') = dom (map_of lev) \<union> set (x # xs)"
    using dm by (auto simp: lev1_def AList.update_conv)
  ultimately show ?case by blast
qed

section \<open>The loop invariant\<close>

definition preds_before :: "pairs \<Rightarrow> NodeKey list \<Rightarrow> bool" where
  "preds_before E os \<longleftrightarrow> (\<forall>i<length os. \<forall>a. (a, os ! i) \<in> set E \<longrightarrow> a \<in> set (take i os))"

definition longest_levels :: "NodeKey list \<Rightarrow> pairs \<Rightarrow> NodeKey set \<Rightarrow> (NodeKey \<Rightarrow> nat) \<Rightarrow> bool" where
  "longest_levels K E D L \<longleftrightarrow>
     (\<forall>k\<in>set K. L k = Max (insert 0 ((\<lambda>a. Suc (L a)) ` {a\<in>D. (a, k) \<in> set E})))"

definition loop_inv ::
  "NodeKey list \<Rightarrow> pairs \<Rightarrow> NodeKey list \<Rightarrow> (NodeKey \<times> int) list \<Rightarrow> (NodeKey \<times> nat) list \<Rightarrow>
   NodeKey list \<Rightarrow> bool" where
  "loop_inv K E ready indeg lev os \<longleftrightarrow>
     distinct (os @ ready) \<and> set (os @ ready) \<subseteq> set K \<and>
     (\<forall>k\<in>set K. map_of indeg k = Some (int (remaining E (set os) k))) \<and>
     (\<forall>k\<in>set K. remaining E (set os) k = 0 \<longleftrightarrow> k \<in> set (os @ ready)) \<and>
     preds_before E os \<and> longest_levels K E (set os) (level lev) \<and> dom (map_of lev) = set K"

lemma preds_before_snoc:
  assumes "preds_before E os" and "\<forall>a. (a, c) \<in> set E \<longrightarrow> a \<in> set os"
  shows "preds_before E (os @ [c])"
  using assms unfolding preds_before_def by (auto simp: nth_append less_Suc_eq)

lemma preds_before_closed:
  assumes "preds_before E os" and "k \<in> set os" and "(a, k) \<in> set E"
  shows "a \<in> set os"
  using assms unfolding preds_before_def by (metis in_set_conv_nth in_set_takeD)

lemma longest_levels_step:
  assumes lv: "longest_levels K E D L" and c: "c \<notin> D" "finite D"
    and closed: "\<forall>k\<in>insert c D. (c, k) \<notin> set E"
    and L': "\<And>k. L' k = (if (c, k) \<in> set E then max (L k) (L c + 1) else L k)"
  shows "longest_levels K E (insert c D) L'"
  unfolding longest_levels_def
proof
  fix k assume "k \<in> set K"
  then have Lk: "L k = Max (insert 0 ((\<lambda>a. Suc (L a)) ` {a\<in>D. (a, k) \<in> set E}))"
    using lv by (simp add: longest_levels_def)
  have same: "L' a = L a" if "a \<in> insert c D" for a
    using that closed L' by auto
  let ?A = "{a\<in>D. (a, k) \<in> set E}"
  have img: "(\<lambda>a. Suc (L' a)) ` ?A = (\<lambda>a. Suc (L a)) ` ?A"
    by (rule image_cong) (use same in auto)
  show "L' k = Max (insert 0 ((\<lambda>a. Suc (L' a)) ` {a\<in>insert c D. (a, k) \<in> set E}))"
  proof (cases "(c, k) \<in> set E")
    case True
    then have "{a\<in>insert c D. (a, k) \<in> set E} = insert c ?A" by auto
    then have "Max (insert 0 ((\<lambda>a. Suc (L' a)) ` {a\<in>insert c D. (a, k) \<in> set E})) =
        Max (insert (Suc (L c)) (insert 0 ((\<lambda>a. Suc (L a)) ` ?A)))"
      using same img by (simp add: insert_commute)
    also have "\<dots> = max (Suc (L c)) (L k)"
      using Lk c(2) by (subst Max_insert) auto
    finally show ?thesis using True L' by simp
  next
    case False
    then have "{a\<in>insert c D. (a, k) \<in> set E} = ?A" by auto
    then show ?thesis using False L' img Lk by simp
  qed
qed

lemma loop_inv_step:
  assumes inv: "loop_inv K E (c # ready) indeg lev os" and EK: "set E \<subseteq> set K \<times> set K"
    and r: "relax c (succs E c) (indeg, lev, ready) = (indeg', lev', ready')"
  shows "loop_inv K E ready' indeg' lev' (os @ [c])"
proof -
  note I = inv [unfolded loop_inv_def]
  let ?D = "set os" and ?n = "succs E c"
  have c: "c \<notin> ?D" "c \<in> set K" "remaining E ?D c = 0" using I by auto
  then have preds: "\<forall>a. (a, c) \<in> set E \<longrightarrow> a \<in> ?D" by (simp add: remaining_zero)
  have rem: "remaining E ?D k = remaining E (insert c ?D) k + count_list ?n k" for k
    using c(1) by (rule remaining_insert)
  have cn: "c \<notin> set ?n" using preds c(1) by (auto simp: set_succs)
  have nK: "set ?n \<subseteq> set K" using EK by (auto simp: set_succs)
  have pre: "\<forall>k\<in>set ?n. \<exists>d. map_of indeg k = Some d \<and> int (count_list ?n k) \<le> d"
    using I nK rem by auto
  obtain zs where
    ind: "\<forall>k. map_of indeg' k = map_option (\<lambda>d. d - int (count_list ?n k)) (map_of indeg k)" and
    zs: "ready' = ready @ zs" "distinct zs"
        "set zs = {k\<in>set ?n. map_of indeg k = Some (int (count_list ?n k))}" and
    lv: "\<forall>k. level lev' k = (if k \<in> set ?n then max (level lev k) (level lev c + 1)
                             else level lev k)" and
    dm: "dom (map_of lev') = dom (map_of lev) \<union> set ?n"
    using relax_spec [OF pre cn r] by blast
  have zs_iff: "k \<in> set zs \<longleftrightarrow> k \<in> set ?n \<and> remaining E (insert c ?D) k = 0" for k
    using zs(3) I nK rem [of k] by auto
  have old: "k \<notin> set ?n" if "k \<in> set (os @ c # ready)" for k
  proof -
    have "remaining E ?D k = 0" using I that by auto
    then show ?thesis using c(1) by (auto simp: set_succs remaining_zero)
  qed
  have "distinct (os @ [c] @ ready')" using I zs old zs_iff by auto
  moreover have "set (os @ [c] @ ready') \<subseteq> set K" using I zs nK zs_iff by auto
  moreover have "\<forall>k\<in>set K. map_of indeg' k = Some (int (remaining E (insert c ?D) k))"
    using I ind rem by auto
  moreover have "\<forall>k\<in>set K. remaining E (insert c ?D) k = 0 \<longleftrightarrow> k \<in> set (os @ [c] @ ready')"
  proof
    fix k assume k: "k \<in> set K"
    have iff: "remaining E ?D k = 0 \<longleftrightarrow> k \<in> set (os @ c # ready)" using I k by blast
    show "remaining E (insert c ?D) k = 0 \<longleftrightarrow> k \<in> set (os @ [c] @ ready')"
      using iff rem [of k] zs_iff [of k] zs(1) count_succs_pos [of k E c] by auto
  qed
  moreover have "preds_before E (os @ [c])"
    using I preds by (intro preds_before_snoc) auto
  moreover have "longest_levels K E (insert c ?D) (level lev')"
    by (rule longest_levels_step [where L = "level lev"])
      (use I c old lv in \<open>auto simp: set_succs\<close>)
  moreover have "dom (map_of lev') = set K" using dm I nK by auto
  ultimately show ?thesis by (simp add: loop_inv_def)
qed

text \<open>How the code's maps represent the keys and the pairs.\<close>

definition represents ::
  "NodeKey list \<Rightarrow> pairs \<Rightarrow> (NodeKey \<times> MediaNodeId) list \<Rightarrow> (NodeKey \<times> NodeKey list) list \<Rightarrow> bool" where
  "represents K E idmap adj \<longleftrightarrow>
     set E \<subseteq> set K \<times> set K \<and> (\<forall>k\<in>set K. map_of idmap k = Some (MediaNodeId k)) \<and>
     (\<forall>k. get_or [] adj k = succs E k)"

lemma kahn_loop_Some:
  assumes "map_of idmap c = Some i"
  shows "kahn_loop idmap adj (c # ready) indeg lev order =
         (case relax c (get_or [] adj c) (indeg, lev, ready) of
            (indeg', lev', ready') \<Rightarrow> kahn_loop idmap adj ready' indeg' lev' (order @ [i]))"
  using assms by (simp add: get_or_def split: option.split)

lemma kahn_loop_inv:
  assumes "represents K E idmap adj" and "loop_inv K E ready indeg lev (map node_value order)"
    and "kahn_loop idmap adj ready indeg lev order = (lev', order')"
  shows "\<exists>indeg'. loop_inv K E [] indeg' lev' (map node_value order')"
  using assms(2,3)
proof (induction "length ready + positive_count indeg" arbitrary: ready indeg lev order
    rule: less_induct)
  case less
  show ?case
  proof (cases ready)
    case Nil
    then show ?thesis using less.prems by auto
  next
    case (Cons c rest)
    then have "c \<in> set K" using less.prems(1) by (simp add: loop_inv_def)
    then have i: "map_of idmap c = Some (MediaNodeId c)" and adj: "get_or [] adj c = succs E c"
      using assms(1) by (auto simp: represents_def)
    obtain indeg1 lev1 ready1 where r: "relax c (succs E c) (indeg, lev, rest) = (indeg1, lev1, ready1)"
      by (metis prod_cases3)
    have "loop_inv K E ready1 indeg1 lev1 (map node_value (order @ [MediaNodeId c]))"
      using loop_inv_step [OF _ _ r] less.prems(1) Cons assms(1) by (simp add: represents_def)
    moreover have "kahn_loop idmap adj ready1 indeg1 lev1 (order @ [MediaNodeId c]) = (lev', order')"
      using less.prems(2) Cons r adj by (simp add: kahn_loop_Some [OF i] del: kahn_loop.simps(2))
    moreover have "length ready1 + positive_count indeg1 < length ready + positive_count indeg"
      using relax_measure [OF r] Cons by simp
    ultimately show ?thesis using less.hyps by blast
  qed
qed

section \<open>The state built from a graph\<close>

definition node_keys :: "MediaGraph \<Rightarrow> NodeKey list" where
  "node_keys g = map (\<lambda>n. node_value (node_id n)) (m_nodes g)"

definition edge_pair :: "MediaEdge \<Rightarrow> NodeKey \<times> NodeKey" where
  "edge_pair e = (node_value (ep_nodeId (edge_from e)), node_value (ep_nodeId (edge_to e)))"

definition edge_rel :: "MediaGraph \<Rightarrow> (MediaNodeId \<times> MediaNodeId) set" where
  "edge_rel g = (\<lambda>e. (ep_nodeId (edge_from e), ep_nodeId (edge_to e))) ` set (m_edges g)"

lemma AList_update_new: "k \<notin> fst ` set m \<Longrightarrow> AList.update k v m = m @ [(k, v)]"
  by (induction m) auto

lemma fold_buildState_node:
  assumes "distinct (map (\<lambda>n. node_value (node_id n)) ns)"
    and "\<forall>n\<in>set ns. nodeId_isValid (node_id n) \<and> node_value (node_id n) \<notin> fst ` set (ids s)"
    and "fst ` set (indegree s) = fst ` set (ids s)" "fst ` set (outdegree s) = fst ` set (ids s)"
  shows "fold buildState_node ns s =
         s\<lparr>indegree := indegree s @ map (\<lambda>n. (node_value (node_id n), 0)) ns,
           outdegree := outdegree s @ map (\<lambda>n. (node_value (node_id n), 0)) ns,
           ids := ids s @ map (\<lambda>n. (node_value (node_id n), node_id n)) ns\<rparr>"
  using assms
proof (induction ns arbitrary: s)
  case Nil
  then show ?case by simp
next
  case (Cons n ns)
  let ?k = "node_value (node_id n)"
  have "buildState_node n s = s\<lparr>indegree := indegree s @ [(?k, 0)],
      outdegree := outdegree s @ [(?k, 0)], ids := ids s @ [(?k, node_id n)]\<rparr>"
    using Cons.prems by (simp add: buildState_node_def AList_update_new Let_def)
  then show ?case
    using Cons.prems by (subst fold_Cons, simp, subst Cons.IH) (auto simp: image_iff)
qed

lemma fold_buildState_edge:
  assumes "\<forall>e\<in>set es. edge_isValid e \<and> fst (edge_pair e) \<in> dom (map_of (ids s)) \<and>
                      snd (edge_pair e) \<in> dom (map_of (ids s))"
    and "dom (map_of (indegree s)) = dom (map_of (ids s))"
    and "dom (map_of (outdegree s)) = dom (map_of (ids s))"
  shows "ids (fold buildState_edge es s) = ids s \<and>
     (\<forall>k. map_of (indegree (fold buildState_edge es s)) k =
          map_option (\<lambda>d. d + int (count_list (map snd (map edge_pair es)) k))
            (map_of (indegree s) k)) \<and>
     (\<forall>k. map_of (outdegree (fold buildState_edge es s)) k =
          map_option (\<lambda>d. d + int (count_list (map fst (map edge_pair es)) k))
            (map_of (outdegree s) k)) \<and>
     (\<forall>k. get_or [] (adjacency (fold buildState_edge es s)) k =
          get_or [] (adjacency s) k @ succs (map edge_pair es) k)"
  using assms
proof (induction es arbitrary: s)
  case Nil
  then show ?case by (simp add: succs_def option.map_ident)
next
  case (Cons e es)
  define a where "a = fst (edge_pair e)"
  define b where "b = snd (edge_pair e)"
  have ab: "node_value (ep_nodeId (edge_from e)) = a" "node_value (ep_nodeId (edge_to e)) = b"
    by (simp_all add: a_def b_def edge_pair_def)
  have in_dom: "a \<in> dom (map_of (ids s))" "b \<in> dom (map_of (ids s))"
    using Cons.prems(1) by (simp_all add: a_def b_def)
  then obtain da db where d: "map_of (outdegree s) a = Some da" "map_of (indegree s) b = Some db"
    using Cons.prems(2,3) by blast
  define s1 where "s1 = buildState_edge e s"
  have s1: "ids s1 = ids s" "indegree s1 = AList.update b (db + 1) (indegree s)"
      "outdegree s1 = AList.update a (da + 1) (outdegree s)"
      "adjacency s1 = AList.update a (get_or [] (adjacency s) a @ [b]) (adjacency s)"
    using Cons.prems(1) in_dom d
    by (auto simp: s1_def buildState_edge_def ab Let_def get_or_def)
  have IH: "ids (fold buildState_edge es s1) = ids s1 \<and>
     (\<forall>k. map_of (indegree (fold buildState_edge es s1)) k =
          map_option (\<lambda>d. d + int (count_list (map snd (map edge_pair es)) k))
            (map_of (indegree s1) k)) \<and>
     (\<forall>k. map_of (outdegree (fold buildState_edge es s1)) k =
          map_option (\<lambda>d. d + int (count_list (map fst (map edge_pair es)) k))
            (map_of (outdegree s1) k)) \<and>
     (\<forall>k. get_or [] (adjacency (fold buildState_edge es s1)) k =
          get_or [] (adjacency s1) k @ succs (map edge_pair es) k)"
  proof (rule Cons.IH)
    show "dom (map_of (indegree s1)) = dom (map_of (ids s1))"
      using Cons.prems(2) in_dom by (simp add: s1 AList.update_conv' insert_absorb)
    show "dom (map_of (outdegree s1)) = dom (map_of (ids s1))"
      using Cons.prems(3) in_dom by (simp add: s1 AList.update_conv' insert_absorb)
  qed (use Cons.prems(1) in \<open>auto simp: s1\<close>)
  have "fold buildState_edge (e # es) s = fold buildState_edge es s1" by (simp add: s1_def)
  then show ?case
    using IH d by (simp add: s1 AList.update_conv get_or_update succs_def option.map_comp
        comp_def flip: a_def b_def)
qed

lemma wf_keys:
  assumes "graph_wf g"
  shows "distinct (node_keys g)"
    and "\<forall>e\<in>set (m_edges g). edge_isValid e \<and> fst (edge_pair e) \<in> set (node_keys g) \<and>
                              snd (edge_pair e) \<in> set (node_keys g)"
proof -
  have "distinct (map node_id (m_nodes g))"
    using assms by (simp add: graph_wf_def nodes_ok_def)
  then have "distinct (map node_value (map node_id (m_nodes g)))"
    by (simp add: distinct_map inj_on_def MediaNodeId.expand)
  then show "distinct (node_keys g)" by (simp add: node_keys_def comp_def)
  show "\<forall>e\<in>set (m_edges g). edge_isValid e \<and> fst (edge_pair e) \<in> set (node_keys g) \<and>
                              snd (edge_pair e) \<in> set (node_keys g)"
  proof
    fix e assume e: "e \<in> set (m_edges g)"
    then have "edge_wf (m_nodes g) e"
      using assms by (simp add: graph_wf_def edges_ok_def)
    then obtain fn fp tn tp where
      fn: "fn \<in> set (m_nodes g)" "fp \<in> set (node_outputPorts fn)" and
      tn: "tn \<in> set (m_nodes g)" "tp \<in> set (node_inputPorts tn)" and
      eq: "ep_nodeId (edge_from e) = node_id fn" "ep_portId (edge_from e) = port_id fp"
          "ep_nodeId (edge_to e) = node_id tn" "ep_portId (edge_to e) = port_id tp"
      unfolding edge_wf_def by blast
    have "portId_isValid (port_id fp)" "portId_isValid (port_id tp)"
      using graph_wf_port_valid [OF assms] fn tn
      by (auto simp: all_ports_def node_ports_def)
    then show "edge_isValid e \<and> fst (edge_pair e) \<in> set (node_keys g) \<and>
                              snd (edge_pair e) \<in> set (node_keys g)"
      using graph_wf_edge_valid [OF assms e] graph_wf_node_valid [OF assms] fn tn eq
      by (auto simp: edge_isValid_def endpoint_isValid_def edge_pair_def node_keys_def)
  qed
qed

lemma buildState_wf:
  assumes wf: "graph_wf g"
  defines "E \<equiv> map edge_pair (m_edges g)" and "K \<equiv> node_keys g"
  shows "ids (buildState g) = map (\<lambda>n. (node_value (node_id n), node_id n)) (m_nodes g)"
    and "\<forall>k\<in>set K. map_of (indegree (buildState g)) k = Some (int (remaining E {} k))"
    and "\<forall>k\<in>set K. map_of (outdegree (buildState g)) k = Some (int (length (succs E k)))"
    and "\<forall>k. get_or [] (adjacency (buildState g)) k = succs E k"
    and "set E \<subseteq> set K \<times> set K"
proof -
  let ?ids = "map (\<lambda>n. (node_value (node_id n), node_id n)) (m_nodes g)"
  let ?z = "map (\<lambda>n. (node_value (node_id n), 0 :: int)) (m_nodes g)"
  let ?s = "\<lparr>indegree = ?z, outdegree = ?z, adjacency = [], ids = ?ids\<rparr>"
  have b: "buildState g = fold buildState_edge (m_edges g) ?s"
    unfolding buildState_def
    using fold_buildState_node [of "m_nodes g" "\<lparr>indegree = [], outdegree = [], adjacency = [], ids = []\<rparr>"]
      wf_keys(1) [OF wf] graph_wf_node_valid [OF wf] by (simp add: node_keys_def)
  have dom: "dom (map_of (ids ?s)) = set K" "dom (map_of (indegree ?s)) = set K"
      "dom (map_of (outdegree ?s)) = set K"
    by (simp_all add: dom_map_of_conv_image_fst K_def node_keys_def image_image)
  have zero: "map_of ?z k = Some 0" if k: "k \<in> set K" for k
  proof -
    obtain v where v: "map_of ?z k = Some v" using k dom(2) by auto
    then show ?thesis by (auto dest!: map_of_SomeD)
  qed
  note F = fold_buildState_edge [of "m_edges g" ?s, unfolded dom, OF wf_keys(2) [OF wf, folded K_def] refl refl,
      folded b E_def]
  show "ids (buildState g) = ?ids" using F by simp
  have c1: "count_list (map snd E) k = remaining E {} k" for k
    by (induction E) (auto simp: remaining_def)
  have c2: "count_list (map fst E) k = length (succs E k)" for k
    by (induction E) (auto simp: succs_def)
  show "\<forall>k\<in>set K. map_of (indegree (buildState g)) k = Some (int (remaining E {} k))"
    using F zero c1 by simp
  show "\<forall>k\<in>set K. map_of (outdegree (buildState g)) k = Some (int (length (succs E k)))"
    using F zero c2 by simp
  show "\<forall>k. get_or [] (adjacency (buildState g)) k = succs E k"
    using F by (simp add: get_or_def)
  show "set E \<subseteq> set K \<times> set K"
    using wf_keys(2) [OF wf] by (simp add: E_def K_def image_subset_iff mem_Times_iff)
qed

lemma edge_rel_pairs:
  "(MediaNodeId a, MediaNodeId b) \<in> edge_rel g \<longleftrightarrow> (a, b) \<in> set (map edge_pair (m_edges g))"
proof -
  have "MediaNodeId k = i \<longleftrightarrow> k = node_value i" for k i by (cases i) auto
  then show ?thesis by (simp add: edge_rel_def edge_pair_def image_iff)
qed

lemma edge_rel_iff:
  "(i, j) \<in> edge_rel g \<longleftrightarrow> (node_value i, node_value j) \<in> set (map edge_pair (m_edges g))"
  by (metis MediaNodeId.collapse edge_rel_pairs)

section \<open>The result of a build\<close>

lemma initial_loop_inv:
  assumes wf: "graph_wf g" and "pushInitialSources g (buildState g) = (ready, sources)"
  shows "loop_inv (node_keys g) (map edge_pair (m_edges g)) ready (indegree (buildState g))
           (map (\<lambda>(k, i). (k, 0)) (ids (buildState g))) []"
proof -
  note B = buildState_wf [OF wf]
  let ?E = "map edge_pair (m_edges g)"
  let ?lev = "map (\<lambda>(k, i). (k, 0 :: nat)) (ids (buildState g))"
  have ready: "ready = filter (\<lambda>k. remaining ?E {} k = 0) (node_keys g)"
    using assms(2) B(2) graph_wf_node_valid [OF wf]
    by (auto simp: pushInitialSources_def initialSources_def node_keys_def filter_map comp_def
        intro!: arg_cong [where f = "map _"] filter_cong)
  have dom: "dom (map_of ?lev) = set (node_keys g)"
    using B(1) by (simp add: dom_map_of_conv_image_fst image_image node_keys_def)
  have "level ?lev k = 0" for k
    by (auto simp: level_def get_or_def split: option.split dest!: map_of_SomeD)
  then have "longest_levels (node_keys g) ?E {} (level ?lev)"
    by (simp add: longest_levels_def)
  then show ?thesis
    using ready dom wf_keys(1) [OF wf] B(2) by (auto simp: loop_inv_def preds_before_def)
qed

lemma represents_wf:
  assumes wf: "graph_wf g"
  shows "represents (node_keys g) (map edge_pair (m_edges g)) (ids (buildState g))
           (adjacency (buildState g))"
proof -
  note B = buildState_wf [OF wf]
  have "map_of (ids (buildState g)) k = Some (MediaNodeId k)" if "k \<in> set (node_keys g)" for k
  proof -
    have "k \<in> dom (map_of (ids (buildState g)))"
      using that B(1) by (simp add: dom_map_of_conv_image_fst image_image node_keys_def)
    then obtain i where i: "map_of (ids (buildState g)) k = Some i" by blast
    then have "k = node_value i" using B(1) by (auto dest!: map_of_SomeD)
    then show ?thesis using i by simp
  qed
  then show ?thesis using B(4,5) by (simp add: represents_def)
qed

text \<open>Everything a successful or failing build knows about the final loop state.\<close>

lemma topology_build_final:
  assumes wf: "graph_wf g"
  obtains lev order indeg where
    "loop_inv (node_keys g) (map edge_pair (m_edges g)) [] indeg lev (map node_value order)"
    "topology_build g =
       (if length order \<noteq> length (node_keys g) then failure InvalidArgument
        else success \<lparr>topo_order = order,
                      topo_sources = snd (pushInitialSources g (buildState g)),
                      topo_sinks = appendSinks g (buildState g),
                      topo_levels = appendLevels lev order\<rparr>)"
proof -
  obtain ready sources where p: "pushInitialSources g (buildState g) = (ready, sources)" by fastforce
  obtain lev order where k: "kahn_loop (ids (buildState g)) (adjacency (buildState g)) ready
      (indegree (buildState g)) (map (\<lambda>(k, i). (k, 0)) (ids (buildState g))) [] = (lev, order)"
    by fastforce
  obtain indeg where
    "loop_inv (node_keys g) (map edge_pair (m_edges g)) [] indeg lev (map node_value order)"
    using kahn_loop_inv [OF represents_wf [OF wf] _ k] initial_loop_inv [OF wf p] by auto
  moreover have "length (ids (buildState g)) = length (node_keys g)"
    using buildState_wf(1) [OF wf] by (simp add: node_keys_def)
  ultimately show thesis
    using that [of indeg lev order] by (simp add: topology_build_def Let_def p k)
qed

lemma loop_inv_done:
  assumes "loop_inv K E [] indeg lev os" and "distinct K"
  shows "length os = length K \<longleftrightarrow> set os = set K"
  using assms
  by (metis (no_types, lifting) append_Nil2 card_subset_eq distinct_card loop_inv_def List.finite_set)

lemma preds_before_acyclic:
  assumes pb: "preds_before E os" and all: "\<forall>(a, b)\<in>set E. b \<in> set os"
  shows "acyclic (set E)"
proof -
  define idx where "idx k = (LEAST i. i < length os \<and> os ! i = k)" for k
  have idx: "idx k < length os \<and> os ! idx k = k" if "k \<in> set os" for k
    unfolding idx_def by (rule LeastI_ex) (use that in \<open>auto simp: in_set_conv_nth\<close>)
  have "idx a < idx b" if ab: "(a, b) \<in> set E" for a b
  proof -
    have b: "b \<in> set os" using all ab by auto
    then have "a \<in> set (take (idx b) os)"
      using pb ab idx [OF b] unfolding preds_before_def by metis
    then obtain j where j: "j < idx b" "j < length os" "os ! j = a"
      by (auto simp: in_set_conv_nth)
    then have "idx a \<le> j" unfolding idx_def by (intro Least_le) auto
    then show ?thesis using j by simp
  qed
  then have "set E \<subseteq> measure idx" by auto
  then show ?thesis by (meson acyclic_subset wf_acyclic wf_measure)
qed

lemma loop_inv_acyclic_iff:
  assumes inv: "loop_inv K E [] indeg lev os" and "distinct K" and EK: "set E \<subseteq> set K \<times> set K"
  shows "length os = length K \<longleftrightarrow> acyclic (set E)"
proof
  assume "length os = length K"
  then have "set os = set K" using loop_inv_done [OF inv \<open>distinct K\<close>] by simp
  then show "acyclic (set E)"
    using inv EK by (intro preds_before_acyclic [of E os]) (auto simp: loop_inv_def)
next
  assume ac: "acyclic (set E)"
  have "set K - set os = {}"
  proof (rule ccontr)
    assume ne: "set K - set os \<noteq> {}"
    have "wf (set E)" using ac by (simp add: finite_acyclic_wf)
    then obtain z where z: "z \<in> set K - set os" "\<And>y. (y, z) \<in> set E \<Longrightarrow> y \<notin> set K - set os"
      using ne by (metis (no_types, lifting) wf_eq_minimal2 wfE_min' equals0I)
    then have "\<forall>a. (a, z) \<in> set E \<longrightarrow> a \<in> set os" using EK by auto
    then have "remaining E (set os) z = 0" by (simp add: remaining_zero)
    then show False using inv z(1) by (auto simp: loop_inv_def)
  qed
  then have "set os = set K" using inv by (auto simp: loop_inv_def)
  then show "length os = length K" using loop_inv_done [OF inv \<open>distinct K\<close>] by simp
qed

lemma acyclic_edge_rel: "acyclic (edge_rel g) \<longleftrightarrow> acyclic (set (map edge_pair (m_edges g)))"
proof -
  let ?E = "set (map edge_pair (m_edges g))"
  have 1: "(i, j) \<in> (edge_rel g)\<^sup>+ \<Longrightarrow> (node_value i, node_value j) \<in> ?E\<^sup>+" for i j
    by (induction rule: trancl_induct) (auto simp: edge_rel_iff intro: trancl.intros)
  have 2: "(a, b) \<in> ?E\<^sup>+ \<Longrightarrow> (MediaNodeId a, MediaNodeId b) \<in> (edge_rel g)\<^sup>+" for a b
    by (induction rule: trancl_induct) (meson edge_rel_pairs trancl.intros)+
  show ?thesis unfolding acyclic_def using 1 2 by blast
qed

lemma topology_build_acyclic:
  assumes "graph_wf g"
  shows "if acyclic (edge_rel g) then \<exists>r. topology_build g = Inr r
         else topology_build g = Inl InvalidArgument"
proof -
  obtain lev order indeg where
    inv: "loop_inv (node_keys g) (map edge_pair (m_edges g)) [] indeg lev (map node_value order)" and
    b: "topology_build g =
       (if length order \<noteq> length (node_keys g) then failure InvalidArgument
        else success \<lparr>topo_order = order,
                      topo_sources = snd (pushInitialSources g (buildState g)),
                      topo_sinks = appendSinks g (buildState g),
                      topo_levels = appendLevels lev order\<rparr>)"
    using topology_build_final [OF assms] .
  have "length order = length (node_keys g) \<longleftrightarrow> acyclic (edge_rel g)"
    using loop_inv_acyclic_iff [OF inv wf_keys(1) [OF assms] buildState_wf(5) [OF assms]]
    by (simp add: acyclic_edge_rel)
  then show ?thesis using b by simp
qed

text \<open>
  C2. On a well-formed graph the topology builder succeeds exactly when the edges between nodes
  form no cycle; the only failure it reports is an invalid argument.
\<close>

theorem topology_build_iff_acyclic:
  assumes "graph_wf g"
  shows "if acyclic (edge_rel g) then \<exists>r. topology_build g = Inr r
         else topology_build g = Inl InvalidArgument"
  using assms by (rule topology_build_acyclic)

theorem topology_build_iff_acyclic_witness:
  "graph_wf (graph_run empty_graph demo_ops) \<and>
   topology_build (graph_run empty_graph demo_ops) \<noteq> Inl InvalidArgument \<and>
   acyclic (edge_rel (graph_run empty_graph demo_ops))"
proof -
  let ?g = "graph_run empty_graph demo_ops"
  have wf: "graph_wf ?g"
    by (rule graph_run_wf_from [OF graph_wf_empty, of 1])
      (simp_all add: counters_below_def empty_graph_def demo_ops_def)
  have "(case topology_build ?g of Inl e \<Rightarrow> False | Inr r \<Rightarrow> True) = True" by code_simp
  then have ok: "topology_build ?g \<noteq> Inl InvalidArgument" by (auto split: sum.splits)
  then show ?thesis using wf topology_build_iff_acyclic [OF wf] by (metis (full_types))
qed

text \<open>
  C3. When the builder succeeds on a well-formed graph, its order lists every node exactly once
  and lists the source of every edge before its target.
\<close>

theorem topology_order_sound:
  assumes "graph_wf g" and "topology_build g = Inr r"
  shows "distinct (topo_order r) \<and> set (topo_order r) = node_id ` set (m_nodes g) \<and>
         (\<forall>i<length (topo_order r). \<forall>a.
            (a, topo_order r ! i) \<in> edge_rel g \<longrightarrow> a \<in> set (take i (topo_order r)))"
proof -
  let ?E = "map edge_pair (m_edges g)"
  obtain lev order indeg where
    inv: "loop_inv (node_keys g) ?E [] indeg lev (map node_value order)" and
    b: "topology_build g =
       (if length order \<noteq> length (node_keys g) then failure InvalidArgument
        else success \<lparr>topo_order = order,
                      topo_sources = snd (pushInitialSources g (buildState g)),
                      topo_sinks = appendSinks g (buildState g),
                      topo_levels = appendLevels lev order\<rparr>)"
    using topology_build_final [OF assms(1)] .
  have r: "topo_order r = order" and len: "length order = length (node_keys g)"
    using b assms(2) by (auto split: if_splits)
  have keys: "node_value ` set order = set (node_keys g)"
    using loop_inv_done [OF inv wf_keys(1) [OF assms(1)]] len by simp
  have "set order = MediaNodeId ` node_value ` set order"
    by (simp add: image_image)
  also have "\<dots> = node_id ` set (m_nodes g)"
    unfolding keys by (simp add: node_keys_def image_image)
  finally have "set order = node_id ` set (m_nodes g)" .
  moreover have "distinct order"
    using inv by (simp add: loop_inv_def distinct_map)
  moreover have "a \<in> set (take i order)" if i: "i < length order" and e: "(a, order ! i) \<in> edge_rel g" for i a
  proof -
    have "node_value a \<in> set (take i (map node_value order))"
      using inv i e unfolding loop_inv_def preds_before_def by (simp add: edge_rel_iff)
    then have "node_value a \<in> node_value ` set (take i order)" by (simp add: take_map)
    then show ?thesis by (auto dest: MediaNodeId.expand [rotated])
  qed
  ultimately show ?thesis using r by blast
qed

theorem topology_order_sound_witness:
  "\<exists>r. topology_build (graph_run empty_graph demo_ops) = Inr r \<and>
       set (topo_order r) = node_id ` set (m_nodes (graph_run empty_graph demo_ops)) \<and>
       topo_order r = [MediaNodeId 1, MediaNodeId 2]"
proof -
  let ?g = "graph_run empty_graph demo_ops"
  have wf: "graph_wf ?g"
    by (rule graph_run_wf_from [OF graph_wf_empty, of 1])
      (simp_all add: counters_below_def empty_graph_def demo_ops_def)
  have "(case topology_build ?g of Inl e \<Rightarrow> False
         | Inr r \<Rightarrow> topo_order r = [MediaNodeId 1, MediaNodeId 2]) = True" by code_simp
  then obtain r where r: "topology_build ?g = Inr r" "topo_order r = [MediaNodeId 1, MediaNodeId 2]"
    by (auto split: sum.splits)
  then show ?thesis using topology_order_sound [OF wf r(1)] by blast
qed

subsection \<open>Levels, sources and sinks\<close>

lemma maxLevel_ge: "(k, v) \<in> set lev \<Longrightarrow> v \<le> maxLevel lev"
proof -
  have mono: "acc \<le> fold (\<lambda>item acc. max acc (snd item)) l acc" for l :: "(NodeKey \<times> nat) list" and acc
  proof (induction l arbitrary: acc)
    case (Cons x xs)
    show ?case using Cons.IH [of "max acc (snd x)"] by (simp del: fold_simps(1))
  qed simp
  have "v \<le> fold (\<lambda>item acc. max acc (snd item)) lev acc" if "(k, v) \<in> set lev" for acc
    using that
  proof (induction lev arbitrary: acc)
    case (Cons x xs)
    show ?case
    proof (cases "x = (k, v)")
      case True
      then show ?thesis using mono [of "max acc v" xs] by simp
    next
      case False
      then have "(k, v) \<in> set xs" using Cons.prems by simp
      then show ?thesis using Cons.IH [of "max acc (snd x)"] by simp
    qed
  qed simp
  then show "(k, v) \<in> set lev \<Longrightarrow> v \<le> maxLevel lev" by (simp add: maxLevel_def)
qed

lemma fold_appendLevel:
  assumes "\<forall>i\<in>set is. \<forall>l. map_of lev (node_value i) = Some l \<longrightarrow> l < length ls"
  shows "length (fold (appendLevel lev) is ls) = length ls \<and>
         (\<forall>l<length ls. fold (appendLevel lev) is ls ! l =
            ls ! l @ filter (\<lambda>i. map_of lev (node_value i) = Some l) is)"
  using assms
proof (induction "is" arbitrary: ls)
  case Nil
  then show ?case by simp
next
  case (Cons i "is")
  have len: "length (appendLevel lev i ls) = length ls"
    by (simp add: appendLevel_def split: option.split)
  have nth: "appendLevel lev i ls ! l = ls ! l @ (if map_of lev (node_value i) = Some l then [i] else [])"
    if "l < length ls" for l
    using that Cons.prems by (auto simp: appendLevel_def nth_list_update split: option.split)
  show ?case
    using Cons.IH [of "appendLevel lev i ls"] Cons.prems len nth by auto
qed

text \<open>
  The levels of a successful build are longest-path levels: there is one level number per
  node, zero for a node without predecessors and one more than the largest level of a predecessor
  otherwise, and the \<open>l\<close>-th list holds, in topological order, exactly the nodes of level \<open>l\<close>.
\<close>

theorem topology_levels_longest:
  assumes "graph_wf g" and "topology_build g = Inr r"
  shows "\<exists>L. (\<forall>i\<in>node_id ` set (m_nodes g).
                L i = Max (insert 0 ((\<lambda>a. Suc (L a)) ` {a. (a, i) \<in> edge_rel g})) \<and>
                L i < length (topo_levels r)) \<and>
             (\<forall>l<length (topo_levels r).
                topo_levels r ! l = filter (\<lambda>i. L i = l) (topo_order r))"
proof -
  let ?E = "map edge_pair (m_edges g)"
  obtain lev order indeg where
    inv: "loop_inv (node_keys g) ?E [] indeg lev (map node_value order)" and
    b: "topology_build g =
       (if length order \<noteq> length (node_keys g) then failure InvalidArgument
        else success \<lparr>topo_order = order,
                      topo_sources = snd (pushInitialSources g (buildState g)),
                      topo_sinks = appendSinks g (buildState g),
                      topo_levels = appendLevels lev order\<rparr>)"
    using topology_build_final [OF assms(1)] .
  define L where "L i = level lev (node_value i)" for i
  have r: "topo_order r = order" "topo_levels r = appendLevels lev order"
    and len: "length order = length (node_keys g)"
    using b assms(2) by (auto split: if_splits)
  have keys: "node_value ` set order = set (node_keys g)"
    using loop_inv_done [OF inv wf_keys(1) [OF assms(1)]] len by simp
  have dom: "dom (map_of lev) = set (node_keys g)" using inv by (simp add: loop_inv_def)
  have lvl: "map_of lev k = Some (level lev k)" if "k \<in> set (node_keys g)" for k
    using that dom by (auto simp: level_def get_or_def split: option.split)
  have bound: "level lev k < maxLevel lev + 1" if "k \<in> set (node_keys g)" for k
    using maxLevel_ge [OF map_of_SomeD [OF lvl [OF that]]] by simp
  have pre: "\<forall>i\<in>set order. \<forall>l. map_of lev (node_value i) = Some l \<longrightarrow>
      l < length (replicate (maxLevel lev + 1) ([] :: MediaNodeId list))"
  proof (intro ballI allI impI)
    fix i l assume i: "i \<in> set order" and l: "map_of lev (node_value i) = Some l"
    have "l \<le> maxLevel lev" by (rule maxLevel_ge [OF map_of_SomeD [OF l]])
    then show "l < length (replicate (maxLevel lev + 1) ([] :: MediaNodeId list))" by simp
  qed
  have levels: "length (appendLevels lev order) = maxLevel lev + 1"
      "l < maxLevel lev + 1 \<Longrightarrow>
       appendLevels lev order ! l = filter (\<lambda>i. map_of lev (node_value i) = Some l) order" for l
    using fold_appendLevel [OF pre] unfolding appendLevels_def length_replicate
    by (simp_all del: replicate_Suc add: nth_replicate)
  have filt: "filter (\<lambda>i. map_of lev (node_value i) = Some l) order = filter (\<lambda>i. L i = l) order" for l
    by (rule filter_cong [OF refl]) (simp add: L_def lvl flip: keys)
  have preds: "(\<lambda>a. Suc (L a)) ` {a. (a, i) \<in> edge_rel g} =
      (\<lambda>a. Suc (level lev a)) ` {a\<in>set (node_keys g). (a, node_value i) \<in> set ?E}" for i
  proof -
    have "node_value ` {a. (a, i) \<in> edge_rel g} = {a. (a, node_value i) \<in> set ?E}"
      by (auto simp: edge_rel_iff image_iff) (metis MediaNodeId.sel)
    moreover have "{a. (a, node_value i) \<in> set ?E} =
        {a\<in>set (node_keys g). (a, node_value i) \<in> set ?E}"
      using buildState_wf(5) [OF assms(1)] by auto
    moreover have "(\<lambda>a. Suc (L a)) ` {a. (a, i) \<in> edge_rel g} =
        (\<lambda>a. Suc (level lev a)) ` node_value ` {a. (a, i) \<in> edge_rel g}"
      by (simp add: L_def image_image)
    ultimately show ?thesis by simp
  qed
  have "longest_levels (node_keys g) ?E (set (map node_value order)) (level lev)"
    using inv unfolding loop_inv_def by blast
  then have ll: "longest_levels (node_keys g) ?E (set (node_keys g)) (level lev)"
    by (simp only: set_map keys)
  have "L i = Max (insert 0 ((\<lambda>a. Suc (L a)) ` {a. (a, i) \<in> edge_rel g})) \<and>
        L i < length (topo_levels r)" if "i \<in> node_id ` set (m_nodes g)" for i
  proof -
    have k: "node_value i \<in> set (node_keys g)" using that by (auto simp: node_keys_def)
    then have "level lev (node_value i) = Max (insert 0 ((\<lambda>a. Suc (level lev a)) `
        {a\<in>set (node_keys g). (a, node_value i) \<in> set ?E}))"
      using ll unfolding longest_levels_def by blast
    then have "L i = Max (insert 0 ((\<lambda>a. Suc (L a)) ` {a. (a, i) \<in> edge_rel g}))"
      unfolding preds by (simp only: L_def)
    moreover have "L i < length (topo_levels r)"
      using bound [OF k] unfolding r(2) levels(1) L_def .
    ultimately show ?thesis by (rule conjI)
  qed
  then show ?thesis
    using levels(2) unfolding r filt levels(1) by blast
qed

theorem topology_levels_longest_witness:
  "\<exists>r L. topology_build (graph_run empty_graph demo_ops) = Inr r \<and>
         topo_levels r = [[MediaNodeId 1], [MediaNodeId 2]] \<and> L (MediaNodeId 2) < length (topo_levels r)"
proof -
  let ?g = "graph_run empty_graph demo_ops"
  have wf: "graph_wf ?g"
    by (rule graph_run_wf_from [OF graph_wf_empty, of 1])
      (simp_all add: counters_below_def empty_graph_def demo_ops_def)
  have "(case topology_build ?g of Inl e \<Rightarrow> False
         | Inr r \<Rightarrow> topo_levels r = [[MediaNodeId 1], [MediaNodeId 2]]) = True" by code_simp
  then obtain r where r: "topology_build ?g = Inr r" "topo_levels r = [[MediaNodeId 1], [MediaNodeId 2]]"
    by (auto split: sum.splits)
  have "(MediaNodeId 2 \<in> set (map node_id (m_nodes ?g))) = True" by code_simp
  then show ?thesis using topology_levels_longest [OF wf r(1)] r by auto
qed

text \<open>
  The sources of a successful build are exactly the nodes with no incoming edge and its sinks
  exactly the nodes with no outgoing edge, both in the order of the node list.
\<close>

theorem topology_sources_sinks:
  assumes "graph_wf g" and "topology_build g = Inr r"
  shows "topo_sources r = filter (\<lambda>i. \<forall>a. (a, i) \<notin> edge_rel g) (map node_id (m_nodes g)) \<and>
         topo_sinks r = filter (\<lambda>i. \<forall>b. (i, b) \<notin> edge_rel g) (map node_id (m_nodes g))"
proof -
  let ?E = "map edge_pair (m_edges g)"
  note B = buildState_wf [OF assms(1)]
  obtain lev order indeg where
    b: "topology_build g =
       (if length order \<noteq> length (node_keys g) then failure InvalidArgument
        else success \<lparr>topo_order = order,
                      topo_sources = snd (pushInitialSources g (buildState g)),
                      topo_sinks = appendSinks g (buildState g),
                      topo_levels = appendLevels lev order\<rparr>)"
    using topology_build_final [OF assms(1)] by metis
  have src: "topo_sources r = snd (pushInitialSources g (buildState g))"
    and snk: "topo_sinks r = appendSinks g (buildState g)"
    using b assms(2) by (auto split: if_splits)
  have in_iff: "map_of (indegree (buildState g)) (node_value (node_id n)) = Some 0 \<longleftrightarrow>
      (\<forall>a. (a, node_id n) \<notin> edge_rel g)" if "n \<in> set (m_nodes g)" for n
  proof -
    have "node_value (node_id n) \<in> set (node_keys g)" using that by (simp add: node_keys_def)
    then have "map_of (indegree (buildState g)) (node_value (node_id n)) =
        Some (int (remaining ?E {} (node_value (node_id n))))" using B(2) by blast
    moreover have "remaining ?E {} (node_value (node_id n)) = 0 \<longleftrightarrow>
        (\<forall>a. (a, node_id n) \<notin> edge_rel g)"
      unfolding remaining_zero edge_rel_iff by (metis MediaNodeId.sel empty_iff)
    ultimately show ?thesis by simp
  qed
  have out_iff: "map_of (outdegree (buildState g)) (node_value (node_id n)) = Some 0 \<longleftrightarrow>
      (\<forall>b. (node_id n, b) \<notin> edge_rel g)" if "n \<in> set (m_nodes g)" for n
  proof -
    have "node_value (node_id n) \<in> set (node_keys g)" using that by (simp add: node_keys_def)
    then have "map_of (outdegree (buildState g)) (node_value (node_id n)) =
        Some (int (length (succs ?E (node_value (node_id n)))))" using B(3) by blast
    moreover have "succs ?E (node_value (node_id n)) = [] \<longleftrightarrow> (\<forall>b. (node_id n, b) \<notin> edge_rel g)"
      unfolding edge_rel_iff using set_succs [of _ ?E "node_value (node_id n)"]
      by (metis MediaNodeId.sel list.set_intros(1) neq_Nil_conv empty_iff list.set(1))
    ultimately show ?thesis by simp
  qed
  show ?thesis
    unfolding src snk pushInitialSources_def initialSources_def appendSinks_def
    using in_iff out_iff graph_wf_node_valid [OF assms(1)]
    by (auto simp: filter_map comp_def intro!: arg_cong [where f = "map _"] filter_cong)
qed

theorem topology_sources_sinks_witness:
  "\<exists>r. topology_build (graph_run empty_graph demo_ops) = Inr r \<and>
       topo_sources r = [MediaNodeId 1] \<and>
       topo_sources r = filter (\<lambda>i. \<forall>a. (a, i) \<notin> edge_rel (graph_run empty_graph demo_ops))
                          (map node_id (m_nodes (graph_run empty_graph demo_ops)))"
proof -
  let ?g = "graph_run empty_graph demo_ops"
  have wf: "graph_wf ?g"
    by (rule graph_run_wf_from [OF graph_wf_empty, of 1])
      (simp_all add: counters_below_def empty_graph_def demo_ops_def)
  have "(case topology_build ?g of Inl e \<Rightarrow> False
         | Inr r \<Rightarrow> topo_sources r = [MediaNodeId 1]) = True" by code_simp
  then obtain r where r: "topology_build ?g = Inr r" "topo_sources r = [MediaNodeId 1]"
    by (auto split: sum.splits)
  then show ?thesis using topology_sources_sinks [OF wf r(1)] by blast
qed

end
