(* ===== verification/Graph_Validation.thy ===== *)
theory Graph_Validation
  imports Topology_Correct
begin

text \<open>
  \<^verbatim>\<open>core/MediaGraphValidation.cpp\<close>: the checks a media graph passes before it is executed. The
  validator walks nodes, then edges, then required ports, and finally asks for a topological
  order; it never stops at the first problem but collects issues. Each loop body is one definition
  over a record of the report and of the tables the code keeps beside it; a table read with
  \<^verbatim>\<open>m[k]\<close> is a total function with the default value for the keys that were never written.
\<close>

section \<open>Definitions\<close>

datatype MediaGraphErrorCode =
    GE_None | InvalidNode | InvalidPort | InvalidEdge | MissingNode | MissingPort | DuplicateId
  | DuplicatePortName | PortDirectionMismatch | PortTypeMismatch | RequiredInputMissing
  | RequiredOutputUnused | InputMultiplicityViolation | OutputMultiplicityViolation
  | CycleDetected | InvalidPolicy | InvalidDescriptor

datatype MediaGraphValidationSeverity = Severity_Info | Severity_Warning | Severity_Error

record MediaGraphValidationIssue =
  issue_severity :: MediaGraphValidationSeverity
  issue_code :: MediaGraphErrorCode
  issue_message :: string
  issue_nodeId :: MediaNodeId
  issue_portId :: MediaPortId
  issue_edgeId :: MediaEdgeId

type_synonym MediaGraphValidationReport = "MediaGraphValidationIssue list"

fun report_ok :: "MediaGraphValidationReport \<Rightarrow> bool" where
  "report_ok [] = True"
| "report_ok (issue # issues) =
     (if issue_severity issue = Severity_Error then False else report_ok issues)"

definition hasErrors :: "MediaGraphValidationReport \<Rightarrow> bool" where
  "hasErrors r \<longleftrightarrow> \<not> report_ok r"

fun errorCount :: "MediaGraphValidationReport \<Rightarrow> nat" where
  "errorCount [] = 0"
| "errorCount (issue # issues) =
     (if issue_severity issue = Severity_Error then 1 else 0) + errorCount issues"

fun warningCount :: "MediaGraphValidationReport \<Rightarrow> nat" where
  "warningCount [] = 0"
| "warningCount (issue # issues) =
     (if issue_severity issue = Severity_Warning then 1 else 0) + warningCount issues"

definition addIssue ::
  "MediaGraphValidationSeverity \<Rightarrow> MediaGraphErrorCode \<Rightarrow> string \<Rightarrow> MediaNodeId \<Rightarrow> MediaPortId \<Rightarrow>
   MediaEdgeId \<Rightarrow> MediaGraphValidationReport \<Rightarrow> MediaGraphValidationReport" where
  "addIssue severity code message node port edge report =
     report @ [\<lparr>issue_severity = severity, issue_code = code, issue_message = message,
                issue_nodeId = node, issue_portId = port, issue_edgeId = edge\<rparr>]"

definition addIssue_if ::
  "bool \<Rightarrow> MediaGraphValidationSeverity \<Rightarrow> MediaGraphErrorCode \<Rightarrow> string \<Rightarrow> MediaNodeId \<Rightarrow>
   MediaPortId \<Rightarrow> MediaEdgeId \<Rightarrow> MediaGraphValidationReport \<Rightarrow> MediaGraphValidationReport" where
  "addIssue_if c severity code message node port edge report =
     (if c then addIssue severity code message node port edge report else report)"

abbreviation invalid_node :: MediaNodeId where
  "invalid_node \<equiv> MediaNodeId invalidValue"

abbreviation invalid_port :: MediaPortId where
  "invalid_port \<equiv> MediaPortId invalidValue"

abbreviation invalid_edge :: MediaEdgeId where
  "invalid_edge \<equiv> MediaEdgeId invalidValue"

definition validateAcyclic :: "MediaGraph \<Rightarrow> MediaGraphValidationReport \<Rightarrow> MediaGraphValidationReport" where
  "validateAcyclic graph report =
     (case topology_build graph of
        Inl _ \<Rightarrow> addIssue Severity_Error CycleDetected ''Cycle detected in media DAG''
                  invalid_node invalid_port invalid_edge report
      | Inr _ \<Rightarrow> report)"

definition time_invalid :: "MediaTimeDescriptor \<Rightarrow> bool" where
  "time_invalid t \<longleftrightarrow>
     rational_isValid (time_timeBase t) = False \<or> rational_isValid (time_frameRate t) = False"

definition validatePortDescriptors ::
  "MediaNode \<Rightarrow> MediaPort \<Rightarrow> MediaGraphValidationReport \<Rightarrow> MediaGraphValidationReport" where
  "validatePortDescriptors node port report =
     addIssue_if (time_invalid (port_time port))
       Severity_Error InvalidDescriptor ''Port time descriptor contains invalid rational''
       (node_id node) (port_id port) invalid_edge
     (addIssue_if
       (fmt_streamKind (port_format port) \<noteq> StreamKind_Unknown \<and>
        fmt_streamKind (port_format port) \<noteq> StreamKind_Any \<and>
        port_streamKind port \<noteq> StreamKind_Any \<and>
        port_streamKind port \<noteq> StreamKind_Unknown \<and>
        fmt_streamKind (port_format port) \<noteq> port_streamKind port)
       Severity_Warning InvalidDescriptor
       ''Port format descriptor stream kind differs from port stream kind''
       (node_id node) (port_id port) invalid_edge report)"

definition validateEdgePolicy :: "MediaEdge \<Rightarrow> MediaGraphValidationReport \<Rightarrow> MediaGraphValidationReport" where
  "validateEdgePolicy edge report =
     (let queuePolicy = ep_queuePolicy (edge_policy edge);
          report = addIssue_if (qp_mode queuePolicy = QueueMode_Unknown)
            Severity_Error InvalidPolicy ''Edge queue policy mode is unknown''
            invalid_node invalid_port (edge_id edge) report;
          report = addIssue_if
            (qp_mode queuePolicy \<noteq> QueueMode_SpscRing \<and> qp_storageMode queuePolicy = Storage_Unknown)
            Severity_Error InvalidPolicy ''Blocking edge queue storage mode is unknown''
            invalid_node invalid_port (edge_id edge) report;
          report = addIssue_if
            (qp_bounded queuePolicy \<and> qp_mode queuePolicy \<noteq> QueueMode_Direct \<and>
             qp_capacity queuePolicy = 0)
            Severity_Error InvalidPolicy ''Bounded edge queue policy requires capacity > 0''
            invalid_node invalid_port (edge_id edge) report
      in addIssue_if (time_invalid (edge_time edge))
           Severity_Error InvalidDescriptor ''Edge time descriptor contains invalid rational''
           invalid_node invalid_port (edge_id edge) report)"

record NodePass =
  np_report :: MediaGraphValidationReport
  nodeSeen :: "u32 \<Rightarrow> bool"
  portSeen :: "u32 list"
  portNames :: "string \<Rightarrow> bool"

definition validateInputPort :: "MediaNode \<Rightarrow> MediaPort \<Rightarrow> NodePass \<Rightarrow> NodePass" where
  "validateInputPort node port s =
     (let r = addIssue_if
            (\<not> portId_isValid (port_id port) \<or> port_nodeId port \<noteq> node_id node \<or>
             \<not> isInput port \<or> port_name port = [])
            Severity_Error InvalidPort ''Invalid input port detected''
            (node_id node) (port_id port) invalid_edge (np_report s);
          r = addIssue_if (port_value (port_id port) \<in> set (portSeen s))
            Severity_Error DuplicateId ''Duplicate port id detected''
            (node_id node) (port_id port) invalid_edge r;
          r = addIssue_if (portNames s (port_name port))
            Severity_Error DuplicatePortName ''Duplicate input port name detected''
            (node_id node) (port_id port) invalid_edge r
      in s\<lparr>np_report := validatePortDescriptors node port r,
           portSeen := List.insert (port_value (port_id port)) (portSeen s),
           portNames := (portNames s)(port_name port := True)\<rparr>)"

definition validateOutputPort :: "MediaNode \<Rightarrow> MediaPort \<Rightarrow> NodePass \<Rightarrow> NodePass" where
  "validateOutputPort node port s =
     (let r = addIssue_if
            (\<not> portId_isValid (port_id port) \<or> port_nodeId port \<noteq> node_id node \<or>
             \<not> isOutput port \<or> port_name port = [])
            Severity_Error InvalidPort ''Invalid output port detected''
            (node_id node) (port_id port) invalid_edge (np_report s);
          r = addIssue_if (port_value (port_id port) \<in> set (portSeen s))
            Severity_Error DuplicateId ''Duplicate port id detected''
            (node_id node) (port_id port) invalid_edge r;
          r = addIssue_if (portNames s (port_name port))
            Severity_Error DuplicatePortName ''Duplicate output port name detected''
            (node_id node) (port_id port) invalid_edge r
      in s\<lparr>np_report := validatePortDescriptors node port r,
           portSeen := List.insert (port_value (port_id port)) (portSeen s),
           portNames := (portNames s)(port_name port := True)\<rparr>)"

definition validateNode :: "MediaNode \<Rightarrow> NodePass \<Rightarrow> NodePass" where
  "validateNode node s =
     (if \<not> node_isValid node then
        s\<lparr>np_report := addIssue Severity_Error InvalidNode ''Invalid node detected''
                         (node_id node) invalid_port invalid_edge (np_report s)\<rparr>
      else
        (let s = s\<lparr>np_report := addIssue_if (nodeSeen s (node_value (node_id node)))
                                  Severity_Error DuplicateId ''Duplicate node id detected''
                                  (node_id node) invalid_port invalid_edge (np_report s),
                    nodeSeen := (nodeSeen s)(node_value (node_id node) := True)\<rparr>;
             s = fold (validateInputPort node) (node_inputPorts node)
                   (s\<lparr>portNames := \<lambda>_. False\<rparr>)
         in fold (validateOutputPort node) (node_outputPorts node) (s\<lparr>portNames := \<lambda>_. False\<rparr>)))"

definition nodePass :: "MediaGraph \<Rightarrow> NodePass" where
  "nodePass graph =
     fold validateNode (m_nodes graph)
       \<lparr>np_report = [], nodeSeen = \<lambda>_. False, portSeen = [], portNames = \<lambda>_. False\<rparr>"

record EdgePass =
  ep_report :: MediaGraphValidationReport
  inputPortUsage :: "u32 \<Rightarrow> int"
  outputPortUsage :: "u32 \<Rightarrow> int"
  outputPortAtomicPolicy :: "u32 \<Rightarrow> bool option"
  edgeSeen :: "u32 \<Rightarrow> bool"

text \<open>The tail of the edge loop, after both endpoints have been resolved to their ports.\<close>

definition validateResolvedEdge ::
  "MediaEdge \<Rightarrow> MediaPort \<Rightarrow> MediaPort \<Rightarrow> EdgePass \<Rightarrow> EdgePass" where
  "validateResolvedEdge edge fromPort toPort s =
     (let out = port_value (port_id fromPort);
          inp = port_value (port_id toPort);
          r = addIssue_if (\<not> isOutput fromPort \<or> \<not> isInput toPort)
            Severity_Error PortDirectionMismatch ''Edge direction invalid''
            (ep_nodeId (edge_from edge)) (ep_portId (edge_from edge)) (edge_id edge) (ep_report s);
          r = addIssue_if
            (port_nodeId fromPort \<noteq> ep_nodeId (edge_from edge) \<or>
             port_nodeId toPort \<noteq> ep_nodeId (edge_to edge))
            Severity_Error PortDirectionMismatch ''Edge port-node mismatch''
            invalid_node invalid_port (edge_id edge) r;
          r = addIssue_if (\<not> port_accepts toPort fromPort)
            Severity_Error PortTypeMismatch ''Port type mismatch''
            (ep_nodeId (edge_to edge)) (ep_portId (edge_to edge)) (edge_id edge) r;
          outUsage = (outputPortUsage s)(out := outputPortUsage s out + 1);
          inUsage = (inputPortUsage s)(inp := inputPortUsage s inp + 1);
          atomicOutput = atomicOutputPolicy_accepts (edge_policy edge);
          (atomic, mixed) =
            (case outputPortAtomicPolicy s out of
               None \<Rightarrow> ((outputPortAtomicPolicy s)(out \<mapsto> atomicOutput), False)
             | Some known \<Rightarrow> (outputPortAtomicPolicy s, known \<noteq> atomicOutput));
          r = addIssue_if mixed
            Severity_Error InvalidPolicy ''Output fan-out cannot mix atomic and non-atomic policies''
            (ep_nodeId (edge_from edge)) (ep_portId (edge_from edge)) (edge_id edge) r;
          r = addIssue_if (\<not> port_multiple toPort \<and> inUsage inp > 1)
            Severity_Error InputMultiplicityViolation
            ''Input port used multiple times but multiple=false''
            (ep_nodeId (edge_to edge)) (ep_portId (edge_to edge)) (edge_id edge) r;
          r = addIssue_if (\<not> port_multiple fromPort \<and> outUsage out > 1)
            Severity_Error OutputMultiplicityViolation
            ''Output port used multiple times but multiple=false''
            (ep_nodeId (edge_from edge)) (ep_portId (edge_from edge)) (edge_id edge) r
      in s\<lparr>ep_report := validateEdgePolicy edge r, inputPortUsage := inUsage,
           outputPortUsage := outUsage, outputPortAtomicPolicy := atomic\<rparr>)"

definition validateEdge :: "MediaGraph \<Rightarrow> MediaEdge \<Rightarrow> EdgePass \<Rightarrow> EdgePass" where
  "validateEdge graph edge s =
     (if \<not> edge_isValid edge then
        s\<lparr>ep_report := addIssue Severity_Error InvalidEdge ''Invalid edge detected''
                         invalid_node invalid_port (edge_id edge) (ep_report s)\<rparr>
      else
        (let s = s\<lparr>ep_report := addIssue_if (edgeSeen s (edge_value (edge_id edge)))
                                  Severity_Error DuplicateId ''Duplicate edge id detected''
                                  invalid_node invalid_port (edge_id edge) (ep_report s),
                    edgeSeen := (edgeSeen s)(edge_value (edge_id edge) := True)\<rparr>
         in case (findNode graph (ep_nodeId (edge_from edge)), findNode graph (ep_nodeId (edge_to edge)))
            of (Some _, Some _) \<Rightarrow>
                 (case (findPort graph (ep_portId (edge_from edge)),
                        findPort graph (ep_portId (edge_to edge))) of
                    (Some fromPort, Some toPort) \<Rightarrow> validateResolvedEdge edge fromPort toPort s
                  | _ \<Rightarrow> s\<lparr>ep_report := addIssue Severity_Error MissingPort
                                          ''Edge references missing port''
                                          invalid_node invalid_port (edge_id edge) (ep_report s)\<rparr>)
             | _ \<Rightarrow> s\<lparr>ep_report := addIssue Severity_Error MissingNode
                                     ''Edge references missing node''
                                     invalid_node invalid_port (edge_id edge) (ep_report s)\<rparr>))"

definition edgePass :: "MediaGraph \<Rightarrow> MediaGraphValidationReport \<Rightarrow> EdgePass" where
  "edgePass graph report =
     fold (validateEdge graph) (m_edges graph)
       \<lparr>ep_report = report, inputPortUsage = \<lambda>_. 0, outputPortUsage = \<lambda>_. 0,
        outputPortAtomicPolicy = \<lambda>_. None, edgeSeen = \<lambda>_. False\<rparr>"

definition validateRequired ::
  "(u32 \<Rightarrow> int) \<Rightarrow> (u32 \<Rightarrow> int) \<Rightarrow> MediaNode \<Rightarrow> MediaGraphValidationReport \<Rightarrow> MediaGraphValidationReport"
  where
  "validateRequired inUsage outUsage node report =
     fold (\<lambda>port. addIssue_if (port_required port \<and> outUsage (port_value (port_id port)) = 0)
                    Severity_Warning RequiredOutputUnused ''Required output port has no consumers''
                    (node_id node) (port_id port) invalid_edge) (node_outputPorts node)
     (fold (\<lambda>port. addIssue_if (port_required port \<and> inUsage (port_value (port_id port)) = 0)
                     Severity_Error RequiredInputMissing ''Required input port not connected''
                     (node_id node) (port_id port) invalid_edge) (node_inputPorts node) report)"

definition validate :: "MediaGraph \<Rightarrow> MediaGraphValidationReport" where
  "validate graph =
     (let edges = edgePass graph (np_report (nodePass graph));
          report = fold (validateRequired (inputPortUsage edges) (outputPortUsage edges))
                     (m_nodes graph) (ep_report edges)
      in validateAcyclic graph report)"

section \<open>What an accepted graph satisfies\<close>

lemma report_ok_append [simp]: "report_ok (a @ b) \<longleftrightarrow> report_ok a \<and> report_ok b"
  by (induction a) auto

lemma report_ok_addIssue [simp]:
  "report_ok (addIssue sev c m n p e r) \<longleftrightarrow> report_ok r \<and> sev \<noteq> Severity_Error"
  by (auto simp: addIssue_def)

lemma report_ok_addIssue_if [simp]:
  "report_ok (addIssue_if b sev c m n p e r) \<longleftrightarrow> report_ok r \<and> (b \<longrightarrow> sev \<noteq> Severity_Error)"
  by (simp add: addIssue_if_def)

lemma report_ok_errorCount: "report_ok r \<longleftrightarrow> errorCount r = 0"
  by (induction r) auto

lemma report_ok_port [simp]:
  "report_ok (validatePortDescriptors n p r) \<longleftrightarrow> report_ok r \<and> \<not> time_invalid (port_time p)"
  by (auto simp: validatePortDescriptors_def)

definition edge_policy_ok :: "MediaEdge \<Rightarrow> bool" where
  "edge_policy_ok e \<longleftrightarrow>
     (let q = ep_queuePolicy (edge_policy e)
      in qp_mode q \<noteq> QueueMode_Unknown \<and>
         (qp_mode q = QueueMode_SpscRing \<or> qp_storageMode q \<noteq> Storage_Unknown) \<and>
         (qp_bounded q \<longrightarrow> qp_mode q = QueueMode_Direct \<or> qp_capacity q > 0) \<and>
         \<not> time_invalid (edge_time e))"

lemma report_ok_edge_policy [simp]:
  "report_ok (validateEdgePolicy e r) \<longleftrightarrow> report_ok r \<and> edge_policy_ok e"
  by (auto simp: validateEdgePolicy_def edge_policy_ok_def Let_def)

subsection \<open>The node pass\<close>

definition port_sound :: "(MediaPort \<Rightarrow> bool) \<Rightarrow> MediaNode \<Rightarrow> MediaPort \<Rightarrow> bool" where
  "port_sound dir node p \<longleftrightarrow>
     portId_isValid (port_id p) \<and> port_nodeId p = node_id node \<and> dir p \<and> port_name p \<noteq> [] \<and>
     \<not> time_invalid (port_time p)"

definition node_sound :: "MediaNode \<Rightarrow> bool" where
  "node_sound n \<longleftrightarrow>
     node_isValid n \<and>
     (\<forall>p\<in>set (node_inputPorts n). port_sound isInput n p) \<and>
     (\<forall>p\<in>set (node_outputPorts n). port_sound isOutput n p) \<and>
     distinct (map port_name (node_inputPorts n)) \<and> distinct (map port_name (node_outputPorts n))"

abbreviation port_key :: "MediaPort \<Rightarrow> u32" where
  "port_key p \<equiv> port_value (port_id p)"

lemma ball_fun_upd_True:
  "(\<forall>x\<in>A. P x \<and> \<not> (f(a := True)) (g x)) \<longleftrightarrow> (\<forall>x\<in>A. P x \<and> \<not> f (g x)) \<and> a \<notin> g ` A"
  by (auto split: if_splits)

lemma fold_ports:
  fixes step :: "MediaPort \<Rightarrow> NodePass \<Rightarrow> NodePass"
  assumes ok: "\<And>p s. report_ok (np_report (step p s)) \<longleftrightarrow>
      report_ok (np_report s) \<and> port_sound dir n p \<and> port_key p \<notin> set (portSeen s) \<and>
      \<not> portNames s (port_name p)"
    and seen: "\<And>p s. set (portSeen (step p s)) = insert (port_key p) (set (portSeen s))"
    and names: "\<And>p s. portNames (step p s) = (portNames s)(port_name p := True)"
  shows "report_ok (np_report (fold step ps s)) \<longleftrightarrow>
      report_ok (np_report s) \<and> (\<forall>p\<in>set ps. port_sound dir n p \<and> \<not> portNames s (port_name p)) \<and>
      distinct (map port_key ps) \<and> set (map port_key ps) \<inter> set (portSeen s) = {} \<and>
      distinct (map port_name ps)"
    and "set (portSeen (fold step ps s)) = set (map port_key ps) \<union> set (portSeen s)"
proof (induction ps arbitrary: s)
  case (Cons p ps)
  { case 1
    show ?case
      unfolding fold_Cons comp_apply Cons(1) ok seen names ball_fun_upd_True by auto
  next
    case 2
    show ?case using Cons(2) [of "step p s"] by (auto simp: seen)
  }
qed auto

lemma input_port_step:
  "report_ok (np_report (validateInputPort n p s)) \<longleftrightarrow>
     report_ok (np_report s) \<and> port_sound isInput n p \<and> port_key p \<notin> set (portSeen s) \<and>
     \<not> portNames s (port_name p)"
  "set (portSeen (validateInputPort n p s)) = insert (port_key p) (set (portSeen s))"
  "portNames (validateInputPort n p s) = (portNames s)(port_name p := True)"
  "nodeSeen (validateInputPort n p s) = nodeSeen s"
  by (auto simp: validateInputPort_def port_sound_def Let_def)

lemma output_port_step:
  "report_ok (np_report (validateOutputPort n p s)) \<longleftrightarrow>
     report_ok (np_report s) \<and> port_sound isOutput n p \<and> port_key p \<notin> set (portSeen s) \<and>
     \<not> portNames s (port_name p)"
  "set (portSeen (validateOutputPort n p s)) = insert (port_key p) (set (portSeen s))"
  "portNames (validateOutputPort n p s) = (portNames s)(port_name p := True)"
  "nodeSeen (validateOutputPort n p s) = nodeSeen s"
  by (auto simp: validateOutputPort_def port_sound_def Let_def)

lemmas fold_input_ports = fold_ports [where step = "validateInputPort n" for n, OF input_port_step(1-3)]
lemmas fold_output_ports = fold_ports [where step = "validateOutputPort n" for n, OF output_port_step(1-3)]

lemma fold_nodeSeen [simp]:
  "nodeSeen (fold (validateInputPort n) ps s) = nodeSeen s"
  "nodeSeen (fold (validateOutputPort n) ps s) = nodeSeen s"
  by (induction ps arbitrary: s) (auto simp: input_port_step output_port_step)

lemma validateNode_step:
  "report_ok (np_report (validateNode n s)) \<longleftrightarrow>
     report_ok (np_report s) \<and> node_sound n \<and> \<not> nodeSeen s (node_value (node_id n)) \<and>
     distinct (map port_key (node_ports n)) \<and> set (map port_key (node_ports n)) \<inter> set (portSeen s) = {}"
  "node_sound n \<Longrightarrow> nodeSeen (validateNode n s) = (nodeSeen s)(node_value (node_id n) := True)"
  "node_sound n \<Longrightarrow>
     set (portSeen (validateNode n s)) = set (map port_key (node_ports n)) \<union> set (portSeen s)"
  by (auto simp: validateNode_def node_sound_def Let_def fold_input_ports fold_output_ports node_ports_def)

lemma fold_validateNode:
  "report_ok (np_report (fold validateNode ns s)) \<longleftrightarrow>
     report_ok (np_report s) \<and> (\<forall>n\<in>set ns. node_sound n \<and> \<not> nodeSeen s (node_value (node_id n))) \<and>
     distinct (map (\<lambda>n. node_value (node_id n)) ns) \<and>
     distinct (concat (map (map port_key \<circ> node_ports) ns)) \<and>
     set (concat (map (map port_key \<circ> node_ports) ns)) \<inter> set (portSeen s) = {}"
proof (induction ns arbitrary: s)
  case (Cons n ns)
  show ?case
  proof (cases "node_sound n")
    case True
    show ?thesis
      unfolding fold_Cons comp_apply Cons validateNode_step(1)
        validateNode_step(2,3) [OF True] ball_fun_upd_True
        list.map concat.simps distinct.simps distinct_append set_append list.set(2) ball_simps(7)
        Int_Un_distrib Int_Un_distrib2 Un_empty set_map
      using True by blast
  next
    case False
    then have "\<not> report_ok (np_report (validateNode n s))" by (simp add: validateNode_step)
    then show ?thesis using Cons [of "validateNode n s"] False by simp
  qed
qed simp

subsection \<open>The edge pass\<close>

abbreviation out_key :: "MediaEdge \<Rightarrow> u32" where
  "out_key e \<equiv> port_value (ep_portId (edge_from e))"

abbreviation in_key :: "MediaEdge \<Rightarrow> u32" where
  "in_key e \<equiv> port_value (ep_portId (edge_to e))"

definition uses :: "(MediaEdge \<Rightarrow> u32) \<Rightarrow> MediaEdge list \<Rightarrow> u32 \<Rightarrow> nat" where
  "uses key es k = length (filter (\<lambda>e. key e = k) es)"

definition edge_resolves :: "MediaGraph \<Rightarrow> MediaEdge \<Rightarrow> MediaPort \<Rightarrow> MediaPort \<Rightarrow> bool" where
  "edge_resolves g e fp tp \<longleftrightarrow>
     edge_isValid e \<and>
     findNode g (ep_nodeId (edge_from e)) \<noteq> None \<and> findNode g (ep_nodeId (edge_to e)) \<noteq> None \<and>
     findPort g (ep_portId (edge_from e)) = Some fp \<and> findPort g (ep_portId (edge_to e)) = Some tp"

definition edge_sound :: "MediaGraph \<Rightarrow> MediaEdge \<Rightarrow> bool" where
  "edge_sound g e \<longleftrightarrow>
     edge_policy_ok e \<and>
     (\<exists>fp tp. edge_resolves g e fp tp \<and> port_accepts tp fp \<and>
        port_nodeId fp = ep_nodeId (edge_from e) \<and> port_nodeId tp = ep_nodeId (edge_to e))"

definition atomic_consistent :: "MediaEdge list \<Rightarrow> bool" where
  "atomic_consistent es \<longleftrightarrow>
     (\<forall>e\<in>set es. \<forall>e'\<in>set es. out_key e = out_key e' \<longrightarrow>
        atomicOutputPolicy_accepts (edge_policy e) = atomicOutputPolicy_accepts (edge_policy e'))"

definition single_use :: "MediaGraph \<Rightarrow> u32 \<Rightarrow> bool" where
  "single_use g k \<longleftrightarrow>
     (case findPort g (MediaPortId k) of None \<Rightarrow> False | Some p \<Rightarrow> \<not> port_multiple p)"

definition used_once :: "MediaGraph \<Rightarrow> (MediaEdge \<Rightarrow> u32) \<Rightarrow> MediaEdge list \<Rightarrow> bool" where
  "used_once g key es \<longleftrightarrow> (\<forall>e\<in>set es. single_use g (key e) \<longrightarrow> uses key es (key e) \<le> 1)"

definition edges_sound :: "MediaGraph \<Rightarrow> MediaEdge list \<Rightarrow> bool" where
  "edges_sound g es \<longleftrightarrow>
     (\<forall>e\<in>set es. edge_sound g e) \<and> distinct (map edge_id es) \<and> atomic_consistent es \<and>
     used_once g in_key es \<and> used_once g out_key es"

definition tables_of :: "MediaEdge list \<Rightarrow> EdgePass \<Rightarrow> bool" where
  "tables_of es s \<longleftrightarrow>
     inputPortUsage s = (\<lambda>k. int (uses in_key es k)) \<and>
     outputPortUsage s = (\<lambda>k. int (uses out_key es k)) \<and>
     outputPortAtomicPolicy s =
       (\<lambda>k. map_option (\<lambda>e. atomicOutputPolicy_accepts (edge_policy e))
              (List.find (\<lambda>e. out_key e = k) es)) \<and>
     edgeSeen s = (\<lambda>k. k \<in> (\<lambda>e. edge_value (edge_id e)) ` set es)"

lemma uses_snoc [simp]: "uses key (es @ [e]) k = uses key es k + (if key e = k then 1 else 0)"
  by (simp add: uses_def)

lemma uses_le_snoc: "uses key es k \<le> uses key (es @ [e]) k"
  by simp

lemma uses_pos: "uses key es k > 0 \<longleftrightarrow> (\<exists>e\<in>set es. key e = k)"
  by (auto simp: uses_def filter_empty_conv)

lemma findPort_id: "findPort g i = Some p \<Longrightarrow> port_id p = i"
  by (auto simp: findPort_def findPort_nodes_find split: if_splits dest: find_SomeD)

lemma used_once_snoc:
  "used_once g key (es @ [e]) \<longleftrightarrow>
     used_once g key es \<and> (single_use g (key e) \<longrightarrow> uses key es (key e) = 0)"
proof -
  have pos: "uses key es (key x) > 0" if "x \<in> set es" for x
    using that uses_pos by blast
  have "(\<forall>x\<in>set es. single_use g (key x) \<longrightarrow> uses key (es @ [e]) (key x) \<le> 1) \<longleftrightarrow>
      used_once g key es \<and> (\<forall>x\<in>set es. single_use g (key x) \<longrightarrow> key x \<noteq> key e)"
    unfolding used_once_def using pos by fastforce
  moreover have "(\<forall>x\<in>set es. single_use g (key x) \<longrightarrow> key x \<noteq> key e) \<longleftrightarrow>
      (single_use g (key e) \<longrightarrow> uses key es (key e) = 0)"
    using uses_pos [of key es "key e"] by (metis neq0_conv)
  ultimately show ?thesis unfolding used_once_def by auto
qed

lemma consistent_snoc:
  "(\<forall>x\<in>set (es @ [e]). \<forall>y\<in>set (es @ [e]). k x = k y \<longrightarrow> v x = v y) \<longleftrightarrow>
     (\<forall>x\<in>set es. \<forall>y\<in>set es. k x = k y \<longrightarrow> v x = v y) \<and> (\<forall>x\<in>set es. k x = k e \<longrightarrow> v x = v e)"
  by (simp add: ball_Un eq_commute [of "k e"] eq_commute [of "v e"]) blast

lemma consistent_find:
  assumes "\<forall>x\<in>set es. \<forall>y\<in>set es. k x = k y \<longrightarrow> v x = v y"
  shows "(\<forall>x\<in>set es. k x = c \<longrightarrow> v x = w) \<longleftrightarrow>
    (case List.find (\<lambda>x. k x = c) es of None \<Rightarrow> True | Some x \<Rightarrow> v x = w)"
proof (cases "List.find (\<lambda>x. k x = c) es")
  case None
  then have "\<forall>x\<in>set es. k x \<noteq> c" by (simp add: find_None_iff)
  then show ?thesis using None by simp
next
  case (Some x)
  then have "x \<in> set es" "k x = c" by (auto dest: find_SomeD)
  then show ?thesis unfolding Some option.case using assms by metis
qed

lemma atomic_consistent_snoc:
  assumes "atomic_consistent es"
  shows "atomic_consistent (es @ [e]) \<longleftrightarrow>
     (case List.find (\<lambda>x. out_key x = out_key e) es of
        None \<Rightarrow> True
      | Some x \<Rightarrow> atomicOutputPolicy_accepts (edge_policy x) = atomicOutputPolicy_accepts (edge_policy e))"
  using assms consistent_find [OF assms [unfolded atomic_consistent_def]]
  unfolding atomic_consistent_def consistent_snoc by blast

lemma edge_resolves_cases:
  "edge_isValid e \<Longrightarrow> \<not> (\<exists>fp tp. edge_resolves g e fp tp) \<Longrightarrow>
     \<not> report_ok (ep_report (validateEdge g e s))"
  by (auto simp: validateEdge_def edge_resolves_def Let_def split: option.splits)

lemma validateEdge_resolves:
  assumes "edge_resolves g e fp tp"
  shows "validateEdge g e s =
    validateResolvedEdge e fp tp
      (s\<lparr>ep_report := addIssue_if (edgeSeen s (edge_value (edge_id e)))
                       Severity_Error DuplicateId ''Duplicate edge id detected''
                       invalid_node invalid_port (edge_id e) (ep_report s),
         edgeSeen := (edgeSeen s)(edge_value (edge_id e) := True)\<rparr>)"
  using assms by (auto simp: validateEdge_def edge_resolves_def Let_def split: option.splits)

lemma single_use_port: "findPort g i = Some p \<Longrightarrow> single_use g (port_value i) \<longleftrightarrow> \<not> port_multiple p"
  by (simp add: single_use_def)

lemma port_accepts_direction: "port_accepts tp fp \<Longrightarrow> isInput tp \<and> isOutput fp"
  by (auto simp: port_accepts_def split: if_splits)

lemma validateResolvedEdge_ok:
  assumes "tables_of es s" and "port_id fp = ep_portId (edge_from e)" "port_id tp = ep_portId (edge_to e)"
  shows "report_ok (ep_report (validateResolvedEdge e fp tp s)) \<longleftrightarrow>
    report_ok (ep_report s) \<and> port_nodeId fp = ep_nodeId (edge_from e) \<and>
    port_nodeId tp = ep_nodeId (edge_to e) \<and> port_accepts tp fp \<and> edge_policy_ok e \<and>
    (case List.find (\<lambda>x. out_key x = out_key e) es of None \<Rightarrow> True
     | Some x \<Rightarrow> atomicOutputPolicy_accepts (edge_policy x) = atomicOutputPolicy_accepts (edge_policy e)) \<and>
    (\<not> port_multiple tp \<longrightarrow> uses in_key es (in_key e) = 0) \<and>
    (\<not> port_multiple fp \<longrightarrow> uses out_key es (out_key e) = 0)"
  using assms port_accepts_direction [of tp fp]
  by (auto simp: validateResolvedEdge_def tables_of_def Let_def split: option.splits)

lemma edges_sound_snoc:
  assumes "edges_sound g es"
  shows "edges_sound g (es @ [e]) \<longleftrightarrow>
    edge_sound g e \<and> edge_id e \<notin> edge_id ` set es \<and>
    (case List.find (\<lambda>x. out_key x = out_key e) es of None \<Rightarrow> True
     | Some x \<Rightarrow> atomicOutputPolicy_accepts (edge_policy x) = atomicOutputPolicy_accepts (edge_policy e)) \<and>
    (single_use g (in_key e) \<longrightarrow> uses in_key es (in_key e) = 0) \<and>
    (single_use g (out_key e) \<longrightarrow> uses out_key es (out_key e) = 0)"
proof -
  have "atomic_consistent es" using assms by (simp add: edges_sound_def)
  note snoc = atomic_consistent_snoc [OF this] used_once_snoc
  show ?thesis using assms unfolding edges_sound_def snoc by auto
qed

lemma edge_sound_resolves: "edge_sound g e \<Longrightarrow> \<exists>fp tp. edge_resolves g e fp tp"
  by (auto simp: edge_sound_def)

lemma edge_sound_iff:
  assumes "edge_resolves g e fp tp"
  shows "edge_sound g e \<longleftrightarrow> edge_policy_ok e \<and> port_accepts tp fp \<and>
    port_nodeId fp = ep_nodeId (edge_from e) \<and> port_nodeId tp = ep_nodeId (edge_to e)"
  using assms by (auto simp: edge_sound_def edge_resolves_def)

lemma edge_seen_iff:
  "edge_value (edge_id e) \<in> (\<lambda>x. edge_value (edge_id x)) ` set es \<longleftrightarrow> edge_id e \<in> edge_id ` set es"
  unfolding image_iff by (metis MediaEdgeId.expand)

lemma validateEdge_ok:
  assumes t: "tables_of es s" and es: "edges_sound g es"
  shows "report_ok (ep_report (validateEdge g e s)) \<longleftrightarrow>
    report_ok (ep_report s) \<and> edges_sound g (es @ [e])"
proof (cases "\<exists>fp tp. edge_resolves g e fp tp")
  case False
  then have "\<not> edge_sound g e" using edge_sound_resolves by blast
  moreover have "\<not> report_ok (ep_report (validateEdge g e s))"
    using False edge_resolves_cases [of e g s]
    by (cases "edge_isValid e") (simp_all add: validateEdge_def)
  ultimately show ?thesis using edges_sound_snoc [OF es] by simp
next
  case True
  then obtain fp tp where r: "edge_resolves g e fp tp" by blast
  then have ports: "findPort g (ep_portId (edge_from e)) = Some fp"
      "findPort g (ep_portId (edge_to e)) = Some tp" by (simp_all add: edge_resolves_def)
  note ids = findPort_id [OF ports(1)] findPort_id [OF ports(2)]
  let ?s = "s\<lparr>ep_report := addIssue_if (edgeSeen s (edge_value (edge_id e)))
                       Severity_Error DuplicateId ''Duplicate edge id detected''
                       invalid_node invalid_port (edge_id e) (ep_report s)\<rparr>"
  have seen: "edgeSeen s (edge_value (edge_id e)) \<longleftrightarrow> edge_id e \<in> edge_id ` set es"
    using t edge_seen_iff unfolding tables_of_def by metis
  have t': "tables_of es ?s" using t by (simp add: tables_of_def)
  have same: "ep_report (validateResolvedEdge e fp tp (s\<lparr>ep_report := x, edgeSeen := y\<rparr>)) =
      ep_report (validateResolvedEdge e fp tp (s\<lparr>ep_report := x\<rparr>))" for x y
    by (simp add: validateResolvedEdge_def Let_def split: option.split)
  show ?thesis
    unfolding validateEdge_resolves [OF r] same validateResolvedEdge_ok [OF t' ids]
      edges_sound_snoc [OF es] edge_sound_iff [OF r] single_use_port [OF ports(1)]
      single_use_port [OF ports(2)] using seen by auto
qed

lemma tables_of_snoc:
  assumes "tables_of es s" and "edge_sound g e"
  shows "tables_of (es @ [e]) (validateEdge g e s)"
proof -
  obtain fp tp where r: "edge_resolves g e fp tp" using edge_sound_resolves [OF assms(2)] by blast
  then have ids: "port_id fp = ep_portId (edge_from e)" "port_id tp = ep_portId (edge_to e)"
    by (auto simp: edge_resolves_def findPort_id)
  show ?thesis
    unfolding validateEdge_resolves [OF r]
    using assms(1) ids
    by (auto simp: tables_of_def validateResolvedEdge_def Let_def find_append fun_eq_iff
        split: option.splits)
qed

lemma validateEdge_mono:
  "\<not> report_ok (ep_report s) \<Longrightarrow> \<not> report_ok (ep_report (validateEdge g e s))"
  by (auto simp: validateEdge_def validateResolvedEdge_def Let_def split: option.splits prod.splits)

lemma fold_validateEdge:
  assumes "tables_of [] s"
  shows "(report_ok (ep_report (fold (validateEdge g) es s)) \<longleftrightarrow>
            report_ok (ep_report s) \<and> edges_sound g es) \<and>
         (edges_sound g es \<longrightarrow> tables_of es (fold (validateEdge g) es s))"
proof (induction es rule: rev_induct)
  case Nil
  then show ?case
    using assms by (simp add: edges_sound_def atomic_consistent_def used_once_def)
next
  case (snoc e es)
  have prefix: "edges_sound g es" if "edges_sound g (es @ [e])"
  proof -
    have "atomic_consistent es"
      using that unfolding edges_sound_def atomic_consistent_def consistent_snoc by blast
    moreover have "(\<forall>e\<in>set es. edge_sound g e) \<and> distinct (map edge_id es)"
      using that by (simp add: edges_sound_def)
    ultimately show ?thesis using that unfolding edges_sound_def used_once_snoc by blast
  qed
  show ?case
  proof (cases "edges_sound g es")
    case True
    then have t: "tables_of es (fold (validateEdge g) es s)" using snoc by blast
    have "edge_sound g e" if "edges_sound g (es @ [e])"
      using that by (simp add: edges_sound_def)
    then show ?thesis
      using validateEdge_ok [OF t True] tables_of_snoc [OF t] snoc True by auto
  next
    case False
    then have "\<not> report_ok (ep_report (fold (validateEdge g) es s))" using snoc by blast
    then show ?thesis using validateEdge_mono False prefix by auto
  qed
qed

subsection \<open>The verdict\<close>

definition nodes_sound :: "MediaGraph \<Rightarrow> bool" where
  "nodes_sound g \<longleftrightarrow>
     (\<forall>n\<in>set (m_nodes g). node_sound n) \<and> distinct (map node_id (m_nodes g)) \<and>
     distinct (map port_id (all_ports g))"

definition required_connected :: "MediaGraph \<Rightarrow> bool" where
  "required_connected g \<longleftrightarrow>
     (\<forall>n\<in>set (m_nodes g). \<forall>p\<in>set (node_inputPorts n). port_required p \<longrightarrow>
        (\<exists>e\<in>set (m_edges g). ep_portId (edge_to e) = port_id p))"

lemma nodePass_ok: "report_ok (np_report (nodePass g)) \<longleftrightarrow> nodes_sound g"
proof -
  have "concat (map (map port_key \<circ> node_ports) (m_nodes g)) = map port_value (map port_id (all_ports g))"
    unfolding all_ports_def map_concat map_map comp_def by simp
  moreover have "distinct (map port_value xs) \<longleftrightarrow> distinct xs" for xs
    by (simp add: distinct_map inj_on_def MediaPortId.expand)
  moreover have "distinct (map (\<lambda>n. node_value (node_id n)) ns) \<longleftrightarrow> distinct (map node_id ns)"
    for ns :: "MediaNode list"
    by (auto simp: distinct_map inj_on_def MediaNodeId.expand)
  ultimately show ?thesis
    unfolding nodePass_def fold_validateNode nodes_sound_def by (simp del: map_map)
qed

lemma edgePass_ok:
  "report_ok (ep_report (edgePass g r)) \<longleftrightarrow> report_ok r \<and> edges_sound g (m_edges g)"
  "edges_sound g (m_edges g) \<Longrightarrow> tables_of (m_edges g) (edgePass g r)"
  using fold_validateEdge [of "\<lparr>ep_report = r, inputPortUsage = \<lambda>_. 0, outputPortUsage = \<lambda>_. 0,
        outputPortAtomicPolicy = \<lambda>_. None, edgeSeen = \<lambda>_. False\<rparr>" g "m_edges g"]
  unfolding edgePass_def by (simp_all add: tables_of_def uses_def)

lemma fold_addIssue_if_warning:
  "report_ok (fold (\<lambda>p. addIssue_if (b p) Severity_Warning c m n (f p) e) ps r) \<longleftrightarrow> report_ok r"
  by (induction ps arbitrary: r) auto

lemma fold_addIssue_if_error:
  "report_ok (fold (\<lambda>p. addIssue_if (b p) Severity_Error c m n (f p) e) ps r) \<longleftrightarrow>
     report_ok r \<and> (\<forall>p\<in>set ps. \<not> b p)"
  by (induction ps arbitrary: r) auto

lemma fold_validateRequired_ok:
  "report_ok (fold (validateRequired inU outU) ns r) \<longleftrightarrow>
     report_ok r \<and> (\<forall>n\<in>set ns. \<forall>p\<in>set (node_inputPorts n). \<not> (port_required p \<and> inU (port_key p) = 0))"
  by (induction ns arbitrary: r)
    (auto simp: validateRequired_def fold_addIssue_if_warning fold_addIssue_if_error)

lemma validateAcyclic_ok:
  "report_ok (validateAcyclic g r) \<longleftrightarrow> report_ok r \<and> (\<exists>t. topology_build g = Inr t)"
  by (auto simp: validateAcyclic_def split: sum.splits)

lemma in_usage_zero: "(int (uses in_key es (port_key p)) = 0) \<longleftrightarrow> (\<forall>e\<in>set es. ep_portId (edge_to e) \<noteq> port_id p)"
proof -
  have "(int (uses in_key es (port_key p)) = 0) \<longleftrightarrow> \<not> (\<exists>e\<in>set es. in_key e = port_key p)"
    using uses_pos [of in_key es "port_key p"] by auto
  then show ?thesis by (metis MediaPortId.expand)
qed

lemma validate_ok:
  "report_ok (validate g) =
     (nodes_sound g \<and> edges_sound g (m_edges g) \<and> required_connected g \<and>
      (\<exists>t. topology_build g = Inr t))"
proof -
  let ?ep = "edgePass g (np_report (nodePass g))"
  have req: "(\<forall>n\<in>set (m_nodes g). \<forall>p\<in>set (node_inputPorts n).
      \<not> (port_required p \<and> inputPortUsage ?ep (port_key p) = 0)) = required_connected g"
    if "edges_sound g (m_edges g)"
  proof -
    have "inputPortUsage ?ep = (\<lambda>k. int (uses in_key (m_edges g) k))"
      using edgePass_ok(2) [OF that] by (simp add: tables_of_def)
    then show ?thesis unfolding required_connected_def by (simp only: in_usage_zero) blast
  qed
  have "report_ok (validate g) \<longleftrightarrow>
      (nodes_sound g \<and> edges_sound g (m_edges g)) \<and>
      (\<forall>n\<in>set (m_nodes g). \<forall>p\<in>set (node_inputPorts n).
         \<not> (port_required p \<and> inputPortUsage ?ep (port_key p) = 0)) \<and>
      (\<exists>t. topology_build g = Inr t)"
    unfolding validate_def Let_def validateAcyclic_ok fold_validateRequired_ok edgePass_ok(1) nodePass_ok
    by blast
  then show ?thesis using req by blast
qed

text \<open>
  C4. For every graph, well-formed or not, the validator reports no error exactly when every node,
  port and edge is sound (valid, owned by its node, in its direction, uniquely identified and named,
  with a usable policy and time base, of compatible kinds), no fan-out mixes atomic and other
  policies, no single-use port is used twice, every required input is connected and the topology
  builder finds an order. Warnings never change the verdict.
\<close>

theorem validate_ok_iff:
  "report_ok (validate g) =
     (nodes_sound g \<and> edges_sound g (m_edges g) \<and> required_connected g \<and>
      (\<exists>t. topology_build g = Inr t))"
  by (rule validate_ok)

lemma graph_wf_nodes_sound:
  assumes "graph_wf g"
  shows "nodes_sound g \<longleftrightarrow>
    (\<forall>p\<in>set (all_ports g). \<not> time_invalid (port_time p)) \<and>
    (\<forall>n\<in>set (m_nodes g). distinct (map port_name (node_inputPorts n)) \<and>
       distinct (map port_name (node_outputPorts n)))"
proof -
  have valid: "portId_isValid (port_id p)" if "n \<in> set (m_nodes g)" "p \<in> set (node_ports n)" for n p
    using graph_wf_port_valid [OF assms] that by (auto simp: all_ports_def)
  have sound: "node_sound n \<longleftrightarrow>
      (\<forall>p\<in>set (node_ports n). \<not> time_invalid (port_time p)) \<and>
      distinct (map port_name (node_inputPorts n)) \<and> distinct (map port_name (node_outputPorts n))"
    if n: "n \<in> set (m_nodes g)" for n
  proof -
    have "node_wf n" using n assms by (simp add: graph_wf_def nodes_ok_def)
    then show ?thesis
      using valid [OF n] graph_wf_node_valid [OF assms n]
      by (auto simp: node_sound_def node_wf_def port_sound_def node_isValid_def node_ports_def)
  qed
  have "distinct (map node_id (m_nodes g)) \<and> distinct (map port_id (all_ports g))"
    using assms by (simp add: graph_wf_def nodes_ok_def ports_ok_def)
  then have "nodes_sound g \<longleftrightarrow> (\<forall>n\<in>set (m_nodes g). node_sound n)" by (simp add: nodes_sound_def)
  also have "\<dots> \<longleftrightarrow> (\<forall>n\<in>set (m_nodes g).
      (\<forall>p\<in>set (node_ports n). \<not> time_invalid (port_time p)) \<and>
      distinct (map port_name (node_inputPorts n)) \<and> distinct (map port_name (node_outputPorts n)))"
    using sound by (rule ball_cong [OF refl])
  finally show ?thesis unfolding all_ports_def by (auto simp: ball_conj_distrib)
qed

lemma graph_wf_edge_sound:
  assumes "graph_wf g" and "e \<in> set (m_edges g)"
  shows "edge_sound g e \<longleftrightarrow> edge_policy_ok e"
proof -
  have "edge_wf (m_nodes g) e" using assms by (simp add: graph_wf_def edges_ok_def)
  then obtain fn fp tn tp where w: "fn \<in> set (m_nodes g)" "fp \<in> set (node_outputPorts fn)"
      "tn \<in> set (m_nodes g)" "tp \<in> set (node_inputPorts tn)"
      "ep_nodeId (edge_from e) = node_id fn" "ep_portId (edge_from e) = port_id fp"
      "ep_nodeId (edge_to e) = node_id tn" "ep_portId (edge_to e) = port_id tp" "port_accepts tp fp"
    unfolding edge_wf_def by blast
  have ports: "fp \<in> set (all_ports g)" "tp \<in> set (all_ports g)"
    using w(1-4) by (auto simp: all_ports_def node_ports_def)
  have own: "port_nodeId fp = node_id fn" "port_nodeId tp = node_id tn"
    using assms(1) w(1-4) by (auto simp: graph_wf_def nodes_ok_def node_wf_def)
  have "edge_isValid e"
    using graph_wf_edge_valid [OF assms] graph_wf_node_valid [OF assms(1) w(1)]
      graph_wf_node_valid [OF assms(1) w(3)] graph_wf_port_valid [OF assms(1) ports(1)]
      graph_wf_port_valid [OF assms(1) ports(2)] w
    by (simp add: edge_isValid_def endpoint_isValid_def)
  then have "edge_resolves g e fp tp"
    using findNode_wf [OF assms(1) w(1)] findNode_wf [OF assms(1) w(3)]
      findPort_wf [OF assms(1) ports(1)] findPort_wf [OF assms(1) ports(2)] w
    by (simp add: edge_resolves_def)
  from edge_sound_iff [OF this] show ?thesis using w own by simp
qed

text \<open>
  On a graph the builder operations produced, the validator's verdict reduces to what those
  operations do not already enforce: the graph is accepted exactly when it is acyclic, port names
  are unique per node and direction, time descriptors are usable, every edge policy is usable, no
  fan-out mixes atomic and other policies, single-use ports are used at most once and every
  required input is connected.
\<close>

theorem validate_ok_wf:
  assumes "graph_wf g"
  shows "report_ok (validate g) =
     (acyclic (edge_rel g) \<and>
      (\<forall>p\<in>set (all_ports g). \<not> time_invalid (port_time p)) \<and>
      (\<forall>n\<in>set (m_nodes g). distinct (map port_name (node_inputPorts n)) \<and>
         distinct (map port_name (node_outputPorts n))) \<and>
      (\<forall>e\<in>set (m_edges g). edge_policy_ok e) \<and> atomic_consistent (m_edges g) \<and>
      used_once g in_key (m_edges g) \<and> used_once g out_key (m_edges g) \<and> required_connected g)"
proof -
  have topo: "(\<exists>t. topology_build g = Inr t) \<longleftrightarrow> acyclic (edge_rel g)"
    using topology_build_acyclic [OF assms] by (auto split: if_splits)
  have "edges_sound g (m_edges g) \<longleftrightarrow>
      (\<forall>e\<in>set (m_edges g). edge_policy_ok e) \<and> atomic_consistent (m_edges g) \<and>
      used_once g in_key (m_edges g) \<and> used_once g out_key (m_edges g)"
    using assms graph_wf_edge_sound [OF assms] by (simp add: edges_sound_def graph_wf_def edges_ok_def)
  then show ?thesis
    unfolding validate_ok graph_wf_nodes_sound [OF assms] topo by blast
qed

text \<open>The default queue policy leaves the storage mode unknown, so the witness selects one.\<close>

definition valid_demo_ops :: "GraphOp list" where
  "valid_demo_ops = demo_ops @
     [Op_setEdgePolicy (MediaEdgeId 1)
        (default_MediaEdgePolicy\<lparr>ep_queuePolicy := default_MediaQueuePolicy\<lparr>qp_storageMode := Storage_Deque\<rparr>\<rparr>)]"

theorem validate_ok_wf_witness:
  "report_ok (validate (graph_run empty_graph valid_demo_ops)) \<and> acyclic (edge_rel (graph_run empty_graph valid_demo_ops))"
proof -
  let ?g = "graph_run empty_graph valid_demo_ops"
  have wf: "graph_wf ?g"
    by (rule graph_run_wf_from [OF graph_wf_empty, of 1])
      (simp_all add: counters_below_def empty_graph_def valid_demo_ops_def demo_ops_def)
  have "report_ok (validate ?g) = True" by code_simp
  then show ?thesis using validate_ok_wf [OF wf] by simp
qed

end
