(* ===== verification/Checked_Arithmetic.thy ===== *)
theory Checked_Arithmetic
  imports Prelude
begin

unbundle bit_operations_syntax

text \<open>
  \<^verbatim>\<open>utils/MediaCheckedArithmetic\<close>: exact 64-bit arithmetic built from 32-bit limbs. Unsigned values
  are words, so every sum, product and shift of the model wraps as in C++; the lemmas show that
  none of them does. The binary searches terminate because the interval shrinks.
\<close>

section \<open>Definitions\<close>

record MediaUInt128 =
  u128_high :: u64
  u128_low :: u64

definition u128_ge :: "MediaUInt128 \<Rightarrow> MediaUInt128 \<Rightarrow> bool" where
  "u128_ge left right \<longleftrightarrow>
     u128_high left > u128_high right \<or>
     (u128_high left = u128_high right \<and> u128_low left \<ge> u128_low right)"

text \<open>\<^verbatim>\<open>static_cast<std::uint32_t>\<close> of a 64-bit value that is widened again.\<close>

definition low32 :: "u64 \<Rightarrow> u64" where
  "low32 x = ucast (ucast x :: u32)"

definition multiplyWide :: "u64 \<Rightarrow> u64 \<Rightarrow> MediaUInt128" where
  "multiplyWide left right =
     (let leftLow = low32 left;
          leftHigh = drop_bit 32 left;
          rightLow = low32 right;
          rightHigh = drop_bit 32 right;
          lowProduct = leftLow * rightLow;
          firstCross = leftHigh * rightLow + drop_bit 32 lowProduct;
          secondCross = leftLow * rightHigh + low32 firstCross
      in \<lparr>u128_high = leftHigh * rightHigh + drop_bit 32 firstCross + drop_bit 32 secondCross,
          u128_low = push_bit 32 secondCross + low32 lowProduct\<rparr>)"

definition divide_step :: "u32 \<Rightarrow> (nat \<times> u32) \<Rightarrow> u64 \<times> u64 \<Rightarrow> u64 \<times> u64" where
  "divide_step divisor indexed_limb state =
     (let (index, limb) = indexed_limb;
          (remainder, quotient) = state;
          partial = push_bit 32 remainder OR ucast limb;
          quotientLimb = (ucast (partial div ucast divisor) :: u32);
          remainder = partial mod ucast divisor
      in (remainder, if index \<ge> 2 then push_bit 32 quotient OR ucast quotientLimb else quotient))"

definition divideWideBy32 :: "MediaUInt128 \<Rightarrow> u32 \<Rightarrow> u64" where
  "divideWideBy32 dividend divisor =
     (let limbs = [ucast (drop_bit 32 (u128_high dividend)), ucast (u128_high dividend),
                   ucast (drop_bit 32 (u128_low dividend)), ucast (u128_low dividend)]
      in snd (fold (divide_step divisor) (enumerate 0 limbs) (0, 0)))"

definition checked_add :: "u64 \<Rightarrow> u64 \<Rightarrow> u64 Result" where
  "checked_add left right =
     (if right > - 1 - left then failure InvalidArgument else success (left + right))"

definition checked_multiply :: "u64 \<Rightarrow> u64 \<Rightarrow> u64 Result" where
  "checked_multiply left right =
     (if left \<noteq> 0 \<and> right > - 1 div left then failure InvalidArgument
      else success (left * right))"

lemma search_middle:
  assumes "first < (final :: u64)"
  shows "unat (first + (final - first) div 2) = unat first + (unat final - unat first) div 2"
proof -
  have d: "unat ((final - first) div 2) = (unat final - unat first) div 2"
    using assms by (simp add: unat_div unat_sub)
  have "unat first + (unat final - unat first) div 2 < 2 ^ 64"
    using assms unsigned_less [of final, where ?'a = nat] by (simp add: word_less_nat_alt)
  then show ?thesis by (simp add: unat_word_ariths(1) d)
qed

function least_multiple :: "u64 \<Rightarrow> MediaUInt128 \<Rightarrow> u64 \<Rightarrow> u64 \<Rightarrow> u64" where
  "least_multiple factor product first final =
     (if first < final then
        (let middle = first + (final - first) div 2
         in if u128_ge (multiplyWide middle factor) product
            then least_multiple factor product first middle
            else least_multiple factor product (middle + 1) final)
      else first)"
  by pat_completeness auto
termination
proof (relation "measure (\<lambda>(_, _, first, final). unat final - unat first)")
  fix first final middle :: u64
  assume "first < final" and m: "middle = first + (final - first) div 2"
  then have lt: "unat first < unat final" by (simp add: word_less_nat_alt)
  have mid: "unat middle = unat first + (unat final - unat first) div 2"
    using search_middle [OF \<open>first < final\<close>] m by simp
  then have "unat middle < unat final" using lt by linarith
  then have suc: "unat (middle + 1) = unat middle + 1"
    using unsigned_less [of final, where ?'a = nat] by (simp add: unat_word_ariths(1))
  show "((f, p, first, middle), (f, p, first, final)) \<in> measure (\<lambda>(_, _, first, final). unat final - unat first)"
    for f :: u64 and p :: MediaUInt128 using mid lt by simp
  show "((f, p, middle + 1, final), (f, p, first, final)) \<in> measure (\<lambda>(_, _, first, final). unat final - unat first)"
    for f :: u64 and p :: MediaUInt128 using mid lt suc by simp
qed auto

definition ceilScale :: "u64 \<Rightarrow> u64 \<Rightarrow> u64 \<Rightarrow> u64 Result" where
  "ceilScale val numerator denominator =
     (if numerator = 0 \<or> denominator = 0 then failure InvalidArgument
      else
        (let product = multiplyWide val numerator;
             maximumProduct = multiplyWide (- 1) denominator
         in if \<not> u128_ge maximumProduct product then failure InvalidArgument
            else success (least_multiple denominator product 0 (- 1))))"

definition NanosecondsPerSecond :: u64 where
  "NanosecondsPerSecond = 1000000000"

definition bytesForResidence :: "u64 \<Rightarrow> int \<Rightarrow> u64 Result" where
  "bytesForResidence rate residenceNanoseconds =
     (if rate = 0 \<or> residenceNanoseconds \<le> 0 then failure InvalidArgument
      else
        (let nanoseconds = word_of_int residenceNanoseconds;
             seconds = nanoseconds div NanosecondsPerSecond;
             remainder = nanoseconds mod NanosecondsPerSecond;
             whole = checked_multiply rate seconds
         in if remainder = 0 then whole
            else
              (let fraction = ceilScale rate remainder NanosecondsPerSecond
               in case whole of
                    Inl e \<Rightarrow> failure e
                  | Inr w \<Rightarrow> (case fraction of Inl e \<Rightarrow> failure e | Inr f \<Rightarrow> checked_add w f))))"

definition ceilDurationNanoseconds :: "u64 \<Rightarrow> u64 \<Rightarrow> int Result" where
  "ceilDurationNanoseconds bytes bytesPerSecond =
     (if bytes = 0 \<or> bytesPerSecond = 0 then failure InvalidArgument
      else
        (let required = multiplyWide bytes NanosecondsPerSecond;
             maximum = multiplyWide (word_of_int INT64_MAX) bytesPerSecond
         in if \<not> u128_ge maximum required then failure InvalidArgument
            else success (sint (least_multiple bytesPerSecond required 1 (word_of_int INT64_MAX)))))"

section \<open>Wide multiplication\<close>

definition u128_value :: "MediaUInt128 \<Rightarrow> nat" where
  "u128_value w = unat (u128_high w) * 2 ^ 64 + unat (u128_low w)"

lemma unat_low32: "unat (low32 x) = unat x mod 2 ^ 32"
  by (simp only: low32_def unsigned_ucast_eq) (simp add: take_bit_eq_mod unat_mod_distrib)

lemma unat_drop32: "unat (drop_bit 32 (x :: u64)) = unat x div 2 ^ 32"
  by (simp only: unat_drop_bit_eq) (simp only: drop_bit_eq_div)

lemma unat_push32: "unat (push_bit 32 (x :: u64)) = unat x mod 2 ^ 32 * 2 ^ 32"
proof -
  have "unat (push_bit 32 x) = (unat x * 2 ^ 32) mod (2 ^ 32 * 2 ^ 32)"
    by (simp only: unsigned_push_bit_eq) (simp add: push_bit_eq_mult take_bit_eq_mod)
  then show ?thesis unfolding mult_mod_left .
qed

lemma unat_add64: "unat (a :: u64) + unat b < 2 ^ 64 \<Longrightarrow> unat (a + b) = unat a + unat b"
  by (simp add: unat_word_ariths(1))

lemma unat_mult64: "unat (a :: u64) * unat b < 2 ^ 64 \<Longrightarrow> unat (a * b) = unat a * unat b"
  by (simp add: unat_word_ariths(2))

lemma limb_product_bound: "(a :: nat) < B \<Longrightarrow> b < B \<Longrightarrow> c < B \<Longrightarrow> a * b + c < B * B"
proof -
  assume "a < B" "b < B" "c < B"
  then have "a * b \<le> (B - 1) * (B - 1)" by (intro mult_le_mono) auto
  moreover have "(B - 1) * (B - 1) + B \<le> B * B" using \<open>a < B\<close> by (cases B) auto
  ultimately show ?thesis using \<open>c < B\<close> by linarith
qed

lemma schoolbook_identity:
  fixes B :: nat
  assumes s: "s1 * B + s0 = l0 * r1 + f0" and f: "f1 * B + f0 = l1 * r0 + p1"
    and p: "p1 * B + p0 = l0 * r0"
  shows "(l1 * r1 + f1 + s1) * (B * B) + (s0 * B + p0) = (l1 * B + l0) * (r1 * B + r0)"
proof -
  have "(l1 * r1 + f1 + s1) * (B * B) + (s0 * B + p0) =
      l1 * r1 * (B * B) + f1 * (B * B) + (s1 * B + s0) * B + p0"
    by (simp add: algebra_simps)
  also have "\<dots> = l1 * r1 * (B * B) + l0 * r1 * B + (f1 * B + f0) * B + p0"
    unfolding s by (simp add: algebra_simps)
  also have "\<dots> = l1 * r1 * (B * B) + l0 * r1 * B + l1 * r0 * B + (p1 * B + p0)"
    unfolding f by (simp add: algebra_simps)
  also have "\<dots> = (l1 * B + l0) * (r1 * B + r0)"
    unfolding p by (simp add: algebra_simps)
  finally show ?thesis .
qed

lemma schoolbook_product:
  fixes B l r :: nat
  assumes B: "0 < B" and l: "l < B * B" and r: "r < B * B"
  defines "l0 \<equiv> l mod B" and "l1 \<equiv> l div B" and "r0 \<equiv> r mod B" and "r1 \<equiv> r div B"
  defines "lp \<equiv> l0 * r0"
  defines "fc \<equiv> l1 * r0 + lp div B"
  defines "sc \<equiv> l0 * r1 + fc mod B"
  shows "(l1 * r1 + fc div B + sc div B) * (B * B) + (sc mod B * B + lp mod B) = l * r"
    and "lp < B * B" and "fc < B * B" and "sc < B * B"
    and "l1 * r1 + fc div B + sc div B < B * B" and "sc mod B * B + lp mod B < B * B"
    and "l1 * r1 + fc div B < B * B"
proof -
  have limbs: "l0 < B" "r0 < B" "l1 < B" "r1 < B"
    using assms by (auto simp: less_mult_imp_div_less)
  have lp: "lp < B * B" using limb_product_bound [OF limbs(1,2) B] unfolding lp_def by simp
  then show "lp < B * B" .
  have "lp div B < B" using lp by (simp add: less_mult_imp_div_less)
  then show "fc < B * B" unfolding fc_def by (rule limb_product_bound [OF limbs(3,2)])
  show sc: "sc < B * B" unfolding sc_def by (rule limb_product_bound [OF limbs(1,4)]) (use B in simp)
  show low: "sc mod B * B + lp mod B < B * B"
  proof -
    have "sc mod B < B" "lp mod B < B" using B by simp_all
    then have "sc mod B \<le> B - 1" "lp mod B < B" by linarith+
    then have "sc mod B * B + lp mod B < (B - 1) * B + B" by (simp add: add_le_less_mono)
    also have "\<dots> = B * B" using B by (cases B) auto
    finally show ?thesis .
  qed
  have "(l1 * r1 + fc div B + sc div B) * (B * B) + (sc mod B * B + lp mod B) =
      (l1 * B + l0) * (r1 * B + r0)"
    by (rule schoolbook_identity [where ?f0.0 = "fc mod B" and ?p1.0 = "lp div B"])
      (simp_all only: div_mult_mod_eq, simp_all only: sc_def fc_def lp_def)
  also have "\<dots> = l * r" unfolding l0_def l1_def r0_def r1_def div_mult_mod_eq ..
  finally show eq: "(l1 * r1 + fc div B + sc div B) * (B * B) + (sc mod B * B + lp mod B) = l * r" .
  have "l * r < (B * B) * (B * B)" using l r by (intro mult_strict_mono') auto
  then have "(l1 * r1 + fc div B + sc div B) * (B * B) < (B * B) * (B * B)" using eq by linarith
  then show h: "l1 * r1 + fc div B + sc div B < B * B" by (simp add: mult_less_cancel2)
  then show "l1 * r1 + fc div B < B * B" by linarith
qed

lemma multiplyWide_value: "u128_value (multiplyWide l r) = unat l * unat r"
proof -
  let ?B = "2 ^ 32 :: nat"
  have BB: "?B * ?B = 2 ^ 64" by simp
  have lr: "unat l < ?B * ?B" "unat r < ?B * ?B"
    using unsigned_less [of l, where ?'a = nat] unsigned_less [of r, where ?'a = nat] by simp_all
  have B0: "0 < ?B" by simp
  note P = schoolbook_product [OF B0 lr, unfolded BB]
  define ll lh rl rh where "ll = low32 l" "lh = drop_bit 32 l" "rl = low32 r" "rh = drop_bit 32 r"
  note limb_defs = ll_lh_rl_rh_def
  have limbs: "unat ll = unat l mod ?B" "unat lh = unat l div ?B" "unat rl = unat r mod ?B"
      "unat rh = unat r div ?B"
    by (simp_all only: limb_defs unat_low32 unat_drop32)
  define lp where "lp = ll * rl"
  have lp: "unat lp = unat ll * unat rl"
    unfolding lp_def by (rule unat_mult64) (unfold limbs, rule P(2))
  define fc where "fc = lh * rl + drop_bit 32 lp"
  have m: "unat (lh * rl) = unat lh * unat rl"
    by (rule unat_mult64) (unfold limbs, rule le_less_trans [OF le_add1 P(3)])
  have fc: "unat fc = unat lh * unat rl + unat lp div ?B"
    unfolding fc_def m [symmetric] unat_drop32 [symmetric]
    by (rule unat_add64) (unfold m unat_drop32 lp limbs, rule P(3))
  define sc where "sc = ll * rh + low32 fc"
  have m: "unat (ll * rh) = unat ll * unat rh"
    by (rule unat_mult64) (unfold limbs, rule le_less_trans [OF le_add1 P(4)])
  have sc: "unat sc = unat ll * unat rh + unat fc mod ?B"
    unfolding sc_def m [symmetric] unat_low32 [symmetric]
    by (rule unat_add64) (unfold m unat_low32 fc lp limbs, rule P(4))
  have m: "unat (lh * rh) = unat lh * unat rh"
    by (rule unat_mult64) (unfold limbs, rule le_less_trans [OF le_add1 P(7)])
  have h1: "unat (lh * rh + drop_bit 32 fc) = unat lh * unat rh + unat fc div ?B"
    unfolding m [symmetric] unat_drop32 [symmetric]
    by (rule unat_add64) (unfold m unat_drop32 fc lp limbs, rule P(7))
  have h: "unat (lh * rh + drop_bit 32 fc + drop_bit 32 sc) =
      unat lh * unat rh + unat fc div ?B + unat sc div ?B"
    unfolding h1 [symmetric] unat_drop32 [of sc, symmetric]
    by (rule unat_add64) (unfold h1 unat_drop32 sc fc lp limbs, rule P(5))
  have low: "unat (push_bit 32 sc + low32 lp) = unat sc mod ?B * ?B + unat lp mod ?B"
    unfolding unat_push32 [symmetric] unat_low32 [of lp, symmetric]
    by (rule unat_add64) (unfold unat_push32 unat_low32 sc fc lp limbs, rule P(6))
  have "u128_value (multiplyWide l r) =
      (unat lh * unat rh + unat fc div ?B + unat sc div ?B) * 2 ^ 64 +
      (unat sc mod ?B * ?B + unat lp mod ?B)"
    unfolding h [symmetric] low [symmetric] u128_value_def multiplyWide_def Let_def
    unfolding sc_def fc_def lp_def limb_defs by simp
  also have "\<dots> = unat l * unat r"
    unfolding sc fc lp limbs by (rule P(1))
  finally show ?thesis .
qed

lemma u128_ge_value: "u128_ge a b \<longleftrightarrow> u128_value a \<ge> u128_value b"
proof -
  have lo: "unat (u128_low a) < 2 ^ 64" "unat (u128_low b) < 2 ^ 64"
    using unsigned_less [of "u128_low a", where ?'a = nat] unsigned_less [of "u128_low b", where ?'a = nat]
    by simp_all
  have "h * N + l \<ge> h' * N + l' \<longleftrightarrow> h > h' \<or> (h = h' \<and> l \<ge> l')"
    if "l < N" "l' < N" for h h' l l' N :: nat
  proof (cases h h' rule: linorder_cases)
    case less
    then have "Suc h * N \<le> h' * N" by (intro mult_le_mono1) simp
    then show ?thesis using less that by auto
  next
    case greater
    then have "Suc h' * N \<le> h * N" by (intro mult_le_mono1) simp
    then show ?thesis using greater that by auto
  qed simp
  note cmp = this [OF lo]
  show ?thesis
    unfolding u128_ge_def u128_value_def word_less_nat_alt word_le_nat_alt word_unat_eq_iff cmp ..
qed

section \<open>Wide division\<close>

lemma unat_u32_bound: "unat (d :: u32) < 2 ^ 32"
  using unsigned_less [of d, where ?'a = nat] by simp

lemma unat_widen [simp]: "unat (ucast (d :: u32) :: u64) = unat d"
proof -
  have "unat d < 2 ^ 64" using unat_u32_bound [of d] by simp
  then show ?thesis by (simp only: unsigned_ucast_eq) (simp add: take_bit_nat_eq_self)
qed

lemma unat_or_low:
  assumes "unat (a :: u64) < 2 ^ 32"
  shows "unat (push_bit 32 a OR ucast (b :: u32)) = unat a * 2 ^ 32 + unat b"
proof -
  have "push_bit 32 a OR ucast b = push_bit 32 a + (ucast b :: u64)"
  proof (rule disjunctive_add_eq_or [symmetric], rule bit_word_eqI)
    fix n
    show "bit (push_bit 32 a AND (ucast b :: u64)) n = bit 0 n"
      using bit_imp_le_length [of b n] by (auto simp: bit_simps)
  qed
  moreover have "unat (push_bit 32 a + (ucast b :: u64)) = unat a * 2 ^ 32 + unat b"
  proof -
    have p: "unat (push_bit 32 a) = unat a * 2 ^ 32" using assms by (simp add: unat_push32)
    show ?thesis using assms unat_u32_bound [of b] by (subst unat_add64) (simp_all add: p)
  qed
  ultimately show ?thesis by simp
qed

lemma divide_step_value:
  fixes r q :: u64 and d limb :: u32
  assumes r: "unat r < unat d"
  defines "N \<equiv> unat r * 2 ^ 32 + unat limb"
  shows "unat (fst (divide_step d (i, limb) (r, q))) = N mod unat d"
    and "i < 2 \<Longrightarrow> snd (divide_step d (i, limb) (r, q)) = q"
    and "i \<ge> 2 \<Longrightarrow> unat q < 2 ^ 32 \<Longrightarrow>
         unat (snd (divide_step d (i, limb) (r, q))) = unat q * 2 ^ 32 + N div unat d"
    and "N div unat d < 2 ^ 32"
proof -
  have r32: "unat r < 2 ^ 32" using r unat_u32_bound [of d] by linarith
  have p: "unat (push_bit 32 r OR ucast limb) = N"
    unfolding N_def by (rule unat_or_low [OF r32])
  have "Suc (unat r) * 2 ^ 32 \<le> unat d * 2 ^ 32" using r by (intro mult_le_mono1) simp
  then have "unat r * 2 ^ 32 + 2 ^ 32 \<le> 2 ^ 32 * unat d" by simp
  then have "N < 2 ^ 32 * unat d" using unat_u32_bound [of limb] unfolding N_def by linarith
  then show q: "N div unat d < 2 ^ 32" by (rule less_mult_imp_div_less)
  have pq: "unat ((push_bit 32 r OR ucast limb) div (ucast d :: u64)) = N div unat d"
    by (simp only: unat_div_distrib p unat_widen)
  have limb: "unat (ucast ((push_bit 32 r OR ucast limb) div (ucast d :: u64)) :: u32) = N div unat d"
    unfolding unsigned_ucast_eq pq using q by (simp add: take_bit_nat_eq_self)
  show "unat (fst (divide_step d (i, limb) (r, q))) = N mod unat d"
    by (simp only: divide_step_def Let_def prod.case fst_conv unat_mod_distrib p unat_widen)
  show "i < 2 \<Longrightarrow> snd (divide_step d (i, limb) (r, q)) = q"
    by (simp add: divide_step_def Let_def)
  show "unat (snd (divide_step d (i, limb) (r, q))) = unat q * 2 ^ 32 + N div unat d"
    if "i \<ge> 2" "unat q < 2 ^ 32"
    using that(1) unat_or_low [OF that(2)] limb by (simp add: divide_step_def Let_def)
qed

lemma long_division:
  fixes d :: nat
  shows "(r * B + x) div d * B + ((r * B + x) mod d * B + y) div d = ((r * B + x) * B + y) div d"
    and "((r * B + x) mod d * B + y) mod d = ((r * B + x) * B + y) mod d"
proof -
  let ?n = "r * B + x"
  have split: "?n * B + y = (?n mod d * B + y) + d * (?n div d * B)"
  proof -
    have "(d * q + m) * B + y = (m * B + y) + d * (q * B)" for q m by (simp add: algebra_simps)
    from this [of "?n div d" "?n mod d"] show ?thesis unfolding mult_div_mod_eq .
  qed
  show "?n div d * B + (?n mod d * B + y) div d = (?n * B + y) div d"
    unfolding split by (cases "d = 0") simp_all
  show "(?n mod d * B + y) mod d = (?n * B + y) mod d"
    unfolding split by simp
qed

lemma divideWideBy32_value:
  assumes d: "d \<noteq> 0"
  shows "unat (divideWideBy32 w d) =
    (unat (u128_high w) mod unat d * 2 ^ 64 + unat (u128_low w)) div unat d"
proof -
  let ?B = "2 ^ 32 :: nat"
  have d0: "0 < unat d" using d by (simp add: unat_gt_0)
  define l0 l1 l2 l3 :: u32 where
    "l0 = ucast (drop_bit 32 (u128_high w))" "l1 = ucast (u128_high w)"
    "l2 = ucast (drop_bit 32 (u128_low w))" "l3 = ucast (u128_low w)"
  note limb_defs = l0_l1_l2_l3_def
  have halves: "unat (ucast (drop_bit 32 x) :: u32) * ?B + unat (ucast x :: u32) = unat x" for x :: u64
  proof -
    have "unat x div ?B < ?B"
      using unsigned_less [of x, where ?'a = nat] by (intro less_mult_imp_div_less) simp
    then have "unat (ucast (drop_bit 32 x) :: u32) = unat x div ?B"
      by (simp only: unsigned_ucast_eq unat_drop32) (simp add: take_bit_nat_eq_self)
    moreover have "unat (ucast x :: u32) = unat x mod ?B"
      by (simp only: unsigned_ucast_eq) (simp add: take_bit_eq_mod unat_mod_distrib)
    ultimately show ?thesis by (simp only: div_mult_mod_eq)
  qed
  obtain r1 q1 where e1: "divide_step d (0, l0) (0, 0) = (r1, q1)" by fastforce
  obtain r2 q2 where e2: "divide_step d (1, l1) (r1, q1) = (r2, q2)" by fastforce
  obtain r3 q3 where e3: "divide_step d (2, l2) (r2, q2) = (r3, q3)" by fastforce
  obtain r4 q4 where e4: "divide_step d (3, l3) (r3, q3) = (r4, q4)" by fastforce
  have run: "divideWideBy32 w d = q4"
    unfolding divideWideBy32_def Let_def limb_defs [symmetric]
    using e1 e2 e3 e4 by (simp add: numeral_2_eq_2 numeral_3_eq_3)
  have s1: "unat r1 = unat l0 mod unat d" "q1 = 0"
    using divide_step_value(1,2) [where r = 0 and d = d and limb = l0 and i = 0 and q = 0] d0 e1
    by simp_all
  have s2: "unat r2 = (unat r1 * ?B + unat l1) mod unat d" "q2 = 0"
    using divide_step_value(1,2) [where r = r1 and d = d and limb = l1 and i = 1 and q = q1] d0 e2 s1
    by simp_all
  have "unat r2 < unat d" using s2 d0 by simp
  note C = divide_step_value(1,3) [OF this, where limb = l2 and i = 2 and q = q2]
  have s3: "unat r3 = (unat r2 * ?B + unat l2) mod unat d"
      "unat q3 = (unat r2 * ?B + unat l2) div unat d" "unat q3 < ?B"
    using C divide_step_value(4) [OF \<open>unat r2 < unat d\<close>, of l2] e3 s2(2)
    by simp_all
  have "unat q4 = unat q3 * ?B + (unat r3 * ?B + unat l3) div unat d"
    using divide_step_value(3) [where r = r3 and d = d and limb = l3 and i = 3 and q = q3] d0 e4 s3
    by simp
  also have "\<dots> = ((unat r2 * ?B + unat l2) * ?B + unat l3) div unat d"
    unfolding s3(1,2) by (rule long_division(1))
  also have "(unat r2 * ?B + unat l2) * ?B + unat l3 = unat r2 * 2 ^ 64 + unat (u128_low w)"
    using halves [of "u128_low w"] unfolding limb_defs by (simp add: algebra_simps)
  also have "unat r2 = unat (u128_high w) mod unat d"
    unfolding s2(1) s1(1) using long_division(2) [of 0 ?B "unat l0" "unat d" "unat l1"]
      halves [of "u128_high w"] unfolding limb_defs by simp
  finally show ?thesis unfolding run .
qed

lemma divideWideBy32_exact:
  assumes "d \<noteq> 0" and "u128_value w < 2 ^ 64 * unat d"
  shows "unat (divideWideBy32 w d) = u128_value w div unat d"
proof -
  have "unat (u128_high w) * 2 ^ 64 < unat d * 2 ^ 64"
    using assms(2) le_less_trans [OF le_add1] unfolding u128_value_def by (simp only: mult.commute)
  then have "unat (u128_high w) < unat d" by simp
  then show ?thesis unfolding divideWideBy32_value [OF assms(1)] u128_value_def by simp
qed

section \<open>Binary search for the least multiple\<close>

declare least_multiple.simps [simp del]

lemma least_multiple_spec:
  assumes "first \<le> final" and "u128_value product \<le> unat final * unat factor"
  shows "first \<le> least_multiple factor product first final \<and>
    u128_value product \<le> unat (least_multiple factor product first final) * unat factor \<and>
    (\<forall>m \<ge> unat first. u128_value product \<le> m * unat factor \<longrightarrow>
       unat (least_multiple factor product first final) \<le> m)"
  using assms
proof (induction factor product first final rule: least_multiple.induct)
  case (1 factor product first final)
  show ?case
  proof (cases "first < final")
    case False
    then have "least_multiple factor product first final = first"
      by (subst least_multiple.simps) simp
    moreover have "first = final" using False 1(3) by simp
    ultimately show ?thesis using 1(4) by simp
  next
    case True
    define middle where "middle = first + (final - first) div 2"
    have mid: "unat middle = unat first + (unat final - unat first) div 2"
      unfolding middle_def by (rule search_middle [OF True])
    have lt: "unat first \<le> unat middle" "unat middle < unat final"
      using mid True by (auto simp: word_less_nat_alt)
    have suc: "unat (middle + 1) = Suc (unat middle)"
      using lt(2) unsigned_less [of final, where ?'a = nat] by (simp add: unat_word_ariths(1))
    show ?thesis
    proof (cases "u128_ge (multiplyWide middle factor) product")
      case ge: True
      then have "u128_value product \<le> unat middle * unat factor"
        by (simp add: u128_ge_value multiplyWide_value)
      then show ?thesis
        using 1(1) [OF True middle_def ge] ge True lt
        by (simp add: least_multiple.simps [of _ _ first] middle_def [symmetric] Let_def word_le_nat_alt)
    next
      case less: False
      then have big: "unat middle * unat factor < u128_value product"
        by (simp add: u128_ge_value multiplyWide_value)
      have step: "least_multiple factor product first final = least_multiple factor product (middle + 1) final"
        using less True by (simp add: least_multiple.simps [of _ _ first] middle_def [symmetric] Let_def)
      have IH: "middle + 1 \<le> least_multiple factor product (middle + 1) final \<and>
          u128_value product \<le> unat (least_multiple factor product (middle + 1) final) * unat factor \<and>
          (\<forall>m \<ge> unat (middle + 1). u128_value product \<le> m * unat factor \<longrightarrow>
             unat (least_multiple factor product (middle + 1) final) \<le> m)"
        by (rule 1(2) [OF True middle_def less]) (use suc lt 1(4) in \<open>simp_all add: word_le_nat_alt\<close>)
      have "Suc (unat middle) \<le> m" if "u128_value product \<le> m * unat factor" for m
      proof (rule ccontr)
        assume "\<not> Suc (unat middle) \<le> m"
        then have "m * unat factor \<le> unat middle * unat factor" by (intro mult_le_mono1) simp
        then show False using that big by linarith
      qed
      then show ?thesis
        using IH suc lt unfolding step by (auto simp: word_le_nat_alt)
    qed
  qed
qed

definition ceil_div :: "nat \<Rightarrow> nat \<Rightarrow> nat" where
  "ceil_div a b = (a + b - 1) div b"

lemma ceil_div_le_iff: "0 < b \<Longrightarrow> ceil_div a b \<le> m \<longleftrightarrow> a \<le> m * b"
proof -
  assume b: "0 < b"
  have "ceil_div a b \<le> m \<longleftrightarrow> (a + b - 1) div b < Suc m" by (simp add: ceil_div_def less_Suc_eq_le)
  also have "\<dots> \<longleftrightarrow> a + b - 1 < Suc m * b" using b by (simp add: div_less_iff_less_mult)
  also have "\<dots> \<longleftrightarrow> a \<le> m * b" using b by auto
  finally show ?thesis .
qed

lemma least_multiple_ceil:
  assumes "first \<le> final" and "u128_value product \<le> unat final * unat factor" and "0 < unat factor"
    and "unat first \<le> ceil_div (u128_value product) (unat factor)"
  shows "unat (least_multiple factor product first final) = ceil_div (u128_value product) (unat factor)"
proof (rule antisym)
  note spec = least_multiple_spec [OF assms(1,2)]
  have "u128_value product \<le> ceil_div (u128_value product) (unat factor) * unat factor"
    using ceil_div_le_iff [OF assms(3)] by blast
  then show "unat (least_multiple factor product first final) \<le> ceil_div (u128_value product) (unat factor)"
    using spec assms(4) by blast
  show "ceil_div (u128_value product) (unat factor) \<le> unat (least_multiple factor product first final)"
    using spec ceil_div_le_iff [OF assms(3)] by blast
qed

lemma ceilScale_ok:
  "ceilScale v n d =
     (if n = 0 \<or> d = 0 \<or> ceil_div (unat v * unat n) (unat d) \<ge> 2 ^ 64 then Inl InvalidArgument
      else Inr (of_nat (ceil_div (unat v * unat n) (unat d))))"
proof (cases "n = 0 \<or> d = 0")
  case True
  then show ?thesis by (auto simp: ceilScale_def)
next
  case False
  then have d: "0 < unat d" by (simp add: unat_gt_0)
  have max: "unat (- 1 :: u64) = 2 ^ 64 - 1" by (simp add: unsigned_minus_1_eq_mask mask_eq_exp_minus_1)
  have guard: "u128_ge (multiplyWide (- 1) d) (multiplyWide v n) \<longleftrightarrow>
      ceil_div (unat v * unat n) (unat d) < 2 ^ 64"
    unfolding u128_ge_value multiplyWide_value max ceil_div_le_iff [OF d, symmetric]
    by (simp add: less_Suc_eq_le [symmetric])
  have search: "least_multiple d (multiplyWide v n) 0 (- 1) = of_nat (ceil_div (unat v * unat n) (unat d))"
    if "ceil_div (unat v * unat n) (unat d) < 2 ^ 64"
  proof -
    have "unat (least_multiple d (multiplyWide v n) 0 (- 1)) = ceil_div (u128_value (multiplyWide v n)) (unat d)"
      by (rule least_multiple_ceil)
        (use guard that d in \<open>simp_all add: u128_ge_value multiplyWide_value [of "- 1"]\<close>)
    then show ?thesis
      using that by (simp add: word_unat_eq_iff unat_of_nat multiplyWide_value)
  qed
  show ?thesis using False guard search by (auto simp: ceilScale_def Let_def not_le)
qed

lemma checked_add_ok:
  "checked_add a b =
     (if unat a + unat b \<ge> 2 ^ 64 then Inl InvalidArgument else Inr (of_nat (unat a + unat b)))"
proof -
  have "unat (- 1 - a) = 2 ^ 64 - 1 - unat a"
    by (subst unat_sub) (simp_all add: unsigned_minus_1_eq_mask mask_eq_exp_minus_1)
  then have "- 1 - a < b \<longleftrightarrow> unat a + unat b \<ge> 2 ^ 64"
    using unsigned_less [of a, where ?'a = nat] by (simp add: word_less_nat_alt) linarith
  then show ?thesis by (simp add: checked_add_def)
qed

lemma checked_add_of_nat:
  "a < 2 ^ 64 \<Longrightarrow> b < 2 ^ 64 \<Longrightarrow>
     checked_add (of_nat a) (of_nat b) =
       (if a + b \<ge> 2 ^ 64 then Inl InvalidArgument else Inr (of_nat (a + b)))"
  by (simp add: checked_add_ok unat_of_nat)

lemma checked_multiply_ok:
  "checked_multiply a b =
     (if unat a * unat b \<ge> 2 ^ 64 then Inl InvalidArgument else Inr (of_nat (unat a * unat b)))"
proof (cases "a = 0")
  case False
  then have a: "0 < unat a" by (simp add: unat_gt_0)
  have "unat (- 1 div a) = (2 ^ 64 - 1) div unat a"
    by (simp only: unat_div_distrib) (simp add: unsigned_minus_1_eq_mask mask_eq_exp_minus_1)
  then have "- 1 div a < b \<longleftrightarrow> (2 ^ 64 - 1) div unat a < unat b"
    by (simp add: word_less_nat_alt)
  also have "\<dots> \<longleftrightarrow> unat a * unat b \<ge> 2 ^ 64"
    using div_less_iff_less_mult [OF a, of "2 ^ 64 - 1" "unat b"] by (auto simp: mult.commute)
  finally show ?thesis using False by (simp add: checked_multiply_def)
qed (simp add: checked_multiply_def)

lemma ceil_div_split: "0 < b \<Longrightarrow> ceil_div (q * b + r) b = q + ceil_div r b"
proof -
  assume b: "0 < b"
  then have "q * b + r + b - 1 = (r + b - 1) + q * b" by simp
  then show ?thesis using b unfolding ceil_div_def by (simp only: div_mult_self1)
qed

text \<open>
  Scaling rounds up exactly: for every 64-bit value and ratio the binary search over 128-bit
  products returns the ceiling of the rational quotient when it fits into 64 bits and fails
  otherwise.
\<close>

theorem ceilScale_exact:
  "ceilScale v n d =
     (if n = 0 \<or> d = 0 \<or> ceil_div (unat v * unat n) (unat d) \<ge> 2 ^ 64 then Inl InvalidArgument
      else Inr (of_nat (ceil_div (unat v * unat n) (unat d))))"
  by (rule ceilScale_ok)

text \<open>
  The byte budget for a residence time is the exact ceiling of rate times duration over one
  second: splitting the duration into whole seconds and a remainder loses nothing and the function
  fails only when the result itself does not fit into 64 bits.
\<close>

theorem bytesForResidence_exact:
  assumes "in_int64 ns"
  shows "bytesForResidence rate ns =
     (if rate = 0 \<or> ns \<le> 0 \<or> ceil_div (unat rate * nat ns) (10 ^ 9) \<ge> 2 ^ 64
      then Inl InvalidArgument
      else Inr (of_nat (ceil_div (unat rate * nat ns) (10 ^ 9))))"
proof (cases "rate = 0 \<or> ns \<le> 0")
  case True
  then show ?thesis by (auto simp: bytesForResidence_def)
next
  case False
  let ?n = "word_of_int ns :: u64"
  define s r where "s = nat ns div 10 ^ 9" and "r = nat ns mod 10 ^ 9"
  have n: "unat ?n = nat ns"
    using False assms by (simp add: unat_of_int64 in_int64_def INT64_MAX_def)
  have N: "unat NanosecondsPerSecond = 10 ^ 9" by (simp add: NanosecondsPerSecond_def)
  have parts: "unat (?n div NanosecondsPerSecond) = s" "unat (?n mod NanosecondsPerSecond) = r"
    unfolding s_def r_def by (simp_all only: unat_div_distrib unat_mod_distrib n N)
  have "nat ns = s * 10 ^ 9 + r" unfolding s_def r_def by (simp only: div_mult_mod_eq)
  then have total: "unat rate * nat ns = (unat rate * s) * 10 ^ 9 + unat rate * r"
    by (simp add: algebra_simps)
  have goal: "ceil_div (unat rate * nat ns) (10 ^ 9) = unat rate * s + ceil_div (unat rate * r) (10 ^ 9)"
    unfolding total by (rule ceil_div_split) simp
  have frac: "ceil_div (unat rate * r) (10 ^ 9) < 2 ^ 64"
  proof -
    have "unat rate * r \<le> unat rate * 10 ^ 9" unfolding r_def by (intro mult_le_mono2) simp
    then have "ceil_div (unat rate * r) (10 ^ 9) \<le> unat rate" by (subst ceil_div_le_iff) simp_all
    then show ?thesis using unsigned_less [of rate, where ?'a = nat] by simp
  qed
  have r0: "?n mod NanosecondsPerSecond = 0 \<longleftrightarrow> r = 0"
    using parts(2) by (simp add: word_unat_eq_iff)
  show ?thesis
  proof (cases "r = 0")
    case True
    then have "bytesForResidence rate ns = checked_multiply rate (?n div NanosecondsPerSecond)"
      using False r0 by (simp add: bytesForResidence_def Let_def)
    moreover have "ceil_div 0 (10 ^ 9) = 0" by (simp add: ceil_div_def)
    ultimately show ?thesis using False True unfolding goal checked_multiply_ok parts by simp
  next
    case nz: False
    have "ceilScale rate (?n mod NanosecondsPerSecond) NanosecondsPerSecond =
        Inr (of_nat (ceil_div (unat rate * r) (10 ^ 9)))"
      using frac nz r0 N unfolding ceilScale_ok parts N by (auto simp: NanosecondsPerSecond_def)
    then have "bytesForResidence rate ns =
        (if unat rate * s \<ge> 2 ^ 64 then Inl InvalidArgument
         else checked_add (of_nat (unat rate * s)) (of_nat (ceil_div (unat rate * r) (10 ^ 9))))"
      using False nz r0 by (simp add: bytesForResidence_def Let_def checked_multiply_ok parts)
    then show ?thesis
      using False checked_add_of_nat [OF _ frac, of "unat rate * s"] unfolding goal
      by (auto simp: not_le simp del: of_nat_add of_nat_mult)
  qed
qed

theorem bytesForResidence_exact_witness:
  "in_int64 1500000000 \<and> bytesForResidence 1001 1500000000 = Inr 1502"
  using bytesForResidence_exact [of 1500000000 1001] by (simp add: in_int64_def INT64_MIN_def INT64_MAX_def ceil_div_def)

text \<open>
  The duration of a byte count at a rate is the exact ceiling in nanoseconds; the function
  fails only for zero arguments and when that ceiling exceeds the signed 64-bit range.
\<close>

theorem ceilDurationNanoseconds_exact:
  "ceilDurationNanoseconds bytes rate =
     (if bytes = 0 \<or> rate = 0 \<or> int (ceil_div (unat bytes * 10 ^ 9) (unat rate)) > INT64_MAX
      then Inl InvalidArgument
      else Inr (int (ceil_div (unat bytes * 10 ^ 9) (unat rate))))"
proof (cases "bytes = 0 \<or> rate = 0")
  case True
  then show ?thesis by (auto simp: ceilDurationNanoseconds_def)
next
  case False
  let ?c = "ceil_div (unat bytes * 10 ^ 9) (unat rate)"
  let ?w = "multiplyWide bytes NanosecondsPerSecond"
  have r: "0 < unat rate" and b: "0 < unat bytes" using False by (simp_all add: unat_gt_0)
  have N: "unat NanosecondsPerSecond = 10 ^ 9" by (simp add: NanosecondsPerSecond_def)
  have w: "u128_value ?w = unat bytes * 10 ^ 9" unfolding multiplyWide_value N ..
  have mx: "unat (word_of_int INT64_MAX :: u64) = nat INT64_MAX"
    by (simp add: unat_of_int64 INT64_MAX_def)
  have guard: "u128_ge (multiplyWide (word_of_int INT64_MAX) rate) ?w \<longleftrightarrow> ?c \<le> nat INT64_MAX"
    unfolding u128_ge_value w multiplyWide_value [of "word_of_int INT64_MAX"] mx ceil_div_le_iff [OF r] ..
  have c1: "1 \<le> ?c"
  proof (rule ccontr)
    assume "\<not> 1 \<le> ?c"
    then have "?c \<le> 0" by simp
    then show False using b unfolding ceil_div_le_iff [OF r] by simp
  qed
  have "sint (least_multiple rate ?w 1 (word_of_int INT64_MAX)) = int ?c" if c: "?c \<le> nat INT64_MAX"
  proof -
    have "unat (least_multiple rate ?w 1 (word_of_int INT64_MAX)) = ?c"
      unfolding w [symmetric]
    proof (rule least_multiple_ceil)
      show "1 \<le> (word_of_int INT64_MAX :: u64)" by (simp add: word_le_nat_alt mx INT64_MAX_def)
      show "u128_value ?w \<le> unat (word_of_int INT64_MAX :: u64) * unat rate"
        using guard c unfolding u128_ge_value multiplyWide_value [of "word_of_int INT64_MAX"] by blast
    qed (use r c1 w in simp_all)
    then have "uint (least_multiple rate ?w 1 (word_of_int INT64_MAX)) = int ?c"
      by (metis of_nat_unat)
    moreover have "int ?c < 2 ^ 63" using c by (simp add: INT64_MAX_def)
    ultimately show ?thesis by (simp add: sint_uint signed_take_bit_int_eq_self)
  qed
  moreover have "?c \<le> nat INT64_MAX \<longleftrightarrow> int ?c \<le> INT64_MAX" by (simp add: INT64_MAX_def)
  ultimately show ?thesis
    using False guard unfolding ceilDurationNanoseconds_def Let_def by (auto simp: not_le)
qed

end
