(* ===== verification/Running_Time.thy ===== *)
theory Running_Time
  imports Checked_Arithmetic
begin

text \<open>
  \<^verbatim>\<open>time/MediaRunningTime.h\<close>, \<^verbatim>\<open>time/MediaNtpTimestamp.h\<close> and \<^verbatim>\<open>time/MediaSharedNtpEpoch\<close>: the
  nanosecond running time, its checked arithmetic, and the projection of running times onto the NTP
  wall clock. A signed 64-bit nanosecond count is an integer; each function states the test the
  code makes before it computes, and the theorems show that the results stay in range.
\<close>

section \<open>Definitions\<close>

type_synonym MediaRunningTime = int

definition INT32_MAX :: int where
  "INT32_MAX = 2147483647"

definition checkedFromTicks :: "int \<Rightarrow> int \<Rightarrow> int \<Rightarrow> MediaRunningTime Result" where
  "checkedFromTicks ticks timeBaseNumerator timeBaseDenominator =
     (if timeBaseNumerator \<le> 0 \<or> timeBaseDenominator \<le> 0 then failure InvalidArgument
      else
        (let magnitude = (if ticks \<ge> 0 then word_of_int ticks else word_of_int (- (ticks + 1)) + 1);
             maximumMagnitude = (if ticks \<ge> 0 then word_of_int INT64_MAX else push_bit 63 1);
             nanosecondsPerSecond = 1000000000;
             scale = word_of_int timeBaseNumerator * nanosecondsPerSecond;
             scaledTicks = multiplyWide magnitude scale;
             firstOverflowValue = multiplyWide (maximumMagnitude + 1) (word_of_int timeBaseDenominator)
         in if u128_ge scaledTicks firstOverflowValue then failure InvalidArgument
            else
              (let rescaledMagnitude = divideWideBy32 scaledTicks (word_of_int timeBaseDenominator)
               in success
                    (if ticks \<ge> 0 then sint rescaledMagnitude
                     else if rescaledMagnitude = push_bit 63 1 then INT64_MIN
                     else - sint rescaledMagnitude))))"

definition checkedAdd :: "MediaRunningTime \<Rightarrow> MediaRunningTime \<Rightarrow> MediaRunningTime Result" where
  "checkedAdd this other =
     (if (other > 0 \<and> this > INT64_MAX - other) \<or> (other < 0 \<and> this < INT64_MIN - other)
      then failure InvalidArgument else success (this + other))"

definition checkedSubtract :: "MediaRunningTime \<Rightarrow> MediaRunningTime \<Rightarrow> MediaRunningTime Result" where
  "checkedSubtract this other =
     (if (other > 0 \<and> this < INT64_MIN + other) \<or> (other < 0 \<and> this > INT64_MAX + other)
      then failure InvalidArgument else success (this - other))"

record MediaNtpWireTimestamp =
  wire_seconds :: u32
  wire_fraction :: u32

record MediaNtpTimestamp =
  ntp_seconds :: u64
  ntp_fraction :: u32

definition wire :: "MediaNtpTimestamp \<Rightarrow> MediaNtpWireTimestamp" where
  "wire t = \<lparr>wire_seconds = ucast (ntp_seconds t), wire_fraction = ntp_fraction t\<rparr>"

text \<open>C++ division and remainder truncate toward zero.\<close>

definition tdiv :: "int \<Rightarrow> int \<Rightarrow> int" where
  "tdiv a b = sgn a * sgn b * (\<bar>a\<bar> div \<bar>b\<bar>)"

definition tmod :: "int \<Rightarrow> int \<Rightarrow> int" where
  "tmod a b = a - tdiv a b * b"

definition NANOS :: int where
  "NANOS = 1000000000"

definition UnixToNtpSeconds :: int where
  "UnixToNtpSeconds = 2208988800"

definition NtpFractionScale :: u64 where
  "NtpFractionScale = push_bit 32 1"

record MediaSharedNtpEpoch =
  m_masterAtCapture :: MediaRunningTime
  m_unixNanosecondsAtCapture :: int

definition fromUnixNanoseconds :: "int \<Rightarrow> MediaNtpTimestamp Result" where
  "fromUnixNanoseconds unixNanoseconds =
     (let unixSeconds = tdiv unixNanoseconds NANOS;
          remainder = tmod unixNanoseconds NANOS;
          (unixSeconds, remainder) =
            (if remainder < 0 then (unixSeconds - 1, remainder + NANOS) else (unixSeconds, remainder))
      in if unixSeconds < - UnixToNtpSeconds then failure InvalidArgument
         else success \<lparr>ntp_seconds = word_of_int (unixSeconds + UnixToNtpSeconds),
                       ntp_fraction = ucast ((word_of_int remainder * NtpFractionScale) div
                                             (word_of_int NANOS :: u64))\<rparr>)"

definition ntpEpoch_create :: "MediaRunningTime \<Rightarrow> int \<Rightarrow> MediaSharedNtpEpoch Result" where
  "ntpEpoch_create masterAtCapture unixTimeAtCapture =
     (case fromUnixNanoseconds unixTimeAtCapture of
        Inl e \<Rightarrow> failure e
      | Inr _ \<Rightarrow> success \<lparr>m_masterAtCapture = masterAtCapture,
                          m_unixNanosecondsAtCapture = unixTimeAtCapture\<rparr>)"

definition ntpEpoch_map :: "MediaSharedNtpEpoch \<Rightarrow> MediaRunningTime \<Rightarrow> MediaNtpTimestamp Result" where
  "ntpEpoch_map epoch masterTime =
     (case checkedSubtract masterTime (m_masterAtCapture epoch) of
        Inl _ \<Rightarrow> failure InvalidArgument
      | Inr offset \<Rightarrow>
          (if (offset > 0 \<and> m_unixNanosecondsAtCapture epoch > INT64_MAX - offset) \<or>
              (offset < 0 \<and> m_unixNanosecondsAtCapture epoch < INT64_MIN - offset)
           then failure InvalidArgument
           else fromUnixNanoseconds (m_unixNanosecondsAtCapture epoch + offset)))"

section \<open>Checked running-time arithmetic\<close>

text \<open>
  Checked addition and subtraction of running times are exact: for operands in the signed
  64-bit range they return the mathematical result when it is in the range and fail otherwise.
\<close>

theorem checked_running_time_exact:
  assumes "in_int64 a" and "in_int64 b"
  shows "checkedAdd a b = (if in_int64 (a + b) then Inr (a + b) else Inl InvalidArgument) \<and>
         checkedSubtract a b = (if in_int64 (a - b) then Inr (a - b) else Inl InvalidArgument)"
  using assms unfolding checkedAdd_def checkedSubtract_def in_int64_def by auto

theorem checked_running_time_exact_witness:
  "in_int64 INT64_MAX \<and> in_int64 1 \<and> checkedAdd INT64_MAX 1 = Inl InvalidArgument \<and>
   checkedSubtract INT64_MAX 1 = Inr 9223372036854775806"
  using checked_running_time_exact [of INT64_MAX 1]
  by (simp add: in_int64_def INT64_MIN_def INT64_MAX_def)

section \<open>Rescaling ticks\<close>

text \<open>The truncated rational value of \<open>ticks * num / den\<close> seconds in nanoseconds.\<close>

definition ticks_to_nanoseconds :: "int \<Rightarrow> int \<Rightarrow> int \<Rightarrow> int" where
  "ticks_to_nanoseconds ticks num den = tdiv (ticks * num * 10 ^ 9) den"

lemma sint_small: "unat (w :: u64) < 2 ^ 63 \<Longrightarrow> sint w = int (unat w)"
proof -
  assume a: "unat w < 2 ^ 63"
  have u: "uint w = int (unat w)" by (metis of_nat_unat)
  have "int (unat w) < int (2 ^ 63)" using a by (simp only: of_nat_less_iff)
  then have "uint w < 2 ^ 63" unfolding u [symmetric] by simp
  moreover have "- (2 ^ 63) \<le> uint w" by (rule order_trans [OF _ uint_ge_0]) simp
  ultimately have "sint w = uint w" by (simp add: sint_uint signed_take_bit_int_eq_self)
  then show ?thesis unfolding u .
qed

lemma rescale_core:
  assumes sc: "unat scale = s" and dn: "unat (den64 :: u64) = unat (den32 :: u32)" and d: "den32 \<noteq> 0"
    and mx: "unat mx1 \<le> 2 ^ 63 + 1"
  shows "u128_ge (multiplyWide mag scale) (multiplyWide mx1 den64) \<longleftrightarrow>
           unat mag * s div unat den32 \<ge> unat mx1" (is ?g)
    and "\<not> u128_ge (multiplyWide mag scale) (multiplyWide mx1 den64) \<Longrightarrow>
           unat (divideWideBy32 (multiplyWide mag scale) den32) = unat mag * s div unat den32"
proof -
  have d0: "0 < unat den32" using d by (simp add: unat_gt_0)
  have ge: "u128_ge (multiplyWide mag scale) (multiplyWide mx1 den64) \<longleftrightarrow> unat mag * s \<ge> unat mx1 * unat den32"
    unfolding u128_ge_value multiplyWide_value sc dn ..
  then show ?g using d0 by (simp add: less_eq_div_iff_mult_less_eq)
  assume "\<not> u128_ge (multiplyWide mag scale) (multiplyWide mx1 den64)"
  then have "unat mag * s < unat mx1 * unat den32" using ge by simp
  moreover have "unat mx1 * unat den32 \<le> 2 ^ 64 * unat den32" using mx by (intro mult_le_mono1) simp
  ultimately have "u128_value (multiplyWide mag scale) < 2 ^ 64 * unat den32"
    unfolding multiplyWide_value sc by linarith
  from divideWideBy32_exact [OF d this]
  show "unat (divideWideBy32 (multiplyWide mag scale) den32) = unat mag * s div unat den32"
    unfolding multiplyWide_value sc .
qed

text \<open>
  Rescaling protocol ticks to nanoseconds is exact: for a positive time base the result is the
  rational value truncated toward zero whenever that lies in the signed 64-bit range, and a failure
  otherwise; no intermediate product overflows.
\<close>

theorem checkedFromTicks_exact:
  assumes "in_int64 ticks" and "num \<le> INT32_MAX" and "den \<le> INT32_MAX"
  shows "checkedFromTicks ticks num den =
    (if num > 0 \<and> den > 0 \<and> in_int64 (ticks_to_nanoseconds ticks num den)
     then Inr (ticks_to_nanoseconds ticks num den) else Inl InvalidArgument)"
proof (cases "num > 0 \<and> den > 0")
  case False
  then show ?thesis by (auto simp: checkedFromTicks_def)
next
  case True
  let ?s = "nat num * 10 ^ 9" and ?mag = "nat \<bar>ticks\<bar>"
  define q where "q = ?mag * ?s div nat den"
  have scale: "unat (word_of_int num * 1000000000 :: u64) = ?s"
  proof -
    have "unat (word_of_int num :: u64) = nat num" using True assms(2) by (simp add: unat_of_int64 INT32_MAX_def)
    then show ?thesis using assms(2) by (subst unat_mult64) (simp_all add: INT32_MAX_def)
  qed
  have d32: "unat (word_of_int den :: u32) = nat den"
    using True assms(3) by (simp add: unat_eq_nat_uint uint_word_of_int INT32_MAX_def)
  have d64: "unat (word_of_int den :: u64) = unat (word_of_int den :: u32)"
    unfolding d32 using True assms(3) by (simp add: unat_of_int64 INT32_MAX_def)
  have dz: "(word_of_int den :: u32) \<noteq> 0" using d32 True by (metis nat_0_iff not_less unat_0)
  have val: "ticks_to_nanoseconds ticks num den = (if ticks \<ge> 0 then int q else - int q)"
  proof -
    have "int q = \<bar>ticks\<bar> * (num * 10 ^ 9) div den" using True by (simp add: q_def zdiv_int)
    moreover have "\<bar>ticks * num * 10 ^ 9\<bar> = \<bar>ticks\<bar> * (num * 10 ^ 9)" using True by (simp add: abs_mult)
    moreover have "sgn (ticks * num * 10 ^ 9) = sgn ticks" and "sgn den = 1" "\<bar>den\<bar> = den"
      using True by (simp_all add: sgn_mult)
    ultimately have "ticks_to_nanoseconds ticks num den = sgn ticks * int q"
      unfolding ticks_to_nanoseconds_def tdiv_def by (simp only: mult_1_right)
    then show ?thesis by (cases ticks "0 :: int" rule: linorder_cases) (simp_all add: q_def)
  qed
  show ?thesis
  proof (cases "ticks \<ge> 0")
    case pos: True
    have mag: "unat (word_of_int ticks :: u64) = ?mag"
      using pos assms(1) by (simp add: unat_of_int64 in_int64_def INT64_MAX_def)
    have mx: "unat (word_of_int INT64_MAX + 1 :: u64) = 2 ^ 63" by (simp add: INT64_MAX_def)
    note core = rescale_core [OF scale d64 dz, of "word_of_int INT64_MAX + 1" "word_of_int ticks",
        unfolded mx mag d32, folded q_def]
    show ?thesis
      unfolding checkedFromTicks_def val using True pos core sint_small
      by (auto simp: Let_def in_int64_def INT64_MIN_def INT64_MAX_def)
  next
    case neg: False
    have mag: "unat (word_of_int (- (ticks + 1)) + 1 :: u64) = ?mag"
    proof -
      have "word_of_int (- (ticks + 1)) + 1 = (word_of_int (- ticks) :: u64)" by simp
      moreover have "unat (word_of_int (- ticks) :: u64) = nat (- ticks)"
        by (rule unat_of_int64) (use neg assms(1) in \<open>simp_all add: in_int64_def INT64_MIN_def\<close>)
      ultimately show ?thesis using neg by simp
    qed
    have mx: "unat (push_bit 63 1 + 1 :: u64) = 2 ^ 63 + 1" by simp
    note core = rescale_core [OF scale d64 dz, of "push_bit 63 1 + 1" "word_of_int (- (ticks + 1)) + 1",
        unfolded mx mag d32, folded q_def]
    have top: "rescaled = push_bit 63 1 \<longleftrightarrow> unat rescaled = 2 ^ 63" for rescaled :: u64
      by (simp add: word_unat_eq_iff)
    show ?thesis
      unfolding checkedFromTicks_def val top using True neg core sint_small
      by (auto simp: Let_def in_int64_def INT64_MIN_def INT64_MAX_def)
  qed
qed

theorem checkedFromTicks_exact_witness:
  "checkedFromTicks (- 90001) 1 90000 = Inr (- 1000011111)"
  using checkedFromTicks_exact [of "- 90001" 1 90000]
  by (simp add: in_int64_def INT64_MIN_def INT64_MAX_def INT32_MAX_def ticks_to_nanoseconds_def tdiv_def)

section \<open>The shared NTP epoch\<close>

lemma tdiv_tmod_floor:
  assumes "0 < b"
  shows "(if tmod a b < 0 then (tdiv a b - 1, tmod a b + b) else (tdiv a b, tmod a b)) = (a div b, a mod b)"
proof (cases "a \<ge> 0")
  case True
  then have "tdiv a b = a div b" using assms by (cases "a = 0") (simp_all add: tdiv_def)
  then show ?thesis using assms by (simp add: tmod_def minus_div_mult_eq_mod not_less)
next
  case False
  then have q: "tdiv a b = - (- a div b)" using assms by (simp add: tdiv_def)
  have e: "- a div b * b + - a mod b = - a" by (rule div_mult_mod_eq)
  have "X * b + m = - a \<Longrightarrow> a - (- X) * b = - m" for X m by (simp add: algebra_simps)
  from this [OF e] have m: "tmod a b = - (- a mod b)" unfolding tmod_def q .
  show ?thesis
  proof (cases "- a mod b = 0")
    case True
    then have "b dvd a" by (simp add: dvd_eq_mod_eq_0 [symmetric])
    then show ?thesis using True q m assms by (auto simp: dvd_neg_div)
  next
    case nz: False
    then have pos: "- a mod b > 0" using assms by (simp add: order_less_le)
    have "X * b + m = - a \<Longrightarrow> a = b * (- X - 1) + (b - m)" for X m by (simp add: algebra_simps)
    note eq = this [OF e]
    have range: "0 \<le> b - - a mod b" "b - - a mod b < b"
      using pos assms pos_mod_bound [OF assms, of "- a"] by simp_all
    have "a div b = - (- a div b) - 1" "a mod b = b - - a mod b"
      by (rule int_div_pos_eq [OF eq range], rule int_mod_pos_eq [OF eq range])
    then show ?thesis using pos q m by simp
  qed
qed

definition ntp_value :: "MediaNtpTimestamp \<Rightarrow> int" where
  "ntp_value t = int (unat (ntp_seconds t)) * 2 ^ 32 + int (unat (ntp_fraction t))"

lemma fromUnixNanoseconds_floor:
  "fromUnixNanoseconds u =
     (if u div NANOS < - UnixToNtpSeconds then failure InvalidArgument
      else success \<lparr>ntp_seconds = word_of_int (u div NANOS + UnixToNtpSeconds),
                    ntp_fraction = ucast ((word_of_int (u mod NANOS) * NtpFractionScale) div
                                          (word_of_int NANOS :: u64))\<rparr>)"
proof -
  have "0 < NANOS" by (simp add: NANOS_def)
  from tdiv_tmod_floor [OF this, of u] show ?thesis unfolding fromUnixNanoseconds_def Let_def by simp
qed

lemma ntp_fraction_value:
  assumes "0 \<le> r" and "r < NANOS"
  shows "int (unat (ucast ((word_of_int r * NtpFractionScale) div (word_of_int NANOS :: u64)) :: u32)) =
    r * 2 ^ 32 div NANOS"
proof -
  have r: "unat (word_of_int r :: u64) = nat r"
    using assms by (simp add: unat_of_int64 NANOS_def)
  have s: "unat NtpFractionScale = 2 ^ 32" by (simp add: NtpFractionScale_def)
  have p: "unat (word_of_int r * NtpFractionScale) = nat r * 2 ^ 32"
    using assms unfolding r [symmetric] s [symmetric] by (intro unat_mult64) (simp add: r s NANOS_def)
  have n: "unat (word_of_int NANOS :: u64) = nat NANOS" by (simp add: NANOS_def)
  have q: "unat ((word_of_int r * NtpFractionScale) div (word_of_int NANOS :: u64)) = nat r * 2 ^ 32 div nat NANOS"
    by (simp only: unat_div_distrib p n)
  have "nat r * 2 ^ 32 < 2 ^ 32 * nat NANOS" using assms by (simp add: NANOS_def)
  then have "nat r * 2 ^ 32 div nat NANOS < 2 ^ 32" by (rule less_mult_imp_div_less)
  then have "unat (ucast ((word_of_int r * NtpFractionScale) div (word_of_int NANOS :: u64)) :: u32) =
      nat r * 2 ^ 32 div nat NANOS"
    unfolding unsigned_ucast_eq q by (simp add: take_bit_nat_eq_self)
  then show ?thesis using assms by (simp add: zdiv_int NANOS_def)
qed

lemma fromUnixNanoseconds_value:
  assumes "in_int64 u" and "fromUnixNanoseconds u = Inr t"
  shows "ntp_value t = (u + UnixToNtpSeconds * NANOS) * 2 ^ 32 div NANOS"
proof -
  have N: "0 < NANOS" by (simp add: NANOS_def)
  have sec: "- UnixToNtpSeconds \<le> u div NANOS"
    and t: "t = \<lparr>ntp_seconds = word_of_int (u div NANOS + UnixToNtpSeconds),
                    ntp_fraction = ucast ((word_of_int (u mod NANOS) * NtpFractionScale) div
                                          (word_of_int NANOS :: u64))\<rparr>"
    using assms(2) unfolding fromUnixNanoseconds_floor by (auto split: if_splits)
  have "u div NANOS \<le> INT64_MAX div NANOS"
    using assms(1) N by (intro zdiv_mono1) (simp_all add: in_int64_def)
  then have "unat (word_of_int (u div NANOS + UnixToNtpSeconds) :: u64) = nat (u div NANOS + UnixToNtpSeconds)"
    using sec by (intro unat_of_int64) (simp_all add: NANOS_def INT64_MAX_def UnixToNtpSeconds_def)
  then have s: "int (unat (ntp_seconds t)) = u div NANOS + UnixToNtpSeconds" using sec t by simp
  have f: "int (unat (ntp_fraction t)) = u mod NANOS * 2 ^ 32 div NANOS"
    unfolding t using ntp_fraction_value [of "u mod NANOS"] N by simp
  have "N * q + r = u \<Longrightarrow> (u + c * N) * k = r * k + N * ((q + c) * k)" for N q r c k :: int
    by (auto simp: algebra_simps)
  from this [OF mult_div_mod_eq]
  have "(u + UnixToNtpSeconds * NANOS) * 2 ^ 32 =
      u mod NANOS * 2 ^ 32 + NANOS * ((u div NANOS + UnixToNtpSeconds) * 2 ^ 32)" .
  then have "(u + UnixToNtpSeconds * NANOS) * 2 ^ 32 div NANOS =
      (u div NANOS + UnixToNtpSeconds) * 2 ^ 32 + u mod NANOS * 2 ^ 32 div NANOS"
    using N by simp
  then show ?thesis unfolding ntp_value_def s f by simp
qed

text \<open>
  The shared NTP epoch maps a running time to the NTP time of the corresponding wall-clock
  instant: the 32.32 fixed-point value is the exact floor of the instant since 1900, and the mapping
  fails exactly when the offset or the Unix time leaves the signed 64-bit range or the instant
  precedes the NTP epoch.
\<close>

theorem ntpEpoch_map_exact:
  assumes "in_int64 (m_masterAtCapture e)" and "in_int64 (m_unixNanosecondsAtCapture e)" and "in_int64 m"
  shows "let offset = m - m_masterAtCapture e; u = m_unixNanosecondsAtCapture e + offset
         in case ntpEpoch_map e m of
              Inr t \<Rightarrow> ntp_value t = (u + UnixToNtpSeconds * NANOS) * 2 ^ 32 div NANOS
            | Inl err \<Rightarrow> err = InvalidArgument \<and>
                (\<not> in_int64 offset \<or> \<not> in_int64 u \<or> u + UnixToNtpSeconds * NANOS < 0)"
proof -
  define offset u where "offset = m - m_masterAtCapture e" and "u = m_unixNanosecondsAtCapture e + offset"
  have sub: "checkedSubtract m (m_masterAtCapture e) = (if in_int64 offset then Inr offset else Inl InvalidArgument)"
    unfolding offset_def checkedSubtract_def using assms by (auto simp: in_int64_def)
  have guard: "((offset > 0 \<and> m_unixNanosecondsAtCapture e > INT64_MAX - offset) \<or>
      (offset < 0 \<and> m_unixNanosecondsAtCapture e < INT64_MIN - offset)) \<longleftrightarrow> \<not> in_int64 u"
    unfolding u_def using assms(2) by (auto simp: in_int64_def)
  have map: "ntpEpoch_map e m = (if in_int64 offset \<and> in_int64 u then fromUnixNanoseconds u else Inl InvalidArgument)"
    unfolding ntpEpoch_map_def sub using guard by (simp add: u_def)
  have early: "u div NANOS < - UnixToNtpSeconds \<longleftrightarrow> u + UnixToNtpSeconds * NANOS < 0"
    by (simp add: NANOS_def UnixToNtpSeconds_def) linarith
  show ?thesis
    unfolding Let_def offset_def [symmetric] u_def [symmetric] map
    using fromUnixNanoseconds_value early
    by (auto simp: fromUnixNanoseconds_floor split: if_splits sum.splits)
qed

theorem ntpEpoch_map_exact_witness:
  "case ntpEpoch_map \<lparr>m_masterAtCapture = 5, m_unixNanosecondsAtCapture = 1\<rparr> 1500000004 of
     Inr t \<Rightarrow> ntp_value t = 2208988801 * 2 ^ 32 + 2 ^ 31 | Inl e \<Rightarrow> False"
  using ntpEpoch_map_exact [of "\<lparr>m_masterAtCapture = 5, m_unixNanosecondsAtCapture = 1\<rparr>" 1500000004]
  by (simp add: in_int64_def INT64_MIN_def INT64_MAX_def UnixToNtpSeconds_def NANOS_def Let_def
      split: sum.splits)

section \<open>Truncating division\<close>

lemma tdiv_nonneg: "0 \<le> a \<Longrightarrow> 0 < b \<Longrightarrow> tdiv a b = a div b"
  by (cases "a = 0") (simp_all add: tdiv_def)

lemma tdiv_minus: "tdiv (- a) b = - tdiv a b"
  by (simp add: tdiv_def sgn_minus)

lemma tmod_minus: "tmod (- a) b = - tmod a b"
  by (simp add: tmod_def tdiv_minus)

end
