(* ===== verification/Timestamp_Unwrapper.thy ===== *)
theory Timestamp_Unwrapper
  imports Running_Time
begin

text \<open>
  \<^verbatim>\<open>time/MediaTimestampUnwrapper\<close>: the extension of the wrapping RTP, PTS/DTS and PCR counters to a
  64-bit timeline. Raw counters and movements are 64-bit words as in the code; the unwrapped value is
  a signed 64-bit count.
\<close>

section \<open>Definitions\<close>

record MediaProtocolTimestamp =
  ts_ticks :: int
  ts_timeBaseNumerator :: int
  ts_timeBaseDenominator :: int

definition protocolTimestamp_create :: "int \<Rightarrow> int \<Rightarrow> int \<Rightarrow> MediaProtocolTimestamp Result" where
  "protocolTimestamp_create ticks num den =
     (if num \<le> 0 \<or> den \<le> 0 then failure InvalidArgument
      else success \<lparr>ts_ticks = ticks, ts_timeBaseNumerator = num, ts_timeBaseDenominator = den\<rparr>)"

datatype MediaTimestampCounterKind = Rtp32 | MpegTsPtsDts33 | MpegTsPcr27Mhz

datatype MediaTimestampUnwrapStatus = Unwrap_Value | Unwrap_Discontinuity

datatype MediaTimestampDiscontinuityReason =
    Reason_None | RawValueOutOfRange | TimeBaseMismatch | BackwardMovement | AmbiguousMovement
  | UnwrappedValueOverflow

record MediaTimestampUnwrapResult =
  ur_status :: MediaTimestampUnwrapStatus
  ur_reason :: MediaTimestampDiscontinuityReason
  ur_timestamp :: "MediaProtocolTimestamp option"
  ur_generation :: u64

record MediaTimestampUnwrapper =
  uw_counterKind :: MediaTimestampCounterKind
  uw_modulus :: u64
  uw_generation :: u64
  uw_lastRawTimestamp :: u64
  uw_lastUnwrappedTimestamp :: int
  uw_timeBaseNumerator :: int
  uw_timeBaseDenominator :: int
  uw_initialized :: bool

fun modulusFor :: "MediaTimestampCounterKind \<Rightarrow> u64" where
  "modulusFor Rtp32 = push_bit 32 1"
| "modulusFor MpegTsPtsDts33 = push_bit 33 1"
| "modulusFor MpegTsPcr27Mhz = push_bit 33 1 * 300"

definition unwrapper_create :: "MediaTimestampCounterKind \<Rightarrow> u64 \<Rightarrow> MediaTimestampUnwrapper Result" where
  "unwrapper_create counterKind generation =
     (let modulus = modulusFor counterKind
      in if modulus = 0 then failure InvalidArgument
         else success \<lparr>uw_counterKind = counterKind, uw_modulus = modulus, uw_generation = generation,
                       uw_lastRawTimestamp = 0, uw_lastUnwrappedTimestamp = 0,
                       uw_timeBaseNumerator = 0, uw_timeBaseDenominator = 0, uw_initialized = False\<rparr>)"

definition current_timestamp :: "MediaTimestampUnwrapper \<Rightarrow> MediaProtocolTimestamp" where
  "current_timestamp u =
     \<lparr>ts_ticks = uw_lastUnwrappedTimestamp u, ts_timeBaseNumerator = uw_timeBaseNumerator u,
      ts_timeBaseDenominator = uw_timeBaseDenominator u\<rparr>"

definition valueResult :: "MediaTimestampUnwrapper \<Rightarrow> MediaTimestampUnwrapResult" where
  "valueResult u =
     \<lparr>ur_status = Unwrap_Value, ur_reason = Reason_None, ur_timestamp = Some (current_timestamp u),
      ur_generation = uw_generation u\<rparr>"

definition discontinuity ::
  "MediaTimestampUnwrapper \<Rightarrow> MediaTimestampDiscontinuityReason \<Rightarrow> MediaTimestampUnwrapResult" where
  "discontinuity u reason =
     \<lparr>ur_status = Unwrap_Discontinuity, ur_reason = reason,
      ur_timestamp = (if uw_initialized u then Some (current_timestamp u) else None),
      ur_generation = uw_generation u\<rparr>"

text \<open>The forward movement between two raw counters, or the reason why there is none.\<close>

definition forwardMovement ::
  "u64 \<Rightarrow> u64 \<Rightarrow> u64 \<Rightarrow> MediaTimestampDiscontinuityReason + u64" where
  "forwardMovement modulus lastRaw rawTicks =
     (let halfRange = modulus div 2
      in if rawTicks \<ge> lastRaw then
           (let directMovement = rawTicks - lastRaw
            in if directMovement = halfRange then Inl AmbiguousMovement
               else if directMovement > halfRange then Inl BackwardMovement
               else Inr directMovement)
         else
           (let backwardMovement = lastRaw - rawTicks
            in if backwardMovement = halfRange then Inl AmbiguousMovement
               else if backwardMovement < halfRange then Inl BackwardMovement
               else Inr (modulus - backwardMovement)))"

definition unwrap ::
  "MediaTimestampUnwrapper \<Rightarrow> MediaProtocolTimestamp \<Rightarrow> MediaTimestampUnwrapper \<times> MediaTimestampUnwrapResult"
  where
  "unwrap u rawTimestamp =
     (if ts_ticks rawTimestamp < 0 \<or> word_of_int (ts_ticks rawTimestamp) \<ge> uw_modulus u then
        (u, discontinuity u RawValueOutOfRange)
      else if uw_initialized u \<and>
              (ts_timeBaseNumerator rawTimestamp \<noteq> uw_timeBaseNumerator u \<or>
               ts_timeBaseDenominator rawTimestamp \<noteq> uw_timeBaseDenominator u) then
        (u, discontinuity u TimeBaseMismatch)
      else
        (let rawTicks = word_of_int (ts_ticks rawTimestamp)
         in if \<not> uw_initialized u then
              (let u = u\<lparr>uw_lastRawTimestamp := rawTicks,
                         uw_lastUnwrappedTimestamp := ts_ticks rawTimestamp,
                         uw_timeBaseNumerator := ts_timeBaseNumerator rawTimestamp,
                         uw_timeBaseDenominator := ts_timeBaseDenominator rawTimestamp,
                         uw_initialized := True\<rparr>
               in (u, valueResult u))
            else
              (case forwardMovement (uw_modulus u) (uw_lastRawTimestamp u) rawTicks of
                 Inl reason \<Rightarrow> (u, discontinuity u reason)
               | Inr movement \<Rightarrow>
                   (let maximumIncrement = word_of_int (INT64_MAX - uw_lastUnwrappedTimestamp u)
                    in if movement > maximumIncrement then (u, discontinuity u UnwrappedValueOverflow)
                       else
                         (let u = u\<lparr>uw_lastRawTimestamp := rawTicks,
                                    uw_lastUnwrappedTimestamp :=
                                      uw_lastUnwrappedTimestamp u + sint movement\<rparr>
                          in (u, valueResult u))))))"

definition unwrapper_reset :: "MediaTimestampUnwrapper \<Rightarrow> u64 \<Rightarrow> MediaTimestampUnwrapper" where
  "unwrapper_reset u generation =
     u\<lparr>uw_generation := generation, uw_lastRawTimestamp := 0, uw_lastUnwrappedTimestamp := 0,
       uw_timeBaseNumerator := 0, uw_timeBaseDenominator := 0, uw_initialized := False\<rparr>"

fun unwrap_run ::
  "MediaTimestampUnwrapper \<Rightarrow> MediaProtocolTimestamp list \<Rightarrow>
   MediaTimestampUnwrapper \<times> MediaTimestampUnwrapResult list" where
  "unwrap_run u [] = (u, [])"
| "unwrap_run u (t # ts) =
     (let (u', r) = unwrap u t; (u'', rs) = unwrap_run u' ts in (u'', r # rs))"

section \<open>The invariant\<close>

definition unwrapper_wf :: "MediaTimestampUnwrapper \<Rightarrow> bool" where
  "unwrapper_wf u \<longleftrightarrow>
     uw_modulus u = modulusFor (uw_counterKind u) \<and>
     (uw_initialized u \<longrightarrow>
        0 \<le> uw_lastUnwrappedTimestamp u \<and> uw_lastUnwrappedTimestamp u \<le> INT64_MAX \<and>
        uint (uw_lastRawTimestamp u) = uw_lastUnwrappedTimestamp u mod uint (uw_modulus u))"

lemma modulusFor_uint:
  "uint (modulusFor k) = (case k of Rtp32 \<Rightarrow> 4294967296 | MpegTsPtsDts33 \<Rightarrow> 8589934592
     | MpegTsPcr27Mhz \<Rightarrow> 2576980377600)"
  by (cases k) simp_all

lemma modulus_facts:
  assumes "unwrapper_wf u"
  shows "0 < uint (uw_modulus u)" "uint (uw_modulus u) < 2 ^ 42"
    "uint (uw_modulus u) = 2 * uint (uw_modulus u div 2)"
proof -
  have m: "uint (uw_modulus u) = uint (modulusFor (uw_counterKind u))"
    using assms by (simp add: unwrapper_wf_def)
  show "0 < uint (uw_modulus u)" "uint (uw_modulus u) < 2 ^ 42"
    unfolding m modulusFor_uint by (cases "uw_counterKind u"; simp)+
  have "uint (uw_modulus u div 2) = uint (uw_modulus u) div 2" by (simp add: uint_div_distrib)
  then show "uint (uw_modulus u) = 2 * uint (uw_modulus u div 2)"
    unfolding m modulusFor_uint by (cases "uw_counterKind u") simp_all
qed

lemma forwardMovement_mod:
  fixes m l r :: u64
  assumes "uint l < uint m" and "uint r < uint m" and h: "uint m = 2 * uint (m div 2)"
  defines "d \<equiv> (uint r - uint l) mod uint m"
  shows "forwardMovement m l r =
    (if d = uint (m div 2) then Inl AmbiguousMovement
     else if d > uint (m div 2) then Inl BackwardMovement
     else Inr (word_of_int d))"
proof (cases "l \<le> r")
  case True
  then have le: "uint l \<le> uint r" by (simp add: word_le_def)
  then have s: "uint (r - l) = uint r - uint l" by (simp only: uint_sub_lem)
  have d: "d = uint (r - l)" unfolding d_def s
    using le assms(2) uint_ge_0 [of l] by (intro mod_pos_pos_trivial) linarith+
  then show ?thesis using True
    unfolding forwardMovement_def Let_def word_less_def word_uint_eq_iff by simp
next
  case False
  then have lt: "uint r < uint l" by (simp add: word_le_def)
  then have s: "uint (l - r) = uint l - uint r" using uint_sub_lem [of r l] by simp
  have "d = (uint r - uint l + uint m) mod uint m" unfolding d_def by simp
  also have "\<dots> = uint r - uint l + uint m"
    using lt assms uint_ge_0 [of r] by (intro mod_pos_pos_trivial) linarith+
  finally have d: "d = uint m - uint (l - r)" unfolding s by simp
  have "uint (l - r) \<le> uint m" using s assms(1) uint_ge_0 [of r] by linarith
  then have "uint (m - (l - r)) = d" unfolding d by (simp only: uint_sub_lem)
  then have w: "m - (l - r) = word_of_int d" by (metis word_of_int_uint)
  have amb: "l - r = m div 2 \<longleftrightarrow> d = uint (m div 2)"
    unfolding word_uint_eq_iff d using h by linarith
  have bwd: "l - r < m div 2 \<longleftrightarrow> d > uint (m div 2)"
    unfolding word_less_def d using h by linarith
  show ?thesis using False unfolding forwardMovement_def Let_def amb bwd w by simp
qed

section \<open>One step\<close>

text \<open>The counter distance from the last accepted raw value, the code's notion of movement.\<close>

definition movement :: "MediaTimestampUnwrapper \<Rightarrow> int \<Rightarrow> int" where
  "movement u raw = (raw - uw_lastUnwrappedTimestamp u) mod uint (uw_modulus u)"

definition same_timeBase :: "MediaTimestampUnwrapper \<Rightarrow> MediaProtocolTimestamp \<Rightarrow> bool" where
  "same_timeBase u t \<longleftrightarrow>
     ts_timeBaseNumerator t = uw_timeBaseNumerator u \<and> ts_timeBaseDenominator t = uw_timeBaseDenominator u"

lemma uint_of_raw: "0 \<le> k \<Longrightarrow> k < 18446744073709551616 \<Longrightarrow> uint (word_of_int k :: u64) = k"
  by (simp add: uint_word_of_int)

lemma raw_in_range:
  assumes "in_int64 k"
  shows "(k < 0 \<or> word_of_int k \<ge> (m :: u64)) \<longleftrightarrow> \<not> (0 \<le> k \<and> k < uint m)"
  using assms by (cases "0 \<le> k") (auto simp: word_le_def uint_of_raw in_int64_def INT64_MAX_def)

lemma unwrap_initialized:
  assumes wf: "unwrapper_wf u" and init: "uw_initialized u" and k: "in_int64 (ts_ticks t)"
    and range: "0 \<le> ts_ticks t" "ts_ticks t < uint (uw_modulus u)" and tb: "same_timeBase u t"
  shows "unwrap u t =
    (let d = movement u (ts_ticks t); h = uint (uw_modulus u div 2)
     in if d = h then (u, discontinuity u AmbiguousMovement)
        else if d > h then (u, discontinuity u BackwardMovement)
        else if uw_lastUnwrappedTimestamp u + d > INT64_MAX then (u, discontinuity u UnwrappedValueOverflow)
        else (let u' = u\<lparr>uw_lastRawTimestamp := word_of_int (ts_ticks t),
                         uw_lastUnwrappedTimestamp := uw_lastUnwrappedTimestamp u + d\<rparr>
              in (u', valueResult u')))"
proof -
  let ?m = "uint (uw_modulus u)" and ?L = "uw_lastUnwrappedTimestamp u"
  note M = modulus_facts [OF wf]
  have L: "0 \<le> ?L" "?L \<le> INT64_MAX" and raw: "uint (uw_lastRawTimestamp u) = ?L mod ?m"
    using wf init by (simp_all add: unwrapper_wf_def)
  have rt: "uint (word_of_int (ts_ticks t) :: u64) = ts_ticks t"
    using range k by (simp add: uint_of_raw in_int64_def INT64_MAX_def)
  have d: "(uint (word_of_int (ts_ticks t) :: u64) - uint (uw_lastRawTimestamp u)) mod ?m = movement u (ts_ticks t)"
    unfolding rt raw movement_def by (simp add: mod_diff_right_eq)
  have fm: "forwardMovement (uw_modulus u) (uw_lastRawTimestamp u) (word_of_int (ts_ticks t)) =
      (if movement u (ts_ticks t) = uint (uw_modulus u div 2) then Inl AmbiguousMovement
       else if movement u (ts_ticks t) > uint (uw_modulus u div 2) then Inl BackwardMovement
       else Inr (word_of_int (movement u (ts_ticks t))))"
    using forwardMovement_mod [of "uw_lastRawTimestamp u" "uw_modulus u" "word_of_int (ts_ticks t)"]
      raw M range rt unfolding d by (simp add: pos_mod_bound)
  have dr: "0 \<le> movement u (ts_ticks t)" "movement u (ts_ticks t) < 2 ^ 42"
    unfolding movement_def
    by (rule pos_mod_sign [OF M(1)], rule order.strict_trans [OF pos_mod_bound [OF M(1)] M(2)])
  have du: "uint (word_of_int (movement u (ts_ticks t)) :: u64) = movement u (ts_ticks t)"
    using dr by (simp add: uint_of_raw)
  have ds: "sint (word_of_int (movement u (ts_ticks t)) :: u64) = movement u (ts_ticks t)"
    using dr by (simp add: sint_uint du signed_take_bit_int_eq_self)
  have "uint (word_of_int (INT64_MAX - ?L) :: u64) = INT64_MAX - ?L"
    by (rule uint_of_raw) (use L in \<open>simp_all add: INT64_MAX_def\<close>)
  then have over: "word_of_int (INT64_MAX - ?L) < (word_of_int (movement u (ts_ticks t)) :: u64) \<longleftrightarrow>
      ?L + movement u (ts_ticks t) > INT64_MAX"
    unfolding word_less_def du by auto
  have r: "\<not> (ts_ticks t < 0 \<or> word_of_int (ts_ticks t) \<ge> uw_modulus u)"
    unfolding raw_in_range [OF k] using range by simp
  show ?thesis
    using r tb init over ds unfolding unwrap_def same_timeBase_def
    by (simp add: fm Let_def)
qed

lemma unwrap_first:
  assumes "\<not> uw_initialized u" and "in_int64 (ts_ticks t)" and "0 \<le> ts_ticks t" "ts_ticks t < uint (uw_modulus u)"
  shows "unwrap u t =
    (let u' = u\<lparr>uw_lastRawTimestamp := word_of_int (ts_ticks t), uw_lastUnwrappedTimestamp := ts_ticks t,
                uw_timeBaseNumerator := ts_timeBaseNumerator t,
                uw_timeBaseDenominator := ts_timeBaseDenominator t, uw_initialized := True\<rparr>
     in (u', valueResult u'))"
proof -
  have r: "\<not> (ts_ticks t < 0 \<or> word_of_int (ts_ticks t) \<ge> uw_modulus u)"
    unfolding raw_in_range [OF assms(2)] using assms(3,4) by simp
  show ?thesis using assms(1) r by (simp add: unwrap_def Let_def)
qed

lemma unwrap_wf:
  assumes wf: "unwrapper_wf u" and k: "in_int64 (ts_ticks t)"
  shows "unwrapper_wf (fst (unwrap u t))"
proof (cases "0 \<le> ts_ticks t \<and> ts_ticks t < uint (uw_modulus u) \<and> (uw_initialized u \<longrightarrow> same_timeBase u t)")
  case False
  then have "fst (unwrap u t) = u"
    using raw_in_range [OF k, of "uw_modulus u"] by (auto simp: unwrap_def same_timeBase_def)
  then show ?thesis using wf by simp
next
  case True
  then have range: "0 \<le> ts_ticks t" "ts_ticks t < uint (uw_modulus u)" by simp_all
  note M = modulus_facts [OF wf]
  have rt: "uint (word_of_int (ts_ticks t) :: u64) = ts_ticks t"
    using range k by (simp add: uint_of_raw in_int64_def INT64_MAX_def)
  show ?thesis
  proof (cases "uw_initialized u")
    case init: False
    have "ts_ticks t \<le> INT64_MAX" using k by (simp add: in_int64_def)
    then show ?thesis
      using wf rt range unfolding unwrap_first [OF init k range] by (simp add: unwrapper_wf_def Let_def)
  next
    case init: True
    let ?L = "uw_lastUnwrappedTimestamp u" and ?d = "movement u (ts_ticks t)"
    have L: "0 \<le> ?L" using wf init by (simp add: unwrapper_wf_def)
    have d0: "0 \<le> ?d" unfolding movement_def by (rule pos_mod_sign [OF M(1)])
    have "(?L + ?d) mod uint (uw_modulus u) = ts_ticks t mod uint (uw_modulus u)"
      unfolding movement_def by (simp add: mod_add_right_eq)
    then have congr: "(?L + ?d) mod uint (uw_modulus u) = ts_ticks t" using range by simp
    have tb: "same_timeBase u t" using True init by simp
    show ?thesis
      using wf L d0 congr rt init unfolding unwrap_initialized [OF wf init k range tb]
      by (simp add: unwrapper_wf_def Let_def)
  qed
qed

lemma mod_in_int64:
  assumes "0 < m" and "m < 2 ^ 42"
  shows "in_int64 (v mod m)"
proof -
  have "0 \<le> v mod m" "v mod m < 2 ^ 42"
    by (rule pos_mod_sign [OF assms(1)], rule order.strict_trans [OF pos_mod_bound [OF assms(1)] assms(2)])
  then show ?thesis by (simp add: in_int64_def INT64_MIN_def INT64_MAX_def)
qed

section \<open>Properties\<close>

text \<open>
  One unwrap step of an initialised unwrapper, on an in-range counter with the established time
  base, is classified by the forward distance modulo the counter's range: less than half the range
  extends the timeline by exactly that distance, exactly half is ambiguous, more is a backward
  movement, and a value beyond the signed 64-bit range is an overflow. Every discontinuity leaves
  the unwrapper as it was, and the result of an extension is congruent to the raw counter.
\<close>

theorem unwrap_step_classified:
  assumes "unwrapper_wf u" and "uw_initialized u" and "in_int64 (ts_ticks t)" and "same_timeBase u t"
    and "0 \<le> ts_ticks t" and "ts_ticks t < uint (uw_modulus u)"
  shows "let d = (ts_ticks t - uw_lastUnwrappedTimestamp u) mod uint (uw_modulus u);
             next = uw_lastUnwrappedTimestamp u + d;
             (u', r) = unwrap u t
         in (ur_status r = Unwrap_Value \<longleftrightarrow> 2 * d < uint (uw_modulus u) \<and> next \<le> INT64_MAX) \<and>
            (ur_status r = Unwrap_Value \<longrightarrow>
               map_option ts_ticks (ur_timestamp r) = Some next \<and> next mod uint (uw_modulus u) = ts_ticks t \<and>
               uw_lastUnwrappedTimestamp u' = next) \<and>
            (ur_status r = Unwrap_Discontinuity \<longrightarrow> u' = u \<and>
               ur_reason r = (if 2 * d = uint (uw_modulus u) then AmbiguousMovement
                              else if 2 * d > uint (uw_modulus u) then BackwardMovement
                              else UnwrappedValueOverflow))"
proof -
  let ?m = "uint (uw_modulus u)" and ?L = "uw_lastUnwrappedTimestamp u" and ?d = "movement u (ts_ticks t)"
  note M = modulus_facts [OF assms(1)]
  have "(?L + ?d) mod ?m = ts_ticks t mod ?m" unfolding movement_def by (simp add: mod_add_right_eq)
  then have congr: "(?L + ?d) mod ?m = ts_ticks t" using assms(5,6) by simp
  have half: "?d = uint (uw_modulus u div 2) \<longleftrightarrow> 2 * ?d = ?m" "?d > uint (uw_modulus u div 2) \<longleftrightarrow> 2 * ?d > ?m"
    using M(3) by linarith+
  show ?thesis
    unfolding unwrap_initialized [OF assms(1,2,3,5,6,4)] movement_def [symmetric] half Let_def
    using congr by (auto simp: valueResult_def discontinuity_def current_timestamp_def)
qed

lemma unwrap_advance:
  assumes wf: "unwrapper_wf u" and init: "uw_initialized u"
    and tb: "ts_timeBaseNumerator t = uw_timeBaseNumerator u" "ts_timeBaseDenominator t = uw_timeBaseDenominator u"
    and t: "ts_ticks t = v mod uint (uw_modulus u)"
    and v: "uw_lastUnwrappedTimestamp u \<le> v" "2 * (v - uw_lastUnwrappedTimestamp u) < uint (uw_modulus u)" "v \<le> INT64_MAX"
  shows "unwrap u t = (u\<lparr>uw_lastRawTimestamp := word_of_int (ts_ticks t), uw_lastUnwrappedTimestamp := v\<rparr>,
      valueResult (u\<lparr>uw_lastUnwrappedTimestamp := v\<rparr>))"
proof -
  let ?m = "uint (uw_modulus u)" and ?L = "uw_lastUnwrappedTimestamp u"
  note M = modulus_facts [OF wf]
  have range: "0 \<le> ts_ticks t" "ts_ticks t < ?m"
    unfolding t by (rule pos_mod_sign [OF M(1)], rule pos_mod_bound [OF M(1)])
  have k: "in_int64 (ts_ticks t)" using range M(2) by (simp add: in_int64_def INT64_MIN_def INT64_MAX_def)
  have "movement u (ts_ticks t) = (v - ?L) mod ?m" unfolding movement_def t by (simp add: mod_diff_left_eq)
  also have "\<dots> = v - ?L" using v M(1) by (intro mod_pos_pos_trivial) simp_all
  finally have d: "movement u (ts_ticks t) = v - ?L" .
  have tb': "same_timeBase u t" using tb by (simp add: same_timeBase_def)
  have "v - ?L < uint (uw_modulus u div 2)" using M(3) v(2) by simp
  then have h: "v - ?L \<noteq> uint (uw_modulus u div 2)" "\<not> v - ?L > uint (uw_modulus u div 2)" by simp_all
  show ?thesis
    unfolding unwrap_initialized [OF wf init k range tb'] d Let_def using h v(3)
    by (simp add: valueResult_def current_timestamp_def)
qed

text \<open>The raw samples a counter of the given range shows for a sequence of true tick counts.\<close>

definition wrap_samples :: "MediaTimestampCounterKind \<Rightarrow> int \<Rightarrow> int \<Rightarrow> int list \<Rightarrow> MediaProtocolTimestamp list" where
  "wrap_samples kind num den vs =
     map (\<lambda>v. \<lparr>ts_ticks = v mod uint (modulusFor kind), ts_timeBaseNumerator = num,
               ts_timeBaseDenominator = den\<rparr>) vs"

fun slow_timeline :: "int \<Rightarrow> int \<Rightarrow> int list \<Rightarrow> bool" where
  "slow_timeline m p [] \<longleftrightarrow> True"
| "slow_timeline m p (v # vs) \<longleftrightarrow> p \<le> v \<and> 2 * (v - p) < m \<and> v \<le> INT64_MAX \<and> slow_timeline m v vs"

lemma unwrap_run_recovers_from:
  assumes "unwrapper_wf u" and "uw_initialized u" and "uw_counterKind u = kind"
    and "uw_timeBaseNumerator u = num" "uw_timeBaseDenominator u = den"
    and "slow_timeline (uint (modulusFor kind)) (uw_lastUnwrappedTimestamp u) vs"
  shows "map (map_option ts_ticks \<circ> ur_timestamp) (snd (unwrap_run u (wrap_samples kind num den vs))) = map Some vs"
  using assms
proof (induction vs arbitrary: u)
  case (Cons v vs)
  let ?t = "\<lparr>ts_ticks = v mod uint (modulusFor kind), ts_timeBaseNumerator = num, ts_timeBaseDenominator = den\<rparr>"
  have m: "uw_modulus u = modulusFor kind" using Cons.prems by (simp add: unwrapper_wf_def)
  obtain u' r where u': "unwrap u ?t = (u', r)" by fastforce
  have adv: "unwrap u ?t = (u\<lparr>uw_lastRawTimestamp := word_of_int (ts_ticks ?t), uw_lastUnwrappedTimestamp := v\<rparr>,
      valueResult (u\<lparr>uw_lastUnwrappedTimestamp := v\<rparr>))"
    by (rule unwrap_advance) (use Cons.prems m in simp_all)
  have k: "in_int64 (ts_ticks ?t)"
    using modulus_facts(1,2) [OF Cons.prems(1), unfolded m] by (simp add: mod_in_int64)
  have wf': "unwrapper_wf u'" using unwrap_wf [OF Cons.prems(1) k] u' by simp
  have IH: "map (map_option ts_ticks \<circ> ur_timestamp) (snd (unwrap_run u' (wrap_samples kind num den vs))) = map Some vs"
    by (rule Cons.IH [OF wf']) (use Cons.prems adv u' in auto)
  show ?case
    using IH adv u' by (auto simp: wrap_samples_def Let_def comp_def valueResult_def current_timestamp_def split: prod.splits)
qed (simp add: wrap_samples_def)

text \<open>
  C5. Wrapping and unwrapping round-trip: feed a fresh unwrapper the wrapped counter values of any
  timeline that starts inside the counter's range, never goes back, advances by less than half the
  range between samples and stays in the signed 64-bit range, and it returns the timeline itself,
  however many times the counter wraps.
\<close>

theorem unwrap_recovers_timeline:
  assumes "unwrapper_create kind gen = Inr u" and "0 \<le> v" and "v < uint (modulusFor kind)"
    and "slow_timeline (uint (modulusFor kind)) v vs"
  shows "map (map_option ts_ticks \<circ> ur_timestamp)
           (snd (unwrap_run u (wrap_samples kind num den (v # vs)))) = map Some (v # vs)"
proof -
  let ?t = "\<lparr>ts_ticks = v mod uint (modulusFor kind), ts_timeBaseNumerator = num, ts_timeBaseDenominator = den\<rparr>"
  have u: "uw_modulus u = modulusFor kind" "uw_counterKind u = kind" "\<not> uw_initialized u"
    using assms(1) by (auto simp: unwrapper_create_def Let_def split: if_splits)
  then have wf: "unwrapper_wf u" by (simp add: unwrapper_wf_def)
  have tv: "ts_ticks ?t = v" using assms(2,3) by simp
  have k: "in_int64 (ts_ticks ?t)"
    using modulus_facts(2) [OF wf] assms(2,3) u unfolding tv by (simp add: in_int64_def INT64_MIN_def INT64_MAX_def)
  obtain u' r where u': "unwrap u ?t = (u', r)" by fastforce
  have first: "unwrap u ?t =
    (let u' = u\<lparr>uw_lastRawTimestamp := word_of_int (ts_ticks ?t), uw_lastUnwrappedTimestamp := ts_ticks ?t,
                uw_timeBaseNumerator := ts_timeBaseNumerator ?t,
                uw_timeBaseDenominator := ts_timeBaseDenominator ?t, uw_initialized := True\<rparr>
     in (u', valueResult u'))"
    by (rule unwrap_first) (use u k assms(2,3) in simp_all)
  have wf': "unwrapper_wf u'" using unwrap_wf [OF wf k] u' by simp
  have "map (map_option ts_ticks \<circ> ur_timestamp) (snd (unwrap_run u' (wrap_samples kind num den vs))) = map Some vs"
    by (rule unwrap_run_recovers_from [OF wf']) (use first u' u assms tv in \<open>auto simp: Let_def\<close>)
  then show ?thesis
    using first u' assms(2,3)
    by (auto simp: wrap_samples_def Let_def comp_def valueResult_def current_timestamp_def split: prod.splits)
qed

text \<open>A PTS timeline across two wraps of the 33-bit counter.\<close>

definition demo_timeline :: "int list" where
  "demo_timeline = [8589934500, 8589934600, 12884901888, 17179869000, 17179869190]"

theorem unwrap_recovers_timeline_witness:
  "\<exists>u. unwrapper_create MpegTsPtsDts33 7 = Inr u \<and>
     map (map_option ts_ticks \<circ> ur_timestamp)
       (snd (unwrap_run u (wrap_samples MpegTsPtsDts33 1 90000 (8589934500 # tl demo_timeline)))) =
     map Some demo_timeline \<and>
     map ts_ticks (wrap_samples MpegTsPtsDts33 1 90000 demo_timeline) = [8589934500, 8, 4294967296, 8589934408, 6]"
proof -
  obtain u where u: "unwrapper_create MpegTsPtsDts33 7 = Inr u"
    by (simp add: unwrapper_create_def Let_def)
  show ?thesis
    using u unwrap_recovers_timeline [OF u, of 8589934500 "tl demo_timeline" 1 90000]
    by (simp add: demo_timeline_def INT64_MAX_def wrap_samples_def)
qed

theorem unwrap_step_classified_witness:
  "\<exists>u r. unwrapper_wf u \<and> uw_initialized u \<and> ur_status r = Unwrap_Value \<and>
     map_option ts_ticks (ur_timestamp r) = Some 4294967301 \<and>
     snd (unwrap u \<lparr>ts_ticks = 5, ts_timeBaseNumerator = 1, ts_timeBaseDenominator = 90000\<rparr>) = r"
proof -
  let ?u = "\<lparr>uw_counterKind = Rtp32, uw_modulus = modulusFor Rtp32, uw_generation = 1,
             uw_lastRawTimestamp = 4294967290, uw_lastUnwrappedTimestamp = 4294967290,
             uw_timeBaseNumerator = 1, uw_timeBaseDenominator = 90000, uw_initialized = True\<rparr>"
  let ?t = "\<lparr>ts_ticks = 5, ts_timeBaseNumerator = 1, ts_timeBaseDenominator = 90000\<rparr>"
  have wf: "unwrapper_wf ?u" by (simp add: unwrapper_wf_def INT64_MAX_def)
  have "ur_status (snd (unwrap ?u ?t)) = Unwrap_Value \<and>
      map_option ts_ticks (ur_timestamp (snd (unwrap ?u ?t))) = Some 4294967301"
    using unwrap_step_classified [OF wf, of ?t]
    by (simp add: in_int64_def INT64_MIN_def INT64_MAX_def same_timeBase_def Let_def split: prod.splits)
  then show ?thesis using wf by auto
qed

end
