(* ===== verification/Sync_Error.thy ===== *)
theory Sync_Error
  imports Running_Time
begin

text \<open>
  \<^verbatim>\<open>sync/MediaAvSyncError.h\<close>: the structured error of the A/V synchronisation components and its
  projection to the common error categories. The message text that the projection assembles from
  the fields is not modelled.
\<close>

datatype MediaAvSyncSourceClockMode = RtpSenderReports | MpegTsPcr | DemuxTimestamps

datatype MediaAvSyncErrorCode =
    MissingSourceEvidence | EmptySourceIdentity | SourceIdentityMismatch | GenerationMismatch
  | InvalidGenerationTransition | InvalidDuration | TimeOverflow | StartupTimeout | KeyFrameTimeout
  | EofBeforeRelease | MissingCanonicalTime | AudioTrimLimitExceeded | StartupCapacityExceeded
  | StartupInvalidTransition | StartupAborted | StartupUpstreamError | InvalidAudioServoPolicy
  | InvalidAudioServoMeasurement | AudioCorrectionQuantizationFailed | InvalidVideoSyncPolicy
  | InvalidVideoSyncMeasurement

datatype MediaAvSyncErrorState =
    ErrState_Configuring | ErrState_Mapping | ErrState_Resetting | ErrState_Startup
  | ErrState_AudioServo | ErrState_VideoSync

record MediaAvSyncError =
  se_code :: MediaAvSyncErrorCode
  se_sourceClockMode :: "MediaAvSyncSourceClockMode option"
  se_state :: MediaAvSyncErrorState
  se_operation :: string
  se_expectedStreamIdentity :: string
  se_observedStreamIdentity :: string
  se_expectedGeneration :: "u64 option"
  se_observedGeneration :: "u64 option"
  se_observedSourceTime :: "MediaRunningTime option"
  se_sourceEpoch :: MediaRunningTime
  se_runningTimeEpoch :: MediaRunningTime
  se_minimumRunningTimeNs :: int
  se_maximumRunningTimeNs :: int
  se_detail :: string

definition toErrorInfo :: "MediaAvSyncError \<Rightarrow> ErrorCode" where
  "toErrorInfo e = (if se_code e = MissingSourceEvidence then NotInitialized else InvalidArgument)"

end
