(* ===== verification/Canonical_Time_Mapper.thy ===== *)
theory Canonical_Time_Mapper
  imports Sync_Error
begin

text \<open>
  \<^verbatim>\<open>time/MediaCanonicalTimeMapper\<close> and \<^verbatim>\<open>time/MediaMappedTimestamp.h\<close>: the affine map from source
  time to running time. The sum of three signed 64-bit values is computed in sign and 65-bit
  magnitude; \<open>high\<close> counts the carries of three additions and is a natural number.
\<close>

section \<open>Definitions\<close>

record SignedMagnitude =
  sm_negative :: bool
  sm_magnitude :: u64

record Magnitude65 =
  m65_low :: u64
  m65_high :: nat

definition signedMagnitude :: "int \<Rightarrow> bool \<Rightarrow> SignedMagnitude" where
  "signedMagnitude val negate =
     (let negative = val < 0;
          magnitude = (if negative then word_of_int (- (val + 1)) + 1 else word_of_int val)
      in \<lparr>sm_negative = (if magnitude = 0 then False else negative \<noteq> negate), sm_magnitude = magnitude\<rparr>)"

definition add65 :: "u64 \<Rightarrow> Magnitude65 \<Rightarrow> Magnitude65" where
  "add65 magnitude acc =
     \<lparr>m65_low = m65_low acc + magnitude,
      m65_high = (if magnitude > - 1 - m65_low acc then m65_high acc + 1 else m65_high acc)\<rparr>"

definition accumulate :: "SignedMagnitude \<Rightarrow> Magnitude65 \<times> Magnitude65 \<Rightarrow> Magnitude65 \<times> Magnitude65" where
  "accumulate term totals =
     (let (positive, negative) = totals
      in if sm_negative term then (positive, add65 (sm_magnitude term) negative)
         else (add65 (sm_magnitude term) positive, negative))"

definition compareMagnitude :: "Magnitude65 \<Rightarrow> Magnitude65 \<Rightarrow> int" where
  "compareMagnitude lhs rhs =
     (if m65_high lhs \<noteq> m65_high rhs then (if m65_high lhs < m65_high rhs then - 1 else 1)
      else if m65_low lhs = m65_low rhs then 0
      else if m65_low lhs < m65_low rhs then - 1 else 1)"

definition subtractMagnitude :: "Magnitude65 \<Rightarrow> Magnitude65 \<Rightarrow> u64 option" where
  "subtractMagnitude larger smaller =
     (if m65_high larger = m65_high smaller then Some (m65_low larger - m65_low smaller)
      else if m65_high larger = m65_high smaller + 1 \<and> m65_low larger < m65_low smaller then
        Some (m65_low larger - m65_low smaller)
      else None)"

definition checkedAffineNanoseconds :: "int \<Rightarrow> int \<Rightarrow> int \<Rightarrow> int option" where
  "checkedAffineNanoseconds sourceTime sourceEpoch runningTimeEpoch =
     (let terms = [signedMagnitude sourceTime False, signedMagnitude sourceEpoch True,
                   signedMagnitude runningTimeEpoch False];
          zero = \<lparr>m65_low = 0, m65_high = 0\<rparr>;
          (positiveMagnitude, negativeMagnitude) = fold accumulate terms (zero, zero)
      in if compareMagnitude positiveMagnitude negativeMagnitude \<ge> 0 then
           (case subtractMagnitude positiveMagnitude negativeMagnitude of
              None \<Rightarrow> None
            | Some magnitude \<Rightarrow>
                if magnitude > word_of_int INT64_MAX then None else Some (sint magnitude))
         else
           (case subtractMagnitude negativeMagnitude positiveMagnitude of
              None \<Rightarrow> None
            | Some magnitude \<Rightarrow>
                if magnitude > push_bit 63 1 then None
                else if magnitude = push_bit 63 1 then Some INT64_MIN
                else Some (- sint magnitude)))"

datatype MediaTimeMappingConfidence = Confidence_Locked | Confidence_Degraded

record MediaCanonicalSourceTimestamp =
  cs_presentationTime :: "MediaRunningTime option"
  cs_decodeTime :: "MediaRunningTime option"
  cs_duration :: "MediaRunningTime option"
  cs_generation :: u64
  cs_sourceIdentity :: string
  cs_confidence :: MediaTimeMappingConfidence

record MediaMappedTimestamp =
  mt_presentationTime :: MediaRunningTime
  mt_decodeTime :: "MediaRunningTime option"
  mt_duration :: "MediaRunningTime option"
  mt_generation :: u64
  mt_sourceIdentity :: string
  mt_confidence :: MediaTimeMappingConfidence

record MediaCanonicalTimeMapperConfig =
  mc_sourceEpoch :: MediaRunningTime
  mc_runningTimeEpoch :: MediaRunningTime
  mc_sourceClockMode :: MediaAvSyncSourceClockMode
  mc_sourceIdentity :: string
  mc_generation :: u64

text \<open>The mapper object is its configuration.\<close>

type_synonym MediaCanonicalTimeMapper = MediaCanonicalTimeMapperConfig

definition syncError ::
  "MediaCanonicalTimeMapperConfig \<Rightarrow> MediaAvSyncErrorCode \<Rightarrow> MediaAvSyncErrorState \<Rightarrow> string \<Rightarrow> string \<Rightarrow>
   u64 option \<Rightarrow> u64 option \<Rightarrow> MediaRunningTime option \<Rightarrow> string \<Rightarrow> MediaAvSyncError" where
  "syncError ctx code state operation observedStreamIdentity expectedGeneration observedGeneration
     observedSourceTime detail =
     \<lparr>se_code = code, se_sourceClockMode = Some (mc_sourceClockMode ctx), se_state = state,
      se_operation = operation, se_expectedStreamIdentity = mc_sourceIdentity ctx,
      se_observedStreamIdentity = observedStreamIdentity, se_expectedGeneration = expectedGeneration,
      se_observedGeneration = observedGeneration, se_observedSourceTime = observedSourceTime,
      se_sourceEpoch = mc_sourceEpoch ctx, se_runningTimeEpoch = mc_runningTimeEpoch ctx,
      se_minimumRunningTimeNs = INT64_MIN, se_maximumRunningTimeNs = INT64_MAX, se_detail = detail\<rparr>"

definition mapper_create ::
  "MediaCanonicalTimeMapperConfig \<Rightarrow> MediaAvSyncError + MediaCanonicalTimeMapper" where
  "mapper_create config =
     (if mc_sourceIdentity config = [] then
        Inl (syncError config EmptySourceIdentity ErrState_Configuring ''canonical_map.create''
               (mc_sourceIdentity config) (Some (mc_generation config)) (Some (mc_generation config))
               None ''planner must bind a non-empty source identity'')
      else Inr config)"

definition mapOne ::
  "MediaCanonicalTimeMapper \<Rightarrow> MediaRunningTime \<Rightarrow> string \<Rightarrow> MediaAvSyncError + MediaRunningTime" where
  "mapOne m sourceTime field =
     (case checkedAffineNanoseconds sourceTime (mc_sourceEpoch m) (mc_runningTimeEpoch m) of
        None \<Rightarrow> Inl (syncError m TimeOverflow ErrState_Mapping (''canonical_map.'' @ field)
                       (mc_sourceIdentity m) (Some (mc_generation m)) (Some (mc_generation m))
                       (Some sourceTime)
                       ''affine source-to-running result is outside signed nanoseconds'')
      | Some mapped \<Rightarrow> Inr mapped)"

definition mapper_map ::
  "MediaCanonicalTimeMapper \<Rightarrow> MediaCanonicalSourceTimestamp \<Rightarrow> MediaAvSyncError + MediaMappedTimestamp" where
  "mapper_map m source =
     (if cs_sourceIdentity source \<noteq> mc_sourceIdentity m then
        Inl (syncError m SourceIdentityMismatch ErrState_Mapping ''canonical_map''
               (cs_sourceIdentity source) (Some (mc_generation m)) (Some (cs_generation source))
               (cs_presentationTime source) ''source identity does not match mapper binding'')
      else if cs_generation source \<noteq> mc_generation m then
        Inl (syncError m GenerationMismatch ErrState_Mapping ''canonical_map''
               (cs_sourceIdentity source) (Some (mc_generation m)) (Some (cs_generation source))
               (cs_presentationTime source) ''source generation does not match mapper generation'')
      else
        (case cs_presentationTime source of
           None \<Rightarrow>
             Inl (syncError m MissingSourceEvidence ErrState_Mapping ''canonical_map.presentation''
                    (cs_sourceIdentity source) (Some (mc_generation m)) (Some (cs_generation source))
                    None ''presentation source time is required'')
         | Some presentationTime \<Rightarrow>
             (if (case cs_duration source of None \<Rightarrow> False | Some d \<Rightarrow> d < 0) then
                Inl (syncError m InvalidDuration ErrState_Mapping ''canonical_map.duration''
                       (cs_sourceIdentity source) (Some (mc_generation m)) (Some (cs_generation source))
                       (cs_duration source) ''duration must not be negative'')
              else
                (case mapOne m presentationTime ''presentation'' of
                   Inl e \<Rightarrow> Inl e
                 | Inr presentation \<Rightarrow>
                     (case (case cs_decodeTime source of
                              None \<Rightarrow> Inr None
                            | Some decodeTime \<Rightarrow>
                                (case mapOne m decodeTime ''decode'' of
                                   Inl e \<Rightarrow> Inl e | Inr decode \<Rightarrow> Inr (Some decode))) of
                        Inl e \<Rightarrow> Inl e
                      | Inr decode \<Rightarrow>
                          Inr \<lparr>mt_presentationTime = presentation, mt_decodeTime = decode,
                               mt_duration = cs_duration source, mt_generation = cs_generation source,
                               mt_sourceIdentity = cs_sourceIdentity source,
                               mt_confidence = cs_confidence source\<rparr>)))))"

definition mapper_reset ::
  "MediaCanonicalTimeMapper \<Rightarrow> MediaCanonicalTimeMapperConfig \<Rightarrow>
   MediaCanonicalTimeMapper \<times> (MediaAvSyncError + unit)" where
  "mapper_reset m config =
     (if mc_sourceIdentity config = [] then
        (m, Inl (syncError m EmptySourceIdentity ErrState_Resetting ''canonical_map.reset''
                   (mc_sourceIdentity config) (Some (mc_generation m)) (Some (mc_generation config))
                   (Some (mc_sourceEpoch config)) ''planner must bind a non-empty source identity''))
      else if mc_generation config \<le> mc_generation m then
        (m, Inl (syncError m InvalidGenerationTransition ErrState_Resetting ''canonical_map.reset''
                   (mc_sourceIdentity config)
                   (if mc_generation m = - 1 then None else Some (mc_generation m + 1))
                   (Some (mc_generation config)) (Some (mc_sourceEpoch config))
                   ''new generation must be greater than the active generation''))
      else (config, Inr ()))"

section \<open>The affine map\<close>

definition sm_value :: "SignedMagnitude \<Rightarrow> int" where
  "sm_value t = (if sm_negative t then - uint (sm_magnitude t) else uint (sm_magnitude t))"

definition m65_value :: "Magnitude65 \<Rightarrow> int" where
  "m65_value m = int (m65_high m) * 2 ^ 64 + uint (m65_low m)"

lemma uint_of_int64: "0 \<le> k \<Longrightarrow> k < 18446744073709551616 \<Longrightarrow> uint (word_of_int k :: u64) = k"
  by (simp add: uint_word_of_int)

lemma signedMagnitude_value:
  assumes "in_int64 v"
  shows "sm_value (signedMagnitude v negate) = (if negate then - v else v)"
proof -
  define w :: u64 where "w = (if v < 0 then word_of_int (- (v + 1)) + 1 else word_of_int v)"
  have "word_of_int (- (v + 1)) + 1 = (word_of_int (- v) :: u64)" by simp
  then have "w = word_of_int \<bar>v\<bar>" by (simp add: w_def)
  then have w: "uint w = \<bar>v\<bar>"
    using assms by (simp only:) (rule uint_of_int64, auto simp: in_int64_def INT64_MIN_def INT64_MAX_def)
  then have "w = 0 \<longleftrightarrow> v = 0" by (metis abs_eq_0 uint_0_iff)
  then show ?thesis
    unfolding sm_value_def signedMagnitude_def Let_def w_def [symmetric] using w by auto
qed

lemma m65_value_alt: "m65_value m = int (m65_high m) * 18446744073709551616 + uint (m65_low m)"
  by (simp add: m65_value_def)

lemma uint_u64: "0 \<le> uint (w :: u64)" "uint (w :: u64) < 18446744073709551616"
  using unsigned_less [of w, where ?'a = int] by simp_all

lemma add65_value: "m65_value (add65 w m) = m65_value m + uint w"
proof -
  have max: "uint (- 1 - m65_low m) = 2 ^ 64 - 1 - uint (m65_low m)"
    using uint_u64(2) [of "m65_low m"] by (subst uint_sub_lem [THEN iffD1])
      (simp_all add: unsigned_minus_1_eq_mask mask_eq_exp_minus_1)
  have carry: "w > - 1 - m65_low m \<longleftrightarrow> uint (m65_low m) + uint w \<ge> 2 ^ 64"
    unfolding word_less_def max by auto
  have "uint (m65_low m + w) =
      (if uint (m65_low m) + uint w \<ge> 2 ^ 64 then uint (m65_low m) + uint w - 2 ^ 64
       else uint (m65_low m) + uint w)"
    by (simp add: uint_plus_if')
  then show ?thesis unfolding m65_value_def add65_def carry by (simp add: algebra_simps)
qed

lemma accumulate_value:
  "m65_value (fst (accumulate t p)) - m65_value (snd (accumulate t p)) =
     m65_value (fst p) - m65_value (snd p) + sm_value t"
  by (simp add: accumulate_def sm_value_def add65_value Let_def split: prod.split)

lemma compareMagnitude_value: "compareMagnitude a b \<ge> 0 \<longleftrightarrow> m65_value a \<ge> m65_value b"
proof (cases "m65_high a" "m65_high b" rule: linorder_cases)
  case less
  then have "int (m65_high a) + 1 \<le> int (m65_high b)" by simp
  then have "m65_value a < m65_value b"
    using uint_u64 [of "m65_low a"] uint_u64 [of "m65_low b"] unfolding m65_value_alt by linarith
  then show ?thesis using less by (simp add: compareMagnitude_def)
next
  case equal
  then show ?thesis by (auto simp: compareMagnitude_def m65_value_def word_less_def word_uint_eq_iff)
next
  case greater
  then have "int (m65_high b) + 1 \<le> int (m65_high a)" by simp
  then have "m65_value b < m65_value a"
    using uint_u64 [of "m65_low a"] uint_u64 [of "m65_low b"] unfolding m65_value_alt by linarith
  then show ?thesis using greater by (simp add: compareMagnitude_def)
qed

lemma word_of_int_diff_uint: "(word_of_int (uint a - uint b) :: u64) = a - b"
  by (simp add: word_of_int_uint)

lemma subtractMagnitude_value:
  assumes "m65_value a \<ge> m65_value b"
  shows "subtractMagnitude a b =
    (if m65_value a - m65_value b < 2 ^ 64 then Some (word_of_int (m65_value a - m65_value b)) else None)"
proof -
  note la = uint_u64 [of "m65_low a"] and lb = uint_u64 [of "m65_low b"]
  consider "m65_high a < m65_high b" | "m65_high a = m65_high b" | "m65_high a = m65_high b + 1"
    | "m65_high a \<ge> m65_high b + 2" by linarith
  then show ?thesis
  proof cases
    case 1
    then have "int (m65_high a) + 1 \<le> int (m65_high b)" by simp
    then have False using assms la lb unfolding m65_value_alt by linarith
    then show ?thesis ..
  next
    case 2
    then have "m65_value a - m65_value b = uint (m65_low a) - uint (m65_low b)" by (simp add: m65_value_def)
    moreover have "uint (m65_low a) - uint (m65_low b) < 18446744073709551616" using la lb by linarith
    ultimately show ?thesis using 2 by (simp add: subtractMagnitude_def)
  next
    case 3
    then have d: "m65_value a - m65_value b = 2 ^ 64 + (uint (m65_low a) - uint (m65_low b))"
      by (simp add: m65_value_def algebra_simps)
    have "(word_of_int (2 ^ 64 + (uint (m65_low a) - uint (m65_low b))) :: u64) = m65_low a - m65_low b"
      by simp
    then show ?thesis using 3 unfolding d by (simp add: subtractMagnitude_def word_less_def)
  next
    case 4
    then have "int (m65_high b) + 2 \<le> int (m65_high a)" by simp
    then have "\<not> m65_value a - m65_value b < 18446744073709551616" using la lb unfolding m65_value_alt by linarith
    then show ?thesis using 4 by (simp add: subtractMagnitude_def)
  qed
qed

lemma affine_exact:
  assumes "in_int64 s" and "in_int64 e" and "in_int64 r"
  shows "checkedAffineNanoseconds s e r = (if in_int64 (s - e + r) then Some (s - e + r) else None)"
proof -
  let ?z = "\<lparr>m65_low = 0, m65_high = 0\<rparr> :: Magnitude65"
  obtain p n where pn: "fold accumulate [signedMagnitude s False, signedMagnitude e True,
      signedMagnitude r False] (?z, ?z) = (p, n)" by fastforce
  have z: "m65_value ?z = 0" by (simp add: m65_value_def)
  have "m65_value p - m65_value n = s - e + r"
  proof -
    have "m65_value p - m65_value n = sm_value (signedMagnitude s False) +
        sm_value (signedMagnitude e True) + sm_value (signedMagnitude r False)"
      using arg_cong [OF pn, of "\<lambda>x. m65_value (fst x) - m65_value (snd x)"]
      by (simp add: accumulate_value z)
    then show ?thesis using assms by (simp add: signedMagnitude_value)
  qed
  moreover define d where "d = s - e + r"
  ultimately have d: "m65_value p - m65_value n = d" by simp
  have u: "uint (word_of_int k :: u64) = k" if "0 \<le> k" "k < 2 ^ 64" for k
    using that by (simp add: uint_of_int64)
  have s63: "sint (word_of_int k :: u64) = k" if "0 \<le> k" "k < 2 ^ 63" for k
    using that by (simp add: sint_uint u signed_take_bit_int_eq_self)
  have mx: "uint (word_of_int INT64_MAX :: u64) = INT64_MAX" "uint (push_bit 63 1 :: u64) = 2 ^ 63"
    by (simp_all add: INT64_MAX_def)
  show ?thesis
  proof (cases "d \<ge> 0")
    case True
    then have ge: "m65_value p \<ge> m65_value n" using d by simp
    have "(word_of_int d :: u64) > word_of_int INT64_MAX \<longleftrightarrow> d > INT64_MAX" if "d < 2 ^ 64"
      unfolding word_less_def mx u [OF True that] ..
    then show ?thesis
      using True ge s63 [OF True] unfolding checkedAffineNanoseconds_def Let_def pn d_def [symmetric]
      by (auto simp: compareMagnitude_value subtractMagnitude_value d in_int64_def INT64_MIN_def INT64_MAX_def)
  next
    case False
    then have lt: "\<not> m65_value p \<ge> m65_value n" "m65_value n \<ge> m65_value p" using d by simp_all
    define k where "k = - d"
    have nd: "m65_value n - m65_value p = k" and k: "0 \<le> k" using d False by (simp_all add: k_def)
    have cmp: "(word_of_int k :: u64) > push_bit 63 1 \<longleftrightarrow> k > 2 ^ 63"
        "(word_of_int k :: u64) = push_bit 63 1 \<longleftrightarrow> k = 2 ^ 63" if "k < 2 ^ 64"
      unfolding word_less_def word_uint_eq_iff mx u [OF k that] by simp_all
    have "s - e + r = - k" unfolding k_def d_def by simp
    then show ?thesis
      using k lt cmp s63 [OF k] False unfolding checkedAffineNanoseconds_def Let_def pn
      by (auto simp: compareMagnitude_value subtractMagnitude_value nd in_int64_def INT64_MIN_def
          INT64_MAX_def)
  qed
qed

text \<open>
  The canonical mapper maps a source timestamp exactly when the identity and generation match, a
  presentation time is present, the duration is not negative and both affine images fit into signed
  64-bit nanoseconds; the mapped times are then the source times shifted by the difference of the
  two epochs, although intermediate sums may exceed 64 bits.
\<close>

theorem mapper_map_exact:
  assumes "in_int64 (mc_sourceEpoch m)" and "in_int64 (mc_runningTimeEpoch m)"
    and "\<forall>p. cs_presentationTime s = Some p \<longrightarrow> in_int64 p"
    and "\<forall>d. cs_decodeTime s = Some d \<longrightarrow> in_int64 d"
  shows "mapper_map m s = Inr t \<longleftrightarrow>
    (\<exists>p. cs_sourceIdentity s = mc_sourceIdentity m \<and> cs_generation s = mc_generation m \<and>
       cs_presentationTime s = Some p \<and> (\<forall>d. cs_duration s = Some d \<longrightarrow> 0 \<le> d) \<and>
       in_int64 (p - mc_sourceEpoch m + mc_runningTimeEpoch m) \<and>
       (\<forall>d. cs_decodeTime s = Some d \<longrightarrow> in_int64 (d - mc_sourceEpoch m + mc_runningTimeEpoch m)) \<and>
       t = \<lparr>mt_presentationTime = p - mc_sourceEpoch m + mc_runningTimeEpoch m,
            mt_decodeTime = map_option (\<lambda>d. d - mc_sourceEpoch m + mc_runningTimeEpoch m) (cs_decodeTime s),
            mt_duration = cs_duration s, mt_generation = mc_generation m,
            mt_sourceIdentity = mc_sourceIdentity m, mt_confidence = cs_confidence s\<rparr>)"
  using assms(3,4) affine_exact [OF _ assms(1,2)]
  by (cases "cs_presentationTime s"; cases "cs_decodeTime s"; cases "cs_duration s")
    (auto simp: mapper_map_def mapOne_def not_less split: if_splits)

theorem mapper_map_exact_witness:
  "\<exists>m s t. mapper_map m s = Inr t \<and> mt_presentationTime t = 9223372036854775807 \<and>
     cs_presentationTime s = Some 9223372036854775807 \<and> mc_sourceEpoch m = INT64_MIN \<and>
     mc_runningTimeEpoch m = INT64_MIN"
proof -
  let ?m = "\<lparr>mc_sourceEpoch = INT64_MIN, mc_runningTimeEpoch = INT64_MIN,
             mc_sourceClockMode = MpegTsPcr, mc_sourceIdentity = ''v'', mc_generation = 1\<rparr>"
  let ?s = "\<lparr>cs_presentationTime = Some 9223372036854775807, cs_decodeTime = None, cs_duration = None,
             cs_generation = 1, cs_sourceIdentity = ''v'', cs_confidence = Confidence_Locked\<rparr>"
  let ?t = "\<lparr>mt_presentationTime = 9223372036854775807, mt_decodeTime = None, mt_duration = None,
             mt_generation = 1, mt_sourceIdentity = ''v'', mt_confidence = Confidence_Locked\<rparr>"
  have "mapper_map ?m ?s = Inr ?t"
    by (subst mapper_map_exact) (simp_all add: in_int64_def INT64_MIN_def INT64_MAX_def)
  then show ?thesis by (intro exI [of _ ?m] exI [of _ ?s] exI [of _ ?t]) simp
qed

text \<open>
  Rebinding the mapper only moves forward: a reset succeeds exactly for a non-empty identity with a
  larger generation, and a refused reset leaves the binding unchanged.
\<close>

theorem mapper_reset_monotone:
  "case mapper_reset m config of
     (m', Inr _) \<Rightarrow> m' = config \<and> mc_sourceIdentity config \<noteq> [] \<and> mc_generation m < mc_generation m'
   | (m', Inl e) \<Rightarrow> m' = m \<and> toErrorInfo e = InvalidArgument \<and>
       (mc_sourceIdentity config = [] \<or> mc_generation config \<le> mc_generation m)"
  by (auto simp: mapper_reset_def toErrorInfo_def syncError_def)

end
