(* ===== verification/Sync_State_Machine.thy ===== *)
theory Sync_State_Machine
  imports Sync_Error
begin

text \<open>
  \<^verbatim>\<open>sync/MediaAvSyncStateMachine\<close>: the life cycle of an A/V synchronisation group. A transition
  either changes the state or reports a structured error; the reachable states are described
  together with the trace of accepted events since construction or the last reset.
\<close>

section \<open>Definitions\<close>

datatype MediaAvSyncState =
    Sync_Idle | AcquiringClock | PrimingStreams | Armed | Released | Running | Sync_Failed
  | Sync_Stopped | Sync_Aborted

datatype MediaAvSyncEvent =
    BeginAcquisition | ClocksLocked | StreamsPrimed | Release | Run | RequireReacquisition | Fail
  | Stop | Abort

record MediaAvSyncStateMachine =
  sync_sourceClockMode :: MediaAvSyncSourceClockMode
  sync_state :: MediaAvSyncState
  sync_generation :: "u64 option"

definition stateMachine_create :: "MediaAvSyncSourceClockMode \<Rightarrow> MediaAvSyncStateMachine" where
  "stateMachine_create mode =
     \<lparr>sync_sourceClockMode = mode, sync_state = Sync_Idle, sync_generation = None\<rparr>"

fun event_digit :: "MediaAvSyncEvent \<Rightarrow> char" where
  "event_digit BeginAcquisition = CHR ''0''"
| "event_digit ClocksLocked = CHR ''1''"
| "event_digit StreamsPrimed = CHR ''2''"
| "event_digit Release = CHR ''3''"
| "event_digit Run = CHR ''4''"
| "event_digit RequireReacquisition = CHR ''5''"
| "event_digit Fail = CHR ''6''"
| "event_digit Stop = CHR ''7''"
| "event_digit Abort = CHR ''8''"

definition invalidTransition ::
  "MediaAvSyncStateMachine \<Rightarrow> MediaAvSyncEvent \<Rightarrow> u64 \<Rightarrow> MediaAvSyncError" where
  "invalidTransition m event generation =
     \<lparr>se_code = StartupInvalidTransition, se_sourceClockMode = Some (sync_sourceClockMode m),
      se_state = ErrState_Startup, se_operation = ''state_transition_'' @ [event_digit event],
      se_expectedStreamIdentity = [], se_observedStreamIdentity = [],
      se_expectedGeneration = sync_generation m, se_observedGeneration = Some generation,
      se_observedSourceTime = None, se_sourceEpoch = 0, se_runningTimeEpoch = 0,
      se_minimumRunningTimeNs = 0, se_maximumRunningTimeNs = 0,
      se_detail = ''MediaAvSyncStateMachine rejects an invalid state transition''\<rparr>"

definition sync_terminal :: "MediaAvSyncState \<Rightarrow> bool" where
  "sync_terminal st \<longleftrightarrow> st = Sync_Failed \<or> st = Sync_Stopped \<or> st = Sync_Aborted"

definition transition ::
  "MediaAvSyncStateMachine \<Rightarrow> MediaAvSyncEvent \<Rightarrow> u64 \<Rightarrow> MediaAvSyncStateMachine \<times> (MediaAvSyncError + unit)"
  where
  "transition m event generation =
     (let refuse = (m, Inl (invalidTransition m event generation));
          enter = (\<lambda>st. (m\<lparr>sync_state := st\<rparr>, Inr ()))
      in if event = BeginAcquisition then
           (if sync_state m \<noteq> Sync_Idle \<or> sync_generation m \<noteq> None then refuse
            else (m\<lparr>sync_generation := Some generation, sync_state := AcquiringClock\<rparr>, Inr ()))
         else if event = RequireReacquisition then
           (case sync_generation m of
              None \<Rightarrow> refuse
            | Some current \<Rightarrow>
                if generation < current \<or> sync_terminal (sync_state m) then refuse
                else (m\<lparr>sync_generation := Some generation, sync_state := AcquiringClock\<rparr>, Inr ()))
         else if sync_generation m \<noteq> Some generation then refuse
         else
           (case event of
              ClocksLocked \<Rightarrow> if sync_state m \<noteq> AcquiringClock then refuse else enter PrimingStreams
            | StreamsPrimed \<Rightarrow> if sync_state m \<noteq> PrimingStreams then refuse else enter Armed
            | Release \<Rightarrow> if sync_state m \<noteq> Armed then refuse else enter Released
            | Run \<Rightarrow> if sync_state m \<noteq> Released then refuse else enter Running
            | Fail \<Rightarrow> if sync_terminal (sync_state m) then refuse else enter Sync_Failed
            | Stop \<Rightarrow> if sync_state m = Sync_Aborted then refuse else enter Sync_Stopped
            | Abort \<Rightarrow> enter Sync_Aborted
            | BeginAcquisition \<Rightarrow> refuse
            | RequireReacquisition \<Rightarrow> refuse))"

definition stateMachine_reset :: "MediaAvSyncStateMachine \<Rightarrow> MediaAvSyncStateMachine" where
  "stateMachine_reset m = m\<lparr>sync_state := Sync_Idle, sync_generation := None\<rparr>"

text \<open>Reachable machines with the accepted events since construction or the last reset.\<close>

inductive sync_reachable :: "MediaAvSyncStateMachine \<Rightarrow> (MediaAvSyncEvent \<times> u64) list \<Rightarrow> bool" where
  created: "sync_reachable (stateMachine_create mode) []"
| accepted: "sync_reachable m tr \<Longrightarrow> transition m e g = (m', Inr ()) \<Longrightarrow> sync_reachable m' (tr @ [(e, g)])"
| refused: "sync_reachable m tr \<Longrightarrow> transition m e g = (m', Inl err) \<Longrightarrow> sync_reachable m' tr"
| reset: "sync_reachable m tr \<Longrightarrow> sync_reachable (stateMachine_reset m) []"

section \<open>Properties\<close>

text \<open>The accepted events that lead from an acquisition to each forward state.\<close>

fun startup_path :: "MediaAvSyncState \<Rightarrow> MediaAvSyncEvent list option" where
  "startup_path AcquiringClock = Some []"
| "startup_path PrimingStreams = Some [ClocksLocked]"
| "startup_path Armed = Some [ClocksLocked, StreamsPrimed]"
| "startup_path Released = Some [ClocksLocked, StreamsPrimed, Release]"
| "startup_path Running = Some [ClocksLocked, StreamsPrimed, Release, Run]"
| "startup_path _ = None"

definition trace_inv :: "MediaAvSyncStateMachine \<Rightarrow> (MediaAvSyncEvent \<times> u64) list \<Rightarrow> bool" where
  "trace_inv m tr \<longleftrightarrow>
     (sync_state m = Sync_Idle \<longleftrightarrow> tr = []) \<and>
     (tr = [] \<longrightarrow> sync_generation m = None) \<and>
     (tr \<noteq> [] \<longrightarrow> sync_generation m = Some (snd (last tr))) \<and>
     sorted (map snd tr) \<and>
     (\<forall>es. startup_path (sync_state m) = Some es \<longrightarrow>
        (\<exists>pre a g. (a = BeginAcquisition \<or> a = RequireReacquisition) \<and>
           tr = pre @ (a, g) # map (\<lambda>e. (e, g)) es))"

lemma transition_refused: "transition m e g = (m', Inl err) \<Longrightarrow> m' = m"
  by (auto simp: transition_def Let_def split: if_splits option.splits MediaAvSyncEvent.splits)

lemma sorted_snoc: "sorted (xs @ [x]) \<longleftrightarrow> sorted xs \<and> (\<forall>y\<in>set xs. y \<le> x)"
  by (simp add: sorted_append)

lemma sorted_snoc_last:
  assumes "sorted xs" and "xs = [] \<or> last xs \<le> x"
  shows "sorted (xs @ [x])"
proof (cases "xs = []")
  case False
  have "y \<le> last xs" if "y \<in> set xs" for y
  proof -
    have "xs = butlast xs @ [last xs]" using False by simp
    then have "sorted (butlast xs @ [last xs])" using assms(1) by simp
    then show ?thesis using that False
      by (metis append_butlast_last_id in_set_conv_decomp sorted_snoc insertE list.set(2) order_refl
          rotate1.simps(2) set_rotate1)
  qed
  then show ?thesis using assms False unfolding sorted_snoc by force
qed simp

lemma trace_inv_accepted:
  assumes inv: "trace_inv m tr" and step: "transition m e g = (m', Inr ())"
  shows "trace_inv m' (tr @ [(e, g)])"
proof -
  have le: "tr = [] \<or> snd (last tr) \<le> g"
    using inv step
    by (auto simp: trace_inv_def transition_def Let_def split: if_splits option.splits)
  have "sorted (map snd tr @ [g])"
    by (rule sorted_snoc_last) (use inv le in \<open>auto simp: trace_inv_def last_map\<close>)
  then have srt: "sorted (map snd (tr @ [(e, g)]))" by simp
  have gen: "sync_generation m' = Some g" and idle: "sync_state m' \<noteq> Sync_Idle"
    using step by (auto simp: transition_def Let_def split: if_splits option.splits MediaAvSyncEvent.splits)
  have path: "\<exists>pre a g'. (a = BeginAcquisition \<or> a = RequireReacquisition) \<and>
      tr @ [(e, g)] = pre @ (a, g') # map (\<lambda>e. (e, g')) es"
    if es: "startup_path (sync_state m') = Some es" for es
  proof (cases "e = BeginAcquisition \<or> e = RequireReacquisition")
    case True
    then have "sync_state m' = AcquiringClock"
      using step by (auto simp: transition_def Let_def split: if_splits option.splits)
    then show ?thesis using True es by auto
  next
    case False
    then have old: "startup_path (sync_state m) = Some (butlast es) \<and> es = butlast es @ [e]"
      and g: "sync_generation m = Some g"
      using step es
      by (auto simp: transition_def Let_def split: if_splits option.splits MediaAvSyncEvent.splits)
    then obtain pre a g' where pre: "a = BeginAcquisition \<or> a = RequireReacquisition"
        "tr = pre @ (a, g') # map (\<lambda>e. (e, g')) (butlast es)"
      using inv unfolding trace_inv_def by blast
    then have "snd (last tr) = g'" by (simp add: last_map)
    then have "g' = g" using inv g pre(2) by (auto simp: trace_inv_def)
    moreover have "map (\<lambda>e. (e, g)) es = map (\<lambda>e. (e, g)) (butlast es) @ [(e, g)]"
      by (subst old [THEN conjunct2]) simp
    ultimately have "tr @ [(e, g)] = pre @ (a, g) # map (\<lambda>e. (e, g)) es" using pre by simp
    then show ?thesis using pre(1) by blast
  qed
  show ?thesis unfolding trace_inv_def using gen idle srt path by simp
qed

lemma reachable_trace_inv: "sync_reachable m tr \<Longrightarrow> trace_inv m tr"
proof (induction rule: sync_reachable.induct)
  case (created mode)
  then show ?case by (simp add: trace_inv_def stateMachine_create_def)
next
  case (accepted m tr e g m')
  then show ?case using trace_inv_accepted by blast
next
  case (refused m tr e g m' err)
  then show ?case using transition_refused by blast
next
  case (reset m tr)
  then show ?case by (simp add: trace_inv_def stateMachine_reset_def)
qed

text \<open>
  C6. In every reachable state, whatever it is, the generations of the events accepted since the last reset never decrease and the state
  machine holds the last of them. A synchronisation group is running only after an acquisition, locked clocks, primed streams, a
  release and a run event, accepted in this order, with nothing accepted in between and all for the same generation.
\<close>

theorem running_only_after_startup:
  assumes "sync_reachable m tr"
  shows "sorted (map snd tr) \<and> (tr \<noteq> [] \<longrightarrow> sync_generation m = Some (snd (last tr))) \<and>
    (sync_state m = Running \<longrightarrow>
      (\<exists>pre a g. (a = BeginAcquisition \<or> a = RequireReacquisition) \<and>
         tr = pre @ [(a, g), (ClocksLocked, g), (StreamsPrimed, g), (Release, g), (Run, g)] \<and> sync_generation m = Some g))"
proof (intro conjI impI)
  note inv = reachable_trace_inv [OF assms, unfolded trace_inv_def]
  show "sorted (map snd tr)" using inv by simp
  show "sync_generation m = Some (snd (last tr))" if "tr \<noteq> []" using inv that by auto
  assume "sync_state m = Running"
  then obtain pre a g where "a = BeginAcquisition \<or> a = RequireReacquisition"
      and tr: "tr = pre @ (a, g) # map (\<lambda>e. (e, g)) [ClocksLocked, StreamsPrimed, Release, Run]"
    using inv by fastforce
  moreover have "sync_generation m = Some g" using inv tr by auto
  ultimately show "\<exists>pre a g. (a = BeginAcquisition \<or> a = RequireReacquisition) \<and>
      tr = pre @ [(a, g), (ClocksLocked, g), (StreamsPrimed, g), (Release, g), (Run, g)] \<and> sync_generation m = Some g"
    by auto
qed

definition startup_events :: "(MediaAvSyncEvent \<times> u64) list" where
  "startup_events = [(BeginAcquisition, 3), (ClocksLocked, 3), (StreamsPrimed, 3), (Release, 3), (Run, 3)]"

theorem running_only_after_startup_witness:
  "\<exists>m. sync_reachable m startup_events \<and> sync_state m = Running \<and>
       (\<exists>pre. startup_events = pre @ [(BeginAcquisition, 3), (ClocksLocked, 3), (StreamsPrimed, 3), (Release, 3), (Run, 3)])"
proof -
  let ?mk = "\<lambda>st. \<lparr>sync_sourceClockMode = MpegTsPcr, sync_state = st, sync_generation = Some 3\<rparr>"
  have 0: "sync_reachable (stateMachine_create MpegTsPcr) []" by (rule created)
  have 1: "sync_reachable (?mk AcquiringClock) ([] @ [(BeginAcquisition, 3)])"
    by (rule accepted [OF 0]) (simp add: transition_def stateMachine_create_def)
  have 2: "sync_reachable (?mk PrimingStreams) (([] @ [(BeginAcquisition, 3)]) @ [(ClocksLocked, 3)])"
    by (rule accepted [OF 1]) (simp add: transition_def)
  have 3: "sync_reachable (?mk Armed) ((([] @ [(BeginAcquisition, 3)]) @ [(ClocksLocked, 3)]) @ [(StreamsPrimed, 3)])"
    by (rule accepted [OF 2]) (simp add: transition_def)
  have 4: "sync_reachable (?mk Released)
      (((([] @ [(BeginAcquisition, 3)]) @ [(ClocksLocked, 3)]) @ [(StreamsPrimed, 3)]) @ [(Release, 3)])"
    by (rule accepted [OF 3]) (simp add: transition_def)
  have 5: "sync_reachable (?mk Running)
      ((((([] @ [(BeginAcquisition, 3)]) @ [(ClocksLocked, 3)]) @ [(StreamsPrimed, 3)]) @ [(Release, 3)]) @ [(Run, 3)])"
    by (rule accepted [OF 4]) (simp add: transition_def)
  then have "sync_reachable (?mk Running) startup_events" by (simp add: startup_events_def)
  from this running_only_after_startup [OF this] show ?thesis
    by (intro exI [of _ "?mk Running"]) (auto simp: startup_events_def)
qed

text \<open>
  A refused event changes nothing and reports an invalid transition with the observed generation;
  an accepted event never lowers the generation, never leaves the terminal states and never leaves
  the aborted state.
\<close>

theorem transition_safe:
  "case transition m e g of
     (m', Inl err) \<Rightarrow> m' = m \<and> se_code err = StartupInvalidTransition \<and> se_observedGeneration err = Some g \<and>
                     toErrorInfo err = InvalidArgument
   | (m', Inr _) \<Rightarrow> sync_generation m' = Some g \<and> (\<forall>g0. sync_generation m = Some g0 \<longrightarrow> g0 \<le> g) \<and>
                     (sync_terminal (sync_state m) \<longrightarrow> sync_terminal (sync_state m')) \<and>
                     (sync_state m = Sync_Aborted \<longrightarrow> sync_state m' = Sync_Aborted)"
  by (cases e; cases "sync_generation m")
    (auto simp: transition_def Let_def invalidTransition_def toErrorInfo_def sync_terminal_def)

theorem transition_safe_witness:
  "case transition \<lparr>sync_sourceClockMode = MpegTsPcr, sync_state = Sync_Failed, sync_generation = Some 2\<rparr> Stop 2 of
     (m', r) \<Rightarrow> r = Inr () \<and> sync_terminal (sync_state m')"
  using transition_safe [where e = Stop and g = 2 and
      m = "\<lparr>sync_sourceClockMode = MpegTsPcr, sync_state = Sync_Failed, sync_generation = Some 2\<rparr>"]
  by (simp add: transition_def sync_terminal_def)

end
