(* ===== verification/Queue_Interface.thy ===== *)
theory Queue_Interface
  imports Graph_Types "HOL-Library.Sublist"
begin

unbundle bit_operations_syntax

text \<open>
  The vocabulary of \<^verbatim>\<open>runtime/queue\<close> and the contract of the \<^verbatim>\<open>MediaQueue\<close> interface as a locale.
  A buffer is represented by its object identity and its flags, the only part of a buffer the queues
  read. A \<^verbatim>\<open>MediaBufferRef\<close> may be null. Both queue implementations interpret the locale; the
  theorems about arbitrary sequences of queue operations are proved once inside it.
\<close>

section \<open>Buffers, outcomes and metrics\<close>

record MediaBuffer =
  buffer_object :: nat
  buffer_flags :: u32

definition flag_KeyFrame :: u32 where
  "flag_KeyFrame = push_bit 2 1"

definition hasFlag :: "u32 \<Rightarrow> u32 \<Rightarrow> bool" where
  "hasFlag flags flag \<longleftrightarrow> flags AND flag \<noteq> 0"

definition isKeyFrame :: "MediaBuffer \<Rightarrow> bool" where
  "isKeyFrame b \<longleftrightarrow> hasFlag (buffer_flags b) flag_KeyFrame"

type_synonym MediaBufferRef = "MediaBuffer option"

datatype MediaQueuePushOutcome = Accepted | Dropped | Outcome_WouldBlock | Closed | Aborted

record MediaQueueMetrics =
  qm_pushed :: u64
  qm_popped :: u64
  qm_dropped :: u64
  qm_blockedPushes :: u64
  qm_failedPushes :: u64
  qm_failedPops :: u64
  qm_blockedProducers :: nat
  qm_blockedConsumers :: nat
  qm_currentSize :: nat
  qm_peakSize :: nat

definition empty_metrics :: MediaQueueMetrics where
  "empty_metrics =
     \<lparr>qm_pushed = 0, qm_popped = 0, qm_dropped = 0, qm_blockedPushes = 0, qm_failedPushes = 0,
      qm_failedPops = 0, qm_blockedProducers = 0, qm_blockedConsumers = 0, qm_currentSize = 0,
      qm_peakSize = 0\<rparr>"

definition overflowPolicyDropsIncoming :: "MediaQueuePolicy \<Rightarrow> MediaBufferRef \<Rightarrow> bool" where
  "overflowPolicyDropsIncoming policy buffer \<longleftrightarrow>
     (if qp_overflowPolicy policy = DropNewest then True
      else qp_overflowPolicy policy = DropNonKeyFrame \<and>
           (case buffer of None \<Rightarrow> False | Some b \<Rightarrow> \<not> isKeyFrame b))"

text \<open>The test \<^verbatim>\<open>queued && !queued->isKeyFrame()\<close> of both queues.\<close>

definition is_nonkey :: "MediaBufferRef \<Rightarrow> bool" where
  "is_nonkey r \<longleftrightarrow> (case r of None \<Rightarrow> False | Some b \<Rightarrow> \<not> isKeyFrame b)"

text \<open>The result of a blocking call: it returns, or it waits on a condition variable.\<close>

datatype 'a Blocking = Returns 'a | Waits

section \<open>Runs of queue operations\<close>

datatype QueueOp = Op_Push MediaBufferRef | Op_TryPop | Op_Close | Op_Abort | Op_Clear

text \<open>
  A run returns the final queue, the buffers that were accepted and the references that were popped.
\<close>

fun queue_run ::
  "('q \<Rightarrow> MediaBufferRef \<Rightarrow> 'q \<times> MediaQueuePushOutcome) \<Rightarrow> ('q \<Rightarrow> 'q \<times> MediaBufferRef option) \<Rightarrow>
   ('q \<Rightarrow> 'q) \<Rightarrow> ('q \<Rightarrow> 'q) \<Rightarrow> ('q \<Rightarrow> 'q) \<Rightarrow> 'q \<Rightarrow> QueueOp list \<Rightarrow>
   'q \<times> MediaBufferRef list \<times> MediaBufferRef list" where
  "queue_run push pop close abort clear q [] = (q, [], [])"
| "queue_run push pop close abort clear q (Op_Push r # ops) =
     (let (q, outcome) = push q r;
          (q, accepted, popped) = queue_run push pop close abort clear q ops
      in (q, if outcome = Accepted then r # accepted else accepted, popped))"
| "queue_run push pop close abort clear q (Op_TryPop # ops) =
     (let (q, out) = pop q;
          (q, accepted, popped) = queue_run push pop close abort clear q ops
      in (q, accepted, case out of None \<Rightarrow> popped | Some r \<Rightarrow> r # popped))"
| "queue_run push pop close abort clear q (Op_Close # ops) =
     queue_run push pop close abort clear (close q) ops"
| "queue_run push pop close abort clear q (Op_Abort # ops) =
     queue_run push pop close abort clear (abort q) ops"
| "queue_run push pop close abort clear q (Op_Clear # ops) =
     queue_run push pop close abort clear (clear q) ops"

section \<open>The contract of a media queue\<close>

locale media_queue =
  fixes wf :: "'q \<Rightarrow> bool"
    and contents :: "'q \<Rightarrow> MediaBufferRef list"
    and limit :: "'q \<Rightarrow> nat option"
    and lossless :: "'q \<Rightarrow> bool"
    and closed :: "'q \<Rightarrow> bool"
    and push :: "'q \<Rightarrow> MediaBufferRef \<Rightarrow> 'q \<times> MediaQueuePushOutcome"
    and pop :: "'q \<Rightarrow> 'q \<times> MediaBufferRef option"
    and close :: "'q \<Rightarrow> 'q"
    and abort :: "'q \<Rightarrow> 'q"
    and clear :: "'q \<Rightarrow> 'q"
  assumes wf_ops: "wf q \<Longrightarrow> wf (fst (push q r)) \<and> wf (fst (pop q)) \<and> wf (close q) \<and> wf (abort q) \<and> wf (clear q)"
    and limit_ops: "limit (fst (push q r)) = limit q \<and> limit (fst (pop q)) = limit q \<and>
          limit (close q) = limit q \<and> limit (abort q) = limit q \<and> limit (clear q) = limit q"
    and lossless_ops: "lossless (fst (push q r)) = lossless q \<and> lossless (fst (pop q)) = lossless q \<and>
          lossless (close q) = lossless q \<and> lossless (abort q) = lossless q \<and> lossless (clear q) = lossless q"
    and closed_ops: "closed q \<Longrightarrow> closed (fst (push q r)) \<and> closed (fst (pop q)) \<and> closed (clear q)"
    and closed_close: "closed (close q) \<and> closed (abort q)"
    and bounded: "wf q \<Longrightarrow> limit q = Some n \<Longrightarrow> length (contents q) \<le> n"
    and push_accepted: "wf q \<Longrightarrow> push q r = (q', Accepted) \<Longrightarrow>
          r \<noteq> None \<and> (\<exists>ys. subseq ys (contents q) \<and> contents q' = ys @ [r])"
    and push_lossless: "wf q \<Longrightarrow> lossless q \<Longrightarrow> push q r = (q', Accepted) \<Longrightarrow> contents q' = contents q @ [r]"
    and push_rejected: "wf q \<Longrightarrow> push q r = (q', out) \<Longrightarrow> out \<noteq> Accepted \<Longrightarrow> contents q' = contents q"
    and push_closed: "wf q \<Longrightarrow> closed q \<Longrightarrow> push q r = (q', out) \<Longrightarrow> out \<noteq> Accepted"
    and pop_empty: "wf q \<Longrightarrow> contents q = [] \<Longrightarrow> snd (pop q) = None \<and> contents (fst (pop q)) = []"
    and pop_cons: "wf q \<Longrightarrow> contents q = r # rs \<Longrightarrow> snd (pop q) = Some r \<and> contents (fst (pop q)) = rs"
    and contents_close: "wf q \<Longrightarrow> contents (close q) = contents q \<and> contents (abort q) = contents q"
    and contents_clear: "wf q \<Longrightarrow> contents (clear q) = []"
begin

abbreviation run :: "'q \<Rightarrow> QueueOp list \<Rightarrow> 'q \<times> MediaBufferRef list \<times> MediaBufferRef list" where
  "run \<equiv> queue_run push pop close abort clear"

lemma run_wf: "wf q \<Longrightarrow> run q ops = (q', acc, out) \<Longrightarrow> wf q' \<and> limit q' = limit q"
proof (induction ops arbitrary: q acc out)
  case (Cons op ops)
  then show ?case
    using wf_ops limit_ops by (cases op) (auto split: prod.splits, (metis fst_conv)+)
qed auto

lemma run_bounded: "wf q \<Longrightarrow> limit q = Some n \<Longrightarrow> run q ops = (q', acc, out) \<Longrightarrow> length (contents q') \<le> n"
  using run_wf bounded by metis

lemma pop_step: "wf q \<Longrightarrow> pop q = (q', out) \<Longrightarrow> contents q = (case out of None \<Rightarrow> [] | Some r \<Rightarrow> [r]) @ contents q'"
  using pop_empty [of q] pop_cons [of q] by (cases "contents q") (auto split: option.splits)

lemma push_step:
  assumes "wf q" and "push q r = (q', out)"
  shows "subseq (contents q') (contents q @ (if out = Accepted then [r] else []))"
proof (cases "out = Accepted")
  case True
  then obtain ys where "subseq ys (contents q)" "contents q' = ys @ [r]"
    using push_accepted [of q r q'] assms by auto
  then show ?thesis using True by (simp add: list_emb_append_mono)
next
  case False
  then show ?thesis using push_rejected [OF assms] by simp
qed

lemma run_fifo:
  "wf q \<Longrightarrow> run q ops = (q', acc, out) \<Longrightarrow> subseq (out @ contents q') (contents q @ acc)"
proof (induction ops arbitrary: q acc out)
  case (Cons op ops)
  show ?case
  proof (cases op)
    case (Op_Push r)
    obtain q1 o1 where p: "push q r = (q1, o1)" by fastforce
    obtain acc1 where r1: "run q1 ops = (q', acc1, out)" and acc: "acc = (if o1 = Accepted then r # acc1 else acc1)"
      using Cons.prems(2) p unfolding Op_Push by (auto split: prod.splits)
    have "wf q1" using wf_ops [OF Cons.prems(1), of r] p by simp
    from Cons.IH [OF this r1] have "subseq (out @ contents q') (contents q1 @ acc1)" .
    also have "subseq (contents q1 @ acc1) ((contents q @ (if o1 = Accepted then [r] else [])) @ acc1)"
      by (rule list_emb_append_mono [OF push_step [OF Cons.prems(1) p] subseq_order.order_refl])
    also have "\<dots> = contents q @ acc" unfolding acc by simp
    finally show ?thesis .
  next
    case Op_TryPop
    obtain q1 o1 where p: "pop q = (q1, o1)" by fastforce
    obtain out1 where r1: "run q1 ops = (q', acc, out1)" and out: "out = (case o1 of None \<Rightarrow> [] | Some r \<Rightarrow> [r]) @ out1"
      using Cons.prems(2) p unfolding Op_TryPop by (auto split: prod.splits option.splits)
    have "wf q1" using wf_ops [OF Cons.prems(1)] p by simp
    from Cons.IH [OF this r1] have "subseq (out1 @ contents q') (contents q1 @ acc)" .
    then show ?thesis
      unfolding out pop_step [OF Cons.prems(1) p]
      by (simp add: list_emb_append_mono split: option.split)
  next
    case Op_Close
    then show ?thesis
      using Cons.IH [of "close q"] Cons.prems wf_ops contents_close by simp
  next
    case Op_Abort
    then show ?thesis
      using Cons.IH [of "abort q"] Cons.prems wf_ops contents_close by simp
  next
    case Op_Clear
    then have "subseq (out @ contents q') acc"
      using Cons.IH [of "clear q"] Cons.prems wf_ops contents_clear by simp
    then show ?thesis by (rule subseq_order.order_trans) (simp add: list_emb_append2)
  qed
qed auto

lemma run_lossless:
  "wf q \<Longrightarrow> lossless q \<Longrightarrow> Op_Clear \<notin> set ops \<Longrightarrow> run q ops = (q', acc, out) \<Longrightarrow>
     out @ contents q' = contents q @ acc"
proof (induction ops arbitrary: q acc out)
  case (Cons op ops)
  show ?case
  proof (cases op)
    case (Op_Push r)
    obtain q1 o1 where p: "push q r = (q1, o1)" by fastforce
    obtain acc1 where r1: "run q1 ops = (q', acc1, out)" and acc: "acc = (if o1 = Accepted then r # acc1 else acc1)"
      using Cons.prems(4) p unfolding Op_Push by (auto split: prod.splits)
    have "wf q1" "lossless q1" using wf_ops [OF Cons.prems(1), of r] lossless_ops [of q r] Cons.prems(2) p by simp_all
    from Cons.IH [OF this _ r1] have "out @ contents q' = contents q1 @ acc1" using Cons.prems(3) by simp
    moreover have "contents q1 = contents q @ (if o1 = Accepted then [r] else [])"
      using push_lossless [OF Cons.prems(1,2)] push_rejected [OF Cons.prems(1) p] p by auto
    ultimately show ?thesis unfolding acc by simp
  next
    case Op_TryPop
    obtain q1 o1 where p: "pop q = (q1, o1)" by fastforce
    obtain out1 where r1: "run q1 ops = (q', acc, out1)" and out: "out = (case o1 of None \<Rightarrow> [] | Some r \<Rightarrow> [r]) @ out1"
      using Cons.prems(4) p unfolding Op_TryPop by (auto split: prod.splits option.splits)
    have "wf q1" "lossless q1" using wf_ops [OF Cons.prems(1)] lossless_ops [of q] Cons.prems(2) p by simp_all
    from Cons.IH [OF this _ r1] show ?thesis
      using Cons.prems(3) unfolding out pop_step [OF Cons.prems(1) p] by simp
  next
    case Op_Close
    then show ?thesis
      using Cons.IH [of "close q"] Cons.prems wf_ops contents_close lossless_ops by simp
  next
    case Op_Abort
    then show ?thesis
      using Cons.IH [of "abort q"] Cons.prems wf_ops contents_close lossless_ops by simp
  qed (use Cons.prems in simp)
qed auto

lemma run_closed:
  "wf q \<Longrightarrow> closed q \<Longrightarrow> run q ops = (q', acc, out) \<Longrightarrow> acc = []"
proof (induction ops arbitrary: q acc out)
  case (Cons op ops)
  then show ?case
    using wf_ops closed_ops closed_close push_closed
    by (cases op) (auto split: prod.splits if_splits, (metis fst_conv)+)
qed auto

end

end
