(* ===== verification/Blocking_Queue_Storage.thy ===== *)
theory Blocking_Queue_Storage
  imports Queue_Interface
begin

text \<open>
  \<^verbatim>\<open>runtime/queue/MediaBlockingQueueStorage\<close>: the double-ended queue or pre-allocated ring behind a
  blocking queue. Sizes and indices are natural numbers: a ring index is at most twice the capacity
  before it is reduced, far below the range of \<^verbatim>\<open>std::size_t\<close>. Exceptions of the constructor are
  failures; whether the preparation allocator succeeds is a parameter. The ring operations are shown
  to implement the list operations, through a locale for what the blocking queue relies on.
\<close>

section \<open>Definitions\<close>

record MediaBlockingQueueStorage =
  st_mode :: MediaQueueStorageMode
  st_deque :: "MediaBufferRef list"
  st_ring :: "MediaBufferRef list"
  st_ringHead :: nat
  st_ringSize :: nat

type_synonym PreparedPush = "MediaBufferRef list"

definition preparedPush_replace :: "PreparedPush \<Rightarrow> MediaBufferRef list \<Rightarrow> PreparedPush \<times> Status" where
  "preparedPush_replace prepared buffers =
     (if length buffers \<noteq> length prepared then (prepared, failure InvalidArgument)
      else if \<exists>b\<in>set buffers. b = None then (prepared, failure InvalidArgument)
      else (buffers, success ()))"

definition storage_create :: "MediaQueuePolicy \<Rightarrow> MediaBlockingQueueStorage Result" where
  "storage_create policy =
     (if qp_storageMode policy = Storage_AtomicPrepared then
        (if \<not> isBoundedQueue policy then failure InvalidArgument
         else success \<lparr>st_mode = Storage_AtomicPrepared, st_deque = [],
                       st_ring = replicate (qp_capacity policy) None, st_ringHead = 0, st_ringSize = 0\<rparr>)
      else if qp_storageMode policy \<noteq> Storage_Deque then failure InvalidArgument
      else success \<lparr>st_mode = Storage_Deque, st_deque = [], st_ring = [], st_ringHead = 0,
                    st_ringSize = 0\<rparr>)"

definition storage_valid :: "MediaBlockingQueueStorage \<Rightarrow> bool" where
  "storage_valid s \<longleftrightarrow> st_mode s = Storage_Deque \<or> st_mode s = Storage_AtomicPrepared"

definition supportsPreparedPush :: "MediaBlockingQueueStorage \<Rightarrow> bool" where
  "supportsPreparedPush s \<longleftrightarrow> st_mode s = Storage_AtomicPrepared"

definition storage_size :: "MediaBlockingQueueStorage \<Rightarrow> nat" where
  "storage_size s = (if st_mode s = Storage_Deque then length (st_deque s) else st_ringSize s)"

definition storage_empty :: "MediaBlockingQueueStorage \<Rightarrow> bool" where
  "storage_empty s \<longleftrightarrow> storage_size s = 0"

definition ringIndex :: "MediaBlockingQueueStorage \<Rightarrow> nat \<Rightarrow> nat" where
  "ringIndex s offset = (st_ringHead s + offset) mod length (st_ring s)"

definition storage_front :: "MediaBlockingQueueStorage \<Rightarrow> MediaBufferRef" where
  "storage_front s = (if st_mode s = Storage_Deque then hd (st_deque s) else st_ring s ! st_ringHead s)"

definition storage_at :: "MediaBlockingQueueStorage \<Rightarrow> nat \<Rightarrow> MediaBufferRef" where
  "storage_at s offset =
     (if st_mode s = Storage_Deque then st_deque s ! offset else st_ring s ! ringIndex s offset)"

definition pushBackPrepared :: "MediaBlockingQueueStorage \<Rightarrow> MediaBufferRef \<Rightarrow> MediaBlockingQueueStorage" where
  "pushBackPrepared s buffer =
     s\<lparr>st_ring := (st_ring s)[ringIndex s (st_ringSize s) := buffer], st_ringSize := st_ringSize s + 1\<rparr>"

definition pushBack :: "MediaBlockingQueueStorage \<Rightarrow> MediaBufferRef \<Rightarrow> MediaBlockingQueueStorage" where
  "pushBack s buffer =
     (if st_mode s = Storage_Deque then s\<lparr>st_deque := st_deque s @ [buffer]\<rparr>
      else pushBackPrepared s buffer)"

definition popFront :: "MediaBlockingQueueStorage \<Rightarrow> MediaBlockingQueueStorage" where
  "popFront s =
     (if st_mode s = Storage_Deque then s\<lparr>st_deque := tl (st_deque s)\<rparr>
      else
        (let ring = (st_ring s)[st_ringHead s := None];
             head = ringIndex s 1;
             queued = st_ringSize s - 1
         in s\<lparr>st_ring := ring, st_ringHead := (if queued = 0 then 0 else head), st_ringSize := queued\<rparr>))"

text \<open>The shifting loop of \<^verbatim>\<open>erase\<close>: moving a slot leaves its source null.\<close>

function erase_shift :: "(nat \<Rightarrow> nat) \<Rightarrow> nat \<Rightarrow> nat \<Rightarrow> MediaBufferRef list \<Rightarrow> MediaBufferRef list" where
  "erase_shift slot queued index ring =
     (if index + 1 < queued then
        erase_shift slot queued (index + 1)
          (ring[slot index := ring ! slot (index + 1), slot (index + 1) := None])
      else ring)"
  by pat_completeness auto
termination by (relation "measure (\<lambda>(_, queued, index, _). queued - index)") auto

definition storage_erase :: "MediaBlockingQueueStorage \<Rightarrow> nat \<Rightarrow> MediaBlockingQueueStorage" where
  "storage_erase s offset =
     (if st_mode s = Storage_Deque then
        s\<lparr>st_deque := take offset (st_deque s) @ drop (offset + 1) (st_deque s)\<rparr>
      else
        (let ring = erase_shift (ringIndex s) (st_ringSize s) offset (st_ring s);
             ring = ring[ringIndex s (st_ringSize s - 1) := None];
             queued = st_ringSize s - 1
         in s\<lparr>st_ring := ring, st_ringSize := queued,
              st_ringHead := (if queued = 0 then 0 else st_ringHead s)\<rparr>))"

definition storage_clear :: "MediaBlockingQueueStorage \<Rightarrow> MediaBlockingQueueStorage" where
  "storage_clear s =
     (if st_mode s = Storage_Deque then s\<lparr>st_deque := []\<rparr>
      else s\<lparr>st_ring := fold (\<lambda>offset ring. ring[ringIndex s offset := None]) [0..<st_ringSize s] (st_ring s),
             st_ringHead := 0, st_ringSize := 0\<rparr>)"

definition storage_prepare ::
  "(nat \<Rightarrow> bool) \<Rightarrow> MediaBlockingQueueStorage \<Rightarrow> MediaBufferRef list \<Rightarrow> PreparedPush Result" where
  "storage_prepare allocates s buffers =
     (if \<not> supportsPreparedPush s then failure InvalidArgument
      else if \<not> allocates (length buffers) then failure InternalError
      else if \<exists>b\<in>set buffers. b = None then failure InvalidArgument
      else success buffers)"

definition storage_publish :: "MediaBlockingQueueStorage \<Rightarrow> PreparedPush \<Rightarrow> MediaBlockingQueueStorage \<times> PreparedPush" where
  "storage_publish s prepared = (fold (\<lambda>b s. pushBackPrepared s b) prepared s, [])"

declare erase_shift.simps [simp del]

section \<open>The contents of a storage\<close>

definition ring_view :: "(nat \<Rightarrow> nat) \<Rightarrow> nat \<Rightarrow> MediaBufferRef list \<Rightarrow> MediaBufferRef list" where
  "ring_view slot n ring = map (\<lambda>i. ring ! slot i) [0..<n]"

definition storage_list :: "MediaBlockingQueueStorage \<Rightarrow> MediaBufferRef list" where
  "storage_list s =
     (if st_mode s = Storage_Deque then st_deque s else ring_view (ringIndex s) (st_ringSize s) (st_ring s))"

definition storage_room :: "MediaBlockingQueueStorage \<Rightarrow> nat option" where
  "storage_room s = (if st_mode s = Storage_Deque then None else Some (length (st_ring s)))"

text \<open>
  The ring is never over-full, its head is a slot, and every slot outside the queued range is null,
  so the storage keeps no reference to a buffer it has handed out.
\<close>

definition storage_wf :: "MediaBlockingQueueStorage \<Rightarrow> bool" where
  "storage_wf s \<longleftrightarrow>
     st_mode s = Storage_Deque \<or>
     (st_mode s = Storage_AtomicPrepared \<and> 0 < length (st_ring s) \<and> st_ringHead s < length (st_ring s) \<and>
      st_ringSize s \<le> length (st_ring s) \<and>
      (\<forall>i. st_ringSize s \<le> i \<and> i < length (st_ring s) \<longrightarrow> st_ring s ! ringIndex s i = None))"

section \<open>Ring arithmetic\<close>

lemma mod_slot_inj:
  fixes n :: nat
  assumes "i < n" and "j < n" and "(h + i) mod n = (h + j) mod n"
  shows "i = j"
proof -
  have le: "a = b" if ab: "a \<le> b" "b < n" "(h + a) mod n = (h + b) mod n" for a b
  proof -
    have "n dvd (h + b) - (h + a)"
      using ab mod_eq_dvd_iff_nat [of "h + a" "h + b" n] by simp
    then have "n dvd b - a" by simp
    then show ?thesis using ab by (meson diff_is_0_eq dvd_imp_le le_antisym le_less_trans less_imp_diff_less
          linorder_not_le zero_less_diff not_less)
  qed
  show ?thesis
  proof (cases "i \<le> j")
    case True
    then show ?thesis using le [of i j] assms by simp
  next
    case False
    then show ?thesis using le [of j i] assms by simp
  qed
qed

lemma ringIndex_less: "0 < length (st_ring s) \<Longrightarrow> ringIndex s i < length (st_ring s)"
  by (simp add: ringIndex_def)

lemma ringIndex_inj:
  "i < length (st_ring s) \<Longrightarrow> j < length (st_ring s) \<Longrightarrow> ringIndex s i = ringIndex s j \<longleftrightarrow> i = j"
  using mod_slot_inj unfolding ringIndex_def by blast

text \<open>A slot function that is injective on an initial segment and stays inside the array.\<close>

definition good_slots :: "(nat \<Rightarrow> nat) \<Rightarrow> nat \<Rightarrow> nat \<Rightarrow> bool" where
  "good_slots slot n len \<longleftrightarrow> (\<forall>i<n. slot i < len) \<and> inj_on slot {..<n}"

lemma length_ring_view [simp]: "length (ring_view slot n ring) = n"
  by (simp add: ring_view_def)

lemma nth_ring_view [simp]: "i < n \<Longrightarrow> ring_view slot n ring ! i = ring ! slot i"
  by (simp add: ring_view_def)

lemma ring_view_update:
  assumes "good_slots slot n (length ring)" and "i < n"
  shows "ring_view slot n (ring[slot i := v]) = (ring_view slot n ring)[i := v]"
proof (rule nth_equalityI)
  fix j assume "j < length (ring_view slot n (ring[slot i := v]))"
  then have j: "j < n" by simp
  have "slot i = slot j \<longleftrightarrow> i = j" using assms j by (auto simp: good_slots_def inj_on_def)
  then show "ring_view slot n (ring[slot i := v]) ! j = (ring_view slot n ring)[i := v] ! j"
    using assms j by (auto simp: nth_list_update good_slots_def)
qed simp

fun list_shift :: "nat \<Rightarrow> nat \<Rightarrow> 'a option list \<Rightarrow> 'a option list" where
  "list_shift 0 i xs = xs"
| "list_shift (Suc k) i xs = list_shift k (i + 1) (xs[i := xs ! (i + 1), i + 1 := None])"

lemma list_shift_result:
  "i + k + 1 = length xs \<Longrightarrow> list_shift k i xs = take i xs @ drop (i + 1) xs @ [if k = 0 then xs ! i else None]"
proof (induction k arbitrary: i xs)
  case 0
  then have "take i xs @ [xs ! i] = xs" by (metis add.right_neutral add_0_right lessI order_refl take_Suc_conv_app_nth take_all_iff Suc_eq_plus1)
  then show ?case using 0 by simp
next
  case (Suc k)
  let ?ys = "xs[i := xs ! (i + 1), i + 1 := None]"
  have i1: "i + 1 < length xs" using Suc.prems by simp
  have t: "take (i + 1) ?ys = take i xs @ [xs ! (i + 1)]"
    using i1 by (simp add: take_Suc_conv_app_nth take_update_cancel)
  have d: "drop (i + 1 + 1) ?ys = drop (i + 2) xs" by (simp add: drop_update_cancel)
  have e: "drop (i + 1) xs = xs ! (i + 1) # drop (i + 2) xs"
    using i1 by (metis Cons_nth_drop_Suc add_2_eq_Suc' Suc_eq_plus1)
  have n: "?ys ! (i + 1) = None" using i1 by simp
  have "list_shift k (i + 1) ?ys = take (i + 1) ?ys @ drop (i + 1 + 1) ?ys @ [if k = 0 then ?ys ! (i + 1) else None]"
    by (rule Suc.IH) (use Suc.prems in simp)
  then show ?case unfolding t d n e by simp
qed

lemma erase_shift_length [simp]: "length (erase_shift slot n i ring) = length ring"
  by (induction slot n i ring rule: erase_shift.induct) (subst erase_shift.simps, auto)

lemma erase_shift_view:
  assumes "good_slots slot m (length ring)" and "n \<le> m" and "i + k + 1 = n"
  shows "ring_view slot m (erase_shift slot n i ring) = list_shift k i (ring_view slot m ring)"
  using assms
proof (induction k arbitrary: i ring)
  case 0
  then show ?case by (subst erase_shift.simps) simp
next
  case (Suc k)
  let ?r1 = "ring[slot i := ring ! slot (i + 1)]"
  have g: "good_slots slot m (length ?r1)" using Suc.prems(1) by simp
  have "erase_shift slot n i ring = erase_shift slot n (i + 1) (?r1[slot (i + 1) := None])"
    using Suc.prems(3) by (subst erase_shift.simps) simp
  also have "ring_view slot m \<dots> = list_shift k (i + 1) (ring_view slot m (?r1[slot (i + 1) := None]))"
    by (rule Suc.IH) (use Suc.prems in simp_all)
  also have "ring_view slot m (?r1[slot (i + 1) := None]) =
      (ring_view slot m ring)[i := ring_view slot m ring ! (i + 1), i + 1 := None]"
    using ring_view_update [OF g, of "i + 1" None] ring_view_update [OF Suc.prems(1), of i] Suc.prems by simp
  finally show ?case by simp
qed

lemma erase_shift_other:
  "\<forall>i<n. slot i \<noteq> p \<Longrightarrow> erase_shift slot n i ring ! p = ring ! p"
proof (induction slot n i ring rule: erase_shift.induct)
  case (1 slot n i ring)
  show ?case
  proof (cases "i + 1 < n")
    case True
    then have "erase_shift slot n (i + 1) (ring[slot i := ring ! slot (i + 1), slot (i + 1) := None]) ! p =
        ring[slot i := ring ! slot (i + 1), slot (i + 1) := None] ! p"
      using 1 by blast
    moreover have "slot i \<noteq> p" "slot (i + 1) \<noteq> p" using 1(2) True by simp_all
    ultimately show ?thesis using True by (subst erase_shift.simps) simp
  next
    case False
    then show ?thesis by (subst erase_shift.simps) simp
  qed
qed

lemma fold_reset_nth:
  "p < length ring \<Longrightarrow>
     fold (\<lambda>i ring. ring[f i := None]) is ring ! p = (if p \<in> f ` set is then None else ring ! p)"
  by (induction "is" arbitrary: ring) (auto simp: nth_list_update)

lemma fold_reset_length [simp]: "length (fold (\<lambda>i ring. ring[f i := None]) is ring) = length ring"
  by (induction "is" arbitrary: ring) auto

lemma ring_slots_onto:
  assumes "st_ringHead s < length (st_ring s)" and "p < length (st_ring s)"
  shows "\<exists>i<length (st_ring s). ringIndex s i = p"
proof -
  let ?n = "length (st_ring s)"
  have "inj_on (ringIndex s) {..<?n}" using ringIndex_inj by (auto simp: inj_on_def)
  moreover have "0 < ?n" using assms(2) by linarith
  then have "ringIndex s ` {..<?n} \<subseteq> {..<?n}" using ringIndex_less by blast
  ultimately have "ringIndex s ` {..<?n} = {..<?n}" by (simp add: endo_inj_surj)
  then have "p \<in> ringIndex s ` {..<?n}" using assms(2) by simp
  then show ?thesis by auto
qed

lemma ring_good_slots:
  assumes "0 < length (st_ring s)" and "n \<le> length (st_ring s)"
  shows "good_slots (ringIndex s) n (length (st_ring s))"
  using assms ringIndex_inj [of _ s] ringIndex_less [of s] unfolding good_slots_def inj_on_def by auto

section \<open>Refinement of the list operations\<close>

lemma storage_create_ok:
  assumes "storage_create policy = Inr s"
  shows "storage_wf s \<and> storage_list s = [] \<and>
    storage_room s = (if qp_storageMode policy = Storage_AtomicPrepared then Some (qp_capacity policy) else None)"
  using assms
  by (auto simp: storage_create_def storage_wf_def storage_list_def storage_room_def ring_view_def
      isBoundedQueue_def ringIndex_def split: if_splits)

lemma storage_size_list: "storage_size s = length (storage_list s)"
  by (simp add: storage_size_def storage_list_def)

lemma storage_room_le: "storage_wf s \<Longrightarrow> storage_room s = Some n \<Longrightarrow> length (storage_list s) \<le> n"
  by (auto simp: storage_wf_def storage_room_def storage_list_def split: if_splits)

lemma storage_at_list: "i < length (storage_list s) \<Longrightarrow> storage_at s i = storage_list s ! i"
  by (simp add: storage_at_def storage_list_def split: if_splits)

lemma storage_front_list: "storage_wf s \<Longrightarrow> storage_list s \<noteq> [] \<Longrightarrow> storage_front s = hd (storage_list s)"
  by (auto simp: storage_front_def storage_list_def storage_wf_def ring_view_def ringIndex_def hd_map upt_rec)

lemma pushBack_list:
  assumes wf: "storage_wf s" and room: "\<forall>n. storage_room s = Some n \<longrightarrow> length (storage_list s) < n"
  shows "storage_wf (pushBack s b)" and "storage_list (pushBack s b) = storage_list s @ [b]"
    and "storage_room (pushBack s b) = storage_room s"
proof -
  let ?r = "st_ring s" and ?n = "st_ringSize s"
  let ?s' = "pushBackPrepared s b"
  have "storage_wf ?s' \<and> storage_list ?s' = storage_list s @ [b] \<and> storage_room ?s' = storage_room s"
    if m: "st_mode s \<noteq> Storage_Deque"
  proof -
    have w: "st_mode s = Storage_AtomicPrepared" "0 < length ?r" "st_ringHead s < length ?r" "?n < length ?r"
        "\<And>i. ?n \<le> i \<Longrightarrow> i < length ?r \<Longrightarrow> ?r ! ringIndex s i = None"
      using wf room m by (auto simp: storage_wf_def storage_room_def storage_list_def)
    have idx: "ringIndex ?s' = ringIndex s" by (simp add: fun_eq_iff ringIndex_def pushBackPrepared_def)
    have g: "good_slots (ringIndex s) (Suc ?n) (length ?r)" by (rule ring_good_slots) (use w in simp_all)
    have "ring_view (ringIndex s) (Suc ?n) (?r[ringIndex s ?n := b]) = (ring_view (ringIndex s) (Suc ?n) ?r)[?n := b]"
      by (rule ring_view_update [OF g]) simp
    also have "\<dots> = ring_view (ringIndex s) ?n ?r @ [b]" by (simp add: ring_view_def list_update_append)
    finally have l: "storage_list ?s' = storage_list s @ [b]"
      using m idx by (simp add: storage_list_def pushBackPrepared_def)
    have "?r[ringIndex s ?n := b] ! ringIndex s i = None" if "Suc ?n \<le> i" "i < length ?r" for i
      using that w ringIndex_inj [of ?n s i] by simp
    then have "storage_wf ?s'" using w idx by (simp add: storage_wf_def pushBackPrepared_def)
    then show ?thesis using l by (simp add: storage_room_def pushBackPrepared_def)
  qed
  then show "storage_wf (pushBack s b)" "storage_list (pushBack s b) = storage_list s @ [b]"
      "storage_room (pushBack s b) = storage_room s"
    using wf by (auto simp: pushBack_def storage_wf_def storage_list_def storage_room_def)
qed

lemma popFront_list:
  assumes wf: "storage_wf s" and ne: "storage_list s \<noteq> []"
  shows "storage_wf (popFront s)" and "storage_list (popFront s) = tl (storage_list s)"
    and "storage_room (popFront s) = storage_room s"
proof -
  let ?r = "st_ring s" and ?n = "st_ringSize s" and ?s' = "popFront s"
  have "storage_wf ?s' \<and> storage_list ?s' = tl (storage_list s)" if m: "st_mode s \<noteq> Storage_Deque"
  proof -
    have w: "st_mode s = Storage_AtomicPrepared" "0 < length ?r" "st_ringHead s < length ?r" "?n \<le> length ?r"
        "\<And>i. ?n \<le> i \<Longrightarrow> i < length ?r \<Longrightarrow> ?r ! ringIndex s i = None" and n0: "0 < ?n"
      using wf ne m by (auto simp: storage_wf_def storage_list_def ring_view_def)
    have head: "st_ringHead s = ringIndex s 0" using w(3) by (simp add: ringIndex_def)
    let ?r' = "?r[ringIndex s 0 := None]"
    have slot: "(ringIndex s 1 + i) mod length ?r = ringIndex s (Suc i)" for i
      by (simp add: ringIndex_def mod_add_left_eq)
    have cleared: "?r' ! ringIndex s i = None" if "i = 0 \<or> ?n \<le> i" "i < length ?r" for i
      using that w ringIndex_inj [of 0 s i] ringIndex_less [of s 0] by (auto simp: nth_list_update)
    show ?thesis
    proof (cases "?n = 1")
      case True
      have "?r' ! p = None" if "p < length ?r" for p
        using ring_slots_onto [OF w(3) that] cleared True by (metis One_nat_def less_one not_less)
      moreover have "?s' = s\<lparr>st_ring := ?r', st_ringHead := 0, st_ringSize := 0\<rparr>"
        using m True unfolding head [symmetric] by (simp add: popFront_def Let_def)
      moreover have "tl (storage_list s) = []" using True m by (simp add: storage_list_def ring_view_def)
      ultimately show ?thesis
        using w m by (simp add: storage_wf_def storage_list_def ring_view_def ringIndex_def)
    next
      case False
      have pop: "?s' = s\<lparr>st_ring := ?r', st_ringHead := ringIndex s 1, st_ringSize := ?n - 1\<rparr>"
        using m False n0 head by (simp add: popFront_def Let_def)
      have idx: "ringIndex ?s' i = ringIndex s (Suc i)" for i
        unfolding pop using slot [of i] by (simp add: ringIndex_def [of "s\<lparr>st_ring := _, st_ringHead := _, st_ringSize := _\<rparr>"])
      have "ring_view (ringIndex ?s') (?n - 1) ?r' = tl (ring_view (ringIndex s) ?n ?r)"
      proof (rule nth_equalityI)
        fix i assume "i < length (ring_view (ringIndex ?s') (?n - 1) ?r')"
        then have i: "Suc i < ?n" by simp
        have "ringIndex s 0 \<noteq> ringIndex s (Suc i)" using i w(2,4) ringIndex_inj [of 0 s "Suc i"] by simp
        then show "ring_view (ringIndex ?s') (?n - 1) ?r' ! i = tl (ring_view (ringIndex s) ?n ?r) ! i"
          using i by (simp add: idx nth_tl)
      qed simp
      then have l: "storage_list ?s' = tl (storage_list s)" using m by (simp add: storage_list_def pop)
      have "?r' ! ringIndex ?s' i = None" if "?n - 1 \<le> i" "i < length ?r" for i
      proof (cases "Suc i = length ?r")
        case True
        then have "ringIndex s (Suc i) = ringIndex s 0" by (simp add: ringIndex_def)
        then show ?thesis using idx cleared [of 0] w(2) by simp
      next
        case False
        then show ?thesis using idx cleared [of "Suc i"] that n0 by simp
      qed
      moreover have "ringIndex s 1 < length ?r" using w(2) ringIndex_less by blast
      ultimately have "storage_wf ?s'" using w unfolding storage_wf_def pop by auto
      then show ?thesis using l by simp
    qed
  qed
  then show "storage_wf ?s'" "storage_list ?s' = tl (storage_list s)"
    using wf by (auto simp: popFront_def storage_wf_def storage_list_def)
  show "storage_room ?s' = storage_room s" by (simp add: popFront_def storage_room_def Let_def)
qed

lemma ring_view_butlast: "ring_view slot (n - 1) ring = butlast (ring_view slot n ring)"
  by (cases n) (simp_all add: ring_view_def)

lemma storage_erase_list:
  assumes wf: "storage_wf s" and i: "i < length (storage_list s)"
  shows "storage_wf (storage_erase s i)"
    and "storage_list (storage_erase s i) = take i (storage_list s) @ drop (i + 1) (storage_list s)"
    and "storage_room (storage_erase s i) = storage_room s"
proof -
  let ?r = "st_ring s" and ?n = "st_ringSize s" and ?slot = "ringIndex s" and ?s' = "storage_erase s i"
  have ring: "storage_wf ?s' \<and> storage_list ?s' = take i (storage_list s) @ drop (i + 1) (storage_list s)"
    if m: "st_mode s \<noteq> Storage_Deque"
  proof -
    have w: "st_mode s = Storage_AtomicPrepared" "0 < length ?r" "st_ringHead s < length ?r" "?n \<le> length ?r"
        "\<And>i. ?n \<le> i \<Longrightarrow> i < length ?r \<Longrightarrow> ?r ! ?slot i = None" and n0: "i < ?n"
      using wf i m by (auto simp: storage_wf_def storage_list_def)
    let ?e = "erase_shift ?slot ?n i ?r"
    let ?r' = "?e[?slot (?n - 1) := None]"
    have g: "good_slots ?slot ?n (length ?r)" by (rule ring_good_slots [OF w(2,4)])
    have ge: "good_slots ?slot ?n (length ?e)" using g by simp
    have "ring_view ?slot ?n ?r' = (ring_view ?slot ?n ?e)[?n - 1 := None]"
      by (rule ring_view_update [OF ge]) (use n0 in simp)
    also have "ring_view ?slot ?n ?e = list_shift (?n - i - 1) i (ring_view ?slot ?n ?r)"
      by (rule erase_shift_view [OF g]) (use n0 in simp_all)
    also have "\<dots> = take i (storage_list s) @ drop (i + 1) (storage_list s) @
        [if ?n - i - 1 = 0 then ring_view ?slot ?n ?r ! i else None]"
      using list_shift_result [of i "?n - i - 1" "ring_view ?slot ?n ?r"] n0 m by (simp add: storage_list_def)
    finally have "butlast (ring_view ?slot ?n ?r') = take i (storage_list s) @ drop (i + 1) (storage_list s)"
      using n0 m by (simp add: butlast_list_update butlast_append storage_list_def)
    then have view: "ring_view ?slot (?n - 1) ?r' = take i (storage_list s) @ drop (i + 1) (storage_list s)"
      by (simp only: ring_view_butlast)
    have rest: "?r' ! ?slot j = None" if "?n - 1 \<le> j" "j < length ?r" for j
    proof (cases "j = ?n - 1")
      case True
      then show ?thesis using w(2) ringIndex_less [of s j] by simp
    next
      case False
      then have j: "?n \<le> j" using that by simp
      have "\<forall>i<?n. ?slot i \<noteq> ?slot j" using j that w(4) ringIndex_inj by fastforce
      then show ?thesis
        using erase_shift_other [of ?n ?slot "?slot j" i ?r] w(5) [OF j that(2)] n0 by simp
    qed
    show ?thesis
    proof (cases "?n = 1")
      case True
      have "?r' ! p = None" if "p < length ?r" for p
        using ring_slots_onto [OF w(3) that] rest True by auto
      then show ?thesis
        using True w m view i by (simp add: storage_erase_def storage_wf_def storage_list_def ring_view_def ringIndex_def Let_def)
    next
      case False
      have er: "?s' = s\<lparr>st_ring := ?r', st_ringSize := ?n - 1\<rparr>"
        using m False n0 by (simp add: storage_erase_def Let_def)
      have idx: "ringIndex ?s' = ?slot" unfolding er by (simp add: fun_eq_iff ringIndex_def)
      have "storage_wf ?s'" unfolding storage_wf_def idx unfolding er using w rest by simp
      moreover have "storage_list ?s' = ring_view ?slot (?n - 1) ?r'"
        using m unfolding storage_list_def [of ?s'] idx unfolding er by simp
      ultimately show ?thesis using view by simp
    qed
  qed
  have deque: "storage_wf ?s' \<and> storage_list ?s' = take i (storage_list s) @ drop (i + 1) (storage_list s)"
    if "st_mode s = Storage_Deque"
    using that by (simp add: storage_erase_def storage_wf_def storage_list_def)
  show "storage_wf ?s'" "storage_list ?s' = take i (storage_list s) @ drop (i + 1) (storage_list s)"
    using ring deque by blast+
  show "storage_room ?s' = storage_room s" by (simp add: storage_erase_def storage_room_def Let_def)
qed

lemma storage_clear_list:
  assumes wf: "storage_wf s"
  shows "storage_wf (storage_clear s)" and "storage_list (storage_clear s) = []"
    and "storage_room (storage_clear s) = storage_room s"
proof -
  let ?r = "st_ring s" and ?n = "st_ringSize s"
  let ?r' = "fold (\<lambda>i ring. ring[ringIndex s i := None]) [0..<?n] ?r"
  have "?r' ! p = None" if w: "st_mode s = Storage_AtomicPrepared" "p < length ?r" for p
  proof -
    have "st_ringHead s < length ?r" and none: "\<And>i. ?n \<le> i \<Longrightarrow> i < length ?r \<Longrightarrow> ?r ! ringIndex s i = None"
      using wf w by (auto simp: storage_wf_def)
    then obtain i where i: "i < length ?r" "ringIndex s i = p" using ring_slots_onto w by blast
    then show ?thesis
      using none [of i] w unfolding fold_reset_nth [OF w(2)] by (cases "i < ?n") auto
  qed
  moreover have "?r' \<noteq> []" if "0 < length ?r" using that by (metis fold_reset_length length_greater_0_conv)
  ultimately show "storage_wf (storage_clear s)"
    using wf unfolding storage_wf_def [of "storage_clear s"]
    by (auto simp: storage_clear_def ringIndex_def [of "s\<lparr>st_ring := _, st_ringHead := _, st_ringSize := _\<rparr>"]
        storage_wf_def [of s])
  show "storage_list (storage_clear s) = []"
    by (simp add: storage_list_def storage_clear_def ring_view_def)
  show "storage_room (storage_clear s) = storage_room s"
    by (simp add: storage_room_def storage_clear_def)
qed

lemma storage_publish_list:
  assumes "storage_wf s" and "supportsPreparedPush s"
    and "\<forall>n. storage_room s = Some n \<longrightarrow> length (storage_list s) + length bs \<le> n"
  shows "storage_wf (fst (storage_publish s bs)) \<and>
    storage_list (fst (storage_publish s bs)) = storage_list s @ bs \<and>
    storage_room (fst (storage_publish s bs)) = storage_room s"
  using assms
proof (induction bs arbitrary: s)
  case (Cons b bs)
  have m: "st_mode s \<noteq> Storage_Deque" using Cons.prems(2) by (simp add: supportsPreparedPush_def)
  have p: "pushBackPrepared s b = pushBack s b" using m by (simp add: pushBack_def)
  have "\<forall>n. storage_room s = Some n \<longrightarrow> length (storage_list s) < n" using Cons.prems(3) by auto
  note P = pushBack_list [OF Cons.prems(1) this, of b]
  have "supportsPreparedPush (pushBack s b)"
    using Cons.prems(2) by (simp add: supportsPreparedPush_def pushBack_def pushBackPrepared_def)
  note IH = Cons.IH [OF P(1) this]
  show ?case using IH P Cons.prems(3) by (simp add: storage_publish_def p)
qed (simp add: storage_publish_def)

section \<open>The contract the blocking queue relies on\<close>

locale buffer_store =
  fixes ok :: "'s \<Rightarrow> bool"
    and items :: "'s \<Rightarrow> MediaBufferRef list"
    and room :: "'s \<Rightarrow> nat option"
    and push :: "'s \<Rightarrow> MediaBufferRef \<Rightarrow> 's"
    and pop :: "'s \<Rightarrow> 's"
    and front :: "'s \<Rightarrow> MediaBufferRef"
    and at :: "'s \<Rightarrow> nat \<Rightarrow> MediaBufferRef"
    and erase :: "'s \<Rightarrow> nat \<Rightarrow> 's"
    and clear :: "'s \<Rightarrow> 's"
  assumes push_items: "ok s \<Longrightarrow> \<forall>n. room s = Some n \<longrightarrow> length (items s) < n \<Longrightarrow>
        ok (push s b) \<and> items (push s b) = items s @ [b] \<and> room (push s b) = room s"
    and pop_items: "ok s \<Longrightarrow> items s \<noteq> [] \<Longrightarrow>
        ok (pop s) \<and> items (pop s) = tl (items s) \<and> front s = hd (items s) \<and> room (pop s) = room s"
    and at_items: "i < length (items s) \<Longrightarrow> at s i = items s ! i"
    and erase_items: "ok s \<Longrightarrow> i < length (items s) \<Longrightarrow>
        ok (erase s i) \<and> items (erase s i) = take i (items s) @ drop (i + 1) (items s) \<and> room (erase s i) = room s"
    and clear_items: "ok s \<Longrightarrow> ok (clear s) \<and> items (clear s) = [] \<and> room (clear s) = room s"
begin

text \<open>Scanning by index and erasing the first hit removes the first element with the property.\<close>

lemma scan_erase:
  assumes "ok s" and "List.find (\<lambda>i. P (at s i)) [0..<length (items s)] = Some i"
  shows "\<exists>ys x zs. items s = ys @ x # zs \<and> P x \<and> (\<forall>y\<in>set ys. \<not> P y) \<and> items (erase s i) = ys @ zs \<and>
           ok (erase s i) \<and> room (erase s i) = room s"
proof -
  have i: "i < length (items s)" "P (at s i)" and before: "\<forall>j<i. \<not> P (at s j)"
    using assms(2) by (auto simp: find_Some_iff)
  have "items s = take i (items s) @ items s ! i # drop (i + 1) (items s)"
    using i(1) by (simp add: id_take_nth_drop)
  moreover have "P (items s ! i)" using i at_items by simp
  moreover have "\<forall>y\<in>set (take i (items s)). \<not> P y"
    using before i(1) at_items by (auto simp: in_set_conv_nth)
  ultimately show ?thesis using erase_items [OF assms(1) i(1)] by blast
qed

lemma scan_none:
  assumes "List.find (\<lambda>i. P (at s i)) [0..<length (items s)] = None"
  shows "\<forall>x\<in>set (items s). \<not> P x"
  using assms at_items by (auto simp: find_None_iff in_set_conv_nth)

end

interpretation st: buffer_store storage_wf storage_list storage_room pushBack popFront storage_front
  storage_at storage_erase storage_clear
  by unfold_locales
    (simp_all add: pushBack_list popFront_list storage_front_list storage_at_list storage_erase_list
      storage_clear_list)

text \<open>
  C9. The storage implements a list: whatever the mode, on a well-formed storage pushing (when the
  ring has room), popping, erasing at an offset and clearing are the corresponding list operations,
  the front is the head of the list, and the representation stays well-formed, with every unused
  ring slot null.
\<close>

theorem storage_refines_list:
  assumes "storage_wf s"
  shows "(\<forall>b. (\<forall>n. storage_room s = Some n \<longrightarrow> length (storage_list s) < n) \<longrightarrow>
            storage_wf (pushBack s b) \<and> storage_list (pushBack s b) = storage_list s @ [b]) \<and>
         (storage_list s \<noteq> [] \<longrightarrow> storage_wf (popFront s) \<and> storage_front s = hd (storage_list s) \<and>
            storage_list (popFront s) = tl (storage_list s)) \<and>
         (\<forall>i<length (storage_list s). storage_wf (storage_erase s i) \<and>
            storage_list (storage_erase s i) = take i (storage_list s) @ drop (i + 1) (storage_list s)) \<and>
         storage_wf (storage_clear s) \<and> storage_list (storage_clear s) = []"
  using st.push_items [OF assms] st.pop_items [OF assms] st.erase_items [OF assms] st.clear_items [OF assms]
  by blast

theorem storage_refines_list_witness:
  "storage_list (storage_erase \<lparr>st_mode = Storage_AtomicPrepared, st_deque = [],
      st_ring = [Some \<lparr>buffer_object = 2, buffer_flags = 0\<rparr>, Some \<lparr>buffer_object = 1, buffer_flags = 4\<rparr>],
      st_ringHead = 1, st_ringSize = 2\<rparr> 0) = [Some \<lparr>buffer_object = 2, buffer_flags = 0\<rparr>]"
proof -
  let ?s = "\<lparr>st_mode = Storage_AtomicPrepared, st_deque = [],
      st_ring = [Some \<lparr>buffer_object = 2, buffer_flags = 0\<rparr>, Some \<lparr>buffer_object = 1, buffer_flags = 4\<rparr>],
      st_ringHead = 1, st_ringSize = 2\<rparr>"
  have l: "storage_list ?s = [Some \<lparr>buffer_object = 1, buffer_flags = 4\<rparr>, Some \<lparr>buffer_object = 2, buffer_flags = 0\<rparr>]"
    by code_simp
  have "storage_wf ?s" by (simp add: storage_wf_def)
  from storage_refines_list [OF this] show ?thesis unfolding l by simp
qed

end
