(* ===== verification/Blocking_Queue.thy ===== *)
theory Blocking_Queue
  imports Blocking_Queue_Storage
begin

text \<open>
  \<^verbatim>\<open>runtime/queue/MediaBlockingQueue\<close>. Every public operation holds the queue's mutex, so it is a
  function on the queue's state; an operation that waits on a condition variable releases the mutex
  there and is split at that point. A waiting producer is described by the wait it is in; the function
  that resumes it runs from the wake-up to its return or its next wait. Notifications are not part of
  the state: a waiter may be resumed whenever its predicate holds.
\<close>

section \<open>Definitions\<close>

record MediaBlockingQueue =
  bq_policy :: MediaQueuePolicy
  bq_storage :: MediaBlockingQueueStorage
  bq_closed :: bool
  bq_aborted :: bool
  bq_metrics :: MediaQueueMetrics

definition bq_create :: "MediaQueuePolicy \<Rightarrow> MediaBlockingQueue Result" where
  "bq_create policy =
     (case storage_create policy of
        Inl e \<Rightarrow> failure e
      | Inr s \<Rightarrow> success \<lparr>bq_policy = policy, bq_storage = s, bq_closed = False, bq_aborted = False,
                          bq_metrics = empty_metrics\<rparr>)"

definition count_failedPush :: "MediaBlockingQueue \<Rightarrow> MediaBlockingQueue" where
  "count_failedPush q = q\<lparr>bq_metrics := (bq_metrics q)\<lparr>qm_failedPushes := qm_failedPushes (bq_metrics q) + 1\<rparr>\<rparr>"

definition count_blockedPush :: "MediaBlockingQueue \<Rightarrow> MediaBlockingQueue" where
  "count_blockedPush q = q\<lparr>bq_metrics := (bq_metrics q)\<lparr>qm_blockedPushes := qm_blockedPushes (bq_metrics q) + 1\<rparr>\<rparr>"

definition count_dropped :: "MediaBlockingQueue \<Rightarrow> MediaBlockingQueue" where
  "count_dropped q = q\<lparr>bq_metrics := (bq_metrics q)\<lparr>qm_dropped := qm_dropped (bq_metrics q) + 1\<rparr>\<rparr>"

definition count_pushed :: "nat \<Rightarrow> MediaBlockingQueue \<Rightarrow> MediaBlockingQueue" where
  "count_pushed n q = q\<lparr>bq_metrics := (bq_metrics q)\<lparr>qm_pushed := qm_pushed (bq_metrics q) + of_nat n\<rparr>\<rparr>"

definition count_popped :: "MediaBlockingQueue \<Rightarrow> MediaBlockingQueue" where
  "count_popped q = q\<lparr>bq_metrics := (bq_metrics q)\<lparr>qm_popped := qm_popped (bq_metrics q) + 1\<rparr>\<rparr>"

definition count_failedPop :: "MediaBlockingQueue \<Rightarrow> MediaBlockingQueue" where
  "count_failedPop q = q\<lparr>bq_metrics := (bq_metrics q)\<lparr>qm_failedPops := qm_failedPops (bq_metrics q) + 1\<rparr>\<rparr>"

definition updateSizeMetricsLocked :: "MediaBlockingQueue \<Rightarrow> MediaBlockingQueue" where
  "updateSizeMetricsLocked q =
     (let current = storage_size (bq_storage q);
          m = (bq_metrics q)\<lparr>qm_currentSize := current\<rparr>
      in q\<lparr>bq_metrics := (if current > qm_peakSize m then m\<lparr>qm_peakSize := current\<rparr> else m)\<rparr>)"

definition fullLocked :: "MediaBlockingQueue \<Rightarrow> bool" where
  "fullLocked q \<longleftrightarrow> isBoundedQueue (bq_policy q) \<and> storage_size (bq_storage q) \<ge> qp_capacity (bq_policy q)"

definition dropFirstNonKeyFrame :: "MediaBlockingQueue \<Rightarrow> MediaBlockingQueue" where
  "dropFirstNonKeyFrame q =
     (case List.find (\<lambda>index. is_nonkey (storage_at (bq_storage q) index)) [0..<storage_size (bq_storage q)] of
        None \<Rightarrow> q
      | Some index \<Rightarrow>
          updateSizeMetricsLocked (count_dropped (q\<lparr>bq_storage := storage_erase (bq_storage q) index\<rparr>)))"

definition dropFront :: "MediaBlockingQueue \<Rightarrow> MediaBlockingQueue" where
  "dropFront q = updateSizeMetricsLocked (count_dropped (q\<lparr>bq_storage := popFront (bq_storage q)\<rparr>))"

definition handleOverflowLocked :: "MediaBlockingQueue \<Rightarrow> MediaBufferRef \<Rightarrow> MediaBlockingQueue \<times> Status" where
  "handleOverflowLocked q incoming =
     (case qp_overflowPolicy (bq_policy q) of
        DropNewest \<Rightarrow> (count_dropped q, success ())
      | DropOldest \<Rightarrow>
          (if \<not> storage_empty (bq_storage q) then (dropFront q, success ()) else (q, success ()))
      | DropNonKeyFrame \<Rightarrow>
          (if is_nonkey incoming then (count_dropped q, success ())
           else (dropFirstNonKeyFrame q, success ()))
      | AbortQueue \<Rightarrow>
          (count_failedPush (q\<lparr>bq_aborted := True, bq_closed := True\<rparr>), failure InternalError)
      | BlockProducer \<Rightarrow> (q, success ()))"

definition enqueue :: "MediaBlockingQueue \<Rightarrow> MediaBufferRef \<Rightarrow> MediaBlockingQueue" where
  "enqueue q r = updateSizeMetricsLocked (count_pushed 1 (q\<lparr>bq_storage := pushBack (bq_storage q) r\<rparr>))"

datatype PushWait = KeyFrameWait | ProducerWait

datatype PushProgress = PushDone Status | PushWaiting PushWait

text \<open>The statements of \<^verbatim>\<open>push\<close> after its loop.\<close>

definition push_finish :: "MediaBlockingQueue \<Rightarrow> MediaBuffer \<Rightarrow> MediaBlockingQueue \<times> PushProgress" where
  "push_finish q b =
     (if fullLocked q then (count_failedPush q, PushDone (failure InternalError))
      else (enqueue q (Some b), PushDone (success ())))"

text \<open>The loop of \<^verbatim>\<open>push\<close>, from its head to a return or a wait.\<close>

lemma storage_size_popFront: "storage_size (popFront s) = storage_size s - 1"
  by (simp add: storage_size_def popFront_def Let_def)

lemma overflow_decreases:
  assumes full: "fullLocked q" and policy: "qp_overflowPolicy (bq_policy q) \<noteq> BlockProducer"
    and step: "(q', status) = handleOverflowLocked q (Some b)" and ok: "\<not> isl status"
    and drops: "\<not> overflowPolicyDropsIncoming (bq_policy q) (Some b)"
    and key: "\<not> (qp_overflowPolicy (bq_policy q) = DropNonKeyFrame \<and> isKeyFrame b)"
  shows "storage_size (bq_storage q') < storage_size (bq_storage q)"
proof -
  have "0 < storage_size (bq_storage q)" using full by (auto simp: fullLocked_def isBoundedQueue_def)
  then show ?thesis
    using policy step ok drops key
    by (cases "qp_overflowPolicy (bq_policy q)")
      (auto simp: handleOverflowLocked_def overflowPolicyDropsIncoming_def storage_empty_def dropFront_def
        count_dropped_def updateSizeMetricsLocked_def Let_def storage_size_popFront split: if_splits)
qed

function push_loop :: "MediaBlockingQueue \<Rightarrow> MediaBuffer \<Rightarrow> MediaBlockingQueue \<times> PushProgress" where
  "push_loop q b =
     (if \<not> fullLocked q then push_finish q b
      else if qp_overflowPolicy (bq_policy q) \<noteq> BlockProducer then
        (let (q', status) = handleOverflowLocked q (Some b)
         in if isl status \<or> \<not> fullLocked q' then push_finish q' b
            else if overflowPolicyDropsIncoming (bq_policy q) (Some b) then (q', PushDone (success ()))
            else if qp_overflowPolicy (bq_policy q) = DropNonKeyFrame \<and> isKeyFrame b then
              (count_blockedPush q', PushWaiting KeyFrameWait)
            else if bq_aborted q' then (count_failedPush q', PushDone (failure InternalError))
            else if bq_closed q' then (count_failedPush q', PushDone (failure Cancelled))
            else push_loop q' b)
      else (count_blockedPush q, PushWaiting ProducerWait))"
  by pat_completeness auto
termination
  by (relation "measure (\<lambda>(q, _). storage_size (bq_storage q))") (auto intro: overflow_decreases)

declare push_loop.simps [simp del]

definition bq_push :: "MediaBlockingQueue \<Rightarrow> MediaBufferRef \<Rightarrow> MediaBlockingQueue \<times> PushProgress" where
  "bq_push q buffer =
     (case buffer of
        None \<Rightarrow> (q, PushDone (failure InvalidArgument))
      | Some b \<Rightarrow>
          (if bq_aborted q then (count_failedPush q, PushDone (failure InternalError))
           else if bq_closed q then (count_failedPush q, PushDone (failure Cancelled))
           else push_loop q b))"

definition push_ready :: "MediaBlockingQueue \<Rightarrow> bool" where
  "push_ready q \<longleftrightarrow> \<not> fullLocked q \<or> bq_closed q \<or> bq_aborted q"

text \<open>
  Resuming a waiting producer. The wait for a key frame ends with \<^verbatim>\<open>continue\<close> and so goes back to
  the head of the loop; the other wait falls through to the checks at the end of the loop body.
\<close>

definition push_resume :: "MediaBlockingQueue \<Rightarrow> MediaBuffer \<Rightarrow> PushWait \<Rightarrow> MediaBlockingQueue \<times> PushProgress" where
  "push_resume q b wait =
     (case wait of
        KeyFrameWait \<Rightarrow> push_loop q b
      | ProducerWait \<Rightarrow>
          (if bq_aborted q then (count_failedPush q, PushDone (failure InternalError))
           else if bq_closed q then (count_failedPush q, PushDone (failure Cancelled))
           else push_loop q b))"

definition bq_pushOutcome :: "MediaBlockingQueue \<Rightarrow> MediaBufferRef \<Rightarrow> MediaBlockingQueue \<times> MediaQueuePushOutcome" where
  "bq_pushOutcome q buffer =
     (case buffer of
        None \<Rightarrow> (q, Outcome_WouldBlock)
      | Some b \<Rightarrow>
          (if bq_aborted q then (count_failedPush q, Aborted)
           else if bq_closed q then (count_failedPush q, Closed)
           else if fullLocked q then
             (case qp_overflowPolicy (bq_policy q) of
                DropNewest \<Rightarrow> (count_dropped q, Dropped)
              | DropNonKeyFrame \<Rightarrow>
                  (if \<not> isKeyFrame b then (count_dropped q, Dropped)
                   else (let q' = dropFirstNonKeyFrame q
                         in if fullLocked q' then (q', Outcome_WouldBlock)
                            else (enqueue q' buffer, Accepted)))
              | DropOldest \<Rightarrow> (enqueue (dropFront q) buffer, Accepted)
              | AbortQueue \<Rightarrow> (count_failedPush (q\<lparr>bq_aborted := True, bq_closed := True\<rparr>), Aborted)
              | BlockProducer \<Rightarrow> (q, Outcome_WouldBlock))
           else (enqueue q buffer, Accepted)))"

definition dequeue :: "MediaBlockingQueue \<Rightarrow> MediaBlockingQueue" where
  "dequeue q = updateSizeMetricsLocked (count_popped (q\<lparr>bq_storage := popFront (bq_storage q)\<rparr>))"

definition bq_pop :: "MediaBlockingQueue \<Rightarrow> MediaBlockingQueue \<times> (ErrorCode + MediaBufferRef) Blocking" where
  "bq_pop q =
     (if \<not> (\<not> storage_empty (bq_storage q) \<or> bq_closed q \<or> bq_aborted q) then (q, Waits)
      else if bq_aborted q then (count_failedPop q, Returns (failure InternalError))
      else if storage_empty (bq_storage q) then (count_failedPop q, Returns (failure Cancelled))
      else (dequeue q, Returns (success (storage_front (bq_storage q)))))"

definition bq_tryPop :: "MediaBlockingQueue \<Rightarrow> MediaBlockingQueue \<times> MediaBufferRef option" where
  "bq_tryPop q =
     (if storage_empty (bq_storage q) then (q, None)
      else (dequeue q, Some (storage_front (bq_storage q))))"

definition bq_close :: "MediaBlockingQueue \<Rightarrow> MediaBlockingQueue" where
  "bq_close q = q\<lparr>bq_closed := True\<rparr>"

definition bq_abort :: "MediaBlockingQueue \<Rightarrow> MediaBlockingQueue" where
  "bq_abort q = q\<lparr>bq_aborted := True, bq_closed := True\<rparr>"

definition bq_clear :: "MediaBlockingQueue \<Rightarrow> MediaBlockingQueue" where
  "bq_clear q = updateSizeMetricsLocked (q\<lparr>bq_storage := storage_clear (bq_storage q)\<rparr>)"

definition preparePush :: "(nat \<Rightarrow> bool) \<Rightarrow> MediaBlockingQueue \<Rightarrow> MediaBufferRef list \<Rightarrow> PreparedPush Result" where
  "preparePush allocates q buffers = storage_prepare allocates (bq_storage q) buffers"

definition publishPreparedLocked :: "MediaBlockingQueue \<Rightarrow> PreparedPush \<Rightarrow> MediaBlockingQueue \<times> PreparedPush" where
  "publishPreparedLocked q prepared =
     (let (s, rest) = storage_publish (bq_storage q) prepared
      in (updateSizeMetricsLocked (count_pushed (length prepared) (q\<lparr>bq_storage := s\<rparr>)), rest))"

section \<open>The invariant\<close>

abbreviation bq_list :: "MediaBlockingQueue \<Rightarrow> MediaBufferRef list" where
  "bq_list q \<equiv> storage_list (bq_storage q)"

definition bq_limit :: "MediaBlockingQueue \<Rightarrow> nat option" where
  "bq_limit q = (if isBoundedQueue (bq_policy q) then Some (qp_capacity (bq_policy q)) else None)"

definition bq_lossless :: "MediaBlockingQueue \<Rightarrow> bool" where
  "bq_lossless q \<longleftrightarrow>
     qp_overflowPolicy (bq_policy q) \<noteq> DropOldest \<and> qp_overflowPolicy (bq_policy q) \<noteq> DropNonKeyFrame"

definition size_metrics_ok :: "MediaBlockingQueue \<Rightarrow> bool" where
  "size_metrics_ok q \<longleftrightarrow>
     qm_currentSize (bq_metrics q) = length (bq_list q) \<and> length (bq_list q) \<le> qm_peakSize (bq_metrics q)"

definition bq_wf :: "MediaBlockingQueue \<Rightarrow> bool" where
  "bq_wf q \<longleftrightarrow>
     storage_wf (bq_storage q) \<and>
     (\<forall>n. bq_limit q = Some n \<longrightarrow> length (bq_list q) \<le> n) \<and>
     (\<forall>n. storage_room (bq_storage q) = Some n \<longrightarrow> bq_limit q = Some n) \<and>
     None \<notin> set (bq_list q) \<and> size_metrics_ok q \<and> (bq_aborted q \<longrightarrow> bq_closed q)"

named_theorems queue_simps "field effects of the queue's bookkeeping steps"

lemma counters_fields [queue_simps, simp]:
  "bq_policy (count_failedPush q) = bq_policy q" "bq_storage (count_failedPush q) = bq_storage q"
  "bq_closed (count_failedPush q) = bq_closed q" "bq_aborted (count_failedPush q) = bq_aborted q"
  "bq_policy (count_blockedPush q) = bq_policy q" "bq_storage (count_blockedPush q) = bq_storage q"
  "bq_closed (count_blockedPush q) = bq_closed q" "bq_aborted (count_blockedPush q) = bq_aborted q"
  "bq_policy (count_dropped q) = bq_policy q" "bq_storage (count_dropped q) = bq_storage q"
  "bq_closed (count_dropped q) = bq_closed q" "bq_aborted (count_dropped q) = bq_aborted q"
  "bq_policy (count_pushed n q) = bq_policy q" "bq_storage (count_pushed n q) = bq_storage q"
  "bq_closed (count_pushed n q) = bq_closed q" "bq_aborted (count_pushed n q) = bq_aborted q"
  "bq_policy (count_popped q) = bq_policy q" "bq_storage (count_popped q) = bq_storage q"
  "bq_closed (count_popped q) = bq_closed q" "bq_aborted (count_popped q) = bq_aborted q"
  "bq_policy (count_failedPop q) = bq_policy q" "bq_storage (count_failedPop q) = bq_storage q"
  "bq_closed (count_failedPop q) = bq_closed q" "bq_aborted (count_failedPop q) = bq_aborted q"
  "bq_policy (updateSizeMetricsLocked q) = bq_policy q" "bq_storage (updateSizeMetricsLocked q) = bq_storage q"
  "bq_closed (updateSizeMetricsLocked q) = bq_closed q" "bq_aborted (updateSizeMetricsLocked q) = bq_aborted q"
  by (simp_all add: count_failedPush_def count_blockedPush_def count_dropped_def count_pushed_def
      count_popped_def count_failedPop_def updateSizeMetricsLocked_def Let_def)

lemma counters_size_metrics [simp]:
  "size_metrics_ok (count_failedPush q) = size_metrics_ok q"
  "size_metrics_ok (count_blockedPush q) = size_metrics_ok q"
  "size_metrics_ok (count_dropped q) = size_metrics_ok q"
  "size_metrics_ok (count_failedPop q) = size_metrics_ok q"
  "size_metrics_ok (updateSizeMetricsLocked q)"
  by (simp_all add: size_metrics_ok_def count_failedPush_def count_blockedPush_def count_dropped_def
      count_failedPop_def updateSizeMetricsLocked_def Let_def storage_size_list)

lemma bq_wf_counters [simp]:
  "bq_wf (count_failedPush q) = bq_wf q" "bq_wf (count_blockedPush q) = bq_wf q"
  "bq_wf (count_dropped q) = bq_wf q" "bq_wf (count_failedPop q) = bq_wf q"
  by (simp_all add: bq_wf_def bq_limit_def)

lemma bq_limit_cong: "bq_policy q = bq_policy q' \<Longrightarrow> bq_limit q = bq_limit q'"
  by (simp add: bq_limit_def)

lemma fullLocked_limit: "fullLocked q \<longleftrightarrow> (\<exists>n. bq_limit q = Some n \<and> n \<le> length (bq_list q))"
  by (simp add: fullLocked_def bq_limit_def storage_size_list)

lemma bq_wf_storage:
  assumes "bq_wf q" and "storage_wf s" and "storage_room s = storage_room (bq_storage q)"
    and "\<forall>n. bq_limit q = Some n \<longrightarrow> length (storage_list s) \<le> n" and "None \<notin> set (storage_list s)"
    and "bq_policy q' = bq_policy q" "bq_storage q' = s" "bq_closed q' = bq_closed q" "bq_aborted q' = bq_aborted q"
    and "size_metrics_ok q'"
  shows "bq_wf q'"
  using assms bq_limit_cong [of q' q] unfolding bq_wf_def by simp

lemma enqueue_wf:
  assumes wf: "bq_wf q" and room: "\<not> fullLocked q"
  shows "bq_wf (enqueue q (Some b))" and "bq_list (enqueue q (Some b)) = bq_list q @ [Some b]"
    and "bq_policy (enqueue q (Some b)) = bq_policy q" and "bq_closed (enqueue q (Some b)) = bq_closed q"
    and "bq_aborted (enqueue q (Some b)) = bq_aborted q"
proof -
  have "\<forall>n. storage_room (bq_storage q) = Some n \<longrightarrow> length (bq_list q) < n"
    using wf room unfolding bq_wf_def fullLocked_limit by (meson not_less)
  note P = st.push_items [OF _ this, of "Some b"]
  have swf: "storage_wf (bq_storage q)" using wf by (simp add: bq_wf_def)
  show "bq_wf (enqueue q (Some b))"
    by (rule bq_wf_storage [OF wf, of "pushBack (bq_storage q) (Some b)"])
      (use P [OF swf] wf room in \<open>auto simp: enqueue_def bq_wf_def fullLocked_limit Suc_le_eq not_le\<close>)
  show "bq_list (enqueue q (Some b)) = bq_list q @ [Some b]" using P [OF swf] by (simp add: enqueue_def)
qed (simp_all add: enqueue_def)

lemma pop_storage_wf:
  assumes wf: "bq_wf q" and ne: "bq_list q \<noteq> []"
    and q': "bq_policy q' = bq_policy q" "bq_storage q' = popFront (bq_storage q)" "bq_closed q' = bq_closed q"
      "bq_aborted q' = bq_aborted q" "size_metrics_ok q'"
  shows "bq_wf q'" and "bq_list q' = tl (bq_list q)"
proof -
  have swf: "storage_wf (bq_storage q)" using wf by (simp add: bq_wf_def)
  note P = st.pop_items [OF swf ne]
  show "bq_list q' = tl (bq_list q)" using P q' by simp
  show "bq_wf q'"
  proof (rule bq_wf_storage [OF wf _ _ _ _ q'])
    show "\<forall>n. bq_limit q = Some n \<longrightarrow> length (storage_list (popFront (bq_storage q))) \<le> n"
      using wf P by (auto simp: bq_wf_def)
    show "None \<notin> set (storage_list (popFront (bq_storage q)))"
      using wf P ne by (auto simp: bq_wf_def dest: list.set_sel(2))
  qed (use P in simp_all)
qed

lemma dropFront_wf:
  assumes "bq_wf q" and "bq_list q \<noteq> []"
  shows "bq_wf (dropFront q)" and "bq_list (dropFront q) = tl (bq_list q)"
    and "bq_policy (dropFront q) = bq_policy q" and "bq_closed (dropFront q) = bq_closed q"
    and "bq_aborted (dropFront q) = bq_aborted q"
  using pop_storage_wf [OF assms, of "dropFront q"] by (simp_all add: dropFront_def)

lemma dequeue_wf:
  assumes "bq_wf q" and "bq_list q \<noteq> []"
  shows "bq_wf (dequeue q)" and "bq_list (dequeue q) = tl (bq_list q)"
    and "bq_policy (dequeue q) = bq_policy q" and "bq_closed (dequeue q) = bq_closed q"
    and "bq_aborted (dequeue q) = bq_aborted q"
  using pop_storage_wf [OF assms, of "dequeue q"] by (simp_all add: dequeue_def)

lemma dropFirstNonKeyFrame_wf:
  assumes wf: "bq_wf q"
  shows "bq_wf (dropFirstNonKeyFrame q)" and "bq_policy (dropFirstNonKeyFrame q) = bq_policy q"
    and "bq_closed (dropFirstNonKeyFrame q) = bq_closed q" and "bq_aborted (dropFirstNonKeyFrame q) = bq_aborted q"
    and "(\<forall>r\<in>set (bq_list q). \<not> is_nonkey r) \<and> dropFirstNonKeyFrame q = q \<or>
         (\<exists>ys x zs. bq_list q = ys @ x # zs \<and> is_nonkey x \<and> (\<forall>y\<in>set ys. \<not> is_nonkey y) \<and>
            bq_list (dropFirstNonKeyFrame q) = ys @ zs)"
proof -
  have swf: "storage_wf (bq_storage q)" using wf by (simp add: bq_wf_def)
  let ?scan = "List.find (\<lambda>i. is_nonkey (storage_at (bq_storage q) i)) [0..<length (bq_list q)]"
  have A: "bq_wf (dropFirstNonKeyFrame q) \<and>
      ((\<forall>r\<in>set (bq_list q). \<not> is_nonkey r) \<and> dropFirstNonKeyFrame q = q \<or>
       (\<exists>ys x zs. bq_list q = ys @ x # zs \<and> is_nonkey x \<and> (\<forall>y\<in>set ys. \<not> is_nonkey y) \<and>
          bq_list (dropFirstNonKeyFrame q) = ys @ zs))"
  proof (cases ?scan)
    case None
    then show ?thesis
      using wf st.scan_none [of is_nonkey "bq_storage q"] by (simp add: dropFirstNonKeyFrame_def storage_size_list)
  next
    case (Some i)
    obtain ys x zs where e: "bq_list q = ys @ x # zs" "is_nonkey x" "\<forall>y\<in>set ys. \<not> is_nonkey y"
        "storage_list (storage_erase (bq_storage q) i) = ys @ zs" "storage_wf (storage_erase (bq_storage q) i)"
        "storage_room (storage_erase (bq_storage q) i) = storage_room (bq_storage q)"
      using st.scan_erase [OF swf Some] by blast
    have d: "dropFirstNonKeyFrame q =
        updateSizeMetricsLocked (count_dropped (q\<lparr>bq_storage := storage_erase (bq_storage q) i\<rparr>))"
      using Some by (simp add: dropFirstNonKeyFrame_def storage_size_list)
    have "bq_wf (dropFirstNonKeyFrame q)"
      unfolding d by (rule bq_wf_storage [OF wf e(5,6)]) (use e wf in \<open>auto simp: bq_wf_def\<close>)
    moreover have "bq_list (dropFirstNonKeyFrame q) = ys @ zs" unfolding d using e by simp
    ultimately show ?thesis using e by blast
  qed
  then show "bq_wf (dropFirstNonKeyFrame q)"
    "(\<forall>r\<in>set (bq_list q). \<not> is_nonkey r) \<and> dropFirstNonKeyFrame q = q \<or>
     (\<exists>ys x zs. bq_list q = ys @ x # zs \<and> is_nonkey x \<and> (\<forall>y\<in>set ys. \<not> is_nonkey y) \<and>
        bq_list (dropFirstNonKeyFrame q) = ys @ zs)"
    by blast+
qed (auto simp: dropFirstNonKeyFrame_def split: option.splits)

lemma full_nonempty: "bq_wf q \<Longrightarrow> fullLocked q \<Longrightarrow> bq_list q \<noteq> []"
  by (auto simp: fullLocked_limit bq_limit_def isBoundedQueue_def split: if_splits)

lemma full_after_drop:
  assumes "bq_wf q" and "fullLocked q" and "bq_policy q' = bq_policy q" and "length (bq_list q') < length (bq_list q)"
  shows "\<not> fullLocked q'"
  using assms bq_limit_cong [OF assms(3)] unfolding fullLocked_limit bq_wf_def by fastforce

lemma bq_create_wf:
  assumes "bq_create policy = Inr q"
  shows "bq_wf q \<and> bq_list q = [] \<and> bq_policy q = policy \<and> \<not> bq_closed q \<and> \<not> bq_aborted q"
proof -
  obtain s where s: "storage_create policy = Inr s"
      "q = \<lparr>bq_policy = policy, bq_storage = s, bq_closed = False, bq_aborted = False, bq_metrics = empty_metrics\<rparr>"
    using assms by (auto simp: bq_create_def split: sum.splits)
  have bounded: "isBoundedQueue policy" if "qp_storageMode policy = Storage_AtomicPrepared"
    using s(1) that by (auto simp: storage_create_def split: if_splits)
  show ?thesis
    using storage_create_ok [OF s(1)] bounded unfolding s(2)
    by (auto simp: bq_wf_def bq_limit_def size_metrics_ok_def empty_metrics_def)
qed

section \<open>The queue contract\<close>

lemma subseq_drop_one: "subseq (ys @ zs) (ys @ x # zs)"
  by (rule list_emb_append_mono) auto

lemma pushOutcome_accepted:
  assumes wf: "bq_wf q" and push: "bq_pushOutcome q r = (q', Accepted)"
  shows "\<exists>b ys. r = Some b \<and> subseq ys (bq_list q) \<and> bq_list q' = ys @ [r] \<and> bq_wf q' \<and>
           (bq_lossless q \<longrightarrow> ys = bq_list q)"
proof -
  obtain b where r: "r = Some b" and open_q: "\<not> bq_aborted q" "\<not> bq_closed q"
    using push by (auto simp: bq_pushOutcome_def split: option.splits if_splits)
  consider (room) "\<not> fullLocked q" "q' = enqueue q r"
    | (oldest) "fullLocked q" "qp_overflowPolicy (bq_policy q) = DropOldest" "q' = enqueue (dropFront q) r"
    | (nonkey) "fullLocked q" "qp_overflowPolicy (bq_policy q) = DropNonKeyFrame"
        "\<not> fullLocked (dropFirstNonKeyFrame q)" "q' = enqueue (dropFirstNonKeyFrame q) r"
    using push r open_q
    by (auto simp: bq_pushOutcome_def Let_def split: if_splits MediaQueueOverflowPolicy.splits)
  then show ?thesis
  proof cases
    case room
    then show ?thesis using enqueue_wf [OF wf, of b] r by auto
  next
    case oldest
    note D = dropFront_wf [OF wf full_nonempty [OF wf oldest(1)]]
    have "\<not> fullLocked (dropFront q)"
      by (rule full_after_drop [OF wf oldest(1) D(3)]) (use full_nonempty [OF wf oldest(1)] D(2) in simp)
    note E = enqueue_wf [OF D(1) this, of b]
    have "subseq (tl (bq_list q)) (bq_list q)" by (cases "bq_list q") auto
    then show ?thesis using oldest E D r by (auto simp: bq_lossless_def)
  next
    case nonkey
    note D = dropFirstNonKeyFrame_wf [OF wf]
    note E = enqueue_wf [OF D(1) nonkey(3), of b]
    have "subseq (bq_list (dropFirstNonKeyFrame q)) (bq_list q)"
      using D(5) by (auto intro: subseq_drop_one)
    then show ?thesis using nonkey E r by (auto simp: bq_lossless_def)
  qed
qed

lemma bq_wf_abort [simp]: "bq_wf q \<Longrightarrow> bq_wf (q\<lparr>bq_aborted := True, bq_closed := True\<rparr>)"
  by (auto simp: bq_wf_def bq_limit_def size_metrics_ok_def)

lemma pushOutcome_rejected:
  assumes wf: "bq_wf q" and push: "bq_pushOutcome q r = (q', out)" and out: "out \<noteq> Accepted"
  shows "bq_list q' = bq_list q \<and> bq_wf q'"
proof -
  have blocked: "dropFirstNonKeyFrame q = q" if "fullLocked q" "fullLocked (dropFirstNonKeyFrame q)"
    using dropFirstNonKeyFrame_wf(2,5) [OF wf] full_after_drop [OF wf that(1), of "dropFirstNonKeyFrame q"] that(2)
    by auto
  show ?thesis
    using push out wf blocked
    by (auto simp: bq_pushOutcome_def Let_def split: option.splits if_splits MediaQueueOverflowPolicy.splits)
qed

lemma pushOutcome_fields:
  "bq_policy (fst (bq_pushOutcome q r)) = bq_policy q"
  "bq_closed q \<Longrightarrow> bq_closed (fst (bq_pushOutcome q r))"
  "bq_closed q \<Longrightarrow> snd (bq_pushOutcome q r) \<noteq> Accepted"
  by (auto simp: bq_pushOutcome_def enqueue_def dropFront_def dropFirstNonKeyFrame_def Let_def
      split: option.splits MediaQueueOverflowPolicy.splits)

lemma tryPop_fields:
  "bq_policy (fst (bq_tryPop q)) = bq_policy q" "bq_closed (fst (bq_tryPop q)) = bq_closed q"
  by (auto simp: bq_tryPop_def dequeue_def)

lemma storage_empty_list: "storage_empty s \<longleftrightarrow> storage_list s = []"
  by (simp add: storage_empty_def storage_size_list)

lemma tryPop_list:
  assumes "bq_wf q"
  shows "bq_wf (fst (bq_tryPop q))"
    and "bq_list q = [] \<Longrightarrow> bq_tryPop q = (q, None)"
    and "bq_list q = r # rs \<Longrightarrow> snd (bq_tryPop q) = Some r \<and> bq_list (fst (bq_tryPop q)) = rs"
  using assms dequeue_wf [OF assms] storage_front_list [of "bq_storage q"]
  by (auto simp: bq_tryPop_def storage_empty_list bq_wf_def)

lemma bq_clear_wf:
  assumes "bq_wf q"
  shows "bq_wf (bq_clear q)" and "bq_list (bq_clear q) = []"
proof -
  have "storage_wf (bq_storage q)" using assms by (simp add: bq_wf_def)
  note C = st.clear_items [OF this]
  show "bq_list (bq_clear q) = []" using C by (simp add: bq_clear_def)
  show "bq_wf (bq_clear q)"
    by (rule bq_wf_storage [OF assms, of "storage_clear (bq_storage q)"]) (use C in \<open>auto simp: bq_clear_def\<close>)
qed

lemma bq_close_wf: "bq_wf q \<Longrightarrow> bq_wf (bq_close q)"
  by (auto simp: bq_wf_def bq_close_def bq_limit_def size_metrics_ok_def)

lemma pushOutcome_wf: "bq_wf q \<Longrightarrow> bq_wf (fst (bq_pushOutcome q r))"
  using pushOutcome_accepted [of q r] pushOutcome_rejected [of q r]
  by (cases "bq_pushOutcome q r"; cases "snd (bq_pushOutcome q r) = Accepted") auto

interpretation bq: media_queue bq_wf bq_list bq_limit bq_lossless bq_closed bq_pushOutcome bq_tryPop
  bq_close bq_abort bq_clear
proof unfold_locales
  fix q :: MediaBlockingQueue and r q' out n
  show "bq_wf q \<Longrightarrow> bq_wf (fst (bq_pushOutcome q r)) \<and> bq_wf (fst (bq_tryPop q)) \<and> bq_wf (bq_close q) \<and>
      bq_wf (bq_abort q) \<and> bq_wf (bq_clear q)"
    by (simp add: pushOutcome_wf tryPop_list bq_close_wf bq_clear_wf bq_abort_def)
  show "bq_limit (fst (bq_pushOutcome q r)) = bq_limit q \<and> bq_limit (fst (bq_tryPop q)) = bq_limit q \<and>
      bq_limit (bq_close q) = bq_limit q \<and> bq_limit (bq_abort q) = bq_limit q \<and> bq_limit (bq_clear q) = bq_limit q"
    by (simp add: bq_limit_def pushOutcome_fields tryPop_fields bq_close_def bq_abort_def bq_clear_def)
  show "bq_lossless (fst (bq_pushOutcome q r)) = bq_lossless q \<and> bq_lossless (fst (bq_tryPop q)) = bq_lossless q \<and>
      bq_lossless (bq_close q) = bq_lossless q \<and> bq_lossless (bq_abort q) = bq_lossless q \<and>
      bq_lossless (bq_clear q) = bq_lossless q"
    by (simp add: bq_lossless_def pushOutcome_fields tryPop_fields bq_close_def bq_abort_def bq_clear_def)
  show "bq_closed q \<Longrightarrow> bq_closed (fst (bq_pushOutcome q r)) \<and> bq_closed (fst (bq_tryPop q)) \<and> bq_closed (bq_clear q)"
    by (simp add: pushOutcome_fields tryPop_fields bq_clear_def)
  show "bq_closed (bq_close q) \<and> bq_closed (bq_abort q)" by (simp add: bq_close_def bq_abort_def)
  show "bq_wf q \<Longrightarrow> bq_limit q = Some n \<Longrightarrow> length (bq_list q) \<le> n" by (simp add: bq_wf_def)
  show "bq_wf q \<Longrightarrow> bq_pushOutcome q r = (q', Accepted) \<Longrightarrow>
      r \<noteq> None \<and> (\<exists>ys. subseq ys (bq_list q) \<and> bq_list q' = ys @ [r])"
    using pushOutcome_accepted by blast
  show "bq_wf q \<Longrightarrow> bq_lossless q \<Longrightarrow> bq_pushOutcome q r = (q', Accepted) \<Longrightarrow> bq_list q' = bq_list q @ [r]"
    using pushOutcome_accepted by blast
  show "bq_wf q \<Longrightarrow> bq_pushOutcome q r = (q', out) \<Longrightarrow> out \<noteq> Accepted \<Longrightarrow> bq_list q' = bq_list q"
    using pushOutcome_rejected by blast
  show "bq_wf q \<Longrightarrow> bq_closed q \<Longrightarrow> bq_pushOutcome q r = (q', out) \<Longrightarrow> out \<noteq> Accepted"
    using pushOutcome_fields(3) [of q r] by simp
  show "bq_wf q \<Longrightarrow> bq_list q = [] \<Longrightarrow> snd (bq_tryPop q) = None \<and> bq_list (fst (bq_tryPop q)) = []"
    by (simp add: tryPop_list)
  show "bq_wf q \<Longrightarrow> bq_list (bq_close q) = bq_list q \<and> bq_list (bq_abort q) = bq_list q"
    by (simp add: bq_close_def bq_abort_def)
  show "bq_wf q \<Longrightarrow> bq_list (bq_clear q) = []" by (rule bq_clear_wf)
next
  fix q :: MediaBlockingQueue and r rs
  show "bq_wf q \<Longrightarrow> bq_list q = r # rs \<Longrightarrow> snd (bq_tryPop q) = Some r \<and> bq_list (fst (bq_tryPop q)) = rs"
    by (rule tryPop_list(3))
qed

section \<open>Prepared batches\<close>

lemma bq_open: "bq_create policy = Inr q \<Longrightarrow> bq_wf q" "bq_create policy = Inr q \<Longrightarrow> bq_list q = []"
  "bq_create policy = Inr q \<Longrightarrow> bq_policy q = policy"
  using bq_create_wf by blast+

text \<open>
  Publishing a prepared batch cannot fail halfway: when preparation succeeded and the batch fits
  into the free capacity, publishing appends the whole batch in order, counts it, consumes it and
  leaves the queue well-formed.
\<close>

theorem prepared_push_publishes_all:
  assumes "bq_wf q" and "preparePush allocates q buffers = Inr prepared"
    and "length (bq_list q) + length buffers \<le> qp_capacity (bq_policy q)" and "isBoundedQueue (bq_policy q)"
    and "publishPreparedLocked q prepared = (q', rest)"
  shows "bq_list q' = bq_list q @ buffers \<and> bq_wf q' \<and> rest = [] \<and>
    qm_pushed (bq_metrics q') = qm_pushed (bq_metrics q) + of_nat (length buffers)"
proof -
  have prep: "supportsPreparedPush (bq_storage q)" "None \<notin> set buffers" "prepared = buffers"
    using assms(2) by (auto simp: preparePush_def storage_prepare_def split: if_splits)
  have room: "\<forall>n. storage_room (bq_storage q) = Some n \<longrightarrow> length (bq_list q) + length buffers \<le> n"
    using assms(1,3,4) by (auto simp: bq_wf_def bq_limit_def)
  have swf: "storage_wf (bq_storage q)" using assms(1) by (simp add: bq_wf_def)
  note P = storage_publish_list [OF swf prep(1) room]
  have q': "bq_policy q' = bq_policy q" "bq_storage q' = fst (storage_publish (bq_storage q) buffers)"
      "bq_closed q' = bq_closed q" "bq_aborted q' = bq_aborted q" "size_metrics_ok q'" "rest = []"
      "qm_pushed (bq_metrics q') = qm_pushed (bq_metrics q) + of_nat (length buffers)"
    using assms(5) prep(3)
    by (auto simp: publishPreparedLocked_def storage_publish_def updateSizeMetricsLocked_def count_pushed_def
        size_metrics_ok_def storage_size_list Let_def)
  have "bq_wf q'"
    by (rule bq_wf_storage [OF assms(1) _ _ _ _ q'(1,2,3,4,5)])
      (use P assms(1,3,4) prep(2) in \<open>auto simp: bq_wf_def bq_limit_def\<close>)
  then show ?thesis using P q' by simp
qed

theorem prepared_push_publishes_all_witness:
  "bq_list (fst (publishPreparedLocked
       (projr (bq_create (default_MediaQueuePolicy\<lparr>qp_storageMode := Storage_AtomicPrepared, qp_capacity := 2\<rparr>)))
       [Some \<lparr>buffer_object = 1, buffer_flags = 0\<rparr>, Some \<lparr>buffer_object = 2, buffer_flags = 0\<rparr>])) =
     [Some \<lparr>buffer_object = 1, buffer_flags = 0\<rparr>, Some \<lparr>buffer_object = 2, buffer_flags = 0\<rparr>]"
proof -
  let ?p = "default_MediaQueuePolicy\<lparr>qp_storageMode := Storage_AtomicPrepared, qp_capacity := 2\<rparr>"
  let ?q = "projr (bq_create ?p)"
  let ?b = "[Some \<lparr>buffer_object = 1, buffer_flags = 0\<rparr>, Some \<lparr>buffer_object = 2, buffer_flags = 0\<rparr>]"
  let ?r = "publishPreparedLocked ?q ?b"
  have c: "bq_create ?p = Inr ?q" by code_simp
  have prep: "preparePush (\<lambda>_. True) ?q ?b = Inr ?b" by code_simp
  have room: "length (bq_list ?q) + length ?b \<le> qp_capacity (bq_policy ?q)" "isBoundedQueue (bq_policy ?q)" by code_simp+
  have l: "bq_list ?q = []" by (rule bq_open(2) [OF c])
  have r: "?r = (fst ?r, snd ?r)" by (rule surjective_pairing)
  show ?thesis
    using conjunct1 [OF prepared_push_publishes_all [OF bq_open(1) [OF c] prep room r]] unfolding l append_Nil .
qed

end
