(* ===== verification/Blocking_Queue_System.thy ===== *)
theory Blocking_Queue_System
  imports Blocking_Queue
begin

text \<open>
  Producers and consumers sharing one \<^verbatim>\<open>MediaBlockingQueue\<close>. The mutex makes every stretch of code
  between two waits atomic, so a concurrent execution is an interleaving of such stretches: a producer
  entering \<^verbatim>\<open>push\<close>, a waiting producer resumed when its wait predicate holds, a consumer whose
  \<^verbatim>\<open>pop\<close> returns, and the control calls. The step relation has one rule for each.
\<close>

section \<open>Interleavings\<close>

record QueueSystem =
  qs_queue :: MediaBlockingQueue
  qs_waiting :: "(MediaBuffer \<times> PushWait) list"
  qs_pushed :: "MediaBufferRef list"
  qs_popped :: "MediaBufferRef list"

text \<open>The bookkeeping of a push that came to a return or to a wait.\<close>

definition push_settles :: "QueueSystem \<Rightarrow> MediaBuffer \<Rightarrow> MediaBlockingQueue \<times> PushProgress \<Rightarrow> QueueSystem" where
  "push_settles s b r =
     (case snd r of
        PushDone status \<Rightarrow>
          (if isl status then s\<lparr>qs_queue := fst r\<rparr>
           else s\<lparr>qs_queue := fst r, qs_pushed := qs_pushed s @ [Some b]\<rparr>)
      | PushWaiting w \<Rightarrow> s\<lparr>qs_queue := fst r, qs_waiting := qs_waiting s @ [(b, w)]\<rparr>)"

inductive qs_step :: "QueueSystem \<Rightarrow> QueueSystem \<Rightarrow> bool" where
  step_push: "qs_step s (push_settles s b (bq_push (qs_queue s) (Some b)))"
| step_resume: "push_ready (qs_queue s) \<Longrightarrow> qs_waiting s = xs @ (b, w) # ys \<Longrightarrow>
    qs_step s (push_settles (s\<lparr>qs_waiting := xs @ ys\<rparr>) b (push_resume (qs_queue s) b w))"
| step_pop: "bq_pop (qs_queue s) = (q, Returns (Inr r)) \<Longrightarrow>
    qs_step s (s\<lparr>qs_queue := q, qs_popped := qs_popped s @ [r]\<rparr>)"
| step_pop_fails: "bq_pop (qs_queue s) = (q, Returns (Inl e)) \<Longrightarrow> qs_step s (s\<lparr>qs_queue := q\<rparr>)"
| step_close: "qs_step s (s\<lparr>qs_queue := bq_close (qs_queue s)\<rparr>)"
| step_abort: "qs_step s (s\<lparr>qs_queue := bq_abort (qs_queue s)\<rparr>)"

inductive qs_reachable :: "MediaQueuePolicy \<Rightarrow> QueueSystem \<Rightarrow> bool" for policy where
  reach_init: "bq_create policy = Inr q \<Longrightarrow>
    qs_reachable policy \<lparr>qs_queue = q, qs_waiting = [], qs_pushed = [], qs_popped = []\<rparr>"
| reach_step: "qs_reachable policy s \<Longrightarrow> qs_step s s' \<Longrightarrow> qs_reachable policy s'"

inductive_cases qs_stepE: "qs_step s s'"

section \<open>The effect of a push\<close>

definition push_effect :: "MediaBlockingQueue \<Rightarrow> MediaBuffer \<Rightarrow> MediaBlockingQueue \<times> PushProgress \<Rightarrow> bool" where
  "push_effect q b r \<longleftrightarrow>
     bq_wf (fst r) \<and> bq_policy (fst r) = bq_policy q \<and>
     (case snd r of
        PushDone status \<Rightarrow>
          (if isl status then subseq (bq_list (fst r)) (bq_list q)
           else subseq (bq_list (fst r)) (bq_list q @ [Some b]))
      | PushWaiting w \<Rightarrow> subseq (bq_list (fst r)) (bq_list q) \<and> fullLocked (fst r)) \<and>
     (qp_overflowPolicy (bq_policy q) = BlockProducer \<longrightarrow>
        (case snd r of
           PushDone status \<Rightarrow> bq_list (fst r) = (if isl status then bq_list q else bq_list q @ [Some b])
         | PushWaiting w \<Rightarrow> bq_list (fst r) = bq_list q))"

lemma push_finish_effect: "bq_wf q \<Longrightarrow> push_effect q b (push_finish q b)"
  using enqueue_wf [of q b] by (simp add: push_effect_def push_finish_def)

lemma overflow_effect:
  assumes wf: "bq_wf q" and full: "fullLocked q" and step: "handleOverflowLocked q (Some b) = (q', status)"
  shows "bq_wf q' \<and> bq_policy q' = bq_policy q \<and> subseq (bq_list q') (bq_list q)"
proof -
  have "subseq (tl (bq_list q)) (bq_list q)" by (cases "bq_list q") auto
  moreover have "subseq (bq_list (dropFirstNonKeyFrame q)) (bq_list q)"
    using dropFirstNonKeyFrame_wf(5) [OF wf] by (auto intro: subseq_drop_one)
  ultimately show ?thesis
    using step wf dropFront_wf [OF wf full_nonempty [OF wf full]] dropFirstNonKeyFrame_wf(1,2) [OF wf]
    by (auto simp: handleOverflowLocked_def split: MediaQueueOverflowPolicy.splits if_splits)
qed

lemma push_effect_trans:
  assumes "push_effect q' b r" and "bq_policy q' = bq_policy q" and "subseq (bq_list q') (bq_list q)"
    and "qp_overflowPolicy (bq_policy q) \<noteq> BlockProducer"
  shows "push_effect q b r"
proof -
  have "subseq (bq_list q' @ [Some b]) (bq_list q @ [Some b])" using assms(3) by simp
  then show ?thesis
    using assms unfolding push_effect_def
    by (auto split: PushProgress.splits intro: subseq_order.order_trans)
qed

lemma push_loop_effect: "bq_wf q \<Longrightarrow> push_effect q b (push_loop q b)"
proof (induction q b rule: push_loop.induct)
  case (1 q b)
  show ?case
  proof (cases "fullLocked q \<and> qp_overflowPolicy (bq_policy q) \<noteq> BlockProducer")
    case False
    then show ?thesis
      using 1(2) push_finish_effect [of q b]
      by (subst push_loop.simps) (auto simp: push_effect_def fullLocked_def)
  next
    case True
    obtain q' status where h: "handleOverflowLocked q (Some b) = (q', status)" by fastforce
    note E = overflow_effect [OF 1(2) conjunct1 [OF True] h]
    have fin: "push_effect q b (push_finish q' b)"
      using push_effect_trans [OF push_finish_effect] E True by blast
    have rest: "push_effect q b (push_loop q' b)"
      if "\<not> isl status" "fullLocked q'" "\<not> overflowPolicyDropsIncoming (bq_policy q) (Some b)"
        "\<not> (qp_overflowPolicy (bq_policy q) = DropNonKeyFrame \<and> isKeyFrame b)" "\<not> bq_aborted q'" "\<not> bq_closed q'"
      using 1(1) [OF _ _ h [symmetric]] that True E push_effect_trans [of q' b "push_loop q' b" q] by auto
    have drop: "subseq (bq_list q') (bq_list q @ [Some b])"
      using E by (auto intro: subseq_order.order_trans)
    show ?thesis
      using True fin rest E drop
      by (subst push_loop.simps) (auto simp: h push_effect_def fullLocked_def)
  qed
qed

lemma push_effect_failed: "bq_wf q \<Longrightarrow> push_effect q b (count_failedPush q, PushDone (Inl e))"
  by (simp add: push_effect_def)

lemma bq_push_effect: "bq_wf q \<Longrightarrow> push_effect q b (bq_push q (Some b))"
  by (simp add: bq_push_def push_loop_effect push_effect_failed)

lemma push_resume_effect: "bq_wf q \<Longrightarrow> push_effect q b (push_resume q b w)"
  by (cases w) (simp_all add: push_resume_def push_loop_effect push_effect_failed)

section \<open>The invariant of the system\<close>

definition qs_inv :: "MediaQueuePolicy \<Rightarrow> QueueSystem \<Rightarrow> bool" where
  "qs_inv policy s \<longleftrightarrow>
     bq_wf (qs_queue s) \<and> bq_policy (qs_queue s) = policy \<and>
     subseq (qs_popped s @ bq_list (qs_queue s)) (qs_pushed s) \<and>
     (qp_overflowPolicy policy = BlockProducer \<longrightarrow> qs_popped s @ bq_list (qs_queue s) = qs_pushed s)"

lemma push_settles_inv:
  assumes "qs_inv policy s" and "push_effect (qs_queue s) b r"
  shows "qs_inv policy (push_settles s b r)"
proof -
  obtain q p where r: "r = (q, p)" by fastforce
  have step: "subseq (qs_popped s @ bq_list q) (qs_popped s @ bq_list (qs_queue s) @ zs)"
    if "subseq (bq_list q) (bq_list (qs_queue s) @ zs)" for zs
    using list_emb_append_mono [OF subseq_order.order_refl that] .
  have ext: "subseq (qs_popped s @ bq_list (qs_queue s) @ zs) (qs_pushed s @ zs)" for zs
    using assms(1) list_emb_append_mono [of "(=)" "qs_popped s @ bq_list (qs_queue s)" "qs_pushed s" zs zs]
    by (simp add: qs_inv_def)
  note T = subseq_order.order_trans [OF step ext]
  show ?thesis
    using assms T [of "[]"] T [of "[Some b]"] unfolding r
    by (auto simp: qs_inv_def push_effect_def push_settles_def split: PushProgress.splits)
qed

lemma qs_inv_waiting [simp]: "qs_inv policy (s\<lparr>qs_waiting := ws\<rparr>) = qs_inv policy s"
  by (simp add: qs_inv_def)

lemma bq_pop_success:
  assumes "bq_wf q" and "bq_pop q = (q', Returns (Inr r))"
  shows "bq_wf q' \<and> bq_policy q' = bq_policy q \<and> bq_list q = r # bq_list q'"
proof -
  have ne: "bq_list q \<noteq> []" and q': "q' = dequeue q" "r = storage_front (bq_storage q)"
    using assms(2) by (auto simp: bq_pop_def storage_empty_list split: if_splits)
  have "storage_front (bq_storage q) = hd (bq_list q)"
    using storage_front_list assms(1) ne by (simp add: bq_wf_def)
  then show ?thesis using dequeue_wf [OF assms(1) ne] ne q' by simp
qed

lemma bq_pop_failure: "bq_pop q = (q', Returns (Inl e)) \<Longrightarrow> q' = count_failedPop q"
  by (auto simp: bq_pop_def split: if_splits)

lemma qs_step_inv: "qs_step s s' \<Longrightarrow> qs_inv policy s \<Longrightarrow> qs_inv policy s'"
proof (induction rule: qs_step.induct)
  case (step_push s b)
  then show ?case using push_settles_inv bq_push_effect by (simp add: qs_inv_def)
next
  case (step_resume s xs b w ys)
  then show ?case
    using push_settles_inv [of policy "s\<lparr>qs_waiting := xs @ ys\<rparr>" b] push_resume_effect [of "qs_queue s" b w]
    by (simp add: qs_inv_def)
next
  case (step_pop s q r)
  then show ?case using bq_pop_success [of "qs_queue s" q r] by (simp add: qs_inv_def)
next
  case (step_pop_fails s q e)
  then show ?case using bq_pop_failure [of "qs_queue s" q e] by (simp add: qs_inv_def)
next
  case (step_close s)
  then show ?case using bq_close_wf by (simp add: qs_inv_def) (simp add: bq_close_def)
next
  case (step_abort s)
  then show ?case by (simp add: qs_inv_def bq_abort_def)
qed

lemma qs_reachable_inv: "qs_reachable policy s \<Longrightarrow> qs_inv policy s"
proof (induction rule: qs_reachable.induct)
  case (reach_init q)
  then show ?case using bq_create_wf [OF reach_init] by (simp add: qs_inv_def)
qed (rule qs_step_inv)

section \<open>Properties of concurrent executions\<close>

text \<open>
  C8. Whatever the interleaving of producers, consumers, closes and aborts: what consumers received
  followed by what is queued is a subsequence of the buffers whose push succeeded, in the order in
  which the pushes completed; with the blocking policy it is exactly that sequence, so nothing is
  lost, duplicated or reordered. The capacity is never exceeded.
\<close>

theorem concurrent_delivery:
  assumes "qs_reachable policy s"
  shows "subseq (qs_popped s @ bq_list (qs_queue s)) (qs_pushed s) \<and>
    (qp_overflowPolicy policy = BlockProducer \<longrightarrow> qs_popped s @ bq_list (qs_queue s) = qs_pushed s) \<and>
    (isBoundedQueue policy \<longrightarrow> length (bq_list (qs_queue s)) \<le> qp_capacity policy)"
  using qs_reachable_inv [OF assms] by (auto simp: qs_inv_def bq_wf_def bq_limit_def)

definition demo_blocking :: MediaQueuePolicy where
  "demo_blocking = default_MediaQueuePolicy\<lparr>qp_storageMode := Storage_AtomicPrepared, qp_capacity := 1\<rparr>"

definition demo_system :: QueueSystem where
  "demo_system = \<lparr>qs_queue = projr (bq_create demo_blocking), qs_waiting = [], qs_pushed = [], qs_popped = []\<rparr>"

definition demo_buffer :: "nat \<Rightarrow> u32 \<Rightarrow> MediaBuffer" where
  "demo_buffer n flags = \<lparr>buffer_object = n, buffer_flags = flags\<rparr>"

lemma demo_two_producers:
  "\<exists>s. qs_reachable demo_blocking s \<and> qs_waiting s = [(demo_buffer 2 0, ProducerWait)] \<and>
       qs_popped s = [Some (demo_buffer 1 0)] \<and> \<not> fullLocked (qs_queue s)"
proof -
  let ?s1 = "push_settles demo_system (demo_buffer 1 0) (bq_push (qs_queue demo_system) (Some (demo_buffer 1 0)))"
  let ?s2 = "push_settles ?s1 (demo_buffer 2 0) (bq_push (qs_queue ?s1) (Some (demo_buffer 2 0)))"
  let ?p = "bq_pop (qs_queue ?s2)"
  let ?s3 = "?s2\<lparr>qs_queue := fst ?p, qs_popped := qs_popped ?s2 @ [Some (demo_buffer 1 0)]\<rparr>"
  have "bq_create demo_blocking = Inr (projr (bq_create demo_blocking))" by code_simp
  then have "qs_reachable demo_blocking demo_system" unfolding demo_system_def by (rule reach_init)
  then have r2: "qs_reachable demo_blocking ?s2" by (rule reach_step [OF reach_step [OF _ step_push] step_push])
  have "snd ?p = Returns (Inr (Some (demo_buffer 1 0)))" by code_simp
  then have "?p = (fst ?p, Returns (Inr (Some (demo_buffer 1 0))))" by (simp only: prod_eq_iff fst_conv snd_conv)
  then have "qs_reachable demo_blocking ?s3" by (rule reach_step [OF r2 step_pop])
  moreover have "qs_waiting ?s3 = [(demo_buffer 2 0, ProducerWait)]" by code_simp
  moreover have "qs_popped ?s3 = [Some (demo_buffer 1 0)]" by code_simp
  moreover have "\<not> fullLocked (qs_queue ?s3)" by code_simp
  ultimately show ?thesis by blast
qed

theorem concurrent_delivery_witness:
  "\<exists>s. qs_reachable demo_blocking s \<and> qs_waiting s \<noteq> [] \<and> qs_pushed s = Some (demo_buffer 1 0) # bq_list (qs_queue s)"
proof -
  obtain s where s: "qs_reachable demo_blocking s" "qs_waiting s = [(demo_buffer 2 0, ProducerWait)]"
      "qs_popped s = [Some (demo_buffer 1 0)]"
    using demo_two_producers by blast
  have "qp_overflowPolicy demo_blocking = BlockProducer" by code_simp
  then show ?thesis using concurrent_delivery [OF s(1)] s by (intro exI [of _ s]) simp
qed

text \<open>
  C10. A producer of a blocking queue waits exactly when the queue is full and neither closed nor
  aborted, nothing being lost meanwhile; once the queue is closed or aborted its resumption fails,
  with the error that says which, and leaves the contents alone.
\<close>

theorem blocking_producer:
  assumes "bq_wf q" and "qp_overflowPolicy (bq_policy q) = BlockProducer"
  shows "((\<exists>w. snd (bq_push q (Some b)) = PushWaiting w) \<longleftrightarrow> fullLocked q \<and> \<not> bq_closed q \<and> \<not> bq_aborted q) \<and>
    (bq_closed q \<longrightarrow>
       snd (push_resume q b ProducerWait) = PushDone (Inl (if bq_aborted q then InternalError else Cancelled)) \<and>
       bq_list (fst (push_resume q b ProducerWait)) = bq_list q) \<and>
    (\<not> fullLocked q \<and> \<not> bq_closed q \<longrightarrow>
       snd (push_resume q b ProducerWait) = PushDone (Inr ()) \<and>
       bq_list (fst (push_resume q b ProducerWait)) = bq_list q @ [Some b])"
proof -
  have "bq_aborted q \<longrightarrow> bq_closed q" using assms(1) by (simp add: bq_wf_def)
  then show ?thesis
    using assms(2) enqueue_wf(2) [OF assms(1)]
    by (auto simp: bq_push_def push_resume_def push_finish_def push_loop.simps [of q b])
qed

theorem blocking_producer_witness:
  "\<exists>s. qs_reachable demo_blocking s \<and>
     snd (push_resume (qs_queue s) (demo_buffer 2 0) ProducerWait) = PushDone (Inr ())"
proof -
  obtain s where s: "qs_reachable demo_blocking s" "\<not> fullLocked (qs_queue s)" "bq_list (qs_queue s) = []"
    "\<not> bq_closed (qs_queue s)"
  proof
    show "qs_reachable demo_blocking demo_system"
      unfolding demo_system_def by (rule reach_init) code_simp
  qed code_simp+
  have "bq_wf (qs_queue s)" "bq_policy (qs_queue s) = demo_blocking"
    using qs_reachable_inv [OF s(1)] by (simp_all add: qs_inv_def)
  moreover have "qp_overflowPolicy demo_blocking = BlockProducer" by code_simp
  ultimately show ?thesis
    using blocking_producer [of "qs_queue s" "demo_buffer 2 0"] s by (intro exI [of _ s]) simp
qed

text \<open>Repeatedly evaluating the wait of a producer whose predicate already holds: the mutex is not released.\<close>

primrec push_spins :: "nat \<Rightarrow> MediaBlockingQueue \<Rightarrow> MediaBuffer \<Rightarrow> PushWait \<Rightarrow> MediaBlockingQueue \<times> PushProgress" where
  "push_spins 0 q b w = (q, PushWaiting w)"
| "push_spins (Suc n) q b w =
     (case push_resume q b w of
        (q', PushDone status) \<Rightarrow> (q', PushDone status)
      | (q', PushWaiting w') \<Rightarrow> if push_ready q' then push_spins n q' b w' else (q', PushWaiting w'))"

definition keyframe_stuck :: "MediaBlockingQueue \<Rightarrow> bool" where
  "keyframe_stuck q \<longleftrightarrow>
     bq_wf q \<and> fullLocked q \<and> qp_overflowPolicy (bq_policy q) = DropNonKeyFrame \<and> bq_closed q \<and>
     (\<forall>r\<in>set (bq_list q). \<not> is_nonkey r)"

lemma keyframe_stuck_resume:
  assumes "keyframe_stuck q" and "isKeyFrame b"
  shows "push_resume q b KeyFrameWait = (count_blockedPush q, PushWaiting KeyFrameWait)"
proof -
  have "dropFirstNonKeyFrame q = q"
    using dropFirstNonKeyFrame_wf(5) [of q] assms(1) by (auto simp: keyframe_stuck_def)
  then have "handleOverflowLocked q (Some b) = (q, success ())"
    using assms by (simp add: handleOverflowLocked_def keyframe_stuck_def is_nonkey_def)
  then show ?thesis
    using assms
    by (simp add: push_resume_def push_loop.simps [of q b] keyframe_stuck_def overflowPolicyDropsIncoming_def)
qed

lemma keyframe_stuck_count: "keyframe_stuck q \<Longrightarrow> keyframe_stuck (count_blockedPush q) \<and> push_ready (count_blockedPush q)"
  by (simp add: keyframe_stuck_def push_ready_def fullLocked_def)

lemma push_spins_stuck:
  "keyframe_stuck q \<Longrightarrow> isKeyFrame b \<Longrightarrow> snd (push_spins n q b KeyFrameWait) = PushWaiting KeyFrameWait"
  by (induction n arbitrary: q) (simp_all add: keyframe_stuck_resume keyframe_stuck_count)

text \<open>
  C11. A key-frame producer does not survive a close: when the queue was closed or aborted while full
  of key frames under the policy that drops non-key frames, the wait's predicate holds, the
  \<^verbatim>\<open>continue\<close> after the wait skips the closed and aborted checks, and the loop waits again on the same
  predicate. However often it goes round, the call does not return.
\<close>

theorem keyframe_producer_spins:
  assumes "bq_wf q" and "fullLocked q" and "qp_overflowPolicy (bq_policy q) = DropNonKeyFrame"
    and "bq_closed q" and "\<forall>r\<in>set (bq_list q). \<not> is_nonkey r" and "isKeyFrame b"
  shows "push_ready q \<and> (\<forall>n. snd (push_spins n q b KeyFrameWait) = PushWaiting KeyFrameWait)"
  using assms push_spins_stuck [of q b] by (simp add: keyframe_stuck_def push_ready_def)

theorem keyframe_producer_spins_witness:
  "snd (push_spins 1000
     (bq_close (fst (bq_push (projr (bq_create (demo_blocking\<lparr>qp_overflowPolicy := DropNonKeyFrame\<rparr>)))
        (Some (demo_buffer 1 4))))) (demo_buffer 2 4) KeyFrameWait) = PushWaiting KeyFrameWait"
proof -
  let ?p = "demo_blocking\<lparr>qp_overflowPolicy := DropNonKeyFrame\<rparr>"
  let ?c = "projr (bq_create ?p)"
  let ?q = "bq_close (fst (bq_push ?c (Some (demo_buffer 1 4))))"
  have "bq_create ?p = Inr ?c" by code_simp
  then have "push_effect ?c (demo_buffer 1 4) (bq_push ?c (Some (demo_buffer 1 4)))"
    by (intro bq_push_effect bq_open(1))
  then have wf: "bq_wf ?q" by (intro bq_close_wf) (simp add: push_effect_def)
  have l: "bq_list ?q = [Some (demo_buffer 1 4)]" by code_simp
  have k: "\<forall>r\<in>set (bq_list ?q). \<not> is_nonkey r" unfolding l by code_simp
  have f: "fullLocked ?q" "qp_overflowPolicy (bq_policy ?q) = DropNonKeyFrame" "bq_closed ?q" "isKeyFrame (demo_buffer 2 4)"
    by code_simp+
  show ?thesis using keyframe_producer_spins [OF wf f(1,2,3) k f(4)] by blast
qed

end
