(* ===== verification/Spsc_Ring_Queue.thy ===== *)
theory Spsc_Ring_Queue
  imports Blocking_Queue_Storage
begin

text \<open>
  \<^verbatim>\<open>runtime/queue/MediaSpscRingQueue\<close> and its wrapper \<^verbatim>\<open>MediaSpscQueue\<close>. The ring has one slot more
  than the capacity, so that equal indices mean empty. Every access of the ring holds the mutex;
  \<^verbatim>\<open>push\<close> and \<^verbatim>\<open>pop\<close> release it between their rounds, so they are given as rounds: the attempt, the
  entry into the wait, the exit from it.
\<close>

section \<open>Definitions\<close>

record MediaSpscRingQueue =
  sq_policy :: MediaQueuePolicy
  sq_ring :: "MediaBufferRef list"
  sq_capacity :: nat
  sq_read :: nat
  sq_write :: nat
  sq_closed :: bool
  sq_aborted :: bool
  sq_metrics :: MediaQueueMetrics

definition normalise_mode :: "MediaQueuePolicy \<Rightarrow> MediaQueuePolicy" where
  "normalise_mode policy =
     (if qp_mode policy = QueueMode_Unknown \<or> qp_mode policy = QueueMode_Blocking
      then policy\<lparr>qp_mode := QueueMode_SpscRing\<rparr> else policy)"

definition sq_create :: "MediaQueuePolicy \<Rightarrow> MediaSpscRingQueue" where
  "sq_create policy =
     (let policy = normalise_mode policy;
          policy = (if qp_capacity policy = 0 then policy\<lparr>qp_capacity := 16\<rparr> else policy);
          capacity = qp_capacity policy + 1
      in \<lparr>sq_policy = policy, sq_ring = replicate capacity None, sq_capacity = capacity, sq_read = 0,
          sq_write = 0, sq_closed = False, sq_aborted = False, sq_metrics = empty_metrics\<rparr>)"

definition MediaSpscQueue_create :: "MediaQueuePolicy \<Rightarrow> MediaSpscRingQueue" where
  "MediaSpscQueue_create policy = sq_create (normalise_mode policy)"

definition sq_next :: "MediaSpscRingQueue \<Rightarrow> nat \<Rightarrow> nat" where
  "sq_next q index = (index + 1) mod sq_capacity q"

definition sq_full :: "MediaSpscRingQueue \<Rightarrow> nat \<Rightarrow> nat \<Rightarrow> bool" where
  "sq_full q write read \<longleftrightarrow> sq_next q write = read"

definition sq_empty :: "nat \<Rightarrow> nat \<Rightarrow> bool" where
  "sq_empty write read \<longleftrightarrow> write = read"

definition sizeLocked :: "MediaSpscRingQueue \<Rightarrow> nat" where
  "sizeLocked q =
     (if sq_write q \<ge> sq_read q then sq_write q - sq_read q else sq_capacity q - sq_read q + sq_write q)"

definition updateSizeMetrics :: "nat \<Rightarrow> MediaSpscRingQueue \<Rightarrow> MediaSpscRingQueue" where
  "updateSizeMetrics current q =
     (let m = (sq_metrics q)\<lparr>qm_currentSize := current\<rparr>
      in q\<lparr>sq_metrics := (if current > qm_peakSize m then m\<lparr>qm_peakSize := current\<rparr> else m)\<rparr>)"

definition sq_failedPush :: "MediaSpscRingQueue \<Rightarrow> MediaSpscRingQueue" where
  "sq_failedPush q = q\<lparr>sq_metrics := (sq_metrics q)\<lparr>qm_failedPushes := qm_failedPushes (sq_metrics q) + 1\<rparr>\<rparr>"

definition sq_failedPop :: "MediaSpscRingQueue \<Rightarrow> MediaSpscRingQueue" where
  "sq_failedPop q = q\<lparr>sq_metrics := (sq_metrics q)\<lparr>qm_failedPops := qm_failedPops (sq_metrics q) + 1\<rparr>\<rparr>"

definition sq_dropped :: "MediaSpscRingQueue \<Rightarrow> MediaSpscRingQueue" where
  "sq_dropped q = q\<lparr>sq_metrics := (sq_metrics q)\<lparr>qm_dropped := qm_dropped (sq_metrics q) + 1\<rparr>\<rparr>"

definition sq_pushed :: "MediaSpscRingQueue \<Rightarrow> MediaSpscRingQueue" where
  "sq_pushed q = q\<lparr>sq_metrics := (sq_metrics q)\<lparr>qm_pushed := qm_pushed (sq_metrics q) + 1\<rparr>\<rparr>"

definition sq_popped :: "MediaSpscRingQueue \<Rightarrow> MediaSpscRingQueue" where
  "sq_popped q = q\<lparr>sq_metrics := (sq_metrics q)\<lparr>qm_popped := qm_popped (sq_metrics q) + 1\<rparr>\<rparr>"

definition sq_blockedPush :: "MediaSpscRingQueue \<Rightarrow> MediaSpscRingQueue" where
  "sq_blockedPush q = q\<lparr>sq_metrics := (sq_metrics q)\<lparr>qm_blockedPushes := qm_blockedPushes (sq_metrics q) + 1\<rparr>\<rparr>"

text \<open>Resetting the slot at the read index and advancing it, with the bookkeeping that follows.\<close>

definition advance_read :: "(MediaSpscRingQueue \<Rightarrow> MediaSpscRingQueue) \<Rightarrow> MediaSpscRingQueue \<Rightarrow> MediaSpscRingQueue" where
  "advance_read tally q =
     (let q' = tally (q\<lparr>sq_ring := (sq_ring q)[sq_read q := None], sq_read := sq_next q (sq_read q)\<rparr>)
      in updateSizeMetrics (sizeLocked q') q')"

definition sq_dropOldest :: "MediaSpscRingQueue \<Rightarrow> MediaSpscRingQueue \<times> bool" where
  "sq_dropOldest q =
     (if sq_empty (sq_write q) (sq_read q) then (q, False) else (advance_read sq_dropped q, True))"

text \<open>
  The two loops of \<^verbatim>\<open>dropOldestNonKeyFrame\<close>. The indices are slots of the ring, which the invariant
  below keeps; an index outside it would be an access out of bounds in the code.
\<close>

lemma ring_distance:
  fixes n :: nat
  assumes "a < n" and "b < n"
  shows "(a + n - b) mod n = (if b \<le> a then a - b else a + n - b)"
proof (cases "b \<le> a")
  case True
  then have "a + n - b = (a - b) + n" by simp
  then show ?thesis using True assms by (metis less_imp_diff_less mod_add_self2 mod_less)
qed (use assms in simp)

lemma next_candidate_decreases:
  fixes n :: nat
  assumes "c \<noteq> w" and "c < n" and "w < n"
  shows "(w + n - (c + 1) mod n) mod n < (w + n - c) mod n"
proof -
  have "(c + 1) mod n = (if c + 1 = n then 0 else c + 1)" using assms by simp
  then show ?thesis
    using assms ring_distance [of w n c] ring_distance [of w n "(c + 1) mod n"] by (auto split: if_splits)
qed

function scan_candidate :: "nat \<Rightarrow> nat \<Rightarrow> MediaBufferRef list \<Rightarrow> nat \<Rightarrow> nat option" where
  "scan_candidate capacity write ring candidate =
     (if candidate = write \<or> \<not> (candidate < capacity \<and> write < capacity) then None
      else if is_nonkey (ring ! candidate) then Some candidate
      else scan_candidate capacity write ring ((candidate + 1) mod capacity))"
  by pat_completeness auto
termination
  by (relation "measure (\<lambda>(n, w, _, c). (w + n - c) mod n)") (simp_all add: next_candidate_decreases [simplified])

definition previous_slot :: "nat \<Rightarrow> nat \<Rightarrow> nat" where
  "previous_slot capacity current = (if current = 0 then capacity - 1 else current - 1)"

lemma previous_decreases:
  fixes n :: nat
  assumes "c \<noteq> r" and "c < n" and "r < n"
  shows "(previous_slot n c + n - r) mod n < (c + n - r) mod n"
proof (cases "c = 0")
  case True
  then have "(n - 1 + n - r) mod n = n - 1 - r" "(c + n - r) mod n = n - r"
    using assms ring_distance [of "n - 1" n r] by simp_all
  then show ?thesis using True assms by (simp add: previous_slot_def)
next
  case False
  then have p: "previous_slot n c = c - 1" "c - 1 < n" using assms by (simp_all add: previous_slot_def)
  show ?thesis
  proof (cases "r < c")
    case True
    then show ?thesis
      unfolding p(1) ring_distance [OF assms(2,3)] ring_distance [OF p(2) assms(3)] using assms by auto
  next
    case le: False
    then have "c < r" using assms by simp
    then show ?thesis
      unfolding p(1) ring_distance [OF assms(2,3)] ring_distance [OF p(2) assms(3)] using assms False by auto
  qed
qed

function shift_to_read :: "nat \<Rightarrow> nat \<Rightarrow> nat \<Rightarrow> MediaBufferRef list \<Rightarrow> MediaBufferRef list" where
  "shift_to_read capacity read current ring =
     (if current = read \<or> \<not> (current < capacity \<and> read < capacity) then ring
      else
        (let previous = previous_slot capacity current
         in shift_to_read capacity read previous (ring[current := ring ! previous, previous := None])))"
  by pat_completeness auto
termination
  by (relation "measure (\<lambda>(n, r, c, _). (c + n - r) mod n)") (simp_all add: previous_decreases)

declare scan_candidate.simps [simp del] shift_to_read.simps [simp del]

definition dropOldestNonKeyFrame :: "MediaSpscRingQueue \<Rightarrow> MediaSpscRingQueue \<times> bool" where
  "dropOldestNonKeyFrame q =
     (if sq_empty (sq_write q) (sq_read q) then (q, False)
      else
        (case scan_candidate (sq_capacity q) (sq_write q) (sq_ring q) (sq_read q) of
           None \<Rightarrow> (q, False)
         | Some candidate \<Rightarrow>
             (advance_read sq_dropped
                (q\<lparr>sq_ring := shift_to_read (sq_capacity q) (sq_read q) candidate (sq_ring q)\<rparr>), True)))"

definition store_write :: "MediaSpscRingQueue \<Rightarrow> MediaBufferRef \<Rightarrow> MediaSpscRingQueue" where
  "store_write q buffer =
     (let q' = sq_pushed (q\<lparr>sq_ring := (sq_ring q)[sq_write q := buffer], sq_write := sq_next q (sq_write q)\<rparr>)
      in updateSizeMetrics (sizeLocked q') q')"

definition sq_pushOutcome :: "MediaSpscRingQueue \<Rightarrow> MediaBufferRef \<Rightarrow> MediaSpscRingQueue \<times> MediaQueuePushOutcome" where
  "sq_pushOutcome q buffer =
     (case buffer of
        None \<Rightarrow> (sq_failedPush q, Outcome_WouldBlock)
      | Some b \<Rightarrow>
          (if sq_aborted q then (sq_failedPush q, Aborted)
           else if sq_closed q then (sq_failedPush q, Closed)
           else if sq_full q (sq_write q) (sq_read q) then
             (case qp_overflowPolicy (sq_policy q) of
                DropOldest \<Rightarrow>
                  (let (q', dropped) = sq_dropOldest q
                   in if \<not> dropped then (sq_failedPush q', Outcome_WouldBlock)
                      else (store_write q' buffer, Accepted))
              | DropNewest \<Rightarrow> (sq_dropped q, Dropped)
              | AbortQueue \<Rightarrow> (sq_failedPush (q\<lparr>sq_aborted := True, sq_closed := True\<rparr>), Aborted)
              | DropNonKeyFrame \<Rightarrow>
                  (if \<not> isKeyFrame b then (sq_dropped q, Dropped)
                   else
                     (let (q', dropped) = dropOldestNonKeyFrame q
                      in if \<not> dropped then (q', Outcome_WouldBlock)
                         else (store_write q' buffer, Accepted)))
              | BlockProducer \<Rightarrow> (sq_failedPush q, Outcome_WouldBlock))
           else (store_write q buffer, Accepted)))"

definition sq_tryPop :: "MediaSpscRingQueue \<Rightarrow> MediaSpscRingQueue \<times> MediaBufferRef option" where
  "sq_tryPop q =
     (if sq_empty (sq_write q) (sq_read q) then (sq_failedPop q, None)
      else (advance_read sq_popped q, Some (sq_ring q ! sq_read q)))"

definition sq_close :: "MediaSpscRingQueue \<Rightarrow> MediaSpscRingQueue" where
  "sq_close q = q\<lparr>sq_closed := True\<rparr>"

definition sq_abort :: "MediaSpscRingQueue \<Rightarrow> MediaSpscRingQueue" where
  "sq_abort q = q\<lparr>sq_aborted := True, sq_closed := True\<rparr>"

definition sq_clear :: "MediaSpscRingQueue \<Rightarrow> MediaSpscRingQueue" where
  "sq_clear q =
     updateSizeMetrics 0 (q\<lparr>sq_ring := map (\<lambda>_. None) (sq_ring q), sq_read := 0, sq_write := 0\<rparr>)"

text \<open>One round of \<^verbatim>\<open>push\<close>: it returns, or goes on to wait until \<^verbatim>\<open>m_notFull\<close>'s predicate holds.\<close>

definition sq_push_round :: "MediaSpscRingQueue \<Rightarrow> MediaBufferRef \<Rightarrow> MediaSpscRingQueue \<times> Status Blocking" where
  "sq_push_round q buffer =
     (case buffer of
        None \<Rightarrow> (q, Returns (failure InvalidArgument))
      | Some b \<Rightarrow>
          (let (q', outcome) = sq_pushOutcome q buffer
           in case outcome of
                Accepted \<Rightarrow> (q', Returns (success ()))
              | Dropped \<Rightarrow> (q', Returns (success ()))
              | Aborted \<Rightarrow> (q', Returns (failure InternalError))
              | Closed \<Rightarrow> (q', Returns (failure Cancelled))
              | Outcome_WouldBlock \<Rightarrow>
                  (if qp_overflowPolicy (sq_policy q') = DropNonKeyFrame \<and> isKeyFrame b then (sq_blockedPush q', Waits)
                   else if qp_overflowPolicy (sq_policy q') \<noteq> BlockProducer then (q', Returns (failure InternalError))
                   else (sq_blockedPush q', Waits))))"

definition sq_push_ready :: "MediaSpscRingQueue \<Rightarrow> bool" where
  "sq_push_ready q \<longleftrightarrow> sq_closed q \<or> sq_aborted q \<or> \<not> sq_full q (sq_write q) (sq_read q)"

text \<open>One round of \<^verbatim>\<open>pop\<close> after a failed attempt: the flags are read after the mutex was released.\<close>

definition sq_pop_check :: "MediaSpscRingQueue \<Rightarrow> Status Blocking" where
  "sq_pop_check q =
     (if sq_aborted q then Returns (failure InternalError)
      else if sq_closed q then Returns (failure Cancelled)
      else Waits)"

definition sq_pop_ready :: "MediaSpscRingQueue \<Rightarrow> bool" where
  "sq_pop_ready q \<longleftrightarrow> sq_closed q \<or> sq_aborted q \<or> \<not> sq_empty (sq_write q) (sq_read q)"

text \<open>\<^verbatim>\<open>ScopedWaiter\<close> around the two waits.\<close>

definition producer_waits :: "MediaSpscRingQueue \<Rightarrow> MediaSpscRingQueue" where
  "producer_waits q =
     q\<lparr>sq_metrics := (sq_metrics q)\<lparr>qm_blockedProducers := qm_blockedProducers (sq_metrics q) + 1\<rparr>\<rparr>"

definition producer_wakes :: "MediaSpscRingQueue \<Rightarrow> MediaSpscRingQueue" where
  "producer_wakes q =
     q\<lparr>sq_metrics := (sq_metrics q)\<lparr>qm_blockedProducers := qm_blockedProducers (sq_metrics q) - 1\<rparr>\<rparr>"

definition consumer_waits :: "MediaSpscRingQueue \<Rightarrow> MediaSpscRingQueue" where
  "consumer_waits q =
     q\<lparr>sq_metrics := (sq_metrics q)\<lparr>qm_blockedConsumers := qm_blockedConsumers (sq_metrics q) + 1\<rparr>\<rparr>"

definition consumer_wakes :: "MediaSpscRingQueue \<Rightarrow> MediaSpscRingQueue" where
  "consumer_wakes q =
     q\<lparr>sq_metrics := (sq_metrics q)\<lparr>qm_blockedConsumers := qm_blockedConsumers (sq_metrics q) - 1\<rparr>\<rparr>"

section \<open>The ring as a list\<close>

text \<open>
  The rotated ring: the slots in the order in which they are read. The queue's contents are its first
  entries, and the invariant says that the others are null.
\<close>

definition rot :: "nat \<Rightarrow> nat \<Rightarrow> MediaBufferRef list \<Rightarrow> MediaBufferRef list" where
  "rot n r ring = ring_view (\<lambda>i. (r + i) mod n) n ring"

definition sq_list :: "MediaSpscRingQueue \<Rightarrow> MediaBufferRef list" where
  "sq_list q = take (sizeLocked q) (rot (sq_capacity q) (sq_read q) (sq_ring q))"

definition sq_wf :: "MediaSpscRingQueue \<Rightarrow> bool" where
  "sq_wf q \<longleftrightarrow>
     0 < qp_capacity (sq_policy q) \<and> sq_capacity q = qp_capacity (sq_policy q) + 1 \<and>
     length (sq_ring q) = sq_capacity q \<and> sq_read q < sq_capacity q \<and> sq_write q < sq_capacity q \<and>
     rot (sq_capacity q) (sq_read q) (sq_ring q) =
       sq_list q @ replicate (sq_capacity q - sizeLocked q) None \<and>
     None \<notin> set (sq_list q) \<and>
     qm_currentSize (sq_metrics q) = sizeLocked q \<and> (sq_aborted q \<longrightarrow> sq_closed q)"

lemma length_rot [simp]: "length (rot n r ring) = n"
  by (simp add: rot_def)

lemma nth_rot [simp]: "i < n \<Longrightarrow> rot n r ring ! i = ring ! ((r + i) mod n)"
  by (simp add: rot_def)

lemma rot_slots: "0 < n \<Longrightarrow> good_slots (\<lambda>i. (r + i) mod n) n n"
  using mod_slot_inj by (auto simp: good_slots_def inj_on_def)

lemma rot_update:
  assumes "length ring = n" and "i < n"
  shows "rot n r (ring[(r + i) mod n := v]) = (rot n r ring)[i := v]"
  using ring_view_update [of "\<lambda>i. (r + i) mod n" n ring i v] rot_slots [of n r] assms by (simp add: rot_def)

lemma rot_next: "0 < n \<Longrightarrow> rot n ((r + 1) mod n) ring = rotate1 (rot n r ring)"
  by (rule nth_equalityI) (simp_all add: nth_rotate1 mod_add_left_eq mod_add_right_eq)

text \<open>The two index expressions: the size, and the slot behind the last entry.\<close>

lemma sizeLocked_less: "sq_read q < n \<Longrightarrow> sq_write q < n \<Longrightarrow> sq_capacity q = n \<Longrightarrow> sizeLocked q < n"
  by (auto simp: sizeLocked_def)

lemma sizeLocked_write:
  "sq_read q < n \<Longrightarrow> sq_write q < n \<Longrightarrow> sq_capacity q = n \<Longrightarrow> (sq_read q + sizeLocked q) mod n = sq_write q"
  by (auto simp: sizeLocked_def)

lemma sizeLocked_unique:
  assumes "sq_read q < n" and "sq_write q < n" and "sq_capacity q = n" and "k < n"
    and "(sq_read q + k) mod n = sq_write q"
  shows "sizeLocked q = k"
  using mod_slot_inj [of "sizeLocked q" n k "sq_read q"] sizeLocked_less [OF assms(1-3)]
    sizeLocked_write [OF assms(1-3)] assms(4,5) by simp

lemma sq_empty_iff: "sq_wf q \<Longrightarrow> sq_empty (sq_write q) (sq_read q) \<longleftrightarrow> sq_list q = []"
  by (auto simp: sq_empty_def sq_wf_def sq_list_def sizeLocked_def)

lemma length_sq_list: "sq_wf q \<Longrightarrow> length (sq_list q) = sizeLocked q"
  using sizeLocked_less [of q "sq_capacity q"] by (simp add: sq_list_def sq_wf_def)

lemma sq_full_iff:
  assumes "sq_wf q"
  shows "sq_full q (sq_write q) (sq_read q) \<longleftrightarrow> length (sq_list q) = qp_capacity (sq_policy q)"
proof -
  let ?n = "sq_capacity q"
  have w: "sq_read q < ?n" "sq_write q < ?n" "?n = qp_capacity (sq_policy q) + 1" using assms by (simp_all add: sq_wf_def)
  have l: "sizeLocked q < ?n" using w sizeLocked_less by blast
  have e: "sq_next q (sq_write q) = (sq_read q + (sizeLocked q + 1)) mod ?n"
    unfolding sq_next_def sizeLocked_write [OF w(1,2) refl, symmetric] by (simp add: mod_Suc_eq)
  show ?thesis
  proof (cases "sizeLocked q + 1 = ?n")
    case True
    have "(sq_read q + ?n) mod ?n = sq_read q" using w(1) by simp
    then have "sq_full q (sq_write q) (sq_read q)" using e unfolding True sq_full_def by simp
    then show ?thesis using w(3) True length_sq_list [OF assms] by simp
  next
    case False
    then have "(sq_read q + (sizeLocked q + 1)) mod ?n \<noteq> (sq_read q + 0) mod ?n"
      using l mod_slot_inj [of "sizeLocked q + 1" ?n 0 "sq_read q"] by auto
    then show ?thesis using w e False length_sq_list [OF assms] by (simp add: sq_full_def)
  qed
qed

section \<open>The operations on the list\<close>

lemma sq_wfI:
  assumes "0 < qp_capacity (sq_policy q)" and "sq_capacity q = qp_capacity (sq_policy q) + 1"
    and "length (sq_ring q) = sq_capacity q" and "sq_read q < sq_capacity q"
    and "length xs < sq_capacity q" and "sq_write q = (sq_read q + length xs) mod sq_capacity q"
    and "rot (sq_capacity q) (sq_read q) (sq_ring q) = xs @ replicate (sq_capacity q - length xs) None"
    and "None \<notin> set xs" and "qm_currentSize (sq_metrics q) = sizeLocked q" and "sq_aborted q \<longrightarrow> sq_closed q"
  shows "sq_wf q" and "sq_list q = xs"
proof -
  have w: "sq_write q < sq_capacity q" using assms(2,6) by simp
  have k: "sizeLocked q = length xs" using sizeLocked_unique [OF assms(4) w refl assms(5)] assms(6) by simp
  show l: "sq_list q = xs" using assms(7) by (simp add: sq_list_def k)
  show "sq_wf q" unfolding sq_wf_def l k using assms w k by simp
qed

lemma sq_wfD:
  assumes "sq_wf q"
  shows "0 < qp_capacity (sq_policy q)" "sq_capacity q = qp_capacity (sq_policy q) + 1"
    "length (sq_ring q) = sq_capacity q" "sq_read q < sq_capacity q" "sq_write q < sq_capacity q"
    "sq_aborted q \<longrightarrow> sq_closed q" "None \<notin> set (sq_list q)"
    "rot (sq_capacity q) (sq_read q) (sq_ring q) = sq_list q @ replicate (sq_capacity q - length (sq_list q)) None"
  using assms unfolding length_sq_list [OF assms] unfolding sq_wf_def by blast+

lemma updateSizeMetrics_fields [simp]:
  "sq_policy (updateSizeMetrics n q) = sq_policy q" "sq_ring (updateSizeMetrics n q) = sq_ring q"
  "sq_capacity (updateSizeMetrics n q) = sq_capacity q" "sq_read (updateSizeMetrics n q) = sq_read q"
  "sq_write (updateSizeMetrics n q) = sq_write q" "sq_closed (updateSizeMetrics n q) = sq_closed q"
  "sq_aborted (updateSizeMetrics n q) = sq_aborted q" "sizeLocked (updateSizeMetrics n q) = sizeLocked q"
  "qm_currentSize (sq_metrics (updateSizeMetrics n q)) = n"
  by (simp_all add: updateSizeMetrics_def sizeLocked_def Let_def)

lemma sizeLocked_other [simp]:
  "sizeLocked (q\<lparr>sq_metrics := m\<rparr>) = sizeLocked q" "sizeLocked (q\<lparr>sq_ring := ring\<rparr>) = sizeLocked q"
  by (simp_all add: sizeLocked_def)

definition only_counts :: "(MediaSpscRingQueue \<Rightarrow> MediaSpscRingQueue) \<Rightarrow> bool" where
  "only_counts f \<longleftrightarrow>
     (\<forall>q. f q = q\<lparr>sq_metrics := sq_metrics (f q)\<rparr> \<and>
          qm_currentSize (sq_metrics (f q)) = qm_currentSize (sq_metrics q))"

lemma tallies_only_count:
  "only_counts sq_dropped" "only_counts sq_popped" "only_counts sq_pushed" "only_counts sq_failedPush"
  "only_counts sq_failedPop" "only_counts sq_blockedPush" "only_counts producer_waits"
  "only_counts producer_wakes" "only_counts consumer_waits" "only_counts consumer_wakes"
  by (simp_all add: only_counts_def sq_dropped_def sq_popped_def sq_pushed_def sq_failedPush_def sq_failedPop_def
      sq_blockedPush_def producer_waits_def producer_wakes_def consumer_waits_def consumer_wakes_def)

lemma only_counts_fields:
  assumes "only_counts f"
  shows "sq_policy (f q) = sq_policy q" "sq_ring (f q) = sq_ring q" "sq_capacity (f q) = sq_capacity q"
    "sq_read (f q) = sq_read q" "sq_write (f q) = sq_write q" "sq_closed (f q) = sq_closed q"
    "sq_aborted (f q) = sq_aborted q" "sizeLocked (f q) = sizeLocked q" "sq_list (f q) = sq_list q" "sq_wf (f q) = sq_wf q"
proof -
  obtain m where m: "f q = q\<lparr>sq_metrics := m\<rparr>" and c: "qm_currentSize m = qm_currentSize (sq_metrics q)"
    using assms unfolding only_counts_def by (metis MediaSpscRingQueue.select_convs(8) MediaSpscRingQueue.surjective
        MediaSpscRingQueue.update_convs(8))
  show "sq_policy (f q) = sq_policy q" "sq_ring (f q) = sq_ring q" "sq_capacity (f q) = sq_capacity q"
    "sq_read (f q) = sq_read q" "sq_write (f q) = sq_write q" "sq_closed (f q) = sq_closed q"
    "sq_aborted (f q) = sq_aborted q" "sizeLocked (f q) = sizeLocked q" by (simp_all add: m)
  show l: "sq_list (f q) = sq_list q" by (simp add: m sq_list_def)
  show "sq_wf (f q) = sq_wf q" unfolding sq_wf_def l by (simp add: m c)
qed

lemmas tally_fields [simp] = tallies_only_count [THEN only_counts_fields(1)]
  tallies_only_count [THEN only_counts_fields(6)] tallies_only_count [THEN only_counts_fields(7)]
  tallies_only_count [THEN only_counts_fields(9)] tallies_only_count [THEN only_counts_fields(10)]

lemma store_write_list:
  assumes wf: "sq_wf q" and room: "length (sq_list q) < qp_capacity (sq_policy q)"
  shows "sq_wf (store_write q (Some b))" and "sq_list (store_write q (Some b)) = sq_list q @ [Some b]"
proof -
  let ?n = "sq_capacity q" and ?k = "length (sq_list q)" and ?q = "store_write q (Some b)"
  note F = only_counts_fields [OF tallies_only_count(3)]
  note w = sq_wfD [OF wf]
  have wr: "sq_write q = (sq_read q + ?k) mod ?n"
    using sizeLocked_write [OF w(4,5) refl] length_sq_list [OF wf] by simp
  have e: "replicate (?n - ?k) None = None # replicate (?n - (?k + 1)) (None :: MediaBufferRef)"
    using room w(2) by (metis Suc_diff_Suc Suc_eq_plus1 less_Suc_eq replicate_Suc)
  have "rot ?n (sq_read q) ((sq_ring q)[sq_write q := Some b]) = (sq_list q @ replicate (?n - ?k) None)[?k := Some b]"
    unfolding wr using rot_update [OF w(3), of ?k "sq_read q" "Some b"] room w(2,8) by simp
  also have "\<dots> = (sq_list q @ [Some b]) @ replicate (?n - length (sq_list q @ [Some b])) None"
    unfolding e by simp
  finally have r: "rot ?n (sq_read q) ((sq_ring q)[sq_write q := Some b]) = \<dots>" .
  have nx: "sq_next q (sq_write q) = (sq_read q + length (sq_list q @ [Some b])) mod ?n"
    unfolding sq_next_def wr by (simp add: mod_Suc_eq)
  have f: "sq_policy ?q = sq_policy q" "sq_capacity ?q = ?n" "sq_ring ?q = (sq_ring q)[sq_write q := Some b]"
      "sq_read ?q = sq_read q" "sq_write ?q = sq_next q (sq_write q)" "sq_aborted ?q = sq_aborted q"
      "sq_closed ?q = sq_closed q" "qm_currentSize (sq_metrics ?q) = sizeLocked ?q"
    by (simp_all add: store_write_def F Let_def)
  note I = sq_wfI [of ?q "sq_list q @ [Some b]", unfolded f, OF w(1,2) _ w(4) _ nx r]
  show "sq_wf ?q" "sq_list ?q = sq_list q @ [Some b]"
    using I w room by (simp_all add: f)
qed

lemma advance_read_list:
  assumes tally: "only_counts tally"
    and w: "0 < qp_capacity (sq_policy q)" "sq_capacity q = qp_capacity (sq_policy q) + 1"
      "length (sq_ring q) = sq_capacity q" "sq_read q < sq_capacity q" "sq_write q < sq_capacity q"
      "sq_aborted q \<longrightarrow> sq_closed q"
    and view: "rot (sq_capacity q) (sq_read q) (sq_ring q) = y # ys @ replicate (sq_capacity q - (length ys + 1)) None"
    and len: "sizeLocked q = length ys + 1" and nn: "None \<notin> set ys"
  shows "sq_wf (advance_read tally q)" and "sq_list (advance_read tally q) = ys"
proof -
  let ?n = "sq_capacity q" and ?q = "advance_read tally q" and ?ring = "(sq_ring q)[sq_read q := None]"
  note F = only_counts_fields [OF tally]
  have lt: "length ys + 1 < ?n" using sizeLocked_less [OF w(4,5) refl] len by simp
  have "rot ?n (sq_read q) ?ring = None # ys @ replicate (?n - (length ys + 1)) None"
    using rot_update [OF w(3), of 0 "sq_read q" None] w(4) view by simp
  then have "rot ?n (sq_next q (sq_read q)) ?ring = ys @ replicate (?n - (length ys + 1)) None @ [None]"
    unfolding sq_next_def using rot_next [of ?n "sq_read q" ?ring] w(2) by simp
  also have "\<dots> = ys @ replicate (?n - length ys) None"
    using lt by (metis Suc_diff_Suc Suc_eq_plus1 add_lessD1 replicate_Suc replicate_append_same)
  finally have r: "rot ?n (sq_next q (sq_read q)) ?ring = \<dots>" .
  have wr: "sq_write q = (sq_next q (sq_read q) + length ys) mod ?n"
    using sizeLocked_write [OF w(4,5) refl] unfolding len sq_next_def by (simp add: mod_add_left_eq)
  have f: "sq_policy ?q = sq_policy q" "sq_capacity ?q = ?n" "sq_ring ?q = ?ring"
      "sq_read ?q = sq_next q (sq_read q)" "sq_write ?q = sq_write q" "sq_aborted ?q = sq_aborted q"
      "sq_closed ?q = sq_closed q" "qm_currentSize (sq_metrics ?q) = sizeLocked ?q"
    by (simp_all add: advance_read_def F Let_def)
  note I = sq_wfI [of ?q ys, unfolded f, OF w(1,2) _ _ _ wr r nn]
  show "sq_wf ?q" "sq_list ?q = ys"
    using I w lt by (simp_all add: f sq_next_def)
qed

lemma advance_read_fields:
  "only_counts tally \<Longrightarrow> sq_policy (advance_read tally q) = sq_policy q"
  "only_counts tally \<Longrightarrow> sq_closed (advance_read tally q) = sq_closed q"
  "only_counts tally \<Longrightarrow> sq_aborted (advance_read tally q) = sq_aborted q"
  by (simp_all add: advance_read_def Let_def only_counts_fields)

lemma advance_read_wf:
  assumes "only_counts tally" and wf: "sq_wf q" and "sq_list q = y # ys"
  shows "sq_wf (advance_read tally q)" and "sq_list (advance_read tally q) = ys"
proof -
  note w = sq_wfD [OF wf, unfolded assms(3)]
  have "sizeLocked q = length ys + 1" using length_sq_list [OF wf] assms(3) by simp
  note A = advance_read_list [OF assms(1) w(1-6) _ this, of y]
  show "sq_wf (advance_read tally q)" "sq_list (advance_read tally q) = ys"
    by (rule A; use w(7,8) in simp)+
qed

section \<open>Dropping the oldest non-key frame\<close>

lemma previous_slot_rot:
  assumes "Suc k < n" and "r < n"
  shows "previous_slot n ((r + Suc k) mod n) = (r + k) mod n"
proof (cases "(r + k) mod n + 1 = n")
  case True
  then have "(r + Suc k) mod n = 0" by (metis Suc_eq_plus1 add_Suc_right mod_Suc)
  then show ?thesis using True by (simp add: previous_slot_def)
next
  case False
  then have "(r + Suc k) mod n = (r + k) mod n + 1" by (simp add: mod_Suc)
  then show ?thesis by (simp add: previous_slot_def)
qed

lemma rot_slot_zero: "0 < n \<Longrightarrow> k < n \<Longrightarrow> r < n \<Longrightarrow> (r + k) mod n = r \<longleftrightarrow> k = 0" for r k n :: nat
  using mod_slot_inj [of k n 0 r] by auto

lemma shift_to_read_length [simp]: "length (shift_to_read n r c ring) = length ring"
proof (induction n r c ring rule: shift_to_read.induct)
  case (1 n r c ring)
  then show ?case by (subst shift_to_read.simps) (simp add: Let_def)
qed

lemma shift_to_read_rot:
  assumes "length ring = n" and "r < n" and "k < n"
  shows "\<exists>y. rot n r (shift_to_read n r ((r + k) mod n) ring) =
    y # take k (rot n r ring) @ drop (Suc k) (rot n r ring)"
  using assms
proof (induction k arbitrary: ring)
  case 0
  then have "shift_to_read n r ((r + 0) mod n) ring = ring" by (subst shift_to_read.simps) simp
  moreover have "rot n r ring = hd (rot n r ring) # drop (Suc 0) (rot n r ring)"
    using 0 by (metis drop0 drop_Suc hd_Cons_tl length_rot length_greater_0_conv)
  ultimately show ?case by auto
next
  case (Suc k)
  let ?R = "rot n r ring"
  let ?ring = "ring[(r + Suc k) mod n := ring ! ((r + k) mod n), (r + k) mod n := None]"
  have n: "0 < n" "Suc k < n" "k < n" using Suc.prems by auto
  have "shift_to_read n r ((r + Suc k) mod n) ring = shift_to_read n r ((r + k) mod n) ?ring"
    using rot_slot_zero [OF n(1,2) Suc.prems(2)] previous_slot_rot [OF n(2) Suc.prems(2)] Suc.prems n
    by (subst shift_to_read.simps) (simp add: Let_def)
  moreover obtain y where "rot n r (shift_to_read n r ((r + k) mod n) ?ring) =
      y # take k (rot n r ?ring) @ drop (Suc k) (rot n r ?ring)"
    using Suc.IH [of ?ring] Suc.prems by auto
  moreover have R: "rot n r ?ring = ?R[Suc k := ?R ! k, k := None]"
    using Suc.prems n rot_update [of ring n "Suc k" r "ring ! ((r + k) mod n)"]
      rot_update [of "ring[(r + Suc k) mod n := ring ! ((r + k) mod n)]" n k r None] by simp
  have "take k (rot n r ?ring) = take k ?R" unfolding R by simp
  moreover have "drop (Suc k) (rot n r ?ring) = ?R ! k # drop (Suc (Suc k)) ?R"
  proof -
    have "drop (Suc k) (rot n r ?ring) = drop (Suc k) (?R[Suc k := ?R ! k])"
      unfolding R by (simp add: drop_update_cancel)
    also have "\<dots> = ?R ! k # drop (Suc (Suc k)) ?R"
      using n Cons_nth_drop_Suc [of "Suc k" "?R[Suc k := ?R ! k]"] by simp
    finally show ?thesis .
  qed
  ultimately show ?case using n by (simp add: take_Suc_conv_app_nth)
qed

lemma scan_candidate_rot:
  assumes "r < n" and "k \<le> s" and "s < n"
  shows "scan_candidate n ((r + s) mod n) ring ((r + k) mod n) =
    map_option (\<lambda>i. (r + i) mod n) (List.find (\<lambda>i. is_nonkey (rot n r ring ! i)) [k..<s])"
  using assms(2)
proof (induction "s - k" arbitrary: k)
  case 0
  then have "k = s" by simp
  then show ?case by (subst scan_candidate.simps) simp
next
  case (Suc d)
  then have k: "k < s" "k < n" using assms by auto
  then have "(r + k) mod n \<noteq> (r + s) mod n" using mod_slot_inj [of k n s r] assms by auto
  moreover have "((r + k) mod n + 1) mod n = (r + Suc k) mod n" by (simp add: mod_Suc_eq)
  moreover have "[k..<s] = k # [Suc k..<s]" using k by (simp add: upt_conv_Cons)
  moreover have "scan_candidate n ((r + s) mod n) ring ((r + Suc k) mod n) =
      map_option (\<lambda>i. (r + i) mod n) (List.find (\<lambda>i. is_nonkey (rot n r ring ! i)) [Suc k..<s])"
    using Suc.hyps(1) [of "Suc k"] Suc.hyps(2) k by simp
  ultimately show ?case using k assms by (subst scan_candidate.simps) simp
qed

lemma dropOldestNonKeyFrame_list:
  assumes wf: "sq_wf q" and step: "dropOldestNonKeyFrame q = (q', dropped)"
  shows "sq_policy q' = sq_policy q \<and> sq_closed q' = sq_closed q \<and> sq_aborted q' = sq_aborted q \<and> sq_wf q' \<and>
    (if dropped then \<exists>ys x zs. sq_list q = ys @ x # zs \<and> is_nonkey x \<and> (\<forall>y\<in>set ys. \<not> is_nonkey y) \<and> sq_list q' = ys @ zs
     else q' = q \<and> (\<forall>y\<in>set (sq_list q). \<not> is_nonkey y))"
proof -
  let ?n = "sq_capacity q" and ?k = "length (sq_list q)" and ?R = "rot (sq_capacity q) (sq_read q) (sq_ring q)"
  let ?f = "List.find (\<lambda>i. is_nonkey (?R ! i)) [0..<?k]"
  note w = sq_wfD [OF wf]
  have kn: "?k < ?n" using sizeLocked_less [OF w(4,5) refl] length_sq_list [OF wf] by simp
  have wr: "sq_write q = (sq_read q + ?k) mod ?n"
    using sizeLocked_write [OF w(4,5) refl] length_sq_list [OF wf] by simp
  have nth: "?R ! i = sq_list q ! i" if "i < ?k" for i unfolding w(8) using that by (simp add: nth_append)
  have scan: "scan_candidate ?n (sq_write q) (sq_ring q) (sq_read q) = map_option (\<lambda>i. (sq_read q + i) mod ?n) ?f"
    using scan_candidate_rot [OF w(4) _ kn, of 0 "sq_ring q"] w(4) unfolding wr by simp
  show ?thesis
  proof (cases ?f)
    case None
    then have "q' = q \<and> \<not> dropped" using step scan by (auto simp: dropOldestNonKeyFrame_def split: if_splits)
    moreover have "\<forall>y\<in>set (sq_list q). \<not> is_nonkey y"
      using None nth by (auto simp: find_None_iff in_set_conv_nth)
    ultimately show ?thesis using wf by simp
  next
    case (Some i)
    then have i: "i < ?k" "is_nonkey (sq_list q ! i)" "\<forall>j<i. \<not> is_nonkey (sq_list q ! j)"
      using nth by (auto simp: find_Some_iff)
    have ne: "\<not> sq_empty (sq_write q) (sq_read q)" using i(1) sq_empty_iff [OF wf] by auto
    let ?ring = "shift_to_read ?n (sq_read q) ((sq_read q + i) mod ?n) (sq_ring q)"
    let ?ys = "take i (sq_list q) @ drop (Suc i) (sq_list q)"
    have q': "q' = advance_read sq_dropped (q\<lparr>sq_ring := ?ring\<rparr>)" "dropped"
      using step ne scan Some by (auto simp: dropOldestNonKeyFrame_def)
    obtain y where "rot ?n (sq_read q) ?ring = y # take i ?R @ drop (Suc i) ?R"
      using shift_to_read_rot [OF w(3,4), of i] i(1) kn by auto
    then have view: "rot ?n (sq_read q) ?ring = y # ?ys @ replicate (?n - (length ?ys + 1)) None"
      unfolding w(8) using i(1) kn by (simp add: Suc_diff_Suc)
    have "sizeLocked (q\<lparr>sq_ring := ?ring\<rparr>) = length ?ys + 1"
      using length_sq_list [OF wf] i(1) by simp
    note A = advance_read_list [OF tallies_only_count(1), of "q\<lparr>sq_ring := ?ring\<rparr>" y ?ys, OF _ _ _ _ _ _ _ this]
    have nn: "None \<notin> set ?ys" using w(7) by (auto dest: in_set_dropD in_set_takeD)
    have "sq_wf q' \<and> sq_list q' = ?ys"
      unfolding q' using A w(1-6) view nn by simp
    moreover have "sq_list q = take i (sq_list q) @ sq_list q ! i # drop (Suc i) (sq_list q)"
      using i(1) by (simp add: id_take_nth_drop)
    moreover have "\<forall>y\<in>set (take i (sq_list q)). \<not> is_nonkey y"
      using i by (auto simp: in_set_conv_nth)
    ultimately show ?thesis
      using i(2) q' advance_read_fields [OF tallies_only_count(1)] by fastforce
  qed
qed

section \<open>The queue contract\<close>

definition sq_limit :: "MediaSpscRingQueue \<Rightarrow> nat option" where
  "sq_limit q = Some (qp_capacity (sq_policy q))"

definition sq_lossless :: "MediaSpscRingQueue \<Rightarrow> bool" where
  "sq_lossless q \<longleftrightarrow>
     qp_overflowPolicy (sq_policy q) \<noteq> DropOldest \<and> qp_overflowPolicy (sq_policy q) \<noteq> DropNonKeyFrame"

lemma rot_replicate: "0 < n \<Longrightarrow> rot n r (replicate n None) = replicate n None"
  by (rule nth_equalityI) simp_all

lemma sq_create_wf: "sq_wf (sq_create policy) \<and> sq_list (sq_create policy) = [] \<and> \<not> sq_closed (sq_create policy)"
proof -
  have "sq_wf (sq_create policy)" "sq_list (sq_create policy) = []"
    by (rule sq_wfI [of _ "[]"];
        simp add: sq_create_def Let_def rot_replicate empty_metrics_def sizeLocked_def del: replicate_Suc)+
  then show ?thesis by (simp add: sq_create_def Let_def)
qed

lemma sq_create_policy:
  "qp_overflowPolicy (sq_policy (sq_create policy)) = qp_overflowPolicy policy"
  "qp_capacity (sq_policy (sq_create policy)) = (if qp_capacity policy = 0 then 16 else qp_capacity policy)"
  by (simp_all add: sq_create_def normalise_mode_def Let_def)

lemma sq_length_le: "sq_wf q \<Longrightarrow> length (sq_list q) \<le> qp_capacity (sq_policy q)"
  using sizeLocked_less [of q "sq_capacity q"] sq_wfD(2,4,5) [of q] by (simp add: length_sq_list)

lemma dropOldest_list:
  assumes wf: "sq_wf q" and full: "sq_full q (sq_write q) (sq_read q)"
  shows "\<exists>q' y ys. sq_dropOldest q = (q', True) \<and> sq_list q = y # ys \<and> sq_list q' = ys \<and> sq_wf q' \<and>
    sq_policy q' = sq_policy q"
proof -
  obtain y ys where l: "sq_list q = y # ys"
    using sq_full_iff [OF wf] full sq_wfD(1) [OF wf] by (cases "sq_list q") auto
  then have "sq_dropOldest q = (advance_read sq_dropped q, True)"
    using sq_empty_iff [OF wf] by (simp add: sq_dropOldest_def)
  then show ?thesis
    using l advance_read_wf [OF tallies_only_count(1) wf l] advance_read_fields [OF tallies_only_count(1)] by auto
qed

lemma sq_wf_abort [simp]:
  assumes "sq_wf q"
  shows "sq_wf (q\<lparr>sq_aborted := True, sq_closed := True\<rparr>)" "sq_list (q\<lparr>sq_aborted := True, sq_closed := True\<rparr>) = sq_list q"
proof -
  let ?q = "q\<lparr>sq_aborted := True, sq_closed := True\<rparr>"
  have s: "sizeLocked ?q = sizeLocked q" by (simp add: sizeLocked_def)
  show l: "sq_list ?q = sq_list q" by (simp add: sq_list_def s)
  show "sq_wf ?q" using assms unfolding sq_wf_def l by (auto simp: s)
qed

lemma sq_wf_close:
  assumes "sq_wf q"
  shows "sq_wf (sq_close q)" "sq_list (sq_close q) = sq_list q"
proof -
  have s: "sizeLocked (sq_close q) = sizeLocked q" by (simp add: sizeLocked_def sq_close_def)
  show l: "sq_list (sq_close q) = sq_list q" unfolding sq_list_def s by (simp add: sq_close_def)
  show "sq_wf (sq_close q)" using assms unfolding sq_wf_def l s by (auto simp: sq_close_def)
qed

lemma sq_wf_clear:
  assumes "sq_wf q"
  shows "sq_wf (sq_clear q)" "sq_list (sq_clear q) = []"
proof -
  have "map (\<lambda>_. None) (sq_ring q) = (replicate (sq_capacity q) None :: MediaBufferRef list)"
    using sq_wfD(3) [OF assms] by (simp add: map_replicate_const)
  then show "sq_wf (sq_clear q)" "sq_list (sq_clear q) = []"
    using sq_wfD(1,2,3,6) [OF assms] rot_replicate [of "sq_capacity q" 0]
    by (intro sq_wfI [of "sq_clear q" "[]"]; simp add: sq_clear_def sizeLocked_def del: replicate_Suc)+
qed

lemma sq_push_accepted:
  assumes wf: "sq_wf q" and push: "sq_pushOutcome q r = (q', Accepted)"
  shows "\<exists>b ys. r = Some b \<and> subseq ys (sq_list q) \<and> sq_list q' = ys @ [r] \<and> sq_wf q' \<and>
           (sq_lossless q \<longrightarrow> ys = sq_list q)"
proof -
  obtain b where r: "r = Some b" and open_q: "\<not> sq_aborted q" "\<not> sq_closed q"
    using push by (auto simp: sq_pushOutcome_def split: option.splits if_splits)
  consider (room) "\<not> sq_full q (sq_write q) (sq_read q)" "q' = store_write q r"
    | (oldest) q1 where "sq_full q (sq_write q) (sq_read q)" "qp_overflowPolicy (sq_policy q) = DropOldest"
        "sq_dropOldest q = (q1, True)" "q' = store_write q1 r"
    | (nonkey) q1 where "sq_full q (sq_write q) (sq_read q)" "qp_overflowPolicy (sq_policy q) = DropNonKeyFrame"
        "dropOldestNonKeyFrame q = (q1, True)" "q' = store_write q1 r"
    using push r open_q
    by (auto simp: sq_pushOutcome_def split: if_splits MediaQueueOverflowPolicy.splits prod.splits)
  then show ?thesis
  proof cases
    case room
    then have "length (sq_list q) < qp_capacity (sq_policy q)" using sq_full_iff [OF wf] sq_length_le [OF wf] by simp
    then show ?thesis using store_write_list [OF wf, where b = b] room r by auto
  next
    case oldest
    obtain y ys where d: "sq_list q = y # ys" "sq_list q1 = ys" "sq_wf q1" "sq_policy q1 = sq_policy q"
      using dropOldest_list [OF wf oldest(1)] oldest(3) by auto
    have "length (sq_list q1) < qp_capacity (sq_policy q1)" using d sq_length_le [OF wf] by simp
    then show ?thesis using store_write_list [OF d(3), where b = b] oldest d r by (auto simp: sq_lossless_def)
  next
    case nonkey
    obtain ys x zs where d: "sq_list q = ys @ x # zs" "sq_list q1 = ys @ zs" "sq_wf q1" "sq_policy q1 = sq_policy q"
      using dropOldestNonKeyFrame_list [OF wf nonkey(3)] by auto
    have "length (sq_list q1) < qp_capacity (sq_policy q1)" using d sq_length_le [OF wf] by simp
    moreover have "subseq (sq_list q1) (sq_list q)"
      unfolding d by (rule list_emb_append_mono) auto
    ultimately show ?thesis using store_write_list [OF d(3), where b = b] nonkey r by (auto simp: sq_lossless_def)
  qed
qed

lemma sq_push_rejected:
  assumes wf: "sq_wf q" and push: "sq_pushOutcome q r = (q', out)" and out: "out \<noteq> Accepted"
  shows "sq_list q' = sq_list q \<and> sq_wf q'"
proof -
  have "q1 = q" if "dropOldestNonKeyFrame q = (q1, False)" for q1
    using dropOldestNonKeyFrame_list [OF wf that] by simp
  moreover have "dropped" if "sq_full q (sq_write q) (sq_read q)" "sq_dropOldest q = (q1, dropped)" for q1 dropped
    using dropOldest_list [OF wf that(1)] that(2) by auto
  ultimately show ?thesis
    using push out wf
    by (auto simp: sq_pushOutcome_def split: option.splits if_splits MediaQueueOverflowPolicy.splits prod.splits)
qed

lemma dropOldest_policy: "sq_dropOldest q = (q', d) \<Longrightarrow> sq_policy q' = sq_policy q \<and> sq_closed q' = sq_closed q"
  by (auto simp: sq_dropOldest_def advance_read_fields tallies_only_count split: if_splits)

lemma dropNonKey_policy: "dropOldestNonKeyFrame q = (q', d) \<Longrightarrow> sq_policy q' = sq_policy q \<and> sq_closed q' = sq_closed q"
  by (auto simp: dropOldestNonKeyFrame_def advance_read_fields tallies_only_count split: if_splits option.splits)

lemma store_write_fields: "sq_policy (store_write q r) = sq_policy q" "sq_closed (store_write q r) = sq_closed q"
  by (simp_all add: store_write_def Let_def)

lemma sq_push_fields:
  "sq_policy (fst (sq_pushOutcome q r)) = sq_policy q"
  "sq_closed q \<Longrightarrow> sq_closed (fst (sq_pushOutcome q r))"
  "sq_closed q \<Longrightarrow> snd (sq_pushOutcome q r) \<noteq> Accepted"
  by (auto simp: sq_pushOutcome_def store_write_fields dest: dropOldest_policy dropNonKey_policy
      split: option.splits MediaQueueOverflowPolicy.splits prod.splits)

lemma sq_push_wf: "sq_wf q \<Longrightarrow> sq_wf (fst (sq_pushOutcome q r))"
  using sq_push_accepted [of q r] sq_push_rejected [of q r]
  by (cases "sq_pushOutcome q r"; cases "snd (sq_pushOutcome q r) = Accepted") auto

lemma sq_tryPop_fields:
  "sq_policy (fst (sq_tryPop q)) = sq_policy q" "sq_closed (fst (sq_tryPop q)) = sq_closed q"
  by (auto simp: sq_tryPop_def advance_read_fields tallies_only_count)

lemma sq_tryPop_list:
  assumes wf: "sq_wf q"
  shows "sq_wf (fst (sq_tryPop q))"
    and "sq_list q = [] \<Longrightarrow> snd (sq_tryPop q) = None \<and> sq_list (fst (sq_tryPop q)) = []"
    and "sq_list q = r # rs \<Longrightarrow> snd (sq_tryPop q) = Some r \<and> sq_list (fst (sq_tryPop q)) = rs"
proof -
  show "sq_list q = [] \<Longrightarrow> snd (sq_tryPop q) = None \<and> sq_list (fst (sq_tryPop q)) = []"
    using sq_empty_iff [OF wf] by (simp add: sq_tryPop_def)
  have cons: "sq_wf (fst (sq_tryPop q)) \<and> snd (sq_tryPop q) = Some y \<and> sq_list (fst (sq_tryPop q)) = ys"
    if l: "sq_list q = y # ys" for y ys
  proof -
    have "rot (sq_capacity q) (sq_read q) (sq_ring q) ! 0 = y" using sq_wfD(8) [OF wf] l by simp
    then have "sq_ring q ! sq_read q = y" using sq_wfD(2,4) [OF wf] by simp
    then show ?thesis
      using sq_empty_iff [OF wf] l advance_read_wf [OF tallies_only_count(2) wf l] by (simp add: sq_tryPop_def)
  qed
  then show "sq_list q = r # rs \<Longrightarrow> snd (sq_tryPop q) = Some r \<and> sq_list (fst (sq_tryPop q)) = rs" by blast
  show "sq_wf (fst (sq_tryPop q))"
    using cons sq_empty_iff [OF wf] wf by (cases "sq_list q") (auto simp: sq_tryPop_def)
qed

interpretation sq: media_queue sq_wf sq_list sq_limit sq_lossless sq_closed sq_pushOutcome sq_tryPop
  sq_close sq_abort sq_clear
proof unfold_locales
  fix q :: MediaSpscRingQueue and r q' out n
  show "sq_wf q \<Longrightarrow> sq_wf (fst (sq_pushOutcome q r)) \<and> sq_wf (fst (sq_tryPop q)) \<and> sq_wf (sq_close q) \<and>
      sq_wf (sq_abort q) \<and> sq_wf (sq_clear q)"
    by (simp add: sq_push_wf sq_tryPop_list sq_wf_close sq_wf_clear sq_abort_def)
  show "sq_limit (fst (sq_pushOutcome q r)) = sq_limit q \<and> sq_limit (fst (sq_tryPop q)) = sq_limit q \<and>
      sq_limit (sq_close q) = sq_limit q \<and> sq_limit (sq_abort q) = sq_limit q \<and> sq_limit (sq_clear q) = sq_limit q"
    by (simp add: sq_limit_def sq_push_fields sq_tryPop_fields sq_close_def sq_abort_def sq_clear_def)
  show "sq_lossless (fst (sq_pushOutcome q r)) = sq_lossless q \<and> sq_lossless (fst (sq_tryPop q)) = sq_lossless q \<and>
      sq_lossless (sq_close q) = sq_lossless q \<and> sq_lossless (sq_abort q) = sq_lossless q \<and>
      sq_lossless (sq_clear q) = sq_lossless q"
    by (simp add: sq_lossless_def sq_push_fields sq_tryPop_fields sq_close_def sq_abort_def sq_clear_def)
  show "sq_closed q \<Longrightarrow> sq_closed (fst (sq_pushOutcome q r)) \<and> sq_closed (fst (sq_tryPop q)) \<and> sq_closed (sq_clear q)"
    by (simp add: sq_push_fields sq_tryPop_fields sq_clear_def)
  show "sq_closed (sq_close q) \<and> sq_closed (sq_abort q)" by (simp add: sq_close_def sq_abort_def)
  show "sq_wf q \<Longrightarrow> sq_limit q = Some n \<Longrightarrow> length (sq_list q) \<le> n"
    using sq_length_le [of q] by (simp add: sq_limit_def)
  show "sq_wf q \<Longrightarrow> sq_pushOutcome q r = (q', Accepted) \<Longrightarrow>
      r \<noteq> None \<and> (\<exists>ys. subseq ys (sq_list q) \<and> sq_list q' = ys @ [r])"
    using sq_push_accepted by blast
  show "sq_wf q \<Longrightarrow> sq_lossless q \<Longrightarrow> sq_pushOutcome q r = (q', Accepted) \<Longrightarrow> sq_list q' = sq_list q @ [r]"
    using sq_push_accepted by blast
  show "sq_wf q \<Longrightarrow> sq_pushOutcome q r = (q', out) \<Longrightarrow> out \<noteq> Accepted \<Longrightarrow> sq_list q' = sq_list q"
    using sq_push_rejected by blast
  show "sq_wf q \<Longrightarrow> sq_closed q \<Longrightarrow> sq_pushOutcome q r = (q', out) \<Longrightarrow> out \<noteq> Accepted"
    using sq_push_fields(3) [of q r] by simp
  show "sq_wf q \<Longrightarrow> sq_list q = [] \<Longrightarrow> snd (sq_tryPop q) = None \<and> sq_list (fst (sq_tryPop q)) = []"
    by (rule sq_tryPop_list(2))
  show "sq_wf q \<Longrightarrow> sq_list (sq_close q) = sq_list q \<and> sq_list (sq_abort q) = sq_list q"
    by (simp add: sq_wf_close sq_abort_def)
  show "sq_wf q \<Longrightarrow> sq_list (sq_clear q) = []" by (rule sq_wf_clear)
next
  fix q :: MediaSpscRingQueue and r rs
  show "sq_wf q \<Longrightarrow> sq_list q = r # rs \<Longrightarrow> snd (sq_tryPop q) = Some r \<and> sq_list (fst (sq_tryPop q)) = rs"
    by (rule sq_tryPop_list(3))
qed

end
