(* ===== verification/Media_Queue.thy ===== *)
theory Media_Queue
  imports Blocking_Queue Spsc_Ring_Queue "HOL-Library.AList"
begin

text \<open>
  The \<^verbatim>\<open>MediaQueue\<close> base class as the rest of the runtime sees it: the two implementations behind
  virtual calls, \<^verbatim>\<open>MediaQueueFactory\<close>, \<^verbatim>\<open>MediaQueueRegistry\<close> and \<^verbatim>\<open>MediaQueueInspector\<close>. The queue
  contract is interpreted once more on the dispatching operations, so that the run theorems hold of
  every queue the factory builds. The textual summary of a snapshot is diagnostic output and left out.
\<close>

section \<open>Definitions\<close>

datatype MediaQueue = BlockingQueue MediaBlockingQueue | SpscRingQueue MediaSpscRingQueue

definition queueFactory_create :: "MediaQueuePolicy \<Rightarrow> MediaQueue Result" where
  "queueFactory_create policy =
     (case qp_mode policy of
        QueueMode_SpscRing \<Rightarrow> success (SpscRingQueue (sq_create policy))
      | _ \<Rightarrow> (case bq_create policy of Inl e \<Rightarrow> failure e | Inr q \<Rightarrow> success (BlockingQueue q)))"

fun mq_pushOutcome :: "MediaQueue \<Rightarrow> MediaBufferRef \<Rightarrow> MediaQueue \<times> MediaQueuePushOutcome" where
  "mq_pushOutcome (BlockingQueue q) r = apfst BlockingQueue (bq_pushOutcome q r)"
| "mq_pushOutcome (SpscRingQueue q) r = apfst SpscRingQueue (sq_pushOutcome q r)"

fun mq_tryPop :: "MediaQueue \<Rightarrow> MediaQueue \<times> MediaBufferRef option" where
  "mq_tryPop (BlockingQueue q) = apfst BlockingQueue (bq_tryPop q)"
| "mq_tryPop (SpscRingQueue q) = apfst SpscRingQueue (sq_tryPop q)"

fun mq_close :: "MediaQueue \<Rightarrow> MediaQueue" where
  "mq_close (BlockingQueue q) = BlockingQueue (bq_close q)"
| "mq_close (SpscRingQueue q) = SpscRingQueue (sq_close q)"

fun mq_abort :: "MediaQueue \<Rightarrow> MediaQueue" where
  "mq_abort (BlockingQueue q) = BlockingQueue (bq_abort q)"
| "mq_abort (SpscRingQueue q) = SpscRingQueue (sq_abort q)"

fun mq_clear :: "MediaQueue \<Rightarrow> MediaQueue" where
  "mq_clear (BlockingQueue q) = BlockingQueue (bq_clear q)"
| "mq_clear (SpscRingQueue q) = SpscRingQueue (sq_clear q)"

fun mq_closed :: "MediaQueue \<Rightarrow> bool" where
  "mq_closed (BlockingQueue q) = bq_closed q"
| "mq_closed (SpscRingQueue q) = sq_closed q"

fun mq_aborted :: "MediaQueue \<Rightarrow> bool" where
  "mq_aborted (BlockingQueue q) = bq_aborted q"
| "mq_aborted (SpscRingQueue q) = sq_aborted q"

fun mq_size :: "MediaQueue \<Rightarrow> nat" where
  "mq_size (BlockingQueue q) = storage_size (bq_storage q)"
| "mq_size (SpscRingQueue q) = sizeLocked q"

fun mq_policy :: "MediaQueue \<Rightarrow> MediaQueuePolicy" where
  "mq_policy (BlockingQueue q) = bq_policy q"
| "mq_policy (SpscRingQueue q) = sq_policy q"

fun mq_metrics :: "MediaQueue \<Rightarrow> MediaQueueMetrics" where
  "mq_metrics (BlockingQueue q) = bq_metrics q"
| "mq_metrics (SpscRingQueue q) = sq_metrics q"

definition mq_capacity :: "MediaQueue \<Rightarrow> nat" where
  "mq_capacity q = qp_capacity (mq_policy q)"

type_synonym MediaQueueRegistry = "(u32 \<times> MediaQueue) list"

definition registerQueue ::
  "MediaQueueRegistry \<Rightarrow> MediaEdgeId \<Rightarrow> MediaQueue option \<Rightarrow> MediaQueueRegistry \<times> Status" where
  "registerQueue queues edgeId queue =
     (if \<not> edgeId_isValid edgeId then (queues, failure InvalidArgument)
      else case queue of
        None \<Rightarrow> (queues, failure InvalidArgument)
      | Some q \<Rightarrow> (AList.update (edge_value edgeId) q queues, success ()))"

definition registry_find :: "MediaQueueRegistry \<Rightarrow> MediaEdgeId \<Rightarrow> MediaQueue option" where
  "registry_find queues edgeId = map_of queues (edge_value edgeId)"

definition registry_remove :: "MediaQueueRegistry \<Rightarrow> MediaEdgeId \<Rightarrow> MediaQueueRegistry \<times> bool" where
  "registry_remove queues edgeId =
     (AList.delete (edge_value edgeId) queues, map_of queues (edge_value edgeId) \<noteq> None)"

definition registry_clear :: "MediaQueueRegistry \<Rightarrow> MediaQueueRegistry" where
  "registry_clear queues = []"

definition registry_size :: "MediaQueueRegistry \<Rightarrow> nat" where
  "registry_size queues = length queues"

record MediaQueueSnapshot =
  snap_policy :: MediaQueuePolicy
  snap_metrics :: MediaQueueMetrics
  snap_size :: nat
  snap_capacity :: nat
  snap_closed :: bool
  snap_aborted :: bool
  snap_saturated :: bool
  snap_healthy :: bool

definition inspect :: "MediaQueue \<Rightarrow> MediaQueueSnapshot" where
  "inspect q =
     (let saturated = mq_capacity q > 0 \<and> mq_size q \<ge> mq_capacity q
      in \<lparr>snap_policy = mq_policy q, snap_metrics = mq_metrics q, snap_size = mq_size q,
          snap_capacity = mq_capacity q, snap_closed = mq_closed q, snap_aborted = mq_aborted q,
          snap_saturated = saturated, snap_healthy = \<not> mq_aborted q \<and> \<not> saturated\<rparr>)"

section \<open>The contract of every queue\<close>

fun mq_wf :: "MediaQueue \<Rightarrow> bool" where
  "mq_wf (BlockingQueue q) = bq_wf q"
| "mq_wf (SpscRingQueue q) = sq_wf q"

fun mq_list :: "MediaQueue \<Rightarrow> MediaBufferRef list" where
  "mq_list (BlockingQueue q) = bq_list q"
| "mq_list (SpscRingQueue q) = sq_list q"

fun mq_limit :: "MediaQueue \<Rightarrow> nat option" where
  "mq_limit (BlockingQueue q) = bq_limit q"
| "mq_limit (SpscRingQueue q) = sq_limit q"

fun mq_lossless :: "MediaQueue \<Rightarrow> bool" where
  "mq_lossless (BlockingQueue q) = bq_lossless q"
| "mq_lossless (SpscRingQueue q) = sq_lossless q"

interpretation mq: media_queue mq_wf mq_list mq_limit mq_lossless mq_closed mq_pushOutcome mq_tryPop
  mq_close mq_abort mq_clear
proof unfold_locales
  fix q q' :: MediaQueue and r out n
  show "mq_wf q \<Longrightarrow> mq_wf (fst (mq_pushOutcome q r)) \<and> mq_wf (fst (mq_tryPop q)) \<and> mq_wf (mq_close q) \<and>
      mq_wf (mq_abort q) \<and> mq_wf (mq_clear q)"
    by (cases q) (simp_all add: bq.wf_ops sq.wf_ops)
  show "mq_limit (fst (mq_pushOutcome q r)) = mq_limit q \<and> mq_limit (fst (mq_tryPop q)) = mq_limit q \<and>
      mq_limit (mq_close q) = mq_limit q \<and> mq_limit (mq_abort q) = mq_limit q \<and> mq_limit (mq_clear q) = mq_limit q"
    by (cases q) (simp_all add: bq.limit_ops sq.limit_ops)
  show "mq_lossless (fst (mq_pushOutcome q r)) = mq_lossless q \<and> mq_lossless (fst (mq_tryPop q)) = mq_lossless q \<and>
      mq_lossless (mq_close q) = mq_lossless q \<and> mq_lossless (mq_abort q) = mq_lossless q \<and>
      mq_lossless (mq_clear q) = mq_lossless q"
    by (cases q) (simp_all add: bq.lossless_ops sq.lossless_ops)
  show "mq_closed q \<Longrightarrow> mq_closed (fst (mq_pushOutcome q r)) \<and> mq_closed (fst (mq_tryPop q)) \<and> mq_closed (mq_clear q)"
    by (cases q) (simp_all add: bq.closed_ops sq.closed_ops)
  show "mq_closed (mq_close q) \<and> mq_closed (mq_abort q)"
    by (cases q) (simp_all add: bq.closed_close sq.closed_close)
  show "mq_wf q \<Longrightarrow> mq_limit q = Some n \<Longrightarrow> length (mq_list q) \<le> n"
    by (cases q) (simp_all add: bq.bounded sq.bounded)
  show "mq_wf q \<Longrightarrow> mq_pushOutcome q r = (q', Accepted) \<Longrightarrow>
      r \<noteq> None \<and> (\<exists>ys. subseq ys (mq_list q) \<and> mq_list q' = ys @ [r])"
    by (cases q) (auto simp: apfst_def map_prod_def split: prod.splits dest: bq.push_accepted sq.push_accepted)
  show "mq_wf q \<Longrightarrow> mq_lossless q \<Longrightarrow> mq_pushOutcome q r = (q', Accepted) \<Longrightarrow> mq_list q' = mq_list q @ [r]"
    by (cases q) (auto simp: apfst_def map_prod_def split: prod.splits dest: bq.push_lossless sq.push_lossless)
  show "mq_wf q \<Longrightarrow> mq_pushOutcome q r = (q', out) \<Longrightarrow> out \<noteq> Accepted \<Longrightarrow> mq_list q' = mq_list q"
    by (cases q) (auto simp: apfst_def map_prod_def split: prod.splits dest: bq.push_rejected sq.push_rejected)
  show "mq_wf q \<Longrightarrow> mq_closed q \<Longrightarrow> mq_pushOutcome q r = (q', out) \<Longrightarrow> out \<noteq> Accepted"
    by (cases q) (auto simp: apfst_def map_prod_def split: prod.splits dest: bq.push_closed sq.push_closed)
  show "mq_wf q \<Longrightarrow> mq_list q = [] \<Longrightarrow> snd (mq_tryPop q) = None \<and> mq_list (fst (mq_tryPop q)) = []"
    by (cases q) (simp_all add: bq.pop_empty sq.pop_empty)
  show "mq_wf q \<Longrightarrow> mq_list (mq_close q) = mq_list q \<and> mq_list (mq_abort q) = mq_list q"
    by (cases q) (simp_all add: bq.contents_close sq.contents_close)
  show "mq_wf q \<Longrightarrow> mq_list (mq_clear q) = []"
    by (cases q) (simp_all add: bq.contents_clear sq.contents_clear)
next
  fix q r rs
  show "mq_wf q \<Longrightarrow> mq_list q = r # rs \<Longrightarrow> snd (mq_tryPop q) = Some r \<and> mq_list (fst (mq_tryPop q)) = rs"
    by (cases q) (simp_all add: bq.pop_cons sq.pop_cons)
qed

abbreviation mq_run :: "MediaQueue \<Rightarrow> QueueOp list \<Rightarrow> MediaQueue \<times> MediaBufferRef list \<times> MediaBufferRef list" where
  "mq_run \<equiv> queue_run mq_pushOutcome mq_tryPop mq_close mq_abort mq_clear"

lemma queueFactory_create_ok:
  assumes "queueFactory_create policy = Inr q"
  shows "mq_wf q" and "mq_list q = []" and "\<not> mq_closed q"
    and "isBoundedQueue policy \<Longrightarrow> mq_limit q = Some (qp_capacity policy)"
    and "mq_lossless q \<longleftrightarrow> qp_overflowPolicy policy \<noteq> DropOldest \<and> qp_overflowPolicy policy \<noteq> DropNonKeyFrame"
proof -
  consider (b) q1 where "bq_create policy = Inr q1" "q = BlockingQueue q1" | (s) "q = SpscRingQueue (sq_create policy)"
    using assms by (auto simp: queueFactory_create_def split: MediaQueueMode.splits sum.splits)
  then show "mq_wf q" "mq_list q = []" "\<not> mq_closed q"
      "isBoundedQueue policy \<Longrightarrow> mq_limit q = Some (qp_capacity policy)"
      "mq_lossless q \<longleftrightarrow> qp_overflowPolicy policy \<noteq> DropOldest \<and> qp_overflowPolicy policy \<noteq> DropNonKeyFrame"
    by (cases; use bq_create_wf sq_create_wf [of policy] sq_create_policy [of policy] in
        \<open>auto simp: bq_limit_def sq_limit_def bq_lossless_def sq_lossless_def isBoundedQueue_def\<close>)+
qed

section \<open>Properties\<close>

text \<open>
  C7. Any sequence of non-blocking pushes, pops, closes, aborts and clears on a queue fresh from the
  factory, of either implementation and under any overflow policy, delivers in order: what was popped
  followed by what is still queued is a subsequence of what was accepted; and a bounded policy's
  capacity is never exceeded.
\<close>

theorem factory_queue_fifo:
  assumes "queueFactory_create policy = Inr q0" and "mq_run q0 ops = (q, accepted, popped)"
  shows "subseq (popped @ mq_list q) accepted \<and> mq_wf q \<and>
    (isBoundedQueue policy \<longrightarrow> length (mq_list q) \<le> qp_capacity policy)"
  using mq.run_fifo [OF queueFactory_create_ok(1) [OF assms(1)] assms(2)]
    mq.run_wf [OF queueFactory_create_ok(1) [OF assms(1)] assms(2)]
    mq.run_bounded [OF queueFactory_create_ok(1) [OF assms(1)] _ assms(2), of "qp_capacity policy"]
    queueFactory_create_ok(2,4) [OF assms(1)]
  by simp

definition demo_ref :: "nat \<Rightarrow> u32 \<Rightarrow> MediaBufferRef" where
  "demo_ref n flags = Some \<lparr>buffer_object = n, buffer_flags = flags\<rparr>"

definition demo_spsc :: MediaQueuePolicy where
  "demo_spsc = default_MediaQueuePolicy\<lparr>qp_mode := QueueMode_SpscRing, qp_capacity := 2\<rparr>"

theorem factory_queue_fifo_witness:
  "\<exists>q accepted popped.
     mq_run (projr (queueFactory_create (demo_spsc\<lparr>qp_overflowPolicy := DropNonKeyFrame\<rparr>)))
       [Op_Push (demo_ref 1 4), Op_Push (demo_ref 2 0), Op_Push (demo_ref 3 4), Op_TryPop, Op_TryPop] =
       (q, accepted, popped) \<and>
     popped = [demo_ref 1 4, demo_ref 3 4] \<and> length accepted = 3 \<and> subseq (popped @ mq_list q) accepted"
proof -
  let ?p = "demo_spsc\<lparr>qp_overflowPolicy := DropNonKeyFrame\<rparr>"
  let ?ops = "[Op_Push (demo_ref 1 4), Op_Push (demo_ref 2 0), Op_Push (demo_ref 3 4), Op_TryPop, Op_TryPop]"
  let ?r = "mq_run (projr (queueFactory_create ?p)) ?ops"
  have c: "queueFactory_create ?p = Inr (projr (queueFactory_create ?p))" by code_simp
  have r: "?r = (fst ?r, fst (snd ?r), snd (snd ?r))" by simp
  have v: "snd (snd ?r) = [demo_ref 1 4, demo_ref 3 4] \<and> length (fst (snd ?r)) = 3" by code_simp
  show ?thesis
    by (intro exI conjI) (rule r, rule conjunct1 [OF v], rule conjunct2 [OF v], rule conjunct1 [OF factory_queue_fifo [OF c r]])
qed

text \<open>
  Under a policy that drops nothing already queued (block the producer, drop the newest, abort)
  and with no clear, delivery is exact for both implementations: popped followed by queued is what
  was accepted, so nothing accepted is lost, duplicated or reordered.
\<close>

theorem factory_queue_lossless:
  assumes "queueFactory_create policy = Inr q0"
    and "qp_overflowPolicy policy \<noteq> DropOldest" and "qp_overflowPolicy policy \<noteq> DropNonKeyFrame"
    and "Op_Clear \<notin> set ops" and "mq_run q0 ops = (q, accepted, popped)"
  shows "popped @ mq_list q = accepted"
  using mq.run_lossless [OF queueFactory_create_ok(1) [OF assms(1)] _ assms(4,5)] assms(2,3)
    queueFactory_create_ok(2,5) [OF assms(1)]
  by simp

theorem factory_queue_lossless_witness:
  "\<exists>q accepted popped.
     mq_run (projr (queueFactory_create demo_spsc))
       [Op_Push (demo_ref 1 0), Op_Push (demo_ref 2 0), Op_Push (demo_ref 3 0), Op_TryPop, Op_Push (demo_ref 4 0)] =
       (q, accepted, popped) \<and> length accepted = 3 \<and> popped @ mq_list q = accepted"
proof -
  let ?ops = "[Op_Push (demo_ref 1 0), Op_Push (demo_ref 2 0), Op_Push (demo_ref 3 0), Op_TryPop, Op_Push (demo_ref 4 0)]"
  let ?r = "mq_run (projr (queueFactory_create demo_spsc)) ?ops"
  have c: "queueFactory_create demo_spsc = Inr (projr (queueFactory_create demo_spsc))" by code_simp
  have r: "?r = (fst ?r, fst (snd ?r), snd (snd ?r))" by simp
  have v: "length (fst (snd ?r)) = 3" by code_simp
  have "snd (snd ?r) @ mq_list (fst ?r) = fst (snd ?r)"
    by (rule factory_queue_lossless [OF c _ _ _ r]) (simp_all add: demo_spsc_def default_MediaQueuePolicy_def)
  then show ?thesis by (intro exI conjI) (rule r, rule v)
qed

text \<open>
  Closing is final: after a close or an abort no push is accepted whatever is done next, and what
  was queued stays available to \<^verbatim>\<open>tryPop\<close>, in order.
\<close>

theorem closed_queue_drains:
  assumes "mq_wf q0" and "q = mq_close q0 \<or> q = mq_abort q0" and "Op_Clear \<notin> set ops" and "mq_lossless q0"
    and "mq_run q ops = (q', accepted, popped)"
  shows "accepted = [] \<and> popped @ mq_list q' = mq_list q0"
proof -
  have q: "mq_wf q" "mq_closed q" "mq_lossless q" "mq_list q = mq_list q0"
    using assms(1,2,4) mq.wf_ops [OF assms(1)] mq.closed_close mq.lossless_ops [of q0] mq.contents_close [OF assms(1)]
    by auto
  show ?thesis
    using mq.run_closed [OF q(1,2) assms(5)] mq.run_lossless [OF q(1,3) assms(3,5)] q(4) by simp
qed

theorem closed_queue_drains_witness:
  "snd (snd (mq_run (mq_close (fst (mq_pushOutcome (projr (queueFactory_create demo_spsc)) (demo_ref 1 0))))
       [Op_Push (demo_ref 2 0), Op_TryPop, Op_TryPop])) = [demo_ref 1 0]"
proof -
  let ?c = "projr (queueFactory_create demo_spsc)"
  let ?q = "fst (mq_pushOutcome ?c (demo_ref 1 0))"
  let ?r = "mq_run (mq_close ?q) [Op_Push (demo_ref 2 0), Op_TryPop, Op_TryPop]"
  have "queueFactory_create demo_spsc = Inr ?c" by code_simp
  then have wf: "mq_wf ?q" using mq.wf_ops queueFactory_create_ok(1) by blast
  have ll: "mq_lossless ?q" by code_simp
  have r: "?r = (fst ?r, fst (snd ?r), snd (snd ?r))" by simp
  have "snd (snd ?r) @ mq_list (fst ?r) = mq_list ?q"
    by (rule conjunct2 [OF closed_queue_drains [OF wf _ _ ll r]]) simp_all
  moreover have "mq_list ?q = [demo_ref 1 0]" by code_simp
  moreover have "mq_list (fst ?r) = []" by code_simp
  ultimately show ?thesis by (simp only: append_Nil2)
qed

text \<open>
  C12. A consumer of the ring queue can miss the last buffers. \<^verbatim>\<open>pop\<close> reads the closed flag after
  \<^verbatim>\<open>tryPop\<close> released the mutex: when the queue was empty at the attempt and a producer pushes and then
  closes before the flag is read, the call reports a closed and empty queue although a buffer is queued.
\<close>

theorem spsc_pop_misses_buffer:
  assumes "sq_wf q" and "sq_list q = []" and "\<not> sq_closed q" and "\<not> sq_aborted q"
    and "sq_tryPop q = (q1, out)" and "sq_pushOutcome q1 (Some b) = (q2, outcome)"
  shows "out = None \<and> outcome = Accepted \<and> sq_pop_check (sq_close q2) = Returns (Inl Cancelled) \<and>
    sq_list (sq_close q2) = [Some b] \<and> sq_pop_ready (sq_close q2)"
proof -
  have q1: "q1 = sq_failedPop q" "out = None"
    using assms(2,5) sq_empty_iff [OF assms(1)] by (auto simp: sq_tryPop_def)
  have "\<not> sq_full q1 (sq_write q1) (sq_read q1)"
    using sq_full_iff [of q1] q1(1) assms(1,2) sq_wfD(1) [OF assms(1)] by auto
  then have q2: "q2 = store_write q1 (Some b)" "outcome = Accepted"
    using assms(3,4,6) q1(1) by (auto simp: sq_pushOutcome_def)
  have "sq_wf q2 \<and> sq_list q2 = [Some b] \<and> \<not> sq_aborted q2"
    unfolding q2(1) using store_write_list [of q1 b] q1(1) assms(1,2,4) sq_wfD(1) [OF assms(1)]
    by (simp add: store_write_def Let_def)
  then show ?thesis
    using q1 q2 sq_wf_close(2) [of q2] by (simp add: sq_pop_check_def sq_pop_ready_def) (simp add: sq_close_def)
qed

theorem spsc_pop_misses_buffer_witness:
  "sq_list (sq_close (fst (sq_pushOutcome (fst (sq_tryPop (sq_create demo_spsc))) (demo_ref 1 0)))) = [demo_ref 1 0] \<and>
   sq_pop_check (sq_close (fst (sq_pushOutcome (fst (sq_tryPop (sq_create demo_spsc))) (demo_ref 1 0)))) =
     Returns (Inl Cancelled)"
proof -
  let ?q = "sq_create demo_spsc"
  have c: "sq_wf ?q" "sq_list ?q = []" "\<not> sq_closed ?q" using sq_create_wf [of demo_spsc] by simp_all
  have a: "\<not> sq_aborted ?q" by (simp add: sq_create_def Let_def)
  have t: "sq_tryPop ?q = (fst (sq_tryPop ?q), snd (sq_tryPop ?q))" by simp
  show ?thesis
    using spsc_pop_misses_buffer [OF c a t, of "\<lparr>buffer_object = 1, buffer_flags = 0\<rparr>"]
    by (metis demo_ref_def prod.collapse)
qed

text \<open>
  The registry is a map from edge identifiers to queues: a registered queue is found under its
  edge and only there, registering again replaces it, a removed one is gone, and the count is the
  number of edges with a queue; an invalid edge or a null queue is refused and changes nothing.
\<close>

theorem registry_is_a_map:
  assumes "distinct (map fst queues)" and "registerQueue queues e queue = (queues', status)"
  shows "distinct (map fst queues') \<and>
    (if edgeId_isValid e \<and> queue \<noteq> None
     then status = Inr () \<and> (\<forall>e'. registry_find queues' e' = (if e' = e then queue else registry_find queues e')) \<and>
       registry_size queues' = registry_size queues + (if registry_find queues e = None then 1 else 0)
     else status = Inl InvalidArgument \<and> queues' = queues) \<and>
    (\<forall>e'. registry_find (fst (registry_remove queues e)) e' = (if e' = e then None else registry_find queues e')) \<and>
    snd (registry_remove queues e) = (registry_find queues e \<noteq> None)"
proof -
  have inj: "edge_value e' = edge_value e \<longleftrightarrow> e' = e" for e' by (metis MediaEdgeId.expand)
  have len: "length (AList.update k v xs) = length xs + (if map_of xs k = None then 1 else 0)" for k v and xs :: MediaQueueRegistry
    by (induction xs) auto
  show ?thesis
    using assms distinct_update [of queues]
    by (auto simp: registerQueue_def registry_find_def registry_remove_def registry_size_def len inj
        update_conv' delete_conv' split: if_splits option.splits)
qed

theorem registry_is_a_map_witness:
  "registry_size (fst (registerQueue [] (MediaEdgeId 3) (Some (SpscRingQueue (sq_create demo_spsc))))) = 1 \<and>
   registry_find (fst (registerQueue [] (MediaEdgeId 3) (Some (SpscRingQueue (sq_create demo_spsc))))) (MediaEdgeId 4) = None"
proof -
  let ?r = "registerQueue [] (MediaEdgeId 3) (Some (SpscRingQueue (sq_create demo_spsc)))"
  have v: "edgeId_isValid (MediaEdgeId 3)" by code_simp
  have d: "distinct (map fst ([] :: MediaQueueRegistry))" by simp
  have r: "?r = (fst ?r, snd ?r)" by simp
  have n: "registry_find [] e = None" "registry_size [] = 0" for e by (simp_all add: registry_find_def registry_size_def)
  show ?thesis using registry_is_a_map [OF d r] v by (simp add: n)
qed

end
