(* ===== verification/Wire_Bytes.thy ===== *)
theory Wire_Bytes
  imports Prelude
begin

unbundle bit_operations_syntax

text \<open>
  Big-endian integers in byte sequences: the \<^verbatim>\<open>readU16\<close>, \<^verbatim>\<open>readU32\<close>, \<^verbatim>\<open>writeU16\<close> and \<^verbatim>\<open>writeU32\<close>
  helpers that the RTP and MPEG-TS code repeats in its anonymous namespaces, with the laws that
  relate reading, writing and appending. Indices are inside the sequence wherever the code uses them.
\<close>

section \<open>Definitions\<close>

definition readU16 :: "u8 list \<Rightarrow> nat \<Rightarrow> u16" where
  "readU16 bytes offset = push_bit 8 (ucast (bytes ! offset)) OR ucast (bytes ! (offset + 1))"

definition readU32 :: "u8 list \<Rightarrow> nat \<Rightarrow> u32" where
  "readU32 bytes offset =
     push_bit 24 (ucast (bytes ! offset)) OR push_bit 16 (ucast (bytes ! (offset + 1))) OR
     push_bit 8 (ucast (bytes ! (offset + 2))) OR ucast (bytes ! (offset + 3))"

definition writeU16 :: "u8 list \<Rightarrow> nat \<Rightarrow> u16 \<Rightarrow> u8 list" where
  "writeU16 bytes offset v = bytes[offset := ucast (drop_bit 8 v), offset + 1 := ucast v]"

definition writeU32 :: "u8 list \<Rightarrow> nat \<Rightarrow> u32 \<Rightarrow> u8 list" where
  "writeU32 bytes offset v =
     bytes[offset := ucast (drop_bit 24 v), offset + 1 := ucast (drop_bit 16 v),
           offset + 2 := ucast (drop_bit 8 v), offset + 3 := ucast v]"

text \<open>The byte sequences of the two widths.\<close>

definition be16 :: "u16 \<Rightarrow> u8 list" where
  "be16 v = [ucast (drop_bit 8 v), ucast v]"

definition be32 :: "u32 \<Rightarrow> u8 list" where
  "be32 v = [ucast (drop_bit 24 v), ucast (drop_bit 16 v), ucast (drop_bit 8 v), ucast v]"

section \<open>Laws\<close>

named_theorems wire_simps "reading what was written"

lemma join16 [wire_simps]: "push_bit 8 (ucast (ucast (drop_bit 8 v) :: u8)) OR ucast (ucast v :: u8) = (v :: u16)"
  by (rule bit_word_eqI) (auto simp: bit_simps)

lemma join32 [wire_simps]:
  "push_bit 24 (ucast (ucast (drop_bit 24 v) :: u8)) OR push_bit 16 (ucast (ucast (drop_bit 16 v) :: u8)) OR
   push_bit 8 (ucast (ucast (drop_bit 8 v) :: u8)) OR ucast (ucast v :: u8) = (v :: u32)"
proof (rule bit_word_eqI)
  fix n assume "n < LENGTH(32)"
  then consider "n < 8" | "8 \<le> n" "n < 16" | "16 \<le> n" "n < 24" | "24 \<le> n" "n < 32" by fastforce
  then show "bit (push_bit 24 (ucast (ucast (drop_bit 24 v) :: u8)) OR push_bit 16 (ucast (ucast (drop_bit 16 v) :: u8)) OR
      push_bit 8 (ucast (ucast (drop_bit 8 v) :: u8)) OR ucast (ucast v :: u8) :: u32) n = bit v n"
    by cases (auto simp: bit_simps)
qed

lemma length_be [simp]: "length (be16 v) = 2" "length (be32 w) = 4"
  by (simp_all add: be16_def be32_def)

lemma readU16_be16 [wire_simps]: "length xs = offset \<Longrightarrow> readU16 (xs @ be16 v @ ys) offset = v"
  by (simp add: readU16_def be16_def nth_append join16)

lemma readU32_be32 [wire_simps]: "length xs = offset \<Longrightarrow> readU32 (xs @ be32 v @ ys) offset = v"
  by (simp add: readU32_def be32_def nth_append join32)

lemma length_write [simp]:
  "length (writeU16 bytes offset v) = length bytes" "length (writeU32 bytes offset w) = length bytes"
  by (simp_all add: writeU16_def writeU32_def)

lemma readU16_writeU16 [wire_simps]: "offset + 1 < length bytes \<Longrightarrow> readU16 (writeU16 bytes offset v) offset = v"
  by (simp add: readU16_def writeU16_def join16)

lemma readU32_writeU32 [wire_simps]: "offset + 3 < length bytes \<Longrightarrow> readU32 (writeU32 bytes offset v) offset = v"
  by (simp add: readU32_def writeU32_def join32)

lemma nth_writeU16 [wire_simps]: "i < offset \<or> offset + 2 \<le> i \<Longrightarrow> writeU16 bytes offset v ! i = bytes ! i"
  by (auto simp: writeU16_def)

lemma nth_writeU32 [wire_simps]: "i < offset \<or> offset + 4 \<le> i \<Longrightarrow> writeU32 bytes offset v ! i = bytes ! i"
  by (auto simp: writeU32_def)

lemma read_cong:
  "\<forall>i. offset \<le> i \<and> i < offset + 2 \<longrightarrow> xs ! i = ys ! i \<Longrightarrow> readU16 xs offset = readU16 ys offset"
  "\<forall>i. offset \<le> i \<and> i < offset + 4 \<longrightarrow> xs ! i = ys ! i \<Longrightarrow> readU32 xs offset = readU32 ys offset"
  by (simp_all add: readU16_def readU32_def)

lemma drop_writeU16 [wire_simps]: "offset + 2 \<le> n \<Longrightarrow> drop n (writeU16 bytes offset v) = drop n bytes"
  by (simp add: writeU16_def drop_update_cancel)

lemma drop_writeU32 [wire_simps]: "offset + 4 \<le> n \<Longrightarrow> drop n (writeU32 bytes offset v) = drop n bytes"
  by (simp add: writeU32_def drop_update_cancel)

end
