(* ===== verification/Rtp_Packet.thy ===== *)
theory Rtp_Packet
  imports Wire_Bytes
begin

unbundle bit_operations_syntax

text \<open>
  RTP packets on the wire: \<^verbatim>\<open>MediaRtpPacketParser\<close>, \<^verbatim>\<open>MediaRtpDatagramRewriter\<close> and
  \<^verbatim>\<open>MediaRtpWirePacketComposer\<close> of \<^verbatim>\<open>protocol/rtp\<close>. A reference encoder of the packet layout states
  what the parser has to understand. Whether the rewriter's output buffer can be allocated is a
  parameter.
\<close>

section \<open>Definitions\<close>

record MediaRtpHeaderExtension =
  ext_profile :: u16
  ext_data :: "u8 list"

record MediaRtpPacket =
  rtp_version :: u8
  rtp_marker :: bool
  rtp_payloadType :: u8
  rtp_sequenceNumber :: u16
  rtp_timestamp :: u32
  rtp_ssrc :: u32
  rtp_csrcs :: "u32 list"
  rtp_extension :: "MediaRtpHeaderExtension option"
  rtp_paddingSize :: u8
  rtp_payload :: "u8 list"

definition slice :: "nat \<Rightarrow> nat \<Rightarrow> 'a list \<Rightarrow> 'a list" where
  "slice from to xs = take (to - from) (drop from xs)"

definition csrcs_at :: "u8 list \<Rightarrow> nat \<Rightarrow> u32 list" where
  "csrcs_at datagram csrcCount = map (\<lambda>index. readU32 datagram (12 + 4 * index)) [0..<csrcCount]"

text \<open>The header extension at an offset, with the offset behind it.\<close>

definition parse_extension :: "u8 list \<Rightarrow> bool \<Rightarrow> nat \<Rightarrow> (MediaRtpHeaderExtension option \<times> nat) Result" where
  "parse_extension datagram hasExtension offset =
     (if \<not> hasExtension then success (None, offset)
      else if length datagram - offset < 4 then failure InvalidArgument
      else
        (let profile = readU16 datagram offset;
             words = unat (readU16 datagram (offset + 2));
             offset = offset + 4
         in if words > (length datagram - offset) div 4 then failure InvalidArgument
            else success (Some \<lparr>ext_profile = profile, ext_data = slice offset (offset + words * 4) datagram\<rparr>,
                          offset + words * 4)))"

text \<open>The padding size and the end of the payload.\<close>

definition parse_padding :: "u8 list \<Rightarrow> bool \<Rightarrow> nat \<Rightarrow> (u8 \<times> nat) Result" where
  "parse_padding datagram hasPadding offset =
     (if \<not> hasPadding then success (0, length datagram)
      else
        (let paddingSize = last datagram
         in if paddingSize = 0 \<or> unat paddingSize > length datagram - offset then failure InvalidArgument
            else success (paddingSize, length datagram - unat paddingSize)))"

definition rtp_parse :: "u8 list \<Rightarrow> MediaRtpPacket Result" where
  "rtp_parse datagram =
     (if length datagram < 12 then failure InvalidArgument
      else
        (let first = datagram ! 0;
             version = drop_bit 6 first;
             hasPadding = (first AND 0x20 \<noteq> 0);
             hasExtension = (first AND 0x10 \<noteq> 0);
             csrcCount = unat (first AND 0x0F)
         in if version \<noteq> 2 then failure InvalidArgument
            else if csrcCount > (length datagram - 12) div 4 then failure InvalidArgument
            else
              (case parse_extension datagram hasExtension (12 + 4 * csrcCount) of
                 Inl e \<Rightarrow> failure e
               | Inr (extension, offset) \<Rightarrow>
                   (case parse_padding datagram hasPadding offset of
                      Inl e \<Rightarrow> failure e
                    | Inr (paddingSize, payloadEnd) \<Rightarrow>
                        success
                          \<lparr>rtp_version = version,
                           rtp_marker = (datagram ! 1 AND 0x80 \<noteq> 0),
                           rtp_payloadType = datagram ! 1 AND 0x7F,
                           rtp_sequenceNumber = readU16 datagram 2,
                           rtp_timestamp = readU32 datagram 4,
                           rtp_ssrc = readU32 datagram 8,
                           rtp_csrcs = csrcs_at datagram csrcCount,
                           rtp_extension = extension,
                           rtp_paddingSize = paddingSize,
                           rtp_payload = slice offset payloadEnd datagram\<rparr>))))"

record MediaRtpDatagramRewriteIdentity =
  identity_payloadType :: int
  identity_ssrc :: u32

definition rewriteIdentity_create :: "int \<Rightarrow> u32 \<Rightarrow> MediaRtpDatagramRewriteIdentity Result" where
  "rewriteIdentity_create payloadType ssrc =
     (if payloadType < 0 \<or> payloadType > 127 then failure InvalidArgument
      else if ssrc = 0 then failure InvalidArgument
      else success \<lparr>identity_payloadType = payloadType, identity_ssrc = ssrc\<rparr>)"

definition payloadOffset :: "u8 list \<Rightarrow> nat Result" where
  "payloadOffset datagram =
     (let csrcBytes = unat (datagram ! 0 AND 0x0F) * 4
      in if csrcBytes > length datagram - 12 then failure InvalidArgument
         else
           (let offset = 12 + csrcBytes
            in if datagram ! 0 AND 0x10 = 0 then success offset
               else if length datagram - offset < 4 then failure InvalidArgument
               else
                 (let extensionWords = unat (readU16 datagram (offset + 2));
                      extensionBytes = extensionWords * 4;
                      offset = offset + 4
                  in if extensionBytes > length datagram - offset then failure InvalidArgument
                     else success (offset + extensionBytes))))"

text \<open>
  The rewriter returns the output buffer, empty unless it succeeded, and the number of payload octets.
\<close>

definition rewrite ::
  "(nat \<Rightarrow> bool) \<Rightarrow> u8 list \<Rightarrow> MediaRtpDatagramRewriteIdentity \<Rightarrow> u32 \<Rightarrow> u8 list \<times> nat Result" where
  "rewrite allocates datagram identity timestamp =
     (if length datagram < 12 then ([], failure InvalidArgument)
      else if drop_bit 6 (datagram ! 0) \<noteq> 2 then ([], failure InvalidArgument)
      else if datagram ! 1 \<ge> 192 \<and> datagram ! 1 \<le> 223 then ([], failure InvalidArgument)
      else if uint (datagram ! 1 AND 0x7F) \<noteq> identity_payloadType identity then ([], failure InvalidArgument)
      else
        (case payloadOffset datagram of
           Inl e \<Rightarrow> ([], failure e)
         | Inr offset \<Rightarrow>
             (let hasPadding = (datagram ! 0 AND 0x20 \<noteq> 0);
                  paddingBytes = unat (last datagram)
              in if hasPadding \<and> (paddingBytes = 0 \<or> paddingBytes > length datagram - offset)
                 then ([], failure InvalidArgument)
                 else
                   (let payloadEnd = (if hasPadding then length datagram - paddingBytes else length datagram)
                    in if payloadEnd \<le> offset then ([], failure InvalidArgument)
                       else if \<not> allocates (length datagram) then ([], failure AllocationFailed)
                       else
                         (let output = datagram[1 := (datagram ! 1 AND 0x80) OR word_of_int (identity_payloadType identity)];
                              output = writeU32 output 4 timestamp;
                              output = writeU32 output 8 (identity_ssrc identity)
                          in (output, success (payloadEnd - offset)))))))"

definition compose ::
  "(nat \<Rightarrow> bool) \<Rightarrow> u8 list \<Rightarrow> nat \<Rightarrow> MediaRtpDatagramRewriteIdentity \<Rightarrow> u32 \<Rightarrow> u16 \<Rightarrow> nat \<Rightarrow> u8 list Result" where
  "compose allocates packetizedRtp expectedPayloadOctets identity timestamp sequenceNumber maximumDatagramBytes =
     (if expectedPayloadOctets = 0 \<or> length packetizedRtp > maximumDatagramBytes then failure InvalidArgument
      else
        (case rewrite allocates packetizedRtp identity timestamp of
           (_, Inl e) \<Rightarrow> failure e
         | (output, Inr payloadOctets) \<Rightarrow>
             (if payloadOctets \<noteq> expectedPayloadOctets \<or> length output > maximumDatagramBytes
              then failure InvalidArgument
              else success (writeU16 output 2 sequenceNumber))))"

section \<open>The reference layout\<close>

definition rtp_first_byte :: "bool \<Rightarrow> bool \<Rightarrow> nat \<Rightarrow> u8" where
  "rtp_first_byte padded extended csrcCount =
     0x80 OR (if padded then 0x20 else 0) OR (if extended then 0x10 else 0) OR of_nat csrcCount"

definition rtp_second_byte :: "bool \<Rightarrow> u8 \<Rightarrow> u8" where
  "rtp_second_byte marker payloadType = (if marker then 0x80 else 0) OR payloadType"

definition extension_bytes :: "MediaRtpHeaderExtension option \<Rightarrow> u8 list" where
  "extension_bytes e =
     (case e of None \<Rightarrow> [] | Some x \<Rightarrow> be16 (ext_profile x) @ be16 (of_nat (length (ext_data x) div 4)) @ ext_data x)"

definition rtp_bytes :: "MediaRtpPacket \<Rightarrow> u8 list \<Rightarrow> u8 list" where
  "rtp_bytes p padding =
     [rtp_first_byte (padding \<noteq> []) (rtp_extension p \<noteq> None) (length (rtp_csrcs p)),
      rtp_second_byte (rtp_marker p) (rtp_payloadType p)] @
     be16 (rtp_sequenceNumber p) @ be32 (rtp_timestamp p) @ be32 (rtp_ssrc p) @
     concat (map be32 (rtp_csrcs p)) @ extension_bytes (rtp_extension p) @ rtp_payload p @ padding"

text \<open>The packets the layout can carry.\<close>

definition rtp_layout_ok :: "MediaRtpPacket \<Rightarrow> u8 list \<Rightarrow> bool" where
  "rtp_layout_ok p padding \<longleftrightarrow>
     rtp_version p = 2 \<and> unat (rtp_payloadType p) < 128 \<and> length (rtp_csrcs p) < 16 \<and>
     (case rtp_extension p of None \<Rightarrow> True
      | Some x \<Rightarrow> length (ext_data x) mod 4 = 0 \<and> length (ext_data x) div 4 < 65536) \<and>
     (if padding = [] then rtp_paddingSize p = 0
      else last padding = rtp_paddingSize p \<and> length padding = unat (rtp_paddingSize p))"

section \<open>Round trip of the layout\<close>

lemma first_byte_fields:
  assumes "n < 16"
  shows "drop_bit 6 (rtp_first_byte padded extended n) = 2"
    and "(rtp_first_byte padded extended n AND 0x20 \<noteq> 0) = padded"
    and "(rtp_first_byte padded extended n AND 0x10 \<noteq> 0) = extended"
    and "unat (rtp_first_byte padded extended n AND 0x0F) = n"
proof -
  have "\<forall>n\<in>set [0..<16]. \<forall>padded extended. drop_bit 6 (rtp_first_byte padded extended n) = 2 \<and>
      (rtp_first_byte padded extended n AND 0x20 \<noteq> 0) = padded \<and>
      (rtp_first_byte padded extended n AND 0x10 \<noteq> 0) = extended \<and>
      unat (rtp_first_byte padded extended n AND 0x0F) = n"
    by code_simp
  moreover have "n \<in> set [0..<16]" using assms by simp
  ultimately show "drop_bit 6 (rtp_first_byte padded extended n) = 2"
    "(rtp_first_byte padded extended n AND 0x20 \<noteq> 0) = padded"
    "(rtp_first_byte padded extended n AND 0x10 \<noteq> 0) = extended"
    "unat (rtp_first_byte padded extended n AND 0x0F) = n"
    by blast+
qed

lemma second_byte_fields:
  assumes "unat pt < 128"
  shows "(rtp_second_byte marker pt AND 0x80 \<noteq> 0) = marker" and "rtp_second_byte marker pt AND 0x7F = pt"
proof -
  have "\<forall>n\<in>set [0..<128]. \<forall>marker. (rtp_second_byte marker (of_nat n) AND 0x80 \<noteq> 0) = marker \<and>
      rtp_second_byte marker (of_nat n) AND 0x7F = of_nat n"
    by code_simp
  moreover have "unat pt \<in> set [0..<128]" using assms by simp
  ultimately have "(rtp_second_byte marker (of_nat (unat pt)) AND 0x80 \<noteq> 0) = marker \<and>
      rtp_second_byte marker (of_nat (unat pt)) AND 0x7F = of_nat (unat pt)"
    by blast
  then show "(rtp_second_byte marker pt AND 0x80 \<noteq> 0) = marker" "rtp_second_byte marker pt AND 0x7F = pt"
    by simp_all
qed

lemma length_concat_be32 [simp]: "length (concat (map be32 vs)) = 4 * length vs"
  by (induction vs) auto

lemma readU32_concat:
  assumes "i < length vs"
  shows "readU32 (xs @ concat (map be32 vs) @ ys) (length xs + 4 * i) = vs ! i"
proof -
  have "vs = take i vs @ vs ! i # drop (Suc i) vs" using assms by (simp add: id_take_nth_drop)
  then have "concat (map be32 vs) = concat (map be32 (take i vs)) @ be32 (vs ! i) @ concat (map be32 (drop (Suc i) vs))"
    by (metis concat.simps(2) concat_append list.simps(9) map_append)
  then have "xs @ concat (map be32 vs) @ ys =
      (xs @ concat (map be32 (take i vs))) @ be32 (vs ! i) @ (concat (map be32 (drop (Suc i) vs)) @ ys)" by simp
  moreover have "length (xs @ concat (map be32 (take i vs))) = length xs + 4 * i" using assms by simp
  ultimately show ?thesis by (metis readU32_be32)
qed

lemma csrcs_at_bytes: "length xs = 12 \<Longrightarrow> csrcs_at (xs @ concat (map be32 vs) @ ys) (length vs) = vs"
  by (rule nth_equalityI) (auto simp: csrcs_at_def readU32_concat [of _ vs xs ys, symmetric])

lemma slice_append: "length xs = from \<Longrightarrow> from + length ys = to \<Longrightarrow> slice from to (xs @ ys @ zs) = ys"
  by (auto simp: slice_def)

lemma parse_extension_bytes:
  assumes "length xs = offset"
    and "\<forall>x. e = Some x \<longrightarrow> length (ext_data x) mod 4 = 0 \<and> length (ext_data x) div 4 < 65536"
  shows "parse_extension (xs @ extension_bytes e @ ys) (e \<noteq> None) offset = Inr (e, offset + length (extension_bytes e))"
proof (cases e)
  case None
  then show ?thesis by (simp add: parse_extension_def extension_bytes_def)
next
  case (Some x)
  let ?w = "length (ext_data x) div 4"
  have w: "?w * 4 = length (ext_data x)" "?w < 65536" using assms(2) Some by auto
  let ?d = "xs @ be16 (ext_profile x) @ be16 (of_nat ?w) @ ext_data x @ ys"
  have d: "xs @ extension_bytes e @ ys = ?d" by (simp add: extension_bytes_def Some)
  have p: "readU16 ?d offset = ext_profile x" using assms(1) by (rule readU16_be16)
  have "readU16 ((xs @ be16 (ext_profile x)) @ be16 (of_nat ?w) @ (ext_data x @ ys)) (offset + 2) = of_nat ?w"
    by (rule readU16_be16) (use assms(1) in simp)
  then have n: "unat (readU16 ?d (offset + 2)) = ?w" using w(2) by (simp add: unat_of_nat take_bit_eq_mod)
  have s: "slice (offset + 4) (offset + 4 + ?w * 4) ?d = ext_data x"
    using slice_append [of "xs @ be16 (ext_profile x) @ be16 (of_nat ?w)" "offset + 4" "ext_data x" _ ys] assms(1) w(1)
    by simp
  have len: "length ?d = offset + 4 + ?w * 4 + length ys" using assms(1) w(1) by simp
  show ?thesis
    unfolding d unfolding parse_extension_def Let_def p n s len
    using Some w(1) by (simp add: extension_bytes_def)
qed

lemma parse_padding_bytes:
  assumes "if padding = [] then n = 0 else last padding = n \<and> length padding = unat n"
    and "offset \<le> length xs"
  shows "parse_padding (xs @ padding) (padding \<noteq> []) offset = Inr (n, length xs)"
  using assms by (auto simp: parse_padding_def Let_def unat_eq_zero split: if_splits)

lemma rtp_header_fields:
  assumes "unat (rtp_payloadType p) < 128" and "length (rtp_csrcs p) < 16"
  shows "(rtp_bytes p padding ! 1 AND 0x80 \<noteq> 0) = rtp_marker p" "rtp_bytes p padding ! 1 AND 0x7F = rtp_payloadType p"
    and "readU16 (rtp_bytes p padding) 2 = rtp_sequenceNumber p" "readU32 (rtp_bytes p padding) 4 = rtp_timestamp p"
    and "readU32 (rtp_bytes p padding) 8 = rtp_ssrc p"
    and "csrcs_at (rtp_bytes p padding) (length (rtp_csrcs p)) = rtp_csrcs p"
proof -
  let ?h = "[rtp_first_byte (padding \<noteq> []) (rtp_extension p \<noteq> None) (length (rtp_csrcs p)),
      rtp_second_byte (rtp_marker p) (rtp_payloadType p)]"
  let ?t = "concat (map be32 (rtp_csrcs p)) @ extension_bytes (rtp_extension p) @ rtp_payload p @ padding"
  let ?q = "be16 (rtp_sequenceNumber p)" and ?ts = "be32 (rtp_timestamp p)" and ?s = "be32 (rtp_ssrc p)"
  have d: "rtp_bytes p padding = ?h @ ?q @ ?ts @ ?s @ ?t" by (simp add: rtp_bytes_def)
  show "(rtp_bytes p padding ! 1 AND 0x80 \<noteq> 0) = rtp_marker p" "rtp_bytes p padding ! 1 AND 0x7F = rtp_payloadType p"
    unfolding d using second_byte_fields [OF assms(1)] by simp_all
  show "readU16 (rtp_bytes p padding) 2 = rtp_sequenceNumber p"
    unfolding d by (rule readU16_be16) simp
  show "readU32 (rtp_bytes p padding) 4 = rtp_timestamp p"
    unfolding d using readU32_be32 [of "?h @ ?q" 4 "rtp_timestamp p" "?s @ ?t"] by simp
  show "readU32 (rtp_bytes p padding) 8 = rtp_ssrc p"
    unfolding d using readU32_be32 [of "?h @ ?q @ ?ts" 8 "rtp_ssrc p" ?t] by simp
  show "csrcs_at (rtp_bytes p padding) (length (rtp_csrcs p)) = rtp_csrcs p"
    unfolding d using csrcs_at_bytes [of "?h @ ?q @ ?ts @ ?s" "rtp_csrcs p"
        "extension_bytes (rtp_extension p) @ rtp_payload p @ padding"] by simp
qed

lemma rtp_parse_bytes:
  assumes "rtp_layout_ok p padding"
  shows "rtp_parse (rtp_bytes p padding) = Inr p"
proof -
  let ?d = "rtp_bytes p padding" and ?n = "length (rtp_csrcs p)" and ?e = "rtp_extension p"
  have ok: "rtp_version p = 2" "unat (rtp_payloadType p) < 128" "?n < 16"
      "\<forall>x. ?e = Some x \<longrightarrow> length (ext_data x) mod 4 = 0 \<and> length (ext_data x) div 4 < 65536"
      "if padding = [] then rtp_paddingSize p = 0
       else last padding = rtp_paddingSize p \<and> length padding = unat (rtp_paddingSize p)"
    using assms by (auto simp: rtp_layout_ok_def split: option.splits)
  let ?x = "[rtp_first_byte (padding \<noteq> []) (?e \<noteq> None) ?n, rtp_second_byte (rtp_marker p) (rtp_payloadType p)] @
    be16 (rtp_sequenceNumber p) @ be32 (rtp_timestamp p) @ be32 (rtp_ssrc p) @ concat (map be32 (rtp_csrcs p))"
  let ?o = "12 + 4 * ?n + length (extension_bytes ?e)"
  have d: "?d = ?x @ extension_bytes ?e @ (rtp_payload p @ padding)" by (simp add: rtp_bytes_def)
  have lx: "length ?x = 12 + 4 * ?n" by simp
  have zero: "?d ! 0 = rtp_first_byte (padding \<noteq> []) (?e \<noteq> None) ?n" by (simp add: rtp_bytes_def)
  have len: "length ?d = ?o + length (rtp_payload p) + length padding" unfolding d using lx by simp
  have ext: "parse_extension ?d (?e \<noteq> None) (12 + 4 * ?n) = Inr (?e, ?o)"
    unfolding d by (rule parse_extension_bytes [OF lx ok(4)])
  have pad: "parse_padding ?d (padding \<noteq> []) ?o = Inr (rtp_paddingSize p, ?o + length (rtp_payload p))"
    using parse_padding_bytes [OF ok(5), of ?o "?x @ extension_bytes ?e @ rtp_payload p"] lx
    unfolding d by (simp add: add.assoc)
  have pay: "slice ?o (?o + length (rtp_payload p)) ?d = rtp_payload p"
    using slice_append [of "?x @ extension_bytes ?e" ?o "rtp_payload p" _ padding] lx unfolding d by simp
  have div: "\<not> ?n > (length ?d - 12) div 4" unfolding len by simp
  note F = first_byte_fields [OF ok(3), of "padding \<noteq> []" "?e \<noteq> None"] and H = rtp_header_fields [OF ok(2,3), of padding]
  have "rtp_parse ?d = Inr \<lparr>rtp_version = 2, rtp_marker = rtp_marker p, rtp_payloadType = rtp_payloadType p,
      rtp_sequenceNumber = rtp_sequenceNumber p, rtp_timestamp = rtp_timestamp p, rtp_ssrc = rtp_ssrc p,
      rtp_csrcs = rtp_csrcs p, rtp_extension = ?e, rtp_paddingSize = rtp_paddingSize p, rtp_payload = rtp_payload p\<rparr>"
    unfolding rtp_parse_def Let_def zero F H ext using div len by (simp add: pad pay)
  then show ?thesis using ok(1) by simp
qed

section \<open>The composer keeps everything but the planned fields\<close>

text \<open>Datagrams that agree outside the sequence number, the timestamp and the SSRC.\<close>

definition same_frame :: "u8 list \<Rightarrow> u8 list \<Rightarrow> bool" where
  "same_frame d out \<longleftrightarrow> length out = length d \<and> out ! 0 = d ! 0 \<and> out ! 1 = d ! 1 \<and> drop 12 out = drop 12 d"

lemma same_frame_nth: "same_frame d out \<Longrightarrow> 12 \<le> i \<Longrightarrow> i < length d \<Longrightarrow> out ! i = d ! i"
  using nth_drop [of 12 d "i - 12"] nth_drop [of 12 out "i - 12"] by (simp add: same_frame_def)

lemma same_frame_drop: "same_frame d out \<Longrightarrow> 12 \<le> n \<Longrightarrow> drop n out = drop n d"
  using drop_drop [of "n - 12" 12 d] drop_drop [of "n - 12" 12 out] by (simp add: same_frame_def)

lemma same_frame_read:
  assumes "same_frame d out" and "12 \<le> i"
  shows "i + 1 < length d \<Longrightarrow> readU16 out i = readU16 d i" and "i + 3 < length d \<Longrightarrow> readU32 out i = readU32 d i"
  by (rule read_cong; use same_frame_nth [OF assms(1)] assms(2) in auto)+

lemma same_frame_extension:
  assumes "same_frame d out" and "12 \<le> offset"
  shows "parse_extension out X offset = parse_extension d X offset"
  using assms same_frame_read [OF assms] same_frame_read(1) [OF assms(1), of "offset + 2"]
    same_frame_drop [OF assms(1)]
  by (auto simp: parse_extension_def same_frame_def slice_def Let_def)

lemma same_frame_padding:
  assumes "same_frame d out" and "12 < length d"
  shows "parse_padding out X offset = parse_padding d X offset"
proof -
  have "last out = last d"
    using assms same_frame_nth [OF assms(1), of "length d - 1"]
    by (simp add: last_conv_nth same_frame_def flip: length_greater_0_conv)
  moreover have "length out = length d" using assms(1) by (simp add: same_frame_def)
  ultimately show ?thesis unfolding parse_padding_def Let_def by simp
qed

lemma same_frame_csrcs:
  assumes "same_frame d out" and "n \<le> (length d - 12) div 4"
  shows "csrcs_at out n = csrcs_at d n"
  unfolding csrcs_at_def using assms(2) by (auto intro!: same_frame_read(2) [OF assms(1)])

lemma rtp_parse_same_frame:
  assumes "same_frame d out" and "12 < length d" and "rtp_parse d = Inr p"
  shows "rtp_parse out = Inr (p\<lparr>rtp_sequenceNumber := readU16 out 2, rtp_timestamp := readU32 out 4,
    rtp_ssrc := readU32 out 8\<rparr>)"
proof -
  have s: "length out = length d" "out ! 0 = d ! 0" "out ! 1 = d ! 1" using assms(1) by (simp_all add: same_frame_def)
  have E: "parse_extension out X (12 + 4 * n) = parse_extension d X (12 + 4 * n)" for X n
    by (rule same_frame_extension [OF assms(1)]) simp
  have off: "12 \<le> offset" if "parse_extension d X (12 + 4 * n) = Inr (e, offset)" for X n e offset
    using that by (auto simp: parse_extension_def Let_def split: if_splits)
  show ?thesis
    using assms(2,3) same_frame_csrcs [OF assms(1)] same_frame_drop [OF assms(1)] off
    unfolding rtp_parse_def Let_def s E same_frame_padding [OF assms(1,2)]
    by (auto simp: slice_def split: if_splits sum.splits)
qed

lemma payloadOffset_extension:
  assumes "payloadOffset d = Inr offset" and "12 \<le> length d"
  shows "unat (d ! 0 AND 0x0F) \<le> (length d - 12) div 4 \<and>
    (\<exists>e. parse_extension d (d ! 0 AND 0x10 \<noteq> 0) (12 + 4 * unat (d ! 0 AND 0x0F)) = Inr (e, offset))"
  using assms by (auto simp: payloadOffset_def parse_extension_def Let_def div_greater_zero_iff mult.commute
      split: if_splits)

lemma split_byte: "(b AND 0x80) OR (b AND 0x7F) = (b :: u8)"
  by (rule bit_word_eqI) (auto simp: bit_simps numeral_eq_Suc less_Suc_eq)

lemma rewrite_ok:
  assumes "rewrite allocates d identity timestamp = (out, Inr n)"
  shows "12 < length d \<and> out = writeU32 (writeU32 d 4 timestamp) 8 (identity_ssrc identity) \<and>
    (\<exists>p. rtp_parse d = Inr p \<and> length (rtp_payload p) = n \<and> uint (rtp_payloadType p) = identity_payloadType identity)"
proof -
  obtain offset where off: "payloadOffset d = Inr offset"
    using assms by (auto simp: rewrite_def split: if_splits sum.splits)
  let ?pad = "d ! 0 AND 0x20 \<noteq> 0" and ?k = "unat (last d)"
  let ?pend = "if ?pad then length d - ?k else length d"
  have g: "12 \<le> length d" "drop_bit 6 (d ! 0) = 2" "uint (d ! 1 AND 0x7F) = identity_payloadType identity"
      "?pad \<longrightarrow> ?k \<noteq> 0 \<and> ?k \<le> length d - offset" "offset < ?pend" "n = ?pend - offset"
      "out = writeU32 (writeU32 (d[1 := (d ! 1 AND 0x80) OR word_of_int (identity_payloadType identity)]) 4 timestamp)
         8 (identity_ssrc identity)"
    using assms off by (auto simp: rewrite_def Let_def split: if_splits)
  have "word_of_int (identity_payloadType identity) = d ! 1 AND 0x7F"
    unfolding g(3) [symmetric] by simp
  then have o1: "out = writeU32 (writeU32 d 4 timestamp) 8 (identity_ssrc identity)"
    using g(7) by (simp add: split_byte)
  obtain e where c: "unat (d ! 0 AND 0x0F) \<le> (length d - 12) div 4"
      and e: "parse_extension d (d ! 0 AND 0x10 \<noteq> 0) (12 + 4 * unat (d ! 0 AND 0x0F)) = Inr (e, offset)"
    using payloadOffset_extension [OF off g(1)] by blast
  have o12: "12 \<le> offset" using e by (auto simp: parse_extension_def Let_def split: if_splits)
  have pp: "parse_padding d ?pad offset = Inr (if ?pad then last d else 0, ?pend)"
    using g(4) by (auto simp: parse_padding_def Let_def unat_eq_zero)
  have "\<exists>p. rtp_parse d = Inr p \<and> rtp_payload p = slice offset ?pend d \<and> rtp_payloadType p = d ! 1 AND 0x7F"
    using g(1,2) c e pp by (simp add: rtp_parse_def Let_def)
  moreover have "length (slice offset ?pend d) = n" using g(6) by (auto simp: slice_def)
  ultimately show ?thesis using g(3,5) o1 o12 by (auto split: if_splits)
qed

section \<open>Properties\<close>

text \<open>
  C15. The parser inverts the RTP packet layout: for every packet the layout can carry (any CSRC list,
  header extension, marker, payload and padding), parsing its bytes returns the packet.
\<close>

theorem rtp_parse_roundtrip:
  assumes "rtp_layout_ok p padding"
  shows "rtp_parse (rtp_bytes p padding) = Inr p"
  by (rule rtp_parse_bytes [OF assms])

theorem rtp_parse_roundtrip_witness:
  "rtp_parse (rtp_bytes \<lparr>rtp_version = 2, rtp_marker = True, rtp_payloadType = 96, rtp_sequenceNumber = 7,
       rtp_timestamp = 3000, rtp_ssrc = 0x11223344, rtp_csrcs = [5, 6],
       rtp_extension = Some \<lparr>ext_profile = 0xBEDE, ext_data = [1, 2, 3, 4]\<rparr>, rtp_paddingSize = 2,
       rtp_payload = [0x65, 0xAA]\<rparr> [0, 2]) =
     Inr \<lparr>rtp_version = 2, rtp_marker = True, rtp_payloadType = 96, rtp_sequenceNumber = 7,
       rtp_timestamp = 3000, rtp_ssrc = 0x11223344, rtp_csrcs = [5, 6],
       rtp_extension = Some \<lparr>ext_profile = 0xBEDE, ext_data = [1, 2, 3, 4]\<rparr>, rtp_paddingSize = 2,
       rtp_payload = [0x65, 0xAA]\<rparr>"
  by (rule rtp_parse_roundtrip) (simp add: rtp_layout_ok_def)

text \<open>
  Whatever the composer emits is a valid RTP packet: it parses to the packetizer's packet with the
  planned sequence number, timestamp and SSRC in place of the old ones, everything else unchanged; the
  payload has the expected size and the payload type is the planned one; the datagram fits its bound.
\<close>

theorem compose_parses:
  assumes "compose allocates d n identity timestamp sequenceNumber maximumDatagramBytes = Inr out"
  shows "\<exists>p. rtp_parse d = Inr p \<and>
    rtp_parse out = Inr (p\<lparr>rtp_sequenceNumber := sequenceNumber, rtp_timestamp := timestamp,
                           rtp_ssrc := identity_ssrc identity\<rparr>) \<and>
    length (rtp_payload p) = n \<and> uint (rtp_payloadType p) = identity_payloadType identity \<and>
    length out = length d \<and> length out \<le> maximumDatagramBytes"
proof -
  obtain out1 where r: "rewrite allocates d identity timestamp = (out1, Inr n)"
      and out: "out = writeU16 out1 2 sequenceNumber" and len: "length d \<le> maximumDatagramBytes"
    using assms by (auto simp: compose_def split: if_splits prod.splits sum.splits)
  note R = rewrite_ok [OF r]
  let ?o = "writeU16 (writeU32 (writeU32 d 4 timestamp) 8 (identity_ssrc identity)) 2 sequenceNumber"
  have o: "out = ?o" using R out by simp
  have f: "same_frame d ?o"
    by (auto simp: same_frame_def wire_simps)
  have reads: "readU16 ?o 2 = sequenceNumber" "readU32 ?o 4 = timestamp" "readU32 ?o 8 = identity_ssrc identity"
  proof -
    show "readU16 ?o 2 = sequenceNumber" using R by (simp add: wire_simps)
    have "readU32 ?o 4 = readU32 (writeU32 d 4 timestamp) 4" by (rule read_cong) (auto simp: wire_simps)
    then show "readU32 ?o 4 = timestamp" using R by (simp add: wire_simps)
    have "readU32 ?o 8 = readU32 (writeU32 (writeU32 d 4 timestamp) 8 (identity_ssrc identity)) 8"
      by (rule read_cong) (auto simp: wire_simps)
    then show "readU32 ?o 8 = identity_ssrc identity" using R by (simp add: wire_simps)
  qed
  obtain p where p: "rtp_parse d = Inr p" "length (rtp_payload p) = n"
      "uint (rtp_payloadType p) = identity_payloadType identity"
    using R by blast
  show ?thesis
    using rtp_parse_same_frame [OF f _ p(1)] R p len reads unfolding o by auto
qed

theorem compose_parses_witness:
  "\<exists>out. compose (\<lambda>_. True)
      [0x80, 0xE0, 0, 1, 0, 0, 0, 2, 0, 0, 0, 3, 0x65, 0xAA] 2
      \<lparr>identity_payloadType = 96, identity_ssrc = 77\<rparr> 9000 41 1400 = Inr out \<and>
     (\<exists>p. rtp_parse out = Inr p \<and> rtp_sequenceNumber p = 41 \<and> rtp_ssrc p = 77)"
proof -
  let ?c = "compose (\<lambda>_. True) [0x80, 0xE0, 0, 1, 0, 0, 0, 2, 0, 0, 0, 3, 0x65, 0xAA] 2
      \<lparr>identity_payloadType = 96, identity_ssrc = 77\<rparr> 9000 41 1400"
  have "\<not> isl ?c" by code_simp
  then obtain out where c: "?c = Inr out" by (cases ?c) auto
  from compose_parses [OF c] show ?thesis using c by auto
qed

end
