(* ===== verification/Rtp_Reorder.thy ===== *)
theory Rtp_Reorder
  imports Rtp_Packet "HOL-Library.AList" "HOL-Library.Multiset"
begin

text \<open>
  \<^verbatim>\<open>protocol/rtp/MediaRtpReorderBuffer\<close>: the buffer that puts the packets of one source back into
  sequence order, giving up on a gap when the window overflows or the oldest waiting packet has
  waited too long. Instants of the steady clock are integers in nanoseconds. The pending map is an
  association list sorted by sequence number, the order in which the code iterates over it.
\<close>

section \<open>Definitions\<close>

datatype MediaRtpDiscontinuityReason = SequenceGap | SsrcChanged | PayloadTypeChanged

record MediaRtpDiscontinuity =
  disc_reason :: MediaRtpDiscontinuityReason
  disc_firstMissing :: u16
  disc_resumed :: u16

record MediaRtpReorderConfig =
  ro_windowPackets :: nat
  ro_maximumDelay :: int
  ro_payloadType :: u8

record MediaRtpReorderResult =
  res_packets :: "MediaRtpPacket list"
  res_discontinuities :: "MediaRtpDiscontinuity list"
  res_duplicate :: bool

record ReorderEntry =
  entry_packet :: MediaRtpPacket
  entry_receivedAt :: int

type_synonym Pending = "(u16 \<times> ReorderEntry) list"

record MediaRtpReorderBuffer =
  rb_config :: MediaRtpReorderConfig
  rb_expected :: "u16 option"
  rb_ssrc :: "u32 option"
  rb_pending :: Pending

definition reorder_create :: "MediaRtpReorderConfig \<Rightarrow> MediaRtpReorderBuffer" where
  "reorder_create config = \<lparr>rb_config = config, rb_expected = None, rb_ssrc = None, rb_pending = []\<rparr>"

definition sequenceDistance :: "u16 \<Rightarrow> u16 \<Rightarrow> int" where
  "sequenceDistance value base = sint (value - base)"

definition empty_result :: MediaRtpReorderResult where
  "empty_result = \<lparr>res_packets = [], res_discontinuities = [], res_duplicate = False\<rparr>"

lemma length_delete_less: "map_of m k = Some v \<Longrightarrow> length (AList.delete k m) < length m"
  by (induction m) (auto simp: AList.delete_eq intro: le_less_trans [OF length_filter_le])

function drain :: "u16 \<Rightarrow> Pending \<Rightarrow> u16 \<times> Pending \<times> MediaRtpPacket list" where
  "drain expected pending =
     (case map_of pending expected of
        None \<Rightarrow> (expected, pending, [])
      | Some e \<Rightarrow>
          (let (x, p, out) = drain (expected + 1) (AList.delete expected pending)
           in (x, p, entry_packet e # out)))"
  by pat_completeness auto
termination by (relation "measure (length \<circ> snd)") (auto intro: length_delete_less)

declare drain.simps [simp del]

definition drainContiguous ::
  "MediaRtpReorderBuffer \<Rightarrow> MediaRtpReorderResult \<Rightarrow> MediaRtpReorderBuffer \<times> MediaRtpReorderResult" where
  "drainContiguous b result =
     (case rb_expected b of
        None \<Rightarrow> (b, result)
      | Some expected \<Rightarrow>
          (let (x, p, out) = drain expected (rb_pending b)
           in (b\<lparr>rb_expected := Some x, rb_pending := p\<rparr>, result\<lparr>res_packets := res_packets result @ out\<rparr>)))"

text \<open>\<^verbatim>\<open>std::min_element\<close>: the first element no other is smaller than.\<close>

fun min_element :: "('a \<Rightarrow> int) \<Rightarrow> 'a \<Rightarrow> 'a list \<Rightarrow> 'a" where
  "min_element f best [] = best"
| "min_element f best (x # xs) = min_element f (if f x < f best then x else best) xs"

definition nearestPending :: "u16 \<Rightarrow> Pending \<Rightarrow> u16" where
  "nearestPending expected pending =
     min_element (\<lambda>k. sequenceDistance k expected) (fst (hd pending)) (map fst (tl pending))"

definition nextDeadline :: "MediaRtpReorderBuffer \<Rightarrow> int option" where
  "nextDeadline b =
     (if rb_expected b = None \<or> rb_pending b = [] \<or> ro_maximumDelay (rb_config b) \<le> 0 then None
      else Some (entry_receivedAt (min_element entry_receivedAt (snd (hd (rb_pending b))) (map snd (tl (rb_pending b)))) +
                 ro_maximumDelay (rb_config b)))"

definition policy_valid :: "MediaRtpReorderConfig \<Rightarrow> bool" where
  "policy_valid c \<longleftrightarrow> \<not> (ro_windowPackets c = 0 \<or> ro_maximumDelay c \<le> 0)"

text \<open>Giving up on the gap before the nearest pending packet.\<close>

definition skip_gap ::
  "MediaRtpReorderBuffer \<Rightarrow> u16 \<Rightarrow> MediaRtpReorderResult \<Rightarrow> MediaRtpReorderBuffer \<times> MediaRtpReorderResult" where
  "skip_gap b expected result =
     (let nearest = nearestPending expected (rb_pending b)
      in drainContiguous (b\<lparr>rb_expected := Some nearest\<rparr>)
           (result\<lparr>res_discontinuities := res_discontinuities result @
              [\<lparr>disc_reason = SequenceGap, disc_firstMissing = expected, disc_resumed = nearest\<rparr>]\<rparr>))"

definition expire :: "MediaRtpReorderBuffer \<Rightarrow> int \<Rightarrow> MediaRtpReorderBuffer \<times> MediaRtpReorderResult Result" where
  "expire b now =
     (if \<not> policy_valid (rb_config b) then (b, failure InvalidArgument)
      else
        (case (nextDeadline b, rb_expected b) of
           (Some deadline, Some expected) \<Rightarrow>
             (if now < deadline then (b, success empty_result)
              else apsnd Inr (skip_gap b expected empty_result))
         | _ \<Rightarrow> (b, success empty_result)))"

definition reorder_push ::
  "MediaRtpReorderBuffer \<Rightarrow> MediaRtpPacket \<Rightarrow> int \<Rightarrow> MediaRtpReorderBuffer \<times> MediaRtpReorderResult Result" where
  "reorder_push b packet receivedAt =
     (if \<not> policy_valid (rb_config b) then (b, failure InvalidArgument)
      else if rtp_payloadType packet \<noteq> ro_payloadType (rb_config b) then
        (b, success (empty_result\<lparr>res_discontinuities :=
           [\<lparr>disc_reason = PayloadTypeChanged, disc_firstMissing = rtp_sequenceNumber packet,
             disc_resumed = rtp_sequenceNumber packet\<rparr>]\<rparr>))
      else
        (let changed = (case rb_ssrc b of None \<Rightarrow> False | Some s \<Rightarrow> s \<noteq> rtp_ssrc packet);
             result = (if changed then empty_result\<lparr>res_discontinuities :=
                         [\<lparr>disc_reason = SsrcChanged, disc_firstMissing = rtp_sequenceNumber packet,
                           disc_resumed = rtp_sequenceNumber packet\<rparr>]\<rparr> else empty_result);
             b = (if changed then b\<lparr>rb_expected := Some (rtp_sequenceNumber packet), rb_pending := []\<rparr> else b);
             expected = (case rb_expected b of None \<Rightarrow> rtp_sequenceNumber packet | Some x \<Rightarrow> x);
             b = b\<lparr>rb_ssrc := Some (rtp_ssrc packet), rb_expected := Some expected\<rparr>
         in if sequenceDistance (rtp_sequenceNumber packet) expected < 0 \<or>
               map_of (rb_pending b) (rtp_sequenceNumber packet) \<noteq> None then
              (b, success (result\<lparr>res_duplicate := True\<rparr>))
            else
              (let b = b\<lparr>rb_pending := insort_key fst (rtp_sequenceNumber packet,
                           \<lparr>entry_packet = packet, entry_receivedAt = receivedAt\<rparr>) (rb_pending b)\<rparr>;
                   (b, result) = drainContiguous b result;
                   (b, result) =
                     (if rb_pending b \<noteq> [] \<and> length (rb_pending b) > ro_windowPackets (rb_config b)
                      then skip_gap b (the (rb_expected b)) result else (b, result))
               in case expire b receivedAt of
                    (b, Inl e) \<Rightarrow> (b, failure e)
                  | (b, Inr expired) \<Rightarrow>
                      (b, success
                         (result\<lparr>res_packets := res_packets result @ res_packets expired,
                                 res_discontinuities := res_discontinuities result @ res_discontinuities expired\<rparr>)))))"

definition reorder_reset :: "MediaRtpReorderBuffer \<Rightarrow> MediaRtpReorderBuffer" where
  "reorder_reset b = b\<lparr>rb_expected := None, rb_ssrc := None, rb_pending := []\<rparr>"

section \<open>Runs and gaps\<close>

datatype ReorderOp = Op_Arrive MediaRtpPacket int | Op_Expire int

definition reorder_step ::
  "MediaRtpReorderBuffer \<Rightarrow> ReorderOp \<Rightarrow> MediaRtpReorderBuffer \<times> MediaRtpReorderResult Result" where
  "reorder_step b opn = (case opn of Op_Arrive p t \<Rightarrow> reorder_push b p t | Op_Expire t \<Rightarrow> expire b t)"

text \<open>A run collects the packets delivered and the discontinuities reported; a failed call adds nothing.\<close>

fun reorder_run ::
  "MediaRtpReorderBuffer \<Rightarrow> ReorderOp list \<Rightarrow>
   MediaRtpReorderBuffer \<times> MediaRtpPacket list \<times> MediaRtpDiscontinuity list" where
  "reorder_run b [] = (b, [], [])"
| "reorder_run b (opn # ops) =
     (let (b, r) = reorder_step b opn;
          (b, ps, ds) = reorder_run b ops
      in case r of Inl _ \<Rightarrow> (b, ps, ds) | Inr v \<Rightarrow> (b, res_packets v @ ps, res_discontinuities v @ ds))"

text \<open>
  The gaps of a sequence of delivered sequence numbers, given the number expected first: the pairs
  of the first missing number and the number at which delivery resumed.
\<close>

fun gaps_of :: "u16 option \<Rightarrow> u16 list \<Rightarrow> (u16 \<times> u16) list" where
  "gaps_of x [] = []"
| "gaps_of None (s # ss) = gaps_of (Some (s + 1)) ss"
| "gaps_of (Some x) (s # ss) = (if s = x then [] else [(x, s)]) @ gaps_of (Some (s + 1)) ss"

fun forward :: "u16 option \<Rightarrow> u16 list \<Rightarrow> bool" where
  "forward x [] = True"
| "forward None (s # ss) = forward (Some (s + 1)) ss"
| "forward (Some x) (s # ss) = (0 \<le> sequenceDistance s x \<and> forward (Some (s + 1)) ss)"

fun next_expected :: "u16 option \<Rightarrow> u16 list \<Rightarrow> u16 option" where
  "next_expected x [] = x"
| "next_expected x (s # ss) = next_expected (Some (s + 1)) ss"

definition reported_gaps :: "MediaRtpDiscontinuity list \<Rightarrow> (u16 \<times> u16) list" where
  "reported_gaps ds = map (\<lambda>d. (disc_firstMissing d, disc_resumed d)) (filter (\<lambda>d. disc_reason d = SequenceGap) ds)"

lemma gaps_append: "gaps_of x (ss @ ts) = gaps_of x ss @ gaps_of (next_expected x ss) ts"
  by (induction x ss rule: gaps_of.induct) auto

lemma forward_append: "forward x (ss @ ts) \<longleftrightarrow> forward x ss \<and> forward (next_expected x ss) ts"
  by (induction x ss rule: forward.induct) auto

lemma next_expected_append: "next_expected x (ss @ ts) = next_expected (next_expected x ss) ts"
  by (induction x ss rule: next_expected.induct) auto

lemma reported_gaps_append: "reported_gaps (ds @ es) = reported_gaps ds @ reported_gaps es"
  by (simp add: reported_gaps_def)

section \<open>Sequence arithmetic\<close>

lemma distance_zero: "sequenceDistance k x = 0 \<longleftrightarrow> k = x"
  unfolding sequenceDistance_def by (simp only: signed_eq_0_iff right_minus_eq)

lemma distance_step:
  assumes "0 < sequenceDistance k x"
  shows "sequenceDistance k (x + 1) = sequenceDistance k x - 1"
proof -
  let ?d = "k - x"
  have pos: "0 < sint ?d" using assms by (simp add: sequenceDistance_def)
  have ub: "sint ?d < 2 ^ 15" using sint_lt [of ?d] by simp
  have "sint (?d - 1) = signed_take_bit 15 (sint ?d - 1)"
    by (simp add: sint_word_ariths)
  also have "\<dots> = sint ?d - 1" by (rule signed_take_bit_int_eq_self) (use pos ub in auto)
  finally show ?thesis by (simp add: sequenceDistance_def diff_diff_eq)
qed

text \<open>Moving the expected number up to one that no pending packet precedes.\<close>

lemma distance_rebase:
  assumes "0 \<le> sequenceDistance n x" and "sequenceDistance n x \<le> sequenceDistance k x"
  shows "0 \<le> sequenceDistance k n"
proof -
  have r: "- (2 ^ 15) \<le> sint (k - x) - sint (n - x)" "sint (k - x) - sint (n - x) < 2 ^ 15"
    using assms sint_lt [of "k - x"] by (simp_all add: sequenceDistance_def)
  have "k - n = (k - x) - (n - x)" by simp
  then have "sint (k - n) = signed_take_bit 15 (sint (k - x) - sint (n - x))"
    using sint_word_ariths(2) [of "k - x" "n - x"] by simp
  also have "\<dots> = sint (k - x) - sint (n - x)" by (rule signed_take_bit_int_eq_self) (use r in auto)
  finally show ?thesis using assms by (simp add: sequenceDistance_def)
qed

lemma min_element_in: "min_element f b xs \<in> insert b (set xs)"
  by (induction f b xs rule: min_element.induct) (auto split: if_splits)

lemma min_element_le: "y \<in> insert b (set xs) \<Longrightarrow> f (min_element f b xs) \<le> f y"
proof (induction f b xs arbitrary: y rule: min_element.induct)
  case (2 f best x xs)
  let ?b = "if f x < f best then x else best"
  have b: "f (min_element f ?b xs) \<le> f ?b" using "2.IH" [of ?b] by simp
  show ?case
  proof (cases "y \<in> set xs")
    case True
    then show ?thesis using "2.IH" [of y] by simp
  next
    case False
    then have "f ?b \<le> f y" using "2.prems" by auto
    then show ?thesis using b by simp
  qed
qed simp

lemma nearestPending_min:
  assumes "pending \<noteq> []"
  shows "nearestPending x pending \<in> fst ` set pending"
    and "k \<in> fst ` set pending \<Longrightarrow> sequenceDistance (nearestPending x pending) x \<le> sequenceDistance k x"
proof -
  have s: "fst ` set pending = insert (fst (hd pending)) (set (map fst (tl pending)))"
    using assms by (cases pending) auto
  show "nearestPending x pending \<in> fst ` set pending"
    unfolding s nearestPending_def by (rule min_element_in)
  show "k \<in> fst ` set pending \<Longrightarrow> sequenceDistance (nearestPending x pending) x \<le> sequenceDistance k x"
    unfolding s nearestPending_def by (rule min_element_le)
qed

section \<open>Draining\<close>

abbreviation seqs :: "MediaRtpPacket list \<Rightarrow> u16 list" where
  "seqs ps \<equiv> map rtp_sequenceNumber ps"

definition held :: "Pending \<Rightarrow> MediaRtpPacket multiset" where
  "held pending = mset (map (entry_packet \<circ> snd) pending)"

definition pending_ok :: "Pending \<Rightarrow> bool" where
  "pending_ok pending \<longleftrightarrow>
     distinct (map fst pending) \<and> (\<forall>(k, e)\<in>set pending. rtp_sequenceNumber (entry_packet e) = k)"

definition at_or_after :: "u16 \<Rightarrow> Pending \<Rightarrow> bool" where
  "at_or_after x pending \<longleftrightarrow> (\<forall>k\<in>fst ` set pending. 0 \<le> sequenceDistance k x)"

definition beyond :: "u16 \<Rightarrow> Pending \<Rightarrow> bool" where
  "beyond x pending \<longleftrightarrow> (\<forall>k\<in>fst ` set pending. 0 < sequenceDistance k x)"

lemma delete_pending:
  assumes "pending_ok pending" and "map_of pending x = Some e"
  shows "pending_ok (AList.delete x pending)" and "held pending = {#entry_packet e#} + held (AList.delete x pending)"
    and "rtp_sequenceNumber (entry_packet e) = x"
    and "at_or_after x pending \<Longrightarrow> at_or_after (x + 1) (AList.delete x pending)"
proof -
  show "pending_ok (AList.delete x pending)"
    using assms(1) distinct_delete [of pending x] by (auto simp: pending_ok_def AList.delete_eq)
  have "(x, e) \<in> set pending" using assms(2) by (rule map_of_SomeD)
  then show "rtp_sequenceNumber (entry_packet e) = x" using assms(1) by (auto simp: pending_ok_def)
  have "distinct (map fst pending)" using assms(1) by (simp add: pending_ok_def)
  then show "held pending = {#entry_packet e#} + held (AList.delete x pending)"
    using assms(2)
  proof (induction pending)
    case (Cons a as)
    show ?case
    proof (cases "fst a = x")
      case True
      then have "AList.delete x as = as" using Cons.prems(1) by auto
      then show ?thesis using Cons.prems(2) True by (cases a) (auto simp: held_def)
    next
      case False
      then show ?thesis using Cons by (cases a) (auto simp: held_def)
    qed
  qed simp
  show "at_or_after (x + 1) (AList.delete x pending)" if "at_or_after x pending"
  proof -
    have "0 \<le> sequenceDistance k (x + 1)" if k: "k \<in> fst ` set (AList.delete x pending)" for k
    proof -
      have "k \<in> fst ` set pending" "k \<noteq> x" using k by (auto simp: AList.delete_eq)
      then have "0 < sequenceDistance k x"
        using \<open>at_or_after x pending\<close> distance_zero [of k x] by (force simp: at_or_after_def)
      then show ?thesis using distance_step by simp
    qed
    then show ?thesis by (simp add: at_or_after_def)
  qed
qed

text \<open>What a drain from an expected number delivers: a contiguous run of sequence numbers.\<close>

definition drained :: "u16 \<Rightarrow> Pending \<Rightarrow> u16 \<times> Pending \<times> MediaRtpPacket list \<Rightarrow> bool" where
  "drained x pending r \<longleftrightarrow>
     (case r of (x', pending', out) \<Rightarrow>
        pending_ok pending' \<and> beyond x' pending' \<and> held pending = mset out + held pending' \<and>
        gaps_of (Some x) (seqs out) = [] \<and> forward (Some x) (seqs out) \<and>
        next_expected (Some x) (seqs out) = Some x' \<and> length pending' + length out = length pending \<and>
        (x \<in> fst ` set pending \<longrightarrow> out \<noteq> []))"

lemma drain_drained: "pending_ok pending \<Longrightarrow> at_or_after x pending \<Longrightarrow> drained x pending (drain x pending)"
proof (induction x pending rule: drain.induct)
  case (1 x pending)
  show ?case
  proof (cases "map_of pending x")
    case None
    then have nin: "x \<notin> fst ` set pending" by (simp add: map_of_eq_None_iff)
    then have "beyond x pending"
      using 1(3) distance_zero [of _ x] unfolding beyond_def at_or_after_def by (metis order_le_less)
    then show ?thesis using 1(2) nin None by (subst drain.simps) (simp add: drained_def)
  next
    case (Some e)
    obtain x' p' out where d: "drain (x + 1) (AList.delete x pending) = (x', p', out)" by (metis prod_cases3)
    note D = delete_pending [OF 1(2) Some]
    have "drained (x + 1) (AList.delete x pending) (x', p', out)"
      using 1(1) [OF Some D(1) D(4) [OF 1(3)]] d by simp
    moreover have "length pending = Suc (length (AList.delete x pending))"
      using arg_cong [OF D(2), of size] by (simp add: held_def)
    ultimately show ?thesis
      using Some d D(2,3) distance_zero [of x x]
      by (subst drain.simps) (simp add: drained_def)
  qed
qed

section \<open>One call\<close>

definition rb_inv :: "MediaRtpReorderBuffer \<Rightarrow> bool" where
  "rb_inv b \<longleftrightarrow> pending_ok (rb_pending b) \<and>
     (case rb_expected b of None \<Rightarrow> rb_pending b = [] | Some x \<Rightarrow> beyond x (rb_pending b))"

text \<open>A result delivers forward from the expected number and reports exactly the gaps it leaves.\<close>

definition delivers ::
  "u16 option \<Rightarrow> MediaRtpPacket multiset \<Rightarrow> MediaRtpReorderBuffer \<Rightarrow> MediaRtpReorderResult \<Rightarrow> bool" where
  "delivers x0 before b result \<longleftrightarrow>
     rb_inv b \<and> reported_gaps (res_discontinuities result) = gaps_of x0 (seqs (res_packets result)) \<and>
     forward x0 (seqs (res_packets result)) \<and> next_expected x0 (seqs (res_packets result)) = rb_expected b \<and>
     mset (res_packets result) + held (rb_pending b) \<subseteq># before"

lemma drainContiguous_step:
  assumes b: "pending_ok (rb_pending b)" "rb_expected b = Some x" "at_or_after x (rb_pending b)"
    and r: "reported_gaps (res_discontinuities result) = gaps_of x0 (seqs (res_packets result)) @ gap"
      "forward x0 (seqs (res_packets result))"
      "gap = [] \<and> next_expected x0 (seqs (res_packets result)) = Some x \<or>
       (\<exists>y. next_expected x0 (seqs (res_packets result)) = Some y \<and> gap = [(y, x)] \<and> y \<noteq> x \<and>
            0 \<le> sequenceDistance x y \<and> x \<in> fst ` set (rb_pending b))"
      "mset (res_packets result) + held (rb_pending b) \<subseteq># before"
    and d: "drainContiguous b result = (b', result')"
  shows "delivers x0 before b' result' \<and> rb_config b' = rb_config b \<and> rb_ssrc b' = rb_ssrc b \<and>
    rb_expected b' \<noteq> None \<and> length (rb_pending b') \<le> length (rb_pending b) \<and>
    (gap \<noteq> [] \<longrightarrow> length (rb_pending b') < length (rb_pending b))"
proof -
  obtain x' p' out where dr: "drain x (rb_pending b) = (x', p', out)" by (metis prod_cases3)
  have b': "b' = b\<lparr>rb_expected := Some x', rb_pending := p'\<rparr>"
      and res: "result' = result\<lparr>res_packets := res_packets result @ out\<rparr>"
    using d b(2) dr by (auto simp: drainContiguous_def)
  have D: "pending_ok p'" "beyond x' p'" "held (rb_pending b) = mset out + held p'"
      "gaps_of (Some x) (seqs out) = []" "forward (Some x) (seqs out)" "next_expected (Some x) (seqs out) = Some x'"
      "length p' + length out = length (rb_pending b)" "x \<in> fst ` set (rb_pending b) \<longrightarrow> out \<noteq> []"
    using drain_drained [OF b(1,3)] dr by (simp_all add: drained_def)
  have out: "gaps_of (next_expected x0 (seqs (res_packets result))) (seqs out) = gap \<and>
      forward (next_expected x0 (seqs (res_packets result))) (seqs out) \<and>
      next_expected (next_expected x0 (seqs (res_packets result))) (seqs out) = Some x'"
  proof (cases "gap = []")
    case True
    then show ?thesis using r(3) D by auto
  next
    case False
    then obtain y where y: "next_expected x0 (seqs (res_packets result)) = Some y" "gap = [(y, x)]" "y \<noteq> x"
        "0 \<le> sequenceDistance x y" "x \<in> fst ` set (rb_pending b)" using r(3) by auto
    obtain p ps where ps: "out = p # ps" using D(8) y(5) by (cases out) auto
    have "rtp_sequenceNumber p = x" using D(4) ps by (auto split: if_splits)
    then show ?thesis using D y ps by auto
  qed
  have "gap \<noteq> [] \<longrightarrow> length p' < length (rb_pending b)" using out D(7) by (cases out) auto
  then show ?thesis
    using r(1,2,4) out D b(2) unfolding b' res
    by (auto simp: delivers_def rb_inv_def gaps_append forward_append next_expected_append add.assoc)
qed

lemma skip_gap_step:
  assumes del: "delivers x0 before b result" and x: "rb_expected b = Some x" and ne: "rb_pending b \<noteq> []"
    and s: "skip_gap b x result = (b', result')"
  shows "delivers x0 before b' result' \<and> rb_config b' = rb_config b \<and> rb_ssrc b' = rb_ssrc b \<and>
    rb_expected b' \<noteq> None \<and> length (rb_pending b') < length (rb_pending b)"
proof -
  let ?n = "nearestPending x (rb_pending b)"
  have inv: "pending_ok (rb_pending b)" "beyond x (rb_pending b)"
    using del x by (simp_all add: delivers_def rb_inv_def)
  note N = nearestPending_min [OF ne, of x]
  have n: "0 < sequenceDistance ?n x" using N(1) inv(2) by (auto simp: beyond_def)
  then have nx: "x \<noteq> ?n" using distance_zero [of x x] by auto
  have after: "at_or_after ?n (rb_pending b)"
    unfolding at_or_after_def
    using nearestPending_min(2) [OF ne, of _ x] n by (intro ballI distance_rebase [of ?n x]) simp_all
  let ?b = "b\<lparr>rb_expected := Some ?n\<rparr>"
  let ?r = "result\<lparr>res_discontinuities := res_discontinuities result @
      [\<lparr>disc_reason = SequenceGap, disc_firstMissing = x, disc_resumed = ?n\<rparr>]\<rparr>"
  have "drainContiguous ?b ?r = (b', result')" using s by (simp add: skip_gap_def Let_def)
  from drainContiguous_step [OF _ _ _ _ _ _ _ this, of ?n x0 "[(x, ?n)]" before]
  show ?thesis
    using inv after del x n nx N(1) by (simp add: delivers_def reported_gaps_append) (simp add: reported_gaps_def)
qed

lemma expire_step:
  assumes inv: "rb_inv b" and e: "expire b now = (b', Inr r)"
  shows "delivers (rb_expected b) (held (rb_pending b)) b' r \<and> rb_config b' = rb_config b \<and> rb_ssrc b' = rb_ssrc b \<and>
    length (rb_pending b') \<le> length (rb_pending b) \<and> (rb_expected b \<noteq> None \<longrightarrow> rb_expected b' \<noteq> None)"
proof -
  have base: "delivers (rb_expected b) (held (rb_pending b)) b empty_result"
    using inv by (simp add: delivers_def empty_result_def reported_gaps_def)
  consider (same) "b' = b" "r = empty_result"
    | (skip) x where "rb_expected b = Some x" "rb_pending b \<noteq> []" "skip_gap b x empty_result = (b', r)"
    using e by (auto simp: expire_def nextDeadline_def apsnd_def map_prod_def split: if_splits option.splits prod.splits)
  then show ?thesis
  proof cases
    case same
    then show ?thesis using base by simp
  next
    case skip
    then show ?thesis using skip_gap_step [OF base skip] by auto
  qed
qed

lemma delivers_trans:
  assumes 1: "delivers x0 before b r" and 2: "delivers (rb_expected b) (held (rb_pending b)) b' e"
  shows "delivers x0 before b' (r\<lparr>res_packets := res_packets r @ res_packets e,
    res_discontinuities := res_discontinuities r @ res_discontinuities e\<rparr>)"
proof -
  have "mset (res_packets r) + (mset (res_packets e) + held (rb_pending b')) \<subseteq># mset (res_packets r) + held (rb_pending b)"
    using 2 by (simp add: delivers_def)
  then have "mset (res_packets r) + (mset (res_packets e) + held (rb_pending b')) \<subseteq># before"
    using 1 unfolding delivers_def by (meson subset_mset.order_trans)
  then show ?thesis
    using 1 2 by (simp add: delivers_def reported_gaps_append gaps_append forward_append next_expected_append add.assoc)
qed

text \<open>The tail of a push, once the packet is in the pending map.\<close>

definition settle ::
  "MediaRtpReorderBuffer \<Rightarrow> MediaRtpReorderResult \<Rightarrow> int \<Rightarrow> MediaRtpReorderBuffer \<times> MediaRtpReorderResult Result" where
  "settle b result receivedAt =
     (let (b, result) = drainContiguous b result;
          (b, result) =
            (if rb_pending b \<noteq> [] \<and> length (rb_pending b) > ro_windowPackets (rb_config b)
             then skip_gap b (the (rb_expected b)) result else (b, result))
      in case expire b receivedAt of
           (b, Inl e) \<Rightarrow> (b, failure e)
         | (b, Inr expired) \<Rightarrow>
             (b, success
                (result\<lparr>res_packets := res_packets result @ res_packets expired,
                        res_discontinuities := res_discontinuities result @ res_discontinuities expired\<rparr>)))"

lemma settle_step:
  assumes b: "pending_ok (rb_pending b)" "rb_expected b = Some x" "at_or_after x (rb_pending b)"
    and len: "length (rb_pending b) \<le> ro_windowPackets (rb_config b) + 1"
    and s: "settle b empty_result t = (b', Inr r)"
  shows "delivers (Some x) (held (rb_pending b)) b' r \<and> rb_config b' = rb_config b \<and> rb_ssrc b' = rb_ssrc b \<and>
    length (rb_pending b') \<le> ro_windowPackets (rb_config b)"
proof -
  obtain b1 r1 where d: "drainContiguous b empty_result = (b1, r1)" by fastforce
  from drainContiguous_step [OF b _ _ _ _ d, of "Some x" "[]" "held (rb_pending b)"]
  have 1: "delivers (Some x) (held (rb_pending b)) b1 r1" "rb_config b1 = rb_config b" "rb_ssrc b1 = rb_ssrc b"
      "rb_expected b1 \<noteq> None" "length (rb_pending b1) \<le> length (rb_pending b)"
    by (simp_all add: empty_result_def reported_gaps_def)
  obtain b2 r2 where sk: "(if rb_pending b1 \<noteq> [] \<and> length (rb_pending b1) > ro_windowPackets (rb_config b1)
      then skip_gap b1 (the (rb_expected b1)) r1 else (b1, r1)) = (b2, r2)" by fastforce
  have 2: "delivers (Some x) (held (rb_pending b)) b2 r2 \<and> rb_config b2 = rb_config b \<and> rb_ssrc b2 = rb_ssrc b \<and>
      length (rb_pending b2) \<le> ro_windowPackets (rb_config b)"
    using sk 1 len skip_gap_step [OF 1(1), of "the (rb_expected b1)" b2 r2] by (auto split: if_splits)
  obtain e where e: "expire b2 t = (b', Inr e)"
      and r: "r = r2\<lparr>res_packets := res_packets r2 @ res_packets e,
                     res_discontinuities := res_discontinuities r2 @ res_discontinuities e\<rparr>"
    using s d sk by (auto simp: settle_def Let_def split: prod.splits sum.splits)
  have "rb_inv b2" using 2 by (simp add: delivers_def)
  note E = expire_step [OF this e]
  show ?thesis using 2 E delivers_trans [of "Some x" "held (rb_pending b)" b2 r2 b' e] r by auto
qed

lemma pending_insert:
  assumes "pending_ok pending" and "map_of pending (rtp_sequenceNumber p) = None"
  shows "pending_ok (insort_key fst (rtp_sequenceNumber p, \<lparr>entry_packet = p, entry_receivedAt = t\<rparr>) pending)"
    and "held (insort_key fst (rtp_sequenceNumber p, \<lparr>entry_packet = p, entry_receivedAt = t\<rparr>) pending) = add_mset p (held pending)"
proof -
  let ?x = "(rtp_sequenceNumber p, \<lparr>entry_packet = p, entry_receivedAt = t\<rparr>)"
  have m: "mset (insort_key fst ?x pending) = mset (?x # pending)" by simp
  have "mset (map fst (insort_key fst ?x pending)) = mset (map fst (?x # pending))"
    unfolding mset_map m ..
  then have "distinct (map fst (insort_key fst ?x pending)) = distinct (map fst (?x # pending))"
    by (rule mset_eq_imp_distinct_iff)
  then show "pending_ok (insort_key fst ?x pending)"
    using assms by (auto simp: pending_ok_def set_insort_key map_of_eq_None_iff)
  show "held (insort_key fst ?x pending) = add_mset p (held pending)"
    unfolding held_def mset_map m by simp
qed

definition one_source :: "MediaRtpReorderBuffer \<Rightarrow> u32 \<Rightarrow> bool" where
  "one_source b s \<longleftrightarrow> rb_ssrc b = None \<or> rb_ssrc b = Some s"

lemma reorder_push_one_source:
  assumes "one_source b (rtp_ssrc p)"
  shows "reorder_push b p t =
    (if \<not> policy_valid (rb_config b) then (b, failure InvalidArgument)
     else if rtp_payloadType p \<noteq> ro_payloadType (rb_config b) then
       (b, success (empty_result\<lparr>res_discontinuities :=
          [\<lparr>disc_reason = PayloadTypeChanged, disc_firstMissing = rtp_sequenceNumber p, disc_resumed = rtp_sequenceNumber p\<rparr>]\<rparr>))
     else
       (let x = (case rb_expected b of None \<Rightarrow> rtp_sequenceNumber p | Some x \<Rightarrow> x);
            b = b\<lparr>rb_ssrc := Some (rtp_ssrc p), rb_expected := Some x\<rparr>
        in if sequenceDistance (rtp_sequenceNumber p) x < 0 \<or> map_of (rb_pending b) (rtp_sequenceNumber p) \<noteq> None
           then (b, success (empty_result\<lparr>res_duplicate := True\<rparr>))
           else settle (b\<lparr>rb_pending := insort_key fst (rtp_sequenceNumber p, \<lparr>entry_packet = p, entry_receivedAt = t\<rparr>)
                  (rb_pending b)\<rparr>) empty_result t))"
  using assms by (auto simp: reorder_push_def settle_def one_source_def Let_def)

lemma settle_first:
  assumes "policy_valid (rb_config b)"
  shows "settle (b\<lparr>rb_expected := Some (rtp_sequenceNumber p),
      rb_pending := [(rtp_sequenceNumber p, \<lparr>entry_packet = p, entry_receivedAt = t\<rparr>)]\<rparr>) empty_result now =
    (b\<lparr>rb_expected := Some (rtp_sequenceNumber p + 1), rb_pending := []\<rparr>, Inr (empty_result\<lparr>res_packets := [p]\<rparr>))"
  using assms
  by (simp add: settle_def drainContiguous_def drain.simps [of _ "[_]"] drain.simps [of _ "[]"] expire_def nextDeadline_def
      empty_result_def)

lemma reorder_push_step:
  assumes inv: "rb_inv b" and src: "one_source b (rtp_ssrc p)"
    and len: "length (rb_pending b) \<le> ro_windowPackets (rb_config b)"
    and push: "reorder_push b p t = (b', Inr r)"
  shows "delivers (rb_expected b) (add_mset p (held (rb_pending b))) b' r \<and> rb_config b' = rb_config b \<and>
    one_source b' (rtp_ssrc p) \<and> length (rb_pending b') \<le> ro_windowPackets (rb_config b)"
proof -
  let ?s = "rtp_sequenceNumber p"
  have quiet: "delivers (rb_expected b) (add_mset p (held (rb_pending b))) b r1"
    if "res_packets r1 = []" "reported_gaps (res_discontinuities r1) = []" for r1
    using inv that by (simp add: delivers_def)
  have valid: "policy_valid (rb_config b)" using push reorder_push_one_source [OF src] by (auto split: if_splits)
  note P = push [unfolded reorder_push_one_source [OF src]]
  show ?thesis
  proof (cases "rtp_payloadType p = ro_payloadType (rb_config b)")
    case False
    then show ?thesis using P valid quiet [of r] src len
      by (auto simp: empty_result_def reported_gaps_def)
  next
    case pt: True
    show ?thesis
    proof (cases "rb_expected b")
      case None
      then have pend: "rb_pending b = []" using inv by (simp add: rb_inv_def)
      have d0: "\<not> sequenceDistance ?s ?s < 0" using distance_zero [of ?s ?s] by simp
      let ?b = "b\<lparr>rb_ssrc := Some (rtp_ssrc p)\<rparr>"
      have "settle (?b\<lparr>rb_expected := Some ?s, rb_pending := [(?s, \<lparr>entry_packet = p, entry_receivedAt = t\<rparr>)]\<rparr>) empty_result t = (b', Inr r)"
        using P valid pt None pend d0 by (simp add: Let_def)
      then have "b' = ?b\<lparr>rb_expected := Some (?s + 1), rb_pending := []\<rparr>" "r = empty_result\<lparr>res_packets := [p]\<rparr>"
        using settle_first [of ?b p t t] valid by simp_all
      then show ?thesis
        using None by (simp add: delivers_def rb_inv_def pending_ok_def beyond_def held_def empty_result_def
            reported_gaps_def one_source_def)
    next
      case (Some x)
      let ?b = "b\<lparr>rb_ssrc := Some (rtp_ssrc p), rb_expected := Some x\<rparr>"
      have same: "delivers (rb_expected b) m ?b r1 = delivers (rb_expected b) m b r1" for m r1
        using Some by (simp add: delivers_def rb_inv_def)
      show ?thesis
      proof (cases "sequenceDistance ?s x < 0 \<or> map_of (rb_pending b) ?s \<noteq> None")
        case True
        then show ?thesis
          using P valid pt Some quiet [of r] same len
          by (auto simp: empty_result_def reported_gaps_def one_source_def)
      next
        case False
        let ?q = "insort_key fst (?s, \<lparr>entry_packet = p, entry_receivedAt = t\<rparr>) (rb_pending b)"
        have s: "settle (?b\<lparr>rb_pending := ?q\<rparr>) empty_result t = (b', Inr r)" using P valid pt Some False by simp
        have ok: "pending_ok (rb_pending b)" "beyond x (rb_pending b)" using inv Some by (simp_all add: rb_inv_def)
        note I = pending_insert [OF ok(1), of p t]
        have a: "at_or_after x ?q"
          using ok(2) False by (auto simp: at_or_after_def beyond_def set_insort_key)
        show ?thesis
          using settle_step [OF _ _ _ _ s, of x] I a False len Some by (simp add: one_source_def)
      qed
    qed
  qed
qed

lemma expire_total: "policy_valid (rb_config b) \<Longrightarrow> \<exists>b' v. expire b t = (b', Inr v)"
  by (cases "nextDeadline b"; cases "rb_expected b") (auto simp: expire_def apsnd_def map_prod_def split: prod.splits)

lemma drainContiguous_config: "drainContiguous b r = (b', r') \<Longrightarrow> rb_config b' = rb_config b"
  by (auto simp: drainContiguous_def split: option.splits prod.splits)

lemma skip_gap_config: "skip_gap b x r = (b', r') \<Longrightarrow> rb_config b' = rb_config b"
  by (auto simp: skip_gap_def Let_def dest!: drainContiguous_config)

lemma settle_total:
  assumes "policy_valid (rb_config b)"
  shows "\<exists>b' v. settle b r t = (b', Inr v)"
proof -
  obtain b1 r1 where 1: "drainContiguous b r = (b1, r1)" by fastforce
  obtain b2 r2 where 2: "(if rb_pending b1 \<noteq> [] \<and> length (rb_pending b1) > ro_windowPackets (rb_config b1)
      then skip_gap b1 (the (rb_expected b1)) r1 else (b1, r1)) = (b2, r2)" by fastforce
  have "rb_config b2 = rb_config b"
    using 2 drainContiguous_config [OF 1] skip_gap_config by (auto split: if_splits)
  then obtain b3 v where "expire b2 t = (b3, Inr v)" using expire_total [of b2 t] assms by auto
  then show ?thesis unfolding settle_def Let_def 1 by (simp add: 2 split: prod.split)
qed

lemma step_total:
  assumes "policy_valid (rb_config b)" and "\<forall>p t. opn = Op_Arrive p t \<longrightarrow> one_source b (rtp_ssrc p)"
  shows "\<exists>b' v. reorder_step b opn = (b', Inr v)"
proof (cases opn)
  case (Op_Arrive p t)
  then show ?thesis
    using assms settle_total by (auto simp: reorder_step_def reorder_push_one_source Let_def)
next
  case (Op_Expire t)
  then show ?thesis using expire_total [OF assms(1)] by (simp add: reorder_step_def)
qed

fun arrivals :: "ReorderOp list \<Rightarrow> MediaRtpPacket list" where
  "arrivals [] = []"
| "arrivals (Op_Arrive p t # ops) = p # arrivals ops"
| "arrivals (Op_Expire t # ops) = arrivals ops"

lemma step_delivers:
  assumes "rb_inv b" and "\<forall>p\<in>set (arrivals [opn]). rtp_ssrc p = s" and "one_source b s"
    and "length (rb_pending b) \<le> ro_windowPackets (rb_config b)" and "reorder_step b opn = (b', Inr r)"
  shows "delivers (rb_expected b) (mset (arrivals [opn]) + held (rb_pending b)) b' r \<and> rb_config b' = rb_config b \<and>
    one_source b' s \<and> length (rb_pending b') \<le> ro_windowPackets (rb_config b)"
proof (cases opn)
  case (Op_Arrive p t)
  then show ?thesis using reorder_push_step [OF assms(1) _ assms(4), of p t b' r] assms by (simp add: reorder_step_def)
next
  case (Op_Expire t)
  then show ?thesis using expire_step [OF assms(1), of t b' r] assms by (simp add: reorder_step_def one_source_def)
qed

lemma run_delivers:
  assumes "rb_inv b" and "policy_valid (rb_config b)" and "one_source b s"
    and "length (rb_pending b) \<le> ro_windowPackets (rb_config b)" and "\<forall>p\<in>set (arrivals ops). rtp_ssrc p = s"
    and "reorder_run b ops = (b', ps, ds)"
  shows "reported_gaps ds = gaps_of (rb_expected b) (seqs ps) \<and> forward (rb_expected b) (seqs ps) \<and>
    mset ps + held (rb_pending b') \<subseteq># mset (arrivals ops) + held (rb_pending b) \<and>
    length (rb_pending b') \<le> ro_windowPackets (rb_config b)"
  using assms
proof (induction ops arbitrary: b b' ps ds)
  case Nil
  then show ?case by (simp add: reported_gaps_def)
next
  case (Cons opn ops)
  have arr: "arrivals (opn # ops) = arrivals [opn] @ arrivals ops" by (cases opn) simp_all
  have src: "\<forall>p\<in>set (arrivals [opn]). rtp_ssrc p = s" "\<forall>p\<in>set (arrivals ops). rtp_ssrc p = s"
    using Cons.prems(5) unfolding arr by auto
  have "\<forall>p t. opn = Op_Arrive p t \<longrightarrow> one_source b (rtp_ssrc p)" using src(1) Cons.prems(3) by auto
  then obtain b1 r where st: "reorder_step b opn = (b1, Inr r)" using step_total [OF Cons.prems(2)] by blast
  obtain ps1 ds1 where run: "reorder_run b1 ops = (b', ps1, ds1)" and out: "ps = res_packets r @ ps1" "ds = res_discontinuities r @ ds1"
    using Cons.prems(6) st by (auto split: prod.splits)
  note S = step_delivers [OF Cons.prems(1) src(1) Cons.prems(3,4) st]
  have "rb_inv b1" using S by (simp add: delivers_def)
  note IH = Cons.IH [OF this _ _ _ src(2) run]
  have I: "reported_gaps ds1 = gaps_of (rb_expected b1) (seqs ps1)" "forward (rb_expected b1) (seqs ps1)"
      "mset ps1 + held (rb_pending b') \<subseteq># mset (arrivals ops) + held (rb_pending b1)"
      "length (rb_pending b') \<le> ro_windowPackets (rb_config b)"
    using IH S Cons.prems(2) by simp_all
  have m1: "mset (res_packets r) + held (rb_pending b1) \<subseteq># mset (arrivals [opn]) + held (rb_pending b)"
    using S by (simp add: delivers_def)
  have "mset (res_packets r) + (mset ps1 + held (rb_pending b')) \<subseteq>#
      mset (res_packets r) + (mset (arrivals ops) + held (rb_pending b1))" using I(3) by simp
  also have "\<dots> = mset (arrivals ops) + (mset (res_packets r) + held (rb_pending b1))" by simp
  also have "\<dots> \<subseteq># mset (arrivals ops) + (mset (arrivals [opn]) + held (rb_pending b))" using m1 by simp
  finally have "mset ps + held (rb_pending b') \<subseteq># mset (arrivals (opn # ops)) + held (rb_pending b)"
    unfolding arr out by (simp add: ac_simps)
  then show ?case
    using S I unfolding out by (simp add: delivers_def reported_gaps_append gaps_append forward_append)
qed

section \<open>Properties\<close>

text \<open>
  C13. For any arrivals of one source, in any order, with duplicates and losses, and any expiry calls:
  packets are delivered forward in the 16-bit sequence space across wrap-around; the reported sequence
  gaps are exactly the gaps in what was delivered, in order; every delivered packet is one that
  arrived, delivered at most as often as it arrived; and no more than the window is held back.
\<close>

theorem reorder_in_order:
  assumes "policy_valid config" and "\<forall>p\<in>set (arrivals ops). rtp_ssrc p = s"
    and "reorder_run (reorder_create config) ops = (b, ps, ds)"
  shows "forward None (seqs ps) \<and> reported_gaps ds = gaps_of None (seqs ps) \<and>
    mset ps \<subseteq># mset (arrivals ops) \<and> length (rb_pending b) \<le> ro_windowPackets config"
proof -
  have "rb_inv (reorder_create config)" by (simp add: rb_inv_def reorder_create_def pending_ok_def)
  from run_delivers [OF this _ _ _ assms(2,3)] assms(1)
  have R: "reported_gaps ds = gaps_of None (seqs ps) \<and> forward None (seqs ps) \<and>
      mset ps + held (rb_pending b) \<subseteq># mset (arrivals ops) \<and> length (rb_pending b) \<le> ro_windowPackets config"
    by (simp add: reorder_create_def one_source_def held_def)
  have "mset ps \<subseteq># mset ps + held (rb_pending b)" by simp
  with R show ?thesis by (meson subset_mset.order_trans)
qed

definition demo_packet :: "u16 \<Rightarrow> MediaRtpPacket" where
  "demo_packet n = \<lparr>rtp_version = 2, rtp_marker = False, rtp_payloadType = 96, rtp_sequenceNumber = n, rtp_timestamp = 0,
     rtp_ssrc = 9, rtp_csrcs = [], rtp_extension = None, rtp_paddingSize = 0, rtp_payload = [1]\<rparr>"

theorem reorder_in_order_witness:
  "\<exists>b ps ds. reorder_run (reorder_create \<lparr>ro_windowPackets = 2, ro_maximumDelay = 100, ro_payloadType = 96\<rparr>)
       [Op_Arrive (demo_packet 65535) 0, Op_Arrive (demo_packet 1) 1, Op_Arrive (demo_packet 0) 2,
        Op_Arrive (demo_packet 4) 3, Op_Expire 200] = (b, ps, ds) \<and>
     seqs ps = [65535, 0, 1, 4] \<and> reported_gaps ds = gaps_of None [65535, 0, 1, 4]"
proof -
  let ?c = "\<lparr>ro_windowPackets = 2, ro_maximumDelay = 100, ro_payloadType = 96\<rparr>"
  let ?ops = "[Op_Arrive (demo_packet 65535) 0, Op_Arrive (demo_packet 1) 1, Op_Arrive (demo_packet 0) 2,
        Op_Arrive (demo_packet 4) 3, Op_Expire 200]"
  let ?r = "reorder_run (reorder_create ?c) ?ops"
  have v: "policy_valid ?c" by code_simp
  have s: "\<forall>p\<in>set (arrivals ?ops). rtp_ssrc p = 9" by code_simp
  have r: "?r = (fst ?r, fst (snd ?r), snd (snd ?r))" by simp
  have q: "seqs (fst (snd ?r)) = [65535, 0, 1, 4]" by code_simp
  show ?thesis
    using reorder_in_order [OF v s r] unfolding q by (intro exI conjI) (rule r, rule q, blast)
qed

end
