(* ===== verification/Ts_Packet_Parser.thy ===== *)
theory Ts_Packet_Parser
  imports Wire_Bytes
begin

unbundle bit_operations_syntax

text \<open>
  \<^verbatim>\<open>protocol/mpegts/MediaTsPacketParser\<close>: framing of 188-byte transport packets in a byte stream that
  arrives in chunks, and the parsing of one packet's header and adaptation field. The two sinks are
  parameters: functions on a sink state that return a status, as the virtual calls do. The array
  \<^verbatim>\<open>m_carry\<close> with its size is the list of retained bytes.
\<close>

section \<open>Data\<close>

record MediaTsPacketView =
  pv_byteOffset :: u64
  pv_pid :: u16
  pv_payloadUnitStart :: bool
  pv_continuityCounter :: u8
  pv_discontinuity :: bool
  pv_pcr27Mhz :: "u64 option"
  pv_payload :: "u8 list"

record MediaTsPacketEvidenceView =
  ev_byteOffset :: u64
  ev_pid :: u16
  ev_payloadUnitStart :: bool
  ev_continuityCounter :: u8
  ev_discontinuity :: bool
  ev_pcr27Mhz :: "u64 option"

record MediaTsPacketPrefixView =
  pre_byteOffset :: u64
  pre_pid :: u16
  pre_payloadUnitStart :: bool
  pre_pesStart :: bool

datatype MediaTsContinuityEventReason = CounterLoss | DiscontinuityIndicator

record MediaTsContinuityEvent =
  ce_byteOffset :: u64
  ce_pid :: u16
  ce_reason :: MediaTsContinuityEventReason

record 's MediaTsPacketSink =
  onPacket :: "'s \<Rightarrow> MediaTsPacketView \<Rightarrow> 's \<times> Status"
  onContinuityEvent :: "'s \<Rightarrow> MediaTsContinuityEvent \<Rightarrow> 's \<times> Status"

record 's MediaTsIncrementalPacketSink =
  onPacketEvidence :: "'s \<Rightarrow> MediaTsPacketEvidenceView \<Rightarrow> 's \<times> Status"
  onPacketPrefix :: "'s \<Rightarrow> MediaTsPacketPrefixView \<Rightarrow> 's \<times> Status"

record ParsedPacketEvidence =
  pe_view :: MediaTsPacketEvidenceView
  pe_hasPayload :: bool
  pe_payloadOffset :: nat
  pe_prefixPublished :: bool

record 's MediaTsPacketParser =
  tp_sink :: 's
  tp_carry :: "u8 list"
  tp_carryOffset :: u64
  tp_nextInputOffset :: u64
  tp_copiedPacketBytes :: u64
  tp_strideLocked :: bool
  tp_finished :: bool
  tp_finishFailure :: "ErrorCode option"
  tp_publishedEvidence :: "ParsedPacketEvidence option"
  tp_continuity :: "u16 \<Rightarrow> u8 option"

definition parser_create :: "nat \<Rightarrow> 's \<Rightarrow> 's MediaTsPacketParser Result" where
  "parser_create packetStride sink =
     (if packetStride \<noteq> 188 then failure Unsupported
      else success \<lparr>tp_sink = sink, tp_carry = [], tp_carryOffset = 0, tp_nextInputOffset = 0,
                    tp_copiedPacketBytes = 0, tp_strideLocked = False, tp_finished = False,
                    tp_finishFailure = None, tp_publishedEvidence = None, tp_continuity = (\<lambda>_. None)\<rparr>)"

section \<open>The adaptation field\<close>

text \<open>\<^verbatim>\<open>parseClock\<close>: the value of a 42-bit clock field and the cursor behind it.\<close>

definition parseClock :: "u8 list \<Rightarrow> nat \<Rightarrow> nat \<Rightarrow> (u64 \<times> nat) Result" where
  "parseClock packet adaptationEnd cursor =
     (if \<not> 6 \<le> adaptationEnd - cursor then failure InvalidArgument
      else if packet ! (cursor + 4) AND 0x7E \<noteq> 0x7E then failure InvalidArgument
      else
        (let base = push_bit 25 (ucast (packet ! cursor)) OR push_bit 17 (ucast (packet ! (cursor + 1))) OR
                    push_bit 9 (ucast (packet ! (cursor + 2))) OR push_bit 1 (ucast (packet ! (cursor + 3))) OR
                    drop_bit 7 (ucast (packet ! (cursor + 4))) :: u64;
             extension = push_bit 8 (ucast (packet ! (cursor + 4) AND 1)) OR ucast (packet ! (cursor + 5)) :: u16
         in if extension > 299 then failure InvalidArgument
            else success (base * 300 + ucast extension, cursor + 6)))"

definition optionalClock :: "bool \<Rightarrow> u8 list \<Rightarrow> nat \<Rightarrow> nat \<Rightarrow> (u64 option \<times> nat) Result" where
  "optionalClock present packet adaptationEnd cursor =
     (if \<not> present then success (None, cursor)
      else case parseClock packet adaptationEnd cursor of
             Inl e \<Rightarrow> failure e
           | Inr (clock, cursor) \<Rightarrow> success (Some clock, cursor))"

definition skipSplice :: "bool \<Rightarrow> nat \<Rightarrow> nat \<Rightarrow> nat Result" where
  "skipSplice present adaptationEnd cursor =
     (if \<not> present then success cursor
      else if \<not> 1 \<le> adaptationEnd - cursor then failure InvalidArgument
      else success (cursor + 1))"

definition skipPrivateData :: "bool \<Rightarrow> u8 list \<Rightarrow> nat \<Rightarrow> nat \<Rightarrow> nat Result" where
  "skipPrivateData present packet adaptationEnd cursor =
     (if \<not> present then success cursor
      else if \<not> 1 \<le> adaptationEnd - cursor then failure InvalidArgument
      else
        (let len = unat (packet ! cursor); cursor = cursor + 1
         in if \<not> len \<le> adaptationEnd - cursor then failure InvalidArgument
            else success (cursor + len)))"

text \<open>One optional field of the adaptation extension.\<close>

definition requireExtension :: "bool \<Rightarrow> nat \<Rightarrow> nat \<Rightarrow> nat Result \<Rightarrow> nat Result" where
  "requireExtension present fieldBytes extensionEnd state =
     (case state of
        Inl e \<Rightarrow> failure e
      | Inr cursor \<Rightarrow>
          (if \<not> present then success cursor
           else if \<not> fieldBytes \<le> extensionEnd - cursor then failure InvalidArgument
           else success (cursor + fieldBytes)))"

definition skipExtension :: "bool \<Rightarrow> u8 list \<Rightarrow> nat \<Rightarrow> nat \<Rightarrow> nat Result" where
  "skipExtension present packet adaptationEnd cursor =
     (if \<not> present then success cursor
      else if \<not> 1 \<le> adaptationEnd - cursor then failure InvalidArgument
      else
        (let extensionLength = unat (packet ! cursor); cursor = cursor + 1
         in if \<not> extensionLength \<le> adaptationEnd - cursor then failure InvalidArgument
            else
              (let extensionEnd = cursor + extensionLength
               in if extensionLength = 0 then success extensionEnd
                  else
                    (let extensionFlags = packet ! cursor; cursor = cursor + 1
                     in case requireExtension (extensionFlags AND 0x20 \<noteq> 0) 5 extensionEnd
                               (requireExtension (extensionFlags AND 0x40 \<noteq> 0) 3 extensionEnd
                                 (requireExtension (extensionFlags AND 0x80 \<noteq> 0) 2 extensionEnd (success cursor))) of
                          Inl e \<Rightarrow> failure e
                        | Inr _ \<Rightarrow> success extensionEnd))))"

text \<open>The whole field: the discontinuity indicator and the PCR.\<close>

definition parseAdaptation :: "u8 list \<Rightarrow> nat \<Rightarrow> (bool \<times> u64 option) Result" where
  "parseAdaptation packet adaptationLength =
     (let flags = packet ! 5; adaptationEnd = 5 + adaptationLength
      in case optionalClock (flags AND 0x10 \<noteq> 0) packet adaptationEnd 6 of
           Inl e \<Rightarrow> failure e
         | Inr (pcr, cursor) \<Rightarrow>
        (case optionalClock (flags AND 0x08 \<noteq> 0) packet adaptationEnd cursor of
           Inl e \<Rightarrow> failure e
         | Inr (_, cursor) \<Rightarrow>
        (case skipSplice (flags AND 0x04 \<noteq> 0) adaptationEnd cursor of
           Inl e \<Rightarrow> failure e
         | Inr cursor \<Rightarrow>
        (case skipPrivateData (flags AND 0x02 \<noteq> 0) packet adaptationEnd cursor of
           Inl e \<Rightarrow> failure e
         | Inr cursor \<Rightarrow>
        (case skipExtension (flags AND 0x01 \<noteq> 0) packet adaptationEnd cursor of
           Inl e \<Rightarrow> failure e
         | Inr cursor \<Rightarrow>
             (if \<exists>i\<in>set [cursor..<adaptationEnd]. packet ! i \<noteq> 0xFF then failure InvalidArgument
              else success (flags AND 0x80 \<noteq> 0, pcr)))))))"

section \<open>One packet\<close>

text \<open>The header fields of a packet of which enough bytes are known.\<close>

record PacketHeader =
  hd_pid :: u16
  hd_payloadUnitStart :: bool
  hd_continuityCounter :: u8
  hd_hasPayload :: bool
  hd_payloadOffset :: nat
  hd_discontinuity :: bool
  hd_pcr :: "u64 option"

datatype HeaderResult = NeedMoreBytes | HeaderInvalid | HeaderParsed PacketHeader

definition parseHeader :: "u8 list \<Rightarrow> HeaderResult" where
  "parseHeader packet =
     (if length packet < 4 then NeedMoreBytes
      else if packet ! 0 \<noteq> 0x47 then HeaderInvalid
      else if packet ! 1 AND 0x80 \<noteq> 0 then HeaderInvalid
      else if packet ! 3 AND 0xC0 \<noteq> 0 then HeaderInvalid
      else
        (let pid = push_bit 8 (ucast (packet ! 1 AND 0x1F)) OR ucast (packet ! 2);
             payloadUnitStart = (packet ! 1 AND 0x40 \<noteq> 0);
             adaptationControl = drop_bit 4 (packet ! 3) AND 0x03;
             continuityCounter = packet ! 3 AND 0x0F;
             hasAdaptation = (adaptationControl AND 0x02 \<noteq> 0);
             hasPayload = (adaptationControl AND 0x01 \<noteq> 0);
             header = \<lparr>hd_pid = pid, hd_payloadUnitStart = payloadUnitStart, hd_continuityCounter = continuityCounter,
                       hd_hasPayload = hasPayload, hd_payloadOffset = 4, hd_discontinuity = False, hd_pcr = None\<rparr>
         in if adaptationControl = 0 then HeaderInvalid
            else if \<not> hasAdaptation then HeaderParsed header
            else if length packet < 5 then NeedMoreBytes
            else
              (let adaptationLength = unat (packet ! 4); payloadOffset = 5 + adaptationLength
               in if adaptationLength > 183 then HeaderInvalid
                  else if \<not> hasPayload \<and> adaptationLength \<noteq> 183 then HeaderInvalid
                  else if hasPayload \<and> payloadOffset \<ge> 188 then HeaderInvalid
                  else if length packet < payloadOffset then NeedMoreBytes
                  else if adaptationLength = 0 then HeaderParsed (header\<lparr>hd_payloadOffset := payloadOffset\<rparr>)
                  else
                    (case parseAdaptation packet adaptationLength of
                       Inl _ \<Rightarrow> HeaderInvalid
                     | Inr (discontinuity, pcr) \<Rightarrow>
                         HeaderParsed (header\<lparr>hd_payloadOffset := payloadOffset, hd_discontinuity := discontinuity,
                                              hd_pcr := pcr\<rparr>)))))"

definition pesStartAt :: "u8 list \<Rightarrow> nat \<Rightarrow> bool" where
  "pesStartAt packet offset \<longleftrightarrow> packet ! offset = 0 \<and> packet ! (offset + 1) = 0 \<and> packet ! (offset + 2) = 1"

text \<open>The continuity check: the events it reports and the counter it forgets.\<close>

definition checkContinuity ::
  "'s MediaTsPacketSink \<Rightarrow> 's MediaTsPacketParser \<Rightarrow> PacketHeader \<Rightarrow> u64 \<Rightarrow> 's MediaTsPacketParser \<times> Status" where
  "checkContinuity sink p h byteOffset =
     (if hd_discontinuity h then
        (let (s, status) = onContinuityEvent sink (tp_sink p)
               \<lparr>ce_byteOffset = byteOffset, ce_pid = hd_pid h, ce_reason = DiscontinuityIndicator\<rparr>
         in (p\<lparr>tp_sink := s\<rparr>, status))
      else
        (case tp_continuity p (hd_pid h) of
           None \<Rightarrow> (p, success ())
         | Some counter \<Rightarrow>
             (if hd_continuityCounter h \<noteq> (if hd_hasPayload h then (counter + 1) AND 0x0F else counter) then
                (let (s, status) = onContinuityEvent sink (tp_sink p)
                       \<lparr>ce_byteOffset = byteOffset, ce_pid = hd_pid h, ce_reason = CounterLoss\<rparr>
                 in (p\<lparr>tp_sink := s, tp_continuity := (tp_continuity p)(hd_pid h := None)\<rparr>, status))
              else (p, success ()))))"

text \<open>Publication to the incremental sink, when there is one.\<close>

definition publishEvidence ::
  "'s MediaTsIncrementalPacketSink option \<Rightarrow> 's MediaTsPacketParser \<Rightarrow> MediaTsPacketEvidenceView \<Rightarrow>
   's MediaTsPacketParser \<times> Status" where
  "publishEvidence inc p view =
     (case inc of
        None \<Rightarrow> (p, success ())
      | Some i \<Rightarrow> (let (s, status) = onPacketEvidence i (tp_sink p) view in (p\<lparr>tp_sink := s\<rparr>, status)))"

definition publishPrefix ::
  "'s MediaTsIncrementalPacketSink option \<Rightarrow> 's MediaTsPacketParser \<Rightarrow> MediaTsPacketPrefixView \<Rightarrow>
   's MediaTsPacketParser \<times> Status" where
  "publishPrefix inc p prefix =
     (case inc of
        None \<Rightarrow> (p, success ())
      | Some i \<Rightarrow> (let (s, status) = onPacketPrefix i (tp_sink p) prefix in (p\<lparr>tp_sink := s\<rparr>, status)))"

definition markPrefixPublished :: "'s MediaTsPacketParser \<Rightarrow> 's MediaTsPacketParser" where
  "markPrefixPublished p =
     p\<lparr>tp_publishedEvidence := map_option (\<lambda>e. e\<lparr>pe_prefixPublished := True\<rparr>) (tp_publishedEvidence p)\<rparr>"

text \<open>The part of \<^verbatim>\<open>publishIncrementalEvidence\<close> after the header is known.\<close>

definition publishParsed ::
  "'s MediaTsPacketSink \<Rightarrow> 's MediaTsIncrementalPacketSink option \<Rightarrow> 's MediaTsPacketParser \<Rightarrow> u8 list \<Rightarrow> u64 \<Rightarrow>
   PacketHeader \<Rightarrow> 's MediaTsPacketParser \<times> Status" where
  "publishParsed sink inc p packet byteOffset h =
     (case checkContinuity sink p h byteOffset of
        (p, Inl e) \<Rightarrow> (p, failure e)
      | (p, Inr _) \<Rightarrow>
          (let view = \<lparr>ev_byteOffset = byteOffset, ev_pid = hd_pid h, ev_payloadUnitStart = hd_payloadUnitStart h,
                       ev_continuityCounter = hd_continuityCounter h, ev_discontinuity = hd_discontinuity h,
                       ev_pcr27Mhz = hd_pcr h\<rparr>
           in case publishEvidence inc p view of
                (p, Inl e) \<Rightarrow> (p, failure e)
              | (p, Inr _) \<Rightarrow>
                  (let p = p\<lparr>tp_continuity := (tp_continuity p)(hd_pid h := Some (hd_continuityCounter h)),
                             tp_publishedEvidence := Some \<lparr>pe_view = view, pe_hasPayload = hd_hasPayload h,
                               pe_payloadOffset = hd_payloadOffset h, pe_prefixPublished = False\<rparr>\<rparr>
                   in if \<not> hd_payloadUnitStart h \<or> \<not> hd_hasPayload h \<or> length packet \<ge> hd_payloadOffset h + 3 then
                        (case publishPrefix inc p
                                \<lparr>pre_byteOffset = byteOffset, pre_pid = hd_pid h,
                                 pre_payloadUnitStart = hd_payloadUnitStart h,
                                 pre_pesStart = (hd_payloadUnitStart h \<and> hd_hasPayload h \<and>
                                                 pesStartAt packet (hd_payloadOffset h))\<rparr> of
                           (p, Inl e) \<Rightarrow> (p, failure e)
                         | (p, Inr _) \<Rightarrow> (markPrefixPublished p, success ()))
                      else (p, success ()))))"

definition publishIncrementalEvidence ::
  "'s MediaTsPacketSink \<Rightarrow> 's MediaTsIncrementalPacketSink option \<Rightarrow> 's MediaTsPacketParser \<Rightarrow> u8 list \<Rightarrow> u64 \<Rightarrow>
   's MediaTsPacketParser \<times> Status" where
  "publishIncrementalEvidence sink inc p packet byteOffset =
     (case tp_publishedEvidence p of
        Some e \<Rightarrow>
          (if ev_byteOffset (pe_view e) = byteOffset then
             (if pe_prefixPublished e then (p, success ())
              else if length packet < pe_payloadOffset e + 3 then (p, success ())
              else
                (case publishPrefix inc p
                        \<lparr>pre_byteOffset = byteOffset, pre_pid = ev_pid (pe_view e),
                         pre_payloadUnitStart = ev_payloadUnitStart (pe_view e),
                         pre_pesStart = pesStartAt packet (pe_payloadOffset e)\<rparr> of
                   (p, Inl e) \<Rightarrow> (p, failure e)
                 | (p, Inr _) \<Rightarrow> (markPrefixPublished p, success ())))
           else
             (case parseHeader packet of
                NeedMoreBytes \<Rightarrow> (p, success ())
              | HeaderInvalid \<Rightarrow> (p, failure InvalidArgument)
              | HeaderParsed h \<Rightarrow> publishParsed sink inc p packet byteOffset h))
      | None \<Rightarrow>
          (case parseHeader packet of
             NeedMoreBytes \<Rightarrow> (p, success ())
           | HeaderInvalid \<Rightarrow> (p, failure InvalidArgument)
           | HeaderParsed h \<Rightarrow> publishParsed sink inc p packet byteOffset h))"

definition parsePacket ::
  "'s MediaTsPacketSink \<Rightarrow> 's MediaTsIncrementalPacketSink option \<Rightarrow> 's MediaTsPacketParser \<Rightarrow> u8 list \<Rightarrow> u64 \<Rightarrow>
   's MediaTsPacketParser \<times> Status" where
  "parsePacket sink inc p packet byteOffset =
     (case publishIncrementalEvidence sink inc p packet byteOffset of
        (p, Inl e) \<Rightarrow> (p, failure e)
      | (p, Inr _) \<Rightarrow>
          (let prefix = the (tp_publishedEvidence p);
               view = pe_view prefix;
               payload = (if pe_hasPayload prefix then drop (pe_payloadOffset prefix) packet else []);
               (s, status) = onPacket sink (tp_sink p)
                 \<lparr>pv_byteOffset = byteOffset, pv_pid = ev_pid view, pv_payloadUnitStart = ev_payloadUnitStart view,
                  pv_continuityCounter = ev_continuityCounter view, pv_discontinuity = ev_discontinuity view,
                  pv_pcr27Mhz = ev_pcr27Mhz view, pv_payload = payload\<rparr>
           in (p\<lparr>tp_sink := s\<rparr>, status)))"

section \<open>Framing\<close>

text \<open>The retained bytes followed by the input not yet consumed.\<close>

definition logical :: "'s MediaTsPacketParser \<Rightarrow> u8 list \<Rightarrow> nat \<Rightarrow> u8 list" where
  "logical p bytes inputIndex = tp_carry p @ drop inputIndex bytes"

definition discardLogicalPrefix :: "nat \<Rightarrow> 's MediaTsPacketParser \<Rightarrow> nat \<Rightarrow> 's MediaTsPacketParser \<times> nat" where
  "discardLogicalPrefix n p inputIndex =
     (if n < length (tp_carry p)
      then (p\<lparr>tp_carry := drop n (tp_carry p), tp_carryOffset := tp_carryOffset p + of_nat n\<rparr>, inputIndex)
      else (p\<lparr>tp_carry := []\<rparr>, inputIndex + (n - length (tp_carry p))))"

definition retainLogicalTail :: "'s MediaTsPacketParser \<Rightarrow> u8 list \<Rightarrow> u64 \<Rightarrow> nat \<Rightarrow> 's MediaTsPacketParser" where
  "retainLogicalTail p bytes inputOffset inputIndex =
     (let stream = logical p bytes inputIndex;
          keep = min 188 (length stream)
      in p\<lparr>tp_carry := drop (length stream - keep) stream,
           tp_carryOffset := inputOffset + of_nat (length bytes) - of_nat keep\<rparr>)"

text \<open>The first index with a sync byte there and one packet later.\<close>

definition acquire :: "u8 list \<Rightarrow> nat option" where
  "acquire stream =
     List.find (\<lambda>i. stream ! i = 0x47 \<and> stream ! (i + 188) = 0x47) [0..<length stream - 188]"

text \<open>The framing part of the parser's state, which parsing a packet leaves alone.\<close>

definition framing :: "'s MediaTsPacketParser \<Rightarrow> u8 list \<times> u64 \<times> u64 \<times> u64 \<times> bool \<times> bool \<times> ErrorCode option" where
  "framing p = (tp_carry p, tp_carryOffset p, tp_nextInputOffset p, tp_copiedPacketBytes p, tp_strideLocked p,
     tp_finished p, tp_finishFailure p)"

lemma framing_update [simp]:
  "framing (p\<lparr>tp_sink := s\<rparr>) = framing p" "framing (p\<lparr>tp_continuity := c\<rparr>) = framing p"
  "framing (p\<lparr>tp_publishedEvidence := e\<rparr>) = framing p" "framing (markPrefixPublished p) = framing p"
  by (simp_all add: framing_def markPrefixPublished_def)

lemma framing_sub:
  "checkContinuity sink p h off = (p', st) \<Longrightarrow> framing p' = framing p"
  "publishEvidence inc p v = (p', st) \<Longrightarrow> framing p' = framing p"
  "publishPrefix inc p w = (p', st) \<Longrightarrow> framing p' = framing p"
  by (auto simp: checkContinuity_def publishEvidence_def publishPrefix_def split: if_splits option.splits prod.splits)

lemma framing_publishParsed: "publishParsed sink inc p packet off h = (p', st) \<Longrightarrow> framing p' = framing p"
  by (auto simp: publishParsed_def Let_def split: prod.splits sum.splits if_splits dest!: framing_sub)

lemma framing_publishIncremental:
  "publishIncrementalEvidence sink inc p packet off = (p', st) \<Longrightarrow> framing p' = framing p"
  by (auto simp: publishIncrementalEvidence_def split: prod.splits sum.splits if_splits option.splits HeaderResult.splits
      dest!: framing_sub framing_publishParsed)

lemma framing_parsePacket: "parsePacket sink inc p packet off = (p', st) \<Longrightarrow> framing p' = framing p"
  by (auto simp: parsePacket_def Let_def split: prod.splits sum.splits dest!: framing_publishIncremental)

lemma parsePacket_fields:
  assumes "parsePacket sink inc p packet off = (p', status)"
  shows "tp_carry p' = tp_carry p" "tp_carryOffset p' = tp_carryOffset p" "tp_nextInputOffset p' = tp_nextInputOffset p"
    "tp_copiedPacketBytes p' = tp_copiedPacketBytes p" "tp_strideLocked p' = tp_strideLocked p"
    "tp_finished p' = tp_finished p" "tp_finishFailure p' = tp_finishFailure p"
  using framing_parsePacket [OF assms] by (simp_all add: framing_def)

lemma logical_discard:
  "discardLogicalPrefix n p i = (p', i') \<Longrightarrow> logical p' bytes i' = drop n (logical p bytes i)"
  by (auto simp: discardLogicalPrefix_def logical_def add.commute split: if_splits)

lemma discard_fields:
  assumes "discardLogicalPrefix n p i = (p', i')"
  shows "tp_strideLocked p' = tp_strideLocked p" "tp_sink p' = tp_sink p" "tp_continuity p' = tp_continuity p"
    "tp_publishedEvidence p' = tp_publishedEvidence p" "tp_nextInputOffset p' = tp_nextInputOffset p"
    "tp_finished p' = tp_finished p" "tp_finishFailure p' = tp_finishFailure p"
  using assms by (auto simp: discardLogicalPrefix_def split: if_splits)

lemma logical_update [simp]:
  "logical (p\<lparr>tp_strideLocked := b\<rparr>) bytes i = logical p bytes i"
  "logical (p\<lparr>tp_copiedPacketBytes := n\<rparr>) bytes i = logical p bytes i"
  by (simp_all add: logical_def)

lemma logical_parsePacket: "parsePacket sink inc p packet off = (p', st) \<Longrightarrow> logical p' bytes i = logical p bytes i"
  by (simp add: logical_def parsePacket_fields)

text \<open>The loop of \<^verbatim>\<open>push\<close> from its head to its return; every round consumes input or locks the stride.\<close>

function parser_loop ::
  "'s MediaTsPacketSink \<Rightarrow> 's MediaTsIncrementalPacketSink option \<Rightarrow> u8 list \<Rightarrow> u64 \<Rightarrow> 's MediaTsPacketParser \<Rightarrow> nat \<Rightarrow>
   's MediaTsPacketParser \<times> Status" where
  "parser_loop sink inc bytes inputOffset p inputIndex =
     (let stream = logical p bytes inputIndex
      in if tp_carry p \<noteq> [] then
           (if tp_strideLocked p then
              (if length stream < 189 then
                 (let p = p\<lparr>tp_carry := stream\<rparr>
                  in if inc \<noteq> None then publishIncrementalEvidence sink inc p (tp_carry p) (tp_carryOffset p)
                     else (p, success ()))
               else if tp_carry p ! 0 \<noteq> 0x47 \<or> stream ! 188 \<noteq> 0x47 then
                 (if inc \<noteq> None \<and> (case tp_publishedEvidence p of None \<Rightarrow> False
                       | Some e \<Rightarrow> ev_byteOffset (pe_view e) = tp_carryOffset p)
                  then (p, failure InvalidArgument)
                  else (case discardLogicalPrefix 1 (p\<lparr>tp_strideLocked := False\<rparr>) inputIndex of
                          (p, inputIndex) \<Rightarrow> parser_loop sink inc bytes inputOffset p inputIndex))
               else
                 (case parsePacket sink inc (p\<lparr>tp_copiedPacketBytes := tp_copiedPacketBytes p + 188\<rparr>)
                         (take 188 stream) (tp_carryOffset p) of
                    (p, status) \<Rightarrow>
                      (case discardLogicalPrefix 188 p inputIndex of
                         (p, inputIndex) \<Rightarrow>
                           (if isl status then (p, status)
                            else parser_loop sink inc bytes inputOffset p inputIndex))))
            else
              (case acquire stream of
                 None \<Rightarrow> (retainLogicalTail p bytes inputOffset inputIndex, success ())
               | Some index \<Rightarrow>
                   (case discardLogicalPrefix index p inputIndex of
                      (p, inputIndex) \<Rightarrow>
                        parser_loop sink inc bytes inputOffset (p\<lparr>tp_strideLocked := True\<rparr>) inputIndex)))
         else
           (let remaining = drop inputIndex bytes
            in if tp_strideLocked p then
                 (if length remaining < 189 then
                    (let p = p\<lparr>tp_carry := remaining, tp_carryOffset := inputOffset + of_nat inputIndex\<rparr>
                     in if inc \<noteq> None then publishIncrementalEvidence sink inc p (tp_carry p) (tp_carryOffset p)
                        else (p, success ()))
                  else if remaining ! 0 \<noteq> 0x47 \<or> remaining ! 188 \<noteq> 0x47 then
                    parser_loop sink inc bytes inputOffset (p\<lparr>tp_strideLocked := False\<rparr>) (inputIndex + 1)
                  else
                    (case parsePacket sink inc p (take 188 remaining) (inputOffset + of_nat inputIndex) of
                       (p, status) \<Rightarrow>
                         (if isl status then (p, status)
                          else parser_loop sink inc bytes inputOffset p (inputIndex + 188))))
               else
                 (case acquire remaining of
                    None \<Rightarrow> (retainLogicalTail p bytes inputOffset inputIndex, success ())
                  | Some index \<Rightarrow>
                      parser_loop sink inc bytes inputOffset (p\<lparr>tp_strideLocked := True\<rparr>) (inputIndex + index))))"
  by pat_completeness auto

termination
proof (relation "measures [\<lambda>(_, _, bytes, _, p, i). length (logical p bytes i), \<lambda>(_, _, _, _, p, _). if tp_strideLocked p then 0 else 1]",
    goal_cases)
  case 1
  then show ?case by simp
next
  case (2 sink inc bytes inputOffset p inputIndex x p' i')
  then have "logical p' bytes i' = drop 1 (logical p bytes inputIndex)"
    using logical_discard [of 1 "p\<lparr>tp_strideLocked := False\<rparr>" inputIndex p' i' bytes] by simp
  moreover have "189 \<le> length (logical p bytes inputIndex)" using 2 by simp
  ultimately have "length (logical p' bytes i') < length (logical p bytes inputIndex)" by auto
  then show ?case by simp
next
  case (3 sink inc bytes inputOffset p inputIndex x p1 st p' i')
  then have "parsePacket sink inc (p\<lparr>tp_copiedPacketBytes := tp_copiedPacketBytes p + 188\<rparr>) (take 188 (logical p bytes inputIndex)) (tp_carryOffset p) = (p1, st)"
    by simp
  note L = logical_parsePacket [OF this, of bytes inputIndex]
  have "logical p' bytes i' = drop 188 (logical p1 bytes inputIndex)"
    using 3 logical_discard [of 188 p1 inputIndex p' i' bytes] by simp
  moreover have "189 \<le> length (logical p bytes inputIndex)" using 3 by simp
  ultimately have "length (logical p' bytes i') < length (logical p bytes inputIndex)" using L by auto
  then show ?case by simp
next
  case (4 sink inc bytes inputOffset p inputIndex x index p' i')
  then have "logical p' bytes i' = drop index (logical p bytes inputIndex)"
    using logical_discard [of index p inputIndex p' i' bytes] by simp
  moreover have "\<not> tp_strideLocked p" "acquire (logical p bytes inputIndex) = Some index" using 4 by simp_all
  moreover have "index < length (logical p bytes inputIndex)" if "index \<noteq> 0"
    using calculation(3) by (auto simp: acquire_def find_Some_iff)
  ultimately show ?case by (cases "index = 0") auto
next
  case (5 sink inc bytes inputOffset p inputIndex x xa)
  then show ?case by (auto simp: logical_def)
next
  case (6 sink inc bytes inputOffset p inputIndex x xa p' st)
  then have "parsePacket sink inc p (take 188 (drop inputIndex bytes)) (inputOffset + of_nat inputIndex) = (p', st)" by simp
  note L = logical_parsePacket [OF this] and P = parsePacket_fields [OF this]
  have "length (drop (inputIndex + 188) bytes) < length (drop inputIndex bytes)" using 6 by auto
  then show ?case using 6 P by (simp add: logical_def)
next
  case (7 sink inc bytes inputOffset p inputIndex x xa index)
  then show ?case by (cases "index = 0") (auto simp: logical_def)
qed

declare parser_loop.simps [simp del]

definition parser_push ::
  "'s MediaTsPacketSink \<Rightarrow> 's MediaTsIncrementalPacketSink option \<Rightarrow> 's MediaTsPacketParser \<Rightarrow> u8 list \<Rightarrow>
   's MediaTsPacketParser \<times> Status" where
  "parser_push sink inc p bytes =
     (if tp_finished p then (p, failure InvalidArgument)
      else if length bytes > 18446744073709551615 - unat (tp_nextInputOffset p) then (p, failure InvalidArgument)
      else parser_loop sink inc bytes (tp_nextInputOffset p)
             (p\<lparr>tp_nextInputOffset := tp_nextInputOffset p + of_nat (length bytes)\<rparr>) 0)"

definition parser_finish ::
  "'s MediaTsPacketSink \<Rightarrow> 's MediaTsIncrementalPacketSink option \<Rightarrow> 's MediaTsPacketParser \<Rightarrow> 's MediaTsPacketParser \<times> Status" where
  "parser_finish sink inc p =
     (case tp_finishFailure p of
        Some e \<Rightarrow> (p, failure e)
      | None \<Rightarrow>
          (if tp_finished p then (p, success ())
           else
             (let p = p\<lparr>tp_finished := True\<rparr>
              in if tp_carry p = [] then (p, success ())
                 else if length (tp_carry p) \<noteq> 188 \<or> tp_carry p ! 0 \<noteq> 0x47 then
                   (p\<lparr>tp_finishFailure := Some InvalidArgument\<rparr>, failure InvalidArgument)
                 else
                   (case parsePacket sink inc p (tp_carry p) (tp_carryOffset p) of
                      (p, Inl e) \<Rightarrow> (p\<lparr>tp_finishFailure := Some e\<rparr>, failure e)
                    | (p, Inr _) \<Rightarrow> (p\<lparr>tp_carry := [], tp_publishedEvidence := None\<rparr>, success ())))))"

end
