(* ===== verification/Ts_Framing.thy ===== *)
theory Ts_Framing
  imports Ts_Packet_Parser
begin

text \<open>
  The framing of the transport packet parser against a specification on the whole byte stream. The
  specification scans a stream for packets; it composes under concatenation, and the parser's loop
  implements it, so how the stream is cut into chunks does not matter.
\<close>

section \<open>The stream specification\<close>

text \<open>The packets of a stream with their offsets, the lock, and the bytes left over with their offset.\<close>

function frames :: "bool \<Rightarrow> u8 list \<Rightarrow> u64 \<Rightarrow> (u64 \<times> u8 list) list \<times> bool \<times> u8 list \<times> u64" where
  "frames locked stream off =
     (if locked then
        (if length stream < 189 then ([], True, stream, off)
         else if stream ! 0 \<noteq> 0x47 \<or> stream ! 188 \<noteq> 0x47 then frames False (drop 1 stream) (off + 1)
         else (case frames True (drop 188 stream) (off + 188) of
                 (fs, rest) \<Rightarrow> ((off, take 188 stream) # fs, rest)))
      else
        (case acquire stream of
           None \<Rightarrow> ([], False, drop (length stream - 188) stream, off + of_nat (length stream - 188))
         | Some i \<Rightarrow> frames True (drop i stream) (off + of_nat i)))"
  by pat_completeness auto
termination
proof (relation "measures [\<lambda>(_, xs, _). length xs, \<lambda>(l, _, _). if l then 0 else 1]", goal_cases)
  case (4 locked stream off i)
  then have "i < length stream \<or> i = 0" by (auto simp: acquire_def find_Some_iff)
  then show ?case using 4 by (cases "i = 0") auto
qed auto

declare frames.simps [simp del]

lemma acquire_None: "acquire xs = None \<longleftrightarrow> (\<forall>i. i + 188 < length xs \<longrightarrow> \<not> (xs ! i = 0x47 \<and> xs ! (i + 188) = 0x47))"
  by (auto simp: acquire_def find_None_iff)

lemma find_upt_Some:
  "List.find P [0..<n] = Some i \<longleftrightarrow> i < n \<and> P i \<and> (\<forall>j<i. \<not> P j)"
  by (auto simp: find_Some_iff)

lemma acquire_Some:
  "acquire xs = Some i \<longleftrightarrow> i + 188 < length xs \<and> xs ! i = 0x47 \<and> xs ! (i + 188) = 0x47 \<and>
     (\<forall>j<i. \<not> (xs ! j = 0x47 \<and> xs ! (j + 188) = 0x47))"
  by (auto simp: acquire_def find_upt_Some)

lemma acquire_append: "acquire xs = Some i \<Longrightarrow> acquire (xs @ ys) = Some i"
  by (auto simp: acquire_Some nth_append)

lemma acquire_suffix:
  assumes "acquire xs = None"
  shows "acquire (xs @ ys) = map_option (\<lambda>i. i + (length xs - 188)) (acquire (drop (length xs - 188) xs @ ys))"
proof -
  let ?k = "length xs - 188" and ?zs = "drop (length xs - 188) xs @ ys"
  have suf: "?zs = drop ?k (xs @ ys)" by simp
  have nth: "?zs ! i = (xs @ ys) ! (i + ?k)" if "i < length ?zs" for i
    unfolding suf using that by (subst nth_drop) (auto simp: add.commute)
  have early: "\<not> ((xs @ ys) ! j = 0x47 \<and> (xs @ ys) ! (j + 188) = 0x47)" if "j < ?k" for j
    using assms that by (auto simp: acquire_None nth_append)
  show ?thesis
  proof (cases "acquire ?zs")
    case None
    have "\<not> ((xs @ ys) ! j = 0x47 \<and> (xs @ ys) ! (j + 188) = 0x47)" if j: "j + 188 < length (xs @ ys)" for j
    proof (cases "j < ?k")
      case False
      then obtain i where i: "j = i + ?k" using le_Suc_ex by (metis add.commute not_less)
      then have "i + 188 < length ?zs" using j by auto
      moreover from this have "\<not> (?zs ! i = 0x47 \<and> ?zs ! (i + 188) = 0x47)" using None by (simp add: acquire_None)
      ultimately show ?thesis using nth [of i] nth [of "i + 188"] i by (simp add: ac_simps)
    qed (use early in blast)
    then have "acquire (xs @ ys) = None" by (simp add: acquire_None)
    then show ?thesis using None by simp
  next
    case (Some i)
    note S = Some [unfolded acquire_Some]
    have len: "length ?zs = length (xs @ ys) - ?k" by simp
    have "acquire (xs @ ys) = Some (i + ?k)"
      unfolding acquire_Some
    proof (intro conjI allI impI)
      show "i + ?k + 188 < length (xs @ ys)" using S len by auto
      show "(xs @ ys) ! (i + ?k) = 0x47" using S nth [of i] by simp
      show "(xs @ ys) ! (i + ?k + 188) = 0x47" using S nth [of "i + 188"] by (simp add: ac_simps)
      fix j assume j: "j < i + ?k"
      show "\<not> ((xs @ ys) ! j = 0x47 \<and> (xs @ ys) ! (j + 188) = 0x47)"
      proof (cases "j < ?k")
        case False
        then obtain m where m: "j = m + ?k" using le_Suc_ex by (metis add.commute not_less)
        then have "m < i" using j by simp
        moreover from this have "m + 188 < length ?zs" "\<not> (?zs ! m = 0x47 \<and> ?zs ! (m + 188) = 0x47)" using S by auto
        ultimately show ?thesis using nth [of m] nth [of "m + 188"] m by (simp add: ac_simps)
      qed (use early in blast)
    qed
    then show ?thesis using Some by simp
  qed
qed

text \<open>Scanning composes under concatenation.\<close>

definition frames_then ::
  "(u64 \<times> u8 list) list \<times> bool \<times> u8 list \<times> u64 \<Rightarrow> u8 list \<Rightarrow> (u64 \<times> u8 list) list \<times> bool \<times> u8 list \<times> u64" where
  "frames_then r ys =
     (case r of (fs, l, rest, off) \<Rightarrow> (case frames l (rest @ ys) off of (gs, rest') \<Rightarrow> (fs @ gs, rest')))"

lemma frames_append: "frames l (xs @ ys) off = frames_then (frames l xs off) ys"
proof (induction l xs off rule: frames.induct)
  case (1 l xs off)
  show ?case
  proof (cases l)
    case locked: True
    show ?thesis
    proof (cases "length xs < 189")
      case True
      then show ?thesis using locked
        by (subst (2) frames.simps) (simp add: frames_then_def split: prod.splits)
    next
      case False
      then have n: "(xs @ ys) ! 0 = xs ! 0" "(xs @ ys) ! 188 = xs ! 188" "take 188 (xs @ ys) = take 188 xs"
          "drop 188 (xs @ ys) = drop 188 xs @ ys" "drop 1 (xs @ ys) = drop 1 xs @ ys" "\<not> length (xs @ ys) < 189"
        by (auto simp: nth_append)
      show ?thesis
      proof (cases "xs ! 0 \<noteq> 0x47 \<or> xs ! 188 \<noteq> 0x47")
        case True
        then have "frames l xs off = frames False (drop 1 xs) (off + 1)"
          using locked False by (subst frames.simps) simp
        moreover have "frames l (xs @ ys) off = frames False (drop 1 xs @ ys) (off + 1)"
          using locked n True by (subst frames.simps) simp
        ultimately show ?thesis using 1(1) [OF locked False True] by simp
      next
        case sync: False
        have "frames l xs off = (case frames True (drop 188 xs) (off + 188) of (fs, rest) \<Rightarrow> ((off, take 188 xs) # fs, rest))"
          using locked False sync by (subst frames.simps) simp
        moreover have "frames l (xs @ ys) off =
            (case frames True (drop 188 xs @ ys) (off + 188) of (fs, rest) \<Rightarrow> ((off, take 188 xs) # fs, rest))"
          using locked n sync False by (subst frames.simps) simp
        ultimately show ?thesis using 1(2) [OF locked False sync]
          by (simp add: frames_then_def split: prod.splits)
      qed
    qed
  next
    case unlocked: False
    show ?thesis
    proof (cases "acquire xs")
      case None
      have left: "frames l xs off = ([], False, drop (length xs - 188) xs, off + of_nat (length xs - 188))"
        using unlocked None by (subst frames.simps) simp
      let ?zs = "drop (length xs - 188) xs @ ys"
      have "frames False (xs @ ys) off = frames False ?zs (off + of_nat (length xs - 188))"
      proof (cases "acquire ?zs")
        case None': None
        then have a: "acquire (xs @ ys) = None" using acquire_suffix [OF None, of ys] by simp
        have e: "length (xs @ ys) - 188 = (length xs - 188) + (length ?zs - 188)" by (cases "188 \<le> length xs") simp_all
        have "drop (length (xs @ ys) - 188) (xs @ ys) = drop (length ?zs - 188) (drop (length xs - 188) (xs @ ys))"
          unfolding e drop_drop by (simp add: add.commute)
        then have "drop (length (xs @ ys) - 188) (xs @ ys) = drop (length ?zs - 188) ?zs"
          "of_nat (length (xs @ ys) - 188) = (of_nat (length xs - 188) + of_nat (length ?zs - 188) :: u64)"
          unfolding e by simp_all
        then show ?thesis using a None' by (subst (1 2) frames.simps) (simp add: add.assoc)
      next
        case (Some i)
        then have a: "acquire (xs @ ys) = Some (i + (length xs - 188))" using acquire_suffix [OF None, of ys] by simp
        have "drop (i + (length xs - 188)) (xs @ ys) = drop i ?zs" by (simp add: add.commute)
        then show ?thesis using a Some
          by (subst (1 2) frames.simps) (simp add: ac_simps)
      qed
      then show ?thesis using left unlocked by (simp add: frames_then_def split: prod.splits)
    next
      case (Some i)
      then have "drop i (xs @ ys) = drop i xs @ ys" by (auto simp: acquire_Some)
      then show ?thesis
        using 1(3) [OF unlocked Some] unlocked Some acquire_append [OF Some, of ys]
        by (subst frames.simps, subst frames.simps [of l xs]) simp
    qed
  qed
qed

section \<open>Parsing does not depend on the framing\<close>

definition bare :: "'s MediaTsPacketParser \<Rightarrow> 's MediaTsPacketParser" where
  "bare p = p\<lparr>tp_carry := [], tp_carryOffset := 0, tp_nextInputOffset := 0, tp_copiedPacketBytes := 0,
               tp_strideLocked := False, tp_finished := False, tp_finishFailure := None\<rparr>"

lemma bare_fields [simp]:
  "tp_sink (bare p) = tp_sink p" "tp_continuity (bare p) = tp_continuity p"
  "tp_publishedEvidence (bare p) = tp_publishedEvidence p"
  "bare (bare p) = bare p"
  by (simp_all add: bare_def)

lemma bare_update:
  "bare (p\<lparr>tp_sink := s\<rparr>) = (bare p)\<lparr>tp_sink := s\<rparr>" "bare (p\<lparr>tp_continuity := c\<rparr>) = (bare p)\<lparr>tp_continuity := c\<rparr>"
  "bare (p\<lparr>tp_publishedEvidence := e\<rparr>) = (bare p)\<lparr>tp_publishedEvidence := e\<rparr>"
  "bare (markPrefixPublished p) = markPrefixPublished (bare p)"
  by (simp_all add: bare_def markPrefixPublished_def)

lemma bare_framing_update [simp]:
  "bare (p\<lparr>tp_carry := x\<rparr>) = bare p" "bare (p\<lparr>tp_carryOffset := y\<rparr>) = bare p" "bare (p\<lparr>tp_nextInputOffset := y\<rparr>) = bare p"
  "bare (p\<lparr>tp_copiedPacketBytes := y\<rparr>) = bare p" "bare (p\<lparr>tp_strideLocked := z\<rparr>) = bare p"
  "bare (p\<lparr>tp_finished := z\<rparr>) = bare p" "bare (p\<lparr>tp_finishFailure := w\<rparr>) = bare p"
  by (simp_all add: bare_def)

lemma bare_checkContinuity: "checkContinuity sink (bare p) h off = apfst bare (checkContinuity sink p h off)"
  by (simp add: checkContinuity_def bare_update Let_def split: option.split prod.split)

lemma bare_publishParsed: "publishParsed sink None (bare p) packet off h = apfst bare (publishParsed sink None p packet off h)"
  by (simp add: publishParsed_def bare_checkContinuity publishEvidence_def publishPrefix_def bare_update Let_def
      split: prod.split sum.split)

lemma bare_publishIncremental:
  "publishIncrementalEvidence sink None (bare p) packet off = apfst bare (publishIncrementalEvidence sink None p packet off)"
  by (simp add: publishIncrementalEvidence_def bare_publishParsed publishPrefix_def bare_update
      split: option.split HeaderResult.split)

lemma bare_parsePacket: "parsePacket sink None (bare p) packet off = apfst bare (parsePacket sink None p packet off)"
  by (simp add: parsePacket_def bare_publishIncremental bare_update Let_def split: prod.split sum.split)

lemma bare_parsePacket_cong:
  "bare p = bare q \<Longrightarrow> apfst bare (parsePacket sink None p packet off) = apfst bare (parsePacket sink None q packet off)"
  using bare_parsePacket [of sink p packet off] bare_parsePacket [of sink q packet off] by simp

section \<open>The loop implements the specification\<close>

text \<open>Handing the packets of a stream to the parser one by one, up to the first failure.\<close>

fun feed :: "'s MediaTsPacketSink \<Rightarrow> 's MediaTsPacketParser \<Rightarrow> (u64 \<times> u8 list) list \<Rightarrow> 's MediaTsPacketParser \<times> Status" where
  "feed sink p [] = (p, success ())"
| "feed sink p ((off, packet) # fs) =
     (case parsePacket sink None p packet off of
        (p, Inl e) \<Rightarrow> (p, failure e)
      | (p, Inr _) \<Rightarrow> feed sink p fs)"

lemma feed_append:
  "feed sink p (fs @ gs) = (case feed sink p fs of (q, Inl e) \<Rightarrow> (q, failure e) | (q, Inr _) \<Rightarrow> feed sink q gs)"
  by (induction sink p fs rule: feed.induct) (auto split: prod.split sum.split)

definition aligned :: "'s MediaTsPacketParser \<Rightarrow> u8 list \<Rightarrow> nat \<Rightarrow> u64 \<Rightarrow> u64 \<Rightarrow> bool" where
  "aligned p bytes i inputOffset off \<longleftrightarrow>
     i \<le> length bytes \<and> off = inputOffset + of_nat i - of_nat (length (tp_carry p)) \<and>
     (tp_carry p \<noteq> [] \<longrightarrow> tp_carryOffset p = off)"

lemma aligned_discard:
  assumes "aligned p bytes i io off" and "n \<le> length (logical p bytes i)" and "discardLogicalPrefix n p i = (p', i')"
  shows "aligned p' bytes i' io (off + of_nat n)"
  using assms
  by (auto simp: aligned_def discardLogicalPrefix_def logical_def of_nat_diff algebra_simps split: if_splits)

lemma aligned_cong:
  "tp_carry p' = tp_carry p \<Longrightarrow> tp_carryOffset p' = tp_carryOffset p \<Longrightarrow> aligned p' bytes i io off = aligned p bytes i io off"
  by (simp add: aligned_def)

definition ends ::
  "'s MediaTsPacketParser \<Rightarrow> 's MediaTsPacketParser \<times> Status \<Rightarrow> bool \<Rightarrow> u8 list \<Rightarrow> u64 \<Rightarrow>
   's MediaTsPacketParser \<times> Status \<Rightarrow> bool" where
  "ends p want l rest off got \<longleftrightarrow>
     (case want of
        (c, Inl e) \<Rightarrow> snd got = Inl e
      | (c, Inr _) \<Rightarrow> snd got = Inr () \<and> bare (fst got) = c \<and> tp_strideLocked (fst got) = l \<and>
          tp_carry (fst got) = rest \<and> (rest \<noteq> [] \<longrightarrow> tp_carryOffset (fst got) = off) \<and>
          tp_nextInputOffset (fst got) = tp_nextInputOffset p \<and> tp_finished (fst got) = tp_finished p \<and>
          tp_finishFailure (fst got) = tp_finishFailure p)"

text \<open>What a round of the loop leaves: \<open>n\<close> bytes consumed and the lock \<open>l\<close>.\<close>

definition moved ::
  "u8 list \<Rightarrow> u64 \<Rightarrow> u64 \<Rightarrow> nat \<Rightarrow> bool \<Rightarrow> 's MediaTsPacketParser \<Rightarrow> nat \<Rightarrow> 's MediaTsPacketParser \<Rightarrow> nat \<Rightarrow> bool" where
  "moved bytes io off n l p i p' i' \<longleftrightarrow>
     aligned p' bytes i' io (off + of_nat n) \<and> logical p' bytes i' = drop n (logical p bytes i) \<and> tp_strideLocked p' = l \<and>
     tp_nextInputOffset p' = tp_nextInputOffset p \<and> tp_finished p' = tp_finished p \<and> tp_finishFailure p' = tp_finishFailure p"

lemma ends_moved: "moved bytes io off n l p i p' i' \<Longrightarrow> ends p' want lk rest off' got = ends p want lk rest off' got"
  by (simp add: moved_def ends_def split: prod.split sum.split)

lemma bare_discard: "discardLogicalPrefix n p i = (p', i') \<Longrightarrow> bare p' = bare p"
  by (auto simp: discardLogicalPrefix_def split: if_splits)

lemma moved_discard:
  assumes "aligned p bytes i io off" and "n \<le> length (logical p bytes i)" and "discardLogicalPrefix n p i = (p', i')"
    and "tp_strideLocked p = l"
  shows "moved bytes io off n l p i p' i'"
  using aligned_discard [OF assms(1-3)] logical_discard [OF assms(3), of bytes] discard_fields [OF assms(3)] assms(4)
  by (simp add: moved_def)

lemma moved_input:
  assumes "aligned p bytes i io off" and "tp_carry p = []" and "i + n \<le> length bytes"
    and "tp_carry p' = []" and "tp_strideLocked p' = l" and "tp_nextInputOffset p' = tp_nextInputOffset p"
    and "tp_finished p' = tp_finished p" and "tp_finishFailure p' = tp_finishFailure p"
  shows "moved bytes io off n l p i p' (i + n)"
  using assms by (simp add: moved_def aligned_def logical_def add.commute add.left_commute)

lemma loop_short:
  assumes "aligned p bytes i io off" and "tp_strideLocked p" and "length (logical p bytes i) < 189"
  shows "ends p (bare p, success ()) True (logical p bytes i) off (parser_loop sink None bytes io p i)"
proof (cases "tp_carry p = []")
  case True
  then show ?thesis using assms
    by (subst parser_loop.simps) (simp add: ends_def logical_def aligned_def Let_def)
next
  case False
  then show ?thesis using assms
    by (subst parser_loop.simps) (simp add: ends_def logical_def aligned_def Let_def)
qed

text \<open>Whether the packet at an offset has been announced to the incremental sink.\<close>

definition published_at :: "u64 \<Rightarrow> 's MediaTsPacketParser \<Rightarrow> bool" where
  "published_at off p \<longleftrightarrow> (case tp_publishedEvidence p of None \<Rightarrow> False | Some e \<Rightarrow> ev_byteOffset (pe_view e) = off)"

lemma loop_unlock:
  assumes "aligned p bytes i io off" and "tp_strideLocked p" and "\<not> length (logical p bytes i) < 189"
    and "logical p bytes i ! 0 \<noteq> 0x47 \<or> logical p bytes i ! 188 \<noteq> 0x47"
  obtains p' i' where "\<forall>sink inc. inc = None \<or> \<not> published_at off p \<longrightarrow> parser_loop sink inc bytes io p i = parser_loop sink inc bytes io p' i'"
    and "moved bytes io off 1 False p i p' i'" and "bare p' = bare p"
proof (cases "tp_carry p = []")
  case True
  then have "\<forall>sink inc. parser_loop sink inc bytes io p i = parser_loop sink inc bytes io (p\<lparr>tp_strideLocked := False\<rparr>) (i + 1)"
    using assms by (intro allI, subst parser_loop.simps) (simp add: logical_def Let_def)
  moreover have "moved bytes io off 1 False p i (p\<lparr>tp_strideLocked := False\<rparr>) (i + 1)"
    using assms True by (intro moved_input) (auto simp: logical_def)
  moreover have "bare (p\<lparr>tp_strideLocked := False\<rparr>) = bare p" by simp
  ultimately show ?thesis using that by blast
next
  case False
  obtain p' i' where d: "discardLogicalPrefix 1 (p\<lparr>tp_strideLocked := False\<rparr>) i = (p', i')" by fastforce
  have "logical p bytes i ! 0 = tp_carry p ! 0" "tp_carryOffset p = off" using assms(1) False by (simp_all add: logical_def nth_append aligned_def)
  then have "parser_loop sink inc bytes io p i = parser_loop sink inc bytes io p' i'" if "inc = None \<or> \<not> published_at off p" for sink inc
    using assms False d that by (subst parser_loop.simps) (auto simp: Let_def published_at_def)
  moreover have "moved bytes io off 1 False (p\<lparr>tp_strideLocked := False\<rparr>) i p' i'"
    using assms by (intro moved_discard [OF _ _ d]) (auto simp: aligned_def)
  then have "moved bytes io off 1 False p i p' i'" by (simp add: moved_def)
  moreover have "bare p' = bare p" using bare_discard [OF d] by simp
  ultimately show ?thesis using that by blast
qed

lemma loop_acquire:
  assumes "aligned p bytes i io off" and "\<not> tp_strideLocked p" and "acquire (logical p bytes i) = Some n"
  obtains p' i' where "\<forall>sink inc. parser_loop sink inc bytes io p i = parser_loop sink inc bytes io p' i'"
    and "moved bytes io off n True p i p' i'" and "bare p' = bare p"
proof (cases "tp_carry p = []")
  case True
  then have "\<forall>sink inc. parser_loop sink inc bytes io p i = parser_loop sink inc bytes io (p\<lparr>tp_strideLocked := True\<rparr>) (i + n)"
    using assms by (intro allI, subst parser_loop.simps) (simp add: logical_def Let_def)
  moreover have "moved bytes io off n True p i (p\<lparr>tp_strideLocked := True\<rparr>) (i + n)"
    using assms True by (intro moved_input) (auto simp: logical_def acquire_Some)
  moreover have "bare (p\<lparr>tp_strideLocked := True\<rparr>) = bare p" by simp
  ultimately show ?thesis using that by blast
next
  case False
  obtain p' i' where d: "discardLogicalPrefix n p i = (p', i')" by fastforce
  have "\<forall>sink inc. parser_loop sink inc bytes io p i = parser_loop sink inc bytes io (p'\<lparr>tp_strideLocked := True\<rparr>) i'"
    using assms False d by (intro allI, subst parser_loop.simps) (simp add: Let_def)
  moreover have "moved bytes io off n False p i p' i'"
    using assms by (intro moved_discard [OF _ _ d]) (auto simp: acquire_Some)
  then have "moved bytes io off n True p i (p'\<lparr>tp_strideLocked := True\<rparr>) i'" by (simp add: moved_def aligned_def)
  moreover have "bare (p'\<lparr>tp_strideLocked := True\<rparr>) = bare p" using bare_discard [OF d] by simp
  ultimately show ?thesis using that by blast
qed

lemma loop_seek:
  assumes "aligned p bytes i io off" and "\<not> tp_strideLocked p" and "acquire (logical p bytes i) = None"
  shows "ends p (bare p, success ()) False (drop (length (logical p bytes i) - 188) (logical p bytes i))
           (off + of_nat (length (logical p bytes i) - 188)) (parser_loop sink None bytes io p i)"
proof -
  have "parser_loop sink None bytes io p i = (retainLogicalTail p bytes io i, success ())"
    using assms by (subst parser_loop.simps) (auto simp: logical_def Let_def)
  moreover have "length (logical p bytes i) - min 188 (length (logical p bytes i)) = length (logical p bytes i) - 188"
    by simp
  moreover have "io + of_nat (length bytes) - of_nat (min 188 (length (logical p bytes i))) =
      off + of_nat (length (logical p bytes i) - 188)"
    using assms(1) by (auto simp: aligned_def logical_def min_def of_nat_diff)
  ultimately show ?thesis
    using assms(2) by (simp add: ends_def retainLogicalTail_def Let_def)
qed

lemma loop_packet:
  assumes "aligned p bytes i io off" and "tp_strideLocked p" and "\<not> length (logical p bytes i) < 189"
    and "logical p bytes i ! 0 = 0x47" and "logical p bytes i ! 188 = 0x47"
    and "parsePacket sink None (bare p) (take 188 (logical p bytes i)) off = (c, st)"
  shows "case st of
     Inl e \<Rightarrow> snd (parser_loop sink None bytes io p i) = Inl e
   | Inr _ \<Rightarrow> \<exists>p' i'. parser_loop sink None bytes io p i = parser_loop sink None bytes io p' i' \<and>
                moved bytes io off 188 True p i p' i' \<and> bare p' = c"
proof (cases "tp_carry p = []")
  case True
  obtain q where q: "parsePacket sink None p (take 188 (logical p bytes i)) off = (q, st)" "bare q = c"
    using assms(6) bare_parsePacket [of sink p "take 188 (logical p bytes i)" off] by (cases "parsePacket sink None p (take 188 (logical p bytes i)) off") auto
  have o: "off = io + of_nat i" "logical p bytes i = drop i bytes" using assms(1) True by (simp_all add: aligned_def logical_def)
  have eq: "parser_loop sink None bytes io p i =
      (if isl st then (q, st) else parser_loop sink None bytes io q (i + 188))"
    using assms True q(1) o by (subst parser_loop.simps) (simp add: Let_def)
  have "moved bytes io off 188 True p i q (i + 188)"
    using assms True o parsePacket_fields [OF q(1)] by (intro moved_input) auto
  then show ?thesis using eq q(2) by (auto split: sum.split)
next
  case False
  let ?p = "p\<lparr>tp_copiedPacketBytes := tp_copiedPacketBytes p + 188\<rparr>"
  obtain q where q: "parsePacket sink None ?p (take 188 (logical p bytes i)) off = (q, st)" "bare q = c"
    using assms(6) bare_parsePacket [of sink ?p "take 188 (logical p bytes i)" off]
    by (cases "parsePacket sink None ?p (take 188 (logical p bytes i)) off") auto
  obtain p' i' where d: "discardLogicalPrefix 188 q i = (p', i')" by fastforce
  have o: "tp_carryOffset p = off" "logical p bytes i ! 0 = tp_carry p ! 0"
    using assms(1) False by (simp_all add: aligned_def logical_def nth_append)
  have eq: "parser_loop sink None bytes io p i = (if isl st then (p', st) else parser_loop sink None bytes io p' i')"
    using assms False q(1) o d by (subst parser_loop.simps) (simp add: Let_def)
  note P = parsePacket_fields [OF q(1)] and L = logical_parsePacket [OF q(1), of bytes i]
  have "moved bytes io off 188 True q i p' i'"
    using assms P L by (intro moved_discard [OF _ _ d]) (auto simp: aligned_def)
  then have "moved bytes io off 188 True p i p' i'" using P L by (simp add: moved_def)
  then show ?thesis using eq q(2) bare_discard [OF d] by (auto split: sum.split)
qed

lemma loop_refines:
  assumes "aligned p bytes i io off" and "frames (tp_strideLocked p) (logical p bytes i) off = (fs, l', rest, off')"
  shows "ends p (feed sink (bare p) fs) l' rest off' (parser_loop sink None bytes io p i)"
  using assms
proof (induction "tp_strideLocked p" "logical p bytes i" off arbitrary: p i fs rule: frames.induct)
  case (1 off p i)
  show ?case
  proof (cases "tp_strideLocked p")
    case locked: True
    show ?thesis
    proof (cases "length (logical p bytes i) < 189")
      case True
      then have "fs = []" "l' = True" "rest = logical p bytes i" "off' = off"
        using 1(5) locked by (simp_all add: frames.simps)
      then show ?thesis using loop_short [OF 1(4) locked True] by simp
    next
      case long: False
      show ?thesis
      proof (cases "logical p bytes i ! 0 \<noteq> 0x47 \<or> logical p bytes i ! 188 \<noteq> 0x47")
        case True
        obtain p' i' where same: "\<forall>sink inc. inc = None \<or> \<not> published_at off p \<longrightarrow> parser_loop sink inc bytes io p i = parser_loop sink inc bytes io p' i'"
            and m: "moved bytes io off 1 False p i p' i'" "bare p' = bare p"
          by (rule loop_unlock [OF 1(4) locked long True])
        have f: "frames False (drop 1 (logical p bytes i)) (off + 1) = (fs, l', rest, off')"
          using 1(5) locked long True by (subst (asm) frames.simps) simp
        have "ends p' (feed sink (bare p') fs) l' rest off' (parser_loop sink None bytes io p' i')"
          using m(1) f by (intro 1(1) [OF locked long True]) (simp_all add: moved_def)
        then show ?thesis using same m(2) ends_moved [OF m(1)] by metis
      next
        case sync: False
        obtain gs where f: "frames True (drop 188 (logical p bytes i)) (off + 188) = (gs, l', rest, off')"
            "fs = (off, take 188 (logical p bytes i)) # gs"
          using 1(5) locked long sync by (subst (asm) frames.simps) (auto split: prod.splits)
        obtain c st where c: "parsePacket sink None (bare p) (take 188 (logical p bytes i)) off = (c, st)" by fastforce
        have s: "logical p bytes i ! 0 = 0x47" "logical p bytes i ! 188 = 0x47" using sync by auto
        note P = loop_packet [OF 1(4) locked long s c]
        show ?thesis
        proof (cases st)
          case (Inl e)
          then show ?thesis using P c f by (simp add: ends_def)
        next
          case (Inr u)
          then obtain p' i' where m: "parser_loop sink None bytes io p i = parser_loop sink None bytes io p' i'"
            "moved bytes io off 188 True p i p' i'" "bare p' = c"
            using P by auto
          have "ends p' (feed sink (bare p') gs) l' rest off' (parser_loop sink None bytes io p' i')"
            using m(2) f by (intro 1(2) [OF locked long sync]) (simp_all add: moved_def)
          then show ?thesis using m ends_moved [OF m(2)] f c Inr by simp
        qed
      qed
    qed
  next
    case unlocked: False
    show ?thesis
    proof (cases "acquire (logical p bytes i)")
      case None
      then have "fs = []" "l' = False" "rest = drop (length (logical p bytes i) - 188) (logical p bytes i)"
          "off' = off + of_nat (length (logical p bytes i) - 188)"
        using 1(5) unlocked by (simp_all add: frames.simps)
      then show ?thesis using loop_seek [OF 1(4) unlocked None] by simp
    next
      case (Some n)
      obtain p' i' where same: "\<forall>sink inc. parser_loop sink inc bytes io p i = parser_loop sink inc bytes io p' i'"
          and m: "moved bytes io off n True p i p' i'" "bare p' = bare p"
        by (rule loop_acquire [OF 1(4) unlocked Some])
      have f: "frames True (drop n (logical p bytes i)) (off + of_nat n) = (fs, l', rest, off')"
        using 1(5) unlocked Some by (subst (asm) frames.simps) simp
      have "ends p' (feed sink (bare p') fs) l' rest off' (parser_loop sink None bytes io p' i')"
        using m(1) f by (intro 1(3) [OF unlocked Some]) (simp_all add: moved_def)
      then show ?thesis using same m(2) ends_moved [OF m(1)] by metis
    qed
  qed
qed

section \<open>Pushing a stream in chunks\<close>

text \<open>The calls of a client: a push per chunk up to the first failure, and the whole session with \<^verbatim>\<open>finish\<close>.\<close>

fun push_chunks ::
  "'s MediaTsPacketSink \<Rightarrow> 's MediaTsIncrementalPacketSink option \<Rightarrow> 's MediaTsPacketParser \<Rightarrow> u8 list list \<Rightarrow> 's MediaTsPacketParser \<times> Status" where
  "push_chunks sink inc p [] = (p, success ())"
| "push_chunks sink inc p (c # cs) =
     (case parser_push sink inc p c of
        (p, Inl e) \<Rightarrow> (p, failure e)
      | (p, Inr _) \<Rightarrow> push_chunks sink inc p cs)"

definition parse_session :: "'s MediaTsPacketSink \<Rightarrow> 's MediaTsPacketParser \<Rightarrow> u8 list list \<Rightarrow> 's MediaTsPacketParser \<times> Status" where
  "parse_session sink p chunks =
     (case push_chunks sink None p chunks of
        (p, Inl e) \<Rightarrow> (p, failure e)
      | (p, Inr _) \<Rightarrow> parser_finish sink None p)"

text \<open>Between two pushes the parser holds at most one packet, at the offset of its first byte.\<close>

definition between :: "'s MediaTsPacketParser \<Rightarrow> bool" where
  "between p \<longleftrightarrow> length (tp_carry p) \<le> 188 \<and> \<not> tp_finished p \<and> tp_finishFailure p = None \<and>
     (tp_carry p \<noteq> [] \<longrightarrow> tp_carryOffset p = tp_nextInputOffset p - of_nat (length (tp_carry p)))"

definition retainedOffset :: "'s MediaTsPacketParser \<Rightarrow> u64" where
  "retainedOffset p = tp_nextInputOffset p - of_nat (length (tp_carry p))"

lemma frames_rest:
  "frames l xs off = (fs, l', rest, off') \<Longrightarrow>
     length rest \<le> 188 \<and> length rest \<le> length xs \<and> off' = off + of_nat (length xs - length rest)"
proof (induction l xs off arbitrary: fs rule: frames.induct)
  case (1 l xs off)
  show ?case
  proof (cases l)
    case locked: True
    consider (short) "length xs < 189" | (bad) "\<not> length xs < 189" "xs ! 0 \<noteq> 0x47 \<or> xs ! 188 \<noteq> 0x47"
      | (good) "\<not> length xs < 189" "\<not> (xs ! 0 \<noteq> 0x47 \<or> xs ! 188 \<noteq> 0x47)" by blast
    then show ?thesis
    proof cases
      case short
      then show ?thesis using 1(4) locked by (auto simp: frames.simps)
    next
      case bad
      then have "frames False (drop 1 xs) (off + 1) = (fs, l', rest, off')"
        using 1(4) locked by (subst (asm) frames.simps) simp
      from 1(1) [OF locked bad this] show ?thesis using bad by (auto simp: of_nat_diff)
    next
      case good
      obtain gs where "frames True (drop 188 xs) (off + 188) = (gs, l', rest, off')"
        using 1(4) locked good by (subst (asm) frames.simps) (auto split: prod.splits)
      from 1(2) [OF locked good this] show ?thesis using good by (auto simp: of_nat_diff)
    qed
  next
    case unlocked: False
    show ?thesis
    proof (cases "acquire xs")
      case None
      then show ?thesis using 1(4) unlocked by (auto simp: frames.simps)
    next
      case (Some n)
      have "frames True (drop n xs) (off + of_nat n) = (fs, l', rest, off')"
        using 1(4) unlocked Some by (subst (asm) frames.simps) simp
      from 1(3) [OF unlocked Some this] show ?thesis using Some by (auto simp: of_nat_diff acquire_Some)
    qed
  qed
qed

lemma frames_settled: "length xs \<le> 188 \<Longrightarrow> frames l xs off = ([], l, xs, off)"
  by (cases l) (simp_all add: frames.simps acquire_def)

lemma push_refines:
  assumes "between p" and "unat (tp_nextInputOffset p) + length bytes < 2 ^ 64"
    and "frames (tp_strideLocked p) (tp_carry p @ bytes) (retainedOffset p) = (fs, l', rest, off')"
  shows "ends (p\<lparr>tp_nextInputOffset := tp_nextInputOffset p + of_nat (length bytes)\<rparr>) (feed sink (bare p) fs) l' rest off'
           (parser_push sink None p bytes)"
proof -
  let ?p = "p\<lparr>tp_nextInputOffset := tp_nextInputOffset p + of_nat (length bytes)\<rparr>"
  have "\<not> length bytes > 18446744073709551615 - unat (tp_nextInputOffset p)" using assms(2) by simp
  then have "parser_push sink None p bytes = parser_loop sink None bytes (tp_nextInputOffset p) ?p 0"
    using assms(1) by (simp add: parser_push_def between_def)
  moreover have "aligned ?p bytes 0 (tp_nextInputOffset p) (retainedOffset p)"
    using assms(1) by (simp add: aligned_def between_def retainedOffset_def)
  ultimately show ?thesis
    using loop_refines [of ?p bytes 0 "tp_nextInputOffset p" "retainedOffset p" fs l' rest off' sink] assms(3)
    by (simp add: logical_def)
qed

lemma push_between:
  assumes "between p" and "unat (tp_nextInputOffset p) + length c < 2 ^ 64"
    and "frames (tp_strideLocked p) (tp_carry p @ c) (retainedOffset p) = (gs, lg, rg, og)" and "parser_push sink None p c = (p', Inr ())"
  shows "between p'" "retainedOffset p' = og" "unat (tp_nextInputOffset p') = unat (tp_nextInputOffset p) + length c"
proof -
  obtain q st where q: "feed sink (bare p) gs = (q, st)" by fastforce
  have s: "tp_carry p' = rg" "rg \<noteq> [] \<longrightarrow> tp_carryOffset p' = og" "tp_nextInputOffset p' = tp_nextInputOffset p + of_nat (length c)"
      "tp_finished p' = tp_finished p" "tp_finishFailure p' = tp_finishFailure p"
    using push_refines [OF assms(1-3), of sink] q assms(4) by (auto simp: ends_def split: sum.splits)
  have r: "length rg \<le> 188" "length rg \<le> length (tp_carry p @ c)" "og = retainedOffset p + of_nat (length (tp_carry p @ c) - length rg)"
    using frames_rest [OF assms(3)] by simp_all
  then have og: "og = tp_nextInputOffset p + of_nat (length c) - of_nat (length rg)"
    by (simp add: retainedOffset_def of_nat_diff)
  then show "retainedOffset p' = og" using s by (simp add: retainedOffset_def)
  show "between p'" using s r og assms(1) by (simp add: between_def)
  show "unat (tp_nextInputOffset p') = unat (tp_nextInputOffset p) + length c"
    using assms(2) s(3) by (simp add: unat_word_ariths unat_of_nat)
qed

lemma chunks_refine:
  assumes "between p" and "unat (tp_nextInputOffset p) + length (concat chunks) < 2 ^ 64"
    and "frames (tp_strideLocked p) (tp_carry p @ concat chunks) (retainedOffset p) = (fs, l', rest, off')"
  shows "ends (p\<lparr>tp_nextInputOffset := tp_nextInputOffset p + of_nat (length (concat chunks))\<rparr>) (feed sink (bare p) fs) l' rest off'
           (push_chunks sink None p chunks)"
  using assms
proof (induction chunks arbitrary: p fs)
  case Nil
  then have "fs = []" "l' = tp_strideLocked p" "rest = tp_carry p" "off' = retainedOffset p"
    using frames_settled [of "tp_carry p"] by (simp_all add: between_def)
  then show ?case using Nil(1) by (auto simp: ends_def between_def retainedOffset_def)
next
  case (Cons c cs)
  let ?p = "p\<lparr>tp_nextInputOffset := tp_nextInputOffset p + of_nat (length c)\<rparr>"
  obtain gs lg rg og where g: "frames (tp_strideLocked p) (tp_carry p @ c) (retainedOffset p) = (gs, lg, rg, og)"
    by (metis prod_cases4)
  have "frames (tp_strideLocked p) ((tp_carry p @ c) @ concat cs) (retainedOffset p) = (fs, l', rest, off')"
    using Cons.prems(3) by simp
  then obtain hs where h: "frames lg (rg @ concat cs) og = (hs, l', rest, off')" "fs = gs @ hs"
    using frames_append [of "tp_strideLocked p" "tp_carry p @ c" "concat cs" "retainedOffset p"] g
    by (auto simp: frames_then_def split: prod.splits)
  have E: "ends ?p (feed sink (bare p) gs) lg rg og (parser_push sink None p c)"
    using Cons.prems by (intro push_refines [OF _ _ g]) simp_all
  obtain q st where q: "feed sink (bare p) gs = (q, st)" by fastforce
  obtain p' st' where p': "parser_push sink None p c = (p', st')" by fastforce
  show ?case
  proof (cases st)
    case (Inl e)
    then have "st' = Inl e" using E q p' by (simp add: ends_def)
    then show ?thesis using q p' Inl h(2) by (simp add: ends_def feed_append)
  next
    case (Inr u)
    then have s: "st' = Inr ()" "bare p' = q" "tp_strideLocked p' = lg" "tp_carry p' = rg" "rg \<noteq> [] \<longrightarrow> tp_carryOffset p' = og"
        "tp_nextInputOffset p' = tp_nextInputOffset p + of_nat (length c)" "tp_finished p' = tp_finished p"
        "tp_finishFailure p' = tp_finishFailure p"
      using E q p' by (simp_all add: ends_def)
    note next_state = push_between [OF Cons.prems(1) _ g, of sink p'] p' s(1)
    have "between p'" "retainedOffset p' = og" "unat (tp_nextInputOffset p') + length (concat cs) < 2 ^ 64"
      using next_state Cons.prems(2) by auto
    then have "ends (p'\<lparr>tp_nextInputOffset := tp_nextInputOffset p' + of_nat (length (concat cs))\<rparr>) (feed sink (bare p') hs) l' rest off'
        (push_chunks sink None p' cs)"
      using h s by (intro Cons.IH) simp_all
    then show ?thesis
      using s q p' Inr h(2) by (simp add: ends_def feed_append add.assoc split: prod.splits sum.splits)
  qed
qed

text \<open>What a client can tell of the parser: all but the copy statistics and the offset of an empty carry.\<close>

definition observable :: "'s MediaTsPacketParser \<Rightarrow> 's MediaTsPacketParser" where
  "observable p = p\<lparr>tp_copiedPacketBytes := 0, tp_carryOffset := (if tp_carry p = [] then 0 else tp_carryOffset p)\<rparr>"

lemma observable_eqI:
  assumes "bare p = bare q" and "tp_strideLocked p = tp_strideLocked q" and "tp_carry p = tp_carry q"
    and "tp_carry q \<noteq> [] \<Longrightarrow> tp_carryOffset p = tp_carryOffset q" and "tp_nextInputOffset p = tp_nextInputOffset q"
    and "tp_finished p = tp_finished q" and "tp_finishFailure p = tp_finishFailure q"
  shows "observable p = observable q"
  using assms by (cases p; cases q) (auto simp: observable_def bare_def)

lemma ends_same:
  assumes "ends p want l rest off (q1, st1)" and "ends p want l rest off (q2, st2)"
  shows "st1 = st2 \<and> (st1 = Inr () \<longrightarrow> observable q1 = observable q2)"
  using assms by (auto simp: ends_def intro!: observable_eqI split: prod.splits sum.splits)

lemma created_between: "parser_create 188 s = Inr p \<Longrightarrow> between p \<and> tp_nextInputOffset p = 0 \<and> tp_carry p = [] \<and> \<not> tp_strideLocked p"
  by (auto simp: parser_create_def between_def)

lemma push_chunks_single: "push_chunks sink inc p [c] = parser_push sink inc p c"
  by (auto split: prod.split sum.split)

section \<open>A clean stream\<close>

definition sync_packet :: "u8 list \<Rightarrow> bool" where
  "sync_packet packet \<longleftrightarrow> length packet = 188 \<and> packet ! 0 = 0x47"

text \<open>The packets with the offsets at which they stand in their concatenation.\<close>

fun numbered :: "u64 \<Rightarrow> u8 list list \<Rightarrow> (u64 \<times> u8 list) list" where
  "numbered off [] = []"
| "numbered off (x # xs) = (off, x) # numbered (off + 188) xs"

lemma frames_clean_locked:
  "\<forall>x\<in>set (ps @ [x]). sync_packet x \<Longrightarrow>
     frames True (concat ps @ x) off = (numbered off ps, True, x, off + of_nat (188 * length ps))"
proof (induction ps arbitrary: off)
  case Nil
  then show ?case by (simp add: frames.simps sync_packet_def)
next
  case (Cons y ys)
  let ?s = "concat (y # ys) @ x"
  have y: "length y = 188" "y ! 0 = 0x47" using Cons.prems by (simp_all add: sync_packet_def)
  have z: "(concat ys @ x) ! 0 = 0x47" "0 < length (concat ys @ x)"
    using Cons.prems by (cases ys; simp add: sync_packet_def nth_append)+
  have "\<not> length ?s < 189" "?s ! 0 = 0x47" "?s ! 188 = 0x47" "take 188 ?s = y" "drop 188 ?s = concat ys @ x"
    using y z Cons.prems by (simp_all add: nth_append sync_packet_def)
  then show ?case using Cons.IH [of "off + 188"] Cons.prems
    by (subst frames.simps) (simp add: algebra_simps)
qed

lemma frames_clean:
  assumes "\<forall>x\<in>set (ps @ [x]). sync_packet x"
  shows "\<exists>l. frames False (concat ps @ x) off = (numbered off ps, l, x, off + of_nat (188 * length ps))"
proof (cases ps)
  case Nil
  then have "frames False (concat ps @ x) off = (numbered off ps, False, x, off + of_nat (188 * length ps))"
    using assms by (simp add: frames_settled sync_packet_def)
  then show ?thesis by blast
next
  case (Cons y ys)
  let ?s = "concat ps @ x"
  have y: "length y = 188" "y ! 0 = 0x47" using assms Cons by (simp_all add: sync_packet_def)
  have z: "(concat ys @ x) ! 0 = 0x47" "0 < length (concat ys @ x)"
    using assms Cons by (cases ys; simp add: sync_packet_def nth_append)+
  then have "acquire ?s = Some 0" using Cons y by (simp add: acquire_Some nth_append)
  then have "frames False ?s off = frames True ?s off" by (subst frames.simps) simp
  then show ?thesis using frames_clean_locked [OF assms, of off] by metis
qed

lemma push_clean:
  assumes "parser_create 188 s = Inr p" and "length (concat chunks) < 2 ^ 64"
    and "concat chunks = concat ps @ x" and "\<forall>x\<in>set (ps @ [x]). sync_packet x"
  shows "\<exists>l. ends (p\<lparr>tp_nextInputOffset := of_nat (length (concat chunks))\<rparr>) (feed sink p (numbered 0 ps)) l x (of_nat (188 * length ps))
           (push_chunks sink None p chunks)"
proof -
  note B = created_between [OF assms(1)]
  have b: "bare p = p" using assms(1) by (auto simp: parser_create_def bare_def)
  obtain l where "frames False (concat ps @ x) 0 = (numbered 0 ps, l, x, 0 + of_nat (188 * length ps))"
    using frames_clean [OF assms(4), of 0] by blast
  then show ?thesis
    using chunks_refine [of p chunks "numbered 0 ps" l x "of_nat (188 * length ps)" sink] B assms(2) b
    unfolding assms(3) by (auto simp: retainedOffset_def)
qed

text \<open>Finishing hands over the packet that was retained.\<close>

lemma finish_feeds:
  assumes "\<not> tp_finished q" and "tp_finishFailure q = None" and "sync_packet (tp_carry q)"
    and "feed sink (bare q) [(tp_carryOffset q, tp_carry q)] = (c, st)" and "parser_finish sink None q = (q', st')"
  shows "st' = st \<and> (st = Inr () \<longrightarrow> tp_sink q' = tp_sink c)"
proof -
  let ?q = "q\<lparr>tp_finished := True\<rparr>"
  obtain r where r: "parsePacket sink None ?q (tp_carry q) (tp_carryOffset q) = (r, st)" "bare r = c"
    using assms(4) bare_parsePacket [of sink ?q "tp_carry q" "tp_carryOffset q"]
    by (cases "parsePacket sink None ?q (tp_carry q) (tp_carryOffset q)") (auto split: prod.splits sum.splits)
  have "tp_carry q \<noteq> []" "length (tp_carry q) = 188" "tp_carry q ! 0 = 0x47" using assms(3) by (auto simp: sync_packet_def)
  then show ?thesis
    using assms(1,2,5) r by (cases st) (auto simp: parser_finish_def Let_def)
qed

lemma session_clean:
  assumes "parser_create 188 s = Inr p" and "length (concat chunks) < 2 ^ 64"
    and "concat chunks = concat packets" and "packets \<noteq> []" and "\<forall>x\<in>set packets. sync_packet x"
    and "feed sink p (numbered 0 packets) = (c, st)" and "parse_session sink p chunks = (q', st')"
  shows "st' = st \<and> (st = Inr () \<longrightarrow> tp_sink q' = tp_sink c)"
proof -
  obtain ps x where ps: "packets = ps @ [x]" using assms(4) by (metis rev_exhaust)
  have n: "numbered off (ps @ [x]) = numbered off ps @ [(off + of_nat (188 * length ps), x)]" for off
    by (induction ps arbitrary: off) (simp_all add: algebra_simps)
  obtain q1 st1 where q1: "feed sink p (numbered 0 ps) = (q1, st1)" by fastforce
  obtain q2 st2 where q2: "push_chunks sink None p chunks = (q2, st2)" by fastforce
  obtain l where E: "ends (p\<lparr>tp_nextInputOffset := of_nat (length (concat chunks))\<rparr>) (q1, st1) l x (of_nat (188 * length ps)) (q2, st2)"
    using push_clean [OF assms(1,2), of ps x sink] assms(3,5) q1 q2 ps by auto
  show ?thesis
  proof (cases st1)
    case (Inl e)
    then have "st2 = Inl e" using E by (simp add: ends_def)
    moreover have "st = Inl e" using assms(6) q1 Inl ps n by (simp add: feed_append)
    ultimately show ?thesis using assms(7) q2 by (auto simp: parse_session_def)
  next
    case (Inr u)
    have "x \<noteq> []" "sync_packet x" using assms(5) ps by (auto simp: sync_packet_def)
    then have q: "st2 = Inr ()" "bare q2 = q1" "tp_carry q2 = x" "tp_carryOffset q2 = of_nat (188 * length ps)"
        "\<not> tp_finished q2" "tp_finishFailure q2 = None"
      using E Inr created_between [OF assms(1)] by (simp_all add: ends_def between_def)
    then have "feed sink (bare q2) [(tp_carryOffset q2, tp_carry q2)] = (c, st)"
      using assms(6) q1 Inr ps n [of 0] by (simp add: feed_append)
    moreover have "parser_finish sink None q2 = (q', st')" using assms(7) q2 q(1) by (simp add: parse_session_def)
    moreover have "sync_packet (tp_carry q2)" using q(3) \<open>sync_packet x\<close> by simp
    ultimately show ?thesis using finish_feeds [OF q(5,6)] by blast
  qed
qed

text \<open>
  Without an incremental sink, how a transport stream is cut into chunks does not matter: pushing the chunks one after the
  other gives the status of pushing their concatenation at once and, on success, leaves the sink and
  the parser in the same state up to the copy statistics.
\<close>

lemma chunking_irrelevant_plain:
  assumes "parser_create 188 s = Inr p" and "length (concat chunks) < 2 ^ 64"
    and "push_chunks sink None p chunks = (q1, st1)" and "parser_push sink None p (concat chunks) = (q2, st2)"
  shows "st1 = st2 \<and> (st1 = Inr () \<longrightarrow> observable q1 = observable q2)"
proof -
  note B = created_between [OF assms(1)]
  obtain fs l' rest off' where f: "frames (tp_strideLocked p) (tp_carry p @ concat chunks) (retainedOffset p) = (fs, l', rest, off')"
    by (metis prod_cases4)
  then show ?thesis
    using chunks_refine [of p chunks fs l' rest off' sink] chunks_refine [of p "[concat chunks]" fs l' rest off' sink]
      B assms ends_same push_chunks_single [of sink None p "concat chunks"] by (metis add_0 append_Nil2 concat.simps unat_0)
qed

text \<open>
  On a clean stream (packets of 188 bytes that start with the sync byte, cut into chunks in any
  way) a session that pushes the chunks and finishes hands every packet to the packet parser exactly
  once, in order and at its offset: it has the outcome and, on success, the sink of parsing the packets
  one by one.
\<close>

theorem clean_stream_delivered:
  assumes "parser_create 188 s = Inr p" and "length (concat chunks) < 2 ^ 64"
    and "concat chunks = concat packets" and "packets \<noteq> []" and "\<forall>x\<in>set packets. sync_packet x"
    and "feed sink p (numbered 0 packets) = (c, st)" and "parse_session sink p chunks = (q', st')"
  shows "st' = st \<and> (st = Inr () \<longrightarrow> tp_sink q' = tp_sink c)"
  by (rule session_clean [OF assms])

text \<open>A sink that records the offset, the PID and the payload of every packet and accepts everything.\<close>

definition recorder :: "(u64 \<times> u16 \<times> u8 list) list MediaTsPacketSink" where
  "recorder = \<lparr>onPacket = (\<lambda>s v. (s @ [(pv_byteOffset v, pv_pid v, pv_payload v)], success ())),
               onContinuityEvent = (\<lambda>s e. (s, success ()))\<rparr>"

definition packet_with :: "u8 \<Rightarrow> u8 \<Rightarrow> u8 list" where
  "packet_with counter fill = [0x47, 0x01, 0x00, 0x10 OR counter] @ replicate 184 fill"

lemma feed_example:
  "apfst tp_sink (feed recorder (projr (parser_create 188 [])) (numbered 0 [packet_with 0 7, packet_with 1 8])) =
     ([(0, 0x100, replicate 184 7), (188, 0x100, replicate 184 8)], Inr ())"
  by code_simp

definition example_chunks :: "u8 list list" where
  "example_chunks = [take 50 (packet_with 0 7), drop 50 (packet_with 0 7) @ take 3 (packet_with 1 8), drop 3 (packet_with 1 8)]"

lemma example_stream:
  "concat example_chunks = concat [packet_with 0 7, packet_with 1 8]" "concat example_chunks = packet_with 0 7 @ packet_with 1 8" "length (concat example_chunks) < 2 ^ 64"
  "\<forall>x\<in>set [packet_with 0 7, packet_with 1 8]. sync_packet x"
  by (simp_all add: example_chunks_def packet_with_def sync_packet_def flip: replicate_add)

lemma example_created: "parser_create 188 [] = Inr (projr (parser_create 188 []))"
  by (simp add: parser_create_def)

theorem clean_stream_delivered_witness:
  "snd (parse_session recorder (projr (parser_create 188 [])) example_chunks) = Inr () \<and>
   tp_sink (fst (parse_session recorder (projr (parser_create 188 [])) example_chunks)) =
     [(0, 0x100, replicate 184 7), (188, 0x100, replicate 184 8)]"
  using clean_stream_delivered [OF example_created example_stream(3,1) _ example_stream(4) surjective_pairing surjective_pairing, of recorder]
    feed_example by (auto simp: apfst_def map_prod_def split: prod.splits)

end
