(* ===== verification/Ts_Incremental.thy ===== *)
theory Ts_Incremental
  imports Ts_Framing
begin

unbundle bit_operations_syntax

text \<open>
  The packet parser with an incremental sink, which learns of a packet before all its bytes have arrived, as \<^verbatim>\<open>MediaTsInputSession\<close>
  uses it. What is published early is what the whole packet publishes, so on a run that succeeds the calls of both sinks do not depend on
  the chunks; they are those of a parser without an incremental sink whose packet sink makes all three calls.
\<close>

section \<open>Headers of incomplete packets\<close>

lemma parseClock_cong: "\<forall>i<n. P ! i = Q ! i \<Longrightarrow> parseClock P n cursor = parseClock Q n cursor"
  by (cases "6 \<le> n - cursor") (simp_all add: parseClock_def)

lemma optionalClock_cong: "\<forall>i<n. P ! i = Q ! i \<Longrightarrow> optionalClock present P n cursor = optionalClock present Q n cursor"
  unfolding optionalClock_def by (simp only: parseClock_cong)

lemma skipPrivateData_cong: "\<forall>i<n. P ! i = Q ! i \<Longrightarrow> skipPrivateData present P n cursor = skipPrivateData present Q n cursor"
  by (cases "1 \<le> n - cursor") (simp_all add: skipPrivateData_def)

lemma skipExtension_cong:
  assumes "\<forall>i<n. P ! i = Q ! i"
  shows "skipExtension present P n cursor = skipExtension present Q n cursor"
proof (cases "1 \<le> n - cursor")
  case True
  then have "P ! cursor = Q ! cursor" using assms by simp
  moreover have "P ! Suc cursor = Q ! Suc cursor" if "unat (Q ! cursor) \<noteq> 0" "unat (Q ! cursor) \<le> n - Suc cursor" using assms that by simp
  ultimately show ?thesis by (simp add: skipExtension_def Let_def)
qed (simp add: skipExtension_def)

lemma parseAdaptation_cong:
  assumes "\<forall>i<5 + n. P ! i = Q ! i" and "0 < n"
  shows "parseAdaptation P n = parseAdaptation Q n"
proof -
  have flags: "P ! 5 = Q ! 5" using assms by simp
  have stuffing: "(\<exists>i\<in>set [cursor..<5 + n]. P ! i \<noteq> 0xFF) \<longleftrightarrow> (\<exists>i\<in>set [cursor..<5 + n]. Q ! i \<noteq> 0xFF)" for cursor
    using assms(1) by auto
  show ?thesis
    unfolding parseAdaptation_def Let_def flags stuffing optionalClock_cong [OF assms(1)] skipPrivateData_cong [OF assms(1)]
      skipExtension_cong [OF assms(1)] ..
qed

text \<open>A header that is known does not change when more bytes arrive.\<close>

lemma parseHeader_extend:
  assumes "parseHeader packet = HeaderParsed h"
  shows "parseHeader (packet @ more_bytes) = HeaderParsed h" and "hd_payloadOffset h \<le> length packet" and "hd_hasPayload h \<Longrightarrow> hd_payloadOffset h < 188"
proof -
  have n: "4 \<le> length packet" using assms by (auto simp: parseHeader_def split: if_splits)
  then have nth: "(packet @ more_bytes) ! i = packet ! i" if "i < 4" for i using that by (simp add: nth_append)
  define control where "control = drop_bit 4 (packet ! 3) AND 0x03"
  show "parseHeader (packet @ more_bytes) = HeaderParsed h"
  proof (cases "control AND 0x02 \<noteq> 0")
    case True
    have m: "5 \<le> length packet" using assms n True by (auto simp: parseHeader_def control_def Let_def split: if_splits)
    then have four: "(packet @ more_bytes) ! 4 = packet ! 4" by (simp add: nth_append)
    have len: "5 + unat (packet ! 4) \<le> length packet"
      using assms n m True by (auto simp: parseHeader_def control_def Let_def not_less split: if_splits)
    have adaptation: "parseAdaptation (packet @ more_bytes) (unat (packet ! 4)) = parseAdaptation packet (unat (packet ! 4))" if "unat (packet ! 4) \<noteq> 0"
      by (rule parseAdaptation_cong) (use len that in \<open>auto simp: nth_append\<close>)
    show ?thesis
    proof (cases "unat (packet ! 4) = 0")
      case True
      then show ?thesis using assms n m len by (auto simp: parseHeader_def nth four Let_def split: if_splits)
    next
      case False
      then show ?thesis using assms n m len adaptation [OF False] by (auto simp: parseHeader_def nth four Let_def split: if_splits)
    qed
  next
    case False
    then show ?thesis using assms n by (auto simp: parseHeader_def nth control_def Let_def split: if_splits)
  qed
  show "hd_payloadOffset h \<le> length packet" "hd_hasPayload h \<Longrightarrow> hd_payloadOffset h < 188"
    using assms by (auto simp: parseHeader_def Let_def not_less split: if_splits sum.splits)
qed

lemma parseHeader_whole:
  assumes "length packet = 188"
  shows "parseHeader packet \<noteq> NeedMoreBytes"
  using assms by (auto simp: parseHeader_def Let_def split: sum.split)

section \<open>Publication\<close>

text \<open>Changes of the framing part of the state, which publication neither reads nor writes.\<close>

definition inert :: "('s MediaTsPacketParser \<Rightarrow> 's MediaTsPacketParser) \<Rightarrow> bool" where
  "inert u \<longleftrightarrow>
     (\<forall>p. tp_sink (u p) = tp_sink p \<and> tp_continuity (u p) = tp_continuity p \<and> tp_publishedEvidence (u p) = tp_publishedEvidence p \<and>
        (\<forall>s. (u p)\<lparr>tp_sink := s\<rparr> = u (p\<lparr>tp_sink := s\<rparr>)) \<and> (\<forall>c. (u p)\<lparr>tp_continuity := c\<rparr> = u (p\<lparr>tp_continuity := c\<rparr>)) \<and>
        (\<forall>e. (u p)\<lparr>tp_publishedEvidence := e\<rparr> = u (p\<lparr>tp_publishedEvidence := e\<rparr>)))"

lemma inertI [simp]:
  "inert (\<lambda>p. p\<lparr>tp_carry := c\<rparr>)" "inert (\<lambda>p. p\<lparr>tp_nextInputOffset := n\<rparr>)" "inert (\<lambda>p. p\<lparr>tp_copiedPacketBytes := n\<rparr>)" "inert (\<lambda>p. p\<lparr>tp_strideLocked := b\<rparr>)"
  by (simp_all add: inert_def)

lemma inert_simps:
  assumes "inert u"
  shows "tp_sink (u p) = tp_sink p" "tp_continuity (u p) = tp_continuity p" "tp_publishedEvidence (u p) = tp_publishedEvidence p"
    "(u p)\<lparr>tp_sink := s\<rparr> = u (p\<lparr>tp_sink := s\<rparr>)" "(u p)\<lparr>tp_continuity := c\<rparr> = u (p\<lparr>tp_continuity := c\<rparr>)"
    "(u p)\<lparr>tp_publishedEvidence := e\<rparr> = u (p\<lparr>tp_publishedEvidence := e\<rparr>)"
  using assms by (simp_all add: inert_def)

lemma inert_checkContinuity: "inert u \<Longrightarrow> checkContinuity sink (u p) h off = apfst u (checkContinuity sink p h off)"
  by (simp add: checkContinuity_def inert_simps Let_def split: option.split prod.split)

lemma inert_publications:
  assumes "inert u"
  shows "publishEvidence inc (u p) v = apfst u (publishEvidence inc p v)" "publishPrefix inc (u p) w = apfst u (publishPrefix inc p w)"
    "markPrefixPublished (u p) = u (markPrefixPublished p)"
  using assms by (simp_all add: publishEvidence_def publishPrefix_def markPrefixPublished_def inert_simps split: option.split prod.split)

lemma inert_publishParsed:
  assumes "inert u"
  shows "publishParsed sink inc (u p) R off h = apfst u (publishParsed sink inc p R off h)"
proof -
  let ?view = "\<lparr>ev_byteOffset = off, ev_pid = hd_pid h, ev_payloadUnitStart = hd_payloadUnitStart h,
    ev_continuityCounter = hd_continuityCounter h, ev_discontinuity = hd_discontinuity h, ev_pcr27Mhz = hd_pcr h\<rparr>"
  note inert = inert_checkContinuity [OF assms] inert_publications [OF assms] inert_simps [OF assms]
  obtain p1 st1 where c: "checkContinuity sink p h off = (p1, st1)" by fastforce
  obtain p2 st2 where e: "publishEvidence inc p1 ?view = (p2, st2)" by fastforce
  define p3 where "p3 = p2\<lparr>tp_continuity := (tp_continuity p2)(hd_pid h := Some (hd_continuityCounter h)),
    tp_publishedEvidence := Some \<lparr>pe_view = ?view, pe_hasPayload = hd_hasPayload h, pe_payloadOffset = hd_payloadOffset h, pe_prefixPublished = False\<rparr>\<rparr>"
  obtain p4 st4 where f: "publishPrefix inc p3 \<lparr>pre_byteOffset = off, pre_pid = hd_pid h, pre_payloadUnitStart = hd_payloadUnitStart h,
      pre_pesStart = (hd_payloadUnitStart h \<and> hd_hasPayload h \<and> pesStartAt R (hd_payloadOffset h))\<rparr> = (p4, st4)" by fastforce
  show ?thesis
    by (cases st1; cases st2; cases st4) (simp_all add: publishParsed_def Let_def inert c e f flip: p3_def)
qed

lemma inert_publish: "inert u \<Longrightarrow> publishIncrementalEvidence sink inc (u p) R off = apfst u (publishIncrementalEvidence sink inc p R off)"
  by (simp add: publishIncrementalEvidence_def inert_publishParsed inert_publications inert_simps split: option.split HeaderResult.split prod.split sum.split)

lemma inert_parsePacket: "inert u \<Longrightarrow> parsePacket sink inc (u p) P off = apfst u (parsePacket sink inc p P off)"
  by (simp add: parsePacket_def inert_publish inert_simps Let_def split: prod.split sum.split)

text \<open>What is published of a part of a packet is not published again with more of it.\<close>

lemma pesStartAt_append: "offset + 3 \<le> length R \<Longrightarrow> pesStartAt (R @ T) offset = pesStartAt R offset"
  by (simp add: pesStartAt_def nth_append)

lemma publishPrefix_evidence: "publishPrefix inc p w = (q, st) \<Longrightarrow> tp_publishedEvidence q = tp_publishedEvidence p"
  by (auto simp: publishPrefix_def split: option.splits prod.splits)

lemma publish_fresh:
  "\<not> published_at off p \<Longrightarrow> publishIncrementalEvidence sink inc p R off =
     (case parseHeader R of NeedMoreBytes \<Rightarrow> (p, success ()) | HeaderInvalid \<Rightarrow> (p, failure InvalidArgument)
      | HeaderParsed h \<Rightarrow> publishParsed sink inc p R off h)"
  by (cases "tp_publishedEvidence p") (simp_all add: publishIncrementalEvidence_def published_at_def)

lemma publish_absorb:
  assumes "publishIncrementalEvidence sink inc p R off = (q, Inr ())"
  shows "publishIncrementalEvidence sink inc q (R @ T) off = publishIncrementalEvidence sink inc p (R @ T) off"
proof (cases "published_at off p")
  case True
  then obtain e where e: "tp_publishedEvidence p = Some e" "ev_byteOffset (pe_view e) = off" by (auto simp: published_at_def split: option.splits)
  show ?thesis
  proof (cases "pe_prefixPublished e \<or> length R < pe_payloadOffset e + 3")
    case True
    then have "q = p" using assms e by (auto simp: publishIncrementalEvidence_def split: if_splits)
    then show ?thesis by simp
  next
    case False
    let ?prefix = "\<lparr>pre_byteOffset = off, pre_pid = ev_pid (pe_view e), pre_payloadUnitStart = ev_payloadUnitStart (pe_view e),
      pre_pesStart = pesStartAt R (pe_payloadOffset e)\<rparr>"
    obtain p' where p': "publishPrefix inc p ?prefix = (p', Inr ())" "q = markPrefixPublished p'"
      using assms e False by (auto simp: publishIncrementalEvidence_def split: prod.splits sum.splits)
    then have "tp_publishedEvidence q = Some (e\<lparr>pe_prefixPublished := True\<rparr>)"
      using publishPrefix_evidence [OF p'(1)] e by (simp add: markPrefixPublished_def)
    then show ?thesis using e False p' pesStartAt_append [of "pe_payloadOffset e" R T]
      by (simp add: publishIncrementalEvidence_def)
  qed
next
  case False
  show ?thesis
  proof (cases "parseHeader R")
    case (HeaderParsed h)
    let ?view = "\<lparr>ev_byteOffset = off, ev_pid = hd_pid h, ev_payloadUnitStart = hd_payloadUnitStart h,
      ev_continuityCounter = hd_continuityCounter h, ev_discontinuity = hd_discontinuity h, ev_pcr27Mhz = hd_pcr h\<rparr>"
    let ?prefix = "\<lambda>R. \<lparr>pre_byteOffset = off, pre_pid = hd_pid h, pre_payloadUnitStart = hd_payloadUnitStart h,
      pre_pesStart = (hd_payloadUnitStart h \<and> hd_hasPayload h \<and> pesStartAt R (hd_payloadOffset h))\<rparr>"
    note longer = parseHeader_extend(1) [OF HeaderParsed, of T]
    have parsed: "publishParsed sink inc p R off h = (q, Inr ())" using assms False HeaderParsed by (simp add: publish_fresh)
    obtain p1 p2 where c: "checkContinuity sink p h off = (p1, Inr ())" "publishEvidence inc p1 ?view = (p2, Inr ())"
      using parsed by (auto simp: publishParsed_def Let_def split: prod.splits sum.splits)
    define p3 where "p3 = p2\<lparr>tp_continuity := (tp_continuity p2)(hd_pid h := Some (hd_continuityCounter h)),
      tp_publishedEvidence := Some \<lparr>pe_view = ?view, pe_hasPayload = hd_hasPayload h, pe_payloadOffset = hd_payloadOffset h, pe_prefixPublished = False\<rparr>\<rparr>"
    have step: "publishParsed sink inc p S off h =
        (if \<not> hd_payloadUnitStart h \<or> \<not> hd_hasPayload h \<or> length S \<ge> hd_payloadOffset h + 3
         then (case publishPrefix inc p3 (?prefix S) of (p, Inl e) \<Rightarrow> (p, failure e) | (p, Inr _) \<Rightarrow> (markPrefixPublished p, success ()))
         else (p3, success ()))" for S
      unfolding publishParsed_def Let_def c prod.case sum.case p3_def ..
    show ?thesis
    proof (cases "\<not> hd_payloadUnitStart h \<or> \<not> hd_hasPayload h \<or> length R \<ge> hd_payloadOffset h + 3")
      case True
      then have same: "?prefix (R @ T) = ?prefix R" using pesStartAt_append [of "hd_payloadOffset h" R T] by auto
      obtain p4 where p4: "publishPrefix inc p3 (?prefix R) = (p4, Inr ())" "q = markPrefixPublished p4"
        using parsed True unfolding step by (auto split: prod.splits sum.splits)
      then have "tp_publishedEvidence q = map_option (\<lambda>e. e\<lparr>pe_prefixPublished := True\<rparr>) (tp_publishedEvidence p3)"
        using publishPrefix_evidence [OF p4(1)] by (simp add: markPrefixPublished_def)
      then have "publishIncrementalEvidence sink inc q (R @ T) off = (q, Inr ())" by (simp add: publishIncrementalEvidence_def p3_def)
      moreover have "publishParsed sink inc p (R @ T) off h = (q, Inr ())" using True p4 unfolding step same by auto
      ultimately show ?thesis using False longer by (simp add: publish_fresh)
    next
      case short: False
      then have "q = p3" using parsed unfolding step by auto
      then have "publishIncrementalEvidence sink inc q (R @ T) off = publishParsed sink inc p (R @ T) off h"
        using short unfolding step by (auto simp: publishIncrementalEvidence_def p3_def)
      then show ?thesis using False longer by (simp add: publish_fresh)
    qed
  qed (use assms False in \<open>simp_all add: publish_fresh\<close>)
qed

lemma publishParsed_published: "publishParsed sink inc p R off h = (q, Inr ()) \<Longrightarrow> published_at off q"
  by (auto simp: publishParsed_def published_at_def markPrefixPublished_def Let_def
      split: prod.splits sum.splits if_splits option.splits dest!: publishPrefix_evidence)

text \<open>A publication that is not recorded has changed nothing, and one of a whole packet is recorded.\<close>

lemma publish_noop:
  assumes "publishIncrementalEvidence sink inc p R off = (q, Inr ())" and "\<not> published_at off q"
  shows "q = p"
proof (cases "published_at off p")
  case True
  then show ?thesis using assms
    by (auto simp: publishIncrementalEvidence_def published_at_def markPrefixPublished_def
        split: option.splits if_splits prod.splits sum.splits dest!: publishPrefix_evidence)
next
  case False
  then show ?thesis using assms by (auto simp: publish_fresh split: HeaderResult.splits dest: publishParsed_published)
qed

lemma parsePacket_published:
  assumes "parsePacket sink inc p P off = (q, Inr ())" and "length P = 188"
  shows "published_at off q"
proof -
  obtain p' where p': "publishIncrementalEvidence sink inc p P off = (p', Inr ())" and q: "tp_publishedEvidence q = tp_publishedEvidence p'"
    using assms(1) by (auto simp: parsePacket_def Let_def split: prod.splits sum.splits)
  have "published_at off p'"
  proof (rule ccontr)
    assume no: "\<not> published_at off p'"
    then have "p' = p" using publish_noop [OF p'] by simp
    then have "publishIncrementalEvidence sink inc p P off =
        (case parseHeader P of NeedMoreBytes \<Rightarrow> (p, success ()) | HeaderInvalid \<Rightarrow> (p, failure InvalidArgument)
         | HeaderParsed h \<Rightarrow> publishParsed sink inc p P off h)"
      using no by (simp add: publish_fresh)
    then show False using p' no parseHeader_whole [OF assms(2)] by (cases "parseHeader P") (auto dest: publishParsed_published [OF sym])
  qed
  then show ?thesis using q by (simp add: published_at_def)
qed

section \<open>One chunk after another\<close>

text \<open>
  A parser \<open>q\<close> that has published of the bytes it retains, against the parser \<open>r\<close> that has not: unless framing is lost, the next chunk
  leaves both in the same state.
\<close>

lemma loop_dirty:
  assumes "publishIncrementalEvidence sink (Some k) r (tp_carry r) (tp_carryOffset r) = (q, Inr ())" and "tp_strideLocked r"
    and "tp_carry r \<noteq> []" and "length (tp_carry r) \<le> 188" and "parser_loop sink (Some k) bytes io q i = (x, Inr ())"
  shows "parser_loop sink (Some k) bytes io r i = (x, Inr ())"
proof -
  have same: "tp_carry q = tp_carry r" "tp_carryOffset q = tp_carryOffset r" "tp_strideLocked q" "tp_copiedPacketBytes q = tp_copiedPacketBytes r"
    using framing_publishIncremental [OF assms(1)] assms(2) by (simp_all add: framing_def)
  have stream: "logical q bytes i = logical r bytes i" by (simp add: logical_def same(1))
  let ?s = "logical r bytes i" and ?copied = "tp_copiedPacketBytes r + 188"
  show ?thesis
  proof (cases "length ?s < 189")
    case True
    have "publishIncrementalEvidence sink (Some k) (r\<lparr>tp_carry := ?s\<rparr>) (tp_carry r) (tp_carryOffset r) = (q\<lparr>tp_carry := ?s\<rparr>, Inr ())"
      using assms(1) by (simp add: inert_publish)
    then have "publishIncrementalEvidence sink (Some k) (q\<lparr>tp_carry := ?s\<rparr>) ?s (tp_carryOffset r) =
        publishIncrementalEvidence sink (Some k) (r\<lparr>tp_carry := ?s\<rparr>) ?s (tp_carryOffset r)"
      using publish_absorb [of sink "Some k" "r\<lparr>tp_carry := ?s\<rparr>" "tp_carry r" _ _ "drop i bytes"] by (simp add: logical_def)
    then show ?thesis using assms(2,3,5) True same stream
      by (subst parser_loop.simps) (simp add: Let_def parser_loop.simps [of _ _ _ _ q])
  next
    case long: False
    show ?thesis
    proof (cases "tp_carry r ! 0 \<noteq> 0x47 \<or> ?s ! 188 \<noteq> 0x47")
      case True
      have "\<not> published_at (tp_carryOffset r) q"
        using assms(3,5) True long same stream by (auto simp: parser_loop.simps [of _ _ _ _ q] Let_def published_at_def split: option.splits)
      then have "q = r" using publish_noop [OF assms(1)] by simp
      then show ?thesis using assms(5) by simp
    next
      case sync: False
      have cut: "take 188 ?s = tp_carry r @ take (188 - length (tp_carry r)) (drop i bytes)" using assms(4) by (simp add: logical_def)
      have "publishIncrementalEvidence sink (Some k) (r\<lparr>tp_copiedPacketBytes := ?copied\<rparr>) (tp_carry r) (tp_carryOffset r) = (q\<lparr>tp_copiedPacketBytes := ?copied\<rparr>, Inr ())"
        using assms(1) by (simp add: inert_publish)
      then have "parsePacket sink (Some k) (q\<lparr>tp_copiedPacketBytes := ?copied\<rparr>) (take 188 ?s) (tp_carryOffset r) =
          parsePacket sink (Some k) (r\<lparr>tp_copiedPacketBytes := ?copied\<rparr>) (take 188 ?s) (tp_carryOffset r)"
        unfolding parsePacket_def cut using publish_absorb [of sink "Some k" "r\<lparr>tp_copiedPacketBytes := ?copied\<rparr>" "tp_carry r"] by simp
      then show ?thesis using assms(2,3,5) long sync same stream
        by (subst parser_loop.simps) (simp add: Let_def parser_loop.simps [of _ _ _ _ q])
    qed
  qed
qed

section \<open>A packet sink that makes all the calls\<close>

definition combined :: "'s MediaTsPacketSink \<Rightarrow> 's MediaTsIncrementalPacketSink \<Rightarrow> 's MediaTsPacketSink" where
  "combined sink k =
     \<lparr>onPacket = (\<lambda>s v.
        case onPacketEvidence k s \<lparr>ev_byteOffset = pv_byteOffset v, ev_pid = pv_pid v, ev_payloadUnitStart = pv_payloadUnitStart v,
               ev_continuityCounter = pv_continuityCounter v, ev_discontinuity = pv_discontinuity v, ev_pcr27Mhz = pv_pcr27Mhz v\<rparr> of
          (s, Inl e) \<Rightarrow> (s, failure e)
        | (s, Inr _) \<Rightarrow>
            (case (if \<not> pv_payloadUnitStart v \<or> pv_payload v = [] \<or> 3 \<le> length (pv_payload v)
                   then onPacketPrefix k s \<lparr>pre_byteOffset = pv_byteOffset v, pre_pid = pv_pid v, pre_payloadUnitStart = pv_payloadUnitStart v,
                          pre_pesStart = (pv_payloadUnitStart v \<and> pv_payload v \<noteq> [] \<and> pesStartAt (pv_payload v) 0)\<rparr>
                   else (s, success ())) of
               (s, Inl e) \<Rightarrow> (s, failure e)
             | (s, Inr _) \<Rightarrow> onPacket sink s v)),
      onContinuityEvent = onContinuityEvent sink\<rparr>"

lemma combined_event: "onContinuityEvent (combined sink k) = onContinuityEvent sink"
  by (simp add: combined_def)

lemma combined_continuity: "checkContinuity (combined sink k) p h off = checkContinuity sink p h off"
  unfolding checkContinuity_def combined_event ..

text \<open>The three calls for a packet with header \<open>h\<close>, and the state that publication leaves.\<close>

definition evidence_of :: "u64 \<Rightarrow> PacketHeader \<Rightarrow> MediaTsPacketEvidenceView" where
  "evidence_of off h = \<lparr>ev_byteOffset = off, ev_pid = hd_pid h, ev_payloadUnitStart = hd_payloadUnitStart h,
     ev_continuityCounter = hd_continuityCounter h, ev_discontinuity = hd_discontinuity h, ev_pcr27Mhz = hd_pcr h\<rparr>"

definition prefix_of :: "u64 \<Rightarrow> PacketHeader \<Rightarrow> u8 list \<Rightarrow> MediaTsPacketPrefixView" where
  "prefix_of off h P = \<lparr>pre_byteOffset = off, pre_pid = hd_pid h, pre_payloadUnitStart = hd_payloadUnitStart h,
     pre_pesStart = (hd_payloadUnitStart h \<and> hd_hasPayload h \<and> pesStartAt P (hd_payloadOffset h))\<rparr>"

definition prefix_known :: "PacketHeader \<Rightarrow> u8 list \<Rightarrow> bool" where
  "prefix_known h P \<longleftrightarrow> \<not> hd_payloadUnitStart h \<or> \<not> hd_hasPayload h \<or> hd_payloadOffset h + 3 \<le> length P"

definition packet_of :: "u64 \<Rightarrow> PacketHeader \<Rightarrow> u8 list \<Rightarrow> MediaTsPacketView" where
  "packet_of off h P = \<lparr>pv_byteOffset = off, pv_pid = hd_pid h, pv_payloadUnitStart = hd_payloadUnitStart h,
     pv_continuityCounter = hd_continuityCounter h, pv_discontinuity = hd_discontinuity h, pv_pcr27Mhz = hd_pcr h,
     pv_payload = (if hd_hasPayload h then drop (hd_payloadOffset h) P else [])\<rparr>"

definition after :: "u64 \<Rightarrow> PacketHeader \<Rightarrow> bool \<Rightarrow> 's MediaTsPacketParser \<Rightarrow> 's \<Rightarrow> 's MediaTsPacketParser" where
  "after off h known p s =
     p\<lparr>tp_sink := s, tp_continuity := (tp_continuity p)(hd_pid h := Some (hd_continuityCounter h)),
       tp_publishedEvidence := Some \<lparr>pe_view = evidence_of off h, pe_hasPayload = hd_hasPayload h, pe_payloadOffset = hd_payloadOffset h,
         pe_prefixPublished = known\<rparr>\<rparr>"

lemma after_same:
  "after off h known q (tp_sink q) = q\<lparr>tp_continuity := (tp_continuity q)(hd_pid h := Some (hd_continuityCounter h)),
     tp_publishedEvidence := Some \<lparr>pe_view = evidence_of off h, pe_hasPayload = hd_hasPayload h, pe_payloadOffset = hd_payloadOffset h, pe_prefixPublished = known\<rparr>\<rparr>"
  by (cases q) (simp add: after_def)

lemma publishParsed_eq:
  assumes "checkContinuity sink p h off = (p', Inr u)"
  shows "publishParsed sink inc p P off h =
     (case publishEvidence inc p' (evidence_of off h) of
        (q, Inl e) \<Rightarrow> (q, failure e)
      | (q, Inr _) \<Rightarrow>
          (if prefix_known h P
           then (case publishPrefix inc (after off h False q (tp_sink q)) (prefix_of off h P) of
                   (q, Inl e) \<Rightarrow> (q, failure e)
                 | (q, Inr _) \<Rightarrow> (markPrefixPublished q, success ()))
           else (after off h False q (tp_sink q), success ())))"
  unfolding publishParsed_def assms prod.case sum.case Let_def after_same evidence_of_def prefix_of_def prefix_known_def ..

lemma parsePacket_after:
  assumes "publishIncrementalEvidence sink inc p P off = (after off h known p' s, Inr u)"
  shows "parsePacket sink inc p P off = (case onPacket sink s (packet_of off h P) of (s, st) \<Rightarrow> (after off h known p' s, st))"
  by (simp add: parsePacket_def assms after_def evidence_of_def packet_of_def Let_def split: prod.split)

lemma parsePacket_failed:
  "publishIncrementalEvidence sink inc p P off = (p', Inl e) \<Longrightarrow> parsePacket sink inc p P off = (p', Inl e)"
  by (simp add: parsePacket_def)

text \<open>The calls of the combined sink are those that the incremental sink and the sink get.\<close>

lemma combined_onPacket:
  assumes "parseHeader P = HeaderParsed h" and "length P = 188" and "onPacketEvidence k s (evidence_of off h) = (s1, e1)"
    and "(if prefix_known h P then onPacketPrefix k s1 (prefix_of off h P) else (s1, Inr ())) = (s2, e2)"
  shows "onPacket (combined sink k) s (packet_of off h P) =
     (case e1 of Inl e \<Rightarrow> (s1, failure e) | Inr _ \<Rightarrow> (case e2 of Inl e \<Rightarrow> (s2, failure e) | Inr _ \<Rightarrow> onPacket sink s2 (packet_of off h P)))"
proof -
  let ?v = "packet_of off h P"
  have nonempty: "pv_payload ?v = [] \<longleftrightarrow> \<not> hd_hasPayload h" using parseHeader_extend(3) [OF assms(1)] assms(2) by (auto simp: packet_of_def)
  then have known: "prefix_known h P \<longleftrightarrow> \<not> pv_payloadUnitStart ?v \<or> pv_payload ?v = [] \<or> 3 \<le> length (pv_payload ?v)"
    by (auto simp: packet_of_def prefix_known_def)
  have "prefix_of off h P = \<lparr>pre_byteOffset = pv_byteOffset ?v, pre_pid = pv_pid ?v, pre_payloadUnitStart = pv_payloadUnitStart ?v,
      pre_pesStart = (pv_payloadUnitStart ?v \<and> pv_payload ?v \<noteq> [] \<and> pesStartAt (pv_payload ?v) 0)\<rparr>" if "prefix_known h P"
    using that nonempty by (auto simp: packet_of_def prefix_of_def prefix_known_def pesStartAt_def add.commute)
  moreover have "evidence_of off h = \<lparr>ev_byteOffset = pv_byteOffset ?v, ev_pid = pv_pid ?v, ev_payloadUnitStart = pv_payloadUnitStart ?v,
      ev_continuityCounter = pv_continuityCounter ?v, ev_discontinuity = pv_discontinuity ?v, ev_pcr27Mhz = pv_pcr27Mhz ?v\<rparr>"
    by (simp add: evidence_of_def packet_of_def)
  ultimately show ?thesis using assms(3,4) known by (cases e1; cases e2; cases "prefix_known h P") (simp_all add: combined_def)
qed

lemma publish_calls:
  assumes "checkContinuity sink p h off = (p', Inr u)" and "onPacketEvidence k (tp_sink p') (evidence_of off h) = (s1, e1)"
    and "(if prefix_known h P then onPacketPrefix k s1 (prefix_of off h P) else (s1, Inr ())) = (s2, e2)"
  shows "case e1 of Inl e \<Rightarrow> snd (publishParsed sink (Some k) p P off h) = Inl e
     | Inr _ \<Rightarrow> (case e2 of Inl e \<Rightarrow> snd (publishParsed sink (Some k) p P off h) = Inl e
                  | Inr _ \<Rightarrow> publishParsed sink (Some k) p P off h = (after off h (prefix_known h P) p' s2, Inr ()))"
  unfolding publishParsed_eq [OF assms(1)] using assms(2,3)
  by (cases "prefix_known h P"; cases e1; cases e2) (simp_all add: publishEvidence_def publishPrefix_def markPrefixPublished_def after_def)

lemma combined_parsePacket:
  assumes "length P = 188" and "\<not> published_at off p" and "parsePacket (combined sink k) None p P off = (p1, st1)"
    and "parsePacket sink (Some k) p P off = (p2, st2)"
  shows "st1 = st2 \<and> (st1 = Inr () \<longrightarrow> p1 = p2)"
proof (cases "parseHeader P")
  case HeaderInvalid
  then have "parsePacket (combined sink k) None p P off = (p, failure InvalidArgument)" "parsePacket sink (Some k) p P off = (p, failure InvalidArgument)"
    by (simp_all add: parsePacket_failed publish_fresh [OF assms(2)])
  then show ?thesis using assms(3,4) by simp
next
  case (HeaderParsed h)
  note fresh = publish_fresh [OF assms(2)] HeaderParsed HeaderResult.case
  obtain p' st where c: "checkContinuity sink p h off = (p', st)" by fastforce
  show ?thesis
  proof (cases st)
    case (Inl e)
    then have "parsePacket (combined sink k) None p P off = (p', failure e)" "parsePacket sink (Some k) p P off = (p', failure e)"
      by (simp_all add: parsePacket_failed fresh publishParsed_def combined_continuity c)
    then show ?thesis using assms(3,4) by simp
  next
    case (Inr u)
    let ?known = "prefix_known h P"
    obtain s1 e1 where e: "onPacketEvidence k (tp_sink p') (evidence_of off h) = (s1, e1)" by fastforce
    obtain s2 e2 where f: "(if ?known then onPacketPrefix k s1 (prefix_of off h P) else (s1, Inr ())) = (s2, e2)" by fastforce
    have "publishIncrementalEvidence (combined sink k) None p P off = (after off h ?known p' (tp_sink p'), Inr ())"
      unfolding fresh by (subst publishParsed_eq [of _ _ _ _ p' u])
        (simp_all add: c Inr combined_continuity publishEvidence_def publishPrefix_def markPrefixPublished_def after_def)
    note left = parsePacket_after [OF this] combined_onPacket [OF HeaderParsed assms(1) e f, of sink]
    note calls = publish_calls [OF c [unfolded Inr] e f]
    show ?thesis
    proof (cases "isl e1 \<or> isl e2")
      case True
      then show ?thesis using calls assms(3,4) parsePacket_failed [of sink "Some k" p P off] unfolding left fresh
        by (cases e1; cases e2; cases "publishParsed sink (Some k) p P off h") auto
    next
      case False
      then have "publishIncrementalEvidence sink (Some k) p P off = (after off h ?known p' s2, Inr ())" unfolding fresh using calls by (cases e1; cases e2) auto
      from parsePacket_after [OF this] False show ?thesis using assms(3,4) unfolding left by (cases e1; cases e2) (auto split: prod.splits)
    qed
  qed
qed (use parseHeader_whole [OF assms(1)] in simp)

section \<open>The loop\<close>

text \<open>What was announced lies before the offset at which the parser stands.\<close>

definition fresh :: "u64 \<Rightarrow> 's MediaTsPacketParser \<Rightarrow> bool" where
  "fresh off p \<longleftrightarrow> (case tp_publishedEvidence p of None \<Rightarrow> True | Some e \<Rightarrow> ev_byteOffset (pe_view e) < off)"

lemma fresh_not_published: "fresh off p \<Longrightarrow> \<not> published_at off p"
  by (auto simp: fresh_def published_at_def split: option.splits)

lemma fresh_bare: "bare p = bare q \<Longrightarrow> fresh off p = fresh off q"
  using bare_fields(3) [of p] bare_fields(3) [of q] by (simp add: fresh_def)

lemma offset_advances: "unat off + n < 2 ^ 64 \<Longrightarrow> off \<le> off + of_nat n" "unat off + n < 2 ^ 64 \<Longrightarrow> 0 < n \<Longrightarrow> off < off + of_nat n"
  "unat off + n < 2 ^ 64 \<Longrightarrow> unat (off + of_nat n :: u64) = unat off + n"
  by (simp_all add: word_le_nat_alt word_less_nat_alt unat_word_ariths unat_of_nat)

lemma fresh_advance: "fresh off p \<Longrightarrow> unat off + n < 2 ^ 64 \<Longrightarrow> fresh (off + of_nat n) p"
  using offset_advances(1) [of off n] by (auto simp: fresh_def split: option.split)

lemma published_fresh: "published_at off p \<Longrightarrow> unat off + 188 < 2 ^ 64 \<Longrightarrow> fresh (off + 188) p"
  using offset_advances(2) [of off 188] by (auto simp: fresh_def published_at_def split: option.splits)

text \<open>The loop with an incremental sink against the plain loop with the combined sink: the retained bytes are published at the end.\<close>

definition publish_retained :: "'s MediaTsPacketSink \<Rightarrow> 's MediaTsIncrementalPacketSink \<Rightarrow> 's MediaTsPacketParser \<Rightarrow> 's MediaTsPacketParser \<times> Status" where
  "publish_retained sink k r =
     (if tp_strideLocked r then publishIncrementalEvidence sink (Some k) r (tp_carry r) (tp_carryOffset r) else (r, success ()))"

definition quiet :: "'s MediaTsPacketSink \<Rightarrow> 's MediaTsIncrementalPacketSink \<Rightarrow> u64 \<Rightarrow> 's MediaTsPacketParser \<times> Status \<Rightarrow> 's MediaTsPacketParser \<times> Status \<Rightarrow> bool" where
  "quiet sink k off plain got \<longleftrightarrow>
     (case plain of (r, Inl e) \<Rightarrow> snd got = Inl e | (r, Inr _) \<Rightarrow> got = publish_retained sink k r \<and> fresh off r)"

lemma quiet_short:
  assumes "aligned p bytes i io off" and "fresh off p" and "tp_strideLocked p" and "length (logical p bytes i) < 189"
  shows "quiet sink k off (parser_loop (combined sink k) None bytes io p i) (parser_loop sink (Some k) bytes io p i)"
  using assms by (cases "tp_carry p = []"; subst (1 2) parser_loop.simps)
    (simp_all add: quiet_def publish_retained_def logical_def aligned_def fresh_def Let_def)

lemma quiet_packet:
  fixes p :: "'s MediaTsPacketParser"
  assumes "aligned p bytes i io off" and "fresh off p" and "tp_strideLocked p" and "\<not> length (logical p bytes i) < 189"
    and "logical p bytes i ! 0 = 0x47" and "logical p bytes i ! 188 = 0x47" and "unat off + length (logical p bytes i) < 2 ^ 64"
  shows "(\<exists>e. snd (parser_loop (combined sink k) None bytes io p i) = Inl e \<and> snd (parser_loop sink (Some k) bytes io p i) = Inl e) \<or>
    (\<exists>p' i'. parser_loop (combined sink k) None bytes io p i = parser_loop (combined sink k) None bytes io p' i' \<and>
       parser_loop sink (Some k) bytes io p i = parser_loop sink (Some k) bytes io p' i' \<and>
       moved bytes io off 188 True p i p' i' \<and> fresh (off + 188) p')"
proof -
  let ?P = "take 188 (logical p bytes i)"
  define p0 where "p0 = (if tp_carry p = [] then p else p\<lparr>tp_copiedPacketBytes := tp_copiedPacketBytes p + 188\<rparr>)"
  have len: "length ?P = 188" using assms(4) by simp
  have p0: "\<not> published_at off p0" using fresh_not_published [OF assms(2)] by (simp add: p0_def published_at_def)
  obtain q1 st1 where q1: "parsePacket (combined sink k) None p0 ?P off = (q1, st1)" by fastforce
  obtain q2 st2 where q2: "parsePacket sink (Some k) p0 ?P off = (q2, st2)" by fastforce
  note same = combined_parsePacket [OF len p0 q1 q2]
  define step :: "'s MediaTsPacketParser \<Rightarrow> 's MediaTsPacketParser \<times> nat" where "step = (\<lambda>q. if tp_carry p = [] then (q, i + 188) else discardLogicalPrefix 188 q i)"
  have loop: "parser_loop sink inc bytes io p i =
      (case parsePacket sink inc p0 ?P off of (q, st) \<Rightarrow> (case step q of (q, j) \<Rightarrow> if isl st then (q, st) else parser_loop sink inc bytes io q j))" for sink inc
  proof (cases "tp_carry p = []")
    case True
    then have "logical p bytes i = drop i bytes" "off = io + of_nat i" using assms(1) by (simp_all add: logical_def aligned_def)
    then show ?thesis using True assms(3-6) by (subst parser_loop.simps) (simp add: p0_def step_def Let_def split: prod.split)
  next
    case False
    then have "tp_carryOffset p = off" "tp_carry p ! 0 = 0x47" using assms(1,5) by (simp_all add: logical_def aligned_def nth_append)
    then show ?thesis using False assms(3,4,6) by (subst parser_loop.simps) (simp add: p0_def step_def Let_def)
  qed
  obtain p' j where p': "step q1 = (p', j)" by fastforce
  show ?thesis
  proof (cases st1)
    case (Inl e)
    then have "snd (parser_loop (combined sink k) None bytes io p i) = Inl e" "snd (parser_loop sink (Some k) bytes io p i) = Inl e"
      using same by (simp_all add: loop q1 q2 split: prod.split)
    then show ?thesis by blast
  next
    case (Inr u)
    then have ok: "parsePacket (combined sink k) None p0 ?P off = (q1, Inr ())" using q1 by simp
    have fields: "tp_carry q1 = tp_carry p" "tp_carryOffset q1 = tp_carryOffset p" "tp_strideLocked q1" "tp_nextInputOffset q1 = tp_nextInputOffset p"
        "tp_finished q1 = tp_finished p" "tp_finishFailure q1 = tp_finishFailure p"
      using parsePacket_fields [OF q1] assms(3) by (simp_all add: p0_def)
    have logical: "logical q1 bytes i = logical p bytes i" by (simp add: logical_def fields(1))
    have "moved bytes io off 188 True p i p' j"
    proof (cases "tp_carry p = []")
      case True
      then show ?thesis using p' fields assms(1,4) by (auto simp: step_def logical_def intro!: moved_input)
    next
      case False
      then have "moved bytes io off 188 True q1 i p' j"
        using p' fields logical assms(1,4) by (intro moved_discard) (auto simp: step_def aligned_def)
      then show ?thesis using fields logical by (simp add: moved_def)
    qed
    moreover have "bare p' = bare q1" using p' bare_discard [of 188 q1 i p' j] by (auto simp: step_def split: if_splits)
    then have "fresh (off + 188) p'"
      using parsePacket_published [OF ok len] published_fresh [of off q1] fresh_bare [of p' q1] assms(4,7) by simp
    moreover have "parser_loop (combined sink k) None bytes io p i = parser_loop (combined sink k) None bytes io p' j"
        "parser_loop sink (Some k) bytes io p i = parser_loop sink (Some k) bytes io p' j"
      using same p' Inr by (auto simp: loop q1 q2)
    ultimately show ?thesis by blast
  qed
qed

lemma loop_quiet:
  assumes "aligned p bytes i io off" and "fresh off p" and "unat off + length (logical p bytes i) < 2 ^ 64"
    and "frames (tp_strideLocked p) (logical p bytes i) off = (fs, l', rest, off')"
  shows "quiet sink k off' (parser_loop (combined sink k) None bytes io p i) (parser_loop sink (Some k) bytes io p i)"
  using assms
proof (induction "tp_strideLocked p" "logical p bytes i" off arbitrary: p i fs rule: frames.induct)
  case (1 off p i)
  note prems = 1(4-7)
  have advance: "unat (off + of_nat n) + length (logical p' bytes i') < 2 ^ 64" "fresh (off + of_nat n) p"
    if "moved bytes io off n l p i p' i'" "n \<le> length (logical p bytes i)" for n l p' i'
  proof -
    have "length (logical p' bytes i') = length (logical p bytes i) - n" using that(1) by (simp add: moved_def)
    moreover have "unat off + n < 2 ^ 64" using prems(3) that(2) by simp
    ultimately show "unat (off + of_nat n) + length (logical p' bytes i') < 2 ^ 64" "fresh (off + of_nat n) p"
      using prems(3) that(2) fresh_advance [OF prems(2)] by (simp_all add: offset_advances(3))
  qed
  show ?case
  proof (cases "tp_strideLocked p")
    case locked: True
    show ?thesis
    proof (cases "length (logical p bytes i) < 189")
      case True
      then have "off' = off" using prems(4) locked by (simp add: frames.simps)
      then show ?thesis using quiet_short [OF prems(1,2) locked True] by simp
    next
      case long: False
      show ?thesis
      proof (cases "logical p bytes i ! 0 \<noteq> 0x47 \<or> logical p bytes i ! 188 \<noteq> 0x47")
        case True
        obtain p' i' where same: "\<forall>sink inc. inc = None \<or> \<not> published_at off p \<longrightarrow> parser_loop sink inc bytes io p i = parser_loop sink inc bytes io p' i'"
            and m: "moved bytes io off 1 False p i p' i'" "bare p' = bare p"
          by (rule loop_unlock [OF prems(1) locked long True])
        have f: "frames False (drop 1 (logical p bytes i)) (off + 1) = (fs, l', rest, off')"
          using prems(4) locked long True by (subst (asm) frames.simps) simp
        have "quiet sink k off' (parser_loop (combined sink k) None bytes io p' i') (parser_loop sink (Some k) bytes io p' i')"
          by (rule 1(1) [OF locked long True]) (use m f advance [OF m(1)] fresh_bare [OF m(2)] long in \<open>simp_all add: moved_def\<close>)
        then show ?thesis using same fresh_not_published [OF prems(2)] by metis
      next
        case sync: False
        obtain gs where f: "frames True (drop 188 (logical p bytes i)) (off + 188) = (gs, l', rest, off')"
          using prems(4) locked long sync by (subst (asm) frames.simps) (auto split: prod.splits)
        have s: "logical p bytes i ! 0 = 0x47" "logical p bytes i ! 188 = 0x47" using sync by auto
        from quiet_packet [OF prems(1,2) locked long s prems(3), of sink k] show ?thesis
        proof (elim disjE exE conjE)
          fix p' i'
          assume same: "parser_loop (combined sink k) None bytes io p i = parser_loop (combined sink k) None bytes io p' i'"
              "parser_loop sink (Some k) bytes io p i = parser_loop sink (Some k) bytes io p' i'"
            and m: "moved bytes io off 188 True p i p' i'" "fresh (off + 188) p'"
          have "quiet sink k off' (parser_loop (combined sink k) None bytes io p' i') (parser_loop sink (Some k) bytes io p' i')"
            by (rule 1(2) [OF locked long sync]) (use m f advance(1) [OF m(1)] long in \<open>simp_all add: moved_def\<close>)
          then show ?thesis using same by simp
        qed (auto simp: quiet_def split: prod.split)
      qed
    qed
  next
    case unlocked: False
    show ?thesis
    proof (cases "acquire (logical p bytes i)")
      case None
      have "off' = off + of_nat (length (logical p bytes i) - 188)" using prems(4) unlocked None by (simp add: frames.simps)
      then have "fresh off' p" using prems(2,3) fresh_advance [of off p "length (logical p bytes i) - 188"] by simp
      moreover have "parser_loop sink inc bytes io p i = (retainLogicalTail p bytes io i, success ())" for sink inc
        using unlocked None by (subst parser_loop.simps) (auto simp: logical_def Let_def)
      ultimately show ?thesis using unlocked by (simp add: quiet_def publish_retained_def retainLogicalTail_def fresh_def Let_def)
    next
      case (Some n)
      obtain p' i' where same: "\<forall>sink inc. parser_loop sink inc bytes io p i = parser_loop sink inc bytes io p' i'"
          and m: "moved bytes io off n True p i p' i'" "bare p' = bare p"
        by (rule loop_acquire [OF prems(1) unlocked Some])
      have f: "frames True (drop n (logical p bytes i)) (off + of_nat n) = (fs, l', rest, off')"
        using prems(4) unlocked Some by (subst (asm) frames.simps) simp
      have n: "n \<le> length (logical p bytes i)" using Some by (simp add: acquire_Some)
      have "quiet sink k off' (parser_loop (combined sink k) None bytes io p' i') (parser_loop sink (Some k) bytes io p' i')"
        by (rule 1(3) [OF unlocked Some]) (use m f advance [OF m(1) n] fresh_bare [OF m(2)] in \<open>simp_all add: moved_def\<close>)
      then show ?thesis using same by metis
    qed
  qed
qed

section \<open>Pushes\<close>

lemma push_quiet:
  assumes "between r" and "fresh (retainedOffset r) r" and "unat (tp_nextInputOffset r) + length c < 2 ^ 64"
    and "length (tp_carry r) \<le> unat (tp_nextInputOffset r)"
    and "frames (tp_strideLocked r) (tp_carry r @ c) (retainedOffset r) = (fs, l', rest, off')"
  shows "quiet sink k off' (parser_push (combined sink k) None r c) (parser_push sink (Some k) r c)"
proof -
  let ?r = "r\<lparr>tp_nextInputOffset := tp_nextInputOffset r + of_nat (length c)\<rparr>"
  have "\<not> length c > 18446744073709551615 - unat (tp_nextInputOffset r)" using assms(3) by simp
  then have push: "parser_push sink inc r c = parser_loop sink inc c (tp_nextInputOffset r) ?r 0" for sink inc
    using assms(1) by (simp add: parser_push_def between_def)
  have aligned: "aligned ?r c 0 (tp_nextInputOffset r) (retainedOffset r)" using assms(1) by (simp add: aligned_def between_def retainedOffset_def)
  have "length (tp_carry r) \<le> 188" using assms(1) by (simp add: between_def)
  then have offset: "unat (retainedOffset r) + length (tp_carry r) = unat (tp_nextInputOffset r)"
    using assms(4) by (simp add: retainedOffset_def unat_sub word_le_nat_alt unat_of_nat)
  have "fresh (retainedOffset r) ?r" using assms(2) by (simp add: fresh_def)
  then show ?thesis unfolding push using assms(3,5) offset by (intro loop_quiet [OF aligned]) (simp_all add: logical_def)
qed

lemma push_carry:
  assumes "between p" and "unat (tp_nextInputOffset p) + length c < 2 ^ 64"
    and "frames (tp_strideLocked p) (tp_carry p @ c) (retainedOffset p) = (gs, lg, rg, og)" and "parser_push sink None p c = (p', Inr ())"
  shows "length (tp_carry p') \<le> length (tp_carry p) + length c"
proof -
  obtain q st where "feed sink (bare p) gs = (q, st)" by fastforce
  then show ?thesis using push_refines [OF assms(1-3), of sink] assms(4) frames_rest [OF assms(3)] by (cases st) (auto simp: ends_def)
qed

lemma publish_empty: "publishIncrementalEvidence sink inc p [] off = (p, success ())"
  by (simp add: publishIncrementalEvidence_def parseHeader_def split: option.split)

lemma push_settled:
  assumes "between r" and "fresh (retainedOffset r) r" and "unat (tp_nextInputOffset r) + length c < 2 ^ 64"
    and "length (tp_carry r) \<le> unat (tp_nextInputOffset r)"
    and "publish_retained sink k r = (q, Inr ())" and "parser_push sink (Some k) q c = (q', Inr ())"
  shows "parser_push sink (Some k) r c = (q', Inr ())"
proof (cases "tp_strideLocked r \<and> tp_carry r \<noteq> []")
  case True
  let ?u = "\<lambda>p. p\<lparr>tp_nextInputOffset := tp_nextInputOffset r + of_nat (length c)\<rparr>"
  have published: "publishIncrementalEvidence sink (Some k) r (tp_carry r) (tp_carryOffset r) = (q, Inr ())" using True assms(5) by (simp add: publish_retained_def)
  have same: "tp_finished q = tp_finished r" "tp_nextInputOffset q = tp_nextInputOffset r" using framing_publishIncremental [OF published] by (simp_all add: framing_def)
  have fits: "\<not> length c > 18446744073709551615 - unat (tp_nextInputOffset r)" using assms(3) by simp
  have "publishIncrementalEvidence sink (Some k) (?u r) (tp_carry (?u r)) (tp_carryOffset (?u r)) = (?u q, Inr ())"
    using published by (simp add: inert_publish)
  then have "parser_loop sink (Some k) c (tp_nextInputOffset r) (?u r) 0 = (q', Inr ())"
    by (rule loop_dirty) (use True assms(1,6) same fits in \<open>simp_all add: parser_push_def between_def\<close>)
  then show ?thesis using assms(1) fits by (simp add: parser_push_def between_def)
next
  case False
  then have "q = r" using assms(5) by (auto simp: publish_retained_def publish_empty split: if_splits)
  then show ?thesis using assms(6) by simp
qed

lemma chunks_settled:
  assumes "between r" and "fresh (retainedOffset r) r" and "unat (tp_nextInputOffset r) + length (concat chunks) < 2 ^ 64"
    and "length (tp_carry r) \<le> unat (tp_nextInputOffset r)"
    and "publish_retained sink k r = (q, Inr ())" and "push_chunks sink (Some k) q chunks = (q', Inr ())"
  shows "\<exists>r'. push_chunks (combined sink k) None r chunks = (r', Inr ()) \<and> publish_retained sink k r' = (q', Inr ())"
  using assms
proof (induction chunks arbitrary: r q)
  case (Cons c cs)
  obtain q1 where q1: "parser_push sink (Some k) q c = (q1, Inr ())" "push_chunks sink (Some k) q1 cs = (q', Inr ())"
    using Cons.prems(6) by (auto split: prod.splits sum.splits)
  have bound: "unat (tp_nextInputOffset r) + length c < 2 ^ 64" using Cons.prems(3) by simp
  obtain fs l' rest off' where f: "frames (tp_strideLocked r) (tp_carry r @ c) (retainedOffset r) = (fs, l', rest, off')" by (metis prod_cases4)
  obtain r' st where r': "parser_push (combined sink k) None r c = (r', st)" by fastforce
  have "quiet sink k off' (r', st) (q1, Inr ())"
    using push_quiet [OF Cons.prems(1,2) bound Cons.prems(4) f, of sink k] push_settled [OF Cons.prems(1,2) bound Cons.prems(4,5) q1(1)] r' by simp
  then have ok: "st = Inr ()" "publish_retained sink k r' = (q1, Inr ())" "fresh off' r'" by (auto simp: quiet_def split: sum.splits)
  note state = push_between [OF Cons.prems(1) bound f r' [unfolded ok(1)]]
  have carry: "length (tp_carry r') \<le> unat (tp_nextInputOffset r')"
    using push_carry [OF Cons.prems(1) bound f r' [unfolded ok(1)]] Cons.prems(4) state(3) by simp
  have "\<exists>r''. push_chunks (combined sink k) None r' cs = (r'', Inr ()) \<and> publish_retained sink k r'' = (q', Inr ())"
    by (rule Cons.IH [OF state(1) _ _ carry ok(2) q1(2)]) (use ok(3) state Cons.prems(3) in simp_all)
  then show ?case using r' ok(1) by simp
qed simp

text \<open>What the retained bytes publish does not depend on the copy statistics and the offset of an empty carry.\<close>

lemma observable_fields:
  assumes "observable r1 = observable r2"
  shows "tp_strideLocked r1 = tp_strideLocked r2" "tp_carry r1 = tp_carry r2" "tp_carry r1 \<noteq> [] \<Longrightarrow> r2 = r1\<lparr>tp_copiedPacketBytes := tp_copiedPacketBytes r2\<rparr>"
  using assms by (cases r1; cases r2; auto simp: observable_def)+

lemma publish_observable:
  assumes "observable r1 = observable r2" and "publish_retained sink k r1 = (q1, Inr ())"
  shows "\<exists>q2. publish_retained sink k r2 = (q2, Inr ()) \<and> observable q1 = observable q2"
proof (cases "tp_strideLocked r1 \<and> tp_carry r1 \<noteq> []")
  case True
  let ?u = "\<lambda>p. p\<lparr>tp_copiedPacketBytes := tp_copiedPacketBytes r2\<rparr>"
  have r2: "r2 = ?u r1" using observable_fields(3) [OF assms(1)] True by simp
  have "publishIncrementalEvidence sink (Some k) (?u r1) (tp_carry r1) (tp_carryOffset r1) = (?u q1, Inr ())"
    using assms(2) True by (simp add: publish_retained_def inert_publish)
  then have "publish_retained sink k (?u r1) = (?u q1, Inr ())" using True by (simp add: publish_retained_def)
  moreover have "observable q1 = observable (?u q1)" by (simp add: observable_def)
  ultimately show ?thesis using r2 by metis
next
  case False
  then have "q1 = r1" using assms(2) by (auto simp: publish_retained_def publish_empty split: if_splits)
  moreover have "publish_retained sink k r2 = (r2, success ())"
    using False observable_fields(1,2) [OF assms(1)] by (auto simp: publish_retained_def publish_empty)
  ultimately show ?thesis using assms(1) by simp
qed

lemma chunking_irrelevant_incremental:
  assumes "parser_create 188 s = Inr p" and "length (concat chunks) < 2 ^ 64" and "push_chunks sink (Some k) p chunks = (q1, Inr ())"
  shows "\<exists>q2. parser_push sink (Some k) p (concat chunks) = (q2, Inr ()) \<and> observable q1 = observable q2"
proof -
  note B = created_between [OF assms(1)]
  have start: "between p" "fresh (retainedOffset p) p" "publish_retained sink k p = (p, Inr ())"
      "unat (tp_nextInputOffset p) + length (concat chunks) < 2 ^ 64" "length (tp_carry p) \<le> unat (tp_nextInputOffset p)"
    using assms(1,2) B by (auto simp: parser_create_def fresh_def publish_retained_def)
  obtain r1 where r1: "push_chunks (combined sink k) None p chunks = (r1, Inr ())" "publish_retained sink k r1 = (q1, Inr ())"
    using chunks_settled [OF start(1,2,4,5,3) assms(3)] by blast
  obtain r2 st where r2: "parser_push (combined sink k) None p (concat chunks) = (r2, st)" by fastforce
  have same: "st = Inr ()" "observable r1 = observable r2" using chunking_irrelevant_plain [OF assms(1,2) r1(1) r2] by simp_all
  obtain fs l' rest off' where f: "frames (tp_strideLocked p) (tp_carry p @ concat chunks) (retainedOffset p) = (fs, l', rest, off')" by (metis prod_cases4)
  have "parser_push sink (Some k) p (concat chunks) = publish_retained sink k r2"
    using push_quiet [OF start(1,2,4,5) f, of sink k] r2 same(1) by (simp add: quiet_def)
  then show ?thesis using publish_observable [OF same(2) r1(2)] by simp
qed

text \<open>
  C14. How a transport stream is cut into chunks. Without an incremental sink it does not matter: pushing the chunks one after the other
  has the status of pushing their concatenation at once. With or without one, whenever the chunks are all accepted, so is the
  concatenation at once, and the parser and the sinks end in the same state (so both sinks got calls with the same effect) up to the copy
  statistics and the offset of an empty carry. With an incremental sink, which \<^verbatim>\<open>MediaTsInputSession\<close> always has, the
  status of a chunked push can be a failure where the push at once succeeds: a chunk that ends inside a packet publishes what is
  known of it, and framing that is lost there afterwards is an error instead of a search for the next sync byte. Nothing is claimed of the
  states after a failure.
\<close>

theorem chunking_irrelevant:
  assumes "parser_create 188 s = Inr p" and "length (concat chunks) < 2 ^ 64"
    and "push_chunks sink inc p chunks = (q1, st1)" and "parser_push sink inc p (concat chunks) = (q2, st2)"
  shows "(inc = None \<longrightarrow> st1 = st2) \<and> (st1 = Inr () \<longrightarrow> st2 = Inr () \<and> observable q1 = observable q2)"
proof (cases inc)
  case None
  then show ?thesis using chunking_irrelevant_plain [OF assms(1,2), of sink q1 st1 q2 st2] assms(3,4) by auto
next
  case (Some k)
  then show ?thesis using chunking_irrelevant_incremental [OF assms(1,2), of sink k q1] assms(3,4) by auto
qed

text \<open>An incremental sink that records the offsets and PIDs it is told of.\<close>

definition announcer :: "(u64 \<times> u16 \<times> u8 list) list MediaTsIncrementalPacketSink" where
  "announcer = \<lparr>onPacketEvidence = (\<lambda>s v. (s @ [(ev_byteOffset v, ev_pid v, [])], success ())),
                onPacketPrefix = (\<lambda>s v. (s @ [(pre_byteOffset v, pre_pid v, [1])], success ()))\<rparr>"

lemma announced_packets:
  "apfst (\<lambda>q. (tp_publishedEvidence q, tp_continuity q 0x100)) (parsePacket recorder (Some announcer) (projr (parser_create 188 [])) (packet_with 0 7) 0) =
     ((Some \<lparr>pe_view = \<lparr>ev_byteOffset = 0, ev_pid = 0x100, ev_payloadUnitStart = False, ev_continuityCounter = 0, ev_discontinuity = False, ev_pcr27Mhz = None\<rparr>,
        pe_hasPayload = True, pe_payloadOffset = 4, pe_prefixPublished = True\<rparr>, Some 0), Inr ())"
  "parseHeader [0x47, 1, 0, 0x11] =
     HeaderParsed \<lparr>hd_pid = 0x100, hd_payloadUnitStart = False, hd_continuityCounter = 1, hd_hasPayload = True, hd_payloadOffset = 4,
       hd_discontinuity = False, hd_pcr = None\<rparr>"
  by code_simp+

lemma announced_first:
  assumes "rest \<noteq> []" and "rest ! 0 = 0x47" and "length rest < 1000"
  obtains q where "parser_push recorder (Some announcer) (projr (parser_create 188 [])) (packet_with 0 7 @ rest) =
      parser_loop recorder (Some announcer) (packet_with 0 7 @ rest) 0 (q\<lparr>tp_nextInputOffset := 188 + of_nat (length rest), tp_strideLocked := True\<rparr>) 188"
    and "tp_carry q = []" and "\<not> tp_finished q" and "\<not> published_at 188 q" and "tp_continuity q 0x100 = Some 0"
proof -
  let ?p = "projr (parser_create 188 []) :: (u64 \<times> u16 \<times> u8 list) list MediaTsPacketParser"
  let ?s = "packet_with 0 7 @ rest"
  let ?u = "\<lambda>p. p\<lparr>tp_nextInputOffset := 188 + of_nat (length rest)\<rparr>" and ?l = "\<lambda>p. p\<lparr>tp_strideLocked := True\<rparr>"
  have start: "tp_carry ?p = []" "tp_nextInputOffset ?p = 0" "\<not> tp_finished ?p" "\<not> tp_strideLocked ?p" by (simp_all add: parser_create_def)
  have packet: "length (packet_with 0 7) = 188" "packet_with 0 7 ! 0 = 0x47" by (simp_all add: packet_with_def)
  then have sync: "?s ! 0 = 0x47" "?s ! 188 = 0x47" "take 188 ?s = packet_with 0 7" "\<not> length ?s < 189" "length ?s = 188 + length rest"
    using assms(1,2) by (auto simp: nth_append Suc_le_eq)
  then have found: "acquire ?s = Some 0" using assms(1) by (simp add: acquire_Some)
  obtain q where q: "parsePacket recorder (Some announcer) ?p (packet_with 0 7) 0 = (q, Inr ())"
      "\<not> published_at 188 q" "tp_continuity q 0x100 = Some 0"
    using announced_packets(1) by (auto simp: apfst_def map_prod_def published_at_def split: prod.splits)
  have fields: "tp_carry q = []" "\<not> tp_finished q" using parsePacket_fields [OF q(1)] start by simp_all
  have first: "parsePacket recorder (Some announcer) (?l (?u ?p)) (packet_with 0 7) 0 = (?l (?u q), Inr ())"
    using q(1) by (simp add: inert_parsePacket)
  have "parser_push recorder (Some announcer) ?p ?s = parser_loop recorder (Some announcer) ?s 0 (?u ?p) 0"
    using start sync(5) assms(3) by (simp add: parser_push_def)
  also have "\<dots> = parser_loop recorder (Some announcer) ?s 0 (?l (?u ?p)) 0" using start found by (subst parser_loop.simps) (simp add: Let_def)
  also have "\<dots> = parser_loop recorder (Some announcer) ?s 0 (?l (?u q)) 188" using start sync first by (subst parser_loop.simps) (simp add: Let_def)
  finally show ?thesis using that fields q(2,3) by simp
qed

lemma announced_push:
  obtains q e where "parser_push recorder (Some announcer) (projr (parser_create 188 [])) (packet_with 0 7 @ [0x47, 1, 0, 0x11]) = (q, Inr ())"
    and "tp_carry q = [0x47, 1, 0, 0x11]" and "tp_carryOffset q = 188" and "tp_strideLocked q" and "\<not> tp_finished q" and "tp_nextInputOffset q = 192"
    and "tp_publishedEvidence q = Some e" and "ev_byteOffset (pe_view e) = 188" and "pe_prefixPublished e"
proof -
  let ?rest = "[0x47, 1, 0, 0x11] :: u8 list"
  let ?s = "packet_with 0 7 @ ?rest"
  obtain q where q: "parser_push recorder (Some announcer) (projr (parser_create 188 [])) ?s =
      parser_loop recorder (Some announcer) ?s 0 (q\<lparr>tp_nextInputOffset := 188 + of_nat (length ?rest), tp_strideLocked := True\<rparr>) 188"
      "tp_carry q = []" "\<not> tp_finished q" "\<not> published_at 188 q" "tp_continuity q 0x100 = Some 0"
    by (rule announced_first [of ?rest]) simp_all
  define r where "r = q\<lparr>tp_nextInputOffset := 192, tp_strideLocked := True, tp_carry := ?rest, tp_carryOffset := 188\<rparr>"
  have "drop 188 ?s = ?rest" by (simp add: packet_with_def)
  then have push: "parser_push recorder (Some announcer) (projr (parser_create 188 [])) ?s = publishIncrementalEvidence recorder (Some announcer) r ?rest 188"
    unfolding q(1) using q(2) by (subst parser_loop.simps) (simp add: Let_def r_def)
  let ?h = "\<lparr>hd_pid = 0x100, hd_payloadUnitStart = False, hd_continuityCounter = 1, hd_hasPayload = True, hd_payloadOffset = 4,
    hd_discontinuity = False, hd_pcr = None\<rparr>"
  have "\<not> published_at 188 r" using q(4) by (simp add: published_at_def r_def)
  moreover have "checkContinuity recorder r ?h 188 = (r, Inr ())" using q(5) by (simp add: checkContinuity_def r_def)
  ultimately obtain t where "publishIncrementalEvidence recorder (Some announcer) r [0x47, 1, 0, 0x11] 188 = (after 188 ?h True r t, Inr ())"
    using publish_calls [of recorder r ?h 188 r "()" announcer] by (simp add: publish_fresh announced_packets(2) announcer_def prefix_known_def)
  from that [OF push [unfolded this]] show ?thesis using q(3) by (simp add: after_def r_def evidence_of_def)
qed

text \<open>Framing that is lost in a packet of which a chunk has published the header is an error; a push at once searches for the next packet.\<close>

lemma framing_lost_example:
  "snd (push_chunks recorder (Some announcer) (projr (parser_create 188 [])) [packet_with 0 7 @ [0x47, 1, 0, 0x11], replicate 185 8]) = Inl InvalidArgument"
proof -
  obtain q e where q: "parser_push recorder (Some announcer) (projr (parser_create 188 [])) (packet_with 0 7 @ [0x47, 1, 0, 0x11]) = (q, Inr ())"
      "tp_carry q = [0x47, 1, 0, 0x11]" "tp_carryOffset q = 188" "tp_strideLocked q" "\<not> tp_finished q" "tp_nextInputOffset q = 192"
      "tp_publishedEvidence q = Some e" "ev_byteOffset (pe_view e) = 188" "pe_prefixPublished e"
    by (rule announced_push)
  have "snd (parser_push recorder (Some announcer) q (replicate 185 8)) = Inl InvalidArgument"
    unfolding parser_push_def using q(2-9) by (simp add: parser_loop.simps logical_def Let_def)
  then show ?thesis using q(1) by (auto split: prod.split sum.split)
qed

lemma framing_sought_example:
  "snd (parser_push recorder (Some announcer) (projr (parser_create 188 [])) (packet_with 0 7 @ [0x47, 1, 0, 0x11] @ replicate 185 8)) = Inr ()"
proof -
  define rest :: "u8 list" where "rest = [0x47, 1, 0, 0x11] @ replicate 185 8"
  let ?s = "packet_with 0 7 @ rest"
  have rest: "length rest = 189" "rest ! 0 = 0x47" "rest ! 188 \<noteq> 0x47" by (simp_all add: rest_def nth_append)
  then have "rest \<noteq> []" by auto
  then obtain q where q: "parser_push recorder (Some announcer) (projr (parser_create 188 [])) ?s =
      parser_loop recorder (Some announcer) ?s 0 (q\<lparr>tp_nextInputOffset := 188 + of_nat (length rest), tp_strideLocked := True\<rparr>) 188" "tp_carry q = []"
    using rest by (elim announced_first) simp_all
  have "length (packet_with 0 7) = 188" by (simp add: packet_with_def)
  then have cut: "drop 188 ?s = rest" "length (drop 189 ?s) = 188" using rest(1) by simp_all
  have "acquire (drop 189 ?s) = None" unfolding acquire_def cut(2) by simp
  then have "snd (parser_push recorder (Some announcer) (projr (parser_create 188 [])) ?s) = Inr ()" unfolding q(1) using q(2) cut(1) rest
    by (subst parser_loop.simps, simp add: Let_def, subst parser_loop.simps, simp add: Let_def)
  then show ?thesis by (simp add: rest_def)
qed

lemma announced_example:
  "snd (push_chunks recorder (Some announcer) (projr (parser_create 188 [])) [packet_with 0 7 @ [0x47, 1, 0, 0x11], replicate 184 8]) = Inr ()"
proof -
  obtain q e where q: "parser_push recorder (Some announcer) (projr (parser_create 188 [])) (packet_with 0 7 @ [0x47, 1, 0, 0x11]) = (q, Inr ())"
      "tp_carry q = [0x47, 1, 0, 0x11]" "tp_carryOffset q = 188" "tp_strideLocked q" "\<not> tp_finished q" "tp_nextInputOffset q = 192"
      "tp_publishedEvidence q = Some e" "ev_byteOffset (pe_view e) = 188" "pe_prefixPublished e"
    by (rule announced_push)
  have "snd (parser_push recorder (Some announcer) q (replicate 184 8)) = Inr ()"
    unfolding parser_push_def using q(2-9) by (simp add: parser_loop.simps logical_def publishIncrementalEvidence_def Let_def)
  then show ?thesis using q(1) by (auto split: prod.split sum.split)
qed

theorem chunking_irrelevant_witness:
  "snd (push_chunks recorder None (projr (parser_create 188 [])) example_chunks) =
     snd (parser_push recorder None (projr (parser_create 188 [])) (packet_with 0 7 @ packet_with 1 8)) \<and>
   snd (parser_push recorder (Some announcer) (projr (parser_create 188 [])) (packet_with 0 7 @ packet_with 1 8)) = Inr () \<and>
   observable (fst (push_chunks recorder (Some announcer) (projr (parser_create 188 [])) [packet_with 0 7 @ [0x47, 1, 0, 0x11], replicate 184 8])) =
     observable (fst (parser_push recorder (Some announcer) (projr (parser_create 188 [])) (packet_with 0 7 @ packet_with 1 8)))"
proof -
  let ?chunks = "[packet_with 0 7 @ [0x47, 1, 0, 0x11], replicate 184 8]"
  have cut: "concat ?chunks = packet_with 0 7 @ packet_with 1 8" "length (concat ?chunks) < 2 ^ 64"
    by (simp_all add: packet_with_def)
  have "snd (push_chunks recorder None (projr (parser_create 188 [])) example_chunks) =
     snd (parser_push recorder None (projr (parser_create 188 [])) (packet_with 0 7 @ packet_with 1 8))"
    using chunking_irrelevant [OF example_created example_stream(3) surjective_pairing surjective_pairing, where sink = recorder and inc = None]
    unfolding example_stream(2) by blast
  moreover note chunking_irrelevant [OF example_created cut(2) surjective_pairing surjective_pairing, where sink = recorder and inc = "Some announcer", unfolded cut(1)]
  ultimately show ?thesis using announced_example by blast
qed

end
