(* ===== verification/Ts_Mux_Plan.thy ===== *)
theory Ts_Mux_Plan
  imports Running_Time
begin

text \<open>
  \<^verbatim>\<open>protocol/mpegts/MediaTsMuxPlan\<close> with \<^verbatim>\<open>MediaMpegTsTimingPolicy\<close> and
  \<^verbatim>\<open>MediaTsVideoElementaryStreamContract\<close>: the validated plan of a transport stream output. An
  enumeration holds only its enumerators, so the tests for other values are not repeated.
\<close>

section \<open>Timing policy\<close>

datatype MediaMpegTsTimingConstraintSource =
  TimingSource_Unknown | ProtocolMaximum | ReceiverCapability | PreparedCadence | DeploymentServiceSlo
| PlannerDerivedMinimum

record MediaMpegTsTimingConstraint =
  tc_value :: MediaRunningTime
  tc_authority :: string
  tc_source :: MediaMpegTsTimingConstraintSource

record MediaTsOutputClockPolicy =
  cp_pcrInterval :: MediaRunningTime
  cp_maximumPcrGap :: MediaRunningTime
  cp_maximumPcrJitter :: MediaRunningTime
  cp_timestampTimeBaseNumerator :: int
  cp_timestampTimeBaseDenominator :: int

record MediaMpegTsTimingPolicy =
  tm_pcrInterval :: MediaMpegTsTimingConstraint
  tm_maximumPcrGap :: MediaMpegTsTimingConstraint
  tm_psiRepeatInterval :: MediaMpegTsTimingConstraint
  tm_maximumReleaseJitter :: MediaMpegTsTimingConstraint
  tm_timestampTimeBaseNumerator :: int
  tm_timestampTimeBaseDenominator :: int

definition constraint_valid :: "MediaMpegTsTimingConstraint \<Rightarrow> bool" where
  "constraint_valid c \<longleftrightarrow> tc_value c > 0 \<and> tc_authority c \<noteq> [] \<and> tc_source c \<noteq> TimingSource_Unknown"

definition timingPolicy_create ::
  "MediaMpegTsTimingConstraint \<Rightarrow> MediaMpegTsTimingConstraint \<Rightarrow> MediaMpegTsTimingConstraint \<Rightarrow>
   MediaMpegTsTimingConstraint \<Rightarrow> int \<Rightarrow> int \<Rightarrow> MediaMpegTsTimingPolicy Result" where
  "timingPolicy_create pcrInterval maximumPcrGap psiRepeatInterval maximumReleaseJitter numerator denominator =
     (if \<not> constraint_valid pcrInterval \<or> \<not> constraint_valid maximumPcrGap \<or>
         \<not> constraint_valid psiRepeatInterval \<or> \<not> constraint_valid maximumReleaseJitter \<or>
         tc_value maximumPcrGap \<le> tc_value pcrInterval \<or> tc_value psiRepeatInterval \<le> tc_value pcrInterval \<or>
         tc_value maximumReleaseJitter \<ge> tc_value pcrInterval \<or> numerator \<le> 0 \<or> denominator \<le> 0
      then failure InvalidArgument
      else success \<lparr>tm_pcrInterval = pcrInterval, tm_maximumPcrGap = maximumPcrGap,
                    tm_psiRepeatInterval = psiRepeatInterval, tm_maximumReleaseJitter = maximumReleaseJitter,
                    tm_timestampTimeBaseNumerator = numerator, tm_timestampTimeBaseDenominator = denominator\<rparr>)"

definition clockPolicy :: "MediaMpegTsTimingPolicy \<Rightarrow> MediaTsOutputClockPolicy" where
  "clockPolicy t =
     \<lparr>cp_pcrInterval = tc_value (tm_pcrInterval t), cp_maximumPcrGap = tc_value (tm_maximumPcrGap t),
      cp_maximumPcrJitter = tc_value (tm_maximumReleaseJitter t),
      cp_timestampTimeBaseNumerator = tm_timestampTimeBaseNumerator t,
      cp_timestampTimeBaseDenominator = tm_timestampTimeBaseDenominator t\<rparr>"

section \<open>Video elementary stream contract\<close>

datatype MediaTsVideoCodec = Codec_H264 | Codec_Hevc

datatype MediaTsNalLayout = AnnexB | LengthPrefixed

record MediaTsVideoElementaryStreamContract =
  vc_codec :: MediaTsVideoCodec
  vc_layout :: MediaTsNalLayout
  vc_nalLengthBytes :: u8
  vc_streamType :: u8

definition validCodecStreamType :: "MediaTsVideoCodec \<Rightarrow> u8 \<Rightarrow> bool" where
  "validCodecStreamType codec streamType =
     (case codec of Codec_H264 \<Rightarrow> streamType = 0x1B | Codec_Hevc \<Rightarrow> streamType = 0x24)"

definition videoContract_create ::
  "MediaTsVideoCodec \<Rightarrow> MediaTsNalLayout \<Rightarrow> u8 \<Rightarrow> u8 \<Rightarrow> MediaTsVideoElementaryStreamContract Result" where
  "videoContract_create codec layout nalLengthBytes streamType =
     (if \<not> validCodecStreamType codec streamType then failure InvalidArgument
      else
        (let contract = \<lparr>vc_codec = codec, vc_layout = layout, vc_nalLengthBytes = nalLengthBytes, vc_streamType = streamType\<rparr>
         in case layout of
              AnnexB \<Rightarrow> if nalLengthBytes \<noteq> 0 then failure InvalidArgument else success contract
            | LengthPrefixed \<Rightarrow>
                if nalLengthBytes < 1 \<or> nalLengthBytes > 4 then failure InvalidArgument else success contract))"

section \<open>Mux plan\<close>

datatype MediaTsParameterSetPolicy = Never | BeforeRandomAccess

datatype MediaOutputTransportKind = UdpDatagrams | RtpAvp

record MediaTsVideoContinuitySeeds =
  vs_pat :: u8
  vs_pmt :: u8
  vs_video :: u8

record MediaTsAudioVideoContinuitySeeds =
  as_pat :: u8
  as_pmt :: u8
  as_video :: u8
  as_audio :: u8

record MediaTsAacAdtsPlan =
  aac_mpegId :: u8
  aac_audioObjectType :: u8
  aac_samplingFrequencyIndex :: u8
  aac_channelConfiguration :: u8

record MediaTsVideoOnlyProgramPlan =
  vo_videoPid :: u16
  vo_pcrPid :: u16
  vo_videoStreamType :: u8
  vo_continuity :: MediaTsVideoContinuitySeeds

record MediaTsAudioVideoProgramPlan =
  av_videoPid :: u16
  av_audioPid :: u16
  av_pcrPid :: u16
  av_videoStreamType :: u8
  av_audioStreamType :: u8
  av_aac :: MediaTsAacAdtsPlan
  av_continuity :: MediaTsAudioVideoContinuitySeeds
  av_maximumAudioAccessUnitSamples :: int

datatype MediaTsProgramPlan = VideoOnly MediaTsVideoOnlyProgramPlan | AudioVideo MediaTsAudioVideoProgramPlan

record MediaTsMuxPlanParameters =
  mp_transportStreamId :: u16
  mp_programNumber :: u16
  mp_patPid :: u16
  mp_programMapPid :: u16
  mp_tableVersion :: u8
  mp_timing :: MediaMpegTsTimingPolicy
  mp_program :: MediaTsProgramPlan
  mp_video :: MediaTsVideoElementaryStreamContract
  mp_parameterSetPolicy :: MediaTsParameterSetPolicy
  mp_transportDecodeLead :: MediaRunningTime
  mp_startupEmissionPreroll :: MediaRunningTime
  mp_packetSize :: u16
  mp_maximumPacketsPerDatagram :: u16
  mp_transportKind :: MediaOutputTransportKind

record MediaTsMuxPlan =
  plan_parameters :: MediaTsMuxPlanParameters
  plan_clockPolicy :: MediaTsOutputClockPolicy

definition assignablePid :: "u16 \<Rightarrow> bool" where
  "assignablePid pid \<longleftrightarrow> pid \<ge> 0x0020 \<and> pid < 0x1FFF"

definition validVideoSeeds :: "MediaTsVideoContinuitySeeds \<Rightarrow> bool" where
  "validVideoSeeds s \<longleftrightarrow> vs_pat s \<le> 15 \<and> vs_pmt s \<le> 15 \<and> vs_video s \<le> 15"

definition validAudioVideoSeeds :: "MediaTsAudioVideoContinuitySeeds \<Rightarrow> bool" where
  "validAudioVideoSeeds s \<longleftrightarrow> as_pat s \<le> 15 \<and> as_pmt s \<le> 15 \<and> as_video s \<le> 15 \<and> as_audio s \<le> 15"

definition program_videoPid :: "MediaTsProgramPlan \<Rightarrow> u16" where
  "program_videoPid p = (case p of VideoOnly v \<Rightarrow> vo_videoPid v | AudioVideo a \<Rightarrow> av_videoPid a)"

definition program_pcrPid :: "MediaTsProgramPlan \<Rightarrow> u16" where
  "program_pcrPid p = (case p of VideoOnly v \<Rightarrow> vo_pcrPid v | AudioVideo a \<Rightarrow> av_pcrPid a)"

definition program_videoStreamType :: "MediaTsProgramPlan \<Rightarrow> u8" where
  "program_videoStreamType p = (case p of VideoOnly v \<Rightarrow> vo_videoStreamType v | AudioVideo a \<Rightarrow> av_videoStreamType a)"

definition maximumPacketsPerDatagram :: "nat \<Rightarrow> MediaOutputTransportKind \<Rightarrow> u16 Result" where
  "maximumPacketsPerDatagram maximumUdpPayloadBytes transportKind =
     (let protocolHeaderBytes = (case transportKind of RtpAvp \<Rightarrow> 12 | UdpDatagrams \<Rightarrow> 0)
      in if maximumUdpPayloadBytes \<le> protocolHeaderBytes then failure InvalidArgument
         else
           (let packetCount = (maximumUdpPayloadBytes - protocolHeaderBytes) div 188
            in if packetCount = 0 \<or> packetCount > 65535 then failure InvalidArgument
               else success (of_nat packetCount)))"

definition aac_valid :: "MediaTsAudioVideoProgramPlan \<Rightarrow> bool" where
  "aac_valid a \<longleftrightarrow>
     \<not> (aac_mpegId (av_aac a) > 1 \<or> aac_audioObjectType (av_aac a) < 1 \<or> aac_audioObjectType (av_aac a) > 4 \<or>
        aac_samplingFrequencyIndex (av_aac a) > 12 \<or> aac_channelConfiguration (av_aac a) < 1 \<or>
        aac_channelConfiguration (av_aac a) > 7 \<or> av_maximumAudioAccessUnitSamples a \<le> 0)"

definition muxPlan_create :: "MediaTsMuxPlanParameters \<Rightarrow> MediaTsMuxPlan Result" where
  "muxPlan_create parameters =
     (let program = mp_program parameters;
          videoPid = program_videoPid program;
          pcrPid = program_pcrPid program;
          psi = tc_value (tm_psiRepeatInterval (mp_timing parameters));
          clock = clockPolicy (mp_timing parameters)
      in if mp_transportStreamId parameters = 0 \<or> mp_programNumber parameters = 0 then failure InvalidArgument
         else if mp_patPid parameters \<noteq> 0 \<or> \<not> assignablePid (mp_programMapPid parameters) \<or>
                 \<not> assignablePid videoPid \<or> \<not> assignablePid pcrPid \<or>
                 (case program of VideoOnly _ \<Rightarrow> False | AudioVideo a \<Rightarrow> \<not> assignablePid (av_audioPid a))
              then failure InvalidArgument
         else if mp_programMapPid parameters = videoPid \<or>
                 (case program of VideoOnly _ \<Rightarrow> False
                  | AudioVideo a \<Rightarrow> mp_programMapPid parameters = av_audioPid a \<or> videoPid = av_audioPid a) \<or>
                 pcrPid \<noteq> videoPid
              then failure InvalidArgument
         else if mp_tableVersion parameters > 31 \<or> psi \<le> 0 \<or> psi \<le> tc_value (tm_pcrInterval (mp_timing parameters))
              then failure InvalidArgument
         else if program_videoStreamType program \<noteq> vc_streamType (mp_video parameters) \<or>
                 (case program of VideoOnly _ \<Rightarrow> False | AudioVideo a \<Rightarrow> av_audioStreamType a \<noteq> 0x0F)
              then failure InvalidArgument
         else if (case program of VideoOnly _ \<Rightarrow> False | AudioVideo a \<Rightarrow> \<not> aac_valid a) then failure InvalidArgument
         else if cp_pcrInterval clock \<le> 0 \<or> cp_maximumPcrGap clock \<le> cp_pcrInterval clock \<or>
                 cp_maximumPcrJitter clock \<le> 0 \<or> cp_maximumPcrJitter clock \<ge> cp_pcrInterval clock \<or>
                 cp_timestampTimeBaseNumerator clock \<noteq> 1 \<or> cp_timestampTimeBaseDenominator clock \<noteq> 90000
              then failure InvalidArgument
         else if mp_transportDecodeLead parameters \<le> 0 \<or> mp_startupEmissionPreroll parameters \<le> 0 \<or>
                 mp_startupEmissionPreroll parameters > mp_transportDecodeLead parameters \<or>
                 mp_packetSize parameters \<noteq> 188 \<or>
                 (case program of VideoOnly v \<Rightarrow> \<not> validVideoSeeds (vo_continuity v)
                  | AudioVideo a \<Rightarrow> \<not> validAudioVideoSeeds (av_continuity a)) \<or>
                 mp_maximumPacketsPerDatagram parameters < 1
              then failure InvalidArgument
         else success \<lparr>plan_parameters = parameters, plan_clockPolicy = clock\<rparr>)"

section \<open>What a plan guarantees\<close>

lemma muxPlan_createD:
  assumes "muxPlan_create parameters = Inr plan"
  shows "plan_parameters plan = parameters" and "mp_programNumber parameters \<noteq> 0"
    and "assignablePid (mp_programMapPid parameters)" and "assignablePid (program_videoPid (mp_program parameters))"
    and "program_pcrPid (mp_program parameters) = program_videoPid (mp_program parameters)"
    and "mp_programMapPid parameters \<noteq> program_videoPid (mp_program parameters)"
    and "mp_tableVersion parameters \<le> 31"
    and "mp_program parameters = AudioVideo a \<Longrightarrow> assignablePid (av_audioPid a) \<and> av_audioPid a \<noteq> av_videoPid a"
    and "mp_program parameters = VideoOnly v \<Longrightarrow> validVideoSeeds (vo_continuity v)"
    and "mp_program parameters = AudioVideo a \<Longrightarrow> validAudioVideoSeeds (av_continuity a)"
  using assms unfolding muxPlan_create_def Let_def
  by (auto simp: program_videoPid_def program_pcrPid_def not_less split: if_splits MediaTsProgramPlan.splits)

end
