(* ===== verification/Ts_Packet_Builder.thy ===== *)
theory Ts_Packet_Builder
  imports Ts_Framing
begin

unbundle bit_operations_syntax

text \<open>
  \<^verbatim>\<open>protocol/mpegts/MediaTsTransportPacketBuilder\<close>: cutting a logical unit that is given in segments
  into transport packets, and the packet that carries only a program clock reference. The reader of
  the segments and the building loop return \<open>None\<close> where the code would access a segment out of
  bounds. The theorems relate the builder to the packet parser.
\<close>

section \<open>The segmented reader\<close>

record SegmentedLogicalBytes =
  sl_segments :: "u8 list list"
  sl_total :: nat
  sl_segmentIndex :: nat
  sl_segmentOffset :: nat

text \<open>The sum of the segment sizes as a \<^verbatim>\<open>size_t\<close>.\<close>

fun total_bytes :: "u8 list list \<Rightarrow> nat \<Rightarrow> nat Result" where
  "total_bytes [] n = success n"
| "total_bytes (segment # segments) n =
     (if length segment > 18446744073709551615 - n then failure InvalidArgument
      else total_bytes segments (n + length segment))"

definition segmented_create :: "u8 list list \<Rightarrow> SegmentedLogicalBytes Result" where
  "segmented_create segments =
     (case total_bytes segments 0 of
        Inl e \<Rightarrow> failure e
      | Inr n \<Rightarrow>
          (if n = 0 then failure InvalidArgument
           else success \<lparr>sl_segments = segments, sl_total = n, sl_segmentIndex = 0, sl_segmentOffset = 0\<rparr>))"

text \<open>One round of the reader: at most \<open>n\<close> bytes from the current segment.\<close>

definition copyRound :: "SegmentedLogicalBytes \<Rightarrow> nat \<Rightarrow> SegmentedLogicalBytes \<times> u8 list" where
  "copyRound r n =
     (let segment = sl_segments r ! sl_segmentIndex r;
          available = length segment - sl_segmentOffset r;
          k = min available n;
          offset = sl_segmentOffset r + k
      in (if offset = length segment
          then r\<lparr>sl_segmentIndex := sl_segmentIndex r + 1, sl_segmentOffset := 0\<rparr>
          else r\<lparr>sl_segmentOffset := offset\<rparr>,
          take k (drop (sl_segmentOffset r) segment)))"

text \<open>Reading the next \<open>n\<close> bytes; \<open>None\<close> is an access outside the segments.\<close>

function copyNext :: "SegmentedLogicalBytes \<Rightarrow> nat \<Rightarrow> (SegmentedLogicalBytes \<times> u8 list) option" where
  "copyNext r n =
     (if n = 0 then Some (r, [])
      else if \<not> sl_segmentIndex r < length (sl_segments r) then None
      else if sl_segmentOffset r > length (sl_segments r ! sl_segmentIndex r) then None
      else
        (case copyRound r n of
           (r, bytes) \<Rightarrow>
             (case copyNext r (n - length bytes) of
                None \<Rightarrow> None
              | Some (r, rest) \<Rightarrow> Some (r, bytes @ rest))))"
  by pat_completeness auto
termination
  by (relation "measures [\<lambda>(r, n). n, \<lambda>(r, n). length (sl_segments r) - sl_segmentIndex r]")
    (auto simp: copyRound_def Let_def split: if_splits)

declare copyNext.simps [simp del]

lemma copyRound_fields: "copyRound r n = (r', bytes) \<Longrightarrow> sl_total r' = sl_total r \<and> sl_segments r' = sl_segments r"
  by (auto simp: copyRound_def Let_def split: if_splits)

lemma copyNext_fields:
  "copyNext r n = Some (r', bytes) \<Longrightarrow> sl_total r' = sl_total r \<and> sl_segments r' = sl_segments r"
proof (induction r n arbitrary: bytes rule: copyNext.induct)
  case (1 r n)
  obtain q xs where q: "copyRound r n = (q, xs)" by fastforce
  show ?case
  proof (cases "n = 0")
    case True
    then show ?thesis using 1(2) by (simp add: copyNext.simps)
  next
    case False
    then have b: "sl_segmentIndex r < length (sl_segments r)" "\<not> sl_segmentOffset r > length (sl_segments r ! sl_segmentIndex r)"
      using 1(2) by (subst (asm) copyNext.simps; simp split: if_splits)+
    then obtain ys where "copyNext q (n - length xs) = Some (r', ys)"
      using 1(2) False q by (subst (asm) copyNext.simps) (auto split: option.splits)
    then show ?thesis using 1(1) [OF False _ _ q [symmetric]] b copyRound_fields [OF q] by simp
  qed
qed

text \<open>The bytes the reader has not delivered are \<open>rest\<close>; reading takes them from the front and stays in bounds.\<close>

definition reader_ok :: "SegmentedLogicalBytes \<Rightarrow> u8 list \<Rightarrow> bool" where
  "reader_ok r rest \<longleftrightarrow> drop (sl_segmentOffset r) (concat (drop (sl_segmentIndex r) (sl_segments r))) = rest \<and>
     (sl_segmentOffset r = 0 \<or> sl_segmentIndex r < length (sl_segments r) \<and>
        sl_segmentOffset r \<le> length (sl_segments r ! sl_segmentIndex r))"

lemma copyRound_ok:
  assumes "reader_ok r rest" and "sl_segmentIndex r < length (sl_segments r)" and "copyRound r n = (r', bytes)"
  shows "reader_ok r' (drop (length bytes) rest) \<and> bytes = take (length bytes) rest \<and> length bytes \<le> n"
proof -
  let ?s = "sl_segments r ! sl_segmentIndex r" and ?o = "sl_segmentOffset r"
  let ?tl = "concat (drop (Suc (sl_segmentIndex r)) (sl_segments r))"
  have d: "drop (sl_segmentIndex r) (sl_segments r) = ?s # drop (Suc (sl_segmentIndex r)) (sl_segments r)"
    using assms(2) by (rule Cons_nth_drop_Suc [symmetric])
  have o: "?o \<le> length ?s" using assms(1) by (auto simp: reader_ok_def)
  have rest: "rest = drop ?o ?s @ ?tl" using assms(1) o by (simp add: reader_ok_def d)
  show ?thesis
  proof (cases "n < length ?s - ?o")
    case True
    then have "bytes = take n (drop ?o ?s)" "r' = r\<lparr>sl_segmentOffset := ?o + n\<rparr>"
      using assms(3) by (auto simp: copyRound_def Let_def)
    moreover from this have "?o + n \<le> length ?s" using True by linarith
    ultimately show ?thesis using True o rest assms(2) by (simp add: reader_ok_def d add.commute)
  next
    case False
    then have "bytes = drop ?o ?s" "r' = r\<lparr>sl_segmentIndex := sl_segmentIndex r + 1, sl_segmentOffset := 0\<rparr>"
      using assms(3) o by (auto simp: copyRound_def Let_def min_def split: if_splits)
    then show ?thesis using False o rest by (simp add: reader_ok_def)
  qed
qed

lemma copyNext_ok:
  "reader_ok r rest \<Longrightarrow> n \<le> length rest \<Longrightarrow> \<exists>r'. copyNext r n = Some (r', take n rest) \<and> reader_ok r' (drop n rest)"
proof (induction r n arbitrary: rest rule: copyNext.induct)
  case (1 r n)
  show ?case
  proof (cases "n = 0")
    case True
    then show ?thesis using 1(2) by (simp add: copyNext.simps)
  next
    case False
    then have i: "sl_segmentIndex r < length (sl_segments r)"
      using 1(2,3) by (cases "sl_segmentIndex r < length (sl_segments r)") (auto simp: reader_ok_def)
    then have o: "\<not> sl_segmentOffset r > length (sl_segments r ! sl_segmentIndex r)" using 1(2) by (auto simp: reader_ok_def)
    obtain q xs where q: "copyRound r n = (q, xs)" by fastforce
    note R = copyRound_ok [OF 1(2) i q]
    have l: "n - length xs \<le> length (drop (length xs) rest)" using 1(3) by (simp add: diff_le_mono)
    obtain r' where r': "copyNext q (n - length xs) = Some (r', take (n - length xs) (drop (length xs) rest))"
        "reader_ok r' (drop (n - length xs) (drop (length xs) rest))"
      using 1(1) [OF False _ o q [symmetric], of "drop (length xs) rest"] i R l by auto
    have "xs @ take (n - length xs) (drop (length xs) rest) = take n rest"
      using R by (metis le_add_diff_inverse take_add)
    then have "copyNext r n = Some (r', take n rest)"
      using False i o q r'(1) by (subst copyNext.simps) simp
    then show ?thesis using r'(2) R by simp
  qed
qed

section \<open>Building packets\<close>

definition previousPayload :: "u8 \<Rightarrow> u8" where
  "previousPayload next = (next + 15) AND 0x0F"

definition writeHeader :: "u16 \<Rightarrow> bool \<Rightarrow> u8 \<Rightarrow> u8 \<Rightarrow> u8 list" where
  "writeHeader pid payloadUnitStart adaptationControl continuity =
     [0x47, (if payloadUnitStart then 0x40 else 0) OR ucast (drop_bit 8 pid AND 0x1F), ucast pid,
      push_bit 4 adaptationControl OR (continuity AND 0x0F)] @ replicate 184 0xFF"

definition payloadPacketCount :: "u8 list list \<Rightarrow> bool \<Rightarrow> bool \<Rightarrow> nat Result" where
  "payloadPacketCount segments randomAccess discontinuity =
     (case segmented_create segments of
        Inl e \<Rightarrow> failure e
      | Inr logicalBytes \<Rightarrow>
          (let firstCapacity = (if randomAccess \<or> discontinuity then 182 else 184);
               logicalSize = sl_total logicalBytes;
               remaining = (if logicalSize > firstCapacity then logicalSize - firstCapacity else 0);
               trailingPackets = remaining div 184 + (if remaining mod 184 \<noteq> 0 then 1 else 0)
           in success (1 + trailingPackets)))"

text \<open>The packet without its payload, and the offset and size of the payload.\<close>

definition payload_frame :: "u16 \<Rightarrow> u8 \<Rightarrow> bool \<Rightarrow> bool \<Rightarrow> bool \<Rightarrow> nat \<Rightarrow> u8 list \<times> nat \<times> nat" where
  "payload_frame pid continuity first needsRandomAccess needsDiscontinuity remaining =
     (let payloadBytes = (if needsRandomAccess \<or> needsDiscontinuity then min remaining 182 else min remaining 184);
          needsAdaptation = (needsRandomAccess \<or> needsDiscontinuity \<or> payloadBytes < 184);
          packet = writeHeader pid first (if needsAdaptation then 3 else 1) continuity
      in if needsAdaptation then
           (let adaptationLength = 183 - payloadBytes;
                packet = packet[4 := of_nat adaptationLength];
                packet = (if adaptationLength \<noteq> 0
                          then packet[5 := (if needsRandomAccess then 0x40 else 0) OR (if needsDiscontinuity then 0x80 else 0)]
                          else packet)
            in (packet, 5 + adaptationLength, payloadBytes))
         else (packet, 4, payloadBytes))"

function payload_loop ::
  "u16 \<Rightarrow> bool \<Rightarrow> bool \<Rightarrow> SegmentedLogicalBytes \<Rightarrow> nat \<Rightarrow> u8 \<Rightarrow> u8 list list \<Rightarrow> u8 list list option" where
  "payload_loop pid randomAccess discontinuity reader offset nextContinuity workspace =
     (if offset < sl_total reader then
        (let first = (offset = 0);
             (packet, payloadOffset, payloadBytes) =
               payload_frame pid nextContinuity first (first \<and> randomAccess) (first \<and> discontinuity) (sl_total reader - offset)
         in case copyNext reader payloadBytes of
              None \<Rightarrow> None
            | Some (reader', bytes) \<Rightarrow>
                payload_loop pid randomAccess discontinuity reader' (offset + payloadBytes)
                  ((nextContinuity + 1) AND 0x0F)
                  (workspace @ [take payloadOffset packet @ bytes @ drop (payloadOffset + payloadBytes) packet]))
      else Some workspace)"
  by pat_completeness auto
termination
  by (relation "measure (\<lambda>(_, _, _, r, offset, _). sl_total r - offset)")
    (auto simp: payload_frame_def Let_def split: if_splits dest!: copyNext_fields)

declare payload_loop.simps [simp del]

text \<open>\<^verbatim>\<open>payload\<close>; the workspace passed in is cleared, so it does not matter here.\<close>

definition builder_payload :: "u16 \<Rightarrow> u8 \<Rightarrow> u8 list list \<Rightarrow> bool \<Rightarrow> bool \<Rightarrow> u8 list list Result option" where
  "builder_payload pid initialPayloadContinuity segments randomAccess discontinuity =
     (if pid \<ge> 0x1FFF \<or> initialPayloadContinuity > 15 then Some (failure InvalidArgument)
      else
        (case segmented_create segments of
           Inl e \<Rightarrow> Some (failure e)
         | Inr reader \<Rightarrow>
             (case payloadPacketCount segments randomAccess discontinuity of
                Inl e \<Rightarrow> Some (failure e)
              | Inr _ \<Rightarrow>
                  map_option success
                    (payload_loop pid randomAccess discontinuity reader 0 initialPayloadContinuity []))))"

definition pcrOnly :: "u16 \<Rightarrow> u8 \<Rightarrow> u64 \<Rightarrow> bool \<Rightarrow> u8 list Result" where
  "pcrOnly pid nextPayloadContinuity wire27Mhz discontinuity =
     (if pid \<ge> 0x1FFF \<or> nextPayloadContinuity > 15 \<or> wire27Mhz \<ge> 2 ^ 33 * 300 then failure InvalidArgument
      else
        (let packet = writeHeader pid False 2 (previousPayload nextPayloadContinuity);
             base = wire27Mhz div 300;
             extension = ucast (wire27Mhz mod 300) :: u16
         in success (packet[4 := 183, 5 := 0x10 OR (if discontinuity then 0x80 else 0),
              6 := ucast (drop_bit 25 base), 7 := ucast (drop_bit 17 base), 8 := ucast (drop_bit 9 base),
              9 := ucast (drop_bit 1 base), 10 := ucast (push_bit 7 base OR 0x7E OR ucast (drop_bit 8 extension)),
              11 := ucast extension])))"

section \<open>The header round trip\<close>

lemma low5_mask: "0x1F = (mask 5 :: 'a::len word)"
  by (simp add: mask_eq_exp_minus_1)

lemma pid_bits:
  "((if b then 0x40 else 0) OR ucast (drop_bit 8 pid AND 0x1F)) AND 0x1F = (ucast (drop_bit 8 (pid :: u16) AND 0x1F) :: u8)"
  "((if b then 0x40 else 0) OR ucast (drop_bit 8 pid AND 0x1F)) AND 0x80 = (0 :: u8)"
  "(((if b then 0x40 else 0) OR ucast (drop_bit 8 pid AND 0x1F)) AND 0x40 \<noteq> (0 :: u8)) = b"
proof -
  define x :: u8 where "x = ucast (drop_bit 8 pid AND 0x1F)"
  have x: "x = take_bit 5 x" unfolding x_def low5_mask by (rule bit_word_eqI) (auto simp: bit_simps)
  then have m: "x AND 0x1F = x" unfolding low5_mask by (simp add: take_bit_eq_mask)
  have "x AND 0x80 = (x AND 0x1F) AND 0x80" "x AND 0x40 = (x AND 0x1F) AND 0x40" unfolding m by simp_all
  then have "x AND 0x80 = 0" "x AND 0x40 = 0" by (simp_all add: and.assoc)
  with m show "((if b then 0x40 else 0) OR ucast (drop_bit 8 pid AND 0x1F)) AND 0x1F = (ucast (drop_bit 8 (pid :: u16) AND 0x1F) :: u8)"
    "((if b then 0x40 else 0) OR ucast (drop_bit 8 pid AND 0x1F)) AND 0x80 = (0 :: u8)"
    "(((if b then 0x40 else 0) OR ucast (drop_bit 8 pid AND 0x1F)) AND 0x40 \<noteq> (0 :: u8)) = b"
    unfolding x_def [symmetric] by (simp_all add: bit.conj_disj_distrib2)
qed

lemma pid_join:
  assumes "pid < 0x2000"
  shows "push_bit 8 (ucast (ucast (drop_bit 8 pid AND 0x1F) :: u8)) OR ucast (ucast pid :: u8) = (pid :: u16)"
proof -
  have "uint pid < 2 ^ 13" using assms by (simp add: word_less_def)
  then have top: "take_bit 13 pid = pid" by (simp add: word_uint_eq_iff unsigned_take_bit_eq take_bit_int_eq_self)
  have "push_bit 8 (ucast (ucast (drop_bit 8 pid AND 0x1F) :: u8)) OR ucast (ucast pid :: u8) = take_bit 13 pid"
    unfolding low5_mask by (rule bit_word_eqI) (auto simp: bit_simps)
  then show ?thesis using top by simp
qed

text \<open>The fourth byte: adaptation control and continuity counter.\<close>

lemma control_fields:
  assumes "control \<in> {1, 2, 3}" and "continuity \<le> 15"
  shows "(push_bit 4 control OR (continuity AND 0x0F)) AND 0xC0 = (0 :: u8)"
    and "drop_bit 4 (push_bit 4 control OR (continuity AND 0x0F)) AND 0x03 = (control :: u8)"
    and "(push_bit 4 control OR (continuity AND 0x0F)) AND 0x0F = (continuity :: u8)"
proof -
  have "\<forall>c\<in>set [0..<16]. \<forall>control\<in>set [1, 2, 3 :: u8].
      (push_bit 4 control OR (of_nat c AND 0x0F)) AND 0xC0 = (0 :: u8) \<and>
      drop_bit 4 (push_bit 4 control OR (of_nat c AND 0x0F)) AND 0x03 = (control :: u8) \<and>
      (push_bit 4 control OR (of_nat c AND 0x0F)) AND 0x0F = (of_nat c :: u8)"
    by code_simp
  moreover have "unat continuity \<in> set [0..<16]" using assms(2) by (simp add: word_le_nat_alt)
  moreover have "control \<in> set [1, 2, 3]" using assms(1) by simp
  ultimately show "(push_bit 4 control OR (continuity AND 0x0F)) AND 0xC0 = (0 :: u8)"
    "drop_bit 4 (push_bit 4 control OR (continuity AND 0x0F)) AND 0x03 = (control :: u8)"
    "(push_bit 4 control OR (continuity AND 0x0F)) AND 0x0F = (continuity :: u8)"
    by fastforce+
qed

text \<open>Parsing a packet that starts with a header the builder wrote.\<close>

definition built_header :: "u16 \<Rightarrow> bool \<Rightarrow> u8 \<Rightarrow> bool \<Rightarrow> nat \<Rightarrow> bool \<Rightarrow> u64 option \<Rightarrow> PacketHeader" where
  "built_header pid start continuity hasPayload offset discontinuity pcr =
     \<lparr>hd_pid = pid, hd_payloadUnitStart = start, hd_continuityCounter = continuity, hd_hasPayload = hasPayload,
      hd_payloadOffset = offset, hd_discontinuity = discontinuity, hd_pcr = pcr\<rparr>"

lemma parse_built:
  assumes "length packet = 188" and "take 4 packet = take 4 (writeHeader pid start control continuity)"
    and "pid < 0x1FFF" and "continuity \<le> 15" and "control \<in> {1, 2, 3}"
  shows "parseHeader packet =
    (if control = 1 then HeaderParsed (built_header pid start continuity True 4 False None)
     else
       (let n = unat (packet ! 4)
        in if n > 183 \<or> (control = 2 \<and> n \<noteq> 183) \<or> (control = 3 \<and> 5 + n \<ge> 188) then HeaderInvalid
           else if n = 0 then HeaderParsed (built_header pid start continuity (control = 3) 5 False None)
           else (case parseAdaptation packet n of
                   Inl _ \<Rightarrow> HeaderInvalid
                 | Inr (discontinuity, pcr) \<Rightarrow>
                     HeaderParsed (built_header pid start continuity (control = 3) (5 + n) discontinuity pcr))))"
proof -
  have nth: "packet ! i = writeHeader pid start control continuity ! i" if "i < 4" for i
    using that assms(1,2) by (metis nth_take)
  have b: "packet ! 0 = 0x47" "packet ! 1 = (if start then 0x40 else 0) OR ucast (drop_bit 8 pid AND 0x1F)"
      "packet ! 2 = ucast pid" "packet ! 3 = push_bit 4 control OR (continuity AND 0x0F)"
    using nth [of 0] nth [of 1] nth [of 2] nth [of 3] by (simp_all add: writeHeader_def)
  have p: "pid < 0x2000" using assms(3) by (simp add: word_less_nat_alt)
  note F = pid_bits pid_join [OF p] control_fields [OF assms(5,4)]
  show ?thesis
    unfolding parseHeader_def Let_def b F built_header_def
    using assms(1,5) by (auto simp: F split: sum.split prod.split)
qed

lemma parseAdaptation_plain:
  assumes "packet ! 5 \<in> {0, 0x40, 0x80, 0xC0}" and "\<And>i. 6 \<le> i \<Longrightarrow> i < 5 + n \<Longrightarrow> packet ! i = 0xFF"
  shows "parseAdaptation packet n = Inr (packet ! 5 AND 0x80 \<noteq> 0, None)"
proof -
  have z: "packet ! 5 AND 0x10 = 0" "packet ! 5 AND 0x08 = 0" "packet ! 5 AND 0x04 = 0" "packet ! 5 AND 0x02 = 0" "packet ! 5 AND 0x01 = 0"
    using assms(1) by auto
  have "\<not> (\<exists>i\<in>set [6..<5 + n]. packet ! i \<noteq> 0xFF)" using assms(2) by auto
  then show ?thesis
    unfolding parseAdaptation_def Let_def z
    by (simp add: optionalClock_def skipSplice_def skipPrivateData_def skipExtension_def)
qed

lemma length_writeHeader [simp]: "length (writeHeader pid start control continuity) = 188"
  by (simp add: writeHeader_def)

lemma writeHeader_body: "4 \<le> i \<Longrightarrow> i < 188 \<Longrightarrow> writeHeader pid start control continuity ! i = 0xFF"
  by (simp add: writeHeader_def nth_append nth_Cons')

lemma payload_frame_parse:
  assumes "pid < 0x1FFF" and "continuity \<le> 15" and "0 < remaining"
    and "payload_frame pid continuity first ra disc remaining = (packet, off, n)" and "length bytes = n"
  defines "out \<equiv> take off packet @ bytes @ drop (off + n) packet"
  shows "length out = 188 \<and> drop off out = bytes \<and> 0 < n \<and> n \<le> remaining \<and>
    parseHeader out = HeaderParsed (built_header pid first continuity True off disc None)"
proof -
  let ?cap = "if ra \<or> disc then 182 else 184 :: nat"
  have n: "n = min remaining ?cap" using assms(4) by (auto simp: payload_frame_def Let_def split: if_splits)
  then have n_bounds: "0 < n" "n \<le> remaining" "n \<le> 184" "ra \<or> disc \<Longrightarrow> n \<le> 182" using assms(3) by auto
  show ?thesis
  proof (cases "ra \<or> disc \<or> n < 184")
    case False
    then have f: "packet = writeHeader pid first 1 continuity" "off = 4" "n = 184"
      using assms(4) n n_bounds by (auto simp: payload_frame_def Let_def split: if_splits)
    then have "length out = 188" "take 4 out = take 4 (writeHeader pid first 1 continuity)" "drop off out = bytes"
      using assms(5) by (simp_all add: out_def)
    moreover from this have "parseHeader out = HeaderParsed (built_header pid first continuity True off disc None)"
      using parse_built [OF _ _ assms(1,2), of out first 1] f False by simp
    ultimately show ?thesis using n_bounds by simp
  next
    case True
    define flags :: u8 where "flags = (if ra then 0x40 else 0) OR (if disc then 0x80 else 0)"
    have flags: "flags \<in> {0, 0x40, 0x80, 0xC0}" "(flags AND 0x80 \<noteq> 0) = disc" by (auto simp: flags_def)
    let ?h = "writeHeader pid first 3 continuity"
    define a where "a = 183 - n"
    have n183: "n \<le> 183" using True n_bounds by auto
    have f: "packet = (if a \<noteq> 0 then ?h[4 := of_nat a, 5 := flags] else ?h[4 := of_nat a])" "off = 5 + a"
      using assms(4) n True by (auto simp: payload_frame_def Let_def flags_def a_def split: if_splits)
    have lp: "length packet = 188" "off + n = 188" using f n183 by (simp_all add: a_def)
    then have out: "out = take off packet @ bytes" by (simp add: out_def)
    have len: "length out = 188" "drop off out = bytes" using out lp assms(5) by simp_all
    have nth: "out ! i = packet ! i" if "i < off" for i using that out lp by (simp add: nth_append)
    have o5: "5 \<le> off" using f by simp
    have "take 4 out = take 4 packet" using out o5 lp by simp
    also have "\<dots> = take 4 ?h" unfolding f by simp
    finally have head: "take 4 out = take 4 ?h" .
    have four: "unat (out ! 4) = a"
      using nth [of 4] o5 f by (simp add: unat_of_nat a_def [symmetric]) (simp add: a_def)
    have parse: "parseAdaptation out a = Inr (disc, None)" if "a \<noteq> 0"
    proof -
      have "out ! 5 = flags" using nth [of 5] f that by simp
      moreover have "out ! i = 0xFF" if "6 \<le> i" "i < 5 + a" for i
        using nth [of i] f that \<open>a \<noteq> 0\<close> writeHeader_body [of i pid first 3 continuity] by (simp add: a_def)
      ultimately show ?thesis using parseAdaptation_plain [of out a] flags by simp
    qed
    have "\<not> disc" if "a = 0" using that n_bounds(4) n183 a_def by fastforce
    then have "parseHeader out = HeaderParsed (built_header pid first continuity True off disc None)"
      using parse_built [OF len(1) head assms(1,2)] four parse f n_bounds by (auto simp: Let_def a_def)
    then show ?thesis using len n_bounds by simp
  qed
qed

section \<open>The logical unit round trip\<close>

text \<open>The packets carry the bytes: each parses, and the payloads in order are the logical unit.\<close>

fun carries :: "u16 \<Rightarrow> u8 \<Rightarrow> bool \<Rightarrow> bool \<Rightarrow> u8 list list \<Rightarrow> u8 list \<Rightarrow> bool" where
  "carries pid continuity start disc [] bytes \<longleftrightarrow> bytes = []"
| "carries pid continuity start disc (packet # packets) bytes \<longleftrightarrow>
     length packet = 188 \<and>
     (\<exists>off payload rest. parseHeader packet = HeaderParsed (built_header pid start continuity True off disc None) \<and>
        drop off packet = payload \<and> payload \<noteq> [] \<and> bytes = payload @ rest \<and>
        carries pid ((continuity + 1) AND 0x0F) False False packets rest)"

lemma carriesI:
  assumes "length packet = 188" and "parseHeader packet = HeaderParsed (built_header pid start continuity True off disc None)"
    and "drop off packet = take n bytes" and "take n bytes \<noteq> []"
    and "carries pid ((continuity + 1) AND 0x0F) False False packets (drop n bytes)"
  shows "carries pid continuity start disc (packet # packets) bytes"
proof -
  have "bytes = take n bytes @ drop n bytes" by simp
  then show ?thesis using assms unfolding carries.simps by blast
qed

lemma nibble_le: "(x :: u8) AND 0x0F \<le> 15"
  by (simp add: word_and_le1)

lemma payload_loop_later:
  assumes "pid < 0x1FFF"
  shows "0 < offset \<Longrightarrow> continuity \<le> 15 \<Longrightarrow> reader_ok r rest \<Longrightarrow> sl_total r = offset + length rest \<Longrightarrow>
    \<exists>ps. payload_loop pid ra disc r offset continuity ws = Some (ws @ ps) \<and> carries pid continuity False False ps rest \<and>
      length ps = (length rest + 183) div 184"
proof (induction "length rest" arbitrary: rest r offset continuity ws rule: less_induct)
  case less
  show ?case
  proof (cases "rest = []")
    case True
    then have "payload_loop pid ra disc r offset continuity ws = Some (ws @ [])" "carries pid continuity False False [] rest"
      using less.prems by (simp_all add: payload_loop.simps)
    then show ?thesis using True by (intro exI [of _ "[]"]) simp
  next
    case False
    obtain packet off n where f: "payload_frame pid continuity False False False (length rest) = (packet, off, n)"
      by (metis prod_cases3)
    have n: "n = min (length rest) 184" using f by (auto simp: payload_frame_def Let_def split: if_splits)
    obtain r' where r': "copyNext r n = Some (r', take n rest)" "reader_ok r' (drop n rest)"
      using copyNext_ok [OF less.prems(3), of n] n by auto
    let ?out = "take off packet @ take n rest @ drop (off + n) packet"
    have l: "length (take n rest) = n" using n by simp
    have "0 < length rest" using False by simp
    note P = payload_frame_parse [OF assms less.prems(2) this f l]
    have loop: "payload_loop pid ra disc r offset continuity ws =
        payload_loop pid ra disc r' (offset + n) ((continuity + 1) AND 0x0F) (ws @ [?out])"
      using less.prems False f r'(1) by (subst payload_loop.simps) simp
    have "sl_total r' = offset + n + length (drop n rest)" using copyNext_fields [OF r'(1)] less.prems(4) n by simp
    then obtain ps where ps: "payload_loop pid ra disc r' (offset + n) ((continuity + 1) AND 0x0F) (ws @ [?out]) = Some ((ws @ [?out]) @ ps)"
        "carries pid ((continuity + 1) AND 0x0F) False False ps (drop n rest)" "length ps = (length (drop n rest) + 183) div 184"
      using less.hyps [of "drop n rest" "offset + n" "(continuity + 1) AND 0x0F" r' "ws @ [?out]"] r'(2) P False less.prems(1) nibble_le
      by auto
    have "carries pid continuity False False (?out # ps) rest"
      using P ps(2) False by (intro carriesI [of _ _ _ _ off _ n]) auto
    moreover have "length (?out # ps) = (length rest + 183) div 184"
      using ps(3) n False by (cases "length rest \<le> 184") (auto simp: le_div_geq neq_Nil_conv)
    moreover have "payload_loop pid ra disc r offset continuity ws = Some (ws @ ?out # ps)" using loop ps(1) by simp
    ultimately show ?thesis by blast
  qed
qed

lemma payload_loop_first:
  assumes "pid < 0x1FFF" and "continuity \<le> 15" and "reader_ok r bytes" and "sl_total r = length bytes" and "bytes \<noteq> []"
  shows "\<exists>ps. payload_loop pid ra disc r 0 continuity [] = Some ps \<and> carries pid continuity True disc ps bytes \<and>
    length ps = 1 + (length bytes - (if ra \<or> disc then 182 else 184) + 183) div 184"
proof -
  obtain packet off n where f: "payload_frame pid continuity True ra disc (length bytes) = (packet, off, n)"
    by (metis prod_cases3)
  have n: "n = min (length bytes) (if ra \<or> disc then 182 else 184)"
    using f by (auto simp: payload_frame_def Let_def split: if_splits)
  obtain r' where r': "copyNext r n = Some (r', take n bytes)" "reader_ok r' (drop n bytes)"
    using copyNext_ok [OF assms(3), of n] n by auto
  let ?out = "take off packet @ take n bytes @ drop (off + n) packet"
  have l: "length (take n bytes) = n" and b: "0 < length bytes" using n assms(5) by simp_all
  note P = payload_frame_parse [OF assms(1,2) b f l]
  have loop: "payload_loop pid ra disc r 0 continuity [] = payload_loop pid ra disc r' n ((continuity + 1) AND 0x0F) [?out]"
    using assms f r'(1) by (subst payload_loop.simps) simp
  have "sl_total r' = n + length (drop n bytes)" using copyNext_fields [OF r'(1)] assms(4) n by simp
  then obtain ps where ps: "payload_loop pid ra disc r' n ((continuity + 1) AND 0x0F) [?out] = Some ([?out] @ ps)"
      "carries pid ((continuity + 1) AND 0x0F) False False ps (drop n bytes)" "length ps = (length (drop n bytes) + 183) div 184"
    using payload_loop_later [OF assms(1) _ nibble_le [of "continuity + 1"] r'(2), where offset = n and ws = "[?out]" and ra = ra and disc = disc] P by blast
  have "carries pid continuity True disc (?out # ps) bytes"
    using P ps(2) assms(5) by (intro carriesI [of _ _ _ _ off _ n]) auto
  moreover have "length bytes - n = length bytes - (if ra \<or> disc then 182 else 184)" using n by auto
  then have "length (?out # ps) = 1 + (length bytes - (if ra \<or> disc then 182 else 184) + 183) div 184" using ps(3) by simp
  moreover have "payload_loop pid ra disc r 0 continuity [] = Some (?out # ps)" using loop ps(1) by simp
  ultimately show ?thesis by blast
qed

lemma total_bytes_ok: "n + length (concat segs) < 2 ^ 64 \<Longrightarrow> total_bytes segs n = Inr (n + length (concat segs))"
  by (induction segs n rule: total_bytes.induct) (auto simp: add.assoc)

lemma segmented_create_ok:
  assumes "length (concat segs) < 2 ^ 64" and "concat segs \<noteq> []"
  obtains r where "segmented_create segs = Inr r" and "sl_total r = length (concat segs)" and "reader_ok r (concat segs)"
  using assms total_bytes_ok [of 0 segs] that by (simp add: segmented_create_def reader_ok_def)

lemma round_up: "(k + 183) div 184 = k div 184 + (if k mod 184 \<noteq> 0 then 1 else 0 :: nat)"
proof -
  define q m where "q = k div 184" and "m = k mod 184"
  then have k: "k = 184 * q + m" "m < 184" by simp_all
  show ?thesis
  proof (cases m)
    case (Suc j)
    then have "k + 183 = 184 * (q + 1) + j" "j < 184" using k by simp_all
    then have "(k + 183) div 184 = q + 1" by simp
    then show ?thesis using k Suc by simp
  qed (simp add: k)
qed

lemma builder_payload_ok:
  assumes "pid < 0x1FFF" and "continuity \<le> 15" and "length (concat segs) < 2 ^ 64" and "concat segs \<noteq> []"
  shows "\<exists>ps. builder_payload pid continuity segs ra disc = Some (Inr ps) \<and> carries pid continuity True disc ps (concat segs) \<and>
    payloadPacketCount segs ra disc = Inr (length ps)"
proof -
  obtain r where r: "segmented_create segs = Inr r" "sl_total r = length (concat segs)" "reader_ok r (concat segs)"
    using segmented_create_ok [OF assms(3,4)] .
  obtain ps where ps: "payload_loop pid ra disc r 0 continuity [] = Some ps" "carries pid continuity True disc ps (concat segs)"
      "length ps = 1 + (length (concat segs) - (if ra \<or> disc then 182 else 184) + 183) div 184"
    using payload_loop_first [OF assms(1,2) r(3,2) assms(4)] by blast
  have "payloadPacketCount segs ra disc = Inr (length ps)"
    unfolding ps(3) round_up payloadPacketCount_def using r by (simp add: Let_def)
  moreover from this have "builder_payload pid continuity segs ra disc = Some (Inr ps)"
    using assms r ps(1) by (simp add: builder_payload_def not_le not_less)
  ultimately show ?thesis using ps(2) by blast
qed

section \<open>From the builder to the parser\<close>

text \<open>A sink that keeps the packets and the continuity events it is given and accepts everything.\<close>

definition collector :: "(MediaTsPacketView list \<times> MediaTsContinuityEvent list) MediaTsPacketSink" where
  "collector = \<lparr>onPacket = (\<lambda>(vs, es) v. ((vs @ [v], es), success ())),
                onContinuityEvent = (\<lambda>(vs, es) e. ((vs, es @ [e]), success ()))\<rparr>"

lemma collector_calls [simp]:
  "onPacket collector (vs, es) v = ((vs @ [v], es), success ())"
  "onContinuityEvent collector (vs, es) e = ((vs, es @ [e]), success ())"
  by (simp_all add: collector_def)

definition follows :: "u8 option \<Rightarrow> u8 \<Rightarrow> bool" where
  "follows previous continuity \<longleftrightarrow> (case previous of None \<Rightarrow> True | Some k \<Rightarrow> continuity = (k + 1) AND 0x0F)"

definition fresh_at :: "'s MediaTsPacketParser \<Rightarrow> u64 \<Rightarrow> bool" where
  "fresh_at p off \<longleftrightarrow> (case tp_publishedEvidence p of None \<Rightarrow> True | Some e \<Rightarrow> ev_byteOffset (pe_view e) \<noteq> off)"

lemma publishParsed_None:
  assumes "checkContinuity sink p h at = (q, Inr ())"
  shows "\<exists>b. publishParsed sink None p packet at h =
    (q\<lparr>tp_continuity := (tp_continuity q)(hd_pid h := Some (hd_continuityCounter h)),
       tp_publishedEvidence := Some \<lparr>pe_view = \<lparr>ev_byteOffset = at, ev_pid = hd_pid h,
           ev_payloadUnitStart = hd_payloadUnitStart h, ev_continuityCounter = hd_continuityCounter h,
           ev_discontinuity = hd_discontinuity h, ev_pcr27Mhz = hd_pcr h\<rparr>, pe_hasPayload = hd_hasPayload h,
         pe_payloadOffset = hd_payloadOffset h, pe_prefixPublished = b\<rparr>\<rparr>, Inr ())"
  by (cases "\<not> hd_payloadUnitStart h \<or> \<not> hd_hasPayload h \<or> length packet \<ge> hd_payloadOffset h + 3"; rule exI)
    (simp add: assms publishParsed_def publishEvidence_def publishPrefix_def markPrefixPublished_def Let_def del: de_Morgan_disj; fail)+

lemma parsePacket_built:
  assumes "parseHeader packet = HeaderParsed (built_header pid start continuity True off disc None)"
    and "disc \<or> follows (tp_continuity p pid) continuity" and "fresh_at p at"
    and "tp_sink p = (vs, es)"
  obtains q where "parsePacket collector None p packet at = (q, Inr ())"
    and "tp_sink q = (vs @ [\<lparr>pv_byteOffset = at, pv_pid = pid, pv_payloadUnitStart = start, pv_continuityCounter = continuity,
            pv_discontinuity = disc, pv_pcr27Mhz = None, pv_payload = drop off packet\<rparr>],
          es @ (if disc then [\<lparr>ce_byteOffset = at, ce_pid = pid, ce_reason = DiscontinuityIndicator\<rparr>] else []))"
    and "tp_continuity q pid = Some continuity" and "fresh_at q (at + 188)"
proof -
  have pub: "publishIncrementalEvidence collector None p packet at =
      publishParsed collector None p packet at (built_header pid start continuity True off disc None)"
    using assms(1,3) by (auto simp: publishIncrementalEvidence_def fresh_at_def split: option.splits)
  obtain q1 where q1: "checkContinuity collector p (built_header pid start continuity True off disc None) at = (q1, Inr ())"
      "tp_sink q1 = (vs, es @ (if disc then [\<lparr>ce_byteOffset = at, ce_pid = pid, ce_reason = DiscontinuityIndicator\<rparr>] else []))"
    using assms(2,4) by (cases disc) (auto simp: checkContinuity_def built_header_def follows_def split: option.splits)
  let ?view = "\<lparr>ev_byteOffset = at, ev_pid = pid, ev_payloadUnitStart = start, ev_continuityCounter = continuity,
      ev_discontinuity = disc, ev_pcr27Mhz = None\<rparr>"
  obtain q2 b where q2: "publishParsed collector None p packet at (built_header pid start continuity True off disc None) = (q2, Inr ())"
      "tp_sink q2 = tp_sink q1" "tp_continuity q2 pid = Some continuity"
      "tp_publishedEvidence q2 = Some \<lparr>pe_view = ?view, pe_hasPayload = True, pe_payloadOffset = off, pe_prefixPublished = b\<rparr>"
    using publishParsed_None [OF q1(1), of packet] by (auto simp: built_header_def)
  let ?s = "(vs @ [\<lparr>pv_byteOffset = at, pv_pid = pid, pv_payloadUnitStart = start, pv_continuityCounter = continuity,
            pv_discontinuity = disc, pv_pcr27Mhz = None, pv_payload = drop off packet\<rparr>],
          es @ (if disc then [\<lparr>ce_byteOffset = at, ce_pid = pid, ce_reason = DiscontinuityIndicator\<rparr>] else []))"
  have "parsePacket collector None p packet at = (q2\<lparr>tp_sink := ?s\<rparr>, Inr ())"
    using q1(2) q2 by (simp add: parsePacket_def pub Let_def)
  then show ?thesis by (rule that) (simp_all add: q2 fresh_at_def)
qed

text \<open>What the parser makes of the packets of one logical unit.\<close>

definition unit_views :: "u16 \<Rightarrow> bool \<Rightarrow> bool \<Rightarrow> u8 list \<Rightarrow> MediaTsPacketView list \<Rightarrow> bool" where
  "unit_views pid start disc bytes vs \<longleftrightarrow>
     concat (map pv_payload vs) = bytes \<and> (\<forall>v\<in>set vs. pv_pid v = pid \<and> pv_pcr27Mhz v = None) \<and>
     (vs \<noteq> [] \<longrightarrow> pv_payloadUnitStart (hd vs) = start \<and> pv_discontinuity (hd vs) = disc \<and>
        (\<forall>v\<in>set (tl vs). \<not> pv_payloadUnitStart v \<and> \<not> pv_discontinuity v))"

lemma feed_carried:
  "carries pid continuity start disc ps bytes \<Longrightarrow> disc \<or> follows (tp_continuity p pid) continuity \<Longrightarrow> fresh_at p at \<Longrightarrow>
   tp_sink p = (vs, es) \<Longrightarrow>
   \<exists>q ws. feed collector p (numbered at ps) = (q, Inr ()) \<and> unit_views pid start disc bytes ws \<and> length ws = length ps \<and>
     tp_sink q = (vs @ ws, es @ (if disc \<and> ps \<noteq> [] then [\<lparr>ce_byteOffset = at, ce_pid = pid, ce_reason = DiscontinuityIndicator\<rparr>] else []))"
proof (induction ps arbitrary: continuity start disc bytes p at vs es)
  case Nil
  then show ?case by (auto simp: unit_views_def)
next
  case (Cons packet ps)
  from Cons.prems(1) obtain off rest where h: "parseHeader packet = HeaderParsed (built_header pid start continuity True off disc None)"
      "bytes = drop off packet @ rest" "carries pid ((continuity + 1) AND 0x0F) False False ps rest"
    by auto
  let ?v = "\<lparr>pv_byteOffset = at, pv_pid = pid, pv_payloadUnitStart = start, pv_continuityCounter = continuity,
            pv_discontinuity = disc, pv_pcr27Mhz = None, pv_payload = drop off packet\<rparr>"
  let ?e = "if disc then [\<lparr>ce_byteOffset = at, ce_pid = pid, ce_reason = DiscontinuityIndicator\<rparr>] else []"
  obtain p1 where p1: "parsePacket collector None p packet at = (p1, Inr ())" "tp_sink p1 = (vs @ [?v], es @ ?e)"
      "tp_continuity p1 pid = Some continuity" "fresh_at p1 (at + 188)"
    using parsePacket_built [OF h(1) Cons.prems(2-4)] by blast
  have "False \<or> follows (tp_continuity p1 pid) ((continuity + 1) AND 0x0F)" using p1(3) by (simp add: follows_def)
  from Cons.IH [OF h(3) this p1(4,2)] obtain q ws where q: "feed collector p1 (numbered (at + 188) ps) = (q, Inr ())"
      "unit_views pid False False rest ws" "length ws = length ps" "tp_sink q = (vs @ [?v] @ ws, es @ ?e)"
    by auto
  have "\<forall>v\<in>set ws. \<not> pv_payloadUnitStart v \<and> \<not> pv_discontinuity v" using q(2) by (cases ws) (auto simp: unit_views_def)
  then have "unit_views pid start disc bytes (?v # ws)" using q(2) h(2) by (simp add: unit_views_def)
  then show ?case using p1(1) q by (intro exI [of _ q] exI [of _ "?v # ws"]) simp
qed

section \<open>The clock reference\<close>

lemma mid6_mask: "0x7E = (push_bit 1 (mask 6) :: 'a::len word)"
  by (simp add: mask_eq_exp_minus_1 push_bit_eq_mult)

lemma one_mask: "1 = (mask 1 :: 'a::len word)"
  by (simp add: mask_eq_exp_minus_1)

lemma clock_byte:
  fixes base :: u64 and extension :: u16
  assumes "extension < 0x200"
  defines "b \<equiv> ucast (push_bit 7 base OR 0x7E OR ucast (drop_bit 8 extension)) :: u8"
  shows "b AND 0x7E = 0x7E" and "drop_bit 7 (ucast b :: u64) = take_bit 1 base"
    and "ucast (b AND 1) = drop_bit 8 extension"
proof -
  have e: "take_bit 9 extension = extension"
    using assms(1) by (simp add: word_uint_eq_iff unsigned_take_bit_eq take_bit_int_eq_self word_less_def)
  have bits: "bit b n \<longleftrightarrow> n = 7 \<and> bit base 0 \<or> 1 \<le> n \<and> n < 7 \<or> n = 0 \<and> bit extension 8" for n
  proof (cases "n < 8")
    case True
    have "bit extension (8 + n) \<longleftrightarrow> n = 0 \<and> bit extension 8"
    proof -
      have "bit (take_bit 9 extension) (8 + n) \<longleftrightarrow> n = 0 \<and> bit (take_bit 9 extension) 8"
        by (auto simp: bit_simps)
      then show ?thesis by (simp add: e)
    qed
    then show ?thesis using True unfolding b_def mid6_mask by (auto simp: bit_simps simp del: push_bit_Suc One_nat_def)
  next
    case False
    then show ?thesis using bit_imp_le_length [of b n] by auto
  qed
  show "b AND 0x7E = 0x7E"
    unfolding mid6_mask by (rule bit_word_eqI) (auto simp: bit_simps simp del: push_bit_Suc One_nat_def simp: bits)
  show "drop_bit 7 (ucast b :: u64) = take_bit 1 base"
    by (rule bit_word_eqI) (auto simp: bit_simps simp del: push_bit_Suc One_nat_def simp: bits)
  show "ucast (b AND 1) = drop_bit 8 extension"
    unfolding one_mask
  proof (rule bit_word_eqI)
    fix n assume "n < LENGTH(16)"
    have "bit (take_bit 9 extension) (8 + n) \<longleftrightarrow> n = 0 \<and> bit (take_bit 9 extension) 8" by (auto simp: bit_simps simp del: push_bit_Suc One_nat_def)
    then show "bit (ucast (b AND mask 1) :: u16) n = bit (drop_bit 8 extension) n"
      by (auto simp: bit_simps simp del: push_bit_Suc One_nat_def simp: bits e)
  qed
qed

lemma clock_base:
  fixes base :: u64
  assumes "base < 0x200000000"
  shows "push_bit 25 (ucast (ucast (drop_bit 25 base) :: u8)) OR push_bit 17 (ucast (ucast (drop_bit 17 base) :: u8)) OR
    push_bit 9 (ucast (ucast (drop_bit 9 base) :: u8)) OR push_bit 1 (ucast (ucast (drop_bit 1 base) :: u8)) OR
    take_bit 1 base = base"
proof -
  have t: "take_bit 33 base = base"
    using assms by (simp add: word_uint_eq_iff unsigned_take_bit_eq take_bit_int_eq_self word_less_def)
  have "push_bit 25 (ucast (ucast (drop_bit 25 base) :: u8)) OR push_bit 17 (ucast (ucast (drop_bit 17 base) :: u8)) OR
    push_bit 9 (ucast (ucast (drop_bit 9 base) :: u8)) OR push_bit 1 (ucast (ucast (drop_bit 1 base) :: u8)) OR
    take_bit 1 base = take_bit 33 base" (is "?l = _")
  proof (rule bit_word_eqI)
    fix n assume "n < LENGTH(64)"
    then consider "n < 1" | "1 \<le> n" "n < 9" | "9 \<le> n" "n < 17" | "17 \<le> n" "n < 25" | "25 \<le> n" "n < 33" | "33 \<le> n" "n < 64"
      by fastforce
    then show "bit ?l n = bit (take_bit 33 base) n" by cases (auto simp: bit_simps simp del: push_bit_Suc One_nat_def)
  qed
  then show ?thesis by (simp add: t)
qed

lemma clock_extension:
  fixes extension :: u16
  shows "push_bit 8 (drop_bit 8 extension) OR ucast (ucast extension :: u8) = extension"
  by (rule bit_word_eqI) (auto simp: bit_simps simp del: push_bit_Suc One_nat_def)

lemma parseClock_built:
  assumes "wire < 2 ^ 33 * 300" and "cursor + 6 \<le> adaptationEnd"
    and "packet ! cursor = ucast (drop_bit 25 (wire div 300))" and "packet ! (cursor + 1) = ucast (drop_bit 17 (wire div 300))"
    and "packet ! (cursor + 2) = ucast (drop_bit 9 (wire div 300))" and "packet ! (cursor + 3) = ucast (drop_bit 1 (wire div 300))"
    and "packet ! (cursor + 4) = ucast (push_bit 7 (wire div 300) OR 0x7E OR ucast (drop_bit 8 (ucast (wire mod 300) :: u16)))"
    and "packet ! (cursor + 5) = ucast (ucast (wire mod 300) :: u16)"
  shows "parseClock packet adaptationEnd cursor = Inr (wire, cursor + 6)"
proof -
  let ?e = "ucast (wire mod 300) :: u16"
  have w: "unat wire < 2 ^ 33 * 300" using assms(1) by (simp add: word_less_nat_alt)
  have "unat (wire div 300) < 2 ^ 33" using w by (simp add: unat_div)
  then have b: "wire div 300 < 0x200000000" by (simp add: word_less_nat_alt)
  have m: "unat (wire mod 300) < 300" by (simp add: unat_mod)
  then have e: "unat ?e = unat (wire mod 300)" by (simp add: unsigned_ucast_eq take_bit_nat_eq_self)
  then have e9: "?e < 0x200" and e300: "\<not> ?e > 299" using m by (simp_all add: word_less_nat_alt)
  have v: "(wire div 300) * 300 + ucast ?e = wire"
  proof -
    have "(ucast ?e :: u64) = wire mod 300" using e by (simp add: word_unat_eq_iff unsigned_ucast_eq unsigned_take_bit_eq take_bit_nat_eq_self)
    then show ?thesis by (simp add: word_mod_div_equality)
  qed
  note C = clock_byte [OF e9, of "wire div 300"]
  show ?thesis
    unfolding parseClock_def Let_def assms C clock_base [OF b] clock_extension v using assms(2) e300 C by simp
qed
lemma pcrOnly_parses:
  assumes "pcrOnly pid nextContinuity wire disc = Inr packet"
  shows "length packet = 188 \<and>
    parseHeader packet = HeaderParsed (built_header pid False (previousPayload nextContinuity) False 188 disc (Some wire))"
proof -
  let ?c = "previousPayload nextContinuity" and ?b = "wire div 300" and ?e = "ucast (wire mod 300) :: u16"
  let ?h = "writeHeader pid False 2 ?c"
  have g: "pid < 0x1FFF" "wire < 2 ^ 33 * 300"
    and packet: "packet = ?h[4 := 183, 5 := 0x10 OR (if disc then 0x80 else 0),
              6 := ucast (drop_bit 25 ?b), 7 := ucast (drop_bit 17 ?b), 8 := ucast (drop_bit 9 ?b),
              9 := ucast (drop_bit 1 ?b), 10 := ucast (push_bit 7 ?b OR 0x7E OR ucast (drop_bit 8 ?e)), 11 := ucast ?e]"
    using assms by (auto simp: pcrOnly_def Let_def not_le split: if_splits)
  have c: "?c \<le> 15" by (simp add: previousPayload_def nibble_le)
  have len: "length packet = 188" and head: "take 4 packet = take 4 ?h" unfolding packet by simp_all
  have nth: "packet ! 4 = 183" "packet ! 5 = 0x10 OR (if disc then 0x80 else 0)" "packet ! 6 = ucast (drop_bit 25 ?b)"
      "packet ! (6 + 1) = ucast (drop_bit 17 ?b)" "packet ! (6 + 2) = ucast (drop_bit 9 ?b)" "packet ! (6 + 3) = ucast (drop_bit 1 ?b)"
      "packet ! (6 + 4) = ucast (push_bit 7 ?b OR 0x7E OR ucast (drop_bit 8 ?e))" "packet ! (6 + 5) = ucast ?e"
    unfolding packet by (simp_all del: push_bit_Suc drop_bit_Suc)
  have clock: "parseClock packet 188 6 = Inr (wire, 12)"
    using parseClock_built [OF g(2) _ nth(3-8), of 188] by simp
  have stuff: "\<not> (\<exists>i\<in>set [12..<188]. packet ! i \<noteq> 0xFF)"
    unfolding packet using writeHeader_body [of _ pid False 2 ?c] by auto
  have flags: "packet ! 5 AND 0x10 \<noteq> 0" "packet ! 5 AND 0x08 = 0" "packet ! 5 AND 0x04 = 0" "packet ! 5 AND 0x02 = 0"
      "packet ! 5 AND 0x01 = 0" "(packet ! 5 AND 0x80 \<noteq> 0) = disc"
    unfolding nth by simp_all
  have "optionalClock (packet ! 5 AND 0x10 \<noteq> 0) packet (5 + 183) 6 = Inr (Some wire, 12)"
    using clock flags(1) by (simp add: optionalClock_def)
  then have "parseAdaptation packet 183 = Inr (disc, Some wire)"
    using stuff flags(2-6)
    by (simp add: parseAdaptation_def Let_def optionalClock_def skipSplice_def skipPrivateData_def skipExtension_def
        del: upt_rec_numeral)
  then show ?thesis using parse_built [OF len head g(1) c] nth(1) len by (simp add: Let_def)
qed

section \<open>The properties\<close>

lemma parseHeader_sync: "parseHeader packet = HeaderParsed h \<Longrightarrow> packet ! 0 = 0x47"
  by (cases "packet ! 0 = 0x47"; cases "length packet < 4") (simp_all add: parseHeader_def)

lemma carries_sync: "carries pid c start disc ps bytes \<Longrightarrow> \<forall>x\<in>set ps. sync_packet x"
proof (induction ps arbitrary: c start disc bytes)
  case (Cons p ps)
  then obtain h d rest where "length p = 188" "parseHeader p = HeaderParsed h" "carries pid d False False ps rest" by auto
  then show ?case using Cons.IH [of d False False rest] parseHeader_sync [of p h] by (simp add: sync_packet_def)
qed simp

lemma carries_length: "carries pid c start disc ps bytes \<Longrightarrow> length ps \<le> length bytes"
proof (induction ps arbitrary: c start disc bytes)
  case (Cons p ps)
  from Cons.prems obtain payload rest where b: "payload \<noteq> []" "bytes = payload @ rest" and r: "carries pid ((c + 1) AND 0x0F) False False ps rest"
    unfolding carries.simps by blast
  show ?case using b Cons.IH [OF r] by (cases payload) simp_all
qed simp

lemma length_concat_sync: "\<forall>x\<in>set ps. sync_packet x \<Longrightarrow> length (concat ps) = 188 * length ps"
  by (induction ps) (simp_all add: sync_packet_def)

text \<open>
  C17. A logical unit survives transport: for every unit given in segments the builder returns the
  announced number of packets without reading out of bounds, and parsing their concatenation, cut
  into chunks in any way, succeeds and delivers packets of that PID whose payloads in order are the
  unit, with the unit start and the discontinuity on the first packet only and no continuity error.
\<close>

theorem unit_roundtrip:
  assumes "pid < 0x1FFF" and "continuity \<le> 15" and "concat segs \<noteq> []" and "length (concat segs) < 2 ^ 56"
    and "parser_create 188 ([], []) = Inr p"
  shows "\<exists>packets. builder_payload pid continuity segs ra disc = Some (Inr packets) \<and>
    payloadPacketCount segs ra disc = Inr (length packets) \<and>
    (\<forall>chunks. concat chunks = concat packets \<longrightarrow>
       (\<exists>q vs. parse_session collector p chunks = (q, Inr ()) \<and> unit_views pid True disc (concat segs) vs \<and>
          length vs = length packets \<and>
          tp_sink q = (vs, if disc then [\<lparr>ce_byteOffset = 0, ce_pid = pid, ce_reason = DiscontinuityIndicator\<rparr>] else [])))"
proof -
  have "length (concat segs) < 2 ^ 64" using assms(4) by simp
  then obtain ps where ps: "builder_payload pid continuity segs ra disc = Some (Inr ps)" "carries pid continuity True disc ps (concat segs)"
      "payloadPacketCount segs ra disc = Inr (length ps)"
    using builder_payload_ok [OF assms(1,2) _ assms(3)] by blast
  have ne: "ps \<noteq> []" using ps(2) assms(3) by auto
  note S = carries_sync [OF ps(2)]
  have small: "length (concat ps) < 2 ^ 64" using length_concat_sync [OF S] carries_length [OF ps(2)] assms(4) by simp
  have "disc \<or> follows (tp_continuity p pid) continuity" "fresh_at p 0" "tp_sink p = ([], [])"
    using assms(5) by (auto simp: parser_create_def follows_def fresh_at_def)
  from feed_carried [OF ps(2) this] obtain c vs where c: "feed collector p (numbered 0 ps) = (c, Inr ())"
      "unit_views pid True disc (concat segs) vs" "length vs = length ps"
      "tp_sink c = (vs, if disc then [\<lparr>ce_byteOffset = 0, ce_pid = pid, ce_reason = DiscontinuityIndicator\<rparr>] else [])"
    using ne by auto
  have "\<exists>q. parse_session collector p chunks = (q, Inr ()) \<and> tp_sink q = tp_sink c" if k: "concat chunks = concat ps" for chunks
  proof -
    obtain q st where q: "parse_session collector p chunks = (q, st)" by fastforce
    show ?thesis using session_clean [OF assms(5) _ k ne S c(1) q] small k q by simp
  qed
  then show ?thesis using ps c by (metis (no_types, lifting))
qed

text \<open>
  Every program clock reference the builder accepts is transmitted exactly: the packet it builds
  parses to a packet of the PID without payload that repeats the previous continuity counter and
  carries the 27 MHz value and the discontinuity flag; values outside the 42-bit field are refused.
\<close>

theorem pcr_roundtrip:
  "case pcrOnly pid nextContinuity wire disc of
     Inl e \<Rightarrow> e = InvalidArgument \<and> (pid \<ge> 0x1FFF \<or> nextContinuity > 15 \<or> wire \<ge> 2 ^ 33 * 300)
   | Inr packet \<Rightarrow> length packet = 188 \<and> (nextContinuity \<le> 15 \<and> (previousPayload nextContinuity + 1) AND 0x0F = nextContinuity) \<and>
       parseHeader packet = HeaderParsed (built_header pid False (previousPayload nextContinuity) False 188 disc (Some wire))"
proof (cases "pcrOnly pid nextContinuity wire disc")
  case (Inl e)
  then show ?thesis by (auto simp: pcrOnly_def Let_def split: if_splits)
next
  case (Inr packet)
  then have n: "nextContinuity \<le> 15" by (auto simp: pcrOnly_def Let_def not_less split: if_splits)
  have "\<forall>n\<in>set [0..<16]. (previousPayload (of_nat n) + 1) AND 0x0F = of_nat n" by code_simp
  moreover have "unat nextContinuity \<in> set [0..<16]" using n by (simp add: word_le_nat_alt)
  ultimately have "(previousPayload nextContinuity + 1) AND 0x0F = nextContinuity" by fastforce
  then show ?thesis using n Inr pcrOnly_parses [OF Inr] by simp
qed

theorem unit_roundtrip_witness:
  "\<exists>packets. builder_payload 0x100 15 [[1, 2], [], replicate 300 3] True True = Some (Inr packets) \<and> length packets = 2 \<and>
     (\<exists>q. parse_session collector (projr (parser_create 188 ([], []))) [concat packets] = (q, Inr ()) \<and>
        concat (map pv_payload (fst (tp_sink q))) = [1, 2] @ replicate 300 3)"
proof -
  let ?p = "projr (parser_create 188 ([], []))"
  have p: "parser_create 188 ([], []) = Inr ?p" by (simp add: parser_create_def)
  have k: "payloadPacketCount [[1, 2], [], replicate 300 3] True True = Inr 2"
    by (simp add: payloadPacketCount_def segmented_create_def Let_def)
  obtain packets where b: "builder_payload 0x100 15 [[1, 2], [], replicate 300 3] True True = Some (Inr packets)"
      "Inr 2 = (Inr (length packets) :: nat Result)"
      "\<forall>chunks. concat chunks = concat packets \<longrightarrow>
         (\<exists>q vs. parse_session collector ?p chunks = (q, Inr ()) \<and> unit_views 0x100 True True (concat [[1, 2], [], replicate 300 3]) vs \<and>
            length vs = length packets \<and>
            tp_sink q = (vs, if True then [\<lparr>ce_byteOffset = 0, ce_pid = 0x100, ce_reason = DiscontinuityIndicator\<rparr>] else []))"
    using unit_roundtrip [OF _ _ _ _ p, where pid = "0x100" and continuity = "15" and segs = "[[1, 2], [], replicate 300 3]" and ra = True and disc = True]
    unfolding k by auto
  obtain q vs where v: "parse_session collector ?p [concat packets] = (q, Inr ())"
      "unit_views 0x100 True True (concat [[1, 2], [], replicate 300 3]) vs" "fst (tp_sink q) = vs"
    using b(3) [rule_format, of "[concat packets]"] by auto
  then have "concat (map pv_payload (fst (tp_sink q))) = [1, 2] @ replicate 300 3" by (simp add: unit_views_def)
  moreover have "length packets = 2" using b(2) by simp
  ultimately show ?thesis using b(1) v(1) by blast
qed

end
