(* ===== verification/Ts_Psi.thy ===== *)
theory Ts_Psi
  imports Ts_Mux_Plan Ts_Packet_Builder "HOL-Library.AList"
begin

unbundle bit_operations_syntax

text \<open>
  \<^verbatim>\<open>protocol/mpegts/MediaTsCrc32\<close>, \<^verbatim>\<open>MediaTsPsiSerializer\<close> and \<^verbatim>\<open>MediaTsPsiSectionAssembler\<close>: writing the
  program tables of a mux plan and reassembling and interpreting tables from packets. Hash maps whose
  size the code reads are association lists; the map of partial sections is a function with the
  empty section as default. The inventory sink is a parameter. Dereferencing an empty optional is the
  value \<open>None\<close>.
\<close>

section \<open>CRC\<close>

definition crc_bit :: "u32 \<Rightarrow> u32" where
  "crc_bit crc = (if crc AND 0x80000000 \<noteq> 0 then push_bit 1 crc XOR 0x04C11DB7 else push_bit 1 crc)"

definition crc_byte :: "u32 \<Rightarrow> u8 \<Rightarrow> u32" where
  "crc_byte crc byte = (crc_bit ^^ 8) (crc XOR push_bit 24 (ucast byte))"

definition crc32_compute :: "u8 list \<Rightarrow> u32" where
  "crc32_compute bytes = fold (\<lambda>byte crc. crc_byte crc byte) bytes 0xFFFFFFFF"

section \<open>The serializer\<close>

definition appendU16 :: "u8 list \<Rightarrow> u16 \<Rightarrow> u8 list" where
  "appendU16 output v = output @ [ucast (drop_bit 8 v), ucast v]"

definition appendPid :: "u8 list \<Rightarrow> u16 \<Rightarrow> u8 \<Rightarrow> u8 list" where
  "appendPid output pid reservedPrefix = output @ [ucast (ucast reservedPrefix OR drop_bit 8 pid), ucast pid]"

definition appendCrc :: "u8 list \<Rightarrow> u8 list" where
  "appendCrc section =
     (let crc = crc32_compute section
      in section @ [ucast (drop_bit 24 crc), ucast (drop_bit 16 crc), ucast (drop_bit 8 crc), ucast crc])"

definition serializePat :: "MediaTsMuxPlanParameters \<Rightarrow> u8 list" where
  "serializePat parameters =
     appendCrc
       (appendPid
         (appendU16
           (appendU16 [0x00, 0xB0, 0x0D] (mp_transportStreamId parameters) @
              [0xC1 OR push_bit 1 (mp_tableVersion parameters)] @ [0x00, 0x00])
           (mp_programNumber parameters))
         (mp_programMapPid parameters) 0xE0)"

definition serializePmt :: "MediaTsMuxPlanParameters \<Rightarrow> u8 list" where
  "serializePmt parameters =
     (let program = mp_program parameters;
          section = (case program of VideoOnly _ \<Rightarrow> [0x02, 0xB0, 0x12] | AudioVideo _ \<Rightarrow> [0x02, 0xB0, 0x17]);
          section = appendU16 section (mp_programNumber parameters);
          section = section @ [0xC1 OR push_bit 1 (mp_tableVersion parameters)] @ [0x00, 0x00];
          section = appendPid section (program_pcrPid program) 0xE0 @ [0xF0, 0x00] @ [program_videoStreamType program];
          section = appendPid section (program_videoPid program) 0xE0 @ [0xF0, 0x00];
          section = (case program of
                       VideoOnly _ \<Rightarrow> section
                     | AudioVideo a \<Rightarrow> appendPid (section @ [av_audioStreamType a]) (av_audioPid a) 0xE0 @ [0xF0, 0x00])
      in appendCrc section)"

section \<open>The assembler: data\<close>

record MediaTsElementaryStreamInfo =
  es_pid :: u16
  es_streamType :: u8

record MediaTsProgramInfo =
  pi_programNumber :: u16
  pi_pmtPid :: u16
  pi_pmtVersion :: u8
  pi_pcrPid :: u16
  pi_elementaryStreams :: "MediaTsElementaryStreamInfo list"

record MediaTsProgramInventorySnapshot =
  inv_patVersion :: u8
  inv_programs :: "MediaTsProgramInfo list"

type_synonym 's MediaTsProgramInventorySink = "'s \<Rightarrow> MediaTsProgramInventorySnapshot \<Rightarrow> 's \<times> Status"

record SectionState =
  sec_bytes :: "u8 list"
  sec_expectedSize :: "nat option"

definition no_section :: SectionState where
  "no_section = \<lparr>sec_bytes = [], sec_expectedSize = None\<rparr>"

record PatProgram =
  pp_programNumber :: u16
  pp_pmtPid :: u16

record PatTableAssembly =
  pat_transportStreamId :: u16
  pat_version :: u8
  pat_lastSectionNumber :: u8
  pat_sections :: "(u8 \<times> PatProgram list) list"

record PmtTableAssembly =
  pmt_programNumber :: u16
  pmt_version :: u8
  pmt_lastSectionNumber :: u8
  pmt_pcrPid :: u16
  pmt_sections :: "(u8 \<times> MediaTsElementaryStreamInfo list) list"

record 's MediaTsPsiSectionAssembler =
  asm_sink :: 's
  asm_sections :: "u16 \<Rightarrow> SectionState"
  asm_patAssembly :: "PatTableAssembly option"
  asm_patVersion :: "u8 option"
  asm_patPrograms :: "PatProgram list"
  asm_pmtAssemblies :: "(u16 \<times> PmtTableAssembly) list"
  asm_programsByPmtPid :: "(u16 \<times> MediaTsProgramInfo) list"
  asm_lastPublished :: "MediaTsProgramInventorySnapshot option"

definition assembler_create :: "'s \<Rightarrow> 's MediaTsPsiSectionAssembler" where
  "assembler_create sink =
     \<lparr>asm_sink = sink, asm_sections = (\<lambda>_. no_section), asm_patAssembly = None, asm_patVersion = None,
      asm_patPrograms = [], asm_pmtAssemblies = [], asm_programsByPmtPid = [], asm_lastPublished = None\<rparr>"

section \<open>The assembler: tables\<close>

definition validateLongSection :: "u8 list \<Rightarrow> u8 \<Rightarrow> nat \<Rightarrow> Status" where
  "validateLongSection section tableId minimumSize =
     (if length section < minimumSize then failure InvalidArgument
      else if section ! 0 \<noteq> tableId then failure InvalidArgument
      else if section ! 1 AND 0xF0 \<noteq> 0xB0 then failure InvalidArgument
      else
        (let sectionLength = unat (push_bit 8 (ucast (section ! 1 AND 0x0F)) OR ucast (section ! 2) :: u32)
         in if sectionLength > 1021 \<or> sectionLength + 3 \<noteq> length section then failure InvalidArgument
            else if section ! 5 AND 0xC0 \<noteq> 0xC0 then failure InvalidArgument
            else if section ! 5 AND 0x01 = 0 then failure InvalidArgument
            else if section ! 6 > section ! 7 then failure InvalidArgument
            else if crc32_compute section \<noteq> 0 then failure InvalidArgument
            else success ()))"

definition pid_at :: "u8 list \<Rightarrow> nat \<Rightarrow> u16" where
  "pid_at section offset = push_bit 8 (ucast (section ! offset AND 0x1F)) OR ucast (section ! (offset + 1))"

definition resetPidGeneration :: "u16 \<Rightarrow> 's MediaTsPsiSectionAssembler \<Rightarrow> 's MediaTsPsiSectionAssembler" where
  "resetPidGeneration pid a =
     (let a = a\<lparr>asm_sections := (asm_sections a)(pid := no_section), asm_lastPublished := None\<rparr>
      in if pid = 0
         then a\<lparr>asm_patAssembly := None, asm_patVersion := None, asm_patPrograms := [], asm_pmtAssemblies := [],
                asm_programsByPmtPid := []\<rparr>
         else a\<lparr>asm_pmtAssemblies := AList.delete pid (asm_pmtAssemblies a),
                asm_programsByPmtPid := AList.delete pid (asm_programsByPmtPid a)\<rparr>)"

text \<open>The program loop of a PAT section, over the offsets of its entries.\<close>

fun patEntries :: "u8 list \<Rightarrow> nat list \<Rightarrow> PatProgram list \<Rightarrow> PatProgram list Result" where
  "patEntries section [] programs = success programs"
| "patEntries section (offset # offsets) programs =
     (let programNumber = readU16 section offset;
          pid = pid_at section (offset + 2)
      in if section ! (offset + 2) AND 0xE0 \<noteq> 0xE0 then failure InvalidArgument
         else if programNumber = 0 then patEntries section offsets programs
         else if pid = 0x1FFF \<or> programNumber \<in> set (map pp_programNumber programs) \<or> pid \<in> set (map pp_pmtPid programs)
              then failure InvalidArgument
         else patEntries section offsets (programs @ [\<lparr>pp_programNumber = programNumber, pp_pmtPid = pid\<rparr>]))"

text \<open>Joining the sections of a complete table; \<open>None\<close> when a number is missing.\<close>

fun addPrograms :: "PatProgram list \<Rightarrow> PatProgram list \<Rightarrow> PatProgram list Result" where
  "addPrograms [] programs = success programs"
| "addPrograms (program # rest) programs =
     (if pp_programNumber program \<in> set (map pp_programNumber programs) \<or> pp_pmtPid program \<in> set (map pp_pmtPid programs)
      then failure InvalidArgument else addPrograms rest (programs @ [program]))"

fun joinPat :: "(u8 \<times> PatProgram list) list \<Rightarrow> nat list \<Rightarrow> PatProgram list \<Rightarrow> PatProgram list option Result" where
  "joinPat sections [] programs = success (Some programs)"
| "joinPat sections (number # numbers) programs =
     (case map_of sections (of_nat number) of
        None \<Rightarrow> success None
      | Some part \<Rightarrow>
          (case addPrograms part programs of
             Inl e \<Rightarrow> failure e
           | Inr programs \<Rightarrow> joinPat sections numbers programs))"

fun addStreams :: "MediaTsElementaryStreamInfo list \<Rightarrow> MediaTsElementaryStreamInfo list \<Rightarrow> MediaTsElementaryStreamInfo list Result" where
  "addStreams [] streams = success streams"
| "addStreams (stream # rest) streams =
     (if es_pid stream \<in> set (map es_pid streams) then failure InvalidArgument else addStreams rest (streams @ [stream]))"

fun joinPmt ::
  "(u8 \<times> MediaTsElementaryStreamInfo list) list \<Rightarrow> nat list \<Rightarrow> MediaTsElementaryStreamInfo list \<Rightarrow>
   MediaTsElementaryStreamInfo list option Result" where
  "joinPmt sections [] streams = success (Some streams)"
| "joinPmt sections (number # numbers) streams =
     (case map_of sections (of_nat number) of
        None \<Rightarrow> success None
      | Some part \<Rightarrow>
          (case addStreams part streams of
             Inl e \<Rightarrow> failure e
           | Inr streams \<Rightarrow> joinPmt sections numbers streams))"

text \<open>The table a PAT section belongs to: a new one, the current one, or a conflict.\<close>

definition patTable ::
  "u8 list \<Rightarrow> 's MediaTsPsiSectionAssembler \<Rightarrow> ('s MediaTsPsiSectionAssembler \<times> PatTableAssembly) Result" where
  "patTable section a =
     (let version = drop_bit 1 (section ! 5) AND 0x1F;
          transportStreamId = readU16 section 3;
          lastSectionNumber = section ! 7;
          fresh = \<lparr>pat_transportStreamId = transportStreamId, pat_version = version,
                   pat_lastSectionNumber = lastSectionNumber, pat_sections = []\<rparr>;
          restarted = a\<lparr>asm_patAssembly := Some fresh, asm_patVersion := None, asm_patPrograms := [],
                         asm_pmtAssemblies := [], asm_programsByPmtPid := []\<rparr>
      in case asm_patAssembly a of
           None \<Rightarrow> success (restarted, fresh)
         | Some t \<Rightarrow>
             (if pat_version t \<noteq> version then success (restarted, fresh)
              else if pat_lastSectionNumber t \<noteq> lastSectionNumber \<or> pat_transportStreamId t \<noteq> transportStreamId
              then failure InvalidArgument
              else success (a, t)))"

definition parsePat :: "u8 list \<Rightarrow> 's MediaTsPsiSectionAssembler \<Rightarrow> 's MediaTsPsiSectionAssembler \<times> Status" where
  "parsePat section a =
     (case validateLongSection section 0x00 12 of
        Inl e \<Rightarrow> (a, failure e)
      | Inr _ \<Rightarrow>
          (if (length section - 12) mod 4 \<noteq> 0 then (a, failure InvalidArgument)
           else
     (case patEntries section (map (\<lambda>i. 8 + 4 * i) [0..<(length section - 12) div 4]) [] of
        Inl e \<Rightarrow> (a, failure e)
      | Inr sectionPrograms \<Rightarrow>
     (case patTable section a of
        Inl e \<Rightarrow> (a, failure e)
      | Inr (a, table) \<Rightarrow>
          (let sectionNumber = section ! 6;
               lastSectionNumber = section ! 7
           in case map_of (pat_sections table) sectionNumber of
                Some existing \<Rightarrow>
                  (a, if existing \<noteq> sectionPrograms then failure InvalidArgument else success ())
              | None \<Rightarrow>
                  (let table = table\<lparr>pat_sections := AList.update sectionNumber sectionPrograms (pat_sections table)\<rparr>;
                       a = a\<lparr>asm_patAssembly := Some table\<rparr>
                   in if length (pat_sections table) \<noteq> unat lastSectionNumber + 1 then (a, success ())
                      else
                        (case joinPat (pat_sections table) [0..<unat lastSectionNumber + 1] [] of
                           Inl e \<Rightarrow> (a, failure e)
                         | Inr None \<Rightarrow> (a, success ())
                         | Inr (Some programs) \<Rightarrow>
                             (if programs = [] then (a, failure InvalidArgument)
                              else (a\<lparr>asm_patVersion := Some (pat_version table), asm_patPrograms := programs,
                                      asm_sections := (\<lambda>pid. if pid = 0 then asm_sections a 0 else no_section)\<rparr>,
                                    success ())))))))))"

text \<open>The elementary stream loop of a PMT section.\<close>

function pmtEntries ::
  "u8 list \<Rightarrow> nat \<Rightarrow> nat \<Rightarrow> MediaTsElementaryStreamInfo list \<Rightarrow> MediaTsElementaryStreamInfo list Result" where
  "pmtEntries section crcOffset offset streams =
     (if \<not> offset < crcOffset then success streams
      else if crcOffset - offset < 5 then failure InvalidArgument
      else if section ! (offset + 1) AND 0xE0 \<noteq> 0xE0 \<or> section ! (offset + 3) AND 0xF0 \<noteq> 0xF0 then failure InvalidArgument
      else
        (let streamPid = pid_at section (offset + 1);
             infoLength = unat (push_bit 8 (ucast (section ! (offset + 3) AND 0x0F)) OR ucast (section ! (offset + 4)) :: u32)
         in if streamPid = 0x1FFF \<or> streamPid \<in> set (map es_pid streams) then failure InvalidArgument
            else if infoLength > crcOffset - offset - 5 then failure InvalidArgument
            else pmtEntries section crcOffset (offset + 5 + infoLength)
                   (streams @ [\<lparr>es_pid = streamPid, es_streamType = section ! offset\<rparr>])))"
  by pat_completeness auto
termination by (relation "measure (\<lambda>(_, crcOffset, offset, _). crcOffset - offset)") auto

declare pmtEntries.simps [simp del]

fun publishPrograms :: "PatProgram list \<Rightarrow> (u16 \<times> MediaTsProgramInfo) list \<Rightarrow> MediaTsProgramInfo list option" where
  "publishPrograms [] table = Some []"
| "publishPrograms (mapping # rest) table =
     (case map_of table (pp_pmtPid mapping) of
        None \<Rightarrow> None
      | Some program \<Rightarrow> map_option ((#) program) (publishPrograms rest table))"

definition publishIfComplete ::
  "'s MediaTsProgramInventorySink \<Rightarrow> 's MediaTsPsiSectionAssembler \<Rightarrow> 's MediaTsPsiSectionAssembler \<times> Status" where
  "publishIfComplete onProgramInventory a =
     (case asm_patVersion a of
        None \<Rightarrow> (a, success ())
      | Some patVersion \<Rightarrow>
          (if length (asm_programsByPmtPid a) \<noteq> length (asm_patPrograms a) then (a, success ())
           else
             (case publishPrograms (asm_patPrograms a) (asm_programsByPmtPid a) of
                None \<Rightarrow> (a, success ())
              | Some programs \<Rightarrow>
                  (let snapshot = \<lparr>inv_patVersion = patVersion, inv_programs = programs\<rparr>
                   in if asm_lastPublished a = Some snapshot then (a, success ())
                      else
                        (case onProgramInventory (asm_sink a) snapshot of
                           (s, Inl e) \<Rightarrow> (a\<lparr>asm_sink := s\<rparr>, failure e)
                         | (s, Inr _) \<Rightarrow> (a\<lparr>asm_sink := s, asm_lastPublished := Some snapshot\<rparr>, success ()))))))"

text \<open>The checks of a PMT section before the table state: its program, the PCR PID and the streams.\<close>

definition pmtSection :: "u8 list \<Rightarrow> u16 \<Rightarrow> PatProgram list \<Rightarrow> (PatProgram \<times> u16 \<times> MediaTsElementaryStreamInfo list) Result" where
  "pmtSection section pid patPrograms =
     (case validateLongSection section 0x02 16 of
        Inl e \<Rightarrow> failure e
      | Inr _ \<Rightarrow>
     (case List.find (\<lambda>program. pp_pmtPid program = pid) patPrograms of
        None \<Rightarrow> failure InvalidArgument
      | Some patProgram \<Rightarrow>
          (if readU16 section 3 \<noteq> pp_programNumber patProgram then failure InvalidArgument
           else if section ! 8 AND 0xE0 \<noteq> 0xE0 \<or> section ! 10 AND 0xF0 \<noteq> 0xF0 then failure InvalidArgument
           else
             (let pcrPid = pid_at section 8;
                  programInfoLength = unat (push_bit 8 (ucast (section ! 10 AND 0x0F)) OR ucast (section ! 11) :: u32);
                  offset = 12 + programInfoLength;
                  crcOffset = length section - 4
              in if pcrPid = 0x1FFF then failure InvalidArgument
                 else if offset > crcOffset then failure InvalidArgument
                 else
                   (case pmtEntries section crcOffset offset [] of
                      Inl e \<Rightarrow> failure e
                    | Inr streams \<Rightarrow> success (patProgram, pcrPid, streams))))))"

text \<open>The table a PMT section belongs to.\<close>

definition pmtTable ::
  "u8 list \<Rightarrow> u16 \<Rightarrow> PatProgram \<Rightarrow> u16 \<Rightarrow> 's MediaTsPsiSectionAssembler \<Rightarrow>
   ('s MediaTsPsiSectionAssembler \<times> PmtTableAssembly) Result" where
  "pmtTable section pid patProgram pcrPid a =
     (let version = drop_bit 1 (section ! 5) AND 0x1F;
          lastSectionNumber = section ! 7;
          fresh = \<lparr>pmt_programNumber = pp_programNumber patProgram, pmt_version = version,
                   pmt_lastSectionNumber = lastSectionNumber, pmt_pcrPid = pcrPid, pmt_sections = []\<rparr>;
          restarted = a\<lparr>asm_programsByPmtPid := AList.delete pid (asm_programsByPmtPid a),
                         asm_pmtAssemblies := AList.update pid fresh (asm_pmtAssemblies a)\<rparr>
      in case map_of (asm_pmtAssemblies a) pid of
           None \<Rightarrow> success (restarted, fresh)
         | Some t \<Rightarrow>
             (if pmt_version t \<noteq> version then success (restarted, fresh)
              else if pmt_lastSectionNumber t \<noteq> lastSectionNumber \<or>
                      pmt_programNumber t \<noteq> pp_programNumber patProgram \<or> pmt_pcrPid t \<noteq> pcrPid
              then failure InvalidArgument
              else success (a, t)))"

definition parsePmt ::
  "'s MediaTsProgramInventorySink \<Rightarrow> u16 \<Rightarrow> u8 list \<Rightarrow> 's MediaTsPsiSectionAssembler \<Rightarrow> 's MediaTsPsiSectionAssembler \<times> Status" where
  "parsePmt onProgramInventory pid section a =
     (case pmtSection section pid (asm_patPrograms a) of
        Inl e \<Rightarrow> (a, failure e)
      | Inr (patProgram, pcrPid, sectionStreams) \<Rightarrow>
     (case pmtTable section pid patProgram pcrPid a of
        Inl e \<Rightarrow> (a, failure e)
      | Inr (a, table) \<Rightarrow>
          (let sectionNumber = section ! 6;
               lastSectionNumber = section ! 7
           in case map_of (pmt_sections table) sectionNumber of
                Some existing \<Rightarrow>
                  (a, if existing \<noteq> sectionStreams then failure InvalidArgument else success ())
              | None \<Rightarrow>
                  (let table = table\<lparr>pmt_sections := AList.update sectionNumber sectionStreams (pmt_sections table)\<rparr>;
                       a = a\<lparr>asm_pmtAssemblies := AList.update pid table (asm_pmtAssemblies a)\<rparr>
                   in if length (pmt_sections table) \<noteq> unat lastSectionNumber + 1 then (a, success ())
                      else
                        (case joinPmt (pmt_sections table) [0..<unat lastSectionNumber + 1] [] of
                           Inl e \<Rightarrow> (a, failure e)
                         | Inr None \<Rightarrow> (a, success ())
                         | Inr (Some streams) \<Rightarrow>
                             (if streams = [] then (a, failure InvalidArgument)
                              else
                                (let info = \<lparr>pi_programNumber = pp_programNumber patProgram, pi_pmtPid = pid,
                                             pi_pmtVersion = pmt_version table, pi_pcrPid = pcrPid,
                                             pi_elementaryStreams = streams\<rparr>
                                 in publishIfComplete onProgramInventory
                                      (a\<lparr>asm_programsByPmtPid := AList.update pid info (asm_programsByPmtPid a)\<rparr>))))))))"

definition completeSection ::
  "'s MediaTsProgramInventorySink \<Rightarrow> u16 \<Rightarrow> u8 list \<Rightarrow> 's MediaTsPsiSectionAssembler \<Rightarrow> 's MediaTsPsiSectionAssembler \<times> Status" where
  "completeSection onProgramInventory pid section a =
     (if pid = 0 then parsePat section a else parsePmt onProgramInventory pid section a)"

section \<open>The assembler: sections\<close>

text \<open>
  The first three bytes of a section: the call returns (\<open>Inl\<close>) when they are not complete or announce a
  length out of range, and goes on (\<open>Inr\<close>) with the input behind them otherwise.
\<close>

definition sectionHeader :: "SectionState \<Rightarrow> u8 list \<Rightarrow> (SectionState \<times> Status) + (SectionState \<times> u8 list)" where
  "sectionHeader state bytes =
     (if length (sec_bytes state) < 3 then
        (let k = min (3 - length (sec_bytes state)) (length bytes);
             state = state\<lparr>sec_bytes := sec_bytes state @ take k bytes\<rparr>
         in if length (sec_bytes state) < 3 then Inl (state, success ())
            else
              (let sectionLength = unat (push_bit 8 (ucast (sec_bytes state ! 1 AND 0x0F)) OR ucast (sec_bytes state ! 2) :: u32)
               in if sectionLength > 1021 \<or> sectionLength < 4 then Inl (state, failure InvalidArgument)
                  else Inr (state\<lparr>sec_expectedSize := Some (sectionLength + 3)\<rparr>, drop k bytes)))
      else Inr (state, bytes))"

text \<open>One round of \<^verbatim>\<open>consume\<close>: it returns (\<open>Inl\<close>) or goes on with the rest of the input (\<open>Inr\<close>).\<close>

definition consumeRound ::
  "'s MediaTsProgramInventorySink \<Rightarrow> u16 \<Rightarrow> 's MediaTsPsiSectionAssembler \<Rightarrow> u8 list \<Rightarrow>
   ('s MediaTsPsiSectionAssembler \<times> Status) option + ('s MediaTsPsiSectionAssembler \<times> u8 list)" where
  "consumeRound onProgramInventory pid a bytes =
     (case sectionHeader (asm_sections a pid) bytes of
        Inl (state, status) \<Rightarrow> Inl (Some (a\<lparr>asm_sections := (asm_sections a)(pid := state)\<rparr>, status))
      | Inr (state, bytes) \<Rightarrow>
          (case sec_expectedSize state of
             None \<Rightarrow> Inl None
           | Some expectedSize \<Rightarrow>
               (let k = min (expectedSize - length (sec_bytes state)) (length bytes);
                    state = state\<lparr>sec_bytes := sec_bytes state @ take k bytes\<rparr>
                in if length (sec_bytes state) \<noteq> expectedSize
                   then Inl (Some (a\<lparr>asm_sections := (asm_sections a)(pid := state)\<rparr>, success ()))
                   else
                     (case completeSection onProgramInventory pid (sec_bytes state)
                             (a\<lparr>asm_sections := (asm_sections a)(pid := no_section)\<rparr>) of
                        (a, Inl e) \<Rightarrow> Inl (Some (a, failure e))
                      | (a, Inr _) \<Rightarrow> Inr (a, drop k bytes)))))"

lemma publish_sections: "publishIfComplete sink a = (a', st) \<Longrightarrow> asm_sections a' = asm_sections a"
  by (auto simp: publishIfComplete_def Let_def split: option.splits if_splits prod.splits sum.splits)

lemma parsePmt_sections: "parsePmt sink pid section a = (a', st) \<Longrightarrow> asm_sections a' = asm_sections a"
  by (auto simp: parsePmt_def pmtTable_def Let_def split: option.splits if_splits prod.splits sum.splits dest!: publish_sections)

lemma parsePat_sections: "parsePat section a = (a', st) \<Longrightarrow> asm_sections a' 0 = asm_sections a 0"
  by (auto simp: parsePat_def patTable_def Let_def split: option.splits if_splits prod.splits sum.splits)

lemma completeSection_sections: "completeSection sink pid section a = (a', st) \<Longrightarrow> asm_sections a' pid = asm_sections a pid"
  by (auto simp: completeSection_def split: if_splits dest: parsePat_sections parsePmt_sections)

lemma consumeRound_decreases:
  assumes "consumeRound sink pid a bytes = Inr (a', rest)" and "bytes \<noteq> []"
  shows "length rest < length bytes \<or> length rest = length bytes \<and> sec_bytes (asm_sections a pid) \<noteq> [] \<and> sec_bytes (asm_sections a' pid) = []"
proof -
  let ?s = "asm_sections a pid"
  obtain st bs where h: "sectionHeader ?s bytes = Inr (st, bs)"
    using assms(1) by (auto simp: consumeRound_def split: sum.splits)
  obtain e where e: "sec_expectedSize st = Some e" "rest = drop (min (e - length (sec_bytes st)) (length bs)) bs"
      "\<exists>sec. completeSection sink pid sec (a\<lparr>asm_sections := (asm_sections a)(pid := no_section)\<rparr>) = (a', Inr ())"
    using assms(1) h by (auto simp: consumeRound_def Let_def split: sum.splits option.splits if_splits prod.splits)
  then have empty: "sec_bytes (asm_sections a' pid) = []"
    by (auto simp: no_section_def dest!: completeSection_sections)
  show ?thesis
  proof (cases "length (sec_bytes ?s) < 3")
    case True
    then have "length bs < length bytes" using h assms(2) by (auto simp: sectionHeader_def Let_def split: if_splits)
    moreover have "length rest \<le> length bs" using e(2) by simp
    ultimately show ?thesis by linarith
  next
    case False
    then have "bs = bytes" "sec_bytes ?s \<noteq> []" using h by (auto simp: sectionHeader_def)
    then show ?thesis using e(2) empty assms(2) by (cases "e - length (sec_bytes st)") auto
  qed
qed

function consume ::
  "'s MediaTsProgramInventorySink \<Rightarrow> u16 \<Rightarrow> 's MediaTsPsiSectionAssembler \<Rightarrow> u8 list \<Rightarrow>
   ('s MediaTsPsiSectionAssembler \<times> Status) option" where
  "consume onProgramInventory pid a bytes =
     (if bytes = [] then Some (a, success ())
      else if sec_bytes (asm_sections a pid) = [] \<and> bytes ! 0 = 0xFF then Some (a, success ())
      else
        (case consumeRound onProgramInventory pid a bytes of
           Inl result \<Rightarrow> result
         | Inr (a, rest) \<Rightarrow> consume onProgramInventory pid a rest))"
  by pat_completeness auto
termination
proof (relation "measures [\<lambda>(_, _, _, bytes). length bytes, \<lambda>(_, pid, a, _). length (sec_bytes (asm_sections a pid))]", goal_cases)
  case (2 sink pid a bytes y a' rest)
  then have "consumeRound sink pid a bytes = Inr (a', rest)" "bytes \<noteq> []" by simp_all
  from consumeRound_decreases [OF this] show ?case by auto
qed simp

declare consume.simps [simp del]

definition assembler_onPacket ::
  "'s MediaTsProgramInventorySink \<Rightarrow> 's MediaTsPsiSectionAssembler \<Rightarrow> MediaTsPacketView \<Rightarrow>
   ('s MediaTsPsiSectionAssembler \<times> Status) option" where
  "assembler_onPacket onProgramInventory a packet =
     (let pid = pv_pid packet;
          payload = pv_payload packet;
          isKnownPmt = list_ex (\<lambda>program. pp_pmtPid program = pid) (asm_patPrograms a)
      in if pid \<noteq> 0 \<and> \<not> isKnownPmt then Some (a, success ())
         else
           (let a = (if pv_discontinuity packet then resetPidGeneration pid a else a)
            in if payload = [] then Some (a, success ())
               else if pv_discontinuity packet \<and> \<not> pv_payloadUnitStart packet then Some (a, failure InvalidArgument)
               else if pv_payloadUnitStart packet then
                 (let pointer = unat (payload ! 0)
                  in if pointer > length payload - 1 then Some (a, failure InvalidArgument)
                     else if sec_bytes (asm_sections a pid) \<noteq> [] then
                       (case consume onProgramInventory pid a (take pointer (drop 1 payload)) of
                          None \<Rightarrow> None
                        | Some (a, Inl e) \<Rightarrow> Some (a, failure e)
                        | Some (a, Inr _) \<Rightarrow>
                            (if sec_bytes (asm_sections a pid) \<noteq> [] then Some (a, failure InvalidArgument)
                             else consume onProgramInventory pid a (drop (1 + pointer) payload)))
                     else consume onProgramInventory pid a (drop (1 + pointer) payload))
               else if sec_bytes (asm_sections a pid) = [] then Some (a, success ())
               else consume onProgramInventory pid a payload))"

definition assembler_onContinuityEvent ::
  "'s MediaTsPsiSectionAssembler \<Rightarrow> MediaTsContinuityEvent \<Rightarrow> 's MediaTsPsiSectionAssembler \<times> Status" where
  "assembler_onContinuityEvent a event = (resetPidGeneration (ce_pid event) a, success ())"

end
