(* ===== verification/Ts_Psi_Tables.thy ===== *)
theory Ts_Psi_Tables
  imports Ts_Psi
begin

unbundle bit_operations_syntax

text \<open>
  The program tables end to end: the checksum of a section with its checksum is zero, the parsers read
  what the serializer wrote, the tables of a plan reach the inventory sink through packet builder, packet
  parser and assembler, and the assembler stays defined while its calls succeed.
\<close>

section \<open>The checksum\<close>

lemma crc_bit_clear: "\<not> bit x 31 \<Longrightarrow> crc_bit x = push_bit 1 x"
  using and_exp_eq_0_iff_not_bit [of x 31] by (simp add: crc_bit_def del: push_bit_Suc)

lemma crc_bits_shift:
  assumes "\<And>n. 24 \<le> n \<Longrightarrow> \<not> bit (x :: u32) n" and "k \<le> 8"
  shows "(crc_bit ^^ k) x = push_bit k x"
  using assms(2)
proof (induction k)
  case (Suc k)
  have "\<not> bit (push_bit k x) 31" using assms(1) [of "31 - k"] Suc.prems by (simp add: bit_simps)
  then have "crc_bit (push_bit k x) = push_bit 1 (push_bit k x)" by (rule crc_bit_clear)
  then show ?case using Suc by (simp add: push_bit_push_bit del: push_bit_Suc)
qed simp

lemma crc_byte_own: "crc_byte crc (ucast (drop_bit 24 crc)) = push_bit 8 crc"
proof -
  have x: "crc XOR push_bit 24 (ucast (ucast (drop_bit 24 crc) :: u8)) = take_bit 24 crc"
    by (rule bit_word_eqI) (auto simp: bit_simps)
  have "(crc_bit ^^ 8) (take_bit 24 crc) = push_bit 8 (take_bit 24 crc)" by (rule crc_bits_shift) (auto simp: bit_simps)
  also have "\<dots> = push_bit 8 crc" by (rule bit_word_eqI) (auto simp: bit_simps)
  finally show ?thesis by (simp add: crc_byte_def x)
qed

lemma crc_residue [simp]: "crc32_compute (appendCrc xs) = 0"
proof -
  define c where "c = crc32_compute xs"
  have b: "ucast (drop_bit 24 (push_bit 8 c)) = (ucast (drop_bit 16 c) :: u8)"
      "ucast (drop_bit 24 (push_bit 8 (push_bit 8 c))) = (ucast (drop_bit 8 c) :: u8)"
      "ucast (drop_bit 24 (push_bit 8 (push_bit 8 (push_bit 8 c)))) = (ucast c :: u8)"
    by (rule bit_word_eqI; auto simp: bit_simps)+
  have z: "push_bit 8 (push_bit 8 (push_bit 8 (push_bit 8 c))) = 0" by (rule bit_word_eqI) (auto simp: bit_simps)
  have "crc32_compute (appendCrc xs) =
      crc_byte (crc_byte (crc_byte (crc_byte c (ucast (drop_bit 24 c))) (ucast (drop_bit 16 c))) (ucast (drop_bit 8 c))) (ucast c)"
    by (simp add: crc32_compute_def appendCrc_def Let_def c_def)
  also have "\<dots> = 0" unfolding crc_byte_own by (simp only: b [symmetric] crc_byte_own z)
  finally show ?thesis .
qed

section \<open>Reading what the serializer wrote\<close>

lemma version_fields:
  assumes "v \<le> 31"
  shows "(0xC1 OR push_bit 1 v) AND 0xC0 = (0xC0 :: u8)" and "(0xC1 OR push_bit 1 v) AND 0x01 \<noteq> (0 :: u8)"
    and "drop_bit 1 (0xC1 OR push_bit 1 v) AND 0x1F = (v :: u8)"
proof -
  have "\<forall>n\<in>set [0..<32]. (0xC1 OR push_bit 1 (of_nat n)) AND 0xC0 = (0xC0 :: u8) \<and>
      (0xC1 OR push_bit 1 (of_nat n)) AND 0x01 \<noteq> (0 :: u8) \<and> drop_bit 1 (0xC1 OR push_bit 1 (of_nat n)) AND 0x1F = (of_nat n :: u8)"
    by code_simp
  moreover have "unat v \<in> set [0..<32]" using assms by (simp add: word_le_nat_alt)
  ultimately have "(0xC1 OR push_bit 1 (of_nat (unat v))) AND 0xC0 = (0xC0 :: u8) \<and>
      (0xC1 OR push_bit 1 (of_nat (unat v))) AND 0x01 \<noteq> (0 :: u8) \<and>
      drop_bit 1 (0xC1 OR push_bit 1 (of_nat (unat v))) AND 0x1F = (of_nat (unat v) :: u8)" by blast
  moreover have u: "of_nat (unat v) = v" by simp
  ultimately show "(0xC1 OR push_bit 1 v) AND 0xC0 = (0xC0 :: u8)" "(0xC1 OR push_bit 1 v) AND 0x01 \<noteq> (0 :: u8)"
    "drop_bit 1 (0xC1 OR push_bit 1 v) AND 0x1F = (v :: u8)" unfolding u by blast+
qed

lemma pid_fields:
  assumes "(pid :: u16) < 0x1FFF"
  shows "ucast (ucast (0xE0 :: u8) OR drop_bit 8 pid) AND 0xE0 = (0xE0 :: u8)"
    and "push_bit 8 (ucast (ucast (ucast (0xE0 :: u8) OR drop_bit 8 pid) AND 0x1F :: u8)) OR ucast (ucast pid :: u8) = pid"
proof -
  have "uint pid < 2 ^ 13" using assms by (simp add: word_less_def)
  then have top: "take_bit 13 pid = pid" by (simp add: word_uint_eq_iff unsigned_take_bit_eq take_bit_int_eq_self)
  have E: "0xE0 = (push_bit 5 (mask 3) :: u8)" by (simp add: mask_eq_exp_minus_1 push_bit_eq_mult)
  show "ucast (ucast (0xE0 :: u8) OR drop_bit 8 pid) AND 0xE0 = (0xE0 :: u8)"
    unfolding E by (rule bit_word_eqI) (auto simp: bit_simps)
  have "push_bit 8 (ucast (ucast (ucast (0xE0 :: u8) OR drop_bit 8 pid) AND 0x1F :: u8)) OR ucast (ucast pid :: u8) = take_bit 13 pid"
    unfolding E low5_mask by (rule bit_word_eqI) (auto simp: bit_simps)
  then show "push_bit 8 (ucast (ucast (ucast (0xE0 :: u8) OR drop_bit 8 pid) AND 0x1F :: u8)) OR ucast (ucast pid :: u8) = pid"
    unfolding top .
qed

lemma serializePat_bytes:
  "serializePat q = appendCrc [0x00, 0xB0, 0x0D, ucast (drop_bit 8 (mp_transportStreamId q)), ucast (mp_transportStreamId q),
     0xC1 OR push_bit 1 (mp_tableVersion q), 0x00, 0x00, ucast (drop_bit 8 (mp_programNumber q)), ucast (mp_programNumber q),
     ucast (ucast (0xE0 :: u8) OR drop_bit 8 (mp_programMapPid q)), ucast (mp_programMapPid q)]"
  by (simp add: serializePat_def appendU16_def appendPid_def del: push_bit_Suc)

lemma length_appendCrc [simp]: "length (appendCrc xs) = length xs + 4"
  by (simp add: appendCrc_def Let_def)

lemma nth_appendCrc: "i < length xs \<Longrightarrow> appendCrc xs ! i = xs ! i"
  by (simp add: appendCrc_def Let_def nth_append)

lemma serializePat_fields:
  fixes q :: MediaTsMuxPlanParameters
  defines "s \<equiv> serializePat q"
  assumes "mp_tableVersion q \<le> 31" and "mp_programMapPid q < 0x1FFF" and "mp_programNumber q \<noteq> 0"
  shows "validateLongSection s 0 12 = Inr ()" and "length s = 16"
    and "patEntries s (map (\<lambda>i. 8 + 4 * i) [0..<(length s - 12) div 4]) [] =
           Inr [\<lparr>pp_programNumber = mp_programNumber q, pp_pmtPid = mp_programMapPid q\<rparr>]"
    and "s ! 6 = 0" and "s ! 7 = 0" and "drop_bit 1 (s ! 5) AND 0x1F = mp_tableVersion q" and "readU16 s 3 = mp_transportStreamId q"
    and "s ! 1 AND 0x0F = 0" and "s ! 2 = 13" and "s ! 0 = 0"
proof -
  note B = serializePat_bytes [of q, folded s_def]
  have n: "s ! 0 = 0" "s ! 1 = 0xB0" "s ! 2 = 0x0D" "s ! 3 = ucast (drop_bit 8 (mp_transportStreamId q))" "s ! 4 = ucast (mp_transportStreamId q)"
    "s ! 5 = 0xC1 OR push_bit 1 (mp_tableVersion q)" "s ! 6 = 0" "s ! 7 = 0" "s ! 8 = ucast (drop_bit 8 (mp_programNumber q))"
    "s ! 9 = ucast (mp_programNumber q)" "s ! 10 = ucast (ucast (0xE0 :: u8) OR drop_bit 8 (mp_programMapPid q))" "s ! 11 = ucast (mp_programMapPid q)"
    unfolding B by (simp_all add: nth_appendCrc del: push_bit_Suc)
  show l: "length s = 16" unfolding B by simp
  have r: "crc32_compute s = 0" unfolding B by simp
  show "validateLongSection s 0 12 = Inr ()"
    unfolding validateLongSection_def Let_def n using version_fields [OF assms(2)] l r by simp
  show "readU16 s 3 = mp_transportStreamId q" using n by (simp add: readU16_def join16)
  have "readU16 s 8 = mp_programNumber q" using n by (simp add: readU16_def join16)
  moreover have "pid_at s 10 = mp_programMapPid q" using n pid_fields(2) [OF assms(3)] by (simp add: pid_at_def)
  ultimately show "patEntries s (map (\<lambda>i. 8 + 4 * i) [0..<(length s - 12) div 4]) [] =
           Inr [\<lparr>pp_programNumber = mp_programNumber q, pp_pmtPid = mp_programMapPid q\<rparr>]"
    using assms(3,4) pid_fields(1) [OF assms(3)] n(11) l by (simp add: Let_def)
  show "drop_bit 1 (s ! 5) AND 0x1F = mp_tableVersion q" unfolding n by (rule version_fields(3) [OF assms(2)])
  show "s ! 6 = 0" "s ! 7 = 0" "s ! 1 AND 0x0F = 0" "s ! 2 = 13" "s ! 0 = 0" using n by simp_all
qed

lemma parsePat_serialized:
  assumes "mp_tableVersion q \<le> 31" and "mp_programMapPid q < 0x1FFF" and "mp_programNumber q \<noteq> 0" and "asm_patAssembly a = None"
  obtains t where "parsePat (serializePat q) a =
    (a\<lparr>asm_patAssembly := Some t, asm_patVersion := Some (mp_tableVersion q),
       asm_patPrograms := [\<lparr>pp_programNumber = mp_programNumber q, pp_pmtPid = mp_programMapPid q\<rparr>],
       asm_pmtAssemblies := [], asm_programsByPmtPid := [],
       asm_sections := (\<lambda>pid. if pid = 0 then asm_sections a 0 else no_section)\<rparr>, Inr ())"
proof -
  note F = serializePat_fields [OF assms(1-3)]
  let ?t = "\<lparr>pat_transportStreamId = mp_transportStreamId q, pat_version = mp_tableVersion q, pat_lastSectionNumber = 0, pat_sections = []\<rparr>"
  have T: "patTable (serializePat q) a = Inr (a\<lparr>asm_patAssembly := Some ?t, asm_patVersion := None, asm_patPrograms := [],
      asm_pmtAssemblies := [], asm_programsByPmtPid := []\<rparr>, ?t)"
    unfolding patTable_def Let_def F assms(4) by simp
  show ?thesis
    by (rule that [of "?t\<lparr>pat_sections := [(0, [\<lparr>pp_programNumber = mp_programNumber q, pp_pmtPid = mp_programMapPid q\<rparr>])]\<rparr>"])
      (unfold parsePat_def F(1,3) T Let_def, simp add: F(2,4,5) cong: if_cong)
qed

definition planned_streams :: "MediaTsProgramPlan \<Rightarrow> MediaTsElementaryStreamInfo list" where
  "planned_streams program =
     (case program of
        VideoOnly v \<Rightarrow> [\<lparr>es_pid = vo_videoPid v, es_streamType = vo_videoStreamType v\<rparr>]
      | AudioVideo a \<Rightarrow> [\<lparr>es_pid = av_videoPid a, es_streamType = av_videoStreamType a\<rparr>,
                         \<lparr>es_pid = av_audioPid a, es_streamType = av_audioStreamType a\<rparr>])"

definition planned_inventory :: "MediaTsMuxPlanParameters \<Rightarrow> MediaTsProgramInventorySnapshot" where
  "planned_inventory q =
     \<lparr>inv_patVersion = mp_tableVersion q,
      inv_programs = [\<lparr>pi_programNumber = mp_programNumber q, pi_pmtPid = mp_programMapPid q,
        pi_pmtVersion = mp_tableVersion q, pi_pcrPid = program_pcrPid (mp_program q),
        pi_elementaryStreams = planned_streams (mp_program q)\<rparr>]\<rparr>"

definition pmt_body :: "MediaTsMuxPlanParameters \<Rightarrow> u8 list" where
  "pmt_body q =
     [0x02, 0xB0, (case mp_program q of VideoOnly _ \<Rightarrow> 0x12 | AudioVideo _ \<Rightarrow> 0x17),
      ucast (drop_bit 8 (mp_programNumber q)), ucast (mp_programNumber q),
      0xC1 OR push_bit 1 (mp_tableVersion q), 0x00, 0x00,
      ucast (ucast (0xE0 :: u8) OR drop_bit 8 (program_pcrPid (mp_program q))), ucast (program_pcrPid (mp_program q)), 0xF0, 0x00,
      program_videoStreamType (mp_program q),
      ucast (ucast (0xE0 :: u8) OR drop_bit 8 (program_videoPid (mp_program q))), ucast (program_videoPid (mp_program q)), 0xF0, 0x00] @
     (case mp_program q of
        VideoOnly _ \<Rightarrow> []
      | AudioVideo a \<Rightarrow> [av_audioStreamType a, ucast (ucast (0xE0 :: u8) OR drop_bit 8 (av_audioPid a)), ucast (av_audioPid a), 0xF0, 0x00])"

lemma serializePmt_bytes: "serializePmt q = appendCrc (pmt_body q)"
  by (cases "mp_program q") (simp_all add: serializePmt_def pmt_body_def appendU16_def appendPid_def Let_def del: push_bit_Suc)

lemma serializePmt_fields:
  fixes q :: MediaTsMuxPlanParameters
  defines "s \<equiv> serializePmt q"
  assumes "mp_tableVersion q \<le> 31"
  shows "validateLongSection s 2 16 = Inr ()" and "length s = (case mp_program q of VideoOnly _ \<Rightarrow> 21 | AudioVideo _ \<Rightarrow> 26)"
    and "s ! 6 = 0" and "s ! 7 = 0" and "drop_bit 1 (s ! 5) AND 0x1F = mp_tableVersion q" and "readU16 s 3 = mp_programNumber q"
    and "s ! 1 AND 0x0F = 0" and "unat (s ! 2) + 3 = length s" and "s ! 0 = 2"
proof -
  have n: "s ! i = pmt_body q ! i" if "i < 17" for i
    using that by (simp add: s_def serializePmt_bytes nth_appendCrc pmt_body_def)
  have m: "s ! 0 = 2" "s ! 1 = 0xB0" "s ! 2 = (case mp_program q of VideoOnly _ \<Rightarrow> 0x12 | AudioVideo _ \<Rightarrow> 0x17)"
      "s ! 3 = ucast (drop_bit 8 (mp_programNumber q))" "s ! 4 = ucast (mp_programNumber q)" "s ! 5 = 0xC1 OR push_bit 1 (mp_tableVersion q)"
      "s ! 6 = 0" "s ! 7 = 0"
    using n [of 0] n [of 1] n [of 2] n [of 3] n [of 4] n [of 5] n [of 6] n [of 7] by (simp_all add: pmt_body_def del: push_bit_Suc)
  show l: "length s = (case mp_program q of VideoOnly _ \<Rightarrow> 21 | AudioVideo _ \<Rightarrow> 26)"
    by (cases "mp_program q") (simp_all add: s_def serializePmt_bytes pmt_body_def)
  have r: "crc32_compute s = 0" by (simp add: s_def serializePmt_bytes)
  show "validateLongSection s 2 16 = Inr ()"
    unfolding validateLongSection_def Let_def m using version_fields [OF assms(2)] l r by (cases "mp_program q") simp_all
  show "readU16 s 3 = mp_programNumber q" using m by (simp add: readU16_def join16)
  show "drop_bit 1 (s ! 5) AND 0x1F = mp_tableVersion q" unfolding m by (rule version_fields(3) [OF assms(2)])
  show "unat (s ! 2) + 3 = length s" using m(3) l by (cases "mp_program q") simp_all
  show "s ! 6 = 0" "s ! 7 = 0" "s ! 1 AND 0x0F = 0" "s ! 0 = 2" using m by simp_all
qed

lemma serializePmt_streams:
  fixes q :: MediaTsMuxPlanParameters
  defines "s \<equiv> serializePmt q"
  assumes "program_videoPid (mp_program q) < 0x1FFF"
    and "\<And>a. mp_program q = AudioVideo a \<Longrightarrow> av_audioPid a < 0x1FFF \<and> av_audioPid a \<noteq> av_videoPid a"
  shows "pmtEntries s (length s - 4) 12 [] = Inr (planned_streams (mp_program q))"
proof -
  have n: "s ! i = pmt_body q ! i" if "i < length (pmt_body q)" for i
    using that by (simp add: s_def serializePmt_bytes nth_appendCrc)
  show ?thesis
  proof (cases "mp_program q")
    case (VideoOnly v)
    have l: "length s = 21" "length (pmt_body q) = 17" by (simp_all add: s_def serializePmt_bytes pmt_body_def VideoOnly)
    have p: "vo_videoPid v < 0x1FFF" using assms(2) VideoOnly by (simp add: program_videoPid_def)
    have m: "s ! 12 = vo_videoStreamType v" "s ! 13 = ucast (ucast (0xE0 :: u8) OR drop_bit 8 (vo_videoPid v))" "s ! 14 = ucast (vo_videoPid v)"
        "s ! 15 = 0xF0" "s ! 16 = 0"
      using n [of 12] n [of 13] n [of 14] n [of 15] n [of 16] l
      by (simp_all add: pmt_body_def VideoOnly program_videoPid_def program_videoStreamType_def del: push_bit_Suc)
    have "pid_at s 13 = vo_videoPid v" using m pid_fields(2) [OF p] by (simp add: pid_at_def)
    then show ?thesis
      using m pid_fields(1) [OF p] l p VideoOnly
      by (subst pmtEntries.simps) (simp add: Let_def pmtEntries.simps [of s 17 17] planned_streams_def)
  next
    case (AudioVideo a)
    have l: "length s = 26" "length (pmt_body q) = 22" by (simp_all add: s_def serializePmt_bytes pmt_body_def AudioVideo)
    have p: "av_videoPid a < 0x1FFF" "av_audioPid a < 0x1FFF" "av_audioPid a \<noteq> av_videoPid a"
      using assms(2,3) AudioVideo by (simp_all add: program_videoPid_def)
    have m: "s ! 12 = av_videoStreamType a" "s ! 13 = ucast (ucast (0xE0 :: u8) OR drop_bit 8 (av_videoPid a))" "s ! 14 = ucast (av_videoPid a)"
        "s ! 15 = 0xF0" "s ! 16 = 0" "s ! 17 = av_audioStreamType a" "s ! 18 = ucast (ucast (0xE0 :: u8) OR drop_bit 8 (av_audioPid a))"
        "s ! 19 = ucast (av_audioPid a)" "s ! 20 = 0xF0" "s ! 21 = 0"
      using n [of 12] n [of 13] n [of 14] n [of 15] n [of 16] n [of 17] n [of 18] n [of 19] n [of 20] n [of 21] l
      by (simp_all add: pmt_body_def AudioVideo program_videoPid_def program_videoStreamType_def del: push_bit_Suc)
    have d: "pid_at s 13 = av_videoPid a" "pid_at s 18 = av_audioPid a"
      using m pid_fields(2) [OF p(1)] pid_fields(2) [OF p(2)] by (simp_all add: pid_at_def)
    have "pmtEntries s 22 17 [\<lparr>es_pid = av_videoPid a, es_streamType = av_videoStreamType a\<rparr>] = Inr (planned_streams (mp_program q))"
      using m pid_fields(1) [OF p(2)] p d AudioVideo
      by (subst pmtEntries.simps) (simp add: Let_def pmtEntries.simps [of s 22 22] planned_streams_def)
    then show ?thesis
      using m pid_fields(1) [OF p(1)] l p d by (subst pmtEntries.simps) (simp add: Let_def)
  qed
qed

lemma parsePmt_serialized:
  fixes q :: MediaTsMuxPlanParameters
  assumes "muxPlan_create q = Inr plan"
    and "asm_patPrograms a = [\<lparr>pp_programNumber = mp_programNumber q, pp_pmtPid = mp_programMapPid q\<rparr>]"
    and "asm_patVersion a = Some (mp_tableVersion q)" and "asm_pmtAssemblies a = []" and "asm_programsByPmtPid a = []"
    and "asm_lastPublished a = None"
    and "onProgramInventory (asm_sink a) (planned_inventory q) = (s', st)"
  obtains a' where "parsePmt onProgramInventory (mp_programMapPid q) (serializePmt q) a = (a', st)" and "asm_sink a' = s'"
proof -
  note P = muxPlan_createD [OF assms(1)]
  let ?s = "serializePmt q" and ?pid = "mp_programMapPid q"
  let ?pp = "\<lparr>pp_programNumber = mp_programNumber q, pp_pmtPid = ?pid\<rparr>"
  note F = serializePmt_fields [OF P(7)]
  have v: "program_videoPid (mp_program q) < 0x1FFF" using P(4) by (simp add: assignablePid_def)
  have pcr: "program_pcrPid (mp_program q) < 0x1FFF" using v P(5) by simp
  have S: "pmtEntries ?s (length ?s - 4) 12 [] = Inr (planned_streams (mp_program q))"
    using v P(8) by (intro serializePmt_streams) (auto simp: assignablePid_def)
  have m: "?s ! 8 = ucast (ucast (0xE0 :: u8) OR drop_bit 8 (program_pcrPid (mp_program q)))" "?s ! 9 = ucast (program_pcrPid (mp_program q))"
      "?s ! 10 = 0xF0" "?s ! 11 = 0"
    by (simp_all add: serializePmt_bytes nth_appendCrc pmt_body_def)
  have d: "pid_at ?s 8 = program_pcrPid (mp_program q)" using m pid_fields(2) [OF pcr] by (simp add: pid_at_def)
  have sec: "pmtSection ?s ?pid (asm_patPrograms a) = Inr (?pp, program_pcrPid (mp_program q), planned_streams (mp_program q))"
    unfolding pmtSection_def F(1) assms(2) Let_def d using F(2,6) S m pid_fields(1) [OF pcr] pcr
    by (cases "mp_program q") auto
  let ?t = "\<lparr>pmt_programNumber = mp_programNumber q, pmt_version = mp_tableVersion q, pmt_lastSectionNumber = 0,
      pmt_pcrPid = program_pcrPid (mp_program q), pmt_sections = []\<rparr>"
  have tab: "pmtTable ?s ?pid ?pp (program_pcrPid (mp_program q)) a = Inr (a\<lparr>asm_pmtAssemblies := [(?pid, ?t)], asm_programsByPmtPid := []\<rparr>, ?t)"
    unfolding pmtTable_def Let_def F(4,5) assms(4,5) by simp
  have join: "joinPmt [(0, planned_streams (mp_program q))] [0] [] = Inr (Some (planned_streams (mp_program q)))"
    using P(8) by (cases "mp_program q") (auto simp: planned_streams_def)
  have ne: "planned_streams (mp_program q) \<noteq> []" by (cases "mp_program q") (simp_all add: planned_streams_def)
  have "parsePmt onProgramInventory ?pid ?s a =
      publishIfComplete onProgramInventory (a\<lparr>asm_pmtAssemblies := [(?pid, ?t\<lparr>pmt_sections := [(0, planned_streams (mp_program q))]\<rparr>)],
        asm_programsByPmtPid := [(?pid, hd (inv_programs (planned_inventory q)))]\<rparr>)"
    unfolding parsePmt_def sec using tab F(3,4) join ne by (simp add: Let_def planned_inventory_def)
  moreover have "publishPrograms [?pp] [(?pid, hd (inv_programs (planned_inventory q)))] = Some (inv_programs (planned_inventory q))"
    by (simp add: planned_inventory_def)
  ultimately show ?thesis
    using assms(2-7) that by (cases st) (auto simp: publishIfComplete_def Let_def planned_inventory_def)
qed

section \<open>From the plan to the inventory\<close>

lemma consume_section:
  assumes "asm_sections a pid = no_section" and "7 \<le> length section" and "length section \<le> 258"
    and "section ! 1 AND 0x0F = 0" and "unat (section ! 2) + 3 = length section" and "section ! 0 \<noteq> 0xFF"
  shows "consume sink pid a section = Some (completeSection sink pid section a)"
proof -
  let ?st = "\<lparr>sec_bytes = take 3 section, sec_expectedSize = Some (length section)\<rparr>"
  have same: "a\<lparr>asm_sections := (asm_sections a)(pid := no_section)\<rparr> = a" using assms(1) by (simp add: fun_upd_idem)
  have "unat (push_bit 8 (ucast (take 3 section ! 1 AND 0x0F)) OR ucast (take 3 section ! 2) :: u32) = unat (section ! 2)"
  proof -
    have "unat (section ! 2) < 256" using unsigned_less [of "section ! 2", where 'a = nat] by simp
    then show ?thesis using assms(4) by (simp add: unsigned_ucast_eq take_bit_nat_eq_self)
  qed
  then have h: "sectionHeader (asm_sections a pid) section = Inr (?st, drop 3 section)"
    using assms(2,3,5) by (simp add: sectionHeader_def assms(1) no_section_def Let_def)
  obtain a' st where c: "completeSection sink pid section a = (a', st)" by fastforce
  have k: "take 3 section @ take (length section - 3) (drop 3 section) = section" by simp
  have "consumeRound sink pid a section = (case st of Inl e \<Rightarrow> Inl (Some (a', failure e)) | Inr _ \<Rightarrow> Inr (a', []))"
    unfolding consumeRound_def h using assms(2) k c same by (simp add: Let_def split: sum.split)
  then show ?thesis
    using assms(1,2,6) c
    by (subst consume.simps) (auto simp: no_section_def consume.simps [of sink pid a' "[]"] split: sum.split)
qed

definition table_view :: "u64 \<Rightarrow> u16 \<Rightarrow> u8 \<Rightarrow> u8 list \<Rightarrow> MediaTsPacketView" where
  "table_view at pid continuity section =
     \<lparr>pv_byteOffset = at, pv_pid = pid, pv_payloadUnitStart = True, pv_continuityCounter = continuity,
      pv_discontinuity = False, pv_pcr27Mhz = None, pv_payload = 0 # section\<rparr>"

lemma onPacket_section:
  assumes "pid = 0 \<or> pid \<in> pp_pmtPid ` set (asm_patPrograms a)" and "asm_sections a pid = no_section"
    and "7 \<le> length section" and "length section \<le> 258"
    and "section ! 1 AND 0x0F = 0" and "unat (section ! 2) + 3 = length section" and "section ! 0 \<noteq> 0xFF"
  shows "assembler_onPacket sink a (table_view at pid continuity section) = Some (completeSection sink pid section a)"
  using consume_section [OF assms(2-7), of sink] assms(1,2)
  by (auto simp: assembler_onPacket_def table_view_def no_section_def Let_def list_ex_iff)

text \<open>The assembler as the sink of the packet parser; \<open>None\<close> once its behaviour is undefined.\<close>

definition psi_sink :: "'s MediaTsProgramInventorySink \<Rightarrow> 's MediaTsPsiSectionAssembler option MediaTsPacketSink" where
  "psi_sink onProgramInventory =
     \<lparr>onPacket = (\<lambda>s v. case s of
          None \<Rightarrow> (None, success ())
        | Some a \<Rightarrow> (case assembler_onPacket onProgramInventory a v of
                       None \<Rightarrow> (None, success ())
                     | Some (a, status) \<Rightarrow> (Some a, status))),
      onContinuityEvent = (\<lambda>s e. case s of
          None \<Rightarrow> (None, success ())
        | Some a \<Rightarrow> (case assembler_onContinuityEvent a e of (a, status) \<Rightarrow> (Some a, status)))\<rparr>"

lemma parsePacket_plain:
  assumes "parseHeader packet = HeaderParsed (built_header pid True continuity True off False None)"
    and "drop off packet = 0 # section" and "tp_continuity p pid = None" and "fresh_at p at"
    and "onPacket sink (tp_sink p) (table_view at pid continuity section) = (s, st)"
  obtains q where "parsePacket sink None p packet at = (q, st)" and "tp_sink q = s"
    and "tp_continuity q = (tp_continuity p)(pid := Some continuity)" and "fresh_at q (at + 188)"
proof -
  let ?h = "built_header pid True continuity True off False None"
  have pub: "publishIncrementalEvidence sink None p packet at = publishParsed sink None p packet at ?h"
    using assms(1,4) by (auto simp: publishIncrementalEvidence_def fresh_at_def split: option.splits)
  have cc: "checkContinuity sink p ?h at = (p, Inr ())"
    using assms(3) by (simp add: checkContinuity_def built_header_def)
  obtain b where P: "publishParsed sink None p packet at ?h =
    (p\<lparr>tp_continuity := (tp_continuity p)(hd_pid ?h := Some (hd_continuityCounter ?h)),
       tp_publishedEvidence := Some \<lparr>pe_view = \<lparr>ev_byteOffset = at, ev_pid = hd_pid ?h,
           ev_payloadUnitStart = hd_payloadUnitStart ?h, ev_continuityCounter = hd_continuityCounter ?h,
           ev_discontinuity = hd_discontinuity ?h, ev_pcr27Mhz = hd_pcr ?h\<rparr>, pe_hasPayload = hd_hasPayload ?h,
         pe_payloadOffset = hd_payloadOffset ?h, pe_prefixPublished = b\<rparr>\<rparr>, Inr ())"
    using publishParsed_None [OF cc, of packet] by blast
  let ?q = "p\<lparr>tp_sink := s, tp_continuity := (tp_continuity p)(pid := Some continuity),
      tp_publishedEvidence := Some \<lparr>pe_view = \<lparr>ev_byteOffset = at, ev_pid = pid, ev_payloadUnitStart = True,
          ev_continuityCounter = continuity, ev_discontinuity = False, ev_pcr27Mhz = None\<rparr>, pe_hasPayload = True,
        pe_payloadOffset = off, pe_prefixPublished = b\<rparr>\<rparr>"
  have "parsePacket sink None p packet at = (?q, st)"
    unfolding parsePacket_def pub P using assms(2,5) by (simp add: Let_def built_header_def table_view_def)
  then show ?thesis by (rule that) (simp_all add: fresh_at_def)
qed

lemma table_packet:
  assumes "builder_payload pid continuity [[0], section] False False = Some (Inr packets)"
    and "section \<noteq> []" and "length section < 184"
  obtains packet off where "packets = [packet]" and "sync_packet packet"
    and "parseHeader packet = HeaderParsed (built_header pid True continuity True off False None)" and "drop off packet = 0 # section"
proof -
  have g: "pid < 0x1FFF" "continuity \<le> 15"
    using assms(1) by (auto simp: builder_payload_def not_le not_less split: if_splits)
  have c: "concat [[0], section] = 0 # section" by simp
  obtain ps where ps: "builder_payload pid continuity [[0], section] False False = Some (Inr ps)"
      "carries pid continuity True False ps (0 # section)" "payloadPacketCount [[0], section] False False = Inr (length ps)"
    using builder_payload_ok [OF g, of "[[0], section]" False False] assms(3) unfolding c by auto
  have "payloadPacketCount [[0], section] False False = Inr 1"
    using assms(3) by (simp add: payloadPacketCount_def segmented_create_def Let_def)
  then obtain packet where k: "ps = [packet]" using ps(3) by (cases ps) auto
  then show ?thesis using that [of packet] ps assms(1) carries_sync [OF ps(2)] by auto
qed

lemma plan_pids:
  assumes "muxPlan_create q = Inr plan"
  shows "mp_programMapPid q < 0x1FFF" and "mp_programMapPid q \<noteq> 0"
  using muxPlan_createD(3) [OF assms] by (auto simp: assignablePid_def)

text \<open>What the assembler does with the two tables.\<close>

lemma assembler_reads_plan:
  assumes "muxPlan_create q = Inr plan" and "onProgramInventory s (planned_inventory q) = (s', st)"
  obtains a1 a2 where "assembler_onPacket onProgramInventory (assembler_create s) (table_view at 0 c (serializePat q)) = Some (a1, Inr ())"
    and "assembler_onPacket onProgramInventory a1 (table_view at' (mp_programMapPid q) c' (serializePmt q)) = Some (a2, st)"
    and "asm_sink a2 = s'"
proof -
  note P = muxPlan_createD [OF assms(1)] plan_pids [OF assms(1)]
  note A = serializePat_fields [OF P(7) plan_pids(1) [OF assms(1)] P(2)] and M = serializePmt_fields [OF P(7)]
  obtain t where t: "parsePat (serializePat q) (assembler_create s) = ((assembler_create s)
     \<lparr>asm_patAssembly := Some t, asm_patVersion := Some (mp_tableVersion q),
       asm_patPrograms := [\<lparr>pp_programNumber = mp_programNumber q, pp_pmtPid = mp_programMapPid q\<rparr>],
       asm_pmtAssemblies := [], asm_programsByPmtPid := [],
       asm_sections := (\<lambda>pid. if pid = 0 then asm_sections (assembler_create s) 0 else no_section)\<rparr>, Inr ())"
    (is "_ = (?a1, _)")
    using parsePat_serialized [OF P(7) plan_pids(1) [OF assms(1)] P(2), of "assembler_create s"] by (auto simp: assembler_create_def)
  have one: "assembler_onPacket onProgramInventory (assembler_create s) (table_view at 0 c (serializePat q)) = Some (?a1, Inr ())"
    using A t by (subst onPacket_section) (simp_all add: assembler_create_def completeSection_def)
  obtain a2 where a2: "parsePmt onProgramInventory (mp_programMapPid q) (serializePmt q) ?a1 = (a2, st)" "asm_sink a2 = s'"
    using parsePmt_serialized [OF assms(1), of ?a1 onProgramInventory s' st] assms(2) by (auto simp: assembler_create_def)
  have "7 \<le> length (serializePmt q) \<and> length (serializePmt q) \<le> 258" using M(2) by (cases "mp_program q") simp_all
  then have two: "assembler_onPacket onProgramInventory ?a1 (table_view at' (mp_programMapPid q) c' (serializePmt q)) = Some (a2, st)"
    using M(7-9) a2(1) plan_pids(2) [OF assms(1)] by (subst onPacket_section) (simp_all add: completeSection_def)
  show ?thesis by (rule that [OF one two a2(2)])
qed

text \<open>
  C16. The program tables of a mux plan survive transport: for every plan the planner's checks accept,
  the PAT and PMT that the serializer writes, cut into packets by the packet builder, parsed by the packet
  parser from chunks of any size and assembled, hand exactly the planned program, PIDs, stream types and
  version to the inventory sink, and the outcome of the session is the sink's.
\<close>

theorem tables_roundtrip:
  assumes "muxPlan_create q = Inr plan"
    and "builder_payload 0 c [[0], serializePat q] False False = Some (Inr pats)"
    and "builder_payload (mp_programMapPid q) c' [[0], serializePmt q] False False = Some (Inr pmts)"
    and "concat chunks = concat (pats @ pmts)"
    and "parser_create 188 (Some (assembler_create s)) = Inr p"
    and "onProgramInventory s (planned_inventory q) = (s', st)"
    and "parse_session (psi_sink onProgramInventory) p chunks = (r, st')"
  shows "st' = st \<and> (st = Inr () \<longrightarrow> (\<exists>a. tp_sink r = Some a \<and> asm_sink a = s'))"
proof -
  let ?k = "psi_sink onProgramInventory" and ?pid = "mp_programMapPid q"
  note P = muxPlan_createD [OF assms(1)] and pids = plan_pids [OF assms(1)]
  have lA: "length (serializePat q) = 16" by (simp add: serializePat_bytes)
  have lM: "length (serializePmt q) = (case mp_program q of VideoOnly _ \<Rightarrow> 21 | AudioVideo _ \<Rightarrow> 26)" by (rule serializePmt_fields(2) [OF P(7)])
  have "serializePat q \<noteq> []" "length (serializePat q) < 184" using lA by auto
  then obtain x o1 where x: "pats = [x]" "sync_packet x" "parseHeader x = HeaderParsed (built_header 0 True c True o1 False None)"
      "drop o1 x = 0 # serializePat q"
    using table_packet [OF assms(2)] by metis
  have "serializePmt q \<noteq> []" "length (serializePmt q) < 184" using lM by (cases "mp_program q"; force)+
  then obtain y o2 where y: "pmts = [y]" "sync_packet y" "parseHeader y = HeaderParsed (built_header ?pid True c' True o2 False None)"
      "drop o2 y = 0 # serializePmt q"
    using table_packet [OF assms(3)] by metis
  obtain a1 a2 where a: "assembler_onPacket onProgramInventory (assembler_create s) (table_view 0 0 c (serializePat q)) = Some (a1, Inr ())"
      "assembler_onPacket onProgramInventory a1 (table_view 188 ?pid c' (serializePmt q)) = Some (a2, st)" "asm_sink a2 = s'"
    using assembler_reads_plan [OF assms(1), of onProgramInventory s s' st 0 c 188 c'] assms(6) by metis
  have p: "tp_continuity p = (\<lambda>_. None)" "fresh_at p 0" "tp_sink p = Some (assembler_create s)"
    using assms(5) by (auto simp: parser_create_def fresh_at_def)
  obtain q1 where q1: "parsePacket ?k None p x 0 = (q1, Inr ())" "tp_sink q1 = Some a1" "tp_continuity q1 = (tp_continuity p)(0 := Some c)"
      "fresh_at q1 (0 + 188)"
    using parsePacket_plain [OF x(3,4), of p 0 ?k "Some a1" "Inr ()"] p a(1) by (auto simp: psi_sink_def)
  obtain q2 where q2: "parsePacket ?k None q1 y 188 = (q2, st)" "tp_sink q2 = Some a2"
    using parsePacket_plain [OF y(3,4), of q1 188 ?k "Some a2" st] q1 p(1) pids(2) a(2) by (auto simp: psi_sink_def)
  have f: "feed ?k p (numbered 0 [x, y]) = (q2, st)" using q1(1) q2(1) by (cases st) simp_all
  have l: "length (concat chunks) < 2 ^ 64" using assms(4) x y by (simp add: sync_packet_def)
  have "concat chunks = concat [x, y]" "\<forall>z\<in>set [x, y]. sync_packet z" using assms(4) x y by simp_all
  from session_clean [OF assms(5) l this(1) _ this(2) f assms(7)] show ?thesis using q2(2) a(3) by simp
qed

definition demo_timing :: MediaMpegTsTimingPolicy where
  "demo_timing = projr (timingPolicy_create
     \<lparr>tc_value = 40000000, tc_authority = ''plan'', tc_source = ProtocolMaximum\<rparr>
     \<lparr>tc_value = 100000000, tc_authority = ''plan'', tc_source = ProtocolMaximum\<rparr>
     \<lparr>tc_value = 500000000, tc_authority = ''plan'', tc_source = PlannerDerivedMinimum\<rparr>
     \<lparr>tc_value = 1000000, tc_authority = ''plan'', tc_source = ReceiverCapability\<rparr> 1 90000)"

definition demo_plan :: MediaTsMuxPlanParameters where
  "demo_plan = \<lparr>mp_transportStreamId = 1, mp_programNumber = 1, mp_patPid = 0, mp_programMapPid = 0x1000, mp_tableVersion = 3,
     mp_timing = demo_timing,
     mp_program = AudioVideo \<lparr>av_videoPid = 0x100, av_audioPid = 0x101, av_pcrPid = 0x100, av_videoStreamType = 0x1B,
       av_audioStreamType = 0x0F,
       av_aac = \<lparr>aac_mpegId = 0, aac_audioObjectType = 2, aac_samplingFrequencyIndex = 3, aac_channelConfiguration = 2\<rparr>,
       av_continuity = \<lparr>as_pat = 0, as_pmt = 0, as_video = 0, as_audio = 0\<rparr>, av_maximumAudioAccessUnitSamples = 1024\<rparr>,
     mp_video = projr (videoContract_create Codec_H264 AnnexB 0 0x1B), mp_parameterSetPolicy = BeforeRandomAccess,
     mp_transportDecodeLead = 700000000, mp_startupEmissionPreroll = 200000000, mp_packetSize = 188,
     mp_maximumPacketsPerDatagram = 7, mp_transportKind = UdpDatagrams\<rparr>"

lemma demo_plan_valid: "\<not> isl (muxPlan_create demo_plan)"
  by code_simp

theorem tables_roundtrip_witness:
  "\<exists>pats pmts r a. builder_payload 0 5 [[0], serializePat demo_plan] False False = Some (Inr pats) \<and>
     builder_payload 0x1000 9 [[0], serializePmt demo_plan] False False = Some (Inr pmts) \<and>
     parse_session (psi_sink (\<lambda>s inventory. (s @ [inventory], Inr ()))) (projr (parser_create 188 (Some (assembler_create []))))
       [concat (pats @ pmts)] = (r, Inr ()) \<and>
     tp_sink r = Some a \<and> asm_sink a = [planned_inventory demo_plan]"
proof -
  let ?inv = "\<lambda>s inventory. (s @ [inventory], Inr ())" and ?p = "projr (parser_create 188 (Some (assembler_create [])))"
  obtain plan where plan: "muxPlan_create demo_plan = Inr plan" using demo_plan_valid by (cases "muxPlan_create demo_plan") auto
  have pid: "mp_programMapPid demo_plan = 0x1000" by (simp add: demo_plan_def)
  have len: "length (serializePat demo_plan) = 16" "length (serializePmt demo_plan) = 26"
    by (simp add: serializePat_bytes) (simp add: serializePmt_bytes pmt_body_def demo_plan_def)
  obtain pats where pats: "builder_payload 0 5 [[0], serializePat demo_plan] False False = Some (Inr pats)"
    using builder_payload_ok [where pid = 0 and continuity = "5" and segs = "[[0], serializePat demo_plan]" and ra = False and disc = False] len by auto
  obtain pmts where pmts: "builder_payload 0x1000 9 [[0], serializePmt demo_plan] False False = Some (Inr pmts)"
    using builder_payload_ok [where pid = "0x1000" and continuity = "9" and segs = "[[0], serializePmt demo_plan]" and ra = False and disc = False] len by auto
  have p: "parser_create 188 (Some (assembler_create [])) = Inr ?p" by (simp add: parser_create_def)
  have k: "concat [concat (pats @ pmts)] = concat (pats @ pmts)" by simp
  obtain r st where r: "parse_session (psi_sink ?inv) ?p [concat (pats @ pmts)] = (r, st)" by fastforce
  have i: "?inv [] (planned_inventory demo_plan) = ([planned_inventory demo_plan], Inr ())" by simp
  have "st = Inr () \<and> (Inr () = (Inr () :: Status) \<longrightarrow> (\<exists>a. tp_sink r = Some a \<and> asm_sink a = [planned_inventory demo_plan]))"
    by (rule tables_roundtrip [OF plan pats pmts [folded pid] k p i r])
  then show ?thesis using pats pmts r by auto
qed

text \<open>
  The assembler's partial sections between calls: three or more bytes come with the expected size.
  A call that succeeds keeps this, so a sequence of successful calls never dereferences an empty optional.
\<close>

definition state_ok :: "SectionState \<Rightarrow> bool" where
  "state_ok st \<longleftrightarrow> length (sec_bytes st) < 3 \<or> sec_expectedSize st \<noteq> None"

definition sections_ok :: "'s MediaTsPsiSectionAssembler \<Rightarrow> bool" where
  "sections_ok a \<longleftrightarrow> (\<forall>pid. state_ok (asm_sections a pid))"

lemma no_section_ok [simp]: "state_ok no_section"
  by (simp add: state_ok_def no_section_def)

lemma sections_ok_create: "sections_ok (assembler_create s)"
  by (simp add: sections_ok_def assembler_create_def)

lemma sections_ok_reset: "sections_ok a \<Longrightarrow> sections_ok (resetPidGeneration pid a)"
  by (auto simp: sections_ok_def resetPidGeneration_def Let_def)

lemma sections_ok_put: "sections_ok a \<Longrightarrow> state_ok st \<Longrightarrow> sections_ok (a\<lparr>asm_sections := (asm_sections a)(pid := st)\<rparr>)"
  by (simp add: sections_ok_def)

lemma sections_ok_complete:
  assumes "completeSection sink pid section a = (a', st)" and "sections_ok a"
  shows "sections_ok a'"
proof (cases "pid = 0")
  case True
  then have "asm_sections a' = asm_sections a \<or> asm_sections a' = (\<lambda>pid. if pid = 0 then asm_sections a 0 else no_section)"
    using assms(1) by (auto simp: completeSection_def parsePat_def patTable_def Let_def split: option.splits if_splits prod.splits sum.splits)
  then show ?thesis using assms(2) by (auto simp: sections_ok_def)
next
  case False
  then show ?thesis using assms by (auto simp: completeSection_def sections_ok_def dest!: parsePmt_sections)
qed

lemma sectionHeader_ok:
  assumes "state_ok st"
  shows "sectionHeader st bytes = Inl (st', Inr ()) \<Longrightarrow> state_ok st'"
    and "sectionHeader st bytes = Inr (st', rest) \<Longrightarrow> \<exists>e. sec_expectedSize st' = Some e"
  using assms by (auto simp: sectionHeader_def state_ok_def Let_def split: if_splits)

lemma consumeRound_ok:
  assumes "sections_ok a"
  shows "case consumeRound sink pid a bytes of
     Inl result \<Rightarrow> \<exists>a' st. result = Some (a', st) \<and> (st = Inr () \<longrightarrow> sections_ok a')
   | Inr (a', _) \<Rightarrow> sections_ok a'"
proof -
  have s: "state_ok (asm_sections a pid)" using assms by (simp add: sections_ok_def)
  show ?thesis
  proof (cases "sectionHeader (asm_sections a pid) bytes")
    case (Inl x)
    then show ?thesis
      using sections_ok_put [OF assms] sectionHeader_ok(1) [OF s, of bytes] by (cases x) (auto simp: consumeRound_def)
  next
    case (Inr y)
    then obtain st rest e where y: "sectionHeader (asm_sections a pid) bytes = Inr (st, rest)" "sec_expectedSize st = Some e"
      using sectionHeader_ok(2) [OF s, of bytes] by (cases y) auto
    then show ?thesis
      using sections_ok_put [OF assms, of _ pid] sections_ok_put [OF assms no_section_ok]
      by (auto simp: consumeRound_def Let_def state_ok_def split: prod.split sum.split dest: sections_ok_complete)
  qed
qed

lemma consume_ok:
  "sections_ok a \<Longrightarrow> \<exists>a' st. consume sink pid a bytes = Some (a', st) \<and> (st = Inr () \<longrightarrow> sections_ok a')"
proof (induction sink pid a bytes rule: consume.induct)
  case (1 sink pid a bytes)
  show ?case
  proof (cases "bytes = [] \<or> sec_bytes (asm_sections a pid) = [] \<and> bytes ! 0 = 0xFF")
    case True
    then show ?thesis using 1(2) by (subst consume.simps) auto
  next
    case False
    note R = consumeRound_ok [OF 1(2), of sink pid bytes]
    show ?thesis
    proof (cases "consumeRound sink pid a bytes")
      case (Inl r)
      then show ?thesis using R False by (subst consume.simps) auto
    next
      case (Inr y)
      then obtain a' rest where y: "y = (a', rest)" "sections_ok a'" using R by auto
      have "consume sink pid a bytes = consume sink pid a' rest" using False Inr y by (subst consume.simps) auto
      moreover have "\<exists>a'' st. consume sink pid a' rest = Some (a'', st) \<and> (st = Inr () \<longrightarrow> sections_ok a'')"
        using 1(1) [of y a' rest] False Inr y by blast
      ultimately show ?thesis by simp
    qed
  qed
qed

definition outcome_ok :: "('s MediaTsPsiSectionAssembler \<times> Status) option \<Rightarrow> bool" where
  "outcome_ok r = (case r of None \<Rightarrow> False | Some (a, st) \<Rightarrow> st = Inr () \<longrightarrow> sections_ok a)"

lemma consume_outcome: "sections_ok a \<Longrightarrow> outcome_ok (consume sink pid a bytes)"
  using consume_ok [of a sink pid bytes] by (auto simp: outcome_ok_def)

lemma outcome_if: "outcome_ok x \<Longrightarrow> outcome_ok y \<Longrightarrow> outcome_ok (if c then x else y)"
  by simp

lemma outcome_Some [simp]: "outcome_ok (Some (a, failure e))" "outcome_ok (Some (a, success ())) = sections_ok a"
  by (simp_all add: outcome_ok_def)

lemma onPacket_outcome:
  assumes "sections_ok a"
  shows "outcome_ok (assembler_onPacket sink a packet)"
proof -
  let ?pid = "pv_pid packet" and ?payload = "pv_payload packet"
  define b where "b = (if pv_discontinuity packet then resetPidGeneration ?pid a else a)"
  let ?n = "unat (?payload ! 0)"
  have b: "sections_ok b" using assms by (simp add: b_def sections_ok_reset)
  have "outcome_ok (case consume sink ?pid b (take ?n (drop 1 ?payload)) of None \<Rightarrow> None
      | Some (a, Inl e) \<Rightarrow> Some (a, failure e)
      | Some (a, Inr _) \<Rightarrow> (if sec_bytes (asm_sections a ?pid) \<noteq> [] then Some (a, failure InvalidArgument)
           else consume sink ?pid a (drop (1 + ?n) ?payload)))"
    using consume_outcome [OF b, of sink ?pid "take ?n (drop 1 ?payload)"]
    by (auto simp: outcome_ok_def [of "Some _"] outcome_ok_def [of "consume sink ?pid b (take ?n (drop 1 ?payload))"]
        intro: consume_outcome split: option.splits sum.splits)
  then show ?thesis
    unfolding assembler_onPacket_def Let_def b_def [symmetric]
    by (intro outcome_if) (assumption | simp only: outcome_Some assms b consume_outcome [OF b])+
qed

text \<open>The calls of a client, as long as all succeed.\<close>

fun successful :: "'s MediaTsProgramInventorySink \<Rightarrow> 's MediaTsPsiSectionAssembler \<Rightarrow>
    (MediaTsPacketView + MediaTsContinuityEvent) list \<Rightarrow> 's MediaTsPsiSectionAssembler option" where
  "successful sink a [] = Some a"
| "successful sink a (Inl v # calls) =
     (case assembler_onPacket sink a v of Some (a, Inr _) \<Rightarrow> successful sink a calls | _ \<Rightarrow> None)"
| "successful sink a (Inr e # calls) = successful sink (fst (assembler_onContinuityEvent a e)) calls"

lemma successful_ok: "successful sink a calls = Some a' \<Longrightarrow> sections_ok a \<Longrightarrow> sections_ok a'"
proof (induction sink a calls rule: successful.induct)
  case (2 sink a v calls)
  then show ?case using onPacket_outcome [of a sink v]
    by (auto simp: outcome_ok_def split: option.splits prod.splits sum.splits)
qed (simp_all add: assembler_onContinuityEvent_def sections_ok_reset)

text \<open>
  C18. As long as every call succeeded, the section assembler never dereferences an empty expected
  size: a sequence of packets and continuity events that all succeed leaves a state from which the
  next packet is processed with a defined outcome.
\<close>

theorem assembler_defined:
  assumes "successful sink (assembler_create s) calls = Some a"
  shows "\<exists>a' st. assembler_onPacket sink a packet = Some (a', st)"
  using onPacket_outcome [OF successful_ok [OF assms sections_ok_create], of sink packet]
  by (auto simp: outcome_ok_def split: option.splits)

theorem assembler_defined_witness:
  "\<exists>a a' st. successful (\<lambda>s i. (s, Inr ())) (assembler_create ()) [Inl (table_view 0 0 0 [0, 0xB0])] = Some a \<and>
     assembler_onPacket (\<lambda>s i. (s, Inr ())) a (table_view 188 0 1 [0]) = Some (a', st)"
proof -
  have "\<exists>a. successful (\<lambda>s i. (s, Inr ())) (assembler_create ()) [Inl (table_view 0 0 0 [0, 0xB0])] = Some a"
    by (simp add: assembler_onPacket_def table_view_def assembler_create_def no_section_def consume.simps consumeRound_def
        sectionHeader_def Let_def)
  then show ?thesis using assembler_defined [of "\<lambda>s i. (s, Inr ())" "()" "[Inl (table_view 0 0 0 [0, 0xB0])]"] by blast
qed

text \<open>
  After a failed call the guarantee is lost: a section that announces a length out of range is
  refused but its three bytes stay, without an expected size, and the next packet of the PID with
  payload for it dereferences the empty optional.
\<close>

lemma assembler_undefined_after_failure:
  "case assembler_onPacket sink (assembler_create s) (table_view 0 0 0 [0, 0xBF, 0xFF]) of
     None \<Rightarrow> False
   | Some (a, st) \<Rightarrow> st = Inl InvalidArgument \<and>
       assembler_onPacket sink a (table_view 188 0 1 []\<lparr>pv_payloadUnitStart := False, pv_payload := [1]\<rparr>) = None"
  by (simp add: assembler_onPacket_def table_view_def assembler_create_def no_section_def consume.simps consumeRound_def
      sectionHeader_def Let_def)

end
