(* ===== verification/Credit_Account.thy ===== *)
theory Credit_Account
  imports Graph_Model
begin

text \<open>
  \<^verbatim>\<open>runtime/resource/MediaGraphPayloadCreditLedger\<close>, the part that one account needs: its counters, the
  queue of producers that wait for credit, granting, cancelling and the operations on a lease. A wake
  handle is a number; whether its owner is still alive (\<^verbatim>\<open>weak_ptr::lock\<close>) is the parameter \<open>alive\<close>.
\<close>

section \<open>Data\<close>

record MediaGraphPayloadCreditSnapshot =
  sn_admittedMaximumBytes :: u64
  sn_admittedMaximumObjects :: u64
  sn_currentBytes :: u64
  sn_currentObjects :: u64
  sn_highWaterBytes :: u64
  sn_highWaterObjects :: u64
  sn_reservations :: u64
  sn_releases :: u64
  sn_pressureFailures :: u64

definition empty_snapshot :: MediaGraphPayloadCreditSnapshot where
  "empty_snapshot = \<lparr>sn_admittedMaximumBytes = 0, sn_admittedMaximumObjects = 0, sn_currentBytes = 0, sn_currentObjects = 0,
     sn_highWaterBytes = 0, sn_highWaterObjects = 0, sn_reservations = 0, sn_releases = 0, sn_pressureFailures = 0\<rparr>"

record CreditPending =
  pw_producer :: MediaNodeId
  pw_bytes :: "u64 list"
  pw_totalBytes :: u64
  pw_wakeup :: nat
  pw_granted :: bool

record MediaGraphPayloadCreditState =
  ac_plan :: MediaGraphPayloadCreditPlan
  ac_fixedStorageBytes :: u64
  ac_snapshot :: MediaGraphPayloadCreditSnapshot
  ac_waiters :: "CreditPending list"
  ac_cancelled :: bool

definition account_create :: "MediaGraphPayloadCreditPlan \<Rightarrow> u64 \<Rightarrow> MediaGraphPayloadCreditState" where
  "account_create plan fixedStorageBytes =
     \<lparr>ac_plan = plan, ac_fixedStorageBytes = fixedStorageBytes, ac_snapshot = empty_snapshot, ac_waiters = [], ac_cancelled = False\<rparr>"

definition no_plan :: MediaGraphPayloadCreditPlan where
  "no_plan = \<lparr>plan_maximumBytes = 0, plan_maximumObjects = 0, plan_maximumUnitBytes = 0, plan_producerStrategyVersion = 0,
     plan_integration = Integration_Incomplete, plan_authority = [], plan_producers = [], plan_missingProducers = []\<rparr>"

definition admittedBytes :: "MediaGraphPayloadCreditState \<Rightarrow> u64" where
  "admittedBytes a = plan_maximumBytes (ac_plan a) + ac_fixedStorageBytes a"

section \<open>Granting\<close>

definition demand_fits :: "MediaGraphPayloadCreditPlan \<Rightarrow> MediaGraphPayloadCreditSnapshot \<Rightarrow> u64 list \<Rightarrow> u64 \<Rightarrow> bool" where
  "demand_fits plan snapshot bytes totalBytes \<longleftrightarrow>
     (let objects = of_nat (length bytes)
      in totalBytes \<le> plan_maximumBytes plan \<and> sn_currentBytes snapshot \<le> plan_maximumBytes plan - totalBytes \<and>
         objects \<le> plan_maximumObjects plan \<and> sn_currentObjects snapshot \<le> plan_maximumObjects plan - objects)"

definition credit_fits :: "MediaGraphPayloadCreditPlan \<Rightarrow> MediaGraphPayloadCreditSnapshot \<Rightarrow> CreditPending \<Rightarrow> bool" where
  "credit_fits plan snapshot pending = demand_fits plan snapshot (pw_bytes pending) (pw_totalBytes pending)"

definition take_credit :: "u64 list \<Rightarrow> u64 \<Rightarrow> MediaGraphPayloadCreditSnapshot \<Rightarrow> MediaGraphPayloadCreditSnapshot" where
  "take_credit bytes totalBytes s =
     (let s = s\<lparr>sn_currentBytes := sn_currentBytes s + totalBytes, sn_currentObjects := sn_currentObjects s + of_nat (length bytes)\<rparr>
      in s\<lparr>sn_highWaterBytes := max (sn_highWaterBytes s) (sn_currentBytes s),
           sn_highWaterObjects := max (sn_highWaterObjects s) (sn_currentObjects s)\<rparr>)"

definition refund :: "CreditPending \<Rightarrow> MediaGraphPayloadCreditSnapshot \<Rightarrow> MediaGraphPayloadCreditSnapshot" where
  "refund w s =
     (if pw_granted w
      then s\<lparr>sn_currentBytes := sn_currentBytes s - pw_totalBytes w,
             sn_currentObjects := sn_currentObjects s - of_nat (length (pw_bytes w))\<rparr>
      else s)"

text \<open>The loop of \<^verbatim>\<open>promoteOne\<close>: the counters and waiters it leaves and the wake handle it returns.\<close>

fun promote_scan ::
  "(nat \<Rightarrow> bool) \<Rightarrow> MediaGraphPayloadCreditPlan \<Rightarrow> CreditPending list \<Rightarrow> MediaGraphPayloadCreditSnapshot \<Rightarrow>
   MediaGraphPayloadCreditSnapshot \<times> CreditPending list \<times> nat option" where
  "promote_scan alive plan [] s = (s, [], None)"
| "promote_scan alive plan (w # ws) s =
     (if \<not> alive (pw_wakeup w) then promote_scan alive plan ws (refund w s)
      else if pw_granted w \<or> \<not> credit_fits plan s w then
        (case promote_scan alive plan ws s of (s, ws, wakeup) \<Rightarrow> (s, w # ws, wakeup))
      else (take_credit (pw_bytes w) (pw_totalBytes w) s, w\<lparr>pw_granted := True\<rparr> # ws, Some (pw_wakeup w)))"

definition promoteOne :: "(nat \<Rightarrow> bool) \<Rightarrow> MediaGraphPayloadCreditState \<Rightarrow> MediaGraphPayloadCreditState \<times> nat option" where
  "promoteOne alive a =
     (case promote_scan alive (ac_plan a) (ac_waiters a) (ac_snapshot a) of
        (s, ws, wakeup) \<Rightarrow> (a\<lparr>ac_snapshot := s, ac_waiters := ws\<rparr>, wakeup))"

text \<open>The loop of \<^verbatim>\<open>reserveRetentionGrowth\<close> that grants until nothing more fits, with the handles it notifies.\<close>

definition waiting :: "CreditPending list \<Rightarrow> nat" where
  "waiting ws = length (filter (\<lambda>w. \<not> pw_granted w) ws)"

lemma promote_scan_waiting: "promote_scan alive plan ws s = (s', ws', Some k) \<Longrightarrow> waiting ws' < waiting ws"
proof (induction alive plan ws s arbitrary: ws' rule: promote_scan.induct)
  case (2 alive plan w ws s)
  then show ?case by (auto simp: waiting_def split: if_splits prod.splits intro: less_Suc_eq_le [THEN iffD2, OF less_imp_le])
qed simp

function promoteAll :: "(nat \<Rightarrow> bool) \<Rightarrow> MediaGraphPayloadCreditState \<Rightarrow> MediaGraphPayloadCreditState \<times> nat list" where
  "promoteAll alive a =
     (case promoteOne alive a of
        (a, None) \<Rightarrow> (a, [])
      | (a, Some wakeup) \<Rightarrow> (case promoteAll alive a of (a, ks) \<Rightarrow> (a, wakeup # ks)))"
  by pat_completeness auto
termination
  by (relation "measure (\<lambda>(_, a). waiting (ac_waiters a))") (auto simp: promoteOne_def split: prod.splits dest: promote_scan_waiting)

declare promoteAll.simps [simp del]

section \<open>Operations of an account\<close>

definition account_cancel :: "(nat \<Rightarrow> bool) \<Rightarrow> MediaGraphPayloadCreditState \<Rightarrow> MediaGraphPayloadCreditState \<times> nat list" where
  "account_cancel alive a =
     (a\<lparr>ac_cancelled := True, ac_snapshot := fold refund (ac_waiters a) (ac_snapshot a), ac_waiters := []\<rparr>,
      filter alive (map pw_wakeup (ac_waiters a)))"

text \<open>\<^verbatim>\<open>tryReserveBatch\<close> under the lock: the leases are the demand itself.\<close>

definition account_reserve :: "u64 list \<Rightarrow> u64 \<Rightarrow> MediaGraphPayloadCreditState \<Rightarrow> MediaGraphPayloadCreditState \<times> Status" where
  "account_reserve bytes totalBytes a =
     (if ac_cancelled a then (a, failure Cancelled)
      else
        (let s = ac_snapshot a;
             plan = ac_plan a;
             objectCount = of_nat (length bytes);
             bytePressure = (totalBytes > plan_maximumBytes plan \<or> sn_currentBytes s > plan_maximumBytes plan - totalBytes);
             objectPressure = (objectCount > plan_maximumObjects plan \<or> sn_currentObjects s > plan_maximumObjects plan - objectCount)
         in if bytePressure \<or> objectPressure
            then (a\<lparr>ac_snapshot := s\<lparr>sn_pressureFailures := sn_pressureFailures s + 1\<rparr>\<rparr>, failure WouldBlock)
            else
              (let s = take_credit bytes totalBytes s
               in (a\<lparr>ac_snapshot := s\<lparr>sn_reservations := sn_reservations s + objectCount\<rparr>\<rparr>, success ()))))"

text \<open>\<^verbatim>\<open>tryReserveOrArm\<close> under the lock: on success the leases are the demand; \<open>queued\<close> says whether the waiter queue can grow.\<close>

definition account_reserveOrArm ::
  "(nat \<Rightarrow> bool) \<Rightarrow> bool \<Rightarrow> MediaNodeId \<Rightarrow> u64 list \<Rightarrow> u64 \<Rightarrow> nat \<Rightarrow> MediaGraphPayloadCreditState \<Rightarrow>
   MediaGraphPayloadCreditState \<times> nat option Result" where
  "account_reserveOrArm alive queued producer bytes totalBytes wakeup a =
     (if ac_cancelled a then (a, failure Cancelled)
      else
        (let pending = \<lparr>pw_producer = producer, pw_bytes = bytes, pw_totalBytes = totalBytes, pw_wakeup = wakeup, pw_granted = False\<rparr>
         in case List.find (\<lambda>w. pw_producer w = producer) (ac_waiters a) of
              Some existing \<Rightarrow>
                (if pw_bytes existing \<noteq> bytes then (a, failure InvalidArgument)
                 else if \<not> pw_granted existing then (a, failure WouldBlock)
                 else
                   (let s = ac_snapshot a;
                        a = a\<lparr>ac_snapshot := s\<lparr>sn_reservations := sn_reservations s + of_nat (length (pw_bytes existing))\<rparr>,
                              ac_waiters := remove1 existing (ac_waiters a)\<rparr>
                    in case promoteOne alive a of (a, nextWakeup) \<Rightarrow> (a, success nextWakeup)))
            | None \<Rightarrow>
                (if credit_fits (ac_plan a) (ac_snapshot a) pending then
                   (let s = take_credit bytes totalBytes (ac_snapshot a)
                    in (a\<lparr>ac_snapshot := s\<lparr>sn_reservations := sn_reservations s + of_nat (length bytes)\<rparr>\<rparr>, success None))
                 else if \<not> queued then (a, failure AllocationFailed)
                 else
                   (a\<lparr>ac_waiters := ac_waiters a @ [pending],
                      ac_snapshot := (ac_snapshot a)\<lparr>sn_pressureFailures := sn_pressureFailures (ac_snapshot a) + 1\<rparr>\<rparr>,
                    failure WouldBlock))))"

text \<open>\<^verbatim>\<open>shrinkTo\<close> on a lease of \<open>leased\<close> bytes: the account, the bytes left and the handle to notify.\<close>

definition account_shrink ::
  "(nat \<Rightarrow> bool) \<Rightarrow> u64 \<Rightarrow> u64 \<Rightarrow> MediaGraphPayloadCreditState \<Rightarrow> MediaGraphPayloadCreditState \<times> (u64 \<times> nat option) Result" where
  "account_shrink alive leased bytes a =
     (if bytes > leased then (a, failure InvalidArgument)
      else
        (let released = leased - bytes;
             s = ac_snapshot a
         in if released > sn_currentBytes s then (a, failure InternalError)
            else
              (let a = a\<lparr>ac_snapshot := s\<lparr>sn_currentBytes := sn_currentBytes s - released\<rparr>\<rparr>
               in if released > 0 then (case promoteOne alive a of (a, wakeup) \<Rightarrow> (a, success (bytes, wakeup)))
                  else (a, success (bytes, None)))))"

text \<open>\<^verbatim>\<open>release\<close> of a lease; \<open>None\<close> is \<^verbatim>\<open>std::terminate\<close>.\<close>

definition account_release ::
  "(nat \<Rightarrow> bool) \<Rightarrow> u64 \<Rightarrow> MediaGraphPayloadCreditState \<Rightarrow> (MediaGraphPayloadCreditState \<times> nat option) option" where
  "account_release alive leased a =
     (let s = ac_snapshot a
      in if leased > sn_currentBytes s \<or> sn_currentObjects s = 0 then None
         else Some (promoteOne alive
                (a\<lparr>ac_snapshot := s\<lparr>sn_currentBytes := sn_currentBytes s - leased, sn_currentObjects := sn_currentObjects s - 1,
                    sn_releases := sn_releases s + 1\<rparr>\<rparr>)))"


text \<open>The critical section of \<^verbatim>\<open>reserveRetentionGrowth\<close>, and the destructor of the retention reservation.\<close>

definition account_grow ::
  "(nat \<Rightarrow> bool) \<Rightarrow> u64 \<Rightarrow> u64 \<Rightarrow> MediaGraphPayloadCreditState \<Rightarrow> MediaGraphPayloadCreditState \<times> nat list Result" where
  "account_grow alive additionalBytes additionalObjects a =
     (if ac_cancelled a then (a, failure Cancelled)
      else
        (let plan = ac_plan a
         in case promoteAll alive
                  (a\<lparr>ac_plan := plan\<lparr>plan_maximumBytes := plan_maximumBytes plan + additionalBytes,
                                      plan_maximumObjects := plan_maximumObjects plan + additionalObjects\<rparr>\<rparr>) of
              (a, ks) \<Rightarrow> (a, success ks)))"

definition account_retract :: "u64 \<Rightarrow> u64 \<Rightarrow> MediaGraphPayloadCreditState \<Rightarrow> MediaGraphPayloadCreditState" where
  "account_retract additionalBytes additionalObjects a =
     (let plan = ac_plan a
      in a\<lparr>ac_plan := plan\<lparr>plan_maximumBytes := plan_maximumBytes plan - additionalBytes,
                           plan_maximumObjects := plan_maximumObjects plan - additionalObjects\<rparr>\<rparr>)"

section \<open>Accounting of one account\<close>

text \<open>What the waiters that were granted credit hold, and what a stored demand promises.\<close>

definition granted_bytes :: "CreditPending list \<Rightarrow> nat" where
  "granted_bytes ws = (\<Sum>w\<leftarrow>ws. if pw_granted w then unat (pw_totalBytes w) else 0)"

definition granted_objects :: "CreditPending list \<Rightarrow> nat" where
  "granted_objects ws = (\<Sum>w\<leftarrow>ws. if pw_granted w then length (pw_bytes w) else 0)"

definition waiter_ok :: "CreditPending \<Rightarrow> bool" where
  "waiter_ok w \<longleftrightarrow> unat (pw_totalBytes w) = (\<Sum>b\<leftarrow>pw_bytes w. unat b) \<and> length (pw_bytes w) < 2 ^ 64"

definition counts_ok :: "nat \<Rightarrow> nat \<Rightarrow> CreditPending list \<Rightarrow> MediaGraphPayloadCreditSnapshot \<Rightarrow> bool" where
  "counts_ok leasedBytes leasedObjects ws s \<longleftrightarrow>
     unat (sn_currentBytes s) = leasedBytes + granted_bytes ws \<and>
     unat (sn_currentObjects s) = leasedObjects + granted_objects ws \<and>
     list_all waiter_ok ws"

definition account_ok :: "nat \<Rightarrow> nat \<Rightarrow> MediaGraphPayloadCreditState \<Rightarrow> bool" where
  "account_ok leasedBytes leasedObjects a \<longleftrightarrow> counts_ok leasedBytes leasedObjects (ac_waiters a) (ac_snapshot a)"

text \<open>A change of the counters that raises a use only up to the bounds of the plan.\<close>

definition within_plan ::
  "MediaGraphPayloadCreditPlan \<Rightarrow> MediaGraphPayloadCreditSnapshot \<Rightarrow> MediaGraphPayloadCreditSnapshot \<Rightarrow> bool" where
  "within_plan plan s s' \<longleftrightarrow>
     (sn_currentBytes s' \<le> sn_currentBytes s \<or> sn_currentBytes s' \<le> plan_maximumBytes plan) \<and>
     (sn_currentObjects s' \<le> sn_currentObjects s \<or> sn_currentObjects s' \<le> plan_maximumObjects plan)"

lemma granted_simps [simp]:
  "granted_bytes [] = 0" "granted_objects [] = 0"
  "granted_bytes (w # ws) = (if pw_granted w then unat (pw_totalBytes w) else 0) + granted_bytes ws"
  "granted_objects (w # ws) = (if pw_granted w then length (pw_bytes w) else 0) + granted_objects ws"
  "granted_bytes (vs @ ws) = granted_bytes vs + granted_bytes ws"
  "granted_objects (vs @ ws) = granted_objects vs + granted_objects ws"
  by (simp_all add: granted_bytes_def granted_objects_def)

lemma within_plan_refl [simp]: "within_plan plan s s"
  by (simp add: within_plan_def)

lemma within_plan_trans: "within_plan plan s t \<Longrightarrow> within_plan plan t u \<Longrightarrow> within_plan plan s u"
  by (auto simp: within_plan_def)

lemma unat_of_nat_u64: "n < 2 ^ 64 \<Longrightarrow> unat (of_nat n :: u64) = n"
  by (simp add: unat_of_nat take_bit_nat_eq_self)

lemma le_minus_nat:
  fixes c m t :: u64
  shows "t \<le> m \<and> c \<le> m - t \<longleftrightarrow> unat c + unat t \<le> unat m"
proof (cases "t \<le> m")
  case True
  then show ?thesis by (auto simp: word_le_nat_alt unat_sub)
qed (auto simp: word_le_nat_alt)

lemma unat_plus_le:
  fixes c m t :: u64
  assumes "unat c + unat t \<le> unat m"
  shows "unat (c + t) = unat c + unat t"
proof -
  have "unat c + unat t < 2 ^ 64"
    using assms unsigned_less [of m, where 'a = nat] by simp
  then show ?thesis by (simp add: unat_word_ariths)
qed

lemma demand_fits_iff:
  assumes "length bytes < 2 ^ 64"
  shows "demand_fits plan s bytes t \<longleftrightarrow>
     unat (sn_currentBytes s) + unat t \<le> unat (plan_maximumBytes plan) \<and>
     unat (sn_currentObjects s) + length bytes \<le> unat (plan_maximumObjects plan)"
proof -
  have "demand_fits plan s bytes t \<longleftrightarrow>
     unat (sn_currentBytes s) + unat t \<le> unat (plan_maximumBytes plan) \<and>
     unat (sn_currentObjects s) + unat (of_nat (length bytes) :: u64) \<le> unat (plan_maximumObjects plan)"
    by (simp add: demand_fits_def Let_def le_minus_nat [symmetric] conj_assoc)
  then show ?thesis by (simp add: unat_of_nat_u64 [OF assms])
qed

lemma take_credit_simps [simp]:
  "sn_currentBytes (take_credit bytes t s) = sn_currentBytes s + t"
  "sn_currentObjects (take_credit bytes t s) = sn_currentObjects s + of_nat (length bytes)"
  "sn_reservations (take_credit bytes t s) = sn_reservations s"
  "sn_releases (take_credit bytes t s) = sn_releases s"
  "sn_pressureFailures (take_credit bytes t s) = sn_pressureFailures s"
  by (simp_all add: take_credit_def Let_def)

lemma take_credit_counts:
  assumes "demand_fits plan s bytes t" and "length bytes < 2 ^ 64"
  shows "unat (sn_currentBytes s + t) = unat (sn_currentBytes s) + unat t"
    and "unat (sn_currentObjects s + of_nat (length bytes)) = unat (sn_currentObjects s) + length bytes"
    and "within_plan plan s (take_credit bytes t s)"
proof -
  note fits = demand_fits_iff [OF assms(2), THEN iffD1, OF assms(1)]
  show b: "unat (sn_currentBytes s + t) = unat (sn_currentBytes s) + unat t"
    using fits by (blast intro: unat_plus_le)
  show o: "unat (sn_currentObjects s + of_nat (length bytes)) = unat (sn_currentObjects s) + length bytes"
    using fits unat_plus_le [of "sn_currentObjects s" "of_nat (length bytes)" "plan_maximumObjects plan"] by (simp add: unat_of_nat_u64 [OF assms(2)])
  show "within_plan plan s (take_credit bytes t s)"
    using fits b o by (auto simp: within_plan_def word_le_nat_alt)
qed

lemma unat_minus_part:
  fixes c t :: u64
  assumes "unat c = unat t + n"
  shows "unat (c - t) = n"
  using assms by (simp add: unat_sub word_le_nat_alt)

lemma refund_counts:
  assumes "counts_ok lb lo (w # ws) s"
  shows "counts_ok lb lo ws (refund w s)" and "within_plan plan s (refund w s)"
proof -
  have "pw_granted w \<Longrightarrow> unat (sn_currentBytes s - pw_totalBytes w) = lb + granted_bytes ws"
    using assms by (intro unat_minus_part) (simp add: counts_ok_def)
  moreover have "pw_granted w \<Longrightarrow> unat (sn_currentObjects s - of_nat (length (pw_bytes w))) = lo + granted_objects ws"
    using assms by (intro unat_minus_part) (simp add: counts_ok_def waiter_ok_def unat_of_nat_u64)
  ultimately show "counts_ok lb lo ws (refund w s)" "within_plan plan s (refund w s)"
    using assms by (auto simp: counts_ok_def refund_def within_plan_def word_le_nat_alt)
qed

lemma counts_ok_skip:
  "counts_ok lb lo (w # ws) s \<longleftrightarrow>
     waiter_ok w \<and> counts_ok (lb + (if pw_granted w then unat (pw_totalBytes w) else 0))
       (lo + (if pw_granted w then length (pw_bytes w) else 0)) ws s"
  by (auto simp: counts_ok_def)

lemma grant_counts:
  assumes "counts_ok lb lo (w # ws) s" and "\<not> pw_granted w" and "credit_fits plan s w"
  shows "counts_ok lb lo (w\<lparr>pw_granted := True\<rparr> # ws) (take_credit (pw_bytes w) (pw_totalBytes w) s)"
proof -
  have "length (pw_bytes w) < 2 ^ 64" using assms(1) by (simp add: counts_ok_def waiter_ok_def)
  with assms show ?thesis
    using take_credit_counts(1,2) [of plan s "pw_bytes w" "pw_totalBytes w"]
    by (simp add: counts_ok_def credit_fits_def waiter_ok_def)
qed

lemma promote_scan_counts:
  assumes "promote_scan alive plan ws s = (s', ws', k)" and "counts_ok lb lo ws s"
  shows "counts_ok lb lo ws' s' \<and> within_plan plan s s'"
  using assms
proof (induction alive plan ws s arbitrary: ws' s' lb lo rule: promote_scan.induct)
  case (2 alive plan w ws s)
  consider "\<not> alive (pw_wakeup w)" | "alive (pw_wakeup w)" "pw_granted w \<or> \<not> credit_fits plan s w"
    | "alive (pw_wakeup w)" "\<not> pw_granted w" "credit_fits plan s w" by blast
  then show ?case
  proof cases
    case 1
    then show ?thesis
      using 2(1) [OF 1, of s' ws' lb lo] 2(3,4) refund_counts [OF 2(4)] by (auto intro: within_plan_trans)
  next
    case 2
    then obtain ws'' where scan: "promote_scan alive plan ws s = (s', ws'', k)" "ws' = w # ws''"
      using "2.prems"(1) by (auto split: prod.splits)
    show ?thesis
      using "2.IH"(2) [OF _ 2(2) scan(1)] 2(1) "2.prems"(2) unfolding scan(2) counts_ok_skip [of _ _ w] by blast
  next
    case 3
    then show ?thesis
      using "2.prems" grant_counts [OF "2.prems"(2), of plan] take_credit_counts(3) [of plan s "pw_bytes w"]
      by (auto simp: credit_fits_def counts_ok_def waiter_ok_def)
  qed
qed simp

lemma promote_scan_counters:
  "promote_scan alive plan ws s = (s', ws', k) \<Longrightarrow>
     sn_reservations s' = sn_reservations s \<and> sn_releases s' = sn_releases s \<and> sn_pressureFailures s' = sn_pressureFailures s"
  by (induction alive plan ws s arbitrary: ws' s' rule: promote_scan.induct) (auto simp: refund_def split: if_splits prod.splits)

text \<open>Credit is lost when a waiter fits, and no grant is outstanding whose collection would promote it.\<close>

definition no_lost_credit :: "MediaGraphPayloadCreditState \<Rightarrow> bool" where
  "no_lost_credit a \<longleftrightarrow>
     (\<exists>w\<in>set (ac_waiters a). pw_granted w) \<or> (\<forall>w\<in>set (ac_waiters a). \<not> credit_fits (ac_plan a) (ac_snapshot a) w)"

lemma promote_scan_progress:
  assumes "promote_scan alive plan ws s = (s', ws', k)" and "\<forall>w\<in>set ws. alive (pw_wakeup w)"
  shows "(case k of None \<Rightarrow> s' = s \<and> ws' = ws \<and> (\<forall>w\<in>set ws. pw_granted w \<or> \<not> credit_fits plan s w)
          | Some _ \<Rightarrow> \<exists>w\<in>set ws'. pw_granted w)"
  using assms
proof (induction alive plan ws s arbitrary: ws' s' rule: promote_scan.induct)
  case (2 alive plan w ws s)
  then show ?case by (cases k) (fastforce split: if_splits prod.splits)+
qed auto

lemma promoteOne_facts:
  assumes "promoteOne alive a = (a', k)"
  shows "ac_plan a' = ac_plan a" "ac_fixedStorageBytes a' = ac_fixedStorageBytes a" "ac_cancelled a' = ac_cancelled a"
    and "account_ok lb lo a \<Longrightarrow> account_ok lb lo a'"
    and "account_ok lb lo a \<Longrightarrow> within_plan (ac_plan a) (ac_snapshot a) (ac_snapshot a')"
    and "\<forall>w\<in>set (ac_waiters a). alive (pw_wakeup w) \<Longrightarrow> no_lost_credit a'"
    and "sn_reservations (ac_snapshot a') = sn_reservations (ac_snapshot a)"
proof -
  obtain s' ws' where scan: "promote_scan alive (ac_plan a) (ac_waiters a) (ac_snapshot a) = (s', ws', k)"
    and a': "a' = a\<lparr>ac_snapshot := s', ac_waiters := ws'\<rparr>"
    using assms by (auto simp: promoteOne_def split: prod.splits)
  show "ac_plan a' = ac_plan a" "ac_fixedStorageBytes a' = ac_fixedStorageBytes a" "ac_cancelled a' = ac_cancelled a"
    by (simp_all add: a')
  show "account_ok lb lo a \<Longrightarrow> account_ok lb lo a'"
    and "account_ok lb lo a \<Longrightarrow> within_plan (ac_plan a) (ac_snapshot a) (ac_snapshot a')"
    using promote_scan_counts [OF scan] by (simp_all add: a' account_ok_def)
  show "sn_reservations (ac_snapshot a') = sn_reservations (ac_snapshot a)"
    using promote_scan_counters [OF scan] by (simp add: a')
  show "\<forall>w\<in>set (ac_waiters a). alive (pw_wakeup w) \<Longrightarrow> no_lost_credit a'"
    using promote_scan_progress [OF scan] by (cases k) (auto simp: a' no_lost_credit_def)
qed

lemma promoteAll_keeps:
  assumes "promoteAll alive a = (a', ks)" and "P a" and "\<forall>b b' k. P b \<longrightarrow> promoteOne alive b = (b', k) \<longrightarrow> P b'"
  shows "P a'"
  using assms
proof (induction alive a arbitrary: a' ks rule: promoteAll.induct)
  case (1 alive a)
  obtain b k where b: "promoteOne alive a = (b, k)" by fastforce
  have "P b" using 1(3,4) b by blast
  then show ?case
    using 1(1) [OF b [symmetric]] 1(2,4) b
    by (auto simp: promoteAll.simps [of alive a] split: prod.splits option.splits)
qed

lemma promoteAll_facts:
  assumes "promoteAll alive a = (a', ks)"
  shows "ac_plan a' = ac_plan a \<and> ac_fixedStorageBytes a' = ac_fixedStorageBytes a \<and> ac_cancelled a' = ac_cancelled a"
    and "account_ok lb lo a \<Longrightarrow> account_ok lb lo a' \<and> within_plan (ac_plan a) (ac_snapshot a) (ac_snapshot a')"
proof -
  show "ac_plan a' = ac_plan a \<and> ac_fixedStorageBytes a' = ac_fixedStorageBytes a \<and> ac_cancelled a' = ac_cancelled a"
    by (rule promoteAll_keeps [OF assms]) (auto dest: promoteOne_facts)
  assume ok: "account_ok lb lo a"
  have "ac_plan a' = ac_plan a \<and> account_ok lb lo a' \<and> within_plan (ac_plan a) (ac_snapshot a) (ac_snapshot a')"
  proof (rule promoteAll_keeps [OF assms], goal_cases)
    case 1
    then show ?case using ok by simp
  next
    case 2
    then show ?case using promoteOne_facts(1,4,5) by (metis within_plan_trans)
  qed
  then show "account_ok lb lo a' \<and> within_plan (ac_plan a) (ac_snapshot a) (ac_snapshot a')" by simp
qed

lemma set_promote_scan_wakeup:
  "promote_scan alive plan ws s = (s', ws', k) \<Longrightarrow> \<forall>w\<in>set ws. Q (pw_wakeup w) \<Longrightarrow> \<forall>w\<in>set ws'. Q (pw_wakeup w)"
  by (induction alive plan ws s arbitrary: ws' s' rule: promote_scan.induct) (auto split: if_splits prod.splits)

lemma promoteAll_progress:
  assumes "promoteAll alive a = (a', ks)" and "\<forall>w\<in>set (ac_waiters a). alive (pw_wakeup w)"
  shows "no_lost_credit a'"
  using assms
proof (induction alive a arbitrary: a' ks rule: promoteAll.induct)
  case (1 alive a)
  obtain b k where b: "promoteOne alive a = (b, k)" by fastforce
  have "\<forall>w\<in>set (ac_waiters b). alive (pw_wakeup w)"
    using b 1(3) by (auto simp: promoteOne_def split: prod.splits dest!: set_promote_scan_wakeup [where Q = alive])
  then show ?case
    using 1(1) [OF b [symmetric]] 1(2) b promoteOne_facts(6) [OF b 1(3)]
    by (auto simp: promoteAll.simps [of alive a] split: prod.splits option.splits)
qed

lemma refund_all_counts:
  "counts_ok lb lo ws s \<Longrightarrow> counts_ok lb lo [] (fold refund ws s) \<and> within_plan plan s (fold refund ws s)"
proof (induction ws arbitrary: s)
  case (Cons w ws)
  show ?case
    using Cons.IH [OF refund_counts(1) [OF Cons.prems]] refund_counts(2) [OF Cons.prems] by (auto intro: within_plan_trans)
qed simp

section \<open>The contract of the account operations\<close>

text \<open>
  A change of one account, where it may run (\<open>pre\<close>), the leases it consumes and the leases it hands out. All
  operations keep the books, raise a use only up to the plan, and lose no credit while every waiter is alive.
\<close>

locale account_change =
  fixes alive :: "nat \<Rightarrow> bool"
    and step :: "MediaGraphPayloadCreditState \<Rightarrow> MediaGraphPayloadCreditState"
    and pre :: "MediaGraphPayloadCreditState \<Rightarrow> bool"
    and taken given :: "MediaGraphPayloadCreditState \<Rightarrow> u64 list"
  assumes counts: "pre a \<Longrightarrow> account_ok (lb + (\<Sum>b\<leftarrow>taken a. unat b)) (lo + length (taken a)) a \<Longrightarrow>
      account_ok (lb + (\<Sum>b\<leftarrow>given a. unat b)) (lo + length (given a)) (step a)"
    and bounded: "pre a \<Longrightarrow> account_ok (lb + (\<Sum>b\<leftarrow>taken a. unat b)) (lo + length (taken a)) a \<Longrightarrow>
      within_plan (ac_plan (step a)) (ac_snapshot a) (ac_snapshot (step a))"
    and progress: "pre a \<Longrightarrow> \<forall>k. alive k \<Longrightarrow> no_lost_credit a \<Longrightarrow> no_lost_credit (step a)"

lemma credit_fits_mono:
  assumes "credit_fits plan' s' w"
    and "plan_maximumBytes plan' \<le> plan_maximumBytes plan" "plan_maximumObjects plan' \<le> plan_maximumObjects plan"
    and "sn_currentBytes s \<le> sn_currentBytes s'" "sn_currentObjects s \<le> sn_currentObjects s'"
  shows "credit_fits plan s w"
proof -
  have "credit_fits p z w \<longleftrightarrow>
     unat (sn_currentBytes z) + unat (pw_totalBytes w) \<le> unat (plan_maximumBytes p) \<and>
     unat (sn_currentObjects z) + unat (of_nat (length (pw_bytes w)) :: u64) \<le> unat (plan_maximumObjects p)" for p z
    by (simp add: credit_fits_def demand_fits_def Let_def le_minus_nat [symmetric] conj_assoc)
  with assms show ?thesis by (simp add: word_le_nat_alt)
qed

lemma no_lost_credit_mono:
  assumes "no_lost_credit a" and "ac_waiters a' = ac_waiters a"
    and "plan_maximumBytes (ac_plan a') \<le> plan_maximumBytes (ac_plan a)"
        "plan_maximumObjects (ac_plan a') \<le> plan_maximumObjects (ac_plan a)"
    and "sn_currentBytes (ac_snapshot a) \<le> sn_currentBytes (ac_snapshot a')"
        "sn_currentObjects (ac_snapshot a) \<le> sn_currentObjects (ac_snapshot a')"
  shows "no_lost_credit a'"
  using assms credit_fits_mono by (auto simp: no_lost_credit_def)

definition demand_ok :: "u64 list \<Rightarrow> u64 \<Rightarrow> bool" where
  "demand_ok bytes totalBytes \<longleftrightarrow> unat totalBytes = (\<Sum>b\<leftarrow>bytes. unat b) \<and> length bytes < 2 ^ 64"

lemma account_reserve_alt:
  "account_reserve bytes t a =
     (if ac_cancelled a then (a, failure Cancelled)
      else if demand_fits (ac_plan a) (ac_snapshot a) bytes t
      then (let s = take_credit bytes t (ac_snapshot a)
            in (a\<lparr>ac_snapshot := s\<lparr>sn_reservations := sn_reservations s + of_nat (length bytes)\<rparr>\<rparr>, success ()))
      else (a\<lparr>ac_snapshot := (ac_snapshot a)\<lparr>sn_pressureFailures := sn_pressureFailures (ac_snapshot a) + 1\<rparr>\<rparr>, failure WouldBlock))"
  unfolding account_reserve_def demand_fits_def Let_def not_le [symmetric] by auto

lemma take_credit_monotone:
  assumes "demand_fits plan s bytes t" and "length bytes < 2 ^ 64"
  shows "sn_currentBytes s \<le> sn_currentBytes s + t" "sn_currentObjects s \<le> sn_currentObjects s + of_nat (length bytes)"
  using take_credit_counts(1,2) [OF assms] by (simp_all add: word_le_nat_alt)

interpretation reserve: account_change "\<lambda>_. True" "\<lambda>a. fst (account_reserve bytes t a)" "\<lambda>_. demand_ok bytes t" "\<lambda>_. []"
  "\<lambda>a. case snd (account_reserve bytes t a) of Inl _ \<Rightarrow> [] | Inr _ \<Rightarrow> bytes" for bytes t
proof (unfold_locales, goal_cases)
  case (1 a lb lo)
  then show ?case
    using take_credit_counts(1,2) [of "ac_plan a" "ac_snapshot a" bytes t]
    by (auto simp: account_reserve_alt Let_def account_ok_def counts_ok_def demand_ok_def)
next
  case (2 a lb lo)
  then show ?case
    using take_credit_counts(3) [of "ac_plan a" "ac_snapshot a" bytes t]
    by (auto simp: account_reserve_alt Let_def within_plan_def demand_ok_def)
next
  case (3 a)
  then show ?case
    using take_credit_monotone [of "ac_plan a" "ac_snapshot a" bytes t]
    by (auto simp: account_reserve_alt Let_def demand_ok_def elim!: no_lost_credit_mono)
qed

lemma arm_collect_counts:
  assumes "w \<in> set ws" and "pw_granted w" and "counts_ok lb lo ws s"
  shows "counts_ok (lb + (\<Sum>b\<leftarrow>pw_bytes w. unat b)) (lo + length (pw_bytes w)) (remove1 w ws)
     (s\<lparr>sn_reservations := n\<rparr>)"
proof -
  obtain us vs where ws: "ws = us @ w # vs" "w \<notin> set us" using split_list_first [OF assms(1)] by blast
  then have "remove1 w ws = us @ vs" by (simp add: remove1_append)
  with assms ws(1) show ?thesis by (auto simp: counts_ok_def waiter_ok_def)
qed

definition arm_given :: "MediaGraphPayloadCreditState \<times> nat option Result \<Rightarrow> u64 list \<Rightarrow> u64 list" where
  "arm_given r bytes = (case snd r of Inl _ \<Rightarrow> [] | Inr _ \<Rightarrow> bytes)"

text \<open>The branches of arming.\<close>

lemma arm_cases:
  obtains (refused) e where "account_reserveOrArm alive queued producer bytes t wakeup a = (a, failure e)"
  | (collected) w a' k where "w \<in> set (ac_waiters a)" "pw_granted w" "pw_bytes w = bytes"
      "promoteOne alive (a\<lparr>ac_snapshot := (ac_snapshot a)\<lparr>sn_reservations := sn_reservations (ac_snapshot a) + of_nat (length bytes)\<rparr>,
         ac_waiters := remove1 w (ac_waiters a)\<rparr>) = (a', k)"
      "account_reserveOrArm alive queued producer bytes t wakeup a = (a', success k)"
  | (granted) "demand_fits (ac_plan a) (ac_snapshot a) bytes t"
      "account_reserveOrArm alive queued producer bytes t wakeup a =
        (a\<lparr>ac_snapshot := (take_credit bytes t (ac_snapshot a))\<lparr>sn_reservations := sn_reservations (ac_snapshot a) + of_nat (length bytes)\<rparr>\<rparr>,
         success None)"
  | (armed) w where "w = \<lparr>pw_producer = producer, pw_bytes = bytes, pw_totalBytes = t, pw_wakeup = wakeup, pw_granted = False\<rparr>"
      "\<not> credit_fits (ac_plan a) (ac_snapshot a) w"
      "account_reserveOrArm alive queued producer bytes t wakeup a =
        (a\<lparr>ac_waiters := ac_waiters a @ [w],
           ac_snapshot := (ac_snapshot a)\<lparr>sn_pressureFailures := sn_pressureFailures (ac_snapshot a) + 1\<rparr>\<rparr>, failure WouldBlock)"
proof -
  note unfold = account_reserveOrArm_def Let_def credit_fits_def
  consider "ac_cancelled a" | "\<not> ac_cancelled a" "List.find (\<lambda>w. pw_producer w = producer) (ac_waiters a) = None"
    | w where "\<not> ac_cancelled a" "List.find (\<lambda>w. pw_producer w = producer) (ac_waiters a) = Some w" by blast
  then show thesis
  proof cases
    case 1
    then show ?thesis by (intro refused) (simp add: unfold)
  next
    case 2
    consider "demand_fits (ac_plan a) (ac_snapshot a) bytes t" | "\<not> demand_fits (ac_plan a) (ac_snapshot a) bytes t" "queued"
      | "\<not> demand_fits (ac_plan a) (ac_snapshot a) bytes t" "\<not> queued" by blast
    then show ?thesis
    proof cases
      case 1
      with 2 show ?thesis by (intro granted) (simp_all add: unfold)
    next
      case b: 2
      with 2 show ?thesis by (intro armed [OF refl]) (simp_all add: unfold)
    next
      case 3
      with 2 show ?thesis by (intro refused) (simp add: unfold)
    qed
  next
    case (3 w)
    show ?thesis
    proof (cases "pw_bytes w = bytes \<and> pw_granted w")
      case True
      with 3 show ?thesis
        by (intro collected [OF _ _ _ prod.collapse [symmetric]]) (auto simp: unfold dest: find_SomeD split: prod.splits)
    next
      case False
      with 3 show ?thesis by (intro refused [of "if pw_bytes w = bytes then WouldBlock else InvalidArgument"]) (auto simp: unfold)
    qed
  qed
qed

interpretation arm: account_change alive "\<lambda>a. fst (account_reserveOrArm alive queued producer bytes t wakeup a)" "\<lambda>_. demand_ok bytes t" "\<lambda>_. []"
  "\<lambda>a. arm_given (account_reserveOrArm alive queued producer bytes t wakeup a) bytes" for alive queued producer bytes t wakeup
proof (unfold_locales, goal_cases)
  case (1 a lb lo)
  show ?case
  proof (cases rule: arm_cases [of alive queued producer bytes t wakeup a])
    case (collected w a' k)
    have "account_ok (lb + (\<Sum>b\<leftarrow>bytes. unat b)) (lo + length bytes) a'"
      using promoteOne_facts(4) [OF collected(4)] arm_collect_counts [OF collected(1,2)] 1(2) collected(3)
      by (simp add: account_ok_def)
    then show ?thesis by (simp add: collected(5) arm_given_def)
  next
    case granted
    then show ?thesis
      using take_credit_counts(1,2) [OF granted(1)] 1 by (simp add: account_ok_def counts_ok_def demand_ok_def arm_given_def)
  qed (use 1 in \<open>simp_all add: account_ok_def counts_ok_def demand_ok_def waiter_ok_def arm_given_def\<close>)
next
  case (2 a lb lo)
  show ?case
  proof (cases rule: arm_cases [of alive queued producer bytes t wakeup a])
    case (collected w a' k)
    then show ?thesis
      using promoteOne_facts(1,5) [OF collected(4)] arm_collect_counts [OF collected(1,2)] 2(2)
      by (fastforce simp: account_ok_def within_plan_def)
  next
    case granted
    then show ?thesis
      using take_credit_counts(3) [OF granted(1)] 2 by (simp add: within_plan_def demand_ok_def)
  qed (simp_all add: within_plan_def)
next
  case (3 a)
  show ?case
  proof (cases rule: arm_cases [of alive queued producer bytes t wakeup a])
    case (collected w a' k)
    then show ?thesis using promoteOne_facts(6) [OF collected(4)] 3(2) by simp
  next
    case granted
    then show ?thesis
      using take_credit_monotone [OF granted(1)] 3 by (auto simp: demand_ok_def elim!: no_lost_credit_mono)
  next
    case (armed w)
    then show ?thesis using 3 by (auto simp: no_lost_credit_def credit_fits_def demand_fits_def)
  qed (use 3 in simp)
qed

definition shrink_given :: "MediaGraphPayloadCreditState \<times> (u64 \<times> nat option) Result \<Rightarrow> u64 \<Rightarrow> u64 list" where
  "shrink_given r leased = (case snd r of Inl _ \<Rightarrow> [leased] | Inr (bytes, _) \<Rightarrow> [bytes])"

definition credit_back :: "u64 \<Rightarrow> MediaGraphPayloadCreditState \<Rightarrow> MediaGraphPayloadCreditState" where
  "credit_back released a =
     a\<lparr>ac_snapshot := (ac_snapshot a)\<lparr>sn_currentBytes := sn_currentBytes (ac_snapshot a) - released\<rparr>\<rparr>"

lemma credit_back_ok:
  assumes "bytes \<le> leased" and "account_ok (lb + unat leased) lo a"
  shows "account_ok (lb + unat bytes) lo (credit_back (leased - bytes) a)"
    and "within_plan (ac_plan a) (ac_snapshot a) (ac_snapshot (credit_back (leased - bytes) a))"
    and "\<not> leased - bytes > sn_currentBytes (ac_snapshot a)"
proof -
  have d: "unat (leased - bytes) = unat leased - unat bytes" "unat bytes \<le> unat leased"
    using assms(1) by (simp_all add: unat_sub word_le_nat_alt)
  then have u: "unat (sn_currentBytes (ac_snapshot a) - (leased - bytes)) = lb + unat bytes + granted_bytes (ac_waiters a)"
    using assms(2) by (intro unat_minus_part) (simp add: account_ok_def counts_ok_def)
  show "account_ok (lb + unat bytes) lo (credit_back (leased - bytes) a)"
    using assms(2) u by (simp add: account_ok_def counts_ok_def credit_back_def)
  show "within_plan (ac_plan a) (ac_snapshot a) (ac_snapshot (credit_back (leased - bytes) a))"
    using assms(2) u d by (simp add: account_ok_def counts_ok_def credit_back_def within_plan_def word_le_nat_alt)
  show "\<not> leased - bytes > sn_currentBytes (ac_snapshot a)"
    using assms(2) d by (simp add: account_ok_def counts_ok_def word_less_nat_alt)
qed

lemma shrink_cases:
  obtains (refused) e where "account_shrink alive leased bytes a = (a, failure e)"
  | (same) "bytes = leased" "account_shrink alive leased bytes a = (credit_back (leased - bytes) a, success (bytes, None))"
  | (shrunk) a' k where "bytes \<le> leased" "promoteOne alive (credit_back (leased - bytes) a) = (a', k)"
      "account_shrink alive leased bytes a = (a', success (bytes, k))"
proof -
  consider "bytes > leased \<or> leased - bytes > sn_currentBytes (ac_snapshot a)"
    | "bytes = leased" "\<not> leased - bytes > sn_currentBytes (ac_snapshot a)"
    | "bytes < leased" "\<not> leased - bytes > sn_currentBytes (ac_snapshot a)" by fastforce
  then show thesis
  proof cases
    case 1
    then show ?thesis
      by (intro refused [of "if bytes > leased then InvalidArgument else InternalError"]) (auto simp: account_shrink_def)
  next
    case 2
    then show ?thesis by (intro same) (auto simp: account_shrink_def credit_back_def)
  next
    case 3
    then have "0 < leased - bytes" by (simp add: word_greater_zero_iff)
    with 3 show ?thesis
      by (intro shrunk [OF _ prod.collapse [symmetric]])
        (auto simp: account_shrink_def credit_back_def Let_def not_less split: prod.splits)
  qed
qed

interpretation shrink: account_change alive "\<lambda>a. fst (account_shrink alive leased bytes a)" "\<lambda>_. True" "\<lambda>_. [leased]"
  "\<lambda>a. shrink_given (account_shrink alive leased bytes a) leased" for alive leased bytes
proof (unfold_locales, goal_cases)
  case (1 a lb lo)
  show ?case
  proof (cases rule: shrink_cases [of alive leased bytes a])
    case (shrunk a' k)
    then show ?thesis
      using promoteOne_facts(4) [OF shrunk(2)] credit_back_ok(1) [OF shrunk(1)] 1 by (simp add: shrink_given_def)
  qed (use 1 credit_back_ok(1) [of bytes leased] in \<open>simp_all add: shrink_given_def\<close>)
next
  case (2 a lb lo)
  show ?case
  proof (cases rule: shrink_cases [of alive leased bytes a])
    case (shrunk a' k)
    have ok: "account_ok (lb + unat leased) (lo + 1) a" using 2(2) by simp
    show ?thesis
      using promoteOne_facts(1,5) [OF shrunk(2)] credit_back_ok(1,2) [OF shrunk(1) ok] shrunk(3)
      by (auto simp: credit_back_def intro: within_plan_trans)
  qed (use 2 credit_back_ok(2) [of bytes leased] in \<open>auto simp: credit_back_def\<close>)
next
  case (3 a)
  show ?case
  proof (cases rule: shrink_cases [of alive leased bytes a])
    case (shrunk a' k)
    then show ?thesis using promoteOne_facts(6) [OF shrunk(2)] 3(2) by simp
  qed (use 3 in \<open>auto simp: credit_back_def elim: no_lost_credit_mono\<close>)
qed

text \<open>Releasing a lease the account has granted never terminates the program.\<close>

lemma release_defined:
  assumes "account_ok (lb + unat leased) (Suc lo) a"
  shows "account_release alive leased a =
     Some (promoteOne alive (a\<lparr>ac_snapshot := (ac_snapshot a)\<lparr>sn_currentBytes := sn_currentBytes (ac_snapshot a) - leased,
       sn_currentObjects := sn_currentObjects (ac_snapshot a) - 1, sn_releases := sn_releases (ac_snapshot a) + 1\<rparr>\<rparr>))"
proof -
  have "sn_currentObjects (ac_snapshot a) \<noteq> 0"
    using assms by (metis account_ok_def counts_ok_def add_Suc nat.distinct(1) unat_0)
  then show ?thesis
    using assms by (simp add: account_release_def account_ok_def counts_ok_def word_less_nat_alt Let_def)
qed

interpretation release: account_change alive "\<lambda>a. fst (the (account_release alive leased a))" "\<lambda>a. account_release alive leased a \<noteq> None" "\<lambda>_. [leased]" "\<lambda>_. []"
  for alive leased
proof -
  define returned where "returned a = a\<lparr>ac_snapshot := (ac_snapshot a)\<lparr>sn_currentBytes := sn_currentBytes (ac_snapshot a) - leased,
       sn_currentObjects := sn_currentObjects (ac_snapshot a) - 1, sn_releases := sn_releases (ac_snapshot a) + 1\<rparr>\<rparr>" for a :: MediaGraphPayloadCreditState
  have released: "account_ok lb lo (returned a) \<and> within_plan (ac_plan a) (ac_snapshot a) (ac_snapshot (returned a)) \<and>
      account_release alive leased a = Some (promoteOne alive (returned a)) \<and> ac_plan (returned a) = ac_plan a"
    if "account_ok (lb + unat leased) (Suc lo) a" for lb lo a
  proof -
    have "unat (sn_currentBytes (ac_snapshot a) - leased) = lb + granted_bytes (ac_waiters a)"
      "unat (sn_currentObjects (ac_snapshot a) - 1) = lo + granted_objects (ac_waiters a)"
      using that by (auto intro!: unat_minus_part simp: account_ok_def counts_ok_def)
    then show ?thesis
      using release_defined [OF that, of alive] that
      by (simp add: returned_def account_ok_def counts_ok_def within_plan_def word_le_nat_alt)
  qed
  show "account_change alive (\<lambda>a. fst (the (account_release alive leased a))) (\<lambda>a. account_release alive leased a \<noteq> None) (\<lambda>_. [leased]) (\<lambda>_. [])"
  proof (unfold_locales, goal_cases)
    case (1 a lb lo)
    then show ?case
      using released [of lb lo a] promoteOne_facts(4) [of alive "returned a"] by (cases "promoteOne alive (returned a)") simp
  next
    case (2 a lb lo)
    obtain b k where b: "promoteOne alive (returned a) = (b, k)" by fastforce
    have r: "account_ok lb lo (returned a)" "within_plan (ac_plan a) (ac_snapshot a) (ac_snapshot (returned a))"
      "account_release alive leased a = Some (promoteOne alive (returned a))" "ac_plan (returned a) = ac_plan a"
      using released [of lb lo a] 2 by simp_all
    show ?case
      using within_plan_trans [OF r(2)] promoteOne_facts(1,5) [OF b] r by (simp add: b)
  next
    case (3 a)
    then show ?case
      using promoteOne_facts(6) [OF prod.collapse [symmetric]] by (auto simp: account_release_def Let_def split: if_splits)
  qed
qed

interpretation cancel: account_change alive "\<lambda>a. fst (account_cancel alive a)" "\<lambda>_. True" "\<lambda>_. []" "\<lambda>_. []" for alive
  by unfold_locales
    (simp_all add: account_cancel_def account_ok_def no_lost_credit_def refund_all_counts [THEN conjunct1] refund_all_counts [THEN conjunct2])

interpretation grow: account_change alive "\<lambda>a. fst (account_grow alive additionalBytes additionalObjects a)" "\<lambda>_. True" "\<lambda>_. []" "\<lambda>_. []"
  for alive additionalBytes additionalObjects
proof (unfold_locales, goal_cases)
  case (1 a lb lo)
  then show ?case
    using promoteAll_facts(2) [of alive _ _ _ lb lo] by (fastforce simp: account_grow_def account_ok_def Let_def split: prod.splits)
next
  case (2 a lb lo)
  then show ?case
    using promoteAll_facts [of alive _ _ _] by (fastforce simp: account_grow_def account_ok_def Let_def split: prod.splits)
next
  case (3 a)
  then show ?case
    using promoteAll_progress by (fastforce simp: account_grow_def Let_def split: prod.splits)
qed

interpretation retract: account_change "\<lambda>_. True" "account_retract additionalBytes additionalObjects"
  "\<lambda>a. additionalBytes \<le> plan_maximumBytes (ac_plan a) \<and> additionalObjects \<le> plan_maximumObjects (ac_plan a)" "\<lambda>_. []" "\<lambda>_. []"
  for additionalBytes additionalObjects
proof (unfold_locales, goal_cases)
  case (3 a)
  then show ?case
    by (elim no_lost_credit_mono) (simp_all add: account_retract_def Let_def word_sub_le)
qed (simp_all add: account_retract_def account_ok_def Let_def)

end
