(* ===== verification/Credit_Ledger.thy ===== *)
theory Credit_Ledger
  imports Credit_Account
begin

text \<open>
  \<^verbatim>\<open>runtime/resource/MediaGraphPayloadCreditLedger\<close>: the ledger of one session with its accounts, the leases,
  branch and retention reservations that hold them, and every operation of its interface. Each public
  call is one step: it works under the locks it takes. Objects are numbers: account \<open>0\<close> is \<^verbatim>\<open>m_state\<close>, and an
  account is alive (\<^verbatim>\<open>weak_ptr::lock\<close>) while the ledger, a reservation or a lease holds it.
\<close>

section \<open>Data\<close>

record MediaGraphPayloadRetentionGrowth =
  rg_sourceAccountProducer :: MediaNodeId
  rg_additionalBytes :: u64
  rg_additionalObjects :: u64

record MediaGraphPayloadCreditLease =
  ls_state :: "nat option"
  ls_bytes :: u64

record MediaGraphPayloadCreditLedger =
  ld_plan :: MediaGraphPayloadCreditPlan
  ld_accounts :: "MediaGraphPayloadCreditState list"
  ld_aggregate :: MediaGraphPayloadCreditSnapshot
  ld_branchAccounts :: "nat list"
  ld_producerAccounts :: "(u32 \<times> nat) list"
  ld_reservations :: "nat list"
  ld_retentions :: "(nat \<times> MediaGraphPayloadRetentionGrowth) list"
  ld_leases :: "MediaGraphPayloadCreditLease list"
  ld_notified :: "nat list"

text \<open>
  What a call meets: which wake handles have an owner, and whether the memory allocations succeed that it
  makes first and those that it makes later.
\<close>

record LedgerEnv =
  env_alive :: "nat \<Rightarrow> bool"
  env_alloc :: bool
  env_allocLater :: bool

definition account_alive :: "MediaGraphPayloadCreditLedger \<Rightarrow> nat \<Rightarrow> bool" where
  "account_alive l i \<longleftrightarrow>
     i = 0 \<or> i \<in> set (ld_reservations l) \<or> i \<in> fst ` set (ld_retentions l) \<or> Some i \<in> ls_state ` set (ld_leases l)"

definition live_accounts :: "MediaGraphPayloadCreditLedger \<Rightarrow> nat list" where
  "live_accounts l = 0 # filter (account_alive l) (ld_branchAccounts l)"

section \<open>The aggregate\<close>

definition adjust :: "u64 \<Rightarrow> u64 \<Rightarrow> u64 \<Rightarrow> u64" where
  "adjust t before v = (if v \<ge> before then t + (v - before) else t - (before - v))"

definition publication ::
  "MediaGraphPayloadCreditSnapshot \<Rightarrow> MediaGraphPayloadCreditSnapshot \<Rightarrow> MediaGraphPayloadCreditSnapshot \<Rightarrow> MediaGraphPayloadCreditSnapshot" where
  "publication before after g =
     (let g = g\<lparr>sn_currentBytes := adjust (sn_currentBytes g) (sn_currentBytes before) (sn_currentBytes after),
                sn_currentObjects := adjust (sn_currentObjects g) (sn_currentObjects before) (sn_currentObjects after),
                sn_reservations := sn_reservations g + (sn_reservations after - sn_reservations before),
                sn_releases := sn_releases g + (sn_releases after - sn_releases before),
                sn_pressureFailures := sn_pressureFailures g + (sn_pressureFailures after - sn_pressureFailures before)\<rparr>
      in g\<lparr>sn_highWaterBytes := max (sn_highWaterBytes g) (sn_currentBytes g),
           sn_highWaterObjects := max (sn_highWaterObjects g) (sn_currentObjects g)\<rparr>)"

text \<open>A critical section on account \<open>i\<close> that leaves it as \<open>a\<close>, with its publication.\<close>

definition put_account :: "nat \<Rightarrow> MediaGraphPayloadCreditState \<Rightarrow> MediaGraphPayloadCreditLedger \<Rightarrow> MediaGraphPayloadCreditLedger" where
  "put_account i a l =
     l\<lparr>ld_accounts := (ld_accounts l)[i := a],
       ld_aggregate := publication (ac_snapshot (ld_accounts l ! i)) (ac_snapshot a) (ld_aggregate l)\<rparr>"

definition ledger_notify :: "nat list \<Rightarrow> MediaGraphPayloadCreditLedger \<Rightarrow> MediaGraphPayloadCreditLedger" where
  "ledger_notify ks l = l\<lparr>ld_notified := ld_notified l @ ks\<rparr>"

definition cancelAccount :: "LedgerEnv \<Rightarrow> nat \<Rightarrow> MediaGraphPayloadCreditLedger \<Rightarrow> MediaGraphPayloadCreditLedger" where
  "cancelAccount env i l =
     (case account_cancel (env_alive env) (ld_accounts l ! i) of (a, ks) \<Rightarrow> ledger_notify ks (put_account i a l))"

section \<open>Creation and lookup\<close>

definition ledger_create :: "LedgerEnv \<Rightarrow> MediaGraphPayloadCreditPlan \<Rightarrow> MediaGraphPayloadCreditLedger Result" where
  "ledger_create env plan =
     (if \<not> isCompleteAndValid plan then failure InvalidArgument
      else if \<not> env_alloc env then failure AllocationFailed
      else success \<lparr>ld_plan = plan, ld_accounts = [account_create plan 0], ld_aggregate = empty_snapshot, ld_branchAccounts = [],
        ld_producerAccounts = [], ld_reservations = [], ld_retentions = [], ld_leases = [], ld_notified = []\<rparr>)"

definition accountForProducer :: "MediaNodeId \<Rightarrow> MediaGraphPayloadCreditLedger \<Rightarrow> nat Result" where
  "accountForProducer producer l =
     (case map_of (ld_producerAccounts l) (node_value producer) of
        Some i \<Rightarrow> (if account_alive l i then success i else failure Cancelled)
      | None \<Rightarrow>
          (if list_ex (\<lambda>strategy. ps_nodeId strategy = producer) (plan_producers (ld_plan l)) then success 0
           else failure InvalidArgument))"

section \<open>Reservations\<close>

text \<open>The loop that checks a demand and sums it.\<close>

fun demand_total :: "u64 \<Rightarrow> u64 list \<Rightarrow> u64 \<Rightarrow> u64 Result" where
  "demand_total unit [] t = success t"
| "demand_total unit (v # vs) t =
     (if v > unit then failure InvalidArgument
      else if v > - 1 - t then failure InvalidArgument
      else demand_total unit vs (t + v))"

text \<open>New leases on account \<open>i\<close>; the caller holds them under the returned numbers.\<close>

definition grant_leases :: "nat \<Rightarrow> u64 list \<Rightarrow> MediaGraphPayloadCreditLedger \<Rightarrow> MediaGraphPayloadCreditLedger" where
  "grant_leases i bytes l = l\<lparr>ld_leases := ld_leases l @ map (\<lambda>b. \<lparr>ls_state = Some i, ls_bytes = b\<rparr>) bytes\<rparr>"

definition new_leases :: "u64 list \<Rightarrow> MediaGraphPayloadCreditLedger \<Rightarrow> nat list" where
  "new_leases bytes l = [length (ld_leases l)..<length (ld_leases l) + length bytes]"

definition tryReserveBatch ::
  "LedgerEnv \<Rightarrow> u64 list \<Rightarrow> MediaGraphPayloadCreditLedger \<Rightarrow> MediaGraphPayloadCreditLedger \<times> nat list Result" where
  "tryReserveBatch env bytes l =
     (if bytes = [] then (l, failure InvalidArgument)
      else
        (case demand_total (plan_maximumUnitBytes (ld_plan l)) bytes 0 of
           Inl e \<Rightarrow> (l, failure e)
         | Inr totalBytes \<Rightarrow>
             (if \<not> env_alloc env then (l, failure AllocationFailed)
              else
                (case account_reserve bytes totalBytes (ld_accounts l ! 0) of
                   (a, Inl e) \<Rightarrow> (put_account 0 a l, failure e)
                 | (a, Inr _) \<Rightarrow> (grant_leases 0 bytes (put_account 0 a l), success (new_leases bytes l))))))"

definition tryReserve :: "LedgerEnv \<Rightarrow> u64 \<Rightarrow> MediaGraphPayloadCreditLedger \<Rightarrow> MediaGraphPayloadCreditLedger \<times> nat Result" where
  "tryReserve env bytes l =
     (case tryReserveBatch env [bytes] l of
        (l, Inl e) \<Rightarrow> (l, failure e)
      | (l, Inr leases) \<Rightarrow> (l, success (hd leases)))"

definition tryReserveOrArm ::
  "LedgerEnv \<Rightarrow> MediaNodeId \<Rightarrow> u64 list \<Rightarrow> nat option \<Rightarrow> MediaGraphPayloadCreditLedger \<Rightarrow> MediaGraphPayloadCreditLedger \<times> nat list Result" where
  "tryReserveOrArm env producer bytes wakeup l =
     (if \<not> nodeId_isValid producer \<or> wakeup = None \<or> bytes = [] then (l, failure InvalidArgument)
      else
        (case accountForProducer producer l of
           Inl e \<Rightarrow> (l, failure e)
         | Inr i \<Rightarrow>
             (case demand_total (plan_maximumUnitBytes (ac_plan (ld_accounts l ! i))) bytes 0 of
                Inl e \<Rightarrow> (l, failure e)
              | Inr totalBytes \<Rightarrow>
                  (if \<not> env_alloc env then (l, failure AllocationFailed)
                   else
                     (case account_reserveOrArm (env_alive env) (env_allocLater env) producer bytes totalBytes (the wakeup) (ld_accounts l ! i) of
                        (a, Inl e) \<Rightarrow> (put_account i a l, failure e)
                      | (a, Inr nextWakeup) \<Rightarrow>
                          (ledger_notify (case nextWakeup of None \<Rightarrow> [] | Some k \<Rightarrow> [k]) (grant_leases i bytes (put_account i a l)),
                           success (new_leases bytes l)))))))"

section \<open>Leases\<close>

definition lease_shrinkTo :: "LedgerEnv \<Rightarrow> nat \<Rightarrow> u64 \<Rightarrow> MediaGraphPayloadCreditLedger \<Rightarrow> MediaGraphPayloadCreditLedger \<times> Status" where
  "lease_shrinkTo env j bytes l =
     (case ls_state (ld_leases l ! j) of
        None \<Rightarrow> (l, failure InvalidArgument)
      | Some i \<Rightarrow>
          (case account_shrink (env_alive env) (ls_bytes (ld_leases l ! j)) bytes (ld_accounts l ! i) of
             (a, Inl e) \<Rightarrow> (put_account i a l, failure e)
           | (a, Inr (left, wakeup)) \<Rightarrow>
               (ledger_notify (case wakeup of None \<Rightarrow> [] | Some k \<Rightarrow> [k])
                  ((put_account i a l)\<lparr>ld_leases := (ld_leases l)[j := (ld_leases l ! j)\<lparr>ls_bytes := left\<rparr>]\<rparr>),
                success ())))"

text \<open>\<open>None\<close> is \<^verbatim>\<open>std::terminate\<close>.\<close>

definition lease_release :: "LedgerEnv \<Rightarrow> nat \<Rightarrow> MediaGraphPayloadCreditLedger \<Rightarrow> MediaGraphPayloadCreditLedger option" where
  "lease_release env j l =
     (case ls_state (ld_leases l ! j) of
        None \<Rightarrow> Some l
      | Some i \<Rightarrow>
          (case account_release (env_alive env) (ls_bytes (ld_leases l ! j)) (ld_accounts l ! i) of
             None \<Rightarrow> None
           | Some (a, wakeup) \<Rightarrow>
               Some (ledger_notify (case wakeup of None \<Rightarrow> [] | Some k \<Rightarrow> [k])
                 ((put_account i a l)\<lparr>ld_leases := (ld_leases l)[j := \<lparr>ls_state = None, ls_bytes = 0\<rparr>]\<rparr>))))"

definition lease_move :: "nat \<Rightarrow> MediaGraphPayloadCreditLedger \<Rightarrow> MediaGraphPayloadCreditLedger" where
  "lease_move j l = l\<lparr>ld_leases := (ld_leases l)[j := \<lparr>ls_state = None, ls_bytes = 0\<rparr>] @ [ld_leases l ! j]\<rparr>"

definition lease_assign :: "LedgerEnv \<Rightarrow> nat \<Rightarrow> nat \<Rightarrow> MediaGraphPayloadCreditLedger \<Rightarrow> MediaGraphPayloadCreditLedger option" where
  "lease_assign env i j l =
     (if i = j then Some l
      else
        (case lease_release env i l of
           None \<Rightarrow> None
         | Some l \<Rightarrow> Some (l\<lparr>ld_leases := (ld_leases l)[i := ld_leases l ! j, j := \<lparr>ls_state = None, ls_bytes = 0\<rparr>]\<rparr>)))"

section \<open>Branches, fixed storage and retention\<close>

text \<open>The sum over admitted budgets; \<open>None\<close> when it does not fit into 64 bits.\<close>

definition accumulate :: "u64 \<times> u64 \<Rightarrow> (u64 \<times> u64) option \<Rightarrow> (u64 \<times> u64) option" where
  "accumulate account acc =
     (case acc of
        None \<Rightarrow> None
      | Some (bytes, objects) \<Rightarrow>
          (if fst account > - 1 - bytes \<or> snd account > - 1 - objects then None
           else Some (bytes + fst account, objects + snd account)))"

definition admitted :: "MediaGraphPayloadCreditLedger \<Rightarrow> nat \<Rightarrow> u64 \<times> u64" where
  "admitted l i = (admittedBytes (ld_accounts l ! i), plan_maximumObjects (ac_plan (ld_accounts l ! i)))"

definition emplace_producers :: "nat \<Rightarrow> MediaGraphPayloadProducerStrategy list \<Rightarrow> (u32 \<times> nat) list \<Rightarrow> (u32 \<times> nat) list" where
  "emplace_producers i ps m =
     fold (\<lambda>p m. let k = node_value (ps_nodeId p) in if map_of m k = None then m @ [(k, i)] else m) ps m"

text \<open>A new account is published with its reservation.\<close>

definition open_account :: "MediaGraphPayloadCreditState \<Rightarrow> MediaGraphPayloadCreditLedger \<Rightarrow> MediaGraphPayloadCreditLedger" where
  "open_account a l =
     l\<lparr>ld_accounts := ld_accounts l @ [a],
       ld_branchAccounts := filter (account_alive l) (ld_branchAccounts l) @ [length (ld_accounts l)],
       ld_reservations := ld_reservations l @ [length (ld_accounts l)]\<rparr>"

definition reserveBranch ::
  "LedgerEnv \<Rightarrow> MediaGraphPayloadCreditPlan \<Rightarrow> MediaGraphPayloadCreditLedger \<Rightarrow> MediaGraphPayloadCreditLedger \<times> nat Result" where
  "reserveBranch env plan l =
     (let n = length (ld_accounts l) in
      if \<not> isCompleteAndValid plan then (l, failure InvalidArgument)
      else if list_ex (\<lambda>p. (case map_of (ld_producerAccounts l) (node_value (ps_nodeId p)) of None \<Rightarrow> False | Some i \<Rightarrow> account_alive l i) \<or>
                list_ex (\<lambda>initial. ps_nodeId initial = ps_nodeId p) (plan_producers (ld_plan l))) (plan_producers plan)
      then (l, failure InvalidArgument)
      else if ac_cancelled (ld_accounts l ! 0) then (l, failure Cancelled)
      else if accumulate (plan_maximumBytes plan, plan_maximumObjects plan)
                (fold accumulate (map (admitted l) (live_accounts l)) (Some (0, 0))) = None
      then (l, failure InvalidArgument)
      else if \<not> env_alloc env then (l, failure AllocationFailed)
      else
        ((open_account (account_create plan 0) l)\<lparr>ld_producerAccounts :=
            emplace_producers n (plan_producers plan)
              (filter (\<lambda>(_, i). account_alive l i) (ld_producerAccounts l))\<rparr>,
         success n))"

definition sameContract :: "MediaGraphPayloadProducerStrategy \<Rightarrow> MediaGraphPayloadProducerStrategy \<Rightarrow> bool" where
  "sameContract left right \<longleftrightarrow>
     (if \<not> same_producer left right \<or> ps_accounting left \<noteq> ps_accounting right \<or>
         ps_maximumReservationBytes left \<noteq> ps_maximumReservationBytes right \<or>
         (ps_frameCredit left = None) \<noteq> (ps_frameCredit right = None)
      then False
      else
        (case (ps_frameCredit left, ps_frameCredit right) of
           (Some c, Some d) \<Rightarrow>
             fc_allocationScope c = fc_allocationScope d \<and> fc_maximumLogicalBytes c = fc_maximumLogicalBytes d \<and>
             fc_maximumObjectsPerAllocation c = fc_maximumObjectsPerAllocation d
         | _ \<Rightarrow> True))"

text \<open>An account was opened, credit was used or a bound was changed: the initial partition comes too late.\<close>

definition partition_late :: "MediaGraphPayloadCreditLedger \<Rightarrow> bool" where
  "partition_late l \<longleftrightarrow>
     (let a = ld_accounts l ! 0; s = ac_snapshot a
      in ld_branchAccounts l \<noteq> [] \<or> ld_producerAccounts l \<noteq> [] \<or> ac_cancelled a \<or>
         plan_maximumObjects (ac_plan a) \<noteq> plan_maximumObjects (ld_plan l) \<or>
         plan_maximumBytes (ac_plan a) \<noteq> plan_maximumBytes (ld_plan l) \<or>
         sn_currentBytes s \<noteq> 0 \<or> sn_currentObjects s \<noteq> 0 \<or> sn_reservations s \<noteq> 0 \<or> ac_waiters a \<noteq> [])"

definition extractInitialBranch ::
  "LedgerEnv \<Rightarrow> MediaGraphPayloadCreditPlan \<Rightarrow> MediaGraphPayloadCreditPlan \<Rightarrow> MediaGraphPayloadCreditLedger \<Rightarrow>
   MediaGraphPayloadCreditLedger \<times> nat Result" where
  "extractInitialBranch env sharedPlan outputPlan l =
     (let n = length (ld_accounts l); a = ld_accounts l ! 0 in
      if \<not> isCompleteAndValid sharedPlan \<or> \<not> isCompleteAndValid outputPlan then (l, failure InvalidArgument)
      else if partition_late l then (l, failure InvalidArgument)
      else if length (plan_producers sharedPlan) + length (plan_producers outputPlan) \<noteq> length (plan_producers (ld_plan l))
      then (l, failure InvalidArgument)
      else if list_ex (\<lambda>shared. list_ex (\<lambda>output. ps_nodeId output = ps_nodeId shared) (plan_producers outputPlan)) (plan_producers sharedPlan)
      then (l, failure InvalidArgument)
      else if list_ex (\<lambda>p. \<not> list_ex (\<lambda>original. sameContract original p) (plan_producers (ld_plan l)))
                (plan_producers sharedPlan @ plan_producers outputPlan)
      then (l, failure InvalidArgument)
      else if plan_maximumBytes outputPlan > - 1 - plan_maximumBytes sharedPlan \<or>
              plan_maximumObjects outputPlan > - 1 - plan_maximumObjects sharedPlan
      then (l, failure InvalidArgument)
      else if \<not> env_alloc env then (l, failure AllocationFailed)
      else
        (l\<lparr>ld_plan := sharedPlan,
           ld_accounts := (ld_accounts l)[0 := a\<lparr>ac_plan := sharedPlan\<rparr>] @ [account_create outputPlan 0],
           ld_branchAccounts := [n],
           ld_producerAccounts := emplace_producers n (plan_producers outputPlan) [],
           ld_reservations := ld_reservations l @ [n]\<rparr>,
         success n))"

datatype FixedStorageAdmission = Additional | InitialPartition

fun fixed_total :: "bool \<Rightarrow> MediaGraphPayloadCreditState list \<Rightarrow> u64 \<Rightarrow> u64 Result" where
  "fixed_total initial [] t = success t"
| "fixed_total initial (a # as) t =
     (let s = ac_snapshot a in
      if initial \<and> (ac_cancelled a \<or> sn_reservations s \<noteq> 0 \<or> sn_currentBytes s \<noteq> 0 \<or> sn_currentObjects s \<noteq> 0 \<or> ac_waiters a \<noteq> [])
      then failure InvalidArgument
      else if admittedBytes a > - 1 - t then failure InvalidArgument
      else fixed_total initial as (t + admittedBytes a))"

definition admitFixedStorage ::
  "LedgerEnv \<Rightarrow> u64 \<Rightarrow> FixedStorageAdmission \<Rightarrow> MediaGraphPayloadCreditLedger \<Rightarrow> MediaGraphPayloadCreditLedger \<times> nat Result" where
  "admitFixedStorage env bytes admission l =
     (let n = length (ld_accounts l); a = ld_accounts l ! 0; initial = (admission = InitialPartition) in
      if bytes = 0 then (l, failure InvalidArgument)
      else if \<not> env_alloc env then (l, failure AllocationFailed)
      else if ac_cancelled a then (l, failure Cancelled)
      else
        (case fixed_total initial (map ((!) (ld_accounts l)) (live_accounts l)) (if initial then 0 else bytes) of
           Inl e \<Rightarrow> (l, failure e)
         | Inr _ \<Rightarrow>
             (if initial \<and> (bytes \<ge> plan_maximumBytes (ac_plan a) \<or>
                 plan_maximumBytes (ac_plan a) \<noteq> plan_maximumBytes (ld_plan l) \<or>
                 plan_maximumObjects (ac_plan a) \<noteq> plan_maximumObjects (ld_plan l))
              then (l, failure InvalidArgument)
              else if \<not> env_allocLater env then (l, failure AllocationFailed)
              else
                (let l' = open_account (account_create no_plan bytes) l
                 in (if initial
                     then l'\<lparr>ld_accounts := (ld_accounts l')[0 := a\<lparr>ac_plan := (ac_plan a)\<lparr>plan_maximumBytes := plan_maximumBytes (ac_plan a) - bytes\<rparr>\<rparr>],
                             ld_plan := (ld_plan l)\<lparr>plan_maximumBytes := plan_maximumBytes (ld_plan l) - bytes\<rparr>\<rparr>
                     else l',
                     success n)))))"

definition reserveFixedStorage :: "LedgerEnv \<Rightarrow> u64 \<Rightarrow> MediaGraphPayloadCreditLedger \<Rightarrow> MediaGraphPayloadCreditLedger \<times> nat Result" where
  "reserveFixedStorage env bytes = admitFixedStorage env bytes Additional"

definition extractInitialFixedStorage :: "LedgerEnv \<Rightarrow> u64 \<Rightarrow> MediaGraphPayloadCreditLedger \<Rightarrow> MediaGraphPayloadCreditLedger \<times> nat Result" where
  "extractInitialFixedStorage env bytes = admitFixedStorage env bytes InitialPartition"

definition branch_destroy :: "LedgerEnv \<Rightarrow> nat \<Rightarrow> MediaGraphPayloadCreditLedger \<Rightarrow> MediaGraphPayloadCreditLedger" where
  "branch_destroy env i l = (let l = cancelAccount env i l in l\<lparr>ld_reservations := remove1 i (ld_reservations l)\<rparr>)"

definition reserveRetentionGrowth ::
  "LedgerEnv \<Rightarrow> MediaGraphPayloadRetentionGrowth \<Rightarrow> MediaGraphPayloadCreditLedger \<Rightarrow> MediaGraphPayloadCreditLedger \<times> nat Result" where
  "reserveRetentionGrowth env growth l =
     (if \<not> nodeId_isValid (rg_sourceAccountProducer growth) \<or> rg_additionalObjects growth = 0 then (l, failure InvalidArgument)
      else
        (case accountForProducer (rg_sourceAccountProducer growth) l of
           Inl e \<Rightarrow> (l, failure e)
         | Inr i \<Rightarrow>
             (if fold accumulate (map (admitted l) (live_accounts l)) (Some (rg_additionalBytes growth, rg_additionalObjects growth)) = None
              then (l, failure InvalidArgument)
              else if \<not> env_alloc env then (l, failure AllocationFailed)
              else
                (case account_grow (env_alive env) (rg_additionalBytes growth) (rg_additionalObjects growth) (ld_accounts l ! i) of
                   (a, Inl e) \<Rightarrow> (put_account i a l, failure e)
                 | (a, Inr ks) \<Rightarrow>
                     (ledger_notify ks ((put_account i a l)\<lparr>ld_retentions := ld_retentions l @ [(i, growth)]\<rparr>),
                      success (length (ld_retentions l)))))))"

definition retention_destroy :: "nat \<Rightarrow> MediaGraphPayloadCreditLedger \<Rightarrow> MediaGraphPayloadCreditLedger" where
  "retention_destroy j l =
     (case ld_retentions l ! j of
        (i, growth) \<Rightarrow>
          l\<lparr>ld_accounts := (ld_accounts l)[i := account_retract (rg_additionalBytes growth) (rg_additionalObjects growth) (ld_accounts l ! i)],
            ld_retentions := take j (ld_retentions l) @ drop (Suc j) (ld_retentions l)\<rparr>)"

definition cancelBlockedWaiters :: "LedgerEnv \<Rightarrow> MediaGraphPayloadCreditLedger \<Rightarrow> MediaGraphPayloadCreditLedger" where
  "cancelBlockedWaiters env l = fold (cancelAccount env) (live_accounts l) l"

definition ledger_snapshot :: "MediaGraphPayloadCreditLedger \<Rightarrow> MediaGraphPayloadCreditSnapshot" where
  "ledger_snapshot l =
     (ld_aggregate l)\<lparr>sn_admittedMaximumBytes := (\<Sum>i\<leftarrow>live_accounts l. admittedBytes (ld_accounts l ! i)),
                     sn_admittedMaximumObjects := (\<Sum>i\<leftarrow>live_accounts l. plan_maximumObjects (ac_plan (ld_accounts l ! i)))\<rparr>"

section \<open>Reachable ledgers\<close>

datatype LedgerOp =
    Op_tryReserve u64 | Op_tryReserveBatch "u64 list" | Op_tryReserveOrArm MediaNodeId "u64 list" "nat option"
  | Op_shrinkTo nat u64 | Op_release nat | Op_move nat | Op_assign nat nat
  | Op_reserveBranch MediaGraphPayloadCreditPlan | Op_extractInitialBranch MediaGraphPayloadCreditPlan MediaGraphPayloadCreditPlan
  | Op_reserveFixedStorage u64 | Op_extractInitialFixedStorage u64 | Op_destroyBranch nat
  | Op_reserveRetentionGrowth MediaGraphPayloadRetentionGrowth | Op_destroyRetention nat | Op_cancelBlockedWaiters

text \<open>The objects named exist, and a demand has fewer elements than memory has bytes.\<close>

fun op_legal :: "MediaGraphPayloadCreditLedger \<Rightarrow> LedgerOp \<Rightarrow> bool" where
  "op_legal l (Op_tryReserveBatch bytes) = (int (length bytes) < 2 ^ 64)"
| "op_legal l (Op_tryReserveOrArm _ bytes _) = (int (length bytes) < 2 ^ 64)"
| "op_legal l (Op_shrinkTo j _) = (j < length (ld_leases l))"
| "op_legal l (Op_release j) = (j < length (ld_leases l))"
| "op_legal l (Op_move j) = (j < length (ld_leases l))"
| "op_legal l (Op_assign i j) = (i < length (ld_leases l) \<and> j < length (ld_leases l))"
| "op_legal l (Op_destroyBranch i) = (i \<in> set (ld_reservations l))"
| "op_legal l (Op_destroyRetention j) = (j < length (ld_retentions l))"
| "op_legal l _ = True"

text \<open>One call; \<open>None\<close> is \<^verbatim>\<open>std::terminate\<close>.\<close>

fun ledger_step :: "LedgerEnv \<Rightarrow> LedgerOp \<Rightarrow> MediaGraphPayloadCreditLedger \<Rightarrow> MediaGraphPayloadCreditLedger option" where
  "ledger_step env (Op_tryReserve bytes) l = Some (fst (tryReserve env bytes l))"
| "ledger_step env (Op_tryReserveBatch bytes) l = Some (fst (tryReserveBatch env bytes l))"
| "ledger_step env (Op_tryReserveOrArm producer bytes wakeup) l = Some (fst (tryReserveOrArm env producer bytes wakeup l))"
| "ledger_step env (Op_shrinkTo j bytes) l = Some (fst (lease_shrinkTo env j bytes l))"
| "ledger_step env (Op_release j) l = lease_release env j l"
| "ledger_step env (Op_move j) l = Some (lease_move j l)"
| "ledger_step env (Op_assign i j) l = lease_assign env i j l"
| "ledger_step env (Op_reserveBranch plan) l = Some (fst (reserveBranch env plan l))"
| "ledger_step env (Op_extractInitialBranch sharedPlan outputPlan) l = Some (fst (extractInitialBranch env sharedPlan outputPlan l))"
| "ledger_step env (Op_reserveFixedStorage bytes) l = Some (fst (reserveFixedStorage env bytes l))"
| "ledger_step env (Op_extractInitialFixedStorage bytes) l = Some (fst (extractInitialFixedStorage env bytes l))"
| "ledger_step env (Op_destroyBranch i) l = Some (branch_destroy env i l)"
| "ledger_step env (Op_reserveRetentionGrowth growth) l = Some (fst (reserveRetentionGrowth env growth l))"
| "ledger_step env (Op_destroyRetention j) l = Some (retention_destroy j l)"
| "ledger_step env Op_cancelBlockedWaiters l = Some (cancelBlockedWaiters env l)"

text \<open>The ledgers that calls reach in environments of a kind.\<close>

inductive ledger_reachable :: "(LedgerEnv \<Rightarrow> bool) \<Rightarrow> MediaGraphPayloadCreditLedger \<Rightarrow> bool" for E where
  created: "ledger_create env plan = success l \<Longrightarrow> ledger_reachable E l"
| stepped: "ledger_reachable E l \<Longrightarrow> E env \<Longrightarrow> op_legal l op \<Longrightarrow> ledger_step env op l = Some l' \<Longrightarrow> ledger_reachable E l'"

section \<open>The books\<close>

definition lease_bytes :: "nat \<Rightarrow> MediaGraphPayloadCreditLease list \<Rightarrow> nat" where
  "lease_bytes i ls = (\<Sum>x\<leftarrow>ls. if ls_state x = Some i then unat (ls_bytes x) else 0)"

definition lease_objects :: "nat \<Rightarrow> MediaGraphPayloadCreditLease list \<Rightarrow> nat" where
  "lease_objects i ls = (\<Sum>x\<leftarrow>ls. if ls_state x = Some i then 1 else 0)"

definition aggregate_ok :: "MediaGraphPayloadCreditState list \<Rightarrow> MediaGraphPayloadCreditSnapshot \<Rightarrow> bool" where
  "aggregate_ok as g \<longleftrightarrow>
     sn_currentBytes g = (\<Sum>a\<leftarrow>as. sn_currentBytes (ac_snapshot a)) \<and>
     sn_currentObjects g = (\<Sum>a\<leftarrow>as. sn_currentObjects (ac_snapshot a)) \<and>
     sn_reservations g = (\<Sum>a\<leftarrow>as. sn_reservations (ac_snapshot a)) \<and>
     sn_releases g = (\<Sum>a\<leftarrow>as. sn_releases (ac_snapshot a)) \<and>
     sn_pressureFailures g = (\<Sum>a\<leftarrow>as. sn_pressureFailures (ac_snapshot a))"

definition books_ok :: "MediaGraphPayloadCreditLedger \<Rightarrow> bool" where
  "books_ok l \<longleftrightarrow>
     (\<forall>i<length (ld_accounts l). account_ok (lease_bytes i (ld_leases l)) (lease_objects i (ld_leases l)) (ld_accounts l ! i)) \<and>
     aggregate_ok (ld_accounts l) (ld_aggregate l)"

text \<open>What a call does to the accounts: the books, the bounds, and the credit of waiters that are alive.\<close>

definition all_no_lost :: "MediaGraphPayloadCreditLedger \<Rightarrow> bool" where
  "all_no_lost l \<longleftrightarrow> list_all no_lost_credit (ld_accounts l)"

definition sound_change :: "(nat \<Rightarrow> bool) \<Rightarrow> MediaGraphPayloadCreditLedger \<Rightarrow> MediaGraphPayloadCreditLedger \<Rightarrow> bool" where
  "sound_change alive l l' \<longleftrightarrow>
     books_ok l' \<and> length (ld_accounts l) \<le> length (ld_accounts l') \<and>
     (\<forall>i<length (ld_accounts l).
        within_plan (ac_plan (ld_accounts l' ! i)) (ac_snapshot (ld_accounts l ! i)) (ac_snapshot (ld_accounts l' ! i))) \<and>
     ((\<forall>k. alive k) \<and> all_no_lost l \<longrightarrow> all_no_lost l')"

text \<open>The leases on account \<open>i\<close> change by handing back \<open>ts\<close> and handing out \<open>gs\<close>.\<close>

definition lease_exchange ::
  "nat \<Rightarrow> u64 list \<Rightarrow> u64 list \<Rightarrow> MediaGraphPayloadCreditLease list \<Rightarrow> MediaGraphPayloadCreditLease list \<Rightarrow> bool" where
  "lease_exchange i ts gs ls ls' \<longleftrightarrow>
     (\<exists>lb lo. lease_bytes i ls = lb + (\<Sum>b\<leftarrow>ts. unat b) \<and> lease_objects i ls = lo + length ts \<and>
        lease_bytes i ls' = lb + (\<Sum>b\<leftarrow>gs. unat b) \<and> lease_objects i ls' = lo + length gs) \<and>
     (\<forall>j. j \<noteq> i \<longrightarrow> lease_bytes j ls' = lease_bytes j ls \<and> lease_objects j ls' = lease_objects j ls)"

lemma adjust_eq: "adjust t b v = t + (v - b)"
  by (simp add: adjust_def)

lemma publication_simps [simp]:
  "sn_currentBytes (publication b a g) = sn_currentBytes g + (sn_currentBytes a - sn_currentBytes b)"
  "sn_currentObjects (publication b a g) = sn_currentObjects g + (sn_currentObjects a - sn_currentObjects b)"
  "sn_reservations (publication b a g) = sn_reservations g + (sn_reservations a - sn_reservations b)"
  "sn_releases (publication b a g) = sn_releases g + (sn_releases a - sn_releases b)"
  "sn_pressureFailures (publication b a g) = sn_pressureFailures g + (sn_pressureFailures a - sn_pressureFailures b)"
  by (simp_all add: publication_def Let_def adjust_eq)

lemma sum_put:
  fixes f :: "'a \<Rightarrow> u64"
  assumes "i < length as"
  shows "(\<Sum>x\<leftarrow>as[i := a]. f x) = (\<Sum>x\<leftarrow>as. f x) + (f a - f (as ! i))"
  using assms by (induction as arbitrary: i) (auto simp: less_Suc_eq_0_disj algebra_simps)

lemma aggregate_put:
  assumes "aggregate_ok as g" and "i < length as"
  shows "aggregate_ok (as[i := a]) (publication (ac_snapshot (as ! i)) (ac_snapshot a) g)"
  using assms by (simp add: aggregate_ok_def sum_put)

context account_change begin

lemma account_step_sound:
  assumes "books_ok l" and "i < length (ld_accounts l)" and "pre (ld_accounts l ! i)"
    and "lease_exchange i (taken (ld_accounts l ! i)) (given (ld_accounts l ! i)) (ld_leases l) (ld_leases l')"
    and "ld_accounts l' = (ld_accounts l)[i := step (ld_accounts l ! i)]"
    and "ld_aggregate l' = publication (ac_snapshot (ld_accounts l ! i)) (ac_snapshot (step (ld_accounts l ! i))) (ld_aggregate l)"
  shows "sound_change alive l l'"
proof -
  let ?a = "ld_accounts l ! i"
  obtain lb lo where ls: "lease_bytes i (ld_leases l) = lb + (\<Sum>b\<leftarrow>taken ?a. unat b)" "lease_objects i (ld_leases l) = lo + length (taken ?a)"
    "lease_bytes i (ld_leases l') = lb + (\<Sum>b\<leftarrow>given ?a. unat b)" "lease_objects i (ld_leases l') = lo + length (given ?a)"
    and others: "\<forall>j. j \<noteq> i \<longrightarrow> lease_bytes j (ld_leases l') = lease_bytes j (ld_leases l) \<and> lease_objects j (ld_leases l') = lease_objects j (ld_leases l)"
    using assms(4) by (auto simp: lease_exchange_def)
  have ok: "account_ok (lb + (\<Sum>b\<leftarrow>taken ?a. unat b)) (lo + length (taken ?a)) ?a"
    using assms(1,2) ls(1,2) by (auto simp: books_ok_def)
  have "books_ok l'"
    using assms(1,2,5,6) counts [OF assms(3) ok] ls(3,4) others aggregate_put [of _ _ i]
    by (auto simp: books_ok_def nth_list_update)
  moreover have "within_plan (ac_plan (ld_accounts l' ! j)) (ac_snapshot (ld_accounts l ! j)) (ac_snapshot (ld_accounts l' ! j))"
    if "j < length (ld_accounts l)" for j
    using bounded [OF assms(3) ok] assms(2,5) that by (cases "j = i") auto
  moreover have "all_no_lost l'" if "\<forall>k. alive k" "all_no_lost l"
    using progress [OF assms(3) that(1)] that(2) assms(2,5) by (auto simp: all_no_lost_def list_all_length nth_list_update)
  ultimately show ?thesis using assms(5) by (simp add: sound_change_def)
qed

end

end
