(* ===== verification/Credit_Books.thy ===== *)
theory Credit_Books
  imports Credit_Ledger
begin

text \<open>
  The payload credit ledger keeps its books: in every reachable state the counters of an account are what
  its leases and granted waiters hold, the session aggregate is the sum over the accounts, releases never
  terminate the program, use grows only up to the admitted bounds, and no credit is lost.
\<close>

section \<open>Leases\<close>

lemma sum_list_put_nat:
  fixes f :: "'a \<Rightarrow> nat"
  assumes "j < length xs"
  shows "(\<Sum>x\<leftarrow>xs[j := y]. f x) + f (xs ! j) = (\<Sum>x\<leftarrow>xs. f x) + f y"
  using assms by (induction xs arbitrary: j) (auto simp: less_Suc_eq_0_disj)

lemma lease_append [simp]:
  "lease_bytes i (ls @ ls') = lease_bytes i ls + lease_bytes i ls'"
  "lease_objects i (ls @ ls') = lease_objects i ls + lease_objects i ls'"
  by (simp_all add: lease_bytes_def lease_objects_def)

lemma lease_single:
  "lease_bytes i [y] = (if ls_state y = Some i then unat (ls_bytes y) else 0)"
  "lease_objects i [y] = (if ls_state y = Some i then 1 else 0)"
  by (simp_all add: lease_bytes_def lease_objects_def)

lemma lease_put:
  assumes "j < length ls"
  shows "lease_bytes i (ls[j := y]) + lease_bytes i [ls ! j] = lease_bytes i ls + lease_bytes i [y]"
    and "lease_objects i (ls[j := y]) + lease_objects i [ls ! j] = lease_objects i ls + lease_objects i [y]"
  using sum_list_put_nat [OF assms, of "\<lambda>x. if ls_state x = Some i then unat (ls_bytes x) else 0" y]
    sum_list_put_nat [OF assms, of "\<lambda>x. if ls_state x = Some i then 1 else 0" y]
  unfolding lease_single unfolding lease_bytes_def lease_objects_def by blast+

lemma lease_granted:
  "lease_bytes i (map (\<lambda>b. \<lparr>ls_state = Some k, ls_bytes = b\<rparr>) bytes) = (if i = k then \<Sum>b\<leftarrow>bytes. unat b else 0)"
  "lease_objects i (map (\<lambda>b. \<lparr>ls_state = Some k, ls_bytes = b\<rparr>) bytes) = (if i = k then length bytes else 0)"
  by (simp_all add: lease_bytes_def lease_objects_def comp_def sum_list_triv)

lemma exchange_none [simp]: "lease_exchange i [] [] ls ls"
  by (simp add: lease_exchange_def)

lemma exchange_grant: "lease_exchange i [] bytes ls (ls @ map (\<lambda>b. \<lparr>ls_state = Some i, ls_bytes = b\<rparr>) bytes)"
  by (simp add: lease_exchange_def lease_granted)

lemma exchange_put:
  assumes "j < length ls" and "ls_state (ls ! j) = Some i" and "ls_state y = Some i \<or> ls_state y = None"
  shows "lease_exchange i [ls_bytes (ls ! j)] (if ls_state y = Some i then [ls_bytes y] else []) ls (ls[j := y])"
proof -
  let ?b = "unat (ls_bytes (ls ! j))"
  have b: "lease_bytes i (ls[j := y]) + ?b = lease_bytes i ls + lease_bytes i [y]"
    and o: "lease_objects i (ls[j := y]) + 1 = lease_objects i ls + lease_objects i [y]"
    using lease_put [OF assms(1), of i y] assms(2) by (simp_all add: lease_single)
  have "?b \<le> lease_bytes i ls" "1 \<le> lease_objects i ls"
    using assms(1,2) by (auto simp: lease_bytes_def lease_objects_def intro!: member_le_sum_list image_eqI [of _ _ "ls ! j"])
  then have "lease_bytes i ls = (lease_bytes i ls - ?b) + ?b \<and> lease_objects i ls = (lease_objects i ls - 1) + 1 \<and>
      lease_bytes i (ls[j := y]) = (lease_bytes i ls - ?b) + lease_bytes i [y] \<and>
      lease_objects i (ls[j := y]) = (lease_objects i ls - 1) + lease_objects i [y]"
    using b o by linarith
  moreover have "lease_bytes k (ls[j := y]) = lease_bytes k ls \<and> lease_objects k (ls[j := y]) = lease_objects k ls" if "k \<noteq> i" for k
    using lease_put [OF assms(1), of k y] assms(2,3) that by (auto simp: lease_single)
  ultimately show ?thesis
    using assms(3) unfolding lease_exchange_def
    by (intro conjI allI impI exI [of _ "lease_bytes i ls - ?b"] exI [of _ "lease_objects i ls - 1"]) (auto simp: lease_single)
qed

section \<open>References and growth\<close>

definition growth_bytes :: "nat \<Rightarrow> (nat \<times> MediaGraphPayloadRetentionGrowth) list \<Rightarrow> nat" where
  "growth_bytes i rs = (\<Sum>r\<leftarrow>rs. if fst r = i then unat (rg_additionalBytes (snd r)) else 0)"

definition growth_objects :: "nat \<Rightarrow> (nat \<times> MediaGraphPayloadRetentionGrowth) list \<Rightarrow> nat" where
  "growth_objects i rs = (\<Sum>r\<leftarrow>rs. if fst r = i then unat (rg_additionalObjects (snd r)) else 0)"

text \<open>Every number names an account; a live account of a producer is a branch; producers have no storage account.\<close>

definition refs_ok :: "MediaGraphPayloadCreditLedger \<Rightarrow> bool" where
  "refs_ok l \<longleftrightarrow>
     (let n = length (ld_accounts l) in
      0 < n \<and> (\<forall>i. account_alive l i \<longrightarrow> i < n) \<and> (\<forall>i\<in>set (ld_branchAccounts l). i < n) \<and>
      (\<forall>r\<in>set (ld_retentions l). rg_additionalObjects (snd r) \<noteq> 0) \<and>
      ac_fixedStorageBytes (ld_accounts l ! 0) = 0 \<and>
      (\<forall>i\<in>snd ` set (ld_producerAccounts l).
         i < n \<and> ac_fixedStorageBytes (ld_accounts l ! i) = 0 \<and> (account_alive l i \<longrightarrow> i \<in> set (ld_branchAccounts l))))"

text \<open>The bounds of an account hold the retention growth that was added to them.\<close>

definition growth_ok :: "MediaGraphPayloadCreditLedger \<Rightarrow> bool" where
  "growth_ok l \<longleftrightarrow>
     (\<forall>i<length (ld_accounts l).
        growth_bytes i (ld_retentions l) \<le> unat (plan_maximumBytes (ac_plan (ld_accounts l ! i))) \<and>
        growth_objects i (ld_retentions l) \<le> unat (plan_maximumObjects (ac_plan (ld_accounts l ! i)))) \<and>
     unat (plan_maximumBytes (ac_plan (ld_accounts l ! 0))) = unat (plan_maximumBytes (ld_plan l)) + growth_bytes 0 (ld_retentions l) \<and>
     unat (plan_maximumObjects (ac_plan (ld_accounts l ! 0))) = unat (plan_maximumObjects (ld_plan l)) + growth_objects 0 (ld_retentions l)"

definition ledger_ok :: "MediaGraphPayloadCreditLedger \<Rightarrow> bool" where
  "ledger_ok l \<longleftrightarrow> books_ok l \<and> refs_ok l \<and> growth_ok l"

text \<open>A change of the account records only, with leases on accounts that are alive.\<close>

definition same_frame :: "MediaGraphPayloadCreditLedger \<Rightarrow> MediaGraphPayloadCreditLedger \<Rightarrow> bool" where
  "same_frame l l' \<longleftrightarrow>
     ld_plan l' = ld_plan l \<and> ld_branchAccounts l' = ld_branchAccounts l \<and> ld_producerAccounts l' = ld_producerAccounts l \<and>
     set (ld_reservations l') \<subseteq> set (ld_reservations l) \<and> ld_retentions l' = ld_retentions l \<and>
     (\<forall>i. Some i \<in> ls_state ` set (ld_leases l') \<longrightarrow> account_alive l i) \<and>
     map ac_plan (ld_accounts l') = map ac_plan (ld_accounts l) \<and>
     map ac_fixedStorageBytes (ld_accounts l') = map ac_fixedStorageBytes (ld_accounts l)"

lemma same_frame_alive: "same_frame l l' \<Longrightarrow> account_alive l' i \<Longrightarrow> account_alive l i"
  by (auto simp: same_frame_def account_alive_def [of l'] account_alive_def [of l])

lemma map_eq_nth: "map f xs = map f ys \<Longrightarrow> i < length ys \<Longrightarrow> f (xs ! i) = f (ys ! i)"
  by (metis length_map nth_map)

lemma same_frame_ok:
  assumes "same_frame l l'" and "refs_ok l" and "growth_ok l"
  shows "refs_ok l' \<and> growth_ok l'"
proof -
  have n: "length (ld_accounts l') = length (ld_accounts l)"
    using assms(1) by (metis same_frame_def length_map)
  have f: "ac_plan (ld_accounts l' ! i) = ac_plan (ld_accounts l ! i) \<and>
      ac_fixedStorageBytes (ld_accounts l' ! i) = ac_fixedStorageBytes (ld_accounts l ! i)" if "i < length (ld_accounts l)" for i
    using assms(1) that by (auto simp: same_frame_def dest: map_eq_nth)
  have "0 < length (ld_accounts l)" using assms(2) by (simp add: refs_ok_def Let_def)
  then show ?thesis
    using assms n f [of 0] f same_frame_alive [OF assms(1)]
    by (fastforce simp: refs_ok_def growth_ok_def same_frame_def Let_def)
qed

lemma account_frames:
  "ac_plan (fst (account_reserve bytes t a)) = ac_plan a \<and> ac_fixedStorageBytes (fst (account_reserve bytes t a)) = ac_fixedStorageBytes a"
  "ac_plan (fst (account_reserveOrArm alive queued producer bytes t wakeup a)) = ac_plan a \<and>
   ac_fixedStorageBytes (fst (account_reserveOrArm alive queued producer bytes t wakeup a)) = ac_fixedStorageBytes a"
  "ac_plan (fst (account_shrink alive leased left a)) = ac_plan a \<and>
   ac_fixedStorageBytes (fst (account_shrink alive leased left a)) = ac_fixedStorageBytes a"
  "account_release alive leased a = Some r \<Longrightarrow> ac_plan (fst r) = ac_plan a \<and> ac_fixedStorageBytes (fst r) = ac_fixedStorageBytes a"
  "ac_plan (fst (account_cancel alive a)) = ac_plan a \<and> ac_fixedStorageBytes (fst (account_cancel alive a)) = ac_fixedStorageBytes a"
proof -
  show "ac_plan (fst (account_reserveOrArm alive queued producer bytes t wakeup a)) = ac_plan a \<and>
   ac_fixedStorageBytes (fst (account_reserveOrArm alive queued producer bytes t wakeup a)) = ac_fixedStorageBytes a"
    by (cases rule: arm_cases [of alive queued producer bytes t wakeup a]) (use promoteOne_facts(1,2) in fastforce)+
  show "ac_plan (fst (account_shrink alive leased left a)) = ac_plan a \<and>
   ac_fixedStorageBytes (fst (account_shrink alive leased left a)) = ac_fixedStorageBytes a"
    by (cases rule: shrink_cases [of alive leased left a]) (use promoteOne_facts(1,2) in \<open>fastforce simp: credit_back_def\<close>)+
  show "account_release alive leased a = Some r \<Longrightarrow> ac_plan (fst r) = ac_plan a \<and> ac_fixedStorageBytes (fst r) = ac_fixedStorageBytes a"
    using promoteOne_facts(1,2) [OF prod.collapse [symmetric]] by (auto simp: account_release_def Let_def split: if_splits)
qed (simp_all add: account_reserve_alt account_cancel_def Let_def)

section \<open>The operations\<close>

definition keeps :: "LedgerEnv \<Rightarrow> MediaGraphPayloadCreditLedger \<Rightarrow> MediaGraphPayloadCreditLedger \<Rightarrow> bool" where
  "keeps env l l' \<longleftrightarrow> sound_change (env_alive env) l l' \<and> refs_ok l' \<and> growth_ok l'"

lemma keeps_refl: "ledger_ok l \<Longrightarrow> keeps env l l"
  by (simp add: keeps_def ledger_ok_def sound_change_def)

lemma keeps_frame: "ledger_ok l \<Longrightarrow> sound_change (env_alive env) l l' \<Longrightarrow> same_frame l l' \<Longrightarrow> keeps env l l'"
  using same_frame_ok by (auto simp: keeps_def ledger_ok_def)

lemma map_put_same: "f a = f (xs ! i) \<Longrightarrow> map f (xs[i := a]) = map f xs"
  by (metis list_update_id map_update)

lemma lease_alive: "Some k \<in> ls_state ` set (ld_leases l) \<Longrightarrow> account_alive l k"
  by (simp add: account_alive_def)

lemma lease_index: "refs_ok l \<Longrightarrow> j < length (ld_leases l) \<Longrightarrow> ls_state (ld_leases l ! j) = Some i \<Longrightarrow> account_alive l i \<and> i < length (ld_accounts l)"
  by (metis lease_alive image_eqI nth_mem refs_ok_def)

lemma set_put_leases:
  assumes "Some k \<in> ls_state ` set ((ld_leases l)[j := y])" and "ls_state y = None \<or> ls_state y = ls_state (ld_leases l ! j)"
    and "j < length (ld_leases l)"
  shows "account_alive l k"
proof -
  have "Some k \<in> ls_state ` set (ld_leases l)"
    using assms set_update_subset_insert [of "ld_leases l" j y] by (fastforce simp: image_iff dest!: subsetD)
  then show ?thesis by (rule lease_alive)
qed

lemmas put_simps = put_account_def ledger_notify_def grant_leases_def

lemma demand_total_ok: "demand_total unit bytes t = success t' \<Longrightarrow> unat t' = unat t + (\<Sum>b\<leftarrow>bytes. unat b)"
proof (induction unit bytes t rule: demand_total.induct)
  case (2 unit v vs t)
  then have v: "v \<le> - 1 - t" and r: "demand_total unit vs (t + v) = success t'" by (auto split: if_splits)
  have "unat v + unat t \<le> unat (- 1 :: u64)"
    using v le_minus_nat [of t "- 1" v] by simp
  then have "unat (t + v) = unat t + unat v" by (intro unat_plus_le [of _ _ "- 1"]) simp
  with 2 v r show ?case by (auto split: if_splits)
qed simp

lemma demand_total_demand_ok: "demand_total unit bytes 0 = success t \<Longrightarrow> length bytes < 2 ^ 64 \<Longrightarrow> demand_ok bytes t"
  using demand_total_ok by (fastforce simp: demand_ok_def)

lemma put_keeps:
  assumes "ledger_ok l"
    and "ac_plan a = ac_plan (ld_accounts l ! i) \<and> ac_fixedStorageBytes a = ac_fixedStorageBytes (ld_accounts l ! i)"
    and "\<And>l'. ld_accounts l' = (ld_accounts l)[i := a] \<Longrightarrow>
      ld_aggregate l' = publication (ac_snapshot (ld_accounts l ! i)) (ac_snapshot a) (ld_aggregate l) \<Longrightarrow>
      ld_leases l' = ls \<Longrightarrow> sound_change alive l l'"
    and "alive = env_alive env \<or> alive = (\<lambda>_. True)"
    and "\<And>k. Some k \<in> ls_state ` set ls \<Longrightarrow> account_alive l k"
  shows "keeps env l (ledger_notify ks ((put_account i a l)\<lparr>ld_leases := ls\<rparr>))" (is "keeps env l ?l")
proof (rule keeps_frame [OF assms(1)])
  have "sound_change alive l ?l" by (rule assms(3)) (simp_all add: put_simps)
  then show "sound_change (env_alive env) l ?l" using assms(4) by (auto simp: sound_change_def)
  show "same_frame l ?l" using assms(2,5) by (simp add: same_frame_def put_simps map_put_same)
qed

lemma put_plain: "put_account i a l = ledger_notify [] ((put_account i a l)\<lparr>ld_leases := ld_leases l\<rparr>)"
  by (simp add: put_simps)

lemma grant_alt: "grant_leases i bytes (put_account i a l) =
    ledger_notify [] ((put_account i a l)\<lparr>ld_leases := ld_leases l @ map (\<lambda>b. \<lparr>ls_state = Some i, ls_bytes = b\<rparr>) bytes\<rparr>)"
  by (simp add: put_simps)

lemma reserve_keeps:
  assumes ok: "ledger_ok l" and d: "demand_ok bytes t"
  shows "account_reserve bytes t (ld_accounts l ! 0) = (a, Inl e) \<Longrightarrow> keeps env l (put_account 0 a l)"
    and "account_reserve bytes t (ld_accounts l ! 0) = (a, Inr u) \<Longrightarrow> keeps env l (grant_leases 0 bytes (put_account 0 a l))"
proof -
  note f = account_frames(1) [of bytes t "ld_accounts l ! 0"]
  have r: "books_ok l" "0 < length (ld_accounts l)" using ok by (simp_all add: ledger_ok_def refs_ok_def Let_def)
  note sound = reserve.account_step_sound [OF r d]
  show "keeps env l (put_account 0 a l)" if e: "account_reserve bytes t (ld_accounts l ! 0) = (a, Inl e)"
    using sound f e by (subst put_plain, intro put_keeps [OF ok, where alive = "\<lambda>_. True"]) (simp_all add: lease_alive)
  show "keeps env l (grant_leases 0 bytes (put_account 0 a l))" if e: "account_reserve bytes t (ld_accounts l ! 0) = (a, Inr u)"
    using sound f e
    by (subst grant_alt, intro put_keeps [OF ok, where alive = "\<lambda>_. True"]) (auto simp: exchange_grant lease_alive, auto simp: account_alive_def)
qed

lemma tryReserveBatch_keeps:
  assumes ok: "ledger_ok l" and len: "length bytes < 2 ^ 64"
  shows "keeps env l (fst (tryReserveBatch env bytes l))"
  using keeps_refl [OF ok] reserve_keeps [OF ok demand_total_demand_ok [OF _ len]]
  by (auto simp: tryReserveBatch_def split: sum.split prod.split)

lemma accountForProducer_alive:
  assumes "refs_ok l" and "accountForProducer producer l = success i"
  shows "account_alive l i \<and> i < length (ld_accounts l) \<and> ac_fixedStorageBytes (ld_accounts l ! i) = 0 \<and> i \<in> set (live_accounts l)"
  using assms by (auto simp: accountForProducer_def refs_ok_def Let_def live_accounts_def account_alive_def [of l 0]
    split: option.splits if_splits dest!: map_of_SomeD)

lemma arm_keeps:
  assumes ok: "ledger_ok l" and d: "demand_ok bytes t" and i: "account_alive l i" "i < length (ld_accounts l)"
  shows "account_reserveOrArm (env_alive env) queued producer bytes t wakeup (ld_accounts l ! i) = (a, Inl e) \<Longrightarrow> keeps env l (put_account i a l)"
    and "account_reserveOrArm (env_alive env) queued producer bytes t wakeup (ld_accounts l ! i) = (a, Inr k) \<Longrightarrow>
      keeps env l (ledger_notify ks (grant_leases i bytes (put_account i a l)))"
proof -
  note f = account_frames(2) [of "env_alive env" queued producer bytes t wakeup "ld_accounts l ! i"]
  have b: "books_ok l" using ok by (simp add: ledger_ok_def)
  note sound = arm.account_step_sound [OF b i(2) d, of "env_alive env" queued producer wakeup]
  show "keeps env l (put_account i a l)"
    if e: "account_reserveOrArm (env_alive env) queued producer bytes t wakeup (ld_accounts l ! i) = (a, Inl e)"
    using sound f e by (subst put_plain, intro put_keeps [OF ok, where alive = "env_alive env"]) (simp_all add: lease_alive arm_given_def)
  have n: "ledger_notify ks (grant_leases i bytes (put_account i a l)) =
      ledger_notify ks ((put_account i a l)\<lparr>ld_leases := ld_leases l @ map (\<lambda>b. \<lparr>ls_state = Some i, ls_bytes = b\<rparr>) bytes\<rparr>)"
    by (simp add: put_simps)
  show "keeps env l (ledger_notify ks (grant_leases i bytes (put_account i a l)))"
    if e: "account_reserveOrArm (env_alive env) queued producer bytes t wakeup (ld_accounts l ! i) = (a, Inr k)"
    unfolding n using sound f e i(1)
    by (intro put_keeps [OF ok, where alive = "env_alive env"]) (auto simp: exchange_grant lease_alive arm_given_def)
qed

lemma tryReserveOrArm_keeps:
  assumes ok: "ledger_ok l" and len: "length bytes < 2 ^ 64"
  shows "keeps env l (fst (tryReserveOrArm env producer bytes wakeup l))"
proof -
  have r: "refs_ok l" using ok by (simp add: ledger_ok_def)
  show ?thesis
    using keeps_refl [OF ok] arm_keeps [OF ok demand_total_demand_ok [OF _ len]] accountForProducer_alive [OF r]
    by (auto simp: tryReserveOrArm_def split: sum.split prod.split)
qed

lemma shrinkTo_keeps:
  assumes ok: "ledger_ok l" and j: "j < length (ld_leases l)"
  shows "keeps env l (fst (lease_shrinkTo env j bytes l))"
proof (cases "ls_state (ld_leases l ! j)")
  case None
  then show ?thesis using keeps_refl [OF ok] by (simp add: lease_shrinkTo_def)
next
  case (Some i)
  let ?x = "ld_leases l ! j"
  have b: "books_ok l" "refs_ok l" using ok by (simp_all add: ledger_ok_def)
  have i: "account_alive l i" "i < length (ld_accounts l)" using lease_index [OF b(2) j Some] by simp_all
  note f = account_frames(3) [of "env_alive env" "ls_bytes ?x" bytes "ld_accounts l ! i"]
  note sound = shrink.account_step_sound [OF b(1) i(2) TrueI, where alive = "env_alive env" and leased = "ls_bytes ?x" and bytes = bytes]
  have same: "lease_exchange i [ls_bytes ?x] [ls_bytes ?x] (ld_leases l) (ld_leases l)"
    using exchange_put [OF j Some, of ?x] Some by simp
  have put: "lease_exchange i [ls_bytes ?x] [left] (ld_leases l) ((ld_leases l)[j := ?x\<lparr>ls_bytes := left\<rparr>])" for left
    using exchange_put [OF j Some, of "?x\<lparr>ls_bytes := left\<rparr>"] Some by simp
  have alive: "account_alive l k" if "Some k \<in> ls_state ` set ((ld_leases l)[j := ?x\<lparr>ls_bytes := left\<rparr>])" for k left
    using set_put_leases [OF that _ j] by simp
  show ?thesis
  proof (cases "account_shrink (env_alive env) (ls_bytes ?x) bytes (ld_accounts l ! i)")
    case r: (Pair a r)
    show ?thesis
    proof (cases r)
      case (Inl e)
      have "keeps env l (put_account i a l)"
        using sound f r Inl same
        by (subst put_plain, intro put_keeps [OF ok, where alive = "env_alive env"]) (simp_all add: lease_alive shrink_given_def)
      then show ?thesis by (simp add: lease_shrinkTo_def Some r Inl)
    next
      case (Inr q)
      obtain left k where q: "q = (left, k)" by fastforce
      have "keeps env l (ledger_notify ks ((put_account i a l)\<lparr>ld_leases := (ld_leases l)[j := ?x\<lparr>ls_bytes := left\<rparr>]\<rparr>))" for ks
        using sound f r Inr q put [of left] alive
        by (intro put_keeps [OF ok, where alive = "env_alive env"]) (simp_all add: shrink_given_def)
      then show ?thesis by (simp add: lease_shrinkTo_def Some r Inr q)
    qed
  qed
qed

text \<open>Releasing a lease of the ledger never terminates the program.\<close>

lemma release_keeps:
  assumes ok: "ledger_ok l" and j: "j < length (ld_leases l)"
  shows "\<exists>l'. lease_release env j l = Some l' \<and> keeps env l l' \<and>
     ld_leases l' = (if ls_state (ld_leases l ! j) = None then ld_leases l else (ld_leases l)[j := \<lparr>ls_state = None, ls_bytes = 0\<rparr>])"
proof (cases "ls_state (ld_leases l ! j)")
  case None
  then show ?thesis using keeps_refl [OF ok] by (simp add: lease_release_def)
next
  case (Some i)
  let ?x = "ld_leases l ! j" and ?y = "\<lparr>ls_state = None, ls_bytes = 0 :: u64\<rparr>"
  have b: "books_ok l" "refs_ok l" using ok by (simp_all add: ledger_ok_def)
  have i: "account_alive l i" "i < length (ld_accounts l)" using lease_index [OF b(2) j Some] by simp_all
  have put: "lease_exchange i [ls_bytes ?x] [] (ld_leases l) ((ld_leases l)[j := ?y])"
    using exchange_put [OF j Some, of ?y] by simp
  have "account_ok (lease_bytes i (ld_leases l)) (lease_objects i (ld_leases l)) (ld_accounts l ! i)"
    using b(1) i(2) by (simp add: books_ok_def)
  then obtain lb lo where "account_ok (lb + unat (ls_bytes ?x)) (Suc lo) (ld_accounts l ! i)"
    using put by (auto simp: lease_exchange_def)
  then obtain a k where r: "account_release (env_alive env) (ls_bytes ?x) (ld_accounts l ! i) = Some (a, k)"
    using release_defined [of lb _ lo _ "env_alive env"] by (metis prod.collapse)
  have "keeps env l (ledger_notify ks ((put_account i a l)\<lparr>ld_leases := (ld_leases l)[j := ?y]\<rparr>))" for ks
    using release.account_step_sound [OF b(1) i(2), where alive = "env_alive env" and leased = "ls_bytes ?x"] r put account_frames(4) [OF r] set_put_leases [OF _ _ j]
    by (intro put_keeps [OF ok, where alive = "env_alive env"]) simp_all
  then show ?thesis by (simp add: lease_release_def Some r put_simps)
qed

lemma keeps_ok: "keeps env l l' \<Longrightarrow> ledger_ok l'"
  by (simp add: keeps_def ledger_ok_def sound_change_def)

lemma keeps_trans:
  assumes "keeps env l l'" and "keeps env l' l''" and plans: "map ac_plan (ld_accounts l'') = map ac_plan (ld_accounts l')"
  shows "keeps env l l''"
proof -
  have "ac_plan (ld_accounts l'' ! i) = ac_plan (ld_accounts l' ! i)" if "i < length (ld_accounts l')" for i
    using map_eq_nth [OF plans that] .
  then show ?thesis
    using assms(1,2) by (auto simp: keeps_def sound_change_def intro: within_plan_trans)
qed

lemma rearrange_keeps:
  assumes ok: "ledger_ok l" and "\<forall>i. lease_bytes i ls = lease_bytes i (ld_leases l) \<and> lease_objects i ls = lease_objects i (ld_leases l)"
    and "\<And>k. Some k \<in> ls_state ` set ls \<Longrightarrow> account_alive l k"
  shows "keeps env l (l\<lparr>ld_leases := ls\<rparr>)"
  by (rule keeps_frame [OF ok]) (use assms in \<open>simp_all add: ledger_ok_def sound_change_def books_ok_def all_no_lost_def same_frame_def\<close>)

lemma move_keeps:
  assumes ok: "ledger_ok l" and j: "j < length (ld_leases l)"
  shows "keeps env l (lease_move j l)"
  unfolding lease_move_def
proof (rule rearrange_keeps [OF ok], goal_cases)
  case 1
  show ?case using lease_put [OF j, where y = "\<lparr>ls_state = None, ls_bytes = 0\<rparr>"] by (simp add: lease_single)
next
  case (2 k)
  then consider "Some k \<in> ls_state ` set ((ld_leases l)[j := \<lparr>ls_state = None, ls_bytes = 0\<rparr>])" | "Some k = ls_state (ld_leases l ! j)"
    by auto
  then show ?case
  proof cases
    case 1
    then show ?thesis by (rule set_put_leases [OF _ _ j]) simp
  next
    case 2
    then show ?thesis using nth_mem [OF j] by (intro lease_alive) (metis imageI)
  qed
qed

lemma assign_keeps:
  assumes ok: "ledger_ok l" and i: "i < length (ld_leases l)" and j: "j < length (ld_leases l)"
  shows "\<exists>l'. lease_assign env i j l = Some l' \<and> keeps env l l'"
proof (cases "i = j")
  case True
  then show ?thesis using keeps_refl [OF ok] by (simp add: lease_assign_def)
next
  case False
  let ?none = "\<lparr>ls_state = None, ls_bytes = 0 :: u64\<rparr>"
  obtain m where m: "lease_release env i l = Some m" "keeps env l m"
    and ls: "ld_leases m = (if ls_state (ld_leases l ! i) = None then ld_leases l else (ld_leases l)[i := ?none])"
    using release_keeps [OF ok i] by blast
  have len: "length (ld_leases m) = length (ld_leases l)" and dead: "ls_state (ld_leases m ! i) = None"
    using ls i by (auto split: if_splits)
  let ?ls = "(ld_leases m)[i := ld_leases m ! j, j := ?none]"
  have "keeps env m (m\<lparr>ld_leases := ?ls\<rparr>)"
  proof (rule rearrange_keeps [OF keeps_ok [OF m(2)]], goal_cases)
    case 1
    show ?case
      using lease_put [of i "ld_leases m" _ "ld_leases m ! j"] lease_put [of j "(ld_leases m)[i := ld_leases m ! j]" _ ?none]
        i j len False dead by (simp add: lease_single)
  next
    case (2 k)
    then have "Some k \<in> ls_state ` set (ld_leases m)"
      using set_update_subset_insert [of "(ld_leases m)[i := ld_leases m ! j]" j ?none]
        set_update_subset_insert [of "ld_leases m" i "ld_leases m ! j"] j len nth_mem [of j "ld_leases m"] by fastforce
    then show ?case by (rule lease_alive)
  qed
  then show ?thesis using m keeps_trans [OF m(2)] False by (simp add: lease_assign_def)
qed

lemma cancelAccount_keeps:
  assumes ok: "ledger_ok l" and i: "i < length (ld_accounts l)"
  shows "keeps env l (cancelAccount env i l)" and "map ac_plan (ld_accounts (cancelAccount env i l)) = map ac_plan (ld_accounts l)"
proof -
  obtain a ks where r: "account_cancel (env_alive env) (ld_accounts l ! i) = (a, ks)" by fastforce
  have b: "books_ok l" using ok by (simp add: ledger_ok_def)
  note f = account_frames(5) [of "env_alive env" "ld_accounts l ! i"]
  have "keeps env l (ledger_notify ks ((put_account i a l)\<lparr>ld_leases := ld_leases l\<rparr>))"
    using cancel.account_step_sound [OF b i TrueI, where alive = "env_alive env"] r f
    by (intro put_keeps [OF ok, where alive = "env_alive env"]) (simp_all add: lease_alive)
  then show "keeps env l (cancelAccount env i l)" by (simp add: cancelAccount_def r put_simps)
  show "map ac_plan (ld_accounts (cancelAccount env i l)) = map ac_plan (ld_accounts l)"
    using f r by (simp add: cancelAccount_def put_simps map_put_same)
qed

lemma fold_cancel_keeps:
  assumes "ledger_ok l" and "\<forall>i\<in>set is. i < length (ld_accounts l)"
  shows "keeps env l (fold (cancelAccount env) is l) \<and> map ac_plan (ld_accounts (fold (cancelAccount env) is l)) = map ac_plan (ld_accounts l)"
  using assms
proof (induction "is" arbitrary: l)
  case Nil
  then show ?case by (simp add: keeps_refl)
next
  case (Cons i "is")
  note c = cancelAccount_keeps [OF Cons.prems(1), of i env]
  have "length (ld_accounts (cancelAccount env i l)) = length (ld_accounts l)"
    using Cons.prems c(2) by (metis length_map list.set_intros(1))
  then show ?case
    using Cons c keeps_ok by (auto intro: keeps_trans)
qed

lemma cancelBlockedWaiters_keeps: "ledger_ok l \<Longrightarrow> keeps env l (cancelBlockedWaiters env l)"
  unfolding cancelBlockedWaiters_def
  by (rule fold_cancel_keeps [THEN conjunct1]) (auto simp: ledger_ok_def refs_ok_def live_accounts_def Let_def)

lemma branch_destroy_keeps:
  assumes ok: "ledger_ok l" and i: "i \<in> set (ld_reservations l)"
  shows "keeps env l (branch_destroy env i l)"
proof -
  let ?m = "cancelAccount env i l"
  have "i < length (ld_accounts l)" using ok i by (auto simp: ledger_ok_def refs_ok_def account_alive_def Let_def)
  note m = cancelAccount_keeps [OF ok this]
  have "keeps env ?m (?m\<lparr>ld_reservations := remove1 i (ld_reservations ?m)\<rparr>)"
    by (rule keeps_frame [OF keeps_ok [OF m(1)]])
      (use keeps_ok [OF m(1)] lease_alive [of _ ?m] set_remove1_subset [of i "ld_reservations ?m"] in
        \<open>auto simp: ledger_ok_def sound_change_def books_ok_def all_no_lost_def same_frame_def\<close>)
  then show ?thesis using keeps_trans [OF m(1)] by (simp add: branch_destroy_def Let_def)
qed

section \<open>New accounts\<close>

lemma refs_bounds:
  assumes "refs_ok l"
  shows "lease_bytes (length (ld_accounts l)) (ld_leases l) = 0" "lease_objects (length (ld_accounts l)) (ld_leases l) = 0"
    and "growth_bytes (length (ld_accounts l)) (ld_retentions l) = 0" "growth_objects (length (ld_accounts l)) (ld_retentions l) = 0"
proof -
  have "\<not> account_alive l (length (ld_accounts l))" using assms by (auto simp: refs_ok_def Let_def)
  then have "\<forall>x\<in>set (ld_leases l). ls_state x \<noteq> Some (length (ld_accounts l))"
    and "\<forall>r\<in>set (ld_retentions l). fst r \<noteq> length (ld_accounts l)"
    unfolding account_alive_def by (metis imageI)+
  then show "lease_bytes (length (ld_accounts l)) (ld_leases l) = 0" "lease_objects (length (ld_accounts l)) (ld_leases l) = 0"
    "growth_bytes (length (ld_accounts l)) (ld_retentions l) = 0" "growth_objects (length (ld_accounts l)) (ld_retentions l) = 0"
    by (simp_all add: lease_bytes_def lease_objects_def growth_bytes_def growth_objects_def)
qed

lemma sum_map_eq: "map f xs = map f ys \<Longrightarrow> (\<Sum>x\<leftarrow>xs. g (f x)) = (\<Sum>y\<leftarrow>ys. g (f y))"
  by (metis (no_types, lifting) map_map o_def map_eq_conv)

lemma open_sound:
  assumes ok: "ledger_ok l" and as: "ld_accounts l' = as @ [account_create p f]"
    and snap: "map ac_snapshot as = map ac_snapshot (ld_accounts l)" and wait: "map ac_waiters as = map ac_waiters (ld_accounts l)"
    and same: "\<forall>i<length (ld_accounts l). as ! i = ld_accounts l ! i \<or> ac_waiters (ld_accounts l ! i) = []"
    and rest: "ld_aggregate l' = ld_aggregate l" "ld_leases l' = ld_leases l"
  shows "sound_change alive l l'"
proof -
  let ?n = "length (ld_accounts l)"
  have n: "length as = ?n" using snap by (metis length_map)
  have eq: "ac_snapshot (as ! i) = ac_snapshot (ld_accounts l ! i) \<and> ac_waiters (as ! i) = ac_waiters (ld_accounts l ! i)" if "i < ?n" for i
    using map_eq_nth [OF snap that] map_eq_nth [OF wait that] by simp
  have b: "books_ok l" "refs_ok l" using ok by (simp_all add: ledger_ok_def)
  have "aggregate_ok (ld_accounts l') (ld_aggregate l')"
    using b(1) by (simp add: books_ok_def aggregate_ok_def as rest sum_map_eq [OF snap] account_create_def empty_snapshot_def)
  moreover have "account_ok (lease_bytes i (ld_leases l')) (lease_objects i (ld_leases l')) (ld_accounts l' ! i)" if "i < Suc ?n" for i
    using b(1) eq refs_bounds(1,2) [OF b(2)] that n
    by (cases "i = ?n") (auto simp: books_ok_def account_ok_def counts_ok_def as rest nth_append account_create_def empty_snapshot_def)
  moreover have "all_no_lost l'" if "all_no_lost l"
  proof -
    have "no_lost_credit (ld_accounts l' ! i)" if i: "i < Suc ?n" for i
    proof (cases "i = ?n")
      case True
      then show ?thesis by (simp add: as nth_append n account_create_def no_lost_credit_def)
    next
      case False
      then have "i < ?n" using i by simp
      then show ?thesis
        using \<open>all_no_lost l\<close> same [rule_format, of i] eq [of i] n
        by (auto simp: all_no_lost_def list_all_length as nth_append) (simp add: no_lost_credit_def)
    qed
    then show ?thesis by (simp add: all_no_lost_def list_all_length as n)
  qed
  ultimately show ?thesis
    using eq n by (simp add: sound_change_def books_ok_def as nth_append)
qed

lemma open_refs:
  assumes ok: "refs_ok l" and as: "ld_accounts l' = as @ [account_create p f]"
    and fixed: "map ac_fixedStorageBytes as = map ac_fixedStorageBytes (ld_accounts l)"
    and rest: "ld_leases l' = ld_leases l" "ld_retentions l' = ld_retentions l" "ld_reservations l' = ld_reservations l @ [length (ld_accounts l)]"
    and branch: "set (ld_branchAccounts l') = insert (length (ld_accounts l)) {i \<in> set (ld_branchAccounts l). account_alive l i}"
    and prod: "snd ` set (ld_producerAccounts l') \<subseteq> snd ` set (ld_producerAccounts l) \<union> (if f = 0 then {length (ld_accounts l)} else {})"
  shows "refs_ok l'"
proof -
  let ?n = "length (ld_accounts l)"
  have n: "length as = ?n" using fixed by (metis length_map)
  have eq: "ac_fixedStorageBytes (as ! i) = ac_fixedStorageBytes (ld_accounts l ! i)" if "i < ?n" for i
    using map_eq_nth [OF fixed that] .
  have alive: "account_alive l' i \<longleftrightarrow> account_alive l i \<or> i = ?n" for i
    by (auto simp: account_alive_def rest)
  have "0 < ?n" using ok by (simp add: refs_ok_def Let_def)
  moreover have "i < Suc ?n \<and> ac_fixedStorageBytes (ld_accounts l' ! i) = 0 \<and> (account_alive l' i \<longrightarrow> i \<in> set (ld_branchAccounts l'))"
    if "i \<in> snd ` set (ld_producerAccounts l')" for i
    using subsetD [OF prod that] ok eq [of i] branch alive [of i] n
    by (auto simp: refs_ok_def Let_def as nth_append account_create_def split: if_splits)
  ultimately show ?thesis
    using ok branch alive eq [of 0] n by (auto simp: refs_ok_def Let_def as rest nth_append less_Suc_eq)
qed

lemma open_growth:
  assumes ok: "refs_ok l" "growth_ok l" and as: "ld_accounts l' = as @ [account_create p f]"
    and plans: "map ac_plan as = map ac_plan (ld_accounts l)" and rest: "ld_retentions l' = ld_retentions l" "ld_plan l' = ld_plan l"
  shows "growth_ok l'"
proof -
  let ?n = "length (ld_accounts l)"
  have n: "length as = ?n" using plans by (metis length_map)
  have "0 < ?n" using ok(1) by (auto simp: refs_ok_def Let_def)
  moreover have "ac_plan (as ! i) = ac_plan (ld_accounts l ! i)" if "i < ?n" for i
    using map_eq_nth [OF plans that] .
  ultimately show ?thesis
    using ok(2) refs_bounds(3,4) [OF ok(1)] n by (auto simp: growth_ok_def as rest nth_append less_Suc_eq)
qed

lemma no_growth:
  assumes "refs_ok l" "growth_ok l" and "plan_maximumObjects (ac_plan (ld_accounts l ! 0)) = plan_maximumObjects (ld_plan l)"
  shows "growth_bytes 0 (ld_retentions l) = 0" "growth_objects 0 (ld_retentions l) = 0"
proof -
  show o: "growth_objects 0 (ld_retentions l) = 0" using assms(2,3) by (simp add: growth_ok_def)
  have "fst r \<noteq> 0" if r: "r \<in> set (ld_retentions l)" for r
  proof
    assume "fst r = 0"
    have "(if fst r = 0 then unat (rg_additionalObjects (snd r)) else 0) \<le> growth_objects 0 (ld_retentions l)"
      unfolding growth_objects_def using r by (intro member_le_sum_list) (force | simp)+
    then have "unat (rg_additionalObjects (snd r)) = 0" using o \<open>fst r = 0\<close> by simp
    then have "rg_additionalObjects (snd r) = 0" by (simp only: unsigned_eq_0_iff)
    then show False using r assms(1) by (auto simp: refs_ok_def Let_def)
  qed
  then show "growth_bytes 0 (ld_retentions l) = 0" by (fastforce simp: growth_bytes_def)
qed

lemma snd_emplace: "snd ` set (emplace_producers i ps m) \<subseteq> insert i (snd ` set m)"
proof (induction ps arbitrary: m)
  case (Cons p ps)
  show ?case
    using Cons.IH [of m] Cons.IH [of "m @ [(node_value (ps_nodeId p), i)]"]
    by (auto simp: emplace_producers_def Let_def split: if_splits)
qed (auto simp: emplace_producers_def)

lemma reserveBranch_keeps:
  assumes ok: "ledger_ok l"
  shows "keeps env l (fst (reserveBranch env plan l))"
proof (cases "fst (reserveBranch env plan l) = l")
  case True
  then show ?thesis using keeps_refl [OF ok] by simp
next
  case False
  let ?ps = "filter (\<lambda>(_, i). account_alive l i) (ld_producerAccounts l)" and ?n = "length (ld_accounts l)"
  let ?l = "(open_account (account_create plan 0) l)\<lparr>ld_producerAccounts := emplace_producers ?n (plan_producers plan) ?ps\<rparr>"
  have l': "fst (reserveBranch env plan l) = ?l"
    using False by (simp add: reserveBranch_def Let_def split: if_splits)
  have b: "refs_ok l" "growth_ok l" using ok by (simp_all add: ledger_ok_def)
  have "sound_change (env_alive env) l ?l" by (rule open_sound [OF ok]) (auto simp: open_account_def)
  moreover have "refs_ok ?l"
    by (rule open_refs [OF b(1)]) (use snd_emplace [of ?n "plan_producers plan" ?ps] in \<open>auto simp: open_account_def\<close>)
  moreover have "growth_ok ?l" by (rule open_growth [OF b]) (simp_all add: open_account_def)
  ultimately show ?thesis by (simp add: l' keeps_def)
qed

lemma extractInitialBranch_keeps:
  assumes ok: "ledger_ok l"
  shows "keeps env l (fst (extractInitialBranch env sharedPlan outputPlan l))"
proof (cases "fst (extractInitialBranch env sharedPlan outputPlan l) = l")
  case True
  then show ?thesis using keeps_refl [OF ok] by simp
next
  case False
  let ?n = "length (ld_accounts l)" and ?a = "ld_accounts l ! 0"
  let ?as = "(ld_accounts l)[0 := ?a\<lparr>ac_plan := sharedPlan\<rparr>]"
  let ?l = "l\<lparr>ld_plan := sharedPlan, ld_accounts := ?as @ [account_create outputPlan 0], ld_branchAccounts := [?n],
    ld_producerAccounts := emplace_producers ?n (plan_producers outputPlan) [], ld_reservations := ld_reservations l @ [?n]\<rparr>"
  have "\<not> partition_late l" using False by (auto simp: extractInitialBranch_def Let_def)
  then have c: "ld_branchAccounts l = []" "ld_producerAccounts l = []" "ac_waiters ?a = []"
    "plan_maximumObjects (ac_plan ?a) = plan_maximumObjects (ld_plan l)" by (simp_all add: partition_late_def Let_def)
  have l': "fst (extractInitialBranch env sharedPlan outputPlan l) = ?l"
    using False unfolding extractInitialBranch_def Let_def by (auto split: if_split_asm)
  have b: "refs_ok l" "growth_ok l" "0 < ?n" using ok by (simp_all add: ledger_ok_def refs_ok_def Let_def)
  have "sound_change (env_alive env) l ?l"
    by (rule open_sound [OF ok, where as = ?as]) (use c(3) b(3) in \<open>auto simp: map_put_same nth_list_update\<close>)
  moreover have "refs_ok ?l"
    by (rule open_refs [OF b(1), where as = ?as]) (use c(1,2) snd_emplace [of ?n "plan_producers outputPlan" "[]"] in \<open>auto simp: map_put_same\<close>)
  moreover have "growth_ok ?l"
    using b(2,3) no_growth [OF b(1,2) c(4)] refs_bounds(3,4) [OF b(1)]
    by (auto simp: growth_ok_def nth_append nth_list_update less_Suc_eq)
  ultimately show ?thesis by (simp add: l' keeps_def)
qed

lemma admitFixedStorage_keeps:
  assumes ok: "ledger_ok l"
  shows "keeps env l (fst (admitFixedStorage env bytes admission l))"
proof (cases "fst (admitFixedStorage env bytes admission l) = l")
  case True
  then show ?thesis using keeps_refl [OF ok] by simp
next
  case False
  let ?n = "length (ld_accounts l)" and ?a = "ld_accounts l ! 0" and ?new = "account_create no_plan bytes"
  let ?m = "open_account ?new l"
  let ?as = "(ld_accounts l)[0 := ?a\<lparr>ac_plan := (ac_plan ?a)\<lparr>plan_maximumBytes := plan_maximumBytes (ac_plan ?a) - bytes\<rparr>\<rparr>]"
  let ?l = "?m\<lparr>ld_accounts := ?as @ [?new], ld_plan := (ld_plan l)\<lparr>plan_maximumBytes := plan_maximumBytes (ld_plan l) - bytes\<rparr>\<rparr>"
  have b: "refs_ok l" "growth_ok l" "0 < ?n" using ok by (simp_all add: ledger_ok_def refs_ok_def Let_def)
  have refs: "refs_ok l'" if "ld_accounts l' = as @ [?new]" "map ac_fixedStorageBytes as = map ac_fixedStorageBytes (ld_accounts l)"
    "ld_leases l' = ld_leases l" "ld_retentions l' = ld_retentions l" "ld_reservations l' = ld_reservations l @ [?n]"
    "ld_branchAccounts l' = ld_branchAccounts ?m" "ld_producerAccounts l' = ld_producerAccounts l" for l' as
    by (rule open_refs [OF b(1) that(1-5)]) (use that in \<open>auto simp: open_account_def\<close>)
  show ?thesis
  proof (cases admission)
    case Additional
    have l': "fst (admitFixedStorage env bytes admission l) = ?m"
      using False by (auto simp: admitFixedStorage_def Let_def Additional split: if_split_asm sum.splits)
    have "sound_change (env_alive env) l ?m" by (rule open_sound [OF ok]) (auto simp: open_account_def)
    moreover have "growth_ok ?m" by (rule open_growth [OF b(1,2)]) (simp_all add: open_account_def)
    moreover have "refs_ok ?m" by (rule refs [of _ "ld_accounts l"]) (simp_all add: open_account_def)
    ultimately show ?thesis by (simp add: l' keeps_def)
  next
    case InitialPartition
    obtain t where t: "fixed_total True (map ((!) (ld_accounts l)) (live_accounts l)) 0 = Inr t"
      and c: "\<not> bytes \<ge> plan_maximumBytes (ac_plan ?a)" "plan_maximumBytes (ac_plan ?a) = plan_maximumBytes (ld_plan l)"
        "plan_maximumObjects (ac_plan ?a) = plan_maximumObjects (ld_plan l)"
      and l': "fst (admitFixedStorage env bytes admission l) = ?l"
      using False b(3) by (auto simp: admitFixedStorage_def Let_def InitialPartition open_account_def list_update_append1 split: if_split_asm sum.splits)
    have w: "ac_waiters ?a = []" using t by (auto simp: live_accounts_def Let_def split: if_split_asm)
    have "sound_change (env_alive env) l ?l"
      by (rule open_sound [OF ok, where as = ?as]) (use w b(3) in \<open>auto simp: map_put_same nth_list_update open_account_def\<close>)
    moreover have "refs_ok ?l" by (rule refs [of _ ?as]) (simp_all add: open_account_def map_put_same)
    moreover have "growth_ok ?l"
      using b(2,3) no_growth [OF b(1,2) c(3)] refs_bounds(3,4) [OF b(1)] c
      by (auto simp: growth_ok_def nth_append nth_list_update less_Suc_eq open_account_def)
    ultimately show ?thesis by (simp add: l' keeps_def)
  qed
qed

section \<open>Retention\<close>

lemma accumulate_none [simp]: "fold accumulate xs None = None"
  by (induction xs) (simp_all add: accumulate_def)

lemma accumulate_Some:
  "accumulate y (Some (b, o')) = (if fst y > - 1 - b \<or> snd y > - 1 - o' then None else Some (b + fst y, o' + snd y))"
  by (simp add: accumulate_def)

lemma accumulate_bounds:
  assumes "fold accumulate xs (Some (b, o')) \<noteq> None" and "x \<in> set xs"
  shows "unat b + unat (fst x) < 2 ^ 64 \<and> unat o' + unat (snd x) < 2 ^ 64"
  using assms
proof (induction xs arbitrary: b o')
  case (Cons y ys)
  have fits: "u \<le> - 1 - v \<longleftrightarrow> unat u + unat v < 2 ^ 64" for u v :: u64
    using le_minus_nat [of v "- 1" u] by (simp add: unsigned_minus_1_eq_mask mask_eq_exp_minus_1 less_eq_Suc_le)
  have y: "\<not> fst y > - 1 - b" "\<not> snd y > - 1 - o'" and r: "fold accumulate ys (Some (b + fst y, o' + snd y)) \<noteq> None"
    using Cons.prems(1) by (auto simp: accumulate_Some split: if_split_asm)
  then have s: "unat b + unat (fst y) < 2 ^ 64" "unat o' + unat (snd y) < 2 ^ 64"
    using fits by (simp_all add: not_less add.commute)
  then have "unat (b + fst y) = unat b + unat (fst y)" "unat (o' + snd y) = unat o' + unat (snd y)"
    by (simp_all add: unat_word_ariths)
  then show ?case using Cons.IH [OF r] Cons.prems(2) s by fastforce
qed simp

lemma growth_append [simp]:
  "growth_bytes i (rs @ rs') = growth_bytes i rs + growth_bytes i rs'"
  "growth_objects i (rs @ rs') = growth_objects i rs + growth_objects i rs'"
  by (simp_all add: growth_bytes_def growth_objects_def)

lemma growth_single:
  "growth_bytes i [(j, g)] = (if j = i then unat (rg_additionalBytes g) else 0)"
  "growth_objects i [(j, g)] = (if j = i then unat (rg_additionalObjects g) else 0)"
  by (simp_all add: growth_bytes_def growth_objects_def)

lemma account_grow_facts:
  assumes "account_grow alive b o' a = (a', Inr ks)"
  shows "plan_maximumBytes (ac_plan a') = plan_maximumBytes (ac_plan a) + b"
    "plan_maximumObjects (ac_plan a') = plan_maximumObjects (ac_plan a) + o'"
    "ac_fixedStorageBytes a' = ac_fixedStorageBytes a"
  using assms promoteAll_facts(1) by (fastforce simp: account_grow_def Let_def split: if_split_asm prod.splits)+

lemma grow_keeps:
  assumes ok: "ledger_ok l" and i: "account_alive l i" "i < length (ld_accounts l)" "ac_fixedStorageBytes (ld_accounts l ! i) = 0"
    and fits: "fold accumulate (map (admitted l) (live_accounts l)) (Some (rg_additionalBytes growth, rg_additionalObjects growth)) \<noteq> None"
    and live: "i \<in> set (live_accounts l)" and some: "rg_additionalObjects growth \<noteq> 0"
    and g: "account_grow (env_alive env) (rg_additionalBytes growth) (rg_additionalObjects growth) (ld_accounts l ! i) = (a, Inr ks)"
  shows "keeps env l (ledger_notify ks ((put_account i a l)\<lparr>ld_retentions := ld_retentions l @ [(i, growth)]\<rparr>))" (is "keeps env l ?l")
proof -
  let ?b = "rg_additionalBytes growth" and ?o = "rg_additionalObjects growth" and ?p = "ac_plan (ld_accounts l ! i)"
  have b: "books_ok l" "refs_ok l" "growth_ok l" using ok by (simp_all add: ledger_ok_def)
  have "unat ?b + unat (plan_maximumBytes ?p) < 2 ^ 64 \<and> unat ?o + unat (plan_maximumObjects ?p) < 2 ^ 64"
    using accumulate_bounds [OF fits, of "admitted l i"] imageI [OF live, of "admitted l"] i(3)
    by (simp add: admitted_def [of l i] admittedBytes_def del: image_eqI)
  then have max: "unat (plan_maximumBytes (ac_plan a)) = unat (plan_maximumBytes ?p) + unat ?b"
    "unat (plan_maximumObjects (ac_plan a)) = unat (plan_maximumObjects ?p) + unat ?o"
    by (simp_all add: account_grow_facts [OF g] unat_word_ariths)
  have "sound_change (env_alive env) l ?l"
    using grow.account_step_sound [OF b(1) i(2) TrueI, where alive = "env_alive env" and additionalBytes = ?b and additionalObjects = ?o and l' = ?l] g
    by (simp add: put_simps)
  moreover have alive: "account_alive ?l k \<longleftrightarrow> account_alive l k" for k
    using i(1) by (auto simp: account_alive_def put_simps)
  have "refs_ok ?l"
    using b(2) some i(2) account_grow_facts(3) [OF g] i(3) unfolding refs_ok_def Let_def alive
    by (auto simp: put_simps nth_list_update)
  moreover have "growth_ok ?l"
    using b(3) i(2) max by (auto simp: growth_ok_def put_simps nth_list_update growth_single)
  ultimately show ?thesis by (simp add: keeps_def)
qed

lemma grow_refused:
  assumes ok: "ledger_ok l" and i: "i < length (ld_accounts l)"
    and g: "account_grow (env_alive env) b o' (ld_accounts l ! i) = (a, Inl e)"
  shows "keeps env l (put_account i a l)"
proof -
  have a: "a = ld_accounts l ! i" using g by (auto simp: account_grow_def Let_def split: if_split_asm prod.splits)
  have "books_ok l" using ok by (simp add: ledger_ok_def)
  then show ?thesis
    using grow.account_step_sound [OF _ i TrueI, where alive = "env_alive env" and additionalBytes = b and additionalObjects = o'] g a
    by (subst put_plain, intro put_keeps [OF ok, where alive = "env_alive env"]) (simp_all add: lease_alive)
qed

lemma reserveRetentionGrowth_keeps:
  assumes ok: "ledger_ok l"
  shows "keeps env l (fst (reserveRetentionGrowth env growth l))"
proof -
  have "refs_ok l" using ok by (simp add: ledger_ok_def)
  note acc = accountForProducer_alive [OF this]
  show ?thesis
    using keeps_refl [OF ok] acc grow_refused [OF ok] grow_keeps [OF ok]
    by (auto simp: reserveRetentionGrowth_def split: sum.split prod.split)
qed

lemma sum_drop_nth:
  assumes "j < length xs"
  shows "(\<Sum>x\<leftarrow>xs. f x) = f (xs ! j) + (\<Sum>x\<leftarrow>take j xs @ drop (Suc j) xs. f x :: nat)"
  by (subst id_take_nth_drop [OF assms]) simp

lemma retention_destroy_keeps:
  assumes ok: "ledger_ok l" and j: "j < length (ld_retentions l)"
  shows "keeps env l (retention_destroy j l)"
proof -
  obtain i g where r: "ld_retentions l ! j = (i, g)" by fastforce
  let ?rs = "take j (ld_retentions l) @ drop (Suc j) (ld_retentions l)" and ?p = "ac_plan (ld_accounts l ! i)"
  let ?a = "account_retract (rg_additionalBytes g) (rg_additionalObjects g) (ld_accounts l ! i)"
  have l': "retention_destroy j l = l\<lparr>ld_accounts := (ld_accounts l)[i := ?a], ld_retentions := ?rs\<rparr>" (is "_ = ?l")
    by (simp add: retention_destroy_def r)
  have b: "books_ok l" "refs_ok l" "growth_ok l" using ok by (simp_all add: ledger_ok_def)
  have "(i, g) \<in> set (ld_retentions l)" using j r by (metis nth_mem)
  then have alive_i: "account_alive l i" by (force simp: account_alive_def)
  then have i: "i < length (ld_accounts l)" using b(2) by (auto simp: refs_ok_def Let_def)
  have sums: "growth_bytes k (ld_retentions l) = growth_bytes k [(i, g)] + growth_bytes k ?rs"
    "growth_objects k (ld_retentions l) = growth_objects k [(i, g)] + growth_objects k ?rs" for k
    unfolding growth_single unfolding growth_bytes_def growth_objects_def by (subst sum_drop_nth [OF j], simp add: r)+
  have le: "rg_additionalBytes g \<le> plan_maximumBytes ?p" "rg_additionalObjects g \<le> plan_maximumObjects ?p"
    using b(3) i sums [of i] by (auto simp: growth_ok_def growth_single word_le_nat_alt)
  have max: "unat (plan_maximumBytes (ac_plan ?a)) = unat (plan_maximumBytes ?p) - unat (rg_additionalBytes g)"
    "unat (plan_maximumObjects (ac_plan ?a)) = unat (plan_maximumObjects ?p) - unat (rg_additionalObjects g)"
    using le by (simp_all add: account_retract_def Let_def unat_sub)
  have "publication (ac_snapshot (ld_accounts l ! i)) (ac_snapshot ?a) h = h\<lparr>sn_highWaterBytes := max (sn_highWaterBytes h) (sn_currentBytes h),
      sn_highWaterObjects := max (sn_highWaterObjects h) (sn_currentObjects h)\<rparr>" for h
    by (simp add: publication_def Let_def adjust_eq account_retract_def)
  then have sound: "sound_change (env_alive env) l ?l"
    using retract.account_step_sound [OF b(1) i, of "rg_additionalBytes g" "rg_additionalObjects g"
      "?l\<lparr>ld_aggregate := publication (ac_snapshot (ld_accounts l ! i)) (ac_snapshot ?a) (ld_aggregate l)\<rparr>"] le
    by (auto simp: sound_change_def books_ok_def aggregate_ok_def all_no_lost_def)
  have alive: "account_alive ?l k \<Longrightarrow> account_alive l k" for k
    by (auto simp: account_alive_def dest: in_set_takeD in_set_dropD)
  have fixed: "ac_fixedStorageBytes (ld_accounts ?l ! k) = ac_fixedStorageBytes (ld_accounts l ! k)" for k
    using i by (cases "k = i") (simp_all add: account_retract_def Let_def)
  have "refs_ok ?l"
    using b(2) alive fixed unfolding refs_ok_def Let_def by (auto dest: in_set_takeD in_set_dropD)
  moreover have "growth_ok ?l"
    using b(3) i max le sums by (auto simp: growth_ok_def nth_list_update growth_single word_le_nat_alt)
  ultimately show ?thesis using sound by (simp add: l' keeps_def)
qed

section \<open>Every reachable ledger\<close>

lemma create_ok:
  assumes "ledger_create env plan = success l"
  shows "ledger_ok l" and "all_no_lost l"
  using assms by (auto simp: ledger_create_def ledger_ok_def books_ok_def account_ok_def counts_ok_def aggregate_ok_def refs_ok_def growth_ok_def
      account_alive_def account_create_def empty_snapshot_def lease_bytes_def lease_objects_def growth_bytes_def growth_objects_def
      all_no_lost_def no_lost_credit_def Let_def split: if_split_asm)

lemma step_keeps:
  assumes ok: "ledger_ok l" and legal: "op_legal l op"
  shows "\<exists>l'. ledger_step env op l = Some l' \<and> keeps env l l'"
proof (cases op)
  case (Op_tryReserve b)
  have "fst (tryReserve env b l) = fst (tryReserveBatch env [b] l)"
    by (simp add: tryReserve_def split: prod.split sum.split)
  then show ?thesis using tryReserveBatch_keeps [OF ok, of "[b]"] by (simp add: Op_tryReserve)
next
  case (Op_tryReserveBatch bytes)
  then show ?thesis using tryReserveBatch_keeps [OF ok] legal by simp
next
  case (Op_tryReserveOrArm producer bytes wakeup)
  then show ?thesis using tryReserveOrArm_keeps [OF ok] legal by simp
next
  case (Op_assign i j)
  then show ?thesis using assign_keeps [OF ok] legal by simp
next
  case (Op_release j)
  then show ?thesis using release_keeps [OF ok, of j env] legal by auto
qed (use ok legal shrinkTo_keeps move_keeps reserveBranch_keeps extractInitialBranch_keeps admitFixedStorage_keeps branch_destroy_keeps
  reserveRetentionGrowth_keeps retention_destroy_keeps cancelBlockedWaiters_keeps in
  \<open>simp_all add: reserveFixedStorage_def extractInitialFixedStorage_def\<close>)

lemma reachable_ok: "ledger_reachable E l \<Longrightarrow> ledger_ok l"
proof (induction rule: ledger_reachable.induct)
  case (stepped l env op l')
  then show ?case using step_keeps [of l op env] keeps_ok by fastforce
qed (rule create_ok)

lemma reachable_no_lost: "ledger_reachable E l \<Longrightarrow> \<forall>env. E env \<longrightarrow> (\<forall>k. env_alive env k) \<Longrightarrow> all_no_lost l"
proof (induction rule: ledger_reachable.induct)
  case (stepped l env op l')
  then show ?case using step_keeps [OF reachable_ok [OF stepped(1)] stepped(3), of env] by (auto simp: keeps_def sound_change_def)
qed (rule create_ok)

lemma shrink_no_underflow:
  assumes ok: "ledger_ok l" and j: "j < length (ld_leases l)"
  shows "snd (lease_shrinkTo env j bytes l) \<noteq> failure InternalError"
proof (cases "ls_state (ld_leases l ! j)")
  case (Some i)
  let ?x = "ld_leases l ! j"
  have b: "books_ok l" "refs_ok l" using ok by (simp_all add: ledger_ok_def)
  obtain lb where "lease_bytes i (ld_leases l) = lb + unat (ls_bytes ?x)"
    using exchange_put [OF j Some, of ?x] Some by (auto simp: lease_exchange_def)
  then have "account_ok (lb + unat (ls_bytes ?x)) (lease_objects i (ld_leases l)) (ld_accounts l ! i)"
    using b(1) lease_index [OF b(2) j Some] by (auto simp: books_ok_def)
  note below = credit_back_ok(3) [OF _ this, of bytes]
  have "snd (account_shrink (env_alive env) (ls_bytes ?x) bytes (ld_accounts l ! i)) \<noteq> failure InternalError"
    using below by (auto simp: account_shrink_def Let_def split: prod.splits)
  then show ?thesis by (auto simp: lease_shrinkTo_def Some split: prod.splits sum.splits)
qed (simp add: lease_shrinkTo_def)

section \<open>Properties\<close>

text \<open>
  C19. In every state that calls of the ledger reach, the bytes and objects an account counts as used are what
  its outstanding leases and granted waiters hold, and the session snapshot counts the sum over all accounts.
\<close>

theorem ledger_books:
  assumes "ledger_reachable E l" and "i < length (ld_accounts l)"
  shows "unat (sn_currentBytes (ac_snapshot (ld_accounts l ! i))) = lease_bytes i (ld_leases l) + granted_bytes (ac_waiters (ld_accounts l ! i)) \<and>
     unat (sn_currentObjects (ac_snapshot (ld_accounts l ! i))) = lease_objects i (ld_leases l) + granted_objects (ac_waiters (ld_accounts l ! i)) \<and>
     sn_currentBytes (ledger_snapshot l) = (\<Sum>a\<leftarrow>ld_accounts l. sn_currentBytes (ac_snapshot a)) \<and>
     sn_currentObjects (ledger_snapshot l) = (\<Sum>a\<leftarrow>ld_accounts l. sn_currentObjects (ac_snapshot a)) \<and>
     sn_reservations (ledger_snapshot l) = (\<Sum>a\<leftarrow>ld_accounts l. sn_reservations (ac_snapshot a)) \<and>
     sn_releases (ledger_snapshot l) = (\<Sum>a\<leftarrow>ld_accounts l. sn_releases (ac_snapshot a))"
  using reachable_ok [OF assms(1)] assms(2)
  by (simp add: ledger_ok_def books_ok_def account_ok_def counts_ok_def aggregate_ok_def ledger_snapshot_def)

text \<open>
  C20. Every call on a reachable ledger returns: releasing a lease never terminates the program and shrinking one never
  underflows. A call raises what an account uses only up to the bounds of the account.
\<close>

theorem ledger_calls_within_plan:
  assumes "ledger_reachable E l" and "op_legal l op"
  shows "(\<exists>l'. ledger_step env op l = Some l' \<and>
      (\<forall>i<length (ld_accounts l).
         (sn_currentBytes (ac_snapshot (ld_accounts l' ! i)) \<le> sn_currentBytes (ac_snapshot (ld_accounts l ! i)) \<or>
          sn_currentBytes (ac_snapshot (ld_accounts l' ! i)) \<le> plan_maximumBytes (ac_plan (ld_accounts l' ! i))) \<and>
         (sn_currentObjects (ac_snapshot (ld_accounts l' ! i)) \<le> sn_currentObjects (ac_snapshot (ld_accounts l ! i)) \<or>
          sn_currentObjects (ac_snapshot (ld_accounts l' ! i)) \<le> plan_maximumObjects (ac_plan (ld_accounts l' ! i))))) \<and>
     (\<forall>j bytes. op = Op_shrinkTo j bytes \<longrightarrow> snd (lease_shrinkTo env j bytes l) \<noteq> failure InternalError)"
  using step_keeps [OF reachable_ok [OF assms(1)] assms(2), of env] shrink_no_underflow [OF reachable_ok [OF assms(1)]] assms(2)
  by (auto simp: keeps_def sound_change_def within_plan_def)

text \<open>
  C21. While no waiting producer goes away, no credit is lost: a waiter whose demand fits is only left waiting
  while another waiter holds a grant it has yet to collect, and collecting it promotes the next.
\<close>

theorem ledger_no_lost_credit:
  assumes "ledger_reachable E l" and "\<And>env k. E env \<Longrightarrow> env_alive env k" and "i < length (ld_accounts l)"
    and "w \<in> set (ac_waiters (ld_accounts l ! i))" and "credit_fits (ac_plan (ld_accounts l ! i)) (ac_snapshot (ld_accounts l ! i)) w"
  shows "\<exists>v\<in>set (ac_waiters (ld_accounts l ! i)). pw_granted v"
  using reachable_no_lost [OF assms(1)] assms(2-5) by (auto simp: all_no_lost_def list_all_length no_lost_credit_def)

section \<open>Departed producers\<close>

lemma lease_sums:
  "lease_objects i (xs @ y # ys) = lease_objects i xs + (if ls_state y = Some i then 1 else 0) + lease_objects i ys"
  "lease_bytes i (xs @ y # ys) = lease_bytes i xs + (if ls_state y = Some i then unat (ls_bytes y) else 0) + lease_bytes i ys"
  by (simp_all add: lease_objects_def lease_bytes_def)

lemma no_leases: "lease_objects i ls = 0 \<Longrightarrow> lease_bytes i ls = 0"
proof (induction ls)
  case (Cons x ls)
  have "lease_objects i [] = 0" "lease_bytes i [] = 0" by (simp_all add: lease_objects_def lease_bytes_def)
  then show ?case using Cons lease_sums [of i "[]" x ls] by (cases "ls_state x = Some i") simp_all
qed (simp add: lease_bytes_def)

lemma only_lease:
  assumes "j < length ls" and "ls_state (ls ! j) = Some i" and "lease_objects i ls = 1"
  shows "lease_bytes i ls = unat (ls_bytes (ls ! j))"
    and "lease_objects i (ls[j := \<lparr>ls_state = None, ls_bytes = 0\<rparr>]) = 0" and "lease_bytes i (ls[j := \<lparr>ls_state = None, ls_bytes = 0\<rparr>]) = 0"
proof -
  define xs y ys where "xs = take j ls" and "y = ls ! j" and "ys = drop (Suc j) ls"
  have ls: "ls = xs @ y # ys" unfolding xs_def y_def ys_def using assms(1) by (rule id_take_nth_drop)
  have upd: "ls[j := z] = xs @ z # ys" for z unfolding xs_def ys_def using assms(1) by (rule upd_conv_take_nth_drop)
  have y: "ls_state y = Some i" using assms(2) by (simp add: y_def)
  then have "lease_objects i xs = 0" "lease_objects i ys = 0" using assms(3) lease_sums(1) [of i xs y ys] unfolding ls [symmetric] by simp_all
  note others = this this [THEN no_leases]
  have "lease_bytes i (xs @ y # ys) = unat (ls_bytes y)" unfolding lease_sums using y others by simp
  then show "lease_bytes i ls = unat (ls_bytes (ls ! j))" unfolding ls [symmetric] by (simp only: y_def)
  show "lease_objects i (ls[j := \<lparr>ls_state = None, ls_bytes = 0\<rparr>]) = 0" "lease_bytes i (ls[j := \<lparr>ls_state = None, ls_bytes = 0\<rparr>]) = 0"
    unfolding upd lease_sums using others by simp_all
qed

lemma scan_waits:
  assumes "\<forall>w\<in>set pre. alive (pw_wakeup w) \<and> (pw_granted w \<or> \<not> credit_fits plan s w)"
  shows "promote_scan alive plan (pre @ ws) s = (case promote_scan alive plan ws s of (s', ws', k) \<Rightarrow> (s', pre @ ws', k))"
  using assms by (induction pre) (auto split: prod.split)

lemma scan_gone: "\<forall>w\<in>set ws. \<not> alive (pw_wakeup w) \<Longrightarrow> \<exists>s'. promote_scan alive plan ws s = (s', [], None)"
  by (induction ws arbitrary: s) auto

lemma not_fits_beside:
  "unat (plan_maximumBytes plan) < unat (pw_totalBytes w) + unat (sn_currentBytes s) \<Longrightarrow> \<not> credit_fits plan s w"
  by (auto simp: credit_fits_def demand_fits_def Let_def word_le_nat_alt unat_sub)

lemma retry_refused:
  assumes "w \<in> set (ac_waiters a)" and "\<forall>w\<in>set (ac_waiters a). \<not> pw_granted w"
  shows "\<exists>a' e. account_reserveOrArm alive queued (pw_producer w) bytes totalBytes wakeup a = (a', failure e)"
proof -
  obtain v where v: "List.find (\<lambda>v. pw_producer v = pw_producer w) (ac_waiters a) = Some v"
    using assms(1) by (cases "List.find (\<lambda>v. pw_producer v = pw_producer w) (ac_waiters a)") (auto simp: find_None_iff)
  then have "v \<in> set (ac_waiters a)" by (auto simp: find_Some_iff)
  then show ?thesis using assms(2) v by (simp add: account_reserveOrArm_def Let_def)
qed

text \<open>
  C22. A promotion can miss waiters: when the scan removes granted waiters whose producers are gone, the credit that comes back is not
  offered to the waiters before them. In every reachable ledger, when the last lease of an account is released while all granted waiters
  behind some live ones are gone, and the live ones did not fit beside these grants, then nothing is in use any more and every live
  waiter within the bounds of the plan would fit, yet none is granted or notified, no lease of the account is left whose release could
  promote them, and every retry of their producers is refused.
\<close>

theorem departed_grant_strands_waiter:
  assumes "ledger_reachable E l" and "j < length (ld_leases l)" and "ls_state (ld_leases l ! j) = Some i" and "i < length (ld_accounts l)"
    and "lease_objects i (ld_leases l) = 1" and "ac_waiters (ld_accounts l ! i) = pre @ gone"
    and "\<forall>w\<in>set gone. \<not> env_alive env (pw_wakeup w)"
    and "\<forall>w\<in>set pre. env_alive env (pw_wakeup w) \<and> \<not> pw_granted w \<and>
      unat (plan_maximumBytes (ac_plan (ld_accounts l ! i))) < unat (pw_totalBytes w) + granted_bytes gone"
  shows "\<exists>l'. ledger_step env (Op_release j) l = Some l' \<and>
     (let a = ld_accounts l' ! i
      in sn_currentBytes (ac_snapshot a) = 0 \<and> sn_currentObjects (ac_snapshot a) = 0 \<and> lease_objects i (ld_leases l') = 0 \<and>
         ac_waiters a = pre \<and> ld_notified l' = ld_notified l \<and>
         (\<forall>w\<in>set pre. \<not> pw_granted w \<and>
            (pw_totalBytes w \<le> plan_maximumBytes (ac_plan a) \<and> of_nat (length (pw_bytes w)) \<le> plan_maximumObjects (ac_plan a) \<longrightarrow>
               credit_fits (ac_plan a) (ac_snapshot a) w) \<and>
            (\<forall>env' bytes wakeup. accountForProducer (pw_producer w) l' = success i \<longrightarrow>
               isl (snd (tryReserveOrArm env' (pw_producer w) bytes wakeup l')))))"
proof -
  let ?a = "ld_accounts l ! i" and ?b = "ls_bytes (ld_leases l ! j)" and ?alive = "env_alive env"
  note one = only_lease [OF assms(2,3,5)]
  have ok: "ledger_ok l" using assms(1) by (rule reachable_ok)
  have pre: "granted_bytes pre = 0" "granted_objects pre = 0" using assms(8) by (simp_all add: granted_bytes_def granted_objects_def)
  obtain l' where l': "ledger_step env (Op_release j) l = Some l'" "keeps env l l'" using step_keeps [OF ok, of "Op_release j" env] assms(2) by auto
  obtain a wakeup where rel: "account_release ?alive ?b ?a = Some (a, wakeup)"
    and eq: "l' = ledger_notify (case wakeup of None \<Rightarrow> [] | Some k \<Rightarrow> [k])
       ((put_account i a l)\<lparr>ld_leases := (ld_leases l)[j := \<lparr>ls_state = None, ls_bytes = 0\<rparr>]\<rparr>)"
    using l'(1) assms(3) by (auto simp: lease_release_def split: option.splits prod.splits)
  define s where "s = (ac_snapshot ?a)\<lparr>sn_currentBytes := sn_currentBytes (ac_snapshot ?a) - ?b,
    sn_currentObjects := sn_currentObjects (ac_snapshot ?a) - 1, sn_releases := sn_releases (ac_snapshot ?a) + 1\<rparr>"
  have "unat (sn_currentBytes (ac_snapshot ?a)) = unat ?b + granted_bytes gone"
    using ok assms(4,6) pre one(1) by (simp add: ledger_ok_def books_ok_def account_ok_def counts_ok_def granted_bytes_def)
  then have "unat (sn_currentBytes s) = granted_bytes gone" by (simp add: s_def unat_sub word_le_nat_alt)
  then have wait: "\<forall>w\<in>set pre. ?alive (pw_wakeup w) \<and> (pw_granted w \<or> \<not> credit_fits (ac_plan ?a) s w)"
    using assms(8) not_fits_beside by fastforce
  obtain s' where "promote_scan ?alive (ac_plan ?a) gone s = (s', [], None)" using scan_gone [OF assms(7)] by blast
  then have "promoteOne ?alive (?a\<lparr>ac_snapshot := s\<rparr>) = (?a\<lparr>ac_snapshot := s', ac_waiters := pre\<rparr>, None)"
    using scan_waits [OF wait, of gone] assms(6) by (simp add: promoteOne_def)
  then have a: "a = ?a\<lparr>ac_snapshot := s', ac_waiters := pre\<rparr>" "wakeup = None"
    using rel by (auto simp: account_release_def s_def Let_def split: if_splits)
  have account: "ld_accounts l' ! i = a" "ld_leases l' = (ld_leases l)[j := \<lparr>ls_state = None, ls_bytes = 0\<rparr>]" "ld_notified l' = ld_notified l"
    using assms(4) a(2) by (simp_all add: eq ledger_notify_def put_account_def)
  have "ledger_ok l'" using l'(2) by (rule keeps_ok)
  then have "account_ok 0 0 a" using one(2,3) account assms(4)
    by (auto simp: ledger_ok_def books_ok_def eq ledger_notify_def put_account_def)
  then have empty: "sn_currentBytes s' = 0" "sn_currentObjects s' = 0"
    using pre by (simp_all add: a(1) account_ok_def counts_ok_def unat_eq_0)
  have refused: "isl (snd (tryReserveOrArm env' (pw_producer w) bytes wakeup l'))"
    if "w \<in> set pre" "accountForProducer (pw_producer w) l' = success i" for w env' bytes wakeup
  proof -
    have retry: "\<exists>a' e. account_reserveOrArm (env_alive env') (env_allocLater env') (pw_producer w) bytes totalBytes (the wakeup) a = (a', failure e)" for totalBytes
      by (rule retry_refused) (use that(1) assms(8) in \<open>simp_all add: a(1)\<close>)
    show ?thesis
    proof (cases "demand_total (plan_maximumUnitBytes (ac_plan a)) bytes 0")
      case (Inr totalBytes)
      then show ?thesis using retry [of totalBytes] that(2) account(1) by (auto simp: tryReserveOrArm_def)
    qed (use that(2) account(1) in \<open>simp add: tryReserveOrArm_def\<close>)
  qed
  show ?thesis
    using l'(1) account one(2) empty refused assms(8)
    by (intro exI [of _ l']) (auto simp: a(1) Let_def credit_fits_def demand_fits_def)
qed

section \<open>A session\<close>

text \<open>Two producers share ten bytes.\<close>

definition sample_strategy :: "u32 \<Rightarrow> MediaGraphPayloadProducerStrategy" where
  "sample_strategy n = \<lparr>ps_nodeId = MediaNodeId n, ps_streamKind = StreamKind_Video, ps_payloadKind = PayloadKind_Packet,
     ps_accounting = EngineManagedBytesAndObject, ps_frameCredit = None, ps_maximumReservationBytes = 10,
     ps_runtimeIntegrated = True, ps_authority = ''planner''\<rparr>"

definition sample_plan :: MediaGraphPayloadCreditPlan where
  "sample_plan = \<lparr>plan_maximumBytes = 10, plan_maximumObjects = 10, plan_maximumUnitBytes = 10, plan_producerStrategyVersion = 1,
     plan_integration = Integration_Complete, plan_authority = ''planner'',
     plan_producers = [sample_strategy 1, sample_strategy 2], plan_missingProducers = []\<rparr>"

definition sample_env :: LedgerEnv where
  "sample_env = \<lparr>env_alive = (\<lambda>_. True), env_alloc = True, env_allocLater = True\<rparr>"

fun ledger_run :: "(LedgerEnv \<times> LedgerOp) list \<Rightarrow> MediaGraphPayloadCreditLedger \<Rightarrow> MediaGraphPayloadCreditLedger option" where
  "ledger_run [] l = Some l"
| "ledger_run ((env, op) # ops) l =
     (if \<not> op_legal l op then None else case ledger_step env op l of None \<Rightarrow> None | Some l' \<Rightarrow> ledger_run ops l')"

definition sample_run :: "(LedgerEnv \<times> LedgerOp) list \<Rightarrow> MediaGraphPayloadCreditLedger option" where
  "sample_run ops = (case ledger_create sample_env sample_plan of Inl _ \<Rightarrow> None | Inr l \<Rightarrow> ledger_run ops l)"

lemma run_reachable:
  "ledger_reachable E l \<Longrightarrow> \<forall>x\<in>set ops. E (fst x) \<Longrightarrow> ledger_run ops l = Some l' \<Longrightarrow> ledger_reachable E l'"
  by (induction ops l rule: ledger_run.induct) (auto split: if_split_asm option.splits intro: ledger_reachable.intros)

lemma sample_reachable: "sample_run ops = Some l \<Longrightarrow> \<forall>x\<in>set ops. E (fst x) \<Longrightarrow> ledger_reachable E l"
  by (auto simp: sample_run_def split: sum.splits intro: run_reachable ledger_reachable.created)

text \<open>All is in use, both producers wait for three bytes, and six are given back: the first is promoted.\<close>

definition sample_ops :: "(LedgerEnv \<times> LedgerOp) list" where
  "sample_ops =
     [(sample_env, Op_tryReserveBatch [4, 6]),
      (sample_env, Op_tryReserveOrArm (MediaNodeId 1) [3] (Some 1)),
      (sample_env, Op_tryReserveOrArm (MediaNodeId 2) [3] (Some 2)),
      (sample_env, Op_release 1)]"

definition sample_ledger :: MediaGraphPayloadCreditLedger where
  "sample_ledger = the (sample_run sample_ops)"

lemma sample_ledger_eq: "sample_run sample_ops = Some sample_ledger"
proof -
  have "sample_run sample_ops \<noteq> None" by code_simp
  then show ?thesis unfolding sample_ledger_def by simp
qed

lemma sample_ledger_reachable: "E sample_env \<Longrightarrow> ledger_reachable E sample_ledger"
  by (rule sample_reachable [OF sample_ledger_eq]) (simp add: sample_ops_def)

lemma sample_ledger_facts:
  "length (ld_accounts sample_ledger) = 1"
  "lease_bytes 0 (ld_leases sample_ledger) = 4" "granted_bytes (ac_waiters (ld_accounts sample_ledger ! 0)) = 3"
  by code_simp+

theorem ledger_books_witness:
  "unat (sn_currentBytes (ac_snapshot (ld_accounts sample_ledger ! 0))) = 4 + 3"
  using ledger_books [OF sample_ledger_reachable [of "\<lambda>_. True"], of 0] by (simp add: sample_ledger_facts)

theorem ledger_calls_within_plan_witness:
  "\<exists>l'. ledger_step sample_env (Op_release 0) sample_ledger = Some l' \<and>
     (sn_currentBytes (ac_snapshot (ld_accounts l' ! 0)) \<le> sn_currentBytes (ac_snapshot (ld_accounts sample_ledger ! 0)) \<or>
      sn_currentBytes (ac_snapshot (ld_accounts l' ! 0)) \<le> plan_maximumBytes (ac_plan (ld_accounts l' ! 0)))"
proof -
  have "op_legal sample_ledger (Op_release 0)" by code_simp
  then show ?thesis
    using ledger_calls_within_plan [OF sample_ledger_reachable [of "\<lambda>_. True"], of "Op_release 0" sample_env]
    by (auto simp: sample_ledger_facts simp del: ledger_step.simps)
qed

theorem ledger_no_lost_credit_witness: "\<exists>v\<in>set (ac_waiters (ld_accounts sample_ledger ! 0)). pw_granted v"
proof (rule ledger_no_lost_credit [OF sample_ledger_reachable [of "\<lambda>env. env = sample_env"]])
  show "0 < length (ld_accounts sample_ledger)" by (simp add: sample_ledger_facts)
  show "ac_waiters (ld_accounts sample_ledger ! 0) ! 1 \<in> set (ac_waiters (ld_accounts sample_ledger ! 0))" by code_simp
  show "credit_fits (ac_plan (ld_accounts sample_ledger ! 0)) (ac_snapshot (ld_accounts sample_ledger ! 0))
      (ac_waiters (ld_accounts sample_ledger ! 0) ! 1)" by code_simp
qed (simp_all add: sample_env_def)

text \<open>
  The first producer waits for ten bytes and the second for six; five are in use. One byte comes back, the second
  producer is granted and goes away before it collects. Then the last lease is released: the first producer waits on.
\<close>

definition departed_env :: LedgerEnv where
  "departed_env = sample_env\<lparr>env_alive := (\<lambda>k. k \<noteq> 2)\<rparr>"

definition granted_ops :: "(LedgerEnv \<times> LedgerOp) list" where
  "granted_ops =
     [(sample_env, Op_tryReserveBatch [4, 1]),
      (sample_env, Op_tryReserveOrArm (MediaNodeId 1) [10] (Some 1)),
      (sample_env, Op_tryReserveOrArm (MediaNodeId 2) [6] (Some 2)),
      (sample_env, Op_release 1)]"

definition granted_ledger :: MediaGraphPayloadCreditLedger where
  "granted_ledger = the (sample_run granted_ops)"

lemma granted_ledger_eq: "sample_run granted_ops = Some granted_ledger"
proof -
  have "sample_run granted_ops \<noteq> None" by code_simp
  then show ?thesis unfolding granted_ledger_def by simp
qed

lemma granted_ledger_facts:
  "0 < length (ld_leases granted_ledger)" "ls_state (ld_leases granted_ledger ! 0) = Some 0" "0 < length (ld_accounts granted_ledger)"
  "lease_objects 0 (ld_leases granted_ledger) = 1" "granted_bytes (drop 1 (ac_waiters (ld_accounts granted_ledger ! 0))) = 6"
  "map (\<lambda>w. (node_value (pw_producer w), pw_wakeup w, pw_granted w, pw_totalBytes w)) (ac_waiters (ld_accounts granted_ledger ! 0)) =
     [(1, 1, False, 10), (2, 2, True, 6)]"
  "plan_maximumBytes (ac_plan (ld_accounts granted_ledger ! 0)) = 10"
  by code_simp+

theorem departed_grant_strands_waiter_witness:
  "\<exists>l'. ledger_step departed_env (Op_release 0) granted_ledger = Some l' \<and> sn_currentBytes (ac_snapshot (ld_accounts l' ! 0)) = 0 \<and>
     map pw_granted (ac_waiters (ld_accounts l' ! 0)) = [False]"
proof -
  let ?ws = "ac_waiters (ld_accounts granted_ledger ! 0)"
  obtain v w where ws: "?ws = [v, w]" using granted_ledger_facts(6) by (auto simp: map_eq_Cons_conv)
  then have v: "pw_wakeup v = 1" "\<not> pw_granted v" "pw_totalBytes v = 10" "pw_wakeup w = 2" "granted_bytes [w] = 6"
    using granted_ledger_facts(5,6) by simp_all
  have "ledger_reachable (\<lambda>_. True) granted_ledger" by (rule sample_reachable [OF granted_ledger_eq]) simp
  from departed_grant_strands_waiter [OF this granted_ledger_facts(1-4), of "[v]" "[w]" departed_env]
  show ?thesis using ws v granted_ledger_facts(7) by (auto simp: departed_env_def Let_def simp del: ledger_step.simps)
qed

end
