(* ===== verification/Video_Nal_Scanner.thy ===== *)
theory Video_Nal_Scanner
  imports Wire_Bytes
begin

unbundle bit_operations_syntax

text \<open>
  \<^verbatim>\<open>protocol/codec\<close>: the Annex-B access unit validator and the NAL unit scanner, with the packet layout of
  \<^verbatim>\<open>model/MediaEncodedPacketLayout.h\<close>. A position in the access unit is the rest of the bytes behind it; the
  visitor collects the units in order. Memory is available.
\<close>

section \<open>Definitions\<close>

datatype MediaAnnexBCodec = H264 | Hevc

datatype MediaEncodedPacketLayout = StartCodeDelimited | LengthPrefixed (lengthFieldBytes: u8)

definition layout_lengthPrefixed :: "u8 \<Rightarrow> MediaEncodedPacketLayout Result" where
  "layout_lengthPrefixed width = (if width = 0 then failure InvalidArgument else success (LengthPrefixed width))"

definition headerBytes :: "MediaAnnexBCodec \<Rightarrow> nat" where
  "headerBytes codec = (if codec = H264 then 1 else 2)"

definition startCodeSize :: "u8 list \<Rightarrow> nat" where
  "startCodeSize bytes =
     (if 4 \<le> length bytes \<and> bytes ! 0 = 0 \<and> bytes ! 1 = 0 \<and> bytes ! 2 = 0 \<and> bytes ! 3 = 1 then 4
      else if 3 \<le> length bytes \<and> bytes ! 0 = 0 \<and> bytes ! 1 = 0 \<and> bytes ! 2 = 1 then 3
      else 0)"

text \<open>The inner loop: how many bytes there are before the next start code or the end.\<close>

fun nal_run :: "u8 list \<Rightarrow> nat" where
  "nal_run [] = 0"
| "nal_run (b # bytes) = (if startCodeSize (b # bytes) \<noteq> 0 then 0 else Suc (nal_run bytes))"

definition validHeader :: "MediaAnnexBCodec \<Rightarrow> u8 list \<Rightarrow> bool" where
  "validHeader codec nal \<longleftrightarrow>
     (if codec = H264
      then (let type = nal ! 0 AND 0x1F in nal ! 0 AND 0x80 = 0 \<and> type \<noteq> 0 \<and> type \<le> 23)
      else (let type = drop_bit 1 (nal ! 0) AND 0x3F in nal ! 0 AND 0x80 = 0 \<and> type \<le> 47 \<and> nal ! 1 AND 0x07 \<noteq> 0))"

definition validNal :: "MediaAnnexBCodec \<Rightarrow> u8 list \<Rightarrow> bool" where
  "validNal codec nal \<longleftrightarrow>
     (if length nal < headerBytes codec then False
      else if codec = H264
      then (let type = nal ! 0 AND 0x1F in nal ! 0 AND 0x80 = 0 \<and> type \<ge> 1 \<and> type \<le> 23)
      else (let type = drop_bit 1 (nal ! 0) AND 0x3F in nal ! 0 AND 0x80 = 0 \<and> type \<le> 47 \<and> nal ! 1 AND 0x07 \<noteq> 0))"

lemma headerBytes_pos [simp]: "0 < headerBytes codec"
  by (simp add: headerBytes_def)

function validate_loop :: "MediaAnnexBCodec \<Rightarrow> u8 list \<Rightarrow> Status" where
  "validate_loop codec bytes =
     (let prefix = startCodeSize bytes; rest = drop prefix bytes
      in if prefix = 0 then failure InvalidArgument
         else if rest = [] then failure InvalidArgument
         else if headerBytes codec > length rest then failure InvalidArgument
         else
           (let n = headerBytes codec + nal_run (drop (headerBytes codec) rest)
            in if \<not> validHeader codec (take n rest) then failure InvalidArgument
               else if n = length rest then success ()
               else validate_loop codec (drop n rest)))"
  by pat_completeness auto
termination by (relation "measure (length \<circ> snd)") (auto simp: startCodeSize_def split: if_splits)

declare validate_loop.simps [simp del]

definition annexB_validate :: "MediaAnnexBCodec \<Rightarrow> u8 list \<Rightarrow> Status" where
  "annexB_validate codec bytes = (if bytes = [] then failure InvalidArgument else validate_loop codec bytes)"

text \<open>The two loops of \<^verbatim>\<open>visit\<close>: over validated start codes, and over length fields.\<close>

function startCode_units :: "MediaAnnexBCodec \<Rightarrow> u8 list \<Rightarrow> u8 list list" where
  "startCode_units codec bytes =
     (if bytes = [] then []
      else
        (let rest = drop (startCodeSize bytes) bytes;
             n = headerBytes codec + nal_run (drop (headerBytes codec) rest)
         in take n rest # startCode_units codec (drop n rest)))"
  by pat_completeness auto
termination by (relation "measure (length \<circ> snd)") auto

declare startCode_units.simps [simp del]

definition length_field :: "u8 list \<Rightarrow> u64" where
  "length_field field = foldl (\<lambda>n b. push_bit 8 n OR ucast b) 0 field"

function length_units :: "MediaAnnexBCodec \<Rightarrow> nat \<Rightarrow> u8 list \<Rightarrow> u8 list list Result" where
  "length_units codec width bytes =
     (if bytes = [] then success []
      else if width > length bytes then failure InvalidArgument
      else
        (let n = unat (length_field (take width bytes)); rest = drop width bytes
         in if n = 0 \<or> n > length rest then failure InvalidArgument
            else if \<not> validNal codec (take n rest) then failure InvalidArgument
            else
              (case length_units codec width (drop n rest) of
                 Inl e \<Rightarrow> failure e
               | Inr units \<Rightarrow> success (take n rest # units))))"
  by pat_completeness auto
termination by (relation "measure (\<lambda>(_, _, bytes). length bytes)") auto

declare length_units.simps [simp del]

definition nal_scan :: "MediaAnnexBCodec \<Rightarrow> MediaEncodedPacketLayout \<Rightarrow> u8 list \<Rightarrow> u8 list list Result" where
  "nal_scan codec layout bytes =
     (case layout of
        StartCodeDelimited \<Rightarrow>
          (case annexB_validate codec bytes of
             Inl e \<Rightarrow> failure e
           | Inr _ \<Rightarrow> success (startCode_units codec bytes))
      | LengthPrefixed width \<Rightarrow>
          (if bytes = [] \<or> width = 0 \<or> unat width > 8 then failure InvalidArgument
           else length_units codec (unat width) bytes))"

section \<open>Canonical access units\<close>

text \<open>Units behind four-byte start codes, and units that hold no start code behind their header.\<close>

definition annexB :: "u8 list list \<Rightarrow> u8 list" where
  "annexB units = concat (map (\<lambda>u. [0, 0, 0, 1] @ u) units)"

definition nal_clean :: "MediaAnnexBCodec \<Rightarrow> u8 list \<Rightarrow> bool" where
  "nal_clean codec nal \<longleftrightarrow>
     validNal codec nal \<and> nal_run (drop (headerBytes codec) nal) = length (drop (headerBytes codec) nal)"

lemma validNal_iff: "validNal codec nal \<longleftrightarrow> headerBytes codec \<le> length nal \<and> validHeader codec nal"
proof -
  have "type \<ge> 1 \<longleftrightarrow> type \<noteq> 0" for type :: u8
    using unsigned_eq_0_iff [of type, where 'a = nat] by (auto simp: word_le_nat_alt Suc_le_eq)
  then show ?thesis by (auto simp: validNal_def validHeader_def not_less)
qed

lemma startCodeSize_append: "startCodeSize xs \<noteq> 0 \<Longrightarrow> startCodeSize (xs @ ys) \<noteq> 0"
  by (auto simp: startCodeSize_def nth_append split: if_splits)

lemma startCodeSize_cases [simp]: "startCodeSize ([0, 0, 0, 1] @ xs) = 4"
  by (simp add: startCodeSize_def)

text \<open>No start code begins inside a unit and ends in the four-byte start code behind it.\<close>

lemma startCodeSize_boundary:
  assumes "xs \<noteq> []"
  shows "startCodeSize (xs @ [0, 0, 0, 1] @ ys) = 0 \<longleftrightarrow> startCodeSize xs = 0"
proof -
  consider (a) a where "xs = [a]" | (b) a b where "xs = [a, b]" | (c) a b c where "xs = [a, b, c]" | (d) a b c d zs where "xs = a # b # c # d # zs"
    using assms by (metis list.exhaust)
  then show ?thesis by cases (auto simp: startCodeSize_def)
qed

lemma nal_run_le: "nal_run xs \<le> length xs"
  by (induction xs) auto

lemma nal_run_append:
  assumes "nal_run xs = length xs"
  shows "nal_run (xs @ [0, 0, 0, 1] @ ys) = length xs"
  using assms
proof (induction xs)
  case (Cons x xs)
  then have "startCodeSize (x # xs) = 0" by (auto split: if_splits)
  then have "startCodeSize ((x # xs) @ [0, 0, 0, 1] @ ys) = 0" by (subst startCodeSize_boundary) simp_all
  then show ?case using Cons by (auto split: if_splits)
qed (simp add: startCodeSize_def)

lemma nal_run_take: "nal_run (take (nal_run xs) xs) = nal_run xs"
proof (induction xs)
  case (Cons x xs)
  then show ?case
    using startCodeSize_append [of "x # take (nal_run xs) xs" "drop (nal_run xs) xs"] by auto
qed simp

lemma take_header_run:
  assumes "h \<le> length xs" "n = h + nal_run (drop h xs)"
  shows "n \<le> length xs" "nal_run (drop h (take n xs)) = length (drop h (take n xs))" "h \<le> length (take n xs)"
  using assms nal_run_le [of "drop h xs"] nal_run_take [of "drop h xs"] by (auto simp: drop_take min_def)

text \<open>Validated access units consist of clean units.\<close>

lemma validHeader_take: "headerBytes codec \<le> n \<Longrightarrow> validHeader codec (take n xs) = validHeader codec xs"
  by (auto simp: validHeader_def headerBytes_def split: if_splits)

lemma startCode_units_clean:
  "validate_loop codec bytes = success () \<Longrightarrow> list_all (nal_clean codec) (startCode_units codec bytes) \<and> startCode_units codec bytes \<noteq> []"
proof (induction codec bytes rule: validate_loop.induct)
  case (1 codec bytes)
  define rest where "rest = drop (startCodeSize bytes) bytes"
  define n where "n = headerBytes codec + nal_run (drop (headerBytes codec) rest)"
  have v: "startCodeSize bytes \<noteq> 0" "rest \<noteq> []" "headerBytes codec \<le> length rest" "validHeader codec (take n rest)"
    and next_ok: "n = length rest \<or> validate_loop codec (drop n rest) = success ()"
    using 1(2) by (auto simp: validate_loop.simps [of codec bytes] rest_def n_def Let_def split: if_splits)
  have "nal_clean codec (take n rest)"
    using v take_header_run [OF v(3) n_def] by (simp add: nal_clean_def validNal_iff)
  moreover have "n \<noteq> length rest \<Longrightarrow> list_all (nal_clean codec) (startCode_units codec (drop n rest))"
    using 1(1) [of "startCodeSize bytes" rest n] v next_ok by (auto simp: rest_def n_def)
  ultimately show ?case
    using v(1,2) by (cases "n = length rest") (auto simp: startCode_units.simps [of codec bytes] startCode_units.simps [of codec "[]"] Let_def rest_def n_def)
qed

lemma canonical_run:
  assumes "nal_clean codec u"
  shows "nal_run (drop (headerBytes codec) (u @ annexB us)) = length u - headerBytes codec"
proof -
  have h: "headerBytes codec \<le> length u" and r: "nal_run (drop (headerBytes codec) u) = length u - headerBytes codec"
    using assms by (simp_all add: nal_clean_def validNal_iff)
  then show ?thesis
    using nal_run_append [of "drop (headerBytes codec) u"] by (cases us) (auto simp: annexB_def)
qed

lemma scan_annexB:
  assumes "list_all (nal_clean codec) us"
  shows "startCode_units codec (annexB us) = us" and "us \<noteq> [] \<Longrightarrow> validate_loop codec (annexB us) = success ()"
proof -
  show "startCode_units codec (annexB us) = us"
    using assms
  proof (induction us)
    case (Cons u us)
    then have h: "headerBytes codec \<le> length u" by (simp add: nal_clean_def validNal_iff)
    have "annexB (u # us) = [0, 0, 0, 1] @ u @ annexB us" by (simp add: annexB_def)
    then show ?case
      using Cons canonical_run [of codec u us] h
      by (simp add: startCode_units.simps [of codec "0 # 0 # 0 # 1 # u @ annexB us"] Let_def startCodeSize_def)
  qed (simp add: annexB_def startCode_units.simps)
  show "us \<noteq> [] \<Longrightarrow> validate_loop codec (annexB us) = success ()"
    using assms
  proof (induction us)
    case (Cons u us)
    then have h: "headerBytes codec \<le> length u" "validHeader codec u" by (simp_all add: nal_clean_def validNal_iff)
    have a: "annexB (u # us) = [0, 0, 0, 1] @ u @ annexB us" by (simp add: annexB_def)
    have "u \<noteq> []" using h(1) headerBytes_pos [of codec] by (auto simp del: headerBytes_pos)
    moreover have "annexB us = [] \<longleftrightarrow> us = []" by (cases us) (simp_all add: annexB_def)
    ultimately show ?case
      using Cons canonical_run [of codec u us] h
      by (auto simp: a validate_loop.simps [of codec "0 # 0 # 0 # 1 # u @ annexB us"] validate_loop.simps [of codec "0 # 0 # 0 # 1 # u"]
        Let_def startCodeSize_def)
  qed simp
qed

end
