(* ===== verification/Video_Rtp_Packetizer.thy ===== *)
theory Video_Rtp_Packetizer
  imports Video_Nal_Scanner Checked_Arithmetic
begin

unbundle bit_operations_syntax

text \<open>
  \<^verbatim>\<open>protocol/rtp/MediaDeterministicVideoRtpPacketizer\<close>: cutting an access unit into RTP payloads (single NAL units,
  aggregation packets, fragmentation units) and the bound on their number. Memory is available.
\<close>

section \<open>Definitions\<close>

record MediaVideoRtpPayloadPacket =
  vp_payload :: "u8 list"
  vp_marker :: bool

definition fuHeaderBytes :: "MediaAnnexBCodec \<Rightarrow> nat" where
  "fuHeaderBytes codec = (if codec = H264 then 2 else 3)"

definition layerId :: "u8 list \<Rightarrow> u8" where
  "layerId unit = push_bit 5 (unit ! 0 AND 0x01) OR drop_bit 3 (unit ! 1)"

definition aggregate_header :: "MediaAnnexBCodec \<Rightarrow> u8 list list \<Rightarrow> u8 list" where
  "aggregate_header codec units =
     (if codec = H264
      then [fold (\<lambda>unit nri. max nri (unit ! 0 AND 0x60)) units 0 OR 24]
      else
        (let minimumLayerId = fold (\<lambda>unit m. min m (layerId unit)) units 0x3F;
             minimumTid = fold (\<lambda>unit m. min m (unit ! 1 AND 0x07)) units 0x07
         in [push_bit 1 48 OR drop_bit 5 minimumLayerId, push_bit 3 minimumLayerId OR minimumTid]))"

definition aggregate_payload :: "MediaAnnexBCodec \<Rightarrow> u8 list list \<Rightarrow> u8 list" where
  "aggregate_payload codec units =
     aggregate_header codec units @
     concat (map (\<lambda>unit. [of_nat (length unit div 256), of_nat (length unit)] @ unit) units)"

text \<open>One fragmentation unit with a part of the NAL unit.\<close>

definition fragment_payload :: "MediaAnnexBCodec \<Rightarrow> u8 list \<Rightarrow> bool \<Rightarrow> bool \<Rightarrow> u8 list \<Rightarrow> u8 list" where
  "fragment_payload codec nal first final part =
     (let originalType = (if codec = H264 then nal ! 0 AND 0x1F else drop_bit 1 (nal ! 0) AND 0x3F);
          indicator = (if codec = H264 then [nal ! 0 AND 0xE0 OR 28] else [nal ! 0 AND 0x81 OR push_bit 1 49, nal ! 1]);
          flags = originalType OR (if first then 0x80 else 0) OR (if final then 0x40 else 0)
      in indicator @ [flags] @ part)"

text \<open>The loop of \<^verbatim>\<open>fragment\<close>. The packetizer has checked that the capacity is positive; without it the loop would not end.\<close>

function fragment_loop :: "MediaAnnexBCodec \<Rightarrow> u8 list \<Rightarrow> nat \<Rightarrow> u8 list \<Rightarrow> bool \<Rightarrow> MediaVideoRtpPayloadPacket list" where
  "fragment_loop codec nal capacity remaining first =
     (if remaining = [] \<or> capacity = 0 then []
      else
        (let count = min capacity (length remaining)
         in \<lparr>vp_payload = fragment_payload codec nal first (count = length remaining) (take count remaining), vp_marker = False\<rparr> #
            fragment_loop codec nal capacity (drop count remaining) False))"
  by pat_completeness auto
termination by (relation "measure (\<lambda>(_, _, _, remaining, _). length remaining)") auto

declare fragment_loop.simps [simp del]

definition fragment :: "MediaAnnexBCodec \<Rightarrow> u8 list \<Rightarrow> nat \<Rightarrow> MediaVideoRtpPayloadPacket list" where
  "fragment codec nal maximumPayload =
     fragment_loop codec nal (maximumPayload - fuHeaderBytes codec) (drop (headerBytes codec) nal) True"

text \<open>The loop that counts how many units the next aggregation packet holds.\<close>

fun aggregate_end :: "nat \<Rightarrow> nat \<Rightarrow> u8 list list \<Rightarrow> nat" where
  "aggregate_end maximum aggregateBytes [] = 0"
| "aggregate_end maximum aggregateBytes (unit # units) =
     (if length unit \<le> maximum \<and> length unit \<le> 65535 \<and> 2 + length unit \<le> maximum - aggregateBytes
      then Suc (aggregate_end maximum (aggregateBytes + (2 + length unit)) units)
      else 0)"

function packetize_loop :: "MediaAnnexBCodec \<Rightarrow> nat \<Rightarrow> u8 list list \<Rightarrow> MediaVideoRtpPayloadPacket list" where
  "packetize_loop codec maximum units =
     (case units of
        [] \<Rightarrow> []
      | unit # rest \<Rightarrow>
          (if length unit > maximum then fragment codec unit maximum @ packetize_loop codec maximum rest
           else
             (let n = aggregate_end maximum (headerBytes codec) units
              in if n \<ge> 2
                 then \<lparr>vp_payload = aggregate_payload codec (take n units), vp_marker = False\<rparr> # packetize_loop codec maximum (drop n units)
                 else \<lparr>vp_payload = unit, vp_marker = False\<rparr> # packetize_loop codec maximum rest)))"
  by pat_completeness auto
termination by (relation "measure (\<lambda>(_, _, units). length units)") auto

declare packetize_loop.simps [simp del]

definition packetize :: "MediaAnnexBCodec \<Rightarrow> MediaEncodedPacketLayout \<Rightarrow> nat \<Rightarrow> u8 list \<Rightarrow> MediaVideoRtpPayloadPacket list Result" where
  "packetize codec layout maximumRtpPayloadBytes accessUnit =
     (if maximumRtpPayloadBytes \<le> fuHeaderBytes codec then failure InvalidArgument
      else
        (case nal_scan codec layout accessUnit of
           Inl e \<Rightarrow> failure e
         | Inr units \<Rightarrow>
             (let output = packetize_loop codec maximumRtpPayloadBytes units
              in if output = [] then failure InvalidArgument
                 else success (butlast output @ [(last output)\<lparr>vp_marker := True\<rparr>]))))"

definition maximumDatagramsForPayloadWindow :: "u64 \<Rightarrow> u64 \<Rightarrow> MediaAnnexBCodec \<Rightarrow> u64 \<Rightarrow> u64 Result" where
  "maximumDatagramsForPayloadWindow maximumPayloadBytes accessUnitCount codec maximumRtpPayloadBytes =
     (let fuHeader = of_nat (fuHeaderBytes codec)
      in if maximumPayloadBytes = 0 \<or> accessUnitCount = 0 \<or> maximumRtpPayloadBytes \<le> fuHeader then failure InvalidArgument
         else
           (case ceilScale maximumPayloadBytes 1 (maximumRtpPayloadBytes - fuHeader) of
              Inl e \<Rightarrow> failure e
            | Inr fragments \<Rightarrow>
                (case checked_multiply fragments 2 of
                   Inl e \<Rightarrow> failure e
                 | Inr doubled \<Rightarrow>
                     (case checked_multiply accessUnitCount 3 of
                        Inl e \<Rightarrow> failure e
                      | Inr accessUnitBound \<Rightarrow>
                          (case checked_add doubled accessUnitBound of
                             Inl e \<Rightarrow> failure e
                           | Inr combined \<Rightarrow> success (combined - 2))))))"

definition maximumDatagramsPerAccessUnit :: "u64 \<Rightarrow> MediaAnnexBCodec \<Rightarrow> u64 \<Rightarrow> u64 Result" where
  "maximumDatagramsPerAccessUnit maximumAccessUnitBytes codec maximumRtpPayloadBytes =
     maximumDatagramsForPayloadWindow maximumAccessUnitBytes 1 codec maximumRtpPayloadBytes"

end
