(* ===== verification/Video_Rtp_Depacketizer.thy ===== *)
theory Video_Rtp_Depacketizer
  imports Video_Nal_Scanner Rtp_Reorder
begin

unbundle bit_operations_syntax

text \<open>
  \<^verbatim>\<open>protocol/rtp\<close>: the NAL unit parsers \<^verbatim>\<open>MediaH264RtpNalUnitParser\<close> and \<^verbatim>\<open>MediaHevcRtpNalUnitParser\<close>, the continuity guard
  \<^verbatim>\<open>MediaRtpAccessUnitContinuity\<close>, and the depacketizers \<^verbatim>\<open>MediaH264RtpDepacketizer\<close> and \<^verbatim>\<open>MediaHevcRtpDepacketizer\<close>. The two depacketizers have
  the same code up to the parser, the smallest unit and the key frame types, which are arguments here. Whether
  \<^verbatim>\<open>av_new_packet\<close> gives a packet of a size is the parameter \<open>newPacket\<close>.
\<close>

section \<open>NAL unit parsers\<close>

record MediaRtpNalUnitBatch =
  nb_timestamp :: u32
  nb_marker :: bool
  nb_discardedFragment :: bool
  nb_nalUnits :: "u8 list list"

text \<open>The state of a parser; the header of the fragmented unit has eight bits for H.264 and sixteen for HEVC.\<close>

record 'h RtpNalUnitParser =
  np_payloadType :: u8
  np_fragment :: "u8 list"
  np_fragmentHeader :: "'h option"
  np_fragmentTimestamp :: "u32 option"

definition nalParser_create :: "u8 \<Rightarrow> 'h RtpNalUnitParser" where
  "nalParser_create payloadType =
     \<lparr>np_payloadType = payloadType, np_fragment = [], np_fragmentHeader = None, np_fragmentTimestamp = None\<rparr>"

definition nalParser_discontinuity :: "'h RtpNalUnitParser \<Rightarrow> 'h RtpNalUnitParser" where
  "nalParser_discontinuity p = p\<lparr>np_fragment := [], np_fragmentHeader := None, np_fragmentTimestamp := None\<rparr>"

definition validH264NalHeader :: "u8 \<Rightarrow> bool" where
  "validH264NalHeader header \<longleftrightarrow> (let type = header AND 0x1F in header AND 0x80 = 0 \<and> type \<ge> 1 \<and> type \<le> 23)"

definition validHevcNalHeader :: "u8 list \<Rightarrow> bool" where
  "validHevcNalHeader data \<longleftrightarrow> data ! 0 AND 0x80 = 0 \<and> data ! 1 AND 0x07 \<noteq> 0"

definition nal_length :: "u8 list \<Rightarrow> nat" where
  "nal_length bytes = unat (push_bit 8 (ucast (bytes ! 0)) OR ucast (bytes ! 1) :: u64)"

text \<open>The loops over aggregation packets, on the rest of the payload.\<close>

function h264_aggregated :: "u8 list \<Rightarrow> u8 list list Result" where
  "h264_aggregated rest =
     (if rest = [] then success []
      else if length rest < 2 then failure InvalidArgument
      else
        (let n = nal_length rest; data = drop 2 rest
         in if n = 0 \<or> n > length data then failure InvalidArgument
            else if \<not> validH264NalHeader (data ! 0) then failure InvalidArgument
            else
              (case h264_aggregated (drop n data) of
                 Inl e \<Rightarrow> failure e
               | Inr units \<Rightarrow> success (take n data # units))))"
  by pat_completeness auto
termination by (relation "measure length") auto

declare h264_aggregated.simps [simp del]

function hevc_aggregated :: "u8 list \<Rightarrow> u8 list list Result" where
  "hevc_aggregated rest =
     (if rest = [] then success []
      else if length rest < 2 then failure InvalidArgument
      else
        (let n = nal_length rest; data = drop 2 rest
         in if n < 2 \<or> n > length data then failure InvalidArgument
            else if \<not> validHevcNalHeader data \<or> drop_bit 1 (data ! 0) AND 0x3F > 47 then failure InvalidArgument
            else
              (case hevc_aggregated (drop n data) of
                 Inl e \<Rightarrow> failure e
               | Inr units \<Rightarrow> success (take n data # units))))"
  by pat_completeness auto
termination by (relation "measure length") auto

declare hevc_aggregated.simps [simp del]

text \<open>
  The fragmentation branch behind the checks of its header: \<open>fuBytes\<close> are the bytes of the payload header, \<open>header\<close> the header
  the unit has and \<open>bytes\<close> its bytes.
\<close>

definition push_fragment ::
  "nat \<Rightarrow> bool \<Rightarrow> bool \<Rightarrow> 'h \<Rightarrow> u8 list \<Rightarrow> MediaRtpPacket \<Rightarrow> nat \<Rightarrow> 'h RtpNalUnitParser \<Rightarrow>
   'h RtpNalUnitParser \<times> MediaRtpNalUnitBatch Result" where
  "push_fragment fuBytes start final header bytes packet maximumNalUnitBytes p =
     (let result = \<lparr>nb_timestamp = rtp_timestamp packet, nb_marker = rtp_marker packet, nb_discardedFragment = False, nb_nalUnits = []\<rparr>
      in if start \<and> np_fragmentHeader p \<noteq> None then (p, failure InvalidArgument)
         else if \<not> start \<and> np_fragmentHeader p = None then (p, success (result\<lparr>nb_discardedFragment := True\<rparr>))
         else
           (let p = (if start
                     then p\<lparr>np_fragmentHeader := Some header, np_fragmentTimestamp := Some (rtp_timestamp packet), np_fragment := bytes\<rparr>
                     else p)
            in if np_fragmentTimestamp p \<noteq> Some (rtp_timestamp packet) \<or> np_fragmentHeader p \<noteq> Some header
               then (p, failure InvalidArgument)
               else if length (np_fragment p) > maximumNalUnitBytes \<or>
                       length (rtp_payload packet) - fuBytes > maximumNalUnitBytes - length (np_fragment p)
               then (p, failure InvalidArgument)
               else
                 (let p = p\<lparr>np_fragment := np_fragment p @ drop fuBytes (rtp_payload packet)\<rparr>
                  in if rtp_marker packet \<and> \<not> final then (p, failure InvalidArgument)
                     else if final
                     then (p\<lparr>np_fragment := [], np_fragmentHeader := None, np_fragmentTimestamp := None\<rparr>,
                           success (result\<lparr>nb_nalUnits := [np_fragment p]\<rparr>))
                     else (p, success result))))"

definition h264_push :: "MediaRtpPacket \<Rightarrow> nat \<Rightarrow> u8 RtpNalUnitParser \<Rightarrow> u8 RtpNalUnitParser \<times> MediaRtpNalUnitBatch Result" where
  "h264_push packet maximumNalUnitBytes p =
     (let payload = rtp_payload packet;
          result = \<lparr>nb_timestamp = rtp_timestamp packet, nb_marker = rtp_marker packet, nb_discardedFragment = False, nb_nalUnits = []\<rparr>
      in if maximumNalUnitBytes = 0 then (p, failure InvalidArgument)
         else if rtp_payloadType packet \<noteq> np_payloadType p \<or> payload = [] then (p, failure InvalidArgument)
         else if payload ! 0 AND 0x80 \<noteq> 0 then (p, failure InvalidArgument)
         else
           (let type = payload ! 0 AND 0x1F
            in if type \<ge> 1 \<and> type \<le> 23
               then (if np_fragmentHeader p \<noteq> None then (p, failure InvalidArgument)
                     else if \<not> validH264NalHeader (payload ! 0) then (p, failure InvalidArgument)
                     else (p, success (result\<lparr>nb_nalUnits := [payload]\<rparr>)))
               else if type = 24
               then (if np_fragmentHeader p \<noteq> None then (p, failure InvalidArgument)
                     else if length payload = 1 then (p, failure InvalidArgument)
                     else (case h264_aggregated (drop 1 payload) of
                             Inl e \<Rightarrow> (p, failure e)
                           | Inr units \<Rightarrow> (p, success (result\<lparr>nb_nalUnits := units\<rparr>))))
               else if type \<noteq> 28 then (p, failure Unsupported)
               else if length payload < 3 then (p, failure InvalidArgument)
               else
                 (let header = payload ! 1;
                      start = (header AND 0x80 \<noteq> 0);
                      final = (header AND 0x40 \<noteq> 0);
                      fragmentedType = header AND 0x1F
                  in if header AND 0x20 \<noteq> 0 \<or> (start \<and> final) \<or> fragmentedType = 0 \<or> fragmentedType > 23 then (p, failure InvalidArgument)
                     else
                       (let nalHeader = payload ! 0 AND 0xE0 OR fragmentedType
                        in push_fragment 2 start final nalHeader [nalHeader] packet maximumNalUnitBytes p))))"

definition hevc_push :: "MediaRtpPacket \<Rightarrow> nat \<Rightarrow> u16 RtpNalUnitParser \<Rightarrow> u16 RtpNalUnitParser \<times> MediaRtpNalUnitBatch Result" where
  "hevc_push packet maximumNalUnitBytes p =
     (let payload = rtp_payload packet;
          result = \<lparr>nb_timestamp = rtp_timestamp packet, nb_marker = rtp_marker packet, nb_discardedFragment = False, nb_nalUnits = []\<rparr>
      in if maximumNalUnitBytes < 2 then (p, failure InvalidArgument)
         else if rtp_payloadType packet \<noteq> np_payloadType p \<or> length payload < 2 then (p, failure InvalidArgument)
         else if \<not> validHevcNalHeader payload then (p, failure InvalidArgument)
         else
           (let type = drop_bit 1 (payload ! 0) AND 0x3F
            in if type \<le> 47
               then (if np_fragmentHeader p \<noteq> None then (p, failure InvalidArgument)
                     else (p, success (result\<lparr>nb_nalUnits := [payload]\<rparr>)))
               else if type = 48
               then (if np_fragmentHeader p \<noteq> None then (p, failure InvalidArgument)
                     else if length payload = 2 then (p, failure InvalidArgument)
                     else (case hevc_aggregated (drop 2 payload) of
                             Inl e \<Rightarrow> (p, failure e)
                           | Inr units \<Rightarrow> (p, success (result\<lparr>nb_nalUnits := units\<rparr>))))
               else if type \<noteq> 49 then (p, failure Unsupported)
               else if length payload < 4 then (p, failure InvalidArgument)
               else
                 (let fuHeader = payload ! 2;
                      start = (fuHeader AND 0x80 \<noteq> 0);
                      final = (fuHeader AND 0x40 \<noteq> 0);
                      fragmentedType = fuHeader AND 0x3F
                  in if (start \<and> final) \<or> fragmentedType > 47 then (p, failure InvalidArgument)
                     else
                       (let reconstructedFirst = payload ! 0 AND 0x81 OR push_bit 1 fragmentedType;
                            reconstructedHeader = push_bit 8 (ucast reconstructedFirst) OR ucast (payload ! 1)
                        in push_fragment 3 start final reconstructedHeader [reconstructedFirst, payload ! 1] packet maximumNalUnitBytes p))))"

section \<open>Access units\<close>

record MediaRtpAccessUnit =
  au_data :: "u8 list"
  au_pts :: int
  au_dts :: int
  au_duration :: int
  au_key :: bool
  au_rtpTimestamp :: u32
  au_timeBaseDenominator :: int

definition rtpAccessUnitNalCapacity :: "nat \<Rightarrow> nat \<Rightarrow> nat Result" where
  "rtpAccessUnitNalCapacity assembledBytes maximumAccessUnitBytes =
     (if assembledBytes > maximumAccessUnitBytes \<or> maximumAccessUnitBytes - assembledBytes \<le> 4 then failure InvalidArgument
      else success (maximumAccessUnitBytes - assembledBytes - 4))"

definition appendRtpAccessUnitNal :: "u8 list \<Rightarrow> u8 list \<Rightarrow> nat \<Rightarrow> u8 list Result" where
  "appendRtpAccessUnitNal output nal maximumAccessUnitBytes =
     (case rtpAccessUnitNalCapacity (length output) maximumAccessUnitBytes of
        Inl e \<Rightarrow> failure e
      | Inr capacity \<Rightarrow>
          (if length nal > capacity then failure InvalidArgument
           else success (output @ [0, 0, 0, 1] @ nal)))"

definition makeRtpAccessUnit :: "(nat \<Rightarrow> bool) \<Rightarrow> u8 list \<Rightarrow> u32 \<Rightarrow> int \<Rightarrow> int \<Rightarrow> bool \<Rightarrow> MediaRtpAccessUnit Result" where
  "makeRtpAccessUnit newPacket bytes rtpTimestamp clockRate duration keyFrame =
     (if bytes = [] \<or> clockRate \<le> 0 then failure InvalidArgument
      else if \<not> newPacket (length bytes) then failure AllocationFailed
      else success \<lparr>au_data = bytes, au_pts = uint rtpTimestamp, au_dts = uint rtpTimestamp, au_duration = duration, au_key = keyFrame,
                    au_rtpTimestamp = rtpTimestamp, au_timeBaseDenominator = clockRate\<rparr>)"

record MediaRtpAccessUnitContinuity =
  ct_waitingForBoundary :: bool
  ct_unprovenTimestamp :: "u32 option"

definition continuity_markLost :: "MediaRtpAccessUnitContinuity \<Rightarrow> MediaRtpAccessUnitContinuity" where
  "continuity_markLost c = c\<lparr>ct_waitingForBoundary := True, ct_unprovenTimestamp := None\<rparr>"

definition continuity_accept :: "u32 \<Rightarrow> MediaRtpAccessUnitContinuity \<Rightarrow> MediaRtpAccessUnitContinuity \<times> bool" where
  "continuity_accept timestamp c =
     (if \<not> ct_waitingForBoundary c then (c, True)
      else
        (let c = (if ct_unprovenTimestamp c = None then c\<lparr>ct_unprovenTimestamp := Some timestamp\<rparr> else c)
         in if ct_unprovenTimestamp c = Some timestamp then (c, False)
            else (c\<lparr>ct_waitingForBoundary := False, ct_unprovenTimestamp := None\<rparr>, True)))"

section \<open>Depacketizers\<close>

record 'h VideoRtpDepacketizer =
  dp_clockRate :: int
  dp_maximumAccessUnitBytes :: nat
  dp_continuity :: MediaRtpAccessUnitContinuity
  dp_nalParser :: "'h RtpNalUnitParser"
  dp_accessUnit :: "u8 list"
  dp_timestamp :: "u32 option"
  dp_keyFrame :: bool

definition depacketizer_create :: "u8 \<Rightarrow> int \<Rightarrow> nat \<Rightarrow> 'h VideoRtpDepacketizer" where
  "depacketizer_create payloadType clockRate maximumAccessUnitBytes =
     \<lparr>dp_clockRate = clockRate, dp_maximumAccessUnitBytes = maximumAccessUnitBytes,
      dp_continuity = \<lparr>ct_waitingForBoundary = False, ct_unprovenTimestamp = None\<rparr>, dp_nalParser = nalParser_create payloadType,
      dp_accessUnit = [], dp_timestamp = None, dp_keyFrame = False\<rparr>"

definition depacketizer_discontinuity :: "'h VideoRtpDepacketizer \<Rightarrow> 'h VideoRtpDepacketizer" where
  "depacketizer_discontinuity d =
     d\<lparr>dp_continuity := continuity_markLost (dp_continuity d), dp_nalParser := nalParser_discontinuity (dp_nalParser d),
       dp_accessUnit := [], dp_timestamp := None, dp_keyFrame := False\<rparr>"

text \<open>The loop over the units of a batch: a unit shorter than \<open>smallest\<close> is an error, a \<open>key\<close> unit marks the access unit.\<close>

fun append_units :: "nat \<Rightarrow> (u8 list \<Rightarrow> bool) \<Rightarrow> u8 list list \<Rightarrow> 'h VideoRtpDepacketizer \<Rightarrow> 'h VideoRtpDepacketizer \<times> Status" where
  "append_units smallest key [] d = (d, success ())"
| "append_units smallest key (nal # nals) d =
     (if length nal < smallest then (d, failure InvalidArgument)
      else
        (let d = d\<lparr>dp_keyFrame := dp_keyFrame d \<or> key nal\<rparr>
         in case appendRtpAccessUnitNal (dp_accessUnit d) nal (dp_maximumAccessUnitBytes d) of
              Inl e \<Rightarrow> (d, failure e)
            | Inr accessUnit \<Rightarrow> append_units smallest key nals (d\<lparr>dp_accessUnit := accessUnit\<rparr>)))"

definition depacketizer_finish ::
  "(nat \<Rightarrow> bool) \<Rightarrow> MediaRtpPacket \<Rightarrow> 'h VideoRtpDepacketizer \<Rightarrow> 'h VideoRtpDepacketizer \<times> MediaRtpAccessUnit list Result" where
  "depacketizer_finish newPacket packet d =
     (if dp_accessUnit d = [] then (depacketizer_discontinuity d, failure InvalidArgument)
      else
        (let unit = makeRtpAccessUnit newPacket (dp_accessUnit d) (rtp_timestamp packet) (dp_clockRate d) 0 (dp_keyFrame d);
             d = d\<lparr>dp_accessUnit := [], dp_timestamp := None, dp_keyFrame := False\<rparr>
         in case unit of Inl e \<Rightarrow> (d, failure e) | Inr u \<Rightarrow> (d, success [u])))"

definition depacketizer_pushValidated ::
  "(MediaRtpPacket \<Rightarrow> nat \<Rightarrow> 'h RtpNalUnitParser \<Rightarrow> 'h RtpNalUnitParser \<times> MediaRtpNalUnitBatch Result) \<Rightarrow> nat \<Rightarrow> (u8 list \<Rightarrow> bool) \<Rightarrow>
   (nat \<Rightarrow> bool) \<Rightarrow> MediaRtpPacket \<Rightarrow> 'h VideoRtpDepacketizer \<Rightarrow> 'h VideoRtpDepacketizer \<times> MediaRtpAccessUnit list Result" where
  "depacketizer_pushValidated parse smallest key newPacket packet d =
     (let d = (if dp_timestamp d \<noteq> None \<and> dp_timestamp d \<noteq> Some (rtp_timestamp packet) \<and> dp_accessUnit d \<noteq> []
               then depacketizer_discontinuity d else d)
      in case continuity_accept (rtp_timestamp packet) (dp_continuity d) of
           (c, False) \<Rightarrow> (d\<lparr>dp_continuity := c\<rparr>, success [])
         | (c, True) \<Rightarrow>
             (let d = d\<lparr>dp_continuity := c\<rparr>;
                  d = (if dp_timestamp d = None then d\<lparr>dp_timestamp := Some (rtp_timestamp packet)\<rparr> else d)
              in case rtpAccessUnitNalCapacity (length (dp_accessUnit d)) (dp_maximumAccessUnitBytes d) of
                   Inl e \<Rightarrow> (d, failure e)
                 | Inr capacity \<Rightarrow>
                     (case parse packet capacity (dp_nalParser d) of
                        (p, Inl e) \<Rightarrow> (d\<lparr>dp_nalParser := p\<rparr>, failure e)
                      | (p, Inr batch) \<Rightarrow>
                          (let d = d\<lparr>dp_nalParser := p\<rparr>
                           in if nb_discardedFragment batch then (depacketizer_discontinuity d, success [])
                              else
                                (case append_units smallest key (nb_nalUnits batch) d of
                                   (d, Inl e) \<Rightarrow> (d, failure e)
                                 | (d, Inr _) \<Rightarrow>
                                     (if \<not> rtp_marker packet then (d, success [])
                                      else depacketizer_finish newPacket packet d))))))"

definition depacketizer_push ::
  "(MediaRtpPacket \<Rightarrow> nat \<Rightarrow> 'h RtpNalUnitParser \<Rightarrow> 'h RtpNalUnitParser \<times> MediaRtpNalUnitBatch Result) \<Rightarrow> nat \<Rightarrow> (u8 list \<Rightarrow> bool) \<Rightarrow>
   (nat \<Rightarrow> bool) \<Rightarrow> MediaRtpPacket \<Rightarrow> 'h VideoRtpDepacketizer \<Rightarrow> 'h VideoRtpDepacketizer \<times> MediaRtpAccessUnit list Result" where
  "depacketizer_push parse smallest key newPacket packet d =
     (case depacketizer_pushValidated parse smallest key newPacket packet d of
        (d, Inl e) \<Rightarrow> (depacketizer_discontinuity d, failure e)
      | (d, Inr units) \<Rightarrow> (d, success units))"

text \<open>The instances of the two classes.\<close>

definition h264_key :: "u8 list \<Rightarrow> bool" where
  "h264_key nal \<longleftrightarrow> nal ! 0 AND 0x1F = 5"

definition keyType :: "u8 \<Rightarrow> bool" where
  "keyType type \<longleftrightarrow> type \<ge> 16 \<and> type \<le> 21"

definition hevc_key :: "u8 list \<Rightarrow> bool" where
  "hevc_key nal = keyType (drop_bit 1 (nal ! 0) AND 0x3F)"

definition h264_depacketize :: "(nat \<Rightarrow> bool) \<Rightarrow> MediaRtpPacket \<Rightarrow> u8 VideoRtpDepacketizer \<Rightarrow> u8 VideoRtpDepacketizer \<times> MediaRtpAccessUnit list Result" where
  "h264_depacketize = depacketizer_push h264_push 1 h264_key"

definition hevc_depacketize :: "(nat \<Rightarrow> bool) \<Rightarrow> MediaRtpPacket \<Rightarrow> u16 VideoRtpDepacketizer \<Rightarrow> u16 VideoRtpDepacketizer \<times> MediaRtpAccessUnit list Result" where
  "hevc_depacketize = depacketizer_push hevc_push 2 hevc_key"

end
