(* ===== verification/Video_Rtp_Roundtrip.thy ===== *)
theory Video_Rtp_Roundtrip
  imports Video_Rtp_Packetizer Video_Rtp_Depacketizer
begin

unbundle bit_operations_syntax

text \<open>
  Video access units over RTP: what the packetizer cuts, the depacketizer of the same codec puts together again,
  for H.264 and HEVC. The proof is done once for both, from the laws of a payload format.
\<close>

section \<open>Runs of a depacketizer\<close>

fun depacketize_all ::
  "(MediaRtpPacket \<Rightarrow> 'd \<Rightarrow> 'd \<times> 'u list Result) \<Rightarrow> MediaRtpPacket list \<Rightarrow> 'd \<Rightarrow> 'd \<times> 'u list Result" where
  "depacketize_all push [] d = (d, success [])"
| "depacketize_all push (packet # packets) d =
     (case push packet d of
        (d, Inl e) \<Rightarrow> (d, failure e)
      | (d, Inr units) \<Rightarrow>
          (case depacketize_all push packets d of
             (d, Inl e) \<Rightarrow> (d, failure e)
           | (d, Inr others) \<Rightarrow> (d, success (units @ others))))"

lemma depacketize_all_append:
  "depacketize_all push ps d = (d', success us) \<Longrightarrow>
   depacketize_all push (ps @ qs) d =
     (case depacketize_all push qs d' of (e, Inl err) \<Rightarrow> (e, failure err) | (e, Inr vs) \<Rightarrow> (e, success (us @ vs)))"
proof (induction ps arbitrary: d us)
  case Nil
  then show ?case by (auto split: prod.splits sum.splits)
next
  case (Cons p ps)
  then show ?case by (fastforce split: prod.splits sum.splits)
qed

text \<open>RTP packets that carry the given payloads on one stream at one timestamp.\<close>

definition carries :: "u8 \<Rightarrow> u32 \<Rightarrow> MediaRtpPacket list \<Rightarrow> MediaVideoRtpPayloadPacket list \<Rightarrow> bool" where
  "carries payloadType timestamp ps vs \<longleftrightarrow>
     map rtp_payload ps = map vp_payload vs \<and> map rtp_marker ps = map vp_marker vs \<and>
     list_all (\<lambda>p. rtp_payloadType p = payloadType \<and> rtp_timestamp p = timestamp) ps"

definition nal_batch :: "MediaRtpPacket \<Rightarrow> u8 list list \<Rightarrow> MediaRtpNalUnitBatch" where
  "nal_batch packet units =
     \<lparr>nb_timestamp = rtp_timestamp packet, nb_marker = rtp_marker packet, nb_discardedFragment = False, nb_nalUnits = units\<rparr>"

text \<open>
  A stream: access units with their timestamps and the packets that carry them, and what a depacketizer makes of each.
\<close>

type_synonym sent_unit = "u8 list \<times> u32 \<times> MediaRtpPacket list"

definition nal_units :: "MediaAnnexBCodec \<Rightarrow> MediaEncodedPacketLayout \<Rightarrow> u8 list \<Rightarrow> u8 list list" where
  "nal_units codec layout accessUnit = (case nal_scan codec layout accessUnit of Inl _ \<Rightarrow> [] | Inr us \<Rightarrow> us)"

definition sent :: "MediaAnnexBCodec \<Rightarrow> MediaEncodedPacketLayout \<Rightarrow> nat \<Rightarrow> u8 \<Rightarrow> sent_unit \<Rightarrow> bool" where
  "sent codec layout maximum payloadType = (\<lambda>(accessUnit, timestamp, packets).
     case packetize codec layout maximum accessUnit of Inl _ \<Rightarrow> False | Inr vs \<Rightarrow> carries payloadType timestamp packets vs)"

definition received :: "MediaAnnexBCodec \<Rightarrow> MediaEncodedPacketLayout \<Rightarrow> (u8 list \<Rightarrow> bool) \<Rightarrow> int \<Rightarrow> sent_unit \<Rightarrow> MediaRtpAccessUnit" where
  "received codec layout key clockRate = (\<lambda>(accessUnit, timestamp, packets).
     \<lparr>au_data = annexB (nal_units codec layout accessUnit), au_pts = uint timestamp, au_dts = uint timestamp, au_duration = 0,
      au_key = list_ex key (nal_units codec layout accessUnit), au_rtpTimestamp = timestamp, au_timeBaseDenominator = clockRate\<rparr>)"

text \<open>The canonical form of the access unit fits the depacketizer and the packet allocator.\<close>

definition fits :: "MediaAnnexBCodec \<Rightarrow> MediaEncodedPacketLayout \<Rightarrow> nat \<Rightarrow> (nat \<Rightarrow> bool) \<Rightarrow> sent_unit \<Rightarrow> bool" where
  "fits codec layout maximumBytes newPacket = (\<lambda>(accessUnit, timestamp, packets).
     let n = length (annexB (nal_units codec layout accessUnit)) in n \<le> maximumBytes \<and> newPacket n)"

text \<open>A depacketizer between two access units.\<close>

definition idle :: "u8 \<Rightarrow> 'h VideoRtpDepacketizer \<Rightarrow> bool" where
  "idle payloadType d \<longleftrightarrow>
     \<not> ct_waitingForBoundary (dp_continuity d) \<and> np_payloadType (dp_nalParser d) = payloadType \<and> np_fragmentHeader (dp_nalParser d) = None \<and>
     dp_timestamp d = None \<and> dp_accessUnit d = [] \<and> \<not> dp_keyFrame d"

lemma idle_create: "idle payloadType (depacketizer_create payloadType clockRate maximumBytes)"
  by (simp add: idle_def depacketizer_create_def nalParser_create_def)

text \<open>Scanned units are valid.\<close>

lemma length_units_valid: "length_units codec width bytes = success us \<Longrightarrow> list_all (validNal codec) us"
proof (induction codec width bytes arbitrary: us rule: length_units.induct)
  case (1 codec width bytes)
  then show ?case
    by (fastforce simp: length_units.simps [of codec width bytes] Let_def split: if_splits sum.splits)
qed

lemma nal_scan_valid:
  assumes "nal_scan codec layout bytes = success us"
  shows "list_all (validNal codec) us"
proof (cases layout)
  case StartCodeDelimited
  then show ?thesis
    using assms startCode_units_clean [of codec bytes]
    by (auto simp: nal_scan_def annexB_validate_def nal_clean_def list_all_iff split: if_splits sum.splits)
next
  case (LengthPrefixed width)
  then show ?thesis using assms length_units_valid by (auto simp: nal_scan_def split: if_splits)
qed

section \<open>Payload formats\<close>

locale nal_payload_format =
  fixes codec :: MediaAnnexBCodec
    and parse :: "MediaRtpPacket \<Rightarrow> nat \<Rightarrow> 'h RtpNalUnitParser \<Rightarrow> 'h RtpNalUnitParser \<times> MediaRtpNalUnitBatch Result"
    and header :: "u8 list \<Rightarrow> 'h"
    and key :: "u8 list \<Rightarrow> bool"
  assumes single: "validNal codec u \<Longrightarrow> rtp_payload packet = u \<Longrightarrow> rtp_payloadType packet = np_payloadType p \<Longrightarrow>
      np_fragmentHeader p = None \<Longrightarrow> headerBytes codec \<le> capacity \<Longrightarrow> parse packet capacity p = (p, success (nal_batch packet [u]))"
    and aggregated: "list_all (\<lambda>u. validNal codec u \<and> length u \<le> 65535) us \<Longrightarrow> us \<noteq> [] \<Longrightarrow> rtp_payload packet = aggregate_payload codec us \<Longrightarrow>
      rtp_payloadType packet = np_payloadType p \<Longrightarrow> np_fragmentHeader p = None \<Longrightarrow> headerBytes codec \<le> capacity \<Longrightarrow>
      parse packet capacity p = (p, success (nal_batch packet us))"
    and fragmented: "validNal codec nal \<Longrightarrow> rtp_payload packet = fragment_payload codec nal first final part \<Longrightarrow> part \<noteq> [] \<Longrightarrow>
      \<not> (first \<and> final) \<Longrightarrow> rtp_payloadType packet = np_payloadType p \<Longrightarrow> \<not> rtp_marker packet \<Longrightarrow>
      (if first then np_fragmentHeader p = None \<and> sofar = take (headerBytes codec) nal
       else np_fragmentHeader p = Some (header nal) \<and> np_fragmentTimestamp p = Some (rtp_timestamp packet) \<and> np_fragment p = sofar) \<Longrightarrow>
      headerBytes codec \<le> capacity \<Longrightarrow> length sofar + length part \<le> capacity \<Longrightarrow>
      parse packet capacity p =
        (if final
         then (p\<lparr>np_fragment := [], np_fragmentHeader := None, np_fragmentTimestamp := None\<rparr>, success (nal_batch packet [sofar @ part]))
         else (p\<lparr>np_fragment := sofar @ part, np_fragmentHeader := Some (header nal), np_fragmentTimestamp := Some (rtp_timestamp packet)\<rparr>,
               success (nal_batch packet [])))"
    and marker: "parse (packet\<lparr>rtp_marker := False\<rparr>) capacity p = (p', success batch) \<Longrightarrow> np_fragmentHeader p' = None \<Longrightarrow>
      \<not> nb_discardedFragment batch \<Longrightarrow> parse (packet\<lparr>rtp_marker := True\<rparr>) capacity p = (p', success (batch\<lparr>nb_marker := True\<rparr>))"

section \<open>The depacketizer on one packet\<close>

definition ready :: "u8 \<Rightarrow> u32 \<Rightarrow> 'h VideoRtpDepacketizer \<Rightarrow> bool" where
  "ready payloadType timestamp d \<longleftrightarrow>
     \<not> ct_waitingForBoundary (dp_continuity d) \<and> np_payloadType (dp_nalParser d) = payloadType \<and>
     (dp_timestamp d = None \<or> dp_timestamp d = Some timestamp)"

text \<open>The depacketizer after the units were appended and the parser left in a state.\<close>

definition assembled :: "(u8 list \<Rightarrow> bool) \<Rightarrow> u32 \<Rightarrow> 'h RtpNalUnitParser \<Rightarrow> u8 list list \<Rightarrow> 'h VideoRtpDepacketizer \<Rightarrow> 'h VideoRtpDepacketizer" where
  "assembled key timestamp p us d =
     d\<lparr>dp_nalParser := p, dp_accessUnit := dp_accessUnit d @ annexB us, dp_timestamp := Some timestamp,
       dp_keyFrame := dp_keyFrame d \<or> list_ex key us\<rparr>"

lemma annexB_simps [simp]: "annexB [] = []" "annexB (u # us) = [0, 0, 0, 1] @ u @ annexB us" "annexB (us @ vs) = annexB us @ annexB vs"
  by (simp_all add: annexB_def)

lemma append_units_ok:
  assumes "\<forall>u\<in>set us. smallest \<le> length u" and "0 < smallest"
    and "length (dp_accessUnit d) + length (annexB us) \<le> dp_maximumAccessUnitBytes d"
  shows "append_units smallest key us d =
     (d\<lparr>dp_accessUnit := dp_accessUnit d @ annexB us, dp_keyFrame := dp_keyFrame d \<or> list_ex key us\<rparr>, success ())"
  using assms
proof (induction us arbitrary: d)
  case (Cons u us)
  then have "appendRtpAccessUnitNal (dp_accessUnit d) u (dp_maximumAccessUnitBytes d) = success (dp_accessUnit d @ [0, 0, 0, 1] @ u)"
    by (auto simp: appendRtpAccessUnitNal_def rtpAccessUnitNalCapacity_def)
  then show ?case
    using Cons.prems Cons.IH [of "d\<lparr>dp_keyFrame := dp_keyFrame d \<or> key u, dp_accessUnit := dp_accessUnit d @ [0, 0, 0, 1] @ u\<rparr>"]
    by (simp add: disj_ac)
qed simp

lemma pushValidated_ready:
  assumes "ready pt (rtp_timestamp packet) d"
  shows "depacketizer_pushValidated parse smallest key newPacket packet d =
     (let d = d\<lparr>dp_timestamp := Some (rtp_timestamp packet)\<rparr>
      in case rtpAccessUnitNalCapacity (length (dp_accessUnit d)) (dp_maximumAccessUnitBytes d) of
           Inl e \<Rightarrow> (d, failure e)
         | Inr capacity \<Rightarrow>
             (case parse packet capacity (dp_nalParser d) of
                (p, Inl e) \<Rightarrow> (d\<lparr>dp_nalParser := p\<rparr>, failure e)
              | (p, Inr batch) \<Rightarrow>
                  (if nb_discardedFragment batch then (depacketizer_discontinuity (d\<lparr>dp_nalParser := p\<rparr>), success [])
                   else
                     (case append_units smallest key (nb_nalUnits batch) (d\<lparr>dp_nalParser := p\<rparr>) of
                        (d, Inl e) \<Rightarrow> (d, failure e)
                      | (d, Inr _) \<Rightarrow> (if \<not> rtp_marker packet then (d, success []) else depacketizer_finish newPacket packet d)))))"
proof -
  have c: "continuity_accept (rtp_timestamp packet) (dp_continuity d) = (dp_continuity d, True)"
    using assms by (simp add: ready_def continuity_accept_def)
  have same: "\<not> (dp_timestamp d \<noteq> None \<and> dp_timestamp d \<noteq> Some (rtp_timestamp packet) \<and> dp_accessUnit d \<noteq> [])"
    using assms by (auto simp: ready_def)
  have held: "dp_timestamp d = Some y \<Longrightarrow> d\<lparr>dp_timestamp := Some (rtp_timestamp packet)\<rparr> = d" for y
    using assms by (auto simp: ready_def)
  have id: "d\<lparr>dp_continuity := dp_continuity d\<rparr> = d" by simp
  note unfolded = depacketizer_pushValidated_def Let_def if_not_P [OF same] c prod.case bool.case id
  show ?thesis
  proof (cases "dp_timestamp d")
    case None
    then show ?thesis unfolding unfolded by simp
  next
    case (Some y)
    then show ?thesis unfolding unfolded held [OF Some] by simp
  qed
qed

lemma push_parsed:
  assumes "ready pt (rtp_timestamp packet) d" and "length (dp_accessUnit d) + 4 < dp_maximumAccessUnitBytes d"
    and "parse packet (dp_maximumAccessUnitBytes d - length (dp_accessUnit d) - 4) (dp_nalParser d) = (p, success batch)"
    and "\<not> nb_discardedFragment batch" and "0 < smallest" and "\<forall>u\<in>set (nb_nalUnits batch). smallest \<le> length u"
    and "length (dp_accessUnit d) + length (annexB (nb_nalUnits batch)) \<le> dp_maximumAccessUnitBytes d" and "\<not> rtp_marker packet"
  shows "depacketizer_push parse smallest key newPacket packet d = (assembled key (rtp_timestamp packet) p (nb_nalUnits batch) d, success [])"
proof -
  have cap: "rtpAccessUnitNalCapacity (length (dp_accessUnit d)) (dp_maximumAccessUnitBytes d) =
      success (dp_maximumAccessUnitBytes d - length (dp_accessUnit d) - 4)"
    using assms(2) by (simp add: rtpAccessUnitNalCapacity_def)
  have app: "append_units smallest key (nb_nalUnits batch) (d\<lparr>dp_timestamp := Some (rtp_timestamp packet), dp_nalParser := p\<rparr>) =
      (assembled key (rtp_timestamp packet) p (nb_nalUnits batch) d, success ())"
    using append_units_ok [OF assms(6,5), of "d\<lparr>dp_timestamp := Some (rtp_timestamp packet), dp_nalParser := p\<rparr>" key] assms(7)
    by (simp add: assembled_def)
  show ?thesis
    unfolding depacketizer_push_def pushValidated_ready [OF assms(1)] using assms(3,4,8) app cap by (simp add: Let_def)
qed

lemma append_units_parser: "append_units smallest key us d = (d', r) \<Longrightarrow> dp_nalParser d' = dp_nalParser d"
proof (induction us arbitrary: d)
  case (Cons u us)
  show ?case
  proof (cases "appendRtpAccessUnitNal (dp_accessUnit d) u (dp_maximumAccessUnitBytes d)")
    case (Inl e)
    then show ?thesis using Cons.prems by (auto split: if_splits)
  next
    case (Inr accessUnit)
    then show ?thesis
      using Cons.prems Cons.IH [of "d\<lparr>dp_keyFrame := dp_keyFrame d \<or> key u, dp_accessUnit := accessUnit\<rparr>"] by (auto split: if_splits)
  qed
qed simp

text \<open>Packets that add the units to the access unit and leave no fragment behind, with the state before the last one.\<close>

definition delivers ::
  "(MediaRtpPacket \<Rightarrow> 'h VideoRtpDepacketizer \<Rightarrow> 'h VideoRtpDepacketizer \<times> MediaRtpAccessUnit list Result) \<Rightarrow> (u8 list \<Rightarrow> bool) \<Rightarrow> u8 \<Rightarrow> u32 \<Rightarrow>
   MediaRtpPacket list \<Rightarrow> u8 list list \<Rightarrow> 'h VideoRtpDepacketizer \<Rightarrow> bool" where
  "delivers push key pt ts ps us d \<longleftrightarrow>
     (\<exists>p e. np_fragmentHeader p = None \<and> np_payloadType p = pt \<and> ps \<noteq> [] \<and> ready pt ts e \<and>
        depacketize_all push (butlast ps) d = (e, success []) \<and> push (last ps) e = (assembled key ts p us d, success []))"

lemma assembled_simps [simp]:
  "assembled key ts p vs (assembled key ts q us d) = assembled key ts p (us @ vs) d"
  "dp_accessUnit (assembled key ts p us d) = dp_accessUnit d @ annexB us"
  "dp_nalParser (assembled key ts p us d) = p"
  "dp_maximumAccessUnitBytes (assembled key ts p us d) = dp_maximumAccessUnitBytes d"
  "dp_continuity (assembled key ts p us d) = dp_continuity d"
  "dp_timestamp (assembled key ts p us d) = Some ts"
  "dp_clockRate (assembled key ts p us d) = dp_clockRate d"
  "dp_keyFrame (assembled key ts p us d) \<longleftrightarrow> dp_keyFrame d \<or> list_ex key us"
  by (auto simp: assembled_def ready_def)

lemma delivers_append:
  assumes "delivers push key pt ts ps us d"
    and "\<And>p. np_fragmentHeader p = None \<Longrightarrow> np_payloadType p = pt \<Longrightarrow> delivers push key pt ts qs vs (assembled key ts p us d)"
  shows "delivers push key pt ts (ps @ qs) (us @ vs) d"
proof -
  obtain p e where p: "np_fragmentHeader p = None" "np_payloadType p = pt" "ps \<noteq> []"
      "depacketize_all push (butlast ps) d = (e, success [])" "push (last ps) e = (assembled key ts p us d, success [])"
    using assms(1) by (auto simp: delivers_def)
  then have "depacketize_all push ps d = (assembled key ts p us d, success [])"
    using depacketize_all_append [OF p(4), of "[last ps]"] by simp
  then show ?thesis
    using assms(2) [OF p(1,2)] depacketize_all_append [of push ps d _ _ "butlast qs"] by (auto simp: delivers_def butlast_append)
qed

lemma delivers_one:
  "push packet d = (assembled key ts p us d, success []) \<Longrightarrow> np_fragmentHeader p = None \<Longrightarrow> np_payloadType p = pt \<Longrightarrow> ready pt ts d \<Longrightarrow>
   delivers push key pt ts [packet] us d"
  by (auto simp: delivers_def)

lemma delivers_Cons:
  assumes "push packet d = (e, success [])" and "delivers push key pt ts ps us e" and "\<And>p. assembled key ts p us e = assembled key ts p us d"
  shows "delivers push key pt ts (packet # ps) us d"
  using assms by (fastforce simp: delivers_def)

context nal_payload_format begin

lemma deliver_parsed:
  assumes "ready pt ts d" and "rtp_timestamp packet = ts" and "\<not> rtp_marker packet"
    and "parse packet (dp_maximumAccessUnitBytes d - length (dp_accessUnit d) - 4) (dp_nalParser d) = (p, success (nal_batch packet us))"
    and "length (dp_accessUnit d) + 4 < dp_maximumAccessUnitBytes d"
    and "length (dp_accessUnit d) + length (annexB us) \<le> dp_maximumAccessUnitBytes d" and "\<forall>u\<in>set us. headerBytes codec \<le> length u"
  shows "depacketizer_push parse (headerBytes codec) key newPacket packet d = (assembled key ts p us d, success [])"
  using push_parsed [of pt packet d parse p "nal_batch packet us" "headerBytes codec" key newPacket] assms by (simp add: nal_batch_def)

lemma deliver_single:
  assumes "ready pt ts d" and "np_fragmentHeader (dp_nalParser d) = None" and "validNal codec u"
    and "carries pt ts [packet] [\<lparr>vp_payload = u, vp_marker = False\<rparr>]"
    and "length (dp_accessUnit d) + length (annexB [u]) \<le> dp_maximumAccessUnitBytes d"
  shows "delivers (depacketizer_push parse (headerBytes codec) key newPacket) key pt ts [packet] [u] d"
proof -
  have h: "headerBytes codec \<le> length u" "0 < length u"
    using assms(3) headerBytes_pos [of codec] by (auto simp: validNal_iff simp del: headerBytes_pos)
  have c: "rtp_payload packet = u" "\<not> rtp_marker packet" "rtp_payloadType packet = pt" "rtp_timestamp packet = ts"
    using assms(4) by (auto simp: carries_def)
  have "parse packet (dp_maximumAccessUnitBytes d - length (dp_accessUnit d) - 4) (dp_nalParser d) = (dp_nalParser d, success (nal_batch packet [u]))"
    using assms(1,2,3,5) h c by (intro single) (auto simp: ready_def)
  from deliver_parsed [OF assms(1) c(4,2) this, of newPacket] show ?thesis
    using assms h by (auto simp: ready_def intro!: delivers_one)
qed

lemma deliver_aggregate:
  assumes "ready pt ts d" and "np_fragmentHeader (dp_nalParser d) = None" and "us \<noteq> []"
    and "list_all (\<lambda>u. validNal codec u \<and> length u \<le> 65535) us"
    and "carries pt ts [packet] [\<lparr>vp_payload = aggregate_payload codec us, vp_marker = False\<rparr>]"
    and "length (dp_accessUnit d) + length (annexB us) \<le> dp_maximumAccessUnitBytes d"
  shows "delivers (depacketizer_push parse (headerBytes codec) key newPacket) key pt ts [packet] us d"
proof -
  have h: "\<forall>u\<in>set us. headerBytes codec \<le> length u" using assms(4) by (auto simp: validNal_iff list_all_iff)
  obtain u us' where us: "us = u # us'" using assms(3) by (cases us) auto
  have c: "rtp_payload packet = aggregate_payload codec us" "\<not> rtp_marker packet" "rtp_payloadType packet = pt" "rtp_timestamp packet = ts"
    using assms(5) by (auto simp: carries_def)
  have "0 < length u" using h us headerBytes_pos [of codec] by (auto simp del: headerBytes_pos)
  then have room: "length (dp_accessUnit d) + 4 < dp_maximumAccessUnitBytes d"
    using assms(6) us by (simp del: length_greater_0_conv)
  have "parse packet (dp_maximumAccessUnitBytes d - length (dp_accessUnit d) - 4) (dp_nalParser d) = (dp_nalParser d, success (nal_batch packet us))"
    using assms(1,2,3,4,6) h c us by (intro aggregated) (auto simp: ready_def)
  from deliver_parsed [OF assms(1) c(4,2) this room assms(6) h] show ?thesis
    using assms by (auto simp: ready_def intro!: delivers_one)
qed

text \<open>The fragments of a unit, the first of them when \<open>first\<close>; \<open>sofar\<close> is what the parser holds.\<close>

lemma deliver_fragments:
  assumes "carries pt ts ps (fragment_loop codec nal capacity remaining first)" and "validNal codec nal" and "0 < capacity" and "remaining \<noteq> []"
    and "ready pt ts d" and "nal = sofar @ remaining"
    and "if first then np_fragmentHeader (dp_nalParser d) = None \<and> sofar = take (headerBytes codec) nal \<and> capacity < length remaining
         else np_fragmentHeader (dp_nalParser d) = Some (header nal) \<and> np_fragmentTimestamp (dp_nalParser d) = Some ts \<and>
           np_fragment (dp_nalParser d) = sofar"
    and "length (dp_accessUnit d) + length (annexB [nal]) \<le> dp_maximumAccessUnitBytes d"
  shows "delivers (depacketizer_push parse (headerBytes codec) key newPacket) key pt ts ps [nal] d"
  using assms
proof (induction "length remaining" arbitrary: remaining ps d sofar first rule: less_induct)
  case less
  let ?push = "depacketizer_push parse (headerBytes codec) key newPacket"
  define n where "n = min capacity (length remaining)"
  define final where "final \<longleftrightarrow> n = length remaining"
  let ?part = "take n remaining"
  have loop: "fragment_loop codec nal capacity remaining first =
      \<lparr>vp_payload = fragment_payload codec nal first final ?part, vp_marker = False\<rparr> # fragment_loop codec nal capacity (drop n remaining) False"
    using less.prems(3,4) by (simp add: fragment_loop.simps [of codec nal capacity remaining first] Let_def n_def final_def)
  then obtain packet ps' where ps: "ps = packet # ps'" "rtp_payload packet = fragment_payload codec nal first final ?part"
    "\<not> rtp_marker packet" "rtp_payloadType packet = pt" "rtp_timestamp packet = ts"
    "carries pt ts ps' (fragment_loop codec nal capacity (drop n remaining) False)"
    using less.prems(1) by (cases ps) (auto simp: carries_def)
  have pos: "0 < n" "n \<le> length remaining" using less.prems(3,4) by (auto simp: n_def)
  have h: "headerBytes codec \<le> length nal" "0 < length nal"
    using less.prems(2) headerBytes_pos [of codec] by (auto simp: validNal_iff simp del: headerBytes_pos)
  have room: "length (dp_accessUnit d) + 4 < dp_maximumAccessUnitBytes d"
    "headerBytes codec \<le> dp_maximumAccessUnitBytes d - length (dp_accessUnit d) - 4"
    "length sofar + length ?part \<le> dp_maximumAccessUnitBytes d - length (dp_accessUnit d) - 4"
    using less.prems(8) h(1) pos arg_cong [OF less.prems(6), of length]
    unfolding annexB_simps length_append by (simp_all del: length_greater_0_conv add: min_def)
  have flags: "\<not> (first \<and> final)" using less.prems(7) by (auto simp: final_def n_def)
  have nonempty: "?part \<noteq> []" using pos less.prems(4) by simp
  note parsed = fragmented [OF less.prems(2) ps(2) nonempty flags, of "dp_nalParser d" sofar, OF _ ps(3) _ room(2,3), unfolded ps(5)]
  have parsed: "parse packet (dp_maximumAccessUnitBytes d - length (dp_accessUnit d) - 4) (dp_nalParser d) =
      (if final
       then ((dp_nalParser d)\<lparr>np_fragment := [], np_fragmentHeader := None, np_fragmentTimestamp := None\<rparr>, success (nal_batch packet [sofar @ ?part]))
       else ((dp_nalParser d)\<lparr>np_fragment := sofar @ ?part, np_fragmentHeader := Some (header nal), np_fragmentTimestamp := Some ts\<rparr>,
             success (nal_batch packet [])))"
    using parsed less.prems(5,7) ps(4) by (auto simp: ready_def split: if_splits)
  show ?case
  proof (cases final)
    case True
    then have all: "sofar @ ?part = nal" "ps' = []"
      using less.prems(6) ps(6) by (simp_all add: final_def carries_def fragment_loop.simps)
    have "?push packet d = (assembled key ts ((dp_nalParser d)\<lparr>np_fragment := [], np_fragmentHeader := None, np_fragmentTimestamp := None\<rparr>) [nal] d, success [])"
      using parsed True all(1) by (intro deliver_parsed [OF less.prems(5) ps(5,3) _ room(1) less.prems(8)]) (simp_all add: h)
    from delivers_one [where push = ?push, OF this] show ?thesis unfolding ps(1) all(2) using less.prems(5) by (simp add: ready_def)
  next
    case False
    let ?p = "(dp_nalParser d)\<lparr>np_fragment := sofar @ ?part, np_fragmentHeader := Some (header nal), np_fragmentTimestamp := Some ts\<rparr>"
    have step: "?push packet d = (assembled key ts ?p [] d, success [])"
      using parsed False room(1) by (intro deliver_parsed [OF less.prems(5) ps(5,3)]) simp_all
    have "delivers ?push key pt ts ps' [nal] (assembled key ts ?p [] d)"
    proof (rule less.hyps [OF _ ps(6) less.prems(2,3)])
      show "length (drop n remaining) < length remaining" using pos by simp
      show "drop n remaining \<noteq> []" using False pos(2) by (auto simp: final_def)
      show "nal = (sofar @ ?part) @ drop n remaining" using less.prems(6) by simp
    qed (use less.prems(5,8) in \<open>simp_all add: ready_def\<close>)
    then show ?thesis unfolding ps(1) by (intro delivers_Cons [where push = ?push, OF step]) simp_all
  qed
qed

lemma carries_Cons: "carries pt ts ps (v # vs) \<longleftrightarrow> (\<exists>packet ps'. ps = packet # ps' \<and> carries pt ts [packet] [v] \<and> carries pt ts ps' vs)"
  by (cases ps) (auto simp: carries_def)

lemma carries_single: "carries pt ts qs [v] \<Longrightarrow> \<exists>packet. qs = [packet]"
  by (auto simp: carries_def)

lemma carries_append: "carries pt ts ps (vs @ ws) \<longleftrightarrow> (\<exists>qs rs. ps = qs @ rs \<and> carries pt ts qs vs \<and> carries pt ts rs ws)"
proof
  assume c: "carries pt ts ps (vs @ ws)"
  then have "carries pt ts (take (length vs) ps) vs \<and> carries pt ts (drop (length vs) ps) ws"
    by (auto simp: carries_def take_map [symmetric] drop_map [symmetric] list_all_iff dest: in_set_takeD in_set_dropD)
  then show "\<exists>qs rs. ps = qs @ rs \<and> carries pt ts qs vs \<and> carries pt ts rs ws" by (metis append_take_drop_id)
qed (auto simp: carries_def)

lemma aggregate_end_le:
  "aggregate_end maximum k us \<le> length us \<and> list_all (\<lambda>u. length u \<le> 65535) (take (aggregate_end maximum k us) us)"
  by (induction us arbitrary: k) auto

lemma deliver_units:
  assumes "carries pt ts ps (packetize_loop codec maximum us)" and "list_all (validNal codec) us" and "fuHeaderBytes codec < maximum"
    and "ready pt ts d" and "np_fragmentHeader (dp_nalParser d) = None" and "us \<noteq> []"
    and "length (dp_accessUnit d) + length (annexB us) \<le> dp_maximumAccessUnitBytes d"
  shows "delivers (depacketizer_push parse (headerBytes codec) key newPacket) key pt ts ps us d"
  using assms
proof (induction "length us" arbitrary: us ps d rule: less_induct)
  case less
  let ?push = "depacketizer_push parse (headerBytes codec) key newPacket"
  obtain vs gs rest where loop: "packetize_loop codec maximum us = vs @ packetize_loop codec maximum rest" "us = gs @ rest" "gs \<noteq> []"
    and group: "\<And>qs. carries pt ts qs vs \<Longrightarrow> delivers ?push key pt ts qs gs d"
  proof -
    obtain u us' where us: "us = u # us'" using less.prems(6) by (cases us) auto
    have u: "validNal codec u" using less.prems(2) us by simp
    have hb: "headerBytes codec < fuHeaderBytes codec" by (simp add: headerBytes_def fuHeaderBytes_def)
    consider (big) "length u > maximum" | (many) "length u \<le> maximum" "aggregate_end maximum (headerBytes codec) us \<ge> 2"
      | (one) "length u \<le> maximum" "\<not> aggregate_end maximum (headerBytes codec) us \<ge> 2" by linarith
    then show thesis
    proof cases
      case big
      have "delivers ?push key pt ts qs [u] d" if "carries pt ts qs (fragment codec u maximum)" for qs
        by (rule deliver_fragments [OF that [unfolded fragment_def] u, where sofar = "take (headerBytes codec) u"])
          (use big less.prems us hb in \<open>auto simp: fuHeaderBytes_def headerBytes_def\<close>)
      then show thesis
        using big us by (intro that [of "fragment codec u maximum" us' "[u]"]) (simp_all add: packetize_loop.simps [of codec maximum "u # us'"])
    next
      case many
      let ?n = "aggregate_end maximum (headerBytes codec) us"
      have "list_all (validNal codec) (take ?n us)" using less.prems(2) by (metis append_take_drop_id list_all_append)
      then have "list_all (\<lambda>u. validNal codec u \<and> length u \<le> 65535) (take ?n us)"
        using aggregate_end_le [of maximum "headerBytes codec" us] unfolding list_all_iff by blast
      moreover have "take ?n us \<noteq> []" using many(2) less.prems(6) by auto
      ultimately have gs: "take ?n us \<noteq> []" "list_all (\<lambda>u. validNal codec u \<and> length u \<le> 65535) (take ?n us)" by blast+
      have len: "length (annexB us) = length (annexB (take ?n us)) + length (annexB (drop ?n us))"
        by (metis annexB_simps(3) append_take_drop_id length_append)
      have "delivers ?push key pt ts qs (take ?n us) d"
        if c: "carries pt ts qs [\<lparr>vp_payload = aggregate_payload codec (take ?n us), vp_marker = False\<rparr>]" for qs
      proof -
        obtain packet where q: "qs = [packet]" using carries_single [OF c] by blast
        show ?thesis unfolding q using c [unfolded q] less.prems(7) len by (intro deliver_aggregate [OF less.prems(4,5) gs]) simp_all
      qed
      then show thesis
        using gs packetize_loop.simps [of codec maximum us] many
        by (intro that [of "[\<lparr>vp_payload = aggregate_payload codec (take ?n us), vp_marker = False\<rparr>]" "drop ?n us" "take ?n us"])
          (simp_all add: us Let_def del: aggregate_end.simps)
    next
      case one
      have "delivers ?push key pt ts qs [u] d" if c: "carries pt ts qs [\<lparr>vp_payload = u, vp_marker = False\<rparr>]" for qs
      proof -
        obtain packet where q: "qs = [packet]" using carries_single [OF c] by blast
        show ?thesis unfolding q using c [unfolded q] less.prems(7) us by (intro deliver_single [OF less.prems(4,5) u]) simp_all
      qed
      then show thesis
        using one packetize_loop.simps [of codec maximum us]
        by (intro that [of "[\<lparr>vp_payload = u, vp_marker = False\<rparr>]" us' "[u]"]) (simp_all add: us Let_def del: aggregate_end.simps)
    qed
  qed
  obtain qs rs where ps: "ps = qs @ rs" "carries pt ts qs vs" "carries pt ts rs (packetize_loop codec maximum rest)"
    using less.prems(1) loop(1) by (auto simp: carries_append)
  show ?case
  proof (cases "rest = []")
    case True
    then have "rs = []" using ps(3) by (simp add: carries_def packetize_loop.simps)
    then show ?thesis using group [OF ps(2)] ps(1) loop(2) True by simp
  next
    case False
    show ?thesis
      unfolding ps(1) loop(2)
    proof (rule delivers_append [OF group [OF ps(2)]])
      fix p :: "'h RtpNalUnitParser"
      assume "np_fragmentHeader p = None" "np_payloadType p = pt"
      then show "delivers ?push key pt ts rs rest (assembled key ts p gs d)"
        using less.prems loop ps(3) False by (intro less.hyps) (auto simp: ready_def list_all_iff)
    qed
  qed
qed

text \<open>The whole access unit: the last packet carries the marker.\<close>

lemma marked_push:
  assumes "\<not> rtp_marker packet" and "depacketizer_push parse (headerBytes codec) key newPacket packet d = (e, success [])"
    and "np_fragmentHeader (dp_nalParser e) = None" and "\<not> ct_waitingForBoundary (dp_continuity e)" and "ready pt (rtp_timestamp packet) d"
  shows "depacketizer_push parse (headerBytes codec) key newPacket (packet\<lparr>rtp_marker := True\<rparr>) d =
     (case depacketizer_finish newPacket packet e of (e, Inl err) \<Rightarrow> (depacketizer_discontinuity e, failure err) | (e, Inr us) \<Rightarrow> (e, success us))"
proof -
  let ?d = "d\<lparr>dp_timestamp := Some (rtp_timestamp packet)\<rparr>"
  have r: "ready pt (rtp_timestamp (packet\<lparr>rtp_marker := True\<rparr>)) d" using assms(5) by simp
  note push = assms(2) [unfolded depacketizer_push_def pushValidated_ready [OF assms(5)] Let_def]
  obtain capacity where cap: "rtpAccessUnitNalCapacity (length (dp_accessUnit d)) (dp_maximumAccessUnitBytes d) = success capacity"
    using push by (auto split: sum.splits)
  obtain q batch where parsed: "parse packet capacity (dp_nalParser d) = (q, success batch)"
    using push cap by (auto split: sum.splits prod.splits)
  have kept: "\<not> nb_discardedFragment batch"
    using push cap parsed assms(4) by (auto simp: depacketizer_discontinuity_def continuity_markLost_def)
  have app: "append_units (headerBytes codec) key (nb_nalUnits batch) (?d\<lparr>dp_nalParser := q\<rparr>) = (e, success ())"
    using push cap parsed kept assms(1) by (auto split: sum.splits prod.splits)
  have q: "dp_nalParser e = q" using append_units_parser [OF app] by simp
  have "packet\<lparr>rtp_marker := False\<rparr> = packet" using assms(1) by (cases packet) simp
  then have "parse (packet\<lparr>rtp_marker := True\<rparr>) capacity (dp_nalParser d) = (q, success (batch\<lparr>nb_marker := True\<rparr>))"
    using marker [of packet capacity "dp_nalParser d" q batch] parsed assms(3) kept q by simp
  then show ?thesis
    unfolding depacketizer_push_def pushValidated_ready [OF r] using cap kept app
    by (simp add: Let_def depacketizer_finish_def)
qed

lemma loop_unmarked: "list_all (\<lambda>v. \<not> vp_marker v) (packetize_loop codec' maximum us)"
proof (induction codec' maximum us rule: packetize_loop.induct)
  case (1 codec' maximum us)
  have "list_all (\<lambda>v. \<not> vp_marker v) (fragment_loop codec' nal c rs b)" for nal c rs b
    by (induction codec' nal c rs b rule: fragment_loop.induct) (simp add: fragment_loop.simps Let_def)
  then show ?case
    using 1 packetize_loop.simps [of codec' maximum us] by (cases us) (simp_all add: Let_def fragment_def del: aggregate_end.simps)
qed

lemma access_unit_roundtrip:
  assumes "packetize codec layout maximum accessUnit = success vs" and "nal_scan codec layout accessUnit = success us"
    and "list_all (validNal codec) us" and "us \<noteq> []" and "carries pt ts ps vs"
    and "ready pt ts d" and "np_fragmentHeader (dp_nalParser d) = None" and "dp_accessUnit d = []" and "\<not> dp_keyFrame d"
    and "length (annexB us) \<le> dp_maximumAccessUnitBytes d" and "0 < dp_clockRate d" and "newPacket (length (annexB us))"
  shows "\<exists>p. np_fragmentHeader p = None \<and> np_payloadType p = pt \<and>
     depacketize_all (depacketizer_push parse (headerBytes codec) key newPacket) ps d =
       (d\<lparr>dp_nalParser := p, dp_timestamp := None\<rparr>,
        success [\<lparr>au_data = annexB us, au_pts = uint ts, au_dts = uint ts, au_duration = 0, au_key = list_ex key us,
                  au_rtpTimestamp = ts, au_timeBaseDenominator = dp_clockRate d\<rparr>])"
proof -
  let ?push = "depacketizer_push parse (headerBytes codec) key newPacket" and ?ws = "packetize_loop codec maximum us"
  have m: "fuHeaderBytes codec < maximum" and ws: "?ws \<noteq> []" and vs: "vs = butlast ?ws @ [(last ?ws)\<lparr>vp_marker := True\<rparr>]"
    using assms(1,2) by (auto simp: packetize_def Let_def split: if_splits)
  obtain qs packet where ps: "ps = qs @ [packet]" "carries pt ts qs (butlast ?ws)" "carries pt ts [packet] [(last ?ws)\<lparr>vp_marker := True\<rparr>]"
    using assms(5) carries_single by (fastforce simp: vs carries_append)
  let ?packet = "packet\<lparr>rtp_marker := False\<rparr>"
  have "\<not> vp_marker (last ?ws)" using loop_unmarked [of codec maximum us] last_in_set [OF ws] by (simp add: list_all_iff)
  then have "carries pt ts [?packet] [last ?ws]" using ps(3) by (simp add: carries_def)
  then have "carries pt ts (qs @ [?packet]) ?ws" using ps(2) append_butlast_last_id [OF ws] by (metis carries_append)
  then have "delivers ?push key pt ts (qs @ [?packet]) us d"
    by (rule deliver_units [OF _ assms(3) m assms(6,7,4)]) (use assms(8,10) in simp)
  then obtain p e where p: "np_fragmentHeader p = None" "np_payloadType p = pt" "ready pt ts e"
      "depacketize_all ?push qs d = (e, success [])" "?push ?packet e = (assembled key ts p us d, success [])"
    by (auto simp: delivers_def)
  have c: "rtp_marker packet" "rtp_timestamp packet = ts" using ps(3) by (simp_all add: carries_def)
  have "annexB us \<noteq> []" using assms(4) by (cases us) simp_all
  then have fin: "depacketizer_finish newPacket ?packet (assembled key ts p us d) =
      (d\<lparr>dp_nalParser := p, dp_timestamp := None\<rparr>,
       success [\<lparr>au_data = annexB us, au_pts = uint ts, au_dts = uint ts, au_duration = 0, au_key = list_ex key us,
                 au_rtpTimestamp = ts, au_timeBaseDenominator = dp_clockRate d\<rparr>])"
    using assms(8,9,11,12) c by (simp add: depacketizer_finish_def makeRtpAccessUnit_def Let_def assembled_def)
  have id: "?packet\<lparr>rtp_marker := True\<rparr> = packet" using c(1) by (cases packet) simp
  have "?push (?packet\<lparr>rtp_marker := True\<rparr>) e = (d\<lparr>dp_nalParser := p, dp_timestamp := None\<rparr>,
       success [\<lparr>au_data = annexB us, au_pts = uint ts, au_dts = uint ts, au_duration = 0, au_key = list_ex key us,
                 au_rtpTimestamp = ts, au_timeBaseDenominator = dp_clockRate d\<rparr>])"
    using marked_push [of ?packet newPacket e "assembled key ts p us d" pt] p fin c assms(6) by (simp add: ready_def)
  then show ?thesis
    unfolding id using p(1,2) depacketize_all_append [OF p(4), of "[packet]"] by (auto simp: ps(1))
qed

lemma stream_roundtrip:
  assumes "\<forall>unit\<in>set stream. sent codec layout maximum pt unit \<and> fits codec layout maximumBytes newPacket unit"
    and "idle pt d" and "0 < clockRate" and "dp_clockRate d = clockRate" and "dp_maximumAccessUnitBytes d = maximumBytes"
  shows "\<exists>e. idle pt e \<and> depacketize_all (depacketizer_push parse (headerBytes codec) key newPacket) (concat (map (snd \<circ> snd) stream)) d =
     (e, success (map (received codec layout key clockRate) stream))"
  using assms
proof (induction stream arbitrary: d)
  case (Cons unit stream)
  let ?push = "depacketizer_push parse (headerBytes codec) key newPacket"
  obtain accessUnit ts ps where unit: "unit = (accessUnit, ts, ps)" by (cases unit)
  obtain vs where vs: "packetize codec layout maximum accessUnit = success vs" "carries pt ts ps vs"
    using Cons.prems(1) by (auto simp: unit sent_def split: sum.splits)
  then obtain us where scan: "nal_scan codec layout accessUnit = success us" "packetize_loop codec maximum us \<noteq> []"
    by (auto simp: packetize_def Let_def split: if_splits sum.splits)
  then have us: "nal_scan codec layout accessUnit = success us" "us \<noteq> []"
    using packetize_loop.simps [of codec maximum "[]"] by auto
  have units: "nal_units codec layout accessUnit = us" using us by (simp add: nal_units_def)
  obtain p where p: "np_fragmentHeader p = None" "np_payloadType p = pt"
      "depacketize_all ?push ps d = (d\<lparr>dp_nalParser := p, dp_timestamp := None\<rparr>, success [received codec layout key clockRate unit])"
    using access_unit_roundtrip [OF vs(1) us(1) nal_scan_valid [OF us(1)] us(2) vs(2), of d newPacket] Cons.prems
    by (auto simp: unit units ready_def idle_def fits_def received_def Let_def)
  have "idle pt (d\<lparr>dp_nalParser := p, dp_timestamp := None\<rparr>)" using p Cons.prems(2) by (simp add: idle_def)
  then obtain e where "idle pt e" "depacketize_all ?push (concat (map (snd \<circ> snd) stream)) (d\<lparr>dp_nalParser := p, dp_timestamp := None\<rparr>) =
      (e, success (map (received codec layout key clockRate) stream))"
    using Cons.IH [of "d\<lparr>dp_nalParser := p, dp_timestamp := None\<rparr>"] Cons.prems by (auto simp: comp_def)
  then show ?case using depacketize_all_append [OF p(3)] by (auto simp: unit comp_def)
qed simp

end

end
