(* ===== verification/Video_Rtp_Limits.thy ===== *)
theory Video_Rtp_Limits
  imports Video_Rtp_Roundtrip
begin

unbundle bit_operations_syntax

text \<open>
  Limits of the video RTP components: the size of the payloads the packetizer makes and their number, the memory the
  depacketizers hold whatever packets arrive, and what they do after a loss.
\<close>

section \<open>Payload sizes\<close>

lemma fragment_payload_length: "length (fragment_payload codec nal first final part) = fuHeaderBytes codec + length part"
  by (simp add: fragment_payload_def fuHeaderBytes_def Let_def)

lemma fragment_loop_sizes:
  "list_all (\<lambda>v. vp_payload v \<noteq> [] \<and> length (vp_payload v) \<le> fuHeaderBytes codec + capacity \<and> \<not> vp_marker v)
     (fragment_loop codec nal capacity remaining first)"
proof (induction codec nal capacity remaining first rule: fragment_loop.induct)
  case (1 codec nal capacity remaining first)
  have "fragment_payload codec nal first final part \<noteq> []" for final part by (simp add: fragment_payload_def Let_def)
  then show ?case
    using 1 fragment_loop.simps [of codec nal capacity remaining first] by (simp add: Let_def fragment_payload_length)
qed

lemma aggregate_end_fits:
  "k \<le> maximum \<Longrightarrow>
   k + length (concat (map (\<lambda>unit. [of_nat (length unit div 256), of_nat (length unit) :: u8] @ unit) (take (aggregate_end maximum k us) us))) \<le> maximum"
proof (induction us arbitrary: k)
  case (Cons u us)
  show ?case using Cons.IH [of "k + (2 + length u)"] Cons.prems by (auto simp: algebra_simps)
qed simp

lemma aggregate_header_length: "length (aggregate_header codec us) = headerBytes codec"
  by (simp add: aggregate_header_def headerBytes_def Let_def)

lemma packetize_loop_sizes:
  "fuHeaderBytes codec < maximum \<Longrightarrow> list_all (\<lambda>u. u \<noteq> []) us \<Longrightarrow>
   list_all (\<lambda>v. vp_payload v \<noteq> [] \<and> length (vp_payload v) \<le> maximum \<and> \<not> vp_marker v) (packetize_loop codec maximum us)"
proof (induction codec maximum us rule: packetize_loop.induct)
  case (1 codec maximum us)
  show ?case
  proof (cases us)
    case (Cons u rest)
    let ?n = "aggregate_end maximum (headerBytes codec) us"
    have h: "headerBytes codec \<le> maximum" using 1(4) by (simp add: headerBytes_def fuHeaderBytes_def split: if_splits)
    have frag: "list_all (\<lambda>v. vp_payload v \<noteq> [] \<and> length (vp_payload v) \<le> maximum \<and> \<not> vp_marker v) (fragment codec u maximum)"
      using fragment_loop_sizes [of codec "maximum - fuHeaderBytes codec" u "drop (headerBytes codec) u" True] 1(4) by (simp add: fragment_def)
    have agg: "aggregate_payload codec (take ?n us) \<noteq> []" "length (aggregate_payload codec (take ?n us)) \<le> maximum"
      using aggregate_header_length [of codec "take ?n us"] aggregate_end_fits [OF h, of us] headerBytes_pos [of codec]
      by (auto simp: aggregate_payload_def simp del: headerBytes_pos)
    have rest: "list_all (\<lambda>u. u \<noteq> []) (drop ?n us)" using 1(5) by (metis append_take_drop_id list_all_append)
    show ?thesis
      using 1 frag agg rest packetize_loop.simps [of codec maximum us] Cons by (simp add: Let_def del: aggregate_end.simps)
  qed (simp add: packetize_loop.simps)
qed

text \<open>
  Every payload of an access unit is non-empty and within the payload limit, and exactly the last one carries the marker.
\<close>

theorem packetize_sizes:
  assumes "packetize codec layout maximum accessUnit = success vs"
  shows "vs \<noteq> [] \<and> list_all (\<lambda>v. vp_payload v \<noteq> [] \<and> length (vp_payload v) \<le> maximum) vs \<and>
     map vp_marker vs = replicate (length vs - 1) False @ [True]"
proof -
  obtain us where us: "nal_scan codec layout accessUnit = success us" "fuHeaderBytes codec < maximum"
    and vs: "packetize_loop codec maximum us \<noteq> []" "vs = butlast (packetize_loop codec maximum us) @ [(last (packetize_loop codec maximum us))\<lparr>vp_marker := True\<rparr>]"
    using assms by (auto simp: packetize_def Let_def split: if_splits sum.splits)
  let ?ws = "packetize_loop codec maximum us"
  have "list_all (\<lambda>u. u \<noteq> []) us"
    using nal_scan_valid [OF us(1)] headerBytes_pos [of codec] by (auto simp: list_all_iff validNal_iff simp del: headerBytes_pos)
  then have sizes: "list_all (\<lambda>v. vp_payload v \<noteq> [] \<and> length (vp_payload v) \<le> maximum \<and> \<not> vp_marker v) (butlast ?ws @ [last ?ws])"
    using packetize_loop_sizes [OF us(2)] vs(1) by simp
  moreover from sizes have "map vp_marker (butlast ?ws) = replicate (length (butlast ?ws)) False"
    by - (rule replicate_eqI; auto simp: list_all_iff)
  ultimately show ?thesis unfolding vs(2) by (simp add: list_all_iff)
qed

lemma small_frame_units: "nal_scan H264 StartCodeDelimited [0, 0, 1, 0x41, 9, 8, 7, 6] = success [[0x41, 9, 8, 7, 6]]"
  by code_simp

theorem packetize_sizes_witness:
  "list_all (\<lambda>v. vp_payload v \<noteq> [] \<and> length (vp_payload v) \<le> 4)
     [\<lparr>vp_payload = [0x5C, 0x81, 9, 8], vp_marker = False\<rparr>, \<lparr>vp_payload = [0x5C, 0x41, 7, 6], vp_marker = True\<rparr>]"
proof -
  have "packetize H264 StartCodeDelimited 4 [0, 0, 1, 0x41, 9, 8, 7, 6] =
      success [\<lparr>vp_payload = [0x5C, 0x81, 9, 8], vp_marker = False\<rparr>, \<lparr>vp_payload = [0x5C, 0x41, 7, 6], vp_marker = True\<rparr>]"
    unfolding packetize_def small_frame_units
    by (simp add: packetize_loop.simps [of _ _ "_ # _"] packetize_loop.simps [of _ _ "[]"] fragment_def fragment_loop.simps [of _ _ _ "_ # _"]
      fragment_loop.simps [of _ _ _ "[]"] fragment_payload_def headerBytes_def fuHeaderBytes_def Let_def)
  from packetize_sizes [OF this] show ?thesis by blast
qed

section \<open>Number of datagrams\<close>

text \<open>An access unit of small units between units one byte above the payload limit.\<close>

definition overfull_units :: "nat \<Rightarrow> u8 list list" where
  "overfull_units k = concat (replicate k [0x65 # replicate 100 1, [0x09]])"

lemma fragment_loop_length:
  "0 < capacity \<Longrightarrow> length (fragment_loop codec nal capacity remaining first) = (length remaining + capacity - 1) div capacity"
proof (induction "length remaining" arbitrary: remaining first rule: less_induct)
  case less
  show ?case
  proof (cases "capacity < length remaining")
    case True
    then have "length (fragment_loop codec nal capacity (drop capacity remaining) False) = (length remaining - capacity + capacity - 1) div capacity"
      using less.hyps [of "drop capacity remaining"] less.prems by simp
    moreover have "(length remaining + capacity - 1) div capacity = Suc ((length remaining - 1) div capacity)"
      using True less.prems div_add_self2 [of capacity "length remaining - 1"] Nat.diff_add_assoc2 [of 1 "length remaining" capacity] by simp
    moreover have "remaining \<noteq> []" using True by auto
    ultimately show ?thesis
      using True less.prems by (simp add: fragment_loop.simps [of codec nal capacity remaining first] Let_def min_def)
  next
    case False
    then have "(length remaining + capacity - 1) div capacity = (if remaining = [] then 0 else 1)"
      using less.prems by (cases remaining) (auto intro!: div_nat_eqI)
    then show ?thesis
      using False less.prems
      by (auto simp: fragment_loop.simps [of codec nal capacity remaining first] fragment_loop.simps [of codec nal capacity "[]"] Let_def min_def)
  qed
qed

lemma overfull_packets: "length (packetize_loop H264 100 (overfull_units k)) = 3 * k"
proof (induction k)
  case (Suc k)
  have "aggregate_end 100 (headerBytes H264) ([0x09] # overfull_units k) = 1"
    by (cases k) (simp_all add: overfull_units_def headerBytes_def)
  then have small: "packetize_loop H264 100 ([0x09] # overfull_units k) = \<lparr>vp_payload = [0x09], vp_marker = False\<rparr> # packetize_loop H264 100 (overfull_units k)"
    by (simp add: packetize_loop.simps [of H264 100 "[0x09] # overfull_units k"] Let_def del: aggregate_end.simps)
  have "length (fragment H264 (0x65 # replicate 100 1) 100) = 2"
    by (simp add: fragment_def fragment_loop_length fuHeaderBytes_def headerBytes_def)
  moreover have "overfull_units (Suc k) = (0x65 # replicate 100 1) # [0x09] # overfull_units k" by (simp add: overfull_units_def)
  ultimately show ?case
    using Suc packetize_loop.simps [of H264 100 "(0x65 # replicate 100 1) # [0x09] # overfull_units k"] small by simp
qed (simp add: overfull_units_def packetize_loop.simps)

lemma nal_run_ones: "nal_run (replicate n 1) = n"
  by (induction n) (auto simp: startCodeSize_def)

lemma overfull_clean: "list_all (nal_clean H264) (overfull_units k)"
proof -
  have "nal_clean H264 (0x65 # replicate 100 1)" "nal_clean H264 [0x09]"
    by (simp_all add: nal_clean_def validNal_def headerBytes_def nal_run_ones Let_def)
  then show ?thesis by (auto simp: overfull_units_def list_all_iff)
qed

text \<open>
  C26. The planned number of datagrams is not a bound: four units one byte above a payload limit of 100 bytes, each followed by a
  unit of one byte, make an access unit of 440 bytes that is sent as 12 payloads, while \<^verbatim>\<open>maximumDatagramsPerAccessUnit\<close> allows 11. A short
  last fragment and the small unit behind it are adjacent payloads that together consume far less than one fragment capacity.
\<close>

theorem datagram_bound_exceeded:
  "\<exists>vs. packetize H264 StartCodeDelimited 100 (annexB (overfull_units 4)) = success vs \<and> length vs = 12 \<and>
     length (annexB (overfull_units 4)) = 440 \<and> maximumDatagramsPerAccessUnit 440 H264 100 = success 11"
proof -
  have n: "length (annexB (overfull_units 4)) = 440"
    by (simp add: overfull_units_def eval_nat_numeral)
  then have "annexB (overfull_units 4) \<noteq> []" by auto
  moreover have "overfull_units 4 \<noteq> []" by (simp add: overfull_units_def)
  ultimately have "nal_scan H264 StartCodeDelimited (annexB (overfull_units 4)) = success (overfull_units 4)"
    using scan_annexB [OF overfull_clean [of 4]] by (simp add: nal_scan_def annexB_validate_def)
  moreover have "maximumDatagramsPerAccessUnit 440 H264 100 = success 11"
    by (simp add: maximumDatagramsPerAccessUnit_def maximumDatagramsForPayloadWindow_def ceilScale_ok ceil_div_def checked_multiply_def checked_add_def
      fuHeaderBytes_def Let_def)
  moreover have "packetize_loop H264 100 (overfull_units 4) \<noteq> []" using overfull_packets [of 4] by auto
  ultimately show ?thesis using n overfull_packets [of 4] by (simp add: packetize_def fuHeaderBytes_def Let_def)
qed
section \<open>Memory\<close>

text \<open>A depacketizer is driven by packets and by discontinuities.\<close>

definition depacketizer_run ::
  "(MediaRtpPacket \<Rightarrow> 'h VideoRtpDepacketizer \<Rightarrow> 'h VideoRtpDepacketizer \<times> MediaRtpAccessUnit list Result) \<Rightarrow>
   MediaRtpPacket option list \<Rightarrow> 'h VideoRtpDepacketizer \<Rightarrow> 'h VideoRtpDepacketizer" where
  "depacketizer_run push = fold (\<lambda>event d. case event of None \<Rightarrow> depacketizer_discontinuity d | Some packet \<Rightarrow> fst (push packet d))"

definition memory_bounded :: "nat \<Rightarrow> 'h VideoRtpDepacketizer \<Rightarrow> bool" where
  "memory_bounded maximum d \<longleftrightarrow>
     dp_maximumAccessUnitBytes d = maximum \<and> length (dp_accessUnit d) \<le> maximum \<and> length (np_fragment (dp_nalParser d)) \<le> maximum"

definition parser_bounded ::
  "(MediaRtpPacket \<Rightarrow> nat \<Rightarrow> 'h RtpNalUnitParser \<Rightarrow> 'h RtpNalUnitParser \<times> MediaRtpNalUnitBatch Result) \<Rightarrow> bool" where
  "parser_bounded parse \<longleftrightarrow>
     (\<forall>packet capacity p q batch. parse packet capacity p = (q, success batch) \<longrightarrow>
        length (np_fragment q) \<le> max (length (np_fragment p)) capacity)"

lemma push_fragment_bounded:
  "push_fragment fuBytes start final header bytes packet capacity p = (q, success batch) \<Longrightarrow>
   length (np_fragment q) \<le> max (length (np_fragment p)) capacity"
  by (auto simp: push_fragment_def Let_def max_def split: if_splits)

lemma h264_bounded: "parser_bounded h264_push"
  unfolding parser_bounded_def h264_push_def Let_def
  by (auto split: if_splits sum.splits dest: push_fragment_bounded)

lemma hevc_bounded: "parser_bounded hevc_push"
  unfolding parser_bounded_def hevc_push_def Let_def
  by (auto split: if_splits sum.splits dest: push_fragment_bounded)

lemma append_units_bounded:
  "append_units smallest key us d = (e, r) \<Longrightarrow> memory_bounded maximum d \<Longrightarrow> memory_bounded maximum e"
proof (induction us arbitrary: d)
  case (Cons u us)
  show ?case
  proof (cases "appendRtpAccessUnitNal (dp_accessUnit d) u (dp_maximumAccessUnitBytes d)")
    case (Inl err)
    then show ?thesis using Cons.prems by (auto simp: memory_bounded_def split: if_splits)
  next
    case (Inr accessUnit)
    then have "length accessUnit \<le> dp_maximumAccessUnitBytes d"
      by (auto simp: appendRtpAccessUnitNal_def rtpAccessUnitNalCapacity_def split: if_splits)
    then show ?thesis
      using Inr Cons.prems Cons.IH [of "d\<lparr>dp_keyFrame := dp_keyFrame d \<or> key u, dp_accessUnit := accessUnit\<rparr>"]
      by (auto simp: memory_bounded_def split: if_splits)
  qed
qed simp

lemma discontinuity_bounded: "memory_bounded maximum d \<Longrightarrow> memory_bounded maximum (depacketizer_discontinuity d)"
  by (simp add: memory_bounded_def depacketizer_discontinuity_def nalParser_discontinuity_def)

lemma finish_bounded: "memory_bounded maximum d \<Longrightarrow> memory_bounded maximum (fst (depacketizer_finish newPacket packet d))"
  using discontinuity_bounded [of maximum d]
  by (auto simp: depacketizer_finish_def memory_bounded_def Let_def split: sum.splits)

lemma pushValidated_bounded:
  assumes "memory_bounded maximum d" and "parser_bounded parse"
    and "depacketizer_pushValidated parse smallest key newPacket packet d = (e, r)"
  shows "dp_maximumAccessUnitBytes e = maximum \<and> (isl r \<or> memory_bounded maximum e)"
proof -
  define d0 where "d0 = (if dp_timestamp d \<noteq> None \<and> dp_timestamp d \<noteq> Some (rtp_timestamp packet) \<and> dp_accessUnit d \<noteq> []
    then depacketizer_discontinuity d else d)"
  obtain c ok where c: "continuity_accept (rtp_timestamp packet) (dp_continuity d0) = (c, ok)" by (cases "continuity_accept (rtp_timestamp packet) (dp_continuity d0)")
  define d1 where "d1 = (if dp_timestamp (d0\<lparr>dp_continuity := c\<rparr>) = None then d0\<lparr>dp_continuity := c, dp_timestamp := Some (rtp_timestamp packet)\<rparr>
    else d0\<lparr>dp_continuity := c\<rparr>)"
  have "memory_bounded maximum d0" using assms(1) discontinuity_bounded by (auto simp: d0_def)
  then have d1: "memory_bounded maximum d1" "memory_bounded maximum (d0\<lparr>dp_continuity := c\<rparr>)" by (auto simp: d1_def memory_bounded_def)
  note run = assms(3) [unfolded depacketizer_pushValidated_def, folded d0_def, unfolded Let_def c prod.case, folded d1_def]
  show ?thesis
  proof (cases "ok \<and> \<not> isl (rtpAccessUnitNalCapacity (length (dp_accessUnit d1)) (dp_maximumAccessUnitBytes d1))")
    case False
    then show ?thesis using run d1 by (cases ok) (auto simp: memory_bounded_def split: sum.splits)
  next
    case True
    then obtain capacity where cap: "rtpAccessUnitNalCapacity (length (dp_accessUnit d1)) (dp_maximumAccessUnitBytes d1) = success capacity"
      by (cases "rtpAccessUnitNalCapacity (length (dp_accessUnit d1)) (dp_maximumAccessUnitBytes d1)") auto
    obtain q s where q: "parse packet capacity (dp_nalParser d1) = (q, s)" by (cases "parse packet capacity (dp_nalParser d1)")
    show ?thesis
    proof (cases s)
      case (Inl err)
      then show ?thesis using run True cap q d1 by (auto simp: memory_bounded_def)
    next
      case (Inr batch)
      have "length (np_fragment q) \<le> max (length (np_fragment (dp_nalParser d1))) capacity"
        using assms(2) q Inr unfolding parser_bounded_def by blast
      moreover have "capacity \<le> maximum" using cap d1(1) by (auto simp: rtpAccessUnitNalCapacity_def memory_bounded_def split: if_splits)
      ultimately have d2: "memory_bounded maximum (d1\<lparr>dp_nalParser := q\<rparr>)" using d1(1) by (auto simp: memory_bounded_def)
      obtain d3 u where d3: "append_units smallest key (nb_nalUnits batch) (d1\<lparr>dp_nalParser := q\<rparr>) = (d3, u)"
        by (cases "append_units smallest key (nb_nalUnits batch) (d1\<lparr>dp_nalParser := q\<rparr>)")
      have "memory_bounded maximum d3" by (rule append_units_bounded [OF d3 d2])
      then have "memory_bounded maximum e"
        using run True cap q Inr d3 discontinuity_bounded [OF d2] finish_bounded [of maximum d3 newPacket packet]
        by (auto split: if_splits sum.splits)
      then show ?thesis by (simp add: memory_bounded_def)
    qed
  qed
qed

lemma push_bounded:
  assumes "memory_bounded maximum d" and "parser_bounded parse"
  shows "memory_bounded maximum (fst (depacketizer_push parse smallest key newPacket packet d))"
proof -
  obtain e r where er: "depacketizer_pushValidated parse smallest key newPacket packet d = (e, r)"
    by (cases "depacketizer_pushValidated parse smallest key newPacket packet d")
  then show ?thesis
    using pushValidated_bounded [OF assms er]
    by (cases r) (auto simp: depacketizer_push_def memory_bounded_def depacketizer_discontinuity_def nalParser_discontinuity_def)
qed

lemma create_bounded: "memory_bounded maximumBytes (depacketizer_create payloadType clockRate maximumBytes)"
  by (simp add: memory_bounded_def depacketizer_create_def nalParser_create_def)

lemma depacketizer_run_bounded:
  assumes "parser_bounded parse" and "memory_bounded maximum d"
  shows "memory_bounded maximum (depacketizer_run (depacketizer_push parse smallest key newPacket) events d)"
  using assms(2)
proof (induction events arbitrary: d)
  case (Cons event events)
  then show ?case
    using push_bounded [OF Cons.prems assms(1)] discontinuity_bounded [OF Cons.prems] by (cases event) (simp_all add: depacketizer_run_def)
qed (simp add: depacketizer_run_def)

text \<open>
  C25. Whatever packets arrive, well-formed or not, and wherever discontinuities are reported, an H.264 or HEVC depacketizer never
  buffers more than its access unit limit, neither in the access unit it assembles nor in the fragment it collects.
\<close>

theorem depacketizer_memory:
  "memory_bounded maximumBytes (depacketizer_run (h264_depacketize newPacket) events (depacketizer_create payloadType clockRate maximumBytes)) \<and>
   memory_bounded maximumBytes (depacketizer_run (hevc_depacketize newPacket) events (depacketizer_create payloadType clockRate maximumBytes))"
  unfolding h264_depacketize_def hevc_depacketize_def
  by (intro conjI depacketizer_run_bounded h264_bounded hevc_bounded create_bounded)

section \<open>Loss\<close>

text \<open>A depacketizer that waits for the end of the access unit at a timestamp, and one that has not begun another.\<close>

definition lost_at :: "u32 option \<Rightarrow> u8 \<Rightarrow> 'h VideoRtpDepacketizer \<Rightarrow> bool" where
  "lost_at timestamp payloadType d \<longleftrightarrow>
     dp_continuity d = \<lparr>ct_waitingForBoundary = True, ct_unprovenTimestamp = timestamp\<rparr> \<and>
     np_payloadType (dp_nalParser d) = payloadType \<and> np_fragmentHeader (dp_nalParser d) = None \<and>
     dp_timestamp d = None \<and> dp_accessUnit d = [] \<and> \<not> dp_keyFrame d"

definition resumed :: "'h VideoRtpDepacketizer \<Rightarrow> 'h VideoRtpDepacketizer" where
  "resumed d = d\<lparr>dp_continuity := \<lparr>ct_waitingForBoundary = False, ct_unprovenTimestamp = None\<rparr>\<rparr>"

lemma discontinuity_lost: "lost_at None (np_payloadType (dp_nalParser d)) (depacketizer_discontinuity d)"
  by (cases "dp_continuity d") (simp add: lost_at_def depacketizer_discontinuity_def continuity_markLost_def nalParser_discontinuity_def)

lemma resumed_idle: "lost_at t pt d \<Longrightarrow> idle pt (resumed d)"
  by (simp add: lost_at_def resumed_def idle_def)

lemma lost_drop:
  assumes "lost_at t pt d" and "t = None \<or> t = Some (rtp_timestamp packet)"
  shows "\<exists>e. lost_at (Some (rtp_timestamp packet)) pt e \<and> resumed e = resumed d \<and>
     depacketizer_push parse smallest key newPacket packet d = (e, success [])"
proof -
  let ?e = "d\<lparr>dp_continuity := \<lparr>ct_waitingForBoundary = True, ct_unprovenTimestamp = Some (rtp_timestamp packet)\<rparr>\<rparr>"
  have c: "continuity_accept (rtp_timestamp packet) (dp_continuity d) = (dp_continuity ?e, False)"
    using assms by (auto simp: lost_at_def continuity_accept_def Let_def)
  have "depacketizer_push parse smallest key newPacket packet d = (?e, success [])"
    using assms c by (simp add: depacketizer_push_def depacketizer_pushValidated_def lost_at_def Let_def)
  moreover have "lost_at (Some (rtp_timestamp packet)) pt ?e" "resumed ?e = resumed d" using assms(1) by (simp_all add: lost_at_def resumed_def)
  ultimately show ?thesis by blast
qed

lemma lost_drop_all:
  assumes "lost_at t pt d" and "t = None \<or> t = Some ts" and "list_all (\<lambda>p. rtp_timestamp p = ts) ps"
  shows "\<exists>e. lost_at (if ps = [] then t else Some ts) pt e \<and> resumed e = resumed d \<and>
     depacketize_all (depacketizer_push parse smallest key newPacket) ps d = (e, success [])"
  using assms
proof (induction ps arbitrary: t d)
  case (Cons packet ps)
  obtain e where e: "lost_at (Some ts) pt e" "resumed e = resumed d" "depacketizer_push parse smallest key newPacket packet d = (e, success [])"
    using lost_drop [OF Cons.prems(1), of packet parse smallest key newPacket] Cons.prems(2,3) by auto
  obtain f where "lost_at (Some ts) pt f" "resumed f = resumed e" "depacketize_all (depacketizer_push parse smallest key newPacket) ps e = (f, success [])"
    using Cons.IH [OF e(1)] Cons.prems(3) by auto
  then show ?case using e by auto
qed auto

lemma resume_push:
  assumes "lost_at (Some ts) pt d" and "rtp_timestamp packet \<noteq> ts"
  shows "depacketizer_push parse smallest key newPacket packet d = depacketizer_push parse smallest key newPacket packet (resumed d)"
proof -
  have c: "continuity_accept (rtp_timestamp packet) (dp_continuity d) = (dp_continuity (resumed d), True)"
      "continuity_accept (rtp_timestamp packet) (dp_continuity (resumed d)) = (dp_continuity (resumed d), True)"
    using assms by (auto simp: lost_at_def continuity_accept_def resumed_def Let_def)
  moreover have "dp_timestamp d = None" "dp_timestamp (resumed d) = None" using assms(1) by (simp_all add: lost_at_def resumed_def)
  ultimately have "depacketizer_pushValidated parse smallest key newPacket packet d = depacketizer_pushValidated parse smallest key newPacket packet (resumed d)"
    unfolding resumed_def by (simp add: depacketizer_pushValidated_def Let_def)
  then show ?thesis by (simp add: depacketizer_push_def)
qed

lemma sent_packets:
  assumes "sent codec layout maximum pt (accessUnit, ts, ps)"
  shows "ps \<noteq> [] \<and> rtp_timestamp (hd ps) = ts"
proof -
  obtain vs where "packetize codec layout maximum accessUnit = success vs" "carries pt ts ps vs"
    using assms by (auto simp: sent_def split: sum.splits)
  moreover from this(1) have "vs \<noteq> []" by (auto simp: packetize_def Let_def split: if_splits sum.splits)
  ultimately show ?thesis by (cases ps) (auto simp: carries_def)
qed

context nal_payload_format
begin

lemma recovers:
  assumes "list_all (\<lambda>p. rtp_timestamp p = ts) lost" and "lost \<noteq> []"
    and "\<forall>unit\<in>set stream. sent codec layout maximum pt unit \<and> fits codec layout maximumBytes newPacket unit"
    and "stream = [] \<or> fst (snd (hd stream)) \<noteq> ts"
    and "0 < clockRate" and "dp_clockRate d = clockRate" and "dp_maximumAccessUnitBytes d = maximumBytes" and "np_payloadType (dp_nalParser d) = pt"
  shows "\<exists>e. depacketize_all (depacketizer_push parse (headerBytes codec) key newPacket) (lost @ concat (map (snd \<circ> snd) stream))
     (depacketizer_discontinuity d) = (e, success (map (received codec layout key clockRate) stream))"
proof -
  let ?push = "depacketizer_push parse (headerBytes codec) key newPacket" and ?d = "depacketizer_discontinuity d"
  let ?packets = "concat (map (snd \<circ> snd) stream)"
  obtain e where e: "lost_at (Some ts) pt e" "resumed e = resumed ?d" "depacketize_all ?push lost ?d = (e, success [])"
    using lost_drop_all [OF discontinuity_lost _ assms(1), of d parse "headerBytes codec" key newPacket] assms(2,8) by auto
  have keeps: "dp_clockRate (resumed e) = clockRate" "dp_maximumAccessUnitBytes (resumed e) = maximumBytes"
    using assms(6,7) by (simp_all add: e(2)) (simp_all add: resumed_def depacketizer_discontinuity_def)
  have "\<exists>f. depacketize_all ?push ?packets e = (f, success (map (received codec layout key clockRate) stream))"
  proof (cases stream)
    case (Cons unit units)
    obtain accessUnit t ps where unit: "unit = (accessUnit, t, ps)" by (cases unit)
    have ps: "ps \<noteq> []" "rtp_timestamp (hd ps) \<noteq> ts"
      using sent_packets [of codec layout maximum pt accessUnit t ps] assms(3,4) by (auto simp: Cons unit)
    then obtain q qs where q: "?packets = q # qs" "rtp_timestamp q \<noteq> ts" by (cases ps) (simp_all add: Cons unit)
    have "depacketize_all ?push ?packets e = depacketize_all ?push ?packets (resumed e)"
      unfolding q(1) depacketize_all.simps resume_push [OF e(1) q(2)] ..
    then show ?thesis
      using stream_roundtrip [OF assms(3) resumed_idle [OF e(1)] assms(5) keeps] by auto
  qed simp
  then show ?thesis using depacketize_all_append [OF e(3), of ?packets] by auto
qed

end

end
