(* ===== verification/Video_Rtp_Formats.thy ===== *)
theory Video_Rtp_Formats
  imports Video_Rtp_Limits
begin

unbundle bit_operations_syntax

text \<open>
  The H.264 and HEVC payload formats: the NAL unit parsers read what the packetizer writes, so the round trip of access
  units holds for both; and the bound on the number of datagrams of an access unit.
\<close>

section \<open>Bytes\<close>

lemma byte_eq_iff:
  "(a :: u8) = b \<longleftrightarrow> bit a 0 = bit b 0 \<and> bit a 1 = bit b 1 \<and> bit a 2 = bit b 2 \<and> bit a 3 = bit b 3 \<and>
     bit a 4 = bit b 4 \<and> bit a 5 = bit b 5 \<and> bit a 6 = bit b 6 \<and> bit a 7 = bit b 7"
proof
  assume eq: "bit a 0 = bit b 0 \<and> bit a 1 = bit b 1 \<and> bit a 2 = bit b 2 \<and> bit a 3 = bit b 3 \<and>
     bit a 4 = bit b 4 \<and> bit a 5 = bit b 5 \<and> bit a 6 = bit b 6 \<and> bit a 7 = bit b 7"
  have "n < 8 \<Longrightarrow> bit a n = bit b n" for n
    using eq by (auto simp: less_Suc_eq numeral_eq_Suc)
  then show "a = b" by (intro bit_word_eqI) simp
qed simp

lemma byte_high: "8 \<le> n \<Longrightarrow> \<not> bit (a :: u8) n"
  using bit_imp_le_length [of a n] by auto

lemma bit_byte_double: "bit (a * 2 :: u8) n \<longleftrightarrow> n < 8 \<and> n \<noteq> 0 \<and> bit a (n - 1)"
  using bit_double_iff [of a n] by (auto simp: mult.commute possible_bit_word)

lemmas byte_simps = byte_eq_iff byte_high bit_byte_double possible_bit_word bit_and_iff bit_or_iff bit_push_bit_iff bit_drop_bit_eq

lemma h264_indicator:
  "(h AND 0xE0 OR 28) AND 0x80 = (h :: u8) AND 0x80 \<and> (h AND 0xE0 OR 28) AND 0x1F = 28 \<and> ((h AND 0xE0 OR 28) AND 0xE0) OR (h AND 0x1F) = h"
  by (auto simp: byte_simps)

lemma h264_flags:
  fixes h :: u8
  defines "f first final \<equiv> (h AND 0x1F) OR (if first then 0x80 else 0) OR (if final then 0x40 else 0)"
  shows "f first final AND 0x20 = 0 \<and> (f first final AND 0x80 \<noteq> 0 \<longleftrightarrow> first) \<and> (f first final AND 0x40 \<noteq> 0 \<longleftrightarrow> final) \<and>
     f first final AND 0x1F = h AND 0x1F"
  unfolding f_def by (auto simp: byte_simps)

lemma h264_aggregate_indicator: "m AND 0x60 = (m :: u8) \<longrightarrow> (m OR 24) AND 0x80 = 0 \<and> (m OR 24) AND 0x1F = 24"
  by (auto simp: byte_simps)

lemma hevc_indicator:
  "(h AND 0x81 OR push_bit 1 49) AND 0x80 = (h :: u8) AND 0x80 \<and> drop_bit 1 (h AND 0x81 OR push_bit 1 49) AND 0x3F = 49 \<and>
   ((h AND 0x81 OR push_bit 1 49) AND 0x81) OR push_bit 1 (drop_bit 1 h AND 0x3F) = h"
  by (auto simp: byte_simps numeral_2_eq_2 [symmetric] numeral_3_eq_3 [symmetric])

lemma hevc_flags:
  fixes h :: u8
  defines "f first final \<equiv> (drop_bit 1 h AND 0x3F) OR (if first then 0x80 else 0) OR (if final then 0x40 else 0)"
  shows "(f first final AND 0x80 \<noteq> 0 \<longleftrightarrow> first) \<and> (f first final AND 0x40 \<noteq> 0 \<longleftrightarrow> final) \<and> f first final AND 0x3F = drop_bit 1 h AND 0x3F"
  unfolding f_def by (auto simp: byte_simps)

lemma hevc_aggregate_indicator:
  "m AND 0x3F = (m :: u8) \<longrightarrow> (push_bit 1 48 OR drop_bit 5 m) AND 0x80 = 0 \<and> drop_bit 1 (push_bit 1 48 OR drop_bit 5 m) AND 0x3F = 48"
  by (auto simp: byte_simps)

section \<open>Aggregation packets\<close>

lemma nal_length_written:
  assumes "n \<le> 65535"
  shows "nal_length (of_nat (n div 256) # of_nat n # rest) = n"
proof -
  let ?a = "of_nat (n div 256) :: u8" and ?b = "of_nat n :: u8"
  have a: "unat ?a = n div 256" and b: "unat ?b = n mod 256"
    using assms by (simp_all add: unat_of_nat take_bit_eq_mod)
  have disjoint: "push_bit 8 (ucast ?a) AND ucast ?b = (0 :: u64)"
    by (rule bit_word_eqI) (auto simp: bit_simps)
  have sum: "push_bit 8 (ucast ?a) OR ucast ?b = (push_bit 8 (ucast ?a) + ucast ?b :: u64)"
    using disjoint by (simp add: disjunctive_add_eq_or)
  have "ucast ?a = (of_nat (n div 256) :: u64)" "ucast ?b = (of_nat (n mod 256) :: u64)"
    using of_nat_unat [of ?a, where 'a = "64 word"] of_nat_unat [of ?b, where 'a = "64 word"] unfolding a b by simp_all
  then have "push_bit 8 (ucast ?a) + ucast ?b = (of_nat (n div 256 * 256 + n mod 256) :: u64)"
    unfolding of_nat_add of_nat_mult by (simp add: push_bit_eq_mult)
  then have "push_bit 8 (ucast ?a) OR ucast ?b = (of_nat n :: u64)"
    unfolding sum div_mult_mod_eq .
  then show ?thesis using assms by (simp add: nal_length_def unat_of_nat take_bit_eq_mod)
qed

lemma validNal_H264: "validNal H264 u \<longleftrightarrow> u \<noteq> [] \<and> validH264NalHeader (u ! 0)"
  by (simp add: validNal_def validH264NalHeader_def headerBytes_def Let_def)

lemma validNal_Hevc: "validNal Hevc u \<longleftrightarrow> 2 \<le> length u \<and> validHevcNalHeader u \<and> drop_bit 1 (u ! 0) AND 0x3F \<le> 47"
  by (auto simp: validNal_def validHevcNalHeader_def headerBytes_def Let_def)

lemma validHevcNalHeader_append: "2 \<le> length u \<Longrightarrow> validHevcNalHeader (u @ v) = validHevcNalHeader u"
  by (cases u) (auto simp: validHevcNalHeader_def nth_append)

lemma h264_aggregated_written:
  "list_all (\<lambda>u. validNal H264 u \<and> length u \<le> 65535) us \<Longrightarrow>
   h264_aggregated (concat (map (\<lambda>u. [of_nat (length u div 256), of_nat (length u)] @ u) us)) = success us"
proof (induction us)
  case (Cons u us)
  then show ?case
    using nal_length_written [of "length u"]
    by (simp add: h264_aggregated.simps [of "_ # _"] Let_def validNal_H264 nth_append)
qed (simp add: h264_aggregated.simps)

lemma hevc_aggregated_written:
  "list_all (\<lambda>u. validNal Hevc u \<and> length u \<le> 65535) us \<Longrightarrow>
   hevc_aggregated (concat (map (\<lambda>u. [of_nat (length u div 256), of_nat (length u)] @ u) us)) = success us"
proof (induction us)
  case (Cons u us)
  moreover from Cons.prems have "u \<noteq> []" by (auto simp: validNal_Hevc)
  ultimately show ?case
    using nal_length_written [of "length u"]
    by (simp add: hevc_aggregated.simps [of "_ # _"] Let_def validNal_Hevc validHevcNalHeader_append nth_append not_less not_le)
qed (simp add: hevc_aggregated.simps)

text \<open>The headers of aggregation packets.\<close>

lemma h264_nri: "fold (\<lambda>unit nri. max nri (unit ! 0 AND 0x60)) us m AND 0x60 = (fold (\<lambda>unit nri. max nri (unit ! 0 AND 0x60)) us m :: u8)"
  if "m AND 0x60 = m" for m :: u8
  using that
proof (induction us arbitrary: m)
  case (Cons u us)
  then have "max m (u ! 0 AND 0x60) AND 0x60 = max m (u ! 0 AND 0x60)" by (simp add: max_def and.assoc)
  then show ?case using Cons.IH by simp
qed simp

lemma hevc_layer: "fold (\<lambda>unit m. min m (layerId unit)) us m \<le> m"
proof (induction us arbitrary: m)
  case (Cons u us)
  then show ?case using order_trans [OF Cons.IH min.cobounded1] by simp
qed simp

lemma hevc_tid:
  "m \<noteq> 0 \<Longrightarrow> m AND 7 = m \<Longrightarrow> list_all (validNal Hevc) us \<Longrightarrow>
   fold (\<lambda>unit m. min m (unit ! 1 AND 0x07)) us m \<noteq> 0 \<and>
   fold (\<lambda>unit m. min m (unit ! 1 AND 0x07)) us m AND 7 = (fold (\<lambda>unit m. min m (unit ! 1 AND 0x07)) us m :: u8)"
proof (induction us arbitrary: m)
  case (Cons u us)
  then have "min m (u ! 1 AND 7) \<noteq> 0" "min m (u ! 1 AND 7) AND 7 = min m (u ! 1 AND 7)"
    by (auto simp: min_def validNal_Hevc validHevcNalHeader_def and.assoc)
  then show ?case using Cons.IH Cons.prems by simp
qed simp

lemma small_layer: "m \<le> 0x3F \<Longrightarrow> m AND 0x3F = (m :: u8)"
proof -
  assume "m \<le> 0x3F"
  then have "unat m < 2 ^ 6" by (simp add: word_le_nat_alt)
  then have "take_bit 6 m = m" by (simp add: word_unat_eq_iff unsigned_take_bit_eq take_bit_nat_eq_self)
  then show ?thesis by (simp add: take_bit_eq_mask mask_eq_exp_minus_1)
qed

lemma low_tid: "(push_bit 3 layer OR tid) AND 7 = (tid :: u8) AND 7"
  by (auto simp: byte_simps)

section \<open>The two formats\<close>

text \<open>The sixteen bits of the header of an HEVC unit.\<close>

definition hevc_header :: "u8 list \<Rightarrow> u16" where
  "hevc_header nal = push_bit 8 (ucast (nal ! 0)) OR ucast (nal ! 1)"

lemmas format_simps = Let_def nal_batch_def headerBytes_def

text \<open>A fragment that continues or begins a unit.\<close>

lemma push_fragment_ok:
  assumes "if first then np_fragmentHeader p = None \<and> sofar = bytes
           else np_fragmentHeader p = Some header \<and> np_fragmentTimestamp p = Some (rtp_timestamp packet) \<and> np_fragment p = sofar"
    and "\<not> rtp_marker packet" and "drop fuBytes (rtp_payload packet) = part" and "length sofar + length part \<le> capacity"
  shows "push_fragment fuBytes first final header bytes packet capacity p =
     (if final
      then (p\<lparr>np_fragment := [], np_fragmentHeader := None, np_fragmentTimestamp := None\<rparr>, success (nal_batch packet [sofar @ part]))
      else (p\<lparr>np_fragment := sofar @ part, np_fragmentHeader := Some header, np_fragmentTimestamp := Some (rtp_timestamp packet)\<rparr>,
            success (nal_batch packet [])))"
proof -
  have n: "length (rtp_payload packet) - fuBytes = length part" using arg_cong [OF assms(3), of length] by simp
  show ?thesis
    using assms n by (cases first) (simp_all add: push_fragment_def format_simps)
qed

lemma push_fragment_marker:
  assumes "push_fragment fuBytes start final header bytes (packet\<lparr>rtp_marker := False\<rparr>) capacity p = (q, success batch)"
    and "np_fragmentHeader q = None" and "\<not> nb_discardedFragment batch"
  shows "push_fragment fuBytes start final header bytes (packet\<lparr>rtp_marker := True\<rparr>) capacity p = (q, success (batch\<lparr>nb_marker := True\<rparr>))"
  using assms by (auto simp: push_fragment_def Let_def split: if_splits)

lemma h264_single:
  assumes "validNal H264 u" "rtp_payload packet = u" "rtp_payloadType packet = np_payloadType p" "np_fragmentHeader p = None" "headerBytes H264 \<le> capacity"
  shows "h264_push packet capacity p = (p, success (nal_batch packet [u]))"
  using assms by (auto simp: h264_push_def format_simps validNal_H264 validH264NalHeader_def)

lemma h264_aggregate:
  assumes "list_all (\<lambda>u. validNal H264 u \<and> length u \<le> 65535) us" "us \<noteq> []" "rtp_payload packet = aggregate_payload H264 us"
    "rtp_payloadType packet = np_payloadType p" "np_fragmentHeader p = None" "headerBytes H264 \<le> capacity"
  shows "h264_push packet capacity p = (p, success (nal_batch packet us))"
proof -
  let ?nri = "fold (\<lambda>unit nri. max nri (unit ! 0 AND 0x60)) us (0 :: u8)"
  let ?rest = "concat (map (\<lambda>u. [of_nat (length u div 256), of_nat (length u)] @ u) us) :: u8 list"
  have "rtp_payload packet = (?nri OR 24) # ?rest" using assms(3) by (simp add: aggregate_payload_def aggregate_header_def)
  moreover have "?rest \<noteq> []" using assms(2) by (cases us) simp_all
  moreover have "(?nri OR 24) AND 0x80 = 0" "(?nri OR 24) AND 0x1F = 24"
    using h264_nri [of 0 us] h264_aggregate_indicator [of ?nri] by simp_all
  ultimately show ?thesis
    using assms h264_aggregated_written [OF assms(1)] by (simp add: h264_push_def format_simps)
qed

lemma h264_fragment:
  assumes "validNal H264 nal" "rtp_payload packet = fragment_payload H264 nal first final part" "part \<noteq> []" "\<not> (first \<and> final)"
    "rtp_payloadType packet = np_payloadType p" "\<not> rtp_marker packet"
    "if first then np_fragmentHeader p = None \<and> sofar = take (headerBytes H264) nal
     else np_fragmentHeader p = Some (nal ! 0) \<and> np_fragmentTimestamp p = Some (rtp_timestamp packet) \<and> np_fragment p = sofar"
    "headerBytes H264 \<le> capacity" "length sofar + length part \<le> capacity"
  shows "h264_push packet capacity p =
     (if final
      then (p\<lparr>np_fragment := [], np_fragmentHeader := None, np_fragmentTimestamp := None\<rparr>, success (nal_batch packet [sofar @ part]))
      else (p\<lparr>np_fragment := sofar @ part, np_fragmentHeader := Some (nal ! 0), np_fragmentTimestamp := Some (rtp_timestamp packet)\<rparr>,
            success (nal_batch packet [])))"
proof -
  let ?h = "nal ! 0" and ?f = "(nal ! 0 AND 0x1F) OR (if first then 0x80 else 0) OR (if final then 0x40 else 0)"
  have payload: "rtp_payload packet = (?h AND 0xE0 OR 28) # ?f # part" using assms(2) by (simp add: fragment_payload_def)
  have "take (headerBytes H264) nal = [?h]" using assms(1) by (cases nal) (simp_all add: headerBytes_def validNal_H264)
  then have pushed: "push_fragment 2 first final ?h [?h] packet capacity p =
     (if final
      then (p\<lparr>np_fragment := [], np_fragmentHeader := None, np_fragmentTimestamp := None\<rparr>, success (nal_batch packet [sofar @ part]))
      else (p\<lparr>np_fragment := sofar @ part, np_fragmentHeader := Some ?h, np_fragmentTimestamp := Some (rtp_timestamp packet)\<rparr>,
            success (nal_batch packet [])))"
    using assms(6,7,9) payload by (intro push_fragment_ok) simp_all
  have "?h AND 0x80 = 0" "?h AND 0x1F \<noteq> 0" "\<not> ?h AND 0x1F > 23" "0 < capacity"
    using assms(1,8) by (auto simp: validNal_H264 validH264NalHeader_def Let_def headerBytes_def Suc_le_eq)
  then show ?thesis
    unfolding pushed [symmetric]
    using assms(3,4,5) h264_indicator [of ?h] h264_flags [of ?h first final] payload by (auto simp: h264_push_def Let_def)
qed

lemma h264_marker:
  assumes "h264_push (packet\<lparr>rtp_marker := False\<rparr>) capacity p = (q, success batch)" "np_fragmentHeader q = None" "\<not> nb_discardedFragment batch"
  shows "h264_push (packet\<lparr>rtp_marker := True\<rparr>) capacity p = (q, success (batch\<lparr>nb_marker := True\<rparr>))"
  using assms push_fragment_marker by (auto simp: h264_push_def Let_def split: if_splits sum.splits)

interpretation h264: nal_payload_format H264 h264_push "\<lambda>nal. nal ! 0" h264_key
  by unfold_locales (fact h264_single h264_aggregate h264_fragment h264_marker)+

lemma hevc_single:
  assumes "validNal Hevc u" "rtp_payload packet = u" "rtp_payloadType packet = np_payloadType p" "np_fragmentHeader p = None" "headerBytes Hevc \<le> capacity"
  shows "hevc_push packet capacity p = (p, success (nal_batch packet [u]))"
  using assms by (auto simp: hevc_push_def format_simps validNal_Hevc)

lemma hevc_aggregate:
  assumes "list_all (\<lambda>u. validNal Hevc u \<and> length u \<le> 65535) us" "us \<noteq> []" "rtp_payload packet = aggregate_payload Hevc us"
    "rtp_payloadType packet = np_payloadType p" "np_fragmentHeader p = None" "headerBytes Hevc \<le> capacity"
  shows "hevc_push packet capacity p = (p, success (nal_batch packet us))"
proof -
  let ?layer = "fold (\<lambda>unit m. min m (layerId unit)) us 0x3F" and ?tid = "fold (\<lambda>unit m. min m (unit ! 1 AND 0x07)) us 0x07"
  let ?rest = "concat (map (\<lambda>u. [of_nat (length u div 256), of_nat (length u)] @ u) us) :: u8 list"
  let ?h = "push_bit 1 48 OR drop_bit 5 ?layer" and ?l = "push_bit 3 ?layer OR ?tid"
  have payload: "rtp_payload packet = ?h # ?l # ?rest" using assms(3) by (simp add: aggregate_payload_def aggregate_header_def Let_def)
  have "?rest \<noteq> []" using assms(2) by (cases us) simp_all
  moreover have "?layer AND 0x3F = ?layer" using hevc_layer [of us 63] by (intro small_layer) simp
  then have "?h AND 0x80 = 0" "drop_bit 1 ?h AND 0x3F = 48" using hevc_aggregate_indicator [of ?layer] by simp_all
  moreover have "list_all (validNal Hevc) us" using assms(1) by (simp add: list_all_iff)
  then have "?l AND 7 \<noteq> 0" using hevc_tid [of 7 us] low_tid [of ?layer ?tid] by simp
  ultimately show ?thesis
    using assms(4-6) payload hevc_aggregated_written [OF assms(1)]
    by (simp add: hevc_push_def format_simps validHevcNalHeader_def)
qed

lemma hevc_fragment:
  assumes "validNal Hevc nal" "rtp_payload packet = fragment_payload Hevc nal first final part" "part \<noteq> []" "\<not> (first \<and> final)"
    "rtp_payloadType packet = np_payloadType p" "\<not> rtp_marker packet"
    "if first then np_fragmentHeader p = None \<and> sofar = take (headerBytes Hevc) nal
     else np_fragmentHeader p = Some (hevc_header nal) \<and> np_fragmentTimestamp p = Some (rtp_timestamp packet) \<and> np_fragment p = sofar"
    "headerBytes Hevc \<le> capacity" "length sofar + length part \<le> capacity"
  shows "hevc_push packet capacity p =
     (if final
      then (p\<lparr>np_fragment := [], np_fragmentHeader := None, np_fragmentTimestamp := None\<rparr>, success (nal_batch packet [sofar @ part]))
      else (p\<lparr>np_fragment := sofar @ part, np_fragmentHeader := Some (hevc_header nal), np_fragmentTimestamp := Some (rtp_timestamp packet)\<rparr>,
            success (nal_batch packet [])))"
proof -
  let ?h = "nal ! 0" and ?f = "(drop_bit 1 (nal ! 0) AND 0x3F) OR (if first then 0x80 else 0) OR (if final then 0x40 else 0)"
  have payload: "rtp_payload packet = (?h AND 0x81 OR push_bit 1 49) # nal ! 1 # ?f # part" using assms(2) by (simp add: fragment_payload_def Let_def)
  have "take (headerBytes Hevc) nal = [?h, nal ! 1]"
    using assms(1) by (cases nal rule: list.exhaust; cases "tl nal") (auto simp: headerBytes_def validNal_Hevc)
  then have pushed: "push_fragment 3 first final (hevc_header nal) [?h, nal ! 1] packet capacity p =
     (if final
      then (p\<lparr>np_fragment := [], np_fragmentHeader := None, np_fragmentTimestamp := None\<rparr>, success (nal_batch packet [sofar @ part]))
      else (p\<lparr>np_fragment := sofar @ part, np_fragmentHeader := Some (hevc_header nal), np_fragmentTimestamp := Some (rtp_timestamp packet)\<rparr>,
            success (nal_batch packet [])))"
    using assms(6,7,9) payload by (intro push_fragment_ok) (simp_all add: numeral_3_eq_3)
  have "?h AND 0x80 = 0" "nal ! 1 AND 7 \<noteq> 0" "drop_bit 1 ?h AND 0x3F \<le> 47" "\<not> drop_bit 1 ?h AND 0x3F > 47" "\<not> capacity < 2"
    using assms(1,8) by (auto simp: validNal_Hevc validHevcNalHeader_def headerBytes_def)
  moreover obtain i f where "rtp_payload packet = i # nal ! 1 # f # part" "i AND 0x80 = ?h AND 0x80" "drop_bit 1 i AND 0x3F = 49"
      "i AND 0x81 OR push_bit 1 (drop_bit 1 ?h AND 0x3F) = ?h" "f AND 0x80 \<noteq> 0 \<longleftrightarrow> first" "f AND 0x40 \<noteq> 0 \<longleftrightarrow> final"
      "f AND 0x3F = drop_bit 1 ?h AND 0x3F"
    using hevc_indicator [of ?h] hevc_flags [of ?h first final] payload by blast
  ultimately show ?thesis
    unfolding pushed [symmetric] unfolding hevc_header_def
    using assms(3,4,5) by (auto simp: hevc_push_def Let_def validHevcNalHeader_def)
qed

lemma hevc_marker:
  assumes "hevc_push (packet\<lparr>rtp_marker := False\<rparr>) capacity p = (q, success batch)" "np_fragmentHeader q = None" "\<not> nb_discardedFragment batch"
  shows "hevc_push (packet\<lparr>rtp_marker := True\<rparr>) capacity p = (q, success (batch\<lparr>nb_marker := True\<rparr>))"
  using assms push_fragment_marker by (auto simp: hevc_push_def Let_def split: if_splits sum.splits)

interpretation hevc: nal_payload_format Hevc hevc_push hevc_header hevc_key
  by unfold_locales (fact hevc_single hevc_aggregate hevc_fragment hevc_marker)+

section \<open>Round trips\<close>

text \<open>
  C23. Whatever sequence of access units the packetizer accepts as H.264, in start code or length prefixed form and for any payload limit,
  a new depacketizer given the packets in order delivers exactly one access unit for each, at its timestamp: the NAL units of the
  input behind four-byte start codes, marked as a key frame when one of them is an IDR slice. The canonical form has to fit the
  depacketizer's limit and the allocator.
\<close>

theorem h264_stream_roundtrip:
  assumes "\<forall>unit\<in>set stream. sent H264 layout maximum payloadType unit \<and> fits H264 layout maximumBytes newPacket unit" and "0 < clockRate"
  shows "\<exists>d. idle payloadType d \<and>
     depacketize_all (h264_depacketize newPacket) (concat (map (snd \<circ> snd) stream)) (depacketizer_create payloadType clockRate maximumBytes) =
       (d, success (map (received H264 layout h264_key clockRate) stream))"
  unfolding h264_depacketize_def
  using h264.stream_roundtrip [OF assms(1) idle_create assms(2), of clockRate maximumBytes]
  by (simp add: depacketizer_create_def headerBytes_def)

text \<open>The same for HEVC: key frames are those with a random access picture, NAL unit types 16 to 21.\<close>

theorem hevc_stream_roundtrip:
  assumes "\<forall>unit\<in>set stream. sent Hevc layout maximum payloadType unit \<and> fits Hevc layout maximumBytes newPacket unit" and "0 < clockRate"
  shows "\<exists>d. idle payloadType d \<and>
     depacketize_all (hevc_depacketize newPacket) (concat (map (snd \<circ> snd) stream)) (depacketizer_create payloadType clockRate maximumBytes) =
       (d, success (map (received Hevc layout hevc_key clockRate) stream))"
  unfolding hevc_depacketize_def
  using hevc.stream_roundtrip [OF assms(1) idle_create assms(2), of clockRate maximumBytes]
  by (simp add: depacketizer_create_def headerBytes_def)

text \<open>
  Scanning is idempotent: the units of a start code delimited access unit, written behind four-byte start codes, are scanned to
  the same units.
\<close>

theorem scan_canonical:
  assumes "nal_scan codec StartCodeDelimited bytes = success us"
  shows "nal_scan codec StartCodeDelimited (annexB us) = success us"
proof -
  have us: "us = startCode_units codec bytes" "validate_loop codec bytes = success ()"
    using assms by (auto simp: nal_scan_def annexB_validate_def split: if_splits sum.splits)
  then have clean: "list_all (nal_clean codec) us" "us \<noteq> []" using startCode_units_clean [of codec bytes] by simp_all
  have "annexB us \<noteq> []" using clean(2) by (cases us) simp_all
  then show ?thesis using scan_annexB [OF clean(1)] clean(2) by (simp add: nal_scan_def annexB_validate_def)
qed

lemma sent_timestamps:
  assumes "sent codec layout maximum payloadType unit"
  shows "snd (snd unit) \<noteq> []" and "list_all (\<lambda>p. rtp_timestamp p = fst (snd unit)) (snd (snd unit))"
proof -
  obtain vs where vs: "packetize codec layout maximum (fst unit) = success vs" "carries payloadType (fst (snd unit)) (snd (snd unit)) vs"
    using assms by (cases "packetize codec layout maximum (fst unit)") (auto simp: sent_def)
  have "length (snd (snd unit)) = length vs" using vs(2) by (auto simp: carries_def dest: map_eq_imp_length_eq)
  then show "snd (snd unit) \<noteq> []" using packetize_sizes [OF vs(1)] by auto
  show "list_all (\<lambda>p. rtp_timestamp p = fst (snd unit)) (snd (snd unit))" using vs(2) by (auto simp: carries_def list_all_iff)
qed

text \<open>
  C24. After a discontinuity an H.264 depacketizer drops the packets that arrive, whatever they hold, up to the first change of the RTP
  timestamp, delivers nothing of them, and then delivers every following access unit in full. So when packets of the interrupted access
  unit are still to come (\<open>lost\<close>), those are dropped and the stream behind them is complete, provided that its first access unit has another timestamp;
  when none is to come, because its last packet was lost, the first access unit of the stream is dropped and the rest is complete, provided
  that the second one has another timestamp.
\<close>

theorem h264_recovers:
  assumes "list_all (\<lambda>p. rtp_timestamp p = timestamp) lost"
    and "\<forall>unit\<in>set stream. sent H264 layout maximum payloadType unit \<and> fits H264 layout maximumBytes newPacket unit"
    and "lost \<noteq> [] \<and> stream \<noteq> [] \<longrightarrow> fst (snd (hd stream)) \<noteq> timestamp"
    and "lost = [] \<and> tl stream \<noteq> [] \<longrightarrow> fst (snd (hd (tl stream))) \<noteq> fst (snd (hd stream))"
    and "0 < clockRate" and "dp_clockRate d = clockRate" and "dp_maximumAccessUnitBytes d = maximumBytes" and "np_payloadType (dp_nalParser d) = payloadType"
  shows "\<exists>e. depacketize_all (h264_depacketize newPacket) (lost @ concat (map (snd \<circ> snd) stream)) (depacketizer_discontinuity d) =
     (e, success (map (received H264 layout h264_key clockRate) (if lost = [] then tl stream else stream)))"
proof -
  have dropped: "\<exists>e. depacketize_all (h264_depacketize newPacket) (first @ concat (map (snd \<circ> snd) others)) (depacketizer_discontinuity d) =
       (e, success (map (received H264 layout h264_key clockRate) others))"
    if "list_all (\<lambda>p. rtp_timestamp p = ts) first" "first \<noteq> []" "set others \<subseteq> set stream" "others = [] \<or> fst (snd (hd others)) \<noteq> ts" for ts first others
  proof -
    have "\<forall>unit\<in>set others. sent H264 layout maximum payloadType unit \<and> fits H264 layout maximumBytes newPacket unit"
      using assms(2) that(3) by blast
    then show ?thesis
      unfolding h264_depacketize_def using h264.recovers [OF that(1,2) _ that(4) assms(5-8)] by (simp add: headerBytes_def)
  qed
  show ?thesis
  proof (cases "lost = []")
    case False
    then show ?thesis using dropped [OF assms(1) False subset_refl] assms(3) by auto
  next
    case True
    show ?thesis
    proof (cases stream)
      case (Cons unit others)
      note unit = sent_timestamps [of H264 layout maximum payloadType unit]
      have "sent H264 layout maximum payloadType unit" "set others \<subseteq> set stream" "others = [] \<or> fst (snd (hd others)) \<noteq> fst (snd unit)"
        using assms(2,4) Cons True by auto
      then show ?thesis using dropped [OF unit(2,1), of others] True Cons by simp
    qed (use True in simp)
  qed
qed

section \<open>Examples\<close>

text \<open>RTP packets for the payloads of an access unit.\<close>

definition rtp_packets :: "u8 \<Rightarrow> u32 \<Rightarrow> MediaVideoRtpPayloadPacket list \<Rightarrow> MediaRtpPacket list" where
  "rtp_packets payloadType timestamp = map (\<lambda>v.
     \<lparr>rtp_version = 2, rtp_marker = vp_marker v, rtp_payloadType = payloadType, rtp_sequenceNumber = 0, rtp_timestamp = timestamp,
      rtp_ssrc = 7, rtp_csrcs = [], rtp_extension = None, rtp_paddingSize = 0, rtp_payload = vp_payload v\<rparr>)"

lemma rtp_packets_sent:
  "packetize codec layout maximum accessUnit = success vs \<Longrightarrow> sent codec layout maximum pt (accessUnit, ts, rtp_packets pt ts vs)"
  by (auto simp: sent_def carries_def rtp_packets_def list_all_iff comp_def)

lemmas packetize_simps =
  packetize_loop.simps [of _ _ "_ # _"] packetize_loop.simps [of _ _ "[]"] fragment_def fragment_loop.simps [of _ _ _ "_ # _"]
  fragment_loop.simps [of _ _ _ "[]"] fragment_payload_def headerBytes_def fuHeaderBytes_def aggregate_payload_def aggregate_header_def layerId_def

text \<open>An H.264 key frame sent as an aggregation packet and two fragments, and an HEVC key frame as a single unit and two fragments.\<close>

definition h264_frame :: "u8 list" where
  "h264_frame = [0, 0, 1, 0x67, 1, 0, 0, 1, 0x68, 0, 0, 0, 1, 0x65, 1, 2, 3, 4, 5, 6, 7, 8, 9]"

definition h264_payloads :: "MediaVideoRtpPayloadPacket list" where
  "h264_payloads = [\<lparr>vp_payload = [0x78, 0, 2, 0x67, 1, 0, 1, 0x68], vp_marker = False\<rparr>,
     \<lparr>vp_payload = [0x7C, 0x85, 1, 2, 3, 4, 5, 6], vp_marker = False\<rparr>, \<lparr>vp_payload = [0x7C, 0x45, 7, 8, 9], vp_marker = True\<rparr>]"

definition hevc_frame :: "u8 list" where
  "hevc_frame = [0, 0, 1, 0x40, 1, 9, 0, 0, 1, 0x26, 1, 1, 2, 3, 4, 5, 6, 7, 8, 9]"

definition hevc_payloads :: "MediaVideoRtpPayloadPacket list" where
  "hevc_payloads = [\<lparr>vp_payload = [0x40, 1, 9], vp_marker = False\<rparr>,
     \<lparr>vp_payload = [0x62, 1, 0x93, 1, 2, 3, 4, 5], vp_marker = False\<rparr>, \<lparr>vp_payload = [0x62, 1, 0x53, 6, 7, 8, 9], vp_marker = True\<rparr>]"

lemma h264_frame_units: "nal_scan H264 StartCodeDelimited h264_frame = success [[0x67, 1], [0x68], [0x65, 1, 2, 3, 4, 5, 6, 7, 8, 9]]"
  by code_simp

lemma hevc_frame_units: "nal_scan Hevc StartCodeDelimited hevc_frame = success [[0x40, 1, 9], [0x26, 1, 1, 2, 3, 4, 5, 6, 7, 8, 9]]"
  by code_simp

lemma h264_frame_packetized: "packetize H264 StartCodeDelimited 8 h264_frame = success h264_payloads"
  unfolding packetize_def h264_frame_units h264_payloads_def by (simp add: packetize_simps Let_def)

lemma hevc_frame_packetized: "packetize Hevc StartCodeDelimited 8 hevc_frame = success hevc_payloads"
  unfolding packetize_def hevc_frame_units hevc_payloads_def by (simp add: packetize_simps Let_def)

definition h264_stream :: "sent_unit list" where
  "h264_stream = [(h264_frame, 900, rtp_packets 96 900 h264_payloads), (h264_frame, 3900, rtp_packets 96 3900 h264_payloads)]"

definition hevc_stream :: "sent_unit list" where
  "hevc_stream = [(hevc_frame, 900, rtp_packets 96 900 hevc_payloads), (hevc_frame, 3900, rtp_packets 96 3900 hevc_payloads)]"

lemma h264_stream_sent: "\<forall>unit\<in>set h264_stream. sent H264 StartCodeDelimited 8 96 unit \<and> fits H264 StartCodeDelimited 64 (\<lambda>n. n < 100) unit"
  using rtp_packets_sent [OF h264_frame_packetized] by (simp add: h264_stream_def fits_def nal_units_def h264_frame_units)

lemma hevc_stream_sent: "\<forall>unit\<in>set hevc_stream. sent Hevc StartCodeDelimited 8 96 unit \<and> fits Hevc StartCodeDelimited 64 (\<lambda>n. n < 100) unit"
  using rtp_packets_sent [OF hevc_frame_packetized] by (simp add: hevc_stream_def fits_def nal_units_def hevc_frame_units)

theorem h264_stream_roundtrip_witness:
  "\<exists>d. depacketize_all (h264_depacketize (\<lambda>n. n < 100)) (rtp_packets 96 900 h264_payloads @ rtp_packets 96 3900 h264_payloads)
     (depacketizer_create 96 90000 64) = (d, success (map (received H264 StartCodeDelimited h264_key 90000) h264_stream))"
  using h264_stream_roundtrip [OF h264_stream_sent, of 90000] by (auto simp: h264_stream_def)

theorem hevc_stream_roundtrip_witness:
  "\<exists>d. depacketize_all (hevc_depacketize (\<lambda>n. n < 100)) (rtp_packets 96 900 hevc_payloads @ rtp_packets 96 3900 hevc_payloads)
     (depacketizer_create 96 90000 64) = (d, success (map (received Hevc StartCodeDelimited hevc_key 90000) hevc_stream))"
  using hevc_stream_roundtrip [OF hevc_stream_sent, of 90000] by (auto simp: hevc_stream_def)

theorem scan_canonical_witness:
  "nal_scan H264 StartCodeDelimited (annexB [[0x67, 1], [0x68], [0x65, 1, 2, 3, 4, 5, 6, 7, 8, 9]]) =
     success [[0x67, 1], [0x68], [0x65, 1, 2, 3, 4, 5, 6, 7, 8, 9]]"
  by (rule scan_canonical [OF h264_frame_units])

text \<open>
  The last two fragments of a frame are dropped, the frames behind them are delivered; when no fragment is left, the first frame behind
  the discontinuity is dropped.
\<close>

theorem h264_recovers_witness:
  "(\<exists>e. depacketize_all (h264_depacketize (\<lambda>n. n < 100)) (rtp_packets 96 5 (tl h264_payloads) @ concat (map (snd \<circ> snd) h264_stream))
     (depacketizer_discontinuity (depacketizer_create 96 90000 64)) =
     (e, success (map (received H264 StartCodeDelimited h264_key 90000) h264_stream))) \<and>
   (\<exists>e. depacketize_all (h264_depacketize (\<lambda>n. n < 100)) (concat (map (snd \<circ> snd) h264_stream))
     (depacketizer_discontinuity (depacketizer_create 96 90000 64)) =
     (e, success (map (received H264 StartCodeDelimited h264_key 90000) (tl h264_stream))))"
proof
  note recovers = h264_recovers [OF _ h264_stream_sent, where d = "depacketizer_create 96 90000 64" and clockRate = 90000]
  show "\<exists>e. depacketize_all (h264_depacketize (\<lambda>n. n < 100)) (rtp_packets 96 5 (tl h264_payloads) @ concat (map (snd \<circ> snd) h264_stream))
     (depacketizer_discontinuity (depacketizer_create 96 90000 64)) =
     (e, success (map (received H264 StartCodeDelimited h264_key 90000) h264_stream))"
    using recovers [of 5 "rtp_packets 96 5 (tl h264_payloads)"]
    by (simp add: rtp_packets_def h264_payloads_def h264_stream_def depacketizer_create_def nalParser_create_def)
  show "\<exists>e. depacketize_all (h264_depacketize (\<lambda>n. n < 100)) (concat (map (snd \<circ> snd) h264_stream))
     (depacketizer_discontinuity (depacketizer_create 96 90000 64)) =
     (e, success (map (received H264 StartCodeDelimited h264_key 90000) (tl h264_stream)))"
    using recovers [of 5 "[]"] by (simp add: h264_stream_def depacketizer_create_def nalParser_create_def)
qed

end
