(* ===== verification/Audio_Rtp_Depacketizer.thy ===== *)
theory Audio_Rtp_Depacketizer
  imports Video_Rtp_Depacketizer
begin

unbundle bit_operations_syntax

text \<open>
  \<^verbatim>\<open>protocol/rtp/depacketizer/MediaAacRtpDepacketizer\<close> with \<^verbatim>\<open>MediaAacRtpAuHeaderPlanner\<close>, and \<^verbatim>\<open>MediaOpusRtpDepacketizer\<close>. Sizes and offsets
  are natural numbers; where the code subtracts sizes that may wrap, the subtraction is on words. Of the configuration the fields that
  these classes read are kept. \<open>newPacket\<close> is as in \<^verbatim>\<open>Video_Rtp_Depacketizer\<close>.
\<close>

section \<open>AAC\<close>

record MediaAacRtpAuHeader =
  ah_size :: nat
  ah_index :: nat

record MediaAacRtpAuHeaderPlan =
  ahp_payloadOffset :: nat
  ahp_payloadBytes :: nat
  ahp_totalAccessUnitBytes :: nat
  ahp_accessUnits :: "MediaAacRtpAuHeader list"

text \<open>The loop over the header section, with the bytes so far and the index of the previous access unit.\<close>

fun au_headers :: "nat \<Rightarrow> nat option \<Rightarrow> u8 list \<Rightarrow> (nat \<times> MediaAacRtpAuHeader list) Result" where
  "au_headers bytes previous (high # low # rest) =
     (let bits = readU16 [high, low] 0;
          auSize = unat (drop_bit 3 bits);
          indexField = unat (bits AND 0x07)
      in if auSize = 0 then failure InvalidArgument
         else
           (case (case previous of
                    None \<Rightarrow> success indexField
                  | Some index \<Rightarrow>
                      if index > 18446744073709551615 - (indexField + 1) then failure InvalidArgument else success (index + (indexField + 1))) of
              Inl e \<Rightarrow> failure e
            | Inr auIndex \<Rightarrow>
                if auSize > 18446744073709551615 - bytes then failure InvalidArgument
                else
                  (case au_headers (bytes + auSize) (Some auIndex) rest of
                     Inl e \<Rightarrow> failure e
                   | Inr (sumBytes, headers) \<Rightarrow> success (sumBytes, \<lparr>ah_size = auSize, ah_index = auIndex\<rparr> # headers))))"
| "au_headers bytes previous _ = success (bytes, [])"

definition auHeader_plan :: "u8 list \<Rightarrow> MediaAacRtpAuHeaderPlan Result" where
  "auHeader_plan payload =
     (if length payload < 4 then failure InvalidArgument
      else
        (let headerBits = unat (readU16 payload 0)
         in if headerBits = 0 \<or> headerBits mod 16 \<noteq> 0 then failure InvalidArgument
            else
              (let headerBytes = headerBits div 8
               in if headerBytes > length payload - 2 then failure InvalidArgument
                  else
                    (case au_headers 0 None (take headerBytes (drop 2 payload)) of
                       Inl e \<Rightarrow> failure e
                     | Inr (sumBytes, headers) \<Rightarrow>
                         success \<lparr>ahp_payloadOffset = 2 + headerBytes, ahp_payloadBytes = length payload - (2 + headerBytes),
                           ahp_totalAccessUnitBytes = sumBytes, ahp_accessUnits = headers\<rparr>))))"

record FragmentedAccessUnit =
  fa_expectedSize :: nat
  fa_index :: nat
  fa_timestamp :: u32
  fa_lastSequenceNumber :: u16
  fa_bytes :: "u8 list"

record MediaAacRtpDepacketizer =
  aac_payloadType :: u8
  aac_clockRate :: int
  aac_accessUnitDurationRtpTicks :: int
  aac_fragmentedAccessUnit :: "FragmentedAccessUnit option"

definition aac_create :: "u8 \<Rightarrow> int \<Rightarrow> int \<Rightarrow> MediaAacRtpDepacketizer" where
  "aac_create payloadType clockRate accessUnitDurationRtpTicks =
     \<lparr>aac_payloadType = payloadType, aac_clockRate = clockRate, aac_accessUnitDurationRtpTicks = accessUnitDurationRtpTicks, aac_fragmentedAccessUnit = None\<rparr>"

text \<open>The branch for a packet that continues a fragmented access unit.\<close>

definition aac_continue ::
  "(nat \<Rightarrow> bool) \<Rightarrow> MediaRtpPacket \<Rightarrow> MediaAacRtpAuHeaderPlan \<Rightarrow> FragmentedAccessUnit \<Rightarrow> MediaAacRtpDepacketizer \<Rightarrow>
   MediaAacRtpDepacketizer \<times> MediaRtpAccessUnit list Result" where
  "aac_continue newPacket packet plan fragmented d =
     (let headers = ahp_accessUnits plan;
          consecutive = (rtp_sequenceNumber packet = fa_lastSequenceNumber fragmented + 1);
          cleared = d\<lparr>aac_fragmentedAccessUnit := None\<rparr>
      in if length headers \<noteq> 1 \<or> ah_size (hd headers) \<noteq> fa_expectedSize fragmented \<or> ah_index (hd headers) \<noteq> fa_index fragmented \<or>
            rtp_timestamp packet \<noteq> fa_timestamp fragmented \<or> \<not> consecutive \<or>
            ahp_payloadBytes plan > fa_expectedSize fragmented - length (fa_bytes fragmented)
         then (cleared, failure InvalidArgument)
         else
           (let fragmented = fragmented\<lparr>fa_bytes := fa_bytes fragmented @ drop (ahp_payloadOffset plan) (rtp_payload packet),
                  fa_lastSequenceNumber := rtp_sequenceNumber packet\<rparr>
            in if length (fa_bytes fragmented) < fa_expectedSize fragmented
               then (if rtp_marker packet then (cleared, failure InvalidArgument)
                     else (d\<lparr>aac_fragmentedAccessUnit := Some fragmented\<rparr>, success []))
               else if \<not> rtp_marker packet then (cleared, failure InvalidArgument)
               else
                 (case makeRtpAccessUnit newPacket (fa_bytes fragmented) (fa_timestamp fragmented) (aac_clockRate d) (aac_accessUnitDurationRtpTicks d) True of
                    Inl e \<Rightarrow> (cleared, failure e)
                  | Inr u \<Rightarrow> (cleared, success [u]))))"

text \<open>The loop over the access units of an aggregate; \<open>duration\<close> is the configured duration as \<^verbatim>\<open>uint64_t\<close>.\<close>

fun aac_units ::
  "(nat \<Rightarrow> bool) \<Rightarrow> MediaRtpPacket \<Rightarrow> MediaAacRtpDepacketizer \<Rightarrow> nat \<Rightarrow> nat \<Rightarrow> MediaAacRtpAuHeader list \<Rightarrow> MediaRtpAccessUnit list Result" where
  "aac_units newPacket packet d firstIndex offset [] = success []"
| "aac_units newPacket packet d firstIndex offset (header # headers) =
     (let bytes = take (ah_size header) (drop offset (rtp_payload packet));
          relativeIndex = ah_index header - firstIndex;
          duration = unat (word_of_int (aac_accessUnitDurationRtpTicks d) :: u64)
      in if relativeIndex \<noteq> 0 \<and> duration > 18446744073709551615 div relativeIndex then failure InvalidArgument
         else
           (let timestamp = rtp_timestamp packet + of_nat (relativeIndex * duration)
            in case makeRtpAccessUnit newPacket bytes timestamp (aac_clockRate d) (aac_accessUnitDurationRtpTicks d) True of
                 Inl e \<Rightarrow> failure e
               | Inr u \<Rightarrow>
                   (case aac_units newPacket packet d firstIndex (offset + ah_size header) headers of
                      Inl e \<Rightarrow> failure e
                    | Inr units \<Rightarrow> success (u # units))))"

definition aac_push :: "(nat \<Rightarrow> bool) \<Rightarrow> MediaRtpPacket \<Rightarrow> MediaAacRtpDepacketizer \<Rightarrow> MediaAacRtpDepacketizer \<times> MediaRtpAccessUnit list Result" where
  "aac_push newPacket packet d =
     (if rtp_payloadType packet \<noteq> aac_payloadType d then (d, failure InvalidArgument)
      else
        (case auHeader_plan (rtp_payload packet) of
           Inl e \<Rightarrow> (d, failure e)
         | Inr plan \<Rightarrow>
             (case aac_fragmentedAccessUnit d of
                Some fragmented \<Rightarrow> aac_continue newPacket packet plan fragmented d
              | None \<Rightarrow>
                  (let headers = ahp_accessUnits plan; payloadBytes = ahp_payloadBytes plan; totalAuBytes = ahp_totalAccessUnitBytes plan
                   in if totalAuBytes > payloadBytes
                      then (if length headers \<noteq> 1 \<or> rtp_marker packet \<or> payloadBytes = 0 then (d, failure InvalidArgument)
                            else (d\<lparr>aac_fragmentedAccessUnit := Some \<lparr>fa_expectedSize = ah_size (hd headers), fa_index = ah_index (hd headers),
                                    fa_timestamp = rtp_timestamp packet, fa_lastSequenceNumber = rtp_sequenceNumber packet,
                                    fa_bytes = drop (ahp_payloadOffset plan) (rtp_payload packet)\<rparr>\<rparr>, success []))
                      else if totalAuBytes \<noteq> payloadBytes then (d, failure InvalidArgument)
                      else (d, aac_units newPacket packet d (ah_index (hd headers)) (ahp_payloadOffset plan) headers)))))"

definition aac_discontinuity :: "MediaAacRtpDepacketizer \<Rightarrow> MediaAacRtpDepacketizer" where
  "aac_discontinuity d = d\<lparr>aac_fragmentedAccessUnit := None\<rparr>"

section \<open>Opus\<close>

definition MaxOpusFrameBytes :: nat where
  "MaxOpusFrameBytes = 1275"

definition MaxOpusFramesPerPacket :: nat where
  "MaxOpusFramesPerPacket = 48"

definition MaximumOpusRtpAccessUnitSamples :: nat where
  "MaximumOpusRtpAccessUnitSamples = 5760"

definition opusFrameSamples :: "nat \<Rightarrow> nat" where
  "opusFrameSamples config =
     (if config < 12 then [480, 960, 1920, 2880] ! (config mod 4)
      else if config < 16 then (if config mod 2 = 0 then 480 else 960)
      else [120, 240, 480, 960] ! (config mod 4))"

text \<open>The reader of a frame size, on the rest of the payload; it also gives what follows.\<close>

fun readFrameSize :: "u8 list \<Rightarrow> (nat \<times> u8 list) Result" where
  "readFrameSize [] = failure InvalidArgument"
| "readFrameSize (first # rest) =
     (if first < 252 then success (unat first, rest)
      else (case rest of [] \<Rightarrow> failure InvalidArgument | second # rest \<Rightarrow> success (unat first + 4 * unat second, rest)))"

definition validateFrameSize :: "nat \<Rightarrow> Status" where
  "validateFrameSize n = (if n = 0 \<or> n > MaxOpusFrameBytes then failure InvalidArgument else success ())"

text \<open>The loop over the padding lengths, for a payload of \<open>n\<close> bytes.\<close>

fun opus_padding :: "nat \<Rightarrow> nat \<Rightarrow> u8 list \<Rightarrow> (nat \<times> u8 list) Result" where
  "opus_padding n padding [] = failure InvalidArgument"
| "opus_padding n padding (byte # rest) =
     (let contribution = (if byte = 255 then 254 else unat byte)
      in if (of_nat padding :: u64) > of_nat n - of_nat contribution then failure InvalidArgument
         else if byte = 255 then opus_padding n (padding + contribution) rest
         else success (padding + contribution, rest))"

text \<open>The loop over the declared sizes of frames, for a payload of \<open>n\<close> bytes whose data ends at \<open>dataEnd\<close>; the offset is \<open>n\<close> less what is left.\<close>

fun opus_declared :: "nat \<Rightarrow> nat \<Rightarrow> nat \<Rightarrow> nat \<Rightarrow> u8 list \<Rightarrow> (nat \<times> u8 list) Result" where
  "opus_declared n dataEnd 0 declaredBytes rest = success (declaredBytes, rest)"
| "opus_declared n dataEnd (Suc k) declaredBytes rest =
     (case readFrameSize rest of
        Inl e \<Rightarrow> failure e
      | Inr (frameSize, rest) \<Rightarrow>
          (case validateFrameSize frameSize of
             Inl e \<Rightarrow> failure e
           | Inr _ \<Rightarrow>
               (let offset = n - length rest
                in if offset > dataEnd \<or> declaredBytes > dataEnd - offset \<or> frameSize > dataEnd - offset - declaredBytes then failure InvalidArgument
                   else opus_declared n dataEnd k (declaredBytes + frameSize) rest)))"

text \<open>The check of the frames of code 3, for a payload of \<open>n\<close> bytes, after the padding length.\<close>

definition opus_code3_sizes :: "nat \<Rightarrow> bool \<Rightarrow> nat \<Rightarrow> nat \<Rightarrow> u8 list \<Rightarrow> nat Result" where
  "opus_code3_sizes n vbr frames padding rest =
     (if padding > length rest then failure InvalidArgument
      else
        (let dataEnd = n - padding
         in if vbr
            then
              (case opus_declared n dataEnd (frames - 1) 0 rest of
                 Inl e \<Rightarrow> failure e
               | Inr (declaredBytes, rest) \<Rightarrow>
                   (let offset = n - length rest
                    in if offset > dataEnd \<or> declaredBytes \<ge> dataEnd - offset then failure InvalidArgument
                       else (case validateFrameSize (dataEnd - offset - declaredBytes) of Inl e \<Rightarrow> failure e | Inr _ \<Rightarrow> success frames)))
            else
              (let offset = n - length rest
               in if offset > dataEnd then failure InvalidArgument
                  else if (dataEnd - offset) mod frames \<noteq> 0 then failure InvalidArgument
                  else (case validateFrameSize ((dataEnd - offset) div frames) of Inl e \<Rightarrow> failure e | Inr _ \<Rightarrow> success frames))))"

definition opus_code3 :: "u8 list \<Rightarrow> nat Result" where
  "opus_code3 payload =
     (case drop 1 payload of
        [] \<Rightarrow> failure InvalidArgument
      | control # rest \<Rightarrow>
          (let n = length payload; frames = unat (control AND 0x3F)
           in if frames = 0 \<or> frames > MaxOpusFramesPerPacket then failure InvalidArgument
              else
                (case (if control AND 0x40 \<noteq> 0 then opus_padding n 0 rest else success (0, rest)) of
                   Inl e \<Rightarrow> failure e
                 | Inr (padding, rest) \<Rightarrow> opus_code3_sizes n (control AND 0x80 \<noteq> 0) frames padding rest)))"

definition opus_frames :: "u8 list \<Rightarrow> nat Result" where
  "opus_frames payload =
     (let frameCode = hd payload AND 3; dataBytes = length payload - 1
      in if frameCode = 0 then (case validateFrameSize dataBytes of Inl e \<Rightarrow> failure e | Inr _ \<Rightarrow> success 1)
         else if frameCode = 1
         then (if dataBytes mod 2 \<noteq> 0 then failure InvalidArgument
               else (case validateFrameSize (dataBytes div 2) of Inl e \<Rightarrow> failure e | Inr _ \<Rightarrow> success 2))
         else if frameCode = 2
         then
           (case readFrameSize (tl payload) of
              Inl e \<Rightarrow> failure e
            | Inr (firstSize, rest) \<Rightarrow>
                (case validateFrameSize firstSize of
                   Inl e \<Rightarrow> failure e
                 | Inr _ \<Rightarrow>
                     if firstSize \<ge> length rest then failure InvalidArgument
                     else (case validateFrameSize (length rest - firstSize) of Inl e \<Rightarrow> failure e | Inr _ \<Rightarrow> success 2)))
         else opus_code3 payload)"

definition parseOpusPacketDuration :: "u8 list \<Rightarrow> int Result" where
  "parseOpusPacketDuration payload =
     (if payload = [] then failure InvalidArgument
      else
        (case opus_frames payload of
           Inl e \<Rightarrow> failure e
         | Inr frames \<Rightarrow>
             (let duration = opusFrameSamples (unat (drop_bit 3 (hd payload))) * frames
              in if duration > MaximumOpusRtpAccessUnitSamples then failure InvalidArgument else success (int duration))))"

record MediaOpusRtpDepacketizer =
  opus_payloadType :: u8
  opus_clockRate :: int

definition opus_push :: "(nat \<Rightarrow> bool) \<Rightarrow> MediaRtpPacket \<Rightarrow> MediaOpusRtpDepacketizer \<Rightarrow> MediaRtpAccessUnit list Result" where
  "opus_push newPacket packet d =
     (if rtp_payloadType packet \<noteq> opus_payloadType d then failure InvalidArgument
      else
        (case parseOpusPacketDuration (rtp_payload packet) of
           Inl e \<Rightarrow> failure e
         | Inr duration \<Rightarrow>
             (case makeRtpAccessUnit newPacket (rtp_payload packet) (rtp_timestamp packet) (opus_clockRate d) duration True of
                Inl e \<Rightarrow> failure e
              | Inr u \<Rightarrow> success [u])))"

section \<open>AAC on the wire\<close>

text \<open>
  What a sender writes by RFC 3640 with 13-bit sizes and 3-bit index differences: an aggregate of consecutive access units, or the
  fragments of one access unit, in packets with consecutive sequence numbers of which the last has the marker.
\<close>

definition au_header :: "nat \<Rightarrow> u8 list" where
  "au_header n = be16 (of_nat (8 * n))"

definition aac_aggregate :: "u8 list list \<Rightarrow> u8 list" where
  "aac_aggregate units = be16 (of_nat (16 * length units)) @ concat (map (\<lambda>u. au_header (length u)) units) @ concat units"

definition aac_packet :: "MediaRtpPacket \<Rightarrow> bool \<Rightarrow> u16 \<Rightarrow> u32 \<Rightarrow> u8 list \<Rightarrow> MediaRtpPacket" where
  "aac_packet p marker sequence timestamp payload =
     p\<lparr>rtp_marker := marker, rtp_sequenceNumber := sequence, rtp_timestamp := timestamp, rtp_payload := payload\<rparr>"

fun aac_fragments :: "MediaRtpPacket \<Rightarrow> nat \<Rightarrow> u16 \<Rightarrow> u32 \<Rightarrow> u8 list list \<Rightarrow> MediaRtpPacket list" where
  "aac_fragments p n sequence timestamp [] = []"
| "aac_fragments p n sequence timestamp (chunk # chunks) =
     aac_packet p (chunks = []) sequence timestamp (be16 16 @ au_header n @ chunk) # aac_fragments p n (sequence + 1) timestamp chunks"

datatype AacTransmission = AacAggregate "u8 list list" | AacFragments "u8 list list"

fun aac_packets :: "MediaRtpPacket \<Rightarrow> u16 \<Rightarrow> u32 \<Rightarrow> AacTransmission \<Rightarrow> MediaRtpPacket list" where
  "aac_packets p sequence timestamp (AacAggregate units) = [aac_packet p True sequence timestamp (aac_aggregate units)]"
| "aac_packets p sequence timestamp (AacFragments chunks) = aac_fragments p (length (concat chunks)) sequence timestamp chunks"

fun aac_sendable :: "AacTransmission \<Rightarrow> bool" where
  "aac_sendable (AacAggregate units) \<longleftrightarrow> units \<noteq> [] \<and> length units \<le> 4095 \<and> list_all (\<lambda>u. u \<noteq> [] \<and> length u \<le> 8191) units"
| "aac_sendable (AacFragments chunks) \<longleftrightarrow> 2 \<le> length chunks \<and> list_all (\<lambda>c. c \<noteq> []) chunks \<and> length (concat chunks) \<le> 8191"

definition aac_unit :: "MediaAacRtpDepacketizer \<Rightarrow> u32 \<Rightarrow> u8 list \<Rightarrow> MediaRtpAccessUnit" where
  "aac_unit d timestamp bytes =
     \<lparr>au_data = bytes, au_pts = uint timestamp, au_dts = uint timestamp, au_duration = aac_accessUnitDurationRtpTicks d, au_key = True,
      au_rtpTimestamp = timestamp, au_timeBaseDenominator = aac_clockRate d\<rparr>"

fun aac_expected :: "MediaAacRtpDepacketizer \<Rightarrow> u32 \<Rightarrow> AacTransmission \<Rightarrow> MediaRtpAccessUnit list" where
  "aac_expected d timestamp (AacAggregate units) =
     map (\<lambda>(i, u). aac_unit d (timestamp + of_nat i * word_of_int (aac_accessUnitDurationRtpTicks d)) u) (enumerate 0 units)"
| "aac_expected d timestamp (AacFragments chunks) = [aac_unit d timestamp (concat chunks)]"

fun aac_run :: "(nat \<Rightarrow> bool) \<Rightarrow> MediaRtpPacket list \<Rightarrow> MediaAacRtpDepacketizer \<Rightarrow> (MediaAacRtpDepacketizer \<times> MediaRtpAccessUnit list) Result" where
  "aac_run newPacket [] d = success (d, [])"
| "aac_run newPacket (p # ps) d =
     (case aac_push newPacket p d of
        (d, Inl e) \<Rightarrow> failure e
      | (d, Inr units) \<Rightarrow> (case aac_run newPacket ps d of Inl e \<Rightarrow> failure e | Inr (d, rest) \<Rightarrow> success (d, units @ rest)))"

lemma unat_u16: "m \<le> 65535 \<Longrightarrow> unat (of_nat m :: u16) = m"
  by (simp add: unat_of_nat take_bit_eq_mod)

lemma unat_header_field:
  assumes "m \<le> 65535"
  shows "unat (drop_bit 3 (of_nat m :: u16)) = m div 8" and "unat ((of_nat m :: u16) AND 7) = m mod 8"
proof -
  note m = unat_u16 [OF assms]
  show "unat (drop_bit 3 (of_nat m :: u16)) = m div 8" by (simp only: unat_drop_bit_eq m) (simp add: drop_bit_eq_div)
  have "unat ((of_nat m :: u16) AND 7) = m AND 7" by (simp only: unsigned_and_eq m) simp
  then show "unat ((of_nat m :: u16) AND 7) = m mod 8" using take_bit_eq_mask [of 3 m] by (simp only: take_bit_eq_mod) (simp add: mask_eq_exp_minus_1)
qed

lemma au_headers_written:
  assumes "list_all (\<lambda>u. u \<noteq> [] \<and> length u \<le> 8191) units" and "bytes + length (concat units) \<le> 18446744073709551615" and "i + length units \<le> 65536"
  shows "au_headers bytes (if i = 0 then None else Some (i - 1)) (concat (map (\<lambda>u. au_header (length u)) units)) =
    success (bytes + length (concat units), map (\<lambda>(i, u). \<lparr>ah_size = length u, ah_index = i\<rparr>) (enumerate i units))"
  using assms
proof (induction units arbitrary: bytes i)
  case (Cons u units)
  define v where "v = (of_nat (8 * length u) :: u16)"
  have v: "readU16 [ucast (drop_bit 8 v), ucast v] 0 = v" by (simp add: readU16_def join16)
  have s: "unat (drop_bit 3 v) = length u" "unat (v AND 7) = 0" using unat_header_field [of "8 * length u"] Cons.prems(1) by (simp_all add: v_def)
  have header: "au_header (length u) = [ucast (drop_bit 8 v), ucast v]" by (simp add: au_header_def be16_def v_def)
  have IH: "au_headers (bytes + length u) (Some i) (concat (map (\<lambda>u. au_header (length u)) units)) =
      success (bytes + length u + length (concat units), map (\<lambda>(i, u). \<lparr>ah_size = length u, ah_index = i\<rparr>) (enumerate (Suc i) units))"
    using Cons.IH [of "bytes + length u" "Suc i"] Cons.prems by simp
  have index: "(case if i = 0 then None else Some (i - 1) of None \<Rightarrow> success (unat (v AND 7)) | Some index \<Rightarrow>
      if index > 18446744073709551615 - (unat (v AND 7) + 1) then failure InvalidArgument else success (index + (unat (v AND 7) + 1))) = success i"
    using Cons.prems(3) s(2) by (cases i) auto
  have room: "length u \<noteq> 0" "\<not> length u > 18446744073709551615 - bytes" using Cons.prems by auto
  have "au_headers bytes (if i = 0 then None else Some (i - 1)) (ucast (drop_bit 8 v) # ucast v # concat (map (\<lambda>u. au_header (length u)) units)) =
      success (bytes + length u + length (concat units),
        \<lparr>ah_size = length u, ah_index = i\<rparr> # map (\<lambda>(i, u). \<lparr>ah_size = length u, ah_index = i\<rparr>) (enumerate (Suc i) units))"
    unfolding au_headers.simps v Let_def s(1) index sum.case if_not_P [OF room(1)] if_not_P [OF room(2)] IH prod.case ..
  then show ?case by (simp add: header add.assoc del: au_headers.simps)
qed simp

lemma length_au_header [simp]: "length (au_header n) = 2"
  by (simp add: au_header_def)

lemma length_au_headers [simp]: "length (concat (map (\<lambda>u. au_header (length u)) units)) = 2 * length units"
  by (induction units) auto

lemma length_concat_le: "list_all (\<lambda>u. u \<noteq> [] \<and> length u \<le> k) units \<Longrightarrow> length (concat units) \<le> k * length units"
  by (induction units) auto

abbreviation au_headers_of :: "nat \<Rightarrow> u8 list list \<Rightarrow> MediaAacRtpAuHeader list" where
  "au_headers_of i units \<equiv> map (\<lambda>(i, u). \<lparr>ah_size = length u, ah_index = i\<rparr>) (enumerate i units)"

lemma plan_written:
  assumes "list_all (\<lambda>u. u \<noteq> [] \<and> length u \<le> 8191) units" and "units \<noteq> []" and "length units \<le> 4095"
  shows "auHeader_plan (be16 (of_nat (16 * length units)) @ concat (map (\<lambda>u. au_header (length u)) units) @ body) =
    success \<lparr>ahp_payloadOffset = 2 + 2 * length units, ahp_payloadBytes = length body, ahp_totalAccessUnitBytes = length (concat units),
      ahp_accessUnits = au_headers_of 0 units\<rparr>"
proof -
  let ?p = "be16 (of_nat (16 * length units)) @ concat (map (\<lambda>u. au_header (length u)) units) @ body"
  have "readU16 ?p 0 = of_nat (16 * length units)" using readU16_be16 [of "[]" 0] by simp
  moreover have "unat (of_nat (16 * length units) :: u16) = 16 * length units" by (rule unat_u16) (use assms(3) in simp)
  ultimately have bits: "unat (readU16 ?p 0) = 16 * length units" by simp
  have some: "1 \<le> length units" using assms(2) by (cases units) auto
  then have n: "length ?p \<ge> 4" "length ?p = 2 + 2 * length units + length body" "16 * length units div 8 = 2 * length units"
    by simp_all
  have cut: "take (2 * length units) (drop 2 ?p) = concat (map (\<lambda>u. au_header (length u)) units)" by (simp add: be16_def)
  have "length (concat units) \<le> 18446744073709551615" using length_concat_le [OF assms(1)] assms(3) by linarith
  then have headers: "au_headers 0 None (concat (map (\<lambda>u. au_header (length u)) units)) = success (length (concat units), au_headers_of 0 units)"
    using au_headers_written [of units 0 0] assms(1,3) by simp
  have "\<not> length ?p < 4" "\<not> (16 * length units = 0 \<or> 16 * length units mod 16 \<noteq> 0)" "\<not> 2 * length units > length ?p - 2"
    using n assms(2) by auto
  note guards = this [THEN if_not_P]
  show ?thesis unfolding auHeader_plan_def bits Let_def guards n(3) cut headers sum.case prod.case n(2) using some by simp
qed

lemma plan_fragment:
  assumes "0 < n" and "n \<le> 8191"
  shows "auHeader_plan (be16 16 @ au_header n @ chunk) =
    success \<lparr>ahp_payloadOffset = 4, ahp_payloadBytes = length chunk, ahp_totalAccessUnitBytes = n, ahp_accessUnits = [\<lparr>ah_size = n, ah_index = 0\<rparr>]\<rparr>"
  using plan_written [of "[replicate n 0]" chunk] assms by simp

section \<open>Delivery of AAC\<close>

lemma aac_units_written:
  assumes "list_all (\<lambda>u. u \<noteq> [] \<and> length u \<le> 8191) units" and "i + length units \<le> 4095"
    and "drop offset (rtp_payload packet) = concat units" and "0 < aac_clockRate d"
    and "0 \<le> aac_accessUnitDurationRtpTicks d" and "aac_accessUnitDurationRtpTicks d < 2 ^ 52"
    and "\<And>n. n \<le> 8191 \<Longrightarrow> newPacket n"
  shows "aac_units newPacket packet d 0 offset (au_headers_of i units) =
    success (map (\<lambda>(i, u). aac_unit d (rtp_timestamp packet + of_nat i * word_of_int (aac_accessUnitDurationRtpTicks d)) u) (enumerate i units))"
  using assms
proof (induction units arbitrary: i offset)
  case (Cons u units)
  obtain duration where duration: "aac_accessUnitDurationRtpTicks d = int duration" "duration < 2 ^ 52"
    using Cons.prems(5,6) by (metis nonneg_int_cases of_nat_less_numeral_power_cancel_iff)
  have u: "take (length u) (drop offset (rtp_payload packet)) = u" "drop (offset + length u) (rtp_payload packet) = concat units"
    using Cons.prems(3) by (simp_all add: add.commute [of offset] flip: drop_drop)
  have ticks: "unat (word_of_int (aac_accessUnitDurationRtpTicks d) :: u64) = duration"
    using duration by (simp add: unat_of_nat take_bit_eq_mod)
  have "i * duration \<le> 4095 * 2 ^ 52" using Cons.prems(2) duration(2) by (intro mult_mono) auto
  then have "i \<noteq> 0 \<Longrightarrow> duration \<le> 18446744073709551615 div i" by (simp add: less_eq_div_iff_mult_less_eq mult.commute)
  then have room: "\<not> (i \<noteq> 0 \<and> duration > 18446744073709551615 div i)" by auto
  have unit: "makeRtpAccessUnit newPacket u timestamp (aac_clockRate d) (aac_accessUnitDurationRtpTicks d) True = success (aac_unit d timestamp u)" for timestamp
    using Cons.prems(1,4,7) by (simp add: makeRtpAccessUnit_def aac_unit_def)
  have IH: "aac_units newPacket packet d 0 (offset + length u) (au_headers_of (Suc i) units) =
      success (map (\<lambda>(i, u). aac_unit d (rtp_timestamp packet + of_nat i * word_of_int (aac_accessUnitDurationRtpTicks d)) u) (enumerate (Suc i) units))"
    by (rule Cons.IH) (use Cons.prems u in auto)
  have stamp: "(of_nat (i * duration) :: u32) = of_nat i * word_of_int (aac_accessUnitDurationRtpTicks d)" by (simp add: duration(1))
  show ?case using room by (simp add: u ticks unit IH Let_def stamp del: of_nat_mult)
qed simp

lemma aac_push_aggregate:
  assumes "aac_sendable (AacAggregate units)" and "rtp_payloadType p = aac_payloadType d" and "aac_fragmentedAccessUnit d = None"
    and "0 < aac_clockRate d" and "0 \<le> aac_accessUnitDurationRtpTicks d" and "aac_accessUnitDurationRtpTicks d < 2 ^ 52"
    and "\<And>n. n \<le> 8191 \<Longrightarrow> newPacket n"
  shows "aac_push newPacket (aac_packet p marker sequence timestamp (aac_aggregate units)) d = (d, success (aac_expected d timestamp (AacAggregate units)))"
proof -
  have units: "list_all (\<lambda>u. u \<noteq> [] \<and> length u \<le> 8191) units" "units \<noteq> []" "length units \<le> 4095" using assms(1) by auto
  note plan = plan_written [OF this, of "concat units", folded aac_aggregate_def]
  let ?packet = "aac_packet p marker sequence timestamp (aac_aggregate units)"
  have packet: "rtp_payload ?packet = aac_aggregate units" "rtp_timestamp ?packet = timestamp" "rtp_payloadType ?packet = aac_payloadType d"
    using assms(2) by (simp_all add: aac_packet_def)
  have "drop (2 + 2 * length units) (aac_aggregate units) = concat units" by (simp add: aac_aggregate_def)
  then have "aac_units newPacket ?packet d 0 (2 + 2 * length units) (au_headers_of 0 units) = success (aac_expected d timestamp (AacAggregate units))"
    using aac_units_written [OF units(1), of 0 "2 + 2 * length units" ?packet d newPacket] units(3) assms packet by simp
  moreover have "ah_index (hd (au_headers_of 0 units)) = 0" using units(2) by (cases units) auto
  ultimately show ?thesis by (simp add: aac_push_def packet plan assms(3) Let_def)
qed

text \<open>The fragments after the first, from a depacketizer that holds those before them.\<close>

lemma aac_run_fragments:
  assumes "chunks \<noteq> []" and "list_all (\<lambda>c. c \<noteq> []) chunks" and "length (sofar @ concat chunks) = n" and "n \<le> 8191"
    and "rtp_payloadType p = aac_payloadType d" and "0 < aac_clockRate d" and "\<And>n. n \<le> 8191 \<Longrightarrow> newPacket n"
    and "aac_fragmentedAccessUnit d = Some \<lparr>fa_expectedSize = n, fa_index = 0, fa_timestamp = timestamp, fa_lastSequenceNumber = sequence - 1, fa_bytes = sofar\<rparr>"
  shows "aac_run newPacket (aac_fragments p n sequence timestamp chunks) d =
    success (d\<lparr>aac_fragmentedAccessUnit := None\<rparr>, [aac_unit d timestamp (sofar @ concat chunks)])"
  using assms
proof (induction chunks arbitrary: sofar sequence d)
  case (Cons chunk chunks)
  let ?packet = "aac_packet p (chunks = []) sequence timestamp (be16 16 @ au_header n @ chunk)"
  have positive: "0 < length chunk" "list_all (\<lambda>c. c \<noteq> []) chunks" using Cons.prems(2) by auto
  have plan: "auHeader_plan (be16 16 @ au_header n @ chunk) =
      success \<lparr>ahp_payloadOffset = 4, ahp_payloadBytes = length chunk, ahp_totalAccessUnitBytes = n, ahp_accessUnits = [\<lparr>ah_size = n, ah_index = 0\<rparr>]\<rparr>"
    by (rule plan_fragment) (use Cons.prems(3,4) positive(1) in auto)
  have fits: "\<not> n - length sofar < length chunk" using Cons.prems(3) by auto
  show ?case
  proof (cases chunks)
    case Nil
    have "makeRtpAccessUnit newPacket (sofar @ chunk) timestamp (aac_clockRate d) (aac_accessUnitDurationRtpTicks d) True =
        success (aac_unit d timestamp (sofar @ chunk))"
      using Cons.prems(3,4,6,7) Nil positive(1) by (auto simp: makeRtpAccessUnit_def aac_unit_def)
    then have "aac_push newPacket ?packet d = (d\<lparr>aac_fragmentedAccessUnit := None\<rparr>, success [aac_unit d timestamp (sofar @ chunk)])"
      using Cons.prems(3,5,8) Nil fits by (simp add: aac_push_def aac_packet_def plan aac_continue_def Let_def)
    then show ?thesis using Nil by simp
  next
    case later: (Cons c later)
    define d' where "d' = d\<lparr>aac_fragmentedAccessUnit := Some \<lparr>fa_expectedSize = n, fa_index = 0, fa_timestamp = timestamp,
      fa_lastSequenceNumber = sequence, fa_bytes = sofar @ chunk\<rparr>\<rparr>"
    have short: "length (sofar @ chunk) < n" using Cons.prems(3) positive(2) later by auto
    then have push: "aac_push newPacket ?packet d = (d', success [])"
      using Cons.prems(5,8) later fits by (simp add: aac_push_def aac_packet_def plan aac_continue_def d'_def Let_def)
    have "aac_run newPacket (aac_fragments p n (sequence + 1) timestamp chunks) d' =
        success (d'\<lparr>aac_fragmentedAccessUnit := None\<rparr>, [aac_unit d' timestamp ((sofar @ chunk) @ concat chunks)])"
      by (rule Cons.IH) (use Cons.prems later positive in \<open>auto simp: d'_def\<close>)
    then show ?thesis by (simp add: push later [symmetric]) (simp add: d'_def aac_unit_def)
  qed
qed simp

lemma aac_run_append:
  "aac_run newPacket (ps @ qs) d =
     (case aac_run newPacket ps d of
        Inl e \<Rightarrow> failure e
      | Inr (d, units) \<Rightarrow> (case aac_run newPacket qs d of Inl e \<Rightarrow> failure e | Inr (d, rest) \<Rightarrow> success (d, units @ rest)))"
proof (induction ps arbitrary: d)
  case (Cons p ps)
  then show ?case by (auto split: prod.split sum.split)
qed (auto split: sum.split)

lemma aac_run_transmission:
  assumes "aac_sendable t" and "rtp_payloadType p = aac_payloadType d" and "aac_fragmentedAccessUnit d = None"
    and "0 < aac_clockRate d" and "0 \<le> aac_accessUnitDurationRtpTicks d" and "aac_accessUnitDurationRtpTicks d < 2 ^ 52"
    and "\<And>n. n \<le> 8191 \<Longrightarrow> newPacket n"
  shows "aac_run newPacket (aac_packets p sequence timestamp t) d = success (d, aac_expected d timestamp t)"
proof (cases t)
  case (AacAggregate units)
  then show ?thesis using aac_push_aggregate [of units p d newPacket True sequence timestamp] assms by simp
next
  case (AacFragments chunks)
  then obtain chunk second later where split: "chunks = chunk # second # later" using assms(1) by (auto simp: numeral_2_eq_2 Suc_le_length_iff)
  define chunks' where "chunks' = second # later"
  have chunks: "chunks = chunk # chunks'" "chunks' \<noteq> []" by (simp_all add: split chunks'_def)
  let ?n = "length (concat chunks)" and ?packet = "aac_packet p False sequence timestamp (be16 16 @ au_header (length (concat chunks)) @ chunk)"
  have bounds: "0 < length chunk" "length chunk < ?n" "?n \<le> 8191" "list_all (\<lambda>c. c \<noteq> []) chunks'"
    using AacFragments assms(1) by (auto simp: chunks'_def split)
  note plan = plan_fragment [OF less_trans [OF bounds(1,2)] bounds(3), of chunk]
  define d' where "d' = d\<lparr>aac_fragmentedAccessUnit := Some \<lparr>fa_expectedSize = ?n, fa_index = 0, fa_timestamp = timestamp,
    fa_lastSequenceNumber = sequence, fa_bytes = chunk\<rparr>\<rparr>"
  have push: "aac_push newPacket ?packet d = (d', success [])"
    using assms(2,3) bounds by (simp add: aac_push_def aac_packet_def plan Let_def d'_def)
  have "aac_run newPacket (aac_fragments p ?n (sequence + 1) timestamp chunks') d' =
      success (d'\<lparr>aac_fragmentedAccessUnit := None\<rparr>, [aac_unit d' timestamp (chunk @ concat chunks')])"
    by (rule aac_run_fragments) (use assms bounds chunks in \<open>auto simp: d'_def\<close>)
  then show ?thesis using assms(3) AacFragments chunks push by (simp add: d'_def aac_unit_def)
qed

text \<open>
  C27. From an idle depacketizer every stream of packets that a sender writes by RFC 3640 (aggregates of 1 to 4095 access units, or an
  access unit in fragments, each of 1 to 8191 bytes, at any sequence numbers and timestamps) is accepted, gives exactly the access units
  sent, in order, the i-th of an aggregate at the packet's timestamp plus i durations (modulo 2 ^ 32), and leaves the depacketizer idle.
\<close>

theorem aac_units_delivered:
  assumes "\<forall>(sequence, timestamp, t) \<in> set stream. aac_sendable t" and "rtp_payloadType p = aac_payloadType d" and "aac_fragmentedAccessUnit d = None"
    and "0 < aac_clockRate d" and "0 \<le> aac_accessUnitDurationRtpTicks d" and "aac_accessUnitDurationRtpTicks d < 2 ^ 52"
    and "\<forall>n \<le> 8191. newPacket n"
  shows "aac_run newPacket (concat (map (\<lambda>(sequence, timestamp, t). aac_packets p sequence timestamp t) stream)) d =
    success (d, concat (map (\<lambda>(sequence, timestamp, t). aac_expected d timestamp t) stream))"
  using assms(1)
proof (induction stream)
  case (Cons x stream)
  then show ?case using assms(2-) by (cases x) (simp add: aac_run_append aac_run_transmission)
qed simp

theorem aac_units_delivered_witness:
  "aac_run (\<lambda>n. n \<le> 8191) (concat (map (\<lambda>(sequence, timestamp, t). aac_packets
      \<lparr>rtp_version = 2, rtp_marker = False, rtp_payloadType = 97, rtp_sequenceNumber = 0, rtp_timestamp = 0, rtp_ssrc = 0, rtp_csrcs = [],
       rtp_extension = None, rtp_paddingSize = 0, rtp_payload = []\<rparr> sequence timestamp t)
      [(7, 0xFFFFFF00, AacAggregate [[1, 2], [3]]), (65535, 1792, AacFragments [[4], [5, 6], [7]])])) (aac_create 97 48000 1024) =
    success (aac_create 97 48000 1024,
      [aac_unit (aac_create 97 48000 1024) 0xFFFFFF00 [1, 2], aac_unit (aac_create 97 48000 1024) 768 [3],
       aac_unit (aac_create 97 48000 1024) 1792 [4, 5, 6, 7]])"
proof -
  have wrap: "(4294968064 :: u32) = 768" by code_simp
  show ?thesis by (subst aac_units_delivered) (simp_all add: aac_create_def wrap)
qed

section \<open>The packets of Opus\<close>

text \<open>
  The packings of RFC 6716, section 3.2, by the frames they carry: one frame, two of equal size, two of which the first has its size
  written, and any number of frames of one size or with their sizes written (but for the last), with padding or not. Padding is given by
  the number of length bytes of 255, the last length byte and the bytes after the frames.
\<close>

type_synonym OpusPadding = "(nat \<times> u8 \<times> u8 list) option"

datatype OpusPacking =
    OneFrame "u8 list"
  | EqualPair "u8 list" "u8 list"
  | SizedPair "u8 list" "u8 list"
  | CbrFrames "u8 list list" OpusPadding
  | VbrFrames "u8 list list" OpusPadding

definition opus_size :: "nat \<Rightarrow> u8 list" where
  "opus_size n = (if n < 252 then [of_nat n] else [of_nat (252 + n mod 4), of_nat ((n - 252) div 4)])"

fun padding_length :: "OpusPadding \<Rightarrow> u8 list" where
  "padding_length None = []"
| "padding_length (Some (k, b, bytes)) = replicate k 255 @ [b]"

fun padding_bytes :: "OpusPadding \<Rightarrow> u8 list" where
  "padding_bytes None = []"
| "padding_bytes (Some (k, b, bytes)) = bytes"

fun padding_ok :: "OpusPadding \<Rightarrow> bool" where
  "padding_ok None \<longleftrightarrow> True"
| "padding_ok (Some (k, b, bytes)) \<longleftrightarrow> b \<noteq> 255 \<and> length bytes = 254 * k + unat b"

definition opus_control :: "bool \<Rightarrow> OpusPadding \<Rightarrow> nat \<Rightarrow> u8" where
  "opus_control vbr padding frames = (if vbr then 0x80 else 0) OR (if padding = None then 0 else 0x40) OR of_nat frames"

fun opus_code :: "OpusPacking \<Rightarrow> u8" where
  "opus_code (OneFrame f) = 0"
| "opus_code (EqualPair f g) = 1"
| "opus_code (SizedPair f g) = 2"
| "opus_code (CbrFrames fs padding) = 3"
| "opus_code (VbrFrames fs padding) = 3"

fun opus_frames_of :: "OpusPacking \<Rightarrow> u8 list list" where
  "opus_frames_of (OneFrame f) = [f]"
| "opus_frames_of (EqualPair f g) = [f, g]"
| "opus_frames_of (SizedPair f g) = [f, g]"
| "opus_frames_of (CbrFrames fs padding) = fs"
| "opus_frames_of (VbrFrames fs padding) = fs"

fun opus_body :: "OpusPacking \<Rightarrow> u8 list" where
  "opus_body (OneFrame f) = f"
| "opus_body (EqualPair f g) = f @ g"
| "opus_body (SizedPair f g) = opus_size (length f) @ f @ g"
| "opus_body (CbrFrames fs padding) =
     opus_control False padding (length fs) # padding_length padding @ concat fs @ padding_bytes padding"
| "opus_body (VbrFrames fs padding) =
     opus_control True padding (length fs) # padding_length padding @ concat (map (\<lambda>f. opus_size (length f)) (butlast fs)) @ concat fs @ padding_bytes padding"

fun opus_packing_ok :: "OpusPacking \<Rightarrow> bool" where
  "opus_packing_ok (EqualPair f g) \<longleftrightarrow> length f = length g"
| "opus_packing_ok (CbrFrames fs padding) \<longleftrightarrow> fs \<noteq> [] \<and> length fs \<le> 63 \<and> list_all (\<lambda>f. length f = length (hd fs)) fs \<and> padding_ok padding"
| "opus_packing_ok (VbrFrames fs padding) \<longleftrightarrow> fs \<noteq> [] \<and> length fs \<le> 63 \<and> padding_ok padding"
| "opus_packing_ok _ \<longleftrightarrow> True"

abbreviation frame_ok :: "u8 list \<Rightarrow> bool" where
  "frame_ok f \<equiv> 1 \<le> length f \<and> length f \<le> 1275"

lemma validateFrameSize_iff: "validateFrameSize n = success x \<longleftrightarrow> 1 \<le> n \<and> n \<le> 1275"
  by (auto simp: validateFrameSize_def MaxOpusFrameBytes_def)

lemma validateFrameSize_ok: "1 \<le> n \<Longrightarrow> n \<le> 1275 \<Longrightarrow> validateFrameSize n = success ()"
  by (simp add: validateFrameSize_iff)

lemma readFrameSize_size:
  assumes "n \<le> 1275"
  shows "readFrameSize (opus_size n @ rest) = success (n, rest)"
proof (cases "n < 252")
  case True
  then show ?thesis by (simp add: opus_size_def word_less_nat_alt unat_of_nat take_bit_eq_mod)
next
  case False
  have "252 + n mod 4 < 256" "(n - 252) div 4 < 256" using assms by (simp_all add: less_mult_imp_div_less)
  then have u: "unat (of_nat (252 + n mod 4) :: u8) = 252 + n mod 4" "unat (of_nat ((n - 252) div 4) :: u8) = (n - 252) div 4"
    by (simp_all only: unat_of_nat take_bit_eq_mod) simp_all
  have "252 + n mod 4 + 4 * ((n - 252) div 4) = n" using False by presburger
  then show ?thesis using False u by (simp add: opus_size_def word_less_nat_alt)
qed

lemma readFrameSize_inv:
  assumes "readFrameSize xs = success (n, rest)"
  shows "n \<le> 1275 \<and> xs = opus_size n @ rest"
proof (cases xs)
  case (Cons first xs')
  show ?thesis
  proof (cases "first < 252")
    case True
    then show ?thesis using assms Cons by (auto simp: opus_size_def word_less_nat_alt)
  next
    case False
    then obtain second where s: "xs' = second # rest" "n = unat first + 4 * unat second" using assms Cons by (cases xs') auto
    have b: "252 \<le> unat first" "unat first < 256" "unat second < 256"
      using False unsigned_less [of first, where ?'a = nat] unsigned_less [of second, where ?'a = nat] by (auto simp: word_less_nat_alt)
    obtain r where r: "unat first = 252 + r" "r < 4" using b(1,2) le_iff_add [of 252 "unat first"] by auto
    then have "n = r + 4 * (63 + unat second)" "n - 252 = r + 4 * unat second" using s(2) by auto
    then have "n mod 4 = r" "(n - 252) div 4 = unat second" using r(2) by (simp_all only: mod_mult_self2 div_mult_self2) simp_all
    then have "opus_size n = [of_nat (unat first), of_nat (unat second)]" using r(1) s(2) by (simp add: opus_size_def)
    then show ?thesis using b s Cons by simp
  qed
qed (use assms in simp)

lemma opus_padding_inv:
  "opus_padding n padding xs = success (z, rest) \<Longrightarrow> \<exists>k b. b \<noteq> 255 \<and> xs = replicate k 255 @ b # rest \<and> z = padding + 254 * k + unat b"
proof (induction n padding xs rule: opus_padding.induct)
  case (2 n padding byte xs)
  show ?case
  proof (cases "byte = 255")
    case True
    then obtain k b where "b \<noteq> 255" "xs = replicate k 255 @ b # rest" "z = padding + 254 + 254 * k + unat b"
      using 2 by (auto simp: Let_def split: if_splits)
    then show ?thesis using True by (intro exI [of _ "Suc k"] exI [of _ b]) simp
  next
    case False
    then show ?thesis using 2(2) by (intro exI [of _ 0] exI [of _ byte]) (simp add: Let_def split: if_splits)
  qed
qed simp

lemma padding_room:
  assumes "padding + contribution \<le> n" and "n < 2 ^ 64"
  shows "\<not> (of_nat padding :: u64) > of_nat n - of_nat contribution"
proof -
  have "(of_nat n - of_nat contribution :: u64) = of_nat (n - contribution)" using assms(1) by (simp add: of_nat_diff)
  moreover have "unat (of_nat (n - contribution) :: u64) = n - contribution" "unat (of_nat padding :: u64) = padding"
    using assms by (simp_all only: unat_of_nat take_bit_eq_mod) simp_all
  ultimately show ?thesis using assms(1) by (simp only: word_less_nat_alt)
qed

lemma opus_padding_written:
  assumes "b \<noteq> 255" and "padding + 254 * k + unat b \<le> n" and "n < 2 ^ 64"
  shows "opus_padding n padding (replicate k 255 @ b # rest) = success (padding + 254 * k + unat b, rest)"
  using assms
proof (induction k arbitrary: padding)
  case 0
  then show ?case using padding_room [of padding "unat b" n] by simp
next
  case (Suc k)
  then show ?case using padding_room [of padding 254 n] by simp
qed

lemma opus_declared_inv:
  "opus_declared n dataEnd k declared xs = success (z, rest) \<Longrightarrow>
   \<exists>sizes. length sizes = k \<and> list_all (\<lambda>s. 1 \<le> s \<and> s \<le> 1275) sizes \<and> xs = concat (map opus_size sizes) @ rest \<and> z = declared + sum_list sizes"
proof (induction k arbitrary: declared xs)
  case (Suc k)
  obtain s ys where s: "readFrameSize xs = success (s, ys)" "validateFrameSize s = success ()"
      "opus_declared n dataEnd k (declared + s) ys = success (z, rest)"
    using Suc.prems by (auto simp: Let_def split: sum.splits prod.splits if_splits)
  obtain sizes where "length sizes = k" "list_all (\<lambda>s. 1 \<le> s \<and> s \<le> 1275) sizes" "ys = concat (map opus_size sizes) @ rest"
      "z = declared + s + sum_list sizes"
    using Suc.IH [OF s(3)] by blast
  then show ?case using readFrameSize_inv [OF s(1)] s(2) by (intro exI [of _ "s # sizes"]) (simp add: validateFrameSize_iff)
qed simp

lemma opus_declared_written:
  assumes "list_all (\<lambda>s. 1 \<le> s \<and> s \<le> 1275) sizes" and "n - length rest + declared + sum_list sizes \<le> dataEnd"
  shows "opus_declared n dataEnd (length sizes) declared (concat (map opus_size sizes) @ rest) = success (declared + sum_list sizes, rest)"
  using assms
proof (induction sizes arbitrary: declared)
  case (Cons s sizes)
  let ?rest = "concat (map opus_size sizes) @ rest"
  have "n - length ?rest \<le> n - length rest" by simp
  then have room: "\<not> (n - length ?rest > dataEnd \<or> declared > dataEnd - (n - length ?rest) \<or> s > dataEnd - (n - length ?rest) - declared)"
    using Cons.prems(2) by auto
  have "opus_declared n dataEnd (length sizes) (declared + s) ?rest = success (declared + s + sum_list sizes, rest)"
    using Cons by simp
  then show ?case using room readFrameSize_size [of s ?rest] Cons.prems(1) by (simp add: validateFrameSize_ok Let_def)
qed simp

lemma split_sizes: "sum_list sizes = length xs \<Longrightarrow> \<exists>fs. concat fs = xs \<and> map length fs = sizes"
proof (induction sizes arbitrary: xs)
  case (Cons s sizes)
  obtain fs where "concat fs = drop s xs" "map length fs = sizes" using Cons.IH [of "drop s xs"] Cons.prems by fastforce
  then show ?case using Cons.prems by (intro exI [of _ "take s xs # fs"]) auto
qed auto

lemma padded_inv:
  assumes "(if c then opus_padding n 0 xs else success (0, xs)) = success (z, rest)" and "length bytes = z"
  shows "\<exists>padding. padding_ok padding \<and> xs = padding_length padding @ rest \<and> padding_bytes padding = bytes \<and> (padding = None \<longleftrightarrow> \<not> c)"
proof (cases c)
  case True
  then obtain k b where "b \<noteq> 255" "xs = replicate k 255 @ b # rest" "z = 254 * k + unat b"
    using assms(1) opus_padding_inv [of n 0 xs z rest] by auto
  then show ?thesis using assms(2) True by (intro exI [of _ "Some (k, b, bytes)"]) simp
next
  case False
  then show ?thesis using assms by (intro exI [of _ None]) auto
qed

lemma padded_written:
  assumes "padding_ok padding" and "padding = None \<longleftrightarrow> \<not> c" and "length (padding_bytes padding) \<le> n" and "n < 2 ^ 64"
  shows "(if c then opus_padding n 0 (padding_length padding @ rest) else success (0, padding_length padding @ rest)) =
    success (length (padding_bytes padding), rest)"
proof (cases padding)
  case (Some x)
  obtain k b bytes where x: "x = (k, b, bytes)" by (cases x) auto
  show ?thesis using assms Some opus_padding_written [of b 0 k n rest] by (simp add: x)
qed (use assms in simp)

lemma cbr_inv:
  assumes "opus_code3_sizes n False frames z rest = success c" and "length rest \<le> n" and "0 < frames"
  shows "c = frames \<and> (\<exists>fs bytes. rest = concat fs @ bytes \<and> length bytes = z \<and> length fs = frames \<and>
    list_all (\<lambda>f. length f = length (hd fs)) fs \<and> list_all frame_ok fs)"
proof -
  have z: "z \<le> length rest" "c = frames" using assms(1) by (auto simp: opus_code3_sizes_def Let_def split: if_splits sum.splits)
  define m where "m = (length rest - z) div frames"
  have data: "n - z - (n - length rest) = length rest - z" "\<not> n - z < n - length rest" using z assms(2) by auto
  then have m: "(length rest - z) mod frames = 0" "1 \<le> m" "m \<le> 1275"
    using assms(1) z by (auto simp: opus_code3_sizes_def Let_def m_def validateFrameSize_iff split: if_splits sum.splits)
  have "sum_list (replicate frames m) = length (take (length rest - z) rest)" using m(1) by (auto simp: m_def sum_list_replicate)
  then obtain fs where fs: "concat fs = take (length rest - z) rest" "map length fs = replicate frames m" using split_sizes by metis
  have "length (map length fs) = frames" "set (map length fs) \<subseteq> {m}" unfolding fs(2) by auto
  then have each: "length fs = frames" "list_all (\<lambda>f. length f = m) fs" by (auto simp: list_all_iff)
  then have "length (hd fs) = m" using assms(3) by (cases fs) auto
  then show ?thesis using fs(1) each m z
    by (intro conjI exI [of _ fs] exI [of _ "drop (length rest - z) rest"]) (auto simp: list_all_iff)
qed

lemma vbr_inv:
  assumes "opus_code3_sizes n True frames z rest = success c" and "length rest \<le> n" and "0 < frames"
  shows "c = frames \<and> (\<exists>fs bytes. rest = concat (map (\<lambda>f. opus_size (length f)) (butlast fs)) @ concat fs @ bytes \<and> length bytes = z \<and>
    length fs = frames \<and> list_all frame_ok fs)"
proof -
  have z: "z \<le> length rest" using assms(1) by (auto simp: opus_code3_sizes_def split: if_splits)
  obtain declared tail where declared: "opus_declared n (n - z) (frames - 1) 0 rest = success (declared, tail)"
      and tail: "\<not> n - length tail > n - z" "\<not> declared \<ge> n - z - (n - length tail)"
        "validateFrameSize (n - z - (n - length tail) - declared) = success ()" and c: "c = frames"
    using assms(1) z by (auto simp: opus_code3_sizes_def Let_def split: if_splits sum.splits prod.splits)
  obtain sizes where sizes: "length sizes = frames - 1" "list_all (\<lambda>s. 1 \<le> s \<and> s \<le> 1275) sizes" "rest = concat (map opus_size sizes) @ tail"
      "declared = sum_list sizes"
    using opus_declared_inv [OF declared] by auto
  have n: "length tail \<le> n" "z \<le> length tail" "n - z - (n - length tail) = length tail - z" using sizes(3) assms(2) z tail(1) by auto
  define final where "final = length tail - z - declared"
  have final: "1 \<le> final" "final \<le> 1275" "declared + final = length tail - z" using tail(2,3) n by (auto simp: final_def validateFrameSize_iff)
  have "sum_list (sizes @ [final]) = length (take (length tail - z) tail)" using final(3) sizes(4) by simp
  then obtain fs where fs: "concat fs = take (length tail - z) tail" "map length fs = sizes @ [final]" using split_sizes by metis
  have "map length (butlast fs) = sizes" using fs(2) by (simp add: map_butlast)
  then have rest: "rest = concat (map (\<lambda>f. opus_size (length f)) (butlast fs)) @ concat fs @ drop (length tail - z) tail"
    using sizes(3) fs(1) by (auto simp: comp_def)
  have "length (map length fs) = frames" "list_all (\<lambda>s. 1 \<le> s \<and> s \<le> 1275) (map length fs)"
    unfolding fs(2) using sizes(1,2) final assms(3) by auto
  then show ?thesis using c rest n(2)
    by (intro conjI exI [of _ fs] exI [of _ "drop (length tail - z) tail"]) (auto simp: list_all_iff)
qed

lemma cbr_written:
  assumes "fs \<noteq> []" and "list_all (\<lambda>f. length f = length (hd fs)) fs" and "list_all frame_ok fs" and "length (concat fs @ bytes) \<le> n"
  shows "opus_code3_sizes n False (length fs) (length bytes) (concat fs @ bytes) = success (length fs)"
proof -
  have "list_all (\<lambda>f. length f = k) fs \<Longrightarrow> length (concat fs) = k * length fs" for k by (induction fs) auto
  then have "length (concat fs) = length (hd fs) * length fs" using assms(2) by blast
  moreover have "frame_ok (hd fs)" using assms(1,3) by (cases fs) auto
  moreover have "n - length bytes - (n - length (concat fs @ bytes)) = length (concat fs)"
      "\<not> n - length (concat fs @ bytes) > n - length bytes" using assms(4) by auto
  ultimately show ?thesis using assms(1) by (simp add: opus_code3_sizes_def Let_def validateFrameSize_ok)
qed

lemma vbr_written:
  assumes "fs \<noteq> []" and "list_all frame_ok fs"
    and "length (concat (map (\<lambda>f. opus_size (length f)) (butlast fs)) @ concat fs @ bytes) \<le> n"
  shows "opus_code3_sizes n True (length fs) (length bytes) (concat (map (\<lambda>f. opus_size (length f)) (butlast fs)) @ concat fs @ bytes) = success (length fs)"
proof -
  let ?sizes = "map length (butlast fs)"
  have split: "fs = butlast fs @ [List.last fs]" using assms(1) by simp
  have final: "frame_ok (List.last fs)" "list_all (\<lambda>s. 1 \<le> s \<and> s \<le> 1275) ?sizes"
    using assms(1,2) by (auto simp: list_all_iff dest: in_set_butlastD)
  have "length (concat fs) = sum_list ?sizes + length (List.last fs)"
    by (subst split) (simp only: concat_append length_append, simp add: length_concat)
  then have n: "n - length bytes - (n - length (concat fs @ bytes)) = sum_list ?sizes + length (List.last fs)"
      "n - length (concat fs @ bytes) + 0 + sum_list ?sizes \<le> n - length bytes" "\<not> n - length (concat fs @ bytes) > n - length bytes"
    using assms(3) by auto
  have "concat (map (\<lambda>f. opus_size (length f)) (butlast fs)) = concat (map opus_size ?sizes)" by (simp add: comp_def)
  then have "opus_declared n (n - length bytes) (length fs - 1) 0 (concat (map (\<lambda>f. opus_size (length f)) (butlast fs)) @ concat fs @ bytes) =
      success (sum_list ?sizes, concat fs @ bytes)"
    using opus_declared_written [OF final(2) n(2)] by simp
  moreover have "List.last fs \<noteq> []" using final(1) by auto
  ultimately show ?thesis using final(1) n(1,3) by (simp add: opus_code3_sizes_def Let_def validateFrameSize_ok)
qed

lemma opus_control_fields:
  assumes "frames \<le> 63"
  shows "unat (opus_control vbr padding frames AND 0x3F) = frames"
    and "opus_control vbr padding frames AND 0x40 \<noteq> 0 \<longleftrightarrow> padding \<noteq> None"
    and "opus_control vbr padding frames AND 0x80 \<noteq> 0 \<longleftrightarrow> vbr"
proof -
  define x where "x = (of_nat frames :: u8)"
  have u: "unat x = frames" unfolding x_def using assms by (simp only: unat_of_nat take_bit_eq_mod) simp
  have "unat (x AND 0x3F) = frames AND mask 6" by (simp only: unsigned_and_eq u) (simp add: mask_eq_exp_minus_1)
  also have "\<dots> = unat x" unfolding take_bit_eq_mask [symmetric] u using assms by (simp add: take_bit_eq_mod)
  finally have m: "x AND 0x3F = x" by (simp add: word_unat_eq_iff)
  have "x AND 0x40 = (x AND 0x3F) AND 0x40" "x AND 0x80 = (x AND 0x3F) AND 0x80" unfolding m by simp_all
  then have f: "x AND 0x40 = 0" "x AND 0x80 = 0" by (simp_all add: and.assoc)
  show "unat (opus_control vbr padding frames AND 0x3F) = frames" using m u
    by (simp add: opus_control_def bit.conj_disj_distrib2 flip: x_def)
  show "opus_control vbr padding frames AND 0x40 \<noteq> 0 \<longleftrightarrow> padding \<noteq> None" using f
    by (simp add: opus_control_def bit.conj_disj_distrib2 flip: x_def)
  show "opus_control vbr padding frames AND 0x80 \<noteq> 0 \<longleftrightarrow> vbr" using f
    by (simp add: opus_control_def bit.conj_disj_distrib2 flip: x_def)
qed

lemma single_bit: "(w :: u8) AND 2 ^ n = (if w AND 2 ^ n = 0 then 0 else 2 ^ n)"
  by (rule bit_word_eqI) (auto simp: bit_simps and_exp_eq_0_iff_not_bit)

lemma opus_control_inv:
  assumes "padding = None \<longleftrightarrow> \<not> (control AND 0x40 \<noteq> 0)"
  shows "control = opus_control (control AND 0x80 \<noteq> 0) padding (unat (control AND 0x3F))"
proof -
  have bits: "(if control AND 0x80 \<noteq> 0 then 0x80 else 0) = control AND 0x80" "(if padding = None then 0 else 0x40) = control AND 0x40"
    using single_bit [of control 7] single_bit [of control 6] assms by (auto split: if_splits)
  have all: "(0x80 :: u8) OR 0x40 OR 0x3F = - 1" by code_simp
  have "control = control AND (0x80 OR 0x40 OR 0x3F)" unfolding all by simp
  then show ?thesis unfolding opus_control_def bits by (simp only: bit.conj_disj_distrib of_nat_unat ucast_id)
qed

lemma code3_inv:
  assumes "opus_code3 (toc # body) = success c"
  shows "\<exists>packing. opus_code packing = 3 \<and> body = opus_body packing \<and> opus_packing_ok packing \<and>
    list_all frame_ok (opus_frames_of packing) \<and> length (opus_frames_of packing) = c"
proof -
  obtain control xs where body: "body = control # xs" using assms by (cases body) (auto simp: opus_code3_def)
  let ?n = "length (toc # body)" and ?frames = "unat (control AND 0x3F)"
  obtain z rest where padded: "(if control AND 0x40 \<noteq> 0 then opus_padding ?n 0 xs else success (0, xs)) = success (z, rest)"
      and sizes: "opus_code3_sizes ?n (control AND 0x80 \<noteq> 0) ?frames z rest = success c" and frames: "0 < ?frames" "?frames \<le> 63"
    using assms body by (auto simp: opus_code3_def Let_def MaxOpusFramesPerPacket_def split: if_splits sum.splits prod.splits)
  have pad: "\<exists>padding. padding_ok padding \<and> xs = padding_length padding @ rest \<and> padding_bytes padding = bytes \<and>
      (padding = None \<longleftrightarrow> \<not> (control AND 0x40 \<noteq> 0))" if "length bytes = z" for bytes
    using padded_inv [OF padded that] .
  obtain padding0 where "xs = padding_length padding0 @ rest" using pad [of "replicate z 0"] by auto
  then have n: "length rest \<le> ?n" by (simp add: body)
  show ?thesis
  proof (cases "control AND 0x80 \<noteq> 0")
    case True
    then obtain fs bytes where fs: "c = ?frames" "rest = concat (map (\<lambda>f. opus_size (length f)) (butlast fs)) @ concat fs @ bytes"
        "length bytes = z" "length fs = ?frames" "list_all frame_ok fs"
      using vbr_inv [of ?n ?frames z rest c] sizes n frames(1) by auto
    obtain padding where padding: "padding_ok padding" "xs = padding_length padding @ rest" "padding_bytes padding = bytes"
        "padding = None \<longleftrightarrow> \<not> (control AND 0x40 \<noteq> 0)"
      using pad [OF fs(3)] by auto
    then have "control = opus_control True padding (length fs)" using opus_control_inv [OF padding(4)] True fs(4) by simp
    then show ?thesis using fs padding frames body by (intro exI [of _ "VbrFrames fs padding"]) auto
  next
    case False
    then obtain fs bytes where fs: "c = ?frames" "rest = concat fs @ bytes" "length bytes = z" "length fs = ?frames"
        "list_all (\<lambda>f. length f = length (hd fs)) fs" "list_all frame_ok fs"
      using cbr_inv [of ?n ?frames z rest c] sizes n frames(1) by auto
    obtain padding where padding: "padding_ok padding" "xs = padding_length padding @ rest" "padding_bytes padding = bytes"
        "padding = None \<longleftrightarrow> \<not> (control AND 0x40 \<noteq> 0)"
      using pad [OF fs(3)] by auto
    then have "control = opus_control False padding (length fs)" using opus_control_inv [OF padding(4)] False fs(4) by simp
    then show ?thesis using fs padding frames body by (intro exI [of _ "CbrFrames fs padding"]) auto
  qed
qed

lemma code3_step:
  assumes "0 < k" and "k \<le> 48" and "padding_ok padding" and "length (padding_bytes padding) \<le> length rest"
    and "length (toc # opus_control vbr padding k # padding_length padding @ rest) < 2 ^ 64"
  shows "opus_code3 (toc # opus_control vbr padding k # padding_length padding @ rest) =
    opus_code3_sizes (length (toc # opus_control vbr padding k # padding_length padding @ rest)) vbr k (length (padding_bytes padding)) rest"
proof -
  let ?control = "opus_control vbr padding k" and ?p = "toc # opus_control vbr padding k # padding_length padding @ rest"
  have fields: "unat (?control AND 0x3F) = k" "(?control AND 0x40 \<noteq> 0) = (padding \<noteq> None)" "(?control AND 0x80 \<noteq> 0) = vbr"
    using opus_control_fields [of k vbr padding] assms(2) by auto
  have padded: "(if padding \<noteq> None then opus_padding (length ?p) 0 (padding_length padding @ rest) else success (0, padding_length padding @ rest)) =
      success (length (padding_bytes padding), rest)"
    by (rule padded_written [OF assms(3) _ _ assms(5)]) (use assms(4) in \<open>simp_all only: not_not, simp\<close>)
  have "\<not> (k = 0 \<or> k > MaxOpusFramesPerPacket)" using assms(1,2) by (simp add: MaxOpusFramesPerPacket_def)
  note guard = this [THEN if_not_P]
  have "drop 1 ?p = ?control # padding_length padding @ rest" by simp
  then show ?thesis unfolding opus_code3_def Let_def by (simp only: list.case fields guard padded sum.case prod.case)
qed

lemma code3_written:
  assumes "opus_code packing = 3" and "opus_packing_ok packing" and "list_all frame_ok (opus_frames_of packing)"
    and "length (opus_frames_of packing) \<le> 48" and "length (toc # opus_body packing) < 2 ^ 64"
  shows "opus_code3 (toc # opus_body packing) = success (length (opus_frames_of packing))"
proof (cases packing)
  case (CbrFrames fs padding)
  then show ?thesis using assms code3_step [of "length fs" padding "concat fs @ padding_bytes padding" toc False] by (simp add: cbr_written)
next
  case (VbrFrames fs padding)
  then show ?thesis
    using assms code3_step [of "length fs" padding "concat (map (\<lambda>f. opus_size (length f)) (butlast fs)) @ concat fs @ padding_bytes padding" toc True]
    by (simp add: vbr_written)
qed (use assms(1) in simp_all)

text \<open>The frames of a payload, for every code.\<close>

lemma two_bits: "(toc :: u8) AND 3 = 0 \<or> toc AND 3 = 1 \<or> toc AND 3 = 2 \<or> toc AND 3 = 3"
proof -
  have "unat (toc AND 3) = unat toc AND mask 2" by (simp only: unsigned_and_eq) (simp add: mask_eq_exp_minus_1)
  also have "\<dots> < 4" unfolding take_bit_eq_mask [symmetric] by (simp add: take_bit_eq_mod)
  finally show ?thesis by (auto simp: word_unat_eq_iff)
qed

lemma opus_frames_inv:
  assumes "opus_frames (toc # body) = success c"
  shows "\<exists>packing. toc AND 3 = opus_code packing \<and> body = opus_body packing \<and> opus_packing_ok packing \<and>
    list_all frame_ok (opus_frames_of packing) \<and> length (opus_frames_of packing) = c"
proof -
  from two_bits [of toc] show ?thesis
  proof (elim disjE)
    assume "toc AND 3 = 0"
    then show ?thesis using assms by (intro exI [of _ "OneFrame body"]) (auto simp: opus_frames_def Let_def validateFrameSize_iff split: sum.splits)
  next
    assume toc: "toc AND 3 = 1"
    then have "c = 2" "length body mod 2 = 0" "1 \<le> length body div 2" "length body div 2 \<le> 1275"
      using assms by (auto simp: opus_frames_def Let_def validateFrameSize_iff split: sum.splits if_splits)
    then show ?thesis using toc
      by (intro exI [of _ "EqualPair (take (length body div 2) body) (drop (length body div 2) body)"]) auto
  next
    assume toc: "toc AND 3 = 2"
    then obtain s rest where s: "readFrameSize body = success (s, rest)" "c = 2" "1 \<le> s" "s \<le> 1275" "s < length rest" "length rest - s \<le> 1275"
      using assms by (auto simp: opus_frames_def Let_def validateFrameSize_iff split: sum.splits if_splits prod.splits)
    then show ?thesis using toc readFrameSize_inv [OF s(1)] by (intro exI [of _ "SizedPair (take s rest) (drop s rest)"]) auto
  next
    assume toc: "toc AND 3 = 3"
    then have "opus_code3 (toc # body) = success c" using assms by (simp add: opus_frames_def Let_def)
    from code3_inv [OF this] show ?thesis unfolding toc by (elim exE conjE, intro exI conjI) simp_all
  qed
qed

lemma opus_frames_written:
  assumes "toc AND 3 = opus_code packing" and "opus_packing_ok packing" and "list_all frame_ok (opus_frames_of packing)"
    and "length (opus_frames_of packing) \<le> 48" and "length (toc # opus_body packing) < 2 ^ 64"
  shows "opus_frames (toc # opus_body packing) = success (length (opus_frames_of packing))"
proof (cases packing)
  case (SizedPair f g)
  moreover have "g \<noteq> []" using assms(3) SizedPair by auto
  ultimately show ?thesis using assms readFrameSize_size [of "length f" "f @ g"] by (simp add: opus_frames_def Let_def validateFrameSize_ok)
next
  case (CbrFrames fs padding)
  then show ?thesis using assms code3_written [of packing toc] by (simp add: opus_frames_def Let_def)
next
  case (VbrFrames fs padding)
  then show ?thesis using assms code3_written [of packing toc] by (simp add: opus_frames_def Let_def)
qed (use assms in \<open>auto simp: opus_frames_def Let_def validateFrameSize_ok\<close>)

text \<open>
  The durations of RFC 6716, section 3.1, by configuration number, in tenths of a millisecond: SILK in three bandwidths, hybrid in two, CELT
  in four. The clock of Opus in RTP is 48 kHz.
\<close>

definition opus_durations :: "nat list" where
  "opus_durations =
     (let silk = [100, 200, 400, 600]; hybrid = [100, 200]; celt = [25, 50, 100, 200]
      in silk @ silk @ silk @ hybrid @ hybrid @ celt @ celt @ celt @ celt)"

definition opus_samples :: "u8 \<Rightarrow> nat" where
  "opus_samples toc = 48 * (opus_durations ! unat (drop_bit 3 toc)) div 10"

lemma opusFrameSamples_durations:
  assumes "config < 32"
  shows "opusFrameSamples config = 48 * (opus_durations ! config) div 10"
proof -
  have "[0..<32] = [0, 1, 2, 3, 4, 5, 6, 7, 8, 9, 10, 11, 12, 13, 14, 15, 16, 17, 18, 19, 20, 21, 22, 23, 24, 25, 26, 27, 28, 29, 30, 31 :: nat]"
    by (simp add: upt_rec)
  then have "map opusFrameSamples [0..<32] = map (\<lambda>d. 48 * d div 10) opus_durations"
    by (simp only: list.map) (simp add: opusFrameSamples_def opus_durations_def)
  then have "map opusFrameSamples [0..<32] ! config = map (\<lambda>d. 48 * d div 10) opus_durations ! config" by simp
  moreover have "length opus_durations = 32" by (simp add: opus_durations_def)
  ultimately show ?thesis using assms by simp
qed

lemma opusFrameSamples_toc: "opusFrameSamples (unat (drop_bit 3 (toc :: u8))) = opus_samples toc"
proof -
  have "unat (drop_bit 3 toc) = unat toc div 8" by (simp only: unat_drop_bit_eq) (simp add: drop_bit_eq_div)
  also have "\<dots> < 32" using unsigned_less [of toc, where ?'a = nat] by (intro less_mult_imp_div_less) simp
  finally show ?thesis unfolding opus_samples_def by (rule opusFrameSamples_durations)
qed

lemma opusFrameSamples_pos: "120 \<le> opusFrameSamples config"
proof -
  have "config mod 4 = 0 \<or> config mod 4 = 1 \<or> config mod 4 = 2 \<or> config mod 4 = 3" by presburger
  then show ?thesis by (auto simp: opusFrameSamples_def)
qed

text \<open>
  C28. The duration read from an Opus payload is exact for every payload: a duration is given if and only if the payload is one of the
  packings of RFC 6716 (with padding or not) of frames of 1 to 1275 bytes whose durations add up to no more than 120 ms, and it is then the
  sum of the durations that RFC 6716 gives the frames. Neither the modular comparison of the padding loop nor the reader of sizes accepts or refuses more.
\<close>

theorem opus_duration_exact:
  assumes "length payload < 2 ^ 64"
  shows "parseOpusPacketDuration payload = success d \<longleftrightarrow>
    (\<exists>toc packing. payload = toc # opus_body packing \<and> toc AND 3 = opus_code packing \<and> opus_packing_ok packing \<and>
       list_all frame_ok (opus_frames_of packing) \<and> d = int (opus_samples toc * length (opus_frames_of packing)) \<and> d \<le> 5760)"
    (is "?parsed \<longleftrightarrow> (\<exists>toc packing. ?packed toc packing)")
proof
  assume parsed: ?parsed
  then obtain toc body where payload: "payload = toc # body" by (cases payload) (auto simp: parseOpusPacketDuration_def)
  then obtain frames where frames: "opus_frames (toc # body) = success frames" "d = int (opus_samples toc * frames)" "d \<le> 5760"
    using parsed by (auto simp: parseOpusPacketDuration_def Let_def MaximumOpusRtpAccessUnitSamples_def not_less opusFrameSamples_toc
      simp flip: of_nat_mult split: sum.splits if_splits)
  from opus_frames_inv [OF this(1)] obtain packing where "toc AND 3 = opus_code packing" "body = opus_body packing" "opus_packing_ok packing"
      "list_all frame_ok (opus_frames_of packing)" "length (opus_frames_of packing) = frames"
    by blast
  then have "?packed toc packing" using payload frames(2,3) by simp
  then show "\<exists>toc packing. ?packed toc packing" by (intro exI)
next
  assume "\<exists>toc packing. ?packed toc packing"
  then obtain toc packing where packed: "?packed toc packing" by blast
  let ?n = "length (opus_frames_of packing)" and ?samples = "opus_samples toc"
  have d: "?samples * ?n \<le> 5760" using packed by linarith
  moreover have "120 * ?n \<le> ?samples * ?n" using opusFrameSamples_pos [of "unat (drop_bit 3 toc)"] unfolding opusFrameSamples_toc by (rule mult_le_mono1)
  ultimately have "?n \<le> 48" by linarith
  then have "opus_frames payload = success ?n" using opus_frames_written [of toc packing] packed assms by simp
  then show ?parsed using packed d by (simp add: parseOpusPacketDuration_def Let_def MaximumOpusRtpAccessUnitSamples_def opusFrameSamples_toc)
qed

theorem opus_duration_exact_witness:
  "parseOpusPacketDuration [0x7B, 0xC2, 2, 1, 9, 8, 0, 0] = success 1920 \<and> length [0x7B, 0xC2, 2, 1, 9, 8, 0, 0 :: u8] < 2 ^ 64"
proof
  show "parseOpusPacketDuration [0x7B, 0xC2, 2, 1, 9, 8, 0, 0] = success 1920"
  proof (rule opus_duration_exact [THEN iffD2])
    have "[0x7B, 0xC2, 2, 1, 9, 8, 0, 0] = 0x7B # opus_body (VbrFrames [[9], [8]] (Some (0, 2, [0, 0])))"
      by (simp add: opus_control_def opus_size_def)
    moreover have "opus_samples 0x7B = 960" by (simp add: opus_samples_def opus_durations_def)
    ultimately show "\<exists>toc packing. [0x7B, 0xC2, 2, 1, 9, 8, 0, 0] = toc # opus_body packing \<and> toc AND 3 = opus_code packing \<and> opus_packing_ok packing \<and>
       list_all frame_ok (opus_frames_of packing) \<and> 1920 = int (opus_samples toc * length (opus_frames_of packing)) \<and> (1920 :: int) \<le> 5760"
      by (intro exI [of _ "0x7B"] exI [of _ "VbrFrames [[9], [8]] (Some (0, 2, [0, 0]))"]) simp
  qed simp
qed simp

end
