(* ===== verification/Rtcp_Wire.thy ===== *)
theory Rtcp_Wire
  imports Wire_Bytes Running_Time
begin

unbundle bit_operations_syntax

text \<open>
  RTCP on the wire. The sending side: the output clock mapper \<^verbatim>\<open>MediaRtpOutputClockMapper\<close>, the text rules of a CNAME
  (\<^verbatim>\<open>MediaUtf8TextValidator\<close>, \<^verbatim>\<open>MediaRtcpSdesTextValidator\<close>), the compound packets of \<^verbatim>\<open>MediaRtcpSenderReportGenerator\<close> and
  \<^verbatim>\<open>MediaRtcpWireDatagramComposer\<close>, and their planned size \<^verbatim>\<open>MediaRtcpWireGeometry\<close>. The receiving side: \<^verbatim>\<open>MediaRtcpCompoundParser\<close>.
  A string is the list of its bytes. Memory is available.
\<close>

section \<open>Output clock\<close>

record MediaRtpTimestamp =
  m_extendedTicks :: u64
  m_wire :: u32

record MediaRtpOutputClockMapper =
  oc_clockRate :: int
  oc_baseTimestamp :: u32
  oc_masterOrigin :: MediaRunningTime

definition outputClock_create :: "int \<Rightarrow> u32 \<Rightarrow> MediaRunningTime \<Rightarrow> MediaRtpOutputClockMapper Result" where
  "outputClock_create clockRate baseTimestamp masterOrigin =
     (if clockRate \<le> 0 then failure InvalidArgument
      else success \<lparr>oc_clockRate = clockRate, oc_baseTimestamp = baseTimestamp, oc_masterOrigin = masterOrigin\<rparr>)"

definition RtpTimestampModulus :: u64 where
  "RtpTimestampModulus = push_bit 32 1"

definition outputClock_map :: "MediaRtpOutputClockMapper \<Rightarrow> MediaRunningTime \<Rightarrow> MediaRtpTimestamp Result" where
  "outputClock_map m presentationOnMaster =
     (case checkedSubtract presentationOnMaster (oc_masterOrigin m) of
        Inl _ \<Rightarrow> failure InvalidArgument
      | Inr delta \<Rightarrow>
          (let seconds = tdiv delta NANOS; remainder = tmod delta NANOS
           in if seconds > tdiv INT64_MAX (oc_clockRate m) \<or> seconds < tdiv INT64_MIN (oc_clockRate m) then failure InvalidArgument
              else
                (let wholeTicks = seconds * oc_clockRate m; fractionalTicks = tdiv (remainder * oc_clockRate m) NANOS
                 in if (fractionalTicks > 0 \<and> wholeTicks > INT64_MAX - fractionalTicks) \<or>
                       (fractionalTicks < 0 \<and> wholeTicks < INT64_MIN - fractionalTicks) then failure InvalidArgument
                    else
                      (let ticksFromOrigin = wholeTicks + fractionalTicks;
                           base = RtpTimestampModulus + ucast (oc_baseTimestamp m);
                           magnitude = word_of_int (- (ticksFromOrigin + 1)) + 1
                       in if ticksFromOrigin < 0 \<and> magnitude > base then failure InvalidArgument
                          else if ticksFromOrigin \<ge> 0 \<and> word_of_int ticksFromOrigin > - 1 - base then failure InvalidArgument
                          else
                            (let extendedTicks = (if ticksFromOrigin < 0 then base - magnitude else base + word_of_int ticksFromOrigin)
                             in success \<lparr>m_extendedTicks = extendedTicks, m_wire = ucast extendedTicks\<rparr>)))))"

section \<open>Text\<close>

datatype MediaUtf8ControlPolicy = RejectControls | AllowCrLf

definition continuation :: "u8 \<Rightarrow> bool" where
  "continuation byte \<longleftrightarrow> byte \<ge> 0x80 \<and> byte \<le> 0xBF"

function validUtf8 :: "u8 list \<Rightarrow> MediaUtf8ControlPolicy \<Rightarrow> bool" where
  "validUtf8 text controlPolicy \<longleftrightarrow>
     (if text = [] then True
      else
        (let first = text ! 0
         in if first \<le> 0x7F
            then (if (first < 0x20 \<or> first = 0x7F) \<and> \<not> (controlPolicy = AllowCrLf \<and> (first = 13 \<or> first = 10)) then False
                  else validUtf8 (drop 1 text) controlPolicy)
            else if first \<ge> 0xC2 \<and> first \<le> 0xDF
            then (if 1 \<ge> length text then False
                  else if \<not> continuation (text ! 1) \<or> (first = 0xC2 \<and> text ! 1 < 0xA0) then False
                  else validUtf8 (drop 2 text) controlPolicy)
            else if first \<ge> 0xE0 \<and> first \<le> 0xEF
            then (if 2 \<ge> length text then False
                  else
                    (let second = text ! 1;
                         validSecond = (if first = 0xE0 then second \<ge> 0xA0 \<and> second \<le> 0xBF
                                        else if first = 0xED then second \<ge> 0x80 \<and> second \<le> 0x9F
                                        else continuation second)
                     in if \<not> validSecond \<or> \<not> continuation (text ! 2) then False
                        else validUtf8 (drop 3 text) controlPolicy))
            else if first \<ge> 0xF0 \<and> first \<le> 0xF4
            then (if 3 \<ge> length text then False
                  else
                    (let second = text ! 1;
                         validSecond = (if first = 0xF0 then second \<ge> 0x90 \<and> second \<le> 0xBF
                                        else if first = 0xF4 then second \<ge> 0x80 \<and> second \<le> 0x8F
                                        else continuation second)
                     in if \<not> validSecond \<or> \<not> continuation (text ! 2) \<or> \<not> continuation (text ! 3) then False
                        else validUtf8 (drop 4 text) controlPolicy))
            else False))"
  by pat_completeness auto
termination by (relation "measure (length \<circ> fst)") auto

declare validUtf8.simps [simp del]

definition validateWellFormed :: "u8 list \<Rightarrow> MediaUtf8ControlPolicy \<Rightarrow> Status" where
  "validateWellFormed text controlPolicy = (if \<not> validUtf8 text controlPolicy then failure InvalidArgument else success ())"

definition validateNonControlText :: "u8 list \<Rightarrow> nat \<Rightarrow> Status" where
  "validateNonControlText text maximumBytes =
     (if text = [] \<or> maximumBytes = 0 \<or> length text > maximumBytes \<or> isl (validateWellFormed text RejectControls)
      then failure InvalidArgument else success ())"

definition validateCname :: "u8 list \<Rightarrow> Status" where
  "validateCname cname = validateNonControlText cname 255"

section \<open>Sender reports\<close>

record MediaRtcpSenderReportTimestamp =
  srt_masterInstant :: MediaRunningTime
  srt_ntp :: MediaNtpTimestamp
  srt_rtp :: MediaRtpTimestamp

record MediaRtcpSenderReportParameters =
  srp_ssrc :: u32
  srp_cname :: "u8 list"
  srp_timestamp :: MediaRtcpSenderReportTimestamp
  srp_senderPacketCount :: u64
  srp_senderOctetCount :: u64

definition report_validate :: "MediaRtcpSenderReportParameters \<Rightarrow> Status" where
  "report_validate parameters = (if srp_ssrc parameters = 0 then failure InvalidArgument else validateCname (srp_cname parameters))"

definition appendSenderReport :: "u8 list \<Rightarrow> MediaRtcpSenderReportParameters \<Rightarrow> u8 list" where
  "appendSenderReport bytes parameters =
     (let ntp = wire (srt_ntp (srp_timestamp parameters))
      in bytes @ [0x80, 200] @ be16 6 @ be32 (srp_ssrc parameters) @ be32 (wire_seconds ntp) @ be32 (wire_fraction ntp) @
         be32 (m_wire (srt_rtp (srp_timestamp parameters))) @ be32 (ucast (srp_senderPacketCount parameters)) @
         be32 (ucast (srp_senderOctetCount parameters)))"

lemma padding_decreases:
  assumes "n mod 4 \<noteq> 0"
  shows "(4 - Suc n mod 4) mod 4 < (4 - n mod 4) mod (4 :: nat)"
proof -
  have "n mod 4 < 4" by simp
  then consider "n mod 4 = 1" | "n mod 4 = 2" | "n mod 4 = 3" using assms by linarith
  then show ?thesis by cases (simp_all add: mod_Suc)
qed

text \<open>The loop that aligns the packet that starts at \<open>packetStart\<close>.\<close>

function align_packet :: "nat \<Rightarrow> u8 list \<Rightarrow> u8 list" where
  "align_packet packetStart bytes =
     (if (length bytes - packetStart) mod 4 \<noteq> 0 then align_packet packetStart (bytes @ [0]) else bytes)"
  by pat_completeness auto
termination
proof (relation "measure (\<lambda>(packetStart, bytes). (4 - (length bytes - packetStart) mod 4) mod 4)")
  fix packetStart :: nat and bytes :: "u8 list"
  assume misaligned: "(length bytes - packetStart) mod 4 \<noteq> 0"
  then have "packetStart < length bytes" by (cases "packetStart < length bytes") auto
  then have "length (bytes @ [0]) - packetStart = Suc (length bytes - packetStart)" by simp
  then show "((packetStart, bytes @ [0]), packetStart, bytes) \<in> measure (\<lambda>(packetStart, bytes). (4 - (length bytes - packetStart) mod 4) mod 4)"
    using padding_decreases [OF misaligned] by simp
qed simp

declare align_packet.simps [simp del]

definition appendSourceDescription :: "u8 list \<Rightarrow> MediaRtcpSenderReportParameters \<Rightarrow> u8 list" where
  "appendSourceDescription bytes parameters =
     (let packetStart = length bytes;
          bytes = align_packet packetStart
            (bytes @ [0x81, 202] @ be16 0 @ be32 (srp_ssrc parameters) @ [1, of_nat (length (srp_cname parameters))] @ srp_cname parameters @ [0]);
          length' = of_nat ((length bytes - packetStart) div 4 - 1) :: u16
      in bytes[packetStart + 2 := ucast (drop_bit 8 length'), packetStart + 3 := ucast length'])"

definition appendBye :: "u8 list \<Rightarrow> u32 \<Rightarrow> u8 list" where
  "appendBye bytes ssrc = bytes @ [0x81, 203] @ be16 1 @ be32 ssrc"

definition serializeCompound :: "MediaRtcpSenderReportParameters \<Rightarrow> bool \<Rightarrow> u8 list Result" where
  "serializeCompound parameters includeBye =
     (case report_validate parameters of
        Inl e \<Rightarrow> failure e
      | Inr _ \<Rightarrow>
          (let bytes = appendSourceDescription (appendSenderReport [] parameters) parameters;
               bytes = (if includeBye then appendBye bytes (srp_ssrc parameters) else bytes)
           in if length bytes mod 4 \<noteq> 0 then failure InvalidArgument else success bytes))"

definition mapTimestamp :: "MediaRunningTime \<Rightarrow> MediaSharedNtpEpoch \<Rightarrow> MediaRtpOutputClockMapper \<Rightarrow> MediaRtcpSenderReportTimestamp Result" where
  "mapTimestamp masterInstant ntpEpoch rtpMapper =
     (case ntpEpoch_map ntpEpoch masterInstant of
        Inl e \<Rightarrow> failure e
      | Inr ntp \<Rightarrow>
          (case outputClock_map rtpMapper masterInstant of
             Inl e \<Rightarrow> failure e
           | Inr rtp \<Rightarrow> success \<lparr>srt_masterInstant = masterInstant, srt_ntp = ntp, srt_rtp = rtp\<rparr>))"

text \<open>\<^verbatim>\<open>composeSenderReport\<close> and \<^verbatim>\<open>composeTerminalReport\<close>, which adds a BYE.\<close>

definition composeReport ::
  "bool \<Rightarrow> u32 \<Rightarrow> u8 list \<Rightarrow> MediaRunningTime \<Rightarrow> MediaSharedNtpEpoch \<Rightarrow> MediaRtpOutputClockMapper \<Rightarrow> u64 \<Rightarrow> u64 \<Rightarrow> u8 list Result" where
  "composeReport includeBye ssrc cname reportInstant ntpEpoch clockMapper packetCount octetCount =
     (case mapTimestamp reportInstant ntpEpoch clockMapper of
        Inl e \<Rightarrow> failure e
      | Inr timestamp \<Rightarrow>
          serializeCompound
            \<lparr>srp_ssrc = ssrc, srp_cname = cname, srp_timestamp = timestamp, srp_senderPacketCount = packetCount,
             srp_senderOctetCount = octetCount\<rparr> includeBye)"

section \<open>Planned sizes\<close>

datatype MediaIpAddressFamily = Ipv4 | Ipv6

definition compoundPayloadBytes :: "u64 \<Rightarrow> u64 Result" where
  "compoundPayloadBytes cnameBytes =
     (case checked_add 10 cnameBytes of
        Inl e \<Rightarrow> failure e
      | Inr raw \<Rightarrow>
          (case ceilScale raw 1 4 of
             Inl e \<Rightarrow> failure e
           | Inr padded \<Rightarrow>
               (case checked_multiply padded 4 of
                  Inl e \<Rightarrow> failure e
                | Inr paddedBytes \<Rightarrow> checked_add 28 paddedBytes)))"

definition compoundWireBytes :: "u64 \<Rightarrow> MediaIpAddressFamily \<Rightarrow> u64 Result" where
  "compoundWireBytes cnameBytes addressFamily =
     (case compoundPayloadBytes cnameBytes of
        Inl e \<Rightarrow> failure e
      | Inr payload \<Rightarrow> checked_add payload ((case addressFamily of Ipv4 \<Rightarrow> 20 | Ipv6 \<Rightarrow> 40) + 8))"

definition byePayloadBytes :: u64 where
  "byePayloadBytes = 8"

section \<open>The output clock is exact\<close>

lemma div_less_iff_int: "0 < r \<Longrightarrow> a div r < s \<longleftrightarrow> a < s * (r :: int)"
proof
  assume r: "0 < r"
  have a: "a = a div r * r + a mod r" "0 \<le> a mod r" "a mod r < r" using r by simp_all
  show "a < s * r" if "a div r < s"
  proof -
    have "(a div r + 1) * r \<le> s * r" using that r by (intro mult_right_mono) simp_all
    then have "a div r * r + r \<le> s * r" by (simp add: distrib_right)
    then show ?thesis using a by linarith
  qed
  show "a div r < s" if "a < s * r"
  proof (rule ccontr)
    assume "\<not> a div r < s"
    then have "s * r \<le> a div r * r" using r by (intro mult_right_mono) simp_all
    then show False using a that by linarith
  qed
qed

lemma tdiv_bound_iff:
  assumes "0 < r"
  shows "s > tdiv INT64_MAX r \<or> s < tdiv INT64_MIN r \<longleftrightarrow> \<not> in_int64 (s * r)"
proof -
  have "tdiv INT64_MIN r = - (9223372036854775808 div r)"
    using tdiv_minus [of 9223372036854775808 r] tdiv_nonneg [of 9223372036854775808 r] assms by (simp add: INT64_MIN_def)
  moreover have "tdiv INT64_MAX r = INT64_MAX div r" using assms by (intro tdiv_nonneg) (simp_all add: INT64_MAX_def)
  moreover have "s > INT64_MAX div r \<longleftrightarrow> s * r > INT64_MAX" using assms by (rule div_less_iff_int)
  moreover have "9223372036854775808 div r < - s \<longleftrightarrow> 9223372036854775808 < - s * r" using assms by (rule div_less_iff_int)
  ultimately show ?thesis by (auto simp: in_int64_def INT64_MIN_def)
qed

lemma tdiv_split_nonneg:
  assumes "0 \<le> a" and "0 < r" and "0 < n"
  shows "tdiv a n * r + tdiv (tmod a n * r) n = tdiv (a * r) n" and "0 \<le> tdiv a n * r" and "0 \<le> tdiv (tmod a n * r) n"
proof -
  have t: "tdiv a n = a div n" "tmod a n = a mod n" using assms by (simp_all add: tmod_def tdiv_nonneg minus_div_mult_eq_mod)
  have u: "tdiv (a mod n * r) n = a mod n * r div n" using assms by (intro tdiv_nonneg) simp_all
  have "a * r = a mod n * r + (a div n * r) * n" using div_mult_mod_eq [of a n] by (metis add.commute distrib_right mult.assoc mult.commute)
  then have "a * r div n = a div n * r + a mod n * r div n" using assms(3) by simp
  moreover have "tdiv (a * r) n = a * r div n" using assms by (intro tdiv_nonneg) simp_all
  ultimately show "tdiv a n * r + tdiv (tmod a n * r) n = tdiv (a * r) n" unfolding t u by simp
  show "0 \<le> tdiv a n * r" "0 \<le> tdiv (tmod a n * r) n" unfolding t u using assms by (simp_all add: pos_imp_zdiv_nonneg_iff)
qed

lemma ticks_guard:
  assumes "0 < r" and "0 \<le> s * r \<and> 0 \<le> f \<or> s * r \<le> 0 \<and> f \<le> 0"
  shows "(s > tdiv INT64_MAX r \<or> s < tdiv INT64_MIN r) \<or>
      ((f > 0 \<and> s * r > INT64_MAX - f) \<or> (f < 0 \<and> s * r < INT64_MIN - f)) \<longleftrightarrow> \<not> in_int64 (s * r + f)"
  unfolding tdiv_bound_iff [OF assms(1)] using assms(2) by (auto simp: in_int64_def INT64_MIN_def INT64_MAX_def)

lemma ticks_exact:
  assumes "0 < r" and "0 < n"
  shows "tdiv a n * r + tdiv (tmod a n * r) n = tdiv (a * r) n \<and>
    (0 \<le> tdiv a n * r \<and> 0 \<le> tdiv (tmod a n * r) n \<or> tdiv a n * r \<le> 0 \<and> tdiv (tmod a n * r) n \<le> 0)"
proof (cases "0 \<le> a")
  case True
  then show ?thesis using tdiv_split_nonneg [OF True assms] by simp
next
  case False
  define b where "b = - a"
  have b: "0 \<le> b" "a = - b" using False by (simp_all add: b_def)
  show ?thesis
    using tdiv_split_nonneg [OF b(1) assms] unfolding b(2) tdiv_minus tmod_minus mult_minus_left by simp
qed

lemma nested_checks:
  "(a \<or> b) = (\<not> ok) \<Longrightarrow> (ok \<Longrightarrow> \<not> d) \<Longrightarrow>
   (if a then e else if b then e else if c then e else if d then e else s) = (if ok \<and> \<not> c then s else e)"
  by auto

text \<open>The extended timestamp: the base behind one cycle, and the ticks before or behind it.\<close>

abbreviation extended_base :: "u32 \<Rightarrow> u64" where
  "extended_base b \<equiv> RtpTimestampModulus + ucast b"

lemma base_bound: "uint (b :: u32) < 2 ^ 32"
  using unsigned_less [of b, where 'a = int] by simp

lemma extended_base: "extended_base b = word_of_int (2 ^ 32 + uint b)" "uint (extended_base b) = 2 ^ 32 + uint b"
proof -
  show e: "extended_base b = word_of_int (2 ^ 32 + uint b)" by (simp add: RtpTimestampModulus_def push_bit_eq_mult)
  show "uint (extended_base b) = 2 ^ 32 + uint b" unfolding e uint_word_of_int using base_bound [of b] by simp
qed

lemma preroll_magnitude:
  assumes "in_int64 ticks" and "ticks < 0"
  shows "uint (word_of_int (- (ticks + 1)) + 1 :: u64) = - ticks"
proof -
  have "(word_of_int (- (ticks + 1)) + 1 :: u64) = word_of_int (- ticks)" by simp
  then show ?thesis unfolding uint_word_of_int using assms by (simp only: uint_word_of_int) (simp add: in_int64_def INT64_MIN_def)
qed

lemma forward_fits:
  assumes "in_int64 ticks"
  shows "\<not> (ticks \<ge> 0 \<and> word_of_int ticks > - 1 - extended_base b)"
proof
  assume ticks: "ticks \<ge> 0 \<and> word_of_int ticks > - 1 - extended_base b"
  have "uint (- 1 - extended_base b) = 2 ^ 64 - 1 - uint (extended_base b)"
    using unsigned_less [of "extended_base b", where 'a = int] by (simp add: uint_sub_if' unsigned_minus_1_eq_mask mask_eq_exp_minus_1)
  moreover have "uint (word_of_int ticks :: u64) = ticks" unfolding uint_word_of_int using assms ticks by (simp add: in_int64_def INT64_MAX_def)
  ultimately show False using ticks assms base_bound [of b] unfolding extended_base(2) by (simp add: word_less_def in_int64_def INT64_MAX_def)
qed

lemma preroll_refused:
  assumes "in_int64 ticks"
  shows "ticks < 0 \<and> word_of_int (- (ticks + 1)) + 1 > extended_base b \<longleftrightarrow> \<not> 0 \<le> 2 ^ 32 + uint b + ticks"
proof (cases "ticks < 0")
  case True
  then show ?thesis unfolding word_less_def preroll_magnitude [OF assms True] extended_base(2) by auto
next
  case False
  moreover have "0 \<le> uint b" by simp
  ultimately show ?thesis by (simp del: unsigned_greater_eq)
qed

lemma extended_value:
  "(if ticks < 0 then extended_base b - (word_of_int (- (ticks + 1)) + 1) else extended_base b + word_of_int ticks) = word_of_int (2 ^ 32 + uint b + ticks)"
  unfolding extended_base(1) by simp

lemma wire_value: "ucast (word_of_int (2 ^ 32 + x) :: u64) = (word_of_int x :: u32)"
proof -
  have "ucast (word_of_int y :: u64) = (word_of_int y :: u32)" for y by (rule bit_word_eqI) (simp add: bit_simps)
  from this [of "2 ^ 32 + x"] show ?thesis by simp
qed

text \<open>
  C32. The RTP timestamp of a presentation time is the base timestamp advanced by the exact number of clock ticks between the origin
  and that time, truncated toward zero; the extended timestamp counts from one RTP cycle, so that times before the origin have one
  too. The mapping fails exactly when the distance or the tick count leaves the signed 64-bit range or the time lies further before
  the origin than the extended timestamp can express.
\<close>

theorem output_clock_exact:
  assumes "in_int64 t" and "in_int64 (oc_masterOrigin m)" and "0 < oc_clockRate m"
  shows "outputClock_map m t =
     (let delta = t - oc_masterOrigin m; ticks = tdiv (delta * oc_clockRate m) NANOS; extended = 2 ^ 32 + uint (oc_baseTimestamp m) + ticks
      in if in_int64 delta \<and> in_int64 ticks \<and> 0 \<le> extended
         then success \<lparr>m_extendedTicks = word_of_int extended, m_wire = word_of_int (uint (oc_baseTimestamp m) + ticks)\<rparr>
         else failure InvalidArgument)"
proof -
  define delta ticks where "delta = t - oc_masterOrigin m" and "ticks = tdiv (delta * oc_clockRate m) NANOS"
  define whole frac where "whole = tdiv delta NANOS * oc_clockRate m" and "frac = tdiv (tmod delta NANOS * oc_clockRate m) NANOS"
  let ?b = "oc_baseTimestamp m"
  have sub: "checkedSubtract t (oc_masterOrigin m) = (if in_int64 delta then success delta else failure InvalidArgument)"
    using assms(1,2) by (auto simp: checkedSubtract_def delta_def in_int64_def)
  have "(0 :: int) < NANOS" by (simp add: NANOS_def)
  note exact = ticks_exact [OF assms(3) this, of delta, folded whole_def frac_def ticks_def]
  note guard = ticks_guard [OF assms(3), of "tdiv delta NANOS" frac, folded whole_def, OF exact [THEN conjunct2], unfolded exact [THEN conjunct1]]
  have "outputClock_map m t =
      (if in_int64 ticks \<and> \<not> (ticks < 0 \<and> word_of_int (- (ticks + 1)) + 1 > extended_base ?b)
       then let extended = word_of_int (2 ^ 32 + uint ?b + ticks) in success \<lparr>m_extendedTicks = extended, m_wire = ucast extended\<rparr>
       else failure InvalidArgument)" if "in_int64 delta"
    unfolding outputClock_map_def sub if_P [OF that] sum.case Let_def whole_def [symmetric] frac_def [symmetric] exact [THEN conjunct1] extended_value
    by (intro nested_checks [OF guard] forward_fits)
  then have "outputClock_map m t =
      (if in_int64 delta \<and> in_int64 ticks \<and> 0 \<le> 2 ^ 32 + uint ?b + ticks
       then success \<lparr>m_extendedTicks = word_of_int (2 ^ 32 + uint ?b + ticks), m_wire = word_of_int (uint ?b + ticks)\<rparr>
       else failure InvalidArgument)"
    using preroll_refused [of ticks ?b] wire_value [of "uint ?b + ticks"]
    by (cases "in_int64 delta"; cases "in_int64 ticks") (simp_all add: outputClock_map_def sub Let_def add.assoc)
  then show ?thesis by (simp only: delta_def ticks_def Let_def)
qed

theorem output_clock_exact_witness:
  "outputClock_map \<lparr>oc_clockRate = 90000, oc_baseTimestamp = 5, oc_masterOrigin = 2000000000\<rparr> 1000000000 =
     success \<lparr>m_extendedTicks = 4294877301, m_wire = 4294877301\<rparr>"
  using output_clock_exact [of 1000000000 "\<lparr>oc_clockRate = 90000, oc_baseTimestamp = 5, oc_masterOrigin = 2000000000\<rparr>"]
  by (simp add: in_int64_def INT64_MIN_def INT64_MAX_def NANOS_def tdiv_def)

end
