(* ===== verification/Rtcp_Compound.thy ===== *)
theory Rtcp_Compound
  imports Rtcp_Wire
begin

unbundle bit_operations_syntax

text \<open>
  \<^verbatim>\<open>MediaRtcpCompoundParser\<close> and \<^verbatim>\<open>MediaRtcpCompositionPolicy\<close>: reading compound RTCP datagrams, and the round trip with the
  sender reports of the library.
\<close>

section \<open>Definitions\<close>

datatype MediaRtcpCompositionMode = StrictCompoundRfc3550 | ReducedSizeRfc5506

record MediaRtcpCompoundPolicy =
  cp_mode :: MediaRtcpCompositionMode
  cp_requireCname :: bool

definition serializeMediaRtcpCompositionMode :: "MediaRtcpCompositionMode \<Rightarrow> string Result" where
  "serializeMediaRtcpCompositionMode mode =
     (case mode of
        StrictCompoundRfc3550 \<Rightarrow> success ''strict_compound_rfc3550''
      | ReducedSizeRfc5506 \<Rightarrow> success ''reduced_size_rfc5506'')"

definition parseMediaRtcpCompositionMode :: "string \<Rightarrow> MediaRtcpCompositionMode Result" where
  "parseMediaRtcpCompositionMode val =
     (if val = ''strict_compound_rfc3550'' then success StrictCompoundRfc3550
      else if val = ''reduced_size_rfc5506'' then success ReducedSizeRfc5506
      else failure InvalidArgument)"

datatype MediaRtcpPacketKind = SenderReport | ReceiverReport | SourceDescription | Bye | UnknownPacket

record MediaRtcpNtpTimestamp =
  rn_seconds :: u32
  rn_fraction :: u32

record MediaRtcpSenderReport =
  sr_ssrc :: u32
  sr_ntp :: MediaRtcpNtpTimestamp
  sr_rtpTimestamp :: u32
  sr_senderPacketCount :: u32
  sr_senderOctetCount :: u32

record MediaRtcpSdesItem =
  item_type :: u8
  item_value :: "u8 list"

record MediaRtcpSdesChunk =
  chunk_ssrc :: u32
  chunk_items :: "MediaRtcpSdesItem list"

record MediaRtcpPacket =
  rp_kind :: MediaRtcpPacketKind
  rp_packetType :: u8
  rp_count :: u8
  rp_paddingSize :: u8
  rp_senderReport :: "MediaRtcpSenderReport option"
  rp_receiverReportSsrc :: "u32 option"
  rp_sdesChunks :: "MediaRtcpSdesChunk list"
  rp_byeSources :: "u32 list"
  rp_byeReason :: "u8 list"

definition zeroBytes :: "u8 list \<Rightarrow> nat \<Rightarrow> nat \<Rightarrow> bool" where
  "zeroBytes bytes first final \<longleftrightarrow> list_all (\<lambda>offset. bytes ! offset = 0) [first..<final]"

definition round4 :: "nat \<Rightarrow> nat" where
  "round4 offset = (offset + 3) div 4 * 4"

text \<open>The loop over the items of a chunk, up to \<open>final\<close>: the items and the offset behind the end item.\<close>

function sdes_items :: "u8 list \<Rightarrow> nat \<Rightarrow> nat \<Rightarrow> (MediaRtcpSdesItem list \<times> nat) Result" where
  "sdes_items bytes final offset =
     (if offset \<ge> final then failure InvalidArgument
      else
        (let type = bytes ! offset
         in if type = 0 then success ([], offset + 1)
            else if offset + 1 \<ge> final then failure InvalidArgument
            else
              (let itemSize = unat (bytes ! (offset + 1))
               in if itemSize > final - (offset + 2) then failure InvalidArgument
                  else
                    (case sdes_items bytes final (offset + 2 + itemSize) of
                       Inl e \<Rightarrow> failure e
                     | Inr (items, next) \<Rightarrow>
                         success (\<lparr>item_type = type, item_value = take itemSize (drop (offset + 2) bytes)\<rparr> # items, next)))))"
  by pat_completeness auto
termination by (relation "measure (\<lambda>(bytes, final, offset). final - offset)") auto

declare sdes_items.simps [simp del]

fun sdes_chunks :: "u8 list \<Rightarrow> nat \<Rightarrow> nat \<Rightarrow> nat \<Rightarrow> (MediaRtcpSdesChunk list \<times> nat) Result" where
  "sdes_chunks bytes final 0 offset = success ([], offset)"
| "sdes_chunks bytes final (Suc n) offset =
     (if final - offset < 4 then failure InvalidArgument
      else
        (case sdes_items bytes final (offset + 4) of
           Inl e \<Rightarrow> failure e
         | Inr (items, next) \<Rightarrow>
             (if round4 next > final \<or> \<not> zeroBytes bytes next (round4 next) then failure InvalidArgument
              else
                (case sdes_chunks bytes final n (round4 next) of
                   Inl e \<Rightarrow> failure e
                 | Inr (chunks, rest) \<Rightarrow> success (\<lparr>chunk_ssrc = readU32 bytes offset, chunk_items = items\<rparr> # chunks, rest)))))"

definition rtcp_parsePacket :: "u8 list \<Rightarrow> u8 \<Rightarrow> u8 \<Rightarrow> u8 \<Rightarrow> MediaRtcpPacket Result" where
  "rtcp_parsePacket bytes count' packetType paddingSize =
     (let final = length bytes - unat paddingSize;
          packet = \<lparr>rp_kind = UnknownPacket, rp_packetType = packetType, rp_count = count', rp_paddingSize = paddingSize, rp_senderReport = None,
                    rp_receiverReportSsrc = None, rp_sdesChunks = [], rp_byeSources = [], rp_byeReason = []\<rparr>
      in if packetType = 200
         then (if final \<noteq> 28 + unat count' * 24 then failure InvalidArgument
               else success (packet\<lparr>rp_kind := SenderReport, rp_senderReport := Some
                 \<lparr>sr_ssrc = readU32 bytes 4, sr_ntp = \<lparr>rn_seconds = readU32 bytes 8, rn_fraction = readU32 bytes 12\<rparr>,
                  sr_rtpTimestamp = readU32 bytes 16, sr_senderPacketCount = readU32 bytes 20, sr_senderOctetCount = readU32 bytes 24\<rparr>\<rparr>))
         else if packetType = 201
         then (if final \<noteq> 8 + unat count' * 24 then failure InvalidArgument
               else success (packet\<lparr>rp_kind := ReceiverReport, rp_receiverReportSsrc := Some (readU32 bytes 4)\<rparr>))
         else if packetType = 202
         then (case sdes_chunks bytes final (unat count') 4 of
                 Inl e \<Rightarrow> failure e
               | Inr (chunks, offset) \<Rightarrow>
                   (if offset \<noteq> final then failure InvalidArgument
                    else success (packet\<lparr>rp_kind := SourceDescription, rp_sdesChunks := chunks\<rparr>)))
         else if packetType = 203
         then (if unat count' > (final - 4) div 4 then failure InvalidArgument
               else
                 (let sources = map (\<lambda>index. readU32 bytes (4 + 4 * index)) [0..<unat count'];
                      offset = 4 + 4 * unat count'
                  in if offset < final
                     then (let reasonSize = unat (bytes ! offset)
                           in if reasonSize > final - (offset + 1) then failure InvalidArgument
                              else
                                (let next = offset + 1 + reasonSize
                                 in if round4 next \<noteq> final \<or> \<not> zeroBytes bytes next final then failure InvalidArgument
                                    else success (packet\<lparr>rp_kind := Bye, rp_byeSources := sources,
                                      rp_byeReason := take reasonSize (drop (offset + 1) bytes)\<rparr>)))
                     else success (packet\<lparr>rp_kind := Bye, rp_byeSources := sources\<rparr>)))
         else success packet)"

text \<open>The loop of \<^verbatim>\<open>parse\<close> over the packets, on the rest of the datagram.\<close>

function parse_packets :: "u8 list \<Rightarrow> MediaRtcpPacket list Result" where
  "parse_packets rest =
     (if rest = [] then success []
      else if length rest < 4 then failure InvalidArgument
      else
        (let first = rest ! 0
         in if drop_bit 6 first \<noteq> 2 then failure InvalidArgument
            else
              (let padded = (first AND 0x20 \<noteq> 0);
                   count' = first AND 0x1F;
                   packetSize = (unat (readU16 rest 2) + 1) * 4
               in if packetSize > length rest then failure InvalidArgument
                  else if padded \<and> packetSize \<noteq> length rest then failure InvalidArgument
                  else
                    (let paddingSize = (if padded then rest ! (packetSize - 1) else 0)
                     in if padded \<and> (paddingSize = 0 \<or> unat paddingSize > packetSize - 4) then failure InvalidArgument
                        else
                          (case rtcp_parsePacket (take packetSize rest) count' (rest ! 1) paddingSize of
                             Inl e \<Rightarrow> failure e
                           | Inr packet \<Rightarrow>
                               (case parse_packets (drop packetSize rest) of
                                  Inl e \<Rightarrow> failure e
                                | Inr packets \<Rightarrow> success (packet # packets)))))))"
  by pat_completeness auto
termination by (relation "measure length") auto

declare parse_packets.simps [simp del]

text \<open>The SSRC of a leading report.\<close>

definition leading_source :: "MediaRtcpPacket \<Rightarrow> u32 option" where
  "leading_source packet =
     (case rp_kind packet of
        SenderReport \<Rightarrow> map_option sr_ssrc (rp_senderReport packet)
      | ReceiverReport \<Rightarrow> rp_receiverReportSsrc packet
      | _ \<Rightarrow> None)"

definition compound_parse :: "u8 list \<Rightarrow> MediaRtcpCompoundPolicy \<Rightarrow> MediaRtcpPacket list Result" where
  "compound_parse datagram policy =
     (if datagram = [] then failure InvalidArgument
      else
        (case parse_packets datagram of
           Inl e \<Rightarrow> failure e
         | Inr packets \<Rightarrow>
             (let front = hd packets;
                  beginsWithReport = (rp_kind front = SenderReport \<or> rp_kind front = ReceiverReport)
              in if cp_mode policy = StrictCompoundRfc3550 \<and> \<not> beginsWithReport then failure InvalidArgument
                 else if cp_requireCname policy
                 then (if \<not> beginsWithReport then failure InvalidArgument
                       else if \<not> list_ex (\<lambda>packet. list_ex (\<lambda>chunk. Some (chunk_ssrc chunk) = leading_source front \<and>
                             list_ex (\<lambda>item. item_type item = 1 \<and> item_value item \<noteq> []) (chunk_items chunk)) (rp_sdesChunks packet)) packets
                       then failure InvalidArgument
                       else success packets)
                 else success packets)))"

section \<open>The bytes of a report\<close>

definition pad4 :: "nat \<Rightarrow> nat" where
  "pad4 n = (4 - n mod 4) mod 4"

lemma pad4_aligned: "n mod 4 = 0 \<Longrightarrow> pad4 n = 0"
  by (simp add: pad4_def)

lemma mod4_cases:
  fixes n :: nat
  obtains "n mod 4 = 0" | "n mod 4 = 1" | "n mod 4 = 2" | "n mod 4 = 3"
proof -
  have "n mod 4 < 4" by simp
  then show thesis using that by linarith
qed

lemma pad4_step: "n mod 4 \<noteq> 0 \<Longrightarrow> pad4 n = Suc (pad4 (Suc n))"
  by (cases rule: mod4_cases [of n]) (simp_all add: pad4_def mod_Suc)

lemma pad4_words: "n + pad4 n = (n + 3) div 4 * 4"
proof -
  have n: "n = n mod 4 + n div 4 * 4" by simp
  show ?thesis
  proof (cases rule: mod4_cases [of n])
    case 1
    then have "(n + 3) div 4 = n div 4" by (subst n) simp
    then show ?thesis using n 1 by (simp add: pad4_def)
  next
    case 2
    then have "(n + 3) div 4 = n div 4 + 1" by (subst n) simp
    then show ?thesis using n 2 by (simp add: pad4_def)
  next
    case 3
    then have "(n + 3) div 4 = n div 4 + 1" by (subst n) simp
    then show ?thesis using n 3 by (simp add: pad4_def)
  next
    case 4
    then have "(n + 3) div 4 = n div 4 + 1" by (subst n) simp
    then show ?thesis using n 4 by (simp add: pad4_def)
  qed
qed

lemma align_packet_pads:
  "packetStart \<le> length bytes \<Longrightarrow> align_packet packetStart bytes = bytes @ replicate (pad4 (length bytes - packetStart)) 0"
proof (induction packetStart bytes rule: align_packet.induct)
  case (1 packetStart bytes)
  have n: "length (bytes @ [0 :: u8]) - packetStart = Suc (length bytes - packetStart)" using 1(2) by simp
  show ?case
    using 1 n pad4_aligned [of "length bytes - packetStart"] pad4_step [of "length bytes - packetStart"]
    by (cases "(length bytes - packetStart) mod 4 = 0") (simp_all add: align_packet.simps [of packetStart bytes])
qed

text \<open>A source description with a CNAME; \<open>sdes_size\<close> is its size without the alignment.\<close>

definition sdes_size :: "u8 list \<Rightarrow> nat" where
  "sdes_size cname = length cname + 11"

definition sdes_bytes :: "u32 \<Rightarrow> u8 list \<Rightarrow> u8 list" where
  "sdes_bytes ssrc cname =
     [0x81, 202] @ be16 (of_nat ((sdes_size cname + 3) div 4 - 1)) @ be32 ssrc @ [1, of_nat (length cname)] @ cname @ [0] @
     replicate (pad4 (sdes_size cname)) 0"

lemma sdes_length: "length (sdes_bytes ssrc cname) = (sdes_size cname + 3) div 4 * 4"
  using pad4_words [of "sdes_size cname"] by (simp add: sdes_bytes_def sdes_size_def)

lemma appendSourceDescription_bytes:
  "appendSourceDescription bytes p = bytes @ sdes_bytes (srp_ssrc p) (srp_cname p)"
proof -
  let ?c = "srp_cname p"
  let ?body = "[0x81, 202] @ be16 0 @ be32 (srp_ssrc p) @ [1, of_nat (length ?c)] @ ?c @ [0]"
  have n: "length (bytes @ ?body) - length bytes = sdes_size ?c" by (simp add: sdes_size_def)
  have aligned: "align_packet (length bytes) (bytes @ ?body) = bytes @ ?body @ replicate (pad4 (sdes_size ?c)) 0"
    using align_packet_pads [of "length bytes" "bytes @ ?body"] unfolding n by simp
  have len: "length (align_packet (length bytes) (bytes @ ?body)) - length bytes = (sdes_size ?c + 3) div 4 * 4"
    unfolding aligned using pad4_words [of "sdes_size ?c"] by (simp add: sdes_size_def)
  have "appendSourceDescription bytes p =
      (align_packet (length bytes) (bytes @ ?body))
        [length bytes + 2 := ucast (drop_bit 8 (of_nat ((sdes_size ?c + 3) div 4 - 1) :: u16)),
         length bytes + 3 := ucast (of_nat ((sdes_size ?c + 3) div 4 - 1) :: u16)]"
    unfolding appendSourceDescription_def Let_def len by simp
  also have "\<dots> = bytes @ sdes_bytes (srp_ssrc p) ?c"
    unfolding aligned sdes_bytes_def by (simp add: list_update_append be16_def)
  finally show ?thesis .
qed

section \<open>Reading reports\<close>

lemma parse_packets_step:
  assumes "length bytes = (unat (readU16 bytes 2) + 1) * 4" and "drop_bit 6 (bytes ! 0) = 2" and "bytes ! 0 AND 0x20 = 0"
    and "rtcp_parsePacket bytes (bytes ! 0 AND 0x1F) (bytes ! 1) 0 = success packet"
  shows "parse_packets (bytes @ rest) = (case parse_packets rest of Inl e \<Rightarrow> failure e | Inr packets \<Rightarrow> success (packet # packets))"
proof -
  have n: "4 \<le> length bytes" using assms(1) by simp
  have "readU16 (bytes @ rest) 2 = readU16 bytes 2" using n by (intro read_cong(1)) (auto simp: nth_append)
  moreover have "(bytes @ rest) ! 0 = bytes ! 0" "(bytes @ rest) ! 1 = bytes ! 1" using n by (auto simp: nth_append)
  moreover have "bytes \<noteq> []" "\<not> length (bytes @ rest) < 4" using n by auto
  ultimately show ?thesis
    using assms by (simp add: parse_packets.simps [of "bytes @ rest"] Let_def flip: assms(1))
qed

definition report_packet :: "MediaRtcpSenderReportParameters \<Rightarrow> MediaRtcpPacket" where
  "report_packet p =
     \<lparr>rp_kind = SenderReport, rp_packetType = 200, rp_count = 0, rp_paddingSize = 0, rp_senderReport = Some
        \<lparr>sr_ssrc = srp_ssrc p,
         sr_ntp = \<lparr>rn_seconds = wire_seconds (wire (srt_ntp (srp_timestamp p))), rn_fraction = wire_fraction (wire (srt_ntp (srp_timestamp p)))\<rparr>,
         sr_rtpTimestamp = m_wire (srt_rtp (srp_timestamp p)), sr_senderPacketCount = ucast (srp_senderPacketCount p),
         sr_senderOctetCount = ucast (srp_senderOctetCount p)\<rparr>,
      rp_receiverReportSsrc = None, rp_sdesChunks = [], rp_byeSources = [], rp_byeReason = []\<rparr>"

definition cname_packet :: "u32 \<Rightarrow> u8 list \<Rightarrow> MediaRtcpPacket" where
  "cname_packet ssrc cname =
     \<lparr>rp_kind = SourceDescription, rp_packetType = 202, rp_count = 1, rp_paddingSize = 0, rp_senderReport = None, rp_receiverReportSsrc = None,
      rp_sdesChunks = [\<lparr>chunk_ssrc = ssrc, chunk_items = [\<lparr>item_type = 1, item_value = cname\<rparr>]\<rparr>], rp_byeSources = [], rp_byeReason = []\<rparr>"

definition bye_packet :: "u32 \<Rightarrow> MediaRtcpPacket" where
  "bye_packet ssrc =
     \<lparr>rp_kind = Bye, rp_packetType = 203, rp_count = 1, rp_paddingSize = 0, rp_senderReport = None, rp_receiverReportSsrc = None,
      rp_sdesChunks = [], rp_byeSources = [ssrc], rp_byeReason = []\<rparr>"

lemma report_parses: "parse_packets (appendSenderReport [] p @ rest) =
   (case parse_packets rest of Inl e \<Rightarrow> failure e | Inr packets \<Rightarrow> success (report_packet p # packets))"
proof (rule parse_packets_step)
  have u16: "readU16 (appendSenderReport [] p) 2 = 6"
    unfolding appendSenderReport_def Let_def using readU16_be16 [of "[0x80, 200]" 2 6] by simp
  show "length (appendSenderReport [] p) = (unat (readU16 (appendSenderReport [] p) 2) + 1) * 4"
    unfolding u16 by (simp add: appendSenderReport_def Let_def)
  have nth: "appendSenderReport [] p ! 0 = 0x80" "appendSenderReport [] p ! 1 = 200" by (simp_all add: appendSenderReport_def Let_def)
  show "drop_bit 6 (appendSenderReport [] p ! 0) = 2" "appendSenderReport [] p ! 0 AND 0x20 = 0" unfolding nth by simp_all
  have reads: "readU32 (appendSenderReport [] p) 4 = srp_ssrc p"
      "readU32 (appendSenderReport [] p) 8 = wire_seconds (wire (srt_ntp (srp_timestamp p)))"
      "readU32 (appendSenderReport [] p) 12 = wire_fraction (wire (srt_ntp (srp_timestamp p)))"
      "readU32 (appendSenderReport [] p) 16 = m_wire (srt_rtp (srp_timestamp p))"
      "readU32 (appendSenderReport [] p) 20 = ucast (srp_senderPacketCount p)"
      "readU32 (appendSenderReport [] p) 24 = ucast (srp_senderOctetCount p)"
    by (simp_all add: appendSenderReport_def Let_def readU32_def be32_def be16_def join32)
  show "rtcp_parsePacket (appendSenderReport [] p) (appendSenderReport [] p ! 0 AND 0x1F) (appendSenderReport [] p ! 1) 0 = success (report_packet p)"
    unfolding nth rtcp_parsePacket_def reads by (simp add: Let_def report_packet_def appendSenderReport_def)
qed

lemma bye_parses: "parse_packets ([0x81, 203] @ be16 1 @ be32 ssrc) = success [bye_packet ssrc]"
proof -
  let ?b = "[0x81, 203] @ be16 1 @ be32 ssrc"
  have "parse_packets (?b @ []) = (case parse_packets [] of Inl e \<Rightarrow> failure e | Inr packets \<Rightarrow> success (bye_packet ssrc # packets))"
  proof (rule parse_packets_step)
    have u16: "readU16 ?b 2 = 1" using readU16_be16 [of "[0x81, 203]" 2 1] by simp
    show "length ?b = (unat (readU16 ?b 2) + 1) * 4" unfolding u16 by simp
    have "readU32 ?b 4 = ssrc" by (simp add: readU32_def be32_def be16_def join32)
    then show "rtcp_parsePacket ?b (?b ! 0 AND 0x1F) (?b ! 1) 0 = success (bye_packet ssrc)"
      by (simp add: rtcp_parsePacket_def Let_def bye_packet_def)
  qed simp_all
  then show ?thesis by (simp add: parse_packets.simps)
qed

lemma cname_parses:
  assumes "cname \<noteq> []" and "length cname \<le> 255"
  shows "parse_packets (sdes_bytes ssrc cname @ rest) =
    (case parse_packets rest of Inl e \<Rightarrow> failure e | Inr packets \<Rightarrow> success (cname_packet ssrc cname # packets))"
proof (rule parse_packets_step)
  let ?b = "sdes_bytes ssrc cname" and ?n = "length cname" and ?L = "(sdes_size cname + 3) div 4 * 4"
  have L: "length ?b = ?L" by (rule sdes_length)
  have size: "?n + 11 \<le> ?L" "?L \<le> ?n + 14" unfolding sdes_size_def by presburger+
  have front: "?b = [0x81, 202] @ be16 (of_nat (?L div 4 - 1)) @ be32 ssrc @ [1, of_nat ?n] @ cname @ [0] @ replicate (pad4 (sdes_size cname)) 0"
    by (simp add: sdes_bytes_def)
  have u16: "readU16 ?b 2 = of_nat (?L div 4 - 1)" unfolding front using readU16_be16 [of "[0x81, 202]" 2] by simp
  have "?L div 4 - 1 < 2 ^ 16" using size assms(2) by simp
  then have "unat (of_nat (?L div 4 - 1) :: u16) = ?L div 4 - 1" by (simp add: unat_of_nat take_bit_nat_eq_self)
  moreover have "(?L div 4 - 1 + 1) * 4 = ?L" using size by simp
  ultimately show "length ?b = (unat (readU16 ?b 2) + 1) * 4" unfolding u16 L by metis
  have bytes: "?b ! 0 = 0x81" "?b ! 1 = 202" "?b ! 8 = 1" "?b ! 9 = of_nat ?n" "readU32 ?b 4 = ssrc" "drop 10 ?b = cname @ [0] @ replicate (pad4 (sdes_size cname)) 0"
    unfolding front by (simp_all add: be16_def be32_def readU32_def join32)
  show "drop_bit 6 (?b ! 0) = 2" "?b ! 0 AND 0x20 = 0" unfolding bytes by simp_all
  have item: "take ?n (drop 10 ?b) = cname" unfolding bytes by simp
  have final: "?b ! i = 0" if "?n + 10 \<le> i" "i < ?L" for i
  proof -
    have "?b ! i = (cname @ replicate (Suc (pad4 (sdes_size cname))) 0) ! (i - 10)"
      using nth_drop [of 10 ?b "i - 10"] that L unfolding bytes(6) by simp
    moreover have "i - 10 - ?n < Suc (pad4 (sdes_size cname))" using that pad4_words [of "sdes_size cname"] by (simp add: sdes_size_def)
    moreover have "\<not> i - 10 < ?n" using that by linarith
    ultimately show ?thesis using that by (simp add: nth_append del: replicate_Suc)
  qed
  have itemSize: "unat (of_nat ?n :: u8) = ?n" using assms(2) by (simp add: unat_of_nat take_bit_nat_eq_self)
  have tail: "sdes_items ?b ?L (10 + ?n) = success ([], ?n + 11)"
    using final [of "10 + ?n"] size by (simp add: sdes_items.simps [of ?b ?L "10 + ?n"] Let_def)
  have "sdes_items ?b ?L 8 = success ([\<lparr>item_type = 1, item_value = cname\<rparr>], ?n + 11)"
    using size tail item bytes itemSize by (simp add: sdes_items.simps [of ?b ?L 8] Let_def)
  moreover have "round4 (?n + 11) = ?L" by (simp add: round4_def sdes_size_def)
  moreover have "zeroBytes ?b (?n + 11) ?L" using final by (simp add: zeroBytes_def list_all_iff)
  ultimately have "sdes_chunks ?b ?L 1 4 = success ([\<lparr>chunk_ssrc = ssrc, chunk_items = [\<lparr>item_type = 1, item_value = cname\<rparr>]\<rparr>], ?L)"
    using size bytes by simp
  then show "rtcp_parsePacket ?b (?b ! 0 AND 0x1F) (?b ! 1) 0 = success (cname_packet ssrc cname)"
    unfolding bytes rtcp_parsePacket_def L by (simp add: Let_def cname_packet_def L)
qed

section \<open>Round trip and size\<close>

lemma planned_bytes:
  assumes "n \<le> 255"
  shows "compoundPayloadBytes (of_nat n) = success (of_nat (28 + (n + 13) div 4 * 4))"
proof -
  have small: "unat (of_nat m :: u64) = m" if "m \<le> 1000" for m using that by (simp add: unat_of_nat take_bit_nat_eq_self)
  have words: "(n + 13) div 4 * 4 \<le> 300" "(n + 13) div 4 \<le> 300" using assms by simp_all
  have "checked_add 10 (of_nat n) = success (of_nat (n + 10))"
    using assms small [of n] by (simp add: checked_add_ok)
  moreover have "ceilScale (of_nat (n + 10)) 1 4 = success (of_nat ((n + 13) div 4))"
  proof -
    have "ceil_div (n + 10) 4 = (n + 13) div 4" by (simp add: ceil_div_def add.commute)
    then show ?thesis using assms words small [of "n + 10"] by (simp add: ceilScale_ok)
  qed
  moreover have "checked_multiply (of_nat ((n + 13) div 4)) 4 = success (of_nat ((n + 13) div 4 * 4))"
    using words small [of "(n + 13) div 4"] by (simp add: checked_multiply_ok)
  moreover have "checked_add 28 (of_nat ((n + 13) div 4 * 4)) = success (of_nat (28 + (n + 13) div 4 * 4))"
    using words small [of "(n + 13) div 4 * 4"] by (simp add: checked_add_ok)
  ultimately show ?thesis by (simp only: compoundPayloadBytes_def sum.case)
qed

lemma serialized:
  assumes "serializeCompound p includeBye = success bytes"
  shows "srp_cname p \<noteq> []" and "length (srp_cname p) \<le> 255"
    and "bytes = appendSenderReport [] p @ sdes_bytes (srp_ssrc p) (srp_cname p) @ (if includeBye then [0x81, 203] @ be16 1 @ be32 (srp_ssrc p) else [])"
  using assms
  by (auto simp: serializeCompound_def report_validate_def validateCname_def validateNonControlText_def appendSourceDescription_bytes appendBye_def Let_def
    split: if_splits sum.splits)

lemma report_datagram:
  assumes "composeReport includeBye ssrc cname instant ntpEpoch clockMapper packetCount octetCount = success datagram"
  shows "\<exists>timestamp. mapTimestamp instant ntpEpoch clockMapper = success timestamp \<and>
     compound_parse datagram policy =
       success ([report_packet \<lparr>srp_ssrc = ssrc, srp_cname = cname, srp_timestamp = timestamp, srp_senderPacketCount = packetCount,
                   srp_senderOctetCount = octetCount\<rparr>, cname_packet ssrc cname] @ (if includeBye then [bye_packet ssrc] else []))"
proof -
  obtain timestamp where ts: "mapTimestamp instant ntpEpoch clockMapper = success timestamp"
    and s: "serializeCompound \<lparr>srp_ssrc = ssrc, srp_cname = cname, srp_timestamp = timestamp, srp_senderPacketCount = packetCount,
        srp_senderOctetCount = octetCount\<rparr> includeBye = success datagram"
    using assms by (auto simp: composeReport_def split: sum.splits)
  let ?p = "\<lparr>srp_ssrc = ssrc, srp_cname = cname, srp_timestamp = timestamp, srp_senderPacketCount = packetCount, srp_senderOctetCount = octetCount\<rparr>"
  have cname: "cname \<noteq> []" "length cname \<le> 255" using serialized(1,2) [OF s] by simp_all
  have "parse_packets datagram = success ([report_packet ?p, cname_packet ssrc cname] @ (if includeBye then [bye_packet ssrc] else []))"
    unfolding serialized(3) [OF s] report_parses using cname_parses [OF cname] bye_parses [of ssrc] parse_packets.simps [of "[]"] by simp
  moreover have "datagram \<noteq> []" unfolding serialized(3) [OF s] by (simp add: appendSenderReport_def Let_def)
  moreover have "leading_source (report_packet ?p) = Some ssrc" by (simp add: leading_source_def report_packet_def)
  ultimately have "compound_parse datagram policy = success ([report_packet ?p, cname_packet ssrc cname] @ (if includeBye then [bye_packet ssrc] else []))"
    using cname(1) by (auto simp: compound_parse_def Let_def report_packet_def cname_packet_def)
  then show ?thesis using ts by blast
qed

text \<open>
  C29. A receiver reads every report the library composes, under either composition mode and whether or not it requires a CNAME, as
  exactly a sender report, a source description and, for a terminal report, a BYE of that source: the report holds the NTP time and
  the RTP timestamp to which the sender's clocks map the report instant, and the counters modulo \<open>2\<^sup>3\<^sup>2\<close>.
\<close>

theorem rtcp_report_roundtrip:
  assumes "composeReport includeBye ssrc cname instant ntpEpoch clockMapper packetCount octetCount = success datagram"
  shows "\<exists>timestamp. mapTimestamp instant ntpEpoch clockMapper = success timestamp \<and>
     compound_parse datagram policy =
       success ([report_packet \<lparr>srp_ssrc = ssrc, srp_cname = cname, srp_timestamp = timestamp, srp_senderPacketCount = packetCount,
                   srp_senderOctetCount = octetCount\<rparr>, cname_packet ssrc cname] @ (if includeBye then [bye_packet ssrc] else []))"
  by (rule report_datagram [OF assms])

lemma report_cname:
  "composeReport includeBye ssrc cname instant ntpEpoch clockMapper packetCount octetCount = success datagram \<Longrightarrow> cname \<noteq> []"
  using serialized(1) by (fastforce simp: composeReport_def split: sum.splits)

text \<open>
  C33. The planned payload size of a report is four bytes too small when the CNAME has a length of two modulo four, since the plan
  does not count the end item of the source description, and exact otherwise (a BYE adds eight bytes).
\<close>

theorem rtcp_planned_size:
  assumes "composeReport includeBye ssrc cname instant ntpEpoch clockMapper packetCount octetCount = success datagram"
  shows "\<exists>planned. compoundPayloadBytes (of_nat (length cname)) = success planned \<and>
     length datagram = unat planned + (if length cname mod 4 = 2 then 4 else 0) + (if includeBye then unat byePayloadBytes else 0)"
proof -
  obtain p where s: "serializeCompound p includeBye = success datagram" and cname: "srp_cname p = cname"
    using assms by (auto simp: composeReport_def split: sum.splits)
  let ?n = "length cname"
  have n: "?n \<le> 255" using serialized(2) [OF s] cname by simp
  have "length (appendSenderReport [] p) = 28" by (simp add: appendSenderReport_def Let_def)
  then have len: "length datagram = 28 + (?n + 14) div 4 * 4 + (if includeBye then 8 else 0)"
    unfolding serialized(3) [OF s] by (simp add: sdes_length sdes_size_def cname)
  have words: "(?n + 14) div 4 * 4 = (?n + 13) div 4 * 4 + (if ?n mod 4 = 2 then 4 else 0)"
  proof -
    have split: "(?n + k) div 4 = ?n div 4 + (?n mod 4 + k) div 4" for k
    proof -
      have e: "?n + k = (?n mod 4 + k) + ?n div 4 * 4" using div_mult_mod_eq [of ?n 4] by linarith
      show ?thesis unfolding e by (rule div_mult_self1) simp
    qed
    show ?thesis unfolding split [of 14] split [of 13] by (cases rule: mod4_cases [of ?n]) simp_all
  qed
  have planned: "28 + (?n + 13) div 4 * 4 < 2 ^ 64" using n by simp
  then have "unat (of_nat (28 + (?n + 13) div 4 * 4) :: u64) = 28 + (?n + 13) div 4 * 4"
    unfolding unat_of_nat len_num1 by (intro mod_less) simp
  then show ?thesis using planned_bytes [OF n] len words by (simp add: byePayloadBytes_def)
qed

text \<open>A report of a source with the CNAME \<^verbatim>\<open>ab\<close>, one second after the capture of the epoch.\<close>

definition sample_report :: "bool \<Rightarrow> u8 list Result" where
  "sample_report includeBye =
     composeReport includeBye 7 [0x61, 0x62] 1000000000 \<lparr>m_masterAtCapture = 0, m_unixNanosecondsAtCapture = 0\<rparr>
       \<lparr>oc_clockRate = 90000, oc_baseTimestamp = 5, oc_masterOrigin = 0\<rparr> 3 400"

definition sample_bytes :: "u8 list" where
  "sample_bytes = [0x80, 200, 0, 6, 0, 0, 0, 7, 0x83, 0xAA, 0x7E, 0x81, 0, 0, 0, 0, 0, 1, 0x5F, 0x95, 0, 0, 0, 3, 0, 0, 1, 0x90,
     0x81, 202, 0, 3, 0, 0, 0, 7, 1, 2, 0x61, 0x62, 0, 0, 0, 0]"

lemma sample_report_bytes: "sample_report False = success sample_bytes"
  by code_simp

theorem rtcp_report_roundtrip_witness:
  "\<exists>timestamp. compound_parse sample_bytes \<lparr>cp_mode = StrictCompoundRfc3550, cp_requireCname = True\<rparr> =
     success [report_packet \<lparr>srp_ssrc = 7, srp_cname = [0x61, 0x62], srp_timestamp = timestamp, srp_senderPacketCount = 3,
       srp_senderOctetCount = 400\<rparr>, cname_packet 7 [0x61, 0x62]]"
  using rtcp_report_roundtrip [OF sample_report_bytes [unfolded sample_report_def], of "\<lparr>cp_mode = StrictCompoundRfc3550, cp_requireCname = True\<rparr>"]
  by auto

theorem rtcp_planned_size_witness: "\<exists>planned. compoundPayloadBytes 2 = success planned \<and> length sample_bytes = unat planned + 4"
  using rtcp_planned_size [OF sample_report_bytes [unfolded sample_report_def]] by simp

end
