(* ===== verification/Rtcp_Tracker.thy ===== *)
theory Rtcp_Tracker
  imports Rtcp_Compound
begin

text \<open>
  \<^verbatim>\<open>MediaRtcpSenderReportTracker\<close>: the clock evidence a receiver collects from RTCP. Observation times are signed 64-bit nanosecond
  counts of a steady clock, which are not negative, so their differences do not overflow.
\<close>

section \<open>Definitions\<close>

record MediaRtcpClockEvidence =
  ev_observedMediaSsrc :: u32
  ev_senderReportSsrc :: u32
  ev_cnameSsrc :: u32
  ev_ntp :: MediaRtcpNtpTimestamp
  ev_rtpTimestamp :: u32
  ev_cname :: "u8 list"
  ev_senderReportObservedAtNs :: int
  ev_cnameObservedAtNs :: int
  ev_generation :: u64

record MediaRtcpSenderReportTrackerConfig =
  tc_requireSenderReports :: bool
  tc_requireCname :: bool
  tc_senderReportTimeoutNs :: int
  tc_cnameTimeoutNs :: int

record PendingRtcpSource =
  ps_senderReport :: MediaRtcpSenderReport
  ps_cname :: "u8 list"
  ps_observedAtNs :: int

record MediaRtcpSenderReportTracker =
  tr_config :: MediaRtcpSenderReportTrackerConfig
  tr_mediaSsrc :: "u32 option"
  tr_pendingSource :: "PendingRtcpSource option"
  tr_senderReport :: "MediaRtcpSenderReport option"
  tr_lastAcceptedNtp :: "MediaRtcpNtpTimestamp option"
  tr_cname :: "u8 list"
  tr_senderReportObservedAtNs :: int
  tr_cnameObservedAtNs :: int
  tr_generation :: u64
  tr_evidenceUpdatePending :: bool

definition ntpLess :: "MediaRtcpNtpTimestamp \<Rightarrow> MediaRtcpNtpTimestamp \<Rightarrow> bool" where
  "ntpLess left right \<longleftrightarrow> rn_seconds left < rn_seconds right \<or> (rn_seconds left = rn_seconds right \<and> rn_fraction left < rn_fraction right)"

definition tracker_create :: "MediaRtcpSenderReportTrackerConfig \<Rightarrow> MediaRtcpSenderReportTracker" where
  "tracker_create config =
     \<lparr>tr_config = config, tr_mediaSsrc = None, tr_pendingSource = None, tr_senderReport = None, tr_lastAcceptedNtp = None, tr_cname = [],
      tr_senderReportObservedAtNs = 0, tr_cnameObservedAtNs = 0, tr_generation = 0, tr_evidenceUpdatePending = False\<rparr>"

definition invalidate :: "MediaRtcpSenderReportTracker \<Rightarrow> MediaRtcpSenderReportTracker" where
  "invalidate t = t\<lparr>tr_generation := tr_generation t + 1, tr_mediaSsrc := None, tr_pendingSource := None, tr_senderReport := None, tr_cname := [],
     tr_lastAcceptedNtp := None, tr_senderReportObservedAtNs := 0, tr_cnameObservedAtNs := 0, tr_evidenceUpdatePending := False\<rparr>"

definition observeMedia :: "u32 \<Rightarrow> int \<Rightarrow> MediaRtcpSenderReportTracker \<Rightarrow> MediaRtcpSenderReportTracker" where
  "observeMedia ssrc observedAtNs t =
     (let t = (if tr_mediaSsrc t \<noteq> None \<and> tr_mediaSsrc t \<noteq> Some ssrc then invalidate t else t);
          t = t\<lparr>tr_mediaSsrc := Some ssrc\<rparr>
      in case tr_pendingSource t of
           None \<Rightarrow> t
         | Some pending \<Rightarrow>
             (if sr_ssrc (ps_senderReport pending) \<noteq> ssrc then t\<lparr>tr_pendingSource := None\<rparr>
              else
                (let t = t\<lparr>tr_senderReport := Some (ps_senderReport pending), tr_lastAcceptedNtp := Some (sr_ntp (ps_senderReport pending)),
                           tr_cname := ps_cname pending, tr_senderReportObservedAtNs := ps_observedAtNs pending,
                           tr_cnameObservedAtNs := ps_observedAtNs pending, tr_pendingSource := None\<rparr>
                 in if observedAtNs \<ge> tr_senderReportObservedAtNs t then t\<lparr>tr_evidenceUpdatePending := True\<rparr> else t)))"

text \<open>The search for the CNAME of the pending report: the first chunk of its source that has one.\<close>

datatype cname_search = NoCname | EmptyCname | FoundCname "u8 list"

fun find_cname :: "u32 \<Rightarrow> MediaRtcpSdesChunk list \<Rightarrow> cname_search" where
  "find_cname ssrc [] = NoCname"
| "find_cname ssrc (chunk # chunks) =
     (if chunk_ssrc chunk \<noteq> ssrc then find_cname ssrc chunks
      else
        (case find (\<lambda>item. item_type item = 1) (chunk_items chunk) of
           None \<Rightarrow> find_cname ssrc chunks
         | Some item \<Rightarrow> (if item_value item = [] then EmptyCname else FoundCname (item_value item))))"

definition observePendingSource :: "MediaRtcpPacket list \<Rightarrow> int \<Rightarrow> MediaRtcpSenderReportTracker \<Rightarrow> MediaRtcpSenderReportTracker \<times> Status" where
  "observePendingSource packets observedAtNs t =
     (case find (\<lambda>packet. rp_kind packet = SenderReport \<and> rp_senderReport packet \<noteq> None) packets of
        None \<Rightarrow> (t, success ())
      | Some leading \<Rightarrow>
          (let report = the (rp_senderReport leading);
               chunks = concat (map rp_sdesChunks (filter (\<lambda>packet. rp_kind packet = SourceDescription) packets));
               search = find_cname (sr_ssrc report) chunks
           in if search = EmptyCname then (invalidate t, failure InvalidArgument)
              else if search = NoCname \<and> tc_requireCname (tr_config t) then (t, success ())
              else
                (let store = (t\<lparr>tr_pendingSource := Some \<lparr>ps_senderReport = report,
                       ps_cname = (case search of FoundCname cname \<Rightarrow> cname | _ \<Rightarrow> []), ps_observedAtNs = observedAtNs\<rparr>\<rparr>, success ())
                 in case tr_pendingSource t of
                      None \<Rightarrow> store
                    | Some pending \<Rightarrow>
                        (if sr_ssrc (ps_senderReport pending) = sr_ssrc report \<and> ntpLess (sr_ntp report) (sr_ntp (ps_senderReport pending))
                         then (invalidate t, failure InvalidArgument)
                         else if sr_ssrc (ps_senderReport pending) = sr_ssrc report \<and> sr_ntp (ps_senderReport pending) = sr_ntp report \<and>
                                 sr_rtpTimestamp (ps_senderReport pending) \<noteq> sr_rtpTimestamp report
                         then (invalidate t, failure InvalidArgument)
                         else store))))"

definition observeSenderReport :: "MediaRtcpSenderReport \<Rightarrow> int \<Rightarrow> MediaRtcpSenderReportTracker \<Rightarrow> MediaRtcpSenderReportTracker \<times> Status" where
  "observeSenderReport report observedAtNs t =
     (if tr_mediaSsrc t \<noteq> None \<and> tr_mediaSsrc t \<noteq> Some (sr_ssrc report) then (t, success ())
      else if (case tr_lastAcceptedNtp t of None \<Rightarrow> False | Some ntp \<Rightarrow> ntpLess (sr_ntp report) ntp) then (invalidate t, failure InvalidArgument)
      else if (case tr_senderReport t of None \<Rightarrow> False
               | Some previous \<Rightarrow> sr_ssrc previous = sr_ssrc report \<and> sr_ntp previous = sr_ntp report \<and> sr_rtpTimestamp previous \<noteq> sr_rtpTimestamp report)
      then (invalidate t, failure InvalidArgument)
      else
        (let t = t\<lparr>tr_senderReport := Some report, tr_lastAcceptedNtp := Some (sr_ntp report), tr_senderReportObservedAtNs := observedAtNs\<rparr>;
             t = (if \<not> tc_requireCname (tr_config t) then t\<lparr>tr_cnameObservedAtNs := observedAtNs\<rparr> else t)
         in (t\<lparr>tr_evidenceUpdatePending := True\<rparr>, success ())))"

definition observeSdes :: "MediaRtcpSdesChunk \<Rightarrow> int \<Rightarrow> MediaRtcpSenderReportTracker \<Rightarrow> MediaRtcpSenderReportTracker \<times> Status" where
  "observeSdes chunk observedAtNs t =
     (case find (\<lambda>item. item_type item = 1) (chunk_items chunk) of
        None \<Rightarrow> (t, success ())
      | Some cname \<Rightarrow>
          (if tr_mediaSsrc t \<noteq> Some (chunk_ssrc chunk) then (t, success ())
           else if item_value cname = [] then (invalidate t, failure InvalidArgument)
           else if tr_cname t \<noteq> [] \<and> tr_cname t \<noteq> item_value cname then (invalidate t, failure InvalidArgument)
           else (t\<lparr>tr_cname := item_value cname, tr_cnameObservedAtNs := observedAtNs, tr_evidenceUpdatePending := True\<rparr>, success ())))"

fun observe_chunks :: "MediaRtcpSdesChunk list \<Rightarrow> int \<Rightarrow> MediaRtcpSenderReportTracker \<Rightarrow> MediaRtcpSenderReportTracker \<times> Status" where
  "observe_chunks [] observedAtNs t = (t, success ())"
| "observe_chunks (chunk # chunks) observedAtNs t =
     (case observeSdes chunk observedAtNs t of
        (t, Inl e) \<Rightarrow> (t, failure e)
      | (t, Inr _) \<Rightarrow> observe_chunks chunks observedAtNs t)"

fun observe_packets :: "MediaRtcpPacket list \<Rightarrow> int \<Rightarrow> MediaRtcpSenderReportTracker \<Rightarrow> MediaRtcpSenderReportTracker \<times> Status" where
  "observe_packets [] observedAtNs t = (t, success ())"
| "observe_packets (packet # packets) observedAtNs t =
     (case (if rp_kind packet = SenderReport \<and> rp_senderReport packet \<noteq> None then observeSenderReport (the (rp_senderReport packet)) observedAtNs t
            else if rp_kind packet = SourceDescription then observe_chunks (rp_sdesChunks packet) observedAtNs t
            else if rp_kind packet = Bye \<and> tr_mediaSsrc t \<noteq> None \<and> the (tr_mediaSsrc t) \<in> set (rp_byeSources packet)
            then (invalidate t, failure Cancelled)
            else (t, success ())) of
        (t, Inl e) \<Rightarrow> (t, failure e)
      | (t, Inr _) \<Rightarrow> observe_packets packets observedAtNs t)"

definition tracker_observe :: "MediaRtcpPacket list \<Rightarrow> int \<Rightarrow> MediaRtcpSenderReportTracker \<Rightarrow> MediaRtcpSenderReportTracker \<times> Status" where
  "tracker_observe packets observedAtNs t =
     (if tr_mediaSsrc t = None then observePendingSource packets observedAtNs t else observe_packets packets observedAtNs t)"

definition evidence :: "int \<Rightarrow> MediaRtcpSenderReportTracker \<Rightarrow> MediaRtcpClockEvidence Result" where
  "evidence observedAtNs t =
     (if tc_senderReportTimeoutNs (tr_config t) \<le> 0 \<or> tc_cnameTimeoutNs (tr_config t) \<le> 0 then failure InvalidArgument
      else
        (case tr_mediaSsrc t of
           None \<Rightarrow> failure NotInitialized
         | Some ssrc \<Rightarrow>
             (if tc_requireSenderReports (tr_config t) \<and>
                 (map_option sr_ssrc (tr_senderReport t) \<noteq> Some ssrc \<or> observedAtNs < tr_senderReportObservedAtNs t \<or>
                  observedAtNs - tr_senderReportObservedAtNs t > tc_senderReportTimeoutNs (tr_config t))
              then failure NotInitialized
              else if tc_requireCname (tr_config t) \<and>
                 (tr_cname t = [] \<or> observedAtNs < tr_cnameObservedAtNs t \<or> observedAtNs - tr_cnameObservedAtNs t > tc_cnameTimeoutNs (tr_config t))
              then failure NotInitialized
              else
                (case tr_senderReport t of
                   None \<Rightarrow> failure NotInitialized
                 | Some report \<Rightarrow>
                     success \<lparr>ev_observedMediaSsrc = ssrc, ev_senderReportSsrc = sr_ssrc report, ev_cnameSsrc = ssrc, ev_ntp = sr_ntp report,
                       ev_rtpTimestamp = sr_rtpTimestamp report, ev_cname = tr_cname t, ev_senderReportObservedAtNs = tr_senderReportObservedAtNs t,
                       ev_cnameObservedAtNs = tr_cnameObservedAtNs t, ev_generation = tr_generation t\<rparr>))))"

definition takeEvidenceUpdate :: "int \<Rightarrow> MediaRtcpSenderReportTracker \<Rightarrow> MediaRtcpSenderReportTracker \<times> MediaRtcpClockEvidence option Result" where
  "takeEvidenceUpdate observedAtNs t =
     (if \<not> tr_evidenceUpdatePending t then (t, success None)
      else
        (case evidence observedAtNs t of
           Inl e \<Rightarrow> (if e = NotInitialized then (t, success None) else (t, failure e))
         | Inr current \<Rightarrow> (t\<lparr>tr_evidenceUpdatePending := False\<rparr>, success (Some current))))"

section \<open>One generation is one clock\<close>

datatype TrackerOp = ObserveMedia u32 int | ObserveContinuityLoss | ObservePackets "MediaRtcpPacket list" int | TakeEvidenceUpdate int | ResetTracker

fun tracker_step :: "TrackerOp \<Rightarrow> MediaRtcpSenderReportTracker \<Rightarrow> MediaRtcpSenderReportTracker" where
  "tracker_step (ObserveMedia ssrc at) t = observeMedia ssrc at t"
| "tracker_step ObserveContinuityLoss t = invalidate t"
| "tracker_step (ObservePackets packets at) t = fst (tracker_observe packets at t)"
| "tracker_step (TakeEvidenceUpdate at) t = fst (takeEvidenceUpdate at t)"
| "tracker_step ResetTracker t = invalidate t"

definition tracker_run :: "TrackerOp list \<Rightarrow> MediaRtcpSenderReportTracker \<Rightarrow> MediaRtcpSenderReportTracker" where
  "tracker_run = fold tracker_step"

definition tracker_ok :: "MediaRtcpSenderReportTracker \<Rightarrow> bool" where
  "tracker_ok t \<longleftrightarrow>
     (tr_mediaSsrc t = None \<longrightarrow> tr_senderReport t = None \<and> tr_cname t = [] \<and> tr_lastAcceptedNtp t = None) \<and>
     (tr_mediaSsrc t \<noteq> None \<longrightarrow> tr_pendingSource t = None) \<and>
     (\<forall>report. tr_senderReport t = Some report \<longrightarrow> tr_mediaSsrc t = Some (sr_ssrc report) \<and> tr_lastAcceptedNtp t = Some (sr_ntp report))"

text \<open>What a tracker keeps of its clock as long as it is not invalidated.\<close>

definition follows :: "MediaRtcpSenderReport \<Rightarrow> MediaRtcpSenderReport \<Rightarrow> bool" where
  "follows r r' \<longleftrightarrow> \<not> ntpLess (sr_ntp r') (sr_ntp r) \<and> (sr_ntp r' = sr_ntp r \<longrightarrow> sr_rtpTimestamp r' = sr_rtpTimestamp r)"

definition same_clock :: "MediaRtcpSenderReportTracker \<Rightarrow> MediaRtcpSenderReportTracker \<Rightarrow> bool" where
  "same_clock t t' \<longleftrightarrow>
     tr_generation t' = tr_generation t \<and> (tr_mediaSsrc t \<noteq> None \<longrightarrow> tr_mediaSsrc t' = tr_mediaSsrc t) \<and>
     (\<forall>r. tr_senderReport t = Some r \<longrightarrow> (\<exists>r'. tr_senderReport t' = Some r' \<and> follows r r')) \<and>
     (tr_cname t \<noteq> [] \<longrightarrow> tr_cname t' = tr_cname t)"

definition moves :: "MediaRtcpSenderReportTracker \<Rightarrow> MediaRtcpSenderReportTracker \<Rightarrow> bool" where
  "moves t t' \<longleftrightarrow> tracker_ok t' \<and> (same_clock t t' \<or> tr_generation t' = tr_generation t + 1)"

lemma follows_refl: "follows r r"
  by (simp add: follows_def ntpLess_def)

lemma ntp_trans: "\<not> ntpLess b a \<Longrightarrow> \<not> ntpLess c b \<Longrightarrow> \<not> ntpLess c a"
  unfolding ntpLess_def by force

lemma ntp_antisym: "\<not> ntpLess a b \<Longrightarrow> \<not> ntpLess b a \<Longrightarrow> a = b"
  by (cases a; cases b) (auto simp: ntpLess_def)

lemma follows_trans:
  assumes "follows r r'" and "follows r' r''"
  shows "follows r r''"
proof -
  have "\<not> ntpLess (sr_ntp r'') (sr_ntp r)" using assms ntp_trans unfolding follows_def by blast
  moreover have "sr_rtpTimestamp r'' = sr_rtpTimestamp r" if "sr_ntp r'' = sr_ntp r"
  proof -
    have "sr_ntp r' = sr_ntp r" using assms that ntp_antisym [of "sr_ntp r" "sr_ntp r'"] by (simp add: follows_def)
    then show ?thesis using assms that by (simp add: follows_def)
  qed
  ultimately show ?thesis by (simp add: follows_def)
qed

lemma same_clock_refl: "same_clock t t"
  by (auto simp: same_clock_def follows_refl)

lemma same_clock_trans:
  assumes "same_clock t t'" and "same_clock t' t''"
  shows "same_clock t t''"
proof -
  have "\<exists>r''. tr_senderReport t'' = Some r'' \<and> follows r r''" if "tr_senderReport t = Some r" for r
    using assms that follows_trans unfolding same_clock_def by blast
  then show ?thesis using assms by (auto simp: same_clock_def)
qed

lemma invalidate_moves: "moves t (invalidate t)"
  by (simp add: moves_def tracker_ok_def invalidate_def)

lemma tracker_create_ok: "tracker_ok (tracker_create config)"
  by (simp add: tracker_ok_def tracker_create_def)

lemma moves_refl: "tracker_ok t \<Longrightarrow> moves t t"
  by (simp add: moves_def same_clock_refl)

lemma observeMedia_first:
  assumes "tr_mediaSsrc t = None"
  shows "observeMedia ssrc at t =
     (case tr_pendingSource t of
        None \<Rightarrow> t\<lparr>tr_mediaSsrc := Some ssrc\<rparr>
      | Some p \<Rightarrow>
          if sr_ssrc (ps_senderReport p) \<noteq> ssrc then t\<lparr>tr_mediaSsrc := Some ssrc, tr_pendingSource := None\<rparr>
          else t\<lparr>tr_mediaSsrc := Some ssrc, tr_senderReport := Some (ps_senderReport p), tr_lastAcceptedNtp := Some (sr_ntp (ps_senderReport p)),
                 tr_cname := ps_cname p, tr_senderReportObservedAtNs := ps_observedAtNs p, tr_cnameObservedAtNs := ps_observedAtNs p,
                 tr_pendingSource := None, tr_evidenceUpdatePending := at \<ge> ps_observedAtNs p \<or> tr_evidenceUpdatePending t\<rparr>)"
  using assms by (auto simp: observeMedia_def Let_def split: option.split)

lemma observeMedia_moves:
  assumes ok: "tracker_ok t"
  shows "moves t (observeMedia ssrc at t)"
proof -
  consider (first) "tr_mediaSsrc t = None" | (same) "tr_mediaSsrc t = Some ssrc" | (other) "tr_mediaSsrc t \<noteq> None" "tr_mediaSsrc t \<noteq> Some ssrc" by blast
  then show ?thesis
  proof cases
    case first
    then have empty: "tr_senderReport t = None" "tr_cname t = []" using ok by (simp_all add: tracker_ok_def)
    show ?thesis
      using first empty ok unfolding observeMedia_first [OF first]
      by (cases "tr_pendingSource t") (simp_all add: moves_def same_clock_def tracker_ok_def)
  next
    case same
    then have "tr_pendingSource t = None" using ok by (simp add: tracker_ok_def)
    then have media: "observeMedia ssrc at t = t\<lparr>tr_mediaSsrc := Some ssrc\<rparr>" using same by (simp add: observeMedia_def Let_def)
    have "t\<lparr>tr_mediaSsrc := Some ssrc\<rparr> = t" using same by simp
    then show ?thesis unfolding media using moves_refl [OF ok] by simp
  next
    case other
    then have "observeMedia ssrc at t = (invalidate t)\<lparr>tr_mediaSsrc := Some ssrc\<rparr>" by (auto simp: observeMedia_def invalidate_def Let_def)
    then show ?thesis by (simp add: moves_def tracker_ok_def invalidate_def)
  qed
qed

lemma pending_result:
  "observePendingSource packets at t = (t', r) \<Longrightarrow> t' = t \<or> t' = invalidate t \<or> (\<exists>x. t' = t\<lparr>tr_pendingSource := x\<rparr>)"
  unfolding observePendingSource_def Let_def by (simp split: option.splits if_splits) blast+

lemma pending_moves:
  assumes "tracker_ok t" and "tr_mediaSsrc t = None" and "observePendingSource packets at t = (t', r)"
  shows "moves t t'"
proof -
  have "moves t (t\<lparr>tr_pendingSource := x\<rparr>)" for x using assms(1,2) by (simp add: moves_def tracker_ok_def same_clock_def)
  then show ?thesis using pending_result [OF assms(3)] assms(1) invalidate_moves moves_refl by blast
qed

lemma report_moves:
  assumes "tracker_ok t" and "tr_mediaSsrc t \<noteq> None" and "observeSenderReport report at t = (t', r)"
  shows "moves t t' \<and> (\<not> isl r \<longrightarrow> same_clock t t')"
proof -
  have "same_clock t t' \<and> tracker_ok t'"
    if "\<not> isl r" "tr_mediaSsrc t = Some (sr_ssrc report)"
    using assms that
    by (auto simp: observeSenderReport_def tracker_ok_def same_clock_def follows_def Let_def split: option.splits if_splits)
  moreover have "t' = t" if "tr_mediaSsrc t \<noteq> Some (sr_ssrc report)" using assms that by (auto simp: observeSenderReport_def)
  moreover have "t' = invalidate t" if "isl r" using assms that by (auto simp: observeSenderReport_def Let_def split: if_splits)
  ultimately show ?thesis using assms(1) invalidate_moves [of t] same_clock_refl [of t] moves_refl [of t] by (auto simp: moves_def)
qed

lemma sdes_result:
  assumes "observeSdes chunk at t = (t', r)"
  shows "t' = t \<or> t' = invalidate t \<and> isl r \<or>
    (\<exists>cname. (tr_cname t \<noteq> [] \<longrightarrow> cname = tr_cname t) \<and> tr_mediaSsrc t \<noteq> None \<and>
       t' = t\<lparr>tr_cname := cname, tr_cnameObservedAtNs := at, tr_evidenceUpdatePending := True\<rparr>)"
proof (cases "find (\<lambda>item. item_type item = 1) (chunk_items chunk)")
  case None
  then show ?thesis using assms by (simp add: observeSdes_def)
next
  case (Some item)
  then show ?thesis using assms by (auto simp: observeSdes_def split: if_splits)
qed

lemma sdes_moves:
  assumes "tracker_ok t" and "observeSdes chunk at t = (t', r)"
  shows "moves t t' \<and> (\<not> isl r \<longrightarrow> same_clock t t')"
  using sdes_result [OF assms(2)]
proof (elim disjE exE conjE)
  fix cname
  assume cname: "tr_cname t \<noteq> [] \<longrightarrow> cname = tr_cname t" and "tr_mediaSsrc t \<noteq> None"
    and t': "t' = t\<lparr>tr_cname := cname, tr_cnameObservedAtNs := at, tr_evidenceUpdatePending := True\<rparr>"
  then have "tracker_ok t'" "same_clock t t'" using assms(1) by (auto simp: tracker_ok_def same_clock_def follows_refl)
  then show ?thesis by (simp add: moves_def)
qed (use moves_refl [OF assms(1)] same_clock_refl invalidate_moves in auto)

lemma moves_trans: "same_clock t t' \<Longrightarrow> moves t' t'' \<Longrightarrow> moves t t''"
  using same_clock_trans [of t t' t''] by (auto simp: moves_def same_clock_def [of t t', THEN iffD1, THEN conjunct1])

lemma chunks_move:
  "tracker_ok t \<Longrightarrow> observe_chunks chunks at t = (t', r) \<Longrightarrow> moves t t' \<and> (\<not> isl r \<longrightarrow> same_clock t t')"
proof (induction chunks arbitrary: t)
  case (Cons chunk chunks)
  obtain u s where u: "observeSdes chunk at t = (u, s)" by (cases "observeSdes chunk at t")
  note first = sdes_moves [OF Cons.prems(1) u]
  show ?case
  proof (cases s)
    case (Inl e)
    then show ?thesis using Cons.prems(2) u first by auto
  next
    case (Inr x)
    then have "same_clock t u" "tracker_ok u" using first by (auto simp: moves_def)
    then show ?thesis using Cons.IH [of u] Cons.prems(2) u Inr moves_trans same_clock_trans by auto
  qed
qed (simp add: moves_refl same_clock_refl)

lemma packets_move:
  "tracker_ok t \<Longrightarrow> tr_mediaSsrc t \<noteq> None \<Longrightarrow> observe_packets packets at t = (t', r) \<Longrightarrow> moves t t'"
proof (induction packets arbitrary: t)
  case (Cons packet packets)
  obtain u s where u: "(if rp_kind packet = SenderReport \<and> rp_senderReport packet \<noteq> None then observeSenderReport (the (rp_senderReport packet)) at t
      else if rp_kind packet = SourceDescription then observe_chunks (rp_sdesChunks packet) at t
      else if rp_kind packet = Bye \<and> tr_mediaSsrc t \<noteq> None \<and> the (tr_mediaSsrc t) \<in> set (rp_byeSources packet)
      then (invalidate t, failure Cancelled) else (t, success ())) = (u, s)"
    by (metis surj_pair)
  have first: "moves t u \<and> (\<not> isl s \<longrightarrow> same_clock t u)"
    using u report_moves [OF Cons.prems(1,2)] chunks_move [OF Cons.prems(1)] invalidate_moves [of t] moves_refl [OF Cons.prems(1)] same_clock_refl [of t]
    by (auto split: if_splits)
  show ?case
  proof (cases s)
    case (Inl e)
    then show ?thesis using Cons.prems(3) first unfolding observe_packets.simps u by simp
  next
    case (Inr x)
    then have "same_clock t u" "tracker_ok u" using first by (auto simp: moves_def)
    moreover have "tr_mediaSsrc u \<noteq> None" using \<open>same_clock t u\<close> Cons.prems(2) by (auto simp: same_clock_def)
    ultimately show ?thesis using Cons.IH [of u] Cons.prems(3) Inr moves_trans unfolding observe_packets.simps u by simp
  qed
qed (simp add: moves_refl)

lemma observe_moves: "tracker_ok t \<Longrightarrow> moves t (fst (tracker_observe packets at t))"
  using pending_moves packets_move by (cases "tracker_observe packets at t") (auto simp: tracker_observe_def split: if_splits)

lemma step_moves: "tracker_ok t \<Longrightarrow> moves t (tracker_step op t)"
proof (cases op)
  case (TakeEvidenceUpdate at)
  assume "tracker_ok t"
  then show ?thesis
    by (auto simp: TakeEvidenceUpdate takeEvidenceUpdate_def moves_def tracker_ok_def same_clock_def follows_refl split: sum.splits if_splits)
qed (simp_all add: observeMedia_moves invalidate_moves observe_moves)

lemma run_moves:
  "tracker_ok t \<Longrightarrow>
   tracker_ok (tracker_run ops t) \<and>
   (\<exists>n\<le>length ops. tr_generation (tracker_run ops t) = tr_generation t + of_nat n \<and> (n = 0 \<longrightarrow> same_clock t (tracker_run ops t)))"
proof (induction ops arbitrary: t)
  case (Cons op ops)
  let ?u = "tracker_step op t"
  have m: "tracker_ok ?u" "same_clock t ?u \<or> tr_generation ?u = tr_generation t + 1"
    using step_moves [OF Cons.prems, of op] by (simp_all add: moves_def)
  obtain n where n: "n \<le> length ops" "tr_generation (tracker_run ops ?u) = tr_generation ?u + of_nat n"
      "n = 0 \<longrightarrow> same_clock ?u (tracker_run ops ?u)" "tracker_ok (tracker_run ops ?u)"
    using Cons.IH [OF m(1)] by blast
  have run: "tracker_run (op # ops) t = tracker_run ops ?u" by (simp add: tracker_run_def)
  from m(2) show ?case
  proof
    assume s: "same_clock t ?u"
    then have "tr_generation ?u = tr_generation t" by (simp add: same_clock_def)
    then show ?thesis unfolding run using n s same_clock_trans [OF s] by (intro conjI exI [of _ n]) auto
  next
    assume "tr_generation ?u = tr_generation t + 1"
    then show ?thesis unfolding run using n by (intro conjI exI [of _ "Suc n"]) (auto simp: add.commute add.left_commute)
  qed
qed (auto simp: tracker_run_def same_clock_refl)

lemma run_same_generation:
  assumes "tracker_ok t" and "length ops < 2 ^ 64" and "tr_generation (tracker_run ops t) = tr_generation t"
  shows "same_clock t (tracker_run ops t)"
proof -
  obtain n where n: "n \<le> length ops" "tr_generation (tracker_run ops t) = tr_generation t + of_nat n" "n = 0 \<longrightarrow> same_clock t (tracker_run ops t)"
    using run_moves [OF assms(1)] by blast
  have "(of_nat n :: u64) = 0" using n(2) assms(3) by simp
  then have "2 ^ 64 dvd n" by (simp add: word_of_nat_eq_0_iff)
  then have "n = 0" using n(1) assms(2) dvd_imp_le [of "2 ^ 64" n] by linarith
  then show ?thesis using n(3) by simp
qed

lemma evidence_fields:
  assumes "evidence at t = success e"
  shows "tr_mediaSsrc t = Some (ev_observedMediaSsrc e)" and "ev_generation e = tr_generation t" and "ev_cname e = tr_cname t"
    and "\<exists>r. tr_senderReport t = Some r \<and> ev_ntp e = sr_ntp r \<and> ev_rtpTimestamp e = sr_rtpTimestamp r \<and> ev_senderReportSsrc e = sr_ssrc r"
  using assms by (auto simp: evidence_def split: option.splits if_splits)

text \<open>
  C30. All clock evidence of one generation describes one clock, whatever media, reports, losses and resets the tracker observes: two
  pieces of evidence with the same generation name the same media source, which is the source of both sender reports; the NTP time
  of the later one is not before that of the earlier one; the same NTP time comes with the same RTP timestamp; a known CNAME does
  not change. (Fewer than \<open>2\<^sup>6\<^sup>4\<close> observations lie between them, so the generation number has not wrapped around.)
\<close>

theorem tracker_one_clock:
  assumes "evidence at (tracker_run ops (tracker_create config)) = success e"
    and "evidence at' (tracker_run ops' (tracker_run ops (tracker_create config))) = success e'"
    and "length ops' < 2 ^ 64" and "ev_generation e' = ev_generation e"
  shows "ev_observedMediaSsrc e' = ev_observedMediaSsrc e \<and> ev_senderReportSsrc e = ev_observedMediaSsrc e \<and>
     ev_senderReportSsrc e' = ev_observedMediaSsrc e \<and> \<not> ntpLess (ev_ntp e') (ev_ntp e) \<and>
     (ev_ntp e' = ev_ntp e \<longrightarrow> ev_rtpTimestamp e' = ev_rtpTimestamp e) \<and> (ev_cname e \<noteq> [] \<longrightarrow> ev_cname e' = ev_cname e)"
proof -
  let ?t = "tracker_run ops (tracker_create config)"
  have ok: "tracker_ok ?t" "tracker_ok (tracker_run ops' ?t)" using run_moves tracker_create_ok by blast+
  note f = evidence_fields [OF assms(1)] and f' = evidence_fields [OF assms(2)]
  have same: "same_clock ?t (tracker_run ops' ?t)"
    using assms(3,4) f(2) f'(2) by (intro run_same_generation [OF ok(1)]) simp_all
  obtain r where r: "tr_senderReport ?t = Some r" "ev_ntp e = sr_ntp r" "ev_rtpTimestamp e = sr_rtpTimestamp r" "ev_senderReportSsrc e = sr_ssrc r"
    using f(4) by blast
  obtain r' where r': "tr_senderReport (tracker_run ops' ?t) = Some r'" "ev_ntp e' = sr_ntp r'" "ev_rtpTimestamp e' = sr_rtpTimestamp r'"
      "ev_senderReportSsrc e' = sr_ssrc r'"
    using f'(4) by blast
  have "follows r r'" using same r(1) r'(1) by (simp add: same_clock_def)
  moreover have "ev_observedMediaSsrc e' = ev_observedMediaSsrc e" using same f(1) f'(1) by (simp add: same_clock_def)
  moreover have "sr_ssrc r = ev_observedMediaSsrc e" "sr_ssrc r' = ev_observedMediaSsrc e'" using ok r(1) r'(1) f(1) f'(1) by (simp_all add: tracker_ok_def)
  ultimately show ?thesis using r r' same f(3) f'(3) by (auto simp: follows_def same_clock_def)
qed

text \<open>
  C31. The clocks of sender and receiver agree: once a new tracker has seen media of the source and a composed report of it, in either
  order, its evidence pairs the NTP time and the RTP timestamp to which the sender's clocks map the report instant, with the sender's
  CNAME, for as long as neither timeout has passed. The exception is a terminal report (with a BYE) after media: the source has ended, and
  there is no evidence. A terminal report before the first media packet counts like any other.
\<close>

theorem report_gives_evidence:
  assumes "composeReport terminal ssrc cname instant ntpEpoch clockMapper packetCount octetCount = success datagram"
    and "compound_parse datagram policy = success packets"
    and "0 < tc_senderReportTimeoutNs config" and "0 < tc_cnameTimeoutNs config"
    and "mediaAt \<le> now" and "reportAt \<le> now" and "now - reportAt \<le> min (tc_senderReportTimeoutNs config) (tc_cnameTimeoutNs config)"
  shows "\<exists>timestamp. mapTimestamp instant ntpEpoch clockMapper = success timestamp \<and>
     (let agreed =
        \<lparr>ev_observedMediaSsrc = ssrc, ev_senderReportSsrc = ssrc, ev_cnameSsrc = ssrc,
         ev_ntp = \<lparr>rn_seconds = wire_seconds (wire (srt_ntp timestamp)), rn_fraction = wire_fraction (wire (srt_ntp timestamp))\<rparr>,
         ev_rtpTimestamp = m_wire (srt_rtp timestamp), ev_cname = cname, ev_senderReportObservedAtNs = reportAt,
         ev_cnameObservedAtNs = reportAt, ev_generation = 0\<rparr>
      in evidence now (tracker_run [ObservePackets packets reportAt, ObserveMedia ssrc mediaAt] (tracker_create config)) = success agreed \<and>
         evidence now (tracker_run [ObserveMedia ssrc mediaAt, ObservePackets packets reportAt] (tracker_create config)) =
           (if terminal then failure NotInitialized else success agreed))"
proof -
  obtain timestamp where ts: "mapTimestamp instant ntpEpoch clockMapper = success timestamp"
    and packets: "packets = [report_packet \<lparr>srp_ssrc = ssrc, srp_cname = cname, srp_timestamp = timestamp, srp_senderPacketCount = packetCount,
        srp_senderOctetCount = octetCount\<rparr>, cname_packet ssrc cname] @ (if terminal then [bye_packet ssrc] else [])"
    using report_datagram [OF assms(1), of policy] assms(2) by auto
  note report = report_packet_def cname_packet_def bye_packet_def packets report_cname [OF assms(1)]
  note run = tracker_run_def tracker_create_def tracker_observe_def observeMedia_def observePendingSource_def observeSenderReport_def observeSdes_def
    invalidate_def Let_def
  show ?thesis unfolding Let_def
    using assms(3-7)
    by (intro exI [of _ timestamp] conjI ts; cases terminal; cases "tc_requireCname config"; cases "reportAt \<le> mediaAt")
      (auto simp: run report evidence_def)
qed

text \<open>A receiver that requires reports and a CNAME, with five second timeouts.\<close>

definition sample_config :: MediaRtcpSenderReportTrackerConfig where
  "sample_config = \<lparr>tc_requireSenderReports = True, tc_requireCname = True, tc_senderReportTimeoutNs = 5000000000, tc_cnameTimeoutNs = 5000000000\<rparr>"

definition sample_packets :: "MediaRtcpPacket list" where
  "sample_packets = (case compound_parse sample_bytes \<lparr>cp_mode = StrictCompoundRfc3550, cp_requireCname = True\<rparr> of Inl _ \<Rightarrow> [] | Inr packets \<Rightarrow> packets)"

lemma sample_parsed: "compound_parse sample_bytes \<lparr>cp_mode = StrictCompoundRfc3550, cp_requireCname = True\<rparr> = success sample_packets"
  using report_datagram [OF sample_report_bytes [unfolded sample_report_def], of "\<lparr>cp_mode = StrictCompoundRfc3550, cp_requireCname = True\<rparr>"]
  by (auto simp: sample_packets_def)

theorem report_gives_evidence_witness:
  "\<exists>e. evidence 300 (tracker_run [ObserveMedia 7 100, ObservePackets sample_packets 200] (tracker_create sample_config)) = success e \<and>
     ev_cname e = [0x61, 0x62]"
  using report_gives_evidence [OF sample_report_bytes [unfolded sample_report_def] sample_parsed, of sample_config 100 300 200]
  by (auto simp: sample_config_def Let_def)

definition sample_evidence :: "int \<Rightarrow> MediaRtcpClockEvidence" where
  "sample_evidence at =
     \<lparr>ev_observedMediaSsrc = 7, ev_senderReportSsrc = 7, ev_cnameSsrc = 7, ev_ntp = \<lparr>rn_seconds = 2208988801, rn_fraction = 0\<rparr>,
      ev_rtpTimestamp = 90005, ev_cname = [0x61, 0x62], ev_senderReportObservedAtNs = at, ev_cnameObservedAtNs = at, ev_generation = 0\<rparr>"

lemma sample_evidence_first:
  "evidence 300 (tracker_run [ObserveMedia 7 100, ObservePackets sample_packets 200] (tracker_create sample_config)) = success (sample_evidence 200)"
  by code_simp

lemma sample_evidence_second:
  "evidence 600 (tracker_run [ObservePackets sample_packets 500]
     (tracker_run [ObserveMedia 7 100, ObservePackets sample_packets 200] (tracker_create sample_config))) = success (sample_evidence 500)"
  by code_simp

theorem tracker_one_clock_witness: "\<not> ntpLess (ev_ntp (sample_evidence 500)) (ev_ntp (sample_evidence 200))"
  using tracker_one_clock [OF sample_evidence_first sample_evidence_second] by (simp add: sample_evidence_def)

end
