(* ===== verification/Rtcp_Schedule.thy ===== *)
theory Rtcp_Schedule
  imports Running_Time
begin

unbundle bit_operations_syntax

text \<open>
  \<^verbatim>\<open>MediaRtcpReportingPolicy\<close> and \<^verbatim>\<open>MediaRtcpSenderReportSchedule\<close>: when a sender report is due. A decision is prepared without
  changing the schedule and takes effect when its token is committed. Authorities (texts that name the origin of a fact) are strings.
\<close>

section \<open>Reporting policy\<close>

record MediaRtcpReportingFacts =
  rf_maximumSessionMembers :: u32
  rf_activeSenders :: u32
  rf_sessionBandwidthBytesPerSecond :: u64
  rf_compoundPacketBytes :: u64
  rf_membershipAuthority :: string
  rf_bandwidthAuthority :: string

record MediaRtcpReportingPolicy =
  rp_facts :: MediaRtcpReportingFacts
  rp_initialBaseInterval :: MediaRunningTime
  rp_steadyBaseInterval :: MediaRunningTime
  rp_minimumAdmissionInterval :: MediaRunningTime
  rp_standardsAuthority :: string

definition reportingPolicy_create ::
  "MediaRtcpReportingFacts \<Rightarrow> MediaRunningTime \<Rightarrow> MediaRunningTime \<Rightarrow> MediaRunningTime \<Rightarrow> string \<Rightarrow> MediaRtcpReportingPolicy Result" where
  "reportingPolicy_create facts initialBaseInterval steadyBaseInterval minimumAdmissionInterval standardsAuthority =
     (if rf_maximumSessionMembers facts < 2 \<or> rf_activeSenders facts = 0 \<or> rf_activeSenders facts > rf_maximumSessionMembers facts \<or>
         rf_sessionBandwidthBytesPerSecond facts = 0 \<or> rf_compoundPacketBytes facts = 0 \<or> rf_membershipAuthority facts = [] \<or>
         rf_bandwidthAuthority facts = [] \<or> standardsAuthority = [] \<or> initialBaseInterval \<le> 0 \<or> steadyBaseInterval < initialBaseInterval \<or>
         minimumAdmissionInterval \<le> 0 \<or> minimumAdmissionInterval > initialBaseInterval
      then failure InvalidArgument
      else success \<lparr>rp_facts = facts, rp_initialBaseInterval = initialBaseInterval, rp_steadyBaseInterval = steadyBaseInterval,
                    rp_minimumAdmissionInterval = minimumAdmissionInterval, rp_standardsAuthority = standardsAuthority\<rparr>)"

section \<open>Schedule\<close>

definition RandomFactorMinimum :: u64 where
  "RandomFactorMinimum = 500000"

definition RandomFactorRange :: u64 where
  "RandomFactorRange = 1000001"

definition CompensationDivisor :: u64 where
  "CompensationDivisor = 1218280"

definition nextRandomState :: "u64 \<Rightarrow> u64" where
  "nextRandomState state =
     (let state = state XOR push_bit 13 state;
          state = state XOR drop_bit 7 state
      in state XOR push_bit 17 state)"

definition randomizedInterval :: "MediaRunningTime \<Rightarrow> u64 \<Rightarrow> MediaRunningTime Result" where
  "randomizedInterval base randomState =
     (if base \<le> 0 \<or> randomState = 0 then failure InvalidArgument
      else
        (let baseNs = word_of_int base;
             factor = RandomFactorMinimum + randomState mod RandomFactorRange;
             quotient = baseNs div CompensationDivisor;
             remainder = baseNs mod CompensationDivisor
         in if quotient > word_of_int INT64_MAX div factor then failure InvalidArgument
            else
              (let whole = quotient * factor;
                   fractional = remainder * factor div CompensationDivisor
               in if whole > word_of_int INT64_MAX - fractional then failure InvalidArgument
                  else
                    (let intervalNs = whole + fractional
                     in if intervalNs = 0 then failure InvalidArgument else success (sint intervalNs)))))"

record MediaRtcpSenderReportCommitToken =
  tk_generation :: u64
  tk_revision :: u64
  tk_expectedDeadline :: MediaRunningTime
  tk_nextDeadline :: MediaRunningTime
  tk_nextRandomState :: u64

record MediaRtcpSenderReportScheduleDecision =
  sd_scheduledDeadline :: MediaRunningTime
  sd_reportInstant :: MediaRunningTime
  sd_nextDeadline :: MediaRunningTime
  sd_lateness :: MediaRunningTime
  sd_skippedIntervals :: u64
  sd_commitToken :: MediaRtcpSenderReportCommitToken

record MediaRtcpSenderReportSchedule =
  ss_nextDeadline :: MediaRunningTime
  ss_reportingPolicy :: MediaRtcpReportingPolicy
  ss_maximumLateness :: MediaRunningTime
  ss_generation :: u64
  ss_revision :: u64
  ss_randomState :: u64

definition schedule_create ::
  "MediaRunningTime \<Rightarrow> MediaRtcpReportingPolicy \<Rightarrow> MediaRunningTime \<Rightarrow> u64 \<Rightarrow> u64 \<Rightarrow> MediaRtcpSenderReportSchedule Result" where
  "schedule_create activation reportingPolicy maximumLateness generation randomSeed =
     (if activation < 0 \<or> maximumLateness < 0 \<or> generation = 0 \<or> randomSeed = 0 then failure InvalidArgument
      else
        (let state = nextRandomState randomSeed
         in case randomizedInterval (rp_initialBaseInterval reportingPolicy) state of
              Inl e \<Rightarrow> failure e
            | Inr interval \<Rightarrow>
                (case checkedAdd activation interval of
                   Inl e \<Rightarrow> failure e
                 | Inr deadline \<Rightarrow>
                     success \<lparr>ss_nextDeadline = deadline, ss_reportingPolicy = reportingPolicy, ss_maximumLateness = maximumLateness,
                              ss_generation = generation, ss_revision = 1, ss_randomState = state\<rparr>)))"

definition schedule_prepare :: "MediaRunningTime \<Rightarrow> u64 \<Rightarrow> MediaRtcpSenderReportSchedule \<Rightarrow> MediaRtcpSenderReportScheduleDecision option Result" where
  "schedule_prepare now generation s =
     (if now < 0 then failure InvalidArgument
      else if generation = 0 \<or> generation \<noteq> ss_generation s then failure InvalidArgument
      else if ss_revision s = - 1 then failure InvalidArgument
      else if now < ss_nextDeadline s then success None
      else
        (case checkedSubtract now (ss_nextDeadline s) of
           Inl e \<Rightarrow> failure e
         | Inr lateness \<Rightarrow>
             (if lateness > ss_maximumLateness s then failure InvalidArgument
              else
                (let nextState = nextRandomState (ss_randomState s)
                 in case randomizedInterval (rp_steadyBaseInterval (ss_reportingPolicy s)) nextState of
                      Inl e \<Rightarrow> failure e
                    | Inr interval \<Rightarrow>
                        (case checkedAdd now interval of
                           Inl e \<Rightarrow> failure e
                         | Inr nextDeadline \<Rightarrow>
                             success (Some \<lparr>sd_scheduledDeadline = ss_nextDeadline s, sd_reportInstant = now, sd_nextDeadline = nextDeadline,
                               sd_lateness = lateness, sd_skippedIntervals = 0,
                               sd_commitToken = \<lparr>tk_generation = ss_generation s, tk_revision = ss_revision s, tk_expectedDeadline = ss_nextDeadline s,
                                 tk_nextDeadline = nextDeadline, tk_nextRandomState = nextState\<rparr>\<rparr>))))))"

definition schedule_commit :: "MediaRtcpSenderReportCommitToken \<Rightarrow> MediaRtcpSenderReportSchedule \<Rightarrow> MediaRtcpSenderReportSchedule \<times> Status" where
  "schedule_commit token s =
     (if tk_generation token \<noteq> ss_generation s \<or> tk_revision token \<noteq> ss_revision s \<or> tk_expectedDeadline token \<noteq> ss_nextDeadline s \<or>
         tk_nextDeadline token \<le> ss_nextDeadline s \<or> tk_nextRandomState token = 0 \<or> ss_revision s = - 1
      then (s, failure InvalidArgument)
      else (s\<lparr>ss_nextDeadline := tk_nextDeadline token, ss_randomState := tk_nextRandomState token, ss_revision := ss_revision s + 1\<rparr>, success ()))"

definition schedule_reset :: "MediaRunningTime \<Rightarrow> u64 \<Rightarrow> u64 \<Rightarrow> MediaRtcpSenderReportSchedule \<Rightarrow> MediaRtcpSenderReportSchedule \<times> Status" where
  "schedule_reset activation generation randomSeed s =
     (if activation < 0 \<or> generation \<le> ss_generation s \<or> randomSeed = 0 \<or> ss_revision s = - 1 then (s, failure InvalidArgument)
      else
        (let state = nextRandomState randomSeed
         in case randomizedInterval (rp_initialBaseInterval (ss_reportingPolicy s)) state of
              Inl e \<Rightarrow> (s, failure e)
            | Inr interval \<Rightarrow>
                (case checkedAdd activation interval of
                   Inl e \<Rightarrow> (s, failure e)
                 | Inr deadline \<Rightarrow>
                     (s\<lparr>ss_nextDeadline := deadline, ss_generation := generation, ss_randomState := state, ss_revision := ss_revision s + 1\<rparr>, success ()))))"

section \<open>The random state is never zero\<close>

lemma push_bit_fixed: "push_bit k x = (x :: 'a::len word) \<Longrightarrow> 0 < k \<Longrightarrow> x = 0"
proof (rule bit_word_eqI)
  fix n
  assume fixed: "push_bit k x = x" and "0 < k"
  show "bit x n = bit 0 n"
  proof (induction n rule: less_induct)
    case (less n)
    have "bit x n \<longleftrightarrow> bit (push_bit k x) n" using fixed by simp
    then show ?case using less [of "n - k"] \<open>0 < k\<close> by (cases "k \<le> n") (auto simp: bit_simps)
  qed
qed

lemma drop_bit_fixed:
  assumes "drop_bit k x = (x :: 'a::len word)" and "0 < k"
  shows "x = 0"
proof (rule bit_word_eqI)
  fix n
  have "bit x n \<longleftrightarrow> bit x (n + j * k)" for j
  proof (induction j)
    case (Suc j)
    have "bit x (n + j * k) \<longleftrightarrow> bit (drop_bit k x) (n + j * k)" using assms(1) by simp
    then show ?case using Suc by (simp add: bit_drop_bit_eq add.commute add.left_commute)
  qed simp
  from this [of "LENGTH('a)"] have "bit x n \<longleftrightarrow> bit x (n + LENGTH('a) * k)" .
  moreover have "LENGTH('a) \<le> n + LENGTH('a) * k" using assms(2) by (cases k) simp_all
  ultimately show "bit x n = bit 0 n" using bit_imp_le_length [of x "n + LENGTH('a) * k"] by auto
qed

lemma nextRandomState_nonzero: "state \<noteq> 0 \<Longrightarrow> nextRandomState state \<noteq> 0"
  unfolding nextRandomState_def Let_def
  using push_bit_fixed [of 13 state] drop_bit_fixed [of 7 "state XOR push_bit 13 state"]
    push_bit_fixed [of 17 "(state XOR push_bit 13 state) XOR drop_bit 7 (state XOR push_bit 13 state)"]
  by (metis (no_types, lifting) bit.xor_left_self xor.right_neutral xor_self_eq zero_less_numeral)

section \<open>Intervals\<close>

definition interval_factor :: "u64 \<Rightarrow> nat" where
  "interval_factor randomState = 500000 + unat randomState mod 1000001"

lemma interval_factor_bounds: "500000 \<le> interval_factor s" "interval_factor s \<le> 1500000"
  by (simp_all add: interval_factor_def Suc_leI less_Suc_eq_le [symmetric])

lemma unat_factor: "unat (RandomFactorMinimum + randomState mod RandomFactorRange) = interval_factor randomState"
proof -
  have "unat (randomState mod RandomFactorRange) = unat randomState mod 1000001"
    by (simp add: unat_mod_distrib RandomFactorRange_def)
  then show ?thesis
    using interval_factor_bounds(2) [of randomState] by (subst unat_add64) (simp_all add: RandomFactorMinimum_def interval_factor_def)
qed

lemma randomizedInterval_exact:
  assumes "0 < base" and "base \<le> INT64_MAX" and "randomState \<noteq> 0"
  shows "randomizedInterval base randomState =
     (let interval = nat base * interval_factor randomState div 1218280
      in if 0 < interval \<and> int interval \<le> INT64_MAX then success (int interval) else failure InvalidArgument)"
proof -
  let ?f = "interval_factor randomState" and ?b = "nat base"
  let ?F = "RandomFactorMinimum + randomState mod RandomFactorRange" and ?B = "word_of_int base :: u64"
  define q r where "q = ?b div 1218280" and "r = ?b mod 1218280"
  have f: "500000 \<le> ?f" "?f \<le> 1500000" by (rule interval_factor_bounds)+
  have B: "unat ?B = ?b" using assms(1,2) by (intro unat_of_int64) (simp_all add: INT64_MAX_def)
  have Q: "unat (?B div CompensationDivisor) = q" "unat (?B mod CompensationDivisor) = r"
    by (simp_all add: unat_div_distrib unat_mod_distrib B CompensationDivisor_def q_def r_def)
  have M: "unat (word_of_int INT64_MAX :: u64) = 9223372036854775807" by (simp add: INT64_MAX_def)
  define x where "x = r * ?f div 1218280"
  have r: "r < 1218280" by (simp add: r_def)
  then have rf: "r * ?f < 1218280 * 1500001" using f by (intro mult_strict_mono') simp_all
  then have X: "unat ((?B mod CompensationDivisor) * ?F div CompensationDivisor) = x" "x \<le> 1500001"
    using Q(2) unat_factor [of randomState] by (simp_all add: unat_div_distrib unat_mult64 CompensationDivisor_def x_def)
  have split: "?b * ?f div 1218280 = q * ?f + x"
  proof -
    have b: "?b = r + q * 1218280" by (simp add: q_def r_def)
    have "?b * ?f = r * ?f + (q * ?f) * 1218280" unfolding b by (simp add: algebra_simps)
    then show ?thesis by (simp add: x_def)
  qed
  have overflow: "?B div CompensationDivisor > word_of_int INT64_MAX div ?F \<longleftrightarrow> q * ?f > 9223372036854775807"
    using f unfolding word_less_nat_alt Q(1) by (simp add: unat_div_distrib M unat_factor div_less_iff_less_mult)
  show ?thesis
  proof (cases "q * ?f > 9223372036854775807")
    case True
    then show ?thesis using assms overflow split by (simp add: randomizedInterval_def Let_def INT64_MAX_def)
  next
    case False
    let ?W = "(?B div CompensationDivisor) * ?F" and ?X = "(?B mod CompensationDivisor) * ?F div CompensationDivisor"
    have W: "unat ?W = q * ?f" using False by (simp add: unat_mult64 Q unat_factor)
    have "unat (word_of_int INT64_MAX - ?X) = 9223372036854775807 - x" using X M by (subst unat_sub) (simp_all add: word_le_nat_alt)
    then have late: "?W > word_of_int INT64_MAX - ?X \<longleftrightarrow> q * ?f + x > 9223372036854775807" using X(2) by (simp add: word_less_nat_alt W) linarith
    have sum: "unat (?W + ?X) = q * ?f + x" if "q * ?f + x \<le> 9223372036854775807" using that by (simp add: unat_add64 W X)
    then have "sint (?W + ?X) = int (q * ?f + x)" "?W + ?X = 0 \<longleftrightarrow> q * ?f + x = 0" if "q * ?f + x \<le> 9223372036854775807"
      using that sint_small [of "?W + ?X"] unsigned_eq_0_iff [of "?W + ?X", where 'a = nat] by simp_all
    then show ?thesis
      using assms False overflow late split by (simp add: randomizedInterval_def Let_def INT64_MAX_def)
  qed
qed

lemma interval_bounds:
  fixes b :: nat and state :: u64
  defines "interval \<equiv> b * interval_factor state div 1218280"
  shows "500000 * b < 1218280 * (interval + 1)" and "1218280 * interval \<le> 1500000 * b" and "3 \<le> b \<Longrightarrow> 0 < interval"
proof -
  define x m where "x = b * interval_factor state" and "m = x mod 1218280"
  have f: "500000 * b \<le> x" "x \<le> 1500000 * b"
    unfolding x_def using interval_factor_bounds [of state] by (simp_all add: mult.commute [of b])
  have "x = interval * 1218280 + m" by (simp add: interval_def x_def m_def)
  moreover have "m < 1218280" by (simp add: m_def)
  ultimately have d: "1218280 * interval \<le> x" "x < 1218280 * (interval + 1)" by simp_all
  show "500000 * b < 1218280 * (interval + 1)" using f(1) d(2) by (rule le_less_trans)
  show "1218280 * interval \<le> 1500000 * b" using d(1) f(2) by (rule le_trans)
  show "0 < interval" if "3 \<le> b"
  proof (rule ccontr)
    assume "\<not> 0 < interval"
    then have "x < 1218280" using d(2) by simp
    then show False using f(1) that by simp
  qed
qed

section \<open>Reports become due\<close>

text \<open>The schedules that creation, commits and resets give; the deadline in a token is a signed 64-bit count.\<close>

inductive schedule_reachable :: "MediaRtcpSenderReportSchedule \<Rightarrow> bool" where
  created: "schedule_create activation policy maximumLateness generation seed = success s \<Longrightarrow> in_int64 (rp_initialBaseInterval policy) \<Longrightarrow> schedule_reachable s"
| committed: "schedule_reachable s \<Longrightarrow> in_int64 (tk_nextDeadline token) \<Longrightarrow> schedule_commit token s = (s', r) \<Longrightarrow> schedule_reachable s'"
| reset: "schedule_reachable s \<Longrightarrow> schedule_reset activation generation seed s = (s', r) \<Longrightarrow> schedule_reachable s'"

definition schedule_ok :: "MediaRtcpSenderReportSchedule \<Rightarrow> bool" where
  "schedule_ok s \<longleftrightarrow>
     ss_randomState s \<noteq> 0 \<and> ss_generation s \<noteq> 0 \<and> 0 \<le> ss_nextDeadline s \<and> ss_nextDeadline s \<le> INT64_MAX \<and>
     rp_initialBaseInterval (ss_reportingPolicy s) \<le> INT64_MAX"

lemma randomizedInterval_positive:
  assumes "randomizedInterval base state = success interval" and "base \<le> INT64_MAX"
  shows "0 < interval"
proof -
  have "0 < base" "state \<noteq> 0" using assms(1) by (auto simp: randomizedInterval_def split: if_splits)
  then show ?thesis using randomizedInterval_exact [of base state] assms by (auto simp: Let_def split: if_splits)
qed

lemma checkedAdd_bounds: "checkedAdd a b = success c \<Longrightarrow> 0 < b \<Longrightarrow> c = a + b \<and> c \<le> INT64_MAX"
  by (auto simp: checkedAdd_def split: if_splits)

lemma initial_deadline:
  assumes "randomizedInterval base (nextRandomState seed) = success interval" and "base \<le> INT64_MAX" and "checkedAdd activation interval = success deadline"
    and "0 \<le> activation" and "seed \<noteq> 0"
  shows "0 \<le> deadline \<and> deadline \<le> INT64_MAX \<and> nextRandomState seed \<noteq> 0"
  using randomizedInterval_positive [OF assms(1,2)] checkedAdd_bounds [OF assms(3)] assms(4,5) nextRandomState_nonzero by auto

lemma reachable_schedule_ok: "schedule_reachable s \<Longrightarrow> schedule_ok s"
proof (induction rule: schedule_reachable.induct)
  case (created activation policy maximumLateness generation seed s)
  then show ?case
    using initial_deadline [of "rp_initialBaseInterval policy" seed _ activation]
    by (auto simp: schedule_create_def schedule_ok_def in_int64_def Let_def split: if_splits sum.splits)
next
  case (committed s token s' r)
  then show ?case by (auto simp: schedule_commit_def schedule_ok_def in_int64_def split: if_splits)
next
  case (reset s activation generation seed s' r)
  then show ?case
    using initial_deadline [of "rp_initialBaseInterval (ss_reportingPolicy s)" seed _ activation]
    by (auto simp: schedule_reset_def schedule_ok_def Let_def split: if_splits sum.splits)
qed

text \<open>
  A due sender report is never lost to the schedule: at any time between its deadline and its deadline plus the permitted
  lateness, a reachable schedule prepares a report for that very instant and accepts its token, and it accepts the token only once.
  The next report is then due between \<open>0.5 / 1.21828\<close> and \<open>1.5 / 1.21828\<close> of the steady interval later (rounded down to nanoseconds), and
  before that time none is prepared. The steady interval has at least three nanoseconds and twice of it fits the clock.
\<close>

theorem due_report_prepared:
  fixes s :: MediaRtcpSenderReportSchedule
  defines "steady \<equiv> rp_steadyBaseInterval (ss_reportingPolicy s)"
  assumes "schedule_reachable s" and "ss_revision s \<noteq> - 1"
    and "ss_nextDeadline s \<le> now" and "now - ss_nextDeadline s \<le> ss_maximumLateness s" and "3 \<le> steady" and "now + 2 * steady \<le> INT64_MAX"
  shows "\<exists>d s'. schedule_prepare now (ss_generation s) s = success (Some d) \<and> sd_reportInstant d = now \<and>
     schedule_commit (sd_commitToken d) s = (s', success ()) \<and> schedule_reachable s' \<and> schedule_commit (sd_commitToken d) s' = (s', failure InvalidArgument) \<and>
     500000 * steady < 1218280 * (ss_nextDeadline s' - now + 1) \<and> 1218280 * (ss_nextDeadline s' - now) \<le> 1500000 * steady \<and>
     (\<forall>later\<in>{0..<ss_nextDeadline s'}. ss_revision s' \<noteq> - 1 \<longrightarrow> schedule_prepare later (ss_generation s') s' = success None)"
proof -
  have ok: "schedule_ok s" by (rule reachable_schedule_ok [OF assms(2)])
  let ?state = "nextRandomState (ss_randomState s)"
  define interval where "interval = nat steady * interval_factor ?state div 1218280"
  have nonzero: "?state \<noteq> 0" using ok nextRandomState_nonzero by (simp add: schedule_ok_def)
  have bounds: "500000 * nat steady < 1218280 * (interval + 1)" "1218280 * interval \<le> 1500000 * nat steady" "0 < interval"
    using interval_bounds [of "nat steady" ?state] assms(6) by (simp_all add: interval_def)
  have "0 \<le> now" using ok assms(4) by (simp add: schedule_ok_def)
  have big: "int interval \<le> 2 * steady" using bounds(2) assms(6) by linarith
  have drawn: "randomizedInterval steady ?state = success (int interval)"
    using randomizedInterval_exact [of steady ?state] assms(6,7) nonzero bounds(3) big \<open>0 \<le> now\<close> by (simp add: interval_def Let_def)
  have sub: "checkedSubtract now (ss_nextDeadline s) = success (now - ss_nextDeadline s)"
    using ok assms(4) by (auto simp: checkedSubtract_def schedule_ok_def INT64_MIN_def)
  have add: "checkedAdd now (int interval) = success (now + int interval)"
    using assms(7) big by (auto simp: checkedAdd_def)
  let ?token = "\<lparr>tk_generation = ss_generation s, tk_revision = ss_revision s, tk_expectedDeadline = ss_nextDeadline s,
      tk_nextDeadline = now + int interval, tk_nextRandomState = ?state\<rparr>"
  let ?s' = "s\<lparr>ss_nextDeadline := now + int interval, ss_randomState := ?state, ss_revision := ss_revision s + 1\<rparr>"
  let ?d = "\<lparr>sd_scheduledDeadline = ss_nextDeadline s, sd_reportInstant = now, sd_nextDeadline = now + int interval, sd_lateness = now - ss_nextDeadline s,
      sd_skippedIntervals = 0, sd_commitToken = ?token\<rparr>"
  have prepared: "schedule_prepare now (ss_generation s) s = success (Some ?d)"
    using ok assms(3-5) \<open>0 \<le> now\<close> sub add drawn by (simp add: schedule_prepare_def schedule_ok_def Let_def flip: steady_def)
  have committed: "schedule_commit ?token s = (?s', success ())"
    using assms(3,4) bounds(3) nonzero by (simp add: schedule_commit_def)
  have "schedule_reachable ?s'"
    using assms(7) big \<open>0 \<le> now\<close> by (intro schedule_reachable.committed [OF assms(2) _ committed]) (simp add: in_int64_def INT64_MIN_def)
  moreover have "schedule_commit ?token ?s' = (?s', failure InvalidArgument)" by (simp add: schedule_commit_def)
  moreover have "\<forall>later\<in>{0..<ss_nextDeadline ?s'}. ss_revision ?s' \<noteq> - 1 \<longrightarrow> schedule_prepare later (ss_generation ?s') ?s' = success None"
    using ok by (simp add: schedule_prepare_def schedule_ok_def)
  moreover have "500000 * steady < 1218280 * (int interval + 1)" "1218280 * int interval \<le> 1500000 * steady"
    using bounds(1,2) assms(6) by (simp_all flip: of_nat_less_iff [where 'a = int] of_nat_le_iff [where 'a = int])
  ultimately show ?thesis using prepared committed by (intro exI [of _ ?d] exI [of _ ?s']) simp
qed

text \<open>A schedule with a steady interval of five seconds, activated at time zero.\<close>

definition sample_policy :: MediaRtcpReportingPolicy where
  "sample_policy =
     \<lparr>rp_facts = \<lparr>rf_maximumSessionMembers = 2, rf_activeSenders = 1, rf_sessionBandwidthBytesPerSecond = 100000, rf_compoundPacketBytes = 80,
        rf_membershipAuthority = ''sdp'', rf_bandwidthAuthority = ''plan''\<rparr>,
      rp_initialBaseInterval = 2500000000, rp_steadyBaseInterval = 5000000000, rp_minimumAdmissionInterval = 2500000000,
      rp_standardsAuthority = ''RFC3550''\<rparr>"

definition sample_schedule :: MediaRtcpSenderReportSchedule where
  "sample_schedule =
     \<lparr>ss_nextDeadline = 1577385740, ss_reportingPolicy = sample_policy, ss_maximumLateness = 1000000000, ss_generation = 1, ss_revision = 1,
      ss_randomState = 1082269761\<rparr>"

lemma sample_schedule_created: "schedule_create 0 sample_policy 1000000000 1 1 = success sample_schedule"
  by code_simp

theorem due_report_prepared_witness:
  "\<exists>d s'. schedule_prepare 2300000000 1 sample_schedule = success (Some d) \<and> schedule_commit (sd_commitToken d) sample_schedule = (s', success ())"
proof -
  have "schedule_reachable sample_schedule"
    by (rule schedule_reachable.created [OF sample_schedule_created]) (simp add: sample_policy_def in_int64_def INT64_MIN_def INT64_MAX_def)
  from due_report_prepared [OF this, of 2300000000] show ?thesis
    by (auto simp: sample_schedule_def sample_policy_def INT64_MAX_def)
qed

end
