(* ===== verification/Audio_Correction.thy ===== *)
theory Audio_Correction
  imports Running_Time "HOL-Library.Monad_Syntax"
begin

text \<open>
  \<^verbatim>\<open>sync/MediaAudioCorrection\<close> and \<^verbatim>\<open>sync/MediaAudioCorrectionQuantizer\<close>: compensation commands, and the quantizer that turns a correction in
  parts per million into windows of whole samples, carrying the rounding remainders from window to window.

  Signed arithmetic is done in the option monad: \<open>i64\<close> and \<open>i32\<close> give \<open>None\<close>, undefined behaviour, when a result leaves the type of its
  operands.
\<close>

section \<open>Signed arithmetic\<close>

definition in_int32 :: "int \<Rightarrow> bool" where
  "in_int32 x \<longleftrightarrow> - 2147483648 \<le> x \<and> x \<le> 2147483647"

definition i64 :: "int \<Rightarrow> int option" where
  "i64 x = (if in_int64 x then Some x else None)"

definition i32 :: "int \<Rightarrow> int option" where
  "i32 x = (if in_int32 x then Some x else None)"

text \<open>A cast to \<^verbatim>\<open>int\<close> and \<^verbatim>\<open>std::clamp\<close>, which is undefined when the bounds are crossed.\<close>

definition cast_int :: "int \<Rightarrow> int" where
  "cast_int x = signed_take_bit 31 x"

definition clamp :: "int \<Rightarrow> int \<Rightarrow> int \<Rightarrow> int option" where
  "clamp v low high = (if high < low then None else Some (if v < low then low else if high < v then high else v))"

lemma i64_Some [simp]: "in_int64 x \<Longrightarrow> i64 x = Some x"
  by (simp add: i64_def)

lemma i32_Some [simp]: "in_int32 x \<Longrightarrow> i32 x = Some x"
  by (simp add: i32_def)

lemma i64_eq_Some: "i64 x = Some y \<longleftrightarrow> in_int64 x \<and> y = x"
  by (auto simp: i64_def)

lemma in_int64_abs: "\<bar>x\<bar> \<le> 9223372036854775807 \<Longrightarrow> in_int64 x"
  by (auto simp: in_int64_def INT64_MIN_def INT64_MAX_def)

lemma in_int64_less: "\<bar>x\<bar> \<le> c \<Longrightarrow> c \<le> 9223372036854775807 \<Longrightarrow> in_int64 x"
  by (rule in_int64_abs) simp

lemma in_int32_int64: "in_int32 x \<Longrightarrow> in_int64 x"
  by (simp add: in_int32_def in_int64_def INT64_MIN_def INT64_MAX_def)

lemma cast_int_id [simp]: "in_int32 x \<Longrightarrow> cast_int x = x"
  unfolding cast_int_def in_int32_def by (rule signed_take_bit_int_eq_self) simp_all

lemma clamp_Some: "low \<le> high \<Longrightarrow> clamp v low high = Some (max low (min v high))"
  by (auto simp: clamp_def max_def min_def)

section \<open>Definitions\<close>

definition AudioNanosecondsPerSecond :: int where
  "AudioNanosecondsPerSecond = 1000000000"

definition PartsPerMillion :: int where
  "PartsPerMillion = 1000000"

definition INT32_MIN :: int where
  "INT32_MIN = - 2147483648"

record MediaAudioCompensationCommand =
  cc_generation :: u64
  cc_sequence :: u64
  cc_effectiveOutputSampleIndex :: int
  cc_stretchPpm :: int
  cc_sampleDelta :: int
  cc_compensationDistance :: int
  cc_filteredPhaseError :: MediaRunningTime
  cc_filteredFrequencyPpm :: int
  cc_integralPpm :: int
  cc_recovering :: bool

record MediaAudioCorrectionTelemetry =
  ct_filteredPhaseError :: MediaRunningTime
  ct_filteredFrequencyPpm :: int
  ct_integralPpm :: int
  ct_recovering :: bool

record MediaAudioCorrectionQuantizer =
  q_windowNs :: int
  q_outputSampleRate :: int
  q_leadSamples :: int
  q_nextPlannedEnd :: "int option"
  q_epochHasPublishedWindow :: bool
  q_windowRemainder :: int
  q_deltaRemainder :: int

definition quantizer_roundSignedRatio :: "int \<Rightarrow> int \<Rightarrow> int option" where
  "quantizer_roundSignedRatio numerator denominator =
     (if denominator = 0 \<or> (numerator = INT64_MIN \<and> denominator = - 1) then None
      else do {
        above \<leftarrow> i64 (denominator + 1);
        let half = tdiv above 2;
        if numerator \<ge> 0
        then i64 (tdiv numerator denominator + (if tmod numerator denominator \<ge> half then 1 else 0))
        else i64 (tdiv numerator denominator - (if - tmod numerator denominator \<ge> half then 1 else 0))
      })"

definition quantizer_create :: "MediaRunningTime \<Rightarrow> MediaRunningTime \<Rightarrow> int \<Rightarrow> MediaAudioCorrectionQuantizer Result option" where
  "quantizer_create compensationWindow commandLead outputSampleRate =
     (let windowNs = compensationWindow; leadNs = commandLead
      in if windowNs \<le> 0 \<or> leadNs \<le> 0 \<or> leadNs \<ge> windowNs \<or> outputSampleRate \<le> 0 \<or>
            windowNs > tdiv (INT64_MAX - AudioNanosecondsPerSecond) outputSampleRate
         then Some (failure InvalidArgument)
         else do {
           product \<leftarrow> i64 (windowNs * outputSampleRate);
           leadProduct \<leftarrow> i64 (leadNs * outputSampleRate);
           if product < AudioNanosecondsPerSecond \<or> tdiv product AudioNanosecondsPerSecond > INT32_MAX
           then Some (failure InvalidArgument)
           else do {
             raised \<leftarrow> i64 (leadProduct + AudioNanosecondsPerSecond);
             let leadSamples = tdiv (raised - 1) AudioNanosecondsPerSecond;
             if leadSamples \<le> 0 \<or> leadSamples \<ge> tdiv product AudioNanosecondsPerSecond then Some (failure InvalidArgument)
             else Some (success \<lparr>q_windowNs = windowNs, q_outputSampleRate = outputSampleRate, q_leadSamples = leadSamples,
               q_nextPlannedEnd = None, q_epochHasPublishedWindow = False, q_windowRemainder = 0, q_deltaRemainder = 0\<rparr>)
           }
         })"

definition quantizer_schedule ::
  "u64 \<Rightarrow> u64 \<Rightarrow> int \<Rightarrow> int \<Rightarrow> MediaAudioCorrectionTelemetry \<Rightarrow> MediaAudioCorrectionQuantizer \<Rightarrow>
   (MediaAudioCorrectionQuantizer \<times> MediaAudioCompensationCommand option Result) option" where
  "quantizer_schedule generation sequence observedOutputSampleIndex stretchPpm telemetry q =
     (if generation = 0 \<or> sequence = 0 \<or> observedOutputSampleIndex < 0 \<or> stretchPpm \<le> - PartsPerMillion
      then Some (q, failure InvalidArgument)
      else do {
        due \<leftarrow> (case q_nextPlannedEnd q of
                  None \<Rightarrow> Some True
                | Some end' \<Rightarrow>
                    (if q_epochHasPublishedWindow q then do { threshold \<leftarrow> i64 (end' - q_leadSamples q); Some (observedOutputSampleIndex \<ge> threshold) }
                     else Some True));
        if \<not> due then Some (q, success None)
        else do {
          let effective = (case q_nextPlannedEnd q of None \<Rightarrow> observedOutputSampleIndex | Some end' \<Rightarrow> end');
          window \<leftarrow> i64 (q_windowNs q * q_outputSampleRate q);
          windowNumerator \<leftarrow> i64 (window + q_windowRemainder q);
          nominal \<leftarrow> quantizer_roundSignedRatio windowNumerator AudioNanosecondsPerSecond;
          covered \<leftarrow> i64 (nominal * AudioNanosecondsPerSecond);
          nextWindowRemainder \<leftarrow> i64 (windowNumerator - covered);
          stretch \<leftarrow> i32 \<bar>stretchPpm\<bar>;
          if nominal \<le> 0 \<or> nominal > INT32_MAX \<or> nominal > tdiv (INT64_MAX - PartsPerMillion) (max 1 stretch)
          then Some (q, failure InvalidArgument)
          else do {
            scaled \<leftarrow> i64 (nominal * stretchPpm);
            deltaNumerator \<leftarrow> i64 (scaled + q_deltaRemainder q);
            delta \<leftarrow> quantizer_roundSignedRatio deltaNumerator PartsPerMillion;
            corrected \<leftarrow> i64 (delta * PartsPerMillion);
            nextDeltaRemainder \<leftarrow> i64 (deltaNumerator - corrected);
            distance \<leftarrow> i64 (nominal + delta);
            room \<leftarrow> (if delta < INT32_MIN \<or> delta > INT32_MAX \<or> distance \<le> 0 \<or> distance > INT32_MAX then Some False
                     else do { last_start \<leftarrow> i64 (INT64_MAX - distance); Some (effective \<le> last_start) });
            if \<not> room then Some (q, failure InvalidArgument)
            else do {
              planned \<leftarrow> i64 (effective + distance);
              Some (q\<lparr>q_windowRemainder := nextWindowRemainder, q_deltaRemainder := nextDeltaRemainder,
                      q_nextPlannedEnd := Some planned, q_epochHasPublishedWindow := True\<rparr>,
                    success (Some \<lparr>cc_generation = generation, cc_sequence = sequence, cc_effectiveOutputSampleIndex = effective,
                      cc_stretchPpm = stretchPpm, cc_sampleDelta = cast_int delta, cc_compensationDistance = cast_int distance,
                      cc_filteredPhaseError = ct_filteredPhaseError telemetry, cc_filteredFrequencyPpm = ct_filteredFrequencyPpm telemetry,
                      cc_integralPpm = ct_integralPpm telemetry, cc_recovering = ct_recovering telemetry\<rparr>))
            }
          }
        }
      })"

definition resetEpoch :: "int \<Rightarrow> MediaAudioCorrectionQuantizer \<Rightarrow> MediaAudioCorrectionQuantizer \<times> Status" where
  "resetEpoch epochOutputSampleIndex q =
     (if epochOutputSampleIndex < 0 then (q, failure InvalidArgument)
      else (q\<lparr>q_nextPlannedEnd := Some epochOutputSampleIndex, q_epochHasPublishedWindow := False, q_windowRemainder := 0, q_deltaRemainder := 0\<rparr>,
            success ()))"

section \<open>Rounding\<close>

text \<open>The nearest integer to a ratio; halves are rounded away from zero.\<close>

definition nearest :: "int \<Rightarrow> int \<Rightarrow> int" where
  "nearest n d = sgn n * ((2 * \<bar>n\<bar> + d) div (2 * d))"

lemma nearest_minus: "nearest (- n) d = - nearest n d"
  by (simp add: nearest_def sgn_minus)

lemma nearest_nonneg:
  assumes "0 \<le> n" and "0 < d"
  shows "nearest n d = n div d + (if (d + 1) div 2 \<le> n mod d then 1 else 0)"
proof -
  define q r where "q = n div d" and "r = n mod d"
  have n: "n = q * d + r" "0 \<le> r" "r < d" using assms by (simp_all add: q_def r_def)
  have "(2 * n + d) div (2 * d) = q + (2 * r + d) div (2 * d)"
  proof -
    have "2 * n + d = (2 * r + d) + q * (2 * d)" unfolding n(1) by (simp add: algebra_simps)
    then show ?thesis using div_mult_self1 [of "2 * d" "2 * r + d" q] assms(2) by (simp only:)
  qed
  moreover have "(2 * r + d) div (2 * d) = (if d \<le> 2 * r then 1 else 0)"
    using n assms by (auto simp: div_pos_pos_trivial intro: int_div_pos_eq [of _ _ _ "2 * r - d"])
  moreover have "d \<le> 2 * r \<longleftrightarrow> (d + 1) div 2 \<le> r" by presburger
  moreover have "nearest n d = (2 * n + d) div (2 * d)" using assms by (cases "n = 0") (simp_all add: nearest_def)
  ultimately show ?thesis by (simp add: q_def r_def)
qed

lemma nearest_error_nonneg:
  assumes "0 \<le> n" and "0 < d"
  shows "2 * \<bar>n - nearest n d * d\<bar> \<le> d"
proof -
  define q r where "q = n div d" and "r = n mod d"
  have n: "n = q * d + r" "0 \<le> r" "r < d" using assms by (simp_all add: q_def r_def)
  have "nearest n d = q + (if (d + 1) div 2 \<le> r then 1 else 0)" using nearest_nonneg [OF assms] by (simp add: q_def r_def)
  then have "n - nearest n d * d = (if (d + 1) div 2 \<le> r then r - d else r)" using n(1) by (simp add: algebra_simps)
  then show ?thesis using n(2,3) by auto
qed

lemma nearest_error: "0 < d \<Longrightarrow> 2 * \<bar>n - nearest n d * d\<bar> \<le> d"
  using nearest_error_nonneg [of n d] nearest_error_nonneg [of "- n" d]
  by (cases "0 \<le> n") (simp_all add: nearest_minus abs_minus_commute)

lemma nearest_sign_nonneg: "0 < d \<Longrightarrow> 0 \<le> n \<Longrightarrow> 0 \<le> nearest n d"
  using nearest_nonneg [of n d] by (simp add: pos_imp_zdiv_nonneg_iff)

lemma nearest_sign: "0 < d \<Longrightarrow> 0 \<le> n \<Longrightarrow> 0 \<le> nearest n d" "0 < d \<Longrightarrow> n \<le> 0 \<Longrightarrow> nearest n d \<le> 0"
  using nearest_sign_nonneg [of d n] nearest_sign_nonneg [of d "- n"] by (simp_all add: nearest_minus)

lemma nearest_abs:
  assumes "0 < d" and "\<bar>n\<bar> \<le> k * d"
  shows "\<bar>nearest n d\<bar> \<le> k"
proof (rule ccontr)
  assume "\<not> \<bar>nearest n d\<bar> \<le> k"
  then have "(k + 1) * d \<le> \<bar>nearest n d\<bar> * d" using assms(1) by (intro mult_right_mono) simp_all
  then have a: "k * d + d \<le> \<bar>nearest n d * d\<bar>" using assms(1) by (simp add: abs_mult distrib_right)
  have b: "\<bar>nearest n d * d\<bar> \<le> \<bar>n\<bar> + \<bar>n - nearest n d * d\<bar>" using abs_triangle_ineq4 [of n "n - nearest n d * d"] by simp
  have "False" if "k * d + d \<le> x" "x \<le> y + z" "2 * z \<le> d" "y \<le> k * d" for x y z using that assms(1) by linarith
  from this [OF a b nearest_error [OF assms(1)] assms(2)] show False .
qed

lemma nearest_abs_le: "0 < d \<Longrightarrow> \<bar>nearest n d\<bar> \<le> \<bar>n\<bar>"
  by (rule nearest_abs) (simp_all add: mult_le_cancel_left1)

lemma quantizer_round:
  assumes "in_int64 n" and "0 < d" and "d < INT64_MAX"
  shows "quantizer_roundSignedRatio n d = Some (nearest n d)"
proof -
  have d: "in_int64 (d + 1)" "tdiv (d + 1) 2 = (d + 1) div 2" using assms by (simp_all add: in_int64_def INT64_MIN_def INT64_MAX_def tdiv_nonneg)
  show ?thesis
  proof (cases "0 \<le> n")
    case True
    then have n: "tdiv n d = n div d" "tmod n d = n mod d" using assms(2) by (simp_all add: tmod_def tdiv_nonneg minus_div_mult_eq_mod)
    have "in_int64 (nearest n d)" using assms True nearest_sign(1) [of d n] nearest_abs_le [of d n] by (simp add: in_int64_def INT64_MIN_def)
    then show ?thesis using True assms d n nearest_nonneg [OF True assms(2)] by (simp add: quantizer_roundSignedRatio_def INT64_MIN_def)
  next
    case False
    define m where "m = - n"
    have m: "0 \<le> m" "n = - m" using False by (simp_all add: m_def)
    have t: "tdiv n d = - (m div d)" "tmod n d = - (m mod d)"
      using m assms(2) unfolding m(2) tdiv_minus tmod_minus by (simp_all add: tmod_def tdiv_nonneg minus_div_mult_eq_mod)
    have "in_int64 (nearest n d)"
      using assms False nearest_sign(2) [of d n] nearest_abs_le [of d n] by (auto simp: in_int64_def INT64_MIN_def INT64_MAX_def)
    then show ?thesis
      using False assms d t nearest_nonneg [OF m(1) assms(2)] nearest_minus [of m d] m(2)
      by (simp add: quantizer_roundSignedRatio_def INT64_MIN_def split: if_splits)
  qed
qed

section \<open>The windows of an epoch\<close>

text \<open>A quantizer and the commands it has published since the start of its epoch.\<close>

datatype QuantizerCall =
    CallSchedule u64 u64 int int MediaAudioCorrectionTelemetry
  | CallResetEpoch int

fun quantizer_call ::
  "QuantizerCall \<Rightarrow> MediaAudioCorrectionQuantizer \<times> MediaAudioCompensationCommand list \<Rightarrow>
   (MediaAudioCorrectionQuantizer \<times> MediaAudioCompensationCommand list) option" where
  "quantizer_call (CallSchedule generation sequence observed stretch telemetry) (q, commands) =
     (case quantizer_schedule generation sequence observed stretch telemetry q of
        None \<Rightarrow> None
      | Some (q, Inr (Some command)) \<Rightarrow> Some (q, commands @ [command])
      | Some (q, _) \<Rightarrow> Some (q, commands))"
| "quantizer_call (CallResetEpoch index) (q, commands) =
     (case resetEpoch index q of (q, Inl _) \<Rightarrow> Some (q, commands) | (q, Inr _) \<Rightarrow> Some (q, []))"

fun quantizer_run ::
  "QuantizerCall list \<Rightarrow> MediaAudioCorrectionQuantizer \<times> MediaAudioCompensationCommand list \<Rightarrow>
   (MediaAudioCorrectionQuantizer \<times> MediaAudioCompensationCommand list) option" where
  "quantizer_run [] s = Some s"
| "quantizer_run (call # calls) s = do { s \<leftarrow> quantizer_call call s; quantizer_run calls s }"

text \<open>The arguments of a call are values of their C++ types.\<close>

fun call_typed :: "QuantizerCall \<Rightarrow> bool" where
  "call_typed (CallSchedule generation sequence observed stretch telemetry) \<longleftrightarrow> in_int64 observed \<and> in_int32 stretch"
| "call_typed (CallResetEpoch index) \<longleftrightarrow> in_int64 index"

abbreviation cc_nominal :: "MediaAudioCompensationCommand \<Rightarrow> int" where
  "cc_nominal c \<equiv> cc_compensationDistance c - cc_sampleDelta c"

fun contiguous :: "MediaAudioCompensationCommand list \<Rightarrow> bool" where
  "contiguous (c # d # cs) \<longleftrightarrow>
     cc_effectiveOutputSampleIndex d = cc_effectiveOutputSampleIndex c + cc_compensationDistance c \<and> contiguous (d # cs)"
| "contiguous _ \<longleftrightarrow> True"

definition quantizer_ok :: "MediaAudioCorrectionQuantizer \<Rightarrow> bool" where
  "quantizer_ok q \<longleftrightarrow>
     0 < q_windowNs q \<and> 0 < q_outputSampleRate q \<and> q_windowNs q * q_outputSampleRate q \<le> INT64_MAX - AudioNanosecondsPerSecond \<and>
     0 < q_leadSamples q \<and> q_leadSamples q \<le> INT32_MAX \<and>
     2 * \<bar>q_windowRemainder q\<bar> \<le> AudioNanosecondsPerSecond \<and> 2 * \<bar>q_deltaRemainder q\<bar> \<le> PartsPerMillion \<and>
     (\<forall>e. q_nextPlannedEnd q = Some e \<longrightarrow> 0 \<le> e \<and> e \<le> INT64_MAX)"

lemmas quantizer_constants = AudioNanosecondsPerSecond_def PartsPerMillion_def INT64_MIN_def INT64_MAX_def INT32_MIN_def INT32_MAX_def

definition epoch_exact :: "MediaAudioCorrectionQuantizer \<times> MediaAudioCompensationCommand list \<Rightarrow> bool" where
  "epoch_exact s \<longleftrightarrow>
     (case s of (q, commands) \<Rightarrow>
        quantizer_ok q \<and> contiguous commands \<and> (q_epochHasPublishedWindow q \<longleftrightarrow> commands \<noteq> []) \<and>
        (commands \<noteq> [] \<longrightarrow> q_nextPlannedEnd q = Some (cc_effectiveOutputSampleIndex (last commands) + cc_compensationDistance (last commands))) \<and>
        sum_list (map cc_nominal commands) * AudioNanosecondsPerSecond + q_windowRemainder q = int (length commands) * (q_windowNs q * q_outputSampleRate q) \<and>
        sum_list (map cc_sampleDelta commands) * PartsPerMillion + q_deltaRemainder q = (\<Sum>c\<leftarrow>commands. cc_nominal c * cc_stretchPpm c) \<and>
        (\<forall>c\<in>set commands. 0 < cc_compensationDistance c \<and> 0 < cc_nominal c))"

lemma window_product:
  assumes "0 < rate" and "\<not> window > tdiv (INT64_MAX - AudioNanosecondsPerSecond) rate"
  shows "window * rate \<le> INT64_MAX - AudioNanosecondsPerSecond"
proof -
  have "window \<le> (INT64_MAX - AudioNanosecondsPerSecond) div rate" using assms tdiv_nonneg [of "INT64_MAX - AudioNanosecondsPerSecond" rate]
    by (simp add: quantizer_constants)
  then have "window * rate \<le> (INT64_MAX - AudioNanosecondsPerSecond) div rate * rate" using assms(1) by (intro mult_right_mono) simp_all
  also have "\<dots> \<le> INT64_MAX - AudioNanosecondsPerSecond" using assms(1) by (simp add: minus_mod_eq_div_mult [symmetric])
  finally show ?thesis .
qed

lemma created_quantizer:
  assumes "quantizer_create window lead rate = Some (success q)"
  shows "epoch_exact (q, []) \<and> q_windowNs q = window \<and> q_outputSampleRate q = rate"
proof -
  have guard: "0 < window" "0 < lead" "lead < window" "0 < rate" "\<not> window > tdiv (INT64_MAX - AudioNanosecondsPerSecond) rate"
    using assms by (auto simp: quantizer_create_def Let_def split: if_splits)
  show ?thesis
    using assms guard window_product [OF guard(4,5)]
    by (auto simp: quantizer_create_def Let_def epoch_exact_def quantizer_ok_def i64_def quantizer_constants bind_eq_Some_conv split: if_splits)
qed

definition scheduled_start :: "int \<Rightarrow> MediaAudioCorrectionQuantizer \<Rightarrow> int" where
  "scheduled_start observed q = (case q_nextPlannedEnd q of None \<Rightarrow> observed | Some e \<Rightarrow> e)"

definition scheduled_nominal :: "MediaAudioCorrectionQuantizer \<Rightarrow> int" where
  "scheduled_nominal q = nearest (q_windowNs q * q_outputSampleRate q + q_windowRemainder q) AudioNanosecondsPerSecond"

definition scheduled_delta :: "int \<Rightarrow> MediaAudioCorrectionQuantizer \<Rightarrow> int" where
  "scheduled_delta stretch q = nearest (scheduled_nominal q * stretch + q_deltaRemainder q) PartsPerMillion"

text \<open>What a call of \<^verbatim>\<open>schedule\<close> computes, without the overflow checks.\<close>

definition schedule_outcome ::
  "u64 \<Rightarrow> u64 \<Rightarrow> int \<Rightarrow> int \<Rightarrow> MediaAudioCorrectionTelemetry \<Rightarrow> MediaAudioCorrectionQuantizer \<Rightarrow>
   MediaAudioCorrectionQuantizer \<times> MediaAudioCompensationCommand option Result" where
  "schedule_outcome generation sequence observed stretch telemetry q =
     (let start = scheduled_start observed q; nominal = scheduled_nominal q; delta = scheduled_delta stretch q
      in if generation = 0 \<or> sequence = 0 \<or> observed < 0 \<or> stretch \<le> - PartsPerMillion then (q, failure InvalidArgument)
         else if q_epochHasPublishedWindow q \<and> (\<exists>e. q_nextPlannedEnd q = Some e \<and> observed < e - q_leadSamples q) then (q, success None)
         else if nominal \<le> 0 \<or> nominal > INT32_MAX \<or> nominal > (INT64_MAX - PartsPerMillion) div max 1 \<bar>stretch\<bar> \<or>
                 delta < INT32_MIN \<or> delta > INT32_MAX \<or> nominal + delta \<le> 0 \<or> nominal + delta > INT32_MAX \<or> start > INT64_MAX - (nominal + delta)
         then (q, failure InvalidArgument)
         else (q\<lparr>q_windowRemainder := q_windowNs q * q_outputSampleRate q + q_windowRemainder q - nominal * AudioNanosecondsPerSecond,
                 q_deltaRemainder := nominal * stretch + q_deltaRemainder q - delta * PartsPerMillion,
                 q_nextPlannedEnd := Some (start + (nominal + delta)), q_epochHasPublishedWindow := True\<rparr>,
               success (Some \<lparr>cc_generation = generation, cc_sequence = sequence, cc_effectiveOutputSampleIndex = start, cc_stretchPpm = stretch,
                 cc_sampleDelta = delta, cc_compensationDistance = nominal + delta, cc_filteredPhaseError = ct_filteredPhaseError telemetry,
                 cc_filteredFrequencyPpm = ct_filteredFrequencyPpm telemetry, cc_integralPpm = ct_integralPpm telemetry,
                 cc_recovering = ct_recovering telemetry\<rparr>)))"

lemma window_in_range:
  assumes "quantizer_ok q"
  defines "W \<equiv> q_windowNs q * q_outputSampleRate q"
  defines "N \<equiv> scheduled_nominal q"
  shows "in_int64 W" "in_int64 (W + q_windowRemainder q)" "quantizer_roundSignedRatio (W + q_windowRemainder q) AudioNanosecondsPerSecond = Some N"
    "in_int64 (N * AudioNanosecondsPerSecond)" "in_int64 (W + q_windowRemainder q - N * AudioNanosecondsPerSecond)"
proof -
  have W: "0 < W" "W \<le> INT64_MAX - AudioNanosecondsPerSecond" using assms(1) by (simp_all add: quantizer_ok_def W_def)
  have r: "2 * \<bar>q_windowRemainder q\<bar> \<le> AudioNanosecondsPerSecond" using assms(1) by (simp add: quantizer_ok_def)
  show a: "in_int64 W" "in_int64 (W + q_windowRemainder q)" using W r by (auto simp: in_int64_def quantizer_constants)
  show "quantizer_roundSignedRatio (W + q_windowRemainder q) AudioNanosecondsPerSecond = Some N"
    unfolding N_def scheduled_nominal_def W_def [symmetric] by (rule quantizer_round [OF a(2)]) (simp_all add: quantizer_constants)
  have e: "2 * \<bar>(W + q_windowRemainder q) - N * AudioNanosecondsPerSecond\<bar> \<le> AudioNanosecondsPerSecond"
    unfolding N_def scheduled_nominal_def W_def [symmetric] by (rule nearest_error) (simp add: quantizer_constants)
  then show "in_int64 (W + q_windowRemainder q - N * AudioNanosecondsPerSecond)" by (auto simp: in_int64_def quantizer_constants)
  show "in_int64 (N * AudioNanosecondsPerSecond)" using e W r by (auto simp: in_int64_def quantizer_constants)
qed

lemma delta_in_range:
  assumes "quantizer_ok q" and "in_int32 stretch" and "0 < scheduled_nominal q" and "scheduled_nominal q \<le> INT32_MAX"
    and "scheduled_nominal q \<le> (INT64_MAX - PartsPerMillion) div max 1 \<bar>stretch\<bar>"
  defines "N \<equiv> scheduled_nominal q"
  defines "D \<equiv> scheduled_delta stretch q"
  shows "in_int64 (N * stretch)" "in_int64 (N * stretch + q_deltaRemainder q)"
    "quantizer_roundSignedRatio (N * stretch + q_deltaRemainder q) PartsPerMillion = Some D"
    "in_int64 (D * PartsPerMillion)" "in_int64 (N * stretch + q_deltaRemainder q - D * PartsPerMillion)" "in_int64 (N + D)"
proof -
  have "N * max 1 \<bar>stretch\<bar> \<le> (INT64_MAX - PartsPerMillion) div max 1 \<bar>stretch\<bar> * max 1 \<bar>stretch\<bar>"
    using assms(5) unfolding N_def by (intro mult_right_mono) simp_all
  also have "\<dots> \<le> INT64_MAX - PartsPerMillion" by (simp add: minus_mod_eq_div_mult [symmetric])
  finally have bound: "N * max 1 \<bar>stretch\<bar> \<le> INT64_MAX - PartsPerMillion" .
  have "\<bar>N * stretch\<bar> \<le> N * max 1 \<bar>stretch\<bar>" using assms(3) by (simp add: abs_mult N_def mult_left_mono)
  then have s: "\<bar>N * stretch\<bar> \<le> INT64_MAX - PartsPerMillion" using bound by (rule order_trans)
  have r: "2 * \<bar>q_deltaRemainder q\<bar> \<le> PartsPerMillion" using assms(1) by (simp add: quantizer_ok_def)
  show a: "in_int64 (N * stretch)" "in_int64 (N * stretch + q_deltaRemainder q)" using s r by (auto simp: in_int64_def quantizer_constants)
  show "quantizer_roundSignedRatio (N * stretch + q_deltaRemainder q) PartsPerMillion = Some D"
    unfolding D_def scheduled_delta_def N_def [symmetric] by (rule quantizer_round [OF a(2)]) (simp_all add: quantizer_constants)
  have e: "2 * \<bar>(N * stretch + q_deltaRemainder q) - D * PartsPerMillion\<bar> \<le> PartsPerMillion"
    unfolding D_def scheduled_delta_def N_def [symmetric] by (rule nearest_error) (simp add: quantizer_constants)
  then show "in_int64 (N * stretch + q_deltaRemainder q - D * PartsPerMillion)" by (auto simp: in_int64_def quantizer_constants)
  show d: "in_int64 (D * PartsPerMillion)" using e s r by (auto simp: in_int64_def quantizer_constants)
  show "in_int64 (N + D)" using d assms(3,4) by (auto simp: in_int64_def quantizer_constants N_def)
qed

lemma quantizer_schedule_eq:
  assumes "quantizer_ok q" and "in_int64 observed" and "in_int32 stretch"
  shows "quantizer_schedule generation sequence observed stretch telemetry q = Some (schedule_outcome generation sequence observed stretch telemetry q)"
proof (cases "generation = 0 \<or> sequence = 0 \<or> observed < 0 \<or> stretch \<le> - PartsPerMillion")
  case True
  then show ?thesis by (auto simp: quantizer_schedule_def schedule_outcome_def Let_def)
next
  case valid: False
  have ends: "in_int64 (e - q_leadSamples q)" if "q_nextPlannedEnd q = Some e" for e
    using assms(1) that by (auto simp: quantizer_ok_def in_int64_def quantizer_constants)
  have due: "(case q_nextPlannedEnd q of
        None \<Rightarrow> Some True
      | Some e \<Rightarrow> (if q_epochHasPublishedWindow q then do { threshold \<leftarrow> i64 (e - q_leadSamples q); Some (observed \<ge> threshold) } else Some True)) =
      Some (\<not> (q_epochHasPublishedWindow q \<and> (\<exists>e. q_nextPlannedEnd q = Some e \<and> observed < e - q_leadSamples q)))"
    using ends by (auto split: option.splits)
  show ?thesis
  proof (cases "q_epochHasPublishedWindow q \<and> (\<exists>e. q_nextPlannedEnd q = Some e \<and> observed < e - q_leadSamples q)")
    case True
    then show ?thesis using valid by (simp add: quantizer_schedule_def schedule_outcome_def Let_def due del: not_ex)
  next
    case False
    let ?N = "scheduled_nominal q" and ?D = "scheduled_delta stretch q"
    have abs: "in_int32 \<bar>stretch\<bar>" using assms(3) valid by (auto simp: in_int32_def quantizer_constants)
    have quotient: "tdiv (INT64_MAX - PartsPerMillion) (max 1 \<bar>stretch\<bar>) = (INT64_MAX - PartsPerMillion) div max 1 \<bar>stretch\<bar>"
      by (rule tdiv_nonneg) (simp_all add: quantizer_constants)
    show ?thesis
    proof (cases "?N \<le> 0 \<or> ?N > INT32_MAX \<or> ?N > (INT64_MAX - PartsPerMillion) div max 1 \<bar>stretch\<bar>")
      case True
      then show ?thesis using valid False
        by (simp add: quantizer_schedule_def schedule_outcome_def Let_def due window_in_range [OF assms(1)] abs quotient del: not_ex) blast
    next
      case fits: False
      then have N: "0 < ?N" "?N \<le> INT32_MAX" "?N \<le> (INT64_MAX - PartsPerMillion) div max 1 \<bar>stretch\<bar>" by simp_all
      note D = delta_in_range [OF assms(1,3) N]
      have start: "0 \<le> scheduled_start observed q" "scheduled_start observed q \<le> INT64_MAX"
        using assms(1,2) valid by (auto simp: scheduled_start_def quantizer_ok_def in_int64_def split: option.splits)
      show ?thesis
      proof (cases "?D < INT32_MIN \<or> ?D > INT32_MAX \<or> ?N + ?D \<le> 0 \<or> ?N + ?D > INT32_MAX")
        case True
        then show ?thesis using valid False fits
          by (simp add: quantizer_schedule_def schedule_outcome_def Let_def due window_in_range [OF assms(1)] abs quotient D del: not_ex) blast
      next
        case small: False
        have "in_int32 ?D" "in_int32 (?N + ?D)" using small by (simp_all add: in_int32_def quantizer_constants)
        moreover have "in_int64 (INT64_MAX - (?N + ?D))" using small by (simp add: in_int64_def quantizer_constants)
        moreover have "in_int64 (scheduled_start observed q + (?N + ?D))" if "\<not> scheduled_start observed q > INT64_MAX - (?N + ?D)"
          using that small start by (simp add: in_int64_def quantizer_constants)
        moreover have "scheduled_start observed q = (case q_nextPlannedEnd q of None \<Rightarrow> observed | Some e \<Rightarrow> e)" by (simp add: scheduled_start_def)
        ultimately show ?thesis using valid False fits small
          by (simp add: quantizer_schedule_def schedule_outcome_def Let_def due window_in_range [OF assms(1)] abs quotient D not_less del: not_ex)
      qed
    qed
  qed
qed

lemma contiguous_append:
  "contiguous (cs @ [c]) \<longleftrightarrow>
     contiguous cs \<and> (cs \<noteq> [] \<longrightarrow> cc_effectiveOutputSampleIndex c = cc_effectiveOutputSampleIndex (last cs) + cc_compensationDistance (last cs))"
  by (induction cs rule: contiguous.induct) auto

lemma schedule_outcome_cases:
  fixes q :: MediaAudioCorrectionQuantizer
  defines "N \<equiv> scheduled_nominal q"
  assumes "schedule_outcome generation sequence observed stretch telemetry q = (q', r)"
  obtains (none) "q' = q" "\<And>c. r \<noteq> Inr (Some c)"
  | (published) c D where "D = scheduled_delta stretch q" "r = Inr (Some c)" "0 \<le> observed" "0 < N" "0 < N + D" "scheduled_start observed q + (N + D) \<le> INT64_MAX"
      "cc_effectiveOutputSampleIndex c = scheduled_start observed q" "cc_stretchPpm c = stretch" "cc_sampleDelta c = D" "cc_compensationDistance c = N + D"
      "q' = q\<lparr>q_windowRemainder := q_windowNs q * q_outputSampleRate q + q_windowRemainder q - N * AudioNanosecondsPerSecond,
             q_deltaRemainder := N * stretch + q_deltaRemainder q - D * PartsPerMillion,
             q_nextPlannedEnd := Some (scheduled_start observed q + (N + D)), q_epochHasPublishedWindow := True\<rparr>"
proof (cases "\<exists>c. r = Inr (Some c)")
  case True
  then show ?thesis using published [of "scheduled_delta stretch q"] assms(2) by (auto simp: schedule_outcome_def Let_def N_def split: if_splits)
next
  case False
  then show ?thesis using none assms(2) by (auto simp: schedule_outcome_def Let_def split: if_splits)
qed

lemma scheduled_remainders:
  "2 * \<bar>q_windowNs q * q_outputSampleRate q + q_windowRemainder q - scheduled_nominal q * AudioNanosecondsPerSecond\<bar> \<le> AudioNanosecondsPerSecond"
  "2 * \<bar>scheduled_nominal q * stretch + q_deltaRemainder q - scheduled_delta stretch q * PartsPerMillion\<bar> \<le> PartsPerMillion"
  unfolding scheduled_nominal_def scheduled_delta_def by (rule nearest_error; simp add: quantizer_constants)+

lemma schedule_outcome_ok:
  assumes "quantizer_ok q" and "schedule_outcome generation sequence observed stretch telemetry q = (q', r)"
  shows "quantizer_ok q' \<and> q_windowNs q' = q_windowNs q \<and> q_outputSampleRate q' = q_outputSampleRate q \<and> q_leadSamples q' = q_leadSamples q"
  using assms(2)
proof (cases rule: schedule_outcome_cases)
  case none
  then show ?thesis using assms(1) by simp
next
  case (published c D)
  have "0 \<le> scheduled_start observed q"
    using assms(1) published(3) by (auto simp: scheduled_start_def quantizer_ok_def split: option.splits)
  then show ?thesis using assms(1) published(4-6) scheduled_remainders [of q] unfolding published(1,11) by (simp add: quantizer_ok_def)
qed

lemma schedule_exact:
  assumes "epoch_exact (q, commands)" and "in_int64 observed" and "in_int32 stretch"
  shows "\<exists>q' commands'. quantizer_call (CallSchedule generation sequence observed stretch telemetry) (q, commands) = Some (q', commands') \<and>
    epoch_exact (q', commands') \<and> q_windowNs q' = q_windowNs q \<and> q_outputSampleRate q' = q_outputSampleRate q"
proof -
  have ok: "quantizer_ok q" using assms(1) by (simp add: epoch_exact_def)
  obtain q' r where o: "schedule_outcome generation sequence observed stretch telemetry q = (q', r)" by fastforce
  note same = schedule_outcome_ok [OF ok o]
  have eq: "quantizer_schedule generation sequence observed stretch telemetry q = Some (q', r)"
    using quantizer_schedule_eq [OF ok assms(2,3)] o by simp
  from o show ?thesis
  proof (cases rule: schedule_outcome_cases)
    case none
    then show ?thesis using eq assms(1) by (auto split: sum.splits option.splits)
  next
    case (published c D)
    have start: "scheduled_start observed q = cc_effectiveOutputSampleIndex (last commands) + cc_compensationDistance (last commands)" if "commands \<noteq> []"
      using assms(1) that by (simp add: epoch_exact_def scheduled_start_def)
    have "epoch_exact (q', commands @ [c])"
      using assms(1) same published(4,5,7-10) start unfolding epoch_exact_def published(11) by (simp add: contiguous_append algebra_simps)
    then show ?thesis using eq published(2) same by simp
  qed
qed

lemma reset_exact:
  assumes "epoch_exact (q, commands)" and "in_int64 index"
  shows "\<exists>q' commands'. quantizer_call (CallResetEpoch index) (q, commands) = Some (q', commands') \<and>
    epoch_exact (q', commands') \<and> q_windowNs q' = q_windowNs q \<and> q_outputSampleRate q' = q_outputSampleRate q"
  using assms by (auto simp: resetEpoch_def epoch_exact_def quantizer_ok_def in_int64_def)

lemma quantizer_run_exact:
  assumes "epoch_exact s" and "list_all call_typed calls"
  shows "\<exists>q commands. quantizer_run calls s = Some (q, commands) \<and> epoch_exact (q, commands) \<and>
    q_windowNs q = q_windowNs (fst s) \<and> q_outputSampleRate q = q_outputSampleRate (fst s)"
  using assms
proof (induction calls arbitrary: s)
  case (Cons call calls)
  obtain q commands where s: "s = (q, commands)" by fastforce
  obtain q' commands' where step: "quantizer_call call s = Some (q', commands')" "epoch_exact (q', commands')"
      "q_windowNs q' = q_windowNs q" "q_outputSampleRate q' = q_outputSampleRate q"
  proof (cases call)
    case (CallSchedule generation sequence observed stretch telemetry)
    then show ?thesis using that schedule_exact [of q commands observed stretch generation sequence telemetry] Cons.prems unfolding s by auto
  next
    case (CallResetEpoch index)
    then show ?thesis using that reset_exact [of q commands index] Cons.prems unfolding s by auto
  qed
  then show ?case using Cons.IH [OF step(2)] Cons.prems(2) by (auto simp: s)
qed (metis prod.collapse quantizer_run.simps(1))

text \<open>
  C34. Rounding never accumulates. Whatever measurements are scheduled and whenever epochs are reset, the quantizer computes without
  overflow, and the compensation windows it has published in the current epoch follow each other without gap or overlap; the nominal
  samples of \<open>n\<close> windows differ from \<open>n\<close> times the exact window length by at most half a sample; and the samples inserted or removed differ
  by at most half a sample from the sum of the exact corrections requested for these windows.
\<close>

theorem correction_windows_exact:
  assumes "quantizer_create window lead rate = Some (success q0)" and "list_all call_typed calls"
  shows "\<exists>q commands. quantizer_run calls (q0, []) = Some (q, commands) \<and> contiguous commands \<and>
     2 * \<bar>sum_list (map cc_nominal commands) * AudioNanosecondsPerSecond - int (length commands) * (window * rate)\<bar> \<le> AudioNanosecondsPerSecond \<and>
     2 * \<bar>sum_list (map cc_sampleDelta commands) * PartsPerMillion - (\<Sum>c\<leftarrow>commands. cc_nominal c * cc_stretchPpm c)\<bar> \<le> PartsPerMillion"
proof -
  have created: "epoch_exact (q0, [])" "q_windowNs q0 = window" "q_outputSampleRate q0 = rate" using created_quantizer [OF assms(1)] by simp_all
  obtain q commands where run: "quantizer_run calls (q0, []) = Some (q, commands)" "epoch_exact (q, commands)"
      "q_windowNs q = window" "q_outputSampleRate q = rate"
    using quantizer_run_exact [OF created(1) assms(2)] created(2,3) by auto
  have w: "sum_list (map cc_nominal commands) * AudioNanosecondsPerSecond - int (length commands) * (window * rate) = - q_windowRemainder q"
    using run(2-4) by (simp add: epoch_exact_def)
  have d: "sum_list (map cc_sampleDelta commands) * PartsPerMillion - (\<Sum>c\<leftarrow>commands. cc_nominal c * cc_stretchPpm c) = - q_deltaRemainder q"
    using run(2) by (simp add: epoch_exact_def)
  show ?thesis
    using run(1,2) unfolding epoch_exact_def quantizer_ok_def by (intro exI [of _ q] exI [of _ commands]) (simp add: w d)
qed

text \<open>Windows of 10 ms at 44100 samples a second: two of them, corrected by 1000 and by -3000 parts per million.\<close>

definition sample_calls :: "QuantizerCall list" where
  "sample_calls =
     (let telemetry = \<lparr>ct_filteredPhaseError = 0, ct_filteredFrequencyPpm = 0, ct_integralPpm = 0, ct_recovering = False\<rparr>
      in [CallSchedule 1 1 0 1000 telemetry, CallSchedule 1 2 100 500 telemetry, CallSchedule 1 3 440 (- 3000) telemetry])"

theorem correction_windows_exact_witness:
  "\<exists>q commands. quantizer_run sample_calls (projr (the (quantizer_create 10000000 5000000 44100)), []) = Some (q, commands) \<and> contiguous commands \<and>
     map cc_compensationDistance commands = [441, 440]"
proof -
  have created: "quantizer_create 10000000 5000000 44100 = Some (success (projr (the (quantizer_create 10000000 5000000 44100))))"
    by code_simp
  have typed: "list_all call_typed sample_calls" by code_simp
  have "map_option (map cc_compensationDistance \<circ> snd) (quantizer_run sample_calls (projr (the (quantizer_create 10000000 5000000 44100)), [])) = Some [441, 440]"
    by code_simp
  then show ?thesis using correction_windows_exact [OF created typed] by auto
qed

end
