(* ===== verification/Audio_Drift_Servo.thy ===== *)
theory Audio_Drift_Servo
  imports Audio_Correction Sync_Error
begin

text \<open>
  \<^verbatim>\<open>sync/MediaAudioDriftServo\<close>: the controller that measures how far audio drifts from the master clock and stretches it by a bounded number
  of parts per million. Signed arithmetic is in the option monad, as in \<^verbatim>\<open>Audio_Correction\<close>; \<^verbatim>\<open>int\<close> and \<^verbatim>\<open>int64_t\<close> fields are integers.
\<close>

section \<open>Definitions\<close>

datatype MediaAudioServoDecisionKind = ServoNone | ServoApply | ServoReacquire | ServoDropOldGeneration

record MediaAudioServoDecision =
  asd_kind :: MediaAudioServoDecisionKind
  asd_generation :: u64
  asd_sequence :: u64
  asd_effectiveOutputSampleIndex :: int
  asd_filteredPhaseError :: MediaRunningTime
  asd_filteredFrequencyPpm :: int
  asd_integralPpm :: int
  asd_recovering :: bool
  asd_command :: "MediaAudioCompensationCommand option"

definition decision_none :: "u64 \<Rightarrow> u64 \<Rightarrow> int \<Rightarrow> MediaRunningTime \<Rightarrow> int \<Rightarrow> int \<Rightarrow> bool \<Rightarrow> MediaAudioServoDecision" where
  "decision_none generation sequence index phase frequency integral recovering =
     \<lparr>asd_kind = ServoNone, asd_generation = generation, asd_sequence = sequence, asd_effectiveOutputSampleIndex = index,
      asd_filteredPhaseError = phase, asd_filteredFrequencyPpm = frequency, asd_integralPpm = integral, asd_recovering = recovering, asd_command = None\<rparr>"

definition decision_apply :: "MediaAudioCompensationCommand \<Rightarrow> MediaAudioServoDecision" where
  "decision_apply command =
     \<lparr>asd_kind = ServoApply, asd_generation = cc_generation command, asd_sequence = cc_sequence command,
      asd_effectiveOutputSampleIndex = cc_effectiveOutputSampleIndex command, asd_filteredPhaseError = cc_filteredPhaseError command,
      asd_filteredFrequencyPpm = cc_filteredFrequencyPpm command, asd_integralPpm = cc_integralPpm command, asd_recovering = cc_recovering command,
      asd_command = Some command\<rparr>"

definition decision_reacquire :: "u64 \<Rightarrow> u64 \<Rightarrow> int \<Rightarrow> MediaRunningTime \<Rightarrow> int \<Rightarrow> MediaAudioServoDecision" where
  "decision_reacquire generation sequence index phase frequency =
     \<lparr>asd_kind = ServoReacquire, asd_generation = generation, asd_sequence = sequence, asd_effectiveOutputSampleIndex = index,
      asd_filteredPhaseError = phase, asd_filteredFrequencyPpm = frequency, asd_integralPpm = 0, asd_recovering = False, asd_command = None\<rparr>"

definition decision_dropOldGeneration :: "u64 \<Rightarrow> u64 \<Rightarrow> int \<Rightarrow> MediaAudioServoDecision" where
  "decision_dropOldGeneration generation sequence index =
     \<lparr>asd_kind = ServoDropOldGeneration, asd_generation = generation, asd_sequence = sequence, asd_effectiveOutputSampleIndex = index,
      asd_filteredPhaseError = 0, asd_filteredFrequencyPpm = 0, asd_integralPpm = 0, asd_recovering = False, asd_command = None\<rparr>"

datatype MediaAudioServoAntiWindupMode = ConditionalIntegration

record MediaAvSyncAudioServoPolicy =
  ap_deadbandNs :: "MediaRunningTime option"
  ap_phaseFilterTimeConstantNs :: "MediaRunningTime option"
  ap_frequencyFilterTimeConstantNs :: "MediaRunningTime option"
  ap_proportionalGainPpmPerSecond :: "int option"
  ap_integralGainPpmPerSecondSquared :: "int option"
  ap_integratorLimitPpm :: "int option"
  ap_frequencyFeedForwardNumerator :: "int option"
  ap_frequencyFeedForwardDenominator :: "int option"
  ap_frequencyDeadbandPpm :: "int option"
  ap_maximumMeasuredFrequencyPpm :: "int option"
  ap_recoveryExitFrequencyPpm :: "int option"
  ap_antiWindupMode :: "MediaAudioServoAntiWindupMode option"
  ap_minimumUpdateIntervalNs :: "MediaRunningTime option"
  ap_maximumMeasurementGapNs :: "MediaRunningTime option"
  ap_maximumSlewPpmPerSecond :: "int option"
  ap_normalCorrectionLimitPpm :: "int option"
  ap_recoveryCorrectionLimitPpm :: "int option"
  ap_recoveryEnterThresholdNs :: "MediaRunningTime option"
  ap_recoveryExitThresholdNs :: "MediaRunningTime option"
  ap_recoveryExitHoldNs :: "MediaRunningTime option"
  ap_compensationWindowNs :: "MediaRunningTime option"
  ap_commandLeadNs :: "MediaRunningTime option"
  ap_outputSampleRate :: "int option"
  ap_correctionLookaheadWindows :: "u64 option"

definition MaximumCorrectionLookaheadWindows :: u64 where "MaximumCorrectionLookaheadWindows = 8"
definition MaximumOutputSampleRate :: int where "MaximumOutputSampleRate = 384000"
definition MaximumMeasurementGapNs :: int where "MaximumMeasurementGapNs = 1000000000"
definition MaximumPolicyDurationNs :: int where "MaximumPolicyDurationNs = 60000000000"
definition MaximumHardDiscontinuityNs :: int where "MaximumHardDiscontinuityNs = 500000000"
definition MaximumProportionalGainPpmPerSecond :: int where "MaximumProportionalGainPpmPerSecond = 100000"
definition MaximumIntegralGainPpmPerSecondSquared :: int where "MaximumIntegralGainPpmPerSecondSquared = 100000"
definition MaximumMeasuredFrequencyPpm :: int where "MaximumMeasuredFrequencyPpm = 1000000"
definition MaximumNormalCorrectionPpm :: int where "MaximumNormalCorrectionPpm = 1000"
definition MaximumRecoveryCorrectionPpm :: int where "MaximumRecoveryCorrectionPpm = 5000"

lemmas servo_limits = MaximumCorrectionLookaheadWindows_def MaximumOutputSampleRate_def MaximumMeasurementGapNs_def MaximumPolicyDurationNs_def
  MaximumHardDiscontinuityNs_def MaximumProportionalGainPpmPerSecond_def MaximumIntegralGainPpmPerSecondSquared_def
  MaximumMeasuredFrequencyPpm_def MaximumNormalCorrectionPpm_def MaximumRecoveryCorrectionPpm_def

definition leadCoversWorstPositiveGap :: "int \<Rightarrow> int \<Rightarrow> int \<Rightarrow> int \<Rightarrow> bool option" where
  "leadCoversWorstPositiveGap leadNs gapNs outputSampleRate maximumPositiveCorrectionPpm =
     (if leadNs \<le> 0 \<or> gapNs \<le> 0 \<or> outputSampleRate \<le> 0 \<or> maximumPositiveCorrectionPpm < 0 \<or> outputSampleRate > MaximumOutputSampleRate \<or>
         gapNs > MaximumMeasurementGapNs \<or> leadNs > MaximumPolicyDurationNs
      then Some False
      else do {
        let rate = outputSampleRate;
        correctionScale \<leftarrow> i64 (PartsPerMillion + maximumPositiveCorrectionPpm);
        leadProduct \<leftarrow> i64 (leadNs * rate);
        let leadLower = tdiv leadProduct AudioNanosecondsPerSecond;
        gapRateProduct \<leftarrow> i64 (gapNs * rate);
        let wholeNominalSamples = tdiv gapRateProduct AudioNanosecondsPerSecond;
        let nominalRemainder = tmod gapRateProduct AudioNanosecondsPerSecond;
        scaledWhole \<leftarrow> i64 (wholeNominalSamples * correctionScale);
        let wholeOutputSamples = tdiv scaledWhole PartsPerMillion;
        let scaledWholeRemainder = tmod scaledWhole PartsPerMillion;
        first \<leftarrow> i64 (scaledWholeRemainder * AudioNanosecondsPerSecond);
        second \<leftarrow> i64 (nominalRemainder * correctionScale);
        fractionalNumerator \<leftarrow> i64 (first + second);
        let FractionalDenominator = AudioNanosecondsPerSecond * PartsPerMillion;
        raised \<leftarrow> i64 (fractionalNumerator + FractionalDenominator);
        gapUpper \<leftarrow> i64 (wholeOutputSamples + tdiv (raised - 1) FractionalDenominator);
        required \<leftarrow> i64 (gapUpper + 1);
        Some (leadLower \<ge> required)
      })"

definition positive :: "int option \<Rightarrow> bool" where
  "positive v \<longleftrightarrow> (case v of None \<Rightarrow> False | Some x \<Rightarrow> x > 0)"

definition validPolicy :: "MediaAvSyncAudioServoPolicy \<Rightarrow> MediaRunningTime \<Rightarrow> u64 \<Rightarrow> bool option" where
  "validPolicy policy hardDiscontinuityThreshold generation =
     (if generation > 0 \<and> positive (ap_outputSampleRate policy) \<and>
         (case ap_correctionLookaheadWindows policy of None \<Rightarrow> False | Some w \<Rightarrow> w > 0) \<and>
         positive (ap_deadbandNs policy) \<and> positive (ap_phaseFilterTimeConstantNs policy) \<and> positive (ap_frequencyFilterTimeConstantNs policy) \<and>
         positive (ap_proportionalGainPpmPerSecond policy) \<and> positive (ap_integralGainPpmPerSecondSquared policy) \<and>
         positive (ap_integratorLimitPpm policy) \<and>
         ap_frequencyFeedForwardNumerator policy \<noteq> None \<and> the (ap_frequencyFeedForwardNumerator policy) \<ge> 0 \<and>
         positive (ap_frequencyFeedForwardDenominator policy) \<and>
         the (ap_frequencyFeedForwardNumerator policy) \<le> the (ap_frequencyFeedForwardDenominator policy) \<and>
         ap_frequencyDeadbandPpm policy \<noteq> None \<and> the (ap_frequencyDeadbandPpm policy) \<ge> 0 \<and>
         positive (ap_maximumMeasuredFrequencyPpm policy) \<and> positive (ap_recoveryExitFrequencyPpm policy) \<and>
         the (ap_frequencyDeadbandPpm policy) < the (ap_recoveryExitFrequencyPpm policy) \<and>
         the (ap_recoveryExitFrequencyPpm policy) < the (ap_maximumMeasuredFrequencyPpm policy) \<and>
         ap_antiWindupMode policy \<noteq> None \<and> the (ap_antiWindupMode policy) = ConditionalIntegration \<and>
         positive (ap_minimumUpdateIntervalNs policy) \<and> positive (ap_maximumMeasurementGapNs policy) \<and> positive (ap_maximumSlewPpmPerSecond policy) \<and>
         positive (ap_normalCorrectionLimitPpm policy) \<and> positive (ap_recoveryCorrectionLimitPpm policy) \<and>
         positive (ap_recoveryEnterThresholdNs policy) \<and> positive (ap_recoveryExitThresholdNs policy) \<and> positive (ap_recoveryExitHoldNs policy) \<and>
         positive (ap_compensationWindowNs policy) \<and> positive (ap_commandLeadNs policy) \<and>
         hardDiscontinuityThreshold > 0 \<and>
         the (ap_minimumUpdateIntervalNs policy) < the (ap_phaseFilterTimeConstantNs policy) \<and>
         the (ap_phaseFilterTimeConstantNs policy) < the (ap_maximumMeasurementGapNs policy) \<and>
         the (ap_maximumMeasurementGapNs policy) < the (ap_frequencyFilterTimeConstantNs policy) \<and>
         the (ap_deadbandNs policy) < the (ap_recoveryExitThresholdNs policy) \<and>
         the (ap_recoveryExitThresholdNs policy) < the (ap_recoveryEnterThresholdNs policy) \<and>
         the (ap_recoveryEnterThresholdNs policy) < hardDiscontinuityThreshold \<and>
         the (ap_recoveryExitHoldNs policy) \<ge> the (ap_minimumUpdateIntervalNs policy) \<and>
         the (ap_maximumMeasurementGapNs policy) < the (ap_commandLeadNs policy) \<and>
         the (ap_commandLeadNs policy) < the (ap_compensationWindowNs policy) \<and>
         the (ap_compensationWindowNs policy) < the (ap_frequencyFilterTimeConstantNs policy) \<and>
         the (ap_normalCorrectionLimitPpm policy) \<le> MaximumNormalCorrectionPpm \<and>
         the (ap_recoveryCorrectionLimitPpm policy) \<le> MaximumRecoveryCorrectionPpm \<and>
         the (ap_integratorLimitPpm policy) \<le> the (ap_recoveryCorrectionLimitPpm policy) \<and>
         the (ap_maximumSlewPpmPerSecond policy) \<le> the (ap_normalCorrectionLimitPpm policy) \<and>
         the (ap_normalCorrectionLimitPpm policy) \<le> the (ap_recoveryCorrectionLimitPpm policy) \<and>
         the (ap_outputSampleRate policy) \<le> MaximumOutputSampleRate \<and>
         the (ap_correctionLookaheadWindows policy) \<le> MaximumCorrectionLookaheadWindows
      then do {
        covers \<leftarrow> leadCoversWorstPositiveGap (the (ap_commandLeadNs policy)) (the (ap_maximumMeasurementGapNs policy))
                    (the (ap_outputSampleRate policy)) (the (ap_recoveryCorrectionLimitPpm policy));
        Some (covers \<and> hardDiscontinuityThreshold \<le> MaximumHardDiscontinuityNs \<and>
              the (ap_maximumMeasurementGapNs policy) \<le> MaximumMeasurementGapNs \<and>
              the (ap_frequencyFilterTimeConstantNs policy) \<le> MaximumPolicyDurationNs \<and>
              the (ap_compensationWindowNs policy) \<le> MaximumPolicyDurationNs \<and>
              the (ap_recoveryExitHoldNs policy) \<le> MaximumPolicyDurationNs \<and>
              the (ap_proportionalGainPpmPerSecond policy) \<le> MaximumProportionalGainPpmPerSecond \<and>
              the (ap_integralGainPpmPerSecondSquared policy) \<le> MaximumIntegralGainPpmPerSecondSquared \<and>
              the (ap_maximumMeasuredFrequencyPpm policy) \<le> MaximumMeasuredFrequencyPpm)
      }
      else Some False)"

text \<open>The policy with its optional fields resolved.\<close>

record ServoPolicy =
  sp_deadbandNs :: int
  sp_phaseFilterTimeConstantNs :: int
  sp_frequencyFilterTimeConstantNs :: int
  sp_proportionalGainPpmPerSecond :: int
  sp_integralGainPpmPerSecondSquared :: int
  sp_integratorLimitPpm :: int
  sp_frequencyFeedForwardNumerator :: int
  sp_frequencyFeedForwardDenominator :: int
  sp_frequencyDeadbandPpm :: int
  sp_maximumMeasuredFrequencyPpm :: int
  sp_recoveryExitFrequencyPpm :: int
  sp_minimumUpdateIntervalNs :: int
  sp_maximumMeasurementGapNs :: int
  sp_maximumSlewPpmPerSecond :: int
  sp_normalCorrectionLimitPpm :: int
  sp_recoveryCorrectionLimitPpm :: int
  sp_recoveryEnterThresholdNs :: int
  sp_recoveryExitThresholdNs :: int
  sp_recoveryExitHoldNs :: int
  sp_compensationWindowNs :: int
  sp_commandLeadNs :: int
  sp_outputSampleRate :: int
  sp_correctionLookaheadWindows :: u64
  sp_hardDiscontinuityThresholdNs :: int

record MediaAudioDriftMeasurement =
  dm_phaseError :: MediaRunningTime
  dm_sourceEndOnMaster :: MediaRunningTime
  dm_generation :: u64
  dm_sequence :: u64
  dm_effectiveOutputSampleIndex :: int
  dm_outputSampleRate :: int

record MediaAudioDriftServo =
  sv_sourceClockMode :: MediaAvSyncSourceClockMode
  sv_policy :: ServoPolicy
  sv_quantizer :: MediaAudioCorrectionQuantizer
  sv_outputSampleRate :: int
  sv_generation :: u64
  sv_initialized :: bool
  sv_recovering :: bool
  sv_lastSourceEndOnMasterNs :: int
  sv_lastRawPhaseNs :: int
  sv_filteredPhaseNs :: int
  sv_filteredFrequencyPpm :: int
  sv_integralPpm :: int
  sv_lastStretchPpm :: int
  sv_recoveryExitHeldNs :: int
  sv_lastSequence :: u64
  sv_lastEffectiveOutputSampleIndex :: int

definition resolve_policy :: "MediaAvSyncAudioServoPolicy \<Rightarrow> MediaRunningTime \<Rightarrow> ServoPolicy" where
  "resolve_policy policy hardDiscontinuityThreshold =
     \<lparr>sp_deadbandNs = the (ap_deadbandNs policy), sp_phaseFilterTimeConstantNs = the (ap_phaseFilterTimeConstantNs policy),
      sp_frequencyFilterTimeConstantNs = the (ap_frequencyFilterTimeConstantNs policy), sp_proportionalGainPpmPerSecond = the (ap_proportionalGainPpmPerSecond policy),
      sp_integralGainPpmPerSecondSquared = the (ap_integralGainPpmPerSecondSquared policy), sp_integratorLimitPpm = the (ap_integratorLimitPpm policy),
      sp_frequencyFeedForwardNumerator = the (ap_frequencyFeedForwardNumerator policy), sp_frequencyFeedForwardDenominator = the (ap_frequencyFeedForwardDenominator policy),
      sp_frequencyDeadbandPpm = the (ap_frequencyDeadbandPpm policy), sp_maximumMeasuredFrequencyPpm = the (ap_maximumMeasuredFrequencyPpm policy),
      sp_recoveryExitFrequencyPpm = the (ap_recoveryExitFrequencyPpm policy), sp_minimumUpdateIntervalNs = the (ap_minimumUpdateIntervalNs policy),
      sp_maximumMeasurementGapNs = the (ap_maximumMeasurementGapNs policy), sp_maximumSlewPpmPerSecond = the (ap_maximumSlewPpmPerSecond policy),
      sp_normalCorrectionLimitPpm = the (ap_normalCorrectionLimitPpm policy), sp_recoveryCorrectionLimitPpm = the (ap_recoveryCorrectionLimitPpm policy),
      sp_recoveryEnterThresholdNs = the (ap_recoveryEnterThresholdNs policy), sp_recoveryExitThresholdNs = the (ap_recoveryExitThresholdNs policy),
      sp_recoveryExitHoldNs = the (ap_recoveryExitHoldNs policy), sp_compensationWindowNs = the (ap_compensationWindowNs policy),
      sp_commandLeadNs = the (ap_commandLeadNs policy), sp_outputSampleRate = the (ap_outputSampleRate policy),
      sp_correctionLookaheadWindows = the (ap_correctionLookaheadWindows policy), sp_hardDiscontinuityThresholdNs = hardDiscontinuityThreshold\<rparr>"

definition policy_error :: "MediaAvSyncSourceClockMode \<Rightarrow> u64 \<Rightarrow> string \<Rightarrow> MediaAvSyncError" where
  "policy_error sourceClockMode generation detail =
     \<lparr>se_code = InvalidAudioServoPolicy, se_sourceClockMode = Some sourceClockMode, se_state = ErrState_AudioServo, se_operation = ''create'',
      se_expectedStreamIdentity = ''audio'', se_observedStreamIdentity = ''audio'', se_expectedGeneration = Some generation,
      se_observedGeneration = None, se_observedSourceTime = None, se_sourceEpoch = 0, se_runningTimeEpoch = 0,
      se_minimumRunningTimeNs = INT64_MIN, se_maximumRunningTimeNs = INT64_MAX, se_detail = detail\<rparr>"

definition servo_create ::
  "MediaAvSyncSourceClockMode \<Rightarrow> MediaAvSyncAudioServoPolicy \<Rightarrow> MediaRunningTime \<Rightarrow> u64 \<Rightarrow> (MediaAvSyncError + MediaAudioDriftServo) option" where
  "servo_create sourceClockMode policy hardDiscontinuityThreshold generation = do {
     valid \<leftarrow> validPolicy policy hardDiscontinuityThreshold generation;
     if \<not> valid then Some (Inl (policy_error sourceClockMode generation ''incomplete or inconsistent planner-owned audio servo policy''))
     else do {
       quantizer \<leftarrow> quantizer_create (the (ap_compensationWindowNs policy)) (the (ap_commandLeadNs policy)) (the (ap_outputSampleRate policy));
       Some (case quantizer of
         Inl _ \<Rightarrow> Inl (policy_error sourceClockMode generation ''audio servo window and output sample rate are not jointly representable'')
       | Inr q \<Rightarrow> Inr \<lparr>sv_sourceClockMode = sourceClockMode, sv_policy = resolve_policy policy hardDiscontinuityThreshold, sv_quantizer = q,
           sv_outputSampleRate = the (ap_outputSampleRate policy), sv_generation = generation, sv_initialized = False, sv_recovering = False,
           sv_lastSourceEndOnMasterNs = 0, sv_lastRawPhaseNs = 0, sv_filteredPhaseNs = 0, sv_filteredFrequencyPpm = 0, sv_integralPpm = 0,
           sv_lastStretchPpm = 0, sv_recoveryExitHeldNs = 0, sv_lastSequence = 0, sv_lastEffectiveOutputSampleIndex = 0\<rparr>)
     }
   }"

definition magnitude :: "int \<Rightarrow> u64" where
  "magnitude v = (if v \<ge> 0 then word_of_int v else word_of_int (- (v + 1)) + 1)"

definition roundSignedRatio :: "int \<Rightarrow> int \<Rightarrow> int option" where
  "roundSignedRatio numerator denominator =
     (if denominator = 0 \<or> (numerator = INT64_MIN \<and> denominator = - 1) then None
      else do {
        let quotient = tdiv numerator denominator;
        let remainder = tmod numerator denominator;
        above \<leftarrow> i64 (denominator + 1);
        let half = tdiv above 2;
        if remainder \<ge> half then i64 (quotient + 1)
        else if remainder \<le> - half then i64 (quotient - 1)
        else Some quotient
      })"

definition lowPass :: "int \<Rightarrow> int \<Rightarrow> int \<Rightarrow> int \<Rightarrow> int option" where
  "lowPass previous sample elapsedNs timeConstantNs = do {
     difference \<leftarrow> i64 (sample - previous);
     product \<leftarrow> i64 (difference * elapsedNs);
     total' \<leftarrow> i64 (timeConstantNs + elapsedNs);
     step \<leftarrow> roundSignedRatio product total';
     i64 (previous + step)
   }"

definition clampInt64ToInt :: "int \<Rightarrow> int" where
  "clampInt64ToInt v = cast_int (if v < INT32_MIN then INT32_MIN else if INT32_MAX < v then INT32_MAX else v)"

definition servo_error :: "MediaAvSyncErrorCode \<Rightarrow> string \<Rightarrow> MediaAudioDriftMeasurement option \<Rightarrow> string \<Rightarrow> MediaAudioDriftServo \<Rightarrow> MediaAvSyncError" where
  "servo_error code operation measurement detail s =
     \<lparr>se_code = code, se_sourceClockMode = Some (sv_sourceClockMode s), se_state = ErrState_AudioServo, se_operation = operation,
      se_expectedStreamIdentity = ''audio'', se_observedStreamIdentity = ''audio'', se_expectedGeneration = Some (sv_generation s),
      se_observedGeneration = map_option dm_generation measurement, se_observedSourceTime = map_option dm_phaseError measurement,
      se_sourceEpoch = 0, se_runningTimeEpoch = 0, se_minimumRunningTimeNs = INT64_MIN, se_maximumRunningTimeNs = INT64_MAX, se_detail = detail\<rparr>"

definition clearControlState :: "MediaAudioDriftServo \<Rightarrow> MediaAudioDriftServo" where
  "clearControlState s = s\<lparr>sv_initialized := False, sv_recovering := False, sv_lastSourceEndOnMasterNs := 0, sv_lastRawPhaseNs := 0,
     sv_filteredPhaseNs := 0, sv_filteredFrequencyPpm := 0, sv_integralPpm := 0, sv_lastStretchPpm := 0, sv_recoveryExitHeldNs := 0,
     sv_lastSequence := 0, sv_lastEffectiveOutputSampleIndex := 0\<rparr>"

definition clearCorrectionEpoch :: "int \<Rightarrow> MediaAudioDriftServo \<Rightarrow> MediaAudioDriftServo \<times> (MediaAvSyncError + unit)" where
  "clearCorrectionEpoch epochOutputSampleIndex s =
     (case resetEpoch epochOutputSampleIndex (sv_quantizer s) of
        (q, Inl _) \<Rightarrow> (s\<lparr>sv_quantizer := q\<rparr>, Inl (servo_error AudioCorrectionQuantizationFailed ''reset_epoch'' None
          ''audio correction epoch sample index is invalid'' s))
      | (q, Inr _) \<Rightarrow> (s\<lparr>sv_quantizer := q\<rparr>, Inr ()))"

text \<open>The common end of the three branches that give up the current lock.\<close>

definition servo_reacquire ::
  "MediaAudioDriftMeasurement \<Rightarrow> u64 \<Rightarrow> int \<Rightarrow> MediaAudioDriftServo \<Rightarrow> MediaAudioDriftServo \<times> (MediaAvSyncError + MediaAudioServoDecision)" where
  "servo_reacquire measurement generation frequency s =
     (case clearCorrectionEpoch (dm_effectiveOutputSampleIndex measurement) (clearControlState s) of
        (s, Inl e) \<Rightarrow> (s, Inl e)
      | (s, Inr _) \<Rightarrow>
          (s\<lparr>sv_lastSequence := dm_sequence measurement, sv_lastEffectiveOutputSampleIndex := dm_effectiveOutputSampleIndex measurement\<rparr>,
           Inr (decision_reacquire generation (dm_sequence measurement) (dm_effectiveOutputSampleIndex measurement) (dm_phaseError measurement) frequency)))"

definition publishWindowIfDue ::
  "MediaAudioDriftMeasurement \<Rightarrow> int \<Rightarrow> MediaAudioDriftServo \<Rightarrow> (MediaAudioDriftServo \<times> (MediaAvSyncError + MediaAudioServoDecision)) option" where
  "publishWindowIfDue measurement stretchPpm s = do {
     scheduled \<leftarrow> quantizer_schedule (sv_generation s) (dm_sequence measurement) (dm_effectiveOutputSampleIndex measurement) stretchPpm
       \<lparr>ct_filteredPhaseError = sv_filteredPhaseNs s, ct_filteredFrequencyPpm = sv_filteredFrequencyPpm s, ct_integralPpm = sv_integralPpm s,
        ct_recovering = sv_recovering s\<rparr> (sv_quantizer s);
     Some (case scheduled of (q, correction) \<Rightarrow>
       (let s = s\<lparr>sv_quantizer := q\<rparr>
        in case correction of
             Inl _ \<Rightarrow> (s, Inl (servo_error AudioCorrectionQuantizationFailed ''schedule'' (Some measurement) ''quantized correction contract failed'' s))
           | Inr None \<Rightarrow> (s, Inr (decision_none (sv_generation s) (dm_sequence measurement) (dm_effectiveOutputSampleIndex measurement)
               (sv_filteredPhaseNs s) (sv_filteredFrequencyPpm s) (sv_integralPpm s) (sv_recovering s)))
           | Inr (Some command) \<Rightarrow> (s, Inr (decision_apply command))))
   }"

text \<open>The three parts of \<^verbatim>\<open>processCurrent\<close> behind the frequency check: filters, recovery mode, and control law.\<close>

definition filter_measurement :: "MediaAudioDriftMeasurement \<Rightarrow> int \<Rightarrow> int \<Rightarrow> MediaAudioDriftServo \<Rightarrow> MediaAudioDriftServo option" where
  "filter_measurement measurement elapsedNs rawFrequencyPpm s = do {
     phase \<leftarrow> lowPass (sv_filteredPhaseNs s) (dm_phaseError measurement) elapsedNs (sp_phaseFilterTimeConstantNs (sv_policy s));
     frequency \<leftarrow> lowPass (sv_filteredFrequencyPpm s) rawFrequencyPpm elapsedNs (sp_frequencyFilterTimeConstantNs (sv_policy s));
     Some (s\<lparr>sv_filteredPhaseNs := phase, sv_filteredFrequencyPpm := clampInt64ToInt frequency\<rparr>)
   }"

definition update_recovery :: "MediaAudioDriftMeasurement \<Rightarrow> int \<Rightarrow> MediaAudioDriftServo \<Rightarrow> MediaAudioDriftServo option" where
  "update_recovery measurement elapsedNs s =
     (if \<not> sv_recovering s \<and> magnitude (dm_phaseError measurement) \<ge> word_of_int (sp_recoveryEnterThresholdNs (sv_policy s))
      then Some (s\<lparr>sv_recovering := True, sv_recoveryExitHeldNs := 0\<rparr>)
      else if sv_recovering s
      then do {
        let belowExit = (magnitude (sv_filteredPhaseNs s) \<le> word_of_int (sp_recoveryExitThresholdNs (sv_policy s)) \<and>
                         magnitude (sv_filteredFrequencyPpm s) \<le> word_of_int (sp_recoveryExitFrequencyPpm (sv_policy s)));
        held \<leftarrow> (if belowExit then do { longer \<leftarrow> i64 (sv_recoveryExitHeldNs s + elapsedNs); Some (min (sp_recoveryExitHoldNs (sv_policy s)) longer) }
                 else Some 0);
        Some (if held \<ge> sp_recoveryExitHoldNs (sv_policy s) then s\<lparr>sv_recovering := False, sv_recoveryExitHeldNs := 0\<rparr>
              else s\<lparr>sv_recoveryExitHeldNs := held\<rparr>)
      }
      else Some s)"

definition active_limit :: "MediaAudioDriftServo \<Rightarrow> int" where
  "active_limit s = (if sv_recovering s then sp_recoveryCorrectionLimitPpm (sv_policy s) else sp_normalCorrectionLimitPpm (sv_policy s))"

definition integrate :: "int \<Rightarrow> int \<Rightarrow> int \<Rightarrow> MediaAudioDriftServo \<Rightarrow> MediaAudioDriftServo option" where
  "integrate base integralIncrement activeLimit s = do {
     grown \<leftarrow> i64 (sv_integralPpm s + integralIncrement);
     candidateIntegral \<leftarrow> clamp grown (- sp_integratorLimitPpm (sv_policy s)) (sp_integratorLimitPpm (sv_policy s));
     candidateTarget \<leftarrow> i64 (base + candidateIntegral);
     let windsFurther = ((candidateTarget > activeLimit \<and> integralIncrement > 0) \<or> (candidateTarget < - activeLimit \<and> integralIncrement < 0));
     Some (if \<not> windsFurther then s\<lparr>sv_integralPpm := cast_int candidateIntegral\<rparr> else s)
   }"

definition control_law :: "int \<Rightarrow> MediaAudioDriftServo \<Rightarrow> (MediaAudioDriftServo \<times> int) option" where
  "control_law elapsedNs s = do {
     let policy = sv_policy s;
     let phaseForControl = (if magnitude (sv_filteredPhaseNs s) \<le> word_of_int (sp_deadbandNs policy) then 0 else sv_filteredPhaseNs s);
     let frequencyForControl = (if magnitude (sv_filteredFrequencyPpm s) \<le> word_of_int (sp_frequencyDeadbandPpm policy) then 0 else sv_filteredFrequencyPpm s);
     proportionalProduct \<leftarrow> i64 (phaseForControl * sp_proportionalGainPpmPerSecond policy);
     proportional \<leftarrow> roundSignedRatio proportionalProduct AudioNanosecondsPerSecond;
     frequencyProduct \<leftarrow> i64 (frequencyForControl * sp_frequencyFeedForwardNumerator policy);
     frequency \<leftarrow> roundSignedRatio frequencyProduct (sp_frequencyFeedForwardDenominator policy);
     integralProduct \<leftarrow> i64 (phaseForControl * sp_integralGainPpmPerSecondSquared policy);
     integralRate \<leftarrow> roundSignedRatio integralProduct AudioNanosecondsPerSecond;
     incrementProduct \<leftarrow> i64 (integralRate * elapsedNs);
     integralIncrement \<leftarrow> roundSignedRatio incrementProduct AudioNanosecondsPerSecond;
     let activeLimit = active_limit s;
     base \<leftarrow> i64 (proportional + frequency);
     s \<leftarrow> integrate base integralIncrement activeLimit s;
     unclamped \<leftarrow> i64 (base + sv_integralPpm s);
     target \<leftarrow> clamp unclamped (- activeLimit) activeLimit;
     slewProduct \<leftarrow> i64 (sp_maximumSlewPpmPerSecond policy * elapsedNs);
     slewRate \<leftarrow> roundSignedRatio slewProduct AudioNanosecondsPerSecond;
     let slew = max 1 slewRate;
     low \<leftarrow> i64 (sv_lastStretchPpm s - slew);
     high \<leftarrow> i64 (sv_lastStretchPpm s + slew);
     stretch \<leftarrow> clamp (cast_int target) low high;
     Some (s, cast_int stretch)
   }"

definition processCurrent ::
  "MediaAudioDriftMeasurement \<Rightarrow> int \<Rightarrow> MediaAudioDriftServo \<Rightarrow> (MediaAudioDriftServo \<times> (MediaAvSyncError + MediaAudioServoDecision)) option" where
  "processCurrent measurement elapsedNs s = do {
     difference \<leftarrow> i64 (dm_phaseError measurement - sv_lastRawPhaseNs s);
     scaled \<leftarrow> i64 (difference * PartsPerMillion);
     rawFrequencyPpm \<leftarrow> roundSignedRatio scaled elapsedNs;
     if magnitude rawFrequencyPpm > word_of_int (sp_maximumMeasuredFrequencyPpm (sv_policy s))
     then Some (servo_reacquire measurement (sv_generation s) (clampInt64ToInt rawFrequencyPpm) s)
     else do {
       s \<leftarrow> filter_measurement measurement elapsedNs rawFrequencyPpm s;
       s \<leftarrow> update_recovery measurement elapsedNs s;
       (s, stretchPpm) \<leftarrow> control_law elapsedNs s;
       let s = s\<lparr>sv_lastSourceEndOnMasterNs := dm_sourceEndOnMaster measurement, sv_lastRawPhaseNs := dm_phaseError measurement,
         sv_lastSequence := dm_sequence measurement, sv_lastEffectiveOutputSampleIndex := dm_effectiveOutputSampleIndex measurement,
         sv_lastStretchPpm := stretchPpm\<rparr>;
       publishWindowIfDue measurement stretchPpm s
     }
   }"

definition maximum_advance :: "int \<Rightarrow> MediaAudioDriftServo \<Rightarrow> int option" where
  "maximum_advance elapsedNs s = do {
     whole \<leftarrow> i64 (tdiv elapsedNs AudioNanosecondsPerSecond * sv_outputSampleRate s);
     fraction \<leftarrow> i64 (tmod elapsedNs AudioNanosecondsPerSecond * sv_outputSampleRate s);
     raised \<leftarrow> i64 (fraction + AudioNanosecondsPerSecond);
     nominalSamples \<leftarrow> i64 (whole + tdiv (raised - 1) AudioNanosecondsPerSecond);
     stretched \<leftarrow> i64 (nominalSamples * sp_recoveryCorrectionLimitPpm (sv_policy s));
     raised' \<leftarrow> i64 (stretched + PartsPerMillion);
     advance \<leftarrow> i64 (nominalSamples + tdiv (raised' - 1) PartsPerMillion);
     i64 (advance + 2)
   }"

definition servo_update ::
  "MediaAudioDriftMeasurement \<Rightarrow> MediaAudioDriftServo \<Rightarrow> (MediaAudioDriftServo \<times> (MediaAvSyncError + MediaAudioServoDecision)) option" where
  "servo_update measurement s =
     (let invalid = (\<lambda>detail. Some (s, Inl (servo_error InvalidAudioServoMeasurement ''update'' (Some measurement) detail s)));
          index = dm_effectiveOutputSampleIndex measurement;
          policy = sv_policy s
      in if dm_generation measurement < sv_generation s
         then Some (s, Inr (decision_dropOldGeneration (dm_generation measurement) (dm_sequence measurement) index))
         else if dm_generation measurement > sv_generation s
         then Some (s, Inr (decision_reacquire (dm_generation measurement) (dm_sequence measurement) index (dm_phaseError measurement) 0))
         else if dm_sequence measurement = 0 \<or> dm_sequence measurement \<le> sv_lastSequence s \<or> index < 0 \<or>
                 (sv_initialized s \<and> index < sv_lastEffectiveOutputSampleIndex s) \<or> dm_outputSampleRate measurement \<noteq> sv_outputSampleRate s
         then invalid ''sequence, sample index, or output sample rate contract failed''
         else if magnitude (dm_phaseError measurement) \<ge> word_of_int (sp_hardDiscontinuityThresholdNs policy)
         then Some (servo_reacquire measurement (dm_generation measurement) 0 s)
         else if \<not> sv_initialized s
         then publishWindowIfDue measurement 0
           (s\<lparr>sv_initialized := True, sv_lastSourceEndOnMasterNs := dm_sourceEndOnMaster measurement, sv_lastRawPhaseNs := dm_phaseError measurement,
              sv_filteredPhaseNs := dm_phaseError measurement,
              sv_recovering := (magnitude (dm_phaseError measurement) \<ge> word_of_int (sp_recoveryEnterThresholdNs policy)),
              sv_lastSequence := dm_sequence measurement, sv_lastEffectiveOutputSampleIndex := index\<rparr>)
         else
           (case checkedSubtract (dm_sourceEndOnMaster measurement) (sv_lastSourceEndOnMasterNs s) of
              Inl _ \<Rightarrow> invalid ''canonical source end must increase monotonically''
            | Inr elapsedNs \<Rightarrow>
                (if elapsedNs \<le> 0 then invalid ''canonical source end must increase monotonically''
                 else if elapsedNs < sp_minimumUpdateIntervalNs policy
                 then Some (s\<lparr>sv_lastSequence := dm_sequence measurement, sv_lastEffectiveOutputSampleIndex := index\<rparr>,
                            Inr (decision_none (sv_generation s) (dm_sequence measurement) index (sv_filteredPhaseNs s) (sv_filteredFrequencyPpm s)
                              (sv_integralPpm s) (sv_recovering s)))
                 else if elapsedNs > sp_maximumMeasurementGapNs policy
                 then Some (servo_reacquire measurement (sv_generation s) 0 s)
                 else do {
                   advance \<leftarrow> maximum_advance elapsedNs s;
                   moved \<leftarrow> i64 (index - sv_lastEffectiveOutputSampleIndex s);
                   if moved > advance then invalid ''output sample index advanced beyond canonical source elapsed-time bound''
                   else processCurrent measurement elapsedNs s
                 })))"

definition servo_reset :: "u64 \<Rightarrow> int \<Rightarrow> MediaAudioDriftServo \<Rightarrow> MediaAudioDriftServo \<times> (MediaAvSyncError + unit)" where
  "servo_reset generation epochOutputSampleIndex s =
     (if generation = 0 \<or> epochOutputSampleIndex < 0
      then (s, Inl (servo_error InvalidGenerationTransition ''reset'' None ''audio servo reset requires positive generation and non-negative epoch'' s))
      else clearCorrectionEpoch epochOutputSampleIndex (clearControlState (s\<lparr>sv_generation := generation\<rparr>)))"

section \<open>Arithmetic of the controller\<close>

lemma uint_magnitude:
  assumes "in_int64 v"
  shows "uint (magnitude v) = \<bar>v\<bar>"
proof (cases "0 \<le> v")
  case True
  then show ?thesis using assms by (simp add: magnitude_def in_int64_def INT64_MAX_def uint_word_of_int)
next
  case False
  then have "magnitude v = word_of_int (- v)" by (simp add: magnitude_def flip: wi_hom_add)
  moreover have "- v mod 2 ^ 64 = - v" using False assms by (intro mod_pos_pos_trivial) (simp_all add: in_int64_def INT64_MIN_def)
  ultimately show ?thesis using False by (simp only: uint_word_of_int) simp
qed

lemma magnitude_compare:
  assumes "in_int64 v" and "0 \<le> t" and "t \<le> INT64_MAX"
  shows "word_of_int t \<le> magnitude v \<longleftrightarrow> t \<le> \<bar>v\<bar>" "magnitude v \<le> word_of_int t \<longleftrightarrow> \<bar>v\<bar> \<le> t" "word_of_int t < magnitude v \<longleftrightarrow> t < \<bar>v\<bar>"
proof -
  have "uint (word_of_int t :: u64) = t" using assms(2,3) by (simp add: INT64_MAX_def uint_word_of_int)
  then show "word_of_int t \<le> magnitude v \<longleftrightarrow> t \<le> \<bar>v\<bar>" "magnitude v \<le> word_of_int t \<longleftrightarrow> \<bar>v\<bar> \<le> t" "word_of_int t < magnitude v \<longleftrightarrow> t < \<bar>v\<bar>"
    using uint_magnitude [OF assms(1)] by (simp_all add: word_le_def word_less_def)
qed

lemma servo_round:
  assumes "in_int64 n" and "0 < d" and "d < INT64_MAX"
  shows "roundSignedRatio n d = Some (nearest n d)"
proof -
  have d: "in_int64 (d + 1)" "tdiv (d + 1) 2 = (d + 1) div 2" "0 < (d + 1) div 2"
    using assms by (simp_all add: in_int64_def INT64_MIN_def INT64_MAX_def tdiv_nonneg)
  have "in_int64 (nearest n d)"
    using assms(1) nearest_abs_le [OF assms(2), of n] nearest_sign [OF assms(2), of n]
    by (cases "0 \<le> n") (auto simp: in_int64_def INT64_MIN_def INT64_MAX_def)
  show ?thesis
  proof (cases "0 \<le> n")
    case True
    then have n: "tdiv n d = n div d" "tmod n d = n mod d" "0 \<le> n mod d" using assms(2) by (simp_all add: tmod_def tdiv_nonneg minus_div_mult_eq_mod)
    have no: "(n mod d \<le> - ((d + 1) div 2)) = False" using order_less_le_trans [OF _ n(3), of "- ((d + 1) div 2)"] d(3) by (simp only: not_le neg_less_0_iff_less eq_False)
    show ?thesis using True assms d(1,2) n(1,2) nearest_nonneg [OF True assms(2)] \<open>in_int64 (nearest n d)\<close>
      by (simp add: roundSignedRatio_def INT64_MIN_def Let_def no split: if_splits)
  next
    case False
    define m where "m = - n"
    have m: "0 \<le> m" "n = - m" using False by (simp_all add: m_def)
    have t: "tdiv n d = - (m div d)" "tmod n d = - (m mod d)" "0 \<le> m mod d"
      using m assms(2) unfolding m(2) tdiv_minus tmod_minus by (simp_all add: tmod_def tdiv_nonneg minus_div_mult_eq_mod)
    have no: "((d + 1) div 2 \<le> - (m mod d)) = False" using order_le_less_trans [OF _ d(3), of "- (m mod d)"] t(3) by (simp only: not_le neg_le_0_iff_le eq_False)
    show ?thesis using False assms d(1,2) t(1,2) nearest_nonneg [OF m(1) assms(2)] nearest_minus [of m d] m(2) \<open>in_int64 (nearest n d)\<close>
      by (simp add: roundSignedRatio_def INT64_MIN_def Let_def no split: if_splits)
  qed
qed

lemma abs_product_le: "\<bar>a\<bar> \<le> x \<Longrightarrow> \<bar>b\<bar> \<le> y \<Longrightarrow> \<bar>a * b\<bar> \<le> x * (y :: int)"
  unfolding abs_mult by (rule mult_mono) simp_all

text \<open>The rounded quotient of a product, with bounds for its operands.\<close>

lemma round_product:
  assumes "\<bar>a\<bar> \<le> x" and "\<bar>b\<bar> \<le> y" and "x * y \<le> 9000000000000000000" and "0 < d" and "d < INT64_MAX"
  shows "i64 (a * b) = Some (a * b)" "roundSignedRatio (a * b) d = Some (nearest (a * b) d)" "x * y \<le> k * d \<Longrightarrow> \<bar>nearest (a * b) d\<bar> \<le> k"
proof -
  have p: "\<bar>a * b\<bar> \<le> x * y" by (rule abs_product_le [OF assms(1,2)])
  then have "in_int64 (a * b)" using assms(3) by (intro in_int64_abs) simp
  then show "i64 (a * b) = Some (a * b)" "roundSignedRatio (a * b) d = Some (nearest (a * b) d)" using servo_round assms(4,5) by simp_all
  show "\<bar>nearest (a * b) d\<bar> \<le> k" if "x * y \<le> k * d" using p that by (intro nearest_abs [OF assms(4)]) simp
qed

lemma lowPass_between:
  assumes "\<bar>previous\<bar> \<le> B" and "\<bar>sample\<bar> \<le> B" and "B \<le> 1000000000" and "0 < elapsed" and "elapsed \<le> 1000000000" and "0 < tc" and "tc \<le> 60000000000"
  shows "\<exists>v. lowPass previous sample elapsed tc = Some v \<and> \<bar>v\<bar> \<le> B"
proof -
  let ?d = "sample - previous"
  have d: "\<bar>?d\<bar> \<le> 2000000000" using assms(1-3) by linarith
  note p = round_product [of ?d 2000000000 elapsed 1000000000 "tc + elapsed"]
  define r where "r = nearest (?d * elapsed) (tc + elapsed)"
  have "\<bar>?d * elapsed\<bar> \<le> \<bar>?d\<bar> * (tc + elapsed)" using assms(4,6) by (simp add: abs_mult mult_left_mono)
  then have r: "\<bar>r\<bar> \<le> \<bar>?d\<bar>" unfolding r_def using assms(4,6) by (intro nearest_abs) simp_all
  have s: "0 \<le> ?d \<Longrightarrow> 0 \<le> r" "?d \<le> 0 \<Longrightarrow> r \<le> 0"
    unfolding r_def using assms(4,6) by (intro nearest_sign; simp add: mult_nonpos_nonneg)+
  have v: "\<bar>previous + r\<bar> \<le> B" using r s assms(1,2) by arith
  moreover have "in_int64 (previous + r)" using v assms(3) by (intro in_int64_abs) simp
  moreover have "in_int64 ?d" using d by (intro in_int64_abs) simp
  moreover have "in_int64 (tc + elapsed)" using assms(4-7) by (intro in_int64_abs) simp
  ultimately show ?thesis using p d assms(4-7) by (simp add: lowPass_def INT64_MAX_def flip: r_def)
qed

section \<open>The invariant\<close>

definition policy_ok :: "ServoPolicy \<Rightarrow> bool" where
  "policy_ok p \<longleftrightarrow>
     0 < sp_deadbandNs p \<and> sp_deadbandNs p < sp_recoveryExitThresholdNs p \<and> sp_recoveryExitThresholdNs p < sp_recoveryEnterThresholdNs p \<and>
     sp_recoveryEnterThresholdNs p < sp_hardDiscontinuityThresholdNs p \<and> sp_hardDiscontinuityThresholdNs p \<le> 500000000 \<and>
     0 < sp_phaseFilterTimeConstantNs p \<and> sp_phaseFilterTimeConstantNs p < sp_maximumMeasurementGapNs p \<and> sp_maximumMeasurementGapNs p \<le> 1000000000 \<and>
     0 < sp_frequencyFilterTimeConstantNs p \<and> sp_frequencyFilterTimeConstantNs p \<le> 60000000000 \<and>
     0 < sp_proportionalGainPpmPerSecond p \<and> sp_proportionalGainPpmPerSecond p \<le> 100000 \<and>
     0 < sp_integralGainPpmPerSecondSquared p \<and> sp_integralGainPpmPerSecondSquared p \<le> 100000 \<and>
     0 < sp_integratorLimitPpm p \<and> sp_integratorLimitPpm p \<le> sp_recoveryCorrectionLimitPpm p \<and>
     0 \<le> sp_frequencyFeedForwardNumerator p \<and> sp_frequencyFeedForwardNumerator p \<le> sp_frequencyFeedForwardDenominator p \<and>
     0 < sp_frequencyFeedForwardDenominator p \<and> sp_frequencyFeedForwardDenominator p \<le> 2147483647 \<and>
     0 \<le> sp_frequencyDeadbandPpm p \<and> sp_frequencyDeadbandPpm p < sp_recoveryExitFrequencyPpm p \<and>
     sp_recoveryExitFrequencyPpm p < sp_maximumMeasuredFrequencyPpm p \<and> sp_maximumMeasuredFrequencyPpm p \<le> 1000000 \<and>
     0 < sp_maximumSlewPpmPerSecond p \<and> sp_maximumSlewPpmPerSecond p \<le> sp_normalCorrectionLimitPpm p \<and> sp_normalCorrectionLimitPpm p \<le> 1000 \<and>
     sp_normalCorrectionLimitPpm p \<le> sp_recoveryCorrectionLimitPpm p \<and> sp_recoveryCorrectionLimitPpm p \<le> 5000 \<and>
     0 < sp_minimumUpdateIntervalNs p \<and> 0 < sp_recoveryExitHoldNs p \<and> sp_recoveryExitHoldNs p \<le> 60000000000 \<and>
     0 < sp_outputSampleRate p \<and> sp_outputSampleRate p \<le> 384000"

definition control_ok :: "MediaAudioDriftServo \<Rightarrow> bool" where
  "control_ok s \<longleftrightarrow>
     \<bar>sv_lastRawPhaseNs s\<bar> < sp_hardDiscontinuityThresholdNs (sv_policy s) \<and> \<bar>sv_filteredPhaseNs s\<bar> < sp_hardDiscontinuityThresholdNs (sv_policy s) \<and>
     \<bar>sv_filteredFrequencyPpm s\<bar> \<le> sp_maximumMeasuredFrequencyPpm (sv_policy s) \<and> \<bar>sv_integralPpm s\<bar> \<le> sp_integratorLimitPpm (sv_policy s) \<and>
     \<bar>sv_lastStretchPpm s\<bar> \<le> sp_recoveryCorrectionLimitPpm (sv_policy s) \<and> 0 \<le> sv_recoveryExitHeldNs s \<and>
     sv_recoveryExitHeldNs s \<le> sp_recoveryExitHoldNs (sv_policy s) \<and> in_int64 (sv_lastSourceEndOnMasterNs s) \<and>
     0 \<le> sv_lastEffectiveOutputSampleIndex s \<and> sv_lastEffectiveOutputSampleIndex s \<le> INT64_MAX"

definition servo_ok :: "MediaAudioDriftServo \<Rightarrow> bool" where
  "servo_ok s \<longleftrightarrow> policy_ok (sv_policy s) \<and> control_ok s \<and> quantizer_ok (sv_quantizer s) \<and> sv_outputSampleRate s = sp_outputSampleRate (sv_policy s)"

text \<open>The values of a measurement are values of their C++ types.\<close>

definition measurement_typed :: "MediaAudioDriftMeasurement \<Rightarrow> bool" where
  "measurement_typed m \<longleftrightarrow> in_int64 (dm_phaseError m) \<and> in_int64 (dm_sourceEndOnMaster m) \<and> in_int64 (dm_effectiveOutputSampleIndex m)"

lemma filter_ok:
  assumes "policy_ok (sv_policy s)" and "control_ok s" and "\<bar>dm_phaseError m\<bar> < sp_hardDiscontinuityThresholdNs (sv_policy s)"
    and "\<bar>raw\<bar> \<le> sp_maximumMeasuredFrequencyPpm (sv_policy s)" and "0 < elapsed" and "elapsed \<le> 1000000000"
  shows "\<exists>phase frequency. filter_measurement m elapsed raw s = Some (s\<lparr>sv_filteredPhaseNs := phase, sv_filteredFrequencyPpm := frequency\<rparr>) \<and>
     \<bar>phase\<bar> < sp_hardDiscontinuityThresholdNs (sv_policy s) \<and> \<bar>frequency\<bar> \<le> sp_maximumMeasuredFrequencyPpm (sv_policy s)"
proof -
  let ?p = "sv_policy s"
  have "\<exists>v. lowPass (sv_filteredPhaseNs s) (dm_phaseError m) elapsed (sp_phaseFilterTimeConstantNs ?p) = Some v \<and> \<bar>v\<bar> \<le> sp_hardDiscontinuityThresholdNs ?p - 1"
    using assms by (intro lowPass_between) (auto simp: policy_ok_def control_ok_def)
  then obtain v where v: "lowPass (sv_filteredPhaseNs s) (dm_phaseError m) elapsed (sp_phaseFilterTimeConstantNs ?p) = Some v"
      "\<bar>v\<bar> < sp_hardDiscontinuityThresholdNs ?p" by auto
  have "\<exists>w. lowPass (sv_filteredFrequencyPpm s) raw elapsed (sp_frequencyFilterTimeConstantNs ?p) = Some w \<and> \<bar>w\<bar> \<le> sp_maximumMeasuredFrequencyPpm ?p"
    using assms by (intro lowPass_between) (auto simp: policy_ok_def control_ok_def)
  then obtain w where w: "lowPass (sv_filteredFrequencyPpm s) raw elapsed (sp_frequencyFilterTimeConstantNs ?p) = Some w"
      "\<bar>w\<bar> \<le> sp_maximumMeasuredFrequencyPpm ?p" by auto
  have "clampInt64ToInt w = w" using w(2) assms(1) by (auto simp: clampInt64ToInt_def in_int32_def quantizer_constants policy_ok_def)
  then show ?thesis using v w by (intro exI [of _ v] exI [of _ w]) (simp add: filter_measurement_def)
qed

lemma recovery_ok:
  assumes "policy_ok (sv_policy s)" and "control_ok s" and "0 < elapsed" and "elapsed \<le> 1000000000"
  shows "\<exists>recovering held. update_recovery m elapsed s = Some (s\<lparr>sv_recovering := recovering, sv_recoveryExitHeldNs := held\<rparr>) \<and>
     0 \<le> held \<and> held \<le> sp_recoveryExitHoldNs (sv_policy s)"
proof -
  let ?p = "sv_policy s"
  have h: "0 \<le> sv_recoveryExitHeldNs s" "sv_recoveryExitHeldNs s \<le> sp_recoveryExitHoldNs ?p" "0 < sp_recoveryExitHoldNs ?p"
      "sp_recoveryExitHoldNs ?p \<le> 60000000000"
    using assms(1,2) by (simp_all add: policy_ok_def control_ok_def)
  have sum: "in_int64 (sv_recoveryExitHeldNs s + elapsed)" using h assms(3,4) by (intro in_int64_abs) simp
  consider (enter) "\<not> sv_recovering s" "magnitude (dm_phaseError m) \<ge> word_of_int (sp_recoveryEnterThresholdNs ?p)"
    | (held) "sv_recovering s" | (idle) "\<not> sv_recovering s" "\<not> magnitude (dm_phaseError m) \<ge> word_of_int (sp_recoveryEnterThresholdNs ?p)"
    by blast
  then show ?thesis
  proof cases
    case enter
    then show ?thesis using h by (intro exI [of _ True] exI [of _ 0]) (simp add: update_recovery_def)
  next
    case held
    define x where "x = (if magnitude (sv_filteredPhaseNs s) \<le> word_of_int (sp_recoveryExitThresholdNs ?p) \<and>
        magnitude (sv_filteredFrequencyPpm s) \<le> word_of_int (sp_recoveryExitFrequencyPpm ?p)
      then min (sp_recoveryExitHoldNs ?p) (sv_recoveryExitHeldNs s + elapsed) else 0)"
    have x: "0 \<le> x" "x \<le> sp_recoveryExitHoldNs ?p" using h assms(3) by (auto simp: x_def)
    have "update_recovery m elapsed s = Some (if x \<ge> sp_recoveryExitHoldNs ?p then s\<lparr>sv_recovering := False, sv_recoveryExitHeldNs := 0\<rparr>
        else s\<lparr>sv_recoveryExitHeldNs := x\<rparr>)"
      using held sum unfolding update_recovery_def x_def Let_def by simp
    moreover have "s\<lparr>sv_recoveryExitHeldNs := x\<rparr> = s\<lparr>sv_recovering := True, sv_recoveryExitHeldNs := x\<rparr>" using held by simp
    ultimately show ?thesis using x h(3)
      by (intro exI [of _ "\<not> x \<ge> sp_recoveryExitHoldNs ?p"] exI [of _ "if x \<ge> sp_recoveryExitHoldNs ?p then 0 else x"]) (simp split: if_splits)
  next
    case idle
    then have "s = s\<lparr>sv_recovering := False, sv_recoveryExitHeldNs := sv_recoveryExitHeldNs s\<rparr>" by simp
    moreover have "update_recovery m elapsed s = Some s" using idle by (simp add: update_recovery_def)
    ultimately show ?thesis using h by (intro exI [of _ False] exI [of _ "sv_recoveryExitHeldNs s"]) simp
  qed
qed

lemma integrate_ok:
  assumes "\<bar>sv_integralPpm s\<bar> \<le> sp_integratorLimitPpm (sv_policy s)" and "sp_integratorLimitPpm (sv_policy s) \<le> 5000"
    and "\<bar>base\<bar> \<le> 9000000" and "\<bar>increment\<bar> \<le> 9000000"
  shows "\<exists>i. integrate base increment limit s = Some (s\<lparr>sv_integralPpm := i\<rparr>) \<and> \<bar>i\<bar> \<le> sp_integratorLimitPpm (sv_policy s)"
proof -
  let ?L = "sp_integratorLimitPpm (sv_policy s)"
  define c where "c = max (- ?L) (min (sv_integralPpm s + increment) ?L)"
  have L: "0 \<le> ?L" using assms(1) by simp
  have c: "\<bar>c\<bar> \<le> ?L" using L by (auto simp: c_def)
  have "in_int64 (sv_integralPpm s + increment)" "in_int64 (base + c)" using assms c by (auto intro!: in_int64_abs)
  moreover have "cast_int c = c" using c assms(2) by (intro cast_int_id) (auto simp: in_int32_def)
  moreover have "clamp (sv_integralPpm s + increment) (- ?L) ?L = Some c" using L by (simp add: clamp_Some c_def)
  ultimately show ?thesis
    using c assms(1) exI [of "\<lambda>i. s = s\<lparr>sv_integralPpm := i\<rparr> \<and> \<bar>i\<bar> \<le> ?L" "sv_integralPpm s"] by (auto simp: integrate_def Let_def)
qed

definition slew_limit :: "int \<Rightarrow> MediaAudioDriftServo \<Rightarrow> int" where
  "slew_limit elapsed s = max 1 (nearest (sp_maximumSlewPpmPerSecond (sv_policy s) * elapsed) AudioNanosecondsPerSecond)"

lemma control_law_ok:
  assumes "policy_ok (sv_policy s)" and "control_ok s" and "0 < elapsed" and "elapsed \<le> 1000000000"
  shows "\<exists>i stretch. control_law elapsed s = Some (s\<lparr>sv_integralPpm := i\<rparr>, stretch) \<and> \<bar>i\<bar> \<le> sp_integratorLimitPpm (sv_policy s) \<and>
     \<bar>stretch\<bar> \<le> sp_recoveryCorrectionLimitPpm (sv_policy s) \<and> \<bar>stretch - sv_lastStretchPpm s\<bar> \<le> slew_limit elapsed s \<and>
     (\<bar>stretch\<bar> \<le> active_limit s \<or> \<bar>stretch\<bar> \<le> \<bar>sv_lastStretchPpm s\<bar>)"
proof -
  let ?p = "sv_policy s"
  define x where "x = (if magnitude (sv_filteredPhaseNs s) \<le> word_of_int (sp_deadbandNs ?p) then 0 else sv_filteredPhaseNs s)"
  define f where "f = (if magnitude (sv_filteredFrequencyPpm s) \<le> word_of_int (sp_frequencyDeadbandPpm ?p) then 0 else sv_filteredFrequencyPpm s)"
  note ok = assms(1,2) [unfolded policy_ok_def control_ok_def]
  have x: "\<bar>x\<bar> \<le> 500000000" and f: "\<bar>f\<bar> \<le> 1000000" using ok by (auto simp: x_def f_def)
  have pg: "\<bar>sp_proportionalGainPpmPerSecond ?p\<bar> \<le> 100000" "\<bar>sp_integralGainPpmPerSecondSquared ?p\<bar> \<le> 100000" using ok by simp_all
  have ff: "\<bar>sp_frequencyFeedForwardNumerator ?p\<bar> \<le> sp_frequencyFeedForwardDenominator ?p" "0 < sp_frequencyFeedForwardDenominator ?p"
      "sp_frequencyFeedForwardDenominator ?p < INT64_MAX" "1000000 * sp_frequencyFeedForwardDenominator ?p \<le> 9000000000000000000"
    using ok by (simp_all add: INT64_MAX_def)
  have ns: "0 < AudioNanosecondsPerSecond" "AudioNanosecondsPerSecond < INT64_MAX" by (simp_all add: quantizer_constants)
  note pp = round_product [OF x pg(1) _ ns] and fp = round_product [OF f ff(1,4,2,3)] and ip = round_product [OF x pg(2) _ ns]
  define P where "P = nearest (x * sp_proportionalGainPpmPerSecond ?p) AudioNanosecondsPerSecond"
  define F where "F = nearest (f * sp_frequencyFeedForwardNumerator ?p) (sp_frequencyFeedForwardDenominator ?p)"
  define R where "R = nearest (x * sp_integralGainPpmPerSecondSquared ?p) AudioNanosecondsPerSecond"
  have P: "\<bar>P\<bar> \<le> 50000" unfolding P_def by (rule pp(3)) (simp_all add: quantizer_constants)
  have F: "\<bar>F\<bar> \<le> 1000000" unfolding F_def by (rule fp(3)) simp
  have R: "\<bar>R\<bar> \<le> 50000" unfolding R_def by (rule ip(3)) (simp_all add: quantizer_constants)
  have e: "\<bar>elapsed\<bar> \<le> 1000000000" using assms(3,4) by simp
  note rp = round_product [OF R e _ ns]
  define I where "I = nearest (R * elapsed) AudioNanosecondsPerSecond"
  have I: "\<bar>I\<bar> \<le> 50000" unfolding I_def by (rule rp(3)) (simp_all add: quantizer_constants)
  have PF: "\<bar>P + F\<bar> \<le> 9000000" "\<bar>I\<bar> \<le> 9000000" using P F I by linarith+
  have il: "\<bar>sv_integralPpm s\<bar> \<le> sp_integratorLimitPpm ?p" "sp_integratorLimitPpm ?p \<le> 5000" using ok by linarith+
  obtain i where i: "integrate (P + F) I (active_limit s) s = Some (s\<lparr>sv_integralPpm := i\<rparr>)" "\<bar>i\<bar> \<le> sp_integratorLimitPpm ?p"
    using integrate_ok [OF il PF, of "active_limit s"] by auto
  have limit: "0 < active_limit s" "active_limit s \<le> sp_recoveryCorrectionLimitPpm ?p" "sp_recoveryCorrectionLimitPpm ?p \<le> 5000"
    using ok by (auto simp: active_limit_def)
  have sg: "\<bar>sp_maximumSlewPpmPerSecond ?p\<bar> \<le> 1000" using ok by simp
  note sp = round_product [OF sg e _ ns]
  have slew: "1 \<le> slew_limit elapsed s" "slew_limit elapsed s \<le> 1000"
    using sp(3) [of 1000] by (simp_all add: slew_limit_def quantizer_constants)
  define T where "T = max (- active_limit s) (min (P + F + i) (active_limit s))"
  have T: "\<bar>T\<bar> \<le> active_limit s" using limit(1) by (auto simp: T_def)
  define S where "S = max (sv_lastStretchPpm s - slew_limit elapsed s) (min T (sv_lastStretchPpm s + slew_limit elapsed s))"
  have l: "\<bar>sv_lastStretchPpm s\<bar> \<le> sp_recoveryCorrectionLimitPpm ?p" using ok by simp
  have S: "\<bar>S\<bar> \<le> sp_recoveryCorrectionLimitPpm ?p" "\<bar>S - sv_lastStretchPpm s\<bar> \<le> slew_limit elapsed s" "\<bar>S\<bar> \<le> active_limit s \<or> \<bar>S\<bar> \<le> \<bar>sv_lastStretchPpm s\<bar>"
    using T l slew(1) limit(1,2) unfolding S_def by (auto simp: max_def min_def abs_if split: if_splits)
  have in64: "in_int64 (P + F)" "in_int64 (P + F + i)" "in_int64 (sv_lastStretchPpm s - slew_limit elapsed s)" "in_int64 (sv_lastStretchPpm s + slew_limit elapsed s)"
    using PF(1) i(2) il l slew limit(3) by (auto intro!: in_int64_abs)
  have in32: "cast_int T = T" "cast_int S = S" using T S(1) limit(2,3) by (auto intro!: cast_int_id simp: in_int32_def)
  have clamps: "clamp (P + F + i) (- active_limit s) (active_limit s) = Some T"
      "clamp T (sv_lastStretchPpm s - slew_limit elapsed s) (sv_lastStretchPpm s + slew_limit elapsed s) = Some S"
    using limit(1) slew(1) by (simp_all add: clamp_Some T_def S_def)
  have "control_law elapsed s = Some (s\<lparr>sv_integralPpm := i\<rparr>, S)"
    unfolding control_law_def Let_def x_def [symmetric] f_def [symmetric]
    using pp(1,2) fp(1,2) ip(1,2) rp(1,2) sp(1,2) i(1) in64 in32 clamps
    by (simp flip: P_def F_def R_def I_def slew_limit_def)
  then show ?thesis using i(2) S by blast
qed

section \<open>Every update is defined\<close>

lemma policy_ok_bounds:
  "policy_ok p \<Longrightarrow> 0 < sp_hardDiscontinuityThresholdNs p" "policy_ok p \<Longrightarrow> 0 < sp_maximumMeasuredFrequencyPpm p"
  "policy_ok p \<Longrightarrow> 0 < sp_recoveryCorrectionLimitPpm p" "policy_ok p \<Longrightarrow> 0 < sp_integratorLimitPpm p" "policy_ok p \<Longrightarrow> 0 < sp_recoveryExitHoldNs p"
  "policy_ok p \<Longrightarrow> sp_hardDiscontinuityThresholdNs p \<le> 500000000" "policy_ok p \<Longrightarrow> sp_maximumMeasuredFrequencyPpm p \<le> 1000000"
  "policy_ok p \<Longrightarrow> sp_recoveryCorrectionLimitPpm p \<le> 5000" "policy_ok p \<Longrightarrow> sp_maximumMeasurementGapNs p \<le> 1000000000"
  by (simp_all add: policy_ok_def)

lemma cleared_control_ok:
  "policy_ok (sv_policy s) \<Longrightarrow> 0 \<le> index \<Longrightarrow> in_int64 index \<Longrightarrow>
   control_ok (clearControlState s\<lparr>sv_quantizer := q, sv_lastSequence := sequence, sv_lastEffectiveOutputSampleIndex := index\<rparr>)"
  using policy_ok_bounds [of "sv_policy s"] by (simp add: control_ok_def clearControlState_def in_int64_def INT64_MIN_def INT64_MAX_def)

lemma reset_quantizer_ok: "quantizer_ok q \<Longrightarrow> 0 \<le> index \<Longrightarrow> in_int64 index \<Longrightarrow>
  resetEpoch index q = (q', r) \<Longrightarrow> quantizer_ok q' \<and> r = Inr ()"
  by (auto simp: resetEpoch_def quantizer_ok_def quantizer_constants in_int64_def)

lemma reacquire_ok:
  assumes "servo_ok s" and "0 \<le> dm_effectiveOutputSampleIndex m" and "in_int64 (dm_effectiveOutputSampleIndex m)"
  shows "\<exists>q d. servo_reacquire m generation frequency s =
      (clearControlState s\<lparr>sv_quantizer := q, sv_lastSequence := dm_sequence m, sv_lastEffectiveOutputSampleIndex := dm_effectiveOutputSampleIndex m\<rparr>, Inr d) \<and>
      quantizer_ok q \<and> asd_command d = None"
proof -
  have c: "sv_quantizer (clearControlState s) = sv_quantizer s" by (simp add: clearControlState_def)
  obtain q r where q: "resetEpoch (dm_effectiveOutputSampleIndex m) (sv_quantizer s) = (q, r)" by fastforce
  then have "quantizer_ok q" "r = Inr ()" using reset_quantizer_ok [OF _ assms(2,3) q] assms(1) by (simp_all add: servo_ok_def)
  then show ?thesis using q
    by (intro exI [of _ q] exI [of _ "decision_reacquire generation (dm_sequence m) (dm_effectiveOutputSampleIndex m) (dm_phaseError m) frequency"])
      (simp add: servo_reacquire_def clearCorrectionEpoch_def c decision_reacquire_def)
qed

lemma servo_ok_cleared:
  assumes "servo_ok s" and "0 \<le> index" and "in_int64 index" and "quantizer_ok q"
  shows "servo_ok (clearControlState s\<lparr>sv_quantizer := q, sv_lastSequence := sequence, sv_lastEffectiveOutputSampleIndex := index\<rparr>)"
  using assms cleared_control_ok [OF _ assms(2,3), where q = q and sequence = sequence and s = s] by (simp add: servo_ok_def clearControlState_def)

lemma publish_ok:
  assumes "quantizer_ok (sv_quantizer s)" and "in_int64 (dm_effectiveOutputSampleIndex m)" and "in_int32 stretch"
  shows "\<exists>q r. publishWindowIfDue m stretch s = Some (s\<lparr>sv_quantizer := q\<rparr>, r) \<and> quantizer_ok q \<and>
     (\<forall>d c. r = Inr d \<and> asd_command d = Some c \<longrightarrow> cc_stretchPpm c = stretch)"
proof -
  let ?t = "\<lparr>ct_filteredPhaseError = sv_filteredPhaseNs s, ct_filteredFrequencyPpm = sv_filteredFrequencyPpm s, ct_integralPpm = sv_integralPpm s,
      ct_recovering = sv_recovering s\<rparr>"
  let ?o = "schedule_outcome (sv_generation s) (dm_sequence m) (dm_effectiveOutputSampleIndex m) stretch ?t (sv_quantizer s)"
  obtain q c where o: "?o = (q, c)" by fastforce
  have "quantizer_ok q" using schedule_outcome_ok [OF assms(1) o] by simp
  moreover have "cc_stretchPpm command = stretch" if "c = Inr (Some command)" for command
    using o that by (auto simp: schedule_outcome_def Let_def split: if_splits)
  ultimately show ?thesis using quantizer_schedule_eq [OF assms, of "sv_generation s" "dm_sequence m" ?t] o
    by (cases c) (auto simp: publishWindowIfDue_def Let_def decision_none_def decision_apply_def split: option.splits)
qed

lemma advance_ok:
  assumes "policy_ok (sv_policy s)" and "sv_outputSampleRate s = sp_outputSampleRate (sv_policy s)" and "0 < elapsed" and "elapsed \<le> 1000000000"
  shows "\<exists>a. maximum_advance elapsed s = Some a"
proof -
  let ?r = "sv_outputSampleRate s" and ?l = "sp_recoveryCorrectionLimitPpm (sv_policy s)"
  have r: "\<bar>?r\<bar> \<le> 384000" "0 < ?r" and l: "\<bar>?l\<bar> \<le> 5000" "0 \<le> ?l" using assms(1,2) by (simp_all add: policy_ok_def)
  have q: "tdiv elapsed AudioNanosecondsPerSecond = elapsed div AudioNanosecondsPerSecond" "tmod elapsed AudioNanosecondsPerSecond = elapsed mod AudioNanosecondsPerSecond"
    using assms(3) by (simp_all add: tmod_def tdiv_nonneg minus_div_mult_eq_mod quantizer_constants)
  have e: "0 \<le> elapsed div AudioNanosecondsPerSecond" "elapsed div AudioNanosecondsPerSecond \<le> 1" "0 \<le> elapsed mod AudioNanosecondsPerSecond" "elapsed mod AudioNanosecondsPerSecond \<le> 1000000000"
    using assms(3,4) zdiv_mono1 [of elapsed 1000000000 1000000000] by (simp_all add: quantizer_constants pos_imp_zdiv_nonneg_iff less_imp_le)
  define w where "w = elapsed div AudioNanosecondsPerSecond * ?r"
  define f where "f = elapsed mod AudioNanosecondsPerSecond * ?r"
  have w: "\<bar>w\<bar> \<le> 1 * 384000" unfolding w_def using e r by (intro abs_product_le) simp_all
  have f: "\<bar>f\<bar> \<le> 1000000000 * 384000" unfolding f_def using e r by (intro abs_product_le) simp_all
  have f0: "0 \<le> f" unfolding f_def using e(3) r(2) by simp
  define n where "n = w + (f + AudioNanosecondsPerSecond - 1) div AudioNanosecondsPerSecond"
  have d: "0 \<le> (f + AudioNanosecondsPerSecond - 1) div AudioNanosecondsPerSecond" "(f + AudioNanosecondsPerSecond - 1) div AudioNanosecondsPerSecond \<le> 384001"
    using f f0 zdiv_mono1 [of "f + AudioNanosecondsPerSecond - 1" "384001 * AudioNanosecondsPerSecond" AudioNanosecondsPerSecond]
    by (simp_all add: quantizer_constants pos_imp_zdiv_nonneg_iff)
  have n: "\<bar>n\<bar> \<le> 1000000" using w d by (simp add: n_def)
  have n0: "0 \<le> n" using d e r by (simp add: n_def w_def)
  have nl: "\<bar>n * ?l\<bar> \<le> 1000000 * 5000" by (rule abs_product_le [OF n l(1)])
  have nl0: "0 \<le> n * ?l" using n0 l(2) by simp
  have a: "0 \<le> (n * ?l + PartsPerMillion - 1) div PartsPerMillion" "(n * ?l + PartsPerMillion - 1) div PartsPerMillion \<le> 5001"
    using nl nl0 zdiv_mono1 [of "n * ?l + PartsPerMillion - 1" "5001 * PartsPerMillion" PartsPerMillion]
    by (simp_all add: quantizer_constants pos_imp_zdiv_nonneg_iff)
  have t: "tdiv (f + AudioNanosecondsPerSecond - 1) AudioNanosecondsPerSecond = (f + AudioNanosecondsPerSecond - 1) div AudioNanosecondsPerSecond"
      "tdiv (n * ?l + PartsPerMillion - 1) PartsPerMillion = (n * ?l + PartsPerMillion - 1) div PartsPerMillion"
    using f0 nl0 by (simp_all add: tdiv_nonneg quantizer_constants)
  have "in_int64 w" "in_int64 f" "in_int64 (f + AudioNanosecondsPerSecond)" "in_int64 n" "in_int64 (n * ?l)" "in_int64 (n * ?l + PartsPerMillion)"
      "in_int64 (n + (n * ?l + PartsPerMillion - 1) div PartsPerMillion)" "in_int64 (n + (n * ?l + PartsPerMillion - 1) div PartsPerMillion + 2)"
    using w f n nl a by (auto intro!: in_int64_abs simp: quantizer_constants)
  then show ?thesis unfolding maximum_advance_def q by (simp add: t flip: w_def f_def n_def)
qed

text \<open>What an update of a lock that is kept may do with the correction.\<close>

definition bounded_step :: "int \<Rightarrow> MediaAudioDriftServo \<Rightarrow> MediaAudioDriftServo \<Rightarrow> int \<Rightarrow> bool" where
  "bounded_step elapsed s s' stretch \<longleftrightarrow>
     \<bar>stretch\<bar> \<le> sp_recoveryCorrectionLimitPpm (sv_policy s) \<and> \<bar>stretch - sv_lastStretchPpm s\<bar> \<le> slew_limit elapsed s \<and>
     (sv_recovering s' \<or> \<bar>stretch\<bar> \<le> sp_normalCorrectionLimitPpm (sv_policy s) \<or> \<bar>stretch\<bar> \<le> \<bar>sv_lastStretchPpm s\<bar>)"

text \<open>\<^verbatim>\<open>processCurrent\<close> behind the frequency check.\<close>

definition process_locked ::
  "MediaAudioDriftMeasurement \<Rightarrow> int \<Rightarrow> int \<Rightarrow> MediaAudioDriftServo \<Rightarrow> (MediaAudioDriftServo \<times> (MediaAvSyncError + MediaAudioServoDecision)) option" where
  "process_locked m elapsed raw s = do {
     s \<leftarrow> filter_measurement m elapsed raw s;
     s \<leftarrow> update_recovery m elapsed s;
     (s, stretch) \<leftarrow> control_law elapsed s;
     let s = s\<lparr>sv_lastSourceEndOnMasterNs := dm_sourceEndOnMaster m, sv_lastRawPhaseNs := dm_phaseError m, sv_lastSequence := dm_sequence m,
       sv_lastEffectiveOutputSampleIndex := dm_effectiveOutputSampleIndex m, sv_lastStretchPpm := stretch\<rparr>;
     publishWindowIfDue m stretch s
   }"

lemma process_raw:
  assumes "policy_ok (sv_policy s)" and "\<bar>dm_phaseError m\<bar> < sp_hardDiscontinuityThresholdNs (sv_policy s)"
    and "\<bar>sv_lastRawPhaseNs s\<bar> < sp_hardDiscontinuityThresholdNs (sv_policy s)" and "0 < elapsed" and "elapsed \<le> 1000000000"
  defines "raw \<equiv> nearest ((dm_phaseError m - sv_lastRawPhaseNs s) * PartsPerMillion) elapsed"
  shows "processCurrent m elapsed s =
     (if sp_maximumMeasuredFrequencyPpm (sv_policy s) < \<bar>raw\<bar> then Some (servo_reacquire m (sv_generation s) (clampInt64ToInt raw) s)
      else process_locked m elapsed raw s)"
proof -
  let ?d = "dm_phaseError m - sv_lastRawPhaseNs s"
  note b = policy_ok_bounds [OF assms(1)]
  have d: "\<bar>?d\<bar> \<le> 1000000000" using assms(2,3) b(6) by linarith
  have in_d: "in_int64 ?d" using d by (intro in_int64_abs) simp
  have pm: "\<bar>PartsPerMillion\<bar> \<le> 1000000" by (simp add: quantizer_constants)
  note rp = round_product [OF d pm _ assms(4)]
  have el: "elapsed < INT64_MAX" using assms(5) by (simp add: INT64_MAX_def)
  have "\<bar>raw\<bar> \<le> 1000000000 * 1000000" unfolding raw_def
    using nearest_abs_le [OF assms(4), of "?d * PartsPerMillion"] abs_product_le [OF d pm] by linarith
  then have "in_int64 raw" by (intro in_int64_abs) simp
  then have cmp: "word_of_int (sp_maximumMeasuredFrequencyPpm (sv_policy s)) < magnitude raw \<longleftrightarrow> sp_maximumMeasuredFrequencyPpm (sv_policy s) < \<bar>raw\<bar>"
    using b(2,7) by (intro magnitude_compare(3)) (simp_all add: INT64_MAX_def)
  show ?thesis unfolding processCurrent_def process_locked_def using rp(1,2) el in_d cmp by (simp flip: raw_def)
qed

lemma locked_ok:
  assumes "servo_ok s" and "measurement_typed m" and "0 \<le> dm_effectiveOutputSampleIndex m"
    and "\<bar>dm_phaseError m\<bar> < sp_hardDiscontinuityThresholdNs (sv_policy s)" and "0 < elapsed" and "elapsed \<le> 1000000000"
    and "\<bar>raw\<bar> \<le> sp_maximumMeasuredFrequencyPpm (sv_policy s)"
  shows "\<exists>s' r. process_locked m elapsed raw s = Some (s', r) \<and> servo_ok s' \<and> sv_policy s' = sv_policy s \<and>
     (\<forall>d c. r = Inr d \<and> asd_command d = Some c \<longrightarrow> bounded_step elapsed s s' (cc_stretchPpm c))"
proof -
  let ?p = "sv_policy s" and ?index = "dm_effectiveOutputSampleIndex m"
  have pol: "policy_ok ?p" and con: "control_ok s" and qok: "quantizer_ok (sv_quantizer s)" and rate: "sv_outputSampleRate s = sp_outputSampleRate ?p"
    using assms(1) by (simp_all add: servo_ok_def)
  have idx: "in_int64 ?index" "in_int64 (dm_sourceEndOnMaster m)" using assms(2) by (simp_all add: measurement_typed_def)
  from filter_ok [OF pol con assms(4,7,5,6)] obtain x f where
    s1: "filter_measurement m elapsed raw s = Some (s\<lparr>sv_filteredPhaseNs := x, sv_filteredFrequencyPpm := f\<rparr>)"
      "\<bar>x\<bar> < sp_hardDiscontinuityThresholdNs ?p" "\<bar>f\<bar> \<le> sp_maximumMeasuredFrequencyPpm ?p" by blast
  let ?s1 = "s\<lparr>sv_filteredPhaseNs := x, sv_filteredFrequencyPpm := f\<rparr>"
  have c1: "policy_ok (sv_policy ?s1)" "control_ok ?s1" using pol con s1(2,3) by (simp_all add: control_ok_def)
  from recovery_ok [OF c1 assms(5,6)] obtain g h where
    s2: "update_recovery m elapsed ?s1 = Some (?s1\<lparr>sv_recovering := g, sv_recoveryExitHeldNs := h\<rparr>)" "0 \<le> h" "h \<le> sp_recoveryExitHoldNs ?p" by fastforce
  let ?s2 = "?s1\<lparr>sv_recovering := g, sv_recoveryExitHeldNs := h\<rparr>"
  have c2: "policy_ok (sv_policy ?s2)" "control_ok ?s2" using c1 s2(2,3) by (simp_all add: control_ok_def)
  from control_law_ok [OF c2 assms(5,6)] obtain i stretch where
    s3: "control_law elapsed ?s2 = Some (?s2\<lparr>sv_integralPpm := i\<rparr>, stretch)" "\<bar>i\<bar> \<le> sp_integratorLimitPpm ?p"
      "\<bar>stretch\<bar> \<le> sp_recoveryCorrectionLimitPpm ?p" "\<bar>stretch - sv_lastStretchPpm s\<bar> \<le> slew_limit elapsed ?s2"
      "\<bar>stretch\<bar> \<le> active_limit ?s2 \<or> \<bar>stretch\<bar> \<le> \<bar>sv_lastStretchPpm s\<bar>" by auto
  let ?s3 = "?s2\<lparr>sv_integralPpm := i, sv_lastSourceEndOnMasterNs := dm_sourceEndOnMaster m, sv_lastRawPhaseNs := dm_phaseError m,
    sv_lastSequence := dm_sequence m, sv_lastEffectiveOutputSampleIndex := ?index, sv_lastStretchPpm := stretch\<rparr>"
  have q3: "quantizer_ok (sv_quantizer ?s3)" using qok by simp
  have "in_int32 stretch" using s3(3) policy_ok_bounds(8) [OF pol] by (auto simp: in_int32_def)
  from publish_ok [OF q3 idx(1) this] obtain q r where
    s4: "publishWindowIfDue m stretch ?s3 = Some (?s3\<lparr>sv_quantizer := q\<rparr>, r)" "quantizer_ok q"
      "\<forall>d c. r = Inr d \<and> asd_command d = Some c \<longrightarrow> cc_stretchPpm c = stretch" by blast
  have "servo_ok (?s3\<lparr>sv_quantizer := q\<rparr>)"
    using pol c2(2) s3(2,3) assms(3,4) idx rate s4(2) by (simp add: servo_ok_def control_ok_def in_int64_def)
  moreover have "bounded_step elapsed s (?s3\<lparr>sv_quantizer := q\<rparr>) stretch"
    using s3(3-5) by (auto simp: bounded_step_def slew_limit_def active_limit_def)
  moreover have "process_locked m elapsed raw s = Some (?s3\<lparr>sv_quantizer := q\<rparr>, r)"
    using s1(1) s2(1) s3(1) s4(1) by (simp add: process_locked_def Let_def)
  ultimately show ?thesis using s4(3) by (intro exI [of _ "?s3\<lparr>sv_quantizer := q\<rparr>"] exI [of _ r]) auto
qed

lemma process_ok:
  assumes "servo_ok s" and "measurement_typed m" and "0 \<le> dm_effectiveOutputSampleIndex m"
    and "\<bar>dm_phaseError m\<bar> < sp_hardDiscontinuityThresholdNs (sv_policy s)" and "0 < elapsed" and "elapsed \<le> 1000000000"
  shows "\<exists>s' r. processCurrent m elapsed s = Some (s', r) \<and> servo_ok s' \<and> sv_policy s' = sv_policy s \<and>
     (\<forall>d c. r = Inr d \<and> asd_command d = Some c \<longrightarrow> bounded_step elapsed s s' (cc_stretchPpm c))"
proof -
  have ok: "policy_ok (sv_policy s)" "\<bar>sv_lastRawPhaseNs s\<bar> < sp_hardDiscontinuityThresholdNs (sv_policy s)"
      "in_int64 (dm_effectiveOutputSampleIndex m)"
    using assms(1,2) by (simp_all add: servo_ok_def control_ok_def measurement_typed_def)
  define raw where "raw = nearest ((dm_phaseError m - sv_lastRawPhaseNs s) * PartsPerMillion) elapsed"
  note start = process_raw [OF ok(1) assms(4) ok(2) assms(5,6), folded raw_def]
  show ?thesis
  proof (cases "sp_maximumMeasuredFrequencyPpm (sv_policy s) < \<bar>raw\<bar>")
    case True
    obtain q d where "servo_reacquire m (sv_generation s) (clampInt64ToInt raw) s =
        (clearControlState s\<lparr>sv_quantizer := q, sv_lastSequence := dm_sequence m,
           sv_lastEffectiveOutputSampleIndex := dm_effectiveOutputSampleIndex m\<rparr>, Inr d)" "quantizer_ok q" "asd_command d = None"
      using reacquire_ok [OF assms(1,3) ok(3)] by blast
    then show ?thesis using True servo_ok_cleared [OF assms(1,3) ok(3)] by (simp add: start clearControlState_def)
  next
    case False
    then show ?thesis using locked_ok [OF assms, of raw] by (simp add: start)
  qed
qed

lemma first_ok:
  assumes "servo_ok s" and "measurement_typed m" and "0 \<le> dm_effectiveOutputSampleIndex m"
    and "\<bar>dm_phaseError m\<bar> < sp_hardDiscontinuityThresholdNs (sv_policy s)"
  shows "\<exists>s' r. publishWindowIfDue m 0 (s\<lparr>sv_initialized := True, sv_lastSourceEndOnMasterNs := dm_sourceEndOnMaster m, sv_lastRawPhaseNs := dm_phaseError m,
       sv_filteredPhaseNs := dm_phaseError m, sv_recovering := recovering, sv_lastSequence := dm_sequence m,
       sv_lastEffectiveOutputSampleIndex := dm_effectiveOutputSampleIndex m\<rparr>) = Some (s', r) \<and>
     servo_ok s' \<and> sv_policy s' = sv_policy s \<and> (\<forall>d c. r = Inr d \<and> asd_command d = Some c \<longrightarrow> cc_stretchPpm c = 0)"
proof -
  let ?s = "s\<lparr>sv_initialized := True, sv_lastSourceEndOnMasterNs := dm_sourceEndOnMaster m, sv_lastRawPhaseNs := dm_phaseError m,
     sv_filteredPhaseNs := dm_phaseError m, sv_recovering := recovering, sv_lastSequence := dm_sequence m,
     sv_lastEffectiveOutputSampleIndex := dm_effectiveOutputSampleIndex m\<rparr>"
  have q: "quantizer_ok (sv_quantizer ?s)" "in_int64 (dm_effectiveOutputSampleIndex m)" "in_int32 0"
    using assms(1,2) by (simp_all add: servo_ok_def measurement_typed_def in_int32_def)
  obtain q r where "publishWindowIfDue m 0 ?s = Some (?s\<lparr>sv_quantizer := q\<rparr>, r)" "quantizer_ok q"
      "\<forall>d c. r = Inr d \<and> asd_command d = Some c \<longrightarrow> cc_stretchPpm c = 0"
    using publish_ok [OF q] by blast
  moreover have "servo_ok (?s\<lparr>sv_quantizer := q\<rparr>)" if "quantizer_ok q" for q
    using assms that by (simp add: servo_ok_def control_ok_def measurement_typed_def in_int64_def)
  ultimately show ?thesis by (intro exI [of _ "?s\<lparr>sv_quantizer := q\<rparr>"] exI [of _ r]) simp
qed

text \<open>The end of \<^verbatim>\<open>update\<close>, when a lock is held and \<open>elapsed\<close> nanoseconds have passed on the master clock.\<close>

definition update_elapsed ::
  "MediaAudioDriftMeasurement \<Rightarrow> int \<Rightarrow> MediaAudioDriftServo \<Rightarrow> (MediaAudioDriftServo \<times> (MediaAvSyncError + MediaAudioServoDecision)) option" where
  "update_elapsed m elapsed s =
     (if elapsed \<le> 0 then Some (s, Inl (servo_error InvalidAudioServoMeasurement ''update'' (Some m) ''canonical source end must increase monotonically'' s))
      else if elapsed < sp_minimumUpdateIntervalNs (sv_policy s)
      then Some (s\<lparr>sv_lastSequence := dm_sequence m, sv_lastEffectiveOutputSampleIndex := dm_effectiveOutputSampleIndex m\<rparr>,
             Inr (decision_none (sv_generation s) (dm_sequence m) (dm_effectiveOutputSampleIndex m) (sv_filteredPhaseNs s) (sv_filteredFrequencyPpm s)
               (sv_integralPpm s) (sv_recovering s)))
      else if elapsed > sp_maximumMeasurementGapNs (sv_policy s) then Some (servo_reacquire m (sv_generation s) 0 s)
      else do {
        advance \<leftarrow> maximum_advance elapsed s;
        moved \<leftarrow> i64 (dm_effectiveOutputSampleIndex m - sv_lastEffectiveOutputSampleIndex s);
        if moved > advance then Some (s, Inl (servo_error InvalidAudioServoMeasurement ''update'' (Some m)
          ''output sample index advanced beyond canonical source elapsed-time bound'' s))
        else processCurrent m elapsed s
      })"

lemma reacquired_ok:
  assumes "servo_ok s" and "measurement_typed m" and "0 \<le> dm_effectiveOutputSampleIndex m"
  shows "\<exists>s' r. Some (servo_reacquire m generation frequency s) = Some (s', r) \<and> servo_ok s' \<and> sv_policy s' = sv_policy s \<and>
    (\<forall>d c. r = Inr d \<and> asd_command d = Some c \<longrightarrow> P s' c)"
proof -
  have index: "in_int64 (dm_effectiveOutputSampleIndex m)" using assms(2) by (simp add: measurement_typed_def)
  obtain q d where "servo_reacquire m generation frequency s =
      (clearControlState s\<lparr>sv_quantizer := q, sv_lastSequence := dm_sequence m, sv_lastEffectiveOutputSampleIndex := dm_effectiveOutputSampleIndex m\<rparr>, Inr d)"
      "quantizer_ok q" "asd_command d = None"
    using reacquire_ok [OF assms(1,3) index] by blast
  then show ?thesis using servo_ok_cleared [OF assms(1,3) index] by (simp add: clearControlState_def)
qed

lemma elapsed_ok:
  assumes "servo_ok s" and "measurement_typed m" and "0 \<le> dm_effectiveOutputSampleIndex m" and "sv_lastEffectiveOutputSampleIndex s \<le> dm_effectiveOutputSampleIndex m"
    and "\<bar>dm_phaseError m\<bar> < sp_hardDiscontinuityThresholdNs (sv_policy s)"
  shows "\<exists>s' r. update_elapsed m elapsed s = Some (s', r) \<and> servo_ok s' \<and> sv_policy s' = sv_policy s \<and>
     (\<forall>d c. r = Inr d \<and> asd_command d = Some c \<longrightarrow> bounded_step elapsed s s' (cc_stretchPpm c))"
proof -
  have ok: "policy_ok (sv_policy s)" "sv_outputSampleRate s = sp_outputSampleRate (sv_policy s)" "0 \<le> sv_lastEffectiveOutputSampleIndex s"
    using assms(1) by (simp_all add: servo_ok_def control_ok_def)
  have moved: "in_int64 (dm_effectiveOutputSampleIndex m - sv_lastEffectiveOutputSampleIndex s)"
    using assms(2,4) ok(3) by (simp add: measurement_typed_def in_int64_def INT64_MIN_def)
  have gap: "sp_maximumMeasurementGapNs (sv_policy s) \<le> 1000000000" by (rule policy_ok_bounds(9) [OF ok(1)])
  consider (bad) "elapsed \<le> 0" | (early) "0 < elapsed" "elapsed < sp_minimumUpdateIntervalNs (sv_policy s)"
    | (lost) "0 < elapsed" "\<not> elapsed < sp_minimumUpdateIntervalNs (sv_policy s)" "elapsed > sp_maximumMeasurementGapNs (sv_policy s)"
    | (locked) "0 < elapsed" "\<not> elapsed < sp_minimumUpdateIntervalNs (sv_policy s)" "\<not> elapsed > sp_maximumMeasurementGapNs (sv_policy s)"
    by linarith
  then show ?thesis
  proof cases
    case bad
    then show ?thesis using assms(1) by (simp add: update_elapsed_def)
  next
    case early
    have "servo_ok (s\<lparr>sv_lastSequence := dm_sequence m, sv_lastEffectiveOutputSampleIndex := dm_effectiveOutputSampleIndex m\<rparr>)"
      using assms(1-3) by (simp add: servo_ok_def control_ok_def measurement_typed_def in_int64_def)
    then show ?thesis using early by (simp add: update_elapsed_def decision_none_def)
  next
    case lost
    then show ?thesis using reacquired_ok [OF assms(1-3)] by (simp add: update_elapsed_def)
  next
    case locked
    then have small: "elapsed \<le> 1000000000" using gap by simp
    obtain a where "maximum_advance elapsed s = Some a" using advance_ok [OF ok(1,2) locked(1) small] by blast
    then show ?thesis using locked moved assms(1) process_ok [OF assms(1-3,5) locked(1) small] by (simp add: update_elapsed_def)
  qed
qed

lemma update_ok:
  assumes "servo_ok s" and "measurement_typed m"
  shows "\<exists>s' r. servo_update m s = Some (s', r) \<and> servo_ok s' \<and> sv_policy s' = sv_policy s \<and>
     (\<forall>d c. r = Inr d \<and> asd_command d = Some c \<longrightarrow>
        (if sv_initialized s then bounded_step (dm_sourceEndOnMaster m - sv_lastSourceEndOnMasterNs s) s s' (cc_stretchPpm c) else cc_stretchPpm c = 0))"
proof -
  let ?p = "sv_policy s" and ?index = "dm_effectiveOutputSampleIndex m"
  have pol: "policy_ok ?p" and con: "control_ok s" and qok: "quantizer_ok (sv_quantizer s)" and rate: "sv_outputSampleRate s = sp_outputSampleRate ?p"
    using assms(1) by (simp_all add: servo_ok_def)
  note b = policy_ok_bounds [OF pol]
  have typed: "in_int64 (dm_phaseError m)" "in_int64 (dm_sourceEndOnMaster m)" "in_int64 ?index" using assms(2) by (simp_all add: measurement_typed_def)
  have hard: "word_of_int (sp_hardDiscontinuityThresholdNs ?p) \<le> magnitude (dm_phaseError m) \<longleftrightarrow> sp_hardDiscontinuityThresholdNs ?p \<le> \<bar>dm_phaseError m\<bar>"
    using b(1,6) by (intro magnitude_compare(1) [OF typed(1)]) (simp_all add: INT64_MAX_def)
  consider (other) "dm_generation m \<noteq> sv_generation s"
    | (invalid) "dm_generation m = sv_generation s" "dm_sequence m = 0 \<or> dm_sequence m \<le> sv_lastSequence s \<or> ?index < 0 \<or>
        (sv_initialized s \<and> ?index < sv_lastEffectiveOutputSampleIndex s) \<or> dm_outputSampleRate m \<noteq> sv_outputSampleRate s"
    | (valid) "dm_generation m = sv_generation s" "\<not> (dm_sequence m = 0 \<or> dm_sequence m \<le> sv_lastSequence s \<or> ?index < 0 \<or>
        (sv_initialized s \<and> ?index < sv_lastEffectiveOutputSampleIndex s) \<or> dm_outputSampleRate m \<noteq> sv_outputSampleRate s)"
    by blast
  then show ?thesis
  proof cases
    case other
    then have "dm_generation m < sv_generation s \<or> sv_generation s < dm_generation m" by (simp add: neq_iff)
    then show ?thesis using assms(1)
      by (auto simp: servo_update_def Let_def decision_dropOldGeneration_def decision_reacquire_def)
  next
    case invalid
    then show ?thesis using assms(1) by (simp add: servo_update_def Let_def)
  next
    case valid
    then have i0: "0 \<le> ?index" by simp
    show ?thesis
    proof (cases "sp_hardDiscontinuityThresholdNs ?p \<le> \<bar>dm_phaseError m\<bar>")
      case True
      then show ?thesis using valid hard assms(1) reacquired_ok [OF assms i0] by (simp add: servo_update_def Let_def)
    next
      case soft: False
      show ?thesis
      proof (cases "sv_initialized s")
        case False
        then show ?thesis using first_ok [OF assms i0] valid soft hard assms(1) by (simp add: servo_update_def Let_def)
      next
        case True
        have last_end: "in_int64 (sv_lastSourceEndOnMasterNs s)" using con by (simp add: control_ok_def)
        have later: "servo_update m s = (case checkedSubtract (dm_sourceEndOnMaster m) (sv_lastSourceEndOnMasterNs s) of
            Inl _ \<Rightarrow> Some (s, Inl (servo_error InvalidAudioServoMeasurement ''update'' (Some m) ''canonical source end must increase monotonically'' s))
          | Inr elapsed \<Rightarrow> update_elapsed m elapsed s)"
          using True valid soft hard
          by (cases "checkedSubtract (dm_sourceEndOnMaster m) (sv_lastSourceEndOnMasterNs s)") (simp_all add: servo_update_def update_elapsed_def Let_def)
        have "sv_lastEffectiveOutputSampleIndex s \<le> ?index" using valid True by simp
        from elapsed_ok [OF assms i0 this] show ?thesis using True soft assms(1)
          unfolding later checkedSubtract_def by simp
      qed
    qed
  qed
qed

section \<open>Creation\<close>

text \<open>The lead is sufficient when it exceeds, by a whole sample, what the longest gap produces at the largest positive correction.\<close>

lemma lead_covers:
  assumes "0 \<le> ppm" and "ppm \<le> 2147483647" and r: "0 < rate" "rate \<le> 384000" "0 < gap" "gap \<le> 1000000000" "0 < lead" "lead \<le> 60000000000"
  shows "leadCoversWorstPositiveGap lead gap rate ppm =
    Some ((gap * rate * (PartsPerMillion + ppm) + AudioNanosecondsPerSecond * PartsPerMillion - 1) div (AudioNanosecondsPerSecond * PartsPerMillion) + 1
          \<le> lead * rate div AudioNanosecondsPerSecond)"
proof -
  let ?c = "PartsPerMillion + ppm"
  have c: "\<bar>?c\<bar> \<le> 3000000000" "0 < ?c" using assms by (simp_all add: quantizer_constants)
  have lr: "\<bar>lead * rate\<bar> \<le> 60000000000 * 384000" "0 \<le> lead * rate" using r by ((intro abs_product_le; simp), simp)
  have gr: "\<bar>gap * rate\<bar> \<le> 1000000000 * 384000" "0 \<le> gap * rate" using r by ((intro abs_product_le; simp), simp)
  define w n where "w = gap * rate div AudioNanosecondsPerSecond" and "n = gap * rate mod AudioNanosecondsPerSecond"
  have w: "0 \<le> w" "w \<le> 384000" using gr zdiv_mono1 [of "gap * rate" "384000 * AudioNanosecondsPerSecond" AudioNanosecondsPerSecond]
    by (simp_all add: w_def quantizer_constants pos_imp_zdiv_nonneg_iff)
  have n: "0 \<le> n" "n \<le> 1000000000" by (simp_all add: n_def quantizer_constants less_imp_le)
  have wc: "\<bar>w * ?c\<bar> \<le> 384000 * 3000000000" "0 \<le> w * ?c" using w c by ((intro abs_product_le; simp), simp)
  define v x where "v = w * ?c div PartsPerMillion" and "x = w * ?c mod PartsPerMillion"
  have v: "0 \<le> v" "v \<le> 384000 * 3000" using wc zdiv_mono1 [of "w * ?c" "384000 * 3000 * PartsPerMillion" PartsPerMillion]
    by (simp_all add: v_def quantizer_constants pos_imp_zdiv_nonneg_iff)
  have x: "0 \<le> x" "x \<le> 1000000" by (simp_all add: x_def quantizer_constants less_imp_le)
  have xs: "\<bar>x * AudioNanosecondsPerSecond\<bar> \<le> 1000000 * 1000000000" "0 \<le> x * AudioNanosecondsPerSecond"
    using x by ((intro abs_product_le; simp add: quantizer_constants), simp add: quantizer_constants)
  have nc: "\<bar>n * ?c\<bar> \<le> 1000000000 * 3000000000" "0 \<le> n * ?c" using n c by ((intro abs_product_le; simp), simp)
  let ?D = "AudioNanosecondsPerSecond * PartsPerMillion"
  define u where "u = (x * AudioNanosecondsPerSecond + n * ?c + ?D - 1) div ?D"
  have u: "0 \<le> u" "u \<le> 4000" using xs nc zdiv_mono1 [of "x * AudioNanosecondsPerSecond + n * ?c + ?D - 1" "4000 * ?D" ?D]
    by (simp_all add: u_def quantizer_constants pos_imp_zdiv_nonneg_iff)
  have t: "tdiv (gap * rate) AudioNanosecondsPerSecond = w" "tmod (gap * rate) AudioNanosecondsPerSecond = n"
      "tdiv (w * ?c) PartsPerMillion = v" "tmod (w * ?c) PartsPerMillion = x" "tdiv (x * AudioNanosecondsPerSecond + n * ?c + ?D - 1) ?D = u"
      "tdiv (lead * rate) AudioNanosecondsPerSecond = lead * rate div AudioNanosecondsPerSecond"
    using gr(2) wc(2) xs(2) nc(2) lr(2) by (simp_all add: w_def n_def v_def x_def u_def tmod_def tdiv_nonneg minus_div_mult_eq_mod quantizer_constants)
  have "gap * rate = w * AudioNanosecondsPerSecond + n" by (simp add: w_def n_def)
  then have product: "gap * rate * ?c = w * ?c * AudioNanosecondsPerSecond + n * ?c" by (simp add: algebra_simps)
  have "w * ?c = v * PartsPerMillion + x" by (simp add: v_def x_def)
  then have "gap * rate * ?c = (v * PartsPerMillion + x) * AudioNanosecondsPerSecond + n * ?c" using product by (simp only:)
  then have "gap * rate * ?c + ?D - 1 = (x * AudioNanosecondsPerSecond + n * ?c + ?D - 1) + v * ?D" by (simp only:) (simp add: distrib_right)
  then have bound: "(gap * rate * ?c + ?D - 1) div ?D = v + u" by (simp only: u_def) (simp add: quantizer_constants)
  have "in_int64 ?c" "in_int64 (lead * rate)" "in_int64 (gap * rate)" "in_int64 (w * ?c)" "in_int64 (x * AudioNanosecondsPerSecond)" "in_int64 (n * ?c)"
      "in_int64 (x * AudioNanosecondsPerSecond + n * ?c)" "in_int64 (x * AudioNanosecondsPerSecond + n * ?c + ?D)" "in_int64 (v + u)" "in_int64 (v + u + 1)"
    using c lr gr wc xs nc v u by (auto intro!: in_int64_abs simp: quantizer_constants)
  then show ?thesis using assms unfolding leadCoversWorstPositiveGap_def bound by (simp add: t Let_def servo_limits)
qed

lemma lead_defined:
  assumes "0 \<le> ppm" and "ppm \<le> 2147483647"
  shows "\<exists>covers. leadCoversWorstPositiveGap lead gap rate ppm = Some covers"
proof (cases "lead \<le> 0 \<or> gap \<le> 0 \<or> rate \<le> 0 \<or> ppm < 0 \<or> rate > MaximumOutputSampleRate \<or> gap > MaximumMeasurementGapNs \<or> lead > MaximumPolicyDurationNs")
  case True
  then show ?thesis unfolding leadCoversWorstPositiveGap_def by (intro exI [of _ False]) simp
next
  case False
  then show ?thesis using lead_covers [OF assms, of rate gap lead] by (simp add: servo_limits)
qed

lemma quantizer_create_defined: "\<exists>r. quantizer_create window lead rate = Some r"
proof (cases "window \<le> 0 \<or> lead \<le> 0 \<or> lead \<ge> window \<or> rate \<le> 0 \<or> window > tdiv (INT64_MAX - AudioNanosecondsPerSecond) rate")
  case True
  then show ?thesis by (simp add: quantizer_create_def Let_def)
next
  case False
  then have r: "0 < lead" "lead < window" "0 < rate" "\<not> window > tdiv (INT64_MAX - AudioNanosecondsPerSecond) rate" by simp_all
  have w: "window * rate \<le> INT64_MAX - AudioNanosecondsPerSecond" using r(3,4) by (rule window_product)
  have l: "0 < lead * rate" "lead * rate < window * rate" using r by simp_all
  have "in_int64 (window * rate)" "in_int64 (lead * rate)" "in_int64 (lead * rate + AudioNanosecondsPerSecond)"
    using w l by (simp_all add: in_int64_def quantizer_constants)
  then show ?thesis using False by (simp add: quantizer_create_def Let_def)
qed

lemma valid_policy_ok:
  assumes "validPolicy policy hard generation = Some True" and "the (ap_frequencyFeedForwardDenominator policy) \<le> INT32_MAX"
  shows "policy_ok (resolve_policy policy hard)"
  using assms
  by (auto simp: validPolicy_def policy_ok_def resolve_policy_def positive_def servo_limits quantizer_constants bind_eq_Some_conv
      split: if_splits option.splits)

lemma valid_policy_defined: "\<exists>valid. validPolicy policy hard generation = Some valid"
proof -
  let ?ppm = "the (ap_recoveryCorrectionLimitPpm policy)"
  have "\<exists>covers. leadCoversWorstPositiveGap (the (ap_commandLeadNs policy)) (the (ap_maximumMeasurementGapNs policy)) (the (ap_outputSampleRate policy)) ?ppm = Some covers"
    if "positive (ap_recoveryCorrectionLimitPpm policy)" "?ppm \<le> MaximumRecoveryCorrectionPpm"
    using that by (intro lead_defined) (auto simp: positive_def servo_limits split: option.splits)
  then show ?thesis unfolding validPolicy_def by auto
qed

lemma created_servo_ok:
  assumes "servo_create mode policy hard generation = Some (Inr s)" and "the (ap_frequencyFeedForwardDenominator policy) \<le> INT32_MAX"
  shows "servo_ok s"
proof -
  have valid: "validPolicy policy hard generation = Some True"
    using assms(1) valid_policy_defined [of policy hard generation] by (auto simp: servo_create_def split: if_splits)
  obtain r where r: "quantizer_create (the (ap_compensationWindowNs policy)) (the (ap_commandLeadNs policy)) (the (ap_outputSampleRate policy)) = Some r"
    using quantizer_create_defined by blast
  obtain q where q: "r = success q" using assms(1) valid r by (cases r) (simp_all add: servo_create_def)
  have c: "sv_policy s = resolve_policy policy hard" "sv_quantizer s = q" "sv_outputSampleRate s = the (ap_outputSampleRate policy)"
      "sv_lastRawPhaseNs s = 0" "sv_filteredPhaseNs s = 0" "sv_filteredFrequencyPpm s = 0" "sv_integralPpm s = 0" "sv_lastStretchPpm s = 0"
      "sv_recoveryExitHeldNs s = 0" "sv_lastSourceEndOnMasterNs s = 0" "sv_lastEffectiveOutputSampleIndex s = 0"
    using assms(1) valid r q by (auto simp: servo_create_def)
  have p: "policy_ok (sv_policy s)" using valid_policy_ok [OF valid assms(2)] by (simp add: c(1))
  have "quantizer_ok q" using created_quantizer r q by (simp add: epoch_exact_def)
  moreover have "control_ok s" using policy_ok_bounds [OF p] c by (simp add: control_ok_def in_int64_def INT64_MIN_def INT64_MAX_def)
  ultimately show ?thesis using p c by (simp add: servo_ok_def resolve_policy_def)
qed

lemma reset_servo_ok:
  assumes "servo_ok s" and "in_int64 index" and "servo_reset generation index s = (s', r)"
  shows "servo_ok s'"
proof (cases "generation = 0 \<or> index < 0")
  case True
  then show ?thesis using assms by (auto simp: servo_reset_def)
next
  case False
  let ?s = "clearControlState (s\<lparr>sv_generation := generation\<rparr>)"
  have s: "sv_quantizer ?s = sv_quantizer s" "sv_policy ?s = sv_policy s" "sv_outputSampleRate ?s = sv_outputSampleRate s"
    by (simp_all add: clearControlState_def)
  obtain q t where q: "resetEpoch index (sv_quantizer s) = (q, t)" by fastforce
  then have "quantizer_ok q" "t = Inr ()" using reset_quantizer_ok [of "sv_quantizer s" index] False assms(1,2) by (simp_all add: servo_ok_def)
  then have "s' = ?s\<lparr>sv_quantizer := q\<rparr>" using assms(3) False q by (simp add: servo_reset_def clearCorrectionEpoch_def s)
  moreover have "control_ok (?s\<lparr>sv_quantizer := q\<rparr>)"
    using policy_ok_bounds [of "sv_policy s"] assms(1) by (simp add: servo_ok_def control_ok_def clearControlState_def in_int64_def INT64_MIN_def INT64_MAX_def)
  ultimately show ?thesis using assms(1) \<open>quantizer_ok q\<close> by (simp add: servo_ok_def s)
qed

section \<open>Properties\<close>

text \<open>Servos as their callers make them. Every value is one of its C++ type.\<close>

inductive servo_reachable :: "MediaAudioDriftServo \<Rightarrow> bool" where
  created: "servo_create mode policy hard generation = Some (Inr s) \<Longrightarrow> the (ap_frequencyFeedForwardDenominator policy) \<le> INT32_MAX \<Longrightarrow> servo_reachable s"
| updated: "servo_reachable s \<Longrightarrow> measurement_typed m \<Longrightarrow> servo_update m s = Some (s', r) \<Longrightarrow> servo_reachable s'"
| reset: "servo_reachable s \<Longrightarrow> in_int64 index \<Longrightarrow> servo_reset generation index s = (s', t) \<Longrightarrow> servo_reachable s'"

lemma servo_reachable_ok: "servo_reachable s \<Longrightarrow> servo_ok s"
proof (induction rule: servo_reachable.induct)
  case (updated s m s' r)
  then show ?case using update_ok [of s m] by auto
qed (auto intro: created_servo_ok reset_servo_ok)

text \<open>
  C35. No measurement makes the servo overflow: creating a servo is defined for every policy, and whatever sequence of measurements and
  resets follows, every signed operation of the next update stays within its type and every clamp has ordered bounds.
\<close>

theorem servo_never_overflows:
  "servo_create mode policy hard generation \<noteq> None \<and> (servo_reachable s \<and> measurement_typed m \<longrightarrow> servo_update m s \<noteq> None)"
proof
  obtain valid where "validPolicy policy hard generation = Some valid" using valid_policy_defined by blast
  moreover obtain r where "quantizer_create (the (ap_compensationWindowNs policy)) (the (ap_commandLeadNs policy)) (the (ap_outputSampleRate policy)) = Some r"
    using quantizer_create_defined by blast
  ultimately show "servo_create mode policy hard generation \<noteq> None" by (simp add: servo_create_def)
  show "servo_reachable s \<and> measurement_typed m \<longrightarrow> servo_update m s \<noteq> None" using update_ok servo_reachable_ok by fastforce
qed

text \<open>
  C36. Every correction the servo commands is bounded: it never exceeds the recovery limit of the policy, at most 5000 parts per million,
  nor the normal limit outside recovery unless its magnitude does not increase; it differs from the previous correction by no more than the slew limit for the
  time between the two measurements; and the first one after locking is zero.
\<close>

theorem servo_correction_bounded:
  assumes "servo_reachable s" and "measurement_typed m" and "servo_update m s = Some (s', Inr decision)" and "asd_command decision = Some command"
  shows "\<bar>cc_stretchPpm command\<bar> \<le> 5000 \<and>
     (if sv_initialized s then bounded_step (dm_sourceEndOnMaster m - sv_lastSourceEndOnMasterNs s) s s' (cc_stretchPpm command)
      else cc_stretchPpm command = 0)"
proof -
  have ok: "servo_ok s" by (rule servo_reachable_ok [OF assms(1)])
  have step: "if sv_initialized s then bounded_step (dm_sourceEndOnMaster m - sv_lastSourceEndOnMasterNs s) s s' (cc_stretchPpm command) else cc_stretchPpm command = 0"
    using update_ok [OF ok assms(2)] assms(3,4) by auto
  have "sp_recoveryCorrectionLimitPpm (sv_policy s) \<le> 5000" using ok policy_ok_bounds(8) by (simp add: servo_ok_def)
  then show ?thesis using step by (auto simp: bounded_step_def split: if_splits)
qed

text \<open>A policy for 48000 samples a second, and two measurements 400 ms apart that find audio 10 ms off.\<close>

definition sample_servo_policy :: MediaAvSyncAudioServoPolicy where
  "sample_servo_policy =
     \<lparr>ap_deadbandNs = Some 1000000, ap_phaseFilterTimeConstantNs = Some 200000000, ap_frequencyFilterTimeConstantNs = Some 30000000000,
      ap_proportionalGainPpmPerSecond = Some 1000, ap_integralGainPpmPerSecondSquared = Some 100, ap_integratorLimitPpm = Some 500,
      ap_frequencyFeedForwardNumerator = Some 1, ap_frequencyFeedForwardDenominator = Some 2, ap_frequencyDeadbandPpm = Some 5,
      ap_maximumMeasuredFrequencyPpm = Some 10000, ap_recoveryExitFrequencyPpm = Some 50, ap_antiWindupMode = Some ConditionalIntegration,
      ap_minimumUpdateIntervalNs = Some 10000000, ap_maximumMeasurementGapNs = Some 500000000, ap_maximumSlewPpmPerSecond = Some 100,
      ap_normalCorrectionLimitPpm = Some 500, ap_recoveryCorrectionLimitPpm = Some 2000, ap_recoveryEnterThresholdNs = Some 40000000,
      ap_recoveryExitThresholdNs = Some 20000000, ap_recoveryExitHoldNs = Some 1000000000, ap_compensationWindowNs = Some 1000000000,
      ap_commandLeadNs = Some 600000000, ap_outputSampleRate = Some 48000, ap_correctionLookaheadWindows = Some 2\<rparr>"

definition sample_measurement :: "u64 \<Rightarrow> int \<Rightarrow> MediaAudioDriftMeasurement" where
  "sample_measurement n time =
     \<lparr>dm_phaseError = 10000000, dm_sourceEndOnMaster = time, dm_generation = 1, dm_sequence = n, dm_effectiveOutputSampleIndex = 48 * (time div 1000000),
      dm_outputSampleRate = 48000\<rparr>"

definition sample_servo :: MediaAudioDriftServo where
  "sample_servo = projr (the (servo_create RtpSenderReports sample_servo_policy 100000000 1))"

definition locked_servo :: MediaAudioDriftServo where
  "locked_servo = fst (the (servo_update (sample_measurement 1 0) sample_servo))"

lemma sample_servo_created: "servo_create RtpSenderReports sample_servo_policy 100000000 1 = Some (Inr sample_servo)"
  by code_simp

lemma sample_first: "servo_update (sample_measurement 1 0) sample_servo = Some (locked_servo, snd (the (servo_update (sample_measurement 1 0) sample_servo)))"
  by code_simp

lemma sample_second: "map_option (map_sum se_code (\<lambda>d. (asd_kind d, map_option cc_stretchPpm (asd_command d))) \<circ> snd) (servo_update (sample_measurement 2 400000000) locked_servo) =
   Some (Inr (ServoApply, Some 10))"
  by code_simp

lemma locked_servo_reachable: "servo_reachable locked_servo"
proof (rule servo_reachable.updated [OF _ _ sample_first])
  show "servo_reachable sample_servo"
    by (rule servo_reachable.created [OF sample_servo_created]) (simp add: sample_servo_policy_def INT32_MAX_def)
  show "measurement_typed (sample_measurement 1 0)" by code_simp
qed

theorem servo_never_overflows_witness:
  "servo_reachable locked_servo \<and> measurement_typed (sample_measurement 2 400000000) \<and> servo_update (sample_measurement 2 400000000) locked_servo \<noteq> None"
proof -
  have "measurement_typed (sample_measurement 2 400000000)" by code_simp
  then show ?thesis
    using servo_never_overflows [of RtpSenderReports sample_servo_policy 0 1 locked_servo "sample_measurement 2 400000000"] locked_servo_reachable by simp
qed

theorem servo_correction_bounded_witness:
  "\<exists>s d c. servo_update (sample_measurement 2 400000000) locked_servo = Some (s, Inr d) \<and> asd_command d = Some c \<and> cc_stretchPpm c = 10 \<and>
     bounded_step 400000000 locked_servo s (cc_stretchPpm c)"
proof -
  obtain s r where e: "servo_update (sample_measurement 2 400000000) locked_servo = Some (s, r)" using sample_second by auto
  obtain d where d: "r = Inr d" using sample_second e by (cases r) auto
  obtain c where u: "servo_update (sample_measurement 2 400000000) locked_servo = Some (s, Inr d)" "asd_command d = Some c" "cc_stretchPpm c = 10"
    using sample_second e d by auto
  have typed: "measurement_typed (sample_measurement 2 400000000)" by code_simp
  have "dm_sourceEndOnMaster (sample_measurement 2 400000000) - sv_lastSourceEndOnMasterNs locked_servo = 400000000" "sv_initialized locked_servo" by code_simp+
  then show ?thesis using servo_correction_bounded [OF locked_servo_reachable typed u(1,2)] u by auto
qed

end
