(* ===== verification/AvSync_Plan.thy ===== *)
theory AvSync_Plan
  imports Audio_Drift_Servo Ts_Mux_Plan Rtcp_Compound Graph_Types
begin

text \<open>
  \<^verbatim>\<open>planner/avsync/MediaAvSyncPlan\<close> and \<^verbatim>\<open>MediaAvSyncPlanValidator\<close>: the synchronisation plan that the planner hands to the runtime, every
  entry optional until it is planned, and the checks a complete plan passes. Evaluation of a condition may reach signed arithmetic, so the
  validator returns an option as in \<^verbatim>\<open>Audio_Drift_Servo\<close>; \<^verbatim>\<open>size_t\<close> and \<^verbatim>\<open>uint64_t\<close> are words.
\<close>

section \<open>The plan\<close>

datatype MediaAvSyncMasterClockMode = SteadyMonotonic

record MediaAvSyncStartupPolicy =
  su_requireVideoKeyFrame :: "bool option"
  su_trimAudioToCommonStart :: "bool option"
  su_maximumWaitNs :: "MediaRunningTime option"
  su_prerollNs :: "MediaRunningTime option"
  su_keyFrameWaitNs :: "MediaRunningTime option"
  su_maximumAudioTrimNs :: "MediaRunningTime option"
  su_maximumInitialSkewNs :: "MediaRunningTime option"
  su_maximumGapNs :: "MediaRunningTime option"
  su_outputLeadNs :: "MediaRunningTime option"
  su_videoCapacity :: "u64 option"
  su_audioCapacity :: "u64 option"
  su_videoByteCapacity :: "u64 option"
  su_audioByteCapacity :: "u64 option"
  su_maximumVideoUnitBytes :: "u64 option"
  su_maximumAudioUnitBytes :: "u64 option"
  su_videoIdentity :: "string option"
  su_audioIdentity :: "string option"
  su_allowDegradedClock :: "bool option"

record MediaAvSyncVideoPolicy =
  vp_earlyHoldThresholdNs :: "MediaRunningTime option"
  vp_lateDisplayThresholdNs :: "MediaRunningTime option"
  vp_dropThresholdNs :: "MediaRunningTime option"
  vp_allowRecoveryRepeat :: "bool option"
  vp_maximumConsecutiveRecoveryActions :: "int option"

record MediaAvSyncRecoveryPolicy =
  rp_suspectThresholdNs :: "MediaRunningTime option"
  rp_hardDiscontinuityThresholdNs :: "MediaRunningTime option"
  rp_reacquisitionTimeoutNs :: "MediaRunningTime option"

record MediaAvSyncRtpInputStreamPlan =
  ri_identity :: "string option"
  ri_payloadType :: "int option"
  ri_clockRate :: "int option"

datatype MediaAvSyncRtpStreamAssociationMode = AssociationUnknown | PlannedStreamPair
datatype MediaRtpCommonEpochPolicy = EarliestLockedSenderReportSourceTime | CommonEpochUnknown
datatype MediaRtpClockLossPolicy = FailOnDegraded | FailOnExpired | WaitForEvidence
datatype MediaControlGenerationPolicy = OptionalExactWhenPresent | RequiredExact

record MediaAvSyncRtpInputPolicy =
  ip_commonEpochPolicy :: MediaRtpCommonEpochPolicy
  ip_streamAssociationMode :: MediaAvSyncRtpStreamAssociationMode
  ip_rtcpCompositionMode :: "MediaRtcpCompositionMode option"
  ip_identityEvidenceTimeoutNs :: "MediaRunningTime option"
  ip_requireSenderReports :: "bool option"
  ip_senderReportTimeoutNs :: "MediaRunningTime option"
  ip_maximumExtrapolationNs :: "MediaRunningTime option"
  ip_clockLossPolicy :: "MediaRtpClockLossPolicy option"
  ip_secondaryClockLossPolicy :: "MediaRtpClockLossPolicy option"
  ip_maximumInterStreamClockOffsetSkewNs :: "MediaRunningTime option"
  ip_maximumSenderClockRateErrorPpm :: "int option"
  ip_maximumSenderClockResidualNs :: "MediaRunningTime option"

record MediaAvSyncRtpOutputStreamPlan =
  ro_identity :: "string option"
  ro_payloadType :: "int option"
  ro_clockRate :: "int option"
  ro_ssrc :: "u32 option"
  ro_baseTimestamp :: "u32 option"
  ro_cname :: "string option"

record MediaAvSyncRtpOutputPolicy =
  op_useSharedNtpEpoch :: "bool option"

record MediaAvSyncRtpInputPlan =
  rin_videoInput :: MediaAvSyncRtpInputStreamPlan
  rin_audioInput :: MediaAvSyncRtpInputStreamPlan
  rin_input :: MediaAvSyncRtpInputPolicy

record MediaAvSyncRtpOutputPlan =
  rout_videoOutput :: MediaAvSyncRtpOutputStreamPlan
  rout_audioOutput :: MediaAvSyncRtpOutputStreamPlan
  rout_output :: MediaAvSyncRtpOutputPolicy

record MediaAvSyncMpegTsInputPlan =
  ti_programNumber :: "int option"
  ti_programMapPid :: "int option"
  ti_videoPid :: "int option"
  ti_audioPid :: "int option"
  ti_pcrPid :: "int option"

datatype MediaPreparedLeadingVideoDisposition = RejectUntimed | DiscardUntimedNonKeyBeforeFirstTimedVideo
datatype MediaPreparedTimedStartupPrefixDisposition = RejectUnpairedFirstPackets | DiscardEarlierCompleteTimedUntilCommonWindow

record MediaPreparedDemuxFirstPacketEvidence =
  fp_streamIndex :: int
  fp_timeBase :: MediaRational
  fp_pts :: int
  fp_dts :: int
  fp_duration :: int
  fp_preparedReadOrdinal :: u64

record MediaPreparedGenericInputPlan =
  gi_videoStreamIndex :: int
  gi_audioStreamIndex :: int
  gi_videoTimeBase :: MediaRational
  gi_audioTimeBase :: MediaRational
  gi_leadingVideoDisposition :: MediaPreparedLeadingVideoDisposition
  gi_timedStartupPrefixDisposition :: MediaPreparedTimedStartupPrefixDisposition
  gi_videoPacketCapacity :: u64
  gi_audioPacketCapacity :: u64
  gi_videoByteCapacity :: u64
  gi_audioByteCapacity :: u64
  gi_maximumVideoPacketBytes :: u64
  gi_maximumAudioPacketBytes :: u64
  gi_handoffVideoPacketCapacity :: u64
  gi_handoffAudioPacketCapacity :: u64
  gi_handoffVideoByteCapacity :: u64
  gi_handoffAudioByteCapacity :: u64
  gi_maximumPreparedReadDuration :: MediaRunningTime
  gi_maximumPreparedHandoffDuration :: MediaRunningTime
  gi_firstWindowMaximumSkew :: MediaRunningTime

record MediaPreparedGenericInputEvidence =
  ge_firstVideo :: MediaPreparedDemuxFirstPacketEvidence
  ge_firstAudio :: MediaPreparedDemuxFirstPacketEvidence
  ge_discardedLeadingVideoPackets :: u64
  ge_discardedLeadingVideoBytes :: u64
  ge_discardedTimedVideoPrefixPackets :: u64
  ge_discardedTimedVideoPrefixBytes :: u64
  ge_discardedTimedAudioPrefixPackets :: u64
  ge_discardedTimedAudioPrefixBytes :: u64

record MediaAvSyncDemuxTimestampInputPlan =
  di_videoTimeBase :: MediaRational
  di_audioTimeBase :: MediaRational
  di_firstWindowMaximumSkewNs :: "MediaRunningTime option"
  di_discontinuityThresholdNs :: "MediaRunningTime option"
  di_initialGeneration :: "u64 option"
  di_canonicalTargetEpochNs :: "MediaRunningTime option"
  di_preparedInput :: "MediaPreparedGenericInputPlan option"
  di_preparedEvidence :: "MediaPreparedGenericInputEvidence option"

record MediaAvSyncProjectMpegTsOutputPlan =
  po_outputMux :: "MediaTsMuxPlan option"
  po_useSharedNtpEpoch :: "bool option"

record MediaAvSyncMetricsPolicy =
  me_collectStateAndGeneration :: "bool option"
  me_collectClockEvidence :: "bool option"
  me_collectQueueDurations :: "bool option"
  me_collectPhaseErrors :: "bool option"
  me_collectAudioCorrection :: "bool option"
  me_collectVideoRecoveryCounts :: "bool option"
  me_collectDiscontinuityCounts :: "bool option"
  me_collectProtocolClockHealth :: "bool option"
  me_maximumStartupSkewNs :: "MediaRunningTime option"
  me_maximumSteadyP95SkewNs :: "MediaRunningTime option"
  me_maximumSteadyP99SkewNs :: "MediaRunningTime option"
  me_maximumDriftNsPerHour :: "MediaRunningTime option"

record MediaAvSyncPlan =
  avp_sourceClockMode :: "MediaAvSyncSourceClockMode option"
  avp_controlGenerationPolicy :: "MediaControlGenerationPolicy option"
  avp_masterClockMode :: "MediaAvSyncMasterClockMode option"
  avp_canonicalTimeBaseNumerator :: "int option"
  avp_canonicalTimeBaseDenominator :: "int option"
  avp_startup :: MediaAvSyncStartupPolicy
  avp_audioServo :: MediaAvSyncAudioServoPolicy
  avp_video :: MediaAvSyncVideoPolicy
  avp_recovery :: MediaAvSyncRecoveryPolicy
  avp_rtpInput :: "MediaAvSyncRtpInputPlan option"
  avp_mpegTsInput :: "MediaAvSyncMpegTsInputPlan option"
  avp_demuxTimestampInput :: "MediaAvSyncDemuxTimestampInputPlan option"
  avp_rtpOutput :: "MediaAvSyncRtpOutputPlan option"
  avp_projectMpegTsOutput :: "MediaAvSyncProjectMpegTsOutputPlan option"
  avp_metrics :: MediaAvSyncMetricsPolicy

section \<open>The checks\<close>

definition positiveWord :: "'a::len word option \<Rightarrow> bool" where
  "positiveWord v \<longleftrightarrow> (case v of None \<Rightarrow> False | Some x \<Rightarrow> x > 0)"

definition presentText :: "string option \<Rightarrow> bool" where
  "presentText v \<longleftrightarrow> (case v of None \<Rightarrow> False | Some s \<Rightarrow> s \<noteq> [])"

definition validByteCapacity :: "u64 option \<Rightarrow> u64 option \<Rightarrow> u64 option \<Rightarrow> bool" where
  "validByteCapacity units maximumUnitBytes bytes \<longleftrightarrow>
     (let MaximumSerialized = word_of_int INT64_MAX
      in positiveWord units \<and> positiveWord maximumUnitBytes \<and> positiveWord bytes \<and>
         the maximumUnitBytes \<le> MaximumSerialized \<and> the bytes \<le> MaximumSerialized \<and> the maximumUnitBytes \<le> the bytes)"

definition MediaAvStartupMaximumUnitCapacity :: u64 where
  "MediaAvStartupMaximumUnitCapacity = 256"

text \<open>The groups of conditions of \<^verbatim>\<open>validateShared\<close>, each the negation of what its group rejects.\<close>

definition validStartup :: "MediaAvSyncStartupPolicy \<Rightarrow> bool" where
  "validStartup startup \<longleftrightarrow>
     su_requireVideoKeyFrame startup = Some True \<and> su_trimAudioToCommonStart startup \<noteq> None \<and>
     positive (su_maximumWaitNs startup) \<and> positive (su_prerollNs startup) \<and> positive (su_keyFrameWaitNs startup) \<and>
     positive (su_maximumAudioTrimNs startup) \<and> positive (su_maximumInitialSkewNs startup) \<and> positive (su_outputLeadNs startup) \<and>
     positive (su_maximumGapNs startup) \<and>
     the (su_maximumAudioTrimNs startup) \<le> the (su_prerollNs startup) \<and>
     the (su_maximumGapNs startup) < the (su_prerollNs startup) \<and>
     the (su_maximumInitialSkewNs startup) < the (su_outputLeadNs startup) \<and>
     the (su_prerollNs startup) < the (su_keyFrameWaitNs startup) \<and>
     the (su_keyFrameWaitNs startup) \<le> the (su_maximumWaitNs startup) \<and>
     positiveWord (su_videoCapacity startup) \<and> positiveWord (su_audioCapacity startup) \<and>
     validByteCapacity (su_videoCapacity startup) (su_maximumVideoUnitBytes startup) (su_videoByteCapacity startup) \<and>
     validByteCapacity (su_audioCapacity startup) (su_maximumAudioUnitBytes startup) (su_audioByteCapacity startup) \<and>
     the (su_videoCapacity startup) \<le> MediaAvStartupMaximumUnitCapacity \<and> the (su_audioCapacity startup) \<le> MediaAvStartupMaximumUnitCapacity \<and>
     presentText (su_videoIdentity startup) \<and> presentText (su_audioIdentity startup) \<and>
     the (su_videoIdentity startup) \<noteq> the (su_audioIdentity startup) \<and>
     su_allowDegradedClock startup = Some False"

definition validServo :: "MediaAvSyncAudioServoPolicy \<Rightarrow> MediaAvSyncRecoveryPolicy \<Rightarrow> bool" where
  "validServo servo recovery \<longleftrightarrow>
     positive (ap_deadbandNs servo) \<and> positive (ap_phaseFilterTimeConstantNs servo) \<and> positive (ap_proportionalGainPpmPerSecond servo) \<and>
     positive (ap_integralGainPpmPerSecondSquared servo) \<and> positive (ap_integratorLimitPpm servo) \<and>
     ap_frequencyFeedForwardNumerator servo \<noteq> None \<and> the (ap_frequencyFeedForwardNumerator servo) \<ge> 0 \<and>
     positive (ap_frequencyFeedForwardDenominator servo) \<and>
     the (ap_frequencyFeedForwardNumerator servo) \<le> the (ap_frequencyFeedForwardDenominator servo) \<and>
     ap_frequencyDeadbandPpm servo \<noteq> None \<and> the (ap_frequencyDeadbandPpm servo) \<ge> 0 \<and>
     positive (ap_maximumMeasuredFrequencyPpm servo) \<and> positive (ap_recoveryExitFrequencyPpm servo) \<and>
     the (ap_frequencyDeadbandPpm servo) < the (ap_recoveryExitFrequencyPpm servo) \<and>
     the (ap_recoveryExitFrequencyPpm servo) < the (ap_maximumMeasuredFrequencyPpm servo) \<and>
     ap_antiWindupMode servo = Some ConditionalIntegration \<and>
     positive (ap_minimumUpdateIntervalNs servo) \<and> positive (ap_maximumMeasurementGapNs servo) \<and> positive (ap_maximumSlewPpmPerSecond servo) \<and>
     positive (ap_normalCorrectionLimitPpm servo) \<and> positive (ap_recoveryCorrectionLimitPpm servo) \<and>
     positive (ap_recoveryEnterThresholdNs servo) \<and> positive (ap_recoveryExitThresholdNs servo) \<and> positive (ap_recoveryExitHoldNs servo) \<and>
     positive (ap_outputSampleRate servo) \<and> positiveWord (ap_correctionLookaheadWindows servo) \<and>
     the (ap_minimumUpdateIntervalNs servo) < the (ap_phaseFilterTimeConstantNs servo) \<and>
     the (ap_phaseFilterTimeConstantNs servo) < the (ap_maximumMeasurementGapNs servo) \<and>
     the (ap_deadbandNs servo) < the (ap_recoveryExitThresholdNs servo) \<and>
     the (ap_recoveryExitThresholdNs servo) < the (ap_recoveryEnterThresholdNs servo) \<and>
     positive (rp_hardDiscontinuityThresholdNs recovery) \<and>
     the (ap_recoveryEnterThresholdNs servo) < the (rp_hardDiscontinuityThresholdNs recovery) \<and>
     the (ap_recoveryExitHoldNs servo) \<ge> the (ap_minimumUpdateIntervalNs servo) \<and>
     the (ap_correctionLookaheadWindows servo) \<le> MaximumCorrectionLookaheadWindows \<and>
     the (ap_outputSampleRate servo) \<le> MaximumOutputSampleRate \<and>
     the (ap_maximumMeasurementGapNs servo) \<le> MaximumMeasurementGapNs \<and>
     the (ap_recoveryExitHoldNs servo) \<le> MaximumPolicyDurationNs \<and>
     the (ap_proportionalGainPpmPerSecond servo) \<le> MaximumProportionalGainPpmPerSecond \<and>
     the (ap_integralGainPpmPerSecondSquared servo) \<le> MaximumIntegralGainPpmPerSecondSquared \<and>
     the (ap_maximumMeasuredFrequencyPpm servo) \<le> MaximumMeasuredFrequencyPpm \<and>
     the (rp_hardDiscontinuityThresholdNs recovery) \<le> MaximumHardDiscontinuityNs \<and>
     the (ap_normalCorrectionLimitPpm servo) \<le> MaximumNormalCorrectionPpm \<and>
     the (ap_recoveryCorrectionLimitPpm servo) \<le> MaximumRecoveryCorrectionPpm \<and>
     the (ap_integratorLimitPpm servo) \<le> the (ap_recoveryCorrectionLimitPpm servo) \<and>
     the (ap_maximumSlewPpmPerSecond servo) \<le> the (ap_normalCorrectionLimitPpm servo) \<and>
     the (ap_normalCorrectionLimitPpm servo) \<le> the (ap_recoveryCorrectionLimitPpm servo)"

definition untimedServo :: "MediaAvSyncAudioServoPolicy \<Rightarrow> bool" where
  "untimedServo servo \<longleftrightarrow> ap_commandLeadNs servo = None \<and> ap_compensationWindowNs servo = None \<and> ap_frequencyFilterTimeConstantNs servo = None"

definition finalizedServo :: "MediaAvSyncAudioServoPolicy \<Rightarrow> bool option" where
  "finalizedServo servo =
     (if \<not> positive (ap_frequencyFilterTimeConstantNs servo) \<or> \<not> positive (ap_compensationWindowNs servo) \<or> \<not> positive (ap_commandLeadNs servo)
      then Some False
      else do {
        covers \<leftarrow> leadCoversWorstPositiveGap (the (ap_commandLeadNs servo)) (the (ap_maximumMeasurementGapNs servo))
          (the (ap_outputSampleRate servo)) (the (ap_recoveryCorrectionLimitPpm servo));
        if \<not> covers \<or> the (ap_maximumMeasurementGapNs servo) \<ge> the (ap_commandLeadNs servo) \<or>
           the (ap_commandLeadNs servo) \<ge> the (ap_compensationWindowNs servo) \<or>
           the (ap_compensationWindowNs servo) \<ge> the (ap_frequencyFilterTimeConstantNs servo) \<or>
           the (ap_compensationWindowNs servo) > tdiv (INT64_MAX - AudioNanosecondsPerSecond) (the (ap_outputSampleRate servo))
        then Some False
        else do {
          product \<leftarrow> i64 (the (ap_compensationWindowNs servo) * the (ap_outputSampleRate servo));
          Some (\<not> (product < AudioNanosecondsPerSecond \<or> tdiv product AudioNanosecondsPerSecond > INT32_MAX \<or>
                   the (ap_frequencyFilterTimeConstantNs servo) > MaximumPolicyDurationNs \<or>
                   the (ap_compensationWindowNs servo) > MaximumPolicyDurationNs))
        }
      })"

definition validVideo :: "MediaAvSyncVideoPolicy \<Rightarrow> bool" where
  "validVideo video \<longleftrightarrow>
     positive (vp_earlyHoldThresholdNs video) \<and> positive (vp_lateDisplayThresholdNs video) \<and> positive (vp_dropThresholdNs video) \<and>
     vp_allowRecoveryRepeat video \<noteq> None \<and> positive (vp_maximumConsecutiveRecoveryActions video) \<and>
     the (vp_earlyHoldThresholdNs video) < the (vp_lateDisplayThresholdNs video) \<and>
     the (vp_lateDisplayThresholdNs video) < the (vp_dropThresholdNs video)"

definition validRecovery :: "MediaAvSyncVideoPolicy \<Rightarrow> MediaAvSyncRecoveryPolicy \<Rightarrow> bool" where
  "validRecovery video recovery \<longleftrightarrow>
     positive (rp_suspectThresholdNs recovery) \<and> positive (rp_hardDiscontinuityThresholdNs recovery) \<and> positive (rp_reacquisitionTimeoutNs recovery) \<and>
     the (vp_dropThresholdNs video) < the (rp_suspectThresholdNs recovery) \<and>
     the (rp_suspectThresholdNs recovery) < the (rp_hardDiscontinuityThresholdNs recovery) \<and>
     the (rp_hardDiscontinuityThresholdNs recovery) < the (rp_reacquisitionTimeoutNs recovery)"

definition validMetrics :: "MediaAvSyncMetricsPolicy \<Rightarrow> bool" where
  "validMetrics metrics \<longleftrightarrow>
     me_collectStateAndGeneration metrics = Some True \<and> me_collectClockEvidence metrics = Some True \<and> me_collectQueueDurations metrics = Some True \<and>
     me_collectPhaseErrors metrics = Some True \<and> me_collectAudioCorrection metrics = Some True \<and> me_collectVideoRecoveryCounts metrics = Some True \<and>
     me_collectDiscontinuityCounts metrics = Some True \<and> me_collectProtocolClockHealth metrics = Some True \<and>
     positive (me_maximumStartupSkewNs metrics) \<and> positive (me_maximumSteadyP95SkewNs metrics) \<and> positive (me_maximumSteadyP99SkewNs metrics) \<and>
     positive (me_maximumDriftNsPerHour metrics) \<and>
     the (me_maximumSteadyP95SkewNs metrics) \<le> the (me_maximumSteadyP99SkewNs metrics) \<and>
     the (me_maximumSteadyP99SkewNs metrics) \<le> the (me_maximumStartupSkewNs metrics)"

definition validateShared :: "MediaAvSyncPlan \<Rightarrow> bool \<Rightarrow> Status option" where
  "validateShared plan finalized =
     (if avp_sourceClockMode plan = None \<or> avp_controlGenerationPolicy plan = None \<or> avp_masterClockMode plan \<noteq> Some SteadyMonotonic \<or>
         \<not> positive (avp_canonicalTimeBaseNumerator plan) \<or> \<not> positive (avp_canonicalTimeBaseDenominator plan) \<or>
         \<not> validStartup (avp_startup plan) \<or> \<not> validServo (avp_audioServo plan) (avp_recovery plan)
      then Some (failure InvalidArgument)
      else do {
        timing \<leftarrow> (if finalized then finalizedServo (avp_audioServo plan) else Some (untimedServo (avp_audioServo plan)));
        Some (if \<not> timing \<or> \<not> validVideo (avp_video plan) \<or> \<not> validRecovery (avp_video plan) (avp_recovery plan) \<or> \<not> validMetrics (avp_metrics plan)
              then failure InvalidArgument else success ())
      })"

definition validRtpInputStream :: "MediaAvSyncRtpInputStreamPlan \<Rightarrow> bool" where
  "validRtpInputStream stream \<longleftrightarrow>
     presentText (ri_identity stream) \<and> ri_payloadType stream \<noteq> None \<and> the (ri_payloadType stream) \<ge> 0 \<and> the (ri_payloadType stream) \<le> 127 \<and>
     positive (ri_clockRate stream)"

definition validRtpOutputStream :: "MediaAvSyncRtpOutputStreamPlan \<Rightarrow> bool" where
  "validRtpOutputStream stream \<longleftrightarrow>
     presentText (ro_identity stream) \<and> ro_payloadType stream \<noteq> None \<and> the (ro_payloadType stream) \<ge> 0 \<and> the (ro_payloadType stream) \<le> 127 \<and>
     positive (ro_clockRate stream) \<and> positiveWord (ro_ssrc stream) \<and> ro_baseTimestamp stream \<noteq> None \<and> presentText (ro_cname stream)"

definition validateRtpInput :: "MediaAvSyncPlan \<Rightarrow> Status" where
  "validateRtpInput plan =
     (case avp_rtpInput plan of
        None \<Rightarrow> failure InvalidArgument
      | Some rtp \<Rightarrow>
          if avp_mpegTsInput plan \<noteq> None \<or> avp_demuxTimestampInput plan \<noteq> None \<or> the (avp_sourceClockMode plan) \<noteq> RtpSenderReports \<or>
             the (avp_controlGenerationPolicy plan) \<noteq> OptionalExactWhenPresent
          then failure InvalidArgument
          else
            (let input = rin_input rtp
             in if \<not> validRtpInputStream (rin_videoInput rtp) \<or> \<not> validRtpInputStream (rin_audioInput rtp) \<or>
                   ip_commonEpochPolicy input \<noteq> EarliestLockedSenderReportSourceTime \<or> ip_streamAssociationMode input \<noteq> PlannedStreamPair \<or>
                   ip_rtcpCompositionMode input = None \<or> the (ip_rtcpCompositionMode input) \<noteq> ReducedSizeRfc5506 \<or>
                   \<not> positive (ip_identityEvidenceTimeoutNs input) \<or> ip_requireSenderReports input \<noteq> Some True \<or>
                   \<not> positive (ip_senderReportTimeoutNs input) \<or> \<not> positive (ip_maximumExtrapolationNs input) \<or>
                   ip_clockLossPolicy input = None \<or> ip_secondaryClockLossPolicy input = None \<or>
                   the (ip_identityEvidenceTimeoutNs input) \<noteq> the (ip_maximumExtrapolationNs input) \<or>
                   \<not> positive (ip_maximumInterStreamClockOffsetSkewNs input) \<or>
                   ip_maximumSenderClockRateErrorPpm input = None \<or> the (ip_maximumSenderClockRateErrorPpm input) \<le> 0 \<or>
                   the (ip_maximumSenderClockRateErrorPpm input) \<ge> 1000000 \<or> \<not> positive (ip_maximumSenderClockResidualNs input) \<or>
                   the (ip_senderReportTimeoutNs input) \<ge> the (ip_maximumExtrapolationNs input) \<or>
                   the (ip_maximumExtrapolationNs input) \<ge> the (rp_reacquisitionTimeoutNs (avp_recovery plan)) \<or>
                   the (ip_maximumInterStreamClockOffsetSkewNs input) \<ge> the (rp_hardDiscontinuityThresholdNs (avp_recovery plan))
                then failure InvalidArgument else success ()))"

definition validInputPid :: "int option \<Rightarrow> bool" where
  "validInputPid pid \<longleftrightarrow> pid \<noteq> None \<and> the pid \<ge> 0x0020 \<and> the pid < 0x1FFF"

definition validateTsInput :: "MediaAvSyncPlan \<Rightarrow> Status" where
  "validateTsInput plan =
     (case avp_mpegTsInput plan of
        None \<Rightarrow> failure InvalidArgument
      | Some ts \<Rightarrow>
          if avp_rtpInput plan \<noteq> None \<or> avp_demuxTimestampInput plan \<noteq> None \<or> the (avp_sourceClockMode plan) \<noteq> MpegTsPcr \<or>
             the (avp_controlGenerationPolicy plan) \<noteq> OptionalExactWhenPresent
          then failure InvalidArgument
          else if \<not> positive (ti_programNumber ts) \<or> the (ti_programNumber ts) > 0xFFFF \<or>
                  \<not> validInputPid (ti_programMapPid ts) \<or> \<not> validInputPid (ti_videoPid ts) \<or> \<not> validInputPid (ti_audioPid ts) \<or> \<not> validInputPid (ti_pcrPid ts) \<or>
                  the (ti_programMapPid ts) = the (ti_videoPid ts) \<or> the (ti_programMapPid ts) = the (ti_audioPid ts) \<or>
                  the (ti_programMapPid ts) = the (ti_pcrPid ts) \<or> the (ti_videoPid ts) = the (ti_audioPid ts)
          then failure InvalidArgument else success ())"

definition preparedInput_validate :: "MediaPreparedGenericInputPlan \<Rightarrow> Status" where
  "preparedInput_validate p =
     (if gi_videoStreamIndex p < 0 \<or> gi_audioStreamIndex p < 0 \<or> gi_videoStreamIndex p = gi_audioStreamIndex p \<or>
         rational_num (gi_videoTimeBase p) \<le> 0 \<or> rational_den (gi_videoTimeBase p) \<le> 0 \<or>
         rational_num (gi_audioTimeBase p) \<le> 0 \<or> rational_den (gi_audioTimeBase p) \<le> 0 \<or>
         gi_timedStartupPrefixDisposition p \<noteq> DiscardEarlierCompleteTimedUntilCommonWindow \<or>
         gi_videoPacketCapacity p = 0 \<or> gi_audioPacketCapacity p = 0 \<or> gi_videoByteCapacity p = 0 \<or> gi_audioByteCapacity p = 0 \<or>
         gi_maximumVideoPacketBytes p = 0 \<or> gi_maximumAudioPacketBytes p = 0 \<or>
         gi_maximumVideoPacketBytes p > gi_videoByteCapacity p \<or> gi_maximumAudioPacketBytes p > gi_audioByteCapacity p \<or>
         gi_handoffVideoPacketCapacity p = 0 \<or> gi_handoffAudioPacketCapacity p = 0 \<or>
         gi_handoffVideoByteCapacity p = 0 \<or> gi_handoffAudioByteCapacity p = 0 \<or>
         gi_maximumVideoPacketBytes p > gi_handoffVideoByteCapacity p \<or> gi_maximumAudioPacketBytes p > gi_handoffAudioByteCapacity p \<or>
         gi_handoffVideoPacketCapacity p > - 1 - gi_videoPacketCapacity p \<or> gi_handoffAudioPacketCapacity p > - 1 - gi_audioPacketCapacity p \<or>
         gi_handoffVideoByteCapacity p > - 1 - gi_videoByteCapacity p \<or> gi_handoffAudioByteCapacity p > - 1 - gi_audioByteCapacity p \<or>
         gi_maximumPreparedReadDuration p \<le> 0 \<or> gi_maximumPreparedHandoffDuration p \<le> 0 \<or> gi_firstWindowMaximumSkew p \<le> 0
      then failure InvalidArgument else success ())"

definition validatePreparedDemuxEvidence :: "MediaPreparedGenericInputPlan \<Rightarrow> MediaPreparedGenericInputEvidence \<Rightarrow> Status" where
  "validatePreparedDemuxEvidence prepared evidence =
     (let video = ge_firstVideo evidence; audio = ge_firstAudio evidence; noTimestamp = INT64_MIN;
          leadingCountMatchesBytes = ((ge_discardedLeadingVideoPackets evidence = 0) = (ge_discardedLeadingVideoBytes evidence = 0));
          timedVideoCountMatchesBytes = ((ge_discardedTimedVideoPrefixPackets evidence = 0) = (ge_discardedTimedVideoPrefixBytes evidence = 0));
          timedAudioCountMatchesBytes = ((ge_discardedTimedAudioPrefixPackets evidence = 0) = (ge_discardedTimedAudioPrefixBytes evidence = 0))
      in if fp_streamIndex video \<noteq> gi_videoStreamIndex prepared \<or> fp_streamIndex audio \<noteq> gi_audioStreamIndex prepared \<or>
            rational_num (fp_timeBase video) \<noteq> rational_num (gi_videoTimeBase prepared) \<or>
            rational_den (fp_timeBase video) \<noteq> rational_den (gi_videoTimeBase prepared) \<or>
            rational_num (fp_timeBase audio) \<noteq> rational_num (gi_audioTimeBase prepared) \<or>
            rational_den (fp_timeBase audio) \<noteq> rational_den (gi_audioTimeBase prepared) \<or>
            fp_pts video = noTimestamp \<or> fp_dts video = noTimestamp \<or> fp_pts audio = noTimestamp \<or> fp_dts audio = noTimestamp \<or>
            fp_duration video \<le> 0 \<or> fp_duration audio \<le> 0 \<or>
            \<not> leadingCountMatchesBytes \<or> \<not> timedVideoCountMatchesBytes \<or> \<not> timedAudioCountMatchesBytes \<or>
            ge_discardedLeadingVideoPackets evidence > gi_videoPacketCapacity prepared \<or>
            ge_discardedTimedVideoPrefixPackets evidence > gi_videoPacketCapacity prepared - ge_discardedLeadingVideoPackets evidence \<or>
            ge_discardedTimedAudioPrefixPackets evidence > gi_audioPacketCapacity prepared \<or>
            ge_discardedLeadingVideoBytes evidence > gi_videoByteCapacity prepared \<or>
            ge_discardedTimedVideoPrefixBytes evidence > gi_videoByteCapacity prepared - ge_discardedLeadingVideoBytes evidence \<or>
            ge_discardedTimedAudioPrefixBytes evidence > gi_audioByteCapacity prepared \<or>
            ge_discardedLeadingVideoPackets evidence + ge_discardedTimedVideoPrefixPackets evidence > fp_preparedReadOrdinal video \<or>
            ge_discardedTimedAudioPrefixPackets evidence > fp_preparedReadOrdinal audio
         then failure InvalidArgument
         else
           (case (checkedFromTicks (fp_pts video) (rational_num (fp_timeBase video)) (rational_den (fp_timeBase video)),
                  checkedFromTicks (fp_pts audio) (rational_num (fp_timeBase audio)) (rational_den (fp_timeBase audio))) of
              (Inr videoPresentation, Inr audioPresentation) \<Rightarrow>
                (case if videoPresentation \<ge> audioPresentation then checkedSubtract videoPresentation audioPresentation
                      else checkedSubtract audioPresentation videoPresentation of
                   Inl _ \<Rightarrow> failure InvalidArgument
                 | Inr skew \<Rightarrow> if skew > gi_firstWindowMaximumSkew prepared then failure InvalidArgument else success ())
            | _ \<Rightarrow> failure InvalidArgument))"

definition validateDemuxInput :: "MediaAvSyncPlan \<Rightarrow> Status" where
  "validateDemuxInput plan =
     (case avp_demuxTimestampInput plan of
        None \<Rightarrow> failure InvalidArgument
      | Some demux \<Rightarrow>
          if avp_rtpInput plan \<noteq> None \<or> avp_mpegTsInput plan \<noteq> None \<or> the (avp_sourceClockMode plan) \<noteq> DemuxTimestamps \<or>
             the (avp_controlGenerationPolicy plan) \<noteq> RequiredExact
          then failure InvalidArgument
          else
            (case (di_preparedInput demux, di_preparedEvidence demux) of
               (Some prepared, Some evidence) \<Rightarrow>
                 if \<not> rational_isKnown (di_videoTimeBase demux) \<or> rational_num (di_videoTimeBase demux) \<le> 0 \<or> rational_den (di_videoTimeBase demux) \<le> 0 \<or>
                    \<not> rational_isKnown (di_audioTimeBase demux) \<or> rational_num (di_audioTimeBase demux) \<le> 0 \<or> rational_den (di_audioTimeBase demux) \<le> 0 \<or>
                    \<not> positive (di_firstWindowMaximumSkewNs demux) \<or> \<not> positive (di_discontinuityThresholdNs demux) \<or>
                    \<not> positiveWord (di_initialGeneration demux) \<or> di_canonicalTargetEpochNs demux = None \<or>
                    preparedInput_validate prepared \<noteq> success () \<or> su_requireVideoKeyFrame (avp_startup plan) \<noteq> Some True \<or>
                    gi_leadingVideoDisposition prepared \<noteq> DiscardUntimedNonKeyBeforeFirstTimedVideo \<or>
                    gi_timedStartupPrefixDisposition prepared \<noteq> DiscardEarlierCompleteTimedUntilCommonWindow \<or>
                    rational_num (gi_videoTimeBase prepared) \<noteq> rational_num (di_videoTimeBase demux) \<or>
                    rational_den (gi_videoTimeBase prepared) \<noteq> rational_den (di_videoTimeBase demux) \<or>
                    rational_num (gi_audioTimeBase prepared) \<noteq> rational_num (di_audioTimeBase demux) \<or>
                    rational_den (gi_audioTimeBase prepared) \<noteq> rational_den (di_audioTimeBase demux) \<or>
                    di_firstWindowMaximumSkewNs demux \<noteq> su_maximumInitialSkewNs (avp_startup plan) \<or>
                    di_discontinuityThresholdNs demux \<noteq> rp_hardDiscontinuityThresholdNs (avp_recovery plan)
                 then failure InvalidArgument
                 else validatePreparedDemuxEvidence prepared evidence
             | _ \<Rightarrow> failure InvalidArgument))"

definition validateRtpOutput :: "MediaAvSyncPlan \<Rightarrow> Status" where
  "validateRtpOutput plan =
     (case avp_rtpOutput plan of
        None \<Rightarrow> failure InvalidArgument
      | Some rtp \<Rightarrow>
          if avp_projectMpegTsOutput plan \<noteq> None then failure InvalidArgument
          else if \<not> validRtpOutputStream (rout_videoOutput rtp) \<or> \<not> validRtpOutputStream (rout_audioOutput rtp) \<or>
                  the (ro_ssrc (rout_videoOutput rtp)) = the (ro_ssrc (rout_audioOutput rtp)) \<or>
                  the (ro_cname (rout_videoOutput rtp)) \<noteq> the (ro_cname (rout_audioOutput rtp)) \<or>
                  op_useSharedNtpEpoch (rout_output rtp) \<noteq> Some True
          then failure InvalidArgument else success ())"

definition validateProjectMpegTsOutput :: "MediaAvSyncPlan \<Rightarrow> Status" where
  "validateProjectMpegTsOutput plan =
     (case avp_projectMpegTsOutput plan of
        None \<Rightarrow> failure InvalidArgument
      | Some project \<Rightarrow>
          (case (po_outputMux project, po_useSharedNtpEpoch project) of
             (Some mux, Some useSharedNtpEpoch) \<Rightarrow>
               if avp_rtpOutput plan \<noteq> None then failure InvalidArgument
               else
                 (let transport = mp_transportKind (plan_parameters mux); requiresSharedNtpEpoch = (transport = RtpAvp)
                  in if (transport \<noteq> UdpDatagrams \<and> transport \<noteq> RtpAvp) \<or> useSharedNtpEpoch \<noteq> requiresSharedNtpEpoch
                     then failure InvalidArgument else success ())
           | _ \<Rightarrow> failure InvalidArgument))"

definition validateInputClock :: "MediaAvSyncPlan \<Rightarrow> Status" where
  "validateInputClock plan =
     (case the (avp_sourceClockMode plan) of
        RtpSenderReports \<Rightarrow> validateRtpInput plan
      | MpegTsPcr \<Rightarrow> validateTsInput plan
      | DemuxTimestamps \<Rightarrow> validateDemuxInput plan)"

definition validateOutput :: "MediaAvSyncPlan \<Rightarrow> Status" where
  "validateOutput plan =
     (if (avp_rtpOutput plan \<noteq> None) = (avp_projectMpegTsOutput plan \<noteq> None) then failure InvalidArgument
      else if avp_rtpOutput plan \<noteq> None then validateRtpOutput plan else validateProjectMpegTsOutput plan)"

definition plan_validate :: "MediaAvSyncPlan \<Rightarrow> Status option" where
  "plan_validate plan = do {
     shared \<leftarrow> validateShared plan True;
     Some (case shared of Inl e \<Rightarrow> Inl e | Inr _ \<Rightarrow> (case validateInputClock plan of Inl e \<Rightarrow> Inl e | Inr _ \<Rightarrow> validateOutput plan))
   }"

definition plan_validatePolicy :: "MediaAvSyncPlan \<Rightarrow> Status option" where
  "plan_validatePolicy plan = do {
     shared \<leftarrow> validateShared plan False;
     Some (case shared of Inl e \<Rightarrow> Inl e | Inr _ \<Rightarrow> (case validateInputClock plan of Inl e \<Rightarrow> Inl e | Inr _ \<Rightarrow> validateOutput plan))
   }"

definition plan_validateRuntime :: "MediaAvSyncPlan \<Rightarrow> Status option" where
  "plan_validateRuntime plan =
     (let commandLead = ap_commandLeadNs (avp_audioServo plan) \<noteq> None;
          compensation = ap_compensationWindowNs (avp_audioServo plan) \<noteq> None;
          frequency = ap_frequencyFilterTimeConstantNs (avp_audioServo plan) \<noteq> None
      in if commandLead \<noteq> compensation \<or> commandLead \<noteq> frequency then Some (failure InvalidArgument)
         else if commandLead then plan_validate plan else plan_validatePolicy plan)"

text \<open>Taking successful results apart.\<close>

lemma map_sum_success:
  assumes "map_sum f g s = Inr b"
  obtains a where "s = Inr a" and "g a = b"
  using assms by (cases s) simp_all

lemma sum_case_success:
  assumes "(case s of Inl e \<Rightarrow> Inl e | Inr _ \<Rightarrow> t) = success u"
  obtains a where "s = success a" and "t = success u"
  using assms by (cases s) simp_all

section \<open>The planned policy\<close>

definition planSharedNonStartupPolicy :: "MediaAvSyncPlan \<Rightarrow> MediaAvSyncPlan" where
  "planSharedNonStartupPolicy plan = plan\<lparr>
     avp_masterClockMode := Some SteadyMonotonic, avp_canonicalTimeBaseNumerator := Some 1, avp_canonicalTimeBaseDenominator := Some 1000000000,
     avp_audioServo := (avp_audioServo plan)\<lparr>ap_deadbandNs := Some 1000000, ap_phaseFilterTimeConstantNs := Some 250000000,
       ap_proportionalGainPpmPerSecond := Some 20000, ap_integralGainPpmPerSecondSquared := Some 1000, ap_integratorLimitPpm := Some 2000,
       ap_frequencyFeedForwardNumerator := Some 1, ap_frequencyFeedForwardDenominator := Some 1, ap_frequencyDeadbandPpm := Some 10,
       ap_maximumMeasuredFrequencyPpm := Some 10000, ap_recoveryExitFrequencyPpm := Some 500, ap_antiWindupMode := Some ConditionalIntegration,
       ap_minimumUpdateIntervalNs := Some 10000000, ap_maximumMeasurementGapNs := Some 1000000000, ap_maximumSlewPpmPerSecond := Some 100,
       ap_normalCorrectionLimitPpm := Some 1000, ap_recoveryCorrectionLimitPpm := Some 5000, ap_recoveryEnterThresholdNs := Some 100000000,
       ap_recoveryExitThresholdNs := Some 50000000, ap_recoveryExitHoldNs := Some 500000000, ap_correctionLookaheadWindows := Some 2\<rparr>,
     avp_video := \<lparr>vp_earlyHoldThresholdNs = Some 20000000, vp_lateDisplayThresholdNs = Some 40000000, vp_dropThresholdNs = Some 80000000,
       vp_allowRecoveryRepeat = Some True, vp_maximumConsecutiveRecoveryActions = Some 5\<rparr>,
     avp_recovery := \<lparr>rp_suspectThresholdNs = Some 100000000, rp_hardDiscontinuityThresholdNs = Some 250000000,
       rp_reacquisitionTimeoutNs = Some 10000000000\<rparr>,
     avp_metrics := \<lparr>me_collectStateAndGeneration = Some True, me_collectClockEvidence = Some True, me_collectQueueDurations = Some True,
       me_collectPhaseErrors = Some True, me_collectAudioCorrection = Some True, me_collectVideoRecoveryCounts = Some True,
       me_collectDiscontinuityCounts = Some True, me_collectProtocolClockHealth = Some True, me_maximumStartupSkewNs = Some 40000000,
       me_maximumSteadyP95SkewNs = Some 20000000, me_maximumSteadyP99SkewNs = Some 40000000, me_maximumDriftNsPerHour = Some 1000000\<rparr>\<rparr>"

text \<open>The policy the planner chooses passes every check of the shared part that it decides.\<close>

lemma planned_policy_valid:
  assumes "ap_outputSampleRate (avp_audioServo plan) = Some rate" and "0 < rate" and "rate \<le> 384000"
  shows "validServo (avp_audioServo (planSharedNonStartupPolicy plan)) (avp_recovery (planSharedNonStartupPolicy plan))"
    and "validVideo (avp_video (planSharedNonStartupPolicy plan))"
    and "validRecovery (avp_video (planSharedNonStartupPolicy plan)) (avp_recovery (planSharedNonStartupPolicy plan))"
    and "validMetrics (avp_metrics (planSharedNonStartupPolicy plan))"
  using assms by (simp_all add: planSharedNonStartupPolicy_def validServo_def validVideo_def validRecovery_def validMetrics_def positive_def positiveWord_def servo_limits)

text \<open>A plan between two RTP sessions with the planned policy, for audio of the given sample rate.\<close>

definition sample_sync_plan :: "int \<Rightarrow> MediaAvSyncPlan" where
  "sample_sync_plan rate = planSharedNonStartupPolicy
     \<lparr>avp_sourceClockMode = Some RtpSenderReports, avp_controlGenerationPolicy = Some OptionalExactWhenPresent, avp_masterClockMode = None,
      avp_canonicalTimeBaseNumerator = None, avp_canonicalTimeBaseDenominator = None,
      avp_startup = \<lparr>su_requireVideoKeyFrame = Some True, su_trimAudioToCommonStart = Some True, su_maximumWaitNs = Some 10000000000,
        su_prerollNs = Some 500000000, su_keyFrameWaitNs = Some 5000000000, su_maximumAudioTrimNs = Some 500000000, su_maximumInitialSkewNs = Some 40000000,
        su_maximumGapNs = Some 100000000, su_outputLeadNs = Some 200000000, su_videoCapacity = Some 64, su_audioCapacity = Some 128,
        su_videoByteCapacity = Some 8000000, su_audioByteCapacity = Some 400000, su_maximumVideoUnitBytes = Some 1000000,
        su_maximumAudioUnitBytes = Some 4000, su_videoIdentity = Some ''video'', su_audioIdentity = Some ''audio'', su_allowDegradedClock = Some False\<rparr>,
      avp_audioServo = \<lparr>ap_deadbandNs = None, ap_phaseFilterTimeConstantNs = None, ap_frequencyFilterTimeConstantNs = None,
        ap_proportionalGainPpmPerSecond = None, ap_integralGainPpmPerSecondSquared = None, ap_integratorLimitPpm = None,
        ap_frequencyFeedForwardNumerator = None, ap_frequencyFeedForwardDenominator = None, ap_frequencyDeadbandPpm = None,
        ap_maximumMeasuredFrequencyPpm = None, ap_recoveryExitFrequencyPpm = None, ap_antiWindupMode = None, ap_minimumUpdateIntervalNs = None,
        ap_maximumMeasurementGapNs = None, ap_maximumSlewPpmPerSecond = None, ap_normalCorrectionLimitPpm = None, ap_recoveryCorrectionLimitPpm = None,
        ap_recoveryEnterThresholdNs = None, ap_recoveryExitThresholdNs = None, ap_recoveryExitHoldNs = None, ap_compensationWindowNs = None,
        ap_commandLeadNs = None, ap_outputSampleRate = Some rate, ap_correctionLookaheadWindows = None\<rparr>,
      avp_video = \<lparr>vp_earlyHoldThresholdNs = None, vp_lateDisplayThresholdNs = None, vp_dropThresholdNs = None, vp_allowRecoveryRepeat = None,
        vp_maximumConsecutiveRecoveryActions = None\<rparr>,
      avp_recovery = \<lparr>rp_suspectThresholdNs = None, rp_hardDiscontinuityThresholdNs = None, rp_reacquisitionTimeoutNs = None\<rparr>,
      avp_rtpInput = Some (let stream = \<lambda>identity rate. \<lparr>ri_identity = Some identity, ri_payloadType = Some 96, ri_clockRate = Some rate\<rparr>
        in \<lparr>rin_videoInput = stream ''video'' 90000, rin_audioInput = stream ''audio'' 48000,
            rin_input = \<lparr>ip_commonEpochPolicy = EarliestLockedSenderReportSourceTime, ip_streamAssociationMode = PlannedStreamPair,
              ip_rtcpCompositionMode = Some ReducedSizeRfc5506, ip_identityEvidenceTimeoutNs = Some 8000000000, ip_requireSenderReports = Some True,
              ip_senderReportTimeoutNs = Some 6000000000, ip_maximumExtrapolationNs = Some 8000000000, ip_clockLossPolicy = Some FailOnExpired,
              ip_secondaryClockLossPolicy = Some WaitForEvidence, ip_maximumInterStreamClockOffsetSkewNs = Some 100000000,
              ip_maximumSenderClockRateErrorPpm = Some 500, ip_maximumSenderClockResidualNs = Some 20000000\<rparr>\<rparr>),
      avp_mpegTsInput = None, avp_demuxTimestampInput = None,
      avp_rtpOutput = Some (let stream = \<lambda>identity rate ssrc. \<lparr>ro_identity = Some identity, ro_payloadType = Some 97, ro_clockRate = Some rate,
            ro_ssrc = Some ssrc, ro_baseTimestamp = Some 0, ro_cname = Some ''sender''\<rparr>
        in \<lparr>rout_videoOutput = stream ''video'' 90000 1, rout_audioOutput = stream ''audio'' 48000 2, rout_output = \<lparr>op_useSharedNtpEpoch = Some True\<rparr>\<rparr>),
      avp_projectMpegTsOutput = None,
      avp_metrics = \<lparr>me_collectStateAndGeneration = None, me_collectClockEvidence = None, me_collectQueueDurations = None, me_collectPhaseErrors = None,
        me_collectAudioCorrection = None, me_collectVideoRecoveryCounts = None, me_collectDiscontinuityCounts = None, me_collectProtocolClockHealth = None,
        me_maximumStartupSkewNs = None, me_maximumSteadyP95SkewNs = None, me_maximumSteadyP99SkewNs = None, me_maximumDriftNsPerHour = None\<rparr>\<rparr>"

lemma sample_sync_plan_valid: "plan_validatePolicy (sample_sync_plan 44100) = Some (success ())"
  by code_simp

end
