(* ===== verification/Correction_Planner.thy ===== *)
theory Correction_Planner
  imports AvSync_Plan
begin

text \<open>
  \<^verbatim>\<open>planner/realtime/MediaAudioCorrectionReachabilityPlanner\<close>: how far ahead correction commands must be issued and how long a compensation
  window is, derived from the samples that may be in flight; and that the synchronisation plan it completes is accepted by the plan
  validator and by the drift servo that the runtime creates from it.
\<close>

section \<open>Definitions\<close>

text \<open>The planning facts that this planner reads.\<close>

record MediaRealtimeAvSyncPlanningFacts =
  pf_outputSampleRate :: "int option"
  pf_decoderDelaySamples :: "int option"
  pf_encoderLookaheadSamples :: "int option"
  pf_decodeQueueSamples :: "int option"
  pf_resampleQueueSamples :: "int option"
  pf_encodeQueueSamples :: "int option"
  pf_schedulerQueueSamples :: "int option"
  pf_protocolBatchSamples :: "int option"
  pf_mailboxDeliveryMarginSamples :: "int option"
  pf_maximumResamplerOutputBlockSamples :: "int option"
  pf_mailboxCapacity :: "u64 option"

record MediaAudioCorrectionReachabilityPlan =
  cr_outputSampleRate :: int
  cr_epochOutputSampleIndex :: int
  cr_worstCaseInFlightSamples :: int
  cr_protocolBatchSamples :: int
  cr_mailboxDeliveryMarginSamples :: int
  cr_maximumResamplerOutputBlockSamples :: int
  cr_commandLeadSamples :: int
  cr_mailboxCapacity :: u64

record MediaAudioCorrectionReachabilityResult =
  rr_correction :: MediaAudioCorrectionReachabilityPlan
  rr_commandLead :: MediaRunningTime
  rr_compensationWindow :: MediaRunningTime
  rr_frequencyFilterTimeConstant :: MediaRunningTime

definition samples_checkedAdd :: "int \<Rightarrow> int \<Rightarrow> int Result" where
  "samples_checkedAdd left right =
     (if left < 0 \<or> right < 0 \<or> left > INT64_MAX - right then failure InvalidArgument else success (left + right))"

definition runningTimeToSamples :: "MediaRunningTime \<Rightarrow> int \<Rightarrow> int Result option" where
  "runningTimeToSamples time sampleRate =
     (if time \<le> 0 \<or> sampleRate \<le> 0 \<or> time > tdiv (INT64_MAX - (AudioNanosecondsPerSecond - 1)) sampleRate then Some (failure InvalidArgument)
      else do {
        product \<leftarrow> i64 (time * sampleRate);
        raised \<leftarrow> i64 (product + AudioNanosecondsPerSecond);
        Some (success (tdiv (raised - 1) AudioNanosecondsPerSecond))
      })"

definition samplesToRunningTime :: "int \<Rightarrow> int \<Rightarrow> MediaRunningTime Result option" where
  "samplesToRunningTime samples sampleRate =
     (if samples \<le> 0 \<or> sampleRate \<le> 0 \<or> samples > tdiv (INT64_MAX - sampleRate + 1) AudioNanosecondsPerSecond then Some (failure InvalidArgument)
      else do {
        product \<leftarrow> i64 (samples * AudioNanosecondsPerSecond);
        raised \<leftarrow> i64 (product + sampleRate);
        Some (success (tdiv (raised - 1) sampleRate))
      })"

fun add_samples :: "int \<Rightarrow> int list \<Rightarrow> int Result" where
  "add_samples worst [] = success worst"
| "add_samples worst (x # xs) = (case samples_checkedAdd worst x of Inl e \<Rightarrow> Inl e | Inr raised \<Rightarrow> add_samples raised xs)"

definition correction_timing :: "int \<Rightarrow> int \<Rightarrow> int \<Rightarrow> (MediaRunningTime \<times> MediaRunningTime \<times> MediaRunningTime) Result option" where
  "correction_timing commandLeadSamples block rate = do {
     commandLead \<leftarrow> samplesToRunningTime commandLeadSamples rate;
     compensation \<leftarrow> (case samples_checkedAdd commandLeadSamples block of Inl e \<Rightarrow> Some (Inl e) | Inr samples \<Rightarrow> samplesToRunningTime samples rate);
     let frequency = (case compensation of Inl e \<Rightarrow> Inl e | Inr window \<Rightarrow> samples_checkedAdd window 1000000000);
     Some (case (commandLead, compensation, frequency) of
             (Inr lead, Inr window, Inr filterNs) \<Rightarrow> if filterNs > 60000000000 then failure InvalidArgument else success (lead, window, filterNs)
           | _ \<Rightarrow> failure InvalidArgument)
   }"

definition measurement_lead :: "MediaRunningTime \<Rightarrow> int \<Rightarrow> int \<Rightarrow> int Result option" where
  "measurement_lead gap correctionPpm rate = do {
     measurementGapSamples \<leftarrow> runningTimeToSamples gap rate;
     case measurementGapSamples of
       Inl e \<Rightarrow> Some (Inl e)
     | Inr gapSamples \<Rightarrow>
         if correctionPpm \<le> 0 \<or> gapSamples = INT64_MAX \<or> gapSamples > tdiv (INT64_MAX - 999999) correctionPpm then Some (failure InvalidArgument)
         else do {
           scaled \<leftarrow> i64 (gapSamples * correctionPpm);
           raised \<leftarrow> i64 (scaled + 999999);
           Some (case samples_checkedAdd gapSamples (tdiv raised 1000000) of
                   Inl e \<Rightarrow> Inl e
                 | Inr lead \<Rightarrow> if lead = INT64_MAX then failure InvalidArgument else success lead)
         }
   }"

definition required_lead :: "MediaRealtimeAvSyncPlanningFacts \<Rightarrow> (int \<times> int) Result" where
  "required_lead facts =
     (case add_samples 0 [the (pf_decoderDelaySamples facts), the (pf_encoderLookaheadSamples facts), the (pf_decodeQueueSamples facts),
             the (pf_resampleQueueSamples facts), the (pf_encodeQueueSamples facts), the (pf_schedulerQueueSamples facts), the (pf_protocolBatchSamples facts)] of
        Inl e \<Rightarrow> Inl e
      | Inr worst \<Rightarrow>
          (case samples_checkedAdd worst (the (pf_mailboxDeliveryMarginSamples facts)) of
             Inl e \<Rightarrow> Inl e
           | Inr margin \<Rightarrow>
               (case samples_checkedAdd margin (the (pf_maximumResamplerOutputBlockSamples facts)) of
                  Inl e \<Rightarrow> Inl e
                | Inr required \<Rightarrow> if required = INT64_MAX then failure InvalidArgument else success (worst, required))))"

definition reachability_plan :: "MediaAvSyncPlan \<Rightarrow> MediaRealtimeAvSyncPlanningFacts \<Rightarrow> MediaAudioCorrectionReachabilityResult Result option" where
  "reachability_plan synchronization facts =
     (let servo = avp_audioServo synchronization
      in if pf_outputSampleRate facts = None \<or> pf_decoderDelaySamples facts = None \<or> pf_encoderLookaheadSamples facts = None \<or>
            pf_decodeQueueSamples facts = None \<or> pf_resampleQueueSamples facts = None \<or> pf_encodeQueueSamples facts = None \<or>
            pf_schedulerQueueSamples facts = None \<or> pf_protocolBatchSamples facts = None \<or> pf_mailboxDeliveryMarginSamples facts = None \<or>
            pf_maximumResamplerOutputBlockSamples facts = None \<or> pf_mailboxCapacity facts = None
         then Some (failure NotInitialized)
         else
           (case required_lead facts of
              Inl e \<Rightarrow> Some (Inl e)
            | Inr (worst, required) \<Rightarrow>
                if ap_maximumMeasurementGapNs servo = None \<or> ap_recoveryCorrectionLimitPpm servo = None then Some (failure NotInitialized)
                else do {
                  let rate = the (pf_outputSampleRate facts);
                  let block = the (pf_maximumResamplerOutputBlockSamples facts);
                  measurementLead \<leftarrow> measurement_lead (the (ap_maximumMeasurementGapNs servo)) (the (ap_recoveryCorrectionLimitPpm servo)) rate;
                  case measurementLead of
                    Inl e \<Rightarrow> Some (Inl e)
                  | Inr measurementLead \<Rightarrow> do {
                      let commandLeadSamples = max (required + 1) (measurementLead + 1);
                      timing \<leftarrow> correction_timing commandLeadSamples block rate;
                      Some (case timing of
                        Inl e \<Rightarrow> Inl e
                      | Inr (lead, window, filterNs) \<Rightarrow>
                          success \<lparr>rr_correction = \<lparr>cr_outputSampleRate = rate, cr_epochOutputSampleIndex = 0, cr_worstCaseInFlightSamples = worst,
                              cr_protocolBatchSamples = the (pf_protocolBatchSamples facts),
                              cr_mailboxDeliveryMarginSamples = the (pf_mailboxDeliveryMarginSamples facts),
                              cr_maximumResamplerOutputBlockSamples = block, cr_commandLeadSamples = commandLeadSamples,
                              cr_mailboxCapacity = the (pf_mailboxCapacity facts)\<rparr>,
                            rr_commandLead = lead, rr_compensationWindow = window, rr_frequencyFilterTimeConstant = filterNs\<rparr>)
                    }
                }))"

definition finalize_correction :: "MediaAudioCorrectionReachabilityResult \<Rightarrow> MediaAvSyncPlan \<Rightarrow> MediaAvSyncPlan" where
  "finalize_correction correction synchronization =
     synchronization\<lparr>avp_audioServo := (avp_audioServo synchronization)\<lparr>ap_commandLeadNs := Some (rr_commandLead correction),
       ap_compensationWindowNs := Some (rr_compensationWindow correction),
       ap_frequencyFilterTimeConstantNs := Some (rr_frequencyFilterTimeConstant correction)\<rparr>\<rparr>"

section \<open>Conversions\<close>

lemma div_ceiling:
  assumes "0 < r"
  shows "a \<le> (a + r - 1) div r * r" and "(a + r - 1) div r * r < a + (r :: int)"
  using assms div_mult_mod_eq [of "a + r - 1" r] pos_mod_bound [of r "a + r - 1"] pos_mod_sign [of r "a + r - 1"] by linarith+

lemma le_div_pos: "0 < r \<Longrightarrow> a * r \<le> b \<Longrightarrow> a \<le> b div (r :: int)"
  using zdiv_mono1 [of "a * r" b r] by simp

lemma running_time_to_samples:
  assumes "0 < time" and "time \<le> 1000000000" and "0 < rate" and "rate \<le> 384000"
  shows "runningTimeToSamples time rate = Some (success ((time * rate + AudioNanosecondsPerSecond - 1) div AudioNanosecondsPerSecond))"
proof -
  have p: "\<bar>time * rate\<bar> \<le> 1000000000 * 384000" "0 \<le> time * rate" using assms by ((intro abs_product_le; simp), simp)
  have "time * rate \<le> INT64_MAX - (AudioNanosecondsPerSecond - 1)" using p by (simp add: quantizer_constants)
  then have "time \<le> (INT64_MAX - (AudioNanosecondsPerSecond - 1)) div rate" using assms by (intro le_div_pos) simp_all
  then have "\<not> time > tdiv (INT64_MAX - (AudioNanosecondsPerSecond - 1)) rate" using assms by (simp add: tdiv_nonneg quantizer_constants)
  moreover have "in_int64 (time * rate)" "in_int64 (time * rate + AudioNanosecondsPerSecond)"
    using p by (auto intro!: in_int64_abs simp: quantizer_constants)
  ultimately show ?thesis using assms p by (simp add: runningTimeToSamples_def tdiv_nonneg quantizer_constants)
qed

text \<open>For the sample rates of a valid plan the additions before the divisions do not overflow.\<close>

lemma samples_to_running_time:
  assumes "0 < rate" and "rate \<le> 384000"
  shows "samplesToRunningTime samples rate = Some (failure InvalidArgument) \<or>
    (0 < samples \<and> samplesToRunningTime samples rate = Some (success ((samples * AudioNanosecondsPerSecond + rate - 1) div rate)))"
proof (cases "samples \<le> 0 \<or> samples > tdiv (INT64_MAX - rate + 1) AudioNanosecondsPerSecond")
  case True
  then show ?thesis by (auto simp: samplesToRunningTime_def)
next
  case False
  then have s: "0 < samples" "samples \<le> (INT64_MAX - rate + 1) div AudioNanosecondsPerSecond"
    using assms by (simp_all add: tdiv_nonneg quantizer_constants)
  have "(INT64_MAX - rate + 1) div AudioNanosecondsPerSecond \<le> INT64_MAX div AudioNanosecondsPerSecond"
    using assms by (intro zdiv_mono1) (simp_all add: quantizer_constants)
  then have "samples \<le> 9223372036" using s(2) by (simp add: quantizer_constants)
  then have "in_int64 (samples * AudioNanosecondsPerSecond)" "in_int64 (samples * AudioNanosecondsPerSecond + rate)"
    using s(1) assms by (auto intro!: in_int64_abs simp: quantizer_constants)
  then show ?thesis using False s(1) assms by (simp add: samplesToRunningTime_def tdiv_nonneg quantizer_constants)
qed

lemma samples_added: "samples_checkedAdd a b = success c \<longleftrightarrow> 0 \<le> a \<and> 0 \<le> b \<and> a + b \<le> INT64_MAX \<and> c = a + b"
  by (auto simp: samples_checkedAdd_def)

section \<open>The planned timing\<close>

lemma measurement_lead_cases:
  assumes "0 < gap" and "gap \<le> 1000000000" and "0 < rate" and "rate \<le> 384000" and "0 < ppm" and "ppm \<le> 5000"
  defines "g \<equiv> (gap * rate + AudioNanosecondsPerSecond - 1) div AudioNanosecondsPerSecond"
  shows "measurement_lead gap ppm rate = Some (success (g + (g * ppm + 999999) div 1000000))" and "0 \<le> g"
proof -
  have p: "\<bar>gap * rate\<bar> \<le> 1000000000 * 384000" "0 \<le> gap * rate" using assms by ((intro abs_product_le; simp), simp)
  have g: "0 \<le> g" "g \<le> 384000" using p zdiv_mono1 [of "gap * rate + AudioNanosecondsPerSecond - 1" "384000 * AudioNanosecondsPerSecond + (AudioNanosecondsPerSecond - 1)" AudioNanosecondsPerSecond]
    by (simp_all add: g_def quantizer_constants pos_imp_zdiv_nonneg_iff)
  show "0 \<le> g" by (fact g(1))
  have gp: "\<bar>g * ppm\<bar> \<le> 384000 * 5000" "0 \<le> g * ppm" using g assms by ((intro abs_product_le; simp), simp)
  then have "g \<le> (INT64_MAX - 999999) div ppm" using assms by (intro le_div_pos) (simp_all add: quantizer_constants)
  then have guard: "\<not> g > tdiv (INT64_MAX - 999999) ppm" "g \<noteq> INT64_MAX" using assms g by (simp_all add: tdiv_nonneg quantizer_constants)
  have h: "0 \<le> (g * ppm + 999999) div 1000000" "(g * ppm + 999999) div 1000000 \<le> 1921"
    using gp zdiv_mono1 [of "g * ppm + 999999" "1921000000" 1000000] by (simp_all add: pos_imp_zdiv_nonneg_iff)
  have "in_int64 (g * ppm)" "in_int64 (g * ppm + 999999)" using gp by (auto intro!: in_int64_abs)
  moreover have "samples_checkedAdd g ((g * ppm + 999999) div 1000000) = success (g + (g * ppm + 999999) div 1000000)"
    using g h by (simp add: samples_added quantizer_constants)
  moreover have "g + (g * ppm + 999999) div 1000000 \<noteq> INT64_MAX" using g h by (simp add: quantizer_constants)
  ultimately show "measurement_lead gap ppm rate = Some (success (g + (g * ppm + 999999) div 1000000))"
    using guard assms(5) gp running_time_to_samples [OF assms(1-4)] by (simp add: measurement_lead_def g_def [symmetric] tdiv_nonneg)
qed

lemma correction_timing_cases:
  assumes "0 < rate" and "rate \<le> 384000"
  shows "\<exists>r. correction_timing samples block rate = Some r \<and>
    (\<forall>lead window filterNs. r = success (lead, window, filterNs) \<longrightarrow> 0 < samples \<and> 0 \<le> block \<and>
       lead = (samples * AudioNanosecondsPerSecond + rate - 1) div rate \<and>
       window = ((samples + block) * AudioNanosecondsPerSecond + rate - 1) div rate \<and> filterNs = window + 1000000000 \<and> filterNs \<le> 60000000000)"
proof -
  let ?window = "case samples_checkedAdd samples block of Inl e \<Rightarrow> Some (Inl e) | Inr samples \<Rightarrow> samplesToRunningTime samples rate"
  obtain l where l: "samplesToRunningTime samples rate = Some l" using samples_to_running_time [OF assms, of samples] by auto
  have "?window \<noteq> None" using samples_to_running_time [OF assms, of "samples + block"] by (auto simp: samples_checkedAdd_def)
  then obtain w where w: "?window = Some w" by blast
  have "w = success window \<Longrightarrow> 0 \<le> block \<and> window = ((samples + block) * AudioNanosecondsPerSecond + rate - 1) div rate" for window
    using w samples_to_running_time [OF assms, of "samples + block"] by (auto simp: samples_checkedAdd_def split: if_splits)
  moreover have "l = success lead \<Longrightarrow> 0 < samples \<and> lead = (samples * AudioNanosecondsPerSecond + rate - 1) div rate" for lead
    using l samples_to_running_time [OF assms, of samples] by auto
  ultimately show ?thesis unfolding correction_timing_def l w
    by (cases l; cases w) (auto simp: samples_checkedAdd_def split: if_splits)
qed

text \<open>What the quantizer and the validator need of a planned lead of \<open>l\<close> samples and a window of \<open>b\<close> samples more.\<close>

lemma planned_times:
  fixes l b rate :: int
  assumes "0 < rate" and "rate < n" and "0 < l" and "1 \<le> b"
  defines "lead \<equiv> (l * n + rate - 1) div rate" and "window \<equiv> ((l + b) * n + rate - 1) div rate"
  shows "lead * rate div n = l" and "window * rate div n = l + b" and "0 < lead" and "lead < window"
    and "(lead * rate + n - 1) div n < l + b \<longleftrightarrow> 2 \<le> b \<or> rate dvd l * n" and "l * n \<le> lead * rate"
proof -
  have le: "l * n \<le> lead * rate" "lead * rate < l * n + rate" using div_ceiling [OF assms(1), of "l * n"] by (simp_all add: lead_def)
  have wi: "(l + b) * n \<le> window * rate" "window * rate < (l + b) * n + rate" using div_ceiling [OF assms(1), of "(l + b) * n"] by (simp_all add: window_def)
  have n: "0 < n" using assms by simp
  have quotient: "x div n = k" if "k * n \<le> x" "x < k * n + n" for x k
    using that n by (intro int_div_pos_eq [of _ _ _ "x - k * n"]) (simp_all add: algebra_simps)
  show "lead * rate div n = l" "window * rate div n = l + b" using le wi assms(2) by (simp_all add: quotient)
  show "l * n \<le> lead * rate" by (fact le(1))
  have "0 < l * n" using assms n by simp
  then have "0 < lead * rate" using le by linarith
  then show "0 < lead" using assms(1) by (simp add: zero_less_mult_iff)
  have "l * n + n \<le> (l + b) * n" using assms(4) n by (simp add: distrib_right)
  then have "lead * rate < window * rate" using le wi assms(2) by linarith
  then show "lead < window" using assms(1) by (simp add: mult_less_cancel_right)
  have exact: "lead * rate = l * n" if d: "rate dvd l * n"
  proof -
    obtain k where k: "l * n = rate * k" using d by (rule dvdE)
    have "lead = k" unfolding lead_def k using assms(1) by (simp add: int_div_pos_eq [of _ _ k "rate - 1"])
    then show ?thesis by (simp add: k)
  qed
  show "(lead * rate + n - 1) div n < l + b \<longleftrightarrow> 2 \<le> b \<or> rate dvd l * n"
  proof (cases "rate dvd l * n")
    case True
    then have "(lead * rate + n - 1) div n = l" using n by (intro quotient) (simp_all add: exact)
    then show ?thesis using True assms(4) by simp
  next
    case False
    then have "lead * rate \<noteq> l * n" by (metis dvd_triv_right)
    then have "(lead * rate + n - 1) div n = l + 1" using le assms(2) by (intro quotient) (simp_all add: distrib_right)
    then show ?thesis using False by auto
  qed
qed

lemma planned_lead_covers:
  fixes gap rate ppm :: int
  assumes "0 < gap" "0 < rate" "0 < ppm" "0 < n"
  defines "g \<equiv> (gap * rate + n - 1) div n"
  assumes lead: "g + (g * ppm + 999999) div 1000000 + 1 \<le> l"
  shows "(gap * rate * (1000000 + ppm) + n * 1000000 - 1) div (n * 1000000) + 1 \<le> l" and "gap * rate < l * n"
proof -
  define h where "h = (g * ppm + 999999) div 1000000"
  have g: "gap * rate \<le> g * n" using div_ceiling(1) [OF assms(4), of "gap * rate"] by (simp add: g_def)
  have h: "g * ppm \<le> h * 1000000" using div_ceiling(1) [of 1000000 "g * ppm"] by (simp add: h_def)
  have "0 < gap * rate" using assms(1,2) by simp
  then have "0 \<le> g" unfolding g_def using assms(4) by (simp add: pos_imp_zdiv_nonneg_iff)
  then have "0 \<le> h" unfolding h_def using assms(3) by (simp add: pos_imp_zdiv_nonneg_iff)
  have "gap * rate * (1000000 + ppm) \<le> g * n * (1000000 + ppm)" using g assms(3) by (intro mult_right_mono) simp_all
  also have "\<dots> = n * (g * 1000000 + g * ppm)" by (simp add: algebra_simps)
  also have "\<dots> \<le> n * (g * 1000000 + h * 1000000)" using h assms(4) by (intro mult_left_mono) simp_all
  finally have bound: "gap * rate * (1000000 + ppm) \<le> (g + h) * (n * 1000000)" by (simp add: algebra_simps)
  let ?q = "(gap * rate * (1000000 + ppm) + n * 1000000 - 1) div (n * 1000000)"
  have "?q * (n * 1000000) < gap * rate * (1000000 + ppm) + n * 1000000" by (rule div_ceiling(2)) (simp add: assms(4))
  then have "?q * (n * 1000000) < (g + h + 1) * (n * 1000000)" using bound by (simp add: distrib_right)
  then have "?q < g + h + 1" using assms(4) by (simp only: mult_less_cancel_right)
  then show "(gap * rate * (1000000 + ppm) + n * 1000000 - 1) div (n * 1000000) + 1 \<le> l" using lead by (simp add: h_def)
  have "g < l" using lead \<open>0 \<le> h\<close> by (simp add: h_def)
  then have "g * n < l * n" using assms(4) by simp
  then show "gap * rate < l * n" using g by linarith
qed

lemma quantizer_created_iff:
  assumes "0 < lead" and "lead < window" and "window \<le> 60000000000" and "0 < rate" and "rate \<le> 384000" and "AudioNanosecondsPerSecond \<le> window * rate"
  shows "(\<exists>q. quantizer_create window lead rate = Some (success q)) \<longleftrightarrow>
    (lead * rate + AudioNanosecondsPerSecond - 1) div AudioNanosecondsPerSecond < window * rate div AudioNanosecondsPerSecond"
proof -
  have w: "\<bar>window * rate\<bar> \<le> 60000000000 * 384000" using assms by (intro abs_product_le) simp_all
  have l: "0 < lead * rate" "lead * rate < window * rate" using assms by simp_all
  have "window \<le> (INT64_MAX - AudioNanosecondsPerSecond) div rate" using w assms by (intro le_div_pos) (simp_all add: quantizer_constants)
  then have guard: "\<not> window > tdiv (INT64_MAX - AudioNanosecondsPerSecond) rate" using assms by (simp add: tdiv_nonneg quantizer_constants)
  have d: "window * rate div AudioNanosecondsPerSecond \<le> 23040000"
    using w zdiv_mono1 [of "window * rate" "23040000 * AudioNanosecondsPerSecond" AudioNanosecondsPerSecond] by (simp add: quantizer_constants)
  have c: "1 \<le> (lead * rate + AudioNanosecondsPerSecond - 1) div AudioNanosecondsPerSecond"
    using l by (intro le_div_pos) (simp_all add: quantizer_constants)
  have t: "tdiv (window * rate) AudioNanosecondsPerSecond = window * rate div AudioNanosecondsPerSecond"
      "tdiv (lead * rate + AudioNanosecondsPerSecond - 1) AudioNanosecondsPerSecond = (lead * rate + AudioNanosecondsPerSecond - 1) div AudioNanosecondsPerSecond"
    using l by (simp_all add: tdiv_nonneg quantizer_constants)
  have i: "in_int64 (window * rate)" "in_int64 (lead * rate)" "in_int64 (lead * rate + AudioNanosecondsPerSecond)"
    using w l by (auto intro!: in_int64_abs simp: quantizer_constants)
  let ?w = "window * rate div AudioNanosecondsPerSecond" and ?l = "(lead * rate + AudioNanosecondsPerSecond - 1) div AudioNanosecondsPerSecond"
  have "\<not> (window \<le> 0 \<or> lead \<le> 0 \<or> window \<le> lead \<or> rate \<le> 0 \<or> tdiv (INT64_MAX - AudioNanosecondsPerSecond) rate < window)"
      "\<not> (window * rate < AudioNanosecondsPerSecond \<or> INT32_MAX < ?w)" "\<not> ?l \<le> 0"
    using assms guard d c by (simp_all add: INT32_MAX_def)
  then show ?thesis unfolding quantizer_create_def Let_def using i by (simp add: t)
qed

section \<open>A planned correction reaches the runtime\<close>

lemma positive_Some: "positive v \<longleftrightarrow> (\<exists>x. v = Some x \<and> 0 < x)"
  by (auto simp: positive_def split: option.splits)

lemma valid_servo_bounds:
  assumes "validServo servo recovery"
  shows "\<exists>gap rate ppm. ap_maximumMeasurementGapNs servo = Some gap \<and> ap_outputSampleRate servo = Some rate \<and> ap_recoveryCorrectionLimitPpm servo = Some ppm \<and>
    0 < gap \<and> gap \<le> 1000000000 \<and> 0 < rate \<and> rate \<le> 384000 \<and> 0 < ppm \<and> ppm \<le> 5000"
  using assms unfolding validServo_def positive_Some by (elim conjE exE) (simp add: servo_limits)

text \<open>The two checks of the servo policy, by the plan validator and by the servo itself, agree.\<close>

lemma valid_servo_policy:
  assumes "validServo servo recovery" and "finalizedServo servo = Some True" and "0 < generation"
  shows "validPolicy servo (the (rp_hardDiscontinuityThresholdNs recovery)) generation = Some True"
proof -
  obtain covers where covers: "leadCoversWorstPositiveGap (the (ap_commandLeadNs servo)) (the (ap_maximumMeasurementGapNs servo))
      (the (ap_outputSampleRate servo)) (the (ap_recoveryCorrectionLimitPpm servo)) = Some covers"
    using lead_defined [of "the (ap_recoveryCorrectionLimitPpm servo)"] valid_servo_bounds [OF assms(1)] by fastforce
  have f: "positive (ap_frequencyFilterTimeConstantNs servo)" "positive (ap_compensationWindowNs servo)" "positive (ap_commandLeadNs servo)" "covers"
      "the (ap_maximumMeasurementGapNs servo) < the (ap_commandLeadNs servo)" "the (ap_commandLeadNs servo) < the (ap_compensationWindowNs servo)"
      "the (ap_compensationWindowNs servo) < the (ap_frequencyFilterTimeConstantNs servo)"
      "the (ap_frequencyFilterTimeConstantNs servo) \<le> MaximumPolicyDurationNs" "the (ap_compensationWindowNs servo) \<le> MaximumPolicyDurationNs"
    using assms(2) covers by (auto simp: finalizedServo_def bind_eq_Some_conv split: if_splits)
  moreover have "0 < the (rp_hardDiscontinuityThresholdNs recovery)" using assms(1) by (auto simp: validServo_def positive_Some)
  moreover have "the (ap_maximumMeasurementGapNs servo) < the (ap_frequencyFilterTimeConstantNs servo)" using f(5-7) by linarith
  ultimately show ?thesis using assms(1,3) covers unfolding validPolicy_def validServo_def positiveWord_def by simp
qed

text \<open>A lead of \<open>l\<close> samples with what follows from it, in a plan whose window is \<open>b\<close> samples longer.\<close>

definition planned_correction :: "int \<Rightarrow> int \<Rightarrow> int \<Rightarrow> int \<Rightarrow> MediaAudioCorrectionReachabilityResult \<Rightarrow> bool" where
  "planned_correction gap rate ppm b c \<longleftrightarrow>
     (let l = cr_commandLeadSamples (rr_correction c);
          g = (gap * rate + AudioNanosecondsPerSecond - 1) div AudioNanosecondsPerSecond
      in cr_outputSampleRate (rr_correction c) = rate \<and> 0 < l \<and> g + (g * ppm + 999999) div 1000000 + 1 \<le> l \<and>
         rr_commandLead c = (l * AudioNanosecondsPerSecond + rate - 1) div rate \<and>
         rr_compensationWindow c = ((l + b) * AudioNanosecondsPerSecond + rate - 1) div rate \<and>
         rr_frequencyFilterTimeConstant c = rr_compensationWindow c + 1000000000 \<and> rr_frequencyFilterTimeConstant c \<le> 60000000000)"

lemma reachability_planned:
  assumes "0 < gap" "gap \<le> 1000000000" "0 < rate" "rate \<le> 384000" "0 < ppm" "ppm \<le> 5000"
    and servo: "ap_maximumMeasurementGapNs (avp_audioServo plan) = Some gap" "ap_recoveryCorrectionLimitPpm (avp_audioServo plan) = Some ppm"
    and facts: "pf_outputSampleRate facts = Some rate" "pf_maximumResamplerOutputBlockSamples facts = Some b"
  shows "\<exists>r. reachability_plan plan facts = Some r \<and> (\<forall>c. r = success c \<longrightarrow> planned_correction gap rate ppm b c)"
proof -
  let ?g = "(gap * rate + AudioNanosecondsPerSecond - 1) div AudioNanosecondsPerSecond"
  note measured = measurement_lead_cases [OF assms(1-6)]
  have timing: "\<exists>r. correction_timing samples b rate = Some r \<and> (\<forall>lead window filterNs. r = success (lead, window, filterNs) \<longrightarrow> 0 < samples \<and> 0 \<le> b \<and>
       lead = (samples * AudioNanosecondsPerSecond + rate - 1) div rate \<and>
       window = ((samples + b) * AudioNanosecondsPerSecond + rate - 1) div rate \<and> filterNs = window + 1000000000 \<and> filterNs \<le> 60000000000)" for samples
    by (rule correction_timing_cases [OF assms(3,4)])
  show ?thesis
  proof (cases "required_lead facts")
    case (Inl e)
    then show ?thesis by (simp add: reachability_plan_def Let_def)
  next
    case (Inr wr)
    obtain worst required where wr: "wr = (worst, required)" by (cases wr)
    define m where "m = ?g + (?g * ppm + 999999) div 1000000"
    define l where "l = max (required + 1) (m + 1)"
    have m: "measurement_lead gap ppm rate = Some (success m)" "m + 1 \<le> l" using measured(1) by (simp_all add: m_def l_def)
    obtain r where r: "correction_timing l b rate = Some r" "\<And>lead window filterNs. r = success (lead, window, filterNs) \<Longrightarrow> 0 < l \<and> 0 \<le> b \<and>
       lead = (l * AudioNanosecondsPerSecond + rate - 1) div rate \<and>
       window = ((l + b) * AudioNanosecondsPerSecond + rate - 1) div rate \<and> filterNs = window + 1000000000 \<and> filterNs \<le> 60000000000"
      using timing [of l] by blast
    show ?thesis
    proof (cases r)
      case (Inl e)
      then show ?thesis using Inr wr r(1) servo facts m(1) by (simp add: reachability_plan_def Let_def l_def [symmetric])
    next
      case timed: (Inr x)
      obtain lead window filterNs where x: "x = (lead, window, filterNs)" by (cases x) auto
      have "0 < l" "lead = (l * AudioNanosecondsPerSecond + rate - 1) div rate" "window = ((l + b) * AudioNanosecondsPerSecond + rate - 1) div rate"
          "filterNs = window + 1000000000" "filterNs \<le> 60000000000"
        using r(2) [of lead window filterNs] timed x by simp_all
      then show ?thesis using Inr wr r(1) timed x servo facts m
        by (simp add: reachability_plan_def planned_correction_def Let_def l_def [symmetric] m_def [symmetric])
    qed
  qed
qed

lemma planned_finalized:
  assumes c: "planned_correction gap rate ppm b c" and "1 \<le> b"
    and bounds: "0 < gap" "gap \<le> 1000000000" "0 < rate" "rate \<le> 384000" "0 < ppm" "ppm \<le> 5000"
    and servo: "ap_maximumMeasurementGapNs servo = Some gap" "ap_outputSampleRate servo = Some rate" "ap_recoveryCorrectionLimitPpm servo = Some ppm"
    and timing: "ap_commandLeadNs servo = Some (rr_commandLead c)" "ap_compensationWindowNs servo = Some (rr_compensationWindow c)"
      "ap_frequencyFilterTimeConstantNs servo = Some (rr_frequencyFilterTimeConstant c)"
  shows "finalizedServo servo = Some True"
    and "(\<exists>q. quantizer_create (rr_compensationWindow c) (rr_commandLead c) rate = Some (success q)) \<longleftrightarrow>
         2 \<le> b \<or> rate dvd cr_commandLeadSamples (rr_correction c) * AudioNanosecondsPerSecond"
proof -
  define l lead window n where "l = cr_commandLeadSamples (rr_correction c)" and "lead = rr_commandLead c" and "window = rr_compensationWindow c"
    and "n = AudioNanosecondsPerSecond"
  have d: "0 < l" "lead = (l * n + rate - 1) div rate" "window = ((l + b) * n + rate - 1) div rate" "window \<le> 59000000000"
      "rr_frequencyFilterTimeConstant c = window + 1000000000" "(gap * rate + n - 1) div n + ((gap * rate + n - 1) div n * ppm + 999999) div 1000000 + 1 \<le> l"
    using c by (simp_all add: planned_correction_def Let_def l_def lead_def window_def n_def)
  have n: "rate < n" "0 < n" using bounds by (simp_all add: n_def quantizer_constants)
  note times = planned_times [OF bounds(3) n(1) d(1) assms(2), folded d(2,3)]
  note covers = planned_lead_covers [OF bounds(1,3,5) n(2) d(6)]
  have "gap * rate < lead * rate" using covers(2) times(6) by linarith
  then have gap: "gap < lead" using bounds(3) by (simp add: mult_less_cancel_right)
  have "leadCoversWorstPositiveGap lead gap rate ppm = Some True"
    using lead_covers [of ppm rate gap lead] bounds d(4) times(3,4) covers(1) times(1) by (simp add: n_def PartsPerMillion_def add.commute)
  moreover have w: "\<bar>window * rate\<bar> \<le> 60000000000 * 384000" using times(3,4) d(4) bounds by (intro abs_product_le) simp_all
  moreover have "in_int64 (window * rate)" using w by (auto intro!: in_int64_abs)
  moreover have "window \<le> (INT64_MAX - n) div rate" using w bounds by (intro le_div_pos) (simp_all add: quantizer_constants n_def)
  then have "\<not> window > tdiv (INT64_MAX - n) rate" using bounds by (simp add: tdiv_nonneg quantizer_constants n_def)
  moreover have "1 * n \<le> (l + b) * n" using d(1) assms(2) n by (intro mult_right_mono) simp_all
  then have product: "n \<le> window * rate" using div_ceiling(1) [OF bounds(3), of "(l + b) * n", folded d(3)] by simp
  moreover have "tdiv (window * rate) n \<le> INT32_MAX"
    using product n w zdiv_mono1 [of "window * rate" "23040000 * n" n] by (simp add: tdiv_nonneg quantizer_constants n_def)
  ultimately show "finalizedServo servo = Some True"
    using gap times(3,4) d(4,5) servo timing unfolding finalizedServo_def
    by (simp add: positive_def lead_def [symmetric] window_def [symmetric] n_def [symmetric] servo_limits not_less)
  show "(\<exists>q. quantizer_create (rr_compensationWindow c) (rr_commandLead c) rate = Some (success q)) \<longleftrightarrow>
      2 \<le> b \<or> rate dvd cr_commandLeadSamples (rr_correction c) * AudioNanosecondsPerSecond"
    using quantizer_created_iff [of lead window rate] times bounds d(4) product by (simp add: lead_def window_def l_def n_def)
qed

text \<open>Completing the correction timing changes nothing else that the validator reads.\<close>

lemma finalize_correction_servo [simp]:
  "ap_commandLeadNs (avp_audioServo (finalize_correction c plan)) = Some (rr_commandLead c)"
  "ap_compensationWindowNs (avp_audioServo (finalize_correction c plan)) = Some (rr_compensationWindow c)"
  "ap_frequencyFilterTimeConstantNs (avp_audioServo (finalize_correction c plan)) = Some (rr_frequencyFilterTimeConstant c)"
  "ap_maximumMeasurementGapNs (avp_audioServo (finalize_correction c plan)) = ap_maximumMeasurementGapNs (avp_audioServo plan)"
  "ap_outputSampleRate (avp_audioServo (finalize_correction c plan)) = ap_outputSampleRate (avp_audioServo plan)"
  "ap_recoveryCorrectionLimitPpm (avp_audioServo (finalize_correction c plan)) = ap_recoveryCorrectionLimitPpm (avp_audioServo plan)"
  "avp_recovery (finalize_correction c plan) = avp_recovery plan"
  "avp_startup (finalize_correction c plan) = avp_startup plan"
  by (simp_all add: finalize_correction_def)

lemma finalize_correction_inputs:
  "validateRtpInput (finalize_correction c plan) = validateRtpInput plan"
  "validateTsInput (finalize_correction c plan) = validateTsInput plan"
  "validateDemuxInput (finalize_correction c plan) = validateDemuxInput plan"
  by (simp_all add: validateRtpInput_def validateTsInput_def validateDemuxInput_def finalize_correction_def split: option.split)

lemma finalize_correction_outputs:
  "validateRtpOutput (finalize_correction c plan) = validateRtpOutput plan"
  "validateProjectMpegTsOutput (finalize_correction c plan) = validateProjectMpegTsOutput plan"
  by (simp_all add: validateRtpOutput_def validateProjectMpegTsOutput_def finalize_correction_def split: option.split)

lemma finalize_correction_valid [simp]:
  "validServo (avp_audioServo (finalize_correction c plan)) recovery = validServo (avp_audioServo plan) recovery"
  "validateInputClock (finalize_correction c plan) = validateInputClock plan"
  "validateOutput (finalize_correction c plan) = validateOutput plan"
proof -
  show "validServo (avp_audioServo (finalize_correction c plan)) recovery = validServo (avp_audioServo plan) recovery"
    by (simp add: validServo_def finalize_correction_def)
  have "avp_sourceClockMode (finalize_correction c plan) = avp_sourceClockMode plan" by (simp add: finalize_correction_def)
  then show "validateInputClock (finalize_correction c plan) = validateInputClock plan"
    by (simp only: validateInputClock_def finalize_correction_inputs)
  have "avp_rtpOutput (finalize_correction c plan) = avp_rtpOutput plan"
      "avp_projectMpegTsOutput (finalize_correction c plan) = avp_projectMpegTsOutput plan" by (simp_all add: finalize_correction_def)
  then show "validateOutput (finalize_correction c plan) = validateOutput plan"
    by (simp only: validateOutput_def finalize_correction_outputs)
qed

lemma finalized_shared:
  assumes "validateShared plan False = Some (success ())" and "finalizedServo (avp_audioServo (finalize_correction c plan)) = Some True"
  shows "validateShared (finalize_correction c plan) True = Some (success ())"
  using assms unfolding validateShared_def
  by (simp add: finalize_correction_def [of c plan] finalize_correction_valid(1) [of c plan, unfolded finalize_correction_def, simplified] split: if_splits)

text \<open>
  C37. From the plan to the runtime. Take a synchronisation plan whose policy the validator accepts, facts for the plan's sample rate and a
  resampler that emits blocks of at least one sample. The correction planner computes without overflow, and when it succeeds, the plan
  completed with its timing passes the full validation, and the runtime can create the drift servo from it, except in one case: if the block is a single
  sample and the lead is not a whole number of nanoseconds, the lead rounded up to samples fills the window, and the servo refuses the validated plan.
\<close>

theorem planned_correction_admitted:
  assumes valid: "plan_validatePolicy plan = Some (success ())" and rate: "pf_outputSampleRate facts = ap_outputSampleRate (avp_audioServo plan)"
    and block: "pf_maximumResamplerOutputBlockSamples facts = Some b" "1 \<le> b" and generation: "0 < generation"
  shows "\<exists>r. reachability_plan plan facts = Some r \<and>
    (\<forall>c. r = success c \<longrightarrow>
       plan_validate (finalize_correction c plan) = Some (success ()) \<and>
       ((\<exists>s. servo_create mode (avp_audioServo (finalize_correction c plan)) (the (rp_hardDiscontinuityThresholdNs (avp_recovery plan))) generation = Some (Inr s)) \<longleftrightarrow>
        2 \<le> b \<or> cr_outputSampleRate (rr_correction c) dvd cr_commandLeadSamples (rr_correction c) * AudioNanosecondsPerSecond))"
proof -
  have shared: "validateShared plan False = Some (success ())" "validateInputClock plan = success ()" "validateOutput plan = success ()"
    using valid by (auto simp: plan_validatePolicy_def bind_eq_Some_conv elim!: sum_case_success)
  have servo: "validServo (avp_audioServo plan) (avp_recovery plan)" using shared(1) by (auto simp: validateShared_def split: if_splits)
  obtain gap r ppm where b: "ap_maximumMeasurementGapNs (avp_audioServo plan) = Some gap" "ap_outputSampleRate (avp_audioServo plan) = Some r"
      "ap_recoveryCorrectionLimitPpm (avp_audioServo plan) = Some ppm" "0 < gap" "gap \<le> 1000000000" "0 < r" "r \<le> 384000" "0 < ppm" "ppm \<le> 5000"
    using valid_servo_bounds [OF servo] by blast
  obtain result where result: "reachability_plan plan facts = Some result" "\<And>c. result = success c \<Longrightarrow> planned_correction gap r ppm b c"
    using reachability_planned [OF b(4-9) b(1,3) _ block(1)] rate b(2) by auto
  have "plan_validate (finalize_correction c plan) = Some (success ()) \<and>
      ((\<exists>s. servo_create mode (avp_audioServo (finalize_correction c plan)) (the (rp_hardDiscontinuityThresholdNs (avp_recovery plan))) generation = Some (Inr s)) \<longleftrightarrow>
       2 \<le> b \<or> r dvd cr_commandLeadSamples (rr_correction c) * AudioNanosecondsPerSecond)" if c: "result = success c" for c
  proof
    let ?servo = "avp_audioServo (finalize_correction c plan)" and ?hard = "the (rp_hardDiscontinuityThresholdNs (avp_recovery plan))"
    have finalized: "finalizedServo ?servo = Some True"
        "(\<exists>q. quantizer_create (rr_compensationWindow c) (rr_commandLead c) r = Some (success q)) \<longleftrightarrow>
         2 \<le> b \<or> r dvd cr_commandLeadSamples (rr_correction c) * AudioNanosecondsPerSecond"
      using planned_finalized [OF result(2) [OF c] block(2) b(4-9), of ?servo] b by simp_all
    show "plan_validate (finalize_correction c plan) = Some (success ())"
      using finalized_shared [OF shared(1) finalized(1)] shared(2,3) by (simp add: plan_validate_def)
    have policy: "validPolicy ?servo ?hard generation = Some True" by (rule valid_servo_policy [OF _ finalized(1) generation]) (simp add: servo)
    obtain q where q: "quantizer_create (rr_compensationWindow c) (rr_commandLead c) r = Some q" using quantizer_create_defined by blast
    show "(\<exists>s. servo_create mode ?servo ?hard generation = Some (Inr s)) \<longleftrightarrow> 2 \<le> b \<or> r dvd cr_commandLeadSamples (rr_correction c) * AudioNanosecondsPerSecond"
      using policy q b(2) finalized(2) by (cases q) (auto simp: servo_create_def)
  qed
  moreover have "cr_outputSampleRate (rr_correction c) = r" if "result = success c" for c
    using result(2) [OF that] by (simp add: planned_correction_def Let_def)
  ultimately show ?thesis using result(1) by auto
qed

definition sample_facts :: "int \<Rightarrow> MediaRealtimeAvSyncPlanningFacts" where
  "sample_facts block =
     \<lparr>pf_outputSampleRate = Some 44100, pf_decoderDelaySamples = Some 1024, pf_encoderLookaheadSamples = Some 1024, pf_decodeQueueSamples = Some 8192,
      pf_resampleQueueSamples = Some 8192, pf_encodeQueueSamples = Some 8192, pf_schedulerQueueSamples = Some 8192, pf_protocolBatchSamples = Some 1024,
      pf_mailboxDeliveryMarginSamples = Some 1024, pf_maximumResamplerOutputBlockSamples = Some block, pf_mailboxCapacity = Some 4\<rparr>"

text \<open>With blocks of 1024 samples the servo is created; with blocks of one sample it is not.\<close>

theorem planned_correction_admitted_witness:
  "\<exists>c d. reachability_plan (sample_sync_plan 44100) (sample_facts 1024) = Some (success c) \<and>
     (\<exists>s. servo_create RtpSenderReports (avp_audioServo (finalize_correction c (sample_sync_plan 44100))) 250000000 1 = Some (Inr s)) \<and>
     reachability_plan (sample_sync_plan 44100) (sample_facts 1) = Some (success d) \<and>
     plan_validate (finalize_correction d (sample_sync_plan 44100)) = Some (success ()) \<and>
     (\<nexists>s. servo_create RtpSenderReports (avp_audioServo (finalize_correction d (sample_sync_plan 44100))) 250000000 1 = Some (Inr s))"
proof -
  let ?p = "sample_sync_plan 44100"
  have v: "map_option (map_sum id (\<lambda>c. (cr_outputSampleRate (rr_correction c), cr_commandLeadSamples (rr_correction c)))) (reachability_plan ?p (sample_facts 1024)) = Some (Inr (44100, 44322))"
      "map_option (map_sum id (\<lambda>c. (cr_outputSampleRate (rr_correction c), cr_commandLeadSamples (rr_correction c)))) (reachability_plan ?p (sample_facts 1)) = Some (Inr (44100, 44322))"
    by code_simp+
  obtain c d where c: "reachability_plan ?p (sample_facts 1024) = Some (success c)" and d: "reachability_plan ?p (sample_facts 1) = Some (success d)"
      "cr_outputSampleRate (rr_correction d) = 44100" "cr_commandLeadSamples (rr_correction d) = 44322"
    using v by (elim map_option_eq_Some [THEN iffD1, elim_format] exE conjE) (auto elim!: map_sum_success)
  have f: "pf_outputSampleRate (sample_facts b) = ap_outputSampleRate (avp_audioServo ?p)" "pf_maximumResamplerOutputBlockSamples (sample_facts b) = Some b" for b
    by (simp_all add: sample_facts_def sample_sync_plan_def planSharedNonStartupPolicy_def)
  have h: "the (rp_hardDiscontinuityThresholdNs (avp_recovery ?p)) = 250000000" by (simp add: sample_sync_plan_def planSharedNonStartupPolicy_def)
  show ?thesis
    using planned_correction_admitted [OF sample_sync_plan_valid f(1,2) [of 1024], of 1 RtpSenderReports]
      planned_correction_admitted [OF sample_sync_plan_valid f(1,2) [of 1], of 1 RtpSenderReports] c d h
    by (simp add: AudioNanosecondsPerSecond_def)
qed

end
