(* ===== verification/Video_Sync_Controller.thy ===== *)
theory Video_Sync_Controller
  imports AvSync_Plan
begin

text \<open>
  \<^verbatim>\<open>sync/MediaVideoSyncController\<close>: for every video frame, and every request to repeat one, whether to hold it, display it, drop it, or give up
  and reacquire. A held frame must be measured again, unchanged, before anything else of its generation.
\<close>

section \<open>Definitions\<close>

record MediaVideoFrameMeasurement =
  vm_dispatchOnMaster :: MediaRunningTime
  vm_targetPresentationOnMaster :: MediaRunningTime
  vm_decisionHorizonOnMaster :: MediaRunningTime
  vm_generation :: u64
  vm_sequence :: u64
  vm_keyFrame :: bool
  vm_observedAtMaster :: MediaRunningTime

record MediaVideoRepeatRequest =
  vr_repeatDispatchOnMaster :: MediaRunningTime
  vr_repeatPresentationOnMaster :: MediaRunningTime
  vr_lastEmittedPresentationOnMaster :: MediaRunningTime
  vr_decisionHorizonOnMaster :: MediaRunningTime
  vr_generation :: u64
  vr_sequence :: u64
  vr_observedAtMaster :: MediaRunningTime

datatype MediaVideoSyncMeasurement = FrameMeasurement MediaVideoFrameMeasurement | RepeatRequest MediaVideoRepeatRequest

datatype MediaVideoSyncDecisionKind =
  VideoNoAction | VideoHold | VideoDisplay | VideoDisplayLate | VideoDisplayPreservedKeyFrame | VideoDrop | VideoRepeatPreviousFrame |
  VideoReacquire | VideoDropOldGeneration

datatype MediaVideoReacquisitionCause = HardPhaseError | RecoveryBudgetExhausted | CauseGenerationMismatch

record MediaVideoSyncDecision =
  vd_kind :: MediaVideoSyncDecisionKind
  vd_presentationOnMaster :: MediaRunningTime
  vd_phaseError :: MediaRunningTime
  vd_generation :: u64
  vd_sequence :: u64
  vd_consecutiveRecoveryActions :: int
  vd_recheckAtMasterTime :: "MediaRunningTime option"
  vd_reacquisitionCause :: "MediaVideoReacquisitionCause option"

record VideoSyncPolicy =
  vsp_earlyHoldThresholdNs :: int
  vsp_lateDisplayThresholdNs :: int
  vsp_dropThresholdNs :: int
  vsp_allowRecoveryRepeat :: bool
  vsp_maximumConsecutiveRecoveryActions :: int
  vsp_hardDiscontinuityThresholdNs :: int

record HeldFrameIdentity =
  hf_sequence :: u64
  hf_dispatchOnMaster :: MediaRunningTime
  hf_targetPresentationOnMaster :: MediaRunningTime
  hf_keyFrame :: bool

record MediaVideoSyncController =
  vc_sourceClockMode :: MediaAvSyncSourceClockMode
  vc_policy :: VideoSyncPolicy
  vc_generation :: u64
  vc_lastSequence :: u64
  vc_heldFrame :: "HeldFrameIdentity option"
  vc_consecutiveRecoveryActions :: int

type_synonym video_result = "MediaVideoSyncController \<times> (MediaAvSyncError + MediaVideoSyncDecision)"

definition video_create :: "MediaAvSyncPlan \<Rightarrow> u64 \<Rightarrow> (MediaAvSyncError + MediaVideoSyncController) option" where
  "video_create plan generation = do {
     planStatus \<leftarrow> plan_validateRuntime plan;
     Some (if planStatus \<noteq> success () \<or> generation = 0
       then Inl \<lparr>se_code = InvalidVideoSyncPolicy, se_sourceClockMode = avp_sourceClockMode plan, se_state = ErrState_VideoSync, se_operation = ''create'',
         se_expectedStreamIdentity = ''video'', se_observedStreamIdentity = ''video'', se_expectedGeneration = Some generation,
         se_observedGeneration = None, se_observedSourceTime = None, se_sourceEpoch = 0, se_runningTimeEpoch = 0,
         se_minimumRunningTimeNs = INT64_MIN, se_maximumRunningTimeNs = INT64_MAX,
         se_detail = ''incomplete or inconsistent planner-owned video sync policy''\<rparr>
       else Inr \<lparr>vc_sourceClockMode = the (avp_sourceClockMode plan),
         vc_policy = \<lparr>vsp_earlyHoldThresholdNs = the (vp_earlyHoldThresholdNs (avp_video plan)),
           vsp_lateDisplayThresholdNs = the (vp_lateDisplayThresholdNs (avp_video plan)),
           vsp_dropThresholdNs = the (vp_dropThresholdNs (avp_video plan)),
           vsp_allowRecoveryRepeat = the (vp_allowRecoveryRepeat (avp_video plan)),
           vsp_maximumConsecutiveRecoveryActions = the (vp_maximumConsecutiveRecoveryActions (avp_video plan)),
           vsp_hardDiscontinuityThresholdNs = the (rp_hardDiscontinuityThresholdNs (avp_recovery plan))\<rparr>,
         vc_generation = generation, vc_lastSequence = 0, vc_heldFrame = None, vc_consecutiveRecoveryActions = 0\<rparr>)
   }"

definition video_error ::
  "MediaAvSyncErrorCode \<Rightarrow> string \<Rightarrow> u64 \<Rightarrow> MediaRunningTime \<Rightarrow> string \<Rightarrow> MediaVideoSyncController \<Rightarrow> MediaAvSyncError" where
  "video_error code operation observedGeneration presentationOnMaster detail c =
     \<lparr>se_code = code, se_sourceClockMode = Some (vc_sourceClockMode c), se_state = ErrState_VideoSync, se_operation = operation,
      se_expectedStreamIdentity = ''video'', se_observedStreamIdentity = ''video'', se_expectedGeneration = Some (vc_generation c),
      se_observedGeneration = Some observedGeneration, se_observedSourceTime = Some presentationOnMaster, se_sourceEpoch = 0, se_runningTimeEpoch = 0,
      se_minimumRunningTimeNs = INT64_MIN, se_maximumRunningTimeNs = INT64_MAX, se_detail = detail\<rparr>"

definition video_decision ::
  "MediaVideoSyncDecisionKind \<Rightarrow> MediaRunningTime \<Rightarrow> MediaRunningTime \<Rightarrow> u64 \<Rightarrow> MediaVideoReacquisitionCause option \<Rightarrow> MediaVideoSyncController \<Rightarrow> MediaVideoSyncDecision" where
  "video_decision kind presentationOnMaster phaseError sequence reacquisitionCause c =
     \<lparr>vd_kind = kind, vd_presentationOnMaster = presentationOnMaster, vd_phaseError = phaseError, vd_generation = vc_generation c, vd_sequence = sequence,
      vd_consecutiveRecoveryActions = vc_consecutiveRecoveryActions c, vd_recheckAtMasterTime = None, vd_reacquisitionCause = reacquisitionCause\<rparr>"

definition recoveryDecision :: "MediaVideoSyncDecisionKind \<Rightarrow> MediaRunningTime \<Rightarrow> MediaRunningTime \<Rightarrow> u64 \<Rightarrow> MediaVideoSyncController \<Rightarrow> video_result" where
  "recoveryDecision kind presentationOnMaster phaseError sequence c =
     (let c = c\<lparr>vc_heldFrame := None, vc_lastSequence := sequence\<rparr>
      in if vc_consecutiveRecoveryActions c \<ge> vsp_maximumConsecutiveRecoveryActions (vc_policy c)
         then (let c = c\<lparr>vc_consecutiveRecoveryActions := 0\<rparr>
               in (c, Inr (video_decision VideoReacquire presentationOnMaster phaseError sequence (Some RecoveryBudgetExhausted) c)))
         else (let c = c\<lparr>vc_consecutiveRecoveryActions := vc_consecutiveRecoveryActions c + 1\<rparr>
               in (c, Inr (video_decision kind presentationOnMaster phaseError sequence None c))))"

definition isolatedGenerationDecision :: "MediaRunningTime \<Rightarrow> MediaRunningTime \<Rightarrow> u64 \<Rightarrow> u64 \<Rightarrow> MediaVideoSyncController \<Rightarrow> MediaVideoSyncDecision" where
  "isolatedGenerationDecision presentationOnMaster phaseError observedGeneration sequence c =
     (let kind = (if observedGeneration < vc_generation c then VideoDropOldGeneration else VideoReacquire)
      in \<lparr>vd_kind = kind, vd_presentationOnMaster = presentationOnMaster, vd_phaseError = phaseError, vd_generation = observedGeneration,
          vd_sequence = sequence, vd_consecutiveRecoveryActions = vc_consecutiveRecoveryActions c, vd_recheckAtMasterTime = None,
          vd_reacquisitionCause = (if kind = VideoReacquire then Some CauseGenerationMismatch else None)\<rparr>)"

definition validateSequence :: "u64 \<Rightarrow> MediaVideoSyncController \<Rightarrow> MediaAvSyncError + unit" where
  "validateSequence sequence c =
     (if sequence = 0 \<or> sequence \<le> vc_lastSequence c
      then Inl (video_error InvalidVideoSyncMeasurement ''validate_sequence'' (vc_generation c) 0
        ''video sync sequence must be positive and strictly increasing'' c)
      else Inr ())"

definition validateFrameIdentity :: "MediaVideoFrameMeasurement \<Rightarrow> MediaVideoSyncController \<Rightarrow> MediaAvSyncError + unit" where
  "validateFrameIdentity measurement c =
     (case vc_heldFrame c of
        None \<Rightarrow> validateSequence (vm_sequence measurement) c
      | Some held \<Rightarrow>
          if vm_sequence measurement \<noteq> hf_sequence held \<or> vm_dispatchOnMaster measurement \<noteq> hf_dispatchOnMaster held \<or>
             vm_targetPresentationOnMaster measurement \<noteq> hf_targetPresentationOnMaster held \<or> vm_keyFrame measurement \<noteq> hf_keyFrame held
          then Inl (video_error InvalidVideoSyncMeasurement ''validate_held_frame'' (vm_generation measurement) (vm_targetPresentationOnMaster measurement)
            ''held video identity is immutable until a terminal decision'' c)
          else Inr ())"

text \<open>The three assignments with which every terminal decision of a frame begins.\<close>

definition video_settle :: "u64 \<Rightarrow> MediaVideoSyncController \<Rightarrow> MediaVideoSyncController" where
  "video_settle sequence c = c\<lparr>vc_heldFrame := None, vc_lastSequence := sequence, vc_consecutiveRecoveryActions := 0\<rparr>"

definition updateFrame :: "MediaVideoFrameMeasurement \<Rightarrow> MediaVideoSyncController \<Rightarrow> video_result" where
  "updateFrame measurement c =
     (let target = vm_targetPresentationOnMaster measurement;
          sequence = vm_sequence measurement;
          policy = vc_policy c;
          refuse = (\<lambda>code operation detail. (c, Inl (video_error code operation (vm_generation measurement) target detail c)));
          settle = (\<lambda>kind phase cause. (let c = video_settle sequence c in (c, Inr (video_decision kind target phase sequence cause c))))
      in if vm_generation measurement \<noteq> vc_generation c
         then (c, Inr (isolatedGenerationDecision target 0 (vm_generation measurement) sequence c))
         else if sequence = 0 then refuse InvalidVideoSyncMeasurement ''measure_frame'' ''video sync sequence must be positive''
         else
           (case validateFrameIdentity measurement c of
              Inl e \<Rightarrow> (c, Inl e)
            | Inr _ \<Rightarrow>
                if vm_observedAtMaster measurement > vm_decisionHorizonOnMaster measurement
                then refuse InvalidVideoSyncMeasurement ''measure_frame'' ''video observation exceeds its decision horizon''
                else
                  (case checkedSubtract target (vm_observedAtMaster measurement) of
                     Inl _ \<Rightarrow> refuse TimeOverflow ''measure_frame'' ''MediaRunningTime subtraction overflow''
                   | Inr presentationPhase \<Rightarrow>
                       (case checkedSubtract (vm_dispatchOnMaster measurement) (vm_decisionHorizonOnMaster measurement) of
                          Inl _ \<Rightarrow> refuse TimeOverflow ''dispatch_deadline'' ''MediaRunningTime subtraction overflow''
                        | Inr dispatchPhase \<Rightarrow>
                            (let errorNs = presentationPhase; hard = vsp_hardDiscontinuityThresholdNs policy
                             in if errorNs \<le> - hard then settle VideoReacquire presentationPhase (Some HardPhaseError)
                                else if dispatchPhase > vsp_earlyHoldThresholdNs policy
                                then
                                  (case checkedSubtract (vm_dispatchOnMaster measurement) (vsp_earlyHoldThresholdNs policy) of
                                     Inl _ \<Rightarrow> refuse TimeOverflow ''hold_deadline'' ''MediaRunningTime subtraction overflow''
                                   | Inr recheckAt \<Rightarrow>
                                       (let c = c\<lparr>vc_heldFrame := Some \<lparr>hf_sequence = sequence, hf_dispatchOnMaster = vm_dispatchOnMaster measurement,
                                              hf_targetPresentationOnMaster = target, hf_keyFrame = vm_keyFrame measurement\<rparr>\<rparr>
                                        in (c, Inr \<lparr>vd_kind = VideoHold, vd_presentationOnMaster = target, vd_phaseError = presentationPhase,
                                              vd_generation = vc_generation c, vd_sequence = sequence,
                                              vd_consecutiveRecoveryActions = vc_consecutiveRecoveryActions c,
                                              vd_recheckAtMasterTime = Some recheckAt, vd_reacquisitionCause = None\<rparr>)))
                                else if errorNs \<ge> - vsp_lateDisplayThresholdNs policy then settle VideoDisplay presentationPhase None
                                else if errorNs > - vsp_dropThresholdNs policy then settle VideoDisplayLate presentationPhase None
                                else if vm_keyFrame measurement then settle VideoDisplayPreservedKeyFrame presentationPhase None
                                else recoveryDecision VideoDrop target presentationPhase sequence c)))))"

definition updateRepeat :: "MediaVideoRepeatRequest \<Rightarrow> MediaVideoSyncController \<Rightarrow> video_result" where
  "updateRepeat request c =
     (let target = vr_repeatPresentationOnMaster request;
          sequence = vr_sequence request;
          policy = vc_policy c;
          refuse = (\<lambda>code operation detail. (c, Inl (video_error code operation (vr_generation request) target detail c)));
          settle = (\<lambda>kind phase cause. (let c = c\<lparr>vc_lastSequence := sequence, vc_consecutiveRecoveryActions := 0\<rparr>
            in (c, Inr (video_decision kind target phase sequence cause c))))
      in if vc_heldFrame c \<noteq> None \<and> vr_generation request = vc_generation c
         then refuse InvalidVideoSyncMeasurement ''measure_repeat'' ''repeat cannot overtake a held video frame''
         else if vr_generation request \<noteq> vc_generation c
         then (c, Inr (isolatedGenerationDecision target 0 (vr_generation request) sequence c))
         else if sequence = 0 then refuse InvalidVideoSyncMeasurement ''measure_repeat'' ''video sync sequence must be positive''
         else if vr_observedAtMaster request > vr_decisionHorizonOnMaster request
         then refuse InvalidVideoSyncMeasurement ''measure_repeat'' ''video repeat observation exceeds its decision horizon''
         else
           (case checkedSubtract target (vr_observedAtMaster request) of
              Inl _ \<Rightarrow> refuse TimeOverflow ''measure_repeat'' ''MediaRunningTime subtraction overflow''
            | Inr presentationPhase \<Rightarrow>
                (case checkedSubtract (vr_repeatDispatchOnMaster request) (vr_decisionHorizonOnMaster request) of
                   Inl _ \<Rightarrow> refuse TimeOverflow ''repeat_dispatch_deadline'' ''MediaRunningTime subtraction overflow''
                 | Inr dispatchPhase \<Rightarrow>
                     (case validateSequence sequence c of
                        Inl e \<Rightarrow> (c, Inl e)
                      | Inr _ \<Rightarrow>
                          if \<not> vr_lastEmittedPresentationOnMaster request < target
                          then refuse InvalidVideoSyncMeasurement ''measure_repeat'' ''repeat request requires last emitted presentation < repeat presentation''
                          else
                            (let errorNs = presentationPhase; hard = vsp_hardDiscontinuityThresholdNs policy
                             in if errorNs \<le> - hard then settle VideoReacquire presentationPhase (Some HardPhaseError)
                                else if dispatchPhase > vsp_earlyHoldThresholdNs policy
                                then
                                  (case checkedSubtract (vr_repeatDispatchOnMaster request) (vsp_earlyHoldThresholdNs policy) of
                                     Inl _ \<Rightarrow> refuse TimeOverflow ''repeat_hold_deadline'' ''MediaRunningTime subtraction overflow''
                                   | Inr recheckAt \<Rightarrow>
                                       (c, Inr \<lparr>vd_kind = VideoHold, vd_presentationOnMaster = target, vd_phaseError = presentationPhase,
                                          vd_generation = vc_generation c, vd_sequence = sequence,
                                          vd_consecutiveRecoveryActions = vc_consecutiveRecoveryActions c,
                                          vd_recheckAtMasterTime = Some recheckAt, vd_reacquisitionCause = None\<rparr>))
                                else if \<not> vsp_allowRecoveryRepeat policy then settle VideoNoAction presentationPhase None
                                else recoveryDecision VideoRepeatPreviousFrame target presentationPhase sequence c)))))"

definition video_update :: "MediaVideoSyncMeasurement \<Rightarrow> MediaVideoSyncController \<Rightarrow> video_result" where
  "video_update measurement c = (case measurement of FrameMeasurement frame \<Rightarrow> updateFrame frame c | RepeatRequest request \<Rightarrow> updateRepeat request c)"

definition video_reset :: "u64 \<Rightarrow> MediaVideoSyncController \<Rightarrow> MediaVideoSyncController \<times> (MediaAvSyncError + unit)" where
  "video_reset generation c =
     (if generation = 0 \<or> generation \<le> vc_generation c
      then (c, Inl (video_error InvalidGenerationTransition ''reset'' generation 0 ''video sync reset requires a strictly increasing generation'' c))
      else (c\<lparr>vc_generation := generation, vc_lastSequence := 0, vc_heldFrame := None, vc_consecutiveRecoveryActions := 0\<rparr>, Inr ()))"

section \<open>Single steps\<close>

text \<open>A decision settles the frame or request it is about, unless the frame is held or belongs to another generation.\<close>

definition recovers :: "MediaVideoSyncDecision \<Rightarrow> bool" where
  "recovers d \<longleftrightarrow> vd_kind d = VideoDrop \<or> vd_kind d = VideoRepeatPreviousFrame"

definition settles :: "MediaVideoSyncDecision \<Rightarrow> bool" where
  "settles d \<longleftrightarrow> vd_kind d \<noteq> VideoHold \<and> vd_kind d \<noteq> VideoDropOldGeneration \<and> vd_reacquisitionCause d \<noteq> Some CauseGenerationMismatch"

definition held_ahead :: "MediaVideoSyncController \<Rightarrow> bool" where
  "held_ahead c \<longleftrightarrow> (case vc_heldFrame c of None \<Rightarrow> True | Some held \<Rightarrow> vc_lastSequence c < hf_sequence held)"

definition video_step :: "MediaVideoSyncController \<Rightarrow> MediaVideoSyncController \<Rightarrow> MediaVideoSyncDecision \<Rightarrow> bool" where
  "video_step c c' d \<longleftrightarrow>
     vc_policy c' = vc_policy c \<and> vc_generation c' = vc_generation c \<and> held_ahead c' \<and>
     (if settles d
      then vc_lastSequence c < vd_sequence d \<and> vc_lastSequence c' = vd_sequence d \<and>
           (if recovers d
            then vc_consecutiveRecoveryActions c < vsp_maximumConsecutiveRecoveryActions (vc_policy c) \<and>
                 vc_consecutiveRecoveryActions c' = vc_consecutiveRecoveryActions c + 1
            else vc_consecutiveRecoveryActions c' = 0)
      else vc_lastSequence c' = vc_lastSequence c \<and> vc_consecutiveRecoveryActions c' = vc_consecutiveRecoveryActions c)"

lemmas decision_defs = settles_def recovers_def video_step_def held_ahead_def video_decision_def

fun video_outcome :: "MediaVideoSyncController \<Rightarrow> video_result \<Rightarrow> bool" where
  "video_outcome c (c', Inl e) \<longleftrightarrow> c' = c"
| "video_outcome c (c', Inr d) \<longleftrightarrow> video_step c c' d"

lemma recoveryDecision_step:
  "kind = VideoDrop \<or> kind = VideoRepeatPreviousFrame \<Longrightarrow> vc_lastSequence c < sequence \<Longrightarrow>
   video_outcome c (recoveryDecision kind target phase sequence c)"
  by (auto simp: recoveryDecision_def Let_def decision_defs)

lemma isolated_step: "held_ahead c \<Longrightarrow> video_step c c (isolatedGenerationDecision target phase generation sequence c)"
  by (auto simp: isolatedGenerationDecision_def Let_def decision_defs)

lemma video_settle_step:
  "vc_lastSequence c < sequence \<Longrightarrow> kind \<noteq> VideoHold \<Longrightarrow> kind \<noteq> VideoDropOldGeneration \<Longrightarrow> kind \<noteq> VideoDrop \<Longrightarrow> kind \<noteq> VideoRepeatPreviousFrame \<Longrightarrow>
   cause \<noteq> Some CauseGenerationMismatch \<Longrightarrow> video_step c (video_settle sequence c) (video_decision kind target phase sequence cause (video_settle sequence c))"
  by (simp add: decision_defs video_settle_def)

lemma frame_identity_ahead: "validateFrameIdentity m c = Inr u \<Longrightarrow> held_ahead c \<Longrightarrow> vc_lastSequence c < vm_sequence m"
  by (auto simp: validateFrameIdentity_def validateSequence_def held_ahead_def not_le split: option.splits if_splits)

lemma updateFrame_step:
  assumes "held_ahead c"
  shows "video_outcome c (updateFrame m c)"
proof (cases "validateFrameIdentity m c")
  case (Inl e)
  then show ?thesis using isolated_step [OF assms] by (simp add: updateFrame_def Let_def)
next
  case (Inr u)
  have ahead: "vc_lastSequence c < vm_sequence m" using frame_identity_ahead [OF Inr assms] .
  have hold: "video_step c (c\<lparr>vc_heldFrame := Some h\<rparr>) d" if "hf_sequence h = vm_sequence m" "vd_kind d = VideoHold" for h d
    using that ahead by (simp add: decision_defs)
  show ?thesis unfolding updateFrame_def Let_def Inr
    by (simp add: ahead isolated_step [OF assms] hold video_settle_step recoveryDecision_step split: sum.split)
qed

lemma updateRepeat_step:
  assumes "held_ahead c"
  shows "video_outcome c (updateRepeat q c)"
proof (cases "validateSequence (vr_sequence q) c")
  case (Inl e)
  then show ?thesis unfolding updateRepeat_def Let_def by (simp add: isolated_step [OF assms] split: sum.split)
next
  case (Inr u)
  have ahead: "vc_lastSequence c < vr_sequence q" using Inr by (auto simp: validateSequence_def not_le split: if_splits)
  have hold: "video_step c c d" if "vd_kind d = VideoHold" for d using that assms by (simp add: decision_defs)
  have settle: "video_step c (c\<lparr>vc_lastSequence := vr_sequence q, vc_consecutiveRecoveryActions := 0\<rparr>)
      (video_decision kind target phase (vr_sequence q) cause (c\<lparr>vc_lastSequence := vr_sequence q, vc_consecutiveRecoveryActions := 0\<rparr>))"
    if "vc_heldFrame c = None" "kind \<noteq> VideoHold" "kind \<noteq> VideoDropOldGeneration" "kind \<noteq> VideoDrop" "kind \<noteq> VideoRepeatPreviousFrame"
      "cause \<noteq> Some CauseGenerationMismatch" for kind target phase cause
    using that ahead by (simp add: decision_defs)
  show ?thesis unfolding updateRepeat_def Let_def Inr
    by (simp add: ahead isolated_step [OF assms] hold settle recoveryDecision_step split: sum.split)
qed

lemma update_step: "held_ahead c \<Longrightarrow> video_outcome c (video_update m c)"
  by (cases m) (simp_all add: video_update_def updateFrame_step updateRepeat_step)

section \<open>Runs\<close>

datatype VideoCall = CallVideoUpdate MediaVideoSyncMeasurement | CallVideoReset u64
datatype VideoEvent = VideoRefused | VideoDecided MediaVideoSyncDecision | VideoRestarted

fun video_call :: "VideoCall \<Rightarrow> MediaVideoSyncController \<Rightarrow> MediaVideoSyncController \<times> VideoEvent" where
  "video_call (CallVideoUpdate m) c = (case video_update m c of (c, Inl _) \<Rightarrow> (c, VideoRefused) | (c, Inr d) \<Rightarrow> (c, VideoDecided d))"
| "video_call (CallVideoReset g) c = (case video_reset g c of (c, Inl _) \<Rightarrow> (c, VideoRefused) | (c, Inr _) \<Rightarrow> (c, VideoRestarted))"

fun video_run :: "VideoCall list \<Rightarrow> MediaVideoSyncController \<times> VideoEvent list \<Rightarrow> MediaVideoSyncController \<times> VideoEvent list" where
  "video_run [] s = s"
| "video_run (call # calls) (c, events) = (case video_call call c of (c, event) \<Rightarrow> video_run calls (c, events @ [event]))"

text \<open>The sequence numbers settled since the last restart, and the recovery actions since the last settlement that was none.\<close>

fun settle_event :: "VideoEvent \<Rightarrow> u64 list \<Rightarrow> u64 list" where
  "settle_event VideoRefused sequences = sequences"
| "settle_event (VideoDecided d) sequences = (if settles d then sequences @ [vd_sequence d] else sequences)"
| "settle_event VideoRestarted sequences = []"

fun streak_event :: "VideoEvent \<Rightarrow> int \<Rightarrow> int" where
  "streak_event VideoRefused n = n"
| "streak_event (VideoDecided d) n = (if \<not> settles d then n else if recovers d then n + 1 else 0)"
| "streak_event VideoRestarted n = 0"

definition settled_sequences :: "VideoEvent list \<Rightarrow> u64 list" where
  "settled_sequences events = fold settle_event events []"

definition recovery_streak :: "VideoEvent list \<Rightarrow> int" where
  "recovery_streak events = fold streak_event events 0"

definition video_inv :: "VideoSyncPolicy \<Rightarrow> MediaVideoSyncController \<times> VideoEvent list \<Rightarrow> bool" where
  "video_inv policy s \<longleftrightarrow>
     (case s of (c, events) \<Rightarrow>
        vc_policy c = policy \<and> held_ahead c \<and> sorted_wrt (<) (settled_sequences events) \<and> (\<forall>n\<in>set (settled_sequences events). n \<le> vc_lastSequence c) \<and>
        vc_consecutiveRecoveryActions c = recovery_streak events \<and> recovery_streak events \<le> vsp_maximumConsecutiveRecoveryActions policy)"

lemmas event_lists = settled_sequences_def recovery_streak_def

lemma video_inv_decided:
  assumes "video_inv policy (c, events)" and "video_step c c' d" and "0 \<le> vsp_maximumConsecutiveRecoveryActions policy"
  shows "video_inv policy (c', events @ [VideoDecided d])"
  using assms unfolding video_inv_def video_step_def
  by (auto simp: event_lists sorted_wrt_append split: if_splits)

lemma video_inv_call:
  assumes "video_inv policy (c, events)" and "video_call call c = (c', event)" and "0 \<le> vsp_maximumConsecutiveRecoveryActions policy"
  shows "video_inv policy (c', events @ [event])"
proof (cases call)
  case (CallVideoUpdate m)
  obtain c1 r where u: "video_update m c = (c1, r)" by (cases "video_update m c")
  have outcome: "video_outcome c (c1, r)" using update_step [of c m] assms(1) by (simp add: video_inv_def u)
  show ?thesis
  proof (cases r)
    case (Inl e)
    then have "c' = c" "event = VideoRefused" using outcome assms(2) CallVideoUpdate u by simp_all
    then show ?thesis using assms(1) by (simp add: video_inv_def event_lists)
  next
    case (Inr d)
    then have "video_step c c' d" "event = VideoDecided d" using outcome assms(2) CallVideoUpdate u by simp_all
    then show ?thesis using video_inv_decided [OF assms(1) _ assms(3)] by simp
  qed
next
  case (CallVideoReset g)
  then show ?thesis using assms by (auto simp: video_reset_def video_inv_def event_lists held_ahead_def split: if_splits)
qed

lemma video_inv_run:
  "video_inv policy s \<Longrightarrow> 0 \<le> vsp_maximumConsecutiveRecoveryActions policy \<Longrightarrow> video_inv policy (video_run calls s)"
proof (induction calls arbitrary: s)
  case (Cons call calls)
  obtain c events where s: "s = (c, events)" by (cases s)
  obtain c' event where call: "video_call call c = (c', event)" by (cases "video_call call c")
  show ?case using Cons.IH [OF video_inv_call [OF Cons.prems(1) [unfolded s] call Cons.prems(2)] Cons.prems(2)] by (simp add: s call)
qed simp

text \<open>A controller is only created with ordered thresholds and a positive budget of recovery actions.\<close>

lemma runtime_plan_valid:
  assumes "plan_validateRuntime plan = Some (success ())"
  shows "validVideo (avp_video plan)" and "validRecovery (avp_video plan) (avp_recovery plan)"
proof -
  obtain f where "validateShared plan f = Some (success ())"
  proof (cases "plan_validate plan = Some (success ())")
    case True
    then have "validateShared plan True = Some (success ())" by (auto simp: plan_validate_def bind_eq_Some_conv elim!: sum_case_success)
    then show ?thesis by (rule that)
  next
    case False
    then have "plan_validatePolicy plan = Some (success ())" using assms by (auto simp: plan_validateRuntime_def Let_def split: if_splits)
    then have "validateShared plan False = Some (success ())" by (auto simp: plan_validatePolicy_def bind_eq_Some_conv elim!: sum_case_success)
    then show ?thesis by (rule that)
  qed
  then show "validVideo (avp_video plan)" "validRecovery (avp_video plan) (avp_recovery plan)"
    by (auto simp: validateShared_def bind_eq_Some_conv split: if_splits)
qed

lemma video_created:
  assumes "video_create plan generation = Some (Inr c)"
  shows "video_inv (vc_policy c) (c, [])" and "0 < vsp_maximumConsecutiveRecoveryActions (vc_policy c)"
    and "0 < vsp_earlyHoldThresholdNs (vc_policy c)" and "vsp_earlyHoldThresholdNs (vc_policy c) < vsp_lateDisplayThresholdNs (vc_policy c)"
    and "vsp_lateDisplayThresholdNs (vc_policy c) < vsp_dropThresholdNs (vc_policy c)"
    and "vsp_dropThresholdNs (vc_policy c) < vsp_hardDiscontinuityThresholdNs (vc_policy c)"
proof -
  have valid: "plan_validateRuntime plan = Some (success ())" using assms by (auto simp: video_create_def bind_eq_Some_conv split: if_splits)
  note v = runtime_plan_valid [OF valid]
  have p: "vc_policy c = \<lparr>vsp_earlyHoldThresholdNs = the (vp_earlyHoldThresholdNs (avp_video plan)),
      vsp_lateDisplayThresholdNs = the (vp_lateDisplayThresholdNs (avp_video plan)), vsp_dropThresholdNs = the (vp_dropThresholdNs (avp_video plan)),
      vsp_allowRecoveryRepeat = the (vp_allowRecoveryRepeat (avp_video plan)),
      vsp_maximumConsecutiveRecoveryActions = the (vp_maximumConsecutiveRecoveryActions (avp_video plan)),
      vsp_hardDiscontinuityThresholdNs = the (rp_hardDiscontinuityThresholdNs (avp_recovery plan))\<rparr>"
      "vc_heldFrame c = None" "vc_consecutiveRecoveryActions c = 0"
    using assms valid by (auto simp: video_create_def split: if_splits)
  show limit: "0 < vsp_maximumConsecutiveRecoveryActions (vc_policy c)" using v(1) by (auto simp: p validVideo_def positive_def split: option.splits)
  show "0 < vsp_earlyHoldThresholdNs (vc_policy c)" using v(1) by (auto simp: p validVideo_def positive_def split: option.splits)
  show "vsp_earlyHoldThresholdNs (vc_policy c) < vsp_lateDisplayThresholdNs (vc_policy c)" using v(1) by (simp add: p validVideo_def)
  show "vsp_lateDisplayThresholdNs (vc_policy c) < vsp_dropThresholdNs (vc_policy c)" using v(1) by (simp add: p validVideo_def)
  show "vsp_dropThresholdNs (vc_policy c) < vsp_hardDiscontinuityThresholdNs (vc_policy c)" using v(2) by (simp add: p validRecovery_def)
  show "video_inv (vc_policy c) (c, [])" using limit p by (simp add: video_inv_def event_lists held_ahead_def)
qed

section \<open>Properties\<close>

text \<open>
  C38. Frames are settled once and in order. Whatever sequence of frame measurements, repeat requests and resets a controller is given, the sequence
  numbers for which it has made a final decision since its last reset (display, drop, repeat, no action, or reacquisition in its own generation) strictly increase;
  so no frame is displayed or dropped twice, and none after a later one.
\<close>

theorem video_settles_in_order:
  assumes "video_create plan generation = Some (Inr c0)" and "video_run calls (c0, []) = (c, events)"
  shows "sorted_wrt (<) (settled_sequences events)"
proof -
  have "video_inv (vc_policy c0) (c, events)" using video_inv_run [OF video_created(1), of plan generation c0 calls] video_created(2) assms by fastforce
  then show ?thesis by (simp add: video_inv_def)
qed

text \<open>What a frame that is dropped, and one that is held, satisfies.\<close>

fun frame_decided :: "MediaVideoFrameMeasurement \<Rightarrow> MediaVideoSyncController \<Rightarrow> video_result \<Rightarrow> bool" where
  "frame_decided m c (c', Inl e) \<longleftrightarrow> True"
| "frame_decided m c (c', Inr d) \<longleftrightarrow>
     (vd_kind d = VideoDrop \<longrightarrow> \<not> vm_keyFrame m \<and> vsp_dropThresholdNs (vc_policy c) \<le> vm_observedAtMaster m - vm_targetPresentationOnMaster m \<and>
        vm_observedAtMaster m - vm_targetPresentationOnMaster m < vsp_hardDiscontinuityThresholdNs (vc_policy c) \<and>
        vc_consecutiveRecoveryActions c < vsp_maximumConsecutiveRecoveryActions (vc_policy c)) \<and>
     (vd_kind d = VideoHold \<longrightarrow> vm_generation m = vc_generation c \<and> vm_sequence m \<noteq> 0 \<and> vc_generation c' = vc_generation c \<and> vc_policy c' = vc_policy c \<and>
        vd_recheckAtMasterTime d = Some (vm_dispatchOnMaster m - vsp_earlyHoldThresholdNs (vc_policy c)) \<and>
        vc_heldFrame c' = Some \<lparr>hf_sequence = vm_sequence m, hf_dispatchOnMaster = vm_dispatchOnMaster m,
          hf_targetPresentationOnMaster = vm_targetPresentationOnMaster m, hf_keyFrame = vm_keyFrame m\<rparr>)"

lemma checkedSubtract_value: "checkedSubtract a b = success d \<Longrightarrow> d = a - b"
  by (simp add: checkedSubtract_def split: if_splits)

lemma recovery_decided:
  assumes "\<not> vm_keyFrame m" and "vsp_dropThresholdNs (vc_policy c) \<le> vm_observedAtMaster m - vm_targetPresentationOnMaster m"
    and "vm_observedAtMaster m - vm_targetPresentationOnMaster m < vsp_hardDiscontinuityThresholdNs (vc_policy c)"
  shows "frame_decided m c (recoveryDecision VideoDrop target phase sequence c)"
  using assms by (simp add: recoveryDecision_def Let_def video_decision_def)

lemma settle_decided: "kind \<noteq> VideoHold \<Longrightarrow> kind \<noteq> VideoDrop \<Longrightarrow> frame_decided m c (c', Inr (video_decision kind target phase sequence cause c'))"
  by (simp add: video_decision_def)

lemma isolated_decided: "frame_decided m c (c', Inr (isolatedGenerationDecision target phase generation sequence c))"
  by (simp add: isolatedGenerationDecision_def Let_def)

lemma updateFrame_decided: "frame_decided m c (updateFrame m c)"
proof (cases "validateFrameIdentity m c")
  case (Inl e)
  then show ?thesis unfolding updateFrame_def Let_def by (simp add: isolated_decided del: frame_decided.simps(2))
next
  case (Inr u)
  show ?thesis
  proof (cases "checkedSubtract (vm_targetPresentationOnMaster m) (vm_observedAtMaster m)")
    case (Inl e)
    then show ?thesis unfolding updateFrame_def Let_def Inr by (simp add: isolated_decided del: frame_decided.simps(2))
  next
    case presentation: (Inr phase)
    have phase: "phase = vm_targetPresentationOnMaster m - vm_observedAtMaster m" by (rule checkedSubtract_value [OF presentation])
    have hold: "frame_decided m c (c\<lparr>vc_heldFrame := Some \<lparr>hf_sequence = vm_sequence m, hf_dispatchOnMaster = vm_dispatchOnMaster m,
          hf_targetPresentationOnMaster = vm_targetPresentationOnMaster m, hf_keyFrame = vm_keyFrame m\<rparr>\<rparr>, Inr d)"
      if "vm_generation m = vc_generation c" "vm_sequence m \<noteq> 0" "vd_kind d = VideoHold"
        "\<exists>t. vd_recheckAtMasterTime d = Some t \<and> checkedSubtract (vm_dispatchOnMaster m) (vsp_earlyHoldThresholdNs (vc_policy c)) = success t" for d
      using that checkedSubtract_value by fastforce
    show ?thesis unfolding updateFrame_def Let_def Inr presentation
      by (simp add: isolated_decided settle_decided hold recovery_decided phase del: frame_decided.simps(2) split: sum.split)
  qed
qed

text \<open>
  C39. Recovery is bounded. In every run the controller never makes more recovery actions in a row, frames dropped or repeated with no other settled
  frame between them, than its policy allows; and whenever it drops a frame, that is no key frame, it is late by at least
  the drop threshold and by less than the threshold for reacquisition, and the budget is not used up.
\<close>

theorem video_recovery_bounded:
  assumes "video_create plan generation = Some (Inr c0)" and "video_run calls (c0, []) = (c, events)"
  shows "recovery_streak events \<le> vsp_maximumConsecutiveRecoveryActions (vc_policy c0) \<and>
    (\<forall>m c' d. video_update (FrameMeasurement m) c = (c', Inr d) \<and> vd_kind d = VideoDrop \<longrightarrow>
       \<not> vm_keyFrame m \<and> vsp_dropThresholdNs (vc_policy c0) \<le> vm_observedAtMaster m - vm_targetPresentationOnMaster m \<and>
       vm_observedAtMaster m - vm_targetPresentationOnMaster m < vsp_hardDiscontinuityThresholdNs (vc_policy c0) \<and>
       recovery_streak events < vsp_maximumConsecutiveRecoveryActions (vc_policy c0))"
proof -
  have "video_inv (vc_policy c0) (c, events)" using video_inv_run [OF video_created(1), of plan generation c0 calls] video_created(2) assms by fastforce
  then have inv: "vc_policy c = vc_policy c0" "vc_consecutiveRecoveryActions c = recovery_streak events"
      "recovery_streak events \<le> vsp_maximumConsecutiveRecoveryActions (vc_policy c0)" by (simp_all add: video_inv_def)
  have "\<not> vm_keyFrame m \<and> vsp_dropThresholdNs (vc_policy c0) \<le> vm_observedAtMaster m - vm_targetPresentationOnMaster m \<and>
      vm_observedAtMaster m - vm_targetPresentationOnMaster m < vsp_hardDiscontinuityThresholdNs (vc_policy c0) \<and>
      recovery_streak events < vsp_maximumConsecutiveRecoveryActions (vc_policy c0)"
    if "video_update (FrameMeasurement m) c = (c', Inr d)" "vd_kind d = VideoDrop" for m c' d
    using that updateFrame_decided [of m c] inv by (simp add: video_update_def)
  then show ?thesis using inv(3) by blast
qed

text \<open>
  C40. A held frame is decided in time and cannot be overtaken. When the controller holds a frame it names a time to check again. Until the frame is
  decided, any other frame and any repeat request of its generation are refused without effect; and when the frame is measured
  again with a decision horizon that has reached the named time, and the times involved are representable, the controller makes a final decision on it.
\<close>

theorem held_frame_resolves:
  assumes "video_update (FrameMeasurement m) c = (c1, Inr d)" and "vd_kind d = VideoHold" and "vd_recheckAtMasterTime d = Some t"
  shows "(\<forall>q. vr_generation q = vm_generation m \<longrightarrow> (\<exists>e. video_update (RepeatRequest q) c1 = (c1, Inl e))) \<and>
    (\<forall>n. vm_generation n = vm_generation m \<and> vm_sequence n \<noteq> vm_sequence m \<longrightarrow> (\<exists>e. video_update (FrameMeasurement n) c1 = (c1, Inl e))) \<and>
    (\<forall>observed horizon. t \<le> horizon \<and> observed \<le> horizon \<and> in_int64 (vm_targetPresentationOnMaster m - observed) \<and> in_int64 (vm_dispatchOnMaster m - horizon) \<longrightarrow>
       (\<exists>c2 d2. video_update (FrameMeasurement (m\<lparr>vm_observedAtMaster := observed, vm_decisionHorizonOnMaster := horizon\<rparr>)) c1 = (c2, Inr d2) \<and>
          settles d2 \<and> vd_sequence d2 = vm_sequence m))"
proof -
  have held: "vm_generation m = vc_generation c1" "vm_sequence m \<noteq> 0" "t = vm_dispatchOnMaster m - vsp_earlyHoldThresholdNs (vc_policy c1)"
      "vc_heldFrame c1 = Some \<lparr>hf_sequence = vm_sequence m, hf_dispatchOnMaster = vm_dispatchOnMaster m,
        hf_targetPresentationOnMaster = vm_targetPresentationOnMaster m, hf_keyFrame = vm_keyFrame m\<rparr>"
    using updateFrame_decided [of m c] assms by (auto simp: video_update_def)
  have repeat: "\<exists>e. video_update (RepeatRequest q) c1 = (c1, Inl e)" if "vr_generation q = vm_generation m" for q
    using that held by (simp add: video_update_def updateRepeat_def Let_def)
  have other: "\<exists>e. video_update (FrameMeasurement n) c1 = (c1, Inl e)" if "vm_generation n = vm_generation m" "vm_sequence n \<noteq> vm_sequence m" for n
    using that held by (simp add: video_update_def updateFrame_def validateFrameIdentity_def Let_def)
  have again: "\<exists>c2 d2. video_update (FrameMeasurement (m\<lparr>vm_observedAtMaster := observed, vm_decisionHorizonOnMaster := horizon\<rparr>)) c1 = (c2, Inr d2) \<and>
      settles d2 \<and> vd_sequence d2 = vm_sequence m"
    if "t \<le> horizon" "observed \<le> horizon" "in_int64 (vm_targetPresentationOnMaster m - observed)" "in_int64 (vm_dispatchOnMaster m - horizon)" for observed horizon
  proof -
    let ?m = "m\<lparr>vm_observedAtMaster := observed, vm_decisionHorizonOnMaster := horizon\<rparr>"
    have subtract: "checkedSubtract a b = success (a - b)" if "in_int64 (a - b)" for a b
      using that by (auto simp: checkedSubtract_def in_int64_def INT64_MIN_def INT64_MAX_def)
    have "validateFrameIdentity ?m c1 = Inr ()" using held(4) by (simp add: validateFrameIdentity_def)
    moreover have "\<not> vm_dispatchOnMaster m - horizon > vsp_earlyHoldThresholdNs (vc_policy c1)" using that(1) held(3) by simp
    ultimately show ?thesis using held(1,2) that
      by (simp add: video_update_def updateFrame_def Let_def subtract settles_def video_decision_def recoveryDecision_def)
  qed
  show ?thesis using repeat other again by blast
qed

text \<open>A controller with the planned policy: one frame is held and then displayed, the next is late by 100 ms and dropped, a key frame as late is not.\<close>

definition sample_video :: MediaVideoSyncController where
  "sample_video = projr (the (video_create (sample_sync_plan 44100) 1))"

definition sample_frame :: "u64 \<Rightarrow> bool \<Rightarrow> int \<Rightarrow> int \<Rightarrow> MediaVideoFrameMeasurement" where
  "sample_frame sequence key dispatch now =
     \<lparr>vm_dispatchOnMaster = dispatch, vm_targetPresentationOnMaster = dispatch + 20000000, vm_decisionHorizonOnMaster = now, vm_generation = 1,
      vm_sequence = sequence, vm_keyFrame = key, vm_observedAtMaster = now\<rparr>"

definition sample_video_calls :: "VideoCall list" where
  "sample_video_calls = map (CallVideoUpdate \<circ> FrameMeasurement)
     [sample_frame 1 True 100000000 50000000, sample_frame 2 False 140000000 60000000, sample_frame 1 True 100000000 80000000,
      sample_frame 2 False 140000000 260000000, sample_frame 3 True 180000000 300000000]"

lemma sample_video_created: "video_create (sample_sync_plan 44100) 1 = Some (Inr sample_video)"
  by code_simp

theorem video_settles_in_order_witness:
  "\<exists>c events. video_run sample_video_calls (sample_video, []) = (c, events) \<and> settled_sequences events = [1, 2, 3] \<and>
     sorted_wrt (<) (settled_sequences events)"
proof -
  obtain c events where run: "video_run sample_video_calls (sample_video, []) = (c, events)" by fastforce
  have "settled_sequences (snd (video_run sample_video_calls (sample_video, []))) = [1, 2, 3]" by code_simp
  then show ?thesis using video_settles_in_order [OF sample_video_created run] run by auto
qed

theorem video_recovery_bounded_witness:
  "\<exists>c events. video_run (take 3 sample_video_calls) (sample_video, []) = (c, events) \<and> recovery_streak events \<le> 5 \<and>
     (\<exists>c' d. video_update (FrameMeasurement (sample_frame 2 False 140000000 260000000)) c = (c', Inr d) \<and> vd_kind d = VideoDrop)"
proof -
  obtain c events where run: "video_run (take 3 sample_video_calls) (sample_video, []) = (c, events)" by fastforce
  have "map_sum (\<lambda>_. ()) vd_kind (snd (video_update (FrameMeasurement (sample_frame 2 False 140000000 260000000)) (fst (video_run (take 3 sample_video_calls) (sample_video, []))))) =
      Inr VideoDrop" by code_simp
  then have "\<exists>c' d. video_update (FrameMeasurement (sample_frame 2 False 140000000 260000000)) c = (c', Inr d) \<and> vd_kind d = VideoDrop"
    unfolding run by (cases "video_update (FrameMeasurement (sample_frame 2 False 140000000 260000000)) c") (auto elim!: map_sum_success)
  moreover have "vsp_maximumConsecutiveRecoveryActions (vc_policy sample_video) = 5" by code_simp
  ultimately show ?thesis using video_recovery_bounded [OF sample_video_created run] run by auto
qed

theorem held_frame_resolves_witness:
  "\<exists>c1 d c2 d2. video_update (FrameMeasurement (sample_frame 1 True 100000000 50000000)) sample_video = (c1, Inr d) \<and> vd_kind d = VideoHold \<and>
     video_update (FrameMeasurement (sample_frame 1 True 100000000 80000000)) c1 = (c2, Inr d2) \<and> settles d2"
proof -
  let ?m = "sample_frame 1 True 100000000 50000000"
  have "map_sum (\<lambda>_. ()) (\<lambda>d. (vd_kind d, vd_recheckAtMasterTime d)) (snd (video_update (FrameMeasurement ?m) sample_video)) = Inr (VideoHold, Some 80000000)"
    by code_simp
  then obtain c1 d where d: "video_update (FrameMeasurement ?m) sample_video = (c1, Inr d)" "vd_kind d = VideoHold" "vd_recheckAtMasterTime d = Some 80000000"
    by (cases "video_update (FrameMeasurement ?m) sample_video") (auto elim!: map_sum_success)
  have "?m\<lparr>vm_observedAtMaster := 80000000, vm_decisionHorizonOnMaster := 80000000\<rparr> = sample_frame 1 True 100000000 80000000" by (simp add: sample_frame_def)
  moreover have "in_int64 (vm_targetPresentationOnMaster ?m - 80000000)" "in_int64 (vm_dispatchOnMaster ?m - 80000000)" by code_simp+
  ultimately show ?thesis using held_frame_resolves [OF d] d by fastforce
qed

end
