(* ===== verification/Spec2Isabelle.thy ===== *)
theory Spec2Isabelle
  imports Graph_Validation Timestamp_Unwrapper Canonical_Time_Mapper Sync_State_Machine Blocking_Queue_System Media_Queue Rtp_Reorder Ts_Incremental Ts_Psi_Tables Credit_Books Video_Rtp_Formats Audio_Rtp_Depacketizer Rtcp_Tracker Rtcp_Schedule Correction_Planner Video_Sync_Controller
begin

text \<open>
  A verification library for MediaTranscode, the C++20 media transcoding framework under \<^verbatim>\<open>src/\<close>. Paths below are relative to
  \<^verbatim>\<open>src/src/internal/graph/\<close>.

  \<^bold>\<open>The program.\<close> A planner turns a transcoding request into a directed graph of media nodes; a builder assembles the graph from node
  descriptors, the validator accepts it, and the runtime compiles it: every edge becomes a queue, every node runs on its own thread, and
  a ledger of payload credit bounds the memory that buffers in flight may hold. Real-time inputs arrive as RTP datagrams (reordered,
  depacketized, their clocks related to wall time by RTCP) or as an MPEG transport stream (framed, parsed, its tables assembled). Their
  timestamps are unwrapped and mapped to one canonical time line; a state machine governs when audio and video may run together.
  Outputs are RTP with sender reports, or a transport stream.

  \<^bold>\<open>Conventions.\<close> A class is a \<^theory_text>\<open>record\<close>, its member functions are functions that take and return the record, an enumeration is a
  \<^theory_text>\<open>datatype\<close>. \<^verbatim>\<open>Result<T>\<close> and \<^verbatim>\<open>Status\<close> are sums whose left side is the error category (the text of the message is not kept). Unsigned
  integers are words of their width, so their arithmetic wraps as in C++; signed 64-bit counts are \<^typ>\<open>int\<close> with the range tests the code
  makes (\<open>in_int64\<close>, \<open>INT64_MAX\<close>); sizes of containers are \<^typ>\<open>nat\<close>. An option result \<open>None\<close>, where an operation has it, stands for
  undefined behaviour (signed overflow among it) or \<^verbatim>\<open>std::terminate\<close>, and theorems show that it does not occur. Every loop is a terminating function on its data:
  no definition takes fuel. Memory allocation succeeds unless a parameter says otherwise. Code outside the repository (FFmpeg's packet
  allocation, the liveness of weak references, sinks and callbacks) is a parameter of the definitions that use it.

  \<^bold>\<open>The graph\<close> (\<^verbatim>\<open>core/\<close>, \<^verbatim>\<open>model/\<close>). \<^verbatim>\<open>Graph_Types\<close>: identifiers, kinds, descriptors, policies and the payload credit contract.
  \<^verbatim>\<open>Graph_Model\<close>: \<^verbatim>\<open>MediaGraph\<close>, \<^verbatim>\<open>MediaNode\<close>, \<^verbatim>\<open>MediaPort\<close>, \<^verbatim>\<open>MediaEdge\<close>. \<^verbatim>\<open>Graph_Invariant\<close>: every sequence of operations keeps the graph
  well-formed, and what connecting and removing do. \<^verbatim>\<open>Graph_Topology\<close> and \<^verbatim>\<open>Topology_Correct\<close>: \<^verbatim>\<open>MediaGraphTopology\<close>; the order exists exactly
  for acyclic graphs and respects the edges. \<^verbatim>\<open>Graph_Validation\<close>: \<^verbatim>\<open>MediaGraphValidation\<close> against a declarative specification.

  \<^bold>\<open>Time\<close> (\<^verbatim>\<open>utils/\<close>, \<^verbatim>\<open>time/\<close>, \<^verbatim>\<open>sync/MediaAvSyncStateMachine\<close>). \<^verbatim>\<open>Checked_Arithmetic\<close> and \<^verbatim>\<open>Running_Time\<close>: 64- and 128-bit arithmetic and the
  shared NTP epoch compute the exact rational results or fail. \<^verbatim>\<open>Timestamp_Unwrapper\<close>: a wrapped counter is unwrapped to the time line it
  came from. \<^verbatim>\<open>Canonical_Time_Mapper\<close>: the mapping to canonical time is exact. \<^verbatim>\<open>Sync_Error\<close> and \<^verbatim>\<open>Sync_State_Machine\<close>: a group runs only
  after a complete start-up of its generation.

  \<^bold>\<open>Synchronisation control\<close> (\<^verbatim>\<open>sync/\<close>, \<^verbatim>\<open>planner/avsync/\<close>, \<^verbatim>\<open>planner/realtime/\<close>). \<^verbatim>\<open>Audio_Correction\<close>: \<^verbatim>\<open>MediaAudioCorrectionQuantizer\<close>; compensation windows are
  contiguous and rounding never accumulates. \<^verbatim>\<open>Audio_Drift_Servo\<close>: \<^verbatim>\<open>MediaAudioDriftServo\<close>; no signed operation overflows, corrections are
  bounded in size and slew. \<^verbatim>\<open>AvSync_Plan\<close>: the synchronisation plan and \<^verbatim>\<open>MediaAvSyncPlanValidator\<close>. \<^verbatim>\<open>Correction_Planner\<close>:
  \<^verbatim>\<open>MediaAudioCorrectionReachabilityPlanner\<close>; the timing it plans passes the validator and, with one exception, the servo. \<^verbatim>\<open>Video_Sync_Controller\<close>:
  \<^verbatim>\<open>MediaVideoSyncController\<close>; frames are settled once and in order, recovery is bounded, held frames are decided in time.

  \<^bold>\<open>Queues\<close> (\<^verbatim>\<open>runtime/queue/\<close>). \<^verbatim>\<open>Queue_Interface\<close> has the queue vocabulary and the locale \<open>media_queue\<close>, the contract of a queue with its
  consequences (first in, first out; bounded; losses only by the overflow policy). \<^verbatim>\<open>Blocking_Queue_Storage\<close> and \<^verbatim>\<open>Blocking_Queue\<close>: the
  queue with deque or ring storage refines a list. \<^verbatim>\<open>Spsc_Ring_Queue\<close>: the lock-free ring. Both are interpretations of \<open>media_queue\<close>.
  \<^verbatim>\<open>Blocking_Queue_System\<close>: threads blocked in push and pop as an interleaving step relation; delivery and wake-ups. \<^verbatim>\<open>Media_Queue\<close>: factory,
  registry and inspector, and the theorems for whichever queue the factory chooses.

  \<^bold>\<open>Payload credit\<close> (\<^verbatim>\<open>runtime/resource/\<close>). \<^verbatim>\<open>Credit_Account\<close> and \<^verbatim>\<open>Credit_Ledger\<close>: \<^verbatim>\<open>MediaGraphPayloadCreditLedger\<close>, its leases and its waiting
  producers. \<^verbatim>\<open>Credit_Books\<close>: the books balance in every reachable ledger, calls stay within the plan, freed credit reaches a waiter.

  \<^bold>\<open>RTP\<close> (\<^verbatim>\<open>protocol/rtp/\<close>). \<^verbatim>\<open>Wire_Bytes\<close>: big-endian fields. \<^verbatim>\<open>Rtp_Packet\<close>: parser, rewriter and composer. \<^verbatim>\<open>Rtp_Reorder\<close>:
  \<^verbatim>\<open>MediaRtpReorderBuffer\<close> delivers in sequence order and reports the gaps. \<^verbatim>\<open>Video_Nal_Scanner\<close>, \<^verbatim>\<open>Video_Rtp_Packetizer\<close>,
  \<^verbatim>\<open>Video_Rtp_Depacketizer\<close>: H.264 and HEVC payloads. \<^verbatim>\<open>Video_Rtp_Roundtrip\<close> has the locale \<open>nal_payload_format\<close>, what the payload format of a
  codec promises, and proves inside it that streams are delivered and that losses are contained; \<^verbatim>\<open>Video_Rtp_Formats\<close> interprets it for
  both codecs. \<^verbatim>\<open>Video_Rtp_Limits\<close>: payload sizes, planned datagrams, buffered memory.
  \<^verbatim>\<open>Audio_Rtp_Depacketizer\<close>: AAC access units arrive as sent, and Opus durations are read exactly by the packet grammar of RFC 6716.

  \<^bold>\<open>RTCP\<close> (\<^verbatim>\<open>protocol/rtp/\<close>). \<^verbatim>\<open>Rtcp_Wire\<close>: output clock, CNAME text, composed reports and their planned size. \<^verbatim>\<open>Rtcp_Compound\<close>: the compound
  parser reads composed reports back. \<^verbatim>\<open>Rtcp_Tracker\<close>: \<^verbatim>\<open>MediaRtcpSenderReportTracker\<close>; one generation is one clock, and sender and receiver
  agree on it. \<^verbatim>\<open>Rtcp_Schedule\<close>: due reports are prepared and committed once.

  \<^bold>\<open>Transport stream\<close> (\<^verbatim>\<open>protocol/mpegts/\<close>). \<^verbatim>\<open>Ts_Packet_Parser\<close> and \<^verbatim>\<open>Ts_Framing\<close>: \<^verbatim>\<open>MediaTsPacketParser\<close>; without an incremental sink
  the cuts between chunks do not matter. \<^verbatim>\<open>Ts_Incremental\<close>: with one, as the input session has it, they do not matter whenever the chunks are
  all accepted; framing lost in a packet already announced is a failure only of the chunked push (\<open>framing_lost_example\<close>). \<^verbatim>\<open>Ts_Packet_Builder\<close>: logical units and clock references survive the wire. \<^verbatim>\<open>Ts_Mux_Plan\<close>, \<^verbatim>\<open>Ts_Psi\<close>, \<^verbatim>\<open>Ts_Psi_Tables\<close>: mux plan, table
  serializer, section assembler, and that a planned program inventory arrives.

  \<^verbatim>\<open>Prelude\<close> holds the types, results, collections and lemmas that the others share.

  \<^bold>\<open>Defects the theorems show.\<close> A producer waiting for room behind key frames spins after a close (\<open>keyframe_producer_spins\<close>); the ring queue
  may report the end of the stream although a buffer is queued (\<open>spsc_pop_misses_buffer\<close>); a granted producer that goes away strands a waiter
  (\<open>departed_grant_strands_waiter\<close>); a packetized access unit may need more datagrams than planned (\<open>datagram_bound_exceeded\<close>); the planned
  size of a sender report may be four bytes too small (\<open>rtcp_planned_size\<close>); a validated plan may be refused by the drift servo
  (\<open>planned_correction_admitted\<close>).

  \<^bold>\<open>Not modelled.\<close> Nodes that call FFmpeg codecs, filters, muxers and hardware frames, sockets and the threads that drive them, since
  their behaviour is that of the libraries; planners (but for the synchronisation plan) and builders for particular deployments, which assemble graphs from
  capability probes; of the transport stream the PES layer, emission schedule and sessions; of RTP the session
  description and source clock mappers; of synchronisation the start-up and reacquisition services, which coordinate threads around the modelled controllers; diagnostics, telemetry,
  the command line tools and the public beta interface.
\<close>

end
